(* ===== verification/Prelude.thy ===== *)
theory Prelude
  imports Main "HOL-Library.Word" "HOL-Library.Monad_Syntax"
begin

text \<open>
  Shared vocabulary of the clean_os development: the C integer types of
  \<open>common/types/basic.h\<close>, the convention for faults, and the generic lemmas on words,
  lists and options that the components use.

  Conventions.  A \<open>uintN_t\<close> is an \<open>N word\<close> where the code computes with it modulo
  \<open>2 ^ N\<close>; array indices and byte counts whose values are bounded by an array length are
  \<open>nat\<close>.  A computation that can read or write outside an array, dereference NULL or
  divide by zero returns an \<open>option\<close>: \<open>None\<close> is the fault, so that a theorem that gives
  \<open>Some\<close> also says that the code does not fault.
\<close>

unbundle bit_operations_syntax

type_synonym u8 = "8 word"
type_synonym u16 = "16 word"
type_synonym u32 = "32 word"
type_synonym u64 = "64 word"

named_theorems word_bounds \<open>no-wrap facts about machine words\<close>
named_theorems heap_simps \<open>reading and writing the node heap\<close>

definition nth_opt :: "'a list \<Rightarrow> nat \<Rightarrow> 'a option" where
  "nth_opt xs i = (if i < length xs then Some (xs ! i) else None)"

definition upd_opt :: "'a list \<Rightarrow> nat \<Rightarrow> 'a \<Rightarrow> 'a list option" where
  "upd_opt xs i v = (if i < length xs then Some (xs[i := v]) else None)"

section \<open>Words\<close>

lemma word_mod_le: "(a :: 'a::len word) mod b \<le> a"
  by (simp add: word_le_nat_alt unat_mod_distrib)

lemma unat_sub_mod [simp]:
  "unat ((a :: 'a::len word) - a mod b) = unat a - unat a mod unat b"
  by (simp add: unat_sub word_mod_le unat_mod_distrib)

lemma unat_of_nat_small [word_bounds]:
  "n < 2 ^ LENGTH('a) \<Longrightarrow> unat (of_nat n :: 'a::len word) = n"
  by (simp only: unat_of_nat mod_less)

lemma unat_add_small [word_bounds]:
  "unat a + unat b < 2 ^ LENGTH('a) \<Longrightarrow> unat (a + b :: 'a::len word) = unat a + unat b"
  by (simp add: unat_plus_if')

lemma unat_mult_small [word_bounds]:
  "unat a * unat b < 2 ^ LENGTH('a) \<Longrightarrow> unat (a * b :: 'a::len word) = unat a * unat b"
  by (simp add: unat_word_ariths)

section \<open>Natural numbers\<close>

lemma long_division:
  fixes a b d B :: nat
  assumes "0 < d"
  shows "(a * B + b) div d = (a div d) * B + ((a mod d) * B + b) div d"
    and "(a * B + b) mod d = ((a mod d) * B + b) mod d"
proof -
  have "a * B + b = ((a mod d) * B + b) + d * ((a div d) * B)"
    by (metis (no_types, lifting) add.commute add.left_commute add_mult_distrib div_mult_mod_eq
        mult.commute mult.left_commute)
  note * = arg_cong[OF this, of "\<lambda>x. x div d"] arg_cong[OF this, of "\<lambda>x. x mod d"]
  show "(a * B + b) div d = (a div d) * B + ((a mod d) * B + b) div d"
    and "(a * B + b) mod d = ((a mod d) * B + b) mod d"
    using * assms by simp_all
qed

lemma Suc_div_dvd: "Suc n div d = n div d + (if d dvd Suc n then 1 else 0)"
  by (simp add: div_Suc dvd_eq_mod_eq_0)

section \<open>Checked list access\<close>

lemma nth_opt_Some [simp]: "i < length xs \<Longrightarrow> nth_opt xs i = Some (xs ! i)"
  by (simp add: nth_opt_def)

lemma nth_opt_None [simp]: "length xs \<le> i \<Longrightarrow> nth_opt xs i = None"
  by (simp add: nth_opt_def)

lemma upd_opt_Some [simp]: "i < length xs \<Longrightarrow> upd_opt xs i v = Some (xs[i := v])"
  by (simp add: upd_opt_def)

end
