(* ===== verification/Math_Util.thy ===== *)
theory Math_Util
  imports Prelude
begin

text \<open>
  The arithmetic helpers of \<open>common/tool/math.h\<close>: rounding to a multiple, integer powers,
  the power test used by the ext2 driver and the 64-by-32-bit division built on the
  \<open>divl\<close> instruction.  Division by zero and the overflow of \<open>divl\<close> raise the divide
  error of the processor: \<open>None\<close>.
\<close>

section \<open>Model of \<open>common/tool/math.h\<close>\<close>

definition down2 :: "u32 \<Rightarrow> u32 \<Rightarrow> u32 option" where
  "down2 origin bound = (if bound = 0 then None else Some (origin - origin mod bound))"

definition up2 :: "u32 \<Rightarrow> u32 \<Rightarrow> u32 option" where
  "up2 origin bound =
     (if bound = 0 then None
      else if origin mod bound = 0 then Some origin
      else do { d \<leftarrow> down2 origin bound; Some (d + bound) })"

fun pow_loop :: "u32 \<Rightarrow> nat \<Rightarrow> u32 \<Rightarrow> u32" where
  "pow_loop x 0 ret = ret"
| "pow_loop x (Suc n) ret = pow_loop x n (ret * x)"

definition pow :: "u32 \<Rightarrow> u32 \<Rightarrow> u32" where
  "pow x y = pow_loop x (unat y) 1"

text \<open>
  The loop of \<open>is_pow\<close> does not stop for \<open>y = 1\<close> and \<open>x > 1\<close>; \<open>None\<close> is both that and
  the divide error of \<open>y = 0\<close>.
\<close>

partial_function (option) is_pow_loop :: "u32 \<Rightarrow> u32 \<Rightarrow> bool option" where
  "is_pow_loop x y =
     (if y = 0 then None
      else if x div y = 1 then Some True
      else if x div y = 0 then Some False
      else is_pow_loop (x div y) y)"

definition is_pow :: "u32 \<Rightarrow> u32 \<Rightarrow> bool option" where
  "is_pow x y = (if x = 1 then Some True else is_pow_loop x y)"

text \<open>
  The x86 instruction \<open>divl d\<close> divides \<open>edx:eax\<close> by \<open>d\<close> and raises the divide error
  when \<open>d = 0\<close> or the quotient does not fit in 32 bits.
\<close>

definition divl :: "u32 \<Rightarrow> u32 \<Rightarrow> u32 \<Rightarrow> (u32 \<times> u32) option" where
  "divl hi lo d =
     (let n = unat hi * 2 ^ 32 + unat lo
      in if d = 0 \<or> n div unat d \<ge> 2 ^ 32 then None
         else Some (of_nat (n div unat d), of_nat (n mod unat d)))"

text \<open>The union of a \<open>uint64_t\<close> with \<open>uint32_t[2]\<close>, little endian.\<close>

definition u64_of_halves :: "u32 \<Rightarrow> u32 \<Rightarrow> u64" where
  "u64_of_halves hi lo = of_nat (unat hi * 2 ^ 32 + unat lo)"

definition div_u64_rem :: "u64 \<Rightarrow> u32 \<Rightarrow> (u64 \<times> u32) option" where
  "div_u64_rem dividend divisor =
     (let lo = ucast dividend; upper = ucast (drop_bit 32 dividend)
      in if divisor = 0 then None
         else let hi' = (if upper \<ge> divisor then upper div divisor else 0);
                  upper' = (if upper \<ge> divisor then upper mod divisor else upper)
              in do {
                (q, r) \<leftarrow> divl upper' lo divisor;
                Some (u64_of_halves hi' q, r)
              })"

definition mul_u32_u32 :: "u32 \<Rightarrow> u32 \<Rightarrow> u64" where
  "mul_u32_u32 a b =
     (let p = unat a * unat b; low = (of_nat p :: u32); high = (of_nat (p div 2 ^ 32) :: u32)
      in ucast low OR push_bit 32 (ucast high))"

section \<open>Rounding and powers\<close>

lemma up2_eq:
  assumes "bound \<noteq> 0"
  shows "up2 origin bound =
    Some (if origin mod bound = 0 then origin else origin - origin mod bound + bound)"
  using assms by (simp add: up2_def down2_def)

lemma unat_mod_0 [simp]: "unat (a mod b) = 0 \<longleftrightarrow> a mod b = 0"
  by (rule unat_0_iff)

text \<open>
  \<open>up2\<close> (\<open>math.h\<close>) returns, for a non-zero bound, the least multiple of the bound
  that is not below the argument, whenever that multiple fits in 32 bits.
\<close>

theorem up2_least_multiple:
  assumes "bound \<noteq> 0" and "unat origin + unat bound < 2 ^ 32"
  shows "\<exists>r. up2 origin bound = Some r \<and> unat bound dvd unat r \<and> unat origin \<le> unat r
             \<and> unat r < unat origin + unat bound"
proof (cases "origin mod bound = 0")
  case True
  then have "unat bound dvd unat origin"
    by (metis dvd_eq_mod_eq_0 unat_0_iff unat_mod_distrib)
  with True assms show ?thesis by (simp add: up2_eq unat_gt_0)
next
  case False
  define r where "r = origin - origin mod bound + bound"
  have m: "0 < unat origin mod unat bound"
    using False by (metis unat_gt_0 unat_mod_distrib)
  have r: "unat r = (unat origin - unat origin mod unat bound) + unat bound"
    unfolding r_def using assms(2) by (subst unat_add_small) simp_all
  have "unat bound dvd unat r" unfolding r by (intro dvd_add dvd_minus_mod dvd_refl)
  moreover have "unat origin mod unat bound < unat bound"
    using assms(1) by (simp add: unat_gt_0)
  ultimately show ?thesis
    using False assms(1) m mod_less_eq_dividend[of "unat origin" "unat bound"] r
    by (auto simp: up2_eq r_def[symmetric])
qed

theorem up2_least_multiple_witness:
  "\<exists>r. up2 5000 4096 = Some r \<and> 4096 dvd unat r \<and> 5000 \<le> unat r \<and> unat r < 9096"
  using up2_least_multiple[of 4096 5000] by simp

lemma pow_loop_eq: "pow_loop x n r = r * x ^ n"
  by (induction n arbitrary: r) (simp_all add: mult.assoc)

lemma unat_pow: "unat (pow x y) = (unat x ^ unat y) mod 2 ^ 32"
proof -
  have "x ^ unat y = of_nat (unat x ^ unat y)" by simp
  then have "unat (x ^ unat y) = (unat x ^ unat y) mod 2 ^ LENGTH(32)"
    by (simp only: unat_of_nat)
  then show ?thesis by (simp add: pow_def pow_loop_eq)
qed

lemma is_pow_loop_iff:
  assumes "2 \<le> y"
  shows "is_pow_loop x y = Some (\<exists>k\<ge>1. unat y ^ k \<le> unat x \<and> unat x < 2 * unat y ^ k)"
proof (induction "unat x" arbitrary: x rule: less_induct)
  case less
  have y: "1 < unat y" "y \<noteq> 0" using assms by (auto simp: word_le_nat_alt)
  have nk: "unat y \<le> unat y ^ k" if "1 \<le> k" for k
    using that y(1) by (simp add: self_le_power)
  consider (one) "unat x div unat y = 1" | (zero) "unat x div unat y = 0"
    | (more) "2 \<le> unat x div unat y" by linarith
  then show ?case
  proof cases
    case one
    then have "x div y = 1" by (simp add: word_unat_eq_iff unat_div_distrib)
    moreover have "unat y ^ 1 \<le> unat x \<and> unat x < 2 * unat y ^ 1"
      using one y by (metis (no_types, lifting) dividend_less_times_div gr_implies_not_zero
          less_eq_div_iff_mult_less_eq less_or_eq_imp_le mult_1 mult_Suc_right mult.commute
          numeral_2_eq_2 power_one_right not_gr_zero div_less_iff_less_mult One_nat_def lessI)
    ultimately show ?thesis using y by (subst is_pow_loop.simps) auto
  next
    case zero
    then have "x div y = 0" by (simp add: word_unat_eq_iff unat_div_distrib)
    moreover have "unat x < unat y" using zero y by (simp add: div_eq_0_iff)
    then have "\<not> (\<exists>k\<ge>1. unat y ^ k \<le> unat x \<and> unat x < 2 * unat y ^ k)"
      using nk by (meson le_trans not_le)
    ultimately show ?thesis using y by (subst is_pow_loop.simps) auto
  next
    case more
    then have ne: "x div y \<noteq> 0" "x div y \<noteq> 1" by (auto simp: word_unat_eq_iff unat_div_distrib)
    have big: "2 * unat y \<le> unat x" using more y by (simp add: less_eq_div_iff_mult_less_eq)
    have "unat (x div y) < unat x" using big y by (simp add: unat_div_distrib)
    note IH = less[OF this]
    have "(\<exists>k\<ge>1. unat y ^ k \<le> unat (x div y) \<and> unat (x div y) < 2 * unat y ^ k)
        \<longleftrightarrow> (\<exists>k\<ge>1. unat y ^ Suc k \<le> unat x \<and> unat x < 2 * unat y ^ Suc k)"
      using y by (simp add: unat_div_distrib less_eq_div_iff_mult_less_eq div_less_iff_less_mult
          mult.commute mult.assoc mult.left_commute)
    also have "\<dots> \<longleftrightarrow> (\<exists>k\<ge>1. unat y ^ k \<le> unat x \<and> unat x < 2 * unat y ^ k)" (is "?A \<longleftrightarrow> ?B")
    proof
      assume ?B
      then obtain k where k: "1 \<le> k" "unat y ^ k \<le> unat x" "unat x < 2 * unat y ^ k" by blast
      with big have "k \<noteq> 1" by auto
      with k show ?A by (intro exI[of _ "k - 1"]) (auto simp del: power_Suc)
    qed (meson le_SucI)
    finally show ?thesis using y ne IH by (subst is_pow_loop.simps) simp
  qed
qed

text \<open>
  \<open>is_pow\<close> (\<open>math.h\<close>) always returns for a base of at least two, and it answers true
  exactly when the leading digit of \<open>x\<close> in base \<open>y\<close> is 1: not only for the powers of
  \<open>y\<close> but for every \<open>x\<close> with \<open>y ^ k \<le> x < 2 * y ^ k\<close>.
\<close>

theorem is_pow_characterised:
  assumes "2 \<le> y"
  shows "is_pow x y = Some (\<exists>k. unat y ^ k \<le> unat x \<and> unat x < 2 * unat y ^ k)"
proof (cases "x = 1")
  case True
  then show ?thesis by (auto simp: is_pow_def intro!: exI[of _ 0])
next
  case False
  have "(\<exists>k\<ge>1. unat y ^ k \<le> unat x \<and> unat x < 2 * unat y ^ k)
      \<longleftrightarrow> (\<exists>k. unat y ^ k \<le> unat x \<and> unat x < 2 * unat y ^ k)"
  proof
    assume "\<exists>k. unat y ^ k \<le> unat x \<and> unat x < 2 * unat y ^ k"
    then obtain k where k: "unat y ^ k \<le> unat x" "unat x < 2 * unat y ^ k" by blast
    have "k \<noteq> 0"
    proof
      assume "k = 0"
      with k have "unat x = 1" by simp
      with False show False by (simp add: word_unat_eq_iff)
    qed
    with k show "\<exists>k\<ge>1. unat y ^ k \<le> unat x \<and> unat x < 2 * unat y ^ k" by (auto intro!: exI[of _ k])
  qed blast
  with False show ?thesis by (simp add: is_pow_def is_pow_loop_iff[OF assms])
qed

theorem is_pow_characterised_witness: "is_pow 5 2 = Some True \<and> is_pow 7 3 = Some False"
proof -
  have "is_pow 5 2 = Some True"
    unfolding is_pow_characterised[of 2 5, simplified] by (simp, rule exI[of _ 2], simp)
  moreover have "is_pow 7 3 = Some False" by (simp add: is_pow_def is_pow_loop.simps)
  ultimately show ?thesis by simp
qed

section \<open>64-by-32-bit division\<close>

lemma divl_lt:
  assumes "d \<noteq> 0" "hi < d"
  shows "(unat hi * 2 ^ 32 + unat (lo :: u32)) div unat (d :: u32) < 2 ^ 32"
proof -
  have "unat hi * 2 ^ 32 + unat lo < unat d * 2 ^ 32"
    using assms(2) unsigned_less[of lo, where ?'a=nat] by (simp add: word_less_nat_alt)
  then show ?thesis
    using assms(1) by (simp add: less_mult_imp_div_less mult.commute)
qed

lemma divl_ok:
  assumes "d \<noteq> 0" "hi < d"
  shows "divl hi lo d = Some (of_nat ((unat hi * 2 ^ 32 + unat lo) div unat d),
                              of_nat ((unat hi * 2 ^ 32 + unat lo) mod unat d))"
  using divl_lt[OF assms, of lo] assms by (simp add: divl_def Let_def)

lemma u64_split:
  "unat (n :: u64) = unat (ucast (drop_bit 32 n) :: u32) * 2 ^ 32 + unat (ucast n :: u32)"
proof -
  have "unat n div 2 ^ 32 < 2 ^ 32"
    using unsigned_less[of n, where ?'a=nat] by (simp add: div_less_iff_less_mult)
  then have "unat (ucast (drop_bit 32 n) :: u32) = unat n div 2 ^ 32"
    by (simp add: unsigned_ucast_eq take_bit_eq_mod drop_bit_eq_div unat_div_distrib)
  moreover have "unat (ucast n :: u32) = unat n mod 2 ^ 32"
    by (simp add: unsigned_ucast_eq take_bit_eq_mod)
  ultimately show ?thesis by (simp only: div_mult_mod_eq)
qed

lemma unat_u64_of_halves: "unat (u64_of_halves h l) = unat h * 2 ^ 32 + unat l"
proof -
  have "unat h * 2 ^ 32 + unat l < 2 ^ LENGTH(64)"
    using unsigned_less[of h, where ?'a=nat] unsigned_less[of l, where ?'a=nat] by simp
  then show ?thesis unfolding u64_of_halves_def by (rule unat_of_nat_small)
qed

lemma div_u64_rem_total:
  assumes "divisor \<noteq> 0"
  shows "\<exists>q r. div_u64_rem dividend divisor = Some (q, r) \<and>
           unat q = unat dividend div unat divisor \<and> unat r = unat dividend mod unat divisor"
proof -
  define up where "up = (ucast (drop_bit 32 dividend) :: u32)"
  define lo where "lo = (ucast dividend :: u32)"
  define n where "n = unat (up mod divisor) * 2 ^ 32 + unat lo"
  have split: "unat dividend = unat up * 2 ^ 32 + unat lo"
    unfolding up_def lo_def by (rule u64_split)
  have d: "0 < unat divisor" using assms by (simp add: unat_gt_0)
  have ge: "(if up \<ge> divisor then up div divisor else 0) = up div divisor"
    "(if up \<ge> divisor then up mod divisor else up) = up mod divisor"
    by (auto simp: word_le_nat_alt unat_div_distrib unat_mod_distrib word_unat_eq_iff not_le)
  have lt: "up mod divisor < divisor"
    using d by (simp add: word_less_nat_alt unat_mod_distrib)
  have nb: "n div unat divisor < 2 ^ LENGTH(32)" "n mod unat divisor < 2 ^ LENGTH(32)"
    using divl_lt[OF assms lt, of lo] less_trans[OF mod_less_divisor[OF d] unsigned_less]
    by (simp_all add: n_def)
  have "div_u64_rem dividend divisor =
      Some (u64_of_halves (up div divisor) (of_nat (n div unat divisor)), of_nat (n mod unat divisor))"
    using assms unfolding div_u64_rem_def Let_def up_def[symmetric] lo_def[symmetric] ge
    by (simp add: divl_ok[OF assms lt] n_def)
  moreover have "unat (u64_of_halves (up div divisor) (of_nat (n div unat divisor)))
      = unat dividend div unat divisor"
    unfolding unat_u64_of_halves unat_of_nat_small[OF nb(1)] split
    by (subst long_division(1)[OF d]) (simp add: n_def unat_div_distrib unat_mod_distrib)
  moreover have "unat (of_nat (n mod unat divisor) :: u32) = unat dividend mod unat divisor"
    unfolding unat_of_nat_small[OF nb(2)] split
    by (subst long_division(2)[OF d]) (simp add: n_def unat_mod_distrib)
  ultimately show ?thesis by blast
qed

lemma div_u64_rem_of_nat:
  assumes "divisor \<noteq> 0" "n < 2 ^ 64"
  shows "div_u64_rem (of_nat n) divisor =
    Some (of_nat (n div unat divisor), of_nat (n mod unat divisor))"
proof -
  have "unat (of_nat n :: u64) = n" using assms(2) by (intro unat_of_nat_small) simp
  with div_u64_rem_total[OF assms(1), of "of_nat n"] show ?thesis
    by (metis of_nat_unat ucast_id)
qed

text \<open>
  \<open>div_u64_rem\<close> (\<open>math.h\<close>) never raises the divide error for a non-zero divisor and
  returns the exact 64-bit quotient and remainder: the high half is reduced first, so the
  quotient of the \<open>divl\<close> instruction always fits.
\<close>

theorem div_u64_rem_exact:
  assumes "divisor \<noteq> 0"
  shows "\<exists>q r. div_u64_rem dividend divisor = Some (q, r) \<and>
           unat q = unat dividend div unat divisor \<and> unat r = unat dividend mod unat divisor"
  using assms by (rule div_u64_rem_total)

theorem div_u64_rem_exact_witness:
  "\<exists>q r. div_u64_rem 0x1234567890ABCDEF 1000 = Some (q, r) \<and>
     unat q = 0x1234567890ABCDEF div 1000 \<and> unat r = 0x1234567890ABCDEF mod 1000"
  using div_u64_rem_exact[of 1000 "0x1234567890ABCDEF"] by simp

end
