(* ===== verification/Datetime.thy ===== *)
theory Datetime
  imports Math_Util
begin

text \<open>
  Conversion between calendar dates and seconds since 1970 (\<open>common/tool/datetime.h\<close>), used by
  the CMOS clock driver and by the file systems for time stamps.  \<open>mktime64\<close> computes in
  \<open>unsigned int\<close> (32-bit words) up to the cast to \<open>time64_t\<close>; \<open>mkdatetime\<close> divides with
  \<open>div_u64_rem\<close>, and its table access \<open>days[month]\<close> is checked (\<open>None\<close> past December).
  The reference is the Gregorian calendar: lengths of years and months added up from 1970.
\<close>

section \<open>Model of \<open>common/tool/datetime.h\<close>\<close>

definition mktime64 :: "u32 \<Rightarrow> u32 \<Rightarrow> u32 \<Rightarrow> u32 \<Rightarrow> u32 \<Rightarrow> u32 \<Rightarrow> int" where
  "mktime64 year0 mon0 day hour minute sec =
     (let mon1 = mon0 - 2;
          mon = (if sint mon1 \<le> 0 then mon1 + 12 else mon1);
          year = (if sint mon1 \<le> 0 then year0 - 1 else year0)
      in (((uint (year div 4 - year div 100 + year div 400 + 367 * mon div 12 + day)
            + uint (year * 365) - 719499) * 24 + uint hour) * 60 + uint minute) * 60 + uint sec)"

record datetime_t =
  dt_year :: int
  dt_month :: int
  dt_day :: int
  dt_hour :: int
  dt_minute :: int
  dt_second :: int

definition hours_per_year :: "int \<Rightarrow> int" where
  "hours_per_year year = (if year AND 3 = 0 then 365 * 24 + 24 else 365 * 24)"

function year_loop :: "int \<Rightarrow> int \<Rightarrow> int \<times> int" where
  "year_loop year time =
     (if time < hours_per_year year then (year, time)
      else year_loop (year + 1) (time - hours_per_year year))"
  by pat_completeness auto
termination
  by (relation "measure (\<lambda>(y, t). nat (t + 1))") (auto simp: hours_per_year_def split: if_splits)

definition month_days :: "int list" where
  "month_days = [31, 28, 31, 30, 31, 30, 31, 31, 30, 31, 30, 31]"

fun month_loop :: "int list \<Rightarrow> int \<Rightarrow> int \<Rightarrow> (int \<times> int) option" where
  "month_loop [] month time = None"
| "month_loop (d # ds) month time =
     (if d < time then month_loop ds (month + 1) (time - d) else Some (month, time))"

definition mkdatetime :: "int \<Rightarrow> datetime_t option" where
  "mkdatetime time0 = do {
     (time1, second) \<leftarrow> div_u64_rem (of_int time0) 60;
     (time2, minute) \<leftarrow> div_u64_rem time1 60;
     (year4, remainder) \<leftarrow> div_u64_rem time2 (1461 * 24);
     let year0 = 1970 + sint (ucast year4 :: u32) * 4;
     let (year, hours) = year_loop year0 (uint remainder);
     (days, hour) \<leftarrow> div_u64_rem (of_int hours) 24;
     let time = sint days + 1;
     let dt = \<lparr>dt_year = year, dt_month = 0, dt_day = 0, dt_hour = uint hour,
               dt_minute = uint minute, dt_second = uint second\<rparr>;
     if year AND 3 = 0 \<and> time = 60 then Some (dt\<lparr>dt_month := 1, dt_day := 29\<rparr>)
     else do {
       (month, day) \<leftarrow> month_loop month_days 0 (if year AND 3 = 0 \<and> time > 60 then time - 1 else time);
       Some (dt\<lparr>dt_month := month, dt_day := day\<rparr>)
     }
   }"

record timespec_t =
  tv_sec :: u64
  tv_nsec :: u64

definition timespec2ms :: "timespec_t \<Rightarrow> u64 option" where
  "timespec2ms ts = do {
     (ms, rem) \<leftarrow> div_u64_rem (tv_nsec ts) 1000000;
     Some (tv_sec ts * 1000 + ms)
   }"

section \<open>Reference: the Gregorian calendar\<close>

definition leap :: "nat \<Rightarrow> bool" where
  "leap y \<longleftrightarrow> (4 dvd y \<and> \<not> 100 dvd y) \<or> 400 dvd y"

definition year_len :: "nat \<Rightarrow> nat" where
  "year_len y = (if leap y then 366 else 365)"

definition month_len :: "nat \<Rightarrow> nat \<Rightarrow> nat" where
  "month_len y m = (if m = 2 then (if leap y then 29 else 28)
     else if m \<in> {4, 6, 9, 11} then 30 else 31)"

definition year_start :: "nat \<Rightarrow> nat" where
  "year_start y = (\<Sum>k = 1970..<y. year_len k)"

definition month_start :: "nat \<Rightarrow> nat \<Rightarrow> nat" where
  "month_start y m = (\<Sum>k = 1..<m. month_len y k)"

definition days_from_epoch :: "nat \<Rightarrow> nat \<Rightarrow> nat" where
  "days_from_epoch y m = year_start y + month_start y m"

definition leaps :: "nat \<Rightarrow> nat" where
  "leaps n = n div 4 - n div 100 + n div 400"

definition civil :: "nat \<Rightarrow> nat \<Rightarrow> nat \<Rightarrow> nat \<Rightarrow> nat \<Rightarrow> nat \<Rightarrow> datetime_t" where
  "civil y m d h mi s = \<lparr>dt_year = int y, dt_month = int m - 1, dt_day = int d,
     dt_hour = int h, dt_minute = int mi, dt_second = int s\<rparr>"

definition valid_date :: "nat \<Rightarrow> nat \<Rightarrow> nat \<Rightarrow> bool" where
  "valid_date y m d \<longleftrightarrow> 1 \<le> m \<and> m \<le> 12 \<and> 1 \<le> d \<and> d \<le> month_len y m"

section \<open>The day number of \<open>mktime64\<close>\<close>

lemma leaps_Suc: "leaps (Suc n) = leaps n + (if leap (Suc n) then 1 else 0)"
proof -
  have le: "n div 100 \<le> n div 4" by (simp add: div_le_mono2)
  have "400 dvd Suc n \<Longrightarrow> 100 dvd Suc n" "100 dvd Suc n \<Longrightarrow> 4 dvd Suc n"
    by (auto elim!: dvd_trans[rotated])
  then show ?thesis
    using le unfolding leaps_def leap_def Suc_div_dvd by simp
qed

lemma year_days: "year_start (1970 + n) + 477 = 365 * n + leaps (1969 + n)"
proof (induction n)
  case 0
  show ?case by (simp add: leaps_def year_start_def)
next
  case (Suc n)
  have "year_start (1970 + Suc n) = year_start (1970 + n) + year_len (1970 + n)"
    unfolding add_Suc_right year_start_def by (rule sum.op_ivl_Suc[THEN trans]) simp
  moreover have "leaps (1969 + Suc n) = leaps (1969 + n) + (if leap (1970 + n) then 1 else 0)"
    using leaps_Suc[of "1969 + n"] by simp
  ultimately show ?case using Suc.IH by (simp add: year_len_def)
qed

lemma unat_leaps: "unat (y div 4 - y div 100 + y div 400 :: u32) = leaps (unat y)"
proof -
  have "y div 100 \<le> y div 4" by (simp add: word_le_nat_alt unat_div_distrib div_le_mono2)
  then have s: "unat (y div 4 - y div 100) = unat y div 4 - unat y div 100"
    by (simp add: unat_sub unat_div_distrib)
  have "unat y div 400 \<le> unat y div 100" by (simp add: div_le_mono2)
  then have "unat y div 4 - unat y div 100 + unat y div 400 \<le> unat y" by linarith
  then have "unat y div 4 - unat y div 100 + unat y div 400 < 2 ^ LENGTH(32)"
    using unsigned_less[of y, where ?'a=nat] by simp
  then show ?thesis
    by (simp add: leaps_def unat_plus_if' s unat_div_distrib)
qed

lemma mktime64_day_number:
  assumes "unat y \<le> 1000000" "unat d \<le> 1000000" "unat c \<le> 1000000"
  shows "uint (y div 4 - y div 100 + y div 400 + c + d :: u32) = int (leaps (unat y) + unat c + unat d)"
    and "uint (y * 365) = 365 * int (unat y)"
proof -
  define z where "z = y div 4 - y div 100 + y div 400"
  have z: "unat z = leaps (unat y)" unfolding z_def by (rule unat_leaps)
  have "leaps (unat y) \<le> unat y"
    unfolding leaps_def using div_le_mono2[of 100 400 "unat y"] by linarith
  then have "unat z + unat c < 2 ^ LENGTH(32)" "unat z + unat c + unat d < 2 ^ LENGTH(32)"
    using assms z by simp_all
  then have "unat (z + c + d) = leaps (unat y) + unat c + unat d"
    by (simp only: unat_add_small z)
  then show "uint (y div 4 - y div 100 + y div 400 + c + d :: u32) = int (leaps (unat y) + unat c + unat d)"
    unfolding z_def[symmetric] uint_nat by simp
  have "unat y * unat (365 :: u32) < 2 ^ LENGTH(32)" using assms(1) by simp
  then have "unat (y * 365) = unat y * unat (365 :: u32)" by (rule unat_mult_small)
  then show "uint (y * 365) = 365 * int (unat y)" unfolding uint_nat by simp
qed

lemma year_days':
  assumes "1970 \<le> y"
  shows "int (year_start y) = 365 * int (y - 1970) + int (leaps (y - 1)) - 477"
  using year_days[of "y - 1970"] assms by simp


lemma months_sum:
  assumes "1 \<le> m" "m \<le> 12"
  shows "month_start y m =
     (if m = 1 then 0 else if m = 2 then 31
      else 367 * (m - 2) div 12 + 29 + (if leap y then 1 else 0))"
proof -
  have "m \<in> {1,2,3,4,5,6,7,8,9,10,11,12}" using assms by (simp; arith)
  moreover have step: "month_start y (Suc n) = month_start y n + month_len y n"
    if "1 \<le> n" for n using that by (simp add: month_start_def)
  moreover have "month_start y 1 = 0" "month_start y 2 = 31"
    by (simp_all add: month_start_def month_len_def numeral_2_eq_2)
  moreover note step[of 2] step[of 3] step[of 4] step[of 5] step[of 6] step[of 7] step[of 8]
    step[of 9] step[of 10] step[of 11]
  ultimately show ?thesis
    by (elim insertE emptyE) (simp_all add: month_len_def)
qed

lemma mktime64_month:
  fixes m :: u32
  assumes "1 \<le> unat m" "unat m \<le> 12"
  shows "sint (m - 2) \<le> 0 \<longleftrightarrow> unat m \<le> 2"
    and "unat (367 * (m - 2 + 12) div 12) = (if unat m = 1 then 336 else if unat m = 2 then 367 else unat (367 * (m - 2 + 12) div 12))"
    and "2 < unat m \<Longrightarrow> unat (367 * (m - 2) div 12) = 367 * (unat m - 2) div 12"
proof -
  have "unat m \<in> {1,2,3,4,5,6,7,8,9,10,11,12}" using assms by (simp; arith)
  then have "m \<in> {1,2,3,4,5,6,7,8,9,10,11,12}" by (auto simp: word_unat_eq_iff)
  then show "sint (m - 2) \<le> 0 \<longleftrightarrow> unat m \<le> 2"
    and "unat (367 * (m - 2 + 12) div 12) = (if unat m = 1 then 336 else if unat m = 2 then 367 else unat (367 * (m - 2 + 12) div 12))"
    and "2 < unat m \<Longrightarrow> unat (367 * (m - 2) div 12) = 367 * (unat m - 2) div 12"
    by (elim insertE emptyE; simp)+
qed

lemma mktime64_eq:
  assumes "1970 \<le> unat y" "unat y \<le> 1000000" "1 \<le> unat m" "unat m \<le> 12" "unat d \<le> 1000000"
  shows "mktime64 y m d h mi s =
    (((int (days_from_epoch (unat y) (unat m)) + int (unat d) - 1) * 24 + uint h) * 60 + uint mi) * 60 + uint s"
proof (cases "unat m \<le> 2")
  case False
  have mon: "367 * (unat m - 2) div 12 \<le> 1000000" using assms(4) by linarith
  have l: "leaps (unat y) = leaps (unat y - 1) + (if leap (unat y) then 1 else 0)"
    using leaps_Suc[of "unat y - 1"] assms(1) by (simp)
  from False have "\<not> sint (m - 2) \<le> 0" using assms by (simp add: mktime64_month)
  moreover have "unat (367 * (m - 2) div 12) = 367 * (unat m - 2) div 12" 
    using assms False by (intro mktime64_month) auto
  ultimately show ?thesis
    using False assms mon unfolding mktime64_def Let_def days_from_epoch_def
    by (simp add: mktime64_day_number year_days' months_sum l)
next
  case True
  define y' where "y' = y - 1"
  have y1: "unat y' = unat y - 1" unfolding y'_def using assms(1) by (intro unat_minus_one) auto
  have yd: "int (year_start (unat y)) = 365 * int (unat y') + int (leaps (unat y')) - 719162"
    using year_days'[of "unat y"] assms(1) y1 by (simp)
  have "sint (m - 2) \<le> 0" using True assms by (simp add: mktime64_month)
  moreover have "unat (367 * (m - 2 + 12) div 12) = (if unat m = 1 then 336 else 367)"
    using True assms mktime64_month(2)[of m] by auto
  moreover have "unat y' \<le> 1000000" using y1 assms(2) by simp
  ultimately show ?thesis
    using True assms yd unfolding mktime64_def Let_def days_from_epoch_def y'_def[symmetric]
    by (simp add: mktime64_day_number months_sum)
qed

section \<open>The loops of \<open>mkdatetime\<close>\<close>

lemma and_3: "(x::int) AND 3 = x mod 4"
  using take_bit_eq_mask[of 2 x] by (simp add: take_bit_eq_mod mask_eq_exp_minus_1)

declare year_loop.simps [simp del]

lemma year_start_cycle:
  assumes "n < 130"
  shows "year_start (1970 + n) = 1461 * (n div 4) + 365 * (n mod 4) + (if n mod 4 = 3 then 1 else 0)"
proof -
  have "leaps (1969 + n) = (1969 + n) div 4 - 15"
  proof (cases "1969 + n < 2000")
    case True
    then have "(1969 + n) div 100 = 19" "(1969 + n) div 400 = 4" by simp_all
    then show ?thesis by (simp add: leaps_def)
  next
    case False
    with assms have "(1969 + n) div 100 = 20" "(1969 + n) div 400 = 5" by simp_all
    then show ?thesis by (simp add: leaps_def)
  qed
  moreover have "(1969 + n) div 4 = 492 + (n + 1) div 4" by presburger
  moreover have "(n + 1) div 4 = n div 4 + (if n mod 4 = 3 then 1 else 0)" by presburger
  moreover have n: "365 * n = 1460 * (n div 4) + 365 * (n mod 4)"
    using mult_div_mod_eq[of 4 n] by linarith
  ultimately show ?thesis
    using year_days[of n] by (simp add: n)
qed

lemma leap_2099: "1970 \<le> y \<Longrightarrow> y < 2100 \<Longrightarrow> leap y \<longleftrightarrow> y mod 4 = 0"
  unfolding leap_def by presburger

lemma year_loop_cycle:
  assumes "j < 4" "t < 24 * int (year_len (1970 + 4 * q + j))" "0 \<le> t" "1970 + 4 * q + j < 2100"
  shows "year_loop (1970 + 4 * int q) (24 * (365 * int j + (if j = 3 then 1 else 0)) + t)
      = (int (1970 + 4 * q + j), t)"
proof -
  have "(1970 + 4 * int q) mod 4 = 2" "(1971 + 4 * int q) mod 4 = 3"
    "(1972 + 4 * int q) mod 4 = 0" "(1973 + 4 * int q) mod 4 = 1" by presburger+
  then have h: "hours_per_year (1970 + 4 * int q) = 8760" "hours_per_year (1971 + 4 * int q) = 8760"
    "hours_per_year (1972 + 4 * int q) = 8784" "hours_per_year (1973 + 4 * int q) = 8760"
    by (simp_all add: hours_per_year_def and_3)
  have l: "year_len (1970 + 4 * q + j) = (if j = 2 then 366 else 365)"
    using assms leap_2099[of "1970 + 4 * q + j"] unfolding year_len_def by (auto; presburger)
  consider "j = 0" | "j = 1" | "j = 2" | "j = 3" using assms(1) by linarith
  then show ?thesis
    using assms l by cases (simp_all add: year_loop.simps h)
qed


lemma month_loop_civil:
  assumes "valid_date y m d" "1970 \<le> y" "y < 2100"
    and t: "t = int (month_start y m) + int d"
  shows "(if int y AND 3 = 0 \<and> t = 60 then Some (1, 29)
     else month_loop month_days 0 (if int y AND 3 = 0 \<and> t > 60 then t - 1 else t)) = Some (int m - 1, int d)"
proof -
  have lp: "int y AND 3 = 0 \<longleftrightarrow> leap y"
    using leap_2099[OF assms(2,3)] by (simp add: and_3 zmod_int[of y 4, simplified, symmetric] del: of_nat_mod)
  have "m \<in> {1,2,3,4,5,6,7,8,9,10,11,12}" using assms(1) unfolding valid_date_def by (simp; arith)
  then show ?thesis
  proof (cases "leap y")
    case True
    with \<open>m \<in> _\<close> assms(1) show ?thesis
      unfolding t valid_date_def
      by (elim insertE emptyE) (simp_all add: lp month_len_def months_sum month_days_def)
  next
    case False
    with \<open>m \<in> _\<close> assms(1) show ?thesis
      unfolding t valid_date_def
      by (elim insertE emptyE) (simp_all add: lp month_len_def months_sum month_days_def)
  qed
qed


lemma bind_pair_Some: "Option.bind x (\<lambda>(a, b). Some (f a b)) = map_option (\<lambda>(a, b). f a b) x"
  by (cases x) auto

lemma mkdatetime_hours:
  assumes hrs: "year_loop (1970 + 4 * int q) (int r) = (int y, int (24 * t + h))"
    and b: "q < 1000" "r < 1461 * 24" "h < 24" "mi < 60" "s < 60" "t < 366"
  shows "mkdatetime (int (((q * (1461 * 24) + r) * 60 + mi) * 60 + s)) =
     (let dt = \<lparr>dt_year = int y, dt_month = 0, dt_day = 0, dt_hour = int h,
               dt_minute = int mi, dt_second = int s\<rparr>; time = int t + 1
      in map_option (\<lambda>(m, d). dt\<lparr>dt_month := m, dt_day := d\<rparr>)
       (if int y AND 3 = 0 \<and> time = 60 then Some (1, 29)
        else month_loop month_days 0 (if int y AND 3 = 0 \<and> time > 60 then time - 1 else time)))"
proof -
  define H where "H = q * (1461 * 24) + r"
  have H: "H < 36000000" "H div (1461 * 24) = q" "H mod (1461 * 24) = r"
    using b unfolding H_def by simp_all
  define M where "M = H * 60 + mi"
  have M: "M < 2200000000" "M div 60 = H" "M mod 60 = mi" using b H(1) by (simp_all add: M_def)
  define S where "S = M * 60 + s"
  have S: "S < 2 ^ 64" "S div 60 = M" "S mod 60 = s" using b M(1) by (simp_all add: S_def)
  define hh where "hh = 24 * t + h"
  have 1: "div_u64_rem (of_nat S) 60 = Some (of_nat M, of_nat s)"
    using S by (simp add: div_u64_rem_of_nat)
  have 2: "div_u64_rem (of_nat M) 60 = Some (of_nat H, of_nat mi)"
    using M by (simp add: div_u64_rem_of_nat)
  have 3: "div_u64_rem (of_nat H) 35064 = Some (of_nat q, of_nat r)"
    using H by (simp add: div_u64_rem_of_nat)
  have 4: "div_u64_rem (of_nat (24 * t + h)) 24 = Some (of_nat t, of_nat h)"
    using b by (subst div_u64_rem_of_nat) auto
  have "take_bit 64 q = q" using b(1) by (simp add: take_bit_nat_eq_self)
  then have "ucast (of_nat q :: u64) = (of_nat q :: u32)" by (simp add: unsigned_of_nat)
  then have sm: "sint (ucast (of_nat q :: u64) :: u32) = int q" "sint (of_nat t :: u64) = int t"
    using b by (simp_all add: signed_of_nat signed_take_bit_int_eq_self)
  have um: "uint (of_nat r :: u32) = int r" "uint (of_nat s :: u32) = int s"
    "uint (of_nat mi :: u32) = int mi" "uint (of_nat h :: u32) = int h"
    using b by (simp_all add: unsigned_of_nat take_bit_nat_eq_self_iff)
  show ?thesis
    unfolding H_def[symmetric] M_def[symmetric] S_def[symmetric] mkdatetime_def Let_def
    using hrs unfolding mult.commute[of 4] hh_def[symmetric]
    by (simp add: 1 2 3 4[folded hh_def] sm um bind_pair_Some)
qed


lemma mkdatetime_civil:
  assumes v: "valid_date y m d" and y: "1970 \<le> y" "y < 2100" and b: "h < 24" "mi < 60" "s < 60"
  shows "mkdatetime ((((int (days_from_epoch y m) + int d - 1) * 24 + int h) * 60 + int mi) * 60 + int s)
    = Some (civil y m d h mi s)"
proof -
  define q where "q = (y - 1970) div 4"
  define j where "j = (y - 1970) mod 4"
  define t where "t = month_start y m + d - 1"
  define e where "e = 365 * j + (if j = 3 then 1 else 0)"
  define r where "r = 24 * e + (24 * t + h)"
  have d: "1 \<le> d" using v by (simp add: valid_date_def)
  have yj: "y = 1970 + 4 * q + j" "j < 4" using y(1) by (simp_all add: q_def j_def)
  have ys: "year_start y = 1461 * q + e"
    using year_start_cycle[of "y - 1970"] y by (simp add: q_def j_def e_def)
  have t: "t < year_len y"
    using v months_sum[of m y] unfolding t_def valid_date_def month_len_def year_len_def
    by (auto split: if_splits) 
  have yl: "year_loop (1970 + 4 * int q) (int r) = (int y, int (24 * t + h))"
    using year_loop_cycle[of j "int (24 * t + h)" q] yj t b y
    by (cases "j = 3") (simp_all add: r_def e_def algebra_simps)
  have rb: "r < 1461 * 24"
  proof -
    have "t < (if j = 2 then 366 else 365)"
      using t leap_2099[OF y] yj unfolding year_len_def by (auto split: if_splits; presburger)
    then show ?thesis using yj(2) b(1) unfolding r_def e_def by (auto split: if_splits)
  qed
  have eq: "(((int (days_from_epoch y m) + int d - 1) * 24 + int h) * 60 + int mi) * 60 + int s
     = int (((q * (1461 * 24) + r) * 60 + mi) * 60 + s)"
    using d unfolding days_from_epoch_def ys r_def t_def by (simp add: of_nat_diff)
  have "t < 366" using t by (simp add: year_len_def split: if_splits)
  moreover have "q < 1000" using y by (simp add: q_def)
  moreover have "int t + 1 = int (month_start y m) + int d" using d by (simp add: t_def of_nat_diff)
  ultimately show ?thesis
    unfolding eq mkdatetime_hours[OF yl \<open>q < 1000\<close> rb b \<open>t < 366\<close>] Let_def
    using month_loop_civil[OF v y, of "int t + 1"] by (simp add: civil_def)
qed


lemma valid_day_small: "valid_date y m d \<Longrightarrow> d \<le> 31"
  by (auto simp: valid_date_def month_len_def split: if_splits)

section \<open>Properties\<close>



text \<open>
  C37: round trip.  \<open>mkdatetime\<close> undoes \<open>mktime64\<close> for every valid date and time of day of the
  years 1970 to 2099 (its four-year cycle is exact there; 2100 is not a leap year): it never
  reads past its table, and gives back year, month (counted from 0), day, hour, minute and
  second.
\<close>

theorem mkdatetime_mktime64:
  assumes "valid_date (unat y) (unat m) (unat d)" "1970 \<le> unat y" "unat y < 2100"
    and "unat h < 24" "unat mi < 60" "unat s < 60"
  shows "mkdatetime (mktime64 y m d h mi s) =
    Some (civil (unat y) (unat m) (unat d) (unat h) (unat mi) (unat s))"
  using mktime64_eq[of y m d h mi s] mkdatetime_civil[OF assms] valid_day_small[OF assms(1)] assms
  by (simp add: valid_date_def)

theorem mkdatetime_mktime64_witness:
  "mkdatetime (mktime64 2024 2 29 23 59 58) = Some (civil 2024 2 29 23 59 58)"
  using mkdatetime_mktime64[of 2024 2 29 23 59 58]
  by (simp add: valid_date_def month_len_def leap_def)

end
