(* ===== verification/Bitmap.thy ===== *)
theory Bitmap
  imports Prelude
begin

text \<open>
  The bitmap of \<open>common/lib/bitmap.c\<close>, on which the page allocators, the process ids and the
  ext2 block groups are built.  \<open>bits\<close> is the memory the pointer \<open>btm->bits\<close> can reach: it may
  be longer than \<open>bytes_len\<close>, and an access past it is \<open>None\<close>.  Bit indices are \<open>nat\<close>: they
  are bounded by \<open>8 * bytes_len + 1\<close>, which the callers keep below \<open>2 ^ 32\<close>.
\<close>

section \<open>Model of \<open>bitmap.c\<close>\<close>

record bitmap_t =
  bytes_len :: nat
  bits :: "u8 list"

definition bitmap_init :: "bitmap_t \<Rightarrow> bitmap_t option" where
  "bitmap_init btm =
     (if bytes_len btm \<le> length (bits btm)
      then Some (btm\<lparr>bits := replicate (bytes_len btm) 0 @ drop (bytes_len btm) (bits btm)\<rparr>)
      else None)"

definition bitmap_scan_test :: "bitmap_t \<Rightarrow> nat \<Rightarrow> bool option" where
  "bitmap_scan_test btm bit_idx = do {
     b \<leftarrow> nth_opt (bits btm) (bit_idx div 8);
     Some (uint b AND push_bit (bit_idx mod 8) 1 \<noteq> 0)
   }"

function scan_byte_loop :: "bitmap_t \<Rightarrow> nat \<Rightarrow> nat option" where
  "scan_byte_loop btm byte_idx =
     (if byte_idx < length (bits btm) then
        if bits btm ! byte_idx = 0xff \<and> byte_idx < bytes_len btm
        then scan_byte_loop btm (byte_idx + 1) else Some byte_idx
      else None)"
  by pat_completeness auto
termination by (relation "measure (\<lambda>(btm, i). length (bits btm) - i)") auto

lemma and_push_bit_iff: "uint (b :: 'a::len word) AND push_bit k 1 \<noteq> 0 \<longleftrightarrow> bit b k"
  unfolding bit_iff_and_push_bit_not_eq_0[symmetric] by (auto simp: bit_uint_iff dest: bit_imp_le_length)

lemma and_exp_iff [simp]: "uint (b :: 'a::len word) AND 2 ^ k = 0 \<longleftrightarrow> \<not> bit b k"
  using and_push_bit_iff[of b k] by auto

function scan_bit_loop :: "u8 \<Rightarrow> nat \<Rightarrow> nat" where
  "scan_bit_loop b bit_idx =
     (if uint b AND push_bit bit_idx 1 \<noteq> 0 then scan_bit_loop b (bit_idx + 1) else bit_idx)"
  by pat_completeness auto
termination
  by (relation "measure (\<lambda>(b, k). 8 - k)") (auto dest: bit_imp_le_length)

fun scan_run_loop :: "bitmap_t \<Rightarrow> nat \<Rightarrow> nat \<Rightarrow> nat \<Rightarrow> nat \<Rightarrow> int option" where
  "scan_run_loop btm cnt next_bit find_cnt 0 = Some (-1)"
| "scan_run_loop btm cnt next_bit find_cnt (Suc bit_left) = do {
     t \<leftarrow> bitmap_scan_test btm next_bit;
     let find_cnt' = (if \<not> t then find_cnt + 1 else 0);
     if find_cnt' = cnt then Some (int next_bit - int cnt + 1)
     else scan_run_loop btm cnt (next_bit + 1) find_cnt' bit_left
   }"

definition bitmap_scan :: "bitmap_t \<Rightarrow> nat \<Rightarrow> int option" where
  "bitmap_scan btm cnt = do {
     byte_idx \<leftarrow> scan_byte_loop btm 0;
     if byte_idx \<ge> bytes_len btm then Some (-1)
     else do {
       b \<leftarrow> nth_opt (bits btm) byte_idx;
       let bit_idx = scan_bit_loop b 0;
       if cnt = 1 then Some (int (byte_idx * 8 + bit_idx))
       else scan_run_loop btm cnt (byte_idx * 8 + bit_idx + 1) 1
              (bytes_len btm * 8 - (byte_idx * 8 + bit_idx))
     }
   }"

definition bitmap_set :: "bitmap_t \<Rightarrow> nat \<Rightarrow> u8 \<Rightarrow> bitmap_t option" where
  "bitmap_set btm bit_idx v = do {
     b \<leftarrow> nth_opt (bits btm) (bit_idx div 8);
     bs \<leftarrow> upd_opt (bits btm) (bit_idx div 8)
            (if v \<noteq> 0 then b OR push_bit (bit_idx mod 8) 1
             else b AND NOT (push_bit (bit_idx mod 8) 1));
     Some (btm\<lparr>bits := bs\<rparr>)
   }"

text \<open>
  \<open>bitmap_foreach\<close> with its visitor as a function on the visitor's own state; the visitor
  returns whether to go on.
\<close>

fun visit_bits :: "(nat \<Rightarrow> 's \<Rightarrow> (bool \<times> 's) option) \<Rightarrow> nat list \<Rightarrow> 's \<Rightarrow> (bool \<times> 's) option" where
  "visit_bits visitor [] s = Some (True, s)"
| "visit_bits visitor (i # is) s = do {
     (go, s') \<leftarrow> visitor i s;
     if go then visit_bits visitor is s' else Some (False, s')
   }"

fun foreach_loop ::
  "bitmap_t \<Rightarrow> u8 \<Rightarrow> (nat \<Rightarrow> 's \<Rightarrow> (bool \<times> 's) option) \<Rightarrow> nat list \<Rightarrow> 's \<Rightarrow> 's option" where
  "foreach_loop btm fast_value visitor [] s = Some s"
| "foreach_loop btm fast_value visitor (idx_byte # rest) s = do {
     b \<leftarrow> nth_opt (bits btm) idx_byte;
     let has_value = (b > 0);
     let visit = (fast_value \<noteq> 0 \<and> has_value \<or> \<not> fast_value \<noteq> 0 \<and> \<not> has_value);
     if visit then do {
       (go, s') \<leftarrow> visit_bits visitor [idx_byte * 8..<idx_byte * 8 + 8] s;
       if go then foreach_loop btm fast_value visitor rest s' else Some s'
     }
     else foreach_loop btm fast_value visitor rest s
   }"

definition bitmap_foreach ::
  "bitmap_t \<Rightarrow> u8 \<Rightarrow> (nat \<Rightarrow> 's \<Rightarrow> (bool \<times> 's) option) \<Rightarrow> 's \<Rightarrow> 's option" where
  "bitmap_foreach btm fast_value visitor s =
     foreach_loop btm fast_value visitor [0..<bytes_len btm] s"

section \<open>Abstraction: the set of used bits\<close>

definition bit_at :: "bitmap_t \<Rightarrow> nat \<Rightarrow> bool" where
  "bit_at btm i = bit (bits btm ! (i div 8)) (i mod 8)"

definition nbits :: "bitmap_t \<Rightarrow> nat" where
  "nbits btm = 8 * bytes_len btm"

definition used_bits :: "bitmap_t \<Rightarrow> nat set" where
  "used_bits btm = {i. i < nbits btm \<and> bit_at btm i}"

text \<open>One byte behind the bitmap can be read: the first loop of \<open>bitmap_scan\<close> looks at it.\<close>

definition bitmap_ok :: "bitmap_t \<Rightarrow> bool" where
  "bitmap_ok btm \<longleftrightarrow> bytes_len btm < length (bits btm)"

declare scan_byte_loop.simps [simp del] scan_bit_loop.simps [simp del]

lemma bitmap_scan_test_eq:
  "i div 8 < length (bits btm) \<Longrightarrow> bitmap_scan_test btm i = Some (bit_at btm i)"
  unfolding bitmap_scan_test_def and_push_bit_iff bit_at_def by simp

lemma bitmap_ok_index: "bitmap_ok btm \<Longrightarrow> i \<le> nbits btm \<Longrightarrow> i div 8 < length (bits btm)"
  by (simp add: bitmap_ok_def nbits_def; linarith)

lemma bitmap_set_eq:
  assumes "i div 8 < length (bits btm)"
  obtains btm' where "bitmap_set btm i v = Some btm'" "bytes_len btm' = bytes_len btm"
    "length (bits btm') = length (bits btm)"
    "\<And>j. bit_at btm' j = (if j = i then v \<noteq> 0 else bit_at btm j)"
proof -
  let ?b = "bits btm ! (i div 8)"
  let ?w = "if v \<noteq> 0 then ?b OR push_bit (i mod 8) 1 else ?b AND NOT (push_bit (i mod 8) 1)"
  let ?r = "btm\<lparr>bits := (bits btm)[i div 8 := ?w]\<rparr>"
  have w: "bit ?w k = (if k = i mod 8 then v \<noteq> 0 else bit ?b k)" if "k < 8" for k
    using that by (auto simp: bit_or_iff bit_and_iff bit_not_iff bit_exp_iff)
  have "bit_at ?r j = (if j = i then v \<noteq> 0 else bit_at btm j)" for j
  proof (cases "j div 8 = i div 8")
    case True
    then have "j = i \<longleftrightarrow> j mod 8 = i mod 8" by (metis div_mult_mod_eq)
    then show ?thesis using assms True w[of "j mod 8"] by (simp add: bit_at_def)
  next
    case False
    then show ?thesis by (auto simp: bit_at_def)
  qed
  moreover have "bitmap_set btm i v = Some ?r" using assms by (simp add: bitmap_set_def)
  ultimately show ?thesis by (intro that[of ?r]) simp_all
qed

section \<open>Scanning\<close>

lemma scan_byte_loop_spec:
  assumes "bitmap_ok btm" "k \<le> bytes_len btm"
  shows "\<exists>r. scan_byte_loop btm k = Some r \<and> k \<le> r \<and> r \<le> bytes_len btm \<and>
     (\<forall>i. k \<le> i \<and> i < r \<longrightarrow> bits btm ! i = 0xff) \<and> (r < bytes_len btm \<longrightarrow> bits btm ! r \<noteq> 0xff)"
  using assms
proof (induction "bytes_len btm - k" arbitrary: k)
  case 0
  then show ?case by (subst scan_byte_loop.simps) (auto simp: bitmap_ok_def)
next
  case (Suc n)
  show ?case
  proof (cases "bits btm ! k = 0xff")
    case False
    with Suc show ?thesis by (subst scan_byte_loop.simps) (auto simp: bitmap_ok_def)
  next
    case True
    have "n = bytes_len btm - Suc k" "Suc k \<le> bytes_len btm" using Suc.hyps(2) by linarith+
    from Suc.hyps(1)[OF this(1) Suc.prems(1) this(2)] obtain r where
      r: "scan_byte_loop btm (Suc k) = Some r" "Suc k \<le> r" "r \<le> bytes_len btm"
      "\<forall>i. Suc k \<le> i \<and> i < r \<longrightarrow> bits btm ! i = 0xff" "r < bytes_len btm \<longrightarrow> bits btm ! r \<noteq> 0xff"
      by blast
    have "scan_byte_loop btm k = scan_byte_loop btm (Suc k)"
      using True Suc.prems Suc.hyps(2) by (subst scan_byte_loop.simps) (auto simp: bitmap_ok_def)
    moreover have "\<forall>i. k \<le> i \<and> i < r \<longrightarrow> bits btm ! i = 0xff"
      using r(4) True by (metis Suc_leI le_eq_less_or_eq)
    ultimately show ?thesis using r by (intro exI[of _ r]) auto
  qed
qed

lemma scan_bit_loop_spec:
  "k \<le> scan_bit_loop b k \<and> \<not> bit b (scan_bit_loop b k) \<and> (\<forall>i. k \<le> i \<and> i < scan_bit_loop b k \<longrightarrow> bit b i)"
proof (induction b k rule: scan_bit_loop.induct)
  case (1 b k)
  show ?case
  proof (cases "bit b k")
    case True
    then have "scan_bit_loop b k = scan_bit_loop b (k + 1)"
      by (subst scan_bit_loop.simps) (simp only: and_push_bit_iff if_True)
    moreover note 1[unfolded and_push_bit_iff, OF True]
    ultimately show ?thesis using True by (metis Suc_eq_plus1 Suc_leI le_eq_less_or_eq le_trans le_add1)
  next
    case False
    then have "scan_bit_loop b k = k"
      by (subst scan_bit_loop.simps) (simp only: and_push_bit_iff if_False)
    with False show ?thesis by auto
  qed
qed

lemma byte_ff_iff: "(b :: u8) = 0xff \<longleftrightarrow> (\<forall>i < 8. bit b i)"
proof -
  have ff: "(0xff :: u8) = - 1" by simp
  show ?thesis unfolding ff by (auto intro!: bit_word_eqI)
qed


lemma bit_at_byte: "k < 8 \<Longrightarrow> bit_at btm (8 * i + k) = bit (bits btm ! i) k"
  by (simp add: bit_at_def)

text \<open>The two loops of \<open>bitmap_scan\<close> find the lowest free bit.\<close>

lemma first_free_cases:
  assumes "bitmap_ok btm"
  obtains (full) "scan_byte_loop btm 0 = Some (bytes_len btm)" "\<And>j. j < nbits btm \<Longrightarrow> bit_at btm j"
  | (free) i f where "scan_byte_loop btm 0 = Some i" "i < bytes_len btm"
      "f = i * 8 + scan_bit_loop (bits btm ! i) 0" "f < nbits btm" "\<not> bit_at btm f"
      "\<And>j. j < f \<Longrightarrow> bit_at btm j"
proof -
  obtain i where i: "scan_byte_loop btm 0 = Some i" "i \<le> bytes_len btm"
    "\<And>j. j < i \<Longrightarrow> bits btm ! j = 0xff" "i < bytes_len btm \<Longrightarrow> bits btm ! i \<noteq> 0xff"
    using scan_byte_loop_spec[OF assms, of 0] by auto
  have low: "bit_at btm j" if "j < 8 * i" for j
    using i(3)[of "j div 8"] that by (simp add: bit_at_def byte_ff_iff)
  show thesis
  proof (cases "i < bytes_len btm")
    case False
    with i(1,2) low show thesis by (intro full) (simp_all add: nbits_def)
  next
    case True
    let ?k = "scan_bit_loop (bits btm ! i) 0"
    note k = scan_bit_loop_spec[of 0 "bits btm ! i"]
    have k8: "?k < 8" using k i(4)[OF True] byte_ff_iff[of "bits btm ! i"] by (meson not_le le_less_trans zero_le)
    have "bit_at btm j" if j: "j < i * 8 + ?k" for j
    proof (cases "j < 8 * i")
      case False
      then have "j = 8 * i + (j - 8 * i)" "j - 8 * i < ?k" using j by simp_all
      then show ?thesis using k k8 bit_at_byte[of "j - 8 * i" btm i] by simp
    qed (rule low)
    moreover have "\<not> bit_at btm (i * 8 + ?k)" using k k8 bit_at_byte[of ?k btm i] by (simp add: mult.commute)
    moreover have "i * 8 + ?k < nbits btm" using True k8 by (simp add: nbits_def)
    ultimately show thesis using i(1) True by (intro free[of i "i * 8 + ?k"]) simp_all
  qed
qed

lemma bitmap_scan_one:
  assumes "bitmap_ok btm"
  shows "bitmap_scan btm 1 =
    Some (if \<forall>j < nbits btm. bit_at btm j then -1 else int (LEAST j. \<not> bit_at btm j))"
  using assms
proof (cases rule: first_free_cases)
  case full
  then show ?thesis by (simp add: bitmap_scan_def)
next
  case (free i f)
  then have "bitmap_scan btm 1 = Some (int f)"
    using assms by (simp add: bitmap_scan_def bitmap_ok_def)
  moreover have "(LEAST j. \<not> bit_at btm j) = f"
    using free(5,6) by (intro Least_equality) (auto simp flip: not_less)
  ultimately show ?thesis using free(4,5) by auto
qed

text \<open>
  Invariant of the run loop: \<open>find_cnt\<close> is the length of the run of free bits that ends
  just before \<open>next_bit\<close>, and it is maximal.
\<close>

definition run_ends :: "bitmap_t \<Rightarrow> nat \<Rightarrow> nat \<Rightarrow> bool" where
  "run_ends btm p n \<longleftrightarrow> n \<le> p \<and> (\<forall>j. p - n \<le> j \<and> j < p \<longrightarrow> \<not> bit_at btm j) \<and>
     (n < p \<longrightarrow> bit_at btm (p - n - 1))"

definition free_run :: "bitmap_t \<Rightarrow> nat \<Rightarrow> nat \<Rightarrow> bool" where
  "free_run btm s n \<longleftrightarrow> (\<forall>j. s \<le> j \<and> j < s + n \<longrightarrow> \<not> bit_at btm j)"

lemma run_ends_Suc:
  "run_ends btm p n \<Longrightarrow> run_ends btm (Suc p) (if bit_at btm p then 0 else n + 1)"
  unfolding run_ends_def by (auto simp: less_Suc_eq Suc_diff_le)

lemma run_ends_maximal:
  assumes "run_ends btm p n" "free_run btm s c" "s + c = p" shows "c \<le> n"
proof (rule ccontr)
  assume "\<not> c \<le> n"
  then have "n < p" "s \<le> p - n - 1" "p - n - 1 < s + c" using assms(3) by linarith+
  with assms show False unfolding run_ends_def free_run_def by blast
qed

lemma scan_run_loop_spec:
  assumes "\<And>j. j < p + m \<Longrightarrow> j div 8 < length (bits btm)" "run_ends btm p n" "n < cnt"
    and "\<And>s. s + cnt \<le> p \<Longrightarrow> \<not> free_run btm s cnt"
  shows "\<exists>r. scan_run_loop btm cnt p n m = Some r \<and>
     (if r < 0 then \<forall>s. s + cnt \<le> p + m \<longrightarrow> \<not> free_run btm s cnt
      else free_run btm (nat r) cnt \<and> nat r + cnt \<le> p + m \<and>
           (\<forall>s. s + cnt < nat r + cnt \<longrightarrow> \<not> free_run btm s cnt))"
  using assms
proof (induction m arbitrary: p n)
  case 0
  then show ?case by auto
next
  case (Suc m)
  let ?n = "if bit_at btm p then 0 else n + 1"
  have t: "bitmap_scan_test btm p = Some (bit_at btm p)"
    using Suc.prems(1) by (intro bitmap_scan_test_eq) simp
  note re = run_ends_Suc[OF Suc.prems(2)]
  show ?case
  proof (cases "?n = cnt")
    case True
    then have c: "\<not> bit_at btm p" "cnt = n + 1" using Suc.prems(3) by (auto split: if_splits)
    have fr: "free_run btm (Suc p - cnt) cnt" "cnt \<le> Suc p"
      using re unfolding run_ends_def free_run_def True by auto
    define r where "r = Suc p - cnt"
    have r: "int p - int cnt + 1 = int r" "r + cnt = Suc p" using fr(2) by (simp_all add: r_def)
    have "scan_run_loop btm cnt p n (Suc m) = Some (int r)" using t c r(1) by simp
    moreover have "\<not> free_run btm s cnt" if "s < r" for s
      using Suc.prems(4)[of s] that r(2) by simp
    ultimately show ?thesis using fr(1) r(2) by (intro exI[of _ "int r"]) (simp add: r_def[symmetric])
  next
    case False
    have "\<not> free_run btm s cnt" if "s + cnt \<le> Suc p" for s
    proof (cases "s + cnt = Suc p")
      case True
      with run_ends_maximal[OF re _ this] False Suc.prems(3) show ?thesis
        by (auto split: if_splits)
    next
      case False
      with Suc.prems(4) that show ?thesis by simp
    qed
    moreover have "?n < cnt" using False Suc.prems(3) by (auto split: if_splits)
    moreover have "scan_run_loop btm cnt p n (Suc m) = scan_run_loop btm cnt (Suc p) ?n m"
      using t False by (cases "bit_at btm p") simp_all
    moreover have "Suc p + m = p + Suc m" by simp
    ultimately show ?thesis
      using Suc.IH[of "Suc p" ?n] Suc.prems(1) re by presburger
  qed
qed


lemma bitmap_scan_run:
  assumes ok: "bitmap_ok btm" and cnt: "2 \<le> cnt"
  shows "\<exists>r. bitmap_scan btm cnt = Some r \<and>
     (if r < 0 then \<forall>s. s + cnt \<le> nbits btm \<longrightarrow> \<not> free_run btm s cnt
      else free_run btm (nat r) cnt \<and> nat r + cnt \<le> nbits btm + 1 \<and>
           (\<forall>s < nat r. \<not> free_run btm s cnt))"
  using ok
proof (cases rule: first_free_cases)
  case full
  then have "\<not> free_run btm s cnt" if "s + cnt \<le> nbits btm" for s
    using that cnt by (auto simp: free_run_def intro!: exI[of _ s])
  then show ?thesis using full by (simp add: bitmap_scan_def)
next
  case (free i f)
  have m: "Suc f + (nbits btm - f) = nbits btm + 1" using free(4) by simp
  have "bitmap_scan btm cnt = scan_run_loop btm cnt (Suc f) 1 (nbits btm - f)"
    using free(1-3) ok cnt by (simp add: bitmap_scan_def bitmap_ok_def nbits_def mult.commute Let_def)
  moreover have "run_ends btm (Suc f) 1"
    using free(5,6) by (auto simp: run_ends_def less_Suc_eq)
  moreover have nf: "\<not> free_run btm s cnt" if "s + cnt \<le> Suc f" for s
    using free(6)[of s] that cnt by (auto simp: free_run_def intro!: exI[of _ s])
  moreover have "j div 8 < length (bits btm)" if "j < Suc f + (nbits btm - f)" for j
    using that m bitmap_ok_index[OF ok] by simp
  ultimately show ?thesis
    using scan_run_loop_spec[of "Suc f" "nbits btm - f" btm 1 cnt] cnt m
    by (auto split: if_splits)
qed


section \<open>Taking and giving back one bit\<close>

lemma used_bits_full: "used_bits btm = {..<nbits btm} \<longleftrightarrow> (\<forall>j < nbits btm. bit_at btm j)"
  by (auto simp: used_bits_def)

lemma scan_one_free:
  assumes "bitmap_ok btm" "used_bits btm \<noteq> {..<nbits btm}"
  obtains f where "bitmap_scan btm 1 = Some (int f)" "f < nbits btm" "f \<notin> used_bits btm"
proof -
  from assms(2) obtain j where j: "j < nbits btm" "\<not> bit_at btm j" by (auto simp: used_bits_full)
  let ?f = "LEAST j. \<not> bit_at btm j"
  have "\<not> bit_at btm ?f" "?f \<le> j"
    using LeastI[of "\<lambda>j. \<not> bit_at btm j", OF j(2)] Least_le[of "\<lambda>j. \<not> bit_at btm j", OF j(2)] .
  with j bitmap_scan_one[OF assms(1)] show thesis by (intro that[of ?f]) (auto simp: used_bits_def)
qed

lemma scan_one_full:
  "bitmap_ok btm \<Longrightarrow> used_bits btm = {..<nbits btm} \<Longrightarrow> bitmap_scan btm 1 = Some (-1)"
  unfolding used_bits_full using bitmap_scan_one by auto

lemma bitmap_set_used:
  assumes "bitmap_ok btm" "i < nbits btm"
  obtains btm' where "bitmap_set btm i v = Some btm'" "bitmap_ok btm'" "nbits btm' = nbits btm"
    "bytes_len btm' = bytes_len btm" "length (bits btm') = length (bits btm)"
    "used_bits btm' = (if v \<noteq> 0 then insert i (used_bits btm) else used_bits btm - {i})"
proof -
  obtain btm' where b: "bitmap_set btm i v = Some btm'" "bytes_len btm' = bytes_len btm"
    "length (bits btm') = length (bits btm)" "\<And>j. bit_at btm' j = (if j = i then v \<noteq> 0 else bit_at btm j)"
    using bitmap_set_eq[of i btm v] bitmap_ok_index[OF assms(1), of i] assms(2) by (metis less_imp_le)
  with assms show thesis
    by (intro that[of btm']) (auto simp: bitmap_ok_def nbits_def used_bits_def)
qed

lemma bitmap_init_used:
  assumes "bitmap_ok btm"
  obtains btm' where "bitmap_init btm = Some btm'" "bitmap_ok btm'" "bytes_len btm' = bytes_len btm"
    "used_bits btm' = {}"
proof -
  let ?r = "btm\<lparr>bits := replicate (bytes_len btm) 0 @ drop (bytes_len btm) (bits btm)\<rparr>"
  have "bitmap_init btm = Some ?r" using assms by (simp add: bitmap_init_def bitmap_ok_def)
  moreover have "\<not> bit_at ?r j" if "j < nbits btm" for j
  proof -
    have "j div 8 < bytes_len btm" using that by (simp add: nbits_def)
    then show ?thesis by (simp add: bit_at_def nth_append)
  qed
  ultimately show thesis using assms
    by (intro that[of ?r]) (auto simp: bitmap_ok_def used_bits_def nbits_def)
qed

section \<open>Properties\<close>

text \<open>
  \<open>bitmap_set\<close> followed by \<open>bitmap_scan_test\<close> (\<open>bitmap.c\<close>): inside the memory of the
  bitmap neither faults, the bit that was set reads back with the value written, and every
  other bit of the memory keeps its value.
\<close>

theorem bitmap_set_scan_test:
  assumes "i div 8 < length (bits btm)" "j div 8 < length (bits btm)"
  shows "\<exists>btm'. bitmap_set btm i v = Some btm' \<and> bytes_len btm' = bytes_len btm \<and>
     bitmap_scan_test btm' j = (if j = i then Some (v \<noteq> 0) else bitmap_scan_test btm j)"
proof -
  obtain btm' where "bitmap_set btm i v = Some btm'" "bytes_len btm' = bytes_len btm"
    "length (bits btm') = length (bits btm)" "\<And>j. bit_at btm' j = (if j = i then v \<noteq> 0 else bit_at btm j)"
    using bitmap_set_eq[OF assms(1)] by metis
  with assms show ?thesis by (intro exI[of _ btm']) (simp add: bitmap_scan_test_eq)
qed

theorem bitmap_set_scan_test_witness:
  "\<exists>btm'. bitmap_set \<lparr>bytes_len = 1, bits = [1, 7]\<rparr> 9 0 = Some btm' \<and> bytes_len btm' = 1 \<and>
     bitmap_scan_test btm' 8 = bitmap_scan_test \<lparr>bytes_len = 1, bits = [1, 7]\<rparr> 8"
  using bitmap_set_scan_test[of 9 "\<lparr>bytes_len = 1, bits = [1, 7]\<rparr>" 8 0] by simp

text \<open>
  \<open>bitmap_scan\<close> for one bit (\<open>bitmap.c\<close>), with one readable byte behind the bitmap: the
  loops end without a fault, the result is \<open>-1\<close> exactly when every bit is set, and
  otherwise it is the lowest clear bit.
\<close>

theorem bitmap_scan_lowest_free:
  assumes "bitmap_ok btm"
  shows "bitmap_scan btm 1 =
    Some (if \<forall>j < nbits btm. bit_at btm j then -1 else int (LEAST j. \<not> bit_at btm j))"
  using assms by (rule bitmap_scan_one)

theorem bitmap_scan_lowest_free_witness:
  "bitmap_scan \<lparr>bytes_len = 2, bits = [0xff, 0x13, 0]\<rparr> 1 =
    Some (if \<forall>j < nbits \<lparr>bytes_len = 2, bits = [0xff, 0x13, 0]\<rparr>.
              bit_at \<lparr>bytes_len = 2, bits = [0xff, 0x13, 0]\<rparr> j then -1
          else int (LEAST j. \<not> bit_at \<lparr>bytes_len = 2, bits = [0xff, 0x13, 0]\<rparr> j))"
  using bitmap_scan_lowest_free[of "\<lparr>bytes_len = 2, bits = [0xff, 0x13, 0]\<rparr>"]
  by (simp add: bitmap_ok_def)

text \<open>
  C35: \<open>bitmap_scan\<close> for a run of at least two bits (\<open>bitmap.c\<close>): \<open>-1\<close> means that the bitmap
  has no run of that many clear bits; any other result is the start of the first run of clear
  bits that ends at or before bit \<open>bytes_len * 8\<close>.  The last loop makes one step too many, so
  the run may include that bit, which is not part of the bitmap.
\<close>

theorem bitmap_scan_first_run:
  assumes "bitmap_ok btm" "2 \<le> cnt"
  shows "\<exists>r. bitmap_scan btm cnt = Some r \<and>
     (if r < 0 then \<forall>s. s + cnt \<le> nbits btm \<longrightarrow> \<not> free_run btm s cnt
      else free_run btm (nat r) cnt \<and> nat r + cnt \<le> nbits btm + 1 \<and>
           (\<forall>s < nat r. \<not> free_run btm s cnt))"
  using assms by (rule bitmap_scan_run)

theorem bitmap_scan_first_run_witness:
  "\<exists>r. bitmap_scan \<lparr>bytes_len = 1, bits = [0x13, 0]\<rparr> 3 = Some r \<and>
     (if r < 0 then \<forall>s. s + 3 \<le> nbits \<lparr>bytes_len = 1, bits = [0x13, 0]\<rparr> \<longrightarrow>
                         \<not> free_run \<lparr>bytes_len = 1, bits = [0x13, 0]\<rparr> s 3
      else free_run \<lparr>bytes_len = 1, bits = [0x13, 0]\<rparr> (nat r) 3 \<and>
           nat r + 3 \<le> nbits \<lparr>bytes_len = 1, bits = [0x13, 0]\<rparr> + 1 \<and>
           (\<forall>s < nat r. \<not> free_run \<lparr>bytes_len = 1, bits = [0x13, 0]\<rparr> s 3))"
  by (rule bitmap_scan_first_run[of "\<lparr>bytes_len = 1, bits = [0x13, 0]\<rparr>" 3])
    (simp_all add: bitmap_ok_def)

text \<open>
  A run handed out past the end: only bit 7 of this one-byte bitmap is clear, but a request
  for two bits is granted with bits 7 and 8.
\<close>

lemma bitmap_scan_overrun: "bitmap_scan \<lparr>bytes_len = 1, bits = [0x7f, 0]\<rparr> 2 = Some 7"
  by code_simp

end
