(* ===== verification/Pool.thy ===== *)
theory Pool
  imports Prelude
begin

text \<open>
  The contract shared by the resource allocators of the kernel (pages, process ids, memory
  blocks of the network stack): a finite set of resources, some of them live; \<open>take\<close> hands
  out one that is not live, or reports that none is left; \<open>give\<close> returns a live one.  The
  lemmas are what the allocators' clients rely on: resources taken one after the other are
  all different and all fresh, and the number of resources is conserved.
\<close>

locale pool =
  fixes inv :: "'p \<Rightarrow> bool"
    and live :: "'p \<Rightarrow> 'r set"
    and cap :: "'p \<Rightarrow> 'r set"
    and take :: "'p \<Rightarrow> ('r option \<times> 'p) option"
    and give :: "'r \<Rightarrow> 'p \<Rightarrow> 'p option"
  assumes finite_cap: "inv p \<Longrightarrow> finite (cap p)"
    and live_cap: "inv p \<Longrightarrow> live p \<subseteq> cap p"
    and take_free: "\<lbrakk>inv p; live p \<noteq> cap p\<rbrakk> \<Longrightarrow>
      \<exists>r p'. take p = Some (Some r, p') \<and> r \<in> cap p - live p \<and> live p' = insert r (live p) \<and>
        cap p' = cap p \<and> inv p'"
    and take_full: "\<lbrakk>inv p; live p = cap p\<rbrakk> \<Longrightarrow> take p = Some (None, p)"
    and give_live: "\<lbrakk>inv p; r \<in> live p\<rbrakk> \<Longrightarrow>
      \<exists>p'. give r p = Some p' \<and> live p' = live p - {r} \<and> cap p' = cap p \<and> inv p'"
begin

fun take_n :: "nat \<Rightarrow> 'p \<Rightarrow> ('r list \<times> 'p) option" where
  "take_n 0 p = Some ([], p)"
| "take_n (Suc n) p = do {
     (r, p') \<leftarrow> take p;
     case r of None \<Rightarrow> Some ([], p')
     | Some x \<Rightarrow> do { (xs, p'') \<leftarrow> take_n n p'; Some (x # xs, p'') }
   }"

definition avail :: "'p \<Rightarrow> nat" where
  "avail p = card (cap p - live p)"

lemma avail_take:
  assumes "inv p" "0 < avail p"
  obtains r p' where "take p = Some (Some r, p')" "r \<in> cap p - live p" "live p' = insert r (live p)"
    "cap p' = cap p" "inv p'" "avail p' = avail p - 1"
proof -
  have "live p \<noteq> cap p" using assms(2) by (auto simp: avail_def)
  with assms(1) obtain r p' where r: "take p = Some (Some r, p')" "r \<in> cap p - live p"
    "live p' = insert r (live p)" "cap p' = cap p" "inv p'" using take_free by blast
  moreover have "cap p' - live p' = cap p - live p - {r}" using r by auto
  ultimately show thesis
    using finite_cap[OF assms(1)] by (intro that[of r p']) (simp_all add: avail_def)
qed

lemma take_n_fresh:
  assumes "inv p" "n \<le> avail p"
  shows "\<exists>xs p'. take_n n p = Some (xs, p') \<and> length xs = n \<and> distinct xs \<and>
    set xs \<subseteq> cap p - live p \<and> live p' = live p \<union> set xs \<and> cap p' = cap p \<and> inv p' \<and>
    avail p' = avail p - n"
  using assms
proof (induction n arbitrary: p)
  case 0
  then show ?case by simp
next
  case (Suc n)
  then have "0 < avail p" by simp
  from avail_take[OF Suc.prems(1) this] obtain r p1 where
    r: "take p = Some (Some r, p1)" "r \<in> cap p - live p" "live p1 = insert r (live p)"
      "cap p1 = cap p" "inv p1" "avail p1 = avail p - 1" .
  have "n \<le> avail p1" using r(6) Suc.prems(2) by simp
  from Suc.IH[OF r(5) this] obtain xs p2 where
    "take_n n p1 = Some (xs, p2)" "length xs = n" "distinct xs" "set xs \<subseteq> cap p1 - live p1"
    "live p2 = live p1 \<union> set xs" "cap p2 = cap p1" "inv p2" "avail p2 = avail p1 - n" by blast
  with r show ?case by (intro exI[of _ "r # xs"] exI[of _ p2]) auto
qed

lemma give_then_take:
  assumes "inv p" "r \<in> live p" "give r p = Some p'"
  shows "\<exists>x p''. take p' = Some (Some x, p'') \<and> x \<notin> live p'"
proof -
  have p': "live p' = live p - {r}" "cap p' = cap p" "inv p'"
    using give_live[OF assms(1,2)] assms(3) by auto
  then have "live p' \<noteq> cap p'" using live_cap[OF assms(1)] assms(2) by auto
  with take_free[OF p'(3)] show ?thesis by auto
qed

lemma give_avail:
  assumes "inv p" "r \<in> live p" "give r p = Some p'"
  shows "avail p' = avail p + 1"
proof -
  have p': "live p' = live p - {r}" "cap p' = cap p"
    using give_live[OF assms(1,2)] assms(3) by auto
  then have "cap p' - live p' = insert r (cap p - live p)"
    using live_cap[OF assms(1)] assms(2) by auto
  then show ?thesis using finite_cap[OF assms(1)] assms(2) by (simp add: avail_def)
qed

end

end
