(* ===== verification/Page_Alloc.thy ===== *)
theory Page_Alloc
  imports Math_Util Bitmap Pool
begin

text \<open>
  The address allocators of \<open>kernel/memory/paging.c\<close>: a bitmap with a start address and a page
  size, used for the physical memory of the kernel and of the users and for the virtual
  memory of the kernel and of each process.  Addresses are 32-bit words; page counts, which
  the callers keep positive, are \<open>nat\<close>.
\<close>

section \<open>Model\<close>

record addr_alloc_t =
  aa_start :: u32
  aa_page_size :: u32
  aa_bitmap :: bitmap_t

definition init_addr_alloc :: "u8 list \<Rightarrow> u32 \<Rightarrow> u32 \<Rightarrow> u32 \<Rightarrow> addr_alloc_t option" where
  "init_addr_alloc mem start sz page_size =
     (if page_size = 0 then None
      else let bit_size = sz div page_size
           in do {
             btm \<leftarrow> bitmap_init \<lparr>bytes_len = unat ((bit_size + 7) div 8), bits = mem\<rparr>;
             Some \<lparr>aa_start = start, aa_page_size = page_size, aa_bitmap = btm\<rparr>
           })"

fun set_bits :: "nat list \<Rightarrow> u8 \<Rightarrow> bitmap_t \<Rightarrow> bitmap_t option" where
  "set_bits [] use btm = Some btm"
| "set_bits (i # is) use btm = do { btm' \<leftarrow> bitmap_set btm i use; set_bits is use btm' }"

definition alloc_mem_use :: "addr_alloc_t \<Rightarrow> u32 \<Rightarrow> nat \<Rightarrow> u8 \<Rightarrow> addr_alloc_t option" where
  "alloc_mem_use a addr page_count use =
     (if aa_page_size a = 0 then None
      else let bit_idx = unat ((addr - aa_start a) div aa_page_size a)
           in do {
             btm \<leftarrow> set_bits [bit_idx..<bit_idx + page_count] use (aa_bitmap a);
             Some (a\<lparr>aa_bitmap := btm\<rparr>)
           })"

definition alloc_phy_mem :: "addr_alloc_t \<Rightarrow> nat \<Rightarrow> (u32 \<times> addr_alloc_t) option" where
  "alloc_phy_mem a page_count = do {
     bit_idx \<leftarrow> bitmap_scan (aa_bitmap a) page_count;
     if bit_idx < 0 then Some (- 1, a)
     else let addr = aa_start a + of_int bit_idx * aa_page_size a
          in do { a' \<leftarrow> alloc_mem_use a addr page_count 1; Some (addr, a') }
   }"

definition alloc_vir_mem :: "addr_alloc_t \<Rightarrow> nat \<Rightarrow> (u32 \<times> addr_alloc_t) option" where
  "alloc_vir_mem a page_count = do {
     bit_idx \<leftarrow> bitmap_scan (aa_bitmap a) page_count;
     if bit_idx < 0 then Some (- 1, a)
     else let addr = aa_start a + of_int bit_idx * aa_page_size a
          in do { a' \<leftarrow> alloc_mem_use a addr page_count 1; Some (addr, a') }
   }"

definition free_vir_mem :: "addr_alloc_t \<Rightarrow> u32 \<Rightarrow> nat \<Rightarrow> addr_alloc_t option" where
  "free_vir_mem a vaddr page_count = alloc_mem_use a vaddr page_count 0"

definition count_mem_used_visitor :: "bitmap_t \<Rightarrow> nat \<Rightarrow> nat \<Rightarrow> (bool \<times> nat) option" where
  "count_mem_used_visitor btm idx_bit count = do {
     t \<leftarrow> bitmap_scan_test btm idx_bit;
     Some (True, if t then count + 1 else count)
   }"

definition count_mem_used :: "addr_alloc_t \<Rightarrow> nat option" where
  "count_mem_used a = bitmap_foreach (aa_bitmap a) 1 (count_mem_used_visitor (aa_bitmap a)) 0"

section \<open>Pages and addresses\<close>

definition page_addr :: "addr_alloc_t \<Rightarrow> nat \<Rightarrow> u32" where
  "page_addr a i = aa_start a + of_nat i * aa_page_size a"

text \<open>The managed range ends below \<open>2 ^ 32\<close>, so that no page has the address \<open>-1\<close>.\<close>

definition alloc_ok :: "addr_alloc_t \<Rightarrow> bool" where
  "alloc_ok a \<longleftrightarrow> bitmap_ok (aa_bitmap a) \<and> aa_page_size a \<noteq> 0 \<and>
     unat (aa_start a) + nbits (aa_bitmap a) * unat (aa_page_size a) < 2 ^ 32"

definition all_pages :: "addr_alloc_t \<Rightarrow> u32 set" where
  "all_pages a = page_addr a ` {..<nbits (aa_bitmap a)}"

definition live_pages :: "addr_alloc_t \<Rightarrow> u32 set" where
  "live_pages a = page_addr a ` used_bits (aa_bitmap a)"

lemma page_addr_bound:
  assumes "alloc_ok a" "i < nbits (aa_bitmap a)"
  shows "unat (page_addr a i) = unat (aa_start a) + i * unat (aa_page_size a)"
    and "page_addr a i \<noteq> - 1"
    and "unat ((page_addr a i - aa_start a) div aa_page_size a) = i"
proof -
  have ps: "0 < unat (aa_page_size a)" using assms(1) by (simp add: alloc_ok_def unat_gt_0)
  have "Suc i * unat (aa_page_size a) \<le> nbits (aa_bitmap a) * unat (aa_page_size a)"
    using assms(2) by (intro mult_le_mono1) simp
  then have b: "unat (aa_start a) + i * unat (aa_page_size a) + unat (aa_page_size a) < 2 ^ 32"
    using assms(1) by (simp add: alloc_ok_def)
  have "i \<le> i * unat (aa_page_size a)" using ps by simp
  with b have "i < 2 ^ 32" by linarith
  then have "i < 2 ^ LENGTH(32)" by simp
  then have i32: "unat (of_nat i :: u32) = i" by (rule unat_of_nat_small)
  have m: "unat (of_nat i * aa_page_size a :: u32) = i * unat (aa_page_size a)"
    using b by (subst unat_mult_small) (simp_all add: i32)
  show u: "unat (page_addr a i) = unat (aa_start a) + i * unat (aa_page_size a)"
    unfolding page_addr_def using b by (subst unat_add_small) (simp_all add: m)
  show "page_addr a i \<noteq> - 1"
  proof
    assume "page_addr a i = - 1"
    then have "unat (page_addr a i) = 2 ^ 32 - 1"
      by (simp add: unsigned_minus_1_eq_mask mask_eq_exp_minus_1)
    with u b ps show False by simp
  qed
  have "page_addr a i - aa_start a = of_nat i * aa_page_size a" by (simp add: page_addr_def)
  then show "unat ((page_addr a i - aa_start a) div aa_page_size a) = i"
    using ps by (simp add: unat_div_distrib m)
qed

lemma inj_page_addr: "alloc_ok a \<Longrightarrow> inj_on (page_addr a) {..<nbits (aa_bitmap a)}"
  by (rule inj_onI) (metis page_addr_bound(3) lessThan_iff)

lemma used_bits_sub: "used_bits btm \<subseteq> {..<nbits btm}"
  by (auto simp: used_bits_def)

lemma live_eq_all:
  "alloc_ok a \<Longrightarrow> live_pages a = all_pages a \<longleftrightarrow> used_bits (aa_bitmap a) = {..<nbits (aa_bitmap a)}"
  unfolding live_pages_def all_pages_def
  using inj_on_image_eq_iff[OF inj_page_addr used_bits_sub] by blast

lemma page_addr_live:
  "alloc_ok a \<Longrightarrow> i < nbits (aa_bitmap a) \<Longrightarrow> page_addr a i \<in> live_pages a \<longleftrightarrow> i \<in> used_bits (aa_bitmap a)"
  unfolding live_pages_def using inj_page_addr used_bits_sub
  by (metis inj_on_image_mem_iff lessThan_iff)

lemma alloc_mem_use_one:
  assumes "alloc_ok a" "i < nbits (aa_bitmap a)"
  obtains a' where "alloc_mem_use a (page_addr a i) 1 use = Some a'" "alloc_ok a'"
    "all_pages a' = all_pages a" "aa_start a' = aa_start a" "aa_page_size a' = aa_page_size a"
    "live_pages a' = (if use \<noteq> 0 then insert (page_addr a i) (live_pages a)
                      else live_pages a - {page_addr a i})"
proof -
  have ok: "bitmap_ok (aa_bitmap a)" using assms(1) by (simp add: alloc_ok_def)
  obtain btm where b: "bitmap_set (aa_bitmap a) i use = Some btm" "bitmap_ok btm"
    "nbits btm = nbits (aa_bitmap a)"
    "used_bits btm = (if use \<noteq> 0 then insert i (used_bits (aa_bitmap a)) else used_bits (aa_bitmap a) - {i})"
    using bitmap_set_used[OF ok assms(2), of use] by metis
  let ?a = "a\<lparr>aa_bitmap := btm\<rparr>"
  have pa: "page_addr ?a = page_addr a" by (rule ext) (simp add: page_addr_def)
  have lv: "live_pages ?a = (if use \<noteq> 0 then insert (page_addr a i) (live_pages a)
                      else live_pages a - {page_addr a i})"
  proof (cases "use = 0")
    case True
    have "page_addr a ` (used_bits (aa_bitmap a) - {i}) = page_addr a ` used_bits (aa_bitmap a) - page_addr a ` {i}"
      by (rule inj_on_image_set_diff[OF inj_page_addr[OF assms(1)]]) (use assms(2) used_bits_sub in auto)
    then show ?thesis using True by (simp add: live_pages_def pa b)
  qed (simp add: live_pages_def pa b)
  show thesis
  proof (rule that[of ?a])
    show "alloc_mem_use a (page_addr a i) 1 use = Some ?a"
      using assms b(1) page_addr_bound(3)[OF assms] by (simp add: alloc_mem_use_def alloc_ok_def)
    show "alloc_ok ?a" using assms(1) b(2,3) by (simp add: alloc_ok_def)
    show "all_pages ?a = all_pages a" by (simp add: all_pages_def pa b(3))
  qed (simp_all add: lv)
qed

section \<open>One page at a time: the pool contract\<close>

definition take_page :: "addr_alloc_t \<Rightarrow> (u32 option \<times> addr_alloc_t) option" where
  "take_page a = map_option (\<lambda>(r, a'). (if r = - 1 then None else Some r, a')) (alloc_phy_mem a 1)"

definition give_page :: "u32 \<Rightarrow> addr_alloc_t \<Rightarrow> addr_alloc_t option" where
  "give_page addr a = alloc_mem_use a addr 1 0"

lemma alloc_phy_mem_full:
  "alloc_ok a \<Longrightarrow> live_pages a = all_pages a \<Longrightarrow> alloc_phy_mem a 1 = Some (- 1, a)"
  using scan_one_full[of "aa_bitmap a"] by (simp add: alloc_phy_mem_def live_eq_all) (simp add: alloc_ok_def)

lemma alloc_phy_mem_one:
  assumes "alloc_ok a" "live_pages a \<noteq> all_pages a"
  obtains addr a' where "alloc_phy_mem a 1 = Some (addr, a')" "addr \<in> all_pages a - live_pages a"
    "addr \<noteq> - 1" "alloc_ok a'" "all_pages a' = all_pages a" "live_pages a' = insert addr (live_pages a)"
    "aa_start a' = aa_start a" "aa_page_size a' = aa_page_size a"
proof -
  have ok: "bitmap_ok (aa_bitmap a)" using assms(1) by (simp add: alloc_ok_def)
  have nf: "used_bits (aa_bitmap a) \<noteq> {..<nbits (aa_bitmap a)}"
    using assms live_eq_all by blast
  obtain f where f: "bitmap_scan (aa_bitmap a) 1 = Some (int f)" "f < nbits (aa_bitmap a)"
    "f \<notin> used_bits (aa_bitmap a)" by (rule scan_one_free[OF ok nf])
  obtain a' where a': "alloc_mem_use a (page_addr a f) 1 1 = Some a'" "alloc_ok a'"
    "all_pages a' = all_pages a" "aa_start a' = aa_start a" "aa_page_size a' = aa_page_size a"
    "live_pages a' = insert (page_addr a f) (live_pages a)"
    using alloc_mem_use_one[OF assms(1) f(2), of 1] by (metis one_neq_zero)
  show thesis
  proof (rule that[of "page_addr a f" a'])
    show "alloc_phy_mem a 1 = Some (page_addr a f, a')"
      unfolding alloc_phy_mem_def f(1) using a'(1) by (simp add: page_addr_def)
    show "page_addr a f \<in> all_pages a - live_pages a"
      using f page_addr_live[OF assms(1) f(2)] by (auto simp: all_pages_def)
    show "page_addr a f \<noteq> - 1" using page_addr_bound(2)[OF assms(1) f(2)] .
  qed (use a' in simp_all)
qed

interpretation pages: pool alloc_ok live_pages all_pages take_page give_page
proof unfold_locales
  fix a :: addr_alloc_t
  assume ok: "alloc_ok a"
  show "finite (all_pages a)" by (simp add: all_pages_def)
  show "live_pages a \<subseteq> all_pages a" using used_bits_sub by (auto simp: live_pages_def all_pages_def)
  { assume "live_pages a \<noteq> all_pages a"
    from alloc_phy_mem_one[OF ok this] obtain r p' where
      "alloc_phy_mem a 1 = Some (r, p')" "r \<in> all_pages a - live_pages a" "r \<noteq> - 1" "alloc_ok p'"
      "all_pages p' = all_pages a" "live_pages p' = insert r (live_pages a)" by metis
    then show
      "\<exists>r p'. take_page a = Some (Some r, p') \<and> r \<in> all_pages a - live_pages a \<and>
        live_pages p' = insert r (live_pages a) \<and> all_pages p' = all_pages a \<and> alloc_ok p'"
      by (intro exI[of _ r] exI[of _ p']) (simp add: take_page_def) }
  { assume "live_pages a = all_pages a"
    then show "take_page a = Some (None, a)" using alloc_phy_mem_full[OF ok] by (simp add: take_page_def) }
  { fix r
    assume "r \<in> live_pages a"
    then obtain i where i: "r = page_addr a i" "i < nbits (aa_bitmap a)"
      using used_bits_sub by (auto simp: live_pages_def)
    show "\<exists>p'. give_page r a = Some p' \<and> live_pages p' = live_pages a - {r} \<and>
        all_pages p' = all_pages a \<and> alloc_ok p'"
      unfolding give_page_def i(1) by (rule alloc_mem_use_one[OF ok i(2), of 0]) auto }
qed


section \<open>Runs of pages\<close>

lemma scan_run_free:
  assumes "bitmap_ok btm" "0 < k" "s + k \<le> nbits btm" "\<forall>i\<in>{s..<s + k}. i \<notin> used_bits btm"
  obtains r where "bitmap_scan btm k = Some (int r)" "r + k \<le> nbits btm" "\<forall>i\<in>{r..<r + k}. i \<notin> used_bits btm"
proof (cases "k = 1")
  case True
  have "s < nbits btm" "s \<notin> used_bits btm" using assms(2-4) True by auto
  then have "used_bits btm \<noteq> {..<nbits btm}" by auto
  from scan_one_free[OF assms(1) this] obtain f where f: "bitmap_scan btm 1 = Some (int f)" "f < nbits btm" "f \<notin> used_bits btm" .
  then have "f + k \<le> nbits btm" "\<forall>i\<in>{f..<f + k}. i \<notin> used_bits btm" using True by simp_all
  then show thesis using that f(1) True by blast
next
  case False
  then have k: "2 \<le> k" using assms(2) by simp
  have fs: "free_run btm s k" unfolding free_run_def
  proof (intro allI impI)
    fix j assume "s \<le> j \<and> j < s + k"
    then have "j \<notin> used_bits btm" "j < nbits btm" using assms(3,4) by simp_all
    then show "\<not> bit_at btm j" by (simp add: used_bits_def)
  qed
  from bitmap_scan_run[OF assms(1) k] obtain r where r: "bitmap_scan btm k = Some r"
    "if r < 0 then \<forall>s. s + k \<le> nbits btm \<longrightarrow> \<not> free_run btm s k
     else free_run btm (nat r) k \<and> nat r + k \<le> nbits btm + 1 \<and> (\<forall>s < nat r. \<not> free_run btm s k)" by blast
  then have p: "\<not> r < 0" using fs assms(3) by auto
  then have "free_run btm (nat r) k" "\<not> s < nat r" using r(2) fs by auto
  then have "nat r + k \<le> nbits btm" "\<forall>i\<in>{nat r..<nat r + k}. i \<notin> used_bits btm" using assms(3) by (simp_all add: free_run_def used_bits_def)
  moreover have "bitmap_scan btm k = Some (int (nat r))" using r(1) p by simp
  ultimately show thesis using that by blast
qed

lemma set_bits_used:
  assumes "bitmap_ok btm" "\<forall>i\<in>set is. i < nbits btm"
  shows "\<exists>btm'. set_bits is 1 btm = Some btm' \<and> bitmap_ok btm' \<and> nbits btm' = nbits btm \<and> used_bits btm' = used_bits btm \<union> set is"
  using assms
proof (induction "is" arbitrary: btm)
  case (Cons i js)
  have "i < nbits btm" using Cons.prems(2) by simp
  from bitmap_set_used[OF Cons.prems(1) this, of 1] obtain b where b: "bitmap_set btm i 1 = Some b" "bitmap_ok b" "nbits b = nbits btm"
    "used_bits b = insert i (used_bits btm)" by (metis one_neq_zero)
  from Cons.IH[OF b(2)] Cons.prems(2) b show ?case by auto
qed simp

lemma alloc_phy_mem_run:
  assumes "alloc_ok a" "0 < k" "s + k \<le> nbits (aa_bitmap a)" "\<forall>i\<in>{s..<s + k}. page_addr a i \<notin> live_pages a"
  obtains r a' where "alloc_phy_mem a k = Some (page_addr a r, a')" "r + k \<le> nbits (aa_bitmap a)"
    "\<forall>i\<in>{r..<r + k}. page_addr a i \<notin> live_pages a" "alloc_ok a'" "all_pages a' = all_pages a"
    "live_pages a' = live_pages a \<union> page_addr a ` {r..<r + k}" "aa_start a' = aa_start a" "aa_page_size a' = aa_page_size a"
proof -
  let ?b = "aa_bitmap a"
  have ok: "bitmap_ok ?b" using assms(1) by (simp add: alloc_ok_def)
  have "\<forall>i\<in>{s..<s + k}. i \<notin> used_bits ?b" using assms(3,4) page_addr_live[OF assms(1)] by auto
  from scan_run_free[OF ok assms(2,3) this] obtain r where r: "bitmap_scan ?b k = Some (int r)" "r + k \<le> nbits ?b"
    "\<forall>i\<in>{r..<r + k}. i \<notin> used_bits ?b" .
  from set_bits_used[OF ok, of "[r..<r + k]"] r(2) obtain b where b: "set_bits [r..<r + k] 1 ?b = Some b" "bitmap_ok b" "nbits b = nbits ?b"
    "used_bits b = used_bits ?b \<union> {r..<r + k}" by auto
  have rn: "r < nbits ?b" using r(2) assms(2) by simp
  let ?a = "a\<lparr>aa_bitmap := b\<rparr>"
  have pa: "page_addr ?a = page_addr a" by (rule ext) (simp add: page_addr_def)
  show thesis
  proof (rule that[of r ?a])
    have "unat ((page_addr a r - aa_start a) div aa_page_size a) = r" using page_addr_bound(3)[OF assms(1) rn] .
    then have "alloc_mem_use a (page_addr a r) k 1 = Some ?a"
      using b(1) assms(1) by (simp add: alloc_mem_use_def alloc_ok_def Let_def)
    then show "alloc_phy_mem a k = Some (page_addr a r, ?a)" using r(1) by (simp add: alloc_phy_mem_def page_addr_def)
    show "\<forall>i\<in>{r..<r + k}. page_addr a i \<notin> live_pages a" using r(2,3) page_addr_live[OF assms(1)] by auto
    show "live_pages ?a = live_pages a \<union> page_addr a ` {r..<r + k}" unfolding live_pages_def pa using b(4) by (simp add: image_Un)
    show "alloc_ok ?a" using assms(1) b(2,3) by (simp add: alloc_ok_def)
    show "all_pages ?a = all_pages a" by (simp add: all_pages_def pa b(3))
  qed (simp_all add: r(2))
qed

section \<open>Counting the used pages\<close>

lemma visit_bits_count:
  assumes "\<And>i. i \<in> set is \<Longrightarrow> i div 8 < length (bits btm)"
  shows "visit_bits (count_mem_used_visitor btm) is c = Some (True, c + length (filter (bit_at btm) is))"
  using assms by (induction "is" arbitrary: c) (simp_all add: count_mem_used_visitor_def bitmap_scan_test_eq)

lemma byte_zero_filter:
  assumes "\<not> 0 < bits btm ! k"
  shows "filter (bit_at btm) [k * 8..<k * 8 + 8] = []"
proof -
  have "x div 8 = k" if "k * 8 \<le> x" "x < k * 8 + 8" for x using that by linarith
  then show ?thesis using assms by (auto simp: filter_empty_conv bit_at_def word_gt_0)
qed

lemma foreach_loop_count:
  assumes "\<And>k. k \<in> set ks \<Longrightarrow> k < length (bits btm)"
  shows "foreach_loop btm 1 (count_mem_used_visitor btm) ks c =
    Some (c + (\<Sum>k\<leftarrow>ks. length (filter (bit_at btm) [k * 8..<k * 8 + 8])))"
  using assms
proof (induction ks arbitrary: c)
  case (Cons k ks)
  have "visit_bits (count_mem_used_visitor btm) [k * 8..<k * 8 + 8] c =
      Some (True, c + length (filter (bit_at btm) [k * 8..<k * 8 + 8]))"
    using Cons.prems[of k] by (intro visit_bits_count) auto
  moreover have "foreach_loop btm 1 (count_mem_used_visitor btm) ks c' =
      Some (c' + (\<Sum>k\<leftarrow>ks. length (filter (bit_at btm) [k * 8..<k * 8 + 8])))" for c'
    using Cons by simp
  ultimately show ?case
    using Cons.prems[of k] byte_zero_filter[of btm k] by (simp add: Let_def del: upt_Suc)
qed simp

lemma upt_bytes: "concat (map (\<lambda>k. [k * 8..<k * 8 + 8]) [0..<n]) = [0..<8 * n]"
proof (induction n)
  case (Suc n)
  have "[0..<8 * Suc n] = [0..<8 * n] @ [8 * n..<8 * n + 8]"
    using upt_add_eq_append[of 0 "8 * n" 8] by (simp add: add.commute del: upt_Suc)
  then show ?case
    by (simp only: Suc upt_Suc_append le0 map_append concat_append list.map concat.simps
        append_Nil2 mult.commute)
qed simp

lemma count_mem_used_eq:
  assumes "bitmap_ok (aa_bitmap a)"
  shows "count_mem_used a = Some (card (used_bits (aa_bitmap a)))"
proof -
  let ?b = "aa_bitmap a"
  have "count_mem_used a = Some (\<Sum>k\<leftarrow>[0..<bytes_len ?b]. length (filter (bit_at ?b) [k * 8..<k * 8 + 8]))"
    unfolding count_mem_used_def bitmap_foreach_def
    using assms by (subst foreach_loop_count) (simp_all add: bitmap_ok_def)
  also have "(\<Sum>k\<leftarrow>[0..<bytes_len ?b]. length (filter (bit_at ?b) [k * 8..<k * 8 + 8]))
      = length (filter (bit_at ?b) (concat (map (\<lambda>k. [k * 8..<k * 8 + 8]) [0..<bytes_len ?b])))"
    by (simp add: filter_concat length_concat comp_def del: upt_Suc)
  also have "\<dots> = length (filter (bit_at ?b) [0..<nbits ?b])"
    unfolding upt_bytes nbits_def ..
  also have "\<dots> = card (set (filter (bit_at ?b) [0..<nbits ?b]))"
    by (intro distinct_card[symmetric] distinct_filter) simp
  also have "set (filter (bit_at ?b) [0..<nbits ?b]) = used_bits ?b"
    by (auto simp: used_bits_def)
  finally show ?thesis .
qed


section \<open>Properties\<close>

text \<open>
  \<open>count_mem_used\<close> (\<open>paging.c\<close>), which walks the bitmap with \<open>bitmap_foreach\<close> and skips
  empty bytes, returns the number of pages in use.
\<close>

theorem count_mem_used_card:
  assumes "alloc_ok a"
  shows "count_mem_used a = Some (card (live_pages a))"
proof -
  have "card (live_pages a) = card (used_bits (aa_bitmap a))"
    unfolding live_pages_def using inj_page_addr[OF assms] used_bits_sub
    by (meson card_image inj_on_subset)
  with assms show ?thesis by (simp add: count_mem_used_eq alloc_ok_def)
qed

theorem count_mem_used_card_witness:
  "count_mem_used \<lparr>aa_start = 0x1000, aa_page_size = 4096, aa_bitmap = \<lparr>bytes_len = 2, bits = [5, 0, 0]\<rparr>\<rparr> =
   Some (card (live_pages \<lparr>aa_start = 0x1000, aa_page_size = 4096,
                            aa_bitmap = \<lparr>bytes_len = 2, bits = [5, 0, 0]\<rparr>\<rparr>))"
  by (rule count_mem_used_card) (simp add: alloc_ok_def bitmap_ok_def nbits_def)

end
