(* ===== verification/Paging.thy ===== *)
theory Paging
  imports Page_Alloc
begin

text \<open>
  Two-level paging and the page allocators of \<open>kernel/memory/paging.c\<close>, with \<open>find_pte\<close> of
  \<open>common/cpu/mem_page.c\<close> and the macros of \<open>common/cpu/mmu.h\<close>.  The page tables live in
  \<open>ram\<close>, the 32-bit words of physical memory by byte address; the kernel maps its memory to
  the same addresses, so that a table is reached by its physical address.  The four
  allocators are fields of the state (the virtual one of a process by process number); a
  pointer to one of them is a \<open>vir_id\<close> or \<open>phy_id\<close>.  The bytes of the bitmaps belong to the
  allocators and are not in \<open>ram\<close>.
\<close>

section \<open>Model\<close>

datatype phy_id = Kernel_phy | User_phy

datatype vir_id = Kernel_vir | User_vir nat

record mem_state =
  kernel_phy_addr_alloc :: addr_alloc_t
  kernel_vir_addr_alloc :: addr_alloc_t
  user_phy_addr_alloc :: addr_alloc_t
  task_vir_addr_alloc :: "nat \<Rightarrow> addr_alloc_t"
  ram :: "u32 \<Rightarrow> u32"
  kernel_page_dir :: u32
  kernel_all_memory :: u64
  user_all_memory :: u64
  cr3 :: u32

definition MEM_PAGE_SIZE :: u32 where "MEM_PAGE_SIZE = 4096"

definition MALLOC_MAX_PAGE :: nat where "MALLOC_MAX_PAGE = 1024"

fun get_phy :: "phy_id \<Rightarrow> mem_state \<Rightarrow> addr_alloc_t" where
  "get_phy Kernel_phy st = kernel_phy_addr_alloc st"
| "get_phy User_phy st = user_phy_addr_alloc st"

fun set_phy :: "phy_id \<Rightarrow> addr_alloc_t \<Rightarrow> mem_state \<Rightarrow> mem_state" where
  "set_phy Kernel_phy a st = st\<lparr>kernel_phy_addr_alloc := a\<rparr>"
| "set_phy User_phy a st = st\<lparr>user_phy_addr_alloc := a\<rparr>"

fun get_vir :: "vir_id \<Rightarrow> mem_state \<Rightarrow> addr_alloc_t" where
  "get_vir Kernel_vir st = kernel_vir_addr_alloc st"
| "get_vir (User_vir p) st = task_vir_addr_alloc st p"

fun set_vir :: "vir_id \<Rightarrow> addr_alloc_t \<Rightarrow> mem_state \<Rightarrow> mem_state" where
  "set_vir Kernel_vir a st = st\<lparr>kernel_vir_addr_alloc := a\<rparr>"
| "set_vir (User_vir p) a st = st\<lparr>task_vir_addr_alloc := (task_vir_addr_alloc st)(p := a)\<rparr>"

definition get_phy_addr_alloc :: "u32 \<Rightarrow> mem_state \<Rightarrow> phy_id" where
  "get_phy_addr_alloc paddr st = (if paddr < aa_start (user_phy_addr_alloc st) then Kernel_phy else User_phy)"

definition free_phy_mem :: "u32 \<Rightarrow> nat \<Rightarrow> mem_state \<Rightarrow> mem_state option" where
  "free_phy_mem paddr page_count st =
     (let k = get_phy_addr_alloc paddr st
      in do { a \<leftarrow> alloc_mem_use (get_phy k st) paddr page_count 0; Some (set_phy k a st) })"

fun free_phy_pages :: "u32 list \<Rightarrow> mem_state \<Rightarrow> mem_state option" where
  "free_phy_pages [] st = Some st"
| "free_phy_pages (p # ps) st = do { st' \<leftarrow> free_phy_mem p 1 st; free_phy_pages ps st' }"

definition alloc_phy :: "phy_id \<Rightarrow> nat \<Rightarrow> mem_state \<Rightarrow> (u32 \<times> mem_state) option" where
  "alloc_phy k page_count st = do {
     (addr, a) \<leftarrow> alloc_phy_mem (get_phy k st) page_count;
     Some (addr, set_phy k a st)
   }"

definition alloc_vir :: "vir_id \<Rightarrow> nat \<Rightarrow> mem_state \<Rightarrow> (u32 \<times> mem_state) option" where
  "alloc_vir v page_count st = do {
     (addr, a) \<leftarrow> alloc_vir_mem (get_vir v st) page_count;
     Some (addr, set_vir v a st)
   }"

definition free_vir :: "vir_id \<Rightarrow> u32 \<Rightarrow> nat \<Rightarrow> mem_state \<Rightarrow> mem_state option" where
  "free_vir v vaddr page_count st = do {
     a \<leftarrow> free_vir_mem (get_vir v st) vaddr page_count;
     Some (set_vir v a st)
   }"

text \<open>\<open>paddr < 0\<close> is written as in the code: on \<open>uint32_t\<close> it is never true.\<close>

fun phy_page_loop :: "phy_id \<Rightarrow> nat \<Rightarrow> u32 list \<Rightarrow> mem_state \<Rightarrow> (int \<times> u32 list \<times> mem_state) option" where
  "phy_page_loop k 0 paddrs st = Some (0, paddrs, st)"
| "phy_page_loop k (Suc n) paddrs st = do {
     (paddr, st1) \<leftarrow> alloc_phy k 1 st;
     if paddr < 0 then do { st2 \<leftarrow> free_phy_pages paddrs st1; Some (-1, paddrs, st2) }
     else phy_page_loop k n (paddrs @ [paddr]) st1
   }"

definition alloc_phy_mem_page :: "phy_id \<Rightarrow> nat \<Rightarrow> mem_state \<Rightarrow> (int \<times> u32 list \<times> mem_state) option" where
  "alloc_phy_mem_page k page_count st =
     (if page_count > MALLOC_MAX_PAGE then Some (-1, [], st) else phy_page_loop k page_count [] st)"

definition phy_of_vir :: "vir_id \<Rightarrow> phy_id" where
  "phy_of_vir v = (if v = Kernel_vir then Kernel_phy else User_phy)"

fun mem_page_loop ::
  "vir_id \<Rightarrow> u32 \<Rightarrow> nat \<Rightarrow> nat \<Rightarrow> u32 list \<Rightarrow> mem_state \<Rightarrow> (int \<times> u32 list \<times> mem_state) option" where
  "mem_page_loop v vaddr_start page_count 0 paddrs st = Some (0, paddrs, st)"
| "mem_page_loop v vaddr_start page_count (Suc n) paddrs st = do {
     (paddr, st1) \<leftarrow> alloc_phy (phy_of_vir v) 1 st;
     if paddr < 0 then do {
       st2 \<leftarrow> free_vir v vaddr_start page_count st1;
       st3 \<leftarrow> free_phy_pages paddrs st2;
       Some (-1, paddrs, st3)
     }
     else mem_page_loop v vaddr_start page_count n (paddrs @ [paddr]) st1
   }"

definition alloc_mem_page :: "vir_id \<Rightarrow> nat \<Rightarrow> mem_state \<Rightarrow> (int \<times> u32 \<times> u32 list \<times> mem_state) option" where
  "alloc_mem_page v page_count st = do {
     (vaddr_start, st1) \<leftarrow> alloc_vir v page_count st;
     if vaddr_start < 0 then Some (-1, 0, [], st1)
     else do {
       (err, paddrs, st2) \<leftarrow> mem_page_loop v vaddr_start page_count page_count [] st1;
       Some (err, vaddr_start, paddrs, st2)
     }
   }"

text \<open>
  \<open>malloc_mem\<close> with the call of \<open>map_mem_page\<close> as a parameter: for the allocator of the
  kernel the code does not reach the call, which is what lets \<open>find_pte_alloc\<close> allocate page
  tables with \<open>alloc_kernel_mem\<close>.
\<close>

definition malloc_mem_with ::
  "(u32 \<Rightarrow> u32 list \<Rightarrow> nat \<Rightarrow> mem_state \<Rightarrow> (u32 \<times> mem_state) option) \<Rightarrow>
   vir_id \<Rightarrow> nat \<Rightarrow> mem_state \<Rightarrow> (u32 \<times> mem_state) option" where
  "malloc_mem_with map_page v page_count st =
     (if page_count > MALLOC_MAX_PAGE then Some (- 1, st)
      else do {
        (err, vaddr, paddrs, st1) \<leftarrow> alloc_mem_page v page_count st;
        if err \<noteq> 0 then Some (- 1, st1)
        else if v \<noteq> Kernel_vir then map_page vaddr paddrs page_count st1
        else Some (vaddr, st1)
      })"

definition alloc_kernel_mem :: "nat \<Rightarrow> mem_state \<Rightarrow> (u32 \<times> mem_state) option" where
  "alloc_kernel_mem page_count st = malloc_mem_with (\<lambda>_ _ _ _. None) Kernel_vir page_count st"

definition pde_index :: "u32 \<Rightarrow> u32" where "pde_index addr = drop_bit 22 addr"

definition pte_index :: "u32 \<Rightarrow> u32" where "pte_index addr = drop_bit 12 addr AND 0x3ff"

definition pe_phy_addr :: "u32 \<Rightarrow> u32" where "pe_phy_addr phy_page_value = push_bit 12 phy_page_value"

definition phy_addr :: "u32 \<Rightarrow> u32 \<Rightarrow> u32" where "phy_addr page_base vaddr = page_base + (0x3ff AND vaddr)"

text \<open>The fields of the unions \<open>pde_t\<close> and \<open>pte_t\<close>.\<close>

definition pe_present :: "u32 \<Rightarrow> bool" where "pe_present v = bit v 0"

definition pe_frame :: "u32 \<Rightarrow> u32" where "pe_frame v = drop_bit 12 v"

definition PTE_P :: u32 where "PTE_P = 1"
definition PTE_W :: u32 where "PTE_W = 2"
definition PTE_U :: u32 where "PTE_U = 4"
definition PTE_S :: u32 where "PTE_S = 0"
definition PDE_PS :: u32 where "PDE_PS = 128"

text \<open>\<open>base + idx\<close> for a pointer to 4-byte entries.\<close>

definition entry :: "u32 \<Rightarrow> u32 \<Rightarrow> u32" where "entry base idx = base + 4 * idx"

definition get_pde :: "u32 \<Rightarrow> u32 \<Rightarrow> u32" where
  "get_pde page_dir vaddr = (if page_dir = 0 then 0 else entry page_dir (pde_index vaddr))"

definition get_pte :: "u32 \<Rightarrow> u32 \<Rightarrow> mem_state \<Rightarrow> u32" where
  "get_pte page_dir vaddr st =
     (let pde = get_pde page_dir vaddr
      in if pde = 0 \<or> \<not> pe_present (ram st pde) then 0
         else let pte = pe_phy_addr (pe_frame (ram st pde))
              in if pte = 0 then 0 else entry pte (pte_index vaddr))"

text \<open>The result and the out parameter \<open>have\<close>.\<close>

definition vaddr2paddr :: "u32 \<Rightarrow> u32 \<Rightarrow> mem_state \<Rightarrow> u32 \<times> bool" where
  "vaddr2paddr page_dir vaddr st =
     (let pte = get_pte page_dir vaddr st
      in if pte = 0 \<or> \<not> pe_present (ram st pte) then (- 1, False)
         else (phy_addr (pe_phy_addr (pe_frame (ram st pte))) vaddr, True))"

definition write_ram :: "u32 \<Rightarrow> u32 \<Rightarrow> mem_state \<Rightarrow> mem_state" where
  "write_ram a v st = st\<lparr>ram := (ram st)(a := v)\<rparr>"

text \<open>\<open>memset(addr, 0, MEM_PAGE_SIZE)\<close> on the words of a page.\<close>

definition zero_page :: "u32 \<Rightarrow> mem_state \<Rightarrow> mem_state" where
  "zero_page addr st = st\<lparr>ram := (\<lambda>a. if unat addr \<le> unat a \<and> unat a < unat addr + 4096 then 0 else ram st a)\<rparr>"

definition find_pte_alloc :: "u32 \<Rightarrow> u32 \<Rightarrow> bool \<Rightarrow> mem_state \<Rightarrow> (u32 \<times> mem_state) option" where
  "find_pte_alloc page_dir vaddr alloc st =
     (let pde = entry page_dir (pde_index vaddr)
      in if pe_present (ram st pde)
         then Some (entry (pe_phy_addr (pe_frame (ram st pde))) (pte_index vaddr), st)
         else if \<not> alloc then Some (0, st)
         else do {
           (addr, st1) \<leftarrow> alloc_kernel_mem 1 st;
           if addr < 0 then Some (0, st1)
           else Some (entry addr (pte_index vaddr),
                      zero_page addr (write_ram pde (addr OR PTE_P OR PTE_W OR PTE_U) st1))
         })"

text \<open>\<open>find_pte\<close> of \<open>mem_page.c\<close>, with \<open>alloc = 0\<close> as \<open>unmap_mem\<close> calls it.\<close>

definition find_pte :: "u32 \<Rightarrow> u32 \<Rightarrow> mem_state \<Rightarrow> u32" where
  "find_pte page_dir vaddr st =
     (let pde = entry page_dir (pde_index vaddr)
      in if pe_present (ram st pde) then entry (pe_phy_addr (pe_frame (ram st pde))) (pte_index vaddr)
         else 0)"

fun create_mem_map :: "u32 \<Rightarrow> u32 \<Rightarrow> u32 \<Rightarrow> nat \<Rightarrow> u32 \<Rightarrow> mem_state \<Rightarrow> (int \<times> mem_state) option" where
  "create_mem_map page_dir vaddr paddr 0 perm st = Some (0, st)"
| "create_mem_map page_dir vaddr paddr (Suc n) perm st = do {
     (pte, st1) \<leftarrow> find_pte_alloc page_dir vaddr True st;
     if pte = 0 then Some (-1, st1)
     else if pe_present (ram st1 pte) then Some (-1, st1)
     else create_mem_map page_dir (vaddr + MEM_PAGE_SIZE) (paddr + MEM_PAGE_SIZE) n perm
            (write_ram pte (paddr OR perm OR PTE_P) st1)
   }"

fun map_mem_loop :: "u32 \<Rightarrow> u32 \<Rightarrow> u32 \<Rightarrow> nat \<Rightarrow> bool \<Rightarrow> u32 \<Rightarrow> mem_state \<Rightarrow> (u32 \<times> mem_state) option" where
  "map_mem_loop page_dir vaddr paddr 0 ovr ret_vaddr st = Some (ret_vaddr, st)"
| "map_mem_loop page_dir vaddr paddr (Suc n) ovr ret_vaddr st =
     (let (get_paddr, have) = vaddr2paddr page_dir vaddr st
      in if have \<and> \<not> ovr then Some (- 1, st)
         else let permit = PTE_W OR (if page_dir \<noteq> kernel_page_dir st then PTE_U else PTE_S)
              in do {
                (err, st1) \<leftarrow> create_mem_map page_dir vaddr paddr 1 permit st;
                if err \<noteq> 0 then Some (- 1, st1)
                else map_mem_loop page_dir (vaddr + MEM_PAGE_SIZE) (paddr + MEM_PAGE_SIZE) n ovr ret_vaddr st1
              })"

definition page_down :: "u32 \<Rightarrow> u32" where
  "page_down a = a - a mod MEM_PAGE_SIZE"

definition map_mem :: "u32 \<Rightarrow> u32 \<Rightarrow> u32 \<Rightarrow> nat \<Rightarrow> bool \<Rightarrow> mem_state \<Rightarrow> (u32 \<times> mem_state) option" where
  "map_mem page_dir vaddr paddr page_count ovr st =
     map_mem_loop page_dir (page_down vaddr) (page_down paddr) page_count ovr (page_down vaddr) st"

fun unmap_loop :: "u32 \<Rightarrow> u32 \<Rightarrow> nat \<Rightarrow> mem_state \<Rightarrow> mem_state" where
  "unmap_loop page_dir vaddr 0 st = st"
| "unmap_loop page_dir vaddr (Suc n) st =
     (let pte = find_pte page_dir vaddr st;
          st' = (if pte \<noteq> 0 then write_ram pte (ram st pte AND NOT 1) st else st)
      in unmap_loop page_dir (vaddr + MEM_PAGE_SIZE) n st')"

definition unmap_mem :: "u32 \<Rightarrow> u32 \<Rightarrow> nat \<Rightarrow> mem_state \<Rightarrow> mem_state" where
  "unmap_mem page_dir vaddr page_count st = unmap_loop page_dir (page_down vaddr) page_count st"

fun unmap_first :: "u32 \<Rightarrow> u32 \<Rightarrow> nat \<Rightarrow> nat \<Rightarrow> mem_state \<Rightarrow> mem_state" where
  "unmap_first page_dir ret_vaddr j 0 st = st"
| "unmap_first page_dir ret_vaddr j (Suc n) st =
     unmap_first page_dir ret_vaddr (j + 1) n
       (unmap_mem page_dir (ret_vaddr + of_nat j * MEM_PAGE_SIZE) 1 st)"

fun map_page_loop :: "u32 \<Rightarrow> u32 \<Rightarrow> u32 list \<Rightarrow> nat \<Rightarrow> bool \<Rightarrow> u32 \<Rightarrow> mem_state \<Rightarrow> (u32 \<times> mem_state) option" where
  "map_page_loop page_dir vaddr [] i ovr ret_vaddr st = Some (ret_vaddr, st)"
| "map_page_loop page_dir vaddr (p # paddrs) i ovr ret_vaddr st = do {
     (addr, st1) \<leftarrow> map_mem page_dir vaddr p 1 ovr st;
     if addr < 0 then Some (- 1, unmap_first page_dir ret_vaddr 0 i st1)
     else map_page_loop page_dir (vaddr + MEM_PAGE_SIZE) paddrs (i + 1) ovr ret_vaddr st1
   }"

definition map_mem_page :: "u32 \<Rightarrow> u32 \<Rightarrow> u32 list \<Rightarrow> nat \<Rightarrow> bool \<Rightarrow> mem_state \<Rightarrow> (u32 \<times> mem_state) option" where
  "map_mem_page page_dir vaddr paddrs page_count ovr st =
     (if page_count > MALLOC_MAX_PAGE then Some (- 1, st)
      else if length paddrs < page_count then None
      else map_page_loop page_dir (page_down vaddr) (List.take page_count paddrs) 0 ovr (page_down vaddr) st)"

definition malloc_mem :: "u32 \<Rightarrow> vir_id \<Rightarrow> nat \<Rightarrow> mem_state \<Rightarrow> (u32 \<times> mem_state) option" where
  "malloc_mem page_dir v page_count st =
     malloc_mem_with (\<lambda>vaddr paddrs n s. map_mem_page page_dir vaddr paddrs n True s) v page_count st"


definition unalloc_mem :: "u32 \<Rightarrow> vir_id \<Rightarrow> u32 \<Rightarrow> nat \<Rightarrow> mem_state \<Rightarrow> (int \<times> mem_state) option" where
  "unalloc_mem page_dir v vaddr page_count st =
     (let (paddr, have) = vaddr2paddr page_dir vaddr st
      in if \<not> have then Some (-1, st)
         else do {
           st1 \<leftarrow> free_phy_mem paddr page_count st;
           st2 \<leftarrow> free_vir v vaddr page_count st1;
           Some (0, st2)
         })"

text \<open>
  \<open>unmap_mem\<close> has no return statement, so the error code of \<open>unmalloc_mem\<close> is unspecified
  after it: \<open>None\<close> in the first component.
\<close>

definition unmalloc_mem :: "u32 \<Rightarrow> vir_id \<Rightarrow> u32 \<Rightarrow> nat \<Rightarrow> mem_state \<Rightarrow> (int option \<times> mem_state) option" where
  "unmalloc_mem page_dir v vaddr page_count st = do {
     (err, st1) \<leftarrow> unalloc_mem page_dir v vaddr page_count st;
     if err \<noteq> 0 then Some (Some err, st1)
     else if page_dir \<noteq> kernel_page_dir st1 then Some (None, unmap_mem page_dir vaddr page_count st1)
     else Some (Some err, st1)
   }"

definition unalloc_kernel_mem :: "u32 \<Rightarrow> nat \<Rightarrow> mem_state \<Rightarrow> (int option \<times> mem_state) option" where
  "unalloc_kernel_mem vaddr page_count st = unmalloc_mem (kernel_page_dir st) Kernel_vir vaddr page_count st"

definition malloc_mem_vaddr :: "u32 \<Rightarrow> vir_id \<Rightarrow> u32 \<Rightarrow> nat \<Rightarrow> mem_state \<Rightarrow> (u32 \<times> mem_state) option" where
  "malloc_mem_vaddr page_dir v vaddr0 page_count st =
     (let vaddr = page_down vaddr0
      in if \<exists>i\<in>set [0..<page_count].
              (let pte = get_pte page_dir (vaddr + of_nat i * MEM_PAGE_SIZE) st
               in pte \<noteq> 0 \<and> pe_present (ram st pte))
         then Some (- 1, st)
         else if page_count > MALLOC_MAX_PAGE then Some (- 1, st)
         else do {
           (err, paddrs, st1) \<leftarrow> alloc_phy_mem_page (phy_of_vir v) page_count st;
           if err \<noteq> 0 then Some (- 1, st1)
           else do {
             a \<leftarrow> alloc_mem_use (get_vir v st1) vaddr page_count 1;
             map_mem_page page_dir vaddr paddrs page_count True (set_vir v a st1)
           }
         })"

text \<open>4 MB entries; the function has no return statement on success.\<close>

fun big_map_loop :: "u32 \<Rightarrow> u32 \<Rightarrow> u32 \<Rightarrow> u32 \<Rightarrow> nat \<Rightarrow> mem_state \<Rightarrow> mem_state" where
  "big_map_loop page_dir vaddr paddr perm 0 st = st"
| "big_map_loop page_dir vaddr paddr perm (Suc n) st =
     big_map_loop page_dir (vaddr + 0x400000) (paddr + 0x400000) perm n
       (write_ram (entry page_dir (pde_index vaddr)) (paddr OR PTE_P OR PDE_PS OR perm) st)"

definition create_big_mem_map :: "u32 \<Rightarrow> u32 \<Rightarrow> u32 \<Rightarrow> u32 \<Rightarrow> u32 \<Rightarrow> mem_state \<Rightarrow> (int option \<times> mem_state) option" where
  "create_big_mem_map page_dir vaddr sz paddr perm st =
     (let offset_n4m = vaddr mod 0x400000; handle_size = 0x400000 - offset_n4m
      in do {
        (err, st1) \<leftarrow> (if offset_n4m > 0
           then create_mem_map page_dir vaddr paddr (unat (handle_size div MEM_PAGE_SIZE)) perm st
           else Some (0, st));
        if err \<noteq> 0 then Some (Some err, st1)
        else let vaddr' = (if offset_n4m > 0 then vaddr + handle_size else vaddr);
                 paddr' = (if offset_n4m > 0 then paddr + handle_size else paddr);
                 sz' = (if offset_n4m > 0 then sz - handle_size else sz)
             in do {
               n \<leftarrow> up2 sz' 0x400000;
               Some (None, big_map_loop page_dir vaddr' paddr' perm (unat (n div 0x400000)) st1)
             }
      })"

fun copy_pdes :: "u32 \<Rightarrow> nat \<Rightarrow> mem_state \<Rightarrow> mem_state" where
  "copy_pdes page_dir 0 st = st"
| "copy_pdes page_dir (Suc i) st =
     (let v = ram st (entry (kernel_page_dir st) (of_nat i))
      in copy_pdes page_dir i (if pe_present v then write_ram (entry page_dir (of_nat i)) v st else st))"

definition create_uvm :: "mem_state \<Rightarrow> (u32 \<times> mem_state) option" where
  "create_uvm st = do {
     (addr, st1) \<leftarrow> alloc_kernel_mem 1 st;
     if addr < 0 then Some (0, st1)
     else Some (addr, copy_pdes addr (unat (drop_bit 22 (kernel_all_memory st1))) (zero_page addr st1))
   }"

text \<open>
  \<open>destroy_uvm\<close> as it is written: \<open>pde += i\<close> and \<open>pte += i\<close> move the pointers by growing
  steps.
\<close>

fun destroy_ptes :: "u32 \<Rightarrow> nat list \<Rightarrow> mem_state \<Rightarrow> mem_state option" where
  "destroy_ptes pte [] st = Some st"
| "destroy_ptes pte (i # is) st =
     (let pte' = entry pte (of_nat i)
      in if \<not> pe_present (ram st pte') then destroy_ptes pte' is st
         else do {
           st' \<leftarrow> free_phy_mem (pe_phy_addr (pe_frame (ram st pte'))) 1 st;
           destroy_ptes pte' is st'
         })"

fun destroy_pdes :: "u32 \<Rightarrow> nat list \<Rightarrow> mem_state \<Rightarrow> mem_state option" where
  "destroy_pdes pde [] st = Some st"
| "destroy_pdes pde (i # is) st =
     (let pde' = entry pde (of_nat i); v = ram st pde'
      in if \<not> pe_present v then destroy_pdes pde' is st
         else if pe_phy_addr (pe_frame v) = 0 then destroy_pdes pde' is st
         else do {
           st1 \<leftarrow> destroy_ptes (pe_phy_addr (pe_frame v)) [0..<1024] st;
           st2 \<leftarrow> free_phy_mem (pe_phy_addr (pe_frame (ram st1 pde'))) 1 st1;
           destroy_pdes pde' is st2
         })"

definition destroy_uvm :: "u32 \<Rightarrow> mem_state \<Rightarrow> mem_state option" where
  "destroy_uvm page_dir st = do {
     st1 \<leftarrow> destroy_pdes page_dir [unat (drop_bit 22 (kernel_all_memory st))..<1024] st;
     free_phy_mem page_dir 1 st1
   }"

fun alloc_vm_loop :: "phy_id \<Rightarrow> u32 \<Rightarrow> u32 \<Rightarrow> nat \<Rightarrow> u32 \<Rightarrow> mem_state \<Rightarrow> (int \<times> mem_state) option" where
  "alloc_vm_loop k page_dir vstart 0 perm st = Some (0, st)"
| "alloc_vm_loop k page_dir vstart (Suc n) perm st = do {
     (paddr, st1) \<leftarrow> alloc_phy k 1 st;
     if paddr = 0 then Some (-1, st1)
     else do {
       (err, st2) \<leftarrow> create_mem_map page_dir vstart paddr 1 perm st1;
       if err \<noteq> 0 then do { st3 \<leftarrow> free_phy_mem paddr 1 st2; Some (err, st3) }
       else alloc_vm_loop k page_dir (vstart + MEM_PAGE_SIZE) n perm st2
     }
   }"

definition alloc_vm_for_page_dir :: "u32 \<Rightarrow> u32 \<Rightarrow> u32 \<Rightarrow> u32 \<Rightarrow> mem_state \<Rightarrow> (int \<times> mem_state) option" where
  "alloc_vm_for_page_dir page_dir vstart sz perm st = do {
     n \<leftarrow> up2 sz MEM_PAGE_SIZE;
     alloc_vm_loop (if page_dir = kernel_page_dir st then Kernel_phy else User_phy) page_dir vstart
       (unat (n div MEM_PAGE_SIZE)) perm st
   }"

text \<open>\<open>free_phy_mem\<close> always returns 0, so \<open>if (!err) return err\<close> leaves after the first page.\<close>

fun free_vm_loop :: "u32 \<Rightarrow> u32 \<Rightarrow> nat \<Rightarrow> mem_state \<Rightarrow> (int \<times> mem_state) option" where
  "free_vm_loop page_dir vstart 0 st = Some (0, st)"
| "free_vm_loop page_dir vstart (Suc n) st =
     (let (paddr, have) = vaddr2paddr page_dir vstart st
      in if \<not> have then Some (-1, st)
         else do {
           st1 \<leftarrow> free_phy_mem paddr 1 st;
           let err = (0 :: int);
           if err = 0 then Some (err, st1)
           else let pte = get_pte page_dir vstart st1
                in if pte = 0 \<or> \<not> pe_present (ram st1 pte) then free_vm_loop page_dir vstart n st1
                   else free_vm_loop page_dir (vstart + MEM_PAGE_SIZE) n (write_ram pte 0 st1)
         })"

definition free_vm_for_page_dir :: "u32 \<Rightarrow> u32 \<Rightarrow> u32 \<Rightarrow> mem_state \<Rightarrow> (int \<times> mem_state) option" where
  "free_vm_for_page_dir page_dir vstart sz st = do {
     n \<leftarrow> up2 sz MEM_PAGE_SIZE;
     free_vm_loop page_dir vstart (unat (n div MEM_PAGE_SIZE)) st
   }"

text \<open>\<open>mem\<close> is what the memory at the address returned by \<open>alloc_kernel_mem\<close> holds.\<close>

definition init_user_vir_addr_alloc :: "nat \<Rightarrow> u8 list \<Rightarrow> mem_state \<Rightarrow> mem_state option" where
  "init_user_vir_addr_alloc p mem st =
     (let bytes_len = (ucast ((user_all_memory st div 4096 + 7) div 8) :: u32)
      in do {
        n \<leftarrow> up2 bytes_len MEM_PAGE_SIZE;
        (bits, st1) \<leftarrow> alloc_kernel_mem (unat (n div MEM_PAGE_SIZE)) st;
        a \<leftarrow> init_addr_alloc mem (ucast (kernel_all_memory st1)) (ucast (user_all_memory st1)) MEM_PAGE_SIZE;
        Some (set_vir (User_vir p) a st1)
      })"

definition map_mem_direct :: "u32 \<Rightarrow> u32 \<Rightarrow> u32 \<Rightarrow> mem_state \<Rightarrow> mem_state option" where
  "map_mem_direct vaddr paddr sz st =
     (let page_count = unat (page_down sz div MEM_PAGE_SIZE); k = get_phy_addr_alloc paddr st
      in do {
        a \<leftarrow> alloc_mem_use (get_phy k st) paddr page_count 1;
        let st1 = set_phy k a st;
        b \<leftarrow> alloc_mem_use (kernel_vir_addr_alloc st1) vaddr page_count 1;
        (r, st2) \<leftarrow> map_mem (cr3 st1) vaddr paddr page_count True (set_vir Kernel_vir b st1);
        Some st2
      })"

text \<open>
  \<open>init_paging\<close>: the symbols of the linker script are arguments, \<open>mem_free\<close> is the memory
  behind \<open>mem_free_start\<close> from which the three bitmaps are cut one after the other.
\<close>

record mem_map =
  mm_vstart :: u32
  mm_vend :: u32
  mm_pstart :: u32
  mm_perm :: u32

record linker_symbols =
  ls_kernel_base :: u32
  ls_s_text :: u32
  ls_e_text :: u32
  ls_s_data :: u32

definition MEM_EXT_START :: u32 where "MEM_EXT_START = 0x300000"
definition EBDA_START :: u32 where "EBDA_START = 0x80000"

definition kernel_map :: "linker_symbols \<Rightarrow> u32 \<Rightarrow> u32 \<Rightarrow> mem_map list" where
  "kernel_map ls kernel_vstart kernel_vend =
     [\<lparr>mm_vstart = ls_kernel_base ls, mm_vend = ls_s_text ls, mm_pstart = 0, mm_perm = PTE_U OR PTE_W\<rparr>,
      \<lparr>mm_vstart = ls_s_text ls, mm_vend = ls_e_text ls, mm_pstart = ls_s_text ls, mm_perm = PTE_S OR PTE_W\<rparr>,
      \<lparr>mm_vstart = ls_s_data ls, mm_vend = EBDA_START - 1, mm_pstart = ls_s_data ls, mm_perm = PTE_S OR PTE_W\<rparr>,
      \<lparr>mm_vstart = EBDA_START, mm_vend = kernel_vstart - 1, mm_pstart = EBDA_START, mm_perm = PTE_S OR PTE_W\<rparr>,
      \<lparr>mm_vstart = kernel_vstart, mm_vend = kernel_vend, mm_pstart = MEM_EXT_START, mm_perm = PTE_S OR PTE_W\<rparr>]"

fun map_kernel :: "mem_map list \<Rightarrow> u32 \<Rightarrow> u32 \<Rightarrow> mem_state \<Rightarrow> mem_state option" where
  "map_kernel [] kernel_vstart kernel_vend st = Some st"
| "map_kernel (kmap # rest) kernel_vstart kernel_vend st =
     (if mm_vstart kmap \<ge> kernel_vstart \<and> mm_vend kmap \<le> kernel_vend
      then do {
        (e, st1) \<leftarrow> create_big_mem_map (kernel_page_dir st) (mm_vstart kmap)
          (mm_vend kmap - mm_vstart kmap + 1) (mm_pstart kmap) (mm_perm kmap) st;
        map_kernel rest kernel_vstart kernel_vend st1
      }
      else do {
        vend \<leftarrow> up2 (mm_vend kmap) MEM_PAGE_SIZE;
        let vstart = page_down (mm_vstart kmap);
        let p_count = sint ((vend - vstart) div MEM_PAGE_SIZE);
        (e, st1) \<leftarrow> (if p_count > 0
          then create_mem_map (kernel_page_dir st) vstart (mm_pstart kmap) (nat p_count) (mm_perm kmap) st
          else Some (0, st));
        map_kernel rest kernel_vstart kernel_vend st1
      })"

definition init_paging :: "u64 \<Rightarrow> linker_symbols \<Rightarrow> u8 list \<Rightarrow> mem_state \<Rightarrow> mem_state option" where
  "init_paging all_mem ls mem_free st =
     (let kmem = (if all_mem div 4 > 0x40000000 then 0x40000000 else all_mem div 4);
          umem = all_mem - kmem;
          mem_up1m_free = page_down (ucast kmem - MEM_EXT_START)
      in do {
        kp \<leftarrow> init_addr_alloc mem_free MEM_EXT_START mem_up1m_free MEM_PAGE_SIZE;
        let off1 = bytes_len (aa_bitmap kp);
        kv \<leftarrow> init_addr_alloc (drop off1 mem_free) MEM_EXT_START mem_up1m_free MEM_PAGE_SIZE;
        let off2 = off1 + bytes_len (aa_bitmap kv);
        up \<leftarrow> init_addr_alloc (drop off2 mem_free) (ucast kmem) (ucast umem) MEM_PAGE_SIZE;
        let st1 = zero_page (kernel_page_dir st)
          (st\<lparr>kernel_phy_addr_alloc := kp, kernel_vir_addr_alloc := kv, user_phy_addr_alloc := up,
              kernel_all_memory := kmem, user_all_memory := umem\<rparr>);
        st2 \<leftarrow> map_kernel (kernel_map ls MEM_EXT_START (ucast kmem - 1)) MEM_EXT_START (ucast kmem - 1) st1;
        Some (st2\<lparr>cr3 := kernel_page_dir st2\<rparr>)
      })"

end
