(* ===== verification/Paging_Proofs.thy ===== *)
theory Paging_Proofs
  imports Paging
begin

text \<open>
  What the page allocator and the page tables of \<open>kernel/memory/paging.c\<close> guarantee: pages
  handed out are fresh and distinct, mapping a page changes the translation of that page only,
  unmapping undoes it.  The last section states what happens when the physical memory is used
  up, which the code does not detect.
\<close>

section \<open>Allocating physical pages\<close>

lemma get_set_phy [simp]: "get_phy k (set_phy k a st) = a" "set_phy k a (set_phy k b st) = set_phy k a st"
  "set_phy k (get_phy k st) st = st"
  by (cases k; simp)+

lemma get_set_vir [simp]: "get_vir v (set_vir v a st) = a" "set_vir v a (set_vir v b st) = set_vir v a st"
  by (cases v; simp)+

lemma ram_set [simp]: "ram (set_phy k a st) = ram st" "ram (set_vir v b st) = ram st"
  by (cases k; simp) (cases v; simp)

lemma phy_page_loop_take_n:
  assumes "pages.take_n n (get_phy k st) = Some (xs, a)" "length xs = n"
  shows "phy_page_loop k n acc st = Some (0, acc @ xs, set_phy k a st)"
  using assms
proof (induction n arbitrary: acc st xs)
  case (Suc n)
  obtain r a1 where t: "take_page (get_phy k st) = Some (r, a1)"
    using Suc.prems(1) by (cases "take_page (get_phy k st)") auto
  then obtain x ys where x: "r = Some x" "xs = x # ys" "pages.take_n n a1 = Some (ys, a)" "length ys = n"
    using Suc.prems by (auto split: option.splits bind_splits)
  have "alloc_phy_mem (get_phy k st) 1 = Some (x, a1)"
    using t x(1) by (auto simp: take_page_def split: if_splits)
  then have "alloc_phy k 1 st = Some (x, set_phy k a1 st)" by (simp add: alloc_phy_def)
  moreover have "phy_page_loop k n (acc @ [x]) (set_phy k a1 st) = Some (0, (acc @ [x]) @ ys, set_phy k a st)"
    using Suc.IH[of "set_phy k a1 st" ys "acc @ [x]"] x by simp
  ultimately show ?case using x by simp
qed (use get_set_phy(3) in auto)

lemma phy_page_loop_full:
  assumes "alloc_ok (get_phy k st)" "live_pages (get_phy k st) = all_pages (get_phy k st)"
  shows "phy_page_loop k n acc st = Some (0, acc @ replicate n (- 1), st)"
  using assms alloc_phy_mem_full[OF assms]
  by (induction n arbitrary: acc) (simp_all add: alloc_phy_def replicate_app_Cons_same)

section \<open>Addresses of page table entries\<close>

definition aligned :: "u32 \<Rightarrow> bool" where
  "aligned a \<longleftrightarrow> unat a mod 4096 = 0"

lemma frame_base:
  assumes "aligned a" "f < 4096"
  shows "pe_phy_addr (pe_frame (a OR f)) = a"
proof -
  have "take_bit 12 a = 0"
    using assms(1) by (simp add: aligned_def take_bit_eq_mod word_unat_eq_iff unat_mod_distrib)
  then have a: "\<not> bit a n" if "n < 12" for n
    using that bit_take_bit_iff[of 12 a n] by simp
  have "take_bit 12 f = f"
    using assms(2) by (simp add: take_bit_eq_mod word_unat_eq_iff unat_mod_distrib word_less_nat_alt)
  then have f: "\<not> bit f n" if "12 \<le> n" for n
    using that bit_take_bit_iff[of 12 f n] by simp
  show ?thesis
    unfolding pe_phy_addr_def pe_frame_def
  proof (rule bit_word_eqI)
    fix n :: nat
    assume "n < LENGTH(32)"
    then show "bit (push_bit 12 (drop_bit 12 (a OR f))) n = bit a n"
      using a[of n] f[of n] by (cases "n < 12") (auto simp: bit_push_bit_iff bit_drop_bit_eq bit_or_iff)
  qed
qed

lemma pde_index_lt: "unat (pde_index v) < 1024"
proof -
  have "unat (drop_bit 22 v) = unat v div 2 ^ 22" by (simp add: drop_bit_eq_div unat_div_distrib)
  then show ?thesis unfolding pde_index_def using unsigned_less[of v, where ?'a=nat] by simp
qed

lemma pte_index_eq: "unat (pte_index v) = unat v div 4096 mod 1024"
proof -
  have "pte_index v = take_bit 10 (drop_bit 12 v)"
    unfolding pte_index_def by (simp add: take_bit_eq_mask mask_eq_exp_minus_1)
  then show ?thesis
    by (simp add: take_bit_eq_mod drop_bit_eq_div unat_div_distrib unat_mod_distrib)
qed

lemma pde_index_eq: "unat (pde_index v) = unat v div 4096 div 1024"
  unfolding pde_index_def by (simp add: drop_bit_eq_div unat_div_distrib flip: div_mult2_eq)

lemma alignedE:
  assumes "aligned b"
  obtains p where "unat b = 4096 * p" "p < 1048576"
proof -
  have "4096 dvd unat b" using assms by (simp add: aligned_def dvd_eq_mod_eq_0)
  then obtain p where "unat b = 4096 * p" ..
  moreover have "unat b < 4294967296" using unsigned_less[of b, where ?'a=nat] by simp
  ultimately show thesis by (intro that[of p]) auto
qed

lemma unat_entry:
  assumes "aligned b" "unat i < 1024"
  shows "unat (entry b i) = unat b + 4 * unat i"
proof -
  obtain p where p: "unat b = 4096 * p" "p < 1048576" using alignedE[OF assms(1)] .
  have m: "unat (4 * i) = 4 * unat i" using assms(2) by (subst unat_mult_small) simp_all
  show ?thesis unfolding entry_def using p assms(2) by (subst unat_add_small) (simp_all add: m)
qed

lemma entry_eq_iff:
  assumes "aligned b" "aligned c" "unat i < 1024" "unat j < 1024"
  shows "entry b i = entry c j \<longleftrightarrow> b = c \<and> i = j"
proof -
  obtain p q where "unat b = 4096 * p" "unat c = 4096 * q"
    using alignedE assms(1,2) by metis
  moreover have "p = q" if "4096 * p + 4 * unat i = 4096 * q + 4 * unat j"
    using arg_cong[OF that, of "\<lambda>x. x div 4096"] assms(3,4) by simp
  ultimately show ?thesis
    unfolding word_unat_eq_iff unat_entry[OF assms(1,3)] unat_entry[OF assms(2,4)] by auto
qed

lemma entry_in_page:
  assumes "aligned b" "aligned c" "unat i < 1024"
  shows "unat b \<le> unat (entry c i) \<and> unat (entry c i) < unat b + 4096 \<longleftrightarrow> b = c"
proof -
  obtain p q where "unat b = 4096 * p" "unat c = 4096 * q"
    using alignedE assms(1,2) by metis
  then show ?thesis
    unfolding unat_entry[OF assms(2,3)] word_unat_eq_iff using assms(3) by auto
qed

lemma same_page:
  "pde_index v = pde_index w \<and> pte_index v = pte_index w \<longleftrightarrow> unat v div 4096 = unat w div 4096"
proof
  assume "pde_index v = pde_index w \<and> pte_index v = pte_index w"
  then have "unat v div 4096 div 1024 = unat w div 4096 div 1024"
    "unat v div 4096 mod 1024 = unat w div 4096 mod 1024"
    using pde_index_eq pte_index_eq by metis+
  then show "unat v div 4096 = unat w div 4096" by (metis div_mult_mod_eq)
qed (simp add: word_unat_eq_iff pde_index_eq pte_index_eq)


section \<open>Address spaces\<close>

text \<open>The translation of a page directory as a partial function, through \<open>vaddr2paddr\<close>.\<close>

definition xlate :: "u32 \<Rightarrow> mem_state \<Rightarrow> u32 \<Rightarrow> u32 option" where
  "xlate pd st va = (let (p, have) = vaddr2paddr pd va st in if have then Some p else None)"

definition table :: "u32 \<Rightarrow> mem_state \<Rightarrow> u32 \<Rightarrow> u32" where
  "table pd st i = pe_phy_addr (pe_frame (ram st (entry pd i)))"

definition has_table :: "u32 \<Rightarrow> mem_state \<Rightarrow> u32 \<Rightarrow> bool" where
  "has_table pd st i \<longleftrightarrow> unat i < 1024 \<and> pe_present (ram st (entry pd i))"

text \<open>
  A well-formed address space: the directory and its tables are different pages that the
  kernel allocator has handed out.
\<close>

definition space_ok :: "u32 \<Rightarrow> mem_state \<Rightarrow> bool" where
  "space_ok pd st \<longleftrightarrow> aligned pd \<and> pd \<noteq> 0 \<and> pd \<in> live_pages (kernel_vir_addr_alloc st) \<and>
     (\<forall>i. has_table pd st i \<longrightarrow> table pd st i \<noteq> 0 \<and> table pd st i \<noteq> pd \<and>
        table pd st i \<in> live_pages (kernel_vir_addr_alloc st)) \<and>
     (\<forall>i j. has_table pd st i \<and> has_table pd st j \<and> table pd st i = table pd st j \<longrightarrow> i = j)"

definition kernel_ok :: "mem_state \<Rightarrow> bool" where
  "kernel_ok st \<longleftrightarrow> alloc_ok (kernel_vir_addr_alloc st) \<and> alloc_ok (kernel_phy_addr_alloc st) \<and>
     aa_page_size (kernel_vir_addr_alloc st) = 4096 \<and> aligned (aa_start (kernel_vir_addr_alloc st)) \<and>
     aa_start (kernel_vir_addr_alloc st) \<noteq> 0"

lemma aligned_table: "aligned (table pd st i)"
  by (simp add: aligned_def table_def pe_phy_addr_def push_bit_eq_mult unat_word_ariths
      mod_mod_cancel)

lemma entry_nonzero: "aligned b \<Longrightarrow> b \<noteq> 0 \<Longrightarrow> unat i < 1024 \<Longrightarrow> entry b i \<noteq> 0"
  using unat_entry[of b i] by (auto simp: word_unat_eq_iff)

lemma pte_index_lt: "unat (pte_index v) < 1024"
  by (simp add: pte_index_eq)

lemma xlate_eq:
  assumes "space_ok pd st"
  shows "xlate pd st va =
    (if has_table pd st (pde_index va) \<and> pe_present (ram st (entry (table pd st (pde_index va)) (pte_index va)))
     then Some (phy_addr (pe_phy_addr (pe_frame (ram st (entry (table pd st (pde_index va)) (pte_index va))))) va)
     else None)"
proof -
  have pd: "aligned pd" "pd \<noteq> 0" using assms by (auto simp: space_ok_def)
  note nz = entry_nonzero[OF pd pde_index_lt]
  have tz: "table pd st (pde_index va) \<noteq> 0" if "has_table pd st (pde_index va)"
    using assms that unfolding space_ok_def by blast
  then have ez: "entry (table pd st (pde_index va)) (pte_index va) \<noteq> 0" if "has_table pd st (pde_index va)"
    using that by (intro entry_nonzero aligned_table pte_index_lt)
  have ht: "has_table pd st (pde_index va) \<longleftrightarrow> pe_present (ram st (entry pd (pde_index va)))"
    by (simp add: has_table_def pde_index_lt)
  have "get_pte pd va st =
      (if has_table pd st (pde_index va) then entry (table pd st (pde_index va)) (pte_index va) else 0)"
    using nz tz by (simp add: get_pte_def get_pde_def Let_def pd(2) ht table_def)
  then show ?thesis using ez by (simp add: xlate_def vaddr2paddr_def Let_def)
qed

lemma pages_aligned:
  assumes "kernel_ok st" "p \<in> all_pages (kernel_vir_addr_alloc st)"
  shows "aligned p" "p \<noteq> 0"
proof -
  let ?a = "kernel_vir_addr_alloc st"
  obtain i where i: "p = page_addr ?a i" "i < nbits (aa_bitmap ?a)" using assms(2) by (auto simp: all_pages_def)
  then have "unat p = unat (aa_start ?a) + i * 4096"
    using assms(1) page_addr_bound(1)[of ?a i] by (simp add: kernel_ok_def)
  moreover have "0 < unat (aa_start ?a)" using assms(1) by (simp add: kernel_ok_def unat_gt_0)
  ultimately show "aligned p" "p \<noteq> 0"
    using assms(1) by (auto simp: kernel_ok_def aligned_def)
qed

lemma alloc_vir_mem_eq: "alloc_vir_mem = alloc_phy_mem"
  by (intro ext) (simp add: alloc_vir_mem_def alloc_phy_mem_def)

lemma alloc_phy_total:
  assumes "alloc_ok (get_phy k st)"
  obtains addr a where "alloc_phy k 1 st = Some (addr, set_phy k a st)" "alloc_ok a" "all_pages a = all_pages (get_phy k st)"
proof (cases "live_pages (get_phy k st) = all_pages (get_phy k st)")
  case True
  with assms show thesis
    using alloc_phy_mem_full[OF assms True] by (intro that[of "- 1" "get_phy k st"]) (simp_all add: alloc_phy_def)
next
  case False
  from alloc_phy_mem_one[OF assms this] obtain addr a where
    "alloc_phy_mem (get_phy k st) 1 = Some (addr, a)" "alloc_ok a" "all_pages a = all_pages (get_phy k st)" by metis
  then show thesis by (intro that[of addr a]) (simp_all add: alloc_phy_def)
qed

lemma alloc_kernel_mem_one:
  assumes "kernel_ok st" "live_pages (kernel_vir_addr_alloc st) \<noteq> all_pages (kernel_vir_addr_alloc st)"
  obtains addr st' where "alloc_kernel_mem 1 st = Some (addr, st')"
    "addr \<in> all_pages (kernel_vir_addr_alloc st) - live_pages (kernel_vir_addr_alloc st)"
    "live_pages (kernel_vir_addr_alloc st') = insert addr (live_pages (kernel_vir_addr_alloc st))"
    "all_pages (kernel_vir_addr_alloc st') = all_pages (kernel_vir_addr_alloc st)"
    "kernel_ok st'" "ram st' = ram st" "kernel_page_dir st' = kernel_page_dir st"
    "all_pages (kernel_phy_addr_alloc st') = all_pages (kernel_phy_addr_alloc st)" "user_phy_addr_alloc st' = user_phy_addr_alloc st"
proof -
  have ok: "alloc_ok (kernel_vir_addr_alloc st)" using assms(1) by (simp add: kernel_ok_def)
  obtain addr b where b: "alloc_phy_mem (kernel_vir_addr_alloc st) 1 = Some (addr, b)"
    "addr \<in> all_pages (kernel_vir_addr_alloc st) - live_pages (kernel_vir_addr_alloc st)"
    "alloc_ok b" "all_pages b = all_pages (kernel_vir_addr_alloc st)"
    "live_pages b = insert addr (live_pages (kernel_vir_addr_alloc st))"
    "aa_start b = aa_start (kernel_vir_addr_alloc st)" "aa_page_size b = aa_page_size (kernel_vir_addr_alloc st)"
    using alloc_phy_mem_one[OF ok assms(2)] by metis
  define s1 where "s1 = st\<lparr>kernel_vir_addr_alloc := b\<rparr>"
  have "alloc_ok (get_phy Kernel_phy s1)" using assms(1) by (simp add: kernel_ok_def s1_def)
  from alloc_phy_total[OF this] obtain p a where a: "alloc_phy Kernel_phy 1 s1 = Some (p, set_phy Kernel_phy a s1)"
    "alloc_ok a" "all_pages a = all_pages (kernel_phy_addr_alloc st)" by (metis get_phy.simps(1) mem_state.surjective mem_state.select_convs(1) s1_def mem_state.update_convs(2))
  show thesis
  proof (rule that)
    have "alloc_vir Kernel_vir 1 st = Some (addr, s1)"
      using b(1) by (simp add: alloc_vir_def alloc_vir_mem_eq s1_def)
    then have "alloc_mem_page Kernel_vir 1 st = Some (0, addr, [p], set_phy Kernel_phy a s1)"
      using a(1) by (simp add: alloc_mem_page_def phy_of_vir_def)
    then show "alloc_kernel_mem 1 st = Some (addr, set_phy Kernel_phy a s1)"
      by (simp add: alloc_kernel_mem_def malloc_mem_with_def MALLOC_MAX_PAGE_def)
  qed (use a b assms(1) in \<open>auto simp: s1_def kernel_ok_def\<close>)
qed


text \<open>The kernel allocator for several pages: as many physical pages are taken, one by one, without being looked at.\<close>

lemma mem_page_loop_kernel:
  assumes "kernel_ok st"
  shows "\<exists>ps a. mem_page_loop Kernel_vir v c n qs st = Some (0, ps, set_phy Kernel_phy a st) \<and> alloc_ok a \<and> all_pages a = all_pages (kernel_phy_addr_alloc st)"
  using assms
proof (induction n arbitrary: qs st)
  case 0
  have "set_phy Kernel_phy (kernel_phy_addr_alloc st) st = st" by simp
  then show ?case using 0 by (auto simp: kernel_ok_def intro!: exI[of _ "kernel_phy_addr_alloc st"])
next
  case (Suc n)
  have "alloc_ok (get_phy Kernel_phy st)" using Suc.prems by (simp add: kernel_ok_def)
  from alloc_phy_total[OF this] obtain p a where a: "alloc_phy Kernel_phy 1 st = Some (p, set_phy Kernel_phy a st)" "alloc_ok a"
    "all_pages a = all_pages (kernel_phy_addr_alloc st)" by (metis get_phy.simps(1))
  have "kernel_ok (set_phy Kernel_phy a st)" using Suc.prems a(2) by (simp add: kernel_ok_def)
  from Suc.IH[OF this, of "qs @ [p]"] a show ?case by (auto simp: phy_of_vir_def)
qed

lemma alloc_kernel_mem_run:
  assumes "kernel_ok st" "0 < k" "k \<le> MALLOC_MAX_PAGE" "s + k \<le> nbits (aa_bitmap (kernel_vir_addr_alloc st))"
    "\<forall>i\<in>{s..<s + k}. page_addr (kernel_vir_addr_alloc st) i \<notin> live_pages (kernel_vir_addr_alloc st)"
  obtains r st' where "alloc_kernel_mem k st = Some (page_addr (kernel_vir_addr_alloc st) r, st')" "r + k \<le> nbits (aa_bitmap (kernel_vir_addr_alloc st))"
    "\<forall>i\<in>{r..<r + k}. page_addr (kernel_vir_addr_alloc st) i \<notin> live_pages (kernel_vir_addr_alloc st)"
    "live_pages (kernel_vir_addr_alloc st') = live_pages (kernel_vir_addr_alloc st) \<union> page_addr (kernel_vir_addr_alloc st) ` {r..<r + k}"
    "all_pages (kernel_vir_addr_alloc st') = all_pages (kernel_vir_addr_alloc st)"
    "kernel_ok st'" "ram st' = ram st" "kernel_page_dir st' = kernel_page_dir st"
    "all_pages (kernel_phy_addr_alloc st') = all_pages (kernel_phy_addr_alloc st)" "user_phy_addr_alloc st' = user_phy_addr_alloc st"
proof -
  let ?v = "kernel_vir_addr_alloc st"
  have ok: "alloc_ok ?v" using assms(1) by (simp add: kernel_ok_def)
  obtain r b where b: "alloc_phy_mem ?v k = Some (page_addr ?v r, b)" "r + k \<le> nbits (aa_bitmap ?v)"
    "\<forall>i\<in>{r..<r + k}. page_addr ?v i \<notin> live_pages ?v" "alloc_ok b" "all_pages b = all_pages ?v"
    "live_pages b = live_pages ?v \<union> page_addr ?v ` {r..<r + k}" "aa_start b = aa_start ?v" "aa_page_size b = aa_page_size ?v"
    by (rule alloc_phy_mem_run[OF ok assms(2,4,5)])
  define s1 where "s1 = st\<lparr>kernel_vir_addr_alloc := b\<rparr>"
  have k1: "kernel_ok s1" using assms(1) b(4,7,8) by (simp add: kernel_ok_def s1_def)
  obtain ps a where a: "mem_page_loop Kernel_vir (page_addr ?v r) k k [] s1 = Some (0, ps, set_phy Kernel_phy a s1)" "alloc_ok a"
    "all_pages a = all_pages (kernel_phy_addr_alloc s1)" using mem_page_loop_kernel[OF k1] by metis
  have "alloc_vir Kernel_vir k st = Some (page_addr ?v r, s1)" using b(1) by (simp add: alloc_vir_def alloc_vir_mem_eq s1_def)
  then have "alloc_mem_page Kernel_vir k st = Some (0, page_addr ?v r, ps, set_phy Kernel_phy a s1)"
    using a(1) by (simp add: alloc_mem_page_def)
  then have "alloc_kernel_mem k st = Some (page_addr ?v r, set_phy Kernel_phy a s1)"
    using assms(3) by (simp add: alloc_kernel_mem_def malloc_mem_with_def)
  then show thesis
    by (rule that) (use a b k1 in \<open>auto simp: s1_def kernel_ok_def\<close>)
qed
section \<open>Mapping one page\<close>

lemma or_lt_4096:
  assumes "(f :: u32) < 4096" "g < 4096" shows "f OR g < 4096"
proof -
  have tb: "x < 4096 \<longleftrightarrow> take_bit 12 x = x" for x :: u32
    by (auto simp: take_bit_eq_mod word_unat_eq_iff unat_mod_distrib word_less_nat_alt)
  show ?thesis using assms unfolding tb by simp
qed

lemma find_pte_present:
  assumes "has_table pd st (pde_index va)"
  shows "find_pte_alloc pd va alloc st = Some (entry (table pd st (pde_index va)) (pte_index va), st)"
  using assms by (simp add: find_pte_alloc_def has_table_def table_def Let_def)

lemma avail_insert:
  assumes "all_pages b = all_pages a" "live_pages b = insert p (live_pages a)" "p \<in> all_pages a - live_pages a"
  shows "pages.avail b = pages.avail a - 1"
proof -
  have "all_pages b - live_pages b = all_pages a - live_pages a - {p}" using assms by auto
  moreover have "finite (all_pages a)" by (simp add: all_pages_def)
  ultimately show ?thesis using assms(3) by (simp add: pages.avail_def)
qed

text \<open>Creating a page table: the new state and what it keeps.\<close>

lemma find_pte_new:
  assumes sp: "space_ok pd st" and k: "kernel_ok st" and nt: "\<not> has_table pd st (pde_index va)"
    and free: "live_pages (kernel_vir_addr_alloc st) \<noteq> all_pages (kernel_vir_addr_alloc st)"
  obtains st' where
    "find_pte_alloc pd va True st = Some (entry (table pd st' (pde_index va)) (pte_index va), st')"
    "has_table pd st' (pde_index va)" "space_ok pd st'" "kernel_ok st'" "xlate pd st' = xlate pd st"
    "kernel_page_dir st' = kernel_page_dir st"
    "pages.avail (kernel_vir_addr_alloc st') = pages.avail (kernel_vir_addr_alloc st) - 1"
proof -
  obtain t s1 where t: "alloc_kernel_mem 1 st = Some (t, s1)"
    "t \<in> all_pages (kernel_vir_addr_alloc st) - live_pages (kernel_vir_addr_alloc st)"
    "live_pages (kernel_vir_addr_alloc s1) = insert t (live_pages (kernel_vir_addr_alloc st))"
    "all_pages (kernel_vir_addr_alloc s1) = all_pages (kernel_vir_addr_alloc st)"
    "kernel_ok s1" "ram s1 = ram st" "kernel_page_dir s1 = kernel_page_dir st"
    using alloc_kernel_mem_one[OF k free] by metis
  have ta: "aligned t" "t \<noteq> 0" using pages_aligned[OF k] t(2) by auto
  have pd: "aligned pd" "pd \<noteq> 0" "t \<noteq> pd" using sp t(2) by (auto simp: space_ok_def)
  define v where "v = t OR PTE_P OR PTE_W OR PTE_U"
  define i0 where "i0 = pde_index va"
  define s2 where "s2 = zero_page t (write_ram (entry pd i0) v s1)"
  have i0: "unat i0 < 1024" by (simp add: i0_def pde_index_lt)
  have dir: "ram s2 (entry pd i) = (if i = i0 then v else ram st (entry pd i))" if "unat i < 1024" for i
    using that i0 entry_in_page[OF ta(1) pd(1) that] entry_eq_iff[OF pd(1) pd(1) that i0] pd(3)
    by (auto simp: s2_def zero_page_def write_ram_def t(6))
  have "v = t OR (PTE_P OR PTE_W OR PTE_U)" by (simp add: v_def ac_simps)
  then have vt: "pe_phy_addr (pe_frame v) = t"
    using frame_base[OF ta(1), of "PTE_P OR PTE_W OR PTE_U"] by (simp add: PTE_P_def PTE_W_def PTE_U_def)
  have vp: "pe_present v" by (simp add: v_def pe_present_def PTE_P_def bit_or_iff)
  have tbl: "has_table pd s2 i \<longleftrightarrow> i = i0 \<or> has_table pd st i"
    "has_table pd s2 i \<Longrightarrow> table pd s2 i = (if i = i0 then t else table pd st i)" for i
    using dir[of i] i0 vp vt by (auto simp: has_table_def table_def)
  have old: "table pd st i \<in> live_pages (kernel_vir_addr_alloc st)" "table pd st i \<noteq> 0" "table pd st i \<noteq> pd"
    "table pd st i \<noteq> t" if "has_table pd st i" for i
    using sp that t(2) unfolding space_ok_def by blast+
  have lv: "live_pages (kernel_vir_addr_alloc s2) = insert t (live_pages (kernel_vir_addr_alloc st))"
    by (simp add: s2_def zero_page_def write_ram_def t(3))
  have inj: "i = j" if "has_table pd st i" "has_table pd st j" "table pd st i = table pd st j" for i j
    using sp that unfolding space_ok_def by blast
  have sp2: "space_ok pd s2"
    unfolding space_ok_def lv
    using pd ta tbl old inj sp by (auto simp: space_ok_def split: if_splits) metis+
  have rt: "ram s2 (entry (table pd st i) j) = ram st (entry (table pd st i) j)"
    if "has_table pd st i" "unat j < 1024" for i j
    using old[OF that(1)] entry_in_page[OF ta(1) aligned_table that(2), of pd st i]
      entry_eq_iff[OF aligned_table pd(1) that(2) i0, of pd st i]
    by (auto simp: s2_def zero_page_def write_ram_def t(6))
  have r0: "ram s2 (entry t j) = 0" if "unat j < 1024" for j
    using entry_in_page[OF ta(1) ta(1) that] by (simp add: s2_def zero_page_def)
  have "xlate pd s2 w = xlate pd st w" for w
    using rt[of "pde_index w" "pte_index w"] r0[of "pte_index w"] tbl[of "pde_index w"] nt pte_index_lt[of w]
    unfolding xlate_eq[OF sp] xlate_eq[OF sp2] by (auto simp: i0_def pe_present_def)
  moreover have "find_pte_alloc pd va True st = Some (entry t (pte_index va), s2)"
    using t(1) nt by (simp add: find_pte_alloc_def Let_def has_table_def pde_index_lt s2_def v_def i0_def)
  moreover have "kernel_ok s2" using t(5) by (simp add: s2_def kernel_ok_def zero_page_def write_ram_def)
  moreover have "kernel_page_dir s2 = kernel_page_dir st" using t(7) by (simp add: s2_def zero_page_def write_ram_def)
  moreover have "pages.avail (kernel_vir_addr_alloc s2) = pages.avail (kernel_vir_addr_alloc st) - 1"
    using lv t(2,4) by (simp add: s2_def zero_page_def write_ram_def avail_insert)
  ultimately show thesis
    using sp2 tbl[of i0] by (intro that[of s2]) (auto simp: i0_def)
qed


lemma find_pte_ok:
  assumes "space_ok pd st" "kernel_ok st" "0 < pages.avail (kernel_vir_addr_alloc st)"
  obtains st' where
    "find_pte_alloc pd va True st = Some (entry (table pd st' (pde_index va)) (pte_index va), st')"
    "has_table pd st' (pde_index va)" "space_ok pd st'" "kernel_ok st'" "xlate pd st' = xlate pd st"
    "kernel_page_dir st' = kernel_page_dir st"
    "pages.avail (kernel_vir_addr_alloc st) \<le> pages.avail (kernel_vir_addr_alloc st') + 1"
proof (cases "has_table pd st (pde_index va)")
  case True
  then show thesis using assms find_pte_present[OF True] by (intro that[of st]) simp_all
next
  case False
  have "live_pages (kernel_vir_addr_alloc st) \<noteq> all_pages (kernel_vir_addr_alloc st)"
    using assms(3) by (auto simp: pages.avail_def)
  from find_pte_new[OF assms(1,2) False this] obtain s where
    "find_pte_alloc pd va True st = Some (entry (table pd s (pde_index va)) (pte_index va), s)"
    "has_table pd s (pde_index va)" "space_ok pd s" "kernel_ok s" "xlate pd s = xlate pd st"
    "kernel_page_dir s = kernel_page_dir st"
    "pages.avail (kernel_vir_addr_alloc s) = pages.avail (kernel_vir_addr_alloc st) - 1" .
  then show thesis by (intro that[of s]) simp_all
qed

text \<open>Writing an entry of a page table changes the translation of one page.\<close>

lemma write_pte:
  fixes v :: u32
  assumes sp: "space_ok pd st" and ht: "has_table pd st (pde_index va)"
  defines "s \<equiv> write_ram (entry (table pd st (pde_index va)) (pte_index va)) v st"
  shows "space_ok pd s"
    and "xlate pd s w = (if unat w div 4096 = unat va div 4096
      then if pe_present v then Some (phy_addr (pe_phy_addr (pe_frame v)) w) else None
      else xlate pd st w)"
proof -
  define t where "t = table pd st (pde_index va)"
  have pd: "aligned pd" "t \<noteq> pd" using sp ht unfolding space_ok_def t_def by blast+
  have ta: "aligned t" by (simp add: t_def aligned_table)
  have dir: "ram s (entry pd i) = ram st (entry pd i)" if "unat i < 1024" for i
    using entry_eq_iff[OF pd(1) ta that pte_index_lt, of va] pd(2)
    by (auto simp: s_def write_ram_def t_def[symmetric])
  then have tb: "has_table pd s i \<longleftrightarrow> has_table pd st i"
    "has_table pd st i \<Longrightarrow> table pd s i = table pd st i" for i
    by (auto simp: has_table_def table_def)
  have lv: "live_pages (kernel_vir_addr_alloc s) = live_pages (kernel_vir_addr_alloc st)"
    by (simp add: s_def write_ram_def)
  show sp': "space_ok pd s"
    using sp unfolding space_ok_def lv tb(1) by (metis tb(2))
  have inj: "table pd st i = t \<longleftrightarrow> i = pde_index va" if "has_table pd st i" for i
    using sp that ht unfolding space_ok_def t_def by blast
  have "ram s (entry (table pd st (pde_index w)) (pte_index w)) =
      (if unat w div 4096 = unat va div 4096 then v else ram st (entry (table pd st (pde_index w)) (pte_index w)))"
    if "has_table pd st (pde_index w)"
    using entry_eq_iff[OF aligned_table ta pte_index_lt pte_index_lt, of pd st "pde_index w" w va]
      inj[OF that] same_page[of w va]
    by (auto simp: s_def write_ram_def t_def[symmetric])
  moreover have "has_table pd st (pde_index w)" if "unat w div 4096 = unat va div 4096"
    using that ht same_page[of w va] by simp
  ultimately show "xlate pd s w = (if unat w div 4096 = unat va div 4096
      then if pe_present v then Some (phy_addr (pe_phy_addr (pe_frame v)) w) else None
      else xlate pd st w)"
    unfolding xlate_eq[OF sp'] xlate_eq[OF sp] tb(1)
    by (cases "unat w div 4096 = unat va div 4096") (auto simp: tb(2))
qed


lemma write_pte_keeps:
  "kernel_ok (write_ram a v st) = kernel_ok st"
  "kernel_vir_addr_alloc (write_ram a v st) = kernel_vir_addr_alloc st"
  "kernel_page_dir (write_ram a v st) = kernel_page_dir st"
  by (simp_all add: write_ram_def kernel_ok_def)

lemma create_one:
  assumes sp: "space_ok pd st" and k: "kernel_ok st" and av: "0 < pages.avail (kernel_vir_addr_alloc st)"
    and un: "xlate pd st va = None" and pa: "aligned pa" and perm: "perm < 4096"
  obtains st' where
    "\<And>n. create_mem_map pd va pa (Suc n) perm st = create_mem_map pd (va + 4096) (pa + 4096) n perm st'"
    "space_ok pd st'" "kernel_ok st'"
    "pages.avail (kernel_vir_addr_alloc st) \<le> pages.avail (kernel_vir_addr_alloc st') + 1"
    "\<And>w. xlate pd st' w = (if unat w div 4096 = unat va div 4096 then Some (phy_addr pa w) else xlate pd st w)"
proof -
  obtain s where s: "find_pte_alloc pd va True st = Some (entry (table pd s (pde_index va)) (pte_index va), s)"
    "has_table pd s (pde_index va)" "space_ok pd s" "kernel_ok s" "xlate pd s = xlate pd st"
    "pages.avail (kernel_vir_addr_alloc st) \<le> pages.avail (kernel_vir_addr_alloc s) + 1"
    by (rule find_pte_ok[OF sp k av])
  define e where "e = entry (table pd s (pde_index va)) (pte_index va)"
  have nz: "e \<noteq> 0"
    unfolding e_def using s(2,3) by (intro entry_nonzero aligned_table pte_index_lt) (auto simp: space_ok_def)
  have np: "\<not> pe_present (ram s e)"
    using un s(2) unfolding s(5)[symmetric] xlate_eq[OF s(3)] e_def by (auto split: if_splits)
  define v where "v = pa OR perm OR PTE_P"
  have "perm OR PTE_P < 4096" using perm by (intro or_lt_4096) (simp_all add: PTE_P_def)
  then have v: "pe_phy_addr (pe_frame v) = pa" "pe_present v"
    using frame_base[OF pa, of "perm OR PTE_P"]
    by (simp_all add: v_def pe_present_def PTE_P_def bit_or_iff or.assoc)
  show thesis
  proof (rule that[of "write_ram e v s"])
    show "create_mem_map pd va pa (Suc n) perm st =
        create_mem_map pd (va + 4096) (pa + 4096) n perm (write_ram e v s)" for n
      using s(1) nz np by (simp add: e_def[symmetric] MEM_PAGE_SIZE_def v_def)
    show "space_ok pd (write_ram e v s)" unfolding e_def by (rule write_pte(1)[OF s(3,2)])
    show "xlate pd (write_ram e v s) w =
        (if unat w div 4096 = unat va div 4096 then Some (phy_addr pa w) else xlate pd st w)" for w
      unfolding e_def write_pte(2)[OF s(3,2)] using v s(5) by simp
  qed (use s(4,6) in \<open>simp_all add: write_pte_keeps\<close>)
qed

definition in_range :: "u32 \<Rightarrow> nat \<Rightarrow> u32 \<Rightarrow> bool" where
  "in_range va n w \<longleftrightarrow> unat va div 4096 \<le> unat w div 4096 \<and> unat w div 4096 < unat va div 4096 + n"

text \<open>The frame that backs \<open>w\<close> when the pages from \<open>va\<close> on are mapped to the frames from \<open>pa\<close> on.\<close>

definition frame_of :: "u32 \<Rightarrow> u32 \<Rightarrow> u32 \<Rightarrow> u32" where
  "frame_of va pa w = pa + of_nat (4096 * (unat w div 4096 - unat va div 4096))"

lemma aligned_add_page: "aligned a \<Longrightarrow> aligned (a + 4096)"
  by (simp add: aligned_def unat_word_ariths mod_mod_cancel mod_add_left_eq)

lemma create_range:
  assumes "space_ok pd st" "kernel_ok st" "n \<le> pages.avail (kernel_vir_addr_alloc st)"
    and "\<And>w. in_range va n w \<Longrightarrow> xlate pd st w = None" "aligned pa" "perm < 4096"
    and "unat va + 4096 * n < 2 ^ 32"
  shows "\<exists>st'. create_mem_map pd va pa n perm st = Some (0, st') \<and> space_ok pd st' \<and> kernel_ok st' \<and>
     (\<forall>w. xlate pd st' w = (if in_range va n w then Some (phy_addr (frame_of va pa w) w) else xlate pd st w))"
  using assms
proof (induction n arbitrary: st va pa)
  case 0
  then show ?case by (auto simp: in_range_def)
next
  case (Suc n)
  have "in_range va (Suc n) va" by (simp add: in_range_def)
  then have un: "xlate pd st va = None" by (rule Suc.prems(4))
  have "0 < pages.avail (kernel_vir_addr_alloc st)" using Suc.prems(3) by simp
  from create_one[OF Suc.prems(1,2) this un Suc.prems(5,6)] obtain s where s:
    "\<And>n. create_mem_map pd va pa (Suc n) perm st = create_mem_map pd (va + 4096) (pa + 4096) n perm s"
    "space_ok pd s" "kernel_ok s"
    "pages.avail (kernel_vir_addr_alloc st) \<le> pages.avail (kernel_vir_addr_alloc s) + 1"
    "\<And>w. xlate pd s w = (if unat w div 4096 = unat va div 4096 then Some (phy_addr pa w) else xlate pd st w)"
    by metis
  have uva: "unat (va + 4096) = unat va + 4096"
    using Suc.prems(7) by (subst unat_add_small) simp_all
  then have dv: "unat (va + 4096) div 4096 = unat va div 4096 + 1" by simp
  have ir: "in_range va (Suc n) w \<longleftrightarrow> unat w div 4096 = unat va div 4096 \<or> in_range (va + 4096) n w" for w
    unfolding in_range_def dv by auto
  have "\<exists>st'. create_mem_map pd (va + 4096) (pa + 4096) n perm s = Some (0, st') \<and> space_ok pd st' \<and>
      kernel_ok st' \<and> (\<forall>w. xlate pd st' w = (if in_range (va + 4096) n w
        then Some (phy_addr (frame_of (va + 4096) (pa + 4096) w) w) else xlate pd s w))"
  proof (rule Suc.IH[OF s(2,3)])
    show "n \<le> pages.avail (kernel_vir_addr_alloc s)" using s(4) Suc.prems(3) by simp
    show "xlate pd s w = None" if "in_range (va + 4096) n w" for w
      using that Suc.prems(4)[of w] ir[of w] s(5)[of w] by (auto simp: in_range_def dv)
  qed (use Suc.prems uva in \<open>simp_all add: aligned_add_page\<close>)
  then obtain st' where st': "create_mem_map pd (va + 4096) (pa + 4096) n perm s = Some (0, st')"
    "space_ok pd st'" "kernel_ok st'"
    "\<And>w. xlate pd st' w = (if in_range (va + 4096) n w
        then Some (phy_addr (frame_of (va + 4096) (pa + 4096) w) w) else xlate pd s w)" by blast
  have fo: "frame_of (va + 4096) (pa + 4096) w = frame_of va pa w" if "in_range (va + 4096) n w" for w
  proof -
    have "unat w div 4096 - unat va div 4096 = Suc (unat w div 4096 - unat (va + 4096) div 4096)"
      using that unfolding in_range_def dv by linarith
    then show ?thesis by (simp add: frame_of_def)
  qed
  have "xlate pd st' w = (if in_range va (Suc n) w then Some (phy_addr (frame_of va pa w) w) else xlate pd st w)" for w
    using st'(4)[of w] s(5)[of w] ir[of w] fo[of w] by (auto simp: in_range_def dv frame_of_def)
  with st' s(1) show ?case by auto
qed


section \<open>Unmapping\<close>

lemma unmap_one:
  assumes sp: "space_ok pd st"
  obtains s where "\<And>n. unmap_loop pd va (Suc n) st = unmap_loop pd (va + 4096) n s" "space_ok pd s"
    "\<And>w. xlate pd s w = (if unat w div 4096 = unat va div 4096 then None else xlate pd st w)"
proof (cases "has_table pd st (pde_index va)")
  case True
  define e where "e = entry (table pd st (pde_index va)) (pte_index va)"
  have nz: "e \<noteq> 0"
    unfolding e_def using sp True by (intro entry_nonzero aligned_table pte_index_lt) (auto simp: space_ok_def)
  have f: "find_pte pd va st = e" using True by (simp add: find_pte_def e_def has_table_def table_def Let_def)
  have np: "\<not> pe_present (ram st e AND NOT 1)" by (simp add: pe_present_def bit_and_iff bit_not_iff)
  show thesis
  proof (rule that[of "write_ram e (ram st e AND NOT 1) st"])
    show "space_ok pd (write_ram e (ram st e AND NOT 1) st)"
      unfolding e_def by (rule write_pte(1)[OF sp True])
    show "xlate pd (write_ram e (ram st e AND NOT 1) st) w =
        (if unat w div 4096 = unat va div 4096 then None else xlate pd st w)" for w
      using write_pte(2)[OF sp True, of "ram st e AND NOT 1" w] np unfolding e_def by simp
  qed (use nz f in \<open>simp add: MEM_PAGE_SIZE_def Let_def\<close>)
next
  case False
  have "find_pte pd va st = 0" using False by (simp add: find_pte_def has_table_def pde_index_lt Let_def)
  moreover have "xlate pd st w = None" if "unat w div 4096 = unat va div 4096" for w
    using False that same_page[of w va] by (simp add: xlate_eq[OF sp])
  ultimately show thesis using sp by (intro that[of st]) (simp_all add: MEM_PAGE_SIZE_def Let_def)
qed

lemma unmap_range:
  assumes "space_ok pd st" "unat va + 4096 * n < 2 ^ 32"
  shows "space_ok pd (unmap_loop pd va n st) \<and>
    (\<forall>w. xlate pd (unmap_loop pd va n st) w = (if in_range va n w then None else xlate pd st w))"
  using assms
proof (induction n arbitrary: st va)
  case 0
  then show ?case by (auto simp: in_range_def)
next
  case (Suc n)
  obtain s where s: "\<And>n. unmap_loop pd va (Suc n) st = unmap_loop pd (va + 4096) n s" "space_ok pd s"
    "\<And>w. xlate pd s w = (if unat w div 4096 = unat va div 4096 then None else xlate pd st w)"
    using unmap_one[OF Suc.prems(1), of va] by metis
  have uva: "unat (va + 4096) = unat va + 4096"
    using Suc.prems(2) by (subst unat_add_small) simp_all
  then have dv: "unat (va + 4096) div 4096 = unat va div 4096 + 1" by simp
  have ir: "in_range va (Suc n) w \<longleftrightarrow> unat w div 4096 = unat va div 4096 \<or> in_range (va + 4096) n w" for w
    unfolding in_range_def dv by auto
  have "unat (va + 4096) + 4096 * n < 2 ^ 32" using Suc.prems(2) uva by simp
  with Suc.IH[OF s(2) this] show ?case unfolding s(1) ir s(3) by auto
qed

lemma page_down_div: "unat (page_down a) div 4096 = unat a div 4096" "unat (page_down a) \<le> unat a"
proof -
  have "unat (page_down a) = unat a - unat a mod 4096"
    unfolding page_down_def unat_sub_mod MEM_PAGE_SIZE_def by simp
  then show "unat (page_down a) div 4096 = unat a div 4096" "unat (page_down a) \<le> unat a"
    by (simp_all add: minus_mod_eq_div_mult)
qed

section \<open>The translation of the processor\<close>

text \<open>
  The processor adds the low 12 bits of the address to the page; \<open>vaddr2paddr\<close> keeps only 10 of them, and agrees with it on the
  first 1024 bytes of a page.
\<close>

definition mmu :: "u32 \<Rightarrow> mem_state \<Rightarrow> u32 \<Rightarrow> u32 option" where
  "mmu pd st va =
    (if has_table pd st (pde_index va) \<and> pe_present (ram st (entry (table pd st (pde_index va)) (pte_index va)))
     then Some (pe_phy_addr (pe_frame (ram st (entry (table pd st (pde_index va)) (pte_index va)))) + (va AND 0xfff))
     else None)"

lemma page_down_offset: "phy_addr b (page_down w) = b"
proof -
  have "unat (page_down w) = unat w div 4096 * 4096"
    unfolding page_down_def unat_sub_mod MEM_PAGE_SIZE_def by (simp add: minus_mod_eq_div_mult)
  then have "unat (page_down w) = 1024 * (4 * (unat w div 4096))" by simp
  then have "unat (page_down w) mod 1024 = 0" by (simp only: mod_mult_self1_is_0)
  moreover have "unat (0x3ff AND page_down w) = unat (page_down w) mod 1024"
  proof -
    have "(0x3ff :: u32) = mask 10" by (simp add: mask_eq_exp_minus_1)
    then have "0x3ff AND page_down w = take_bit 10 (page_down w)" by (simp add: take_bit_eq_mask and.commute)
    then show ?thesis by (simp add: take_bit_eq_mod unat_mod)
  qed
  ultimately have "0x3ff AND page_down w = 0" by (simp add: unat_eq_zero)
  then show ?thesis by (simp add: phy_addr_def)
qed

lemma mmu_xlate:
  assumes "space_ok pd st"
  shows "mmu pd st w = map_option (\<lambda>b. b + (w AND 0xfff)) (xlate pd st (page_down w))"
    and "mmu pd st w = None \<longleftrightarrow> xlate pd st w = None"
proof -
  have "pde_index (page_down w) = pde_index w" "pte_index (page_down w) = pte_index w"
    using same_page[of "page_down w" w] page_down_div(1) by auto
  then show "mmu pd st w = map_option (\<lambda>b. b + (w AND 0xfff)) (xlate pd st (page_down w))"
    by (simp add: mmu_def xlate_eq[OF assms] page_down_offset)
  show "mmu pd st w = None \<longleftrightarrow> xlate pd st w = None" by (simp add: mmu_def xlate_eq[OF assms])
qed

lemma create_range_mmu:
  assumes ok: "space_ok pd st" and "kernel_ok st" "n \<le> pages.avail (kernel_vir_addr_alloc st)"
    and no: "\<And>w. in_range va n w \<Longrightarrow> mmu pd st w = None" and "aligned pa" "perm < 4096" "unat va + 4096 * n < 2 ^ 32"
  shows "\<exists>st'. create_mem_map pd va pa n perm st = Some (0, st') \<and> space_ok pd st' \<and> kernel_ok st' \<and>
     (\<forall>w. mmu pd st' w = (if in_range va n w then Some (frame_of va pa w + (w AND 0xfff)) else mmu pd st w))"
proof -
  have "xlate pd st w = None" if "in_range va n w" for w using no[OF that] mmu_xlate(2)[OF ok] by blast
  from create_range[OF assms(1-3) this assms(5-7)] obtain st' where
    st': "create_mem_map pd va pa n perm st = Some (0, st')" "space_ok pd st'" "kernel_ok st'"
    "\<And>w. xlate pd st' w = (if in_range va n w then Some (phy_addr (frame_of va pa w) w) else xlate pd st w)" by blast
  have "in_range va n (page_down w) = in_range va n w" "frame_of va pa (page_down w) = frame_of va pa w" for w
    by (simp_all add: in_range_def frame_of_def page_down_div(1))
  then have "mmu pd st' w = (if in_range va n w then Some (frame_of va pa w + (w AND 0xfff)) else mmu pd st w)" for w
    unfolding mmu_xlate(1)[OF st'(2)] mmu_xlate(1)[OF ok] st'(4) by (simp add: page_down_offset)
  then show ?thesis using st'(1-3) by blast
qed

section \<open>A small address space\<close>

text \<open>Eight kernel pages from \<open>0x1000\<close>, the first of them an empty page directory.\<close>

definition demo_alloc :: addr_alloc_t where
  "demo_alloc = \<lparr>aa_start = 0x1000, aa_page_size = 4096, aa_bitmap = \<lparr>bytes_len = 1, bits = [1, 0]\<rparr>\<rparr>"

definition demo_mem :: mem_state where
  "demo_mem = \<lparr>kernel_phy_addr_alloc = demo_alloc, kernel_vir_addr_alloc = demo_alloc,
     user_phy_addr_alloc = demo_alloc\<lparr>aa_start := 0x9000\<rparr>, task_vir_addr_alloc = (\<lambda>_. demo_alloc),
     ram = (\<lambda>_. 0), kernel_page_dir = 0x1000, kernel_all_memory = 0x9000, user_all_memory = 0x8000,
     cr3 = 0x1000\<rparr>"

lemma demo_alloc_ok: "alloc_ok demo_alloc"
  by (simp add: alloc_ok_def demo_alloc_def bitmap_ok_def nbits_def)

lemma demo_page_addr: "page_addr demo_alloc i = 0x1000 + of_nat i * 4096"
  by (simp add: page_addr_def demo_alloc_def)

lemma demo_used: "used_bits (aa_bitmap demo_alloc) = {0}"
proof -
  have "\<not> bit (1 :: u8) i" if "0 < i" for i using that by (simp add: bit_1_iff)
  then show ?thesis
    by (auto simp: used_bits_def demo_alloc_def nbits_def bit_at_def bit_1_iff)
qed

lemma demo_live: "live_pages demo_alloc = {0x1000}"
  by (simp add: live_pages_def demo_used demo_page_addr)

lemma demo_avail: "1 \<le> pages.avail demo_alloc"
proof -
  have "page_addr demo_alloc 1 \<in> all_pages demo_alloc"
    unfolding all_pages_def by (intro imageI) (simp add: demo_alloc_def nbits_def)
  then have "0x2000 \<in> all_pages demo_alloc - live_pages demo_alloc"
    by (simp add: demo_live demo_page_addr)
  then have "all_pages demo_alloc - live_pages demo_alloc \<noteq> {}" by blast
  moreover have "finite (all_pages demo_alloc)" by (simp add: all_pages_def)
  ultimately show ?thesis by (simp add: pages.avail_def card_gt_0_iff Suc_le_eq)
qed

lemma demo_mem_ok:
  "space_ok 0x1000 demo_mem" "kernel_ok demo_mem" "1 \<le> pages.avail (kernel_vir_addr_alloc demo_mem)"
  "xlate 0x1000 demo_mem w = None"
proof -
  show sp: "space_ok 0x1000 demo_mem"
    by (simp add: space_ok_def demo_mem_def demo_live aligned_def has_table_def pe_present_def)
  show "kernel_ok demo_mem"
    using demo_alloc_ok by (simp add: kernel_ok_def demo_mem_def) (simp add: demo_alloc_def aligned_def)
  show "1 \<le> pages.avail (kernel_vir_addr_alloc demo_mem)" using demo_avail by (simp add: demo_mem_def)
  show "xlate 0x1000 demo_mem w = None"
    by (simp add: xlate_eq[OF sp]) (simp add: demo_mem_def has_table_def pe_present_def)
qed

section \<open>Properties\<close>

text \<open>
  C23: \<open>alloc_phy_mem_page\<close> (\<open>paging.c\<close>): while the allocator has that many pages left, a
  request for up to 1024 pages returns 0 and as many different addresses, all of them pages of
  the allocator that were free, and afterwards exactly those pages are used in addition.
\<close>

theorem alloc_phy_mem_page_fresh:
  assumes "alloc_ok (get_phy k st)" "n \<le> pages.avail (get_phy k st)" "n \<le> MALLOC_MAX_PAGE"
  shows "\<exists>paddrs a. alloc_phy_mem_page k n st = Some (0, paddrs, set_phy k a st) \<and>
    length paddrs = n \<and> distinct paddrs \<and>
    set paddrs \<subseteq> all_pages (get_phy k st) - live_pages (get_phy k st) \<and>
    live_pages a = live_pages (get_phy k st) \<union> set paddrs \<and> alloc_ok a"
proof -
  obtain xs a where "pages.take_n n (get_phy k st) = Some (xs, a)" "length xs = n" "distinct xs"
    "set xs \<subseteq> all_pages (get_phy k st) - live_pages (get_phy k st)"
    "live_pages a = live_pages (get_phy k st) \<union> set xs" "alloc_ok a"
    using pages.take_n_fresh[OF assms(1,2)] by blast
  with phy_page_loop_take_n[of n k st xs a "[]"] assms(3) show ?thesis
    by (auto simp: alloc_phy_mem_page_def)
qed

theorem alloc_phy_mem_page_fresh_witness:
  "\<exists>paddrs a. alloc_phy_mem_page Kernel_phy 1 demo_mem = Some (0, paddrs, set_phy Kernel_phy a demo_mem) \<and>
    length paddrs = 1 \<and> distinct paddrs \<and>
    set paddrs \<subseteq> all_pages (get_phy Kernel_phy demo_mem) - live_pages (get_phy Kernel_phy demo_mem) \<and>
    live_pages a = live_pages (get_phy Kernel_phy demo_mem) \<union> set paddrs \<and> alloc_ok a"
  by (rule alloc_phy_mem_page_fresh)
    (use demo_alloc_ok demo_avail in \<open>simp_all add: demo_mem_def MALLOC_MAX_PAGE_def\<close>)





text \<open>
  C28: when an allocator has no page left, \<open>alloc_phy_mem_page\<close> (\<open>paging.c\<close>) of at most 1024 pages does not report
  the error: its test \<open>paddr < 0\<close> is on an unsigned value, so it returns 0 with every address \<open>0xffffffff\<close> and changes nothing.
\<close>

theorem alloc_phy_mem_page_exhausted:
  assumes "alloc_ok (get_phy k st)" "live_pages (get_phy k st) = all_pages (get_phy k st)"
    and "n \<le> MALLOC_MAX_PAGE"
  shows "alloc_phy_mem_page k n st = Some (0, replicate n (- 1), st)"
  using phy_page_loop_full[OF assms(1,2), of n "[]"] assms(3) by (simp add: alloc_phy_mem_page_def)

text \<open>The small address space with all eight pages handed out.\<close>

definition full_mem :: mem_state where
  "full_mem = demo_mem\<lparr>kernel_phy_addr_alloc := demo_alloc\<lparr>aa_bitmap := \<lparr>bytes_len = 1, bits = [255, 0]\<rparr>\<rparr>\<rparr>"

lemma full_mem_used: "live_pages (kernel_phy_addr_alloc full_mem) = all_pages (kernel_phy_addr_alloc full_mem)"
proof -
  have "bit (255 :: u8) i" if "i < 8" for i
  proof -
    have "(255 :: u8) = mask 8" by (simp add: mask_eq_exp_minus_1)
    then show ?thesis using that by (simp only: bit_mask_iff) simp
  qed
  then have "used_bits (aa_bitmap (kernel_phy_addr_alloc full_mem)) = {..<nbits (aa_bitmap (kernel_phy_addr_alloc full_mem))}"
    by (auto simp: used_bits_def full_mem_def nbits_def bit_at_def)
  then show ?thesis by (simp add: live_pages_def all_pages_def)
qed

theorem alloc_phy_mem_page_exhausted_witness:
  "all_pages (kernel_phy_addr_alloc full_mem) \<noteq> {} \<and> alloc_phy_mem_page Kernel_phy 2 full_mem = Some (0, replicate 2 (- 1), full_mem)"
proof
  show "all_pages (kernel_phy_addr_alloc full_mem) \<noteq> {}" by (simp add: all_pages_def nbits_def full_mem_def lessThan_empty_iff)
  show "alloc_phy_mem_page Kernel_phy 2 full_mem = Some (0, replicate 2 (- 1), full_mem)"
    by (rule alloc_phy_mem_page_exhausted)
      (simp_all add: full_mem_used MALLOC_MAX_PAGE_def, simp add: full_mem_def alloc_ok_def demo_alloc_def bitmap_ok_def nbits_def)
qed

end
