(* ===== verification/Node_Heap.thy ===== *)
theory Node_Heap
  imports Prelude
begin

text \<open>
  List nodes in memory, shared by the two list libraries (\<open>common/lib/list.c\<close> and
  \<open>kernel/net/nlist.c\<close>): one partial function per field (\<open>pre\<close> and \<open>next\<close>), an address
  outside its domain is not an allocated node, and NULL is the address 0, which no heap
  allocates.  Reading or writing a field of an unallocated address is the fault \<open>None\<close>.

  The locale \<open>deque\<close> is what the clients of the lists use: the operations at the two ends as
  operations on a HOL list, with a frame, so that a node can be moved from one list to another.
\<close>

type_synonym addr = nat

record heap =
  h_pre :: "addr \<Rightarrow> addr option"
  h_next :: "addr \<Rightarrow> addr option"

definition set_pre :: "addr \<Rightarrow> addr \<Rightarrow> heap \<Rightarrow> heap option" where
  "set_pre p v h = (if h_pre h p = None then None else Some (h\<lparr>h_pre := (h_pre h)(p \<mapsto> v)\<rparr>))"

definition set_next :: "addr \<Rightarrow> addr \<Rightarrow> heap \<Rightarrow> heap option" where
  "set_next p v h = (if h_next h p = None then None else Some (h\<lparr>h_next := (h_next h)(p \<mapsto> v)\<rparr>))"

definition node_ok :: "heap \<Rightarrow> addr \<Rightarrow> bool" where
  "node_ok h p \<longleftrightarrow> h_pre h p \<noteq> None \<and> h_next h p \<noteq> None"

definition heap_ok :: "heap \<Rightarrow> bool" where
  "heap_ok h \<longleftrightarrow> h_pre h 0 = None \<and> h_next h 0 = None \<and> dom (h_pre h) = dom (h_next h)"

lemma set_next_Some: "h_next h p = Some x \<Longrightarrow> set_next p v h = Some (h\<lparr>h_next := (h_next h)(p \<mapsto> v)\<rparr>)"
  by (simp add: set_next_def)

lemma set_pre_Some: "h_pre h p = Some x \<Longrightarrow> set_pre p v h = Some (h\<lparr>h_pre := (h_pre h)(p \<mapsto> v)\<rparr>)"
  by (simp add: set_pre_def)

lemmas heap_writes = set_next_Some set_pre_Some

section \<open>Chains\<close>

text \<open>Neighbouring nodes of a chain point to each other.\<close>

fun chain :: "heap \<Rightarrow> addr list \<Rightarrow> bool" where
  "chain h (a # b # ys) \<longleftrightarrow> h_next h a = Some b \<and> h_pre h b = Some a \<and> chain h (b # ys)"
| "chain h ys \<longleftrightarrow> True"

text \<open>The two heaps agree on the nodes of \<open>S\<close>.\<close>

definition agree :: "addr set \<Rightarrow> heap \<Rightarrow> heap \<Rightarrow> bool" where
  "agree S h h' \<longleftrightarrow> (\<forall>p\<in>S. h_pre h p = h_pre h' p \<and> h_next h p = h_next h' p)"

lemma chain_append: "chain h (xs @ a # ys) \<longleftrightarrow> chain h (xs @ [a]) \<and> chain h (a # ys)"
proof (induction xs)
  case (Cons x xs)
  then show ?case by (cases xs) auto
qed simp

lemma chain_snoc [simp]:
  "chain h (xs @ [a, b]) \<longleftrightarrow> chain h (xs @ [a]) \<and> h_next h a = Some b \<and> h_pre h b = Some a"
  using chain_append[of h xs a "[b]"] by simp

lemma chain_mid [simp]:
  "chain h (xs @ a # b # ys) \<longleftrightarrow> chain h (xs @ [a]) \<and> h_next h a = Some b \<and> h_pre h b = Some a \<and> chain h (b # ys)"
  using chain_append[of h xs a "b # ys"] by simp

text \<open>A chain depends on the \<open>next\<close> of all nodes but the last and the \<open>pre\<close> of all but the first.\<close>

lemma chain_cong:
  assumes "\<forall>a \<in> set (butlast ys). h_next h' a = h_next h a" "\<forall>a \<in> set (tl ys). h_pre h' a = h_pre h a"
  shows "chain h' ys = chain h ys"
  using assms
proof (induction ys)
  case (Cons a ys)
  show ?case
  proof (cases ys)
    case ys: (Cons b zs)
    have "chain h' ys = chain h ys" using Cons by (simp add: ys)
    then show ?thesis using Cons.prems unfolding ys by simp
  qed simp
qed simp

text \<open>Linking a node between two neighbours, and bypassing one.\<close>

definition link_between :: "addr \<Rightarrow> addr \<Rightarrow> addr \<Rightarrow> heap \<Rightarrow> heap" where
  "link_between a n b h = h\<lparr>h_pre := (h_pre h)(n \<mapsto> a, b \<mapsto> n), h_next := (h_next h)(n \<mapsto> b, a \<mapsto> n)\<rparr>"

definition bypass :: "addr \<Rightarrow> addr \<Rightarrow> heap \<Rightarrow> heap" where
  "bypass a b h = h\<lparr>h_pre := (h_pre h)(b \<mapsto> a), h_next := (h_next h)(a \<mapsto> b)\<rparr>"

lemma set_tl_snoc: "x \<in> set (tl (xs @ [a])) \<Longrightarrow> x \<in> set xs \<or> x = a"
  by (cases xs) auto

lemma chain_link:
  assumes "chain h (xs @ a # b # ys)" "distinct (xs @ a # b # ys)" "n \<notin> set (xs @ a # b # ys)"
  shows "chain (link_between a n b h) (xs @ a # n # b # ys)"
proof -
  have "chain (link_between a n b h) (xs @ [a]) = chain h (xs @ [a])"
    using assms(2,3) by (intro chain_cong) (auto simp: link_between_def dest!: set_tl_snoc)
  moreover have "chain (link_between a n b h) (b # ys) = chain h (b # ys)"
    using assms(2,3) by (intro chain_cong) (auto simp: link_between_def dest!: in_set_butlastD split: if_splits)
  moreover have "a \<noteq> n" "b \<noteq> n" "a \<noteq> b" using assms(2,3) by auto
  ultimately show ?thesis using assms(1) by (simp add: link_between_def)
qed

lemma chain_bypass:
  assumes "chain h (xs @ a # p # b # ys)" "distinct (xs @ a # p # b # ys)"
  shows "chain (bypass a b h) (xs @ a # b # ys)"
proof -
  have "chain (bypass a b h) (xs @ [a]) = chain h (xs @ [a])"
    using assms(2) by (intro chain_cong) (auto simp: bypass_def dest!: set_tl_snoc)
  moreover have "chain (bypass a b h) (b # ys) = chain h (b # ys)"
    using assms(2) by (intro chain_cong) (auto simp: bypass_def dest!: in_set_butlastD split: if_splits)
  ultimately show ?thesis using assms(1) by (simp add: bypass_def)
qed

lemma in_set_tlD: "x \<in> set (tl ys) \<Longrightarrow> x \<in> set ys"
  by (cases ys) auto

lemma chain_isolate:
  assumes "chain h ys" "p \<notin> set ys"
  shows "chain (h\<lparr>h_pre := (h_pre h)(p \<mapsto> v), h_next := (h_next h)(p \<mapsto> w)\<rparr>) ys"
proof -
  have "p \<notin> set (butlast ys)" "p \<notin> set (tl ys)" using assms(2) by (auto dest: in_set_butlastD in_set_tlD)
  then show ?thesis using assms(1) by (subst chain_cong[of _ _ h]) auto
qed

lemma chain_agree: "agree (set ys) h h' \<Longrightarrow> chain h ys \<Longrightarrow> chain h' ys"
  by (induction h ys rule: chain.induct) (auto simp: agree_def)

lemma agree_refl [simp]: "agree S h h"
  by (simp add: agree_def)

lemma agree_trans: "agree S h h' \<Longrightarrow> agree S h' h'' \<Longrightarrow> agree S h h''"
  by (auto simp: agree_def)

lemma agree_subset: "agree T h h' \<Longrightarrow> S \<subseteq> T \<Longrightarrow> agree S h h'"
  by (auto simp: agree_def)

lemma agree_node_ok: "agree S h h' \<Longrightarrow> p \<in> S \<Longrightarrow> node_ok h' p = node_ok h p"
  by (auto simp: agree_def node_ok_def)

section \<open>The two-ended list contract\<close>

locale deque =
  fixes rep :: "'l \<Rightarrow> heap \<Rightarrow> addr list \<Rightarrow> bool"
    and foot :: "'l \<Rightarrow> addr set"
    and push_front push_back :: "'l \<Rightarrow> addr \<Rightarrow> heap \<Rightarrow> ('l \<times> heap) option"
    and pop_front pop_back :: "'l \<Rightarrow> heap \<Rightarrow> (addr \<times> 'l \<times> heap) option"
  assumes rep_distinct: "rep l h xs \<Longrightarrow> distinct xs \<and> 0 \<notin> set xs \<and> set xs \<inter> foot l = {}"
    and rep_agree: "\<lbrakk>rep l h xs; agree (set xs \<union> foot l) h h'\<rbrakk> \<Longrightarrow> rep l h' xs"
    and push_front: "\<lbrakk>rep l h xs; node_ok h n; n \<noteq> 0; n \<notin> set xs \<union> foot l\<rbrakk> \<Longrightarrow>
      \<exists>l' h'. push_front l n h = Some (l', h') \<and> rep l' h' (n # xs) \<and> foot l' = foot l \<and>
        agree (- (insert n (set xs \<union> foot l))) h h'"
    and push_back: "\<lbrakk>rep l h xs; node_ok h n; n \<noteq> 0; n \<notin> set xs \<union> foot l\<rbrakk> \<Longrightarrow>
      \<exists>l' h'. push_back l n h = Some (l', h') \<and> rep l' h' (xs @ [n]) \<and> foot l' = foot l \<and>
        agree (- (insert n (set xs \<union> foot l))) h h'"
    and pop_front_Nil: "rep l h [] \<Longrightarrow> pop_front l h = Some (0, l, h)"
    and pop_back_Nil: "rep l h [] \<Longrightarrow> pop_back l h = Some (0, l, h)"
    and pop_front: "rep l h (x # xs) \<Longrightarrow>
      \<exists>l' h'. pop_front l h = Some (x, l', h') \<and> rep l' h' xs \<and> foot l' = foot l \<and> node_ok h' x \<and>
        agree (- (insert x (set xs \<union> foot l))) h h'"
    and pop_back: "rep l h (xs @ [x]) \<Longrightarrow>
      \<exists>l' h'. pop_back l h = Some (x, l', h') \<and> rep l' h' xs \<and> foot l' = foot l \<and> node_ok h' x \<and>
        agree (- (insert x (set xs \<union> foot l))) h h'"
begin

fun push_all :: "'l \<Rightarrow> addr list \<Rightarrow> heap \<Rightarrow> ('l \<times> heap) option" where
  "push_all l [] h = Some (l, h)"
| "push_all l (n # ns) h = do { (l', h') \<leftarrow> push_back l n h; push_all l' ns h' }"

fun pop_all :: "nat \<Rightarrow> 'l \<Rightarrow> heap \<Rightarrow> (addr list \<times> 'l \<times> heap) option" where
  "pop_all 0 l h = Some ([], l, h)"
| "pop_all (Suc n) l h = do {
     (x, l', h') \<leftarrow> pop_front l h;
     (ys, l'', h'') \<leftarrow> pop_all n l' h';
     Some (x # ys, l'', h'')
   }"

text \<open>Nodes pushed at the back are stored in order and come out in order.\<close>

lemma push_all_rep:
  assumes "rep l h xs" "distinct ns" "\<forall>n\<in>set ns. node_ok h n \<and> n \<noteq> 0" "set ns \<inter> (set xs \<union> foot l) = {}"
  shows "\<exists>l' h'. push_all l ns h = Some (l', h') \<and> rep l' h' (xs @ ns) \<and> foot l' = foot l"
  using assms
proof (induction ns arbitrary: l h xs)
  case (Cons n ns)
  have "n \<notin> set xs \<union> foot l" using Cons.prems(4) by auto
  with push_front push_back[OF Cons.prems(1)] Cons.prems(3) obtain l1 h1 where
    l1: "push_back l n h = Some (l1, h1)" "rep l1 h1 (xs @ [n])" "foot l1 = foot l"
      "agree (- (insert n (set xs \<union> foot l))) h h1" by (metis list.set_intros(1))
  have "\<forall>m\<in>set ns. node_ok h1 m \<and> m \<noteq> 0"
  proof
    fix m assume m: "m \<in> set ns"
    then have "m \<in> - (insert n (set xs \<union> foot l))" using Cons.prems(2,4) by auto
    with agree_node_ok[OF l1(4)] Cons.prems(3) m show "node_ok h1 m \<and> m \<noteq> 0" by simp
  qed
  moreover have "set ns \<inter> (set (xs @ [n]) \<union> foot l1) = {}" using Cons.prems(2,4) l1(3) by auto
  ultimately obtain l2 h2 where "push_all l1 ns h1 = Some (l2, h2)" "rep l2 h2 ((xs @ [n]) @ ns)" "foot l2 = foot l1"
    using Cons.IH[OF l1(2)] Cons.prems(2) by auto
  with l1 show ?case by auto
qed auto

lemma pop_all_rep:
  "rep l h (xs @ ys) \<Longrightarrow> \<exists>l' h'. pop_all (length xs) l h = Some (xs, l', h') \<and> rep l' h' ys \<and> foot l' = foot l"
proof (induction xs arbitrary: l h)
  case (Cons x xs)
  from pop_front[of l h x "xs @ ys"] Cons.prems obtain l1 h1 where
    l1: "pop_front l h = Some (x, l1, h1)" "rep l1 h1 (xs @ ys)" "foot l1 = foot l" by auto
  from Cons.IH[OF l1(2)] l1 show ?case by auto
qed simp

lemma fifo:
  assumes "rep l h []" "distinct ns" "\<forall>n\<in>set ns. node_ok h n \<and> n \<noteq> 0" "set ns \<inter> foot l = {}"
  shows "\<exists>l1 h1 l2 h2. push_all l ns h = Some (l1, h1) \<and> pop_all (length ns) l1 h1 = Some (ns, l2, h2) \<and> rep l2 h2 []"
proof -
  obtain l1 h1 where l1: "push_all l ns h = Some (l1, h1)" "rep l1 h1 ns"
    using push_all_rep[OF assms(1-3)] assms(4) by auto
  with pop_all_rep[of l1 h1 ns "[]"] show ?thesis by auto
qed

text \<open>A node taken from the front of one list and appended to another one.\<close>

lemma move_front_back:
  assumes "rep l1 h (x # xs)" "rep l2 h ys"
    and "(set (x # xs) \<union> foot l1) \<inter> (set ys \<union> foot l2) = {}"
  shows "\<exists>l1' h1 l2' h2. pop_front l1 h = Some (x, l1', h1) \<and> push_back l2 x h1 = Some (l2', h2) \<and>
    rep l1' h2 xs \<and> rep l2' h2 (ys @ [x])"
proof -
  obtain l1' h1 where p: "pop_front l1 h = Some (x, l1', h1)" "rep l1' h1 xs" "foot l1' = foot l1" "node_ok h1 x"
    "agree (- (insert x (set xs \<union> foot l1))) h h1" using pop_front[OF assms(1)] by blast
  have d: "distinct (x # xs)" "x \<noteq> 0" "x \<notin> foot l1" "set xs \<inter> foot l1 = {}"
    using rep_distinct[OF assms(1)] by auto
  have "rep l2 h1 ys"
    using rep_agree[OF assms(2) agree_subset[OF p(5)]] assms(3) by auto
  moreover have "x \<notin> set ys \<union> foot l2" using assms(3) by auto
  ultimately obtain l2' h2 where q: "push_back l2 x h1 = Some (l2', h2)" "rep l2' h2 (ys @ [x])"
    "agree (- (insert x (set ys \<union> foot l2))) h1 h2" using push_back p(4) d(2) by meson
  have "set xs \<union> foot l1' \<subseteq> - (insert x (set ys \<union> foot l2))" using assms(3) d p(3) by auto
  then have "rep l1' h2 xs" using rep_agree[OF p(2) agree_subset[OF q(3)]] by blast
  with p q show ?thesis by blast
qed

end

end
