(* ===== verification/Linked_List.thy ===== *)
theory Linked_List
  imports Node_Heap
begin

text \<open>
  The doubly linked list of \<open>common/lib/list.c\<close>, used for the task lists, the waiters of
  semaphores and the allocator: two sentinel nodes inside the list structure and a size.  The
  loops over the list follow \<open>next\<close> pointers and need not end on a corrupted heap; they are
  partial functions, \<open>None\<close> being a fault or a loop that does not end.  \<open>have2\<close> is left out:
  its visitor compares with an uninitialised array.
\<close>

section \<open>Model of \<open>list.c\<close>\<close>

record list_t =
  l_head :: addr
  l_tail :: addr
  l_size :: int

definition init_list :: "list_t \<Rightarrow> heap \<Rightarrow> (list_t \<times> heap) option" where
  "init_list l h = do {
     h1 \<leftarrow> set_pre (l_head l) 0 h;
     h2 \<leftarrow> set_next (l_head l) (l_tail l) h1;
     h3 \<leftarrow> set_pre (l_tail l) (l_head l) h2;
     h4 \<leftarrow> set_next (l_tail l) 0 h3;
     Some (l\<lparr>l_size := 0\<rparr>, h4)
   }"

definition pushl :: "list_t \<Rightarrow> addr \<Rightarrow> heap \<Rightarrow> (list_t \<times> heap) option" where
  "pushl l node h = do {
     h1 \<leftarrow> set_pre node (l_head l) h;
     first \<leftarrow> h_next h1 (l_head l);
     h2 \<leftarrow> set_next node first h1;
     first' \<leftarrow> h_next h2 (l_head l);
     h3 \<leftarrow> set_pre first' node h2;
     h4 \<leftarrow> set_next (l_head l) node h3;
     Some (l\<lparr>l_size := l_size l + 1\<rparr>, h4)
   }"

definition popl :: "list_t \<Rightarrow> heap \<Rightarrow> (addr \<times> list_t \<times> heap) option" where
  "popl l h =
     (if l_size l \<le> 0 then Some (0, l, h)
      else do {
        node \<leftarrow> h_next h (l_head l);
        nx \<leftarrow> h_next h node;
        h1 \<leftarrow> set_next (l_head l) nx h;
        nx' \<leftarrow> h_next h1 node;
        h2 \<leftarrow> set_pre nx' (l_head l) h1;
        h3 \<leftarrow> set_pre node 0 h2;
        h4 \<leftarrow> set_next node 0 h3;
        Some (node, l\<lparr>l_size := l_size l - 1\<rparr>, h4)
      })"

definition pushr :: "list_t \<Rightarrow> addr \<Rightarrow> heap \<Rightarrow> (list_t \<times> heap) option" where
  "pushr l node h = do {
     lst \<leftarrow> h_pre h (l_tail l);
     h1 \<leftarrow> set_pre node lst h;
     h2 \<leftarrow> set_next node (l_tail l) h1;
     lst' \<leftarrow> h_pre h2 (l_tail l);
     h3 \<leftarrow> set_next lst' node h2;
     h4 \<leftarrow> set_pre (l_tail l) node h3;
     Some (l\<lparr>l_size := l_size l + 1\<rparr>, h4)
   }"

definition popr :: "list_t \<Rightarrow> heap \<Rightarrow> (addr \<times> list_t \<times> heap) option" where
  "popr l h =
     (if l_size l \<le> 0 then Some (0, l, h)
      else do {
        node \<leftarrow> h_pre h (l_tail l);
        pr \<leftarrow> h_pre h node;
        h1 \<leftarrow> set_pre (l_tail l) pr h;
        pr' \<leftarrow> h_pre h1 node;
        h2 \<leftarrow> set_next pr' (l_tail l) h1;
        h3 \<leftarrow> set_pre node 0 h2;
        h4 \<leftarrow> set_next node 0 h3;
        Some (node, l\<lparr>l_size := l_size l - 1\<rparr>, h4)
      })"

fun walk :: "nat \<Rightarrow> addr \<Rightarrow> heap \<Rightarrow> addr option" where
  "walk 0 p h = Some p"
| "walk (Suc n) p h = do { q \<leftarrow> h_next h p; walk n q h }"

definition add :: "list_t \<Rightarrow> int \<Rightarrow> addr \<Rightarrow> heap \<Rightarrow> (int \<times> list_t \<times> heap) option" where
  "add l idx node h =
     (if idx \<le> 0 then do { (l', h') \<leftarrow> pushl l node h; Some (0, l', h') }
      else if idx \<ge> l_size l then do { (l', h') \<leftarrow> pushr l node h; Some (l_size l' - 1, l', h') }
      else do {
        first \<leftarrow> h_next h (l_head l);
        p \<leftarrow> walk (nat idx) first h;
        h1 \<leftarrow> set_next node p h;
        pr \<leftarrow> h_pre h1 p;
        h2 \<leftarrow> set_pre node pr h1;
        pr' \<leftarrow> h_pre h2 p;
        h3 \<leftarrow> set_next pr' node h2;
        h4 \<leftarrow> set_pre p node h3;
        Some (idx, l\<lparr>l_size := l_size l + 1\<rparr>, h4)
      })"

definition at :: "list_t \<Rightarrow> int \<Rightarrow> heap \<Rightarrow> addr option" where
  "at l idx h =
     (if idx < 0 \<or> idx \<ge> l_size l then Some 0
      else do { first \<leftarrow> h_next h (l_head l); walk (nat idx) first h })"

text \<open>\<open>p->pre->next = p->next; p->next->pre = p->pre\<close>\<close>

definition unlink :: "addr \<Rightarrow> heap \<Rightarrow> heap option" where
  "unlink p h = do {
     pr \<leftarrow> h_pre h p;
     nx \<leftarrow> h_next h p;
     h1 \<leftarrow> set_next pr nx h;
     nx' \<leftarrow> h_next h1 p;
     pr' \<leftarrow> h_pre h1 p;
     set_pre nx' pr' h1
   }"

definition remove_at :: "list_t \<Rightarrow> int \<Rightarrow> heap \<Rightarrow> (addr \<times> list_t \<times> heap) option" where
  "remove_at l idx h = do {
     p \<leftarrow> at l idx h;
     if p = 0 then Some (0, l, h)
     else do {
       h1 \<leftarrow> unlink p h;
       h2 \<leftarrow> set_pre p 0 h1;
       h3 \<leftarrow> set_next p 0 h2;
       Some (p, l\<lparr>l_size := l_size l - 1\<rparr>, h3)
     }
   }"

partial_function (option) index_loop :: "addr \<Rightarrow> addr \<Rightarrow> addr \<Rightarrow> int \<Rightarrow> heap \<Rightarrow> int option" where
  "index_loop tailp node p idx h =
     (if p = tailp \<or> p = 0 then Some (-1)
      else if p = node then Some (idx + 1)
      else do { q \<leftarrow> h_next h p; index_loop tailp node q (idx + 1) h })"

definition index :: "list_t \<Rightarrow> addr \<Rightarrow> heap \<Rightarrow> int option" where
  "index l node h = do { first \<leftarrow> h_next h (l_head l); index_loop (l_tail l) node first (-1) h }"

definition remove :: "list_t \<Rightarrow> addr \<Rightarrow> heap \<Rightarrow> (list_t \<times> heap) option" where
  "remove l node h = do {
     idx \<leftarrow> index l node h;
     let l' = (if idx \<ge> 0 then l\<lparr>l_size := l_size l - 1\<rparr> else l);
     pr \<leftarrow> h_pre h node;
     nx \<leftarrow> h_next h node;
     if pr \<noteq> 0 \<and> nx \<noteq> 0 then do { h' \<leftarrow> unlink node h; Some (l', h') }
     else Some (l', h)
   }"

text \<open>
  \<open>foreach\<close> and \<open>list_find\<close> with the visitor as a function on its own state; it returns
  whether to go on.
\<close>

partial_function (option) foreach_nodes ::
  "(addr \<Rightarrow> 's \<Rightarrow> bool \<times> 's) \<Rightarrow> addr \<Rightarrow> addr \<Rightarrow> 's \<Rightarrow> heap \<Rightarrow> (addr \<times> 's) option" where
  "foreach_nodes visitor tailp p s h =
     (if p = tailp \<or> p = 0 then Some (0, s)
      else case visitor p s of (go, s') \<Rightarrow>
        if \<not> go then Some (p, s')
        else do { q \<leftarrow> h_next h p; foreach_nodes visitor tailp q s' h })"

definition foreach :: "list_t \<Rightarrow> (addr \<Rightarrow> 's \<Rightarrow> bool \<times> 's) \<Rightarrow> 's \<Rightarrow> heap \<Rightarrow> 's option" where
  "foreach l visitor s h = do {
     first \<leftarrow> h_next h (l_head l);
     (p, s') \<leftarrow> foreach_nodes visitor (l_tail l) first s h;
     Some s'
   }"

definition list_find :: "list_t \<Rightarrow> (addr \<Rightarrow> 's \<Rightarrow> bool \<times> 's) \<Rightarrow> 's \<Rightarrow> heap \<Rightarrow> (addr \<times> 's) option" where
  "list_find l visitor s h = do {
     first \<leftarrow> h_next h (l_head l);
     foreach_nodes visitor (l_tail l) first s h
   }"

section \<open>Representation\<close>

definition list_rep :: "list_t \<Rightarrow> heap \<Rightarrow> addr list \<Rightarrow> bool" where
  "list_rep l h xs \<longleftrightarrow> distinct (l_head l # xs @ [l_tail l]) \<and> 0 \<notin> set (l_head l # xs @ [l_tail l]) \<and>
     h_pre h (l_head l) = Some 0 \<and> h_next h (l_tail l) = Some 0 \<and>
     chain h (l_head l # xs @ [l_tail l]) \<and> l_size l = int (length xs)"

definition list_foot :: "list_t \<Rightarrow> addr set" where
  "list_foot l = {l_head l, l_tail l}"

text \<open>Linking a node between two neighbours of the represented list, and unlinking one.\<close>

lemma l_size_upd:
  "l_head (l\<lparr>l_size := k\<rparr>) = l_head l" "l_tail (l\<lparr>l_size := k\<rparr>) = l_tail l" "l_size (l\<lparr>l_size := k\<rparr>) = k"
  by simp_all

lemma list_rep_link:
  assumes rep: "list_rep l h (xs @ ys)" and n: "n \<noteq> 0" "n \<notin> set (xs @ ys) \<union> list_foot l"
    and s: "l_head l # xs = as @ [a]" "ys @ [l_tail l] = b # bs"
  shows "list_rep (l\<lparr>l_size := l_size l + 1\<rparr>) (link_between a n b h) (xs @ n # ys)"
    and "agree (- (insert n (set (xs @ ys) \<union> list_foot l))) h (link_between a n b h)"
    and "h_next h a = Some b" "h_pre h b = Some a" "a \<noteq> n" "b \<noteq> n"
proof -
  have "l_head l # (xs @ ys) @ [l_tail l] = (l_head l # xs) @ (ys @ [l_tail l])" by simp
  then have e: "l_head l # (xs @ ys) @ [l_tail l] = as @ a # b # bs" unfolding s by simp
  have "l_head l # (xs @ n # ys) @ [l_tail l] = (l_head l # xs) @ n # (ys @ [l_tail l])" by simp
  then have e': "l_head l # (xs @ n # ys) @ [l_tail l] = as @ a # n # b # bs" unfolding s by simp
  have set_e: "set (as @ a # b # bs) = set (xs @ ys) \<union> list_foot l"
    unfolding e[symmetric] by (auto simp: list_foot_def)
  then have nn: "n \<notin> set (as @ a # b # bs)" using n(2) by blast
  have r: "distinct (as @ a # b # bs)" "0 \<notin> set (as @ a # b # bs)" "chain h (as @ a # b # bs)"
    using rep unfolding list_rep_def e by blast+
  then show "h_next h a = Some b" "h_pre h b = Some a" by auto
  show "a \<noteq> n" "b \<noteq> n" using nn by auto
  have ends: "b \<noteq> l_head l" "a \<noteq> l_tail l" "n \<noteq> l_head l" "n \<noteq> l_tail l"
  proof -
    have "l_head l \<in> set (as @ [a])" "l_tail l \<in> set (b # bs)" unfolding s[symmetric] by simp_all
    with r(1) show "b \<noteq> l_head l" "a \<noteq> l_tail l" by auto
    show "n \<noteq> l_head l" "n \<noteq> l_tail l" using n(2) by (auto simp: list_foot_def)
  qed
  show "list_rep (l\<lparr>l_size := l_size l + 1\<rparr>) (link_between a n b h) (xs @ n # ys)"
    unfolding list_rep_def l_size_upd e'
    using chain_link[OF r(3,1) nn] r(1,2) nn n(1) rep ends
    by (simp add: link_between_def del: chain_mid) (auto simp: list_rep_def)
  have "a \<in> set (as @ a # b # bs)" "b \<in> set (as @ a # b # bs)" by simp_all
  then show "agree (- (insert n (set (xs @ ys) \<union> list_foot l))) h (link_between a n b h)"
    unfolding set_e by (auto simp: agree_def link_between_def)
qed

lemma list_rep_unlink:
  assumes rep: "list_rep l h (xs @ p # ys)"
    and s: "l_head l # xs = as @ [a]" "ys @ [l_tail l] = b # bs"
  shows "list_rep (l\<lparr>l_size := l_size l - 1\<rparr>) (bypass a b h) (xs @ ys)"
    and "agree (- (insert p (set (xs @ ys) \<union> list_foot l))) h (bypass a b h)"
    and "h_next h a = Some p" "h_pre h p = Some a" "h_next h p = Some b" "h_pre h b = Some p"
    and "a \<noteq> p" "b \<noteq> p" "a \<noteq> b" "p \<noteq> 0" "a \<noteq> 0" "b \<noteq> 0"
    and "p \<notin> set (l_head l # (xs @ ys) @ [l_tail l])"
proof -
  have "l_head l # (xs @ p # ys) @ [l_tail l] = (l_head l # xs) @ p # (ys @ [l_tail l])" by simp
  then have e: "l_head l # (xs @ p # ys) @ [l_tail l] = as @ a # p # b # bs" unfolding s by simp
  have "l_head l # (xs @ ys) @ [l_tail l] = (l_head l # xs) @ (ys @ [l_tail l])" by simp
  then have e': "l_head l # (xs @ ys) @ [l_tail l] = as @ a # b # bs" unfolding s by simp
  have set_e: "set (as @ a # b # bs) = set (xs @ ys) \<union> list_foot l"
    unfolding e'[symmetric] by (auto simp: list_foot_def)
  have r: "distinct (as @ a # p # b # bs)" "0 \<notin> set (as @ a # p # b # bs)" "chain h (as @ a # p # b # bs)"
    using rep unfolding list_rep_def e by blast+
  then show "h_next h a = Some p" "h_pre h p = Some a" "h_next h p = Some b" "h_pre h b = Some p"
    "a \<noteq> p" "b \<noteq> p" "a \<noteq> b" "p \<noteq> 0" "a \<noteq> 0" "b \<noteq> 0" by auto
  show "p \<notin> set (l_head l # (xs @ ys) @ [l_tail l])" unfolding e' using r(1) by auto
  have ends: "b \<noteq> l_head l" "a \<noteq> l_tail l"
  proof -
    have "l_head l \<in> set (as @ [a])" "l_tail l \<in> set (b # bs)" unfolding s[symmetric] by simp_all
    with r(1) show "b \<noteq> l_head l" "a \<noteq> l_tail l" by auto
  qed
  show "list_rep (l\<lparr>l_size := l_size l - 1\<rparr>) (bypass a b h) (xs @ ys)"
    unfolding list_rep_def l_size_upd e'
    using chain_bypass[OF r(3,1)] r(1,2) rep ends
    by (simp add: bypass_def del: chain_mid) (auto simp: list_rep_def)
  have "a \<in> set (as @ a # b # bs)" "b \<in> set (as @ a # b # bs)" by simp_all
  then show "agree (- (insert p (set (xs @ ys) \<union> list_foot l))) h (bypass a b h)"
    unfolding set_e by (auto simp: agree_def bypass_def)
qed

lemma list_rep_isolate:
  assumes "list_rep l h xs" "p \<notin> set (l_head l # xs @ [l_tail l])"
  shows "list_rep l (h\<lparr>h_pre := (h_pre h)(p \<mapsto> v), h_next := (h_next h)(p \<mapsto> w)\<rparr>) xs"
  using assms chain_isolate[of h "l_head l # xs @ [l_tail l]" p, where v=v and w=w]
  by (auto simp: list_rep_def)


lemma split_first: obtains b bs where "ys @ [t] = b # bs"
  by (cases ys) auto

lemma split_last: obtains as a where "t # xs = as @ [a]"
  by (cases "t # xs" rule: rev_cases) auto

lemma pushl_rep:
  assumes "list_rep l h xs" "node_ok h n" "n \<noteq> 0" "n \<notin> set xs \<union> list_foot l"
  shows "\<exists>l' h'. pushl l n h = Some (l', h') \<and> list_rep l' h' (n # xs) \<and> list_foot l' = list_foot l \<and>
    agree (- (insert n (set xs \<union> list_foot l))) h h'"
proof -
  obtain b bs where s: "xs @ [l_tail l] = b # bs" by (rule split_first)
  note k = list_rep_link[of l h "[]" xs n "[]" "l_head l" b bs, simplified, OF assms(1) assms(3)[simplified] assms(4)[simplified] s]
  obtain v w where n: "h_pre h n = Some v" "h_next h n = Some w" using assms(2) by (auto simp: node_ok_def)
  have "pushl l n h = Some (l\<lparr>l_size := l_size l + 1\<rparr>, link_between (l_head l) n b h)"
    using n k(3-6) by (simp add: pushl_def heap_writes link_between_def)
  with k(1,2) show ?thesis by (auto simp: list_foot_def)
qed

lemma pushr_rep:
  assumes "list_rep l h xs" "node_ok h n" "n \<noteq> 0" "n \<notin> set xs \<union> list_foot l"
  shows "\<exists>l' h'. pushr l n h = Some (l', h') \<and> list_rep l' h' (xs @ [n]) \<and> list_foot l' = list_foot l \<and>
    agree (- (insert n (set xs \<union> list_foot l))) h h'"
proof -
  obtain as a where s: "l_head l # xs = as @ [a]" by (rule split_last)
  note k = list_rep_link[of l h xs "[]" n as a "l_tail l" "[]", simplified, OF assms(1) assms(3)[simplified] assms(4)[simplified] s]
  obtain v w where n: "h_pre h n = Some v" "h_next h n = Some w" using assms(2) by (auto simp: node_ok_def)
  have "pushr l n h = Some (l\<lparr>l_size := l_size l + 1\<rparr>, link_between a n (l_tail l) h)"
    using n k(3-6) by (simp add: pushr_def heap_writes link_between_def fun_upd_twist)
  with k(1,2) show ?thesis by (auto simp: list_foot_def)
qed

text \<open>Unlinking a node and clearing its fields, as \<open>popl\<close>, \<open>popr\<close> and \<open>remove_at\<close> do.\<close>

definition take_out :: "addr \<Rightarrow> addr \<Rightarrow> addr \<Rightarrow> heap \<Rightarrow> heap" where
  "take_out a p b h = (let h' = bypass a b h
     in h'\<lparr>h_pre := (h_pre h')(p \<mapsto> 0), h_next := (h_next h')(p \<mapsto> 0)\<rparr>)"

lemma list_rep_take_out:
  assumes rep: "list_rep l h (xs @ p # ys)"
    and s: "l_head l # xs = as @ [a]" "ys @ [l_tail l] = b # bs"
  shows "list_rep (l\<lparr>l_size := l_size l - 1\<rparr>) (take_out a p b h) (xs @ ys)"
    and "agree (- (insert p (set (xs @ ys) \<union> list_foot l))) h (take_out a p b h)"
    and "node_ok (take_out a p b h) p"
proof -
  note u = list_rep_unlink[OF assms]
  show "list_rep (l\<lparr>l_size := l_size l - 1\<rparr>) (take_out a p b h) (xs @ ys)"
    unfolding take_out_def Let_def using u(1,13) by (intro list_rep_isolate) simp_all
  show "agree (- (insert p (set (xs @ ys) \<union> list_foot l))) h (take_out a p b h)"
    using u(2) by (auto simp: agree_def take_out_def Let_def)
  show "node_ok (take_out a p b h) p" by (simp add: node_ok_def take_out_def Let_def)
qed

lemma popl_rep:
  assumes "list_rep l h (x # xs)"
  shows "\<exists>l' h'. popl l h = Some (x, l', h') \<and> list_rep l' h' xs \<and> list_foot l' = list_foot l \<and> node_ok h' x \<and>
    agree (- (insert x (set xs \<union> list_foot l))) h h'"
proof -
  obtain b bs where s: "xs @ [l_tail l] = b # bs" by (rule split_first)
  note u = list_rep_unlink[of l h "[]" x xs "[]" "l_head l" b bs, simplified, OF assms s]
  note t = list_rep_take_out[of l h "[]" x xs "[]" "l_head l" b bs, simplified, OF assms s]
  have "l_size l > 0" using assms by (simp add: list_rep_def)
  then have "popl l h = Some (x, l\<lparr>l_size := l_size l - 1\<rparr>, take_out (l_head l) x b h)"
    using u(3-9) by (simp add: popl_def heap_writes take_out_def bypass_def fun_upd_twist)
  with t show ?thesis by (auto simp: list_foot_def)
qed

lemma popr_rep:
  assumes "list_rep l h (xs @ [x])"
  shows "\<exists>l' h'. popr l h = Some (x, l', h') \<and> list_rep l' h' xs \<and> list_foot l' = list_foot l \<and> node_ok h' x \<and>
    agree (- (insert x (set xs \<union> list_foot l))) h h'"
proof -
  obtain as a where s: "l_head l # xs = as @ [a]" by (rule split_last)
  note u = list_rep_unlink[of l h xs x "[]" as a "l_tail l" "[]", simplified, OF assms s]
  note t = list_rep_take_out[of l h xs x "[]" as a "l_tail l" "[]", simplified, OF assms s]
  have "l_size l > 0" using assms by (simp add: list_rep_def)
  then have "popr l h = Some (x, l\<lparr>l_size := l_size l - 1\<rparr>, take_out a x (l_tail l) h)"
    using u(3-9) by (simp add: popr_def heap_writes take_out_def bypass_def fun_upd_twist)
  with t show ?thesis by (auto simp: list_foot_def)
qed

lemma pop_empty: "list_rep l h [] \<Longrightarrow> popl l h = Some (0, l, h)" "list_rep l h [] \<Longrightarrow> popr l h = Some (0, l, h)"
  by (simp_all add: list_rep_def popl_def popr_def)

interpretation llist: deque list_rep list_foot pushl pushr popl popr
proof unfold_locales
  fix l h xs h'
  assume "list_rep l h xs"
  then show "distinct xs \<and> 0 \<notin> set xs \<and> set xs \<inter> list_foot l = {}"
    by (auto simp: list_rep_def list_foot_def)
  { assume a: "agree (set xs \<union> list_foot l) h h'"
    then have "agree (set (l_head l # xs @ [l_tail l])) h h'" by (rule agree_subset) (auto simp: list_foot_def)
    from chain_agree[OF this] \<open>list_rep l h xs\<close> a show "list_rep l h' xs"
      by (auto simp: list_rep_def agree_def list_foot_def) }
qed (rule pushl_rep pushr_rep pop_empty popl_rep popr_rep; assumption)+

section \<open>Access by position\<close>

lemma walk_chain: "chain h (xs @ [t]) \<Longrightarrow> i < length (xs @ [t]) \<Longrightarrow> walk i ((xs @ [t]) ! 0) h = Some ((xs @ [t]) ! i)"
proof (induction i arbitrary: xs)
  case (Suc i)
  then obtain x ys where xs: "xs = x # ys" by (cases xs) auto
  obtain y zs where y: "ys @ [t] = y # zs" by (rule split_first)
  have "h_next h x = Some y" "chain h (ys @ [t])" using Suc.prems(1) by (simp_all add: xs y)
  with Suc.IH[of ys] Suc.prems(2) show ?case by (simp add: xs y)
qed simp

lemma list_rep_walk:
  assumes "list_rep l h xs" "i < length xs"
  shows "do { first \<leftarrow> h_next h (l_head l); walk i first h } = Some (xs ! i)"
proof -
  obtain b bs where s: "xs @ [l_tail l] = b # bs" by (rule split_first)
  have "h_next h (l_head l) = Some b" "chain h (xs @ [l_tail l])"
    using assms(1) by (simp_all add: list_rep_def s)
  moreover have "i < length (xs @ [l_tail l])" "(xs @ [l_tail l]) ! i = xs ! i"
    using assms(2) by (simp_all add: nth_append)
  moreover have "(xs @ [l_tail l]) ! 0 = b" by (simp only: s nth_Cons_0)
  ultimately show ?thesis using walk_chain[of h xs "l_tail l" i] by simp
qed

lemma at_rep:
  assumes "list_rep l h xs"
  shows "at l idx h = Some (if 0 \<le> idx \<and> idx < int (length xs) then xs ! nat idx else 0)"
  using assms list_rep_walk[OF assms, of "nat idx"] by (auto simp: at_def list_rep_def)


lemma add_rep:
  fixes idx :: int
  assumes rep: "list_rep l h xs" and n: "node_ok h n" "n \<noteq> 0" "n \<notin> set xs \<union> list_foot l"
  defines "k \<equiv> nat (max 0 (min idx (int (length xs))))"
  shows "\<exists>l' h'. add l idx n h = Some (int k, l', h') \<and> list_rep l' h' (take k xs @ n # drop k xs)"
proof -
  have sz: "l_size l = int (length xs)" using rep by (simp add: list_rep_def)
  consider (front) "idx \<le> 0" | (rear) "0 < idx" "int (length xs) \<le> idx" | (mid) "0 < idx" "idx < int (length xs)"
    by linarith
  then show ?thesis
  proof cases
    case front
    then have "k = 0" by (simp add: k_def)
    with pushl_rep[OF rep n] front show ?thesis by (auto simp: add_def)
  next
    case rear
    then have k: "k = length xs" by (simp add: k_def)
    obtain l' h' where "pushr l n h = Some (l', h')" "list_rep l' h' (xs @ [n])"
      using pushr_rep[OF rep n] by blast
    with rear k sz show ?thesis by (auto simp: add_def list_rep_def)
  next
    case mid
    then have k: "k = nat idx" "k < length xs" by (auto simp: k_def)
    define p where "p = xs ! k"
    have dr: "drop k xs @ [l_tail l] = p # (drop (Suc k) xs @ [l_tail l])"
      using k(2) by (simp add: p_def Cons_nth_drop_Suc[symmetric])
    obtain as a where as: "l_head l # take k xs = as @ [a]" by (rule split_last)
    have "list_rep l h (take k xs @ drop k xs)" "n \<notin> set (take k xs @ drop k xs) \<union> list_foot l"
      using rep n(3) by simp_all
    note lk = list_rep_link[OF this(1) n(2) this(2) as dr]
    obtain v w where nv: "h_pre h n = Some v" "h_next h n = Some w" using n(1) by (auto simp: node_ok_def)
    obtain f where f: "h_next h (l_head l) = Some f" "walk k f h = Some p"
      using list_rep_walk[OF rep k(2)] by (auto simp: p_def bind_eq_Some_conv)
    have "add l idx n h = Some (idx, l\<lparr>l_size := l_size l + 1\<rparr>, link_between a n p h)"
      using mid f k(1) nv lk(3-6) by (simp add: add_def sz heap_writes link_between_def fun_upd_twist)
    moreover have "idx = int k" using k mid by simp
    ultimately show ?thesis using lk(1) by auto
  qed
qed

lemma index_loop_rep:
  assumes "chain h (ys @ [t])" "t \<notin> set ys" "0 \<notin> set ys" "distinct ys"
  shows "index_loop t p ((ys @ [t]) ! 0) i h =
    Some (if p \<in> set ys then i + 1 + int (LEAST j. j < length ys \<and> ys ! j = p) else -1)"
  using assms
proof (induction ys arbitrary: i)
  case Nil
  then show ?case by (simp add: index_loop.simps)
next
  case (Cons y ys)
  obtain z zs where z: "ys @ [t] = z # zs" by (rule split_first)
  have nx: "h_next h y = Some z" "chain h (ys @ [t])" using Cons.prems(1) by (simp_all add: z)
  show ?case
  proof (cases "p = y")
    case True
    then have "(LEAST j. j < length (y # ys) \<and> (y # ys) ! j = p) = 0" by (intro Least_equality) auto
    then show ?thesis using True Cons.prems by (subst index_loop.simps) auto
  next
    case False
    have "(LEAST j. j < length (y # ys) \<and> (y # ys) ! j = p) = Suc (LEAST j. j < length ys \<and> ys ! j = p)"
      if "p \<in> set ys"
    proof -
      from that obtain m where "m < length ys" "ys ! m = p" by (auto simp: in_set_conv_nth)
      then show ?thesis using False by (subst Least_Suc[of _ "Suc m"]) auto
    qed
    moreover have "index_loop t p ((ys @ [t]) ! 0) (i + 1) h =
        Some (if p \<in> set ys then i + 1 + 1 + int (LEAST j. j < length ys \<and> ys ! j = p) else -1)"
      using Cons.prems nx(2) by (intro Cons.IH) auto
    ultimately show ?thesis
      using False Cons.prems nx(1) by (subst index_loop.simps) (auto simp: z)
  qed
qed

lemma index_rep:
  assumes "list_rep l h xs"
  shows "index l p h = Some (if p \<in> set xs then int (LEAST j. j < length xs \<and> xs ! j = p) else -1)"
proof -
  obtain b bs where s: "xs @ [l_tail l] = b # bs" by (rule split_first)
  have "h_next h (l_head l) = Some b" "chain h (xs @ [l_tail l])" using assms by (simp_all add: list_rep_def s)
  moreover have "l_tail l \<notin> set xs" "0 \<notin> set xs" "distinct xs" using assms by (simp_all add: list_rep_def)
  ultimately show ?thesis using index_loop_rep[of h xs "l_tail l" p "-1"] by (simp add: index_def s)
qed

lemma unlink_bypass:
  assumes "h_next h a = Some p" "h_pre h p = Some a" "h_next h p = Some b" "h_pre h b = Some p" "a \<noteq> p" "b \<noteq> p"
  shows "unlink p h = Some (bypass a b h)"
  using assms by (simp add: unlink_def heap_writes bypass_def)

lemma remove_rep:
  assumes "list_rep l h xs" "p \<in> set xs"
  shows "\<exists>l' h'. remove l p h = Some (l', h') \<and> list_rep l' h' (remove1 p xs) \<and>
    agree (- (set (remove1 p xs) \<union> list_foot l)) h h'"
proof -
  obtain us vs where x: "xs = us @ p # vs" "p \<notin> set us" using split_list_first[OF assms(2)] by auto
  obtain as a where as: "l_head l # us = as @ [a]" by (rule split_last)
  obtain b bs where bs: "vs @ [l_tail l] = b # bs" by (rule split_first)
  note u = list_rep_unlink[OF assms(1)[unfolded x(1)] as bs]
  have "remove l p h = Some (l\<lparr>l_size := l_size l - 1\<rparr>, bypass a b h)"
    using index_rep[OF assms(1), of p] assms(2) u(3-12) by (simp add: remove_def unlink_bypass)
  moreover have "remove1 p xs = us @ vs" using x by (simp add: remove1_append)
  moreover have "h_pre h p = h_pre (bypass a b h) p" "h_next h p = h_next (bypass a b h) p"
    using u(7,8) by (simp_all add: bypass_def)
  ultimately show ?thesis using u(1,2) by (auto simp: agree_def)
qed

lemma remove_at_rep:
  assumes "list_rep l h xs" "0 \<le> idx" "idx < int (length xs)"
  shows "\<exists>l' h'. remove_at l idx h = Some (xs ! nat idx, l', h') \<and>
    list_rep l' h' (take (nat idx) xs @ drop (Suc (nat idx)) xs) \<and> node_ok h' (xs ! nat idx)"
proof -
  define k where "k = nat idx"
  define p where "p = xs ! k"
  have k: "k < length xs" using assms(2,3) by (simp add: k_def)
  have x: "xs = take k xs @ p # drop (Suc k) xs" using k by (simp add: p_def id_take_nth_drop)
  obtain as a where as: "l_head l # take k xs = as @ [a]" by (rule split_last)
  obtain b bs where bs: "drop (Suc k) xs @ [l_tail l] = b # bs" by (rule split_first)
  have rep: "list_rep l h (take k xs @ p # drop (Suc k) xs)" using assms(1) x by simp
  note u = list_rep_unlink[OF rep as bs] and t = list_rep_take_out[OF rep as bs]
  have "at l idx h = Some p" using at_rep[OF assms(1), of idx] assms(2,3) by (simp add: p_def k_def)
  then have "remove_at l idx h = Some (p, l\<lparr>l_size := l_size l - 1\<rparr>, take_out a p b h)"
    using u(3-12) by (simp add: remove_at_def unlink_bypass heap_writes take_out_def bypass_def)
  with t show ?thesis by (auto simp: p_def k_def)
qed

lemma foreach_nodes_rep:
  assumes "chain h (ys @ [t])" "t \<notin> set ys" "0 \<notin> set ys" "\<And>p s. fst (visitor p s)"
  shows "foreach_nodes visitor t ((ys @ [t]) ! 0) s h = Some (0, fold (\<lambda>p s. snd (visitor p s)) ys s)"
  using assms(1-3)
proof (induction ys arbitrary: s)
  case Nil
  then show ?case by (simp add: foreach_nodes.simps)
next
  case (Cons y ys)
  obtain z zs where z: "ys @ [t] = z # zs" by (rule split_first)
  have nx: "h_next h y = Some z" "chain h (ys @ [t])" using Cons.prems(1) by (simp_all add: z)
  obtain s' where v: "visitor y s = (True, s')" using assms(4)[of y s] by (metis prod.collapse)
  have "foreach_nodes visitor t z s' h = Some (0, fold (\<lambda>p s. snd (visitor p s)) ys s')"
    using Cons.IH[of s'] Cons.prems nx(2) by (simp add: z)
  then show ?case using Cons.prems nx(1) v by (subst foreach_nodes.simps) simp
qed


lemma init_list_rep:
  assumes "node_ok h (l_head l)" "node_ok h (l_tail l)" "l_head l \<noteq> l_tail l" "l_head l \<noteq> 0" "l_tail l \<noteq> 0"
  shows "\<exists>l' h'. init_list l h = Some (l', h') \<and> list_rep l' h' []"
  using assms by (auto simp: init_list_def node_ok_def set_next_def set_pre_def list_rep_def)

section \<open>Properties\<close>

definition demo_heap :: heap where
  "demo_heap = \<lparr>h_pre = [1 \<mapsto> 0, 3 \<mapsto> 1, 2 \<mapsto> 3, 4 \<mapsto> 0, 5 \<mapsto> 0, 6 \<mapsto> 5],
                h_next = [1 \<mapsto> 3, 3 \<mapsto> 2, 2 \<mapsto> 0, 4 \<mapsto> 0, 5 \<mapsto> 6, 6 \<mapsto> 0]\<rparr>"

definition demo_list :: list_t where
  "demo_list = \<lparr>l_head = 1, l_tail = 2, l_size = 1\<rparr>"

lemma demo_list_rep: "list_rep demo_list demo_heap [3]"
  by (simp add: list_rep_def demo_list_def demo_heap_def)

lemma demo_list2_rep: "list_rep \<lparr>l_head = 5, l_tail = 6, l_size = 0\<rparr> demo_heap []"
  by (simp add: list_rep_def demo_heap_def)

text \<open>
  \<open>add\<close> (\<open>list.c\<close>), and with it \<open>pushl\<close> and \<open>pushr\<close>: inserting an allocated node that is not
  in the list at any index does not fault, links it at that position (a negative index means
  the front, an index past the end the back), and returns the position.
\<close>

theorem add_inserts:
  assumes "list_rep l h xs" "node_ok h n" "n \<noteq> 0" "n \<notin> set xs \<union> list_foot l"
  shows "\<exists>l' h'. add l idx n h = Some (max 0 (min idx (int (length xs))), l', h') \<and>
    list_rep l' h' (take (nat idx) xs @ n # drop (nat idx) xs)"
proof -
  define k where "k = nat (max 0 (min idx (int (length xs))))"
  have "int k = max 0 (min idx (int (length xs)))" by (simp add: k_def)
  moreover have "take k xs = take (nat idx) xs" "drop k xs = drop (nat idx) xs"
    by (auto simp: k_def min_def max_def)
  ultimately show ?thesis using add_rep[OF assms, of idx] by (simp add: k_def)
qed

theorem add_inserts_witness:
  "\<exists>l' h'. add demo_list 7 4 demo_heap = Some (max 0 (min 7 (int (length [3::nat]))), l', h') \<and>
    list_rep l' h' (take (nat 7) [3] @ 4 # drop (nat 7) [3])"
  by (rule add_inserts[OF demo_list_rep]) (simp_all add: node_ok_def demo_heap_def demo_list_def list_foot_def)

text \<open>
  C34: \<open>remove\<close> (\<open>list.c\<close>) of a node of the list takes out exactly that node, keeps the order of
  the others and the size right, and does not touch a node outside the list.  (Unlike \<open>popl\<close> it
  leaves the links of the removed node as they were.)
\<close>

theorem remove_unlinks:
  assumes "list_rep l h xs" "p \<in> set xs"
  shows "\<exists>l' h'. remove l p h = Some (l', h') \<and> list_rep l' h' (remove1 p xs) \<and>
    agree (- (set (remove1 p xs) \<union> list_foot l)) h h'"
  using assms by (rule remove_rep)

theorem remove_unlinks_witness:
  "\<exists>l' h'. remove demo_list 3 demo_heap = Some (l', h') \<and> list_rep l' h' (remove1 3 [3]) \<and>
    agree (- (set (remove1 3 [3]) \<union> list_foot demo_list)) demo_heap h'"
  by (rule remove_unlinks[OF demo_list_rep]) simp

text \<open>
  taking the first node of one list with \<open>popl\<close> and appending it to another with \<open>pushr\<close>
  (\<open>list.c\<close>), as the scheduler moves a task between its lists: both lists are intact afterwards
  and the node is the last of the second.
\<close>

theorem popl_pushr_moves:
  assumes "list_rep l1 h (x # xs)" "list_rep l2 h ys"
    and "(set (x # xs) \<union> list_foot l1) \<inter> (set ys \<union> list_foot l2) = {}"
  shows "\<exists>l1' h1 l2' h2. popl l1 h = Some (x, l1', h1) \<and> pushr l2 x h1 = Some (l2', h2) \<and>
    list_rep l1' h2 xs \<and> list_rep l2' h2 (ys @ [x])"
  using assms by (rule llist.move_front_back)

theorem popl_pushr_moves_witness:
  "\<exists>l1' h1 l2' h2. popl demo_list demo_heap = Some (3, l1', h1) \<and>
    pushr \<lparr>l_head = 5, l_tail = 6, l_size = 0\<rparr> 3 h1 = Some (l2', h2) \<and>
    list_rep l1' h2 [] \<and> list_rep l2' h2 ([] @ [3])"
  by (rule popl_pushr_moves[OF demo_list_rep demo_list2_rep]) (simp add: list_foot_def demo_list_def)

end
