(* ===== verification/Ring_Queue.thy ===== *)
theory Ring_Queue
  imports Prelude
begin

text \<open>
  The two ring buffers of the kernel: the message queue \<open>fixq\<close> of the network stack
  (\<open>kernel/net/fixq.c\<close>), which keeps a count, and the queue of the terminal driver
  (\<open>common/lib/block_queue.c\<close>), which keeps one slot free.  Here are the updates of the
  buffers; waiting is added in the theory \<open>Fixq\<close>.  The locale \<open>bounded_queue\<close> is what both
  promise: a FIFO queue with a capacity.
\<close>

section \<open>The contract of a bounded FIFO queue\<close>

locale bounded_queue =
  fixes inv :: "'q \<Rightarrow> bool"
    and contents :: "'q \<Rightarrow> 'a list"
    and cap :: "'q \<Rightarrow> nat"
    and put :: "'a \<Rightarrow> 'q \<Rightarrow> 'q option"
    and get :: "'q \<Rightarrow> ('a \<times> 'q) option"
  assumes len: "inv q \<Longrightarrow> length (contents q) \<le> cap q"
    and put: "\<lbrakk>inv q; length (contents q) < cap q\<rbrakk> \<Longrightarrow>
      \<exists>q'. put x q = Some q' \<and> inv q' \<and> contents q' = contents q @ [x] \<and> cap q' = cap q"
    and get: "\<lbrakk>inv q; contents q = x # xs\<rbrakk> \<Longrightarrow>
      \<exists>q'. get q = Some (x, q') \<and> inv q' \<and> contents q' = xs \<and> cap q' = cap q"
begin

text \<open>Any sequence of puts (\<open>Some x\<close>) and gets (\<open>None\<close>); the values that come out, in order.\<close>

fun run :: "'a option list \<Rightarrow> 'q \<Rightarrow> ('a list \<times> 'q) option" where
  "run [] q = Some ([], q)"
| "run (Some x # ops) q = do { q' \<leftarrow> put x q; run ops q' }"
| "run (None # ops) q = do { (x, q') \<leftarrow> get q; (ys, q'') \<leftarrow> run ops q'; Some (x # ys, q'') }"

text \<open>The sequence never puts into a full queue and never gets from an empty one.\<close>

fun fits :: "nat \<Rightarrow> nat \<Rightarrow> 'a option list \<Rightarrow> bool" where
  "fits c n [] \<longleftrightarrow> True"
| "fits c n (Some x # ops) \<longleftrightarrow> n < c \<and> fits c (Suc n) ops"
| "fits c n (None # ops) \<longleftrightarrow> 0 < n \<and> fits c (n - 1) ops"

definition puts :: "'a option list \<Rightarrow> 'a list" where
  "puts ops = List.map_filter (\<lambda>x. x) ops"

lemma run_fifo:
  assumes "inv q" "fits (cap q) (length (contents q)) ops"
  shows "\<exists>ys q'. run ops q = Some (ys, q') \<and> inv q' \<and> cap q' = cap q \<and>
    contents q @ puts ops = ys @ contents q'"
  using assms
proof (induction ops arbitrary: q)
  case Nil
  then show ?case by (simp add: puts_def map_filter_def)
next
  case (Cons op ops)
  show ?case
  proof (cases op)
    case (Some x)
    then have "length (contents q) < cap q" using Cons.prems by simp
    from put[OF Cons.prems(1) this, of x] obtain q1 where
      q1: "put x q = Some q1" "inv q1" "contents q1 = contents q @ [x]" "cap q1 = cap q" by blast
    moreover obtain ys q2 where "run ops q1 = Some (ys, q2)" "inv q2" "cap q2 = cap q1"
      "contents q1 @ puts ops = ys @ contents q2"
      using Cons.IH[OF q1(2)] Cons.prems(2) Some q1 by auto
    ultimately show ?thesis using Some by (auto simp: puts_def map_filter_def)
  next
    case None
    then obtain x xs where c: "contents q = x # xs" using Cons.prems by (cases "contents q") auto
    from get[OF Cons.prems(1) this] obtain q1 where
      q1: "get q = Some (x, q1)" "inv q1" "contents q1 = xs" "cap q1 = cap q" by blast
    moreover obtain ys q2 where "run ops q1 = Some (ys, q2)" "inv q2" "cap q2 = cap q1"
      "contents q1 @ puts ops = ys @ contents q2"
      using Cons.IH[OF q1(2)] Cons.prems(2) None q1 c by auto
    ultimately show ?thesis using None c by (auto simp: puts_def map_filter_def)
  qed
qed

end

section \<open>Reading a ring\<close>

text \<open>\<open>n\<close> entries of the buffer from index \<open>i\<close> on, wrapping around.\<close>

definition ring :: "'a list \<Rightarrow> nat \<Rightarrow> nat \<Rightarrow> 'a list" where
  "ring buf i n = map (\<lambda>k. buf ! ((i + k) mod length buf)) [0..<n]"

lemma length_ring [simp]: "length (ring buf i n) = n"
  by (simp add: ring_def)

lemma ring_Suc: "ring buf i (Suc n) = ring buf i n @ [buf ! ((i + n) mod length buf)]"
  by (simp add: ring_def)

lemma ring_Cons:
  assumes "i < length buf"
  shows "ring buf i (Suc n) = buf ! i # ring buf (Suc i mod length buf) n"
proof -
  have "buf ! ((i + Suc k) mod length buf) = buf ! ((Suc i mod length buf + k) mod length buf)" for k
    by (simp add: mod_add_left_eq)
  then show ?thesis
    using assms by (simp add: ring_def map_upt_Suc del: upt_Suc)
qed

lemma ring_update:
  assumes "i < length buf" "n < length buf"
  shows "ring (buf[(i + n) mod length buf := x]) i n = ring buf i n"
proof -
  have "(i + n) mod length buf \<noteq> (i + k) mod length buf" if "k < n" for k
  proof
    assume "(i + n) mod length buf = (i + k) mod length buf"
    then have "length buf dvd (i + n) - (i + k)" using that by (simp add: mod_eq_dvd_iff_nat)
    moreover have "0 < n - k" "n - k < length buf" using that assms by auto
    ultimately show False by (simp add: nat_dvd_not_less)
  qed
  then show ?thesis by (simp add: ring_def)
qed

section \<open>Model of the buffer of \<open>fixq.c\<close>\<close>

text \<open>Messages are addresses; \<open>NULL\<close> is 0.  The semaphores are in the theory \<open>Fixq\<close>.\<close>

record fixq_t =
  fq_size :: nat
  fq_buf :: "nat list"
  fq_in :: nat
  fq_out :: nat
  fq_cnt :: nat

definition fixq_init :: "nat list \<Rightarrow> nat \<Rightarrow> fixq_t" where
  "fixq_init buf sz = \<lparr>fq_size = sz, fq_buf = buf, fq_in = 0, fq_out = 0, fq_cnt = 0\<rparr>"

definition fixq_store :: "nat \<Rightarrow> fixq_t \<Rightarrow> fixq_t option" where
  "fixq_store msg q = do {
     buf \<leftarrow> upd_opt (fq_buf q) (fq_in q) msg;
     let i = fq_in q + 1;
     Some (q\<lparr>fq_buf := buf, fq_in := (if i \<ge> fq_size q then 0 else i), fq_cnt := fq_cnt q + 1\<rparr>)
   }"

definition fixq_fetch :: "fixq_t \<Rightarrow> (nat \<times> fixq_t) option" where
  "fixq_fetch q = do {
     msg \<leftarrow> nth_opt (fq_buf q) (fq_out q);
     let i = fq_out q + 1;
     Some (msg, q\<lparr>fq_out := (if i \<ge> fq_size q then 0 else i), fq_cnt := fq_cnt q - 1\<rparr>)
   }"

definition fixq_count :: "fixq_t \<Rightarrow> nat" where
  "fixq_count q = fq_cnt q"

definition fixq_ok :: "fixq_t \<Rightarrow> bool" where
  "fixq_ok q \<longleftrightarrow> 0 < fq_size q \<and> fq_size q = length (fq_buf q) \<and> fq_out q < fq_size q \<and>
     fq_cnt q \<le> fq_size q \<and> fq_in q = (fq_out q + fq_cnt q) mod fq_size q"

definition fixq_list :: "fixq_t \<Rightarrow> nat list" where
  "fixq_list q = ring (fq_buf q) (fq_out q) (fq_cnt q)"

lemma wrap_inc: "(i :: nat) < n \<Longrightarrow> (if n \<le> i + 1 then 0 else i + 1) = (i + 1) mod n"
  by (cases "i + 1 = n") auto

interpretation fq: bounded_queue fixq_ok fixq_list fq_size fixq_store fixq_fetch
proof
  fix q
  assume ok: "fixq_ok q"
  then show "length (fixq_list q) \<le> fq_size q" by (simp add: fixq_ok_def fixq_list_def)
  let ?n = "length (fq_buf q)"
  have o: "fq_out q < ?n" "fq_in q < ?n" and sz: "fq_size q = ?n" using ok by (auto simp: fixq_ok_def)
  { fix x :: nat
    assume "length (fixq_list q) < fq_size q"
    then have c: "fq_cnt q < ?n" using ok by (simp add: fixq_ok_def fixq_list_def)
    let ?q = "q\<lparr>fq_buf := (fq_buf q)[fq_in q := x], fq_in := (fq_in q + 1) mod ?n, fq_cnt := fq_cnt q + 1\<rparr>"
    have "fixq_store x q = Some ?q"
      using wrap_inc[OF o(2)] o(2) unfolding fixq_store_def Let_def sz by simp
    moreover have "fixq_ok ?q" using ok c by (auto simp: fixq_ok_def mod_Suc_eq)
    moreover have "fixq_list ?q = fixq_list q @ [x]"
      using ok c o ring_update[of "fq_out q" "fq_buf q" "fq_cnt q" x]
      by (simp add: fixq_list_def ring_Suc fixq_ok_def)
    ultimately show "\<exists>q'. fixq_store x q = Some q' \<and> fixq_ok q' \<and> fixq_list q' = fixq_list q @ [x] \<and> fq_size q' = fq_size q"
      by auto }
  { fix x :: nat and xs
    assume xs: "fixq_list q = x # xs"
    then obtain m where m: "fq_cnt q = Suc m" by (cases "fq_cnt q") (auto simp: fixq_list_def ring_def)
    let ?q = "q\<lparr>fq_out := (fq_out q + 1) mod ?n, fq_cnt := fq_cnt q - 1\<rparr>"
    have "fixq_fetch q = Some (fq_buf q ! fq_out q, ?q)"
      using wrap_inc[OF o(1)] o(1) unfolding fixq_fetch_def Let_def sz by simp
    moreover have "fixq_ok ?q" using ok m by (auto simp: fixq_ok_def mod_simps)
    moreover have "fq_buf q ! fq_out q = x" "fixq_list ?q = xs"
      using xs m ring_Cons[OF o(1), of m] by (simp_all add: fixq_list_def)
    ultimately show "\<exists>q'. fixq_fetch q = Some (x, q') \<and> fixq_ok q' \<and> fixq_list q' = xs \<and> fq_size q' = fq_size q"
      by auto }
qed


section \<open>Model of \<open>block_queue.c\<close>\<close>

text \<open>
  The callbacks \<open>wait\<close> and \<open>wakeup\<close> belong to the user of the queue; the loops \<open>while (full &&
  wait)\<close> and \<open>while (empty && wait)\<close> leave the queue as it is until the other side has moved it,
  so \<open>queue_put\<close> and \<open>queue_get\<close> are modelled from the point where their loop has ended.  With
  \<open>wait\<close> NULL the loop ends at once, also on a full queue.  \<open>producer\<close> and \<open>consumer\<close> are the ids
  that \<open>wait\<close> stored; the result says which callback is made with which id.
\<close>

definition queue_buf_size :: nat where "queue_buf_size = 1024"

record block_queue =
  bq_producer :: int
  bq_consumer :: int
  bq_has_wait :: bool
  bq_has_wakeup :: bool
  bq_buf :: "nat list"
  bq_head :: nat
  bq_tail :: nat

definition init_queue :: "bool \<Rightarrow> bool \<Rightarrow> block_queue \<Rightarrow> block_queue" where
  "init_queue has_wait has_wakeup q =
     q\<lparr>bq_has_wait := has_wait, bq_has_wakeup := has_wakeup, bq_consumer := 0, bq_producer := 0,
       bq_head := 0, bq_tail := 0\<rparr>"

definition next_pos :: "nat \<Rightarrow> nat" where "next_pos pos = (pos + 1) mod queue_buf_size"

definition queue_full :: "block_queue \<Rightarrow> bool" where
  "queue_full q \<longleftrightarrow> next_pos (bq_head q) = bq_tail q"

definition queue_empty :: "block_queue \<Rightarrow> bool" where
  "queue_empty q \<longleftrightarrow> bq_head q = bq_tail q"

definition queue_len :: "block_queue \<Rightarrow> nat" where
  "queue_len q = (if bq_head q \<ge> bq_tail q then bq_head q - bq_tail q
                  else queue_buf_size - (bq_tail q - bq_head q))"

text \<open>The value, the id passed to \<open>wakeup\<close> if it is called, the queue.\<close>

definition queue_get :: "block_queue \<Rightarrow> (nat \<times> int option \<times> block_queue) option" where
  "queue_get q =
     (if queue_empty q then Some (0, None, q)
      else do {
        v \<leftarrow> nth_opt (bq_buf q) (bq_tail q);
        let q1 = q\<lparr>bq_tail := next_pos (bq_tail q)\<rparr>;
        if bq_producer q1 \<noteq> 0 \<and> bq_has_wakeup q1
        then Some (v, Some (bq_producer q1), q1\<lparr>bq_producer := 0\<rparr>)
        else Some (v, None, q1)
      })"

definition queue_put :: "nat \<Rightarrow> block_queue \<Rightarrow> (int option \<times> block_queue) option" where
  "queue_put v q = do {
     buf \<leftarrow> upd_opt (bq_buf q) (bq_head q) v;
     let q1 = q\<lparr>bq_buf := buf, bq_head := next_pos (bq_head q)\<rparr>;
     if bq_consumer q1 \<noteq> 0 \<and> bq_has_wakeup q1
     then Some (Some (bq_consumer q1), q1\<lparr>bq_consumer := 0\<rparr>)
     else Some (None, q1)
   }"

definition bq_ok :: "block_queue \<Rightarrow> bool" where
  "bq_ok q \<longleftrightarrow> length (bq_buf q) = queue_buf_size \<and> bq_head q < queue_buf_size \<and> bq_tail q < queue_buf_size"

definition bq_list :: "block_queue \<Rightarrow> nat list" where
  "bq_list q = ring (bq_buf q) (bq_tail q) (queue_len q)"

lemma queue_len_bounds:
  assumes "bq_ok q"
  shows "queue_len q < queue_buf_size" "(bq_tail q + queue_len q) mod queue_buf_size = bq_head q"
    "queue_empty q \<longleftrightarrow> queue_len q = 0" "queue_full q \<longleftrightarrow> queue_len q = queue_buf_size - 1"
proof -
  let ?h = "bq_head q" and ?t = "bq_tail q" and ?N = queue_buf_size
  have b: "?h < ?N" "?t < ?N" using assms by (simp_all add: bq_ok_def)
  have N: "?N = 1024" by (simp add: queue_buf_size_def)
  show "queue_len q < ?N" "(?t + queue_len q) mod ?N = ?h" "queue_empty q \<longleftrightarrow> queue_len q = 0"
    using b by (auto simp: queue_len_def queue_empty_def)
  have "Suc ?h mod ?N = (if Suc ?h = ?N then 0 else Suc ?h)" using b(1) by (simp add: mod_Suc)
  then show "queue_full q \<longleftrightarrow> queue_len q = ?N - 1"
    using b N by (auto simp: queue_full_def next_pos_def queue_len_def split: if_splits)
qed

lemma queue_len_moves:
  assumes "bq_ok q"
  shows "\<not> queue_full q \<Longrightarrow> queue_len (q\<lparr>bq_buf := b, bq_head := next_pos (bq_head q)\<rparr>) = Suc (queue_len q)"
    and "\<not> queue_empty q \<Longrightarrow> queue_len (q\<lparr>bq_tail := next_pos (bq_tail q)\<rparr>) = queue_len q - 1"
  using assms by (auto simp: bq_ok_def queue_len_def queue_full_def queue_empty_def next_pos_def queue_buf_size_def
      mod_Suc split: if_splits)

definition bq_put :: "nat \<Rightarrow> block_queue \<Rightarrow> block_queue option" where
  "bq_put v q = map_option snd (queue_put v q)"

definition bq_get :: "block_queue \<Rightarrow> (nat \<times> block_queue) option" where
  "bq_get q = map_option (\<lambda>(v, _, q'). (v, q')) (queue_get q)"

lemma bq_wake_keeps:
  "bq_list (q\<lparr>bq_producer := p\<rparr>) = bq_list q" "bq_list (q\<lparr>bq_consumer := p\<rparr>) = bq_list q"
  "bq_ok (q\<lparr>bq_producer := p\<rparr>) = bq_ok q" "bq_ok (q\<lparr>bq_consumer := p\<rparr>) = bq_ok q"
  by (simp_all add: bq_list_def queue_len_def bq_ok_def)

interpretation bq: bounded_queue bq_ok bq_list "\<lambda>_. queue_buf_size - 1" bq_put bq_get
proof
  fix q
  assume ok: "bq_ok q"
  note lb = queue_len_bounds[OF ok]
  show "length (bq_list q) \<le> queue_buf_size - 1" using lb(1) by (simp add: bq_list_def)
  have n: "length (bq_buf q) = queue_buf_size" "bq_tail q < length (bq_buf q)" "bq_head q < length (bq_buf q)"
    using ok by (simp_all add: bq_ok_def)
  { fix x
    assume "length (bq_list q) < queue_buf_size - 1"
    then have nf: "\<not> queue_full q" "queue_len q < length (bq_buf q)" using lb(4) n(1) by (auto simp: bq_list_def)
    let ?q = "q\<lparr>bq_buf := (bq_buf q)[bq_head q := x], bq_head := next_pos (bq_head q)\<rparr>"
    have "bq_list ?q = bq_list q @ [x]"
      using lb(2) n nf ring_update[OF n(2) nf(2), of x]
      by (simp add: bq_list_def queue_len_moves(1)[OF ok] ring_Suc)
    moreover have "bq_ok ?q" using ok by (simp add: bq_ok_def next_pos_def queue_buf_size_def)
    moreover have "bq_put x q = Some ?q \<or> bq_put x q = Some (?q\<lparr>bq_consumer := 0\<rparr>)"
      using n(3) by (simp add: bq_put_def queue_put_def Let_def)
    ultimately show "\<exists>q'. bq_put x q = Some q' \<and> bq_ok q' \<and> bq_list q' = bq_list q @ [x] \<and>
        queue_buf_size - 1 = queue_buf_size - 1" using bq_wake_keeps by metis }
  { fix x xs
    assume xs: "bq_list q = x # xs"
    then obtain m where m: "queue_len q = Suc m" by (cases "queue_len q") (auto simp: bq_list_def ring_def)
    then have ne: "\<not> queue_empty q" using lb(3) by simp
    let ?q = "q\<lparr>bq_tail := next_pos (bq_tail q)\<rparr>"
    have "x = bq_buf q ! bq_tail q" "bq_list ?q = xs"
      using xs m ring_Cons[OF n(2), of m] queue_len_moves(2)[OF ok ne] n(1)
      by (simp_all add: bq_list_def next_pos_def)
    moreover have "bq_ok ?q" using ok by (simp add: bq_ok_def next_pos_def queue_buf_size_def)
    moreover have "bq_get q = Some (bq_buf q ! bq_tail q, ?q) \<or>
        bq_get q = Some (bq_buf q ! bq_tail q, ?q\<lparr>bq_producer := 0\<rparr>)"
      using n(2) ne by (simp add: bq_get_def queue_get_def Let_def)
    ultimately show "\<exists>q'. bq_get q = Some (x, q') \<and> bq_ok q' \<and> bq_list q' = xs \<and>
        queue_buf_size - 1 = queue_buf_size - 1" using bq_wake_keeps by metis }
qed


section \<open>Properties\<close>

text \<open>
  C38: the terminal queue (\<open>block_queue.c\<close>) is a FIFO of 1023 entries: for every sequence of
  \<open>queue_put\<close> and \<open>queue_get\<close> that does not put into a full or get from an empty queue, no access
  leaves the buffer, and the values that come out followed by those still inside are the ones
  that were inside followed by those put, in order, across every wrap-around.
\<close>

theorem block_queue_fifo:
  assumes "bq_ok q" "bq.fits (queue_buf_size - 1) (length (bq_list q)) ops"
  shows "\<exists>ys q'. bq.run ops q = Some (ys, q') \<and> bq_ok q' \<and> bq_list q @ bq.puts ops = ys @ bq_list q'"
  using bq.run_fifo[OF assms] by blast

theorem block_queue_fifo_witness:
  "\<exists>ys q'. bq.run [Some 7, Some 8, None]
      \<lparr>bq_producer = 0, bq_consumer = 3, bq_has_wait = True, bq_has_wakeup = True,
       bq_buf = replicate queue_buf_size 0, bq_head = 1023, bq_tail = 1023\<rparr> = Some (ys, q') \<and> bq_ok q' \<and>
    bq_list \<lparr>bq_producer = 0, bq_consumer = 3, bq_has_wait = True, bq_has_wakeup = True,
       bq_buf = replicate queue_buf_size 0, bq_head = 1023, bq_tail = 1023\<rparr>
     @ bq.puts [Some 7, Some 8, None] = ys @ bq_list q'"
  by (rule block_queue_fifo) (simp_all add: bq_ok_def bq_list_def queue_len_def queue_buf_size_def)

end
