(* ===== verification/Fixq.thy ===== *)
theory Fixq
  imports Ring_Queue
begin

text \<open>
  The message queue of the network stack (\<open>kernel/net/fixq.c\<close>) used by several threads, with
  its two semaphores (\<open>kernel/thread/schedule/segment.c\<close>) as counters with a list of waiting
  threads.  \<open>segment_wait\<close> and \<open>segment_wakeup\<close> run with interrupts off and are single steps.  Nothing protects what
  \<open>fixq_send\<close> and \<open>fixq_recv\<close> do between them, so there every access to the fields of the queue is a step of its own, and
  other threads may run between any two.  A thread that has to wait goes on when a wakeup hands it the
  token, as \<open>segment_wakeup\<close> does by making the first waiter ready instead of incrementing the count.
\<close>

section \<open>Semaphores\<close>

type_synonym tid = nat

record segment_t =
  seg_count :: nat
  seg_waiters :: "tid list"

definition init_segment :: "nat \<Rightarrow> segment_t" where
  "init_segment n = \<lparr>seg_count = n, seg_waiters = []\<rparr>"

text \<open>Whether the caller goes on, and the semaphore; \<open>pid\<close> is NULL, so nothing is stored through it.\<close>

definition segment_wait :: "tid \<Rightarrow> segment_t \<Rightarrow> bool \<times> segment_t" where
  "segment_wait cur seg =
     (if seg_count seg > 0 then (True, seg\<lparr>seg_count := seg_count seg - 1\<rparr>)
      else (False, seg\<lparr>seg_waiters := seg_waiters seg @ [cur]\<rparr>))"

text \<open>
  \<open>segment_wakeup\<close> with \<open>pid\<close> NULL, as \<open>fixq.c\<close> calls it: the thread that is made ready, the word at address 0, where its
  identifier is stored through the NULL pointer, and the semaphore.
\<close>

definition segment_wakeup :: "(tid \<Rightarrow> nat) \<Rightarrow> nat \<Rightarrow> segment_t \<Rightarrow> tid option \<times> nat \<times> segment_t" where
  "segment_wakeup pid_of word0 seg =
     (case seg_waiters seg of
        [] \<Rightarrow> (None, word0, seg\<lparr>seg_count := seg_count seg + 1\<rparr>)
      | w # ws \<Rightarrow> (Some w, pid_of w, seg\<lparr>seg_waiters := ws\<rparr>))"

section \<open>Threads using the queue\<close>

text \<open>
  Where a thread is in \<open>fixq_send\<close> or \<open>fixq_recv\<close>.  A sender with message \<open>m\<close> waits, is past the wait, has read \<open>in\<close> (\<open>i\<close>),
  has written \<open>in\<close> back, has stored the message, has wrapped \<open>in\<close> around, has read \<open>cnt\<close> and has written \<open>cnt\<close>; the same for a receiver,
  which has the message from \<open>Recv_taken\<close> on.
\<close>

datatype phase = Idle
  | Send_wait nat | Send_go nat | Send_at nat nat | Send_moved nat nat | Send_stored | Send_wrapped | Send_counting int | Send_counted
  | Recv_wait | Recv_go | Recv_at nat | Recv_moved nat | Recv_taken nat | Recv_wrapped nat | Recv_counting nat int | Recv_counted nat

text \<open>\<open>sent\<close> are the messages in the order in which they were stored, \<open>received\<close> those that were read from the buffer.\<close>

record fixq_sys =
  q_size :: nat
  q_buf :: "nat list"
  q_in :: nat
  q_out :: nat
  q_cnt :: int
  send_sem :: segment_t
  receive_sem :: segment_t
  phase_of :: "tid \<Rightarrow> phase"
  pids :: "tid \<Rightarrow> nat"
  null_word :: nat
  sent :: "nat list"
  received :: "nat list"

definition set_phase :: "tid \<Rightarrow> phase \<Rightarrow> fixq_sys \<Rightarrow> fixq_sys" where
  "set_phase t p s = s\<lparr>phase_of := (phase_of s)(t := p)\<rparr>"

text \<open>A woken thread holds the token: it is past its wait.\<close>

definition wake :: "tid option \<Rightarrow> (tid \<Rightarrow> phase) \<Rightarrow> tid \<Rightarrow> phase" where
  "wake w ph = (case w of None \<Rightarrow> ph
     | Some t \<Rightarrow> ph(t := (case ph t of Send_wait m \<Rightarrow> Send_go m | Recv_wait \<Rightarrow> Recv_go | p \<Rightarrow> p)))"

text \<open>The first part of \<open>fixq_send\<close>: \<open>tmo < 0\<close> asks not to wait, and then a full queue gives \<open>NET_ERR_FULL\<close>.\<close>

definition send_enter :: "tid \<Rightarrow> nat \<Rightarrow> int \<Rightarrow> fixq_sys \<Rightarrow> fixq_sys" where
  "send_enter t msg tmo s =
     (if q_cnt s \<ge> int (q_size s) \<and> tmo < 0 then s
      else let (go, sem) = segment_wait t (send_sem s)
           in set_phase t (if go then Send_go msg else Send_wait msg) (s\<lparr>send_sem := sem\<rparr>))"

definition recv_enter :: "tid \<Rightarrow> int \<Rightarrow> fixq_sys \<Rightarrow> fixq_sys" where
  "recv_enter t tmo s =
     (if q_cnt s = 0 \<and> tmo < 0 then s
      else let (go, sem) = segment_wait t (receive_sem s)
           in set_phase t (if go then Recv_go else Recv_wait) (s\<lparr>receive_sem := sem\<rparr>))"

text \<open>The next access of a thread; \<open>None\<close> when it has none to make, or leaves the buffer.\<close>

definition send_step :: "tid \<Rightarrow> fixq_sys \<Rightarrow> fixq_sys option" where
  "send_step t s =
     (case phase_of s t of
        Send_go m \<Rightarrow> Some (set_phase t (Send_at m (q_in s)) s)
      | Send_at m i \<Rightarrow> Some (set_phase t (Send_moved m i) (s\<lparr>q_in := i + 1\<rparr>))
      | Send_moved m i \<Rightarrow> do {
          b \<leftarrow> upd_opt (q_buf s) i m;
          Some (set_phase t Send_stored (s\<lparr>q_buf := b, sent := sent s @ [m]\<rparr>))
        }
      | Send_stored \<Rightarrow> Some (set_phase t Send_wrapped (s\<lparr>q_in := (if q_in s \<ge> q_size s then 0 else q_in s)\<rparr>))
      | Send_wrapped \<Rightarrow> Some (set_phase t (Send_counting (q_cnt s)) s)
      | Send_counting c \<Rightarrow> Some (set_phase t Send_counted (s\<lparr>q_cnt := c + 1\<rparr>))
      | Send_counted \<Rightarrow>
          (case segment_wakeup (pids s) (null_word s) (receive_sem s) of (w, word0, sem) \<Rightarrow>
             Some (s\<lparr>receive_sem := sem, null_word := word0, phase_of := wake w ((phase_of s)(t := Idle))\<rparr>))
      | _ \<Rightarrow> None)"

definition recv_step :: "tid \<Rightarrow> fixq_sys \<Rightarrow> fixq_sys option" where
  "recv_step t s =
     (case phase_of s t of
        Recv_go \<Rightarrow> Some (set_phase t (Recv_at (q_out s)) s)
      | Recv_at i \<Rightarrow> Some (set_phase t (Recv_moved i) (s\<lparr>q_out := i + 1\<rparr>))
      | Recv_moved i \<Rightarrow> do {
          msg \<leftarrow> nth_opt (q_buf s) i;
          Some (set_phase t (Recv_taken msg) (s\<lparr>received := received s @ [msg]\<rparr>))
        }
      | Recv_taken m \<Rightarrow> Some (set_phase t (Recv_wrapped m) (s\<lparr>q_out := (if q_out s \<ge> q_size s then 0 else q_out s)\<rparr>))
      | Recv_wrapped m \<Rightarrow> Some (set_phase t (Recv_counting m (q_cnt s)) s)
      | Recv_counting m c \<Rightarrow> Some (set_phase t (Recv_counted m) (s\<lparr>q_cnt := c - 1\<rparr>))
      | Recv_counted m \<Rightarrow>
          (case segment_wakeup (pids s) (null_word s) (send_sem s) of (w, word0, sem) \<Rightarrow>
             Some (s\<lparr>send_sem := sem, null_word := word0, phase_of := wake w ((phase_of s)(t := Idle))\<rparr>))
      | _ \<Rightarrow> None)"

datatype action = Send tid nat int | Recv tid int | Run tid

fun fixq_act :: "action \<Rightarrow> fixq_sys \<Rightarrow> fixq_sys option" where
  "fixq_act (Send t msg tmo) s = (if phase_of s t = Idle then Some (send_enter t msg tmo s) else None)"
| "fixq_act (Recv t tmo) s = (if phase_of s t = Idle then Some (recv_enter t tmo s) else None)"
| "fixq_act (Run t) s = (case send_step t s of Some s' \<Rightarrow> Some s' | None \<Rightarrow> recv_step t s)"

definition fixq_start :: "(tid \<Rightarrow> nat) \<Rightarrow> nat list \<Rightarrow> fixq_sys" where
  "fixq_start ids buf = \<lparr>q_size = length buf, q_buf = buf, q_in = 0, q_out = 0, q_cnt = 0, send_sem = init_segment (length buf),
     receive_sem = init_segment 0, phase_of = (\<lambda>_. Idle), pids = ids, null_word = 0, sent = [], received = []\<rparr>"

text \<open>
  Between reading \<open>in\<close> and wrapping it around a sender must be alone, and a receiver with \<open>out\<close>: nothing in the code sees to
  that.  \<open>fixq_reach\<close> are the states of all runs, \<open>fixq_calm\<close> those of the runs in which it is so.
\<close>

primrec at_in :: "phase \<Rightarrow> bool" where
  "at_in Idle = False" | "at_in (Send_wait m) = False" | "at_in (Send_go m) = False" | "at_in (Send_at m i) = True" | "at_in (Send_moved m i) = True"
| "at_in Send_stored = True" | "at_in Send_wrapped = False" | "at_in (Send_counting c) = False" | "at_in Send_counted = False"
| "at_in Recv_wait = False" | "at_in Recv_go = False" | "at_in (Recv_at i) = False" | "at_in (Recv_moved i) = False" | "at_in (Recv_taken m) = False"
| "at_in (Recv_wrapped m) = False" | "at_in (Recv_counting m c) = False" | "at_in (Recv_counted m) = False"

primrec at_out :: "phase \<Rightarrow> bool" where
  "at_out Idle = False" | "at_out (Send_wait m) = False" | "at_out (Send_go m) = False" | "at_out (Send_at m i) = False" | "at_out (Send_moved m i) = False"
| "at_out Send_stored = False" | "at_out Send_wrapped = False" | "at_out (Send_counting c) = False" | "at_out Send_counted = False"
| "at_out Recv_wait = False" | "at_out Recv_go = False" | "at_out (Recv_at i) = True" | "at_out (Recv_moved i) = True" | "at_out (Recv_taken m) = True"
| "at_out (Recv_wrapped m) = False" | "at_out (Recv_counting m c) = False" | "at_out (Recv_counted m) = False"

definition alone :: "fixq_sys \<Rightarrow> bool" where
  "alone s \<longleftrightarrow> (\<forall>t u. at_in (phase_of s t) \<and> at_in (phase_of s u) \<longrightarrow> t = u) \<and> (\<forall>t u. at_out (phase_of s t) \<and> at_out (phase_of s u) \<longrightarrow> t = u)"

inductive fixq_reach :: "(tid \<Rightarrow> nat) \<Rightarrow> nat list \<Rightarrow> fixq_sys \<Rightarrow> bool" for ids buf where
  reach_start: "fixq_reach ids buf (fixq_start ids buf)"
| reach_step: "fixq_reach ids buf s \<Longrightarrow> fixq_act a s = Some s' \<Longrightarrow> fixq_reach ids buf s'"

inductive fixq_calm :: "(tid \<Rightarrow> nat) \<Rightarrow> nat list \<Rightarrow> fixq_sys \<Rightarrow> bool" for ids buf where
  calm_start: "fixq_calm ids buf (fixq_start ids buf)"
| calm_step: "fixq_calm ids buf s \<Longrightarrow> fixq_act a s = Some s' \<Longrightarrow> alone s' \<Longrightarrow> fixq_calm ids buf s'"

section \<open>Invariant\<close>

text \<open>
  Where the token of a slot is: with a sender before it has stored its message (\<open>holds_slot\<close>), with a sender that has, with a receiver
  before it has read the message (\<open>holds_msg\<close>), with a receiver that has, or in one of the semaphores.
\<close>

definition holds_slot :: "phase \<Rightarrow> bool" where
  "holds_slot p \<longleftrightarrow> (case p of Send_go m \<Rightarrow> True | Send_at m i \<Rightarrow> True | Send_moved m i \<Rightarrow> True | _ \<Rightarrow> False)"

definition gives_msg :: "phase \<Rightarrow> bool" where
  "gives_msg p \<longleftrightarrow> (case p of Send_stored \<Rightarrow> True | Send_wrapped \<Rightarrow> True | Send_counting c \<Rightarrow> True | Send_counted \<Rightarrow> True | _ \<Rightarrow> False)"

definition holds_msg :: "phase \<Rightarrow> bool" where
  "holds_msg p \<longleftrightarrow> (case p of Recv_go \<Rightarrow> True | Recv_at i \<Rightarrow> True | Recv_moved i \<Rightarrow> True | _ \<Rightarrow> False)"

definition gives_slot :: "phase \<Rightarrow> bool" where
  "gives_slot p \<longleftrightarrow> (case p of Recv_taken m \<Rightarrow> True | Recv_wrapped m \<Rightarrow> True | Recv_counting m c \<Rightarrow> True | Recv_counted m \<Rightarrow> True | _ \<Rightarrow> False)"

lemmas tokens = holds_slot_def gives_msg_def holds_msg_def gives_slot_def

definition num :: "(phase \<Rightarrow> bool) \<Rightarrow> fixq_sys \<Rightarrow> nat" where
  "num P s = card {t. P (phase_of s t)}"

definition tokens_ok :: "fixq_sys \<Rightarrow> bool" where
  "tokens_ok s \<longleftrightarrow> finite {t. phase_of s t \<noteq> Idle} \<and>
     seg_count (send_sem s) + num holds_slot s + num gives_slot s + length (sent s) = q_size s + length (received s) \<and>
     seg_count (receive_sem s) + num holds_msg s + num gives_msg s + length (received s) = length (sent s)"

definition sem_waiters_ok :: "fixq_sys \<Rightarrow> bool" where
  "sem_waiters_ok s \<longleftrightarrow> (seg_waiters (send_sem s) \<noteq> [] \<longrightarrow> seg_count (send_sem s) = 0) \<and>
     (seg_waiters (receive_sem s) \<noteq> [] \<longrightarrow> seg_count (receive_sem s) = 0) \<and>
     distinct (seg_waiters (send_sem s)) \<and> distinct (seg_waiters (receive_sem s)) \<and>
     (\<forall>t. t \<in> set (seg_waiters (send_sem s)) \<longleftrightarrow> (\<exists>m. phase_of s t = Send_wait m)) \<and>
     (\<forall>t. t \<in> set (seg_waiters (receive_sem s)) \<longleftrightarrow> phase_of s t = Recv_wait)"

text \<open>The index \<open>in\<close> follows the number of messages stored; in the middle of a send it is ahead, or not yet wrapped around.\<close>

definition in_ok :: "fixq_sys \<Rightarrow> bool" where
  "in_ok s \<longleftrightarrow> ((\<forall>t. \<not> at_in (phase_of s t)) \<longrightarrow> q_in s = length (sent s) mod q_size s) \<and>
     (\<forall>t m i. phase_of s t = Send_at m i \<longrightarrow> i = length (sent s) mod q_size s \<and> q_in s = i) \<and>
     (\<forall>t m i. phase_of s t = Send_moved m i \<longrightarrow> i = length (sent s) mod q_size s \<and> q_in s = i + 1) \<and>
     (\<forall>t. phase_of s t = Send_stored \<longrightarrow> (\<exists>k. length (sent s) = Suc k \<and> q_in s = k mod q_size s + 1))"

definition out_ok :: "fixq_sys \<Rightarrow> bool" where
  "out_ok s \<longleftrightarrow> ((\<forall>t. \<not> at_out (phase_of s t)) \<longrightarrow> q_out s = length (received s) mod q_size s) \<and>
     (\<forall>t i. phase_of s t = Recv_at i \<longrightarrow> i = length (received s) mod q_size s \<and> q_out s = i) \<and>
     (\<forall>t i. phase_of s t = Recv_moved i \<longrightarrow> i = length (received s) mod q_size s \<and> q_out s = i + 1) \<and>
     (\<forall>t m. phase_of s t = Recv_taken m \<longrightarrow> (\<exists>k. length (received s) = Suc k \<and> q_out s = k mod q_size s + 1))"

definition unread :: "fixq_sys \<Rightarrow> nat list" where
  "unread s = ring (q_buf s) (length (received s)) (length (sent s) - length (received s))"

definition buffer_ok :: "fixq_sys \<Rightarrow> bool" where
  "buffer_ok s \<longleftrightarrow> 0 < q_size s \<and> length (q_buf s) = q_size s \<and> sent s = received s @ unread s"

definition fixq_inv :: "fixq_sys \<Rightarrow> bool" where
  "fixq_inv s \<longleftrightarrow> tokens_ok s \<and> sem_waiters_ok s \<and> in_ok s \<and> out_ok s \<and> buffer_ok s \<and> alone s"

lemma fixq_inv_start: "buf \<noteq> [] \<Longrightarrow> fixq_inv (fixq_start ids buf)"
  by (simp add: fixq_inv_def tokens_ok_def sem_waiters_ok_def in_ok_def out_ok_def buffer_ok_def alone_def fixq_start_def init_segment_def num_def
      tokens unread_def ring_def)

text \<open>How the number of tokens changes with the phase of one thread.\<close>

lemma num_set:
  assumes "finite {t. ph t \<noteq> Idle}" "\<not> P Idle"
  shows "card {u. P ((ph(t := p)) u)} + of_bool (P (ph t)) = card {u. P (ph u)} + of_bool (P p)"
proof -
  let ?A = "{u. P (ph u)}"
  have fin: "finite ?A" by (rule finite_subset[OF _ assms(1)]) (use assms(2) in auto)
  have e: "{u. P ((ph(t := p)) u)} = (if P p then insert t (?A - {t}) else ?A - {t})" by auto
  have "card (insert t (?A - {t})) = Suc (card (?A - {t}))" using fin by (subst card_insert_disjoint) auto
  moreover have "card (?A - {t}) + of_bool (P (ph t)) = card ?A"
    using card_Suc_Diff1[OF fin, of t] by (cases "P (ph t)") auto
  ultimately show ?thesis unfolding e by simp
qed

lemma finite_set_phase: "finite {u. ph u \<noteq> Idle} \<Longrightarrow> finite {u. (ph(t := p)) u \<noteq> Idle}" for ph :: "tid \<Rightarrow> phase"
  by (rule finite_subset[of _ "insert t {u. ph u \<noteq> Idle}"]) auto

lemma no_tokens: "\<not> holds_slot Idle" "\<not> gives_msg Idle" "\<not> holds_msg Idle" "\<not> gives_slot Idle"
  by (simp_all add: tokens)

lemma num_phase:
  assumes "finite {u. phase_of s u \<noteq> Idle}"
  shows "num holds_slot (set_phase t p s) + of_bool (holds_slot (phase_of s t)) = num holds_slot s + of_bool (holds_slot p)"
    "num gives_msg (set_phase t p s) + of_bool (gives_msg (phase_of s t)) = num gives_msg s + of_bool (gives_msg p)"
    "num holds_msg (set_phase t p s) + of_bool (holds_msg (phase_of s t)) = num holds_msg s + of_bool (holds_msg p)"
    "num gives_slot (set_phase t p s) + of_bool (gives_slot (phase_of s t)) = num gives_slot s + of_bool (gives_slot p)"
  using num_set[OF assms, of holds_slot t p] num_set[OF assms, of gives_msg t p] num_set[OF assms, of holds_msg t p] num_set[OF assms, of gives_slot t p]
    no_tokens by (simp_all add: num_def set_phase_def)

lemma set_phase_sel [simp]:
  "q_size (set_phase t p s) = q_size s" "q_buf (set_phase t p s) = q_buf s" "q_in (set_phase t p s) = q_in s" "q_out (set_phase t p s) = q_out s"
  "send_sem (set_phase t p s) = send_sem s" "receive_sem (set_phase t p s) = receive_sem s" "sent (set_phase t p s) = sent s"
  "received (set_phase t p s) = received s" "phase_of (set_phase t p s) = (phase_of s)(t := p)" "unread (set_phase t p s) = unread s"
  by (simp_all add: set_phase_def unread_def)

lemma num_frame [simp]:
  "num P (s\<lparr>q_in := i\<rparr>) = num P s" "num P (s\<lparr>q_out := i\<rparr>) = num P s" "num P (s\<lparr>q_cnt := c\<rparr>) = num P s"
  "num P (s\<lparr>q_buf := b, sent := ms\<rparr>) = num P s" "num P (s\<lparr>received := ms\<rparr>) = num P s" "num P (s\<lparr>send_sem := g\<rparr>) = num P s"
  "num P (s\<lparr>receive_sem := g\<rparr>) = num P s"
  by (simp_all add: num_def)

text \<open>A thread that does not wait, and is not made to, leaves the waiting ones alone.\<close>

definition waits :: "phase \<Rightarrow> bool" where
  "waits p \<longleftrightarrow> p = Recv_wait \<or> (\<exists>m. p = Send_wait m)"

lemma waiters_set_phase:
  assumes "sem_waiters_ok s" "\<not> waits (phase_of s t)" "\<not> waits p"
  shows "sem_waiters_ok (set_phase t p s)"
  using assms by (auto simp: sem_waiters_ok_def waits_def)

lemma ring_mod: "ring buf (i mod length buf) n = ring buf i n"
  by (simp add: ring_def mod_add_left_eq)

lemma room:
  assumes "fixq_inv s" "holds_slot (phase_of s t)"
  shows "length (sent s) - length (received s) < q_size s" "length (received s) \<le> length (sent s)"
proof -
  have "finite {u. holds_slot (phase_of s u)}"
    by (rule finite_subset[of _ "{u. phase_of s u \<noteq> Idle}"]) (use assms(1) in \<open>auto simp: fixq_inv_def tokens_ok_def holds_slot_def\<close>)
  then have "0 < num holds_slot s" using assms(2) by (auto simp: num_def card_gt_0_iff)
  then show "length (sent s) - length (received s) < q_size s" "length (received s) \<le> length (sent s)"
    using assms(1) by (auto simp: fixq_inv_def tokens_ok_def)
qed

lemma message_there:
  assumes "fixq_inv s" "holds_msg (phase_of s t)"
  shows "length (received s) < length (sent s)"
proof -
  have "finite {u. holds_msg (phase_of s u)}"
    by (rule finite_subset[of _ "{u. phase_of s u \<noteq> Idle}"]) (use assms(1) in \<open>auto simp: fixq_inv_def tokens_ok_def holds_msg_def\<close>)
  then have "0 < num holds_msg s" using assms(2) by (auto simp: num_def card_gt_0_iff)
  then show ?thesis using assms(1) by (auto simp: fixq_inv_def tokens_ok_def)
qed

text \<open>Storing a message behind the unread ones, and reading the first of them.\<close>

lemma store_unread:
  assumes "length buf = n" "k < n" "i = (r + k) mod n"
  shows "ring (buf[i := m]) r (Suc k) = ring buf r k @ [m]"
proof -
  have n: "r mod n < length buf" using assms by simp
  have i: "(r mod n + k) mod n = i" "i < n" using assms(2,3) by (simp_all add: mod_add_left_eq)
  have "ring (buf[i := m]) (r mod n) (Suc k) = ring buf (r mod n) k @ [m]"
    using ring_update[OF n, of k m] assms(1,2) i by (simp add: ring_Suc)
  moreover have "ring (buf[i := m]) (r mod n) (Suc k) = ring (buf[i := m]) r (Suc k)" using ring_mod[of "buf[i := m]" r] assms(1) by simp
  moreover have "ring buf (r mod n) k = ring buf r k" using ring_mod[of buf r] assms(1) by simp
  ultimately show ?thesis by simp
qed

lemma read_unread:
  assumes "length buf = n" "0 < n"
  shows "ring buf r (Suc k) = buf ! (r mod n) # ring buf (Suc r) k"
proof -
  have "ring buf (r mod n) (Suc k) = buf ! (r mod n) # ring buf (Suc (r mod n) mod n) k" using ring_Cons[of "r mod n" buf k] assms by simp
  moreover have "ring buf (Suc (r mod n) mod n) k = ring buf (Suc r) k" using ring_mod[of buf "Suc r"] assms by (simp add: mod_Suc_eq)
  moreover have "ring buf (r mod n) (Suc k) = ring buf r (Suc k)" using ring_mod[of buf r] assms by simp
  ultimately show ?thesis by simp
qed

lemma slots_differ:
  fixes a n :: nat
  assumes "b - a < n" "a \<le> b"
  shows "\<forall>k < b - a. (a + k) mod n \<noteq> b mod n"
proof (intro allI impI notI)
  fix k
  assume k: "k < b - a" and e: "(a + k) mod n = b mod n"
  have "n dvd b - (a + k)" using k e[symmetric] by (simp add: mod_eq_dvd_iff_nat)
  moreover have "0 < b - (a + k)" "b - (a + k) < n" using k assms by auto
  ultimately show False by (simp add: nat_dvd_not_less)
qed

lemma wrap_next: "0 < n \<Longrightarrow> (if k mod n + 1 \<ge> n then 0 else k mod n + 1) = Suc k mod n"
  by (simp add: mod_Suc not_le Suc_le_eq) (metis Suc_leI mod_less_divisor le_antisym not_less)

section \<open>Every step keeps the invariant\<close>

lemma tokens_set_phase:
  assumes "tokens_ok s" "holds_slot p = holds_slot (phase_of s t)" "gives_msg p = gives_msg (phase_of s t)"
    "holds_msg p = holds_msg (phase_of s t)" "gives_slot p = gives_slot (phase_of s t)"
  shows "tokens_ok (set_phase t p s)"
proof -
  have fin: "finite {u. phase_of s u \<noteq> Idle}" using assms(1) by (simp add: tokens_ok_def)
  show ?thesis using assms num_phase[OF fin, of t p] finite_set_phase[OF fin, of t p] by (simp add: tokens_ok_def)
qed

lemma in_set_phase: "in_ok s \<Longrightarrow> \<not> at_in (phase_of s t) \<Longrightarrow> \<not> at_in p \<Longrightarrow> in_ok (set_phase t p s)"
  unfolding in_ok_def by (auto split: if_splits)

lemma out_set_phase: "out_ok s \<Longrightarrow> \<not> at_out (phase_of s t) \<Longrightarrow> \<not> at_out p \<Longrightarrow> out_ok (set_phase t p s)"
  unfolding out_ok_def by (auto split: if_splits)

lemma buffer_set_phase: "buffer_ok s \<Longrightarrow> buffer_ok (set_phase t p s)"
  by (simp add: buffer_ok_def)

lemma aloneD:
  assumes "alone s"
  shows "at_in (phase_of s t) \<Longrightarrow> u \<noteq> t \<Longrightarrow> \<not> at_in (phase_of s u)" "at_out (phase_of s t) \<Longrightarrow> u \<noteq> t \<Longrightarrow> \<not> at_out (phase_of s u)"
  using assms by (auto simp: alone_def)

lemma not_at_in: "\<not> at_in p \<Longrightarrow> p \<noteq> Send_at m i \<and> p \<noteq> Send_moved m i \<and> p \<noteq> Send_stored"
  by auto

lemma not_at_out: "\<not> at_out p \<Longrightarrow> p \<noteq> Recv_at i \<and> p \<noteq> Recv_moved i \<and> p \<noteq> Recv_taken m"
  by auto

text \<open>With one sender in the middle of a send, \<open>in_ok\<close> is about that one.\<close>

lemma in_okI:
  assumes "at_in (phase_of s t)" "alone s"
    and "\<And>m i. phase_of s t = Send_at m i \<Longrightarrow> i = length (sent s) mod q_size s \<and> q_in s = i"
    and "\<And>m i. phase_of s t = Send_moved m i \<Longrightarrow> i = length (sent s) mod q_size s \<and> q_in s = i + 1"
    and "phase_of s t = Send_stored \<Longrightarrow> \<exists>k. length (sent s) = Suc k \<and> q_in s = k mod q_size s + 1"
  shows "in_ok s"
proof -
  have "u = t" if "at_in (phase_of s u)" for u using aloneD(1)[OF assms(2,1)] that by blast
  then have u: "phase_of s u = Send_at m i \<Longrightarrow> u = t" "phase_of s u = Send_moved m i \<Longrightarrow> u = t" "phase_of s u = Send_stored \<Longrightarrow> u = t" for u m i
    by simp_all
  show ?thesis unfolding in_ok_def
  proof (intro conjI allI impI)
    show "q_in s = length (sent s) mod q_size s" if "\<forall>t. \<not> at_in (phase_of s t)" using that assms(1) by blast
  qed (use assms(3-5) u in blast)+
qed

lemma out_okI:
  assumes "at_out (phase_of s t)" "alone s"
    and "\<And>i. phase_of s t = Recv_at i \<Longrightarrow> i = length (received s) mod q_size s \<and> q_out s = i"
    and "\<And>i. phase_of s t = Recv_moved i \<Longrightarrow> i = length (received s) mod q_size s \<and> q_out s = i + 1"
    and "\<And>m. phase_of s t = Recv_taken m \<Longrightarrow> \<exists>k. length (received s) = Suc k \<and> q_out s = k mod q_size s + 1"
  shows "out_ok s"
proof -
  have "u = t" if "at_out (phase_of s u)" for u using aloneD(2)[OF assms(2,1)] that by blast
  then have u: "phase_of s u = Recv_at i \<Longrightarrow> u = t" "phase_of s u = Recv_moved i \<Longrightarrow> u = t" "phase_of s u = Recv_taken m \<Longrightarrow> u = t" for u m i
    by simp_all
  show ?thesis unfolding out_ok_def
  proof (intro conjI allI impI)
    show "q_out s = length (received s) mod q_size s" if "\<forall>t. \<not> at_out (phase_of s t)" using that assms(1) by blast
  qed (use assms(3-5) u in blast)+
qed

lemma fixq_invD:
  assumes "fixq_inv s"
  shows "tokens_ok s" "sem_waiters_ok s" "in_ok s" "out_ok s" "buffer_ok s" "alone s"
  using assms by (simp_all add: fixq_inv_def)

lemma token_frame [simp]:
  "tokens_ok (s\<lparr>q_in := i\<rparr>) = tokens_ok s" "tokens_ok (s\<lparr>q_out := i\<rparr>) = tokens_ok s" "tokens_ok (s\<lparr>q_cnt := c\<rparr>) = tokens_ok s"
  "sem_waiters_ok (s\<lparr>q_in := i\<rparr>) = sem_waiters_ok s" "sem_waiters_ok (s\<lparr>q_out := i\<rparr>) = sem_waiters_ok s" "sem_waiters_ok (s\<lparr>q_cnt := c\<rparr>) = sem_waiters_ok s"
  "sem_waiters_ok (s\<lparr>q_buf := b, sent := ms\<rparr>) = sem_waiters_ok s" "sem_waiters_ok (s\<lparr>received := ms\<rparr>) = sem_waiters_ok s"
  "out_ok (s\<lparr>q_in := i\<rparr>) = out_ok s" "in_ok (s\<lparr>q_out := i\<rparr>) = in_ok s" "in_ok (s\<lparr>q_cnt := c\<rparr>) = in_ok s" "out_ok (s\<lparr>q_cnt := c\<rparr>) = out_ok s"
  "out_ok (s\<lparr>q_buf := b, sent := ms\<rparr>) = out_ok s" "in_ok (s\<lparr>received := ms\<rparr>) = in_ok s"
  "buffer_ok (s\<lparr>q_in := i\<rparr>) = buffer_ok s" "buffer_ok (s\<lparr>q_out := i\<rparr>) = buffer_ok s" "buffer_ok (s\<lparr>q_cnt := c\<rparr>) = buffer_ok s"
  by (simp_all add: tokens_ok_def sem_waiters_ok_def in_ok_def out_ok_def buffer_ok_def unread_def)

lemma send_stored_inv:
  assumes inv: "fixq_inv s" and p: "phase_of s t = Send_moved m i" and al: "alone s'"
    and s': "s' = set_phase t Send_stored (s\<lparr>q_buf := (q_buf s)[i := m], sent := sent s @ [m]\<rparr>)"
  shows "fixq_inv s'" "i < length (q_buf s)" "upd_opt (q_buf s) i m = Some ((q_buf s)[i := m])"
proof -
  note d = fixq_invD[OF inv]
  note r = room[OF inv, of t, unfolded p holds_slot_def, simplified]
  have i: "i = length (sent s) mod q_size s" "q_in s = i + 1" using d(3) p unfolding in_ok_def by blast+
  have b: "0 < q_size s" "length (q_buf s) = q_size s" "sent s = received s @ unread s" using d(5) by (simp_all add: buffer_ok_def)
  show il: "i < length (q_buf s)" using i(1) b by simp
  then show "upd_opt (q_buf s) i m = Some ((q_buf s)[i := m])" by simp
  let ?k = "length (sent s) - length (received s)"
  have "ring ((q_buf s)[i := m]) (length (received s)) (Suc ?k) = unread s @ [m]"
    unfolding unread_def by (rule store_unread[OF b(2) r(1)]) (use i(1) r(2) in simp)
  moreover have "Suc (length (sent s)) - length (received s) = Suc ?k" using r(2) by simp
  ultimately have "unread s' = unread s @ [m]" by (simp add: s' unread_def)
  then have buf: "buffer_ok s'" using b unfolding buffer_ok_def by (simp add: s')
  have fin: "finite {u. phase_of s u \<noteq> Idle}" using d(1) by (simp add: tokens_ok_def)
  let ?s = "s\<lparr>q_buf := (q_buf s)[i := m], sent := sent s @ [m]\<rparr>"
  have fin': "finite {u. phase_of ?s u \<noteq> Idle}" using fin by simp
  have tok: "tokens_ok s'"
    using d(1) num_phase[OF fin', of t Send_stored] finite_set_phase[OF fin, of t Send_stored] r(2)
    by (simp add: tokens_ok_def s' tokens p)
  have "phase_of s' t = Send_stored" "length (sent s') = Suc (length (sent s))" "q_in s' = length (sent s) mod q_size s' + 1"
    using i by (simp_all add: s')
  then have "in_ok s'" by (intro in_okI[of _ t, OF _ al]) simp_all
  moreover have "sem_waiters_ok s'" unfolding s' by (rule waiters_set_phase) (use d(2) p in \<open>simp_all add: waits_def\<close>)
  moreover have "out_ok s'" unfolding s' by (rule out_set_phase) (use d(4) p in simp_all)
  ultimately show "fixq_inv s'" using buf tok al by (simp add: fixq_inv_def)
qed

lemma recv_taken_inv:
  assumes inv: "fixq_inv s" and p: "phase_of s t = Recv_moved i" and al: "alone s'"
    and s': "s' = set_phase t (Recv_taken (q_buf s ! i)) (s\<lparr>received := received s @ [q_buf s ! i]\<rparr>)"
  shows "fixq_inv s'" "nth_opt (q_buf s) i = Some (q_buf s ! i)" "i < length (q_buf s)"
proof -
  note d = fixq_invD[OF inv]
  note r = message_there[OF inv, of t, unfolded p holds_msg_def, simplified]
  have i: "i = length (received s) mod q_size s" "q_out s = i + 1" using d(4) p unfolding out_ok_def by blast+
  have b: "0 < q_size s" "length (q_buf s) = q_size s" "sent s = received s @ unread s" using d(5) by (simp_all add: buffer_ok_def)
  show "nth_opt (q_buf s) i = Some (q_buf s ! i)" "i < length (q_buf s)" using i(1) b by simp_all
  obtain k where k: "length (sent s) - length (received s) = Suc k" using r by (metis Suc_diff_Suc)
  then have "length (sent s) - Suc (length (received s)) = k" by simp
  moreover have "unread s = q_buf s ! i # ring (q_buf s) (Suc (length (received s))) k"
    unfolding unread_def k i(1) by (rule read_unread[OF b(2,1)])
  ultimately have "unread s = q_buf s ! i # unread s'" by (simp add: s' unread_def)
  then have buf: "buffer_ok s'" using b unfolding buffer_ok_def by (simp add: s')
  have fin: "finite {u. phase_of s u \<noteq> Idle}" using d(1) by (simp add: tokens_ok_def)
  let ?s = "s\<lparr>received := received s @ [q_buf s ! i]\<rparr>"
  have fin': "finite {u. phase_of ?s u \<noteq> Idle}" using fin by simp
  have tok: "tokens_ok s'"
    using d(1) num_phase[OF fin', of t "Recv_taken (q_buf s ! i)"] finite_set_phase[OF fin, of t "Recv_taken (q_buf s ! i)"] r
    by (simp add: tokens_ok_def s' tokens p)
  have "phase_of s' t = Recv_taken (q_buf s ! i)" "length (received s') = Suc (length (received s))" "q_out s' = length (received s) mod q_size s' + 1"
    using i by (simp_all add: s')
  then have "out_ok s'" by (intro out_okI[of _ t, OF _ al]) simp_all
  moreover have "sem_waiters_ok s'" unfolding s' by (rule waiters_set_phase) (use d(2) p in \<open>simp_all add: waits_def\<close>)
  moreover have "in_ok s'" unfolding s' by (rule in_set_phase) (use d(3) p in simp_all)
  ultimately show "fixq_inv s'" using buf tok al by (simp add: fixq_inv_def)
qed

text \<open>A step that leaves the tokens, the waiting threads and the buffer as they are.\<close>

lemma quiet_step:
  assumes "fixq_inv s" "s' = set_phase t p s0" "tokens_ok s0" "sem_waiters_ok s0" "buffer_ok s0" "in_ok s'" "out_ok s'" "alone s'"
    "holds_slot p = holds_slot (phase_of s0 t)" "gives_msg p = gives_msg (phase_of s0 t)"
    "holds_msg p = holds_msg (phase_of s0 t)" "gives_slot p = gives_slot (phase_of s0 t)" "\<not> waits (phase_of s0 t)" "\<not> waits p"
  shows "fixq_inv s'"
  using assms by (simp add: fixq_inv_def tokens_set_phase waiters_set_phase buffer_set_phase)

lemma send_step_quiet:
  assumes inv: "fixq_inv s" and st: "send_step t s = Some s'" and al: "alone s'"
    and p: "phase_of s t \<noteq> Send_counted" "\<And>m i. phase_of s t \<noteq> Send_moved m i"
  shows "fixq_inv s'"
proof -
  note d = fixq_invD[OF inv]
  have n: "0 < q_size s" using d(5) by (simp add: buffer_ok_def)
  show ?thesis
  proof (cases "phase_of s t")
    case (Send_go m)
    then have s': "s' = set_phase t (Send_at m (q_in s)) s" using st by (simp add: send_step_def)
    have "\<not> at_in (phase_of s u)" for u using aloneD(1)[OF al, of t u] Send_go by (cases "u = t") (auto simp: s')
    then have "q_in s = length (sent s) mod q_size s" using d(3) by (simp add: in_ok_def)
    then have "in_ok s'" by (intro in_okI[of _ t, OF _ al]) (simp_all add: s')
    moreover have "out_ok s'" unfolding s' by (rule out_set_phase) (use d(4) Send_go in simp_all)
    ultimately show ?thesis by (intro quiet_step[OF inv s' d(1,2,5) _ _ al]) (use Send_go in \<open>simp_all add: tokens waits_def\<close>)
  next
    case (Send_at m i)
    then have s': "s' = set_phase t (Send_moved m i) (s\<lparr>q_in := i + 1\<rparr>)" using st by (simp add: send_step_def)
    have "i = length (sent s) mod q_size s" using d(3) Send_at by (auto simp: in_ok_def)
    then have "in_ok s'" by (intro in_okI[of _ t, OF _ al]) (simp_all add: s')
    moreover have "out_ok s'" unfolding s' by (rule out_set_phase) (use d(4) Send_at in simp_all)
    ultimately show ?thesis by (intro quiet_step[OF inv s' _ _ _ _ _ al]) (use d Send_at in \<open>simp_all add: tokens waits_def\<close>)
  next
    case Send_stored
    then have s': "s' = set_phase t Send_wrapped (s\<lparr>q_in := (if q_in s \<ge> q_size s then 0 else q_in s)\<rparr>)" using st by (simp add: send_step_def)
    obtain k where k: "length (sent s) = Suc k" "q_in s = k mod q_size s + 1" using d(3) Send_stored by (auto simp: in_ok_def)
    have "q_in s' = length (sent s') mod q_size s'" unfolding s' using k wrap_next[OF n, of k] by (simp split: if_splits)
    moreover have o: "\<not> at_in (phase_of s' u)" for u using aloneD(1)[OF d(6), of t u] Send_stored by (auto simp: s')
    ultimately have "in_ok s'" using not_at_in[OF o] unfolding in_ok_def by blast
    moreover have "out_ok s'" unfolding s' by (rule out_set_phase) (use d(4) Send_stored in simp_all)
    ultimately show ?thesis by (intro quiet_step[OF inv s' _ _ _ _ _ al]) (use d Send_stored in \<open>simp_all add: tokens waits_def\<close>)
  next
    case Send_wrapped
    then have s': "s' = set_phase t (Send_counting (q_cnt s)) s" using st by (simp add: send_step_def)
    show ?thesis by (rule quiet_step[OF inv s' d(1,2,5) _ _ al])
        (use d Send_wrapped in \<open>simp_all add: s' tokens waits_def in_set_phase out_set_phase\<close>)
  next
    case (Send_counting c)
    then have s': "s' = set_phase t Send_counted (s\<lparr>q_cnt := c + 1\<rparr>)" using st by (simp add: send_step_def)
    show ?thesis by (rule quiet_step[OF inv s' _ _ _ _ _ al])
        (use d Send_counting in \<open>simp_all add: s' tokens waits_def in_set_phase out_set_phase\<close>)
  qed (use st p in \<open>simp_all add: send_step_def\<close>)
qed

lemma recv_step_quiet:
  assumes inv: "fixq_inv s" and st: "recv_step t s = Some s'" and al: "alone s'"
    and p: "\<And>m. phase_of s t \<noteq> Recv_counted m" "\<And>i. phase_of s t \<noteq> Recv_moved i"
  shows "fixq_inv s'"
proof -
  note d = fixq_invD[OF inv]
  have n: "0 < q_size s" using d(5) by (simp add: buffer_ok_def)
  show ?thesis
  proof (cases "phase_of s t")
    case Recv_go
    then have s': "s' = set_phase t (Recv_at (q_out s)) s" using st by (simp add: recv_step_def)
    have "\<not> at_out (phase_of s u)" for u using aloneD(2)[OF al, of t u] Recv_go by (cases "u = t") (auto simp: s')
    then have "q_out s = length (received s) mod q_size s" using d(4) by (simp add: out_ok_def)
    then have "out_ok s'" by (intro out_okI[of _ t, OF _ al]) (simp_all add: s')
    moreover have "in_ok s'" unfolding s' by (rule in_set_phase) (use d(3) Recv_go in simp_all)
    ultimately show ?thesis by (intro quiet_step[OF inv s' d(1,2,5) _ _ al]) (use Recv_go in \<open>simp_all add: tokens waits_def\<close>)
  next
    case (Recv_at i)
    then have s': "s' = set_phase t (Recv_moved i) (s\<lparr>q_out := i + 1\<rparr>)" using st by (simp add: recv_step_def)
    have "i = length (received s) mod q_size s" using d(4) Recv_at by (auto simp: out_ok_def)
    then have "out_ok s'" by (intro out_okI[of _ t, OF _ al]) (simp_all add: s')
    moreover have "in_ok s'" unfolding s' by (rule in_set_phase) (use d(3) Recv_at in simp_all)
    ultimately show ?thesis by (intro quiet_step[OF inv s' _ _ _ _ _ al]) (use d Recv_at in \<open>simp_all add: tokens waits_def\<close>)
  next
    case (Recv_taken m)
    then have s': "s' = set_phase t (Recv_wrapped m) (s\<lparr>q_out := (if q_out s \<ge> q_size s then 0 else q_out s)\<rparr>)" using st by (simp add: recv_step_def)
    obtain k where k: "length (received s) = Suc k" "q_out s = k mod q_size s + 1" using d(4) Recv_taken by (auto simp: out_ok_def)
    have "q_out s' = length (received s') mod q_size s'" unfolding s' using k wrap_next[OF n, of k] by (simp split: if_splits)
    moreover have o: "\<not> at_out (phase_of s' u)" for u using aloneD(2)[OF d(6), of t u] Recv_taken by (auto simp: s')
    ultimately have "out_ok s'" using not_at_out[OF o] unfolding out_ok_def by blast
    moreover have "in_ok s'" unfolding s' by (rule in_set_phase) (use d(3) Recv_taken in simp_all)
    ultimately show ?thesis by (intro quiet_step[OF inv s' _ _ _ _ _ al]) (use d Recv_taken in \<open>simp_all add: tokens waits_def\<close>)
  next
    case (Recv_wrapped m)
    then have s': "s' = set_phase t (Recv_counting m (q_cnt s)) s" using st by (simp add: recv_step_def)
    show ?thesis by (rule quiet_step[OF inv s' d(1,2,5) _ _ al])
        (use d Recv_wrapped in \<open>simp_all add: s' tokens waits_def in_set_phase out_set_phase\<close>)
  next
    case (Recv_counting m c)
    then have s': "s' = set_phase t (Recv_counted m) (s\<lparr>q_cnt := c - 1\<rparr>)" using st by (simp add: recv_step_def)
    show ?thesis by (rule quiet_step[OF inv s' _ _ _ _ _ al])
        (use d Recv_counting in \<open>simp_all add: s' tokens waits_def in_set_phase out_set_phase\<close>)
  qed (use st p in \<open>simp_all add: recv_step_def\<close>)
qed

text \<open>The wakeup at the end: the token goes to the semaphore, or to the first waiter.\<close>

lemma sem_frame [simp]:
  "tokens_ok (s\<lparr>null_word := x\<rparr>) = tokens_ok s" "in_ok (s\<lparr>null_word := x\<rparr>) = in_ok s" "out_ok (s\<lparr>null_word := x\<rparr>) = out_ok s"
  "buffer_ok (s\<lparr>null_word := x\<rparr>) = buffer_ok s" "in_ok (s\<lparr>send_sem := g\<rparr>) = in_ok s" "out_ok (s\<lparr>send_sem := g\<rparr>) = out_ok s"
  "buffer_ok (s\<lparr>send_sem := g\<rparr>) = buffer_ok s" "in_ok (s\<lparr>receive_sem := g\<rparr>) = in_ok s" "out_ok (s\<lparr>receive_sem := g\<rparr>) = out_ok s"
  "buffer_ok (s\<lparr>receive_sem := g\<rparr>) = buffer_ok s" "num P (s\<lparr>null_word := x\<rparr>) = num P s"
  by (simp_all add: tokens_ok_def in_ok_def out_ok_def buffer_ok_def unread_def num_def)

lemma send_wakeup_inv:
  assumes inv: "fixq_inv s" and p: "phase_of s t = Send_counted" and st: "send_step t s = Some s'" and al: "alone s'"
  shows "fixq_inv s'"
proof -
  note d = fixq_invD[OF inv]
  have fin: "finite {u. phase_of s u \<noteq> Idle}" using d(1) by (simp add: tokens_ok_def)
  show ?thesis
  proof (cases "seg_waiters (receive_sem s)")
    case Nil
    define s0 where "s0 = s\<lparr>receive_sem := (receive_sem s)\<lparr>seg_count := seg_count (receive_sem s) + 1\<rparr>\<rparr>"
    have s': "s' = set_phase t Idle s0" using st p Nil by (simp add: send_step_def segment_wakeup_def wake_def set_phase_def s0_def)
    have "tokens_ok s'"
      using d(1) num_phase[of s0 t Idle] finite_set_phase[OF fin, of t Idle] fin by (simp add: tokens_ok_def s' s0_def tokens p)
    moreover have "sem_waiters_ok s0" using d(2) Nil by (simp add: sem_waiters_ok_def s0_def)
    then have "sem_waiters_ok s'" unfolding s' by (rule waiters_set_phase) (simp_all add: s0_def p waits_def)
    moreover have "in_ok s'" "out_ok s'" "buffer_ok s'"
      using d p by (simp_all add: s' s0_def in_set_phase out_set_phase buffer_set_phase)
    ultimately show ?thesis using al by (simp add: fixq_inv_def)
  next
    case (Cons w ws)
    then have "w \<in> set (seg_waiters (receive_sem s))" by simp
    then have w: "phase_of s w = Recv_wait" "w \<noteq> t" using d(2) p by (auto simp: sem_waiters_ok_def)
    define s0 where "s0 = s\<lparr>receive_sem := (receive_sem s)\<lparr>seg_waiters := ws\<rparr>, null_word := pids s w\<rparr>"
    define s1 where "s1 = set_phase t Idle s0"
    have s': "s' = set_phase w Recv_go s1"
      using st p Cons w by (simp add: send_step_def segment_wakeup_def wake_def set_phase_def s0_def s1_def)
    have f1: "finite {u. phase_of s1 u \<noteq> Idle}" using finite_set_phase[OF fin, of t Idle] by (simp add: s1_def s0_def)
    have n: "num P s0 = num P s" "phase_of s0 = phase_of s" "phase_of s1 w = Recv_wait" "receive_sem s' = (receive_sem s)\<lparr>seg_waiters := ws\<rparr>"
      "send_sem s' = send_sem s" "sent s' = sent s" "received s' = received s" "q_size s' = q_size s" for P
      using w by (simp_all add: s' s1_def s0_def)
    have "finite {u. phase_of s' u \<noteq> Idle}" unfolding s' using finite_set_phase[OF f1, of w Recv_go] by simp
    then have "tokens_ok s'"
      using d(1) num_phase[of s0 t Idle, folded s1_def] num_phase[OF f1, of w Recv_go, folded s'] fin
      unfolding tokens_ok_def n p by (simp add: tokens)
    moreover have "sem_waiters_ok s'"
      using d(2) Cons w p by (auto simp: sem_waiters_ok_def s' s1_def s0_def)
    moreover have "in_ok s'" "out_ok s'" "buffer_ok s'"
      using d p w by (simp_all add: s' s1_def s0_def in_set_phase out_set_phase buffer_set_phase)
    ultimately show ?thesis using al by (simp add: fixq_inv_def)
  qed
qed

lemma recv_wakeup_inv:
  assumes inv: "fixq_inv s" and p: "phase_of s t = Recv_counted m" and st: "recv_step t s = Some s'" and al: "alone s'"
  shows "fixq_inv s'"
proof -
  note d = fixq_invD[OF inv]
  have fin: "finite {u. phase_of s u \<noteq> Idle}" using d(1) by (simp add: tokens_ok_def)
  show ?thesis
  proof (cases "seg_waiters (send_sem s)")
    case Nil
    define s0 where "s0 = s\<lparr>send_sem := (send_sem s)\<lparr>seg_count := seg_count (send_sem s) + 1\<rparr>\<rparr>"
    have s': "s' = set_phase t Idle s0" using st p Nil by (simp add: recv_step_def segment_wakeup_def wake_def set_phase_def s0_def)
    have "tokens_ok s'"
      using d(1) num_phase[of s0 t Idle] finite_set_phase[OF fin, of t Idle] fin by (simp add: tokens_ok_def s' s0_def tokens p)
    moreover have "sem_waiters_ok s0" using d(2) Nil by (simp add: sem_waiters_ok_def s0_def)
    then have "sem_waiters_ok s'" unfolding s' by (rule waiters_set_phase) (simp_all add: s0_def p waits_def)
    moreover have "in_ok s'" "out_ok s'" "buffer_ok s'"
      using d p by (simp_all add: s' s0_def in_set_phase out_set_phase buffer_set_phase)
    ultimately show ?thesis using al by (simp add: fixq_inv_def)
  next
    case (Cons w ws)
    then have "w \<in> set (seg_waiters (send_sem s))" by simp
    then obtain k where w: "phase_of s w = Send_wait k" using d(2) by (auto simp: sem_waiters_ok_def)
    then have wt: "w \<noteq> t" using p by auto
    define s0 where "s0 = s\<lparr>send_sem := (send_sem s)\<lparr>seg_waiters := ws\<rparr>, null_word := pids s w\<rparr>"
    define s1 where "s1 = set_phase t Idle s0"
    have s': "s' = set_phase w (Send_go k) s1"
      using st p Cons w wt by (simp add: recv_step_def segment_wakeup_def wake_def set_phase_def s0_def s1_def)
    have f1: "finite {u. phase_of s1 u \<noteq> Idle}" using finite_set_phase[OF fin, of t Idle] by (simp add: s1_def s0_def)
    have n: "num P s0 = num P s" "phase_of s0 = phase_of s" "phase_of s1 w = Send_wait k" "send_sem s' = (send_sem s)\<lparr>seg_waiters := ws\<rparr>"
      "receive_sem s' = receive_sem s" "sent s' = sent s" "received s' = received s" "q_size s' = q_size s" for P
      using w wt by (simp_all add: s' s1_def s0_def)
    have "finite {u. phase_of s' u \<noteq> Idle}" unfolding s' using finite_set_phase[OF f1, of w "Send_go k"] by simp
    then have "tokens_ok s'"
      using d(1) num_phase[of s0 t Idle, folded s1_def] num_phase[OF f1, of w "Send_go k", folded s'] fin
      unfolding tokens_ok_def n p by (simp add: tokens)
    moreover have "sem_waiters_ok s'"
      using d(2) Cons w wt p by (auto simp: sem_waiters_ok_def s' s1_def s0_def)
    moreover have "in_ok s'" "out_ok s'" "buffer_ok s'"
      using d p w wt by (simp_all add: s' s1_def s0_def in_set_phase out_set_phase buffer_set_phase)
    ultimately show ?thesis using al by (simp add: fixq_inv_def)
  qed
qed

lemma enter_inv:
  assumes inv: "fixq_inv s" and p: "phase_of s t = Idle"
  shows "alone (send_enter t msg tmo s) \<Longrightarrow> fixq_inv (send_enter t msg tmo s)" "alone (recv_enter t tmo s) \<Longrightarrow> fixq_inv (recv_enter t tmo s)"
proof -
  note d = fixq_invD[OF inv]
  have fin: "finite {u. phase_of s u \<noteq> Idle}" using d(1) by (simp add: tokens_ok_def)
  { fix g q assume q: "q \<in> {Send_go msg, Send_wait msg}"
    let ?s0 = "s\<lparr>send_sem := g\<rparr>"
    have "tokens_ok (set_phase t q ?s0)" if "seg_count g + of_bool (holds_slot q) = seg_count (send_sem s)"
      using d(1) num_phase[of ?s0 t q] finite_set_phase[OF fin, of t q] fin that q by (auto simp: tokens_ok_def tokens p)
    moreover have "in_ok (set_phase t q ?s0)" "out_ok (set_phase t q ?s0)" "buffer_ok (set_phase t q ?s0)"
      using d p q by (auto intro!: in_set_phase out_set_phase buffer_set_phase)
    ultimately have "fixq_inv (set_phase t q ?s0)" if "seg_count g + of_bool (holds_slot q) = seg_count (send_sem s)" "sem_waiters_ok (set_phase t q ?s0)"
      "alone (set_phase t q ?s0)" using that by (simp add: fixq_inv_def) }
  note mk = this
  have "sem_waiters_ok (set_phase t (Send_go msg) (s\<lparr>send_sem := (send_sem s)\<lparr>seg_count := seg_count (send_sem s) - 1\<rparr>\<rparr>))"
    using d(2) p by (auto simp: sem_waiters_ok_def)
  moreover have "sem_waiters_ok (set_phase t (Send_wait msg) (s\<lparr>send_sem := (send_sem s)\<lparr>seg_waiters := seg_waiters (send_sem s) @ [t]\<rparr>\<rparr>))"
    if "seg_count (send_sem s) = 0" using d(2) p that by (auto simp: sem_waiters_ok_def)
  ultimately show "fixq_inv (send_enter t msg tmo s)" if "alone (send_enter t msg tmo s)"
    using that mk[of "Send_go msg" "(send_sem s)\<lparr>seg_count := seg_count (send_sem s) - 1\<rparr>"]
      mk[of "Send_wait msg" "(send_sem s)\<lparr>seg_waiters := seg_waiters (send_sem s) @ [t]\<rparr>"] inv
    by (auto simp: send_enter_def segment_wait_def tokens split: if_splits)
  { fix g q assume q: "q \<in> {Recv_go, Recv_wait}"
    let ?s0 = "s\<lparr>receive_sem := g\<rparr>"
    have "tokens_ok (set_phase t q ?s0)" if "seg_count g + of_bool (holds_msg q) = seg_count (receive_sem s)"
      using d(1) num_phase[of ?s0 t q] finite_set_phase[OF fin, of t q] fin that q by (auto simp: tokens_ok_def tokens p)
    moreover have "in_ok (set_phase t q ?s0)" "out_ok (set_phase t q ?s0)" "buffer_ok (set_phase t q ?s0)"
      using d p q by (auto intro!: in_set_phase out_set_phase buffer_set_phase)
    ultimately have "fixq_inv (set_phase t q ?s0)" if "seg_count g + of_bool (holds_msg q) = seg_count (receive_sem s)" "sem_waiters_ok (set_phase t q ?s0)"
      "alone (set_phase t q ?s0)" using that by (simp add: fixq_inv_def) }
  note mk = this
  have "sem_waiters_ok (set_phase t Recv_go (s\<lparr>receive_sem := (receive_sem s)\<lparr>seg_count := seg_count (receive_sem s) - 1\<rparr>\<rparr>))"
    using d(2) p by (auto simp: sem_waiters_ok_def)
  moreover have "sem_waiters_ok (set_phase t Recv_wait (s\<lparr>receive_sem := (receive_sem s)\<lparr>seg_waiters := seg_waiters (receive_sem s) @ [t]\<rparr>\<rparr>))"
    if "seg_count (receive_sem s) = 0" using d(2) p that by (auto simp: sem_waiters_ok_def)
  ultimately show "fixq_inv (recv_enter t tmo s)" if "alone (recv_enter t tmo s)"
    using that mk[of Recv_go "(receive_sem s)\<lparr>seg_count := seg_count (receive_sem s) - 1\<rparr>"]
      mk[of Recv_wait "(receive_sem s)\<lparr>seg_waiters := seg_waiters (receive_sem s) @ [t]\<rparr>"] inv
    by (auto simp: recv_enter_def segment_wait_def tokens split: if_splits)
qed

lemma fixq_act_inv:
  assumes "fixq_inv s" "fixq_act a s = Some s'" "alone s'"
  shows "fixq_inv s'"
proof (cases a)
  case (Run t)
  show ?thesis
  proof (cases "send_step t s")
    case None
    then have st: "recv_step t s = Some s'" using assms(2) Run by simp
    consider m where "phase_of s t = Recv_counted m" | i where "phase_of s t = Recv_moved i"
      | "\<And>m. phase_of s t \<noteq> Recv_counted m" "\<And>i. phase_of s t \<noteq> Recv_moved i" by blast
    then show ?thesis
    proof cases
      case 2
      then have "nth_opt (q_buf s) i = Some (q_buf s ! i)" using st by (auto simp: recv_step_def nth_opt_def split: bind_splits if_splits)
      then have "s' = set_phase t (Recv_taken (q_buf s ! i)) (s\<lparr>received := received s @ [q_buf s ! i]\<rparr>)" using st 2 by (simp add: recv_step_def)
      then show ?thesis using recv_taken_inv(1)[OF assms(1) 2 assms(3)] by blast
    qed (use recv_wakeup_inv recv_step_quiet assms st in blast)+
  next
    case (Some s1)
    then have st: "send_step t s = Some s'" using assms(2) Run by simp
    consider "phase_of s t = Send_counted" | m i where "phase_of s t = Send_moved m i"
      | "phase_of s t \<noteq> Send_counted" "\<And>m i. phase_of s t \<noteq> Send_moved m i" by blast
    then show ?thesis
    proof cases
      case 2
      then have "s' = set_phase t Send_stored (s\<lparr>q_buf := (q_buf s)[i := m], sent := sent s @ [m]\<rparr>)"
        using st by (auto simp: send_step_def upd_opt_def split: bind_splits if_splits)
      then show ?thesis using send_stored_inv(1)[OF assms(1) 2 assms(3)] by blast
    qed (use send_wakeup_inv send_step_quiet assms st in blast)+
  qed
qed (use assms enter_inv in \<open>auto split: if_splits\<close>)

lemma fixq_calm_inv: "fixq_calm ids buf s \<Longrightarrow> buf \<noteq> [] \<Longrightarrow> fixq_inv s"
  by (induction rule: fixq_calm.induct) (blast intro: fixq_inv_start fixq_act_inv)+

section \<open>Runs\<close>

fun fixq_exec :: "action list \<Rightarrow> fixq_sys \<Rightarrow> fixq_sys option" where
  "fixq_exec [] s = Some s"
| "fixq_exec (a # as) s = do { s' \<leftarrow> fixq_act a s; fixq_exec as s' }"

lemma exec_reach: "fixq_reach ids buf s \<Longrightarrow> fixq_exec as s = Some s' \<Longrightarrow> fixq_reach ids buf s'"
  by (induction as arbitrary: s) (auto split: bind_splits intro: reach_step)

primrec actor :: "action \<Rightarrow> tid" where
  "actor (Send t m tmo) = t" | "actor (Recv t tmo) = t" | "actor (Run t) = t"

text \<open>The same with the threads \<open>ts\<close> only, as long as no two are in the middle of an update.\<close>

definition alone_of :: "tid list \<Rightarrow> fixq_sys \<Rightarrow> bool" where
  "alone_of ts s \<longleftrightarrow> length (filter (\<lambda>t. at_in (phase_of s t)) ts) \<le> 1 \<and> length (filter (\<lambda>t. at_out (phase_of s t)) ts) \<le> 1"

fun calm_exec :: "tid list \<Rightarrow> action list \<Rightarrow> fixq_sys \<Rightarrow> fixq_sys option" where
  "calm_exec ts [] s = Some s"
| "calm_exec ts (a # as) s = do { s' \<leftarrow> fixq_act a s; if actor a \<in> set ts \<and> alone_of ts s' then calm_exec ts as s' else None }"

lemma one_of: "length (filter P ts) \<le> 1 \<Longrightarrow> t \<in> set ts \<Longrightarrow> u \<in> set ts \<Longrightarrow> P t \<Longrightarrow> P u \<Longrightarrow> t = u"
  by (induction ts) (auto simp: filter_empty_conv split: if_splits)

lemma act_idle:
  assumes "fixq_act a s = Some s'" "u \<noteq> actor a" "phase_of s u = Idle"
  shows "phase_of s' u = Idle"
  using assms by (cases a) (auto simp: send_enter_def recv_enter_def send_step_def recv_step_def wake_def Let_def set_phase_def
      split: if_splits prod.splits phase.splits option.splits bind_splits)

lemma calm_exec_calm:
  assumes "fixq_calm ids buf s" "calm_exec ts as s = Some s'" "\<And>u. u \<notin> set ts \<Longrightarrow> phase_of s u = Idle"
  shows "fixq_calm ids buf s'"
  using assms
proof (induction as arbitrary: s)
  case (Cons a as)
  then obtain s1 where s1: "fixq_act a s = Some s1" "actor a \<in> set ts" "alone_of ts s1" "calm_exec ts as s1 = Some s'"
    by (auto split: bind_splits if_splits)
  have idle: "phase_of s1 u = Idle" if "u \<notin> set ts" for u using act_idle[OF s1(1) _ Cons.prems(3)[OF that]] that s1(2) by blast
  have "t \<in> set ts" if "at_in (phase_of s1 t) \<or> at_out (phase_of s1 t)" for t using that idle[of t] by (cases "t \<in> set ts") auto
  then have "alone s1" using s1(3) unfolding alone_def alone_of_def by (blast dest: one_of)
  then show ?case using Cons.IH[OF _ s1(4) idle] calm_step[OF Cons.prems(1) s1(1)] by blast
qed simp

lemma calm_exec_start: "calm_exec ts as (fixq_start ids buf) = Some s \<Longrightarrow> fixq_calm ids buf s"
  by (rule calm_exec_calm[OF calm_start]) (simp_all add: fixq_start_def)

text \<open>Uninterrupted, a thread past its wait does what \<open>fixq_store\<close> and \<open>fixq_fetch\<close> do in one step.\<close>

definition as_fixq :: "fixq_sys \<Rightarrow> fixq_t" where
  "as_fixq s = \<lparr>fq_size = q_size s, fq_buf = q_buf s, fq_in = q_in s, fq_out = q_out s, fq_cnt = nat (q_cnt s)\<rparr>"

lemma send_uninterrupted:
  assumes "phase_of s t = Send_go m" "q_in s < length (q_buf s)" "0 \<le> q_cnt s"
  shows "\<exists>s'. fixq_exec (replicate 6 (Run t)) s = Some s' \<and> fixq_store m (as_fixq s) = Some (as_fixq s') \<and>
    phase_of s' = (phase_of s)(t := Send_counted) \<and> sent s' = sent s @ [m]"
  using assms by (simp add: eval_nat_numeral send_step_def set_phase_def as_fixq_def fixq_store_def nat_add_distrib)

lemma recv_uninterrupted:
  assumes "phase_of s t = Recv_go" "q_out s < length (q_buf s)" "0 < q_cnt s"
  shows "\<exists>s' m. fixq_exec (replicate 6 (Run t)) s = Some s' \<and> fixq_fetch (as_fixq s) = Some (m, as_fixq s') \<and>
    phase_of s' = (phase_of s)(t := Recv_counted m) \<and> received s' = received s @ [m]"
  using assms by (simp add: eval_nat_numeral send_step_def recv_step_def set_phase_def as_fixq_def fixq_fetch_def nat_diff_distrib)

lemmas fixq_eval = fixq_start_def init_segment_def send_enter_def recv_enter_def segment_wait_def segment_wakeup_def send_step_def recv_step_def
  set_phase_def wake_def alone_of_def

text \<open>
  Two senders, one interrupted between reading and writing \<open>in\<close>: both store their message in the first slot and the message of the
  first is lost.  And a sender interrupted between reading and writing \<open>cnt\<close>: the count of the receiver is lost.
\<close>

lemma senders_race: "\<exists>s. fixq_reach ids [0, 0] s \<and> sent s = [10, 20] \<and> q_buf s = [20, 0] \<and> received s = []"
proof -
  let ?as = "[Send 1 10 0, Send 2 20 0, Run 1, Run 2, Run 1, Run 1, Run 2, Run 2]"
  have "\<exists>s. fixq_exec ?as (fixq_start ids [0, 0]) = Some s \<and> sent s = [10, 20] \<and> q_buf s = [20, 0] \<and> received s = []"
    by (simp add: fixq_eval)
  then show ?thesis using exec_reach[OF reach_start] by blast
qed

lemma count_race: "\<exists>s. fixq_calm ids [0, 0] s \<and> (\<forall>t. phase_of s t = Idle) \<and> sent s = [10, 20] \<and> received s = [10] \<and> q_cnt s = 2"
proof -
  let ?as = "Send 1 10 0 # replicate 7 (Run 1) @ [Send 1 20 0, Recv 2 0] @ replicate 5 (Run 1) @ replicate 7 (Run 2) @ replicate 2 (Run 1)"
  have "\<exists>s. calm_exec [1, 2] ?as (fixq_start ids [0, 0]) = Some s \<and> (\<forall>t. phase_of s t = Idle) \<and> sent s = [10, 20] \<and> received s = [10] \<and> q_cnt s = 2"
    by (simp add: fixq_eval eval_nat_numeral)
  then show ?thesis using calm_exec_start by blast
qed

section \<open>Properties\<close>

text \<open>
  C22: any number of threads send to and receive from a message queue (\<open>fixq.c\<close>), interleaved at every access to its fields, in a run in which no
  two senders are between reading \<open>in\<close> and wrapping it around at the same time, and no two receivers with \<open>out\<close> (the code does not
  enforce this, and two senders there lose a message).  In every state of such a run the messages read so far, followed by those in the
  ring of the buffer from there on, are exactly the messages stored, in order: none is lost, duplicated, reordered or
  overwritten before it is read.  (The field \<open>cnt\<close> may be wrong.)
\<close>

theorem fixq_fifo:
  assumes "fixq_calm ids buf s" "buf \<noteq> []"
  shows "\<exists>ms. sent s = received s @ ms \<and> ms = ring (q_buf s) (length (received s)) (length ms) \<and> length ms \<le> length (q_buf s)"
proof -
  have inv: "fixq_inv s" by (rule fixq_calm_inv[OF assms])
  have "length (sent s) \<le> q_size s + length (received s)" "length (received s) \<le> length (sent s)"
    using inv by (auto simp: fixq_inv_def tokens_ok_def)
  then have l: "length (unread s) = length (sent s) - length (received s)" "length (unread s) \<le> q_size s" by (simp_all add: unread_def)
  have "unread s = ring (q_buf s) (length (received s)) (length (unread s))" unfolding l(1) by (rule unread_def)
  moreover have "sent s = received s @ unread s" "length (q_buf s) = q_size s" using inv by (simp_all add: fixq_inv_def buffer_ok_def)
  ultimately show ?thesis using l(2) by metis
qed

text \<open>Thread 1 has sent two messages and thread 2 has read the first, while thread 3 is storing another.\<close>

definition demo_run :: "action list" where
  "demo_run = Send 1 10 0 # replicate 7 (Run 1) @ [Send 1 20 0, Recv 2 0] @ replicate 3 (Run 1) @ replicate 4 (Run 2) @ replicate 4 (Run 1) @
     Send 3 30 0 # Run 2 # Run 3 # Run 2 # [Run 3]"

lemma demo_runs:
  "\<exists>s. fixq_calm ids [0, 0, 0] s \<and> sent s = [10, 20] \<and> received s = [10] \<and> q_buf s = [10, 20, 0] \<and> phase_of s 3 = Send_moved 30 2"
proof -
  have "\<exists>s. calm_exec [1, 2, 3] demo_run (fixq_start ids [0, 0, 0]) = Some s \<and> sent s = [10, 20] \<and> received s = [10] \<and> q_buf s = [10, 20, 0] \<and>
    phase_of s 3 = Send_moved 30 2"
    by (simp add: demo_run_def fixq_eval eval_nat_numeral)
  then show ?thesis using calm_exec_start by blast
qed

theorem fixq_fifo_witness:
  "\<exists>s. fixq_calm (\<lambda>t. t) [0, 0, 0] s \<and> received s = [10] \<and>
     (\<exists>ms. [10, 20] = received s @ ms \<and> ms = ring (q_buf s) (length (received s)) (length ms))"
proof -
  obtain s where s: "fixq_calm (\<lambda>t. t) [0, 0, 0] s" "sent s = [10, 20]" "received s = [10]" using demo_runs[of "\<lambda>t. t"] by blast
  then show ?thesis using fixq_fifo[OF s(1)] by auto
qed



end
