(* ===== verification/Net_List.thy ===== *)
theory Net_List
  imports Node_Heap
begin

text \<open>
  The doubly linked list of the network stack (\<open>kernel/net/nlist.c\<close>, \<open>nlist.h\<close>): no sentinels,
  the first node has \<open>pre\<close> NULL and the last one \<open>next\<close> NULL.  Packet buffers, memory blocks,
  fragments, ARP entries, routes and sockets are kept in such lists.
\<close>

section \<open>Model of \<open>nlist.c\<close> and \<open>nlist.h\<close>\<close>

record nlist_t =
  nl_first :: addr
  nl_last :: addr
  nl_count :: int

definition nlist_init :: "nlist_t \<Rightarrow> nlist_t" where
  "nlist_init l = l\<lparr>nl_first := 0, nl_last := 0, nl_count := 0\<rparr>"

definition nlist_node_init :: "addr \<Rightarrow> heap \<Rightarrow> heap option" where
  "nlist_node_init node h = do { h1 \<leftarrow> set_next node 0 h; set_pre node 0 h1 }"

definition nlist_node_next :: "addr \<Rightarrow> heap \<Rightarrow> addr option" where
  "nlist_node_next node h = h_next h node"

definition nlist_node_pre :: "addr \<Rightarrow> heap \<Rightarrow> addr option" where
  "nlist_node_pre node h = h_pre h node"

definition nlist_node_set_next :: "addr \<Rightarrow> addr \<Rightarrow> heap \<Rightarrow> heap option" where
  "nlist_node_set_next pr nx h = set_next pr nx h"

definition nlist_is_empty :: "nlist_t \<Rightarrow> bool" where
  "nlist_is_empty l \<longleftrightarrow> nl_count l = 0"

definition nlist_insert_first :: "nlist_t \<Rightarrow> addr \<Rightarrow> heap \<Rightarrow> (nlist_t \<times> heap) option" where
  "nlist_insert_first l node h = do {
     h1 \<leftarrow> set_next node (nl_first l) h;
     h2 \<leftarrow> set_pre node 0 h1;
     if nlist_is_empty l then Some (l\<lparr>nl_first := node, nl_last := node, nl_count := nl_count l + 1\<rparr>, h2)
     else do {
       h3 \<leftarrow> set_pre (nl_first l) node h2;
       Some (l\<lparr>nl_first := node, nl_count := nl_count l + 1\<rparr>, h3)
     }
   }"

definition nlist_remove :: "nlist_t \<Rightarrow> addr \<Rightarrow> heap \<Rightarrow> (addr \<times> nlist_t \<times> heap) option" where
  "nlist_remove l node h = do {
     nx \<leftarrow> h_next h node;
     pr \<leftarrow> h_pre h node;
     let l1 = (if node = nl_first l then l\<lparr>nl_first := nx\<rparr> else l);
     let l2 = (if node = nl_last l1 then l1\<lparr>nl_last := pr\<rparr> else l1);
     h1 \<leftarrow> (if pr \<noteq> 0 then set_next pr nx h else Some h);
     nx' \<leftarrow> h_next h1 node;
     h2 \<leftarrow> (if nx' \<noteq> 0 then set_pre nx' pr h1 else Some h1);
     h3 \<leftarrow> set_next node 0 h2;
     h4 \<leftarrow> set_pre node 0 h3;
     Some (node, l2\<lparr>nl_count := nl_count l2 - 1\<rparr>, h4)
   }"

definition nlist_insert_last :: "nlist_t \<Rightarrow> addr \<Rightarrow> heap \<Rightarrow> (nlist_t \<times> heap) option" where
  "nlist_insert_last l node h = do {
     h1 \<leftarrow> set_pre node (nl_last l) h;
     h2 \<leftarrow> set_next node 0 h1;
     if nlist_is_empty l then Some (l\<lparr>nl_first := node, nl_last := node, nl_count := nl_count l + 1\<rparr>, h2)
     else do {
       h3 \<leftarrow> set_next (nl_last l) node h2;
       Some (l\<lparr>nl_last := node, nl_count := nl_count l + 1\<rparr>, h3)
     }
   }"

definition nlist_insert_after :: "nlist_t \<Rightarrow> addr \<Rightarrow> addr \<Rightarrow> heap \<Rightarrow> (nlist_t \<times> heap) option" where
  "nlist_insert_after l pr node h =
     (if nlist_is_empty l then nlist_insert_first l node h
      else do {
        nx \<leftarrow> h_next h pr;
        h1 \<leftarrow> set_next node nx h;
        h2 \<leftarrow> set_pre node pr h1;
        nx' \<leftarrow> h_next h2 pr;
        h3 \<leftarrow> (if nx' \<noteq> 0 then set_pre nx' node h2 else Some h2);
        h4 \<leftarrow> set_next pr node h3;
        let l' = (if nl_last l = pr then l\<lparr>nl_last := node\<rparr> else l);
        Some (l'\<lparr>nl_count := nl_count l' + 1\<rparr>, h4)
      })"

definition nlist_remove_first :: "nlist_t \<Rightarrow> heap \<Rightarrow> (addr \<times> nlist_t \<times> heap) option" where
  "nlist_remove_first l h =
     (if nl_first l \<noteq> 0 then nlist_remove l (nl_first l) h else Some (nl_first l, l, h))"

definition nlist_remove_last :: "nlist_t \<Rightarrow> heap \<Rightarrow> (addr \<times> nlist_t \<times> heap) option" where
  "nlist_remove_last l h =
     (if nl_last l \<noteq> 0 then nlist_remove l (nl_last l) h else Some (nl_last l, l, h))"

section \<open>Representation\<close>

definition hd0 :: "addr list \<Rightarrow> addr" where "hd0 xs = (case xs of [] \<Rightarrow> 0 | x # _ \<Rightarrow> x)"

definition last0 :: "addr list \<Rightarrow> addr" where "last0 xs = (if xs = [] then 0 else List.last xs)"

definition nlist_rep :: "nlist_t \<Rightarrow> heap \<Rightarrow> addr list \<Rightarrow> bool" where
  "nlist_rep l h xs \<longleftrightarrow> distinct xs \<and> 0 \<notin> set xs \<and> chain h xs \<and> nl_count l = int (length xs) \<and>
     nl_first l = hd0 xs \<and> nl_last l = last0 xs \<and>
     (xs \<noteq> [] \<longrightarrow> h_pre h (hd0 xs) = Some 0 \<and> h_next h (last0 xs) = Some 0)"

lemma hd0_simps [simp]: "hd0 [] = 0" "hd0 (x # xs) = x" "hd0 (xs @ y # z # ys) = hd0 (xs @ [y])"
  "last0 [] = 0" "last0 (xs @ [x]) = x" "last0 [x] = x" "last0 (xs @ x # y # ys) = last0 (y # ys)"
  "last0 (x # y # ys) = last0 (y # ys)" "last0 (xs @ [x, y]) = y"
  by (cases xs; simp add: hd0_def last0_def)+

lemma insert_first_rep:
  assumes rep: "nlist_rep l h xs" and n: "node_ok h n" "n \<noteq> 0" "n \<notin> set xs"
  shows "\<exists>l' h'. nlist_insert_first l n h = Some (l', h') \<and> nlist_rep l' h' (n # xs) \<and>
    agree (- (insert n (set xs))) h h'"
proof -
  obtain v w where nv: "h_pre h n = Some v" "h_next h n = Some w" using n(1) by (auto simp: node_ok_def)
  show ?thesis
  proof (cases xs)
    case Nil
    then show ?thesis using rep n nv
      by (auto simp: nlist_insert_first_def nlist_is_empty_def nlist_rep_def set_next_Some set_pre_Some agree_def)
  next
    case (Cons x ys)
    let ?h = "h\<lparr>h_next := (h_next h)(n \<mapsto> x), h_pre := (h_pre h)(n \<mapsto> 0, x \<mapsto> n)\<rparr>"
    have nx: "n \<noteq> x" "x \<notin> set ys" using n(3) rep Cons by (auto simp: nlist_rep_def)
    have "nlist_insert_first l n h = Some (l\<lparr>nl_first := n, nl_count := nl_count l + 1\<rparr>, ?h)"
      using rep nv nx Cons
      by (simp add: nlist_insert_first_def nlist_is_empty_def nlist_rep_def set_next_Some set_pre_Some)
    moreover have "chain ?h (x # ys) = chain h (x # ys)"
      using nx n(3) Cons by (intro chain_cong) (auto dest!: in_set_butlastD split: if_splits)
    ultimately show ?thesis using rep n nx Cons
      by (auto simp: nlist_rep_def agree_def last0_def split: if_splits)
  qed
qed


lemma insert_last_rep:
  assumes rep: "nlist_rep l h xs" and n: "node_ok h n" "n \<noteq> 0" "n \<notin> set xs"
  shows "\<exists>l' h'. nlist_insert_last l n h = Some (l', h') \<and> nlist_rep l' h' (xs @ [n]) \<and>
    agree (- (insert n (set xs))) h h'"
proof -
  obtain v w where nv: "h_pre h n = Some v" "h_next h n = Some w" using n(1) by (auto simp: node_ok_def)
  show ?thesis
  proof (cases xs rule: rev_cases)
    case Nil
    then show ?thesis using rep n nv
      by (auto simp: nlist_insert_last_def nlist_is_empty_def nlist_rep_def heap_writes agree_def)
  next
    case (snoc ys x)
    let ?h = "h\<lparr>h_pre := (h_pre h)(n \<mapsto> x), h_next := (h_next h)(n \<mapsto> 0, x \<mapsto> n)\<rparr>"
    have nx: "n \<noteq> x" "x \<notin> set ys" using n(3) rep snoc by (auto simp: nlist_rep_def)
    have "nlist_insert_last l n h = Some (l\<lparr>nl_last := n, nl_count := nl_count l + 1\<rparr>, ?h)"
      using rep nv nx snoc
      by (simp add: nlist_insert_last_def nlist_is_empty_def nlist_rep_def heap_writes)
    moreover have "chain ?h (ys @ [x]) = chain h (ys @ [x])"
      using nx n(3) snoc by (intro chain_cong) (auto dest!: set_tl_snoc)
    moreover have "hd0 (ys @ [x]) \<noteq> n" using n(2,3) snoc by (cases ys) auto
    ultimately show ?thesis using rep n nx snoc
      by (auto simp: nlist_rep_def agree_def)
  qed
qed

lemma remove_node_rep:
  assumes rep: "nlist_rep l h (us @ p # vs)"
  shows "\<exists>l' h'. nlist_remove l p h = Some (p, l', h') \<and> nlist_rep l' h' (us @ vs) \<and> node_ok h' p \<and>
    agree (- (insert p (set (us @ vs)))) h h'"
proof -
  have d: "distinct (us @ p # vs)" "0 \<notin> set (us @ p # vs)" "chain h (us @ p # vs)" "nl_count l = int (length (us @ p # vs))"
    "nl_first l = hd0 (us @ p # vs)" "nl_last l = last0 (us @ p # vs)"
    "h_pre h (hd0 (us @ p # vs)) = Some 0" "h_next h (last0 (us @ p # vs)) = Some 0"
    using rep by (auto simp: nlist_rep_def)
  show ?thesis
  proof (cases us rule: rev_cases; cases vs)
    assume us: "us = []" and vs: "vs = []"
    then show ?thesis using d by (simp add: nlist_remove_def heap_writes nlist_rep_def node_ok_def agree_def)
  next
    fix b bs
    assume us: "us = []" and vs: "vs = b # bs"
    let ?h = "h\<lparr>h_pre := (h_pre h)(b \<mapsto> 0, p \<mapsto> 0), h_next := (h_next h)(p \<mapsto> 0)\<rparr>"
    have "last0 (b # bs) \<noteq> p" using d(1) us vs by (auto simp: last0_def split: if_splits)
    moreover from this have "nlist_remove l p h = Some (p, l\<lparr>nl_first := b, nl_count := nl_count l - 1\<rparr>, ?h)"
      using d us vs by (simp add: nlist_remove_def heap_writes)
    moreover have "chain ?h (b # bs) = chain h (b # bs)"
      using d(1) us vs by (intro chain_cong) (auto dest!: in_set_butlastD split: if_splits)
    ultimately show ?thesis using d us vs by (auto simp: nlist_rep_def node_ok_def agree_def)
  next
    fix as a
    assume us: "us = as @ [a]" and vs: "vs = []"
    let ?h = "h\<lparr>h_pre := (h_pre h)(p \<mapsto> 0), h_next := (h_next h)(a \<mapsto> 0, p \<mapsto> 0)\<rparr>"
    have hd: "hd0 (as @ [a]) \<noteq> p" using d(1) us vs by (cases as) auto
    moreover from this have "nlist_remove l p h = Some (p, l\<lparr>nl_last := a, nl_count := nl_count l - 1\<rparr>, ?h)"
      using d us vs by (simp add: nlist_remove_def heap_writes)
    moreover have "chain ?h (as @ [a]) = chain h (as @ [a])"
      using d(1) us vs by (intro chain_cong) (auto dest!: set_tl_snoc)
    ultimately show ?thesis using d us vs by (auto simp: nlist_rep_def node_ok_def agree_def)
  next
    fix as a b bs
    assume us: "us = as @ [a]" and vs: "vs = b # bs"
    let ?g = "bypass a b h"
    let ?h = "?g\<lparr>h_pre := (h_pre ?g)(p \<mapsto> 0), h_next := (h_next ?g)(p \<mapsto> 0)\<rparr>"
    have ends: "hd0 (as @ [a]) \<noteq> p" "last0 (b # bs) \<noteq> p" "hd0 (as @ [a]) \<noteq> b" "last0 (b # bs) \<noteq> a"
      using d(1) us vs by (cases as; auto simp: last0_def split: if_splits)+
    have "nlist_remove l p h = Some (p, l\<lparr>nl_count := nl_count l - 1\<rparr>, ?h)"
      using d us vs ends by (simp add: nlist_remove_def heap_writes bypass_def)
    moreover have "chain ?g (as @ a # b # bs)" using chain_bypass[of h as a p b bs] d us vs by simp
    then have "chain ?h (as @ a # b # bs)" using d(1) us vs by (intro chain_isolate) auto
    ultimately show ?thesis using d us vs ends
      by (auto simp: nlist_rep_def node_ok_def agree_def bypass_def)
  qed
qed

lemma insert_after_rep:
  assumes rep: "nlist_rep l h (us @ p # vs)" and n: "node_ok h n" "n \<noteq> 0" "n \<notin> set (us @ p # vs)"
  shows "\<exists>l' h'. nlist_insert_after l p n h = Some (l', h') \<and> nlist_rep l' h' (us @ p # n # vs)"
proof -
  have d: "distinct (us @ p # vs)" "0 \<notin> set (us @ p # vs)" "chain h (us @ p # vs)" "nl_count l = int (length (us @ p # vs))"
    "nl_first l = hd0 (us @ p # vs)" "nl_last l = last0 (us @ p # vs)"
    "h_pre h (hd0 (us @ p # vs)) = Some 0" "h_next h (last0 (us @ p # vs)) = Some 0"
    using rep by (auto simp: nlist_rep_def)
  obtain v w where nv: "h_pre h n = Some v" "h_next h n = Some w" using n(1) by (auto simp: node_ok_def)
  have hd: "hd0 (us @ [p]) \<noteq> n" using n(3) by (cases us) auto
  show ?thesis
  proof (cases vs)
    case Nil
    let ?h = "h\<lparr>h_next := (h_next h)(n \<mapsto> 0, p \<mapsto> n), h_pre := (h_pre h)(n \<mapsto> p)\<rparr>"
    have "nlist_insert_after l p n h = Some (l\<lparr>nl_last := n, nl_count := nl_count l + 1\<rparr>, ?h)"
      using d nv n Nil by (simp add: nlist_insert_after_def nlist_is_empty_def heap_writes)
    moreover have "chain ?h (us @ [p]) = chain h (us @ [p])"
      using d(1) n(3) Nil by (intro chain_cong) (auto dest!: set_tl_snoc)
    ultimately show ?thesis using d n Nil hd by (auto simp: nlist_rep_def)
  next
    case (Cons b bs)
    have ends: "hd0 (us @ [p]) \<noteq> b" "last0 (b # bs) \<noteq> p" "last0 (b # bs) \<noteq> n"
      using d(1) n(3) Cons by (cases us; auto simp: last0_def split: if_splits)+
    have "nlist_insert_after l p n h = Some (l\<lparr>nl_count := nl_count l + 1\<rparr>, link_between p n b h)"
      using d nv n Cons ends
      by (simp add: nlist_insert_after_def nlist_is_empty_def heap_writes link_between_def)
    moreover have "chain (link_between p n b h) (us @ p # n # b # bs)"
      using d n(3) Cons by (intro chain_link) auto
    ultimately show ?thesis using d n Cons ends hd
      by (auto simp: nlist_rep_def link_between_def)
  qed
qed


lemma remove_first_rep:
  assumes "nlist_rep l h (x # xs)"
  shows "\<exists>l' h'. nlist_remove_first l h = Some (x, l', h') \<and> nlist_rep l' h' xs \<and> node_ok h' x \<and>
    agree (- (insert x (set xs))) h h'"
proof -
  have "nl_first l = x" "x \<noteq> 0" using assms by (auto simp: nlist_rep_def)
  with remove_node_rep[of l h "[]" x xs] assms show ?thesis by (simp add: nlist_remove_first_def)
qed

lemma remove_last_rep:
  assumes "nlist_rep l h (xs @ [x])"
  shows "\<exists>l' h'. nlist_remove_last l h = Some (x, l', h') \<and> nlist_rep l' h' xs \<and> node_ok h' x \<and>
    agree (- (insert x (set xs))) h h'"
proof -
  have "nl_last l = x" "x \<noteq> 0" using assms by (auto simp: nlist_rep_def)
  with remove_node_rep[of l h xs x "[]"] assms show ?thesis by (simp add: nlist_remove_last_def)
qed

lemma remove_empty:
  "nlist_rep l h [] \<Longrightarrow> nlist_remove_first l h = Some (0, l, h)"
  "nlist_rep l h [] \<Longrightarrow> nlist_remove_last l h = Some (0, l, h)"
  by (simp_all add: nlist_rep_def nlist_remove_first_def nlist_remove_last_def)

lemma nlist_rep_agree:
  assumes "nlist_rep l h xs" "agree (set xs) h h'" shows "nlist_rep l h' xs"
proof -
  have "hd0 xs \<in> set xs" "last0 xs \<in> set xs" if "xs \<noteq> []"
    using that by (simp_all add: hd0_def last0_def split: list.splits)
  with assms chain_agree[OF assms(2)] show ?thesis by (auto simp: nlist_rep_def agree_def)
qed

interpretation nlist: deque nlist_rep "\<lambda>_. {}" nlist_insert_first nlist_insert_last nlist_remove_first nlist_remove_last
proof (unfold_locales, goal_cases)
  case (1 l h xs)
  then show ?case by (simp add: nlist_rep_def)
next
  case (2 l h xs h')
  then show ?case by (auto intro: nlist_rep_agree)
next
  case (3 l h xs n)
  then show ?case using insert_first_rep by simp
next
  case (4 l h xs n)
  then show ?case using insert_last_rep by simp
next
  case (7 l h x xs)
  then show ?case using remove_first_rep by simp
next
  case (8 l h xs x)
  then show ?case using remove_last_rep by simp
qed (simp_all add: remove_empty)

section \<open>Properties\<close>

definition demo_nheap :: heap where
  "demo_nheap = \<lparr>h_pre = [3 \<mapsto> 0, 4 \<mapsto> 3, 5 \<mapsto> 0], h_next = [3 \<mapsto> 4, 4 \<mapsto> 0, 5 \<mapsto> 0]\<rparr>"

definition demo_nlist :: nlist_t where
  "demo_nlist = \<lparr>nl_first = 3, nl_last = 4, nl_count = 2\<rparr>"

lemma demo_nlist_rep: "nlist_rep demo_nlist demo_nheap ([3] @ 4 # [])"
  by (simp add: nlist_rep_def demo_nlist_def demo_nheap_def)

text \<open>
  \<open>nlist_remove\<close> (\<open>nlist.c\<close>) of any node of the list, at either end or in the middle, takes
  out exactly that node, keeps the others in order and the ends and the count right, clears
  the node's links, and touches no other memory.
\<close>

theorem nlist_remove_unlinks:
  assumes "nlist_rep l h (us @ p # vs)"
  shows "\<exists>l' h'. nlist_remove l p h = Some (p, l', h') \<and> nlist_rep l' h' (us @ vs) \<and> node_ok h' p \<and>
    agree (- (insert p (set (us @ vs)))) h h'"
  using assms by (rule remove_node_rep)

theorem nlist_remove_unlinks_witness:
  "\<exists>l' h'. nlist_remove demo_nlist 4 demo_nheap = Some (4, l', h') \<and> nlist_rep l' h' ([3] @ []) \<and> node_ok h' 4 \<and>
    agree (- (insert 4 (set ([3] @ [])))) demo_nheap h'"
  by (rule nlist_remove_unlinks[OF demo_nlist_rep])

text \<open>
  \<open>nlist_insert_after\<close> (\<open>nlist.c\<close>) puts a fresh node directly behind the given node of the
  list, also when that is the last one.
\<close>

theorem nlist_insert_after_links:
  assumes "nlist_rep l h (us @ p # vs)" "node_ok h n" "n \<noteq> 0" "n \<notin> set (us @ p # vs)"
  shows "\<exists>l' h'. nlist_insert_after l p n h = Some (l', h') \<and> nlist_rep l' h' (us @ p # n # vs)"
  using assms by (rule insert_after_rep)

theorem nlist_insert_after_links_witness:
  "\<exists>l' h'. nlist_insert_after demo_nlist 4 5 demo_nheap = Some (l', h') \<and> nlist_rep l' h' ([3] @ 4 # 5 # [])"
  by (rule nlist_insert_after_links[OF demo_nlist_rep]) (simp_all add: node_ok_def demo_nheap_def)

end
