(* ===== verification/Mblock.thy ===== *)
theory Mblock
  imports Net_List Pool
begin

text \<open>
  The fixed-size memory blocks of the network stack (\<open>kernel/net/mblock.c\<close>): a region cut into
  blocks whose first words serve as nodes of the free list.  The state is the block manager
  together with the node heap; \<open>mblock_range\<close> is the region the manager was set up with.
  \<open>mblock_alloc\<close> does not wait, whatever \<open>ms\<close> says: the list is simply empty.
\<close>

section \<open>Model of \<open>mblock.c\<close>\<close>

record mblock_t =
  free_list :: nlist_t

fun mblock_init_loop :: "nat \<Rightarrow> addr \<Rightarrow> nat \<Rightarrow> nlist_t \<Rightarrow> heap \<Rightarrow> (nlist_t \<times> heap) option" where
  "mblock_init_loop 0 buf blk_size l h = Some (l, h)"
| "mblock_init_loop (Suc n) buf blk_size l h = do {
     h1 \<leftarrow> nlist_node_init buf h;
     (l', h2) \<leftarrow> nlist_insert_last l buf h1;
     mblock_init_loop n (buf + blk_size) blk_size l' h2
   }"

definition mblock_init :: "mblock_t \<Rightarrow> addr \<Rightarrow> nat \<Rightarrow> nat \<Rightarrow> heap \<Rightarrow> (mblock_t \<times> heap) option" where
  "mblock_init mb mem blk_size cnt h = do {
     (l, h') \<leftarrow> mblock_init_loop cnt mem blk_size (nlist_init (free_list mb)) h;
     Some (mb\<lparr>free_list := l\<rparr>, h')
   }"

definition mblock_alloc :: "int \<Rightarrow> mblock_t \<Rightarrow> heap \<Rightarrow> (addr \<times> mblock_t \<times> heap) option" where
  "mblock_alloc ms mb h =
     (if ms < 0 \<and> nl_count (free_list mb) = 0 then Some (0, mb, h)
      else do {
        (block, l, h') \<leftarrow> nlist_remove_first (free_list mb) h;
        Some (block, mb\<lparr>free_list := l\<rparr>, h')
      })"

definition mblock_free_cnt :: "mblock_t \<Rightarrow> int" where
  "mblock_free_cnt mb = nl_count (free_list mb)"

definition mblock_free :: "mblock_t \<Rightarrow> addr \<Rightarrow> heap \<Rightarrow> (mblock_t \<times> heap) option" where
  "mblock_free mb block h = do {
     (l, h') \<leftarrow> nlist_insert_last (free_list mb) block h;
     Some (mb\<lparr>free_list := l\<rparr>, h')
   }"

section \<open>Setting up the region\<close>

lemma node_init_ok:
  assumes "node_ok h p"
  shows "\<exists>h'. nlist_node_init p h = Some h' \<and> node_ok h' p \<and> agree (- {p}) h h' \<and>
    (\<forall>q. node_ok h' q = node_ok h q)"
  using assms by (auto simp: nlist_node_init_def node_ok_def set_next_def set_pre_def agree_def)

lemma insert_last_node_ok:
  assumes "nlist_insert_last l n h = Some (l', h')" shows "node_ok h' q = node_ok h q"
  using assms by (auto simp: nlist_insert_last_def set_next_def set_pre_def node_ok_def split: if_splits bind_splits)

definition blocks :: "addr \<Rightarrow> nat \<Rightarrow> nat \<Rightarrow> addr list" where
  "blocks mem blk_size cnt = map (\<lambda>i. mem + i * blk_size) [0..<cnt]"

lemma blocks_Suc: "blocks mem b (Suc n) = mem # blocks (mem + b) b n"
  by (simp add: blocks_def map_upt_Suc ac_simps del: upt_Suc)

lemma blocks_distinct: "0 < b \<Longrightarrow> distinct (blocks mem b n)"
  by (simp add: blocks_def distinct_map inj_on_def)

lemma blocks_ge: "p \<in> set (blocks mem b n) \<Longrightarrow> mem \<le> p"
  by (auto simp: blocks_def)

lemma init_loop_rep:
  assumes "nlist_rep l h xs" "\<forall>p\<in>set (blocks mem b n). node_ok h p \<and> p \<noteq> 0"
    and "set xs \<inter> set (blocks mem b n) = {}" "0 < b"
  shows "\<exists>l' h'. mblock_init_loop n mem b l h = Some (l', h') \<and> nlist_rep l' h' (xs @ blocks mem b n) \<and>
    (\<forall>p. node_ok h' p = node_ok h p)"
  using assms
proof (induction n arbitrary: mem l h xs)
  case 0
  then show ?case by (simp add: blocks_def)
next
  case (Suc n)
  have m: "node_ok h mem" "mem \<noteq> 0" "mem \<notin> set xs" using Suc.prems by (auto simp: blocks_Suc)
  obtain h1 where h1: "nlist_node_init mem h = Some h1" "node_ok h1 mem" "agree (- {mem}) h h1"
    "\<forall>q. node_ok h1 q = node_ok h q" using node_init_ok[OF m(1)] by blast
  have "nlist_rep l h1 xs" using nlist_rep_agree[OF Suc.prems(1) agree_subset[OF h1(3)]] m(3) by auto
  from insert_last_rep[OF this h1(2) m(2,3)] obtain l2 h2 where
    l2: "nlist_insert_last l mem h1 = Some (l2, h2)" "nlist_rep l2 h2 (xs @ [mem])" by blast
  have ok2: "node_ok h2 q = node_ok h q" for q using insert_last_node_ok[OF l2(1)] h1(4) by simp
  have nin: "mem \<notin> set (blocks (mem + b) b n)" using blocks_ge[of mem "mem + b" b n] Suc.prems(4) by auto
  have "\<exists>l' h'. mblock_init_loop n (mem + b) b l2 h2 = Some (l', h') \<and>
      nlist_rep l' h' ((xs @ [mem]) @ blocks (mem + b) b n) \<and> (\<forall>p. node_ok h' p = node_ok h2 p)"
    using Suc.prems ok2 nin by (intro Suc.IH l2(2)) (auto simp: blocks_Suc)
  with h1(1) l2(1) ok2 show ?case by (auto simp: blocks_Suc)
qed

section \<open>The pool contract\<close>

text \<open>
  The pool state: the manager, the heap and the blocks of the region.  A block is live when it
  is not on the free list.
\<close>

record mb_state =
  mb_mgr :: mblock_t
  mb_heap :: heap
  mb_range :: "addr list"

definition mb_ok :: "mb_state \<Rightarrow> bool" where
  "mb_ok s \<longleftrightarrow> (\<exists>xs. nlist_rep (free_list (mb_mgr s)) (mb_heap s) xs \<and> set xs \<subseteq> set (mb_range s)) \<and>
     (\<forall>p\<in>set (mb_range s). node_ok (mb_heap s) p \<and> p \<noteq> 0)"

definition free_blocks :: "mb_state \<Rightarrow> addr set" where
  "free_blocks s = {p. \<exists>xs. nlist_rep (free_list (mb_mgr s)) (mb_heap s) xs \<and> p \<in> set xs}"

definition mb_live :: "mb_state \<Rightarrow> addr set" where
  "mb_live s = set (mb_range s) - free_blocks s"

definition mb_take :: "mb_state \<Rightarrow> (addr option \<times> mb_state) option" where
  "mb_take s = do {
     (p, mb, h) \<leftarrow> mblock_alloc (-1) (mb_mgr s) (mb_heap s);
     Some (if p = 0 then None else Some p, s\<lparr>mb_mgr := mb, mb_heap := h\<rparr>)
   }"

definition mb_give :: "addr \<Rightarrow> mb_state \<Rightarrow> mb_state option" where
  "mb_give p s = do {
     (mb, h) \<leftarrow> mblock_free (mb_mgr s) p (mb_heap s);
     Some (s\<lparr>mb_mgr := mb, mb_heap := h\<rparr>)
   }"


lemma chain_unique:
  assumes "chain h (x # xs)" "chain h (x # ys)" "h_next h (List.last (x # xs)) = Some 0"
    "h_next h (List.last (x # ys)) = Some 0" "0 \<notin> set xs" "0 \<notin> set ys"
  shows "xs = ys"
  using assms
proof (induction xs arbitrary: x ys)
  case Nil
  then show ?case by (cases ys) auto
next
  case (Cons a xs)
  then obtain zs where "ys = a # zs" by (cases ys) auto
  with Cons show ?case by auto
qed

lemma nlist_rep_unique:
  assumes "nlist_rep l h xs" "nlist_rep l h ys" shows "xs = ys"
proof (cases xs)
  case Nil
  then show ?thesis using assms by (simp add: nlist_rep_def)
next
  case (Cons a as)
  then obtain bs where "ys = a # bs" using assms by (cases ys) (auto simp: nlist_rep_def)
  then show ?thesis using assms Cons chain_unique[of h a as bs] by (auto simp: nlist_rep_def last0_def)
qed

lemma free_blocks_eq: "nlist_rep (free_list (mb_mgr s)) (mb_heap s) xs \<Longrightarrow> free_blocks s = set xs"
  using nlist_rep_unique unfolding free_blocks_def by blast

lemma set_fields_node_ok:
  "set_next p v h = Some h' \<Longrightarrow> node_ok h' q = node_ok h q"
  "set_pre p v h = Some h' \<Longrightarrow> node_ok h' q = node_ok h q"
  by (auto simp: set_next_def set_pre_def node_ok_def split: if_splits)

lemma remove_node_ok: "nlist_remove l p h = Some (x, l', h') \<Longrightarrow> node_ok h' q = node_ok h q"
  unfolding nlist_remove_def Let_def
  by (auto split: if_splits bind_splits dest!: set_fields_node_ok[where q=q])

lemma mb_okE:
  assumes "mb_ok s"
  obtains xs where "nlist_rep (free_list (mb_mgr s)) (mb_heap s) xs" "free_blocks s = set xs"
    "set xs \<subseteq> set (mb_range s)"
  using assms free_blocks_eq unfolding mb_ok_def by blast

lemma mb_nodes: "mb_ok s \<Longrightarrow> p \<in> set (mb_range s) \<Longrightarrow> node_ok (mb_heap s) p \<and> p \<noteq> 0"
  by (simp add: mb_ok_def)

lemma mb_okI:
  assumes "nlist_rep (free_list (mb_mgr s)) (mb_heap s) xs" "set xs \<subseteq> set (mb_range s)"
    "\<And>p. p \<in> set (mb_range s) \<Longrightarrow> node_ok (mb_heap s) p \<and> p \<noteq> 0"
  shows "mb_ok s"
  using assms unfolding mb_ok_def by blast

lemma mb_take_free:
  assumes ok: "mb_ok s" and nf: "mb_live s \<noteq> set (mb_range s)"
  shows "\<exists>x s'. mb_take s = Some (Some x, s') \<and> x \<in> set (mb_range s) - mb_live s \<and>
    mb_live s' = insert x (mb_live s) \<and> set (mb_range s') = set (mb_range s) \<and> mb_ok s'"
proof -
  obtain xs where xs: "nlist_rep (free_list (mb_mgr s)) (mb_heap s) xs" "free_blocks s = set xs"
    "set xs \<subseteq> set (mb_range s)" by (rule mb_okE[OF ok])
  from nf xs(2) have "xs \<noteq> []" by (auto simp: mb_live_def)
  then obtain x ys where ys: "xs = x # ys" by (cases xs) auto
  obtain l h where r: "nlist_remove_first (free_list (mb_mgr s)) (mb_heap s) = Some (x, l, h)" "nlist_rep l h ys"
    using remove_first_rep xs(1) unfolding ys by blast
  have n0: "x \<noteq> 0" "x \<notin> set ys" "nl_count (free_list (mb_mgr s)) \<noteq> 0" "nl_first (free_list (mb_mgr s)) = x"
    using xs(1) unfolding ys by (simp_all add: nlist_rep_def)
  have nd: "node_ok h q = node_ok (mb_heap s) q" for q
    using r(1) n0(1,4) remove_node_ok by (simp add: nlist_remove_first_def)
  define s' where "s' = s\<lparr>mb_mgr := (mb_mgr s)\<lparr>free_list := l\<rparr>, mb_heap := h\<rparr>"
  have s': "free_list (mb_mgr s') = l" "mb_heap s' = h" "mb_range s' = mb_range s" by (simp_all add: s'_def)
  have t: "mb_take s = Some (Some x, s')" using r(1) n0(1,3) by (simp add: mb_take_def mblock_alloc_def s'_def)
  have fb: "free_blocks s' = set ys" using free_blocks_eq[of s' ys] r(2) by (simp add: s')
  have "mb_ok s'"
    using r(2) xs(3) mb_nodes[OF ok] by (intro mb_okI[of s' ys]) (simp_all add: s' nd ys)
  moreover have "mb_live s' = insert x (mb_live s)" "x \<in> set (mb_range s) - mb_live s"
    using fb xs(2,3) n0(2) unfolding mb_live_def s'(3) ys by auto
  ultimately show ?thesis using t s'(3) by (intro exI[of _ x] exI[of _ s']) simp
qed

lemma mb_take_none:
  assumes ok: "mb_ok s" and f: "mb_live s = set (mb_range s)"
  shows "mb_take s = Some (None, s)"
proof -
  obtain xs where xs: "nlist_rep (free_list (mb_mgr s)) (mb_heap s) xs" "free_blocks s = set xs"
    "set xs \<subseteq> set (mb_range s)" by (rule mb_okE[OF ok])
  have "x \<notin> set xs" for x using f xs(2,3) by (auto simp: mb_live_def)
  then have "xs = []" by (cases xs) auto
  then have "nl_count (free_list (mb_mgr s)) = 0" using xs(1) by (simp add: nlist_rep_def)
  then show ?thesis by (simp add: mb_take_def mblock_alloc_def)
qed

lemma mb_give_live:
  assumes ok: "mb_ok s" and p: "p \<in> mb_live s"
  shows "\<exists>s'. mb_give p s = Some s' \<and> mb_live s' = mb_live s - {p} \<and> set (mb_range s') = set (mb_range s) \<and> mb_ok s'"
proof -
  obtain xs where xs: "nlist_rep (free_list (mb_mgr s)) (mb_heap s) xs" "free_blocks s = set xs"
    "set xs \<subseteq> set (mb_range s)" by (rule mb_okE[OF ok])
  have n: "p \<notin> set xs" "p \<in> set (mb_range s)" using p xs(2) by (simp_all add: mb_live_def)
  have nd: "node_ok (mb_heap s) p" "p \<noteq> 0" using mb_nodes[OF ok n(2)] by simp_all
  from insert_last_rep[OF xs(1) nd n(1)] obtain l h where
    r: "nlist_insert_last (free_list (mb_mgr s)) p (mb_heap s) = Some (l, h)" "nlist_rep l h (xs @ [p])" by blast
  define s' where "s' = s\<lparr>mb_mgr := (mb_mgr s)\<lparr>free_list := l\<rparr>, mb_heap := h\<rparr>"
  have s': "free_list (mb_mgr s') = l" "mb_heap s' = h" "mb_range s' = mb_range s" by (simp_all add: s'_def)
  have t: "mb_give p s = Some s'" using r(1) by (simp add: mb_give_def mblock_free_def s'_def)
  have fb: "free_blocks s' = set (xs @ [p])" using free_blocks_eq[of s' "xs @ [p]"] r(2) by (simp add: s')
  have "mb_ok s'"
    using r(2) xs(3) n(2) mb_nodes[OF ok] insert_last_node_ok[OF r(1)]
    by (intro mb_okI[of s' "xs @ [p]"]) (simp_all add: s')
  moreover have "mb_live s' = mb_live s - {p}" using fb xs(2) unfolding mb_live_def s'(3) by auto
  ultimately show ?thesis using t s'(3) by (intro exI[of _ s']) simp
qed

interpretation mb: pool mb_ok mb_live "\<lambda>s. set (mb_range s)" mb_take mb_give
proof (unfold_locales, goal_cases)
  case (2 s)
  show ?case by (auto simp: mb_live_def)
next
  case (3 s)
  then show ?case by (rule mb_take_free)
qed (simp_all add: mb_take_none mb_give_live)

section \<open>Properties\<close>

lemma mblock_init_state:
  assumes "\<forall>p\<in>set (blocks mem b n). node_ok h p \<and> p \<noteq> 0" "0 < b"
  shows "\<exists>mb' h'. mblock_init mb mem b n h = Some (mb', h') \<and>
    nlist_rep (free_list mb') h' (blocks mem b n) \<and>
    mb_ok \<lparr>mb_mgr = mb', mb_heap = h', mb_range = blocks mem b n\<rparr>"
proof -
  have "nlist_rep (nlist_init (free_list mb)) h []" by (simp add: nlist_rep_def nlist_init_def)
  from init_loop_rep[OF this, of mem b n] assms obtain l h' where
    l: "mblock_init_loop n mem b (nlist_init (free_list mb)) h = Some (l, h')" "nlist_rep l h' (blocks mem b n)"
    "\<forall>p. node_ok h' p = node_ok h p" by auto
  then show ?thesis using assms(1) by (auto simp: mblock_init_def mb_ok_def)
qed

text \<open>
  C39: a block manager set up by \<open>mblock_init\<close> (\<open>mblock.c\<close>) over \<open>cnt\<close> blocks hands out, one
  \<open>mblock_alloc\<close> after the other, \<open>cnt\<close> different blocks of its region, and has none left then:
  two users never get the same block, and no block is lost.
\<close>

theorem mblock_alloc_distinct:
  assumes "\<forall>p\<in>set (blocks mem b n). node_ok h p \<and> p \<noteq> 0" "0 < b"
  shows "\<exists>mb' h' ps s'. mblock_init mb mem b n h = Some (mb', h') \<and>
    mb.take_n n \<lparr>mb_mgr = mb', mb_heap = h', mb_range = blocks mem b n\<rparr> = Some (ps, s') \<and>
    length ps = n \<and> distinct ps \<and> set ps = set (blocks mem b n) \<and> mb_take s' = Some (None, s')"
proof -
  obtain mb' h' where i: "mblock_init mb mem b n h = Some (mb', h')" "nlist_rep (free_list mb') h' (blocks mem b n)"
    "mb_ok \<lparr>mb_mgr = mb', mb_heap = h', mb_range = blocks mem b n\<rparr>" (is "mb_ok ?s")
    using mblock_init_state[OF assms] by blast
  have "mb_live ?s = {}" using free_blocks_eq[of ?s "blocks mem b n"] i(2) by (simp add: mb_live_def)
  moreover have c: "card (set (blocks mem b n)) = n"
    using blocks_distinct[OF assms(2)] by (simp add: distinct_card) (simp add: blocks_def)
  ultimately have av: "mb.avail ?s = n" by (simp add: mb.avail_def)
  obtain ps s' where t: "mb.take_n n ?s = Some (ps, s')" "length ps = n" "distinct ps" "set ps \<subseteq> set (blocks mem b n)"
    "mb_live s' = set ps" "set (mb_range s') = set (blocks mem b n)" "mb_ok s'"
    using mb.take_n_fresh[OF i(3), of n] av \<open>mb_live ?s = {}\<close> by auto
  have "set ps = set (blocks mem b n)"
    using t(2-4) c by (metis List.finite_set card_subset_eq distinct_card)
  moreover from this have "mb_take s' = Some (None, s')" using mb.take_full[OF t(7)] t(5,6) by simp
  ultimately show ?thesis using i(1) t by blast
qed

theorem mblock_alloc_distinct_witness:
  "\<exists>mb' h' ps s'. mblock_init \<lparr>free_list = \<lparr>nl_first = 0, nl_last = 0, nl_count = 0\<rparr>\<rparr> 100 8 3
      \<lparr>h_pre = (\<lambda>_. Some 0), h_next = (\<lambda>_. Some 0)\<rparr> = Some (mb', h') \<and>
    mb.take_n 3 \<lparr>mb_mgr = mb', mb_heap = h', mb_range = blocks 100 8 3\<rparr> = Some (ps, s') \<and>
    length ps = 3 \<and> distinct ps \<and> set ps = set (blocks 100 8 3) \<and> mb_take s' = Some (None, s')"
  by (rule mblock_alloc_distinct) (simp_all add: node_ok_def blocks_def)

end
