(* ===== verification/Pktbuf.thy ===== *)
theory Pktbuf
  imports Prelude
begin

text \<open>
  The packet buffers of the network stack (\<open>kernel/net/pktbuf.c\<close>): a packet is a list of blocks
  of 64 bytes, each with a window \<open>[data, data + size)\<close> of its payload in use, and a position for
  reading and writing.  Blocks and packets are numbered; the lists of blocks are HOL lists (what
  \<open>nlist.c\<close> does to them is the theory \<open>Net_List\<close>, the free lists are \<open>Mblock\<close>).  A pointer into
  the payload of a block is an offset, and an access outside the 64 bytes, through NULL or
  through a block that is no longer in the packet is \<open>None\<close>.  Sizes are natural numbers.
\<close>

section \<open>State\<close>

type_synonym bid = nat
type_synonym pid = nat

datatype net_err_t = NET_ERR_NEED_WAIT | NET_ERR_OK | NET_ERR_PARAM | NET_ERR_EXIST | NET_ERR_STATE | NET_ERR_NONE
  | NET_ERR_SIZE | NET_ERR_FULL | NET_ERR_MEM | NET_ERR_IO | NET_ERR_NOT_SUPPORT | NET_ERR_NOT_MATCH | NET_ERR_CHECKSUM
  | NET_ERR_UNREACH | NET_ERR_BINDED | NET_ERR_CLOSE | NET_ERR_EOF | NET_ERR_CONNECTED

definition PKTBUF_BLK_SIZE :: nat where "PKTBUF_BLK_SIZE = 64"

record pktblk_t =
  blk_size :: nat
  blk_data :: nat
  payload :: "u8 list"

record pktbuf_t =
  total_size :: nat
  blk_list :: "bid list"
  ref :: int
  pos :: nat
  curr_blk :: "bid option"
  blk_offset :: nat

record pkt_state =
  blk :: "bid \<Rightarrow> pktblk_t"
  free_blks :: "bid list"
  buf :: "pid \<Rightarrow> pktbuf_t"
  free_bufs :: "pid list"

abbreviation upd_blk :: "bid \<Rightarrow> (pktblk_t \<Rightarrow> pktblk_t) \<Rightarrow> pkt_state \<Rightarrow> pkt_state" where
  "upd_blk b f st \<equiv> st\<lparr>blk := (blk st)(b := f (blk st b))\<rparr>"

abbreviation upd_buf :: "pid \<Rightarrow> (pktbuf_t \<Rightarrow> pktbuf_t) \<Rightarrow> pkt_state \<Rightarrow> pkt_state" where
  "upd_buf p f st \<equiv> st\<lparr>buf := (buf st)(p := f (buf st p))\<rparr>"

section \<open>Blocks\<close>

definition total_blk_remain :: "pktbuf_t \<Rightarrow> int" where
  "total_blk_remain pb = int (total_size pb) - int (pos pb)"

text \<open>
  The bytes between the position and the end of its block.  A position behind the end (left
  there by a \<open>pktbuf_resize\<close> without \<open>pktbuf_reset_acc\<close>) gives a negative number, and the copy with
  it runs over the memory: \<open>None\<close>.
\<close>

definition curr_blk_remain :: "pid \<Rightarrow> pkt_state \<Rightarrow> nat option" where
  "curr_blk_remain p st =
     (case curr_blk (buf st p) of None \<Rightarrow> Some 0
      | Some b \<Rightarrow>
        let e = blk_data (blk st b) + blk_size (blk st b)
        in if blk_offset (buf st p) \<le> e then Some (e - blk_offset (buf st p)) else None)"

definition curr_blk_tail_free :: "pktblk_t \<Rightarrow> nat" where
  "curr_blk_tail_free k = PKTBUF_BLK_SIZE - blk_data k - blk_size k"

definition pktbuf_first_blk :: "pktbuf_t \<Rightarrow> bid option" where
  "pktbuf_first_blk pb = (case blk_list pb of [] \<Rightarrow> None | b # _ \<Rightarrow> Some b)"

definition pktbuf_reset_acc :: "pid \<Rightarrow> pkt_state \<Rightarrow> pkt_state" where
  "pktbuf_reset_acc p st =
     (let c = pktbuf_first_blk (buf st p)
      in upd_buf p (\<lambda>pb. pb\<lparr>pos := 0, curr_blk := c,
           blk_offset := (case c of None \<Rightarrow> 0 | Some b \<Rightarrow> blk_data (blk st b))\<rparr>) st)"

definition pktblock_free :: "bid \<Rightarrow> pkt_state \<Rightarrow> pkt_state" where
  "pktblock_free b st = st\<lparr>free_blks := free_blks st @ [b]\<rparr>"

fun pktblock_free_list :: "bid list \<Rightarrow> pkt_state \<Rightarrow> pkt_state" where
  "pktblock_free_list [] st = st"
| "pktblock_free_list (b # bs) st = pktblock_free_list bs (pktblock_free b st)"

definition pktbuf_free :: "pid \<Rightarrow> pkt_state \<Rightarrow> pkt_state" where
  "pktbuf_free p st =
     (let st1 = upd_buf p (\<lambda>pb. pb\<lparr>ref := ref pb - 1\<rparr>) st
      in if ref (buf st1 p) = 0
         then let st2 = pktblock_free_list (blk_list (buf st1 p)) st1
              in st2\<lparr>free_bufs := free_bufs st2 @ [p]\<rparr>
         else st1)"

definition pktblock_alloc :: "pkt_state \<Rightarrow> bid option \<times> pkt_state" where
  "pktblock_alloc st =
     (case free_blks st of [] \<Rightarrow> (None, st)
      | b # bs \<Rightarrow> (Some b, upd_blk b (\<lambda>k. k\<lparr>blk_size := 0, blk_data := 0\<rparr>) (st\<lparr>free_blks := bs\<rparr>)))"

text \<open>
  \<open>chain\<close> is the list of blocks from \<open>first_block\<close> on; the empty list is NULL, which is also the
  result when the blocks run out, after those taken have been given back.
\<close>

function pktblock_alloc_loop :: "nat \<Rightarrow> bool \<Rightarrow> bid list \<Rightarrow> pkt_state \<Rightarrow> bid list \<times> pkt_state" where
  "pktblock_alloc_loop sz add_front chain st =
     (if sz = 0 then (chain, st)
      else case pktblock_alloc st of
        (None, st1) \<Rightarrow> ([], pktblock_free_list chain st1)
      | (Some b, st1) \<Rightarrow>
          let curr_size = (if sz > PKTBUF_BLK_SIZE then PKTBUF_BLK_SIZE else sz);
              st2 = upd_blk b (\<lambda>k. k\<lparr>blk_size := curr_size,
                      blk_data := (if add_front then PKTBUF_BLK_SIZE - curr_size else 0)\<rparr>) st1
          in pktblock_alloc_loop (sz - curr_size) add_front
               (if add_front then b # chain else chain @ [b]) st2)"
  by pat_completeness auto
termination
  by (relation "measure (\<lambda>(sz, _). sz)") (auto simp: PKTBUF_BLK_SIZE_def)

declare pktblock_alloc_loop.simps [simp del]

definition pktblock_alloc_list :: "nat \<Rightarrow> bool \<Rightarrow> pkt_state \<Rightarrow> bid list \<times> pkt_state" where
  "pktblock_alloc_list sz add_front st = pktblock_alloc_loop sz add_front [] st"

fun insert_last_loop :: "pid \<Rightarrow> bid list \<Rightarrow> pkt_state \<Rightarrow> pkt_state" where
  "insert_last_loop p [] st = st"
| "insert_last_loop p (b # bs) st =
     insert_last_loop p bs
       (upd_buf p (\<lambda>pb. pb\<lparr>blk_list := blk_list pb @ [b], total_size := total_size pb + blk_size (blk st b)\<rparr>) st)"

text \<open>\<open>nlist_insert_after\<close> and \<open>nlist_insert_first\<close> on the list of blocks.\<close>

fun insert_after :: "bid \<Rightarrow> bid \<Rightarrow> bid list \<Rightarrow> bid list" where
  "insert_after pre b [] = [b]"
| "insert_after pre b (x # xs) = (if x = pre then x # b # xs else x # insert_after pre b xs)"

fun insert_first_loop :: "pid \<Rightarrow> bid option \<Rightarrow> bid list \<Rightarrow> pkt_state \<Rightarrow> pkt_state" where
  "insert_first_loop p pre [] st = st"
| "insert_first_loop p pre (b # bs) st =
     insert_first_loop p (Some b) bs
       (upd_buf p (\<lambda>pb. pb\<lparr>blk_list := (case pre of None \<Rightarrow> b # blk_list pb
                                          | Some a \<Rightarrow> insert_after a b (blk_list pb)),
                            total_size := total_size pb + blk_size (blk st b)\<rparr>) st)"

definition pktbuf_insert_blk_list :: "pid \<Rightarrow> bid list \<Rightarrow> bool \<Rightarrow> pkt_state \<Rightarrow> pkt_state" where
  "pktbuf_insert_blk_list p chain add_last st =
     (if add_last then insert_last_loop p chain st else insert_first_loop p None chain st)"

definition pktbuf_inc_ref :: "pid \<Rightarrow> pkt_state \<Rightarrow> pkt_state" where
  "pktbuf_inc_ref p st = upd_buf p (\<lambda>pb. pb\<lparr>ref := ref pb + 1\<rparr>) st"

definition pktbuf_alloc :: "nat \<Rightarrow> pkt_state \<Rightarrow> pid option \<times> pkt_state" where
  "pktbuf_alloc sz st =
     (case free_bufs st of [] \<Rightarrow> (None, st)
      | p # ps \<Rightarrow>
        let st1 = upd_buf p (\<lambda>pb. pb\<lparr>ref := 1, total_size := 0, blk_list := []\<rparr>) (st\<lparr>free_bufs := ps\<rparr>)
        in if sz \<noteq> 0
           then case pktblock_alloc_list sz False st1 of
             ([], st2) \<Rightarrow> (None, st2\<lparr>free_bufs := free_bufs st2 @ [p]\<rparr>)
           | (b # bs, st2) \<Rightarrow>
               (Some p, pktbuf_reset_acc p
                  (upd_buf p (\<lambda>pb. pb\<lparr>ref := 1\<rparr>) (pktbuf_insert_blk_list p (b # bs) True st2)))
           else (Some p, pktbuf_reset_acc p (upd_buf p (\<lambda>pb. pb\<lparr>ref := 1\<rparr>) st1)))"

section \<open>Headers, size, joining\<close>

definition pktbuf_add_header :: "pid \<Rightarrow> nat \<Rightarrow> bool \<Rightarrow> pkt_state \<Rightarrow> (net_err_t \<times> pkt_state) option" where
  "pktbuf_add_header p sz cont st =
     (case pktbuf_first_blk (buf st p) of None \<Rightarrow> None
      | Some b \<Rightarrow>
        let resv_size = blk_data (blk st b)
        in if sz \<le> resv_size
           then Some (NET_ERR_OK,
             upd_buf p (\<lambda>pb. pb\<lparr>total_size := total_size pb + sz\<rparr>)
               (upd_blk b (\<lambda>k. k\<lparr>blk_size := blk_size k + sz, blk_data := blk_data k - sz\<rparr>) st))
           else if cont
           then if sz > PKTBUF_BLK_SIZE then Some (NET_ERR_NONE, st)
                else case pktblock_alloc_list sz True st of
                  ([], st1) \<Rightarrow> Some (NET_ERR_NONE, st1)
                | (c # cs, st1) \<Rightarrow> Some (NET_ERR_OK, pktbuf_insert_blk_list p (c # cs) False st1)
           else let st1 = upd_buf p (\<lambda>pb. pb\<lparr>total_size := total_size pb + resv_size\<rparr>)
                      (upd_blk b (\<lambda>k. k\<lparr>blk_data := 0, blk_size := blk_size k + resv_size\<rparr>) st)
                in case pktblock_alloc_list (sz - resv_size) True st1 of
                  ([], st2) \<Rightarrow> Some (NET_ERR_NONE, st2)
                | (c # cs, st2) \<Rightarrow> Some (NET_ERR_OK, pktbuf_insert_blk_list p (c # cs) False st2))"

text \<open>The loop of \<open>pktbuf_remove_header\<close> over the blocks of the packet, from the first one.\<close>

fun remove_header_loop :: "pid \<Rightarrow> bid list \<Rightarrow> nat \<Rightarrow> pkt_state \<Rightarrow> pkt_state option" where
  "remove_header_loop p [] sz st = (if sz = 0 then Some st else None)"
| "remove_header_loop p (b # bs) sz st =
     (if sz = 0 then Some st
      else if sz < blk_size (blk st b)
      then Some (upd_buf p (\<lambda>pb. pb\<lparr>total_size := total_size pb - sz\<rparr>)
             (upd_blk b (\<lambda>k. k\<lparr>blk_data := blk_data k + sz, blk_size := blk_size k - sz\<rparr>) st))
      else let curr_size = blk_size (blk st b)
           in remove_header_loop p bs (sz - curr_size)
                (pktblock_free b
                  (upd_buf p (\<lambda>pb. pb\<lparr>blk_list := tl (blk_list pb),
                                       total_size := total_size pb - curr_size\<rparr>) st)))"

definition pktbuf_remove_header :: "pid \<Rightarrow> nat \<Rightarrow> pkt_state \<Rightarrow> (net_err_t \<times> pkt_state) option" where
  "pktbuf_remove_header p sz st =
     map_option (\<lambda>st'. (NET_ERR_OK, st')) (remove_header_loop p (blk_list (buf st p)) sz st)"

text \<open>The block in which the packet of \<open>to_size\<close> bytes ends, with the blocks behind it.\<close>

fun find_tail :: "(bid \<Rightarrow> pktblk_t) \<Rightarrow> nat \<Rightarrow> nat \<Rightarrow> bid list \<Rightarrow> (bid \<times> bid list) option" where
  "find_tail bk to_size acc [] = None"
| "find_tail bk to_size acc (b # bs) =
     (if acc + blk_size (bk b) \<ge> to_size then Some (b, bs)
      else find_tail bk to_size (acc + blk_size (bk b)) bs)"

fun drop_tail_loop :: "pid \<Rightarrow> bid list \<Rightarrow> nat \<Rightarrow> pkt_state \<Rightarrow> nat \<times> pkt_state" where
  "drop_tail_loop p [] acc st = (acc, st)"
| "drop_tail_loop p (b # bs) acc st =
     drop_tail_loop p bs (acc + blk_size (blk st b))
       (pktblock_free b (upd_buf p (\<lambda>pb. pb\<lparr>blk_list := remove1 b (blk_list pb)\<rparr>) st))"

definition pktbuf_resize :: "pid \<Rightarrow> nat \<Rightarrow> pkt_state \<Rightarrow> (net_err_t \<times> pkt_state) option" where
  "pktbuf_resize p to_size st =
     (let pb = buf st p
      in if to_size = total_size pb then Some (NET_ERR_OK, st)
         else if total_size pb = 0
         then case pktblock_alloc_list to_size False st of
             ([], st1) \<Rightarrow> Some (NET_ERR_MEM, st1)
           | (c # cs, st1) \<Rightarrow> Some (NET_ERR_OK, pktbuf_insert_blk_list p (c # cs) True st1)
         else if to_size > total_size pb
         then if blk_list pb = [] then None
              else let b = last (blk_list pb); inc_size = to_size - total_size pb;
                       remain_size = curr_blk_tail_free (blk st b)
                   in if remain_size \<ge> inc_size
                      then Some (NET_ERR_OK, upd_buf p (\<lambda>pb. pb\<lparr>total_size := total_size pb + inc_size\<rparr>)
                             (upd_blk b (\<lambda>k. k\<lparr>blk_size := blk_size k + inc_size\<rparr>) st))
                      else case pktblock_alloc_list (inc_size - remain_size) False st of
                          ([], st1) \<Rightarrow> Some (NET_ERR_NONE, st1)
                        | (c # cs, st1) \<Rightarrow> Some (NET_ERR_OK, pktbuf_insert_blk_list p (c # cs) True
                            (upd_buf p (\<lambda>pb. pb\<lparr>total_size := total_size pb + remain_size\<rparr>)
                              (upd_blk b (\<lambda>k. k\<lparr>blk_size := blk_size k + remain_size\<rparr>) st1)))
         else case find_tail (blk st) to_size 0 (blk_list pb) of
             None \<Rightarrow> Some (NET_ERR_SIZE, st)
           | Some (b, rest) \<Rightarrow>
               let (removed, st1) = drop_tail_loop p rest 0 st
               in Some (NET_ERR_OK, upd_buf p (\<lambda>pb. pb\<lparr>total_size := to_size\<rparr>)
                    (upd_blk b (\<lambda>k. k\<lparr>blk_size := blk_size k - (total_size (buf st1 p) - removed - to_size)\<rparr>) st1)))"

fun join_loop :: "pid \<Rightarrow> pid \<Rightarrow> bid list \<Rightarrow> pkt_state \<Rightarrow> pkt_state" where
  "join_loop dest src [] st = st"
| "join_loop dest src (b # bs) st =
     join_loop dest src bs
       (pktbuf_insert_blk_list dest [b] True (upd_buf src (\<lambda>pb. pb\<lparr>blk_list := tl (blk_list pb)\<rparr>) st))"

definition pktbuf_join :: "pid \<Rightarrow> pid \<Rightarrow> pkt_state \<Rightarrow> net_err_t \<times> pkt_state" where
  "pktbuf_join dest src st = (NET_ERR_OK, pktbuf_free src (join_loop dest src (blk_list (buf st src)) st))"


text \<open>
  \<open>pktbuf_set_cont\<close>: the data of the first block is moved to the front of its payload, byte by
  byte from the left, and the data of the following blocks is appended; \<open>dest\<close> is the offset of
  the next byte to write.
\<close>

definition copy_in :: "nat \<Rightarrow> u8 list \<Rightarrow> u8 list \<Rightarrow> u8 list option" where
  "copy_in off src pl =
     (if off + length src \<le> length pl then Some (take off pl @ src @ drop (off + length src) pl) else None)"

definition copy_out :: "nat \<Rightarrow> nat \<Rightarrow> u8 list \<Rightarrow> u8 list option" where
  "copy_out off n pl = (if off + n \<le> length pl then Some (take n (drop off pl)) else None)"

fun move_bytes_down :: "nat \<Rightarrow> nat \<Rightarrow> nat \<Rightarrow> u8 list \<Rightarrow> u8 list option" where
  "move_bytes_down dst src 0 pl = Some pl"
| "move_bytes_down dst src (Suc n) pl = do {
     v \<leftarrow> nth_opt pl src;
     pl' \<leftarrow> upd_opt pl dst v;
     move_bytes_down (dst + 1) (src + 1) n pl'
   }"

fun set_cont_loop :: "pid \<Rightarrow> bid \<Rightarrow> bid list \<Rightarrow> nat \<Rightarrow> nat \<Rightarrow> pkt_state \<Rightarrow> pkt_state option" where
  "set_cont_loop p f [] dest remain_size st = Some st"
| "set_cont_loop p f (c # cs) dest remain_size st =
     (if remain_size = 0 then Some st
      else let curr_size = (if blk_size (blk st c) > remain_size then remain_size else blk_size (blk st c))
           in do {
             bytes \<leftarrow> copy_out (blk_data (blk st c)) curr_size (payload (blk st c));
             pl \<leftarrow> copy_in dest bytes (payload (blk st f));
             let st1 = upd_blk f (\<lambda>k. k\<lparr>payload := pl, blk_size := blk_size k + curr_size\<rparr>)
               (upd_blk c (\<lambda>k. k\<lparr>blk_data := blk_data k + curr_size, blk_size := blk_size k - curr_size\<rparr>) st);
             if blk_size (blk st1 c) = 0
             then set_cont_loop p f cs (dest + curr_size) (remain_size - curr_size)
                    (pktblock_free c (upd_buf p (\<lambda>pb. pb\<lparr>blk_list := remove1 c (blk_list pb)\<rparr>) st1))
             else Some st1
           })"

definition pktbuf_set_cont :: "pid \<Rightarrow> nat \<Rightarrow> pkt_state \<Rightarrow> (net_err_t \<times> pkt_state) option" where
  "pktbuf_set_cont p sz st =
     (if sz > total_size (buf st p) then Some (NET_ERR_SIZE, st)
      else if sz > PKTBUF_BLK_SIZE then Some (NET_ERR_SIZE, st)
      else case blk_list (buf st p) of [] \<Rightarrow> None
      | f # rest \<Rightarrow>
        if sz \<le> blk_size (blk st f) then Some (NET_ERR_OK, st)
        else do {
          pl \<leftarrow> move_bytes_down 0 (blk_data (blk st f)) (blk_size (blk st f)) (payload (blk st f));
          let st1 = upd_blk f (\<lambda>k. k\<lparr>payload := pl, blk_data := 0\<rparr>) st;
          st2 \<leftarrow> set_cont_loop p f rest (blk_size (blk st1 f)) (sz - blk_size (blk st1 f)) st1;
          Some (NET_ERR_OK, st2)
        })"

section \<open>Initialisation\<close>

definition PKTBUF_BLK_CNT :: nat where "PKTBUF_BLK_CNT = 100"
definition PKTBUF_BUF_CNT :: nat where "PKTBUF_BUF_CNT = 100"

text \<open>The two static arrays hold zeros; \<open>mblock_init\<close> puts every element into the free list.\<close>

definition pktbuf_init :: "net_err_t \<times> pkt_state" where
  "pktbuf_init = (NET_ERR_OK,
     \<lparr>blk = (\<lambda>_. \<lparr>blk_size = 0, blk_data = 0, payload = replicate PKTBUF_BLK_SIZE 0\<rparr>), free_blks = [0..<PKTBUF_BLK_CNT],
      buf = (\<lambda>_. \<lparr>total_size = 0, blk_list = [], ref = 0, pos = 0, curr_blk = None, blk_offset = 0\<rparr>),
      free_bufs = [0..<PKTBUF_BUF_CNT]\<rparr>)"

section \<open>Reading and writing\<close>

text \<open>\<open>pktbuf_blk_next\<close> of a block of the packet; \<open>None\<close> when the block is not in the packet.\<close>

fun blk_next :: "bid \<Rightarrow> bid list \<Rightarrow> bid option option" where
  "blk_next b [] = None"
| "blk_next b (x # xs) =
     (if x = b then Some (case xs of [] \<Rightarrow> None | y # _ \<Rightarrow> Some y) else blk_next b xs)"

definition move_forward :: "pid \<Rightarrow> nat \<Rightarrow> pkt_state \<Rightarrow> pkt_state option" where
  "move_forward p n st =
     (case curr_blk (buf st p) of None \<Rightarrow> None
      | Some c \<Rightarrow>
        let st1 = upd_buf p (\<lambda>pb. pb\<lparr>pos := pos pb + n, blk_offset := blk_offset pb + n\<rparr>) st
        in if blk_offset (buf st1 p) \<ge> blk_data (blk st c) + blk_size (blk st c)
           then do {
             nx \<leftarrow> blk_next c (blk_list (buf st p));
             Some (upd_buf p (\<lambda>pb. pb\<lparr>curr_blk := nx,
               blk_offset := (case nx of None \<Rightarrow> 0 | Some b \<Rightarrow> blk_data (blk st b))\<rparr>) st1)
           }
           else Some st1)"

text \<open>\<open>memcpy\<close> to and from the current position.\<close>

definition store_curr :: "pid \<Rightarrow> u8 list \<Rightarrow> pkt_state \<Rightarrow> pkt_state option" where
  "store_curr p bytes st =
     (case curr_blk (buf st p) of
        None \<Rightarrow> if bytes = [] then Some st else None
      | Some c \<Rightarrow> do {
          pl \<leftarrow> copy_in (blk_offset (buf st p)) bytes (payload (blk st c));
          Some (upd_blk c (\<lambda>k. k\<lparr>payload := pl\<rparr>) st)
        })"

definition load_curr :: "pid \<Rightarrow> nat \<Rightarrow> pkt_state \<Rightarrow> u8 list option" where
  "load_curr p n st =
     (case curr_blk (buf st p) of
        None \<Rightarrow> if n = 0 then Some [] else None
      | Some c \<Rightarrow> copy_out (blk_offset (buf st p)) n (payload (blk st c)))"

partial_function (option) write_loop :: "pid \<Rightarrow> u8 list \<Rightarrow> pkt_state \<Rightarrow> pkt_state option" where
  "write_loop p src st =
     (if src = [] then Some st
      else Option.bind (curr_blk_remain p st) (\<lambda>r.
           let n = (if length src > r then r else length src)
           in Option.bind (store_curr p (take n src) st) (\<lambda>st1.
              Option.bind (move_forward p n st1) (\<lambda>st2. write_loop p (drop n src) st2))))"

text \<open>\<open>src\<close> is the source from its pointer on; NULL is \<open>None\<close>.\<close>

definition pktbuf_write :: "pid \<Rightarrow> u8 list option \<Rightarrow> nat \<Rightarrow> pkt_state \<Rightarrow> (net_err_t \<times> pkt_state) option" where
  "pktbuf_write p src sz st =
     (case src of None \<Rightarrow> Some (NET_ERR_PARAM, st)
      | Some s \<Rightarrow>
        if sz = 0 then Some (NET_ERR_PARAM, st)
        else if total_blk_remain (buf st p) < int sz then Some (NET_ERR_SIZE, st)
        else if length s < sz then None
        else do { st' \<leftarrow> write_loop p (take sz s) st; Some (NET_ERR_OK, st') })"

partial_function (option) read_loop :: "pid \<Rightarrow> nat \<Rightarrow> u8 list \<Rightarrow> pkt_state \<Rightarrow> (u8 list \<times> pkt_state) option" where
  "read_loop p sz acc st =
     (if sz = 0 then Some (acc, st)
      else Option.bind (curr_blk_remain p st) (\<lambda>r.
           let n = (if sz > r then r else sz)
           in Option.bind (load_curr p n st) (\<lambda>bytes.
              Option.bind (move_forward p n st) (\<lambda>st1. read_loop p (sz - n) (acc @ bytes) st1))))"

text \<open>The error, the bytes stored at \<open>dest\<close> (a destination that is not NULL), the state.\<close>

definition pktbuf_read :: "pid \<Rightarrow> nat \<Rightarrow> pkt_state \<Rightarrow> (net_err_t \<times> u8 list \<times> pkt_state) option" where
  "pktbuf_read p sz st =
     (if sz = 0 then Some (NET_ERR_OK, [], st)
      else if total_blk_remain (buf st p) < int sz then Some (NET_ERR_SIZE, [], st)
      else do { (bytes, st') \<leftarrow> read_loop p sz [] st; Some (NET_ERR_OK, bytes, st') })"

partial_function (option) seek_loop :: "pid \<Rightarrow> nat \<Rightarrow> pkt_state \<Rightarrow> pkt_state option" where
  "seek_loop p n st =
     (if n = 0 then Some st
      else Option.bind (curr_blk_remain p st) (\<lambda>r.
           let m = (if n > r then r else n)
           in Option.bind (move_forward p m st) (\<lambda>st1. seek_loop p (n - m) st1)))"

definition pktbuf_seek :: "pid \<Rightarrow> int \<Rightarrow> pkt_state \<Rightarrow> (net_err_t \<times> pkt_state) option" where
  "pktbuf_seek p offset st =
     (if int (pos (buf st p)) = offset then Some (NET_ERR_OK, st)
      else if offset < 0 \<or> offset \<ge> int (total_size (buf st p)) then Some (NET_ERR_SIZE, st)
      else if offset < int (pos (buf st p))
      then case pktbuf_first_blk (buf st p) of None \<Rightarrow> None
           | Some b \<Rightarrow> do {
               st' \<leftarrow> seek_loop p (nat offset)
                 (upd_buf p (\<lambda>pb. pb\<lparr>curr_blk := Some b, blk_offset := blk_data (blk st b), pos := 0\<rparr>) st);
               Some (NET_ERR_OK, st')
             }
      else do {
        st' \<leftarrow> seek_loop p (nat offset - pos (buf st p)) st;
        Some (NET_ERR_OK, st')
      })"

partial_function (option) copy_loop :: "pid \<Rightarrow> pid \<Rightarrow> nat \<Rightarrow> pkt_state \<Rightarrow> pkt_state option" where
  "copy_loop dest src sz st =
     (if sz = 0 then Some st
      else Option.bind (curr_blk_remain dest st) (\<lambda>d.
           Option.bind (curr_blk_remain src st) (\<lambda>s.
           let m = (if d > s then s else d); n = (if m > sz then sz else m)
           in Option.bind (load_curr src n st) (\<lambda>bytes.
              Option.bind (store_curr dest bytes st) (\<lambda>st1.
              Option.bind (move_forward dest n st1) (\<lambda>st2.
              Option.bind (move_forward src n st2) (\<lambda>st3. copy_loop dest src (sz - n) st3)))))))"

definition pktbuf_copy :: "pid \<Rightarrow> pid \<Rightarrow> nat \<Rightarrow> pkt_state \<Rightarrow> (net_err_t \<times> pkt_state) option" where
  "pktbuf_copy dest src sz st =
     (if total_blk_remain (buf st dest) < int sz \<or> total_blk_remain (buf st src) < int sz then Some (NET_ERR_SIZE, st)
      else do { st' \<leftarrow> copy_loop dest src sz st; Some (NET_ERR_OK, st') })"

partial_function (option) fill_loop :: "pid \<Rightarrow> u8 \<Rightarrow> nat \<Rightarrow> pkt_state \<Rightarrow> pkt_state option" where
  "fill_loop p v sz st =
     (if sz = 0 then Some st
      else Option.bind (curr_blk_remain p st) (\<lambda>r.
           let n = (if sz > r then r else sz)
           in Option.bind (store_curr p (replicate n v) st) (\<lambda>st1.
              Option.bind (move_forward p n st1) (\<lambda>st2. fill_loop p v (sz - n) st2))))"

definition pktbuf_fill :: "pid \<Rightarrow> u8 \<Rightarrow> nat \<Rightarrow> pkt_state \<Rightarrow> (net_err_t \<times> pkt_state) option" where
  "pktbuf_fill p v sz st =
     (if sz = 0 then Some (NET_ERR_PARAM, st)
      else if total_blk_remain (buf st p) < int sz then Some (NET_ERR_SIZE, st)
      else do { st' \<leftarrow> fill_loop p v sz st; Some (NET_ERR_OK, st') })"

end
