(* ===== verification/Pktbuf_Access.thy ===== *)
theory Pktbuf_Access
  imports Pktbuf
begin

text \<open>
  The abstraction of a packet buffer, the bytes it holds, and what reading, writing, filling and
  seeking do to it.  A well-formed packet (\<open>buf_ok\<close>) has different blocks, none of them free,
  with their windows inside the payload and sizes adding up to \<open>total_size\<close>; a well-placed
  position (\<open>pos_ok\<close>) is the one \<open>pos\<close> says.
\<close>

section \<open>Abstraction\<close>

definition blk_bytes :: "pktblk_t \<Rightarrow> u8 list" where
  "blk_bytes k = take (blk_size k) (drop (blk_data k) (payload k))"

definition blk_ok :: "pktblk_t \<Rightarrow> bool" where
  "blk_ok k \<longleftrightarrow> length (payload k) = PKTBUF_BLK_SIZE \<and> blk_data k + blk_size k \<le> PKTBUF_BLK_SIZE"

definition bytes_of :: "(bid \<Rightarrow> pktblk_t) \<Rightarrow> bid list \<Rightarrow> u8 list" where
  "bytes_of bk bs = concat (map (\<lambda>b. blk_bytes (bk b)) bs)"

definition contents :: "pkt_state \<Rightarrow> pid \<Rightarrow> u8 list" where
  "contents st p = bytes_of (blk st) (blk_list (buf st p))"

definition buf_ok :: "pkt_state \<Rightarrow> pid \<Rightarrow> bool" where
  "buf_ok st p \<longleftrightarrow> distinct (blk_list (buf st p)) \<and> (\<forall>b\<in>set (blk_list (buf st p)). blk_ok (blk st b)) \<and>
     set (blk_list (buf st p)) \<inter> set (free_blks st) = {} \<and> total_size (buf st p) = length (contents st p)"

definition pos_ok :: "pkt_state \<Rightarrow> pid \<Rightarrow> bool" where
  "pos_ok st p \<longleftrightarrow> (case curr_blk (buf st p) of
      None \<Rightarrow> pos (buf st p) = length (contents st p)
    | Some c \<Rightarrow> \<exists>pre post. blk_list (buf st p) = pre @ c # post \<and>
        blk_data (blk st c) \<le> blk_offset (buf st p) \<and>
        blk_offset (buf st p) \<le> blk_data (blk st c) + blk_size (blk st c) \<and>
        pos (buf st p) = length (bytes_of (blk st) pre) + (blk_offset (buf st p) - blk_data (blk st c)))"

text \<open>The number of blocks from the current one on, which decreases when a block is left.\<close>

definition left :: "pkt_state \<Rightarrow> pid \<Rightarrow> nat" where
  "left st p = (case curr_blk (buf st p) of None \<Rightarrow> 0
     | Some c \<Rightarrow> length (dropWhile (\<lambda>b. b \<noteq> c) (blk_list (buf st p))))"

lemma length_blk_bytes: "blk_ok k \<Longrightarrow> length (blk_bytes k) = blk_size k"
  by (auto simp: blk_ok_def blk_bytes_def)

lemma bytes_of_simps [simp]:
  "bytes_of bk [] = []" "bytes_of bk (b # bs) = blk_bytes (bk b) @ bytes_of bk bs"
  "bytes_of bk (as @ bs) = bytes_of bk as @ bytes_of bk bs"
  by (simp_all add: bytes_of_def)

lemma bytes_of_cong: "(\<And>b. b \<in> set bs \<Longrightarrow> blk_bytes (f b) = blk_bytes (g b)) \<Longrightarrow> bytes_of f bs = bytes_of g bs"
  by (simp add: bytes_of_def cong: map_cong)

lemma bytes_of_upd [simp]: "b \<notin> set bs \<Longrightarrow> bytes_of (bk(b := k)) bs = bytes_of bk bs"
  by (rule bytes_of_cong) auto

lemma dropWhile_split: "c \<notin> set pre \<Longrightarrow> dropWhile (\<lambda>b. b \<noteq> c) (pre @ c # post) = c # post"
  by (induction pre) auto

lemma blk_next_split: "c \<notin> set pre \<Longrightarrow> blk_next c (pre @ c # post) = Some (case post of [] \<Rightarrow> None | y # _ \<Rightarrow> Some y)"
  by (induction pre) auto

text \<open>The position seen from the current block.\<close>

lemma pos_split:
  assumes "buf_ok st p" "pos_ok st p" "curr_blk (buf st p) = Some c"
  obtains pre post d where "blk_list (buf st p) = pre @ c # post" "c \<notin> set pre" "c \<notin> set post"
    "blk_offset (buf st p) = blk_data (blk st c) + d" "d \<le> blk_size (blk st c)" "blk_ok (blk st c)"
    "pos (buf st p) = length (bytes_of (blk st) pre) + d"
    "contents st p = bytes_of (blk st) pre @ blk_bytes (blk st c) @ bytes_of (blk st) post"
    "curr_blk_remain p st = Some (blk_size (blk st c) - d)" "left st p = Suc (length post)"
proof -
  obtain pre post where s: "blk_list (buf st p) = pre @ c # post" "blk_data (blk st c) \<le> blk_offset (buf st p)"
    "blk_offset (buf st p) \<le> blk_data (blk st c) + blk_size (blk st c)"
    "pos (buf st p) = length (bytes_of (blk st) pre) + (blk_offset (buf st p) - blk_data (blk st c))"
    using assms(2,3) by (auto simp: pos_ok_def)
  have d: "c \<notin> set pre" "c \<notin> set post" "blk_ok (blk st c)" using assms(1) s(1) by (auto simp: buf_ok_def)
  show thesis
    by (rule that[of pre post "blk_offset (buf st p) - blk_data (blk st c)"])
      (use s d assms(3) in \<open>auto simp: contents_def curr_blk_remain_def left_def dropWhile_split\<close>)
qed

lemma pos_le: "buf_ok st p \<Longrightarrow> pos_ok st p \<Longrightarrow> pos (buf st p) \<le> length (contents st p)"
proof (cases "curr_blk (buf st p)")
  case None
  then show "pos_ok st p \<Longrightarrow> ?thesis" by (simp add: pos_ok_def)
next
  case (Some c)
  assume ok: "buf_ok st p" "pos_ok st p"
  show ?thesis
    by (rule pos_split[OF ok Some]) (simp add: length_blk_bytes)
qed

section \<open>Moving the position\<close>

text \<open>What an access to packet \<open>p\<close> leaves alone.\<close>

definition same_but :: "pid \<Rightarrow> pkt_state \<Rightarrow> pkt_state \<Rightarrow> bool" where
  "same_but p st st' \<longleftrightarrow> free_blks st' = free_blks st \<and> free_bufs st' = free_bufs st \<and>
     (\<forall>q. q \<noteq> p \<longrightarrow> buf st' q = buf st q) \<and> blk_list (buf st' p) = blk_list (buf st p) \<and>
     total_size (buf st' p) = total_size (buf st p) \<and> ref (buf st' p) = ref (buf st p) \<and>
     (\<forall>b. blk_data (blk st' b) = blk_data (blk st b) \<and> blk_size (blk st' b) = blk_size (blk st b)) \<and>
     (\<forall>b. b \<notin> set (blk_list (buf st p)) \<longrightarrow> blk st' b = blk st b)"

lemma same_but_refl [simp]: "same_but p st st"
  by (simp add: same_but_def)

lemma same_but_trans: "same_but p st st' \<Longrightarrow> same_but p st' st'' \<Longrightarrow> same_but p st st''"
  by (auto simp: same_but_def)

lemma move_forward_ok:
  assumes ok: "buf_ok st p" "pos_ok st p" and r: "curr_blk_remain p st = Some r" "n \<le> r"
    and c: "curr_blk (buf st p) \<noteq> None"
  obtains st' where "move_forward p n st = Some st'" "blk st' = blk st" "same_but p st st'" "buf_ok st' p"
    "pos_ok st' p" "pos (buf st' p) = pos (buf st p) + n" "contents st' p = contents st p"
    "n = r \<longrightarrow> Suc (left st' p) = left st p" "left st' p \<le> left st p"
proof -
  obtain c where c: "curr_blk (buf st p) = Some c" using c by auto
  obtain pre post d where s: "blk_list (buf st p) = pre @ c # post" "c \<notin> set pre" "c \<notin> set post"
    "blk_offset (buf st p) = blk_data (blk st c) + d" "d \<le> blk_size (blk st c)" "blk_ok (blk st c)"
    "pos (buf st p) = length (bytes_of (blk st) pre) + d"
    "contents st p = bytes_of (blk st) pre @ blk_bytes (blk st c) @ bytes_of (blk st) post"
    "curr_blk_remain p st = Some (blk_size (blk st c) - d)" "left st p = Suc (length post)"
    by (rule pos_split[OF ok c])
  have rr: "r = blk_size (blk st c) - d" using r(1) s(9) by simp
  show thesis
  proof (cases "n = r")
    case False
    let ?s = "upd_buf p (\<lambda>pb. pb\<lparr>pos := pos pb + n, blk_offset := blk_offset pb + n\<rparr>) st"
    have "n < blk_size (blk st c) - d" using False r(2) rr by simp
    then have "\<not> blk_size (blk st c) \<le> d + n" by simp
    then have m: "move_forward p n st = Some ?s" using c s(4) by (simp add: move_forward_def Let_def)
    have "pos_ok ?s p" using c s r(2) rr by (auto simp: pos_ok_def)
    moreover have "buf_ok ?s p" using ok(1) by (simp add: buf_ok_def contents_def)
    ultimately show thesis using False c s
      by (intro that[OF m]) (auto simp: same_but_def contents_def left_def)
  next
    case True
    let ?nx = "case post of [] \<Rightarrow> None | y # _ \<Rightarrow> Some y"
    let ?s = "upd_buf p (\<lambda>pb. pb\<lparr>pos := pos pb + n, curr_blk := ?nx,
        blk_offset := (case ?nx of None \<Rightarrow> 0 | Some b \<Rightarrow> blk_data (blk st b))\<rparr>) st"
    have m: "move_forward p n st = Some ?s"
      using True c s rr by (auto simp: move_forward_def blk_next_split Let_def split: list.splits)
    have ps: "pos (buf st p) + n = length (bytes_of (blk st) (pre @ [c]))"
      using True s rr by (simp add: length_blk_bytes)
    have "pos_ok ?s p"
    proof (cases post)
      case Nil
      then show ?thesis using ps s by (simp add: pos_ok_def contents_def)
    next
      case (Cons y ys)
      then show ?thesis using ps s
        by (simp add: pos_ok_def) (rule exI[of _ "pre @ [c]"], simp)
    qed
    moreover have "buf_ok ?s p" using ok(1) by (simp add: buf_ok_def contents_def)
    moreover have "left ?s p = length post"
    proof (cases post)
      case (Cons y ys)
      have "distinct (pre @ c # y # ys)" using ok(1) s(1) Cons by (simp add: buf_ok_def)
      then have "y \<notin> set (pre @ [c])" by auto
      from dropWhile_split[OF this, of ys] show ?thesis using s(1) Cons by (simp add: left_def)
    qed (simp add: left_def)
    ultimately show thesis using True s
      by (intro that[OF m]) (auto simp: same_but_def contents_def)
  qed
qed

section \<open>Storing and loading\<close>

lemma window_splice:
  fixes P :: "'a list"
  assumes "a + s \<le> length P" "d + length bs \<le> s"
  shows "take s (drop a (take (a + d) P @ bs @ drop (a + d + length bs) P)) =
    take d (take s (drop a P)) @ bs @ drop (d + length bs) (take s (drop a P))"
proof -
  define Q where "Q = drop a P"
  have q: "s \<le> length Q" using assms(1) by (simp add: Q_def)
  have t: "drop a (take (a + d) P) = take d Q" by (simp add: Q_def drop_take)
  have u: "drop (a + d + length bs) P = drop (d + length bs) Q" by (simp add: Q_def ac_simps)
  have l: "length (take (a + d) P) = a + d" using assms by simp
  have "drop a (take (a + d) P @ bs @ drop (a + d + length bs) P) = take d Q @ bs @ drop (d + length bs) Q"
    unfolding u using t l by simp
  moreover have "take s (take d Q @ bs @ drop (d + length bs) Q) =
      take d Q @ bs @ take (s - (d + length bs)) (drop (d + length bs) Q)"
    using assms(2) q by simp
  moreover have "take d (take s Q) = take d Q" using assms(2) by (simp add: min_def)
  moreover have "drop (d + length bs) (take s Q) = take (s - (d + length bs)) (drop (d + length bs) Q)"
    by (simp add: drop_take)
  ultimately show ?thesis unfolding Q_def[symmetric] by simp
qed

lemma store_curr_ok:
  assumes ok: "buf_ok st p" "pos_ok st p" and r: "curr_blk_remain p st = Some r" "length bs \<le> r"
    and c: "curr_blk (buf st p) \<noteq> None"
  obtains st' where "store_curr p bs st = Some st'" "buf st' = buf st" "same_but p st st'" "buf_ok st' p" "pos_ok st' p"
    "contents st' p = take (pos (buf st p)) (contents st p) @ bs @ drop (pos (buf st p) + length bs) (contents st p)"
    "curr_blk_remain p st' = Some r" "left st' p = left st p"
proof -
  obtain c where c: "curr_blk (buf st p) = Some c" using c by auto
  obtain pre post d where s: "blk_list (buf st p) = pre @ c # post" "c \<notin> set pre" "c \<notin> set post"
    "blk_offset (buf st p) = blk_data (blk st c) + d" "d \<le> blk_size (blk st c)" "blk_ok (blk st c)"
    "pos (buf st p) = length (bytes_of (blk st) pre) + d"
    "contents st p = bytes_of (blk st) pre @ blk_bytes (blk st c) @ bytes_of (blk st) post"
    "curr_blk_remain p st = Some (blk_size (blk st c) - d)" "left st p = Suc (length post)"
    by (rule pos_split[OF ok c])
  let ?k = "blk st c"
  have len: "d + length bs \<le> blk_size ?k" "blk_data ?k + blk_size ?k \<le> length (payload ?k)"
    "length (payload ?k) = PKTBUF_BLK_SIZE" using r s by (auto simp: blk_ok_def)
  define pl where "pl = take (blk_data ?k + d) (payload ?k) @ bs @ drop (blk_data ?k + d + length bs) (payload ?k)"
  define st' where "st' = upd_blk c (\<lambda>k. k\<lparr>payload := pl\<rparr>) st"
  have st: "store_curr p bs st = Some st'"
    using c s(4) len by (simp add: store_curr_def copy_in_def st'_def pl_def)
  have lp: "length pl = PKTBUF_BLK_SIZE" using len by (simp add: pl_def)
  have bb: "blk_bytes (?k\<lparr>payload := pl\<rparr>) = take d (blk_bytes ?k) @ bs @ drop (d + length bs) (blk_bytes ?k)"
    using window_splice[OF len(2,1)] by (simp add: blk_bytes_def pl_def)
  have blkb: "blk_bytes (blk st' b) = blk_bytes (blk st b)" if "b \<noteq> c" for b using that by (simp add: st'_def)
  have others: "bytes_of (blk st') pre = bytes_of (blk st) pre" "bytes_of (blk st') post = bytes_of (blk st) post"
    using s(2,3) by (auto intro!: bytes_of_cong blkb)
  have ct: "contents st' p = bytes_of (blk st) pre @ (take d (blk_bytes ?k) @ bs @ drop (d + length bs) (blk_bytes ?k))
      @ bytes_of (blk st) post"
    using s(1) others bb by (simp add: contents_def st'_def)
  have bl: "length (blk_bytes ?k) = blk_size ?k" using s(6) by (rule length_blk_bytes)
  have sz: "blk_size (blk st' b) = blk_size (blk st b)" "blk_data (blk st' b) = blk_data (blk st b)" for b
    by (simp_all add: st'_def)
  have okb: "blk_ok (blk st' b)" if "blk_ok (blk st b)" for b
    using that lp len by (auto simp: st'_def blk_ok_def)
  have "buf_ok st' p"
    using ok(1) okb s(8) ct bl len unfolding buf_ok_def by (simp add: st'_def)
  moreover have "pos_ok st' p" using c s others unfolding pos_ok_def by (auto simp: st'_def sz)
  moreover have "curr_blk_remain p st' = Some r" using c s(4,5,9) r(1) by (simp add: curr_blk_remain_def st'_def)
  moreover have "contents st' p = take (pos (buf st p)) (contents st p) @ bs @ drop (pos (buf st p) + length bs) (contents st p)"
    unfolding ct s(7,8) using bl len by simp
  ultimately show thesis using s(1) c
    by (intro that[OF st]) (auto simp: st'_def same_but_def left_def)
qed

lemma load_curr_ok:
  assumes ok: "buf_ok st p" "pos_ok st p" and r: "curr_blk_remain p st = Some r" "n \<le> r"
    and c: "curr_blk (buf st p) \<noteq> None"
  shows "load_curr p n st = Some (take n (drop (pos (buf st p)) (contents st p)))"
proof -
  obtain c where c: "curr_blk (buf st p) = Some c" using c by auto
  obtain pre post d where s: "blk_list (buf st p) = pre @ c # post"
    "blk_offset (buf st p) = blk_data (blk st c) + d" "d \<le> blk_size (blk st c)" "blk_ok (blk st c)"
    "pos (buf st p) = length (bytes_of (blk st) pre) + d"
    "contents st p = bytes_of (blk st) pre @ blk_bytes (blk st c) @ bytes_of (blk st) post"
    "curr_blk_remain p st = Some (blk_size (blk st c) - d)"
    by (rule pos_split[OF ok c]) blast
  have len: "d + n \<le> blk_size (blk st c)" "blk_data (blk st c) + blk_size (blk st c) \<le> length (payload (blk st c))"
    using r s by (auto simp: blk_ok_def)
  then have "load_curr p n st = Some (take n (drop (blk_data (blk st c) + d) (payload (blk st c))))"
    using c s(2) by (simp add: load_curr_def copy_out_def)
  moreover have "take n (drop (pos (buf st p)) (contents st p)) = take n (drop d (blk_bytes (blk st c)))"
    unfolding s(5,6) using len length_blk_bytes[OF s(4)] by simp
  moreover have "take n (drop d (blk_bytes (blk st c))) = take n (drop (blk_data (blk st c) + d) (payload (blk st c)))"
    unfolding blk_bytes_def using len by (simp add: drop_take add.commute)
  ultimately show ?thesis by simp
qed


section \<open>The loops\<close>

text \<open>
  One round of every loop: there is a current block, and the \<open>n\<close> bytes of the round either empty
  it or are all that was asked for.
\<close>

lemma access_round:
  assumes "buf_ok st p" "pos_ok st p" "0 < m" "pos (buf st p) + m \<le> length (contents st p)"
  obtains r where "curr_blk (buf st p) \<noteq> None" "curr_blk_remain p st = Some r"
proof -
  have c: "curr_blk (buf st p) \<noteq> None" using assms(2-4) by (auto simp: pos_ok_def split: option.splits)
  then obtain c where "curr_blk (buf st p) = Some c" by auto
  from pos_split[OF assms(1,2) this] c show thesis using that by metis
qed

lemma splice_splice:
  assumes "a + length xs + length ys \<le> length zs"
  shows "take (a + length xs) (take a zs @ xs @ drop (a + length xs) zs) @ ys @
      drop (a + length xs + length ys) (take a zs @ xs @ drop (a + length xs) zs) =
    take a zs @ (xs @ ys) @ drop (a + length (xs @ ys)) zs"
  using assms by (simp add: ac_simps)

lemma write_loop_ok:
  assumes "buf_ok st p" "pos_ok st p" "pos (buf st p) + length src \<le> length (contents st p)"
  shows "\<exists>st'. write_loop p src st = Some st' \<and> same_but p st st' \<and> buf_ok st' p \<and> pos_ok st' p \<and>
    pos (buf st' p) = pos (buf st p) + length src \<and>
    contents st' p = take (pos (buf st p)) (contents st p) @ src @ drop (pos (buf st p) + length src) (contents st p)"
  using assms
proof (induction "length src + left st p" arbitrary: src st rule: less_induct)
  case less
  show ?case
  proof (cases "src = []")
    case True
    then show ?thesis using less.prems by (simp add: write_loop.simps)
  next
    case False
    obtain r where r: "curr_blk (buf st p) \<noteq> None" "curr_blk_remain p st = Some r"
      using access_round[OF less.prems(1,2), of "length src"] less.prems(3) False by auto
    define n where "n = (if length src > r then r else length src)"
    have n: "n \<le> r" "n \<le> length src" "length (take n src) = n" by (auto simp: n_def)
    obtain st1 where s1: "store_curr p (take n src) st = Some st1" "buf st1 = buf st" "same_but p st st1"
      "buf_ok st1 p" "pos_ok st1 p" "curr_blk_remain p st1 = Some r" "left st1 p = left st p"
      "contents st1 p = take (pos (buf st p)) (contents st p) @ take n src @ drop (pos (buf st p) + n) (contents st p)"
      by (rule store_curr_ok[OF less.prems(1,2) r(2), of "take n src"]) (use n r(1) in auto)
    obtain st2 where s2: "move_forward p n st1 = Some st2" "same_but p st1 st2" "buf_ok st2 p"
      "pos_ok st2 p" "pos (buf st2 p) = pos (buf st1 p) + n" "contents st2 p = contents st1 p"
      "n = r \<longrightarrow> Suc (left st2 p) = left st1 p" "left st2 p \<le> left st1 p"
      by (rule move_forward_ok[OF s1(4,5,6) n(1)]) (use r(1) s1(2) in auto)
    have pos: "0 < length src" using False by simp
    have dec: "length (drop n src) + left st2 p < length src + left st p"
    proof (cases "n = r")
      case True
      then show ?thesis using s2(7) s1(7) by simp
    next
      case False
      then have "n = length src" by (simp add: n_def split: if_splits)
      then show ?thesis using s2(8) s1(7) pos unfolding length_drop by linarith
    qed
    have len: "length (contents st2 p) = length (contents st p)" using less.prems(3) n s1(8) s2(6) by simp
    have "pos (buf st2 p) + length (drop n src) \<le> length (contents st2 p)"
      using less.prems(3) n s2(5) s1(2) len by simp
    from less.hyps[OF dec s2(3,4) this] obtain st' where st': "write_loop p (drop n src) st2 = Some st'"
      "same_but p st2 st'" "buf_ok st' p" "pos_ok st' p" "pos (buf st' p) = pos (buf st2 p) + length (drop n src)"
      "contents st' p = take (pos (buf st2 p)) (contents st2 p) @ drop n src @
         drop (pos (buf st2 p) + length (drop n src)) (contents st2 p)" by blast
    have "write_loop p src st = Some st'"
      using False r(2) s1(1) s2(1) st'(1) by (subst write_loop.simps) (simp add: n_def[symmetric])
    moreover have "same_but p st st'" using s1(3) s2(2) st'(2) same_but_trans by blast
    moreover have "contents st' p = take (pos (buf st p)) (contents st p) @ src @ drop (pos (buf st p) + length src) (contents st p)"
      using splice_splice[of "pos (buf st p)" "take n src" "drop n src" "contents st p"] less.prems(3) n
      by (simp add: st'(6) s2(5,6) s1(2,8))
    ultimately show ?thesis using st' s2(5) s1(2) n by auto
  qed
qed

lemma fill_loop_ok:
  assumes "buf_ok st p" "pos_ok st p" "pos (buf st p) + sz \<le> length (contents st p)"
  shows "fill_loop p v sz st = write_loop p (replicate sz v) st"
  using assms
proof (induction "sz + left st p" arbitrary: sz st rule: less_induct)
  case less
  show ?case
  proof (cases "sz = 0")
    case True
    then show ?thesis by (simp add: write_loop.simps fill_loop.simps)
  next
    case False
    obtain r where r: "curr_blk (buf st p) \<noteq> None" "curr_blk_remain p st = Some r"
      using access_round[OF less.prems(1,2), of sz] less.prems(3) False by auto
    define n where "n = (if sz > r then r else sz)"
    have n: "n \<le> r" "n \<le> sz" "min n sz = n" by (auto simp: n_def)
    obtain st1 where s1: "store_curr p (replicate n v) st = Some st1" "buf st1 = buf st"
      "buf_ok st1 p" "pos_ok st1 p" "curr_blk_remain p st1 = Some r" "left st1 p = left st p"
      "contents st1 p = take (pos (buf st p)) (contents st p) @ replicate n v @ drop (pos (buf st p) + n) (contents st p)"
      by (rule store_curr_ok[OF less.prems(1,2) r(2), of "replicate n v"]) (use n r(1) in auto)
    obtain st2 where s2: "move_forward p n st1 = Some st2" "buf_ok st2 p"
      "pos_ok st2 p" "pos (buf st2 p) = pos (buf st1 p) + n" "contents st2 p = contents st1 p"
      "n = r \<longrightarrow> Suc (left st2 p) = left st1 p" "left st2 p \<le> left st1 p"
      by (rule move_forward_ok[OF s1(3,4,5) n(1)]) (use r(1) s1(2) in auto)
    have dec: "sz - n + left st2 p < sz + left st p"
      using s2(6,7) s1(6) False n by (auto simp: n_def split: if_splits)
    have "length (contents st2 p) = length (contents st p)" using less.prems(3) n s1(7) s2(5) by simp
    then have "pos (buf st2 p) + (sz - n) \<le> length (contents st2 p)"
      using less.prems(3) n s2(4) s1(2) by simp
    from less.hyps[OF dec s2(2,3) this] show ?thesis
      using False r(2) s1(1) s2(1) unfolding n_def
      by (subst fill_loop.simps, subst write_loop.simps) (auto split: if_splits)
  qed
qed

lemma read_loop_ok:
  assumes "buf_ok st p" "pos_ok st p" "pos (buf st p) + sz \<le> length (contents st p)"
  shows "\<exists>st'. read_loop p sz acc st = Some (acc @ take sz (drop (pos (buf st p)) (contents st p)), st') \<and>
    same_but p st st' \<and> blk st' = blk st \<and> buf_ok st' p \<and> pos_ok st' p \<and> pos (buf st' p) = pos (buf st p) + sz"
  using assms
proof (induction "sz + left st p" arbitrary: sz acc st rule: less_induct)
  case less
  show ?case
  proof (cases "sz = 0")
    case True
    then show ?thesis using less.prems by (simp add: read_loop.simps)
  next
    case False
    obtain r where r: "curr_blk (buf st p) \<noteq> None" "curr_blk_remain p st = Some r"
      using access_round[OF less.prems(1,2), of sz] less.prems(3) False by auto
    define n where "n = (if sz > r then r else sz)"
    have n: "n \<le> r" "n \<le> sz" by (auto simp: n_def)
    note ld = load_curr_ok[OF less.prems(1,2) r(2) n(1) r(1)]
    obtain st2 where s2: "move_forward p n st = Some st2" "blk st2 = blk st" "same_but p st st2" "buf_ok st2 p"
      "pos_ok st2 p" "pos (buf st2 p) = pos (buf st p) + n" "contents st2 p = contents st p"
      "n = r \<longrightarrow> Suc (left st2 p) = left st p" "left st2 p \<le> left st p"
      by (rule move_forward_ok[OF less.prems(1,2) r(2) n(1) r(1)])
    have dec: "sz - n + left st2 p < sz + left st p"
      using s2(8,9) False n by (auto simp: n_def split: if_splits)
    have "pos (buf st2 p) + (sz - n) \<le> length (contents st2 p)"
      using less.prems(3) n s2(6,7) by simp
    from less.hyps[OF dec s2(4,5) this, of "acc @ take n (drop (pos (buf st p)) (contents st p))"]
    obtain st' where st': "read_loop p (sz - n) (acc @ take n (drop (pos (buf st p)) (contents st p))) st2 =
        Some ((acc @ take n (drop (pos (buf st p)) (contents st p))) @ take (sz - n) (drop (pos (buf st2 p)) (contents st2 p)), st')"
      "same_but p st2 st'" "blk st' = blk st2" "buf_ok st' p" "pos_ok st' p" "pos (buf st' p) = pos (buf st2 p) + (sz - n)"
      by blast
    have "take n (drop (pos (buf st p)) (contents st p)) @ take (sz - n) (drop (pos (buf st2 p)) (contents st2 p)) =
        take sz (drop (pos (buf st p)) (contents st p))"
      using take_add[of n "sz - n" "drop (pos (buf st p)) (contents st p)"] n s2(6,7) by (simp add: ac_simps)
    then have "read_loop p sz acc st = Some (acc @ take sz (drop (pos (buf st p)) (contents st p)), st')"
      using False r(2) ld s2(1) st'(1) by (subst read_loop.simps) (simp add: n_def[symmetric])
    moreover have "same_but p st st'" using s2(3) st'(2) same_but_trans by blast
    ultimately show ?thesis using st' s2(2,6) n by auto
  qed
qed

lemma seek_loop_ok:
  assumes "buf_ok st p" "pos_ok st p" "pos (buf st p) + sz \<le> length (contents st p)"
  shows "\<exists>st'. seek_loop p sz st = Some st' \<and> same_but p st st' \<and> blk st' = blk st \<and>
    buf_ok st' p \<and> pos_ok st' p \<and> pos (buf st' p) = pos (buf st p) + sz"
  using assms
proof (induction "sz + left st p" arbitrary: sz st rule: less_induct)
  case less
  show ?case
  proof (cases "sz = 0")
    case True
    then show ?thesis using less.prems by (simp add: seek_loop.simps)
  next
    case False
    obtain r where r: "curr_blk (buf st p) \<noteq> None" "curr_blk_remain p st = Some r"
      using access_round[OF less.prems(1,2), of sz] less.prems(3) False by auto
    define n where "n = (if sz > r then r else sz)"
    have n: "n \<le> r" "n \<le> sz" by (auto simp: n_def)
    obtain st2 where s2: "move_forward p n st = Some st2" "blk st2 = blk st" "same_but p st st2" "buf_ok st2 p"
      "pos_ok st2 p" "pos (buf st2 p) = pos (buf st p) + n" "contents st2 p = contents st p"
      "n = r \<longrightarrow> Suc (left st2 p) = left st p" "left st2 p \<le> left st p"
      by (rule move_forward_ok[OF less.prems(1,2) r(2) n(1) r(1)])
    have dec: "sz - n + left st2 p < sz + left st p"
      using s2(8,9) False n by (auto simp: n_def split: if_splits)
    have "pos (buf st2 p) + (sz - n) \<le> length (contents st2 p)"
      using less.prems(3) n s2(6,7) by simp
    from less.hyps[OF dec s2(4,5) this]
    obtain st' where st': "seek_loop p (sz - n) st2 = Some st'"
      "same_but p st2 st'" "blk st' = blk st2" "buf_ok st' p" "pos_ok st' p" "pos (buf st' p) = pos (buf st2 p) + (sz - n)"
      by blast
    have "seek_loop p sz st = Some st'"
      using False r(2) s2(1) st'(1) by (subst seek_loop.simps) (simp add: n_def[symmetric])
    moreover have "same_but p st st'" using s2(3) st'(2) same_but_trans by blast
    ultimately show ?thesis using st' s2(2,6) n by auto
  qed
qed


text \<open>A packet with other blocks is not touched.\<close>

lemma same_but_other:
  assumes sb: "same_but p st st'" and q: "q \<noteq> p" and dj: "set (blk_list (buf st q)) \<inter> set (blk_list (buf st p)) = {}"
    and ok: "buf_ok st q" "pos_ok st q"
  shows "buf st' q = buf st q" "contents st' q = contents st q" "buf_ok st' q" "pos_ok st' q" "left st' q = left st q"
    "curr_blk_remain q st' = curr_blk_remain q st"
proof -
  show b: "buf st' q = buf st q" using sb q by (simp add: same_but_def)
  have k: "blk st' c = blk st c" if "c \<in> set (blk_list (buf st q))" for c using sb dj that by (auto simp: same_but_def)
  show c: "contents st' q = contents st q"
    unfolding contents_def b by (rule bytes_of_cong) (simp add: k)
  show "buf_ok st' q" using ok(1) sb unfolding buf_ok_def b c by (simp add: same_but_def k)
  show "left st' q = left st q" by (simp add: left_def b cong: option.case_cong)
  show "pos_ok st' q"
  proof (cases "curr_blk (buf st q)")
    case None
    then show ?thesis using ok(2) by (simp add: pos_ok_def b c)
  next
    case (Some d)
    show ?thesis
    proof (rule pos_split[OF ok Some], goal_cases)
      case (1 pre post e)
      then have "bytes_of (blk st') pre = bytes_of (blk st) pre" "blk st' d = blk st d"
        using k by (auto intro: bytes_of_cong)
      then show ?thesis using 1 Some by (auto simp: pos_ok_def b)
    qed
  qed
  show "curr_blk_remain q st' = curr_blk_remain q st"
  proof (cases "curr_blk (buf st q)")
    case (Some d)
    then have "d \<in> set (blk_list (buf st q))" using ok(2) by (auto simp: pos_ok_def)
    then show ?thesis using Some by (simp add: curr_blk_remain_def b k Let_def)
  qed (simp add: curr_blk_remain_def b)
qed

definition two_ok :: "pkt_state \<Rightarrow> pid \<Rightarrow> pid \<Rightarrow> bool" where
  "two_ok st p q \<longleftrightarrow> p \<noteq> q \<and> set (blk_list (buf st p)) \<inter> set (blk_list (buf st q)) = {} \<and>
     buf_ok st p \<and> pos_ok st p \<and> buf_ok st q \<and> pos_ok st q"

lemma two_ok_keep:
  assumes "two_ok st p q" "same_but p st st'" "buf_ok st' p" "pos_ok st' p"
  shows "two_ok st' p q" "buf st' q = buf st q" "contents st' q = contents st q" "left st' q = left st q"
    "curr_blk_remain q st' = curr_blk_remain q st"
  using assms same_but_other[OF assms(2), of q] by (auto simp: two_ok_def same_but_def)

lemma two_ok_sym: "two_ok st p q \<Longrightarrow> two_ok st q p"
  by (auto simp: two_ok_def)

text \<open>What work on two packets leaves alone.\<close>

definition pair_but :: "pid \<Rightarrow> pid \<Rightarrow> pkt_state \<Rightarrow> pkt_state \<Rightarrow> bool" where
  "pair_but p q st st' \<longleftrightarrow> free_blks st' = free_blks st \<and> free_bufs st' = free_bufs st \<and> (\<forall>r. r \<noteq> p \<and> r \<noteq> q \<longrightarrow> buf st' r = buf st r) \<and>
     (\<forall>r. blk_list (buf st' r) = blk_list (buf st r) \<and> total_size (buf st' r) = total_size (buf st r) \<and> ref (buf st' r) = ref (buf st r)) \<and>
     (\<forall>b. blk_data (blk st' b) = blk_data (blk st b) \<and> blk_size (blk st' b) = blk_size (blk st b)) \<and>
     (\<forall>b. b \<notin> set (blk_list (buf st p)) \<union> set (blk_list (buf st q)) \<longrightarrow> blk st' b = blk st b)"

lemma same_but_pair:
  assumes "same_but p st st'" shows "pair_but p q st st'" "pair_but q p st st'"
proof -
  have "blk_list (buf st' r) = blk_list (buf st r) \<and> total_size (buf st' r) = total_size (buf st r) \<and> ref (buf st' r) = ref (buf st r)" for r
    using assms by (cases "r = p") (auto simp: same_but_def)
  then show "pair_but p q st st'" "pair_but q p st st'" using assms by (auto simp: pair_but_def same_but_def)
qed

lemma pair_but_trans: "pair_but p q st st' \<Longrightarrow> pair_but p q st' st'' \<Longrightarrow> pair_but p q st st''"
  unfolding pair_but_def by auto

lemma copy_loop_ok:
  assumes "two_ok st p q" "pos (buf st p) + sz \<le> length (contents st p)" "pos (buf st q) + sz \<le> length (contents st q)"
  shows "\<exists>st'. copy_loop p q sz st = Some st' \<and> two_ok st' p q \<and> pos (buf st' p) = pos (buf st p) + sz \<and>
    pos (buf st' q) = pos (buf st q) + sz \<and> contents st' q = contents st q \<and>
    contents st' p = take (pos (buf st p)) (contents st p) @ take sz (drop (pos (buf st q)) (contents st q)) @
      drop (pos (buf st p) + sz) (contents st p) \<and> pair_but p q st st'"
  using assms
proof (induction "sz + left st p + left st q" arbitrary: sz st rule: less_induct)
  case less
  show ?case
  proof (cases "sz = 0")
    case True
    then show ?thesis using less.prems by (simp add: copy_loop.simps pair_but_def)
  next
    case False
    have ok: "buf_ok st p" "pos_ok st p" "buf_ok st q" "pos_ok st q" using less.prems(1) by (auto simp: two_ok_def)
    obtain d where d: "curr_blk (buf st p) \<noteq> None" "curr_blk_remain p st = Some d"
      using access_round[OF ok(1,2), of sz] less.prems(2) False by auto
    obtain s where s: "curr_blk (buf st q) \<noteq> None" "curr_blk_remain q st = Some s"
      using access_round[OF ok(3,4), of sz] less.prems(3) False by auto
    define n where "n = (if (if d > s then s else d) > sz then sz else (if d > s then s else d))"
    have n: "n \<le> d" "n \<le> s" "n \<le> sz" "n = d \<or> n = s \<or> n = sz" by (auto simp: n_def)
    define bs where "bs = take n (drop (pos (buf st q)) (contents st q))"
    have ld: "load_curr q n st = Some bs" unfolding bs_def by (rule load_curr_ok[OF ok(3,4) s(2) n(2) s(1)])
    have lb: "length bs = n" using less.prems(3) n by (simp add: bs_def)
    obtain st1 where s1: "store_curr p bs st = Some st1" "buf st1 = buf st" "same_but p st st1"
      "buf_ok st1 p" "pos_ok st1 p" "curr_blk_remain p st1 = Some d" "left st1 p = left st p"
      "contents st1 p = take (pos (buf st p)) (contents st p) @ bs @ drop (pos (buf st p) + length bs) (contents st p)"
      by (rule store_curr_ok[OF ok(1,2) d(2), of bs]) (use n d(1) lb in auto)
    note t1 = two_ok_keep[OF less.prems(1) s1(3,4,5)]
    obtain st2 where s2: "move_forward p n st1 = Some st2" "same_but p st1 st2" "buf_ok st2 p"
      "pos_ok st2 p" "pos (buf st2 p) = pos (buf st1 p) + n" "contents st2 p = contents st1 p"
      "n = d \<longrightarrow> Suc (left st2 p) = left st1 p" "left st2 p \<le> left st1 p"
      by (rule move_forward_ok[OF s1(4,5,6) n(1)]) (use d(1) s1(2) in auto)
    note t2 = two_ok_keep[OF t1(1) s2(2,3,4)]
    have q2: "buf_ok st2 q" "pos_ok st2 q" "curr_blk_remain q st2 = Some s" "curr_blk (buf st2 q) \<noteq> None"
      using t2 t1 s by (auto simp: two_ok_def)
    obtain st3 where s3: "move_forward q n st2 = Some st3" "same_but q st2 st3" "buf_ok st3 q"
      "pos_ok st3 q" "pos (buf st3 q) = pos (buf st2 q) + n" "contents st3 q = contents st2 q"
      "n = s \<longrightarrow> Suc (left st3 q) = left st2 q" "left st3 q \<le> left st2 q"
      by (rule move_forward_ok[OF q2(1,2,3) n(2) q2(4)])
    note t3 = two_ok_keep[OF two_ok_sym[OF t2(1)] s3(2,3,4)]
    have p3: "pos (buf st3 p) = pos (buf st p) + n" "pos (buf st3 q) = pos (buf st q) + n"
      "contents st3 q = contents st q" "contents st3 p = contents st1 p"
      using t1 t2 t3 s1(2) s2(5,6) s3(5,6) by simp_all
    have dec: "sz - n + left st3 p + left st3 q < sz + left st p + left st q"
      using n False s2(7,8) s3(7,8) t3(4) t2(4) t1(4) s1(7) by auto
    have len: "length (contents st3 p) = length (contents st p)" using p3(4) s1(8) lb n less.prems(2) by simp
    have "pos (buf st3 p) + (sz - n) \<le> length (contents st3 p)" "pos (buf st3 q) + (sz - n) \<le> length (contents st3 q)"
      using less.prems(2,3) n p3 len by simp_all
    from less.hyps[OF dec two_ok_sym[OF t3(1)] this] obtain st' where st': "copy_loop p q (sz - n) st3 = Some st'"
      "two_ok st' p q" "pos (buf st' p) = pos (buf st3 p) + (sz - n)" "pos (buf st' q) = pos (buf st3 q) + (sz - n)"
      "contents st' q = contents st3 q"
      "contents st' p = take (pos (buf st3 p)) (contents st3 p) @ take (sz - n) (drop (pos (buf st3 q)) (contents st3 q)) @
         drop (pos (buf st3 p) + (sz - n)) (contents st3 p)" "pair_but p q st3 st'" by blast
    have "pair_but p q st st'"
      using same_but_pair(1)[OF s1(3)] same_but_pair(1)[OF s2(2)] same_but_pair(2)[OF s3(2)] st'(7) by (meson pair_but_trans)
    define rest where "rest = take (sz - n) (drop (pos (buf st q) + n) (contents st q))"
    have whole: "bs @ rest = take sz (drop (pos (buf st q)) (contents st q))"
      using take_add[of n "sz - n" "drop (pos (buf st q)) (contents st q)"] n by (simp add: bs_def rest_def ac_simps)
    have lr: "length rest = sz - n" using less.prems(3) by (simp add: rest_def)
    have "contents st' p = take (pos (buf st p)) (contents st p) @ (bs @ rest) @ drop (pos (buf st p) + sz) (contents st p)"
      using splice_splice[of "pos (buf st p)" bs rest "contents st p"] less.prems(2) n lb lr
      unfolding st'(6) p3 s1(8) rest_def[symmetric] by simp
    moreover have "copy_loop p q sz st = Some st'"
      using False d(2) s(2) ld s1(1) s2(1) s3(1) st'(1)
      by (subst copy_loop.simps) (simp add: Let_def n_def[symmetric])
    ultimately show ?thesis using \<open>pair_but p q st st'\<close> st'(2-5) p3 n whole by auto
  qed
qed

section \<open>What the operations promise\<close>

lemma pktbuf_write_ok:
  assumes "buf_ok st p" "pos_ok st p" "0 < sz" "sz \<le> length s" "pos (buf st p) + sz \<le> total_size (buf st p)"
  shows "\<exists>st'. pktbuf_write p (Some s) sz st = Some (NET_ERR_OK, st') \<and> same_but p st st' \<and> buf_ok st' p \<and> pos_ok st' p \<and>
    pos (buf st' p) = pos (buf st p) + sz \<and>
    contents st' p = take (pos (buf st p)) (contents st p) @ take sz s @ drop (pos (buf st p) + sz) (contents st p)"
proof -
  have "pos (buf st p) + length (take sz s) \<le> length (contents st p)" using assms by (simp add: buf_ok_def)
  from write_loop_ok[OF assms(1,2) this] assms(3-5) show ?thesis
    by (auto simp: pktbuf_write_def total_blk_remain_def)
qed

lemma pktbuf_seek_ok:
  assumes ok: "buf_ok st p" "pos_ok st p" and off: "off < total_size (buf st p)"
  shows "\<exists>st'. pktbuf_seek p (int off) st = Some (NET_ERR_OK, st') \<and> same_but p st st' \<and> blk st' = blk st \<and>
    buf_ok st' p \<and> pos_ok st' p \<and> pos (buf st' p) = off"
proof -
  have len: "off < length (contents st p)" using ok(1) off by (simp add: buf_ok_def)
  consider "pos (buf st p) = off" | "off < pos (buf st p)" | "pos (buf st p) < off" by linarith
  then show ?thesis
  proof cases
    case 1
    then show ?thesis using ok by (simp add: pktbuf_seek_def)
  next
    case 2
    obtain b bs where l: "blk_list (buf st p) = b # bs" using len by (cases "blk_list (buf st p)") (auto simp: contents_def)
    let ?s = "upd_buf p (\<lambda>pb. pb\<lparr>curr_blk := Some b, blk_offset := blk_data (blk st b), pos := 0\<rparr>) st"
    have c: "contents ?s p = contents st p" by (simp add: contents_def)
    have sok: "buf_ok ?s p" using ok(1) by (simp add: buf_ok_def contents_def)
    have "pos_ok ?s p" using l by (simp add: pos_ok_def) (rule exI[of _ "[]"], simp)
    from seek_loop_ok[OF sok this, of off] len c obtain st' where st': "seek_loop p off ?s = Some st'" "same_but p ?s st'"
      "blk st' = blk st" "buf_ok st' p" "pos_ok st' p" "pos (buf st' p) = off" by auto
    have "same_but p st ?s" by (simp add: same_but_def)
    then have "same_but p st st'" using st'(2) same_but_trans by blast
    then show ?thesis using st' 2 off l by (auto simp: pktbuf_seek_def pktbuf_first_blk_def)
  next
    case 3
    from seek_loop_ok[OF ok, of "off - pos (buf st p)"] len 3 show ?thesis
      using off by (auto simp: pktbuf_seek_def)
  qed
qed

end
