(* ===== verification/Pktbuf_Struct.thy ===== *)
theory Pktbuf_Struct
  imports Pktbuf_Access "HOL-Library.Multiset"
begin

text \<open>
  What the operations that change the blocks of a packet do to the bytes it holds: headers are
  added and removed in front, resizing cuts or extends at the end, joining appends, and making a
  prefix contiguous changes nothing.  None of them loses a block: those of the packet and the free
  ones are together the same multiset afterwards (\<open>own\<close>).
\<close>

section \<open>Ownership\<close>

definition free_ok :: "pkt_state \<Rightarrow> bool" where
  "free_ok st \<longleftrightarrow> distinct (free_blks st) \<and> (\<forall>b\<in>set (free_blks st). length (payload (blk st b)) = PKTBUF_BLK_SIZE)"

definition own :: "pkt_state \<Rightarrow> pid \<Rightarrow> bid multiset" where
  "own st p = mset (free_blks st) + mset (blk_list (buf st p))"

definition keeps :: "pid \<Rightarrow> pkt_state \<Rightarrow> pkt_state \<Rightarrow> bool" where
  "keeps p st st' \<longleftrightarrow> own st' p = own st p \<and> free_bufs st' = free_bufs st \<and> ref (buf st' p) = ref (buf st p) \<and>
     (\<forall>q. q \<noteq> p \<longrightarrow> buf st' q = buf st q) \<and> (\<forall>b. b \<notin># own st p \<longrightarrow> blk st' b = blk st b)"

lemma keeps_refl [simp]: "keeps p st st"
  by (simp add: keeps_def)

lemma keeps_trans: "keeps p st st' \<Longrightarrow> keeps p st' st'' \<Longrightarrow> keeps p st st''"
  by (simp add: keeps_def)

definition pkt_ok :: "pkt_state \<Rightarrow> pid \<Rightarrow> bool" where
  "pkt_ok st p \<longleftrightarrow> free_ok st \<and> buf_ok st p"

definition sizes :: "(bid \<Rightarrow> pktblk_t) \<Rightarrow> bid list \<Rightarrow> nat" where
  "sizes bk bs = sum_list (map (\<lambda>b. blk_size (bk b)) bs)"

lemma sizes_simps [simp]: "sizes bk [] = 0" "sizes bk (b # bs) = blk_size (bk b) + sizes bk bs"
  "sizes bk (as @ bs) = sizes bk as + sizes bk bs" "sizes bk (rev bs) = sizes bk bs"
  by (simp_all add: sizes_def rev_map[symmetric])

lemma sizes_cong: "(\<And>b. b \<in> set bs \<Longrightarrow> f b = g b) \<Longrightarrow> sizes f bs = sizes g bs"
  by (simp add: sizes_def cong: map_cong)

lemma length_bytes_of: "(\<And>b. b \<in> set bs \<Longrightarrow> blk_ok (bk b)) \<Longrightarrow> length (bytes_of bk bs) = sizes bk bs"
  by (induction bs) (simp_all add: length_blk_bytes)

section \<open>Allocating blocks\<close>

lemma free_list_eq: "pktblock_free_list bs st = st\<lparr>free_blks := free_blks st @ bs\<rparr>"
  by (induction bs arbitrary: st) (simp_all add: pktblock_free_def)

text \<open>
  The outcome of an allocation: the first free blocks, in the order the direction asks for, with
  windows of together \<open>sz\<close> bytes; or nothing, when there are not enough blocks, with every block
  back in the free list.
\<close>

definition alloc_done :: "nat \<Rightarrow> bool \<Rightarrow> bid list \<Rightarrow> pkt_state \<Rightarrow> bid list \<Rightarrow> pkt_state \<Rightarrow> bool" where
  "alloc_done sz af chain st cs st' \<longleftrightarrow> (\<exists>new. free_blks st = new @ free_blks st' \<and>
      cs = (if af then rev new @ chain else chain @ new) \<and>
      (\<forall>b. b \<notin> set new \<longrightarrow> blk st' b = blk st b) \<and> buf st' = buf st \<and> free_bufs st' = free_bufs st \<and>
      (\<forall>b\<in>set new. blk_ok (blk st' b)) \<and> sizes (blk st') new = sz \<and> (0 < sz \<longrightarrow> new \<noteq> []) \<and>
      (sz \<le> PKTBUF_BLK_SIZE \<longrightarrow> length new \<le> 1))"

definition alloc_failed :: "nat \<Rightarrow> bid list \<Rightarrow> pkt_state \<Rightarrow> bid list \<Rightarrow> pkt_state \<Rightarrow> bool" where
  "alloc_failed sz chain st cs st' \<longleftrightarrow> cs = [] \<and> mset (free_blks st') = mset (free_blks st) + mset chain \<and>
      buf st' = buf st \<and> free_bufs st' = free_bufs st \<and> (\<forall>b. b \<notin> set (free_blks st) \<longrightarrow> blk st' b = blk st b) \<and>
      (\<forall>b. payload (blk st' b) = payload (blk st b)) \<and> length (free_blks st) * PKTBUF_BLK_SIZE < sz"

lemma alloc_loop_ok:
  assumes "free_ok st"
  shows "case pktblock_alloc_loop sz af chain st of (cs, st') \<Rightarrow>
      alloc_done sz af chain st cs st' \<or> alloc_failed sz chain st cs st'"
  using assms
proof (induction sz af chain st rule: pktblock_alloc_loop.induct)
  case (1 sz af chain st)
  show ?case
  proof (cases "sz = 0")
    case True
    then show ?thesis by (simp add: alloc_done_def pktblock_alloc_loop.simps)
  next
    case nz: False
    show ?thesis
    proof (cases "free_blks st")
      case Nil
      then show ?thesis using nz by (simp add: pktblock_alloc_def free_list_eq alloc_failed_def pktblock_alloc_loop.simps)
    next
      case (Cons b bs)
      define n where "n = (if sz > PKTBUF_BLK_SIZE then PKTBUF_BLK_SIZE else sz)"
      define st1 where "st1 = upd_blk b (\<lambda>k. k\<lparr>blk_size := 0, blk_data := 0\<rparr>) (st\<lparr>free_blks := bs\<rparr>)"
      define st2 where "st2 = upd_blk b (\<lambda>k. k\<lparr>blk_size := n, blk_data := (if af then PKTBUF_BLK_SIZE - n else 0)\<rparr>) st1"
      define ch where "ch = (if af then b # chain else chain @ [b])"
      obtain cs st' where r: "pktblock_alloc_loop (sz - n) af ch st2 = (cs, st')" by fastforce
      have a: "pktblock_alloc st = (Some b, st1)" by (simp add: pktblock_alloc_def Cons st1_def)
      have res: "pktblock_alloc_loop sz af chain st = (cs, st')"
        using nz a r by (subst pktblock_alloc_loop.simps) (simp only: Let_def n_def[symmetric] prod.case option.case st2_def[symmetric] ch_def[symmetric] if_False)
      have f2: "free_blks st2 = bs" "free_ok st2" "buf st2 = buf st" "free_bufs st2 = free_bufs st" "b \<notin> set bs"
        "\<And>c. c \<noteq> b \<Longrightarrow> blk st2 c = blk st c" "\<And>c. payload (blk st2 c) = payload (blk st c)"
        using "1.prems" Cons by (auto simp: st2_def st1_def free_ok_def)
      have b2: "blk_ok (blk st2 b)" "blk_size (blk st2 b) = n" "n \<le> PKTBUF_BLK_SIZE" "n \<le> sz"
        using "1.prems" Cons by (auto simp: st2_def st1_def blk_ok_def free_ok_def n_def)
      have ih: "alloc_done (sz - n) af ch st2 cs st' \<or> alloc_failed (sz - n) ch st2 cs st'"
        using "1.IH"[OF nz a[symmetric] refl n_def st2_def] f2(2) r by (simp add: ch_def)
      then show ?thesis
      proof
        assume "alloc_done (sz - n) af ch st2 cs st'"
        then obtain new where w: "bs = new @ free_blks st'" "cs = (if af then rev new @ ch else ch @ new)"
          "\<forall>c. c \<notin> set new \<longrightarrow> blk st' c = blk st2 c" "buf st' = buf st" "free_bufs st' = free_bufs st"
          "\<forall>c\<in>set new. blk_ok (blk st' c)" "sizes (blk st') new = sz - n" "sz - n \<le> PKTBUF_BLK_SIZE \<longrightarrow> length new \<le> 1"
          unfolding alloc_done_def f2(1,3,4) by blast
        have bn: "b \<notin> set new" using f2(5) w(1) by auto
        then have bb: "blk st' b = blk st2 b" using w(3) by simp
        have "sz \<le> PKTBUF_BLK_SIZE \<longrightarrow> new = []"
        proof
          assume "sz \<le> PKTBUF_BLK_SIZE"
          then have "n = sz" by (simp add: n_def)
          then show "new = []" using r w(1) f2(1) by (simp add: pktblock_alloc_loop.simps)
        qed
        then have "alloc_done sz af chain st cs st'"
          unfolding alloc_done_def Cons using w bb b2 f2(6) bn
          by (intro exI[of _ "b # new"]) (auto simp: ch_def)
        then show ?thesis using res by simp
      next
        assume f: "alloc_failed (sz - n) ch st2 cs st'"
        have "n = PKTBUF_BLK_SIZE"
        proof (rule ccontr)
          assume "n \<noteq> PKTBUF_BLK_SIZE"
          then have "sz - n = 0" by (auto simp: n_def)
          then show False using f by (simp add: alloc_failed_def)
        qed
        then have "alloc_failed sz chain st cs st'"
          using f f2 Cons by (auto simp: alloc_failed_def ch_def)
        then show ?thesis using res by simp
      qed
    qed
  qed
qed


lemma alloc_loop_count:
  "length (free_blks st) \<le> length (free_blks (snd (pktblock_alloc_loop sz af chain st))) + (sz + 63) div 64"
proof (induction sz af chain st rule: pktblock_alloc_loop.induct)
  case (1 sz af chain st)
  show ?case
  proof (cases "sz = 0 \<or> free_blks st = []")
    case True
    then show ?thesis by (auto simp: pktblock_alloc_loop.simps[of sz])
  next
    case False
    then obtain b bs where l: "free_blks st = b # bs" "sz \<noteq> 0" by (cases "free_blks st") auto
    define n where "n = (if sz > PKTBUF_BLK_SIZE then PKTBUF_BLK_SIZE else sz)"
    define st1 where "st1 = upd_blk b (\<lambda>k. k\<lparr>blk_size := 0, blk_data := 0\<rparr>) (st\<lparr>free_blks := bs\<rparr>)"
    define st2 where "st2 = upd_blk b (\<lambda>k. k\<lparr>blk_size := n, blk_data := (if af then PKTBUF_BLK_SIZE - n else 0)\<rparr>) st1"
    have a: "pktblock_alloc st = (Some b, st1)" by (simp add: pktblock_alloc_def l st1_def)
    have e: "pktblock_alloc_loop sz af chain st = pktblock_alloc_loop (sz - n) af (if af then b # chain else chain @ [b]) st2"
      using l(2) a by (subst pktblock_alloc_loop.simps) (simp only: Let_def n_def[symmetric] prod.case option.case st2_def[symmetric] if_False)
    have ih: "length bs \<le> length (free_blks (snd (pktblock_alloc_loop sz af chain st))) + (sz - n + 63) div 64"
      using "1.IH"[OF l(2) a[symmetric] refl n_def st2_def] unfolding e by (simp add: st2_def st1_def)
    have "(sz + 63) div 64 = Suc ((sz - n + 63) div 64)"
      using l(2) by (cases "sz > 64") (auto simp: n_def PKTBUF_BLK_SIZE_def div_if)
    then show ?thesis using ih l(1) by simp
  qed
qed

text \<open>What an allocation leaves of the packet \<open>p\<close>, and the chain it gives.\<close>

definition chain_ok :: "pkt_state \<Rightarrow> pid \<Rightarrow> bid list \<Rightarrow> bool" where
  "chain_ok st p cs \<longleftrightarrow> distinct cs \<and> set cs \<inter> set (free_blks st) = {} \<and> set cs \<inter> set (blk_list (buf st p)) = {} \<and>
     (\<forall>b\<in>set cs. blk_ok (blk st b))"

lemma alloc_list_ok:
  assumes ok: "pkt_ok st p" and a: "pktblock_alloc_list sz af st = (c # cs, st1)"
  shows "pkt_ok st1 p" "buf st1 = buf st" "contents st1 p = contents st p" "chain_ok st1 p (c # cs)"
    "sizes (blk st1) (c # cs) = sz" "mset (c # cs) + mset (free_blks st1) = mset (free_blks st)"
    "free_bufs st1 = free_bufs st" "\<And>b. b \<notin> set (free_blks st) \<Longrightarrow> blk st1 b = blk st b"
    "sz \<le> PKTBUF_BLK_SIZE \<Longrightarrow> cs = []"
proof -
  have "alloc_done sz af [] st (c # cs) st1"
    using alloc_loop_ok[of st sz af "[]"] ok a by (simp add: pktblock_alloc_list_def pkt_ok_def alloc_failed_def)
  then obtain new where w: "free_blks st = new @ free_blks st1" "c # cs = (if af then rev new else new)"
    "\<forall>b. b \<notin> set new \<longrightarrow> blk st1 b = blk st b" "buf st1 = buf st" "free_bufs st1 = free_bufs st"
    "\<forall>b\<in>set new. blk_ok (blk st1 b)" "sizes (blk st1) new = sz" "sz \<le> PKTBUF_BLK_SIZE \<longrightarrow> length new \<le> 1"
    unfolding alloc_done_def by auto
  have sc: "set (c # cs) = set new" "mset (c # cs) = mset new" "sizes (blk st1) (c # cs) = sizes (blk st1) new"
    "distinct (c # cs) = distinct new" "length (c # cs) = length new"
    unfolding w(2) by simp_all
  have dn: "distinct (new @ free_blks st1)" using ok w(1) by (simp add: pkt_ok_def free_ok_def)
  have dj: "set (blk_list (buf st p)) \<inter> set new = {}" "set (blk_list (buf st p)) \<inter> set (free_blks st1) = {}"
    using ok w(1) by (auto simp: pkt_ok_def buf_ok_def)
  have k: "blk st1 b = blk st b" if "b \<in> set (blk_list (buf st p))" for b using that dj(1) w(3) by auto
  have kf: "blk st1 b = blk st b" if "b \<in> set (free_blks st1)" for b using that dn w(3) by auto
  show ct: "contents st1 p = contents st p" unfolding contents_def w(4) by (rule bytes_of_cong) (simp add: k)
  show "pkt_ok st1 p"
    using ok dn dj(2) w(1) ct unfolding pkt_ok_def buf_ok_def free_ok_def w(4) by (auto simp: k kf)
  show "chain_ok st1 p (c # cs)"
    unfolding chain_ok_def sc(1,4) w(4) using dn dj w(6) by auto
  show "sizes (blk st1) (c # cs) = sz" using sc w(7) by simp
  show "mset (c # cs) + mset (free_blks st1) = mset (free_blks st)" unfolding sc(2) w(1) by simp
  show "cs = []" if "sz \<le> PKTBUF_BLK_SIZE" using w(8) that sc(5) by (cases cs) auto
  show "buf st1 = buf st" "free_bufs st1 = free_bufs st" by (fact w)+
  show "blk st1 b = blk st b" if "b \<notin> set (free_blks st)" for b using that w(1,3) by auto
qed

lemma alloc_list_failed:
  assumes ok: "pkt_ok st p" and a: "pktblock_alloc_list sz af st = ([], st1)" and sz: "0 < sz"
  shows "pkt_ok st1 p" "buf st1 = buf st" "contents st1 p = contents st p" "keeps p st st1"
    "length (free_blks st) * PKTBUF_BLK_SIZE < sz"
proof -
  have "alloc_failed sz [] st [] st1"
    using alloc_loop_ok[of st sz af "[]"] ok a sz by (auto simp: pktblock_alloc_list_def pkt_ok_def alloc_done_def split: if_splits)
  then have f: "mset (free_blks st1) = mset (free_blks st)" "buf st1 = buf st" "free_bufs st1 = free_bufs st"
    "\<And>b. b \<notin> set (free_blks st) \<Longrightarrow> blk st1 b = blk st b" "\<And>b. payload (blk st1 b) = payload (blk st b)"
    "length (free_blks st) * PKTBUF_BLK_SIZE < sz" by (auto simp: alloc_failed_def)
  have fs: "set (free_blks st1) = set (free_blks st)" "distinct (free_blks st1) = distinct (free_blks st)"
    using f(1) mset_eq_setD mset_eq_imp_distinct_iff by blast+
  have k: "blk st1 b = blk st b" if "b \<in> set (blk_list (buf st p))" for b
    using that ok f(4) by (auto simp: pkt_ok_def buf_ok_def)
  show ct: "contents st1 p = contents st p" unfolding contents_def f(2) by (rule bytes_of_cong) (simp add: k)
  show "pkt_ok st1 p" using ok ct unfolding pkt_ok_def buf_ok_def free_ok_def f(2) fs by (auto simp: k f(5))
  show "keeps p st st1" using f(1-4) by (auto simp: keeps_def own_def)
  show "buf st1 = buf st" "length (free_blks st) * PKTBUF_BLK_SIZE < sz" by (fact f)+
qed

section \<open>Attaching blocks\<close>

lemma insert_last_eq:
  "insert_last_loop p cs st = upd_buf p (\<lambda>pb. pb\<lparr>blk_list := blk_list pb @ cs, total_size := total_size pb + sizes (blk st) cs\<rparr>) st"
  by (induction cs arbitrary: st) (simp_all add: ac_simps)

lemma insert_after_split: "a \<notin> set pre \<Longrightarrow> insert_after a b (pre @ a # post) = pre @ a # b # post"
  by (induction pre) auto

lemma insert_first_eq_Some:
  assumes "blk_list (buf st p) = pre @ a # old" "distinct (pre @ a # cs)"
  shows "insert_first_loop p (Some a) cs st =
    upd_buf p (\<lambda>pb. pb\<lparr>blk_list := pre @ a # cs @ old, total_size := total_size pb + sizes (blk st) cs\<rparr>) st"
  using assms
proof (induction cs arbitrary: st pre a)
  case Nil
  then have "(buf st p)\<lparr>blk_list := pre @ a # old\<rparr> = buf st p" by simp
  then show ?case by simp
next
  case (Cons c cs)
  then have "insert_after a c (blk_list (buf st p)) = (pre @ [a]) @ c # old" by (simp add: insert_after_split)
  then show ?case using Cons.prems
    by (simp add: Cons.IH[of _ "pre @ [a]"] ac_simps cong: if_cong)
qed

lemma insert_first_eq:
  assumes "distinct cs"
  shows "insert_first_loop p None cs st =
    upd_buf p (\<lambda>pb. pb\<lparr>blk_list := cs @ blk_list pb, total_size := total_size pb + sizes (blk st) cs\<rparr>) st"
  using assms by (cases cs) (simp_all add: insert_first_eq_Some[of _ _ "[]"] add.assoc)

lemma insert_blk_list_eq:
  assumes "distinct cs"
  shows "pktbuf_insert_blk_list p cs add_last st =
    upd_buf p (\<lambda>pb. pb\<lparr>blk_list := (if add_last then blk_list pb @ cs else cs @ blk_list pb),
      total_size := total_size pb + sizes (blk st) cs\<rparr>) st"
  using assms by (simp add: pktbuf_insert_blk_list_def insert_last_eq insert_first_eq)

lemma chain_bytes: "chain_ok st p cs \<Longrightarrow> length (bytes_of (blk st) cs) = sizes (blk st) cs"
  by (rule length_bytes_of) (simp add: chain_ok_def)

lemma attach_ok:
  fixes add_last :: bool
  assumes ok: "pkt_ok st p" and ch: "chain_ok st p cs"
  defines "st' \<equiv> pktbuf_insert_blk_list p cs add_last st"
  shows "pkt_ok st' p"
    "contents st' p = (if add_last then contents st p @ bytes_of (blk st) cs else bytes_of (blk st) cs @ contents st p)"
    "blk st' = blk st" "free_blks st' = free_blks st" "free_bufs st' = free_bufs st" "ref (buf st' p) = ref (buf st p)"
    "\<And>q. q \<noteq> p \<Longrightarrow> buf st' q = buf st q" "own st' p = own st p + mset cs"
    "blk_list (buf st' p) = (if add_last then blk_list (buf st p) @ cs else cs @ blk_list (buf st p))"
proof -
  have e: "st' = upd_buf p (\<lambda>pb. pb\<lparr>blk_list := (if add_last then blk_list pb @ cs else cs @ blk_list pb),
      total_size := total_size pb + sizes (blk st) cs\<rparr>) st"
    unfolding st'_def using ch by (intro insert_blk_list_eq) (simp add: chain_ok_def)
  have len: "length (bytes_of (blk st) cs) = sizes (blk st) cs" using ch by (rule chain_bytes)
  show ct: "contents st' p = (if add_last then contents st p @ bytes_of (blk st) cs else bytes_of (blk st) cs @ contents st p)"
    by (simp add: e contents_def)
  have "buf_ok st' p" using ok ch ct len unfolding pkt_ok_def buf_ok_def chain_ok_def
    by (simp add: e) (auto split: if_splits)
  then show "pkt_ok st' p" using ok by (simp add: pkt_ok_def free_ok_def e)
qed (simp_all add: st'_def own_def insert_blk_list_eq[OF conjunct1[OF ch[unfolded chain_ok_def]]])

text \<open>Growing a block at its end, at its front, into the unused part of its payload.\<close>

lemma grow_tail_ok:
  assumes ok: "pkt_ok st p" and l: "blk_list (buf st p) = bs @ [b]" and n: "n \<le> curr_blk_tail_free (blk st b)"
  defines "st' \<equiv> upd_buf p (\<lambda>pb. pb\<lparr>total_size := total_size pb + n\<rparr>) (upd_blk b (\<lambda>k. k\<lparr>blk_size := blk_size k + n\<rparr>) st)"
  shows "\<exists>ext. length ext = n \<and> contents st' p = contents st p @ ext" "pkt_ok st' p" "keeps p st st'"
    "chain_ok st p cs \<Longrightarrow> chain_ok st' p cs" "chain_ok st p cs \<Longrightarrow> sizes (blk st') cs = sizes (blk st) cs"
    "blk_list (buf st' p) = blk_list (buf st p)"
proof -
  let ?k = "blk st b"
  have b: "b \<notin> set bs" "b \<notin> set (free_blks st)" "blk_ok ?k" using ok l by (auto simp: pkt_ok_def buf_ok_def)
  have fit: "blk_data ?k + (blk_size ?k + n) \<le> PKTBUF_BLK_SIZE" using n b(3) by (auto simp: curr_blk_tail_free_def blk_ok_def)
  define ext where "ext = take n (drop (blk_data ?k + blk_size ?k) (payload ?k))"
  have le: "length ext = n" using fit b(3) by (simp add: ext_def blk_ok_def)
  have "blk_bytes (?k\<lparr>blk_size := blk_size ?k + n\<rparr>) = blk_bytes ?k @ ext"
    using take_add[of "blk_size ?k" n "drop (blk_data ?k) (payload ?k)"]
    by (simp add: blk_bytes_def ext_def add.commute)
  then have ct: "contents st' p = contents st p @ ext" using b(1) by (simp add: st'_def contents_def l)
  then show "\<exists>ext. length ext = n \<and> contents st' p = contents st p @ ext" using le by blast
  have kb: "blk_ok (blk st' c)" if "blk_ok (blk st c)" for c
    using that fit by (auto simp: st'_def blk_ok_def)
  have "total_size (buf st' p) = length (contents st' p)"
    using ok le unfolding ct by (simp add: st'_def pkt_ok_def buf_ok_def)
  then have "buf_ok st' p" using ok kb unfolding pkt_ok_def buf_ok_def by (simp add: st'_def)
  then show "pkt_ok st' p" using ok by (simp add: pkt_ok_def free_ok_def st'_def)
  show "keeps p st st'" using l by (auto simp: keeps_def st'_def own_def)
  show "blk_list (buf st' p) = blk_list (buf st p)" by (simp add: st'_def)
  assume ch: "chain_ok st p cs"
  then show "chain_ok st' p cs" using kb by (simp add: chain_ok_def st'_def)
  show "sizes (blk st') cs = sizes (blk st) cs" using ch l by (intro sizes_cong) (auto simp: st'_def chain_ok_def)
qed

lemma grow_front_ok:
  assumes ok: "pkt_ok st p" and l: "blk_list (buf st p) = b # bs" and n: "n \<le> blk_data (blk st b)"
  defines "st' \<equiv> upd_buf p (\<lambda>pb. pb\<lparr>total_size := total_size pb + n\<rparr>)
    (upd_blk b (\<lambda>k. k\<lparr>blk_size := blk_size k + n, blk_data := blk_data k - n\<rparr>) st)"
  shows "\<exists>ext. length ext = n \<and> contents st' p = ext @ contents st p" "pkt_ok st' p" "keeps p st st'"
    "blk_list (buf st' p) = blk_list (buf st p)" "blk_size (blk st' b) = blk_size (blk st b) + n"
proof -
  let ?k = "blk st b"
  have b: "b \<notin> set bs" "b \<notin> set (free_blks st)" "blk_ok ?k" using ok l by (auto simp: pkt_ok_def buf_ok_def)
  define ext where "ext = take n (drop (blk_data ?k - n) (payload ?k))"
  have le: "length ext = n" using n b(3) by (auto simp: ext_def blk_ok_def)
  have "blk_bytes (?k\<lparr>blk_size := blk_size ?k + n, blk_data := blk_data ?k - n\<rparr>) = ext @ blk_bytes ?k"
    using n by (simp add: blk_bytes_def ext_def take_add add.commute[of _ n])
  then have ct: "contents st' p = ext @ contents st p" using b(1) by (simp add: st'_def contents_def l)
  then show "\<exists>ext. length ext = n \<and> contents st' p = ext @ contents st p" using le by blast
  have kb: "blk_ok (blk st' c)" if "blk_ok (blk st c)" for c
    using that n b(3) by (auto simp: st'_def blk_ok_def)
  have "total_size (buf st' p) = length (contents st' p)"
    using ok le unfolding ct by (simp add: st'_def pkt_ok_def buf_ok_def)
  then have "buf_ok st' p" using ok kb unfolding pkt_ok_def buf_ok_def by (simp add: st'_def)
  then show "pkt_ok st' p" using ok by (simp add: pkt_ok_def free_ok_def st'_def)
  show "keeps p st st'" using l by (auto simp: keeps_def st'_def own_def)
qed (simp_all add: st'_def)

end
