(* ===== verification/Pktbuf_Ops.thy ===== *)
theory Pktbuf_Ops
  imports Pktbuf_Struct
begin

text \<open>
  The operations on packets against their specification on byte strings: allocation, headers,
  resizing, joining, making a prefix contiguous, and the round trip through the position.
\<close>

section \<open>Removing and cutting\<close>

lemma shrink_front_ok:
  assumes ok: "pkt_ok st p" and l: "blk_list (buf st p) = b # bs" and n: "n \<le> blk_size (blk st b)"
  defines "st' \<equiv> upd_buf p (\<lambda>pb. pb\<lparr>total_size := total_size pb - n\<rparr>)
    (upd_blk b (\<lambda>k. k\<lparr>blk_data := blk_data k + n, blk_size := blk_size k - n\<rparr>) st)"
  shows "contents st' p = drop n (contents st p)" "pkt_ok st' p" "keeps p st st'"
proof -
  let ?k = "blk st b"
  have b: "b \<notin> set bs" "b \<notin> set (free_blks st)" "blk_ok ?k" using ok l by (auto simp: pkt_ok_def buf_ok_def)
  have "blk_bytes (?k\<lparr>blk_data := blk_data ?k + n, blk_size := blk_size ?k - n\<rparr>) = drop n (blk_bytes ?k)"
    by (simp add: blk_bytes_def drop_take add.commute)
  then show ct: "contents st' p = drop n (contents st p)"
    using b n by (simp add: st'_def contents_def l length_blk_bytes)
  have kb: "blk_ok (blk st' c)" if "blk_ok (blk st c)" for c
    using that n b(3) by (auto simp: st'_def blk_ok_def)
  have "total_size (buf st' p) = length (contents st' p)"
    using ok unfolding ct by (simp add: st'_def pkt_ok_def buf_ok_def)
  then have "buf_ok st' p" using ok kb unfolding pkt_ok_def buf_ok_def by (simp add: st'_def)
  then show "pkt_ok st' p" using ok by (simp add: pkt_ok_def free_ok_def st'_def)
  show "keeps p st st'" using l by (auto simp: keeps_def st'_def own_def)
qed

lemma drop_first_ok:
  assumes ok: "pkt_ok st p" and l: "blk_list (buf st p) = b # bs"
  defines "st' \<equiv> pktblock_free b (upd_buf p (\<lambda>pb. pb\<lparr>blk_list := tl (blk_list pb),
    total_size := total_size pb - blk_size (blk st b)\<rparr>) st)"
  shows "contents st' p = drop (blk_size (blk st b)) (contents st p)" "pkt_ok st' p" "keeps p st st'"
    "blk_list (buf st' p) = bs" "blk st' = blk st"
proof -
  have b: "b \<notin> set bs" "b \<notin> set (free_blks st)" "blk_ok (blk st b)" using ok l by (auto simp: pkt_ok_def buf_ok_def)
  show ct: "contents st' p = drop (blk_size (blk st b)) (contents st p)"
    using b by (simp add: st'_def contents_def l length_blk_bytes pktblock_free_def)
  have "total_size (buf st' p) = length (contents st' p)"
    using ok unfolding ct by (simp add: st'_def pkt_ok_def buf_ok_def pktblock_free_def)
  then have "buf_ok st' p" using ok b unfolding pkt_ok_def buf_ok_def by (auto simp: st'_def l pktblock_free_def)
  then show "pkt_ok st' p" using ok b by (auto simp: pkt_ok_def free_ok_def st'_def pktblock_free_def blk_ok_def)
  show "keeps p st st'" using l by (auto simp: keeps_def st'_def own_def pktblock_free_def)
qed (simp_all add: st'_def pktblock_free_def l)

lemma remove_header_loop_ok:
  assumes "pkt_ok st p" "blk_list (buf st p) = bs" "n \<le> length (contents st p)"
  shows "\<exists>st'. remove_header_loop p bs n st = Some st' \<and> contents st' p = drop n (contents st p) \<and> pkt_ok st' p \<and> keeps p st st'"
  using assms
proof (induction bs arbitrary: n st)
  case Nil
  then show ?case by (simp add: contents_def)
next
  case (Cons b bs)
  consider "n = 0" | "0 < n" "n < blk_size (blk st b)" | "0 < n" "blk_size (blk st b) \<le> n" by linarith
  then show ?case
  proof cases
    case 1
    then show ?thesis using Cons.prems by simp
  next
    case 2
    then show ?thesis using shrink_front_ok[OF Cons.prems(1,2), of n] by simp
  next
    case 3
    note d = drop_first_ok[OF Cons.prems(1,2)]
    have "n - blk_size (blk st b) \<le> length (contents st p) - blk_size (blk st b)" using Cons.prems(3) by simp
    with Cons.IH[OF d(2,4), of "n - blk_size (blk st b)"] d(1) show ?thesis
      using 3 keeps_trans[OF d(3)] by auto
  qed
qed

text \<open>Which blocks a header of \<open>n\<close> bytes takes off: those that it empties, in order, to the end of the free list.\<close>

lemma remove_header_blocks:
  assumes "remove_header_loop p bs n st = Some st'" "blk_list (buf st p) = bs"
  shows "\<exists>pre rest. bs = pre @ rest \<and> blk_list (buf st' p) = rest \<and> free_blks st' = free_blks st @ pre \<and>
    (pre \<noteq> [] \<longrightarrow> sizes (blk st) (butlast pre) < n) \<and>
    (sizes (blk st) pre = n \<and> blk st' = blk st \<or>
     rest \<noteq> [] \<and> sizes (blk st) pre < n \<and> blk_size (blk st' (hd rest)) = sizes (blk st) (pre @ [hd rest]) - n \<and> 0 < blk_size (blk st' (hd rest)))"
  using assms
proof (induction bs arbitrary: n st)
  case Nil
  then show ?case by (auto split: if_splits)
next
  case (Cons b bs)
  consider "n = 0" | "0 < n" "n < blk_size (blk st b)" | "0 < n" "blk_size (blk st b) \<le> n" by linarith
  then show ?case
  proof cases
    case 1
    then show ?thesis using Cons.prems by (intro exI[of _ "[]"] exI[of _ "b # bs"]) auto
  next
    case 2
    then show ?thesis using Cons.prems by (intro exI[of _ "[]"] exI[of _ "b # bs"]) auto
  next
    case 3
    let ?st = "pktblock_free b (upd_buf p (\<lambda>pb. pb\<lparr>blk_list := tl (blk_list pb), total_size := total_size pb - blk_size (blk st b)\<rparr>) st)"
    have s: "blk ?st = blk st" "free_blks ?st = free_blks st @ [b]" "blk_list (buf ?st p) = bs"
      using Cons.prems(2) by (simp_all add: pktblock_free_def)
    have "remove_header_loop p bs (n - blk_size (blk st b)) ?st = Some st'" using Cons.prems 3 by (simp add: Let_def)
    from Cons.IH[OF this s(3)] obtain pre rest where i: "bs = pre @ rest" "blk_list (buf st' p) = rest" "free_blks st' = free_blks st @ b # pre"
      "pre \<noteq> [] \<longrightarrow> sizes (blk st) (butlast pre) < n - blk_size (blk st b)"
      "sizes (blk st) pre = n - blk_size (blk st b) \<and> blk st' = blk st \<or> rest \<noteq> [] \<and> sizes (blk st) pre < n - blk_size (blk st b) \<and>
        blk_size (blk st' (hd rest)) = sizes (blk st) (pre @ [hd rest]) - (n - blk_size (blk st b)) \<and> 0 < blk_size (blk st' (hd rest))"
      unfolding s(1,2) by auto
    then show ?thesis using 3 by (intro exI[of _ "b # pre"] exI[of _ rest]) auto
  qed
qed

lemma find_tail_ok:
  assumes "to_size \<le> acc + sizes bk bs" "bs \<noteq> []" "acc < to_size \<or> acc = 0"
  shows "\<exists>pre b rest. find_tail bk to_size acc bs = Some (b, rest) \<and> bs = pre @ b # rest \<and>
    acc + sizes bk pre \<le> to_size \<and> to_size \<le> acc + sizes bk pre + blk_size (bk b)"
  using assms
proof (induction bs arbitrary: acc)
  case Nil
  then show ?case by simp
next
  case (Cons b bs)
  show ?case
  proof (cases "to_size \<le> acc + blk_size (bk b)")
    case True
    then show ?thesis using Cons.prems(3) by (intro exI[of _ "[]"]) auto
  next
    case False
    then have "bs \<noteq> []" using Cons.prems(1) by auto
    with Cons.IH[of "acc + blk_size (bk b)"] False Cons.prems(1) obtain pre c rest where
      "find_tail bk to_size (acc + blk_size (bk b)) bs = Some (c, rest)" "bs = pre @ c # rest"
      "acc + blk_size (bk b) + sizes bk pre \<le> to_size" "to_size \<le> acc + blk_size (bk b) + sizes bk pre + blk_size (bk c)"
      by auto
    then show ?thesis using False by (intro exI[of _ "b # pre"]) (auto simp: add.assoc)
  qed
qed

lemma drop_tail_eq:
  assumes "blk_list (buf st p) = pre @ rest" "distinct (pre @ rest)"
  shows "drop_tail_loop p rest acc st = (acc + sizes (blk st) rest,
    (upd_buf p (\<lambda>pb. pb\<lparr>blk_list := pre\<rparr>) st)\<lparr>free_blks := free_blks st @ rest\<rparr>)"
  using assms
proof (induction rest arbitrary: acc st)
  case Nil
  then have "(buf st p)\<lparr>blk_list := pre\<rparr> = buf st p" by simp
  then show ?case by simp
next
  case (Cons b rest)
  then have "remove1 b (blk_list (buf st p)) = pre @ rest" by (simp add: remove1_append)
  then show ?case using Cons by (simp add: pktblock_free_def add.assoc cong: if_cong)
qed

lemma cut_tail_ok:
  assumes ok: "pkt_ok st p" and l: "blk_list (buf st p) = pre @ b # rest"
    and n: "sizes (blk st) pre \<le> n" "n \<le> sizes (blk st) pre + blk_size (blk st b)"
  defines "st' \<equiv> st\<lparr>free_blks := free_blks st @ rest,
     buf := (buf st)(p := (buf st p)\<lparr>blk_list := pre @ [b], total_size := n\<rparr>),
     blk := (blk st)(b := (blk st b)\<lparr>blk_size := n - sizes (blk st) pre\<rparr>)\<rparr>"
  shows "contents st' p = take n (contents st p)" "pkt_ok st' p" "keeps p st st'"
proof -
  let ?k = "blk st b" and ?m = "n - sizes (blk st) pre"
  have b: "b \<notin> set pre" "b \<notin> set rest" "b \<notin> set (free_blks st)" "blk_ok ?k" "\<And>c. c \<in> set pre \<Longrightarrow> blk_ok (blk st c)"
    "\<And>c. c \<in> set rest \<Longrightarrow> blk_ok (blk st c)"
    using ok l by (auto simp: pkt_ok_def buf_ok_def)
  have lp: "length (bytes_of (blk st) pre) = sizes (blk st) pre" using b(5) by (rule length_bytes_of)
  have m: "?m \<le> blk_size ?k" using n by simp
  have kb: "blk_bytes (?k\<lparr>blk_size := ?m\<rparr>) = take ?m (blk_bytes ?k)"
    using m by (simp add: blk_bytes_def min_def)
  show ct: "contents st' p = take n (contents st p)"
    using b n lp m kb length_blk_bytes[OF b(4)] by (simp add: st'_def contents_def l)
  have "length (contents st p) \<ge> n" using n lp length_blk_bytes[OF b(4)] by (simp add: contents_def l)
  then have "total_size (buf st' p) = length (contents st' p)" unfolding ct by (simp add: st'_def min_def)
  moreover have "blk_ok (blk st' c)" if "c \<in> set (pre @ [b])" for c
    using that b m by (auto simp: st'_def blk_ok_def)
  ultimately have "buf_ok st' p" using ok l unfolding pkt_ok_def buf_ok_def by (auto simp: st'_def)
  moreover have "free_ok st'"
    using ok b l unfolding pkt_ok_def buf_ok_def free_ok_def by (auto simp: st'_def blk_ok_def)
  ultimately show "pkt_ok st' p" by (simp add: pkt_ok_def)
  show "keeps p st st'" using l by (auto simp: keeps_def st'_def own_def)
qed

section \<open>Growing\<close>

lemma attach_after:
  fixes add_last :: bool
  assumes ok: "pkt_ok st p" and a: "pktblock_alloc_list sz af st = (c # cs, st1)"
    and k: "keeps p st1 st2" "pkt_ok st2 p" "chain_ok st2 p (c # cs)"
  shows "keeps p st (pktbuf_insert_blk_list p (c # cs) add_last st2)"
proof -
  note al = alloc_list_ok[OF ok a] and at = attach_ok[OF k(2,3), where add_last = add_last]
  have o1: "own st1 p + mset (c # cs) = own st p"
    using al(6) by (simp add: own_def al(2) union_ac)
  have o2: "own st2 p = own st1 p" using k(1) by (simp add: keeps_def)
  have sub: "b \<notin># own st1 p" if "b \<notin># own st p" for b using that o1[symmetric] by simp
  have "blk (pktbuf_insert_blk_list p (c # cs) add_last st2) b = blk st b" if b: "b \<notin># own st p" for b
    using at(3) al(8)[of b] b k(1) sub[OF b] by (simp add: keeps_def own_def)
  then show ?thesis unfolding keeps_def using at(5-8) al(2,7) o1 o2 k(1) by (simp add: keeps_def)
qed

lemma alloc_attach:
  fixes add_last :: bool
  assumes ok: "pkt_ok st p" and a: "pktblock_alloc_list sz af st = (c # cs, st1)"
  defines "st2 \<equiv> pktbuf_insert_blk_list p (c # cs) add_last st1"
  shows "pkt_ok st2 p" "keeps p st st2"
    "\<exists>ext. length ext = sz \<and> contents st2 p = (if add_last then contents st p @ ext else ext @ contents st p)"
    "blk_list (buf st2 p) = (if add_last then blk_list (buf st p) @ c # cs else c # cs @ blk_list (buf st p))"
    "sz \<le> PKTBUF_BLK_SIZE \<Longrightarrow> blk_size (blk st2 c) = sz"
proof -
  note al = alloc_list_ok[OF ok a]
  note at = attach_ok[OF al(1,4), where add_last = add_last, folded st2_def]
  show "pkt_ok st2 p" by (fact at(1))
  show "keeps p st st2" unfolding st2_def by (rule attach_after[OF ok a keeps_refl al(1,4)])
  show "\<exists>ext. length ext = sz \<and> contents st2 p = (if add_last then contents st p @ ext else ext @ contents st p)"
    using at(2) chain_bytes[OF al(4)] al(3,5) by (intro exI[of _ "bytes_of (blk st1) (c # cs)"]) simp
  show "blk_list (buf st2 p) = (if add_last then blk_list (buf st p) @ c # cs else c # cs @ blk_list (buf st p))"
    using at(9) by (simp add: al(2))
  show "blk_size (blk st2 c) = sz" if "sz \<le> PKTBUF_BLK_SIZE" using al(5) al(9)[OF that] at(3) by simp
qed

lemma pkt_upd_swap: "st\<lparr>buf := f, free_blks := fb, blk := bk\<rparr> = st\<lparr>free_blks := fb, buf := f, blk := bk\<rparr>"
  "st\<lparr>free_blks := fb, blk := bk, buf := f\<rparr> = st\<lparr>free_blks := fb, buf := f, blk := bk\<rparr>"
  by simp_all

lemma blk_upd_swap: "k\<lparr>blk_data := a, blk_size := s\<rparr> = k\<lparr>blk_size := s, blk_data := a\<rparr>"
  by (cases k) simp

section \<open>Resetting the position\<close>

lemma reset_acc_ok:
  "pos_ok (pktbuf_reset_acc p st) p" "contents (pktbuf_reset_acc p st) q = contents st q"
  "buf_ok (pktbuf_reset_acc p st) q = buf_ok st q" "pkt_ok (pktbuf_reset_acc p st) q = pkt_ok st q"
  "own (pktbuf_reset_acc p st) q = own st q"
  "pos (buf (pktbuf_reset_acc p st) p) = 0" "total_size (buf (pktbuf_reset_acc p st) q) = total_size (buf st q)"
  "ref (buf (pktbuf_reset_acc p st) q) = ref (buf st q)" "blk (pktbuf_reset_acc p st) = blk st"
  "q \<noteq> p \<Longrightarrow> buf (pktbuf_reset_acc p st) q = buf st q"
proof -
  show "contents (pktbuf_reset_acc p st) q = contents st q" by (simp add: contents_def pktbuf_reset_acc_def Let_def)
  then show "buf_ok (pktbuf_reset_acc p st) q = buf_ok st q" by (simp add: buf_ok_def pktbuf_reset_acc_def Let_def)
  then show "pkt_ok (pktbuf_reset_acc p st) q = pkt_ok st q"
    by (simp add: pkt_ok_def free_ok_def pktbuf_reset_acc_def Let_def)
  show "pos_ok (pktbuf_reset_acc p st) p"
    by (cases "blk_list (buf st p)")
      (auto simp: pos_ok_def contents_def pktbuf_reset_acc_def Let_def pktbuf_first_blk_def intro: exI[of _ "[]"])
qed (simp_all add: own_def pktbuf_reset_acc_def Let_def)

lemma finish_alloc_ok:
  assumes "pkt_ok st p"
  defines "st' \<equiv> pktbuf_reset_acc p (upd_buf p (\<lambda>pb. pb\<lparr>ref := 1\<rparr>) st)"
  shows "pkt_ok st' p" "pos_ok st' p" "pos (buf st' p) = 0" "total_size (buf st' p) = total_size (buf st p)" "ref (buf st' p) = 1"
    "own st' p = own st p" "blk st' = blk st" "\<And>q. q \<noteq> p \<Longrightarrow> buf st' q = buf st q"
  using assms(1) unfolding st'_def reset_acc_ok
  by (simp_all add: reset_acc_ok own_def pkt_ok_def free_ok_def buf_ok_def contents_def)

section \<open>Headers\<close>

lemma pktbuf_add_header_ok:
  assumes ok: "pkt_ok st p" and ne: "blk_list (buf st p) \<noteq> []"
  shows "\<exists>e st'. pktbuf_add_header p sz cont st = Some (e, st') \<and> pkt_ok st' p \<and> keeps p st st' \<and>
    (e = NET_ERR_OK \<and> (\<exists>h. length h = sz \<and> contents st' p = h @ contents st p) \<and>
       (cont \<longrightarrow> sz \<le> blk_size (blk st' (hd (blk_list (buf st' p)))))
     \<or> e = NET_ERR_NONE \<and> (cont \<longrightarrow> contents st' p = contents st p) \<and>
       (length (free_blks st) * PKTBUF_BLK_SIZE < sz \<or> cont \<and> PKTBUF_BLK_SIZE < sz))"
proof -
  obtain b bs where l: "blk_list (buf st p) = b # bs" using ne by (cases "blk_list (buf st p)") auto
  let ?r = "blk_data (blk st b)"
  note def = pktbuf_add_header_def pktbuf_first_blk_def l Let_def
  consider "sz \<le> ?r" | "?r < sz" cont "PKTBUF_BLK_SIZE < sz" | "?r < sz" cont "sz \<le> PKTBUF_BLK_SIZE" | "?r < sz" "\<not> cont"
    by linarith
  then show ?thesis
  proof cases
    case 1
    then show ?thesis using grow_front_ok[OF ok l 1] l by (simp add: def)
  next
    case 2
    then show ?thesis using ok by (simp add: def)
  next
    case 3
    show ?thesis
    proof (cases "pktblock_alloc_list sz True st")
      case (Pair cs st1)
      show ?thesis
      proof (cases cs)
        case Nil
        then show ?thesis using alloc_list_failed[OF ok Pair[unfolded Nil]] 3 Pair by (simp add: def)
      next
        case (Cons c cs')
        then show ?thesis using alloc_attach[OF ok Pair[unfolded Cons], of False] 3 Pair by (simp add: def)
      qed
    qed
  next
    case 4
    define st1 where "st1 = upd_buf p (\<lambda>pb. pb\<lparr>total_size := total_size pb + ?r\<rparr>)
      (upd_blk b (\<lambda>k. k\<lparr>blk_data := 0, blk_size := blk_size k + ?r\<rparr>) st)"
    have "st1 = upd_buf p (\<lambda>pb. pb\<lparr>total_size := total_size pb + ?r\<rparr>)
      (upd_blk b (\<lambda>k. k\<lparr>blk_size := blk_size k + ?r, blk_data := blk_data k - ?r\<rparr>) st)" by (simp add: st1_def blk_upd_swap)
    from grow_front_ok[OF ok l order_refl, folded this] obtain h where
      h: "length h = ?r" "contents st1 p = h @ contents st p" "pkt_ok st1 p" "keeps p st st1" by blast
    obtain cs st2 where a: "pktblock_alloc_list (sz - ?r) True st1 = (cs, st2)" by fastforce
    have e: "pktbuf_add_header p sz cont st = (case cs of [] \<Rightarrow> Some (NET_ERR_NONE, st2)
        | c # cs' \<Rightarrow> Some (NET_ERR_OK, pktbuf_insert_blk_list p (c # cs') False st2))"
      using 4 a by (simp add: def st1_def)
    show ?thesis
    proof (cases cs)
      case Nil
      have "free_blks st1 = free_blks st" by (simp add: st1_def)
      then show ?thesis unfolding e using alloc_list_failed[OF h(3) a[unfolded Nil]] 4 h(4) keeps_trans Nil
        by auto
    next
      case (Cons c cs')
      note at = alloc_attach[OF h(3) a[unfolded Cons], of False]
      obtain ext where "length ext = sz - ?r" "contents (pktbuf_insert_blk_list p (c # cs') False st2) p = ext @ h @ contents st p"
        using at(3) h(2) by auto
      then have "\<exists>h. length h = sz \<and> contents (pktbuf_insert_blk_list p (c # cs') False st2) p = h @ contents st p"
        using h(1) 4(1) by (intro exI[of _ "ext @ h"]) simp
      then show ?thesis unfolding e using at(1,2) h(4) keeps_trans 4(2) Cons by auto
    qed
  qed
qed

text \<open>
  C31: \<open>pktbuf_add_header\<close> either adds \<open>sz\<close> bytes in front of the packet, in one block when a
  contiguous header was asked for, or reports an error; it never loses a block, and it can only
  fail when the blocks run out or a contiguous header is larger than a block.
\<close>

theorem pktbuf_add_header_correct:
  assumes ok: "pkt_ok st p" and ne: "blk_list (buf st p) \<noteq> []"
  shows "\<exists>e st'. pktbuf_add_header p sz cont st = Some (e, st') \<and> pkt_ok st' p \<and> keeps p st st' \<and>
    (e = NET_ERR_OK \<and> (\<exists>h. length h = sz \<and> contents st' p = h @ contents st p) \<and>
       (cont \<longrightarrow> sz \<le> blk_size (blk st' (hd (blk_list (buf st' p)))))
     \<or> e = NET_ERR_NONE \<and> (cont \<longrightarrow> contents st' p = contents st p) \<and>
       (length (free_blks st) * PKTBUF_BLK_SIZE < sz \<or> cont \<and> PKTBUF_BLK_SIZE < sz))"
  by (rule pktbuf_add_header_ok[OF assms])

lemma pktbuf_remove_header_ok:
  assumes "pkt_ok st p" "sz \<le> total_size (buf st p)"
  shows "\<exists>st'. pktbuf_remove_header p sz st = Some (NET_ERR_OK, st') \<and> contents st' p = drop sz (contents st p) \<and>
    pkt_ok st' p \<and> keeps p st st'"
  using remove_header_loop_ok[OF assms(1) refl, of sz] assms
  by (auto simp: pktbuf_remove_header_def pkt_ok_def buf_ok_def)

text \<open>
  C4: \<open>pktbuf_remove_header\<close> takes the first \<open>sz\<close> bytes off a packet that has them.  The blocks \<open>pre\<close> that it
  empties leave the packet and go, in order, to the end of the free list; the others stay.  It stops at the block in which
  the header ends, which keeps the bytes behind the header and has at least one, or behind the last block emptied.  Other packets and their blocks
  keep their contents.
\<close>

theorem pktbuf_remove_header_correct:
  assumes "pkt_ok st p" "sz \<le> total_size (buf st p)"
  shows "\<exists>st' pre rest. pktbuf_remove_header p sz st = Some (NET_ERR_OK, st') \<and> contents st' p = drop sz (contents st p) \<and>
    pkt_ok st' p \<and> keeps p st st' \<and>
    blk_list (buf st p) = pre @ rest \<and> blk_list (buf st' p) = rest \<and> free_blks st' = free_blks st @ pre \<and>
    (pre \<noteq> [] \<longrightarrow> sizes (blk st) (butlast pre) < sz) \<and>
    (sizes (blk st) pre = sz \<and> blk st' = blk st \<or>
     rest \<noteq> [] \<and> sizes (blk st) pre < sz \<and> blk_size (blk st' (hd rest)) = sizes (blk st) (pre @ [hd rest]) - sz \<and> 0 < blk_size (blk st' (hd rest)))"
proof -
  obtain st' where st: "pktbuf_remove_header p sz st = Some (NET_ERR_OK, st')" "contents st' p = drop sz (contents st p)" "pkt_ok st' p" "keeps p st st'"
    using pktbuf_remove_header_ok[OF assms] by blast
  then have "remove_header_loop p (blk_list (buf st p)) sz st = Some st'" by (auto simp: pktbuf_remove_header_def)
  from remove_header_blocks[OF this refl] st show ?thesis by blast
qed

lemma pktbuf_resize_ok:
  assumes ok: "pkt_ok st p" and ne: "total_size (buf st p) \<noteq> 0 \<or> blk_list (buf st p) = []"
  shows "\<exists>e st'. pktbuf_resize p n st = Some (e, st') \<and> pkt_ok st' p \<and> keeps p st st' \<and>
    (e = NET_ERR_OK \<and> length (contents st' p) = n \<and> take (length (contents st p)) (contents st' p) = take n (contents st p)
     \<or> e \<noteq> NET_ERR_OK \<and> contents st' p = contents st p \<and> total_size (buf st p) < n)"
proof -
  have tl: "total_size (buf st p) = length (contents st p)" using ok by (simp add: pkt_ok_def buf_ok_def)
  let ?t = "total_size (buf st p)"
  consider "n = ?t" | "n \<noteq> ?t" "?t = 0" | "?t \<noteq> 0" "?t < n" | "n < ?t" by linarith
  then show ?thesis
  proof cases
    case 1
    then show ?thesis using ok tl by (simp add: pktbuf_resize_def)
  next
    case 2
    obtain cs st1 where a: "pktblock_alloc_list n False st = (cs, st1)" by fastforce
    show ?thesis
    proof (cases cs)
      case Nil
      then show ?thesis using alloc_list_failed[OF ok a[unfolded Nil]] 2 a by (simp add: pktbuf_resize_def)
    next
      case (Cons c cs')
      then show ?thesis using alloc_attach[OF ok a[unfolded Cons], of True] 2 a tl by (auto simp: pktbuf_resize_def)
    qed
  next
    case 3
    then obtain bs b where l: "blk_list (buf st p) = bs @ [b]"
      using tl by (cases "blk_list (buf st p)" rule: rev_cases) (auto simp: contents_def)
    let ?inc = "n - ?t" and ?rem = "curr_blk_tail_free (blk st b)"
    show ?thesis
    proof (cases "?inc \<le> ?rem")
      case True
      then have e: "pktbuf_resize p n st = Some (NET_ERR_OK, upd_buf p (\<lambda>pb. pb\<lparr>total_size := total_size pb + ?inc\<rparr>)
          (upd_blk b (\<lambda>k. k\<lparr>blk_size := blk_size k + ?inc\<rparr>) st))"
        using 3 l by (simp add: pktbuf_resize_def Let_def)
      from grow_tail_ok(1-3)[OF ok l True] show ?thesis using 3 tl by (auto simp: e)
    next
      case False
      obtain cs st1 where a: "pktblock_alloc_list (?inc - ?rem) False st = (cs, st1)" by fastforce
      have e: "pktbuf_resize p n st = (case cs of [] \<Rightarrow> Some (NET_ERR_NONE, st1)
        | c # cs' \<Rightarrow> Some (NET_ERR_OK, pktbuf_insert_blk_list p (c # cs') True
            (upd_buf p (\<lambda>pb. pb\<lparr>total_size := total_size pb + ?rem\<rparr>)
              (upd_blk b (\<lambda>k. k\<lparr>blk_size := blk_size k + ?rem\<rparr>) st1))))"
        using 3 l False a by (simp add: pktbuf_resize_def Let_def)
      show ?thesis
      proof (cases cs)
        case Nil
        then show ?thesis using alloc_list_failed[OF ok a[unfolded Nil]] 3 False by (simp add: e)
      next
        case (Cons c cs')
        note al = alloc_list_ok[OF ok a[unfolded Cons]]
        have l1: "blk_list (buf st1 p) = bs @ [b]" and same: "blk st1 b = blk st b"
          using l al(2) al(8)[of b] ok by (auto simp: pkt_ok_def buf_ok_def)
        define st2 where "st2 = upd_buf p (\<lambda>pb. pb\<lparr>total_size := total_size pb + ?rem\<rparr>)
              (upd_blk b (\<lambda>k. k\<lparr>blk_size := blk_size k + ?rem\<rparr>) st1)"
        have "?rem \<le> curr_blk_tail_free (blk st1 b)" by (simp add: same)
        note g = grow_tail_ok[OF al(1) l1 this, folded st2_def]
        obtain ext where ext: "length ext = ?rem" "contents st2 p = contents st p @ ext" using g(1) al(3) by auto
        note at = attach_ok[OF g(2) g(4)[OF al(4)], where add_last = True]
        have "contents (pktbuf_insert_blk_list p (c # cs') True st2) p = contents st p @ ext @ bytes_of (blk st2) (c # cs')"
          using at(2) ext(2) by simp
        moreover have "length (ext @ bytes_of (blk st2) (c # cs')) = ?inc"
          using chain_bytes[OF g(4)[OF al(4)]] ext(1) g(5)[OF al(4)] al(5) False by simp
        ultimately show ?thesis unfolding e st2_def[symmetric]
          using at(1) attach_after[OF ok a[unfolded Cons] g(3,2) g(4)[OF al(4)], of True] 3 tl Cons
          by auto
      qed
    qed
  next
    case 4
    have ne': "blk_list (buf st p) \<noteq> []" using 4 tl by (auto simp: contents_def)
    have sz: "?t = sizes (blk st) (blk_list (buf st p))"
      unfolding tl contents_def using ok by (intro length_bytes_of) (simp add: pkt_ok_def buf_ok_def)
    obtain pre b rest where f: "find_tail (blk st) n 0 (blk_list (buf st p)) = Some (b, rest)"
      "blk_list (buf st p) = pre @ b # rest" "sizes (blk st) pre \<le> n" "n \<le> sizes (blk st) pre + blk_size (blk st b)"
      using find_tail_ok[OF _ ne', of n 0 "blk st"] 4 sz by auto
    have d: "distinct (pre @ b # rest)" using ok f(2) by (simp add: pkt_ok_def buf_ok_def)
    have t: "?t = sizes (blk st) pre + blk_size (blk st b) + sizes (blk st) rest" using sz f(2) by simp
    have "pktbuf_resize p n st = Some (NET_ERR_OK, st\<lparr>free_blks := free_blks st @ rest,
       buf := (buf st)(p := (buf st p)\<lparr>blk_list := pre @ [b], total_size := n\<rparr>),
       blk := (blk st)(b := (blk st b)\<lparr>blk_size := n - sizes (blk st) pre\<rparr>)\<rparr>)"
      using 4 f(1,2) f(3,4) t drop_tail_eq[of st p "pre @ [b]" rest 0] d
      by (auto simp: pktbuf_resize_def Let_def pkt_upd_swap)
    then show ?thesis using cut_tail_ok[OF ok f(2,3,4)] 4 tl by (auto simp: min_def)
  qed
qed


text \<open>
  \<open>pktbuf_resize\<close> to a smaller size keeps the first bytes, to a larger one appends bytes; when
  it fails, the bytes are unchanged.
\<close>

theorem pktbuf_resize_correct:
  assumes ok: "pkt_ok st p" and ne: "total_size (buf st p) \<noteq> 0 \<or> blk_list (buf st p) = []"
  shows "\<exists>e st'. pktbuf_resize p n st = Some (e, st') \<and> pkt_ok st' p \<and> keeps p st st' \<and>
    (e = NET_ERR_OK \<and> length (contents st' p) = n \<and> take (length (contents st p)) (contents st' p) = take n (contents st p)
     \<or> e \<noteq> NET_ERR_OK \<and> contents st' p = contents st p \<and> total_size (buf st p) < n)"
  by (rule pktbuf_resize_ok[OF assms])

section \<open>Allocation\<close>

lemma pktbuf_alloc_ok:
  assumes "free_ok st"
  shows "case pktbuf_alloc sz st of
      (Some p, st') \<Rightarrow> p \<in> set (free_bufs st) \<and> pkt_ok st' p \<and> pos_ok st' p \<and> pos (buf st' p) = 0 \<and>
         total_size (buf st' p) = sz \<and> ref (buf st' p) = 1 \<and> own st' p = mset (free_blks st) \<and>
         (\<forall>q. q \<noteq> p \<longrightarrow> buf st' q = buf st q) \<and> (\<forall>b. b \<notin> set (free_blks st) \<longrightarrow> blk st' b = blk st b)
    | (None, st') \<Rightarrow> mset (free_blks st') = mset (free_blks st) \<and> mset (free_bufs st') = mset (free_bufs st) \<and>
         (free_bufs st = [] \<or> length (free_blks st) * PKTBUF_BLK_SIZE < sz)"
proof (cases "free_bufs st")
  case Nil
  then show ?thesis by (simp add: pktbuf_alloc_def)
next
  case (Cons p ps)
  define st1 where "st1 = upd_buf p (\<lambda>pb. pb\<lparr>ref := 1, total_size := 0, blk_list := []\<rparr>) (st\<lparr>free_bufs := ps\<rparr>)"
  have ok1: "pkt_ok st1 p" "own st1 p = mset (free_blks st)" "contents st1 p = []" "free_blks st1 = free_blks st"
    "blk st1 = blk st" "ref (buf st1 p) = 1" "\<And>q. q \<noteq> p \<Longrightarrow> buf st1 q = buf st q"
    using assms by (simp_all add: st1_def pkt_ok_def free_ok_def buf_ok_def own_def contents_def)
  show ?thesis
  proof (cases "sz = 0")
    case True
    then have e: "pktbuf_alloc sz st = (Some p, pktbuf_reset_acc p (upd_buf p (\<lambda>pb. pb\<lparr>ref := 1\<rparr>) st1))"
      by (simp add: pktbuf_alloc_def Cons st1_def Let_def)
    have "total_size (buf st1 p) = 0" using ok1 by (simp add: st1_def)
    then show ?thesis unfolding e using finish_alloc_ok[OF ok1(1)] ok1 Cons True by simp
  next
    case False
    obtain cs st2 where a: "pktblock_alloc_list sz False st1 = (cs, st2)" by fastforce
    show ?thesis
    proof (cases cs)
      case Nil
      note f = alloc_list_failed[OF ok1(1) a[unfolded Nil]]
      have "own st2 p = own st1 p" "free_bufs st2 = ps" using f(4) False by (simp_all add: keeps_def st1_def)
      moreover have "pktbuf_alloc sz st = (None, st2\<lparr>free_bufs := free_bufs st2 @ [p]\<rparr>)"
        using False a Nil \<open>free_bufs st = p # ps\<close> by (simp add: pktbuf_alloc_def st1_def Let_def)
      ultimately show ?thesis using f False ok1 \<open>free_bufs st = p # ps\<close> by (simp add: own_def)
    next
      case (Cons c cs')
      define st3 where "st3 = pktbuf_insert_blk_list p (c # cs') True st2"
      note at = alloc_attach[OF ok1(1) a[unfolded Cons], of True, folded st3_def]
      have e: "pktbuf_alloc sz st = (Some p, pktbuf_reset_acc p (upd_buf p (\<lambda>pb. pb\<lparr>ref := 1\<rparr>) st3))"
        using False a Cons \<open>free_bufs st = p # ps\<close> by (simp add: pktbuf_alloc_def st1_def st3_def Let_def)
      have "total_size (buf st3 p) = sz" using at(1,3) ok1(3) by (auto simp: pkt_ok_def buf_ok_def)
      moreover have "own st3 p = mset (free_blks st)" "\<And>q. q \<noteq> p \<Longrightarrow> buf st3 q = buf st q"
        "\<And>b. b \<notin> set (free_blks st) \<Longrightarrow> blk st3 b = blk st b" using at(2) ok1 by (auto simp: keeps_def)
      ultimately show ?thesis unfolding e using finish_alloc_ok[OF at(1)] \<open>free_bufs st = p # ps\<close> by simp
    qed
  qed
qed

text \<open>
  \<open>pktbuf_alloc\<close> gives a well-formed packet of the size asked for, with its position at the
  start, or NULL with every block and packet still free; NULL only when packets or blocks run out.
\<close>

theorem pktbuf_alloc_correct:
  assumes "free_ok st"
  shows "case pktbuf_alloc sz st of
      (Some p, st') \<Rightarrow> p \<in> set (free_bufs st) \<and> pkt_ok st' p \<and> pos_ok st' p \<and> pos (buf st' p) = 0 \<and>
         total_size (buf st' p) = sz \<and> ref (buf st' p) = 1 \<and> own st' p = mset (free_blks st) \<and>
         (\<forall>q. q \<noteq> p \<longrightarrow> buf st' q = buf st q) \<and> (\<forall>b. b \<notin> set (free_blks st) \<longrightarrow> blk st' b = blk st b)
    | (None, st') \<Rightarrow> mset (free_blks st') = mset (free_blks st) \<and> mset (free_bufs st') = mset (free_bufs st) \<and>
         (free_bufs st = [] \<or> length (free_blks st) * PKTBUF_BLK_SIZE < sz)"
  by (rule pktbuf_alloc_ok[OF assms])

section \<open>Joining\<close>

lemma join_loop_eq:
  assumes "dest \<noteq> src" "blk_list (buf st src) = bs @ rest"
  shows "join_loop dest src bs st = st\<lparr>buf := (buf st)(src := (buf st src)\<lparr>blk_list := rest\<rparr>,
    dest := (buf st dest)\<lparr>blk_list := blk_list (buf st dest) @ bs, total_size := total_size (buf st dest) + sizes (blk st) bs\<rparr>)\<rparr>"
  using assms
proof (induction bs arbitrary: st)
  case Nil
  then have "(buf st src)\<lparr>blk_list := rest\<rparr> = buf st src" by simp
  then show ?case by simp
next
  case (Cons b bs)
  then show ?case by (simp add: insert_blk_list_eq add.assoc fun_upd_twist cong: if_cong)
qed

lemma pktbuf_join_ok:
  assumes ok: "two_ok st dest src" "free_ok st" and r: "ref (buf st src) = 1"
  shows "case pktbuf_join dest src st of (e, st') \<Rightarrow> e = NET_ERR_OK \<and> pkt_ok st' dest \<and>
    contents st' dest = contents st dest @ contents st src \<and> blk st' = blk st \<and> free_blks st' = free_blks st \<and>
    free_bufs st' = free_bufs st @ [src] \<and> (\<forall>q. q \<noteq> dest \<and> q \<noteq> src \<longrightarrow> buf st' q = buf st q)"
proof -
  have d: "dest \<noteq> src" using ok(1) by (simp add: two_ok_def)
  define bs where "bs = blk_list (buf st src)"
  define st' where "st' = snd (pktbuf_join dest src st)"
  have e: "st' = st\<lparr>buf := (buf st)(dest := (buf st dest)\<lparr>blk_list := blk_list (buf st dest) @ bs,
      total_size := total_size (buf st dest) + sizes (blk st) bs\<rparr>, src := (buf st src)\<lparr>blk_list := [], ref := 0\<rparr>),
      free_bufs := free_bufs st @ [src]\<rparr>"
    unfolding st'_def pktbuf_join_def snd_conv bs_def[symmetric]
    using d r join_loop_eq[of dest src st bs "[]"]
    by (simp add: bs_def pktbuf_free_def Let_def)
  have ct: "contents st' dest = contents st dest @ contents st src" using d by (simp add: e contents_def bs_def)
  have len: "sizes (blk st) bs = length (contents st src)"
    unfolding contents_def bs_def using ok(1) by (intro length_bytes_of[symmetric]) (simp add: two_ok_def buf_ok_def)
  have b: "buf_ok st dest" "buf_ok st src" "set (blk_list (buf st dest)) \<inter> set bs = {}"
    using ok(1) by (auto simp: two_ok_def bs_def)
  have "buf_ok st' dest" unfolding buf_ok_def ct using d b len by (auto simp: e buf_ok_def bs_def)
  then have "pkt_ok st' dest" using ok(2) by (simp add: pkt_ok_def free_ok_def e)
  moreover have "pktbuf_join dest src st = (NET_ERR_OK, st')" by (simp add: st'_def pktbuf_join_def)
  moreover have "blk st' = blk st" "free_blks st' = free_blks st" "free_bufs st' = free_bufs st @ [src]"
    "\<And>q. q \<noteq> dest \<and> q \<noteq> src \<longrightarrow> buf st' q = buf st q" by (simp_all add: e)
  ultimately show ?thesis using ct by simp
qed


text \<open>
  \<open>pktbuf_join\<close> appends the bytes of \<open>src\<close> to \<open>dest\<close>: every block moves over, none is freed or
  copied, and the packet \<open>src\<close> is freed.
\<close>

theorem pktbuf_join_correct:
  assumes ok: "two_ok st dest src" "free_ok st" and r: "ref (buf st src) = 1"
  shows "case pktbuf_join dest src st of (e, st') \<Rightarrow> e = NET_ERR_OK \<and> pkt_ok st' dest \<and>
    contents st' dest = contents st dest @ contents st src \<and> blk st' = blk st \<and> free_blks st' = free_blks st \<and>
    free_bufs st' = free_bufs st @ [src] \<and> (\<forall>q. q \<noteq> dest \<and> q \<noteq> src \<longrightarrow> buf st' q = buf st q)"
  by (rule pktbuf_join_ok[OF assms])

section \<open>Contiguous prefix\<close>

lemma move_bytes_down_ok:
  "dst \<le> src \<Longrightarrow> src + n \<le> length pl \<Longrightarrow> \<exists>pl'. move_bytes_down dst src n pl = Some pl' \<and> length pl' = length pl \<and>
    take dst pl' = take dst pl \<and> take n (drop dst pl') = take n (drop src pl)"
proof (induction n arbitrary: dst src pl)
  case 0
  then show ?case by simp
next
  case (Suc n)
  define pl1 where "pl1 = pl[dst := pl ! src]"
  obtain pl' where p: "move_bytes_down (dst + 1) (src + 1) n pl1 = Some pl'" "length pl' = length pl"
    "take (dst + 1) pl' = take (dst + 1) pl1" "take n (drop (dst + 1) pl') = take n (drop (src + 1) pl1)"
    using Suc.IH[of "dst + 1" "src + 1" pl1] Suc.prems by (auto simp: pl1_def)
  have "take dst pl' = take dst (take (dst + 1) pl')" by simp
  also have "\<dots> = take dst pl" unfolding p(3) by (simp add: pl1_def)
  finally have t: "take dst pl' = take dst pl" .
  have "pl' ! dst = take (dst + 1) pl' ! dst" by simp
  also have "\<dots> = pl ! src" unfolding p(3) using Suc.prems by (simp add: pl1_def)
  finally have "pl' ! dst = pl ! src" .
  then have a: "drop dst pl' = pl ! src # drop (dst + 1) pl'"
    using Cons_nth_drop_Suc[of dst pl'] p(2) Suc.prems by simp
  have b: "drop src pl = pl ! src # drop (src + 1) pl" using Cons_nth_drop_Suc[of src pl] Suc.prems by simp
  have "drop (src + 1) pl1 = drop (src + 1) pl" using Suc.prems by (simp add: pl1_def)
  then have "take (Suc n) (drop dst pl') = take (Suc n) (drop src pl)"
    unfolding a b take_Suc_Cons using p(4) by simp
  then show ?case using p(1,2) t Suc.prems by (simp add: pl1_def)
qed

lemma pull_ok:
  assumes ok: "pkt_ok st p" and l: "blk_list (buf st p) = f # c # cs" and f: "blk_data (blk st f) = 0"
    and n: "n \<le> blk_size (blk st c)" "blk_size (blk st f) + n \<le> PKTBUF_BLK_SIZE"
    and pl: "copy_in (blk_size (blk st f)) (take n (drop (blk_data (blk st c)) (payload (blk st c)))) (payload (blk st f)) = Some pl"
  defines "st' \<equiv> upd_blk f (\<lambda>k. k\<lparr>payload := pl, blk_size := blk_size k + n\<rparr>)
     (upd_blk c (\<lambda>k. k\<lparr>blk_data := blk_data k + n, blk_size := blk_size k - n\<rparr>) st)"
  shows "contents st' p = contents st p" "pkt_ok st' p" "keeps p st st'"
proof -
  let ?f = "blk st f" and ?c = "blk st c"
  let ?bs = "take n (drop (blk_data ?c) (payload ?c))"
  have d: "f \<noteq> c" "f \<notin> set cs" "c \<notin> set cs" "f \<notin> set (free_blks st)" "c \<notin> set (free_blks st)" "blk_ok ?f" "blk_ok ?c"
    using ok l by (auto simp: pkt_ok_def buf_ok_def)
  have lb: "length ?bs = n" using d(7) n by (auto simp: blk_ok_def)
  have ple: "pl = take (blk_size ?f) (payload ?f) @ ?bs @ drop (blk_size ?f + n) (payload ?f)" "length pl = PKTBUF_BLK_SIZE"
    using pl lb d(6) n(2) by (auto simp: copy_in_def blk_ok_def split: if_splits)
  have bf: "blk_bytes (?f\<lparr>payload := pl, blk_size := blk_size ?f + n\<rparr>) = blk_bytes ?f @ ?bs"
    using d(6) f lb n(2) unfolding blk_bytes_def by (simp add: ple(1) blk_ok_def)
  have "?bs = take n (blk_bytes ?c)" using n(1) by (simp add: blk_bytes_def min_def)
  moreover have "blk_bytes (?c\<lparr>blk_data := blk_data ?c + n, blk_size := blk_size ?c - n\<rparr>) = drop n (blk_bytes ?c)"
    by (simp add: blk_bytes_def drop_take add.commute)
  ultimately show ct: "contents st' p = contents st p"
    using d l bf by (simp add: st'_def contents_def)
  have kb: "blk_ok (blk st' b)" if "blk_ok (blk st b)" for b
    using that d f n ple(2) by (auto simp: st'_def blk_ok_def)
  have "buf_ok st' p" using ok kb unfolding pkt_ok_def buf_ok_def ct by (simp add: st'_def)
  moreover have "free_ok st'" using ok d unfolding pkt_ok_def free_ok_def by (auto simp: st'_def)
  ultimately show "pkt_ok st' p" by (simp add: pkt_ok_def)
  show "keeps p st st'" using l by (auto simp: keeps_def st'_def own_def)
qed

lemma drop_empty_ok:
  assumes ok: "pkt_ok st p" and l: "blk_list (buf st p) = f # c # cs" and z: "blk_size (blk st c) = 0"
  defines "st' \<equiv> pktblock_free c (upd_buf p (\<lambda>pb. pb\<lparr>blk_list := remove1 c (blk_list pb)\<rparr>) st)"
  shows "contents st' p = contents st p" "pkt_ok st' p" "keeps p st st'" "blk_list (buf st' p) = f # cs" "blk st' = blk st"
proof -
  have d: "f \<noteq> c" "f \<notin> set cs" "c \<notin> set cs" "c \<notin> set (free_blks st)" "blk_ok (blk st c)"
    using ok l by (auto simp: pkt_ok_def buf_ok_def)
  show ll: "blk_list (buf st' p) = f # cs" using d by (simp add: st'_def pktblock_free_def l)
  show ct: "contents st' p = contents st p"
    using z unfolding contents_def ll l by (simp add: st'_def pktblock_free_def blk_bytes_def)
  have "buf_ok st' p" using ok d l unfolding pkt_ok_def buf_ok_def ct ll by (auto simp: st'_def pktblock_free_def)
  moreover have "free_ok st'" using ok d unfolding pkt_ok_def free_ok_def by (auto simp: st'_def pktblock_free_def blk_ok_def)
  ultimately show "pkt_ok st' p" by (simp add: pkt_ok_def)
  show "keeps p st st'" using l d by (auto simp: keeps_def st'_def own_def pktblock_free_def)
qed (simp add: st'_def pktblock_free_def)

lemma set_cont_loop_ok:
  assumes "pkt_ok st p" "blk_list (buf st p) = f # cs" "blk_data (blk st f) = 0" "dest = blk_size (blk st f)"
    "dest + m \<le> PKTBUF_BLK_SIZE" "m \<le> sizes (blk st) cs"
  shows "\<exists>st'. set_cont_loop p f cs dest m st = Some st' \<and> pkt_ok st' p \<and> keeps p st st' \<and>
    contents st' p = contents st p \<and> hd (blk_list (buf st' p)) = f \<and> blk_size (blk st' f) = dest + m"
  using assms
proof (induction cs arbitrary: dest m st)
  case Nil
  then show ?case by simp
next
  case (Cons c cs)
  show ?case
  proof (cases "m = 0")
    case True
    then show ?thesis using Cons.prems by simp
  next
    case False
    define n where "n = (if blk_size (blk st c) > m then m else blk_size (blk st c))"
    have d: "f \<noteq> c" "c \<notin> set cs" "f \<notin> set cs" "blk_ok (blk st f)" "blk_ok (blk st c)"
      using Cons.prems(1,2) by (auto simp: pkt_ok_def buf_ok_def)
    have n: "n \<le> blk_size (blk st c)" "n \<le> m" "blk_size (blk st f) + n \<le> PKTBUF_BLK_SIZE"
      using Cons.prems(4,5) by (auto simp: n_def)
    let ?bs = "take n (drop (blk_data (blk st c)) (payload (blk st c)))"
    have co: "copy_out (blk_data (blk st c)) n (payload (blk st c)) = Some ?bs"
      using d(5) n by (auto simp: copy_out_def blk_ok_def)
    have "length ?bs = n" "length (payload (blk st f)) = PKTBUF_BLK_SIZE" using d(4,5) n(1) by (auto simp: blk_ok_def)
    then have "copy_in dest ?bs (payload (blk st f)) \<noteq> None"
      using n(3) Cons.prems(4) by (simp only: copy_in_def if_True) simp
    then obtain pl where pl: "copy_in dest ?bs (payload (blk st f)) = Some pl" by blast
    define st1 where "st1 = upd_blk f (\<lambda>k. k\<lparr>payload := pl, blk_size := blk_size k + n\<rparr>)
      (upd_blk c (\<lambda>k. k\<lparr>blk_data := blk_data k + n, blk_size := blk_size k - n\<rparr>) st)"
    note p1 = pull_ok[OF Cons.prems(1-3) n(1,3) pl[unfolded Cons.prems(4)], folded st1_def]
    have f1: "blk_data (blk st1 f) = 0" "blk_size (blk st1 f) = dest + n" "blk_list (buf st1 p) = f # c # cs"
      "blk_size (blk st1 c) = blk_size (blk st c) - n" "sizes (blk st1) cs = sizes (blk st) cs"
      using Cons.prems(2-4) d by (auto simp: st1_def intro!: sizes_cong)
    have e: "set_cont_loop p f (c # cs) dest m st = (if blk_size (blk st1 c) = 0
        then set_cont_loop p f cs (dest + n) (m - n)
          (pktblock_free c (upd_buf p (\<lambda>pb. pb\<lparr>blk_list := remove1 c (blk_list pb)\<rparr>) st1))
        else Some st1)"
      unfolding set_cont_loop.simps(2) Let_def n_def[symmetric] co pl Option.bind.simps st1_def[symmetric]
      by (simp only: False if_False)
    show ?thesis
    proof (cases "blk_size (blk st1 c) = 0")
      case True
      define st2 where "st2 = pktblock_free c (upd_buf p (\<lambda>pb. pb\<lparr>blk_list := remove1 c (blk_list pb)\<rparr>) st1)"
      note p2 = drop_empty_ok[OF p1(2) f1(3) True, folded st2_def]
      have "m - n \<le> sizes (blk st2) cs" using Cons.prems(6) n True f1(4,5) p2(5) by simp
      moreover have "blk_data (blk st2 f) = 0" "dest + n = blk_size (blk st2 f)" "dest + n + (m - n) \<le> PKTBUF_BLK_SIZE"
        using f1(1,2) p2(5) n(2) Cons.prems(5) by simp_all
      ultimately obtain st' where st': "set_cont_loop p f cs (dest + n) (m - n) st2 = Some st'" "pkt_ok st' p"
        "keeps p st2 st'" "contents st' p = contents st2 p" "hd (blk_list (buf st' p)) = f"
        "blk_size (blk st' f) = dest + n + (m - n)" using Cons.IH[OF p2(2,4)] by blast
      have "set_cont_loop p f (c # cs) dest m st = Some st'" unfolding e st2_def[symmetric] using True st'(1) by simp
      moreover have "keeps p st st'" using p1(3) p2(3) st'(3) keeps_trans by blast
      ultimately show ?thesis using st' p1(1) p2(1) n(2) by (intro exI[of _ st']) simp
    next
      case False
      then have "n = m" using f1(4) by (auto simp: n_def split: if_splits)
      then show ?thesis unfolding e using False p1 f1(2,3) by simp
    qed
  qed
qed

lemma pktbuf_set_cont_ok:
  assumes ok: "pkt_ok st p" and ne: "blk_list (buf st p) \<noteq> []"
  shows "\<exists>e st'. pktbuf_set_cont p sz st = Some (e, st') \<and> pkt_ok st' p \<and> keeps p st st' \<and> contents st' p = contents st p \<and>
    (if sz \<le> total_size (buf st p) \<and> sz \<le> PKTBUF_BLK_SIZE
     then e = NET_ERR_OK \<and> sz \<le> blk_size (blk st' (hd (blk_list (buf st' p))))
     else e = NET_ERR_SIZE \<and> st' = st)"
proof -
  obtain f cs where l: "blk_list (buf st p) = f # cs" using ne by (cases "blk_list (buf st p)") auto
  consider "\<not> (sz \<le> total_size (buf st p) \<and> sz \<le> PKTBUF_BLK_SIZE)" | "sz \<le> total_size (buf st p)" "sz \<le> PKTBUF_BLK_SIZE" "sz \<le> blk_size (blk st f)"
    | "sz \<le> total_size (buf st p)" "sz \<le> PKTBUF_BLK_SIZE" "blk_size (blk st f) < sz" by linarith
  then show ?thesis
  proof cases
    case 3
    let ?f = "blk st f"
    have d: "f \<notin> set cs" "f \<notin> set (free_blks st)" "blk_ok ?f" "\<And>b. b \<in> set cs \<Longrightarrow> blk_ok (blk st b)"
      using ok l by (auto simp: pkt_ok_def buf_ok_def)
    obtain pl where pl: "move_bytes_down 0 (blk_data ?f) (blk_size ?f) (payload ?f) = Some pl" "length pl = PKTBUF_BLK_SIZE"
      "take (blk_size ?f) pl = blk_bytes ?f"
      using move_bytes_down_ok[of 0 "blk_data ?f" "blk_size ?f" "payload ?f"] d(3) by (auto simp: blk_ok_def blk_bytes_def)
    define st1 where "st1 = upd_blk f (\<lambda>k. k\<lparr>payload := pl, blk_data := 0\<rparr>) st"
    have ct: "contents st1 p = contents st p" using d(1) pl(3) by (simp add: st1_def contents_def l blk_bytes_def)
    have "blk_ok (blk st1 b)" if "blk_ok (blk st b)" for b using that pl(2) d(3) by (auto simp: st1_def blk_ok_def)
    then have ok1: "pkt_ok st1 p" using ok d(2) unfolding pkt_ok_def buf_ok_def free_ok_def ct by (auto simp: st1_def)
    have k1: "keeps p st st1" using l by (auto simp: keeps_def st1_def own_def)
    have sc: "sizes (blk st1) cs = sizes (blk st) cs" using d(1) by (auto simp: st1_def intro: sizes_cong)
    have "total_size (buf st p) = blk_size ?f + sizes (blk st) cs"
      using ok length_bytes_of[of "f # cs" "blk st"] d(3,4) by (auto simp: pkt_ok_def buf_ok_def contents_def l)
    then have "sz - blk_size ?f \<le> sizes (blk st1) cs" using 3(1) sc by simp
    with set_cont_loop_ok[OF ok1, of f cs "blk_size ?f" "sz - blk_size ?f"] 3 l obtain st' where
      "set_cont_loop p f cs (blk_size ?f) (sz - blk_size ?f) st1 = Some st'" "pkt_ok st' p" "keeps p st1 st'"
      "contents st' p = contents st1 p" "hd (blk_list (buf st' p)) = f" "blk_size (blk st' f) = sz"
      by (auto simp: st1_def)
    moreover have "blk_size (blk st1 f) = blk_size ?f" by (simp add: st1_def)
    ultimately show ?thesis using 3 ct keeps_trans[OF k1] pl(1) l by (simp add: pktbuf_set_cont_def st1_def[symmetric])
  qed (use ok l in \<open>auto simp: pktbuf_set_cont_def\<close>)
qed


text \<open>
  C32: \<open>pktbuf_set_cont\<close> puts the first \<open>sz\<close> bytes into the first block and leaves the packet's
  bytes as they are; it refuses a size beyond the packet or the block.
\<close>

theorem pktbuf_set_cont_correct:
  assumes ok: "pkt_ok st p" and ne: "blk_list (buf st p) \<noteq> []"
  shows "\<exists>e st'. pktbuf_set_cont p sz st = Some (e, st') \<and> pkt_ok st' p \<and> keeps p st st' \<and> contents st' p = contents st p \<and>
    (if sz \<le> total_size (buf st p) \<and> sz \<le> PKTBUF_BLK_SIZE
     then e = NET_ERR_OK \<and> sz \<le> blk_size (blk st' (hd (blk_list (buf st' p))))
     else e = NET_ERR_SIZE \<and> st' = st)"
  by (rule pktbuf_set_cont_ok[OF assms])

section \<open>Reading, writing, copying\<close>

lemma same_but_contents:
  assumes "same_but p st st'" "blk st' = blk st" shows "contents st' p = contents st p"
  using assms by (simp add: contents_def same_but_def)

lemma pktbuf_fill_write:
  assumes "buf_ok st p" "pos_ok st p"
  shows "pktbuf_fill p v sz st = pktbuf_write p (Some (replicate sz v)) sz st"
  using fill_loop_ok[OF assms, of sz v] assms
  by (auto simp: pktbuf_fill_def pktbuf_write_def total_blk_remain_def buf_ok_def)

text \<open>
  C30: what is written at a position is read back from it, across any number of blocks, and nothing
  else of the packet changes: \<open>pktbuf_write\<close>, then \<open>pktbuf_seek\<close> to where it started, then
  \<open>pktbuf_read\<close>.
\<close>

theorem pktbuf_write_seek_read:
  assumes ok: "buf_ok st p" "pos_ok st p" and sz: "0 < sz" "sz \<le> length s" "pos (buf st p) + sz \<le> total_size (buf st p)"
  shows "\<exists>st1 st2 st3. pktbuf_write p (Some s) sz st = Some (NET_ERR_OK, st1) \<and>
    pktbuf_seek p (int (pos (buf st p))) st1 = Some (NET_ERR_OK, st2) \<and>
    pktbuf_read p sz st2 = Some (NET_ERR_OK, take sz s, st3) \<and>
    contents st3 p = take (pos (buf st p)) (contents st p) @ take sz s @ drop (pos (buf st p) + sz) (contents st p) \<and>
    pos (buf st3 p) = pos (buf st p) + sz \<and> buf_ok st3 p \<and> pos_ok st3 p \<and> same_but p st st3"
proof -
  let ?o = "pos (buf st p)"
  obtain st1 where w: "pktbuf_write p (Some s) sz st = Some (NET_ERR_OK, st1)" "same_but p st st1" "buf_ok st1 p" "pos_ok st1 p"
    "contents st1 p = take ?o (contents st p) @ take sz s @ drop (?o + sz) (contents st p)"
    using pktbuf_write_ok[OF ok sz] by blast
  have t: "total_size (buf st1 p) = total_size (buf st p)" using w(2) by (simp add: same_but_def)
  obtain st2 where k: "pktbuf_seek p (int ?o) st1 = Some (NET_ERR_OK, st2)" "same_but p st1 st2" "blk st2 = blk st1"
    "buf_ok st2 p" "pos_ok st2 p" "pos (buf st2 p) = ?o"
    using pktbuf_seek_ok[OF w(3,4), of ?o] sz t by auto
  have c2: "contents st2 p = contents st1 p" by (rule same_but_contents[OF k(2,3)])
  have len: "length (contents st1 p) = total_size (buf st p)" using w(3) t by (simp add: buf_ok_def)
  obtain st3 where r: "read_loop p sz [] st2 = Some (take sz (drop ?o (contents st2 p)), st3)" "same_but p st2 st3" "blk st3 = blk st2"
    "buf_ok st3 p" "pos_ok st3 p" "pos (buf st3 p) = ?o + sz"
    using read_loop_ok[OF k(4,5), of sz "[]"] k(6) c2 len sz(3) by auto
  have "?o \<le> length (contents st p)" using sz(3) ok(1) by (simp add: buf_ok_def)
  then have "take sz (drop ?o (contents st2 p)) = take sz s" unfolding c2 w(5) using sz(2) by simp
  moreover have "total_size (buf st2 p) = total_size (buf st p)" using k(2) t by (simp add: same_but_def)
  ultimately have "pktbuf_read p sz st2 = Some (NET_ERR_OK, take sz s, st3)"
    using r(1) sz(1,3) k(6) by (simp add: pktbuf_read_def total_blk_remain_def)
  moreover have "contents st3 p = contents st1 p" using same_but_contents[OF r(2,3)] c2 by simp
  moreover have "same_but p st st3" using w(2) k(2) r(2) same_but_trans by blast
  ultimately show ?thesis using w(1,5) k(1) r(4-6) by auto
qed

lemma pktbuf_copy_ok:
  assumes "two_ok st dest src"
  shows "if pos (buf st dest) + sz \<le> total_size (buf st dest) \<and> pos (buf st src) + sz \<le> total_size (buf st src)
    then \<exists>st'. pktbuf_copy dest src sz st = Some (NET_ERR_OK, st') \<and> two_ok st' dest src \<and>
      pos (buf st' dest) = pos (buf st dest) + sz \<and> pos (buf st' src) = pos (buf st src) + sz \<and>
      contents st' src = contents st src \<and>
      contents st' dest = take (pos (buf st dest)) (contents st dest) @
        take sz (drop (pos (buf st src)) (contents st src)) @ drop (pos (buf st dest) + sz) (contents st dest)
    else pktbuf_copy dest src sz st = Some (NET_ERR_SIZE, st)"
proof -
  have "total_size (buf st dest) = length (contents st dest)" "total_size (buf st src) = length (contents st src)"
    using assms by (simp_all add: two_ok_def buf_ok_def)
  then show ?thesis using copy_loop_ok[OF assms, of sz] by (auto simp: pktbuf_copy_def total_blk_remain_def)
qed

text \<open>
  \<open>pktbuf_copy\<close> between two packets with blocks of their own copies the bytes at the one
  position to the other, however the two are cut into blocks, and moves both positions; it refuses
  when either packet is too short.
\<close>

theorem pktbuf_copy_correct:
  assumes "two_ok st dest src"
  shows "if pos (buf st dest) + sz \<le> total_size (buf st dest) \<and> pos (buf st src) + sz \<le> total_size (buf st src)
    then \<exists>st'. pktbuf_copy dest src sz st = Some (NET_ERR_OK, st') \<and> two_ok st' dest src \<and>
      pos (buf st' dest) = pos (buf st dest) + sz \<and> pos (buf st' src) = pos (buf st src) + sz \<and>
      contents st' src = contents st src \<and>
      contents st' dest = take (pos (buf st dest)) (contents st dest) @
        take sz (drop (pos (buf st src)) (contents st src)) @ drop (pos (buf st dest) + sz) (contents st dest)
    else pktbuf_copy dest src sz st = Some (NET_ERR_SIZE, st)"
  by (rule pktbuf_copy_ok[OF assms])

section \<open>Witnesses\<close>

text \<open>Two packets, of two blocks and of one, and two free blocks.\<close>

definition sample :: pkt_state where
  "sample = \<lparr>blk = (\<lambda>b. \<lparr>blk_size = 3, blk_data = 4, payload = replicate 64 7\<rparr>), free_blks = [2, 3],
     buf = (\<lambda>p. if p = 0 then \<lparr>total_size = 6, blk_list = [0, 1], ref = 1, pos = 0, curr_blk = Some 0, blk_offset = 4\<rparr>
                else \<lparr>total_size = 3, blk_list = [4], ref = 1, pos = 0, curr_blk = Some 4, blk_offset = 4\<rparr>),
     free_bufs = [2]\<rparr>"

lemma sample_ok: "free_ok sample" "pkt_ok sample 0" "pos_ok sample 0" "two_ok sample 0 1"
proof -
  have p: "pos_ok sample p" for p by (auto simp: pos_ok_def sample_def intro: exI[of _ "[]"])
  have b: "buf_ok sample p" for p
    by (simp add: buf_ok_def sample_def blk_ok_def contents_def blk_bytes_def PKTBUF_BLK_SIZE_def)
  show "free_ok sample" by (simp add: free_ok_def sample_def PKTBUF_BLK_SIZE_def)
  then show "pkt_ok sample 0" using b by (simp add: pkt_ok_def)
  show "pos_ok sample 0" by (rule p)
  show "two_ok sample 0 1" using b p by (simp add: two_ok_def sample_def)
qed

theorem pktbuf_add_header_correct_witness:
  "pkt_ok sample 0 \<and> (\<exists>e st'. pktbuf_add_header 0 10 True sample = Some (e, st') \<and> pkt_ok st' 0 \<and> keeps 0 sample st')"
  using pktbuf_add_header_correct[of sample 0 10 True] sample_ok by (auto simp: sample_def)

theorem pktbuf_remove_header_correct_witness:
  "pkt_ok sample 0 \<and> (\<exists>st' pre rest. pktbuf_remove_header 0 4 sample = Some (NET_ERR_OK, st') \<and> contents st' 0 = drop 4 (contents sample 0) \<and>
     [0, 1] = pre @ rest \<and> blk_list (buf st' 0) = rest \<and> free_blks st' = [2, 3] @ pre)"
proof -
  have s: "blk_list (buf sample 0) = [0, 1]" "free_blks sample = [2, 3]" by (simp_all add: sample_def)
  show ?thesis using pktbuf_remove_header_correct[of sample 0 4, unfolded s] sample_ok by (auto simp: sample_def)
qed

theorem pktbuf_resize_correct_witness:
  "pkt_ok sample 0 \<and> (\<exists>e st'. pktbuf_resize 0 100 sample = Some (e, st') \<and> pkt_ok st' 0 \<and> keeps 0 sample st')"
  using pktbuf_resize_correct[of sample 0 100] sample_ok by (auto simp: sample_def)

theorem pktbuf_alloc_correct_witness:
  "free_ok sample \<and> (case pktbuf_alloc 100 sample of (None, _) \<Rightarrow> False | (Some p, st') \<Rightarrow> pkt_ok st' p \<and> total_size (buf st' p) = 100)"
proof -
  have "fst (pktbuf_alloc 100 sample) \<noteq> None"
    by (simp add: pktbuf_alloc_def sample_def pktblock_alloc_list_def pktblock_alloc_loop.simps pktblock_alloc_def PKTBUF_BLK_SIZE_def Let_def)
  then show ?thesis using pktbuf_alloc_correct[of sample 100] sample_ok(1) by (auto split: prod.splits option.splits)
qed

theorem pktbuf_join_correct_witness:
  "two_ok sample 0 1 \<and> contents (snd (pktbuf_join 0 1 sample)) 0 = contents sample 0 @ contents sample 1"
  using pktbuf_join_correct[of sample 0 1] sample_ok by (auto simp: sample_def split: prod.splits)

theorem pktbuf_set_cont_correct_witness:
  "pkt_ok sample 0 \<and> (\<exists>st'. pktbuf_set_cont 0 5 sample = Some (NET_ERR_OK, st') \<and> contents st' 0 = contents sample 0 \<and>
     5 \<le> blk_size (blk st' (hd (blk_list (buf st' 0)))))"
  using pktbuf_set_cont_correct[of sample 0 5] sample_ok by (auto simp: sample_def PKTBUF_BLK_SIZE_def)

theorem pktbuf_write_seek_read_witness:
  "buf_ok sample 0 \<and> pos_ok sample 0 \<and> (\<exists>st1 st2 st3. pktbuf_write 0 (Some [1, 2, 3, 4, 5]) 5 sample = Some (NET_ERR_OK, st1) \<and>
     pktbuf_seek 0 0 st1 = Some (NET_ERR_OK, st2) \<and> pktbuf_read 0 5 st2 = Some (NET_ERR_OK, [1, 2, 3, 4, 5], st3))"
  using pktbuf_write_seek_read[of sample 0 5 "[1, 2, 3, 4, 5]"] sample_ok
  by (auto simp: sample_def pkt_ok_def)

theorem pktbuf_copy_correct_witness:
  "two_ok sample 0 1 \<and> (\<exists>st'. pktbuf_copy 0 1 3 sample = Some (NET_ERR_OK, st') \<and> contents st' 1 = contents sample 1)"
  using pktbuf_copy_correct[of sample 0 1 3] sample_ok by (auto simp: sample_def)

end
