(* ===== verification/Checksum.thy ===== *)
theory Checksum
  imports Pktbuf_Ops
begin

text \<open>
  The Internet checksum (\<open>checksum16\<close> of \<open>kernel/net/util.h\<close> and \<open>pktbuf.c\<close>) and its application to
  a packet (\<open>pktbuf_checksum16\<close>, \<open>checksum_peso\<close>).  The specification is the one of RFC 1071: the sum
  of the 16-bit words with the carries added back in, \<open>ones_sum\<close>.
\<close>

section \<open>Definitions\<close>

text \<open>
  \<open>bs\<close> are the bytes at \<open>curr_buf\<close>, read as little-endian 16-bit words; reading past them is
  \<open>None\<close>.
\<close>

fun sum_words :: "nat \<Rightarrow> u8 list \<Rightarrow> u32 \<Rightarrow> u32 option" where
  "sum_words len bs s =
     (if len > 1 then case bs of a # b # r \<Rightarrow> sum_words (len - 2) r (s + (ucast a + push_bit 8 (ucast b))) | _ \<Rightarrow> None
      else if len > 0 then case bs of a # r \<Rightarrow> Some (s + ucast a) | [] \<Rightarrow> None
      else Some s)"

declare sum_words.simps [simp del]

function fold_carry :: "u32 \<Rightarrow> u32" where
  "fold_carry s = (let high = ucast (drop_bit 16 s) :: u16
                   in if high \<noteq> 0 then fold_carry (ucast high + (s AND 0xffff)) else s)"
  by pat_completeness auto

lemma unat_ucast_16: "unat (ucast (x :: u16) :: u32) = unat x"
  using unsigned_less[of x, where ?'a = nat] by (simp add: unsigned_ucast_eq take_bit_eq_mod)

lemma carry_parts:
  "unat (ucast (ucast (drop_bit 16 s) :: u16) + (s AND 0xffff) :: u32) = unat s div 65536 + unat s mod 65536"
  "(ucast (drop_bit 16 (s :: u32)) :: u16) = 0 \<longleftrightarrow> unat s < 65536"
proof -
  have b: "unat s < 4294967296" using unsigned_less[of s, where ?'a = nat] by simp
  have h: "unat (ucast (drop_bit 16 s) :: u16) = unat s div 65536"
    using b by (simp add: unsigned_ucast_eq take_bit_eq_mod unsigned_drop_bit_eq drop_bit_eq_div unat_div_distrib less_mult_imp_div_less)
  then show "(ucast (drop_bit 16 (s :: u32)) :: u16) = 0 \<longleftrightarrow> unat s < 65536"
    by (metis div_eq_0_iff unat_0 unat_eq_zero zero_neq_numeral)
  have m: "unat (s AND 0xffff) = unat s mod 65536"
    using take_bit_eq_mod[of 16 "unat s"] take_bit_eq_mask[of 16 "unat s"]
    by (simp add: unsigned_and_eq mask_eq_exp_minus_1)
  have "unat (ucast (ucast (drop_bit 16 s) :: u16) :: u32) = unat s div 65536"
    by (simp only: unat_ucast_16 h)
  then show "unat (ucast (ucast (drop_bit 16 s) :: u16) + (s AND 0xffff) :: u32) = unat s div 65536 + unat s mod 65536"
    using m b by (subst unat_add_small) (auto simp: less_mult_imp_div_less)
qed

termination fold_carry
proof (relation "measure unat", simp, goal_cases)
  case (1 s x)
  then have "65536 \<le> unat s" using carry_parts(2)[of s] by auto
  then have "unat s div 65536 + unat s mod 65536 < unat s"
    using div_mult_mod_eq[of "unat s" 65536] by linarith
  then show ?case using carry_parts(1)[of s] 1 by simp
qed

declare fold_carry.simps [simp del]

definition checksum16 :: "u32 \<Rightarrow> u8 list \<Rightarrow> u16 \<Rightarrow> u32 \<Rightarrow> bool \<Rightarrow> u16 option" where
  "checksum16 offset bs len pre_sum complement = do {
     s \<leftarrow> (if offset AND 1 \<noteq> 0
          then case bs of [] \<Rightarrow> None
               | b # r \<Rightarrow> sum_words (unat (len - 1)) r (pre_sum + push_bit 8 (ucast b))
          else sum_words (unat len) bs pre_sum);
     let t = fold_carry s;
     Some (if complement then ucast (NOT t) else ucast t)
   }"


text \<open>\<open>swap_u16\<close> of \<open>net_util.h\<close>, which is \<open>htons\<close> and \<open>ntohs\<close>.\<close>

definition swap_u16 :: "u16 \<Rightarrow> u16" where
  "swap_u16 v = push_bit 8 (v AND 0xFF) OR (drop_bit 8 v AND 0xFF)"

text \<open>The loop of \<open>pktbuf_checksum16\<close>; the bytes at \<open>blk_offset\<close> are the rest of the payload.\<close>

definition bytes_at :: "pid \<Rightarrow> pkt_state \<Rightarrow> u8 list" where
  "bytes_at p st = (case curr_blk (buf st p) of None \<Rightarrow> []
     | Some c \<Rightarrow> drop (blk_offset (buf st p)) (payload (blk st c)))"

partial_function (option) checksum_loop :: "pid \<Rightarrow> nat \<Rightarrow> u32 \<Rightarrow> u32 \<Rightarrow> pkt_state \<Rightarrow> (u32 \<times> pkt_state) option" where
  "checksum_loop p sz s offset st =
     (if sz = 0 then Some (s, st)
      else Option.bind (curr_blk_remain p st) (\<lambda>r.
           let n = (if r > sz then sz else r)
           in Option.bind (checksum16 offset (bytes_at p st) (of_nat n) s False) (\<lambda>c.
              Option.bind (move_forward p n st) (\<lambda>st1.
                checksum_loop p (sz - n) (ucast c) (offset + of_nat n) st1))))"

definition pktbuf_checksum16 :: "pid \<Rightarrow> nat \<Rightarrow> u32 \<Rightarrow> bool \<Rightarrow> pkt_state \<Rightarrow> (u16 \<times> pkt_state) option" where
  "pktbuf_checksum16 p sz pre_sum complement st =
     (if total_blk_remain (buf st p) < int sz then Some (0, st)
      else do {
        (s, st') \<leftarrow> checksum_loop p sz pre_sum 0 st;
        Some (if complement then ucast (NOT s) else ucast s, st')
      })"

definition IPV4_ADDR_SIZE :: nat where "IPV4_ADDR_SIZE = 4"

text \<open>The bytes of a \<open>uint16_t\<close> in memory.\<close>

definition le_bytes16 :: "u16 \<Rightarrow> u8 list" where
  "le_bytes16 v = [ucast v, ucast (drop_bit 8 v)]"

definition checksum_peso :: "u8 list \<Rightarrow> u8 list \<Rightarrow> u8 \<Rightarrow> pid \<Rightarrow> pkt_state \<Rightarrow> (u16 \<times> pkt_state) option" where
  "checksum_peso src_ip dest_ip protocol p st = do {
     let len = swap_u16 (of_nat (total_size (buf st p)));
     s1 \<leftarrow> checksum16 0 src_ip (of_nat IPV4_ADDR_SIZE) 0 False;
     s2 \<leftarrow> checksum16 (of_nat IPV4_ADDR_SIZE) dest_ip (of_nat IPV4_ADDR_SIZE) (ucast s1) False;
     s3 \<leftarrow> checksum16 (of_nat (2 * IPV4_ADDR_SIZE)) [0, protocol] 2 (ucast s2) False;
     s4 \<leftarrow> checksum16 (of_nat (2 * IPV4_ADDR_SIZE + 2)) (le_bytes16 len) 2 (ucast s3) False;
     pktbuf_checksum16 p (total_size (buf st p)) (ucast s4) True (pktbuf_reset_acc p st)
   }"

section \<open>The specification\<close>

definition ones_sum :: "nat \<Rightarrow> nat" where
  "ones_sum n = (if n = 0 then 0 else (n - 1) mod 65535 + 1)"

text \<open>The weight of a byte: low half of its word at an even offset, high half at an odd one.\<close>

fun word_sum :: "bool \<Rightarrow> u8 list \<Rightarrow> nat" where
  "word_sum odd_off [] = 0"
| "word_sum odd_off (b # bs) = (if odd_off then 256 * unat b else unat b) + word_sum (\<not> odd_off) bs"

lemma ones_sum_less: "ones_sum n \<le> 65535"
  by (simp add: ones_sum_def less_Suc_eq_le[symmetric])

lemma ones_sum_small [simp]: "n \<le> 65535 \<Longrightarrow> ones_sum n = n"
  by (simp add: ones_sum_def)

lemma ones_sum_add_mult: "0 < n \<Longrightarrow> ones_sum (n + 65535 * k) = ones_sum n"
  by (cases n) (simp_all add: ones_sum_def)

lemma ones_sum_ones_sum: "ones_sum (ones_sum a + b) = ones_sum (a + b)"
proof (cases "a = 0")
  case False
  have "a - 1 = 65535 * ((a - 1) div 65535) + (a - 1) mod 65535" by simp
  then have a: "a = ones_sum a + 65535 * ((a - 1) div 65535)" using False by (simp add: ones_sum_def)
  have "0 < ones_sum a + b" using False by (simp add: ones_sum_def)
  from ones_sum_add_mult[OF this, of "(a - 1) div 65535"] a show ?thesis
    by (metis add.assoc add.commute)
qed (simp add: ones_sum_def)

lemma fold_carry_ones_sum: "unat (fold_carry s) = ones_sum (unat s)"
proof (induction s rule: fold_carry.induct)
  case (1 s)
  show ?case
  proof (cases "unat s < 65536")
    case True
    then show ?thesis by (subst fold_carry.simps) (simp add: carry_parts(2))
  next
    case False
    define t where "t = (ucast (ucast (drop_bit 16 s) :: u16) + (s AND 0xffff) :: u32)"
    have f: "fold_carry s = fold_carry t"
      using False by (subst fold_carry.simps) (simp add: carry_parts(2) t_def)
    have t: "unat t = unat s div 65536 + unat s mod 65536" unfolding t_def by (rule carry_parts(1))
    have "unat (fold_carry t) = ones_sum (unat t)"
      using "1.IH"[OF refl] False carry_parts(2)[of s] unfolding t_def by simp
    moreover have "unat s = unat t + 65535 * (unat s div 65536)"
      unfolding t using div_mult_mod_eq[of "unat s" 65536] by linarith
    moreover have "0 < unat t" unfolding t using False by (simp add: div_greater_zero_iff)
    ultimately show ?thesis using f ones_sum_add_mult[of "unat t"] by metis
  qed
qed

lemma word_sum_le: "word_sum h bs \<le> 65280 * length bs"
proof (induction bs arbitrary: h)
  case (Cons b bs)
  have "unat b < 256" using unsigned_less[of b, where ?'a = nat] by simp
  then show ?case using Cons.IH[of "\<not> h"] by (cases h) simp_all
qed simp

lemma word_sum_append: "word_sum h (xs @ ys) = word_sum h xs + word_sum (h \<noteq> odd (length xs)) ys"
proof (induction xs arbitrary: h)
  case (Cons x xs)
  have "(\<not> h) = even (length xs) \<longleftrightarrow> h = odd (length xs)" by blast
  then show ?case by (simp add: Cons)
qed simp

section \<open>Correctness\<close>

lemma unat_byte: "unat (ucast (b :: u8) :: u32) = unat b" "unat (push_bit 8 (ucast (b :: u8)) :: u32) = 256 * unat b"
proof -
  have b: "unat b < 256" using unsigned_less[of b, where ?'a = nat] by simp
  show u: "unat (ucast b :: u32) = unat b" using b by (simp add: unsigned_ucast_eq take_bit_eq_mod)
  show "unat (push_bit 8 (ucast b) :: u32) = 256 * unat b"
    using b u by (simp add: push_bit_eq_mult unat_mult_small)
qed

lemma sum_words_ok:
  assumes "len \<le> length bs" "unat s + word_sum False (take len bs) < 2 ^ 32"
  shows "\<exists>s'. sum_words len bs s = Some s' \<and> unat s' = unat s + word_sum False (take len bs)"
  using assms
proof (induction len bs s rule: sum_words.induct)
  case (1 len bs s)
  consider "len = 0" | "len = 1" | "len > 1" by linarith
  then show ?case
  proof cases
    case 1
    then show ?thesis by (simp add: sum_words.simps)
  next
    case 2
    then obtain a r where "bs = a # r" using "1.prems"(1) by (cases bs) auto
    then show ?thesis using 2 "1.prems"(2) by (simp add: sum_words.simps unat_byte unat_add_small)
  next
    case 3
    then obtain a b r where bs: "bs = a # b # r" using "1.prems"(1) by (cases bs; cases "tl bs") auto
    obtain m where m: "len = Suc (Suc m)" using 3 by (metis One_nat_def Suc_less_eq gr0_conv_Suc lessE less_imp_Suc_add)
    define s1 where "s1 = s + (ucast a + push_bit 8 (ucast b))"
    have p: "unat (ucast a + push_bit 8 (ucast b) :: u32) = unat a + 256 * unat b"
      using "1.prems"(2) bs m by (subst unat_add_small) (simp_all add: unat_byte)
    have s1: "unat s1 = unat s + unat a + 256 * unat b"
      using "1.prems"(2) bs m p unfolding s1_def by (subst unat_add_small) simp_all
    have "sum_words len bs s = sum_words (len - 2) r s1" using 3 bs by (subst sum_words.simps) (simp add: s1_def)
    moreover have "\<exists>s'. sum_words (len - 2) r s1 = Some s' \<and> unat s' = unat s1 + word_sum False (take (len - 2) r)"
      unfolding s1_def using 3 bs "1.prems" m s1[unfolded s1_def]
      by (intro "1.IH"[of a _ b]) simp_all
    ultimately show ?thesis using s1 bs m by auto
  qed
qed

lemma odd_word: "(w :: u32) AND 1 \<noteq> 0 \<longleftrightarrow> odd (unat w)"
proof -
  have "bit (unat w) 0 = bit w 0" by (simp only: bit_unsigned_iff) simp
  then have "even w = even (unat w)" by (simp add: bit_0)
  then show ?thesis by (simp add: and_one_eq flip: even_iff_mod_2_eq_zero)
qed

lemma unat_ucast_fold: "unat (ucast (fold_carry s) :: u16) = ones_sum (unat s)"
  using fold_carry_ones_sum[of s] ones_sum_less[of "unat s"]
  by (simp add: unsigned_ucast_eq take_bit_eq_mod)

definition complemented :: "bool \<Rightarrow> u16 \<Rightarrow> u16" where
  "complemented c r = (if c then NOT r else r)"

lemma ucast_not: "ucast (NOT (w :: u32)) = (NOT (ucast w) :: u16)"
  by (rule bit_word_eqI) (simp add: bit_simps)

lemma checksum16_ok:
  assumes "n \<le> length bs" "n < 2 ^ 16" "odd (unat offset) \<longrightarrow> 0 < n" "unat pre_sum < 2 ^ 16"
  shows "checksum16 offset bs (of_nat n) pre_sum c =
    Some (complemented c (of_nat (ones_sum (unat pre_sum + word_sum (odd (unat offset)) (take n bs)))))"
proof -
  have u: "unat (of_nat n :: u16) = n" using assms(2) by (simp add: unat_of_nat_small)
  have bound: "unat pre_sum + word_sum h (take n bs) < 2 ^ 32" for h
    using word_sum_le[of h "take n bs"] assms(1,2,4) by simp
  have "\<exists>s. (if offset AND 1 \<noteq> 0 then case bs of [] \<Rightarrow> None
        | b # r \<Rightarrow> sum_words (unat (of_nat n - 1 :: u16)) r (pre_sum + push_bit 8 (ucast b))
      else sum_words (unat (of_nat n :: u16)) bs pre_sum) = Some s \<and>
      unat s = unat pre_sum + word_sum (odd (unat offset)) (take n bs)"
  proof (cases "odd (unat offset)")
    case True
    then obtain b r m where b: "bs = b # r" "n = Suc m" using assms(1,3) by (cases bs; cases n) auto
    have "unat (of_nat n - 1 :: u16) = m" using assms(2) b(2) by (simp add: unat_of_nat_small)
    moreover have "unat (pre_sum + push_bit 8 (ucast b)) = unat pre_sum + 256 * unat b"
      using bound[of True] b by (subst unat_add_small) (simp_all add: unat_byte)
    ultimately show ?thesis
      using sum_words_ok[of m r "pre_sum + push_bit 8 (ucast b)"] True b assms(1) bound[of True] by (simp add: odd_word add.assoc)
  next
    case False
    then show ?thesis using sum_words_ok[of n bs pre_sum] assms(1) bound[of False] u by (simp add: odd_word)
  qed
  then obtain s where s: "(if offset AND 1 \<noteq> 0 then case bs of [] \<Rightarrow> None
        | b # r \<Rightarrow> sum_words (unat (of_nat n - 1 :: u16)) r (pre_sum + push_bit 8 (ucast b))
      else sum_words (unat (of_nat n :: u16)) bs pre_sum) = Some s"
      "unat s = unat pre_sum + word_sum (odd (unat offset)) (take n bs)" by blast
  have "ucast (fold_carry s) = (of_nat (ones_sum (unat s)) :: u16)"
    using arg_cong[OF unat_ucast_fold[of s], of "of_nat :: nat \<Rightarrow> u16"] by simp
  then show ?thesis unfolding checksum16_def s(1) by (simp add: complemented_def ucast_not s(2))
qed


text \<open>
  \<open>checksum16\<close> is the Internet checksum: the one's complement sum of the given sum and the
  16-bit words, where the offset says whether the first byte is the low or the high half of its
  word.  A piece at an odd offset must not be empty.
\<close>

theorem checksum16_rfc1071:
  assumes "n \<le> length bs" "n < 2 ^ 16" "odd (unat offset) \<longrightarrow> 0 < n" "unat pre_sum < 2 ^ 16"
  shows "checksum16 offset bs (of_nat n) pre_sum c =
    Some (complemented c (of_nat (ones_sum (unat pre_sum + word_sum (odd (unat offset)) (take n bs)))))"
  by (rule checksum16_ok[OF assms])

section \<open>Checksum of a packet\<close>

text \<open>No empty block, and the position not at the end of a block.\<close>

definition no_empty :: "pkt_state \<Rightarrow> pid \<Rightarrow> bool" where
  "no_empty st p \<longleftrightarrow> (\<forall>b\<in>set (blk_list (buf st p)). 0 < blk_size (blk st b)) \<and>
     (curr_blk (buf st p) \<noteq> None \<longrightarrow> curr_blk_remain p st \<noteq> Some 0)"

lemma blk_next_mem: "blk_next c xs = Some (Some d) \<Longrightarrow> d \<in> set xs"
  by (induction xs) (auto split: if_splits list.splits)

lemma move_forward_no_empty:
  assumes "no_empty st p" "move_forward p n st = Some st'"
  shows "no_empty st' p"
proof -
  obtain c where c: "curr_blk (buf st p) = Some c" using assms(2) by (auto simp: move_forward_def split: option.splits)
  show ?thesis
  proof (cases "blk_data (blk st c) + blk_size (blk st c) \<le> blk_offset (buf st p) + n")
    case True
    then obtain nx where nx: "blk_next c (blk_list (buf st p)) = Some nx"
      "st' = upd_buf p (\<lambda>pb. pb\<lparr>pos := pos pb + n, curr_blk := nx,
          blk_offset := (case nx of None \<Rightarrow> 0 | Some b \<Rightarrow> blk_data (blk st b))\<rparr>) st"
      using assms(2) c by (auto simp: move_forward_def Let_def split: bind_splits)
    then show ?thesis using assms(1) blk_next_mem[of c _]
      by (cases nx) (auto simp: no_empty_def curr_blk_remain_def Let_def)
  next
    case False
    then have "st' = upd_buf p (\<lambda>pb. pb\<lparr>pos := pos pb + n, blk_offset := blk_offset pb + n\<rparr>) st"
      using assms(2) c by (simp add: move_forward_def Let_def)
    then show ?thesis using assms(1) False c by (auto simp: no_empty_def curr_blk_remain_def Let_def)
  qed
qed

lemma bytes_at_ok:
  assumes "buf_ok st p" "pos_ok st p" "curr_blk_remain p st = Some r" "n \<le> r" "curr_blk (buf st p) \<noteq> None"
  shows "take n (bytes_at p st) = take n (drop (pos (buf st p)) (contents st p))" "n \<le> length (bytes_at p st)"
  using load_curr_ok[OF assms] assms(5)
  by (auto simp: load_curr_def copy_out_def bytes_at_def split: option.splits if_splits)

lemma remain_le: "buf_ok st p \<Longrightarrow> pos_ok st p \<Longrightarrow> curr_blk_remain p st = Some r \<Longrightarrow> r \<le> PKTBUF_BLK_SIZE"
  by (cases "curr_blk (buf st p)")
    (auto simp: curr_blk_remain_def buf_ok_def pos_ok_def blk_ok_def Let_def split: if_splits)

lemma checksum_loop_ok:
  assumes "buf_ok st p" "pos_ok st p" "no_empty st p" "pos (buf st p) + sz \<le> length (contents st p)" "unat s < 2 ^ 16" "0 < sz"
    "unat offset + sz < 2 ^ 32"
  shows "\<exists>st'. checksum_loop p sz s offset st =
    Some (of_nat (ones_sum (unat s + word_sum (odd (unat offset)) (take sz (drop (pos (buf st p)) (contents st p))))), st')"
  using assms
proof (induction sz arbitrary: s offset st rule: less_induct)
  case (less sz)
  obtain r where r: "curr_blk (buf st p) \<noteq> None" "curr_blk_remain p st = Some r"
    using access_round[OF less.prems(1,2,6,4)] .
  define n where "n = (if r > sz then sz else r)"
  have "0 < r" using less.prems(3) r by (auto simp: no_empty_def)
  then have n: "0 < n" "n \<le> r" "n \<le> sz" "n \<le> PKTBUF_BLK_SIZE"
    using remain_le[OF less.prems(1,2) r(2)] less.prems(6) by (auto simp: n_def)
  note ba = bytes_at_ok[OF less.prems(1,2) r(2) n(2) r(1)]
  obtain st2 where s2: "move_forward p n st = Some st2" "blk st2 = blk st" "same_but p st st2" "buf_ok st2 p"
      "pos_ok st2 p" "pos (buf st2 p) = pos (buf st p) + n" "contents st2 p = contents st p"
    by (rule move_forward_ok[OF less.prems(1,2) r(2) n(2) r(1)])
  define v where "v = ones_sum (unat s + word_sum (odd (unat offset)) (take n (drop (pos (buf st p)) (contents st p))))"
  have v: "v \<le> 65535" unfolding v_def by (rule ones_sum_less)
  have ck: "checksum16 offset (bytes_at p st) (of_nat n) s False = Some (of_nat v)"
    using checksum16_ok[of n "bytes_at p st" offset s False] ba n less.prems(5)
    by (simp add: v_def complemented_def PKTBUF_BLK_SIZE_def)
  have uv: "unat (ucast (of_nat v :: u16) :: u32) = v"
    unfolding unat_ucast_16 using v by (simp add: unat_of_nat_small)
  have off: "unat (offset + of_nat n) = unat offset + n"
    using less.prems(7) n by (subst unat_add_small) (simp_all add: unat_of_nat_small)
  have step: "checksum_loop p sz s offset st = checksum_loop p (sz - n) (ucast (of_nat v :: u16)) (offset + of_nat n) st2"
    using less.prems(6) r(2) ck s2(1) by (subst checksum_loop.simps) (simp add: n_def[symmetric])
  show ?case
  proof (cases "n = sz")
    case True
    have "(ucast (of_nat v :: u16) :: u32) = of_nat v"
      using arg_cong[OF uv, of "of_nat :: nat \<Rightarrow> u32"] by simp
    then show ?thesis using step True by (simp add: checksum_loop.simps v_def)
  next
    case False
    let ?d = "drop (pos (buf st p)) (contents st p)"
    have pieces: "take sz ?d = take n ?d @ take (sz - n) (drop (pos (buf st2 p)) (contents st2 p))"
      using take_add[of n "sz - n" ?d] n s2(6,7) by (simp add: ac_simps)
    have "odd (unat (offset + of_nat n)) = (odd (unat offset) \<noteq> odd (length (take n ?d)))"
      using less.prems(4) n by (simp add: off)
    then have ws: "word_sum (odd (unat offset)) (take sz ?d) = word_sum (odd (unat offset)) (take n ?d) +
        word_sum (odd (unat (offset + of_nat n))) (take (sz - n) (drop (pos (buf st2 p)) (contents st2 p)))"
      unfolding pieces word_sum_append by simp
    define W where "W = word_sum (odd (unat (offset + of_nat n))) (take (sz - n) (drop (pos (buf st2 p)) (contents st2 p)))"
    have pre: "sz - n < sz" "0 < sz - n" "pos (buf st2 p) + (sz - n) \<le> length (contents st2 p)"
      "unat (offset + of_nat n) + (sz - n) < 2 ^ 32" "unat (ucast (of_nat v :: u16) :: u32) < 2 ^ 16"
      using False n less.prems(4,7) s2(6,7) off uv v by simp_all
    have "ones_sum (v + W) = ones_sum (unat s + word_sum (odd (unat offset)) (take sz ?d))"
      unfolding v_def ones_sum_ones_sum ws W_def[symmetric] by (simp only: add.assoc)
    then show ?thesis unfolding step
      using less.IH[OF pre(1) s2(4,5) move_forward_no_empty[OF less.prems(3) s2(1)] pre(3,5,2,4)]
      unfolding uv W_def[symmetric] by simp
  qed
qed

lemma pktbuf_checksum16_ok:
  assumes "pkt_ok st p" "\<forall>b\<in>set (blk_list (buf st p)). 0 < blk_size (blk st b)" "0 < sz" "sz \<le> total_size (buf st p)"
    "total_size (buf st p) < 2 ^ 31" "unat pre_sum < 2 ^ 16"
  shows "\<exists>st'. pktbuf_checksum16 p sz pre_sum c (pktbuf_reset_acc p st) =
    Some (complemented c (of_nat (ones_sum (unat pre_sum + word_sum False (take sz (contents st p))))), st')"
proof -
  let ?s = "pktbuf_reset_acc p st"
  have ok: "buf_ok ?s p" "pos_ok ?s p" "pos (buf ?s p) = 0" "contents ?s p = contents st p"
    "total_size (buf ?s p) = total_size (buf st p)"
    using assms(1) by (simp_all add: reset_acc_ok pkt_ok_def)
  have "no_empty ?s p" using assms(2)
    by (cases "blk_list (buf st p)")
      (auto simp: no_empty_def pktbuf_reset_acc_def pktbuf_first_blk_def curr_blk_remain_def Let_def)
  moreover have "sz \<le> length (contents st p)" using assms(1,4) by (simp add: pkt_ok_def buf_ok_def)
  ultimately obtain st' where l: "checksum_loop p sz pre_sum 0 ?s =
      Some (of_nat (ones_sum (unat pre_sum + word_sum False (take sz (contents st p)))), st')"
    using checksum_loop_ok[OF ok(1,2), of sz pre_sum 0] ok(3,4) assms(3-6) by auto
  define v where "v = ones_sum (unat pre_sum + word_sum False (take sz (contents st p)))"
  have uv: "unat (of_nat v :: u32) = v" using ones_sum_less[of "unat pre_sum + word_sum False (take sz (contents st p))"]
    by (intro unat_of_nat_small) (simp add: v_def)
  have "(of_nat (unat (of_nat v :: u32)) :: u16) = ucast (of_nat v :: u32)" by (rule of_nat_unat)
  then have "ucast (of_nat v :: u32) = (of_nat v :: u16)" unfolding uv by (rule sym)
  then show ?thesis using l[folded v_def] assms(4) ok(3,5)
    by (simp add: pktbuf_checksum16_def total_blk_remain_def complemented_def ucast_not v_def[symmetric])
qed



theorem checksum16_rfc1071_witness:
  "unat (0 :: u32) < 2 ^ 16 \<and> checksum16 1 [0x12, 0x34, 0x56] (of_nat 3) 0 False = Some (of_nat (256 * 0x12 + 0x34 + 256 * 0x56))"
  using checksum16_rfc1071[of 3 "[0x12, 0x34, 0x56]" 1 0 False] by (simp add: complemented_def)


end
