(* ===== verification/Thread.thy ===== *)
theory Thread
  imports Linked_List Paging
begin

text \<open>
  Threads and the scheduler (\<open>kernel/thread/thread.c\<close>).  A task is known by the address of its
  \<open>task_struct\<close>; its two list nodes are at fixed offsets in it, so that the queues \<open>ready_tasks\<close>,
  \<open>sleep_tasks\<close> and \<open>all_tasks\<close> are lists of \<open>list.c\<close> in the node heap, with everything \<open>remove\<close>
  does to a node that is in no list.  \<open>cur\<close> is the task that runs, the one whose kernel stack
  \<open>esp\<close> points into; \<open>switch_to\<close> changes it, and what a function does after a call that switches
  away is done by the task when it runs again.  Memory is the state of \<open>Paging\<close>; a
  \<open>vir_addr_alloc\<close> is identified by the bits of its bitmap, which the threads of a process share.
\<close>

section \<open>Data\<close>

datatype task_status = TASK_UNKNOWN | TASK_RUNNING | TASK_READY | TASK_BLOCKED | TASK_SLEEP | TASK_WAITING
  | TASK_HANGING | TASK_DIED

datatype entry_point = Kernel_thread | Intr_exit

record thread_stack =
  ts_eip :: entry_point
  ts_func :: nat
  ts_func_arg :: u32

definition TASK_NAME_LEN :: nat where "TASK_NAME_LEN = 16"
definition TASK_DEFAULT_PRIORITY :: u32 where "TASK_DEFAULT_PRIORITY = 31"
definition TASK_FILE_SIZE :: nat where "TASK_FILE_SIZE = 128"

record task_struct =
  self_kstack :: u32
  pid :: u32
  parent_pid :: u32
  t_name :: string
  status :: task_status
  exit_code :: int
  priority :: u32
  ticks :: u32
  elapset_ticks :: u32
  sleep_ticks :: u32
  vfork_done :: "nat option"
  page_dir :: u32
  vir_addr_alloc :: vir_id
  file_table :: "nat option list"
  pwd :: string
  kstack :: thread_stack

record pid_alloc_t =
  pa_bitmap :: bitmap_t
  pa_start :: u32

record kernel =
  task :: "addr \<Rightarrow> task_struct"
  nodes :: heap
  ready_tasks :: list_t
  sleep_tasks :: list_t
  all_tasks :: list_t
  cur :: addr
  main_thread :: addr
  pid_alloc :: pid_alloc_t
  mem :: mem_state
  tss_esp0 :: u32

text \<open>The offsets of the list nodes in \<open>task_struct\<close>, and \<open>tag2entry\<close>.\<close>

definition general_tag :: "addr \<Rightarrow> addr" where "general_tag t = t + 36"
definition all_tag :: "addr \<Rightarrow> addr" where "all_tag t = t + 52"
definition general_entry :: "addr \<Rightarrow> addr" where "general_entry n = n - 36"
definition all_entry :: "addr \<Rightarrow> addr" where "all_entry n = n - 52"

definition upd_task :: "addr \<Rightarrow> (task_struct \<Rightarrow> task_struct) \<Rightarrow> kernel \<Rightarrow> kernel" where
  "upd_task t f k = k\<lparr>task := (task k)(t := f (task k t))\<rparr>"

section \<open>Process identifiers\<close>

text \<open>\<open>behind\<close> is the memory that follows the array \<open>pid_bitmap_bits\<close>.\<close>

definition init_pid_alloc :: "u8 list \<Rightarrow> pid_alloc_t option" where
  "init_pid_alloc behind = do {
     b \<leftarrow> bitmap_init \<lparr>bytes_len = 128, bits = replicate 128 0 @ behind\<rparr>;
     Some \<lparr>pa_bitmap = b, pa_start = 0\<rparr>
   }"

definition alloc_pid :: "pid_alloc_t \<Rightarrow> (u32 \<times> pid_alloc_t) option" where
  "alloc_pid pa = do {
     bit_idx \<leftarrow> bitmap_scan (pa_bitmap pa) 1;
     if bit_idx < 0 then Some (- 1, pa)
     else do {
       b \<leftarrow> bitmap_set (pa_bitmap pa) (nat bit_idx) 1;
       Some (of_int bit_idx + pa_start pa, pa\<lparr>pa_bitmap := b\<rparr>)
     }
   }"

definition unalloc_pid :: "u32 \<Rightarrow> pid_alloc_t \<Rightarrow> pid_alloc_t option" where
  "unalloc_pid p pa = do {
     b \<leftarrow> bitmap_set (pa_bitmap pa) (unat (p - pa_start pa)) 0;
     Some (pa\<lparr>pa_bitmap := b\<rparr>)
   }"

section \<open>Creating threads\<close>

text \<open>\<open>self_kstack\<close> points to 4-byte words; \<open>process_stack\<close> has 76 and \<open>thread_stack\<close> 32 bytes.\<close>

definition thread_create :: "addr \<Rightarrow> nat \<Rightarrow> u32 \<Rightarrow> kernel \<Rightarrow> kernel" where
  "thread_create t func func_arg k =
     upd_task t (\<lambda>s. s\<lparr>self_kstack := self_kstack s - 4 * 76 - 4 * 32,
       kstack := \<lparr>ts_eip = Kernel_thread, ts_func = func, ts_func_arg = func_arg\<rparr>\<rparr>) k"

definition DEFAULT_PWD :: string where "DEFAULT_PWD = ''/home''"

text \<open>A name of more than 16 characters overwrites the fields behind it.\<close>

definition init_thread :: "addr \<Rightarrow> string \<Rightarrow> u32 \<Rightarrow> kernel \<Rightarrow> kernel option" where
  "init_thread t name prio k =
     (if length name > TASK_NAME_LEN then None
      else Some (k\<lparr>task := (task k)(t := \<lparr>self_kstack = of_nat t + MEM_PAGE_SIZE, pid = 0, parent_pid = 0, t_name = name,
          status = (if t = main_thread k then TASK_RUNNING else TASK_READY), exit_code = 0, priority = prio, ticks = prio,
          elapset_ticks = 0, sleep_ticks = 0, vfork_done = None, page_dir = 0, vir_addr_alloc = User_vir t,
          file_table = replicate TASK_FILE_SIZE None, pwd = DEFAULT_PWD, kstack = \<lparr>ts_eip = Kernel_thread, ts_func = 0, ts_func_arg = 0\<rparr>\<rparr>),
        nodes := (nodes k)\<lparr>h_pre := (h_pre (nodes k))(general_tag t \<mapsto> 0, t + 44 \<mapsto> 0, all_tag t \<mapsto> 0),
          h_next := (h_next (nodes k))(general_tag t \<mapsto> 0, t + 44 \<mapsto> 0, all_tag t \<mapsto> 0)\<rparr>\<rparr>))"

definition push_ready :: "addr \<Rightarrow> kernel \<Rightarrow> kernel option" where
  "push_ready t k = do {
     (l, h) \<leftarrow> pushr (ready_tasks k) (general_tag t) (nodes k);
     Some (k\<lparr>ready_tasks := l, nodes := h\<rparr>)
   }"

definition push_all_tasks :: "addr \<Rightarrow> kernel \<Rightarrow> kernel option" where
  "push_all_tasks t k = do {
     (l, h) \<leftarrow> pushr (all_tasks k) (all_tag t) (nodes k);
     Some (k\<lparr>all_tasks := l, nodes := h\<rparr>)
   }"

definition alloc_task :: "kernel \<Rightarrow> (addr \<times> kernel) option" where
  "alloc_task k = do {
     (a, m) \<leftarrow> alloc_kernel_mem 1 (mem k);
     Some (unat a, k\<lparr>mem := m\<rparr>)
   }"

definition thread_start :: "string \<Rightarrow> u32 \<Rightarrow> nat \<Rightarrow> u32 \<Rightarrow> kernel \<Rightarrow> (addr \<times> kernel) option" where
  "thread_start name prio func func_arg k = do {
     let c = cur k;
     (t, k1) \<leftarrow> alloc_task k;
     k2 \<leftarrow> init_thread t name prio k1;
     let k3 = thread_create t func func_arg (upd_task t (\<lambda>s. s\<lparr>pid := pid (task k2 c), parent_pid := parent_pid (task k2 c)\<rparr>) k2);
     let k4 = upd_task t (\<lambda>s. s\<lparr>page_dir := page_dir (task k3 c), vir_addr_alloc := vir_addr_alloc (task k3 c)\<rparr>) k3;
     k5 \<leftarrow> push_ready t k4;
     k6 \<leftarrow> push_all_tasks t k5;
     Some (t, k6)
   }"

definition thread_clone :: "string \<Rightarrow> u32 \<Rightarrow> nat \<Rightarrow> u32 \<Rightarrow> kernel \<Rightarrow> kernel option" where
  "thread_clone name prio func func_arg k = map_option snd (thread_start name prio func func_arg k)"

section \<open>The scheduler\<close>

definition process_activate :: "addr \<Rightarrow> kernel \<Rightarrow> kernel" where
  "process_activate t k = k\<lparr>mem := (mem k)\<lparr>cr3 := page_dir (task k t)\<rparr>, tss_esp0 := of_nat t + MEM_PAGE_SIZE\<rparr>"

text \<open>
  The walk over the sleeping tasks; \<open>wake\<close> is \<open>wake_up_list\<close>, an array of ten, and an eleventh
  entry is written outside it.
\<close>

partial_function (option) sleep_scan :: "addr \<Rightarrow> addr list \<Rightarrow> kernel \<Rightarrow> (addr list \<times> kernel) option" where
  "sleep_scan p wake k =
     (if p = 0 \<or> p = l_tail (sleep_tasks k) then Some (wake, k)
      else let t = general_entry p;
               k1 = upd_task t (\<lambda>s. s\<lparr>sleep_ticks := sleep_ticks s - 1\<rparr>) k
           in Option.bind (if sleep_ticks (task k1 t) \<le> 0 then (if length wake < 10 then Some (wake @ [p]) else None) else Some wake)
                (\<lambda>wake1. Option.bind (h_next (nodes k1) p) (\<lambda>q. sleep_scan q wake1 k1)))"

fun wake_loop :: "addr list \<Rightarrow> kernel \<Rightarrow> kernel option" where
  "wake_loop [] k = Some k"
| "wake_loop (n # ns) k = do {
     (s, h) \<leftarrow> remove (sleep_tasks k) n (nodes k);
     (r, h1) \<leftarrow> pushl (ready_tasks k) n h;
     wake_loop ns (upd_task (general_entry n) (\<lambda>s. s\<lparr>status := TASK_READY\<rparr>) (k\<lparr>sleep_tasks := s, ready_tasks := r, nodes := h1\<rparr>))
   }"

definition switch_to :: "addr \<Rightarrow> kernel \<Rightarrow> kernel" where
  "switch_to t k = k\<lparr>cur := t\<rparr>"

definition schedule :: "kernel \<Rightarrow> kernel option" where
  "schedule k0 = do {
     first \<leftarrow> h_next (nodes k0) (l_head (sleep_tasks k0));
     (wake, k1) \<leftarrow> sleep_scan first [] k0;
     k \<leftarrow> wake_loop wake k1;
     let c = cur k;
     if status (task k c) = TASK_RUNNING \<and> ticks (task k c) > 0
     then Some (upd_task c (\<lambda>s. s\<lparr>elapset_ticks := elapset_ticks s + 1, ticks := ticks s - 1\<rparr>) k)
     else do {
       (next_tag, r, h) \<leftarrow> popl (ready_tasks k) (nodes k);
       let k2 = k\<lparr>ready_tasks := r, nodes := h\<rparr>;
       if next_tag = 0 then Some k2
       else let nxt = general_entry next_tag;
                k3 = upd_task nxt (\<lambda>s. s\<lparr>ticks := priority s\<rparr>) k2
            in if nxt = 0 then Some k2
               else if c = nxt then Some k3
               else do {
                 let k4 = upd_task c (\<lambda>s. if status s = TASK_RUNNING then s\<lparr>status := TASK_READY\<rparr> else s) k3;
                 k5 \<leftarrow> (if status (task k4 c) = TASK_READY then push_ready c k4 else Some k4);
                 Some (switch_to nxt (process_activate nxt (upd_task nxt (\<lambda>s. s\<lparr>status := TASK_RUNNING\<rparr>) k5)))
               }
     }
   }"

definition init_task :: "u8 list \<Rightarrow> kernel \<Rightarrow> kernel option" where
  "init_task behind k = do {
     (r, h) \<leftarrow> init_list (ready_tasks k) (nodes k);
     (a, h1) \<leftarrow> init_list (all_tasks k) h;
     (s, h2) \<leftarrow> init_list (sleep_tasks k) h1;
     pa \<leftarrow> init_pid_alloc behind;
     Some (k\<lparr>ready_tasks := r, all_tasks := a, sleep_tasks := s, nodes := h2, pid_alloc := pa\<rparr>)
   }"

definition enter_main_thread :: "kernel \<Rightarrow> kernel option" where
  "enter_main_thread k = do {
     let t = cur k;
     k1 \<leftarrow> init_thread t ''main'' TASK_DEFAULT_PRIORITY (k\<lparr>main_thread := t\<rparr>);
     (p, pa) \<leftarrow> alloc_pid (pid_alloc k1);
     let k2 = upd_task t (\<lambda>s. s\<lparr>page_dir := kernel_page_dir (mem k1), pid := p, parent_pid := - 1, vir_addr_alloc := Kernel_vir\<rparr>)
                (k1\<lparr>pid_alloc := pa\<rparr>);
     push_all_tasks t k2
   }"

section \<open>Memory of a thread\<close>

datatype page_flag = PF_KERNEL | PF_USER

definition malloc_thread_mem :: "page_flag \<Rightarrow> nat \<Rightarrow> kernel \<Rightarrow> (u32 \<times> kernel) option" where
  "malloc_thread_mem pf page_count k =
     (let (pd, va) = (if pf = PF_KERNEL then (kernel_page_dir (mem k), Kernel_vir)
                      else (page_dir (task k (cur k)), vir_addr_alloc (task k (cur k))))
      in do {
        (a, m) \<leftarrow> malloc_mem pd va page_count (mem k);
        Some (a, k\<lparr>mem := m\<rparr>)
      })"

text \<open>The page directory and allocator that belong to an address, for the running task.\<close>

definition dir_of_vaddr :: "u32 \<Rightarrow> kernel \<Rightarrow> u32 \<times> vir_id" where
  "dir_of_vaddr vaddr k =
     (let c = task k (cur k)
      in if vaddr \<ge> aa_start (get_vir (vir_addr_alloc c) (mem k)) then (page_dir c, vir_addr_alloc c)
         else (kernel_page_dir (mem k), Kernel_vir))"

definition malloc_thread_mem_vaddr :: "u32 \<Rightarrow> nat \<Rightarrow> kernel \<Rightarrow> (u32 \<times> kernel) option" where
  "malloc_thread_mem_vaddr vaddr page_count k =
     (let (pd, va) = dir_of_vaddr vaddr k
      in do {
        (a, m) \<leftarrow> malloc_mem_vaddr pd va vaddr page_count (mem k);
        Some (a, k\<lparr>mem := m\<rparr>)
      })"

definition unmalloc_thread_mem :: "u32 \<Rightarrow> nat \<Rightarrow> kernel \<Rightarrow> (int option \<times> kernel) option" where
  "unmalloc_thread_mem vaddr page_count k =
     (let (pd, va) = dir_of_vaddr vaddr k
      in do {
        (e, m) \<leftarrow> unmalloc_mem pd va vaddr page_count (mem k);
        Some (e, k\<lparr>mem := m\<rparr>)
      })"

section \<open>Changing the status of a thread\<close>

definition do_set_thread_status :: "addr \<Rightarrow> task_status \<Rightarrow> bool \<Rightarrow> bool \<Rightarrow> kernel \<Rightarrow> kernel option" where
  "do_set_thread_status t st need_schedule first k = do {
     k1 \<leftarrow> (if status (task k t) \<noteq> TASK_READY \<and> status (task k t) \<noteq> TASK_RUNNING \<and> st = TASK_READY
           then do {
             (l, h) \<leftarrow> (if first then pushl (ready_tasks k) (general_tag t) (nodes k)
                       else pushr (ready_tasks k) (general_tag t) (nodes k));
             Some (k\<lparr>ready_tasks := l, nodes := h\<rparr>)
           }
           else Some k);
     k2 \<leftarrow> (if st \<noteq> TASK_READY
           then do {
             (l, h) \<leftarrow> remove (ready_tasks k1) (general_tag t) (nodes k1);
             Some (k1\<lparr>ready_tasks := l, nodes := h\<rparr>)
           }
           else Some k1);
     k3 \<leftarrow> (if st = TASK_SLEEP
           then do {
             (l, h) \<leftarrow> pushr (sleep_tasks k2) (general_tag t) (nodes k2);
             Some (k2\<lparr>sleep_tasks := l, nodes := h\<rparr>)
           }
           else Some k2);
     let k4 = upd_task t (\<lambda>s. s\<lparr>status := st\<rparr>) k3;
     if need_schedule then schedule k4 else Some k4
   }"

definition set_thread_status :: "addr \<Rightarrow> task_status \<Rightarrow> bool \<Rightarrow> kernel \<Rightarrow> kernel option" where
  "set_thread_status t st need_schedule k = do_set_thread_status t st need_schedule False k"

definition set_cur_thread_status :: "task_status \<Rightarrow> bool \<Rightarrow> kernel \<Rightarrow> kernel option" where
  "set_cur_thread_status st need_schedule k = set_thread_status (cur k) st need_schedule k"

definition thread_yield :: "kernel \<Rightarrow> kernel option" where
  "thread_yield k = set_cur_thread_status TASK_READY True k"

definition HZ :: u32 where "HZ = 100"

definition thread_sleep :: "u32 \<Rightarrow> kernel \<Rightarrow> kernel option" where
  "thread_sleep ms_n k = set_cur_thread_status TASK_SLEEP True (upd_task (cur k) (\<lambda>s. s\<lparr>sleep_ticks := HZ * ms_n div 1000\<rparr>) k)"

definition thread_block :: "addr \<Rightarrow> task_status \<Rightarrow> kernel \<Rightarrow> kernel option" where
  "thread_block t st k = set_thread_status t st True k"

definition thread_ready :: "addr \<Rightarrow> bool \<Rightarrow> bool \<Rightarrow> kernel \<Rightarrow> kernel option" where
  "thread_ready t need_schedule now k = do_set_thread_status t TASK_READY need_schedule now k"

section \<open>Looking tasks up\<close>

text \<open>The visitors of \<open>foreach\<close> on \<open>all_tasks\<close>; their state is the task found, 0 for NULL.\<close>

definition pid_find_in_all_tasks :: "addr \<Rightarrow> kernel \<Rightarrow> addr \<Rightarrow> addr \<Rightarrow> bool \<times> addr" where
  "pid_find_in_all_tasks self k node found =
     (let t = all_entry node
      in if self \<noteq> t \<and> status (task k t) \<noteq> TASK_HANGING \<and> status (task k t) \<noteq> TASK_DIED \<and>
            page_dir (task k self) = page_dir (task k t)
         then (False, t) else (True, found))"

definition has_other_thread :: "addr \<Rightarrow> kernel \<Rightarrow> bool option" where
  "has_other_thread t k = do {
     found \<leftarrow> foreach (all_tasks k) (pid_find_in_all_tasks t k) 0 (nodes k);
     Some (found \<noteq> 0)
   }"

definition pid2task_visitor :: "u32 \<Rightarrow> kernel \<Rightarrow> addr \<Rightarrow> addr \<Rightarrow> bool \<times> addr" where
  "pid2task_visitor p k node found =
     (let t = all_entry node in if pid (task k t) = p then (False, t) else (True, found))"

definition pid2task :: "u32 \<Rightarrow> kernel \<Rightarrow> addr option" where
  "pid2task p k = foreach (all_tasks k) (pid2task_visitor p k) 0 (nodes k)"

definition thread_child_visitor :: "u32 \<Rightarrow> task_status \<Rightarrow> kernel \<Rightarrow> addr \<Rightarrow> addr \<Rightarrow> bool \<times> addr" where
  "thread_child_visitor p st k node found =
     (let t = all_entry node
      in if parent_pid (task k t) = p \<and> (st = TASK_UNKNOWN \<or> status (task k t) = st) then (False, t) else (True, found))"

definition thread_child :: "addr \<Rightarrow> task_status \<Rightarrow> kernel \<Rightarrow> addr option" where
  "thread_child parent st k = foreach (all_tasks k) (thread_child_visitor (pid (task k parent)) st k) 0 (nodes k)"

definition thread_exit :: "addr \<Rightarrow> bool \<Rightarrow> kernel \<Rightarrow> kernel option" where
  "thread_exit t need_schedule k = do {
     k1 \<leftarrow> set_thread_status t TASK_DIED need_schedule k;
     (r, h) \<leftarrow> remove (ready_tasks k1) (general_tag t) (nodes k1);
     (a, h1) \<leftarrow> remove (all_tasks k1) (all_tag t) h;
     let k2 = k1\<lparr>ready_tasks := r, all_tasks := a, nodes := h1\<rparr>;
     k4 \<leftarrow> (if t \<noteq> main_thread k2
           then do {
             other \<leftarrow> has_other_thread t k2;
             (e, k3) \<leftarrow> (if \<not> other then unmalloc_thread_mem (page_dir (task k2 t)) 1 k2 else Some (None, k2));
             (e', k4) \<leftarrow> unmalloc_thread_mem (of_nat t) 1 k3;
             Some k4
           }
           else Some k2);
     pa \<leftarrow> unalloc_pid (pid (task k4 t)) (pid_alloc k4);
     Some (k4\<lparr>pid_alloc := pa\<rparr>)
   }"

section \<open>The file table of a task\<close>

text \<open>Files are numbered; a table entry \<open>None\<close> is NULL.\<close>

fun first_free :: "'a option list \<Rightarrow> nat \<Rightarrow> nat option" where
  "first_free [] i = None"
| "first_free (x # xs) i = (if x = None then Some i else first_free xs (i + 1))"

definition task_alloc_fd :: "nat \<Rightarrow> kernel \<Rightarrow> int \<times> kernel" where
  "task_alloc_fd file k =
     (case first_free (file_table (task k (cur k))) 0 of
        None \<Rightarrow> (-1, k)
      | Some i \<Rightarrow> (int i, upd_task (cur k) (\<lambda>s. s\<lparr>file_table := (file_table s)[i := Some file]\<rparr>) k))"

definition task_file :: "int \<Rightarrow> kernel \<Rightarrow> nat option" where
  "task_file fd k =
     (if fd < 0 \<or> fd \<ge> int TASK_FILE_SIZE then None else file_table (task k (cur k)) ! nat fd)"

text \<open>The descriptor is not checked: outside the table the assignment goes to other memory.\<close>

definition task_set_file :: "int \<Rightarrow> nat \<Rightarrow> bool \<Rightarrow> kernel \<Rightarrow> (int \<times> kernel) option" where
  "task_set_file fd file ovr k =
     (if task_file fd k \<noteq> None \<and> \<not> ovr then Some (-1, k)
      else if fd < 0 \<or> fd \<ge> int TASK_FILE_SIZE then None
      else Some (0, upd_task (cur k) (\<lambda>s. s\<lparr>file_table := (file_table s)[nat fd := Some file]\<rparr>) k))"

definition task_free_fd :: "int \<Rightarrow> kernel \<Rightarrow> kernel" where
  "task_free_fd fd k =
     (if fd < 0 \<or> fd \<ge> int TASK_FILE_SIZE then k
      else upd_task (cur k) (\<lambda>s. s\<lparr>file_table := (file_table s)[nat fd := None]\<rparr>) k)"

end
