(* ===== verification/Thread_Proofs.thy ===== *)
theory Thread_Proofs
  imports Thread
begin

text \<open>
  The scheduler against its specification on queues: \<open>R\<close>, \<open>S\<close> and \<open>A\<close> are the ready, the sleeping
  and all tasks, in order.  The invariant \<open>sched_ok\<close> ties the queues to the status of the tasks;
  it is kept by \<open>schedule\<close> and by every change of status of the running task or of a waiting one.
\<close>

section \<open>The queues in memory\<close>

definition sep :: "addr set \<Rightarrow> kernel \<Rightarrow> bool" where
  "sep T k \<longleftrightarrow> list_foot (ready_tasks k) \<inter> list_foot (sleep_tasks k) = {} \<and>
     list_foot (ready_tasks k) \<inter> list_foot (all_tasks k) = {} \<and> list_foot (sleep_tasks k) \<inter> list_foot (all_tasks k) = {} \<and>
     (\<forall>t\<in>T. 4096 dvd t \<and> t \<noteq> 0 \<and> (\<forall>n\<in>{general_tag t, all_tag t}.
        n \<notin> list_foot (ready_tasks k) \<union> list_foot (sleep_tasks k) \<union> list_foot (all_tasks k)))"

definition qrep :: "addr set \<Rightarrow> kernel \<Rightarrow> addr list \<Rightarrow> addr list \<Rightarrow> addr list \<Rightarrow> bool" where
  "qrep T k R S A \<longleftrightarrow> list_rep (ready_tasks k) (nodes k) (map general_tag R) \<and>
     list_rep (sleep_tasks k) (nodes k) (map general_tag S) \<and> list_rep (all_tasks k) (nodes k) (map all_tag A) \<and>
     sep T k \<and> distinct (R @ S) \<and> set R \<union> set S \<union> set A \<subseteq> T \<and>
     (\<forall>t\<in>T. node_ok (nodes k) (general_tag t) \<and> node_ok (nodes k) (all_tag t))"

lemma tags [simp]: "general_tag t = general_tag u \<longleftrightarrow> t = u" "all_tag t = all_tag u \<longleftrightarrow> t = u"
  "general_entry (general_tag t) = t" "all_entry (all_tag t) = t" "general_tag t \<noteq> 0" "all_tag t \<noteq> 0"
  by (simp_all add: general_tag_def all_tag_def general_entry_def all_entry_def)

lemma tag_image [simp]: "general_tag t \<in> general_tag ` X \<longleftrightarrow> t \<in> X" "all_tag t \<in> all_tag ` X \<longleftrightarrow> t \<in> X"
  by auto

lemma tags_differ:
  assumes "4096 dvd t" "4096 dvd u" shows "general_tag t \<noteq> all_tag u"
proof
  assume "general_tag t = all_tag u"
  then have "t = u + 16" by (simp add: general_tag_def all_tag_def)
  then have "4096 dvd (16 :: nat)" using assms by (simp add: dvd_add_right_iff)
  then show False by simp
qed

lemma remove1_map_tag: "remove1 (general_tag t) (map general_tag S) = map general_tag (remove1 t S)"
  by (induction S) auto

text \<open>Operations that touch only the nodes of one queue keep the others.\<close>

lemma rep_frame:
  assumes "list_rep l h xs" "agree (- N) h h'" "N \<inter> (set xs \<union> list_foot l) = {}"
  shows "list_rep l h' xs"
  by (rule llist.rep_agree[OF assms(1) agree_subset[OF assms(2)]]) (use assms(3) in auto)

lemma node_ok_frame:
  assumes "agree (- N) h h'" "\<And>p. p \<in> N \<Longrightarrow> node_ok h p \<Longrightarrow> node_ok h' p" "node_ok h p"
  shows "node_ok h' p"
  using assms agree_node_ok[OF assms(1), of p] by (cases "p \<in> N") auto

lemma sep_cong:
  assumes "list_foot (ready_tasks k') = list_foot (ready_tasks k)" "list_foot (sleep_tasks k') = list_foot (sleep_tasks k)"
    "list_foot (all_tasks k') = list_foot (all_tasks k)"
  shows "sep T k' = sep T k"
  using assms by (simp add: sep_def)

lemma rep_node_ok:
  assumes "list_rep l h xs" "p \<in> set xs" shows "node_ok h p"
proof -
  obtain as bs where x: "xs = as @ p # bs" using assms(2) by (auto simp: in_set_conv_decomp)
  obtain us a where a: "l_head l # as = us @ [a]" by (rule split_last)
  obtain b vs where b: "bs @ [l_tail l] = b # vs" by (rule split_first)
  have "l_head l # xs @ [l_tail l] = us @ a # p # b # vs" using x a b by (metis append.assoc append_Cons append_Nil)
  then have "chain h (us @ a # p # b # vs)" using assms(1) by (simp add: list_rep_def)
  then show ?thesis by (simp add: node_ok_def)
qed


lemma qrepD:
  assumes "qrep T k R S A"
  shows "list_rep (ready_tasks k) (nodes k) (map general_tag R)" "list_rep (sleep_tasks k) (nodes k) (map general_tag S)"
    "list_rep (all_tasks k) (nodes k) (map all_tag A)" "sep T k" "distinct R" "distinct S" "set R \<inter> set S = {}"
    "set R \<subseteq> T" "set S \<subseteq> T" "set A \<subseteq> T" "\<And>t. t \<in> T \<Longrightarrow> node_ok (nodes k) (general_tag t)"
    "\<And>t. t \<in> T \<Longrightarrow> node_ok (nodes k) (all_tag t)"
  using assms by (auto simp: qrep_def)

lemma sepD:
  assumes "sep T k" "t \<in> T"
  shows "general_tag t \<notin> list_foot (ready_tasks k)" "general_tag t \<notin> list_foot (sleep_tasks k)"
    "general_tag t \<notin> list_foot (all_tasks k)" "all_tag t \<notin> list_foot (ready_tasks k)"
    "all_tag t \<notin> list_foot (sleep_tasks k)" "all_tag t \<notin> list_foot (all_tasks k)" "t \<noteq> 0" "4096 dvd t"
  using assms by (auto simp: sep_def)

lemma queue_frame:
  assumes q: "qrep T k R S A" and ag: "agree (- (general_tag ` X \<union> F)) (nodes k) h'" and X: "X \<subseteq> T"
    and F: "F \<subseteq> list_foot (ready_tasks k) \<union> list_foot (sleep_tasks k)"
    and ok: "\<And>t. t \<in> X \<Longrightarrow> node_ok h' (general_tag t)"
  shows "list_rep (all_tasks k) h' (map all_tag A)"
    "X \<inter> set S = {} \<Longrightarrow> F \<inter> list_foot (sleep_tasks k) = {} \<Longrightarrow> list_rep (sleep_tasks k) h' (map general_tag S)"
    "X \<inter> set R = {} \<Longrightarrow> F \<inter> list_foot (ready_tasks k) = {} \<Longrightarrow> list_rep (ready_tasks k) h' (map general_tag R)"
    "t \<in> T \<Longrightarrow> node_ok h' (general_tag t)" "t \<in> T \<Longrightarrow> node_ok h' (all_tag t)"
proof -
  note d = qrepD[OF q] and sp = sepD[OF qrepD(4)[OF q]]
  have feet: "F \<inter> list_foot (all_tasks k) = {}" using d(4) F by (auto simp: sep_def)
  have t3: "all_tag t \<notin> general_tag ` X" if "t \<in> T" for t
  proof
    assume "all_tag t \<in> general_tag ` X"
    then obtain x where x: "all_tag t = general_tag x" "x \<in> X" by auto
    then have "4096 dvd x" "4096 dvd t" using sepD(8)[OF d(4)] X that by auto
    then show False using tags_differ x(1) by metis
  qed
  have tt: "general_tag t \<notin> F" "all_tag t \<notin> F" "all_tag t \<notin> general_tag ` X" if "t \<in> T" for t
    using sp[OF that] F t3[OF that] by auto
  have xf: "general_tag ` X \<inter> list_foot (all_tasks k) = {}" "general_tag ` X \<inter> list_foot (sleep_tasks k) = {}"
    "general_tag ` X \<inter> list_foot (ready_tasks k) = {}" using X sp by auto
  have fg: "F \<inter> general_tag ` Y = {}" "F \<inter> all_tag ` Y = {}" "general_tag ` X \<inter> all_tag ` Y = {}" if "Y \<subseteq> T" for Y
  proof -
    show "F \<inter> general_tag ` Y = {}" using that tt(1) by auto
    show "F \<inter> all_tag ` Y = {}" using that tt(2) by auto
    show "general_tag ` X \<inter> all_tag ` Y = {}" using that t3 by (intro Int_emptyI) (metis imageE subsetD)
  qed
  have gg: "general_tag ` X \<inter> general_tag ` Y = {}" if "X \<inter> Y = {}" for Y using that by auto
  have join: "(P \<union> Q) \<inter> (set xs \<union> L) = {}" if "P \<inter> set xs = {}" "P \<inter> L = {}" "Q \<inter> set xs = {}" "Q \<inter> L = {}"
    for P Q L :: "addr set" and xs using that by blast
  show "list_rep (all_tasks k) h' (map all_tag A)"
    by (rule rep_frame[OF d(3) ag join]) (simp_all add: fg[OF d(10)] feet xf)
  show "list_rep (sleep_tasks k) h' (map general_tag S)" if "X \<inter> set S = {}" "F \<inter> list_foot (sleep_tasks k) = {}"
    by (rule rep_frame[OF d(2) ag join]) (simp_all add: fg[OF d(9)] gg[OF that(1)] that(2) xf)
  show "list_rep (ready_tasks k) h' (map general_tag R)" if "X \<inter> set R = {}" "F \<inter> list_foot (ready_tasks k) = {}"
    by (rule rep_frame[OF d(1) ag join]) (simp_all add: fg[OF d(8)] gg[OF that(1)] that(2) xf)
  show "node_ok h' (general_tag t)" if t: "t \<in> T"
  proof (cases "t \<in> X")
    case False
    then have "general_tag t \<in> - (general_tag ` X \<union> F)" using tt(1)[OF t] by auto
    then show ?thesis using agree_node_ok[OF ag] d(11)[OF t] by simp
  qed (rule ok)
  show "node_ok h' (all_tag t)" if t: "t \<in> T"
    using agree_node_ok[OF ag, of "all_tag t"] tt[OF t] d(12)[OF t] by simp
qed

lemma ready_changed:
  assumes q: "qrep T k R S A" and l: "list_rep l' h' (map general_tag R')" "list_foot l' = list_foot (ready_tasks k)"
    and ag: "agree (- (general_tag ` X \<union> list_foot (ready_tasks k))) (nodes k) h'"
    and X: "X \<subseteq> T" "X \<inter> set S = {}" "set R' \<subseteq> X" and ok: "\<And>t. t \<in> X \<Longrightarrow> node_ok h' (general_tag t)"
  shows "qrep T (k\<lparr>ready_tasks := l', nodes := h'\<rparr>) R' S A"
proof -
  note d = qrepD[OF q]
  have F: "list_foot (ready_tasks k) \<inter> list_foot (sleep_tasks k) = {}" using d(4) by (auto simp: sep_def)
  note fr = queue_frame[OF q ag X(1) _ ok]
  have "distinct R'" using llist.rep_distinct[OF l(1)] by (simp add: distinct_map)
  moreover have "sep T (k\<lparr>ready_tasks := l', nodes := h'\<rparr>)" using d(4) l(2) by (simp add: sep_def)
  ultimately show ?thesis unfolding qrep_def using l fr X F d by auto
qed

lemma sleep_changed:
  assumes q: "qrep T k R S A" and l: "list_rep l' h' (map general_tag S')" "list_foot l' = list_foot (sleep_tasks k)"
    and ag: "agree (- (general_tag ` X \<union> list_foot (sleep_tasks k))) (nodes k) h'"
    and X: "X \<subseteq> T" "X \<inter> set R = {}" "set S' \<subseteq> X" and ok: "\<And>t. t \<in> X \<Longrightarrow> node_ok h' (general_tag t)"
  shows "qrep T (k\<lparr>sleep_tasks := l', nodes := h'\<rparr>) R S' A"
proof -
  note d = qrepD[OF q]
  have F: "list_foot (sleep_tasks k) \<inter> list_foot (ready_tasks k) = {}" using d(4) by (auto simp: sep_def)
  note fr = queue_frame[OF q ag X(1) _ ok]
  have "distinct S'" using llist.rep_distinct[OF l(1)] by (simp add: distinct_map)
  moreover have "sep T (k\<lparr>sleep_tasks := l', nodes := h'\<rparr>)" using d(4) l(2) by (simp add: sep_def)
  ultimately show ?thesis unfolding qrep_def using l fr X F d by auto
qed

section \<open>Queue operations of the kernel\<close>

lemma push_ready_ok:
  assumes q: "qrep T k R S A" and t: "t \<in> T" "t \<notin> set R" "t \<notin> set S"
  shows "\<exists>l h. pushl (ready_tasks k) (general_tag t) (nodes k) = Some (l, h) \<and>
      qrep T (k\<lparr>ready_tasks := l, nodes := h\<rparr>) (t # R) S A \<and>
      agree (- (general_tag ` (insert t (set R)) \<union> list_foot (ready_tasks k))) (nodes k) h"
    and "\<exists>l h. pushr (ready_tasks k) (general_tag t) (nodes k) = Some (l, h) \<and>
      qrep T (k\<lparr>ready_tasks := l, nodes := h\<rparr>) (R @ [t]) S A \<and>
      agree (- (general_tag ` (insert t (set R)) \<union> list_foot (ready_tasks k))) (nodes k) h"
proof -
  note d = qrepD[OF q]
  have pre: "node_ok (nodes k) (general_tag t)" "general_tag t \<noteq> 0"
    "general_tag t \<notin> set (map general_tag R) \<union> list_foot (ready_tasks k)"
    using d(11)[OF t(1)] sepD[OF d(4) t(1)] t(2) by auto
  have set_eq: "insert (general_tag t) (set (map general_tag R) \<union> list_foot (ready_tasks k)) =
      general_tag ` (insert t (set R)) \<union> list_foot (ready_tasks k)" by auto
  have X: "insert t (set R) \<subseteq> T" "insert t (set R) \<inter> set S = {}" using d(7,8) t by auto
  { obtain l h where p: "pushl (ready_tasks k) (general_tag t) (nodes k) = Some (l, h)"
      "list_rep l h (map general_tag (t # R))" "list_foot l = list_foot (ready_tasks k)"
      "agree (- (general_tag ` (insert t (set R)) \<union> list_foot (ready_tasks k))) (nodes k) h"
      using pushl_rep[OF d(1) pre] unfolding set_eq by auto
    have "qrep T (k\<lparr>ready_tasks := l, nodes := h\<rparr>) (t # R) S A"
      by (rule ready_changed[OF q p(2-4) X]) (use rep_node_ok[OF p(2)] in auto)
    then show "\<exists>l h. pushl (ready_tasks k) (general_tag t) (nodes k) = Some (l, h) \<and>
      qrep T (k\<lparr>ready_tasks := l, nodes := h\<rparr>) (t # R) S A \<and>
      agree (- (general_tag ` (insert t (set R)) \<union> list_foot (ready_tasks k))) (nodes k) h" using p by blast }
  { obtain l h where p: "pushr (ready_tasks k) (general_tag t) (nodes k) = Some (l, h)"
      "list_rep l h (map general_tag (R @ [t]))" "list_foot l = list_foot (ready_tasks k)"
      "agree (- (general_tag ` (insert t (set R)) \<union> list_foot (ready_tasks k))) (nodes k) h"
      using pushr_rep[OF d(1) pre] unfolding set_eq by auto
    have "qrep T (k\<lparr>ready_tasks := l, nodes := h\<rparr>) (R @ [t]) S A"
      by (rule ready_changed[OF q p(2-4) X]) (use rep_node_ok[OF p(2)] in auto)
    then show "\<exists>l h. pushr (ready_tasks k) (general_tag t) (nodes k) = Some (l, h) \<and>
      qrep T (k\<lparr>ready_tasks := l, nodes := h\<rparr>) (R @ [t]) S A \<and>
      agree (- (general_tag ` (insert t (set R)) \<union> list_foot (ready_tasks k))) (nodes k) h" using p by blast }
qed

lemma push_sleep_ok:
  assumes q: "qrep T k R S A" and t: "t \<in> T" "t \<notin> set R" "t \<notin> set S"
  shows "\<exists>l h. pushr (sleep_tasks k) (general_tag t) (nodes k) = Some (l, h) \<and>
      qrep T (k\<lparr>sleep_tasks := l, nodes := h\<rparr>) R (S @ [t]) A \<and>
      agree (- (general_tag ` (insert t (set S)) \<union> list_foot (sleep_tasks k))) (nodes k) h"
proof -
  note d = qrepD[OF q]
  have pre: "node_ok (nodes k) (general_tag t)" "general_tag t \<noteq> 0"
    "general_tag t \<notin> set (map general_tag S) \<union> list_foot (sleep_tasks k)"
    using d(11)[OF t(1)] sepD[OF d(4) t(1)] t(3) by auto
  have set_eq: "insert (general_tag t) (set (map general_tag S) \<union> list_foot (sleep_tasks k)) =
      general_tag ` (insert t (set S)) \<union> list_foot (sleep_tasks k)" by auto
  have X: "insert t (set S) \<subseteq> T" "insert t (set S) \<inter> set R = {}" using d(7,9) t by auto
  obtain l h where p: "pushr (sleep_tasks k) (general_tag t) (nodes k) = Some (l, h)"
      "list_rep l h (map general_tag (S @ [t]))" "list_foot l = list_foot (sleep_tasks k)"
      "agree (- (general_tag ` (insert t (set S)) \<union> list_foot (sleep_tasks k))) (nodes k) h"
    using pushr_rep[OF d(2) pre] unfolding set_eq by auto
  have "qrep T (k\<lparr>sleep_tasks := l, nodes := h\<rparr>) R (S @ [t]) A"
    by (rule sleep_changed[OF q p(2-4) X]) (use rep_node_ok[OF p(2)] in auto)
  then show ?thesis using p by blast
qed

lemma remove_foot:
  assumes "remove l p h = Some (l', h')" shows "list_foot l' = list_foot l"
  using assms by (auto simp: remove_def list_foot_def Let_def split: bind_splits if_splits)

lemma remove_sleep_ok:
  assumes q: "qrep T k R S A" and t: "t \<in> set S"
  shows "\<exists>l h. remove (sleep_tasks k) (general_tag t) (nodes k) = Some (l, h) \<and>
      qrep T (k\<lparr>sleep_tasks := l, nodes := h\<rparr>) R (remove1 t S) A \<and>
      agree (- (general_tag ` set S \<union> list_foot (sleep_tasks k))) (nodes k) h"
proof -
  note d = qrepD[OF q]
  obtain l h where p: "remove (sleep_tasks k) (general_tag t) (nodes k) = Some (l, h)"
      "list_rep l h (map general_tag (remove1 t S))"
      "agree (- (set (map general_tag (remove1 t S)) \<union> list_foot (sleep_tasks k))) (nodes k) h"
    using remove_rep[OF d(2), of "general_tag t"] t unfolding remove1_map_tag by auto
  have ag: "agree (- (general_tag ` set S \<union> list_foot (sleep_tasks k))) (nodes k) h"
    by (rule agree_subset[OF p(3)]) (auto dest: notin_set_remove1)
  have ok: "node_ok h (general_tag u)" if u: "u \<in> set S" for u
  proof (cases "u \<in> set (remove1 t S)")
    case False
    moreover have "general_tag u \<notin> list_foot (sleep_tasks k)" using sepD(2)[OF d(4)] u d(9) by auto
    ultimately show ?thesis using agree_node_ok[OF p(3), of "general_tag u"] d(9,11) u by auto
  qed (use rep_node_ok[OF p(2)] in auto)
  have "qrep T (k\<lparr>sleep_tasks := l, nodes := h\<rparr>) R (remove1 t S) A"
    by (rule sleep_changed[OF q p(2) remove_foot[OF p(1)] ag]) (use d ok set_remove1_subset in auto)
  then show ?thesis using p(1) ag by blast
qed

lemma popl_clears:
  assumes "list_rep l h (x # xs)" "popl l h = Some (x, l', h')"
  shows "h_pre h' x = Some 0" "h_next h' x = Some 0"
  using assms by (auto simp: popl_def list_rep_def set_pre_def set_next_def split: bind_splits if_splits)

lemma pop_ready_ok:
  assumes q: "qrep T k (t # R) S A"
  shows "\<exists>l h. popl (ready_tasks k) (nodes k) = Some (general_tag t, l, h) \<and>
      qrep T (k\<lparr>ready_tasks := l, nodes := h\<rparr>) R S A \<and> h_pre h (general_tag t) = Some 0 \<and>
      agree (- (general_tag ` set (t # R) \<union> list_foot (ready_tasks k))) (nodes k) h"
proof -
  note d = qrepD[OF q]
  have rp: "list_rep (ready_tasks k) (nodes k) (general_tag t # map general_tag R)" using d(1) by simp
  have set_eq: "insert (general_tag t) (set (map general_tag R) \<union> list_foot (ready_tasks k)) =
      general_tag ` set (t # R) \<union> list_foot (ready_tasks k)" by auto
  obtain l h where p: "popl (ready_tasks k) (nodes k) = Some (general_tag t, l, h)" "list_rep l h (map general_tag R)"
      "list_foot l = list_foot (ready_tasks k)" "node_ok h (general_tag t)"
      "agree (- (general_tag ` set (t # R) \<union> list_foot (ready_tasks k))) (nodes k) h"
    using popl_rep[OF rp] unfolding set_eq by auto
  have "qrep T (k\<lparr>ready_tasks := l, nodes := h\<rparr>) R S A"
    by (rule ready_changed[OF q p(2,3,5)]) (use d p(4) rep_node_ok[OF p(2)] in auto)
  then show ?thesis using p(1,5) popl_clears(1)[OF rp p(1)] by blast
qed

text \<open>\<open>remove\<close> does nothing to a node that is in no queue and has a NULL link.\<close>

definition detached :: "heap \<Rightarrow> addr \<Rightarrow> bool" where
  "detached h t \<longleftrightarrow> h_pre h (general_tag t) = Some 0 \<or> h_next h (general_tag t) = Some 0"

lemma remove_detached:
  assumes q: "qrep T k R S A" and t: "t \<in> T" "t \<notin> set R" "detached (nodes k) t"
  shows "remove (ready_tasks k) (general_tag t) (nodes k) = Some (ready_tasks k, nodes k)"
proof -
  note d = qrepD[OF q]
  have "index (ready_tasks k) (general_tag t) (nodes k) = Some (-1)"
    using index_rep[OF d(1), of "general_tag t"] t(2) by auto
  then show ?thesis using d(11)[OF t(1)] t(3) by (auto simp: remove_def node_ok_def detached_def)
qed

lemma detached_agree: "agree N h h' \<Longrightarrow> general_tag t \<in> N \<Longrightarrow> detached h' t = detached h t"
  by (simp add: agree_def detached_def)

lemma qrep_task [simp]: "qrep T (upd_task t f k) R S A = qrep T k R S A"
  by (simp add: qrep_def sep_def upd_task_def)


section \<open>Waking the sleepers\<close>

definition due :: "kernel \<Rightarrow> addr \<Rightarrow> bool" where
  "due k t \<longleftrightarrow> sleep_ticks (task k t) = 1"

definition tick_sleepers :: "addr list \<Rightarrow> kernel \<Rightarrow> kernel" where
  "tick_sleepers ys k = k\<lparr>task := (\<lambda>t. if t \<in> set ys then (task k t)\<lparr>sleep_ticks := sleep_ticks (task k t) - 1\<rparr> else task k t)\<rparr>"

lemma upd_task_sel [simp]:
  "nodes (upd_task t f k) = nodes k" "ready_tasks (upd_task t f k) = ready_tasks k" "sleep_tasks (upd_task t f k) = sleep_tasks k"
  "all_tasks (upd_task t f k) = all_tasks k" "cur (upd_task t f k) = cur k" "mem (upd_task t f k) = mem k"
  "main_thread (upd_task t f k) = main_thread k" "pid_alloc (upd_task t f k) = pid_alloc k" "tss_esp0 (upd_task t f k) = tss_esp0 k"
  "task (upd_task t f k) u = (if u = t then f (task k t) else task k u)"
  by (simp_all add: upd_task_def)

lemma word_le_0: "(w :: u32) \<le> 0 \<longleftrightarrow> w = 0"
  by simp

lemma chain_next:
  assumes "chain h (l # map general_tag (xs @ y # ys) @ [e])" "map general_tag ys @ [e] = z # zs"
  shows "h_next h (general_tag y) = Some z"
proof -
  have "l # map general_tag (xs @ y # ys) @ [e] = (l # map general_tag xs) @ general_tag y # z # zs" using assms(2) by simp
  then have "chain h ((l # map general_tag xs) @ general_tag y # z # zs)" using assms(1) by metis
  then show ?thesis unfolding chain_mid by simp
qed

lemma sleep_scan_ok:
  assumes "list_rep (sleep_tasks k) (nodes k) (map general_tag (xs @ ys))" "distinct ys"
    "length wake + length (filter (due k) ys) \<le> 10"
  shows "sleep_scan ((map general_tag ys @ [l_tail (sleep_tasks k)]) ! 0) wake k =
    Some (wake @ map general_tag (filter (due k) ys), tick_sleepers ys k)"
  using assms
proof (induction ys arbitrary: xs wake k)
  case Nil
  then show ?case by (simp add: sleep_scan.simps tick_sleepers_def)
next
  case (Cons y ys)
  let ?k1 = "upd_task y (\<lambda>s. s\<lparr>sleep_ticks := sleep_ticks s - 1\<rparr>) k"
  obtain z zs where z: "map general_tag ys @ [l_tail (sleep_tasks k)] = z # zs" by (rule split_first)
  have "general_tag y \<noteq> l_tail (sleep_tasks k)" using Cons.prems(1) by (auto simp: list_rep_def)
  moreover have "h_next (nodes k) (general_tag y) = Some z"
    by (rule chain_next[where l = "l_head (sleep_tasks k)" and xs = xs, OF _ z]) (use Cons.prems(1) in \<open>simp add: list_rep_def\<close>)
  moreover have same: "filter (due ?k1) ys = filter (due k) ys"
    using Cons.prems(2) by (intro filter_cong) (auto simp: due_def)
  moreover have "sleep_scan z w ?k1 = Some (w @ map general_tag (filter (due k) ys), tick_sleepers ys ?k1)"
    if "length w + length (filter (due k) ys) \<le> 10" for w
    using Cons.IH[of ?k1 "xs @ [y]" w] Cons.prems(1,2) that z same by (simp add: list_rep_def)
  moreover have "tick_sleepers ys ?k1 = tick_sleepers (y # ys) k"
    using Cons.prems(2) by (auto simp: tick_sleepers_def upd_task_def fun_eq_iff)
  moreover have "sleep_ticks (task k y) = 1 \<longleftrightarrow> due k y" by (simp add: due_def)
  ultimately show ?case using Cons.prems(3)
    by (subst sleep_scan.simps) (auto simp: Let_def)
qed

text \<open>The eleventh sleeper that is due has no place in \<open>wake_up_list\<close>.\<close>

lemma sleep_scan_overrun:
  assumes "list_rep (sleep_tasks k) (nodes k) (map general_tag (xs @ ys))" "distinct ys"
    "length wake \<le> 10" "10 < length wake + length (filter (due k) ys)"
  shows "sleep_scan ((map general_tag ys @ [l_tail (sleep_tasks k)]) ! 0) wake k = None"
  using assms
proof (induction ys arbitrary: xs wake k)
  case (Cons y ys)
  let ?k1 = "upd_task y (\<lambda>s. s\<lparr>sleep_ticks := sleep_ticks s - 1\<rparr>) k"
  obtain z zs where z: "map general_tag ys @ [l_tail (sleep_tasks k)] = z # zs" by (rule split_first)
  have "general_tag y \<noteq> l_tail (sleep_tasks k)" using Cons.prems(1) by (auto simp: list_rep_def)
  moreover have "h_next (nodes k) (general_tag y) = Some z"
    by (rule chain_next[where l = "l_head (sleep_tasks k)" and xs = xs, OF _ z]) (use Cons.prems(1) in \<open>simp add: list_rep_def\<close>)
  moreover have same: "filter (due ?k1) ys = filter (due k) ys"
    using Cons.prems(2) by (intro filter_cong) (auto simp: due_def)
  moreover have "sleep_scan z w ?k1 = None"
    if "length w \<le> 10" "10 < length w + length (filter (due k) ys)" for w
    using Cons.IH[of ?k1 "xs @ [y]" w] Cons.prems(1,2) that z same by (simp add: list_rep_def)
  moreover have "sleep_ticks (task k y) = 1 \<longleftrightarrow> due k y" by (simp add: due_def)
  ultimately show ?case using Cons.prems(3,4)
    by (subst sleep_scan.simps) (auto simp: Let_def)
qed simp

text \<open>What the queue operations do not touch.\<close>

definition same_rest :: "kernel \<Rightarrow> kernel \<Rightarrow> bool" where
  "same_rest k k' \<longleftrightarrow> cur k' = cur k \<and> main_thread k' = main_thread k \<and> pid_alloc k' = pid_alloc k \<and> mem k' = mem k"

lemma wake_loop_ok:
  assumes "qrep T k R S A" "distinct ds" "set ds \<subseteq> set S"
  shows "\<exists>k'. wake_loop (map general_tag ds) k = Some k' \<and> qrep T k' (rev ds @ R) (filter (\<lambda>t. t \<notin> set ds) S) A \<and>
    task k' = (\<lambda>t. if t \<in> set ds then (task k t)\<lparr>status := TASK_READY\<rparr> else task k t) \<and> same_rest k k' \<and>
    (\<forall>t\<in>T. t \<notin> set R \<union> set S \<longrightarrow> detached (nodes k') t = detached (nodes k) t)"
  using assms
proof (induction ds arbitrary: k R S)
  case Nil
  then show ?case by (simp add: same_rest_def)
next
  case (Cons t ds)
  note d = qrepD[OF Cons.prems(1)]
  have t: "t \<in> set S" "t \<in> T" "t \<notin> set R" using Cons.prems(3) d(7,9) by auto
  obtain l h where s: "remove (sleep_tasks k) (general_tag t) (nodes k) = Some (l, h)"
    "qrep T (k\<lparr>sleep_tasks := l, nodes := h\<rparr>) R (remove1 t S) A" "agree (- (general_tag ` set S \<union> list_foot (sleep_tasks k))) (nodes k) h"
    using remove_sleep_ok[OF Cons.prems(1) t(1)] by blast
  obtain r h1 where p: "pushl (ready_tasks k) (general_tag t) h = Some (r, h1)"
    "qrep T (k\<lparr>sleep_tasks := l, nodes := h, ready_tasks := r, nodes := h1\<rparr>) (t # R) (remove1 t S) A"
    "agree (- (general_tag ` (insert t (set R)) \<union> list_foot (ready_tasks k))) h h1"
    using push_ready_ok(1)[OF s(2) t(2,3)] d(6) by auto
  define k1 where "k1 = upd_task t (\<lambda>s. s\<lparr>status := TASK_READY\<rparr>) (k\<lparr>sleep_tasks := l, ready_tasks := r, nodes := h1\<rparr>)"
  have q1: "qrep T k1 (t # R) (remove1 t S) A" using p(2) by (simp add: k1_def qrep_def sep_def upd_task_def)
  have "set ds \<subseteq> set (remove1 t S)" using Cons.prems(2,3) d(6) by (auto simp: set_remove1_eq)
  from Cons.IH[OF q1 _ this] Cons.prems(2) obtain k' where k': "wake_loop (map general_tag ds) k1 = Some k'"
    "qrep T k' (rev ds @ t # R) (filter (\<lambda>u. u \<notin> set ds) (remove1 t S)) A"
    "task k' = (\<lambda>u. if u \<in> set ds then (task k1 u)\<lparr>status := TASK_READY\<rparr> else task k1 u)" "same_rest k1 k'"
    "\<forall>u\<in>T. u \<notin> set (t # R) \<union> set (remove1 t S) \<longrightarrow> detached (nodes k') u = detached (nodes k1) u" by auto
  have "filter (\<lambda>u. u \<notin> set ds) (remove1 t S) = filter (\<lambda>u. u \<notin> set (t # ds)) S"
    using d(6) by (simp add: distinct_remove1_removeAll removeAll_filter_not_eq conj_commute) (metis)
  moreover have "detached (nodes k') u = detached (nodes k) u" if u: "u \<in> T" "u \<notin> set R \<union> set S" for u
  proof -
    have "detached (nodes k') u = detached h1 u" using k'(5) u t(1) d(6) by (auto simp: k1_def dest: notin_set_remove1)
    also have "\<dots> = detached h u"
      by (rule detached_agree[OF p(3)]) (use u t(1) sepD(1)[OF d(4)] in auto)
    also have "\<dots> = detached (nodes k) u"
      by (rule detached_agree[OF s(3)]) (use u sepD(2)[OF d(4)] in auto)
    finally show ?thesis .
  qed
  moreover have "task k' = (\<lambda>u. if u \<in> set (t # ds) then (task k u)\<lparr>status := TASK_READY\<rparr> else task k u)"
    using k'(3) Cons.prems(2) by (auto simp: k1_def upd_task_def fun_eq_iff)
  moreover have "wake_loop (map general_tag (t # ds)) k = Some k'" using s(1) p(1) k'(1) by (simp add: k1_def)
  moreover have "same_rest k k'" using k'(4) by (simp add: same_rest_def k1_def)
  ultimately show ?case using k'(2) by simp
qed


section \<open>The scheduler\<close>

definition sched_ok :: "addr set \<Rightarrow> kernel \<Rightarrow> addr list \<Rightarrow> addr list \<Rightarrow> addr list \<Rightarrow> bool" where
  "sched_ok T k R S A \<longleftrightarrow> qrep T k R S A \<and> cur k \<in> T \<and> cur k \<notin> set R \<and>
     (\<forall>t\<in>T. t \<noteq> cur k \<longrightarrow> (t \<in> set R \<longleftrightarrow> status (task k t) = TASK_READY)) \<and>
     (\<forall>t\<in>T. t \<in> set S \<longleftrightarrow> status (task k t) = TASK_SLEEP) \<and>
     (\<forall>t\<in>T. status (task k t) = TASK_RUNNING \<longrightarrow> t = cur k) \<and>
     (\<forall>t\<in>T. t \<notin> set R \<union> set S \<longrightarrow> detached (nodes k) t)"

text \<open>After the sleepers have been woken: the running task may have been one of them.\<close>

lemma schedule_wake:
  assumes ok: "sched_ok T k R S A" and few: "length (filter (due k) S) \<le> 10"
  shows "\<exists>first k1 wake k2. h_next (nodes k) (l_head (sleep_tasks k)) = Some first \<and> sleep_scan first [] k = Some (wake, k1) \<and>
    wake_loop wake k1 = Some k2 \<and> qrep T k2 (rev (filter (due k) S) @ R) (filter (\<lambda>t. \<not> due k t) S) A \<and> same_rest k k2 \<and>
    (\<forall>t\<in>T. status (task k2 t) = (if t \<in> set S \<and> due k t then TASK_READY else status (task k t))) \<and>
    (\<forall>t. ticks (task k2 t) = ticks (task k t) \<and> priority (task k2 t) = priority (task k t)) \<and>
    (\<forall>t\<in>T. t \<notin> set R \<union> set S \<longrightarrow> detached (nodes k2) t)"
proof -
  have q: "qrep T k R S A" using ok by (simp add: sched_ok_def)
  note d = qrepD[OF q]
  obtain z zs where z: "map general_tag S @ [l_tail (sleep_tasks k)] = z # zs" by (rule split_first)
  have f: "h_next (nodes k) (l_head (sleep_tasks k)) = Some z" using d(2) by (simp add: list_rep_def z)
  have sc: "sleep_scan z [] k = Some (map general_tag (filter (due k) S), tick_sleepers S k)"
    using sleep_scan_ok[of k "[]" S "[]"] d(2,6) few by (simp add: z)
  have q1: "qrep T (tick_sleepers S k) R S A" using q by (simp add: qrep_def sep_def tick_sleepers_def)
  obtain k2 where k2: "wake_loop (map general_tag (filter (due k) S)) (tick_sleepers S k) = Some k2"
    "qrep T k2 (rev (filter (due k) S) @ R) (filter (\<lambda>t. t \<notin> set (filter (due k) S)) S) A"
    "task k2 = (\<lambda>t. if t \<in> set (filter (due k) S) then (task (tick_sleepers S k) t)\<lparr>status := TASK_READY\<rparr> else task (tick_sleepers S k) t)"
    "same_rest (tick_sleepers S k) k2" "\<forall>t\<in>T. t \<notin> set R \<union> set S \<longrightarrow> detached (nodes k2) t = detached (nodes (tick_sleepers S k)) t"
    using wake_loop_ok[OF q1, of "filter (due k) S"] d(6) by auto
  have "filter (\<lambda>t. t \<notin> set (filter (due k) S)) S = filter (\<lambda>t. \<not> due k t) S" by (rule filter_cong) auto
  moreover have "detached (nodes k2) t" if "t \<in> T" "t \<notin> set R \<union> set S" for t
    using k2(5) ok that by (simp add: sched_ok_def tick_sleepers_def)
  ultimately show ?thesis using f sc k2(1-4) by (auto simp: same_rest_def tick_sleepers_def)
qed

lemma schedule_overrun:
  assumes ok: "sched_ok T k R S A" and many: "10 < length (filter (due k) S)"
  shows "schedule k = None"
proof -
  have q: "qrep T k R S A" using ok by (simp add: sched_ok_def)
  note d = qrepD[OF q]
  obtain z zs where z: "map general_tag S @ [l_tail (sleep_tasks k)] = z # zs" by (rule split_first)
  have "h_next (nodes k) (l_head (sleep_tasks k)) = Some z" using d(2) by (simp add: list_rep_def z)
  moreover have "sleep_scan z [] k = None"
    using sleep_scan_overrun[of k "[]" S "[]"] d(2,6) many by (simp add: z)
  ultimately show ?thesis by (simp add: schedule_def)
qed

definition next_queue :: "kernel \<Rightarrow> addr list \<Rightarrow> addr list \<Rightarrow> addr list" where
  "next_queue k R S = rev (filter (due k) S) @ R"

definition preempted :: "kernel \<Rightarrow> bool" where
  "preempted k \<longleftrightarrow> \<not> (status (task k (cur k)) = TASK_RUNNING \<and> ticks (task k (cur k)) > 0)"

definition sched_spec :: "kernel \<Rightarrow> addr list \<Rightarrow> addr list \<Rightarrow> addr \<times> addr list" where
  "sched_spec k R S =
     (if \<not> preempted k then (cur k, next_queue k R S)
      else case next_queue k R S of [] \<Rightarrow> (cur k, [])
        | n # rest \<Rightarrow> (n, rest @ (if n \<noteq> cur k \<and> status (task k (cur k)) \<in> {TASK_RUNNING, TASK_READY} then [cur k] else [])))"

lemma next_is_self:
  assumes "cur k \<in> set S" "last S = cur k" "due k (cur k)"
  shows "\<exists>rest. next_queue k R S = cur k # rest"
proof -
  have "S = butlast S @ [cur k]" using assms(1,2) by (metis append_butlast_last_id in_set_conv_nth length_pos_if_in_set less_nat_zero_code list.size(3))
  then have "filter (due k) S = filter (due k) (butlast S) @ [cur k]" using assms(3) by (metis filter.simps filter_append)
  then show ?thesis by (simp add: next_queue_def)
qed


lemma sched_okD:
  assumes "sched_ok T k R S A"
  shows "qrep T k R S A" "cur k \<in> T" "cur k \<notin> set R" "\<And>t. t \<in> T \<Longrightarrow> t \<noteq> cur k \<Longrightarrow> t \<in> set R \<longleftrightarrow> status (task k t) = TASK_READY"
    "\<And>t. t \<in> T \<Longrightarrow> t \<in> set S \<longleftrightarrow> status (task k t) = TASK_SLEEP" "\<And>t. t \<in> T \<Longrightarrow> status (task k t) = TASK_RUNNING \<Longrightarrow> t = cur k"
    "\<And>t. t \<in> T \<Longrightarrow> t \<notin> set R \<Longrightarrow> t \<notin> set S \<Longrightarrow> detached (nodes k) t"
  using assms unfolding sched_ok_def by blast+

text \<open>The switch to another task \<open>n\<close> taken from the front of the queue.\<close>

lemma switch_ok:
  assumes q: "qrep T k (n # rest) S A" and c: "cur k \<in> T" "cur k \<notin> set (n # rest)" "cur k \<in> set S \<longrightarrow> status (task k (cur k)) = TASK_SLEEP"
    and st: "\<And>t. t \<in> T \<Longrightarrow> t \<noteq> cur k \<Longrightarrow> t \<in> set (n # rest) \<longleftrightarrow> status (task k t) = TASK_READY"
      "\<And>t. t \<in> T \<Longrightarrow> t \<in> set S \<longleftrightarrow> status (task k t) = TASK_SLEEP" "\<And>t. t \<in> T \<Longrightarrow> status (task k t) = TASK_RUNNING \<Longrightarrow> t = cur k"
    and det: "\<And>t. t \<in> T \<Longrightarrow> t \<notin> set (n # rest) \<Longrightarrow> t \<notin> set S \<Longrightarrow> detached (nodes k) t"
    and pop: "popl (ready_tasks k) (nodes k) = Some (general_tag n, r, h)"
  defines "k3 \<equiv> upd_task n (\<lambda>s. s\<lparr>ticks := priority s\<rparr>) (k\<lparr>ready_tasks := r, nodes := h\<rparr>)"
  defines "k4 \<equiv> upd_task (cur k) (\<lambda>s. if status s = TASK_RUNNING then s\<lparr>status := TASK_READY\<rparr> else s) k3"
  defines "runnable \<equiv> status (task k (cur k)) \<in> {TASK_RUNNING, TASK_READY}"
  shows "\<exists>k5 k'. (if status (task k4 (cur k)) = TASK_READY then push_ready (cur k) k4 else Some k4) = Some k5 \<and>
    k' = switch_to n (process_activate n (upd_task n (\<lambda>s. s\<lparr>status := TASK_RUNNING\<rparr>) k5)) \<and>
    sched_ok T k' (rest @ (if runnable then [cur k] else [])) S A \<and> cur k' = n \<and> ticks (task k' n) = priority (task k n) \<and>
    (\<forall>t. priority (task k' t) = priority (task k t))"
proof -
  let ?c = "cur k"
  note d = qrepD[OF q]
  have n: "n \<in> T" "n \<noteq> ?c" "n \<notin> set rest" "n \<notin> set S" using d(5,7,8) c(2) by auto
  obtain p: "qrep T (k\<lparr>ready_tasks := r, nodes := h\<rparr>) rest S A" "h_pre h (general_tag n) = Some 0"
    "agree (- (general_tag ` set (n # rest) \<union> list_foot (ready_tasks k))) (nodes k) h"
    using pop_ready_ok[OF q] pop by auto
  have rf: "list_foot r = list_foot (ready_tasks k)"
    using popl_rep[of "ready_tasks k" "nodes k" "general_tag n" "map general_tag rest"] d(1) pop by auto
  have q4: "qrep T k4 rest S A" unfolding k4_def k3_def qrep_task by (fact p(1))
  have cs: "status (task k4 ?c) = TASK_READY \<longleftrightarrow> runnable" using n(2) by (auto simp: k4_def k3_def runnable_def)
  have deth: "detached h t" if "t \<in> T" "t \<notin> set rest" "t \<notin> set S" for t
  proof (cases "t = n")
    case False
    then have "general_tag t \<in> - (general_tag ` set (n # rest) \<union> list_foot (ready_tasks k))"
      using that sepD(1)[OF d(4) that(1)] by auto
    then show ?thesis using detached_agree[OF p(3)] det[of t] that False by auto
  qed (use p(2) in \<open>simp add: detached_def\<close>)
  have "\<exists>k5 h5 l5. (if status (task k4 ?c) = TASK_READY then push_ready ?c k4 else Some k4) = Some k5 \<and>
      k5 = k4\<lparr>ready_tasks := l5, nodes := h5\<rparr> \<and> qrep T k5 (rest @ (if runnable then [?c] else [])) S A \<and>
      (\<forall>t\<in>T. t \<notin> set rest \<and> t \<noteq> ?c \<and> t \<notin> set S \<longrightarrow> detached h5 t) \<and> (\<not> runnable \<longrightarrow> h5 = h)"
  proof (cases runnable)
    case True
    have "?c \<notin> set S" using c(3) True by (auto simp: runnable_def)
    then obtain l5 h5 where w: "pushr (ready_tasks k4) (general_tag ?c) (nodes k4) = Some (l5, h5)"
      "qrep T (k4\<lparr>ready_tasks := l5, nodes := h5\<rparr>) (rest @ [?c]) S A"
      "agree (- (general_tag ` (insert ?c (set rest)) \<union> list_foot (ready_tasks k4))) (nodes k4) h5"
      using push_ready_ok(2)[OF q4 c(1)] c(2) by auto
    have nk: "nodes k4 = h" "ready_tasks k4 = r" by (simp_all add: k4_def k3_def)
    have "detached h5 t" if t: "t \<in> T" "t \<notin> set rest" "t \<noteq> ?c" "t \<notin> set S" for t
    proof -
      have "general_tag t \<notin> list_foot (ready_tasks k4)" using sepD(1)[OF d(4) t(1)] rf nk by simp
      then have "general_tag t \<in> - (general_tag ` (insert ?c (set rest)) \<union> list_foot (ready_tasks k4))" using t by auto
      from detached_agree[OF w(3) this] show ?thesis using deth[OF t(1,2,4)] nk by simp
    qed
    then show ?thesis using w(1,2) True cs
      by (intro exI[of _ "k4\<lparr>ready_tasks := l5, nodes := h5\<rparr>"] exI[of _ h5] exI[of _ l5]) (simp add: push_ready_def)
  next
    case False
    have "k4 = k4\<lparr>ready_tasks := r, nodes := h\<rparr>" by (simp add: k4_def k3_def upd_task_def)
    then show ?thesis using False cs q4 deth by auto
  qed
  then obtain k5 h5 l5 where k5: "(if status (task k4 ?c) = TASK_READY then push_ready ?c k4 else Some k4) = Some k5"
      "k5 = k4\<lparr>ready_tasks := l5, nodes := h5\<rparr>" "qrep T k5 (rest @ (if runnable then [?c] else [])) S A"
      "\<forall>t\<in>T. t \<notin> set rest \<and> t \<noteq> ?c \<and> t \<notin> set S \<longrightarrow> detached h5 t" "\<not> runnable \<longrightarrow> h5 = h" by blast
  define k' where "k' = switch_to n (process_activate n (upd_task n (\<lambda>s. s\<lparr>status := TASK_RUNNING\<rparr>) k5))"
  have q': "qrep T k' (rest @ (if runnable then [?c] else [])) S A"
    using k5(3) by (simp add: k'_def switch_to_def process_activate_def qrep_def sep_def upd_task_def)
  have s': "status (task k' t) = (if t = n then TASK_RUNNING else if t = ?c \<and> runnable then TASK_READY else status (task k t))" for t
    using n(2) by (auto simp: k'_def switch_to_def process_activate_def k5(2) k4_def k3_def runnable_def)
  have n': "nodes k' = h5" "cur k' = n" by (simp_all add: k'_def switch_to_def process_activate_def k5(2))
  have detc: "detached h5 ?c" if "\<not> runnable" "?c \<notin> set S" using that k5(5) deth[OF c(1)] c(2) by auto
  have "sched_ok T k' (rest @ (if runnable then [?c] else [])) S A"
    unfolding sched_ok_def n' s'
  proof (intro conjI ballI impI)
    fix t assume t: "t \<in> T"
    show "t \<in> set (rest @ (if runnable then [?c] else [])) \<longleftrightarrow>
        (if t = n then TASK_RUNNING else if t = ?c \<and> runnable then TASK_READY else status (task k t)) = TASK_READY" if "t \<noteq> n"
      using st(1)[OF t] that c(2) by (auto simp: runnable_def)
    show "t \<in> set S \<longleftrightarrow> (if t = n then TASK_RUNNING else if t = ?c \<and> runnable then TASK_READY else status (task k t)) = TASK_SLEEP"
      using st(2)[OF t] n(4) c(3) by (auto simp: runnable_def)
    show "t = n" if "(if t = n then TASK_RUNNING else if t = ?c \<and> runnable then TASK_READY else status (task k t)) = TASK_RUNNING"
      using that st(3)[OF t] by (auto simp: runnable_def split: if_splits)
    show "detached h5 t" if "t \<notin> set (rest @ (if runnable then [?c] else [])) \<union> set S"
      using that k5(4) t detc by (cases "t = ?c") (auto split: if_splits)
  qed (use q' n in auto)
  moreover have "ticks (task k' n) = priority (task k n)"
    using n(2) by (simp add: k'_def switch_to_def process_activate_def k5(2) k4_def k3_def)
  moreover have "priority (task k' t) = priority (task k t)" for t
    by (simp add: k'_def switch_to_def process_activate_def k5(2) k4_def k3_def)
  ultimately show ?thesis using k5(1) n'(2) k'_def by blast
qed


lemma sched_okI:
  assumes "qrep T k R S A" "cur k \<in> T" "cur k \<notin> set R" "\<And>t. t \<in> T \<Longrightarrow> t \<noteq> cur k \<Longrightarrow> t \<in> set R \<longleftrightarrow> status (task k t) = TASK_READY"
    "\<And>t. t \<in> T \<Longrightarrow> t \<in> set S \<longleftrightarrow> status (task k t) = TASK_SLEEP" "\<And>t. t \<in> T \<Longrightarrow> status (task k t) = TASK_RUNNING \<Longrightarrow> t = cur k"
    "\<And>t. t \<in> T \<Longrightarrow> t \<notin> set R \<Longrightarrow> t \<notin> set S \<Longrightarrow> detached (nodes k) t"
  shows "sched_ok T k R S A"
  unfolding sched_ok_def
proof (intro conjI ballI impI)
  show "detached (nodes k) t" if "t \<in> T" "t \<notin> set R \<union> set S" for t
    using assms(7)[OF that(1)] that(2) by simp
qed (fact assms | rule assms; assumption)+

lemma sched_ok_task:
  assumes "\<And>t. status (f t) = status t"
  shows "sched_ok T (upd_task u f k) R S A = sched_ok T k R S A"
proof -
  have s: "status (task (upd_task u f k) t) = status (task k t)" for t using assms by simp
  show ?thesis unfolding sched_ok_def qrep_task s by simp
qed

text \<open>The second half of \<open>schedule\<close>, from the state in which the sleepers have been woken.\<close>

definition pick :: "kernel \<Rightarrow> kernel option" where
  "pick k =
     (if status (task k (cur k)) = TASK_RUNNING \<and> ticks (task k (cur k)) > 0
      then Some (upd_task (cur k) (\<lambda>s. s\<lparr>elapset_ticks := elapset_ticks s + 1, ticks := ticks s - 1\<rparr>) k)
      else do {
        (next_tag, r, h) \<leftarrow> popl (ready_tasks k) (nodes k);
        let k2 = k\<lparr>ready_tasks := r, nodes := h\<rparr>;
        if next_tag = 0 then Some k2
        else let nxt = general_entry next_tag;
                 k3 = upd_task nxt (\<lambda>s. s\<lparr>ticks := priority s\<rparr>) k2
             in if nxt = 0 then Some k2
                else if cur k = nxt then Some k3
                else do {
                  let k4 = upd_task (cur k) (\<lambda>s. if status s = TASK_RUNNING then s\<lparr>status := TASK_READY\<rparr> else s) k3;
                  k5 \<leftarrow> (if status (task k4 (cur k)) = TASK_READY then push_ready (cur k) k4 else Some k4);
                  Some (switch_to nxt (process_activate nxt (upd_task nxt (\<lambda>s. s\<lparr>status := TASK_RUNNING\<rparr>) k5)))
                }
      })"

lemma schedule_pick:
  assumes "h_next (nodes k) (l_head (sleep_tasks k)) = Some first" "sleep_scan first [] k = Some (wake, k1)" "wake_loop wake k1 = Some k2"
  shows "schedule k = pick k2"
  unfolding schedule_def pick_def assms(1) Option.bind.simps assms(2) prod.case assms(3) Let_def by (rule refl)

text \<open>\<open>pick\<close> when the running task has just been woken and is first in the queue.\<close>

lemma pick_self:
  assumes q: "qrep T k (cur k # rest) S A" and c: "cur k \<in> T" and nr: "status (task k (cur k)) \<noteq> TASK_RUNNING"
    and st: "\<And>t. t \<in> T \<Longrightarrow> t \<noteq> cur k \<Longrightarrow> t \<in> set rest \<longleftrightarrow> status (task k t) = TASK_READY"
      "\<And>t. t \<in> T \<Longrightarrow> t \<in> set S \<longleftrightarrow> status (task k t) = TASK_SLEEP" "\<And>t. t \<in> T \<Longrightarrow> status (task k t) = TASK_RUNNING \<Longrightarrow> t = cur k"
    and det: "\<And>t. t \<in> T \<Longrightarrow> t \<noteq> cur k \<Longrightarrow> t \<notin> set rest \<Longrightarrow> t \<notin> set S \<Longrightarrow> detached (nodes k) t"
  shows "\<exists>k'. pick k = Some k' \<and> sched_ok T k' rest S A \<and> cur k' = cur k \<and> (\<forall>t. priority (task k' t) = priority (task k t))"
proof -
  let ?c = "cur k"
  note d = qrepD[OF q]
  obtain r h where p: "popl (ready_tasks k) (nodes k) = Some (general_tag ?c, r, h)"
    "qrep T (k\<lparr>ready_tasks := r, nodes := h\<rparr>) rest S A" "h_pre h (general_tag ?c) = Some 0"
    "agree (- (general_tag ` set (?c # rest) \<union> list_foot (ready_tasks k))) (nodes k) h"
    using pop_ready_ok[OF q] by blast
  have "?c \<noteq> 0" using sepD(7)[OF d(4) c] .
  then have e: "pick k = Some (upd_task ?c (\<lambda>s. s\<lparr>ticks := priority s\<rparr>) (k\<lparr>ready_tasks := r, nodes := h\<rparr>))"
    using nr p(1) by (simp add: pick_def Let_def)
  have dt: "detached h t" if "t \<in> T" "t \<notin> set rest" "t \<notin> set S" for t
  proof (cases "t = ?c")
    case False
    then have "general_tag t \<in> - (general_tag ` set (?c # rest) \<union> list_foot (ready_tasks k))"
      using that sepD(1)[OF d(4) that(1)] by auto
    then show ?thesis using detached_agree[OF p(4)] det[of t] that False by auto
  qed (use p(3) in \<open>simp add: detached_def\<close>)
  define k3 where "k3 = k\<lparr>ready_tasks := r, nodes := h\<rparr>"
  have sel: "cur k3 = ?c" "task k3 = task k" "nodes k3 = h" by (simp_all add: k3_def)
  have "sched_ok T k3 rest S A"
  proof (rule sched_okI, unfold sel)
    show "qrep T k3 rest S A" using p(2) by (simp add: k3_def)
    show "?c \<notin> set rest" using d(5) by simp
  qed (fact c | rule st dt; assumption)+
  then show ?thesis unfolding e k3_def[symmetric] using sel by (simp add: sched_ok_task)
qed

lemma pick_other:
  assumes q: "qrep T k (n # rest) S A" and c: "cur k \<in> T" "cur k \<notin> set (n # rest)"
    and pre: "\<not> (status (task k (cur k)) = TASK_RUNNING \<and> ticks (task k (cur k)) > 0)"
    and st: "\<And>t. t \<in> T \<Longrightarrow> t \<noteq> cur k \<Longrightarrow> t \<in> set (n # rest) \<longleftrightarrow> status (task k t) = TASK_READY"
      "\<And>t. t \<in> T \<Longrightarrow> t \<in> set S \<longleftrightarrow> status (task k t) = TASK_SLEEP" "\<And>t. t \<in> T \<Longrightarrow> status (task k t) = TASK_RUNNING \<Longrightarrow> t = cur k"
    and det: "\<And>t. t \<in> T \<Longrightarrow> t \<notin> set (n # rest) \<Longrightarrow> t \<notin> set S \<Longrightarrow> detached (nodes k) t"
  shows "\<exists>k'. pick k = Some k' \<and> cur k' = n \<and> status (task k' n) = TASK_RUNNING \<and> ticks (task k' n) = priority (task k n) \<and>
    sched_ok T k' (rest @ (if status (task k (cur k)) \<in> {TASK_RUNNING, TASK_READY} then [cur k] else [])) S A \<and>
    (\<forall>t. priority (task k' t) = priority (task k t))"
proof -
  obtain r h where p: "popl (ready_tasks k) (nodes k) = Some (general_tag n, r, h)" using pop_ready_ok[OF q] by blast
  have cS: "cur k \<in> set S \<longrightarrow> status (task k (cur k)) = TASK_SLEEP" using st(2)[OF c(1)] by simp
  have "n \<in> T" "cur k \<noteq> n" using qrepD(8)[OF q] c(2) by auto
  moreover have "n \<noteq> 0" using sepD(7)[OF qrepD(4)[OF q]] calculation(1) .
  ultimately have e: "pick k = do {
      k5 \<leftarrow> (let k4 = upd_task (cur k) (\<lambda>s. if status s = TASK_RUNNING then s\<lparr>status := TASK_READY\<rparr> else s)
                 (upd_task n (\<lambda>s. s\<lparr>ticks := priority s\<rparr>) (k\<lparr>ready_tasks := r, nodes := h\<rparr>))
             in if status (task k4 (cur k)) = TASK_READY then push_ready (cur k) k4 else Some k4);
      Some (switch_to n (process_activate n (upd_task n (\<lambda>s. s\<lparr>status := TASK_RUNNING\<rparr>) k5))) }"
    unfolding pick_def using pre p by (simp only: if_False Option.bind.simps prod.case tags Let_def)
  from switch_ok[OF q c cS st det p] obtain k5 k' where
    "(let k4 = upd_task (cur k) (\<lambda>s. if status s = TASK_RUNNING then s\<lparr>status := TASK_READY\<rparr> else s)
         (upd_task n (\<lambda>s. s\<lparr>ticks := priority s\<rparr>) (k\<lparr>ready_tasks := r, nodes := h\<rparr>))
      in if status (task k4 (cur k)) = TASK_READY then push_ready (cur k) k4 else Some k4) = Some k5"
    "k' = switch_to n (process_activate n (upd_task n (\<lambda>s. s\<lparr>status := TASK_RUNNING\<rparr>) k5))"
    "sched_ok T k' (rest @ (if status (task k (cur k)) \<in> {TASK_RUNNING, TASK_READY} then [cur k] else [])) S A"
    "cur k' = n" "ticks (task k' n) = priority (task k n)" "\<forall>t. priority (task k' t) = priority (task k t)" unfolding Let_def by blast
  moreover from this(2) have "status (task k' n) = TASK_RUNNING" by (simp add: switch_to_def process_activate_def)
  ultimately show ?thesis unfolding e by simp
qed


lemma schedule_ok:
  assumes ok: "sched_ok T k R S A" and few: "length (filter (due k) S) \<le> 10" and self: "cur k \<in> set S \<longrightarrow> last S = cur k"
  shows "\<exists>k'. schedule k = Some k' \<and> cur k' = fst (sched_spec k R S) \<and>
    sched_ok T k' (snd (sched_spec k R S)) (filter (\<lambda>t. \<not> due k t) S) A \<and>
    (cur k' \<noteq> cur k \<longrightarrow> status (task k' (cur k')) = TASK_RUNNING \<and> ticks (task k' (cur k')) = priority (task k (cur k'))) \<and>
    (\<forall>t. priority (task k' t) = priority (task k t)) \<and>
    (\<not> preempted k \<longrightarrow> status (task k' (cur k)) = TASK_RUNNING \<and> ticks (task k' (cur k)) = ticks (task k (cur k)) - 1)"
proof -
  note d = sched_okD[OF ok]
  let ?Q = "next_queue k R S" and ?S = "filter (\<lambda>t. \<not> due k t) S" and ?c = "cur k"
  obtain first k1 wake k2 where w: "h_next (nodes k) (l_head (sleep_tasks k)) = Some first" "sleep_scan first [] k = Some (wake, k1)"
    "wake_loop wake k1 = Some k2" "qrep T k2 ?Q ?S A" "same_rest k k2"
    "\<And>t. t \<in> T \<Longrightarrow> status (task k2 t) = (if t \<in> set S \<and> due k t then TASK_READY else status (task k t))"
    "\<And>t. ticks (task k2 t) = ticks (task k t)" "\<And>t. priority (task k2 t) = priority (task k t)"
    "\<And>t. t \<in> T \<Longrightarrow> t \<notin> set R \<union> set S \<Longrightarrow> detached (nodes k2) t"
    using schedule_wake[OF ok few] unfolding next_queue_def by blast
  have c2: "cur k2 = ?c" using w(5) by (simp add: same_rest_def)
  have st: "t \<in> set ?Q \<longleftrightarrow> status (task k2 t) = TASK_READY" if "t \<in> T" "t \<noteq> cur k2" for t
    unfolding w(6)[OF that(1)] using d(4)[OF that(1)] that(2) c2 by (auto simp: next_queue_def)
  have ss: "t \<in> set ?S \<longleftrightarrow> status (task k2 t) = TASK_SLEEP" if "t \<in> T" for t
    unfolding w(6)[OF that] using d(5)[OF that] by auto
  have sr: "t = cur k2" if "t \<in> T" "status (task k2 t) = TASK_RUNNING" for t
    using d(6)[OF that(1)] w(6)[OF that(1)] that(2) c2 by (auto split: if_splits)
  have det: "detached (nodes k2) t" if "t \<in> T" "t \<notin> set ?Q" "t \<notin> set ?S" for t
    using w(9)[OF that(1)] that(2,3) by (auto simp: next_queue_def)
  have still: "cur k2 \<notin> set ?Q" if "?c \<in> set S \<longrightarrow> \<not> due k ?c" using d(3) that c2 by (auto simp: next_queue_def)
  have cst: "status (task k2 ?c) = status (task k ?c)" if "?c \<in> set S \<longrightarrow> \<not> due k ?c" using w(6)[OF d(2)] that by auto
  have cT: "cur k2 \<in> T" using c2 d(2) by simp
  have base: "sched_ok T k2 ?Q ?S A" if "?c \<in> set S \<longrightarrow> \<not> due k ?c"
    by (rule sched_okI; (fact w(4) cT still[OF that] | rule st ss sr det; assumption))
  note run = schedule_pick[OF w(1-3)]
  show ?thesis
  proof (cases "preempted k")
    case False
    then have r: "status (task k ?c) = TASK_RUNNING" "ticks (task k ?c) > 0" by (auto simp: preempted_def)
    then have nd: "?c \<in> set S \<longrightarrow> \<not> due k ?c" using d(5)[OF d(2)] by auto
    have "schedule k = Some (upd_task ?c (\<lambda>s. s\<lparr>elapset_ticks := elapset_ticks s + 1, ticks := ticks s - 1\<rparr>) k2)"
      unfolding run pick_def using r cst[OF nd] w(7) c2 by simp
    then show ?thesis using base[OF nd] c2 False r(1) cst[OF nd] w(7,8) by (simp add: sched_spec_def sched_ok_task)
  next
    case True
    then have np: "\<not> (status (task k2 (cur k2)) = TASK_RUNNING \<and> ticks (task k2 (cur k2)) > 0)"
      using w(6)[OF d(2)] w(7) c2 by (auto simp: preempted_def)
    show ?thesis
    proof (cases ?Q)
      case Nil
      have nd: "?c \<in> set S \<longrightarrow> \<not> due k ?c" using Nil by (auto simp: next_queue_def filter_empty_conv)
      have "list_rep (ready_tasks k2) (nodes k2) []" using qrepD(1)[OF w(4)] Nil by simp
      then have "schedule k = Some k2" unfolding run pick_def using np by (auto simp: pop_empty)
      then show ?thesis using base[OF nd] c2 Nil True w(8) by (simp add: sched_spec_def)
    next
      case (Cons n rest)
      show ?thesis
      proof (cases "n = ?c")
        case self_next: True
        have q: "qrep T k2 (cur k2 # rest) ?S A" using w(4) Cons self_next c2 by simp
        have dQ: "distinct (cur k2 # rest)" using qrepD(5)[OF q] .
        have "?c \<in> set ?Q" using Cons self_next by simp
        then have "?c \<in> set S \<and> due k ?c" using d(3) by (auto simp: next_queue_def)
        then have "status (task k2 (cur k2)) \<noteq> TASK_RUNNING" using w(6)[OF d(2)] c2 by simp
        note nr = this
        have sq: "set ?Q = insert (cur k2) (set rest)" using Cons self_next c2 by simp
        have st': "t \<in> set rest \<longleftrightarrow> status (task k2 t) = TASK_READY" if "t \<in> T" "t \<noteq> cur k2" for t
          using st[OF that] that(2) unfolding sq by simp
        have det': "detached (nodes k2) t" if "t \<in> T" "t \<noteq> cur k2" "t \<notin> set rest" "t \<notin> set ?S" for t
          by (rule det[OF that(1) _ that(4)]) (use that(2,3) sq in simp)
        obtain k' where "pick k2 = Some k'" "sched_ok T k' rest ?S A" "cur k' = cur k2"
          "\<forall>t. priority (task k' t) = priority (task k2 t)"
          using pick_self[OF q cT nr st' ss sr det'] by blast
        then show ?thesis unfolding run using c2 Cons True self_next w(8) by (simp add: sched_spec_def)
      next
        case other: False
        have nd: "?c \<in> set S \<longrightarrow> \<not> due k ?c"
          using next_is_self[of k S R] self Cons other by auto
        obtain k' where "pick k2 = Some k'" "cur k' = n" "status (task k' n) = TASK_RUNNING" "ticks (task k' n) = priority (task k2 n)"
          "sched_ok T k' (rest @ (if status (task k2 (cur k2)) \<in> {TASK_RUNNING, TASK_READY} then [cur k2] else [])) ?S A"
          "\<forall>t. priority (task k' t) = priority (task k2 t)"
          using pick_other[OF w(4)[unfolded Cons] cT still[OF nd, unfolded Cons] np st[unfolded Cons] ss sr det[unfolded Cons]] by blast
        then show ?thesis unfolding run using Cons True other cst[OF nd] w(8) c2 by (simp add: sched_spec_def cong: if_cong)
      qed
    qed
  qed
qed

end
