(* ===== verification/Thread_Props.thy ===== *)
theory Thread_Props
  imports Thread_Proofs Pool
begin

text \<open>
  What the threads of the kernel promise: which task \<open>schedule\<close> runs next, that blocking, sleeping
  and waking keep the queues in order, that a ready task gets to run, and that process
  identifiers are handed out one at a time.
\<close>

section \<open>A small kernel\<close>

text \<open>Three tasks: the first runs, the second is ready, the third sleeps for one more tick.\<close>

definition sample_task :: "u32 \<Rightarrow> task_status \<Rightarrow> u32 \<Rightarrow> task_struct" where
  "sample_task p st sl = \<lparr>self_kstack = 0, pid = p, parent_pid = 0, t_name = ''t'', status = st, exit_code = 0, priority = 31,
     ticks = 0, elapset_ticks = 0, sleep_ticks = sl, vfork_done = None, page_dir = 0x1000 * p, vir_addr_alloc = Kernel_vir,
     file_table = [], pwd = [], kstack = \<lparr>ts_eip = Kernel_thread, ts_func = 0, ts_func_arg = 0\<rparr>\<rparr>"

definition sample_alloc :: addr_alloc_t where
  "sample_alloc = \<lparr>aa_start = 0, aa_page_size = 4096, aa_bitmap = \<lparr>bytes_len = 0, bits = [0]\<rparr>\<rparr>"

definition sample_kernel :: kernel where
  "sample_kernel = \<lparr>task = (\<lambda>t. if t = 4096 then sample_task 1 TASK_RUNNING 0 else if t = 8192 then sample_task 2 TASK_READY 0
      else sample_task 3 TASK_SLEEP 1),
     nodes = \<lparr>h_pre = [1 \<mapsto> 0, 8228 \<mapsto> 1, 2 \<mapsto> 8228, 3 \<mapsto> 0, 12324 \<mapsto> 3, 4 \<mapsto> 12324, 5 \<mapsto> 0, 4148 \<mapsto> 5, 8244 \<mapsto> 4148, 12340 \<mapsto> 8244, 6 \<mapsto> 12340, 4132 \<mapsto> 0],
       h_next = [1 \<mapsto> 8228, 8228 \<mapsto> 2, 2 \<mapsto> 0, 3 \<mapsto> 12324, 12324 \<mapsto> 4, 4 \<mapsto> 0, 5 \<mapsto> 4148, 4148 \<mapsto> 8244, 8244 \<mapsto> 12340, 12340 \<mapsto> 6, 6 \<mapsto> 0, 4132 \<mapsto> 0]\<rparr>,
     ready_tasks = \<lparr>l_head = 1, l_tail = 2, l_size = 1\<rparr>, sleep_tasks = \<lparr>l_head = 3, l_tail = 4, l_size = 1\<rparr>,
     all_tasks = \<lparr>l_head = 5, l_tail = 6, l_size = 3\<rparr>, cur = 4096, main_thread = 4096,
     pid_alloc = \<lparr>pa_bitmap = \<lparr>bytes_len = 1, bits = [15, 0]\<rparr>, pa_start = 0\<rparr>,
     mem = \<lparr>kernel_phy_addr_alloc = sample_alloc, kernel_vir_addr_alloc = sample_alloc, user_phy_addr_alloc = sample_alloc,
       task_vir_addr_alloc = (\<lambda>_. sample_alloc), ram = (\<lambda>_. 0), kernel_page_dir = 0, kernel_all_memory = 0, user_all_memory = 0, cr3 = 0\<rparr>,
     tss_esp0 = 0\<rparr>"

lemma sample_sched_ok: "sched_ok {4096, 8192, 12288} sample_kernel [8192] [12288] [4096, 8192, 12288]"
  by (simp add: sched_ok_def qrep_def sep_def sample_kernel_def list_rep_def list_foot_def general_tag_def all_tag_def node_ok_def
      detached_def sample_task_def)

section \<open>Scheduling\<close>

text \<open>
  C1: \<open>schedule\<close> refines its specification on queues, when the running task is in the queue of sleepers at most at its end
  (where going to sleep has just put it) and at most ten sleepers are due.  The sleepers whose time is up go to the
  front of the ready queue; a running task with ticks left goes on; otherwise the first of the
  queue runs with a full quantum and the old one, when it can still run, goes to the back.  The
  lists in memory, the status of every task and the queues stay in agreement.  With more than ten sleepers due in one call,
  \<open>schedule\<close> writes behind its array \<open>wake_up_list\<close>.
\<close>

theorem schedule_correct:
  assumes "sched_ok T k R S A" "cur k \<in> set S \<longrightarrow> last S = cur k"
  shows "if length (filter (due k) S) \<le> 10
    then \<exists>k'. schedule k = Some k' \<and> cur k' = fst (sched_spec k R S) \<and>
      sched_ok T k' (snd (sched_spec k R S)) (filter (\<lambda>t. \<not> due k t) S) A \<and>
      (cur k' \<noteq> cur k \<longrightarrow> status (task k' (cur k')) = TASK_RUNNING \<and> ticks (task k' (cur k')) = priority (task k (cur k')))
    else schedule k = None"
  using schedule_ok[OF assms(1) _ assms(2)] schedule_overrun[OF assms(1)] by (auto simp: not_le)

theorem schedule_correct_witness:
  "sched_ok {4096, 8192, 12288} sample_kernel [8192] [12288] [4096, 8192, 12288] \<and>
   (\<exists>k'. schedule sample_kernel = Some k' \<and> cur k' = 12288 \<and>
      sched_ok {4096, 8192, 12288} k' [8192, 4096] [] [4096, 8192, 12288])"
proof -
  have d: "filter (due sample_kernel) [12288] = [12288]" "filter (\<lambda>t. \<not> due sample_kernel t) [12288] = []"
    by (simp_all add: due_def sample_kernel_def sample_task_def)
  have "sched_spec sample_kernel [8192] [12288] = (12288, [8192, 4096])"
    unfolding sched_spec_def next_queue_def d by (simp add: preempted_def sample_kernel_def sample_task_def)
  then show ?thesis using schedule_correct[OF sample_sched_ok] sample_sched_ok unfolding d
    by (auto simp: sample_kernel_def)
qed

section \<open>Blocking, sleeping and waking\<close>

lemma set_status_current:
  assumes ok: "sched_ok T k R S A" and run: "status (task k (cur k)) \<in> {TASK_RUNNING, TASK_READY}" and st: "st \<notin> {TASK_READY, TASK_RUNNING}"
  shows "\<exists>k1. set_cur_thread_status st True k = schedule k1 \<and> cur k1 = cur k \<and>
    sched_ok T k1 R (if st = TASK_SLEEP then S @ [cur k] else S) A \<and>
    task k1 = (task k)(cur k := (task k (cur k))\<lparr>status := st\<rparr>)"
proof -
  note d = sched_okD[OF ok]
  let ?c = "cur k"
  have cS: "?c \<notin> set S" using d(5)[OF d(2)] run by auto
  have rm: "remove (ready_tasks k) (general_tag ?c) (nodes k) = Some (ready_tasks k, nodes k)"
    by (rule remove_detached[OF d(1,2,3) d(7)[OF d(2,3) cS]])
  have "\<exists>k2. (if st = TASK_SLEEP then do { (l, h) \<leftarrow> pushr (sleep_tasks k) (general_tag ?c) (nodes k); Some (k\<lparr>sleep_tasks := l, nodes := h\<rparr>) }
       else Some k) = Some k2 \<and> cur k2 = ?c \<and> task k2 = task k \<and> qrep T k2 R (if st = TASK_SLEEP then S @ [?c] else S) A \<and>
     (\<forall>t\<in>T. t \<noteq> ?c \<and> t \<notin> set R \<and> t \<notin> set S \<longrightarrow> detached (nodes k2) t) \<and> (st \<noteq> TASK_SLEEP \<longrightarrow> nodes k2 = nodes k)"
  proof (cases "st = TASK_SLEEP")
    case True
    obtain l h where p: "pushr (sleep_tasks k) (general_tag ?c) (nodes k) = Some (l, h)"
      "qrep T (k\<lparr>sleep_tasks := l, nodes := h\<rparr>) R (S @ [?c]) A"
      "agree (- (general_tag ` (insert ?c (set S)) \<union> list_foot (sleep_tasks k))) (nodes k) h"
      using push_sleep_ok[OF d(1,2,3) cS] by blast
    have "detached h t" if t: "t \<in> T" "t \<noteq> ?c" "t \<notin> set R" "t \<notin> set S" for t
    proof -
      have "general_tag t \<in> - (general_tag ` (insert ?c (set S)) \<union> list_foot (sleep_tasks k))"
        using t sepD(2)[OF qrepD(4)[OF d(1)] t(1)] by auto
      from detached_agree[OF p(3) this] show ?thesis using d(7)[OF t(1,3,4)] by simp
    qed
    then show ?thesis using True p(1,2) by auto
  qed (use d in auto)
  then obtain k2 where k2: "(if st = TASK_SLEEP then do { (l, h) \<leftarrow> pushr (sleep_tasks k) (general_tag ?c) (nodes k); Some (k\<lparr>sleep_tasks := l, nodes := h\<rparr>) }
       else Some k) = Some k2" "cur k2 = ?c" "task k2 = task k" "qrep T k2 R (if st = TASK_SLEEP then S @ [?c] else S) A"
     "\<And>t. t \<in> T \<Longrightarrow> t \<noteq> ?c \<Longrightarrow> t \<notin> set R \<Longrightarrow> t \<notin> set S \<Longrightarrow> detached (nodes k2) t" "st \<noteq> TASK_SLEEP \<Longrightarrow> nodes k2 = nodes k" by blast
  define k1 where "k1 = upd_task ?c (\<lambda>s. s\<lparr>status := st\<rparr>) k2"
  have "set_cur_thread_status st True k = schedule k1"
    using st rm k2(1) by (simp add: set_cur_thread_status_def set_thread_status_def do_set_thread_status_def k1_def)
  moreover have tk: "task k1 = (task k)(?c := (task k ?c)\<lparr>status := st\<rparr>)" using k2(3) by (simp add: k1_def upd_task_def)
  moreover have "sched_ok T k1 R (if st = TASK_SLEEP then S @ [?c] else S) A"
  proof (rule sched_okI)
    show "qrep T k1 R (if st = TASK_SLEEP then S @ [?c] else S) A" using k2(4) by (simp add: k1_def)
    have c1: "cur k1 = ?c" using k2(2) by (simp add: k1_def)
    show "cur k1 \<in> T" "cur k1 \<notin> set R" using c1 d(2,3) by simp_all
    fix t assume t: "t \<in> T"
    show "t \<in> set R \<longleftrightarrow> status (task k1 t) = TASK_READY" if "t \<noteq> cur k1" using d(4)[OF t] that c1 by (simp add: tk)
    show "t \<in> set (if st = TASK_SLEEP then S @ [?c] else S) \<longleftrightarrow> status (task k1 t) = TASK_SLEEP"
      using d(5)[OF t] cS by (auto simp: tk)
    show "t = cur k1" if "status (task k1 t) = TASK_RUNNING"
      using that st d(6)[OF t] c1 by (auto simp: tk split: if_splits)
    show "detached (nodes k1) t" if o: "t \<notin> set R" "t \<notin> set (if st = TASK_SLEEP then S @ [?c] else S)"
    proof (cases "t = ?c")
      case True
      then show ?thesis using o k2(6) d(7)[OF d(2,3) cS] by (simp add: k1_def split: if_splits)
    next
      case False
      then show ?thesis using o k2(5)[OF t] by (simp add: k1_def split: if_splits)
    qed
  qed
  ultimately show ?thesis using k2(2) by (auto simp: k1_def)
qed

lemma block_current_ok:
  assumes ok: "sched_ok T k R S A" and run: "status (task k (cur k)) \<in> {TASK_RUNNING, TASK_READY}"
    and st: "st \<notin> {TASK_READY, TASK_RUNNING}" and nodue: "\<forall>t\<in>set S. \<not> due k t" "st = TASK_SLEEP \<longrightarrow> \<not> due k (cur k)"
  shows "\<exists>k'. set_cur_thread_status st True k = Some k' \<and> cur k' = (if R = [] then cur k else hd R) \<and>
    sched_ok T k' (tl R) (if st = TASK_SLEEP then S @ [cur k] else S) A"
proof -
  note d = sched_okD[OF ok]
  let ?c = "cur k" and ?S = "if st = TASK_SLEEP then S @ [cur k] else S"
  obtain k1 where k1: "set_cur_thread_status st True k = schedule k1" "cur k1 = ?c" "sched_ok T k1 R ?S A"
    "task k1 = (task k)(?c := (task k ?c)\<lparr>status := st\<rparr>)"
    using set_status_current[OF ok run st] by blast
  have nd: "\<forall>t\<in>set ?S. \<not> due k1 t" using nodue by (auto simp: due_def k1(4))
  then have f: "filter (due k1) ?S = []" "filter (\<lambda>t. \<not> due k1 t) ?S = ?S" by (auto simp: filter_empty_conv filter_id_conv)
  have cS: "?c \<notin> set S" using d(5)[OF d(2)] run by auto
  have self: "cur k1 \<in> set ?S \<longrightarrow> last ?S = cur k1" using k1(2) cS by auto
  have pre: "preempted k1" using st k1(2,4) by (auto simp: preempted_def)
  have "sched_spec k1 R ?S = (if R = [] then ?c else hd R, tl R)"
    unfolding sched_spec_def next_queue_def f using pre st k1(2,4) by (cases R) auto
  with schedule_ok[OF k1(3) _ self] show ?thesis unfolding f k1(1) by auto
qed

text \<open>The same with sleepers that are due: they come first in the ready queue.\<close>

lemma block_current_due:
  assumes ok: "sched_ok T k R S A" and run: "status (task k (cur k)) \<in> {TASK_RUNNING, TASK_READY}"
    and st: "st \<notin> {TASK_READY, TASK_RUNNING}" and S': "S' = (if st = TASK_SLEEP then S @ [cur k] else S)"
    and few: "length (filter (due k) S') \<le> 10" and Q: "Q = rev (filter (due k) S') @ R"
  shows "\<exists>k'. set_cur_thread_status st True k = Some k' \<and> cur k' = (if Q = [] then cur k else hd Q) \<and>
    sched_ok T k' (tl Q) (filter (\<lambda>t. \<not> due k t) S') A"
proof -
  note d = sched_okD[OF ok]
  let ?c = "cur k"
  obtain k1 where k1: "set_cur_thread_status st True k = schedule k1" "cur k1 = ?c" "sched_ok T k1 R S' A"
    "task k1 = (task k)(?c := (task k ?c)\<lparr>status := st\<rparr>)"
    using set_status_current[OF ok run st] unfolding S' by blast
  have du: "due k1 = due k" by (rule ext) (simp add: due_def k1(4))
  have cS: "?c \<notin> set S" using d(5)[OF d(2)] run by auto
  have self: "cur k1 \<in> set S' \<longrightarrow> last S' = cur k1" using k1(2) cS by (simp add: S')
  have pre: "preempted k1" using st k1(2,4) by (auto simp: preempted_def)
  have q: "next_queue k1 R S' = Q" by (simp add: next_queue_def du Q)
  have "sched_spec k1 R S' = (if Q = [] then ?c else hd Q, tl Q)"
    unfolding sched_spec_def q using pre st k1(2,4) by (cases Q) auto
  with schedule_ok[OF k1(3) _ self] few show ?thesis unfolding du k1(1) by auto
qed

text \<open>
  C24: a task that runs and blocks itself (\<open>thread_block\<close>, \<open>thread_sleep\<close>, \<open>process_exit\<close>) is in no ready queue
  afterwards; when it sleeps it joins the queue of sleepers.  \<open>Q\<close> is the ready queue with the sleepers that are due in this call
  in front, at most ten of them: the processor goes to the first of \<open>Q\<close>, and with \<open>Q\<close> empty the task goes on running.  A task that
  sleeps for one tick is due itself and so comes first: its sleep ends at once.
\<close>

theorem block_current_correct:
  assumes ok: "sched_ok T k R S A" and run: "status (task k (cur k)) \<in> {TASK_RUNNING, TASK_READY}"
    and st: "st \<notin> {TASK_READY, TASK_RUNNING}" and S': "S' = (if st = TASK_SLEEP then S @ [cur k] else S)"
    and few: "length (filter (due k) S') \<le> 10" and Q: "Q = rev (filter (due k) S') @ R"
  shows "\<exists>k'. set_cur_thread_status st True k = Some k' \<and> cur k' = (if Q = [] then cur k else hd Q) \<and>
    sched_ok T k' (tl Q) (filter (\<lambda>t. \<not> due k t) S') A \<and> (st = TASK_SLEEP \<and> sleep_ticks (task k (cur k)) = 1 \<longrightarrow> cur k' = cur k)"
  using block_current_due[OF assms] S' Q by (auto simp: due_def)

theorem block_current_correct_witness:
  "sched_ok {4096, 8192, 12288} sample_kernel [8192] [12288] [4096, 8192, 12288] \<and>
   (\<exists>k'. set_cur_thread_status TASK_WAITING True sample_kernel = Some k' \<and> cur k' = 12288 \<and>
      sched_ok {4096, 8192, 12288} k' [8192] [] [4096, 8192, 12288]) \<and>
   (\<exists>k'. set_cur_thread_status TASK_SLEEP True (upd_task 4096 (\<lambda>s. s\<lparr>sleep_ticks := 5\<rparr>) sample_kernel) = Some k' \<and> cur k' = 12288 \<and>
      sched_ok {4096, 8192, 12288} k' [8192] [4096] [4096, 8192, 12288])"
proof -
  let ?k = "upd_task 4096 (\<lambda>s. s\<lparr>sleep_ticks := 5\<rparr>) sample_kernel"
  have ok: "sched_ok {4096, 8192, 12288} ?k [8192] [12288] [4096, 8192, 12288]"
    using sample_sched_ok by (simp add: sched_ok_task)
  have d: "due sample_kernel 12288" "due ?k 12288" "\<not> due ?k 4096" "cur ?k = 4096" "cur sample_kernel = 4096" "status (task ?k 4096) = TASK_RUNNING"
    "status (task sample_kernel 4096) = TASK_RUNNING" by (simp_all add: due_def sample_kernel_def sample_task_def)
  show ?thesis
    using block_current_correct[OF sample_sched_ok, of TASK_WAITING "[12288]" "[12288, 8192]"]
      block_current_correct[OF ok, of TASK_SLEEP "[12288, 4096]" "[12288, 8192]"] sample_sched_ok d by simp
qed

lemma thread_ready_ok:
  assumes ok: "sched_ok T k R S A" and t: "t \<in> T" "status (task k t) \<noteq> TASK_SLEEP" "t \<noteq> cur k"
  shows "\<exists>k'. thread_ready t False now k = Some k' \<and> status (task k' t) = TASK_READY \<and> cur k' = cur k \<and>
    sched_ok T k' (if t \<in> set R then R else if now then t # R else R @ [t]) S A \<and>
    task k' = (task k)(t := (task k t)\<lparr>status := TASK_READY\<rparr>)"
proof -
  note d = sched_okD[OF ok]
  show ?thesis
  proof (cases "t \<in> set R")
    case True
    then have st: "status (task k t) = TASK_READY" using d(4)[OF t(1,3)] by simp
    then have "task k t = (task k t)\<lparr>status := TASK_READY\<rparr>" by simp
    then have te: "(task k)(t := (task k t)\<lparr>status := TASK_READY\<rparr>) = task k" by (metis fun_upd_triv)
    then have "upd_task t (\<lambda>s. s\<lparr>status := TASK_READY\<rparr>) k = k" by (simp add: upd_task_def)
    then show ?thesis using st ok True te by (simp add: thread_ready_def do_set_thread_status_def)
  next
    case False
    have st: "status (task k t) \<noteq> TASK_READY" "status (task k t) \<noteq> TASK_RUNNING" "t \<notin> set S"
      using d(4)[OF t(1,3)] d(5)[OF t(1)] d(6)[OF t(1)] t False by auto
    let ?R = "if now then t # R else R @ [t]"
    obtain l h where p: "(if now then pushl (ready_tasks k) (general_tag t) (nodes k) else pushr (ready_tasks k) (general_tag t) (nodes k)) = Some (l, h)"
      "qrep T (k\<lparr>ready_tasks := l, nodes := h\<rparr>) ?R S A"
      "agree (- (general_tag ` (insert t (set R)) \<union> list_foot (ready_tasks k))) (nodes k) h"
      using push_ready_ok[OF d(1) t(1) False st(3)] by (cases now) auto
    define k' where "k' = upd_task t (\<lambda>s. s\<lparr>status := TASK_READY\<rparr>) (k\<lparr>ready_tasks := l, nodes := h\<rparr>)"
    have e: "thread_ready t False now k = Some k'" using p(1) st by (simp add: thread_ready_def do_set_thread_status_def k'_def)
    have tk: "status (task k' u) = (if u = t then TASK_READY else status (task k u))" for u by (simp add: k'_def)
    have "sched_ok T k' ?R S A"
    proof (rule sched_okI)
      show "qrep T k' ?R S A" using p(2) by (simp add: k'_def)
      have c: "cur k' = cur k" by (simp add: k'_def)
      show "cur k' \<in> T" "cur k' \<notin> set ?R" using c d(2,3) t(3) by auto
      fix u assume u: "u \<in> T"
      show "u \<in> set ?R \<longleftrightarrow> status (task k' u) = TASK_READY" if "u \<noteq> cur k'" using d(4)[OF u] that c by (auto simp: tk)
      show "u \<in> set S \<longleftrightarrow> status (task k' u) = TASK_SLEEP" using d(5)[OF u] st(3) by (auto simp: tk)
      show "u = cur k'" if "status (task k' u) = TASK_RUNNING" using that d(6)[OF u] c by (auto simp: tk split: if_splits)
      show "detached (nodes k') u" if o: "u \<notin> set ?R" "u \<notin> set S"
      proof -
        have "u \<notin> insert t (set R)" using o(1) by (auto split: if_splits)
        then have "general_tag u \<in> - (general_tag ` (insert t (set R)) \<union> list_foot (ready_tasks k))"
          using sepD(1)[OF qrepD(4)[OF d(1)] u] by auto
        from detached_agree[OF p(3) this] show ?thesis using d(7)[OF u] o by (auto simp: k'_def split: if_splits)
      qed
    qed
    moreover have "task k' = (task k)(t := (task k t)\<lparr>status := TASK_READY\<rparr>)" by (simp add: k'_def upd_task_def)
    ultimately show ?thesis using e tk[of t] False by (simp add: k'_def)
  qed
qed

text \<open>The task that runs.\<close>

lemma thread_ready_running:
  assumes ok: "sched_ok T k R S A" and run: "status (task k (cur k)) \<in> {TASK_RUNNING, TASK_READY}"
  shows "\<exists>k'. thread_ready (cur k) False now k = Some k' \<and> cur k' = cur k \<and> sched_ok T k' R S A \<and>
    task k' = (task k)(cur k := (task k (cur k))\<lparr>status := TASK_READY\<rparr>)"
proof -
  note d = sched_okD[OF ok]
  define k' where "k' = upd_task (cur k) (\<lambda>s. s\<lparr>status := TASK_READY\<rparr>) k"
  have "thread_ready (cur k) False now k = Some k'" using run by (auto simp: thread_ready_def do_set_thread_status_def k'_def)
  moreover have tk: "task k' = (task k)(cur k := (task k (cur k))\<lparr>status := TASK_READY\<rparr>)" by (simp add: k'_def upd_task_def)
  moreover have c: "cur k' = cur k" "nodes k' = nodes k" by (simp_all add: k'_def)
  have "sched_ok T k' R S A"
  proof (rule sched_okI)
    show "qrep T k' R S A" using d(1) by (simp add: k'_def)
    show "cur k' \<in> T" "cur k' \<notin> set R" using c d(2,3) by simp_all
    fix u assume u: "u \<in> T"
    show "u \<in> set R \<longleftrightarrow> status (task k' u) = TASK_READY" if "u \<noteq> cur k'" using d(4)[OF u] that c by (simp add: tk)
    show "u \<in> set S \<longleftrightarrow> status (task k' u) = TASK_SLEEP" using d(5)[OF u] d(5)[OF d(2)] run by (auto simp: tk)
    show "u = cur k'" if "status (task k' u) = TASK_RUNNING" using that d(6)[OF u] c by (auto simp: tk split: if_splits)
    show "detached (nodes k') u" if "u \<notin> set R" "u \<notin> set S" using d(7)[OF u that] c by simp
  qed
  ultimately show ?thesis using c by blast
qed

lemma thread_ready_schedule: "thread_ready t False now k = Some k' \<Longrightarrow> thread_ready t True now k = schedule k'"
  by (auto simp: thread_ready_def do_set_thread_status_def split: bind_splits if_splits)

text \<open>
  C25: \<open>thread_ready\<close> of a task that is not asleep and, when it is the one that runs, is running or ready.  A task that
  waits is put into the ready queue exactly once, in front when it is to run next and at the back otherwise; a task in the
  queue stays where it is; a running one is marked ready without entering the queue.  When the caller asks for it, \<open>schedule\<close> follows.
  The lists in memory, the status of every task and the queues stay in agreement.
\<close>

theorem thread_ready_correct:
  assumes ok: "sched_ok T k R S A" and t: "t \<in> T" "status (task k t) \<noteq> TASK_SLEEP"
    and run: "t = cur k \<longrightarrow> status (task k t) \<in> {TASK_RUNNING, TASK_READY}"
  shows "\<exists>k'. thread_ready t False now k = Some k' \<and> thread_ready t True now k = schedule k' \<and> cur k' = cur k \<and>
    task k' = (task k)(t := (task k t)\<lparr>status := TASK_READY\<rparr>) \<and>
    sched_ok T k' (if t = cur k \<or> t \<in> set R then R else if now then t # R else R @ [t]) S A"
proof (cases "t = cur k")
  case True
  with thread_ready_running[OF ok, of now] run show ?thesis by (auto simp: thread_ready_schedule)
next
  case False
  with thread_ready_ok[OF ok t, of now] show ?thesis by (auto simp: thread_ready_schedule)
qed

text \<open>The second task of the small kernel blocked, and nobody ready.\<close>

definition blocked_kernel :: kernel where
  "blocked_kernel = upd_task 8192 (\<lambda>s. s\<lparr>status := TASK_BLOCKED\<rparr>) (sample_kernel\<lparr>ready_tasks := \<lparr>l_head = 1, l_tail = 2, l_size = 0\<rparr>,
     nodes := \<lparr>h_pre = (h_pre (nodes sample_kernel))(2 \<mapsto> 1, 8228 \<mapsto> 0), h_next = (h_next (nodes sample_kernel))(1 \<mapsto> 2, 8228 \<mapsto> 0)\<rparr>\<rparr>)"

lemma blocked_sched_ok: "sched_ok {4096, 8192, 12288} blocked_kernel [] [12288] [4096, 8192, 12288]"
  by (simp add: sched_ok_def qrep_def sep_def blocked_kernel_def upd_task_def sample_kernel_def list_rep_def list_foot_def general_tag_def all_tag_def
      node_ok_def detached_def sample_task_def)

theorem thread_ready_correct_witness:
  "sched_ok {4096, 8192, 12288} blocked_kernel [] [12288] [4096, 8192, 12288] \<and>
   (\<exists>k'. thread_ready 8192 False True blocked_kernel = Some k' \<and> status (task k' 8192) = TASK_READY \<and>
     sched_ok {4096, 8192, 12288} k' [8192] [12288] [4096, 8192, 12288]) \<and>
   (\<exists>k'. thread_ready 4096 False True blocked_kernel = Some k' \<and> status (task k' 4096) = TASK_READY \<and>
     sched_ok {4096, 8192, 12288} k' [] [12288] [4096, 8192, 12288])"
proof -
  have s: "status (task blocked_kernel 8192) = TASK_BLOCKED" "status (task blocked_kernel 4096) = TASK_RUNNING" "cur blocked_kernel = 4096"
    by (simp_all add: blocked_kernel_def sample_kernel_def sample_task_def)
  show ?thesis
    using thread_ready_correct[OF blocked_sched_ok, of 8192 True] thread_ready_correct[OF blocked_sched_ok, of 4096 True] blocked_sched_ok s by auto
qed

section \<open>Every ready task gets to run\<close>

text \<open>The timer interrupt calls \<open>schedule\<close> once a tick.\<close>

fun run_ticks :: "nat \<Rightarrow> kernel \<Rightarrow> kernel option" where
  "run_ticks 0 k = Some k"
| "run_ticks (Suc n) k = Option.bind (schedule k) (run_ticks n)"

lemma run_ticks_add: "run_ticks (m + n) k = Option.bind (run_ticks m k) (run_ticks n)"
proof (induction m arbitrary: k)
  case (Suc m)
  show ?case by (cases "schedule k") (simp_all add: Suc.IH)
qed simp

lemma quantum_expires:
  assumes "sched_ok T k (t # R) [] A" "status (task k (cur k)) = TASK_RUNNING" "ticks (task k (cur k)) = w"
  shows "\<exists>k'. run_ticks (Suc (unat w)) k = Some k' \<and> cur k' = t \<and> sched_ok T k' (R @ [cur k]) [] A \<and>
    status (task k' t) = TASK_RUNNING \<and> ticks (task k' t) = priority (task k t) \<and> (\<forall>u. priority (task k' u) = priority (task k u))"
  using assms
proof (induction "unat w" arbitrary: k w)
  case 0
  have w: "w = 0" using 0(1) by (simp add: unat_eq_0)
  have p: "preempted k" using 0 w by (simp add: preempted_def)
  have ne: "t \<noteq> cur k" using sched_okD(3)[OF 0(2)] by auto
  have sp: "sched_spec k (t # R) [] = (t, R @ [cur k])" using p ne 0(3) by (simp add: sched_spec_def next_queue_def)
  from schedule_ok[OF 0(2)] obtain k' where "schedule k = Some k'" "cur k' = t" "sched_ok T k' (R @ [cur k]) [] A"
    "status (task k' t) = TASK_RUNNING \<and> ticks (task k' t) = priority (task k t)" "\<forall>u. priority (task k' u) = priority (task k u)"
    using ne by (auto simp: sp)
  then show ?case using w by auto
next
  case (Suc n)
  have w: "w \<noteq> 0" using Suc(2) by auto
  have p: "\<not> preempted k" using Suc w by (simp add: preempted_def word_gt_0)
  have sp: "sched_spec k (t # R) [] = (cur k, t # R)" using p by (simp add: sched_spec_def next_queue_def)
  from schedule_ok[OF Suc(3)] obtain k1 where k1: "schedule k = Some k1" "cur k1 = cur k" "sched_ok T k1 (t # R) [] A"
    "status (task k1 (cur k1)) = TASK_RUNNING" "ticks (task k1 (cur k1)) = w - 1" "\<forall>u. priority (task k1 u) = priority (task k u)"
    using p Suc(5) by (auto simp: sp)
  have n: "n = unat (w - 1)" using Suc(2) unat_minus_one[OF w] by simp
  have "run_ticks (Suc (unat w)) k = run_ticks (Suc n) k1" using k1(1) Suc(2) by simp
  with Suc(1)[OF n k1(3-5)] show ?case by (simp add: n k1(2,6) del: run_ticks.simps)
qed

text \<open>
  C5: round robin.  With nobody asleep, the task at position \<open>i\<close> of the ready queue runs after a number
  of timer ticks that is known in advance: the rest of the running task's quantum and the full quanta
  of the tasks in front of it.
\<close>

theorem round_robin:
  assumes "sched_ok T k R [] A" "status (task k (cur k)) = TASK_RUNNING" "i < length R"
  shows "\<exists>k'. run_ticks (Suc (unat (ticks (task k (cur k)))) + (\<Sum>t\<leftarrow>take i R. Suc (unat (priority (task k t))))) k = Some k' \<and>
    cur k' = R ! i \<and> status (task k' (R ! i)) = TASK_RUNNING \<and> ticks (task k' (R ! i)) = priority (task k (R ! i))"
  using assms
proof (induction i arbitrary: k R)
  case 0
  then obtain t R' where R: "R = t # R'" by (cases R) auto
  from quantum_expires[OF 0(1)[unfolded R] 0(2) refl] show ?case by (auto simp: R simp del: run_ticks.simps)
next
  case (Suc i)
  then obtain t R' where R: "R = t # R'" by (cases R) auto
  from quantum_expires[OF Suc.prems(1)[unfolded R] Suc.prems(2) refl] obtain k1 where
    k1: "run_ticks (Suc (unat (ticks (task k (cur k))))) k = Some k1" "cur k1 = t" "sched_ok T k1 (R' @ [cur k]) [] A"
    "status (task k1 (cur k1)) = TASK_RUNNING" "ticks (task k1 (cur k1)) = priority (task k t)" "\<And>u. priority (task k1 u) = priority (task k u)"
    by auto
  have i: "i < length (R' @ [cur k])" "take i (R' @ [cur k]) = take i R'" "(R' @ [cur k]) ! i = R' ! i"
    using Suc.prems(3) R by (auto simp: nth_append)
  from Suc.IH[OF k1(3,4) i(1)] obtain k' where k': "run_ticks (Suc (unat (priority (task k t))) + (\<Sum>t\<leftarrow>take i R'. Suc (unat (priority (task k t))))) k1 = Some k'"
    "cur k' = R' ! i" "status (task k' (R' ! i)) = TASK_RUNNING" "ticks (task k' (R' ! i)) = priority (task k (R' ! i))"
    by (auto simp: k1(2) k1(5)[unfolded k1(2)] k1(6) i(2,3) simp del: run_ticks.simps take_append)
  show ?case unfolding run_ticks_add using k1(1) k' by (simp add: R del: run_ticks.simps)
qed

theorem round_robin_witness:
  "\<exists>k k'. schedule sample_kernel = Some k \<and> sched_ok {4096, 8192, 12288} k [8192, 4096] [] [4096, 8192, 12288] \<and>
     run_ticks 64 k = Some k' \<and> cur k' = 4096"
proof -
  have d: "filter (due sample_kernel) [12288] = [12288]" "filter (\<lambda>t. \<not> due sample_kernel t) [12288] = []"
    by (simp_all add: due_def sample_kernel_def sample_task_def)
  have sp: "sched_spec sample_kernel [8192] [12288] = (12288, [8192, 4096])"
    unfolding sched_spec_def next_queue_def d by (simp add: preempted_def sample_kernel_def sample_task_def)
  have pr: "priority (task sample_kernel t) = 31" "cur sample_kernel = 4096" for t by (simp_all add: sample_kernel_def sample_task_def)
  obtain k where k: "schedule sample_kernel = Some k" "cur k = 12288" "sched_ok {4096, 8192, 12288} k [8192, 4096] [] [4096, 8192, 12288]"
    "status (task k 12288) = TASK_RUNNING" "ticks (task k 12288) = 31" "\<And>t. priority (task k t) = 31"
    using schedule_ok[OF sample_sched_ok] unfolding d sp by (auto simp: pr)
  from round_robin[OF k(3), of 1] obtain k' where "run_ticks 64 k = Some k'" "cur k' = 4096"
    by (auto simp: k simp del: run_ticks.simps)
  then show ?thesis using k(1,3) by blast
qed

section \<open>Process identifiers\<close>

definition pid_ok :: "pid_alloc_t \<Rightarrow> bool" where
  "pid_ok pa \<longleftrightarrow> bitmap_ok (pa_bitmap pa) \<and> pa_start pa = 0 \<and> nbits (pa_bitmap pa) < 2 ^ 32 - 1"

definition live_pids :: "pid_alloc_t \<Rightarrow> u32 set" where
  "live_pids pa = of_nat ` used_bits (pa_bitmap pa)"

definition all_pids :: "pid_alloc_t \<Rightarrow> u32 set" where
  "all_pids pa = of_nat ` {..<nbits (pa_bitmap pa)}"

definition take_pid :: "pid_alloc_t \<Rightarrow> (u32 option \<times> pid_alloc_t) option" where
  "take_pid pa = map_option (\<lambda>(r, pa'). (if r = - 1 then None else Some r, pa')) (alloc_pid pa)"

lemma unat_pid: "pid_ok pa \<Longrightarrow> i < nbits (pa_bitmap pa) \<Longrightarrow> unat (of_nat i :: u32) = i"
  by (simp add: pid_ok_def unat_of_nat_small)

lemma max_pid: "unat (- 1 :: u32) = 2 ^ 32 - 1"
  by (simp add: unsigned_minus_1_eq_mask mask_eq_exp_minus_1)

lemma pid_inj: "pid_ok pa \<Longrightarrow> inj_on (of_nat :: nat \<Rightarrow> u32) {..<nbits (pa_bitmap pa)}"
  by (rule inj_onI) (metis lessThan_iff unat_pid)

lemma all_pids_live:
  assumes "pid_ok pa"
  shows "live_pids pa = all_pids pa \<longleftrightarrow> used_bits (pa_bitmap pa) = {..<nbits (pa_bitmap pa)}"
  unfolding live_pids_def all_pids_def by (rule inj_on_image_eq_iff[OF pid_inj[OF assms]]) (auto simp: used_bits_def)

lemma pid_bitmap_set:
  assumes "pid_ok pa" "i < nbits (pa_bitmap pa)"
  obtains b where "bitmap_set (pa_bitmap pa) i v = Some b" "pid_ok (pa\<lparr>pa_bitmap := b\<rparr>)"
    "all_pids (pa\<lparr>pa_bitmap := b\<rparr>) = all_pids pa"
    "live_pids (pa\<lparr>pa_bitmap := b\<rparr>) = (if v \<noteq> 0 then insert (of_nat i) (live_pids pa) else live_pids pa - {of_nat i})"
proof -
  have "i div 8 < length (bits (pa_bitmap pa))" using assms bitmap_ok_index[of "pa_bitmap pa" i] by (simp add: pid_ok_def)
  from bitmap_set_eq[OF this, of v] obtain b where b: "bitmap_set (pa_bitmap pa) i v = Some b" "bytes_len b = bytes_len (pa_bitmap pa)"
    "length (bits b) = length (bits (pa_bitmap pa))" "\<And>j. bit_at b j = (if j = i then v \<noteq> 0 else bit_at (pa_bitmap pa) j)" by blast
  have n: "nbits b = nbits (pa_bitmap pa)" using b(2) by (simp add: nbits_def)
  have u: "used_bits b = (if v \<noteq> 0 then insert i (used_bits (pa_bitmap pa)) else used_bits (pa_bitmap pa) - {i})"
    using assms(2) n b(4) by (auto simp: used_bits_def)
  have "(of_nat :: nat \<Rightarrow> u32) ` (used_bits (pa_bitmap pa) - {i}) = live_pids pa - {of_nat i}"
    using inj_on_image_set_diff[OF pid_inj[OF assms(1)], of "used_bits (pa_bitmap pa)" "{i}"] assms(2)
    by (auto simp: live_pids_def used_bits_def)
  then show thesis using assms(1) b n u
    by (intro that[of b]) (auto simp: pid_ok_def bitmap_ok_def all_pids_def live_pids_def)
qed

interpretation pids: pool pid_ok live_pids all_pids take_pid unalloc_pid
proof unfold_locales
  fix pa
  assume ok: "pid_ok pa"
  have bok: "bitmap_ok (pa_bitmap pa)" using ok by (simp add: pid_ok_def)
  show "finite (all_pids pa)" by (simp add: all_pids_def)
  show sub: "live_pids pa \<subseteq> all_pids pa" by (auto simp: live_pids_def all_pids_def used_bits_def)
  note full = all_pids_live[OF ok]
  { assume "live_pids pa \<noteq> all_pids pa"
    then obtain f where f: "bitmap_scan (pa_bitmap pa) 1 = Some (int f)" "f < nbits (pa_bitmap pa)" "f \<notin> used_bits (pa_bitmap pa)"
      using scan_one_free[OF bok] full by blast
    obtain b where b: "bitmap_set (pa_bitmap pa) f 1 = Some b" "pid_ok (pa\<lparr>pa_bitmap := b\<rparr>)"
      "all_pids (pa\<lparr>pa_bitmap := b\<rparr>) = all_pids pa" "live_pids (pa\<lparr>pa_bitmap := b\<rparr>) = insert (of_nat f) (live_pids pa)"
      using pid_bitmap_set[OF ok f(2), of 1] by (metis one_neq_zero)
    have "unat (of_nat f :: u32) < 2 ^ 32 - 1" using unat_pid[OF ok f(2)] f(2) ok by (simp add: pid_ok_def)
    then have "(of_nat f :: u32) \<noteq> - 1" using max_pid by force
    then have "take_pid pa = Some (Some (of_nat f), pa\<lparr>pa_bitmap := b\<rparr>)"
      using f(1) b(1) ok by (simp add: take_pid_def alloc_pid_def pid_ok_def)
    moreover have "(of_nat f :: u32) \<notin> live_pids pa"
    proof
      assume "(of_nat f :: u32) \<in> live_pids pa"
      then obtain j where j: "(of_nat f :: u32) = of_nat j" "j \<in> used_bits (pa_bitmap pa)" by (auto simp: live_pids_def)
      then have "j < nbits (pa_bitmap pa)" by (simp add: used_bits_def)
      then have "f = j" using inj_onD[OF pid_inj[OF ok] j(1)] f(2) by simp
      then show False using f(3) j(2) by simp
    qed
    ultimately show "\<exists>r p'. take_pid pa = Some (Some r, p') \<and> r \<in> all_pids pa - live_pids pa \<and>
        live_pids p' = insert r (live_pids pa) \<and> all_pids p' = all_pids pa \<and> pid_ok p'"
      using f(2) b by (auto simp: all_pids_def) }
  { assume "live_pids pa = all_pids pa"
    then show "take_pid pa = Some (None, pa)"
      using scan_one_full[OF bok] full by (simp add: take_pid_def alloc_pid_def) }
  { fix r
    assume "r \<in> live_pids pa"
    then obtain i where i: "r = of_nat i" "i < nbits (pa_bitmap pa)" by (auto simp: live_pids_def used_bits_def)
    obtain b where "bitmap_set (pa_bitmap pa) i 0 = Some b" "pid_ok (pa\<lparr>pa_bitmap := b\<rparr>)"
      "all_pids (pa\<lparr>pa_bitmap := b\<rparr>) = all_pids pa" "live_pids (pa\<lparr>pa_bitmap := b\<rparr>) = live_pids pa - {of_nat i}"
      using pid_bitmap_set[OF ok i(2), of 0] by metis
    then show "\<exists>p'. unalloc_pid r pa = Some p' \<and> live_pids p' = live_pids pa - {r} \<and> all_pids p' = all_pids pa \<and> pid_ok p'"
      using ok unat_pid[OF ok i(2)] i(1) by (simp add: unalloc_pid_def pid_ok_def) }
qed

text \<open>
  C26: the identifiers in use are the bits that are set in the bitmap.  \<open>alloc_pid\<close> hands out an identifier that is not in use and
  marks this one, and when all are in use it answers -1 and changes nothing; \<open>unalloc_pid\<close> of any identifier in use
  makes it free again and keeps all others.  (The threads of a process have the same identifier, and the first of them to
  exit gives it back.)
\<close>

theorem pids_unique:
  assumes "pid_ok pa"
  shows "(if live_pids pa = all_pids pa then alloc_pid pa = Some (- 1, pa)
    else \<exists>p pa'. alloc_pid pa = Some (p, pa') \<and> p \<noteq> - 1 \<and> p \<in> all_pids pa - live_pids pa \<and> pid_ok pa' \<and>
      live_pids pa' = insert p (live_pids pa)) \<and>
    (\<forall>q\<in>live_pids pa. \<exists>pa'. unalloc_pid q pa = Some pa' \<and> pid_ok pa' \<and> live_pids pa' = live_pids pa - {q})"
proof (intro conjI)
  show "if live_pids pa = all_pids pa then alloc_pid pa = Some (- 1, pa)
    else \<exists>p pa'. alloc_pid pa = Some (p, pa') \<and> p \<noteq> - 1 \<and> p \<in> all_pids pa - live_pids pa \<and> pid_ok pa' \<and>
      live_pids pa' = insert p (live_pids pa)"
  proof (cases "live_pids pa = all_pids pa")
    case True
    have bok: "bitmap_ok (pa_bitmap pa)" using assms by (simp add: pid_ok_def)
    show ?thesis using True all_pids_live[OF assms] scan_one_full[OF bok] by (simp add: alloc_pid_def)
  next
    case False
    from pids.take_free[OF assms this] obtain p pa' where p: "take_pid pa = Some (Some p, pa')" "p \<in> all_pids pa - live_pids pa"
      "live_pids pa' = insert p (live_pids pa)" "pid_ok pa'" by blast
    have "alloc_pid pa = Some (p, pa')" "p \<noteq> - 1" using p(1) by (auto simp: take_pid_def split: if_splits)
    then show ?thesis using False p(2-4) by auto
  qed
  show "\<forall>q\<in>live_pids pa. \<exists>pa'. unalloc_pid q pa = Some pa' \<and> pid_ok pa' \<and> live_pids pa' = live_pids pa - {q}"
    using pids.give_live[OF assms] by blast
qed

theorem pids_unique_witness:
  "pid_ok (pid_alloc sample_kernel) \<and> live_pids (pid_alloc sample_kernel) \<noteq> all_pids (pid_alloc sample_kernel) \<and>
   (\<exists>p pa'. alloc_pid (pid_alloc sample_kernel) = Some (p, pa') \<and> p \<notin> live_pids (pid_alloc sample_kernel)) \<and>
   (\<exists>pa'. unalloc_pid 2 (pid_alloc sample_kernel) = Some pa' \<and> live_pids pa' = live_pids (pid_alloc sample_kernel) - {2})"
proof -
  let ?pa = "pid_alloc sample_kernel"
  have ok: "pid_ok ?pa" by (simp add: pid_ok_def bitmap_ok_def nbits_def sample_kernel_def)
  have "7 \<in> {..<nbits (pa_bitmap ?pa)}" "7 \<notin> used_bits (pa_bitmap ?pa)" "2 \<in> used_bits (pa_bitmap ?pa)"
    by (simp_all add: nbits_def used_bits_def bit_at_def sample_kernel_def)
  then have "live_pids ?pa \<noteq> all_pids ?pa" "2 \<in> live_pids ?pa" unfolding all_pids_live[OF ok] by (auto simp: live_pids_def intro: image_eqI[of _ _ 2])
  then show ?thesis using pids_unique[OF ok] ok by auto
qed

section \<open>File descriptors\<close>

lemma first_free_Some: "first_free xs j = Some i \<Longrightarrow> j \<le> i \<and> i < j + length xs \<and> xs ! (i - j) = None \<and> (\<forall>m<i - j. xs ! m \<noteq> None)"
proof (induction xs j rule: first_free.induct)
  case (2 x xs j)
  show ?case
  proof (cases "x = None")
    case False
    then have "first_free xs (j + 1) = Some i" using 2(2) by (simp split: if_splits)
    note ih = 2(1)[OF False this]
    then have "i - j = Suc (i - (j + 1))" by linarith
    then show ?thesis using ih False by (auto simp: nth_Cons split: nat.splits)
  qed (use 2(2) in auto)
qed simp

lemma first_free_None: "first_free xs j = None \<longleftrightarrow> None \<notin> set xs"
  by (induction xs j rule: first_free.induct) auto

text \<open>
  \<open>task_alloc_fd\<close> installs the file at the lowest free descriptor of the running task, where
  \<open>task_file\<close> finds it; the other descriptors keep their files, and it answers -1 exactly when
  the table is full.
\<close>

theorem task_alloc_fd_correct:
  assumes "length (file_table (task k (cur k))) = TASK_FILE_SIZE" "task_alloc_fd f k = (fd, k')"
  shows "if fd < 0 then fd = -1 \<and> k' = k \<and> (\<forall>i. 0 \<le> i \<and> i < int TASK_FILE_SIZE \<longrightarrow> task_file i k \<noteq> None)
    else task_file fd k = None \<and> fd < int TASK_FILE_SIZE \<and> (\<forall>i. 0 \<le> i \<and> i < fd \<longrightarrow> task_file i k \<noteq> None) \<and>
      (\<forall>i. task_file i k' = (if i = fd then Some f else task_file i k)) \<and> (\<forall>t. t \<noteq> cur k \<longrightarrow> task k' t = task k t)"
proof (cases "first_free (file_table (task k (cur k))) 0")
  case None
  then have "fd = -1" "k' = k" using assms(2) by (simp_all add: task_alloc_fd_def)
  moreover have "file_table (task k (cur k)) ! nat i \<noteq> None" if "0 \<le> i" "i < int TASK_FILE_SIZE" for i
    using None that assms(1) unfolding first_free_None by (metis nat_less_iff nth_mem)
  ultimately show ?thesis by (simp add: task_file_def)
next
  case (Some j)
  note s = first_free_Some[OF Some]
  have e: "fd = int j" "k' = upd_task (cur k) (\<lambda>s. s\<lparr>file_table := (file_table s)[j := Some f]\<rparr>) k"
    using assms(2) Some by (simp_all add: task_alloc_fd_def)
  have j: "j < TASK_FILE_SIZE" using s assms(1) by simp
  have "task_file i k' = (if i = fd then Some f else task_file i k)" for i
    using j assms(1) by (auto simp: task_file_def e nth_list_update)
  moreover have "task_file i k \<noteq> None" if "0 \<le> i" "i < fd" for i
  proof -
    have "nat i < j" using that e(1) by simp
    then show ?thesis using s that e(1) j by (simp add: task_file_def)
  qed
  moreover have "task_file fd k = None" using s e(1) j by (simp add: task_file_def)
  ultimately show ?thesis using e j by simp
qed

theorem task_alloc_fd_correct_witness:
  "\<exists>k. length (file_table (task k (cur k))) = TASK_FILE_SIZE \<and> fst (task_alloc_fd 7 k) = 0 \<and> task_file 0 (snd (task_alloc_fd 7 k)) = Some 7"
proof -
  let ?k = "upd_task 4096 (\<lambda>s. s\<lparr>file_table := replicate TASK_FILE_SIZE None\<rparr>) sample_kernel"
  have c: "cur ?k = 4096" by (simp add: sample_kernel_def)
  have e: "fst (task_alloc_fd 7 ?k) = 0" unfolding task_alloc_fd_def c by (simp add: TASK_FILE_SIZE_def eval_nat_numeral)
  have l: "length (file_table (task ?k (cur ?k))) = TASK_FILE_SIZE" using c by simp
  show ?thesis using task_alloc_fd_correct[OF l, of 7 0 "snd (task_alloc_fd 7 ?k)"] e l by (intro exI[of _ ?k]) (simp add: prod_eq_iff)
qed

end
