(* ===== verification/Ip_Addr.thy ===== *)
theory Ip_Addr
  imports Checksum
begin

text \<open>
  IPv4 addresses and the routing table (\<open>kernel/net/ip.c\<close>).  An \<open>ip_addr_t\<close> is its word \<open>q_addr\<close>; the
  union's bytes \<open>a_addr\<close> are the same word in memory order, lowest byte first.
\<close>

section \<open>Addresses\<close>

type_synonym ip_addr_t = u32

definition a_addr :: "ip_addr_t \<Rightarrow> u8 list" where
  "a_addr q = [ucast q, ucast (drop_bit 8 q), ucast (drop_bit 16 q), ucast (drop_bit 24 q)]"

definition q_addr :: "u8 list \<Rightarrow> ip_addr_t" where
  "q_addr bs = (case bs of [a, b, c, d] \<Rightarrow>
       ucast a OR push_bit 8 (ucast b) OR push_bit 16 (ucast c) OR push_bit 24 (ucast d)
     | _ \<Rightarrow> 0)"

definition ip_addr_to_buf :: "ip_addr_t \<Rightarrow> u8 list" where
  "ip_addr_to_buf ip = map (\<lambda>i. a_addr ip ! i) [0..<IPV4_ADDR_SIZE]"

definition ip_addr_from_buf :: "u8 list \<Rightarrow> ip_addr_t option" where
  "ip_addr_from_buf b = (if length b \<ge> IPV4_ADDR_SIZE then Some (q_addr (map (\<lambda>i. b ! i) [0..<IPV4_ADDR_SIZE])) else None)"

text \<open>
  The loop of \<open>ipaddr_from_str\<close>: \<open>p\<close> is the number of bytes stored, \<open>sub_addr\<close> has 8 bits.  A fifth
  number is stored outside \<open>a_addr\<close>.
\<close>

definition store_sub :: "u8 list \<Rightarrow> nat \<Rightarrow> u8 \<Rightarrow> u8 list option" where
  "store_sub dest p sub_addr = upd_opt dest p sub_addr"

definition is_digit :: "char \<Rightarrow> bool" where
  "is_digit c \<longleftrightarrow> of_char (CHR ''0'') \<le> (of_char c :: nat) \<and> (of_char c :: nat) \<le> of_char (CHR ''9'')"

fun from_str_loop :: "string \<Rightarrow> u8 list \<Rightarrow> nat \<Rightarrow> u8 \<Rightarrow> (net_err_t \<times> u8 list) option" where
  "from_str_loop [] dest p sub_addr = do {
     d \<leftarrow> store_sub dest p sub_addr;
     Some (NET_ERR_OK, d)
   }"
| "from_str_loop (c # str) dest p sub_addr =
     (if is_digit c
      then from_str_loop str dest p (sub_addr * 10 + of_nat (of_char c) - of_nat (of_char (CHR ''0'')))
      else if c = CHR ''.'' then do {
        d \<leftarrow> store_sub dest p sub_addr;
        from_str_loop str d (p + 1) 0
      }
      else Some (NET_ERR_PARAM, dest))"

definition ipaddr_from_str :: "string option \<Rightarrow> (net_err_t \<times> ip_addr_t) option" where
  "ipaddr_from_str str = (case str of None \<Rightarrow> Some (NET_ERR_PARAM, 0)
     | Some s \<Rightarrow> map_option (\<lambda>(e, d). (e, q_addr d)) (from_str_loop s (a_addr 0) 0 0))"

definition ipaddr_get_any :: ip_addr_t where "ipaddr_get_any = 0"

definition IPV4_ADDR_BROADCAST :: ip_addr_t where "IPV4_ADDR_BROADCAST = 0xffffffff"

definition ipaddr_get_host :: "ip_addr_t \<Rightarrow> ip_addr_t \<Rightarrow> u32" where
  "ipaddr_get_host ipaddr netmask = ipaddr AND NOT netmask"

definition ipaddr_get_net :: "ip_addr_t \<Rightarrow> ip_addr_t \<Rightarrow> u32" where
  "ipaddr_get_net ipaddr netmask = ipaddr AND netmask"

definition ipaddr_is_direct_broadcast :: "ip_addr_t \<Rightarrow> ip_addr_t \<Rightarrow> bool" where
  "ipaddr_is_direct_broadcast ipaddr netmask \<longleftrightarrow>
     ipaddr_get_host ipaddr netmask = (IPV4_ADDR_BROADCAST AND NOT netmask)"

definition ipaddr_is_match :: "ip_addr_t \<Rightarrow> ip_addr_t \<Rightarrow> ip_addr_t \<Rightarrow> bool" where
  "ipaddr_is_match dest src netmask =
     (if dest = IPV4_ADDR_BROADCAST then True
      else if ipaddr_is_direct_broadcast dest netmask \<and> ipaddr_get_net dest netmask = ipaddr_get_net src netmask then True
      else dest = src)"

section \<open>Routes\<close>

datatype rt_type = NET_RT_LOCAL_NET | NET_RT_NETIF | NET_RT_OTHER

record ip_route_entry_t =
  re_ip :: ip_addr_t
  re_mask :: ip_addr_t
  re_gateway :: ip_addr_t
  re_next_hop :: ip_addr_t
  re_netif :: nat
  re_type :: rt_type

text \<open>
  \<open>next_hop\<close> is read before it is compared with NULL, so the branch for NULL is never taken.
  \<open>netif_ip\<close> is the address of the interface \<open>netif\<close>.
\<close>

definition route_add :: "ip_addr_t \<Rightarrow> ip_addr_t \<Rightarrow> ip_addr_t \<Rightarrow> ip_addr_t \<Rightarrow> nat \<Rightarrow> ip_addr_t \<Rightarrow>
    ip_route_entry_t list \<Rightarrow> ip_route_entry_t list" where
  "route_add ip netmask gw next_hop netif netif_ip rts =
     rts @ [\<lparr>re_ip = ip, re_mask = netmask, re_gateway = gw, re_next_hop = next_hop, re_netif = netif,
       re_type = (if next_hop = netif_ip then NET_RT_NETIF else NET_RT_OTHER)\<rparr>]"

fun route_loop :: "ip_addr_t \<Rightarrow> ip_route_entry_t option \<Rightarrow> ip_route_entry_t list \<Rightarrow> ip_route_entry_t option" where
  "route_loop ip e [] = e"
| "route_loop ip e (entry # rts) =
     (if ipaddr_get_net ip (re_mask entry) \<noteq> re_ip entry then route_loop ip e rts
      else route_loop ip (if e = None then Some entry else e) rts)"

definition route_find :: "ip_addr_t \<Rightarrow> ip_route_entry_t list \<Rightarrow> ip_route_entry_t option" where
  "route_find ip rts = route_loop ip None rts"

section \<open>Properties of addresses\<close>

lemma ip_bytes_word: "q_addr (a_addr q) = q"
proof (rule bit_word_eqI)
  fix n
  assume n: "n < LENGTH(32)"
  then consider "n < 8" | "8 \<le> n" "n < 16" | "16 \<le> n" "n < 24" | "24 \<le> n" "n < 32" by fastforce
  then show "bit (q_addr (a_addr q)) n = bit q n"
    by cases (auto simp: q_addr_def a_addr_def bit_or_iff bit_push_bit_iff bit_ucast_iff bit_drop_bit_eq)
qed

lemma ip_word_bytes:
  assumes "length bs = 4" shows "a_addr (q_addr bs) = bs"
proof -
  obtain a b c d where bs: "bs = [a, b, c, d]" using assms by (auto simp: numeral_eq_Suc length_Suc_conv)
  have hi: "\<not> bit (x :: u8) (8 + n)" "\<not> bit x (16 + n)" "\<not> bit x (24 + n)" for x n by (auto dest: bit_imp_le_length)
  have "ucast (q_addr bs) = a" "ucast (drop_bit 8 (q_addr bs)) = b" "ucast (drop_bit 16 (q_addr bs)) = c"
    "ucast (drop_bit 24 (q_addr bs)) = d"
    by (auto intro!: bit_word_eqI simp: bs q_addr_def bit_or_iff bit_push_bit_iff bit_ucast_iff bit_drop_bit_eq hi)
  then show ?thesis by (simp add: a_addr_def bs)
qed

lemma to_buf_eq: "ip_addr_to_buf ip = a_addr ip"
  by (simp add: ip_addr_to_buf_def IPV4_ADDR_SIZE_def a_addr_def upt_rec numeral_eq_Suc)

lemma from_buf_eq: "length b = 4 \<Longrightarrow> ip_addr_from_buf b = Some (q_addr b)"
  using map_nth[of b] by (simp add: ip_addr_from_buf_def IPV4_ADDR_SIZE_def)

lemma ip_buf_roundtrip [simp]: "ip_addr_from_buf (ip_addr_to_buf ip) = Some ip"
  unfolding to_buf_eq using from_buf_eq[of "a_addr ip"] ip_bytes_word[of ip] by (simp add: a_addr_def)

text \<open>The usual notation of an address.\<close>

definition digit :: "nat \<Rightarrow> char" where "digit n = char_of (n + 48)"

definition decimal :: "u8 \<Rightarrow> string" where
  "decimal b = (let n = unat b
     in if n < 10 then [digit n] else if n < 100 then [digit (n div 10), digit (n mod 10)]
        else [digit (n div 100), digit (n div 10 mod 10), digit (n mod 10)])"

definition dotted :: "u8 list \<Rightarrow> string" where
  "dotted bs = decimal (bs ! 0) @ ''.'' @ decimal (bs ! 1) @ ''.'' @ decimal (bs ! 2) @ ''.'' @ decimal (bs ! 3)"


lemma of_char_digit: "n < 10 \<Longrightarrow> (of_char (digit n) :: nat) = n + 48"
  by (simp add: digit_def of_char_of)

lemma step_digit:
  assumes "n < 10"
  shows "from_str_loop (digit n # str) dest p s = from_str_loop str dest p (s * 10 + of_nat n)"
  using of_char_digit[OF assms] assms by (simp add: is_digit_def)

lemma step_dot: "p < length dest \<Longrightarrow> from_str_loop (CHR ''.'' # str) dest p s = from_str_loop str (dest[p := s]) (p + 1) 0"
  by (simp add: is_digit_def store_sub_def)

lemma step_decimal: "from_str_loop (decimal b @ str) dest p 0 = from_str_loop str dest p b"
proof -
  let ?n = "unat b"
  have n: "?n < 256" using unsigned_less[of b, where ?'a = nat] by simp
  have b: "b = of_nat ?n" by simp
  consider "?n < 10" | "10 \<le> ?n" "?n < 100" | "100 \<le> ?n" by linarith
  then show ?thesis
  proof cases
    case 1
    then show ?thesis by (simp add: decimal_def Let_def step_digit del: from_str_loop.simps(2))
  next
    case 2
    have "of_nat (?n div 10) * 10 + of_nat (?n mod 10) = (of_nat (?n div 10 * 10 + ?n mod 10) :: u8)"
      by (simp only: of_nat_add of_nat_mult of_nat_numeral)
    also have "\<dots> = b" by (simp only: div_mult_mod_eq of_nat_unat ucast_id)
    finally show ?thesis using 2 by (simp add: decimal_def Let_def step_digit del: from_str_loop.simps(2))
  next
    case 3
    have d: "?n div 100 < 10" using n by (simp add: less_mult_imp_div_less)
    have "?n div 100 = ?n div 10 div 10" using div_mult2_eq[of ?n 10 10] by simp
    then have e: "?n = (?n div 100 * 10 + ?n div 10 mod 10) * 10 + ?n mod 10" by (simp only: div_mult_mod_eq)
    have "(of_nat (?n div 100) * 10 + of_nat (?n div 10 mod 10)) * 10 + of_nat (?n mod 10) =
        (of_nat ((?n div 100 * 10 + ?n div 10 mod 10) * 10 + ?n mod 10) :: u8)"
      by (simp only: of_nat_add of_nat_mult of_nat_numeral)
    also have "\<dots> = b" by (simp only: e[symmetric] of_nat_unat ucast_id)
    finally have f: "100 * of_nat (?n div 100) + of_nat (?n div 10 mod 10) * 10 + of_nat (?n mod 10) = b"
      by (simp add: algebra_simps)
    show ?thesis using 3 d by (simp add: decimal_def Let_def step_digit f del: from_str_loop.simps(2))
  qed
qed

text \<open>
  C40: \<open>ipaddr_from_str\<close> reads back every address in its usual notation: four decimal numbers with
  dots between them.
\<close>

theorem ipaddr_from_str_dotted: "ipaddr_from_str (Some (dotted (a_addr ip))) = Some (NET_ERR_OK, ip)"
proof -
  obtain a b c d where bs: "a_addr ip = [a, b, c, d]" by (simp add: a_addr_def)
  have "a_addr 0 = [0, 0, 0, 0]" by (simp add: a_addr_def)
  then have "from_str_loop (dotted [a, b, c, d]) (a_addr 0) 0 0 = Some (NET_ERR_OK, [a, b, c, d])"
    using step_decimal[of d "[]"] by (simp add: dotted_def step_decimal step_dot store_sub_def del: from_str_loop.simps(2))
  then show ?thesis using ip_bytes_word[of ip] by (simp add: ipaddr_from_str_def bs)
qed

section \<open>Properties of routes\<close>

lemma route_loop_Some: "route_loop ip (Some e) rts = Some e"
  by (induction rts) auto

text \<open>
  \<open>route_find\<close> gives the first entry of the table whose network the address is in; the order
  is the one in which the routes were added, whatever their masks.
\<close>

theorem route_find_first: "route_find ip rts = find (\<lambda>e. ip AND re_mask e = re_ip e) rts"
  unfolding route_find_def by (induction rts) (auto simp: ipaddr_get_net_def route_loop_Some)

end
