(* ===== verification/Netif.thy ===== *)
theory Netif
  imports Ip_Addr Fixq
begin

text \<open>
  The state of the network stack, the network interfaces (\<open>kernel/net/netif.c\<close>), the transmit side
  of the network card driver (\<open>driver/rtl8139.c\<close>) and the sending of Ethernet frames
  (\<open>ether_raw_out\<close>).  Interfaces, ARP entries, fragment queues and messages are the elements of
  static arrays and are known by their index; a packet is in at most one list or queue.

  The stack runs in one thread; \<open>fixq_send\<close> and \<open>fixq_recv\<close> are here calls with nobody else inside
  the queue, and \<open>None\<close> also stands for a call that waits.
\<close>

section \<open>State\<close>

datatype netif_state = NETIF_CLOSED | NETIF_OPENED | NETIF_ACTIVE
datatype netif_type_t = NETIF_TYPE_NONE | NETIF_TYPE_ETHER | NETIF_TYPE_LOOP | NETIF_TYPE_SIZE

record netif_t =
  mac :: "u8 list"
  ip_addr :: ip_addr_t
  net_mask :: ip_addr_t
  gateway :: ip_addr_t
  nif_state :: netif_state
  nif_type :: netif_type_t
  mtu :: int
  link_layer :: bool
  in_q :: fixq_t
  out_q :: fixq_t

text \<open>The state of an entry that has only been cleared is 0, which is none of the three.\<close>

datatype arp_state = ARP_ZERO | NET_ARP_FREE | NET_ARP_RESOLVED | NET_ARP_WAITING

record arp_entry_t =
  paddr :: "u8 list"
  haddr :: "u8 list"
  ae_state :: arp_state
  ae_tmo :: int
  rety :: int
  ae_netif :: nat
  ae_buf_list :: "pid list"

record ipv4_frag_t =
  fr_ip :: ip_addr_t
  fr_id :: u16
  fr_tmo :: int
  fr_buf_list :: "pid list"

datatype exmsg_t = NET_EXMSG_NETIF_IN nat | NET_EXMSG_FUN nat

text \<open>
  The transmit ring of the card.  \<open>tx_own\<close> stands for the four TSD registers: the length of a frame that the card was told to
  send and has not sent yet, \<open>None\<close> when the descriptor is idle.  \<open>tx_hw\<close> is the descriptor the card sends next, and \<open>wire\<close> are the frames it
  has sent.
\<close>

record rtl8139_tx =
  tx_data :: "u8 list list"
  tx_curr :: nat
  tx_dirty :: nat
  tx_free :: int
  tx_own :: "nat option list"
  tx_hw :: nat
  wire :: "u8 list list"

text \<open>
  Sockets: \<open>raw_t\<close> and \<open>udp_t\<close> have the same fields and live in tables of their own; \<open>recv_wait\<close> is
  part of them, and the other two wait structures are never set.
\<close>

record sock_wait_t =
  sw_err :: net_err_t
  waiting :: int
  sw_sem :: segment_t

record sock_t =
  local_ip :: ip_addr_t
  local_port :: u16
  remote_ip :: ip_addr_t
  remote_port :: u16
  sk_family :: int
  sk_protocol :: int
  sk_err :: net_err_t
  recv_tmo :: int
  send_tmo :: int
  recv_list :: "pid list"
  recv_wait :: sock_wait_t

datatype sock_ref = Raw nat | Udp nat
datatype socket_state = SOCKET_STATE_FREE | SOCKET_STATE_USED

record socket_t =
  so_state :: socket_state
  so_sock :: "sock_ref option"

text \<open>\<open>low_mem\<close> is what memory holds at address 0.\<close>

record net =
  pk :: pkt_state
  netif :: "nat \<Rightarrow> netif_t"
  netif_list :: "nat list"
  netif_default :: "nat option"
  link_layers :: "netif_type_t \<Rightarrow> bool"
  rt_list :: "ip_route_entry_t list"
  msg_of :: "nat \<Rightarrow> exmsg_t"
  free_msgs :: "nat list"
  msg_queue :: fixq_t
  arp :: "nat \<Rightarrow> arp_entry_t"
  cache_list :: "nat list"
  free_entries :: "nat list"
  frag :: "nat \<Rightarrow> ipv4_frag_t"
  frag_list :: "nat list"
  free_frags :: "nat list"
  packet_id :: u16
  sock_of :: "sock_ref \<Rightarrow> sock_t"
  raw_list :: "nat list"
  free_raws :: "nat list"
  udp_list :: "nat list"
  free_udps :: "nat list"
  socket_tbl :: "socket_t list"
  tx :: rtl8139_tx
  low_mem :: "u8 list"

definition is_err :: "net_err_t \<Rightarrow> bool" where
  "is_err e \<longleftrightarrow> e \<noteq> NET_ERR_OK \<and> e \<noteq> NET_ERR_NEED_WAIT"

definition on_pk :: "(pkt_state \<Rightarrow> ('a \<times> pkt_state) option) \<Rightarrow> net \<Rightarrow> ('a \<times> net) option" where
  "on_pk f n = map_option (\<lambda>(a, st). (a, n\<lparr>pk := st\<rparr>)) (f (pk n))"

definition upd_netif :: "nat \<Rightarrow> (netif_t \<Rightarrow> netif_t) \<Rightarrow> net \<Rightarrow> net" where
  "upd_netif i f n = n\<lparr>netif := (netif n)(i := f (netif n i))\<rparr>"

text \<open>Fields of a header at \<open>pktbuf_data\<close>: offsets from the data pointer of the first block.\<close>

definition data_get :: "pid \<Rightarrow> nat \<Rightarrow> nat \<Rightarrow> pkt_state \<Rightarrow> u8 list option" where
  "data_get p off len st = do {
     b \<leftarrow> pktbuf_first_blk (buf st p);
     copy_out (blk_data (blk st b) + off) len (payload (blk st b))
   }"

definition data_put :: "pid \<Rightarrow> nat \<Rightarrow> u8 list \<Rightarrow> pkt_state \<Rightarrow> pkt_state option" where
  "data_put p off bytes st = do {
     b \<leftarrow> pktbuf_first_blk (buf st p);
     pl \<leftarrow> copy_in (blk_data (blk st b) + off) bytes (payload (blk st b));
     Some (upd_blk b (\<lambda>k. k\<lparr>payload := pl\<rparr>) st)
   }"

definition of_le16 :: "u8 list \<Rightarrow> u16" where
  "of_le16 bs = ucast (bs ! 0) OR push_bit 8 (ucast (bs ! 1))"

definition data_get16 :: "pid \<Rightarrow> nat \<Rightarrow> pkt_state \<Rightarrow> u16 option" where
  "data_get16 p off st = map_option of_le16 (data_get p off 2 st)"

section \<open>Queues\<close>

definition fixq_send :: "nat \<Rightarrow> int \<Rightarrow> fixq_t \<Rightarrow> (net_err_t \<times> fixq_t) option" where
  "fixq_send msg tmo q =
     (if fq_cnt q \<ge> fq_size q \<and> tmo < 0 then Some (NET_ERR_FULL, q)
      else if fq_cnt q \<ge> fq_size q then None
      else map_option (Pair NET_ERR_OK) (fixq_store msg q))"

definition fixq_recv :: "int \<Rightarrow> fixq_t \<Rightarrow> (nat option \<times> fixq_t) option" where
  "fixq_recv tmo q =
     (if fq_cnt q = 0 \<and> tmo < 0 then Some (None, q)
      else if fq_cnt q = 0 then None
      else map_option (\<lambda>(m, q'). (Some m, q')) (fixq_fetch q))"

text \<open>A message for the working thread.\<close>

definition exmsg_netif_in :: "nat \<Rightarrow> net \<Rightarrow> (net_err_t \<times> net) option" where
  "exmsg_netif_in i n =
     (case free_msgs n of [] \<Rightarrow> Some (NET_ERR_MEM, n)
      | m # ms \<Rightarrow>
        let n1 = n\<lparr>free_msgs := ms, msg_of := (msg_of n)(m := NET_EXMSG_NETIF_IN i)\<rparr>
        in do {
          (e, q) \<leftarrow> fixq_send m (-1) (msg_queue n1);
          if is_err e then Some (e, n1\<lparr>free_msgs := free_msgs n1 @ [m]\<rparr>)
          else Some (NET_ERR_OK, n1\<lparr>msg_queue := q\<rparr>)
        })"

definition netif_put_in :: "nat \<Rightarrow> pid \<Rightarrow> int \<Rightarrow> net \<Rightarrow> (net_err_t \<times> net) option" where
  "netif_put_in i p tmo n = do {
     (e, q) \<leftarrow> fixq_send p tmo (in_q (netif n i));
     if is_err e then Some (NET_ERR_FULL, n)
     else do {
       let n1 = upd_netif i (\<lambda>nif. nif\<lparr>in_q := q\<rparr>) n;
       (e', n2) \<leftarrow> (if fixq_count q = 1 then exmsg_netif_in i n1 else Some (NET_ERR_OK, n1));
       Some (NET_ERR_OK, n2)
     }
   }"

definition netif_put_out :: "nat \<Rightarrow> pid \<Rightarrow> int \<Rightarrow> net \<Rightarrow> (net_err_t \<times> net) option" where
  "netif_put_out i p tmo n = do {
     (e, q) \<leftarrow> fixq_send p tmo (out_q (netif n i));
     if is_err e then Some (e, n)
     else Some (NET_ERR_OK, upd_netif i (\<lambda>nif. nif\<lparr>out_q := q\<rparr>) n)
   }"

definition netif_get_in :: "nat \<Rightarrow> int \<Rightarrow> net \<Rightarrow> (pid option \<times> net) option" where
  "netif_get_in i tmo n = do {
     (m, q) \<leftarrow> fixq_recv tmo (in_q (netif n i));
     let n1 = upd_netif i (\<lambda>nif. nif\<lparr>in_q := q\<rparr>) n;
     case m of None \<Rightarrow> Some (None, n1)
     | Some p \<Rightarrow> Some (Some p, n1\<lparr>pk := pktbuf_reset_acc p (pk n1)\<rparr>)
   }"

definition netif_get_out :: "nat \<Rightarrow> int \<Rightarrow> net \<Rightarrow> (pid option \<times> net) option" where
  "netif_get_out i tmo n = do {
     (m, q) \<leftarrow> fixq_recv tmo (out_q (netif n i));
     let n1 = upd_netif i (\<lambda>nif. nif\<lparr>out_q := q\<rparr>) n;
     case m of None \<Rightarrow> Some (None, n1)
     | Some p \<Rightarrow> Some (Some p, n1\<lparr>pk := pktbuf_reset_acc p (pk n1)\<rparr>)
   }"

section \<open>The card\<close>

definition R8139DN_TX_DESC_NB :: nat where "R8139DN_TX_DESC_NB = 4"
definition R8139DN_TX_DESC_SIZE :: nat where "R8139DN_TX_DESC_SIZE = 1792"

text \<open>\<open>tx.data[i]\<close> points into one array: a frame of more than 1792 bytes runs into the next descriptor.\<close>

definition rtl8139_setup_tx :: "rtl8139_tx \<Rightarrow> rtl8139_tx" where
  "rtl8139_setup_tx t = t\<lparr>tx_curr := 0, tx_dirty := 0, tx_free := int R8139DN_TX_DESC_NB\<rparr>"

text \<open>
  A frame handed to the card: its bytes go to the memory of the descriptor \<open>curr\<close> and its length to the TSD register.  Whether the card still has
  to send what the descriptor held is not looked at: the test of \<open>free_count\<close> is commented out.
\<close>

definition tx_frame :: "pid \<Rightarrow> net \<Rightarrow> net option" where
  "tx_frame p n = do {
     let len = total_size (buf (pk n) p);
     (e, bytes, st) \<leftarrow> pktbuf_read p len (pk n);
     old \<leftarrow> nth_opt (tx_data (tx n)) (tx_curr (tx n));
     new \<leftarrow> copy_in 0 bytes old;
     let n1 = n\<lparr>pk := pktbuf_free p st, tx := (tx n)\<lparr>tx_data := (tx_data (tx n))[tx_curr (tx n) := new],
       tx_own := (tx_own (tx n))[tx_curr (tx n) := Some len],
       tx_curr := (if tx_curr (tx n) + 1 \<ge> R8139DN_TX_DESC_NB then 0 else tx_curr (tx n) + 1)\<rparr>\<rparr>;
     Some n1
   }"

definition rtl8139_xmit :: "nat \<Rightarrow> net \<Rightarrow> (net_err_t \<times> net) option" where
  "rtl8139_xmit i n = do {
     (m, n1) \<leftarrow> netif_get_out i 0 n;
     p \<leftarrow> m;
     n2 \<leftarrow> tx_frame p n1;
     Some (NET_ERR_OK, n2\<lparr>tx := (tx n2)\<lparr>tx_free := tx_free (tx n2) - 1\<rparr>\<rparr>)
   }"

text \<open>
  The card, at a time of its own: it sends the frame of the next descriptor from memory, as the memory is then, and clears the
  register.  \<open>card_drain\<close> is the card after it has sent all it was told to.
\<close>

definition card_tx :: "rtl8139_tx \<Rightarrow> rtl8139_tx option" where
  "card_tx t = do {
     own \<leftarrow> nth_opt (tx_own t) (tx_hw t);
     len \<leftarrow> own;
     frame \<leftarrow> nth_opt (tx_data t) (tx_hw t);
     Some (t\<lparr>wire := wire t @ [take len frame], tx_own := (tx_own t)[tx_hw t := None], tx_hw := (tx_hw t + 1) mod R8139DN_TX_DESC_NB\<rparr>)
   }"

fun card_run :: "nat \<Rightarrow> rtl8139_tx \<Rightarrow> rtl8139_tx" where
  "card_run 0 t = t"
| "card_run (Suc k) t = (case card_tx t of None \<Rightarrow> t | Some t' \<Rightarrow> card_run k t')"

definition card_drain :: "rtl8139_tx \<Rightarrow> rtl8139_tx" where
  "card_drain t = card_run R8139DN_TX_DESC_NB t"

text \<open>The number of idle descriptors.\<close>

definition tx_idle :: "rtl8139_tx \<Rightarrow> nat" where
  "tx_idle t = length (filter (\<lambda>d. d = None) (tx_own t))"

text \<open>
  The transmit part of the interrupt handler.  \<open>tsd\<close> are the values the card gives for the status
  of the descriptor \<open>dirty\<close>, one per read: whether it has finished.
\<close>

fun tx_done_loop :: "nat \<Rightarrow> bool list \<Rightarrow> net \<Rightarrow> net option" where
  "tx_done_loop i [] n = Some n"
| "tx_done_loop i (fin # tsd) n =
     (if \<not> tx_free (tx n) < 4 then Some n
      else if \<not> fin then Some n
      else do {
        let n1 = n\<lparr>tx := (tx n)\<lparr>tx_free := tx_free (tx n) + 1,
          tx_dirty := (if tx_dirty (tx n) + 1 \<ge> R8139DN_TX_DESC_NB then 0 else tx_dirty (tx n) + 1)\<rparr>\<rparr>;
        (m, n2) \<leftarrow> netif_get_out i (-1) n1;
        case m of None \<Rightarrow> tx_done_loop i tsd n2
        | Some p \<Rightarrow> do {
            n3 \<leftarrow> tx_frame p (n2\<lparr>tx := (tx n2)\<lparr>tx_free := tx_free (tx n2) - 1\<rparr>\<rparr>);
            tx_done_loop i tsd n3
          }
      })"

section \<open>Sending a frame\<close>

definition ETH_HWA_SIZE :: nat where "ETH_HWA_SIZE = 6"
definition ETH_DATA_MIN :: nat where "ETH_DATA_MIN = 46"
definition ETH_MTU :: nat where "ETH_MTU = 1500"
definition ether_hdr_size :: nat where "ether_hdr_size = 14"

text \<open>The padding to the smallest frame; the results of \<open>pktbuf_seek\<close> and \<open>pktbuf_fill\<close> are not looked at.\<close>

definition ether_pad :: "pid \<Rightarrow> pkt_state \<Rightarrow> (net_err_t \<times> pkt_state) option" where
  "ether_pad p st =
     (let sz = total_size (buf st p)
      in if sz < ETH_DATA_MIN
         then do {
           (e, st1) \<leftarrow> pktbuf_resize p ETH_DATA_MIN st;
           if is_err e then Some (e, st1)
           else do {
             (e2, st2) \<leftarrow> pktbuf_seek p (int sz) (pktbuf_reset_acc p st1);
             (e3, st3) \<leftarrow> pktbuf_fill p 0 (ETH_DATA_MIN - sz) st2;
             Some (NET_ERR_OK, st3)
           }
         }
         else Some (NET_ERR_OK, st))"

definition ether_raw_out :: "nat \<Rightarrow> u16 \<Rightarrow> u8 list \<Rightarrow> pid \<Rightarrow> net \<Rightarrow> (net_err_t \<times> net) option" where
  "ether_raw_out i protocol dest p n = do {
     (e, n1) \<leftarrow> on_pk (ether_pad p) n;
     if is_err e then Some (e, n1)
     else do {
       (e2, n2) \<leftarrow> on_pk (pktbuf_add_header p ether_hdr_size True) n1;
       if is_err e2 then Some (NET_ERR_SIZE, n2)
       else do {
         st1 \<leftarrow> data_put p 0 (take ETH_HWA_SIZE dest) (pk n2);
         st2 \<leftarrow> data_put p 6 (take ETH_HWA_SIZE (mac (netif n i))) st1;
         st3 \<leftarrow> data_put p 12 (le_bytes16 (swap_u16 protocol)) st2;
         let n3 = n2\<lparr>pk := st3\<rparr>;
         if take ETH_HWA_SIZE (mac (netif n i)) = take ETH_HWA_SIZE dest then netif_put_in i p (-1) n3
         else do {
           (e4, n4) \<leftarrow> netif_put_out i p (-1) n3;
           if is_err e4 then Some (e4, n4) else rtl8139_xmit i n4
         }
       }
     }
   }"

section \<open>Opening an interface\<close>

definition netif_pool_size :: nat where "netif_pool_size = 5"
definition NETIF_INQ_SIZE :: nat where "NETIF_INQ_SIZE = 50"
definition NETIF_OUTQ_SIZE :: nat where "NETIF_OUTQ_SIZE = 50"

text \<open>The result \<open>None\<close> is the missing return at the end.\<close>

definition netif_register_layer :: "netif_type_t \<Rightarrow> net \<Rightarrow> net_err_t option \<times> net" where
  "netif_register_layer t n =
     (if t = NETIF_TYPE_SIZE then (Some NET_ERR_PARAM, n)
      else if link_layers n t then (Some NET_ERR_EXIST, n)
      else (None, n\<lparr>link_layers := (link_layers n)(t := True)\<rparr>))"

definition netif_get_layer :: "netif_type_t \<Rightarrow> net \<Rightarrow> bool" where
  "netif_get_layer t n = (t \<noteq> NETIF_TYPE_SIZE \<and> link_layers n t)"

fun find_closed :: "(nat \<Rightarrow> netif_t) \<Rightarrow> nat list \<Rightarrow> nat option" where
  "find_closed nifs [] = None"
| "find_closed nifs (i # is) = (if nif_state (nifs i) = NETIF_CLOSED then Some i else find_closed nifs is)"

text \<open>
  \<open>open_ops\<close> is \<open>ops->open\<close>, which fills in the type, the MTU and the hardware address.  With no
  closed interface the pointer is not initialised, and on the path \<open>free_return\<close> nothing is
  returned: both are \<open>None\<close>.
\<close>

definition netif_open :: "(netif_t \<Rightarrow> net_err_t \<times> netif_t) \<Rightarrow> net \<Rightarrow> (nat \<times> net) option" where
  "netif_open open_ops n = do {
     i \<leftarrow> find_closed (netif n) [0..<netif_pool_size];
     let nif = (netif n i)\<lparr>ip_addr := 0, net_mask := 0, gateway := 0, nif_type := NETIF_TYPE_NONE,
       in_q := fixq_init (replicate NETIF_INQ_SIZE 0) NETIF_INQ_SIZE, out_q := fixq_init (replicate NETIF_OUTQ_SIZE 0) NETIF_OUTQ_SIZE\<rparr>;
     let (e, nif1) = open_ops nif;
     if e \<noteq> NET_ERR_OK then None
     else if nif_type nif1 = NETIF_TYPE_NONE then None
     else do {
       let layer = netif_get_layer (nif_type nif1) n;
       if \<not> layer \<and> nif_type nif1 \<noteq> NETIF_TYPE_LOOP then None
       else Some (i, n\<lparr>netif := (netif n)(i := nif1\<lparr>nif_state := NETIF_OPENED, link_layer := layer\<rparr>), netif_list := netif_list n @ [i]\<rparr>)
     }
   }"

definition netif_set_addr :: "nat \<Rightarrow> ip_addr_t option \<Rightarrow> ip_addr_t option \<Rightarrow> ip_addr_t option \<Rightarrow> net \<Rightarrow> net_err_t \<times> net" where
  "netif_set_addr i ip netmask gw n =
     (let v = (\<lambda>x. case x of None \<Rightarrow> ipaddr_get_any | Some a \<Rightarrow> a)
      in (NET_ERR_OK, upd_netif i (\<lambda>nif. nif\<lparr>ip_addr := v ip, net_mask := v netmask, gateway := v gw\<rparr>) n))"

text \<open>\<open>route_remove\<close> does nothing; \<open>desc.gateway\<close> is not set and is \<open>junk\<close>.\<close>

definition netif_set_default :: "ip_addr_t \<Rightarrow> nat \<Rightarrow> net \<Rightarrow> net" where
  "netif_set_default junk i n =
     (let n1 = (if gateway (netif n i) \<noteq> 0
           then n\<lparr>rt_list := route_add ipaddr_get_any ipaddr_get_any junk (gateway (netif n i)) i (ip_addr (netif n i)) (rt_list n)\<rparr>
           else n)
      in n1\<lparr>netif_default := Some i\<rparr>)"

end
