(* ===== verification/Arp.thy ===== *)
theory Arp
  imports Netif
begin

text \<open>
  Address resolution (\<open>kernel/net/arp.c\<close>) and the Ethernet layer above \<open>ether_raw_out\<close>
  (\<open>kernel/net/ether.c\<close>).  The cache is a list of entries, most recently used first, over a pool of 50.
\<close>

section \<open>The cache\<close>

definition ARP_CACHE_MAX :: nat where "ARP_CACHE_MAX = 50"
definition ARP_CACHE_SIZE :: nat where "ARP_CACHE_SIZE = 50"
definition NET_PROTOCOL_ARP :: u16 where "NET_PROTOCOL_ARP = 0x0806"
definition NET_PROTOCOL_IPv4 :: u16 where "NET_PROTOCOL_IPv4 = 0x0800"
definition ARP_HW_ETHER :: u16 where "ARP_HW_ETHER = 1"
definition ARP_REQUEST :: u16 where "ARP_REQUEST = 1"
definition ARP_REPLY :: u16 where "ARP_REPLY = 2"

definition zero_entry :: arp_entry_t where
  "zero_entry = \<lparr>paddr = replicate IPV4_ADDR_SIZE 0, haddr = replicate ETH_HWA_SIZE 0, ae_state = ARP_ZERO, ae_tmo = 0, rety = 0,
     ae_netif = 0, ae_buf_list = []\<rparr>"

definition init_arp :: "net \<Rightarrow> net" where
  "init_arp n = n\<lparr>cache_list := [], arp := (\<lambda>_. zero_entry), free_entries := [0..<ARP_CACHE_SIZE]\<rparr>"

fun cache_loop :: "u8 list \<Rightarrow> (nat \<Rightarrow> arp_entry_t) \<Rightarrow> nat list \<Rightarrow> nat option" where
  "cache_loop ip tbl [] = None"
| "cache_loop ip tbl (e # es) = (if take IPV4_ADDR_SIZE ip = paddr (tbl e) then Some e else cache_loop ip tbl es)"

definition cache_find :: "u8 list \<Rightarrow> net \<Rightarrow> nat option \<times> net" where
  "cache_find ip n =
     (case cache_loop ip (arp n) (cache_list n) of None \<Rightarrow> (None, n)
      | Some e \<Rightarrow> (Some e, n\<lparr>cache_list := e # remove1 e (cache_list n)\<rparr>))"

fun free_bufs_list :: "pid list \<Rightarrow> pkt_state \<Rightarrow> pkt_state" where
  "free_bufs_list [] st = st"
| "free_bufs_list (p # ps) st = free_bufs_list ps (pktbuf_free p st)"

definition cache_clear_all :: "nat \<Rightarrow> net \<Rightarrow> net" where
  "cache_clear_all e n =
     n\<lparr>pk := free_bufs_list (ae_buf_list (arp n e)) (pk n), arp := (arp n)(e := (arp n e)\<lparr>ae_buf_list := []\<rparr>)\<rparr>"

definition cache_alloc :: "bool \<Rightarrow> net \<Rightarrow> nat option \<times> net" where
  "cache_alloc force n =
     (let (entry, n1) =
        (case free_entries n of e # es \<Rightarrow> (Some e, n\<lparr>free_entries := es\<rparr>)
         | [] \<Rightarrow> if force \<and> cache_list n \<noteq> []
                then let e = last (cache_list n) in (Some e, cache_clear_all e (n\<lparr>cache_list := butlast (cache_list n)\<rparr>))
                else (None, n))
      in (entry, case entry of None \<Rightarrow> n1 | Some e \<Rightarrow> n1\<lparr>arp := (arp n1)(e := zero_entry)\<rparr>))"

text \<open>\<open>hw_addr\<close> NULL (\<open>None\<close>) copies what is at address 0.\<close>

definition cache_entry_set :: "nat \<Rightarrow> u8 list option \<Rightarrow> u8 list \<Rightarrow> nat \<Rightarrow> arp_state \<Rightarrow> net \<Rightarrow> net" where
  "cache_entry_set e hw_addr ip i st n =
     n\<lparr>arp := (arp n)(e := (arp n e)\<lparr>haddr := take ETH_HWA_SIZE (case hw_addr of Some h \<Rightarrow> h | None \<Rightarrow> low_mem n),
        paddr := take IPV4_ADDR_SIZE ip, ae_state := st, ae_netif := i,
        ae_tmo := (if st = NET_ARP_RESOLVED then 20 * 60 else 3), rety := 5\<rparr>)\<rparr>"

text \<open>The packets that waited for the address; on an error the rest stays in the list.\<close>

fun cache_send_loop :: "nat \<Rightarrow> pid list \<Rightarrow> net \<Rightarrow> (net_err_t \<times> net) option" where
  "cache_send_loop e [] n = Some (NET_ERR_OK, n)"
| "cache_send_loop e (p # ps) n = do {
     (err, n1) \<leftarrow> ether_raw_out (ae_netif (arp n e)) NET_PROTOCOL_IPv4 (haddr (arp n e)) p
       (n\<lparr>arp := (arp n)(e := (arp n e)\<lparr>ae_buf_list := ps\<rparr>)\<rparr>);
     if is_err err then Some (err, n1\<lparr>pk := pktbuf_free p (pk n1)\<rparr>)
     else cache_send_loop e ps n1
   }"

definition cache_send_all :: "nat \<Rightarrow> net \<Rightarrow> (net_err_t \<times> net) option" where
  "cache_send_all e n = cache_send_loop e (ae_buf_list (arp n e)) n"

definition cache_insert :: "nat \<Rightarrow> u8 list \<Rightarrow> u8 list \<Rightarrow> bool \<Rightarrow> net \<Rightarrow> (net_err_t \<times> net) option" where
  "cache_insert i ip hw_addr force n =
     (let (entry, n1) = cache_find ip n
      in case entry of
        None \<Rightarrow>
          let (fresh, n2) = cache_alloc force n1
          in (case fresh of None \<Rightarrow> Some (NET_ERR_NONE, n2)
              | Some e \<Rightarrow>
                let n3 = cache_entry_set e (Some hw_addr) ip i NET_ARP_RESOLVED n2
                in Some (NET_ERR_OK, n3\<lparr>cache_list := e # cache_list n3\<rparr>))
      | Some e \<Rightarrow>
          let n2 = cache_entry_set e (Some hw_addr) ip i NET_ARP_RESOLVED n1;
              n3 = (if cache_list n2 = [] \<or> hd (cache_list n2) \<noteq> e then n2\<lparr>cache_list := e # remove1 e (cache_list n2)\<rparr> else n2)
          in do {
            (err, n4) \<leftarrow> cache_send_all e n3;
            if is_err err then Some (err, n4) else Some (NET_ERR_OK, n4)
          })"

section \<open>Requests and replies\<close>

definition arp_pkt_size :: nat where "arp_pkt_size = 28"

record arp_pkt_t =
  htype :: u16
  ptype :: u16
  hlen :: u8
  plen :: u8
  opcode :: u16
  send_haddr :: "u8 list"
  send_paddr :: "u8 list"
  target_haddr :: "u8 list"
  target_paddr :: "u8 list"

definition arp_bytes :: "arp_pkt_t \<Rightarrow> u8 list" where
  "arp_bytes a = le_bytes16 (htype a) @ le_bytes16 (ptype a) @ [hlen a, plen a] @ le_bytes16 (opcode a) @
     send_haddr a @ send_paddr a @ target_haddr a @ target_paddr a"

definition arp_of_bytes :: "u8 list \<Rightarrow> arp_pkt_t" where
  "arp_of_bytes bs = \<lparr>htype = of_le16 (take 2 bs), ptype = of_le16 (take 2 (drop 2 bs)), hlen = bs ! 4, plen = bs ! 5,
     opcode = of_le16 (take 2 (drop 6 bs)), send_haddr = take 6 (drop 8 bs), send_paddr = take 4 (drop 14 bs),
     target_haddr = take 6 (drop 18 bs), target_paddr = take 4 (drop 24 bs)\<rparr>"

text \<open>The request goes to one fixed hardware address; the broadcast address is commented out.\<close>

definition real_mac :: "u8 list" where "real_mac = [0x16, 0x0d, 0x6a, 0x2b, 0xec, 0x76]"

definition arp_request :: "nat \<Rightarrow> ip_addr_t \<Rightarrow> net \<Rightarrow> arp_pkt_t" where
  "arp_request i pro_addr n = \<lparr>htype = swap_u16 ARP_HW_ETHER, ptype = swap_u16 NET_PROTOCOL_IPv4, hlen = 6, plen = 4,
     opcode = swap_u16 ARP_REQUEST, send_haddr = take 6 (mac (netif n i)), send_paddr = ip_addr_to_buf (ip_addr (netif n i)),
     target_haddr = replicate 6 0, target_paddr = ip_addr_to_buf pro_addr\<rparr>"

definition arp_make_request :: "nat \<Rightarrow> ip_addr_t \<Rightarrow> net \<Rightarrow> (net_err_t \<times> net) option" where
  "arp_make_request i pro_addr n =
     (case pktbuf_alloc arp_pkt_size (pk n) of
        (None, st) \<Rightarrow> Some (NET_ERR_NONE, n\<lparr>pk := st\<rparr>)
      | (Some p, st) \<Rightarrow> do {
          (e, st1) \<leftarrow> pktbuf_set_cont p arp_pkt_size st;
          st2 \<leftarrow> data_put p 0 (arp_bytes (arp_request i pro_addr n)) st1;
          (err, n1) \<leftarrow> ether_raw_out i NET_PROTOCOL_ARP real_mac p (n\<lparr>pk := st2\<rparr>);
          Some (err, if is_err err then n1\<lparr>pk := pktbuf_free p (pk n1)\<rparr> else n1)
        })"

text \<open>The size is compared with the size of a pointer, 4.\<close>

definition arp_pkt_check :: "arp_pkt_t \<Rightarrow> nat \<Rightarrow> net_err_t" where
  "arp_pkt_check a sz =
     (if sz < 4 then NET_ERR_SIZE
      else if swap_u16 (htype a) \<noteq> ARP_HW_ETHER \<or> unat (hlen a) \<noteq> ETH_HWA_SIZE \<or> swap_u16 (ptype a) \<noteq> NET_PROTOCOL_IPv4 \<or>
        unat (plen a) \<noteq> IPV4_ADDR_SIZE then NET_ERR_NOT_SUPPORT
      else if swap_u16 (opcode a) \<noteq> ARP_REQUEST \<and> swap_u16 (opcode a) \<noteq> ARP_REPLY then NET_ERR_NOT_SUPPORT
      else NET_ERR_OK)"

definition arp_reply :: "nat \<Rightarrow> arp_pkt_t \<Rightarrow> net \<Rightarrow> arp_pkt_t" where
  "arp_reply i a n = a\<lparr>opcode := swap_u16 ARP_REPLY, target_haddr := send_haddr a, target_paddr := send_paddr a,
     send_haddr := take 6 (mac (netif n i)), send_paddr := ip_addr_to_buf (ip_addr (netif n i))\<rparr>"

definition arp_make_reply :: "nat \<Rightarrow> pid \<Rightarrow> net \<Rightarrow> (net_err_t \<times> net) option" where
  "arp_make_reply i p n = do {
     bs \<leftarrow> data_get p 0 arp_pkt_size (pk n);
     let a = arp_reply i (arp_of_bytes bs) n;
     st \<leftarrow> data_put p 0 (arp_bytes a) (pk n);
     ether_raw_out i NET_PROTOCOL_ARP (target_haddr a) p (n\<lparr>pk := st\<rparr>)
   }"

definition arp_in :: "nat \<Rightarrow> pid \<Rightarrow> net \<Rightarrow> (net_err_t \<times> net) option" where
  "arp_in i p n = do {
     (e, n1) \<leftarrow> on_pk (pktbuf_set_cont p arp_pkt_size) n;
     if is_err e then Some (e, n1)
     else do {
       bs \<leftarrow> data_get p 0 arp_pkt_size (pk n1);
       let a = arp_of_bytes bs;
       let err = arp_pkt_check a (total_size (buf (pk n1) p));
       if err \<noteq> NET_ERR_OK then Some (err, n1)
       else do {
         target_ip \<leftarrow> ip_addr_from_buf (target_paddr a);
         if target_ip = ip_addr (netif n1 i)
         then do {
           (e2, n2) \<leftarrow> cache_insert i (send_paddr a) (send_haddr a) True n1;
           if swap_u16 (opcode a) = ARP_REQUEST then arp_make_reply i p n2 else Some (err, n2)
         }
         else do {
           (e2, n2) \<leftarrow> cache_insert i (send_paddr a) (send_haddr a) False n1;
           Some (NET_ERR_OK, n2\<lparr>pk := pktbuf_free p (pk n2)\<rparr>)
         }
       }
     }
   }"

definition arp_find :: "ip_addr_t \<Rightarrow> net \<Rightarrow> u8 list option \<times> net" where
  "arp_find ip n = (let (entry, n1) = cache_find (a_addr ip) n in (map_option (\<lambda>e. haddr (arp n1 e)) entry, n1))"

definition arp_resolve :: "nat \<Rightarrow> ip_addr_t \<Rightarrow> pid \<Rightarrow> net \<Rightarrow> (net_err_t \<times> net) option" where
  "arp_resolve i addr p n =
     (let (entry, n1) = cache_find (a_addr addr) n
      in case entry of
        Some e \<Rightarrow>
          if ae_state (arp n1 e) = NET_ARP_RESOLVED then ether_raw_out i NET_PROTOCOL_IPv4 (haddr (arp n1 e)) p n1
          else if length (ae_buf_list (arp n1 e)) > ARP_CACHE_MAX then Some (NET_ERR_FULL, n1)
          else Some (NET_ERR_OK, n1\<lparr>arp := (arp n1)(e := (arp n1 e)\<lparr>ae_buf_list := p # ae_buf_list (arp n1 e)\<rparr>)\<rparr>)
      | None \<Rightarrow>
          let (fresh, n2) = cache_alloc True n1
          in (case fresh of None \<Rightarrow> Some (NET_ERR_MEM, n2)
              | Some e \<Rightarrow>
                let n3 = cache_entry_set e None (a_addr addr) i NET_ARP_WAITING n2;
                    n4 = n3\<lparr>arp := (arp n3)(e := (arp n3 e)\<lparr>ae_buf_list := p # ae_buf_list (arp n3 e)\<rparr>), cache_list := cache_list n3 @ [e]\<rparr>
                in arp_make_request i addr n4))"

section \<open>The Ethernet layer\<close>

definition ether_open :: "nat \<Rightarrow> net \<Rightarrow> (net_err_t \<times> net) option" where
  "ether_open i n = arp_make_request i (ip_addr (netif n i)) n"

definition pkt_buf_check :: "nat \<Rightarrow> net_err_t" where
  "pkt_buf_check sz =
     (if sz > ether_hdr_size + ETH_MTU then NET_ERR_SIZE else if sz < ether_hdr_size then NET_ERR_SIZE else NET_ERR_OK)"

text \<open>A packet for the interface's own address is sent to its own hardware address; the result is not looked at.\<close>

definition ether_out :: "nat \<Rightarrow> ip_addr_t \<Rightarrow> pid \<Rightarrow> net \<Rightarrow> (net_err_t \<times> net) option" where
  "ether_out i ip p n =
     (if ip_addr (netif n i) = ip then do {
        (e, n1) \<leftarrow> ether_raw_out i NET_PROTOCOL_IPv4 (mac (netif n i)) p n;
        Some (NET_ERR_OK, n1)
      }
      else let (h_addr, n1) = arp_find ip n
           in case h_addr of None \<Rightarrow> arp_resolve i ip p n1
              | Some h \<Rightarrow> ether_raw_out i NET_PROTOCOL_IPv4 h p n1)"

definition netif_out :: "nat \<Rightarrow> ip_addr_t \<Rightarrow> pid \<Rightarrow> net \<Rightarrow> (net_err_t \<times> net) option" where
  "netif_out i ip p n =
     (if link_layer (netif n i) then do {
        (e, n1) \<leftarrow> ether_out i ip p n;
        Some (if is_err e then e else NET_ERR_OK, n1)
      }
      else do {
        (e, n1) \<leftarrow> netif_put_out i p (-1) n;
        if is_err e then Some (e, n1) else rtl8139_xmit i n1
      })"

text \<open>
  The route to the interface's network is added twice: the second call gets \<open>desc\<close> again, not the
  broadcast address that was stored in \<open>ip\<close>.
\<close>

definition netif_set_active :: "nat \<Rightarrow> net \<Rightarrow> (net_err_t \<times> net) option" where
  "netif_set_active i n =
     (if nif_state (netif n i) \<noteq> NETIF_OPENED then Some (NET_ERR_STATE, n)
      else do {
        (e, n1) \<leftarrow> (if link_layer (netif n i) then ether_open i n else Some (NET_ERR_OK, n));
        if is_err e then Some (e, n1)
        else do {
          let nif = netif n1 i;
          let net_ip = ip_addr nif AND net_mask nif;
          let add = route_add net_ip (net_mask nif) (gateway nif) ipaddr_get_any i (ip_addr nif);
          let n2 = n1\<lparr>rt_list := add (add (rt_list n1))\<rparr>;
          let n3 = (if netif_default n2 = None \<and> nif_type nif \<noteq> NETIF_TYPE_LOOP then n2\<lparr>netif_default := Some i\<rparr> else n2);
          Some (NET_ERR_OK, upd_netif i (\<lambda>nif. nif\<lparr>nif_state := NETIF_ACTIVE\<rparr>) n3)
        }
      })"

end
