(* ===== verification/Ipv4.thy ===== *)
theory Ipv4
  imports Arp
begin

text \<open>
  Sending and reassembling IPv4 datagrams (\<open>kernel/net/ip.c\<close>).  The header of a packet is the record
  \<open>ipv4_hdr_t\<close>; \<open>hdr_bytes\<close> and \<open>hdr_of_bytes\<close> are its layout in memory, where a 16-bit field has its
  low byte first and the bit fields start at the low bits.
\<close>

section \<open>The header\<close>

record ipv4_hdr_t =
  shdr_all :: u16
  total_len :: u16
  ip_id :: u16
  frag_all :: u16
  ttl :: u8
  protocol :: u8
  hdr_checksum :: u16
  src_ip :: "u8 list"
  dest_ip :: "u8 list"

definition ipv4_hdr_len :: nat where "ipv4_hdr_len = 20"

definition hdr_bytes :: "ipv4_hdr_t \<Rightarrow> u8 list" where
  "hdr_bytes h = le_bytes16 (shdr_all h) @ le_bytes16 (total_len h) @ le_bytes16 (ip_id h) @ le_bytes16 (frag_all h) @
     [ttl h, protocol h] @ le_bytes16 (hdr_checksum h) @ src_ip h @ dest_ip h"

definition hdr_of_bytes :: "u8 list \<Rightarrow> ipv4_hdr_t" where
  "hdr_of_bytes bs = \<lparr>shdr_all = of_le16 (take 2 bs), total_len = of_le16 (take 2 (drop 2 bs)), ip_id = of_le16 (take 2 (drop 4 bs)),
     frag_all = of_le16 (take 2 (drop 6 bs)), ttl = bs ! 8, protocol = bs ! 9, hdr_checksum = of_le16 (take 2 (drop 10 bs)),
     src_ip = take 4 (drop 12 bs), dest_ip = take 4 (drop 16 bs)\<rparr>"

definition hdr_get :: "pid \<Rightarrow> pkt_state \<Rightarrow> ipv4_hdr_t option" where
  "hdr_get p st = map_option hdr_of_bytes (data_get p 0 ipv4_hdr_len st)"

definition hdr_put :: "pid \<Rightarrow> ipv4_hdr_t \<Rightarrow> pkt_state \<Rightarrow> pkt_state option" where
  "hdr_put p h st = data_put p 0 (hdr_bytes h) st"

definition hdr_shdr :: "ipv4_hdr_t \<Rightarrow> nat" where "hdr_shdr h = unat (shdr_all h) mod 16"
definition hdr_version :: "ipv4_hdr_t \<Rightarrow> nat" where "hdr_version h = unat (shdr_all h) div 16 mod 16"
definition hdr_offset :: "ipv4_hdr_t \<Rightarrow> nat" where "hdr_offset h = unat (frag_all h) mod 2 ^ 13"
definition hdr_more :: "ipv4_hdr_t \<Rightarrow> bool" where "hdr_more h = bit (frag_all h) 13"

definition ipv4_hdr_size :: "ipv4_hdr_t \<Rightarrow> nat" where
  "ipv4_hdr_size h = hdr_shdr h * 4"

definition NET_IP_DEF_TTL :: u8 where "NET_IP_DEF_TTL = 64"

text \<open>\<open>version\<close> 4 and \<open>shdr\<close> 5 in a cleared \<open>shdr_all\<close>; \<open>frag_all\<close> from its three parts.\<close>

definition mk_hdr :: "nat \<Rightarrow> u16 \<Rightarrow> nat \<Rightarrow> bool \<Rightarrow> u8 \<Rightarrow> ip_addr_t \<Rightarrow> ip_addr_t \<Rightarrow> ipv4_hdr_t" where
  "mk_hdr tlen ident offset mf proto src dest = \<lparr>shdr_all = 0x45, total_len = of_nat tlen, ip_id = ident,
     frag_all = of_nat (offset mod 2 ^ 13) OR (if mf then 0x2000 else 0), ttl = NET_IP_DEF_TTL, protocol = proto, hdr_checksum = 0,
     src_ip = ip_addr_to_buf src, dest_ip = ip_addr_to_buf dest\<rparr>"

definition iphdr_htons :: "ipv4_hdr_t \<Rightarrow> ipv4_hdr_t" where
  "iphdr_htons h = h\<lparr>total_len := swap_u16 (total_len h), ip_id := swap_u16 (ip_id h), frag_all := swap_u16 (frag_all h)\<rparr>"

section \<open>Sending\<close>

text \<open>The source address: the one given, or the interface's when none (\<open>None\<close> or 0) is given.\<close>

definition src_or_netif :: "ip_addr_t option \<Rightarrow> ip_addr_t \<Rightarrow> ip_addr_t" where
  "src_or_netif src nip = (case src of None \<Rightarrow> nip | Some s \<Rightarrow> if s = 0 then nip else s)"

text \<open>
  The header in front of packet \<open>p\<close> in network byte order, then the checksum over it stored in it.
  \<open>ipv4_hdr_size\<close> reads the length from the header just written.
\<close>

definition put_checked_hdr :: "pid \<Rightarrow> ipv4_hdr_t \<Rightarrow> pkt_state \<Rightarrow> pkt_state option" where
  "put_checked_hdr p h st = do {
     st1 \<leftarrow> hdr_put p (iphdr_htons h) st;
     (c, st2) \<leftarrow> pktbuf_checksum16 p (ipv4_hdr_size h) 0 True st1;
     hdr_put p ((iphdr_htons h)\<lparr>hdr_checksum := c\<rparr>) st2
   }"

text \<open>
  The size of the next fragment: \<open>mtu - sizeof(ipv4_hdr_t)\<close> is unsigned, and every fragment but the
  last is cut to a multiple of 8.
\<close>

definition frag_size :: "nat \<Rightarrow> int \<Rightarrow> nat" where
  "frag_size remaining m =
     (let room = nat ((m - int ipv4_hdr_len) mod 2 ^ 32);
          curr = (if remaining > room then room else remaining)
      in if curr < remaining then curr - curr mod 8 else curr)"

partial_function (option) frag_out_loop :: "u8 \<Rightarrow> ip_addr_t \<Rightarrow> ip_addr_t option \<Rightarrow> pid \<Rightarrow> ip_addr_t \<Rightarrow> nat \<Rightarrow> nat \<Rightarrow> nat \<Rightarrow> net \<Rightarrow>
    (net_err_t \<times> net) option" where
  "frag_out_loop proto dest src p next_hop i remaining offset n =
     (if remaining = 0 then Some (NET_ERR_OK, n)
      else let curr = frag_size remaining (mtu (netif n i))
      in case pktbuf_alloc (curr + ipv4_hdr_len) (pk n) of
           (None, st) \<Rightarrow> Some (NET_ERR_MEM, n\<lparr>pk := st\<rparr>)
         | (Some d, st) \<Rightarrow>
           let h = mk_hdr (total_size (buf st d)) (packet_id n) (offset div 8) (remaining > curr) proto
                     (src_or_netif src (ip_addr (netif n i))) dest
           in Option.bind (hdr_put d h st) (\<lambda>st1.
              Option.bind (pktbuf_seek d (int ipv4_hdr_len) st1) (\<lambda>(_, st2).
              Option.bind (pktbuf_copy d p curr st2) (\<lambda>(e, st3).
              if is_err e then Some (e, n\<lparr>pk := pktbuf_free d st3\<rparr>)
              else Option.bind (pktbuf_remove_header p curr st3) (\<lambda>(_, st4).
                Option.bind (pktbuf_seek d 0 (pktbuf_reset_acc p st4)) (\<lambda>(_, st5).
                Option.bind (put_checked_hdr d h st5) (\<lambda>st6.
                Option.bind (netif_out i next_hop d (n\<lparr>pk := st6\<rparr>)) (\<lambda>(e2, n1).
                if is_err e2 then Some (e2, n1\<lparr>pk := pktbuf_free d (pk n1)\<rparr>)
                else frag_out_loop proto dest src p next_hop i (remaining - curr) (offset + curr) n1))))))))"

definition ipv4_frag_out :: "u8 \<Rightarrow> ip_addr_t \<Rightarrow> ip_addr_t option \<Rightarrow> pid \<Rightarrow> ip_addr_t \<Rightarrow> nat \<Rightarrow> net \<Rightarrow> (net_err_t \<times> net) option" where
  "ipv4_frag_out proto dest src p next_hop i n = do {
     let n0 = n\<lparr>pk := pktbuf_reset_acc p (pk n)\<rparr>;
     (e, n1) \<leftarrow> frag_out_loop proto dest src p next_hop i (total_size (buf (pk n0) p)) 0 n0;
     if is_err e then Some (e, n1)
     else Some (NET_ERR_OK, n1\<lparr>packet_id := packet_id n1 + 1, pk := pktbuf_free p (pk n1)\<rparr>)
   }"

definition ipv4_out :: "u8 \<Rightarrow> ip_addr_t \<Rightarrow> ip_addr_t option \<Rightarrow> pid \<Rightarrow> net \<Rightarrow> (net_err_t \<times> net) option" where
  "ipv4_out proto dest src p n =
     (case route_find dest (rt_list n) of None \<Rightarrow> Some (NET_ERR_UNREACH, n)
      | Some rt \<Rightarrow>
        let next_hop = (if re_next_hop rt = 0 then dest else re_next_hop rt); i = re_netif rt; m = mtu (netif n i)
        in if m \<noteq> 0 \<and> int (total_size (buf (pk n) p) + ipv4_hdr_len) > m mod 2 ^ 32
           then do {
             (e, n1) \<leftarrow> ipv4_frag_out proto dest src p next_hop i n;
             Some (if is_err e then e else NET_ERR_OK, n1)
           }
           else do {
             (e, n1) \<leftarrow> on_pk (pktbuf_add_header p ipv4_hdr_len True) n;
             if is_err e then Some (e, n1)
             else do {
               let h = mk_hdr (total_size (buf (pk n1) p)) (packet_id n1) 0 False proto (src_or_netif src (ip_addr (netif n1 i))) dest;
               st \<leftarrow> put_checked_hdr p h (pktbuf_reset_acc p (pk n1));
               netif_out i next_hop p (n1\<lparr>pk := st, packet_id := packet_id n1 + 1\<rparr>)
             }
           })"

section \<open>Reassembly\<close>

definition IP_FRAGS_MAX_NR :: nat where "IP_FRAGS_MAX_NR = 10"
definition IP_FRAG_TMO :: int where "IP_FRAG_TMO = 5"

definition init_ip :: "net \<Rightarrow> net" where
  "init_ip n = n\<lparr>rt_list := [], frag_list := [], free_frags := [0..<IP_FRAGS_MAX_NR]\<rparr>"

text \<open>The identification of the datagram is not compared.\<close>

fun frag_find_loop :: "ip_addr_t \<Rightarrow> (nat \<Rightarrow> ipv4_frag_t) \<Rightarrow> nat list \<Rightarrow> nat option" where
  "frag_find_loop ip fr [] = None"
| "frag_find_loop ip fr (f # fs) = (if ip = fr_ip (fr f) then Some f else frag_find_loop ip fr fs)"

definition frag_find :: "ip_addr_t \<Rightarrow> u16 \<Rightarrow> net \<Rightarrow> nat option \<times> net" where
  "frag_find ip ident n =
     (case frag_find_loop ip (frag n) (frag_list n) of None \<Rightarrow> (None, n)
      | Some f \<Rightarrow> (Some f, n\<lparr>frag_list := f # remove1 f (frag_list n)\<rparr>))"

definition frag_free_buf_list :: "nat \<Rightarrow> net \<Rightarrow> net" where
  "frag_free_buf_list f n =
     n\<lparr>pk := free_bufs_list (fr_buf_list (frag n f)) (pk n), frag := (frag n)(f := (frag n f)\<lparr>fr_buf_list := []\<rparr>)\<rparr>"

text \<open>
  \<open>frag_alloc\<close> takes a queue from the pool, or the oldest one, and does not return it; the caller
  goes on with a pointer of no defined value.
\<close>

definition frag_alloc :: "net \<Rightarrow> nat option \<times> net" where
  "frag_alloc n =
     (case free_frags n of f # fs \<Rightarrow> (None, n\<lparr>free_frags := fs\<rparr>)
      | [] \<Rightarrow> if frag_list n = [] then (None, n)
              else (None, frag_free_buf_list (last (frag_list n)) (n\<lparr>frag_list := butlast (frag_list n)\<rparr>)))"

definition frag_add :: "nat \<Rightarrow> ip_addr_t \<Rightarrow> u16 \<Rightarrow> net \<Rightarrow> net" where
  "frag_add f ip ident n =
     n\<lparr>frag := (frag n)(f := \<lparr>fr_ip = ip, fr_id = ident, fr_tmo = IP_FRAG_TMO, fr_buf_list = []\<rparr>), frag_list := f # frag_list n\<rparr>"

definition frag_free :: "nat \<Rightarrow> net \<Rightarrow> net" where
  "frag_free f n =
     (let n1 = frag_free_buf_list f n in n1\<lparr>frag_list := remove1 f (frag_list n1), free_frags := free_frags n1 @ [f]\<rparr>)"

definition get_data_size :: "ipv4_hdr_t \<Rightarrow> int" where
  "get_data_size h = uint (total_len h) - int (ipv4_hdr_size h)"

definition get_frag_start :: "ipv4_hdr_t \<Rightarrow> u16" where
  "get_frag_start h = of_nat (hdr_offset h * 8)"

definition get_frag_end :: "ipv4_hdr_t \<Rightarrow> u16" where
  "get_frag_end h = of_int (uint (get_frag_start h) + get_data_size h)"

text \<open>\<open>done\<close> are the packets passed already; the packet is inserted before the first one that starts at its end or later.\<close>

fun frag_insert_loop :: "pid \<Rightarrow> ipv4_hdr_t \<Rightarrow> pid list \<Rightarrow> pid list \<Rightarrow> pkt_state \<Rightarrow> (net_err_t \<times> pid list) option" where
  "frag_insert_loop p h pre [] st = Some (NET_ERR_OK, pre @ [p])"
| "frag_insert_loop p h pre (c # cs) st = do {
     ch \<leftarrow> hdr_get c st;
     if get_frag_start h = get_frag_start ch then Some (NET_ERR_EXIST, pre @ c # cs)
     else if get_frag_end h \<le> get_frag_start ch then Some (NET_ERR_OK, pre @ p # c # cs)
     else frag_insert_loop p h (pre @ [c]) cs st
   }"

definition frag_insert :: "nat \<Rightarrow> pid \<Rightarrow> ipv4_hdr_t \<Rightarrow> net \<Rightarrow> (net_err_t \<times> net) option" where
  "frag_insert f p h n =
     (if length (fr_buf_list (frag n f)) \<ge> IP_FRAGS_MAX_NR then Some (NET_ERR_FULL, frag_free f n)
      else do {
        (e, l) \<leftarrow> frag_insert_loop p h [] (fr_buf_list (frag n f)) (pk n);
        Some (e, n\<lparr>frag := (frag n)(f := (frag n f)\<lparr>fr_buf_list := l\<rparr>)\<rparr>)
      })"

fun arrived_loop :: "pid list \<Rightarrow> int \<Rightarrow> ipv4_hdr_t option \<Rightarrow> pkt_state \<Rightarrow> bool option" where
  "arrived_loop [] offset h st = Some (case h of None \<Rightarrow> False | Some h \<Rightarrow> \<not> hdr_more h)"
| "arrived_loop (p # ps) offset h st = do {
     h' \<leftarrow> hdr_get p st;
     if uint (get_frag_start h') \<noteq> offset then Some False
     else arrived_loop ps (offset + get_data_size h') (Some h') st
   }"

definition frag_all_arrived :: "nat \<Rightarrow> net \<Rightarrow> bool option" where
  "frag_all_arrived f n = arrived_loop (fr_buf_list (frag n f)) 0 None (pk n)"

text \<open>The packets behind the first lose their header and are appended to it.\<close>

fun frag_join_loop :: "pid \<Rightarrow> pid list \<Rightarrow> pkt_state \<Rightarrow> (net_err_t \<times> pid list \<times> pkt_state) option" where
  "frag_join_loop target [] st = Some (NET_ERR_OK, [], st)"
| "frag_join_loop target (c # cs) st = do {
     h \<leftarrow> hdr_get c st;
     (e, st1) \<leftarrow> pktbuf_remove_header c (ipv4_hdr_size h) st;
     if is_err e then Some (e, cs, pktbuf_free c st1)
     else let (e2, st2) = pktbuf_join target c st1
          in if is_err e2 then Some (e2, cs, pktbuf_free c st2) else frag_join_loop target cs st2
   }"

definition frag_join :: "nat \<Rightarrow> net \<Rightarrow> (pid option \<times> net) option" where
  "frag_join f n =
     (case fr_buf_list (frag n f) of [] \<Rightarrow> Some (None, frag_free f n)
      | target # rest \<Rightarrow> do {
          (e, left, st) \<leftarrow> frag_join_loop target rest (pk n);
          let n1 = n\<lparr>pk := st, frag := (frag n)(f := (frag n f)\<lparr>fr_buf_list := left\<rparr>)\<rparr>;
          if is_err e then Some (None, frag_free f (n1\<lparr>pk := pktbuf_free target (pk n1)\<rparr>))
          else Some (Some target, frag_free f n1)
        })"

end
