(* ===== verification/Sock.thy ===== *)
theory Sock
  imports Ipv4
begin

text \<open>
  Sockets: the common part (\<open>kernel/net/sock.c\<close>), raw sockets (\<open>raw.c\<close>) and UDP (\<open>udp.c\<close>).  A socket is
  a reference into one of two tables.  Some functions end without a \<open>return\<close>; what their caller
  tests then is an argument \<open>junk\<close> here.
\<close>

section \<open>Common part\<close>

definition upd_sock :: "sock_ref \<Rightarrow> (sock_t \<Rightarrow> sock_t) \<Rightarrow> net \<Rightarrow> net" where
  "upd_sock s f n = n\<lparr>sock_of := (sock_of n)(s := f (sock_of n s))\<rparr>"

record sock_addr_in_t =
  sin_family :: u8
  sin_port :: u16
  in_addr :: ip_addr_t

definition sock_init :: "sock_ref \<Rightarrow> int \<Rightarrow> int \<Rightarrow> net \<Rightarrow> net" where
  "sock_init s fam proto n =
     upd_sock s (\<lambda>k. k\<lparr>sk_protocol := proto, sk_family := fam, local_ip := 0, local_port := 0, remote_ip := 0, remote_port := 0,
       sk_err := NET_ERR_OK, recv_tmo := 0, send_tmo := 0\<rparr>) n"

definition sock_wait_init :: "sock_wait_t \<Rightarrow> sock_wait_t" where
  "sock_wait_init w = w\<lparr>waiting := 0, sw_sem := init_segment 0\<rparr>"

definition sock_bind :: "sock_ref \<Rightarrow> sock_addr_in_t \<Rightarrow> net \<Rightarrow> net_err_t \<times> net" where
  "sock_bind s a n =
     (let ok = (in_addr a = 0 \<or>
        (case route_find (in_addr a) (rt_list n) of None \<Rightarrow> False
         | Some e \<Rightarrow> ip_addr (netif n (re_netif e)) = in_addr a))
      in if \<not> ok then (NET_ERR_PARAM, n)
         else (NET_ERR_OK, upd_sock s (\<lambda>k. k\<lparr>local_ip := in_addr a, local_port := sin_port a\<rparr>) n))"

definition sock_connect :: "sock_ref \<Rightarrow> sock_addr_in_t \<Rightarrow> net \<Rightarrow> net_err_t \<times> net" where
  "sock_connect s a n = (NET_ERR_OK, upd_sock s (\<lambda>k. k\<lparr>remote_ip := in_addr a, remote_port := sin_port a\<rparr>) n)"

text \<open>
  The store of the woken thread's identifier through the NULL \<open>pid\<close> goes to address 0, which is not part of the state of
  the network: its value is left out here.
\<close>

definition sock_wait_leave :: "sock_wait_t \<Rightarrow> net_err_t \<Rightarrow> sock_wait_t" where
  "sock_wait_leave w err =
     (if waiting w > 0 then w\<lparr>waiting := waiting w - 1, sw_err := err, sw_sem := snd (snd (segment_wakeup id 0 (sw_sem w)))\<rparr> else w)"

definition sock_wait_add :: "sock_wait_t \<Rightarrow> sock_wait_t" where
  "sock_wait_add w = w\<lparr>waiting := waiting w + 1\<rparr>"

text \<open>\<open>sock_wakeup\<close> is only called with \<open>SOCK_WAIT_READ\<close>.\<close>

definition sock_wakeup :: "sock_ref \<Rightarrow> net_err_t \<Rightarrow> net \<Rightarrow> net" where
  "sock_wakeup s err n = upd_sock s (\<lambda>k. k\<lparr>recv_wait := sock_wait_leave (recv_wait k) err, sk_err := err\<rparr>) n"

definition SOCKET_MAX_NR :: nat where "SOCKET_MAX_NR = 100"

definition init_socket :: "net \<Rightarrow> net" where
  "init_socket n = n\<lparr>socket_tbl := replicate SOCKET_MAX_NR \<lparr>so_state = SOCKET_STATE_FREE, so_sock = None\<rparr>\<rparr>"

fun first_socket :: "socket_t list \<Rightarrow> nat \<Rightarrow> nat option" where
  "first_socket [] i = None"
| "first_socket (s # ss) i = (if so_state s = SOCKET_STATE_FREE then Some i else first_socket ss (i + 1))"

definition socket_alloc :: "net \<Rightarrow> nat option \<times> net" where
  "socket_alloc n =
     (case first_socket (socket_tbl n) 0 of None \<Rightarrow> (None, n)
      | Some i \<Rightarrow> (Some i, n\<lparr>socket_tbl := (socket_tbl n)[i := (socket_tbl n ! i)\<lparr>so_state := SOCKET_STATE_USED\<rparr>]\<rparr>))"

definition socket_free :: "nat \<Rightarrow> net \<Rightarrow> net" where
  "socket_free i n = n\<lparr>socket_tbl := (socket_tbl n)[i := \<lparr>so_state = SOCKET_STATE_FREE, so_sock = None\<rparr>]\<rparr>"

definition get_socket :: "int \<Rightarrow> net \<Rightarrow> sock_ref option" where
  "get_socket idx n = (if idx < 0 \<or> idx \<ge> int SOCKET_MAX_NR then None else so_sock (socket_tbl n ! nat idx))"

section \<open>Raw sockets\<close>

definition RAW_MAX_NR :: nat where "RAW_MAX_NR = 10"
definition RAW_MAX_RECV :: nat where "RAW_MAX_RECV = 50"

definition init_raw :: "net \<Rightarrow> net_err_t \<times> net" where
  "init_raw n = (NET_ERR_OK, n\<lparr>free_raws := [0..<RAW_MAX_NR], raw_list := []\<rparr>)"

fun raw_find :: "ip_addr_t \<Rightarrow> ip_addr_t \<Rightarrow> int \<Rightarrow> (sock_ref \<Rightarrow> sock_t) \<Rightarrow> nat list \<Rightarrow> nat option" where
  "raw_find src dest proto socks [] = None"
| "raw_find src dest proto socks (r # rs) =
     (let k = socks (Raw r)
      in if sk_protocol k \<noteq> proto then raw_find src dest proto socks rs
         else if local_ip k \<noteq> 0 \<and> local_ip k \<noteq> dest then raw_find src dest proto socks rs
         else if remote_ip k \<noteq> 0 \<and> remote_ip k \<noteq> src then raw_find src dest proto socks rs
         else Some r)"

definition raw_in :: "pid \<Rightarrow> net \<Rightarrow> (net_err_t \<times> net) option" where
  "raw_in p n = do {
     h \<leftarrow> hdr_get p (pk n);
     src \<leftarrow> ip_addr_from_buf (src_ip h);
     dest \<leftarrow> ip_addr_from_buf (dest_ip h);
     case raw_find src dest (int (unat (protocol h))) (sock_of n) (raw_list n) of
       None \<Rightarrow> Some (NET_ERR_UNREACH, n)
     | Some r \<Rightarrow>
         if length (recv_list (sock_of n (Raw r))) < RAW_MAX_RECV
         then Some (NET_ERR_OK, sock_wakeup (Raw r) NET_ERR_OK (upd_sock (Raw r) (\<lambda>k. k\<lparr>recv_list := recv_list k @ [p]\<rparr>) n))
         else Some (NET_ERR_OK, n\<lparr>pk := pktbuf_free p (pk n)\<rparr>)
   }"

text \<open>
  \<open>data\<close> is the caller's buffer, NULL is \<open>None\<close>; the test after \<open>pktbuf_alloc\<close> looks at it and not at the
  new packet.  The result is the error, the number of bytes sent and the state.
\<close>

definition raw_send_to :: "sock_ref \<Rightarrow> u8 list option \<Rightarrow> nat \<Rightarrow> sock_addr_in_t \<Rightarrow> net \<Rightarrow> (net_err_t \<times> nat option \<times> net) option" where
  "raw_send_to s data len dest n =
     (let k = sock_of n s
      in if remote_ip k \<noteq> 0 \<and> remote_ip k \<noteq> in_addr dest then Some (NET_ERR_CONNECTED, None, n)
         else case pktbuf_alloc len (pk n) of (np, st) \<Rightarrow>
           (case data of None \<Rightarrow> Some (NET_ERR_MEM, None, n\<lparr>pk := st\<rparr>)
            | Some d \<Rightarrow> do {
                p \<leftarrow> np;
                (e0, st1) \<leftarrow> pktbuf_write p (Some d) len st;
                (e, n1) \<leftarrow> ipv4_out (of_int (sk_protocol k)) (in_addr dest) (Some (local_ip k)) p (n\<lparr>pk := st1\<rparr>);
                if is_err e then Some (e, None, n1\<lparr>pk := pktbuf_free p (pk n1)\<rparr>)
                else Some (NET_ERR_OK, Some len, n1)
              }))"

text \<open>The error path frees the caller's buffer as if it were a packet: \<open>None\<close>.  The result: error, bytes, source.\<close>

definition raw_receive_from :: "sock_ref \<Rightarrow> nat \<Rightarrow> net \<Rightarrow> (net_err_t \<times> (u8 list \<times> sock_addr_in_t) option \<times> net) option" where
  "raw_receive_from s len n =
     (case recv_list (sock_of n s) of [] \<Rightarrow> Some (NET_ERR_NEED_WAIT, None, n)
      | p # ps \<Rightarrow> do {
          let n1 = upd_sock s (\<lambda>k. k\<lparr>recv_list := ps\<rparr>) n;
          h \<leftarrow> hdr_get p (pk n1);
          let sz = (if total_size (buf (pk n1) p) > len then len else total_size (buf (pk n1) p));
          (e, bytes, st) \<leftarrow> pktbuf_read p sz (pktbuf_reset_acc p (pk n1));
          if is_err e then None
          else Some (NET_ERR_OK, Some (bytes, \<lparr>sin_family = 0, sin_port = 0, in_addr = q_addr (src_ip h)\<rparr>), n1\<lparr>pk := pktbuf_free p st\<rparr>)
        })"

definition raw_close :: "nat \<Rightarrow> net \<Rightarrow> net_err_t \<times> net" where
  "raw_close r n =
     (NET_ERR_OK, upd_sock (Raw r) (\<lambda>k. k\<lparr>recv_list := []\<rparr>) (n\<lparr>raw_list := remove1 r (raw_list n),
       pk := free_bufs_list (recv_list (sock_of n (Raw r))) (pk n), free_raws := free_raws n @ [r]\<rparr>))"

text \<open>\<open>junk\<close>: whether the value that \<open>sock_wait_init\<close> does not return is negative; then the block is lost.\<close>

definition raw_create :: "bool \<Rightarrow> int \<Rightarrow> int \<Rightarrow> net \<Rightarrow> sock_ref option \<times> net" where
  "raw_create junk fam proto n =
     (case free_raws n of [] \<Rightarrow> (None, n)
      | r # rs \<Rightarrow>
        let n1 = upd_sock (Raw r) (\<lambda>k. k\<lparr>recv_list := [], recv_wait := sock_wait_init (recv_wait k)\<rparr>)
                   (sock_init (Raw r) fam proto (n\<lparr>free_raws := rs\<rparr>))
        in if junk then (None, n1) else (Some (Raw r), n1\<lparr>raw_list := raw_list n1 @ [r]\<rparr>))"

section \<open>UDP\<close>

definition UDP_MAX_RECV :: nat where "UDP_MAX_RECV = 50"
definition UDP_MAX_NR :: nat where "UDP_MAX_NR = 10"
definition udp_hdr_size :: nat where "udp_hdr_size = 8"
definition udp_from_size :: nat where "udp_from_size = 28"
definition NET_PROTOCOL_ICMPv4 :: u8 where "NET_PROTOCOL_ICMPv4 = 1"
definition NET_PROTOCOL_UDP :: u8 where "NET_PROTOCOL_UDP = 0x11"

definition init_udp :: "net \<Rightarrow> net_err_t \<times> net" where
  "init_udp n = (NET_ERR_OK, n\<lparr>free_udps := [0..<UDP_MAX_NR], udp_list := []\<rparr>)"

definition udp_close :: "nat \<Rightarrow> net \<Rightarrow> net_err_t \<times> net" where
  "udp_close u n =
     (NET_ERR_OK, upd_sock (Udp u) (\<lambda>k. k\<lparr>recv_list := []\<rparr>) (n\<lparr>udp_list := remove1 u (udp_list n),
       pk := free_bufs_list (recv_list (sock_of n (Udp u))) (pk n), free_udps := free_udps n @ [u]\<rparr>))"

text \<open>The pointer \<open>udp\<close> is read before anything is stored in it: every call that gets past the first test is \<open>None\<close>.\<close>

definition udp_bind :: "sock_ref \<Rightarrow> net \<Rightarrow> (net_err_t \<times> net) option" where
  "udp_bind s n = (if local_ip (sock_of n s) \<noteq> 0 then Some (NET_ERR_BINDED, n) else None)"

fun udp_find :: "ip_addr_t \<Rightarrow> u16 \<Rightarrow> ip_addr_t \<Rightarrow> u16 \<Rightarrow> (sock_ref \<Rightarrow> sock_t) \<Rightarrow> nat list \<Rightarrow> nat option" where
  "udp_find sip sport dip dport socks [] = None"
| "udp_find sip sport dip dport socks (u # us) =
     (let k = socks (Udp u)
      in if local_ip k \<noteq> 0 \<and> local_ip k \<noteq> dip then udp_find sip sport dip dport socks us
         else if dport \<noteq> 0 \<and> local_port k \<noteq> dport then udp_find sip sport dip dport socks us
         else if remote_ip k \<noteq> 0 \<and> remote_ip k \<noteq> sip then udp_find sip sport dip dport socks us
         else if remote_port k \<noteq> 0 \<and> remote_port k \<noteq> sport then udp_find sip sport dip dport socks us
         else Some u)"

text \<open>
  \<open>pktbuf_remove_header\<close> with a negative size, as \<open>udp_in\<close> calls it to make room for a \<open>udp_from_t\<close> that
  is larger than the header: the first block grows to the front.
\<close>

definition grow_front :: "pid \<Rightarrow> nat \<Rightarrow> pkt_state \<Rightarrow> pkt_state option" where
  "grow_front p k st = do {
     b \<leftarrow> pktbuf_first_blk (buf st p);
     if blk_data (blk st b) < k then None
     else Some (upd_buf p (\<lambda>pb. pb\<lparr>total_size := total_size pb + k\<rparr>)
       (upd_blk b (\<lambda>kk. kk\<lparr>blk_data := blk_data kk - k, blk_size := blk_size kk + k\<rparr>) st))
   }"

definition udp_in :: "pid \<Rightarrow> ip_addr_t \<Rightarrow> ip_addr_t \<Rightarrow> net \<Rightarrow> (net_err_t \<times> net) option" where
  "udp_in p src dest n = do {
     ih \<leftarrow> hdr_get p (pk n);
     let iphdr_size = ipv4_hdr_size ih;
     (e, n1) \<leftarrow> on_pk (pktbuf_set_cont p (udp_hdr_size + iphdr_size)) n;
     if is_err e then Some (e, n1)
     else do {
       dp \<leftarrow> data_get16 p (iphdr_size + 2) (pk n1);
       sp \<leftarrow> data_get16 p iphdr_size (pk n1);
       let dport = swap_u16 dp;
       let sport = swap_u16 sp;
       case udp_find src sport dest dport (sock_of n1) (udp_list n1) of
         None \<Rightarrow> Some (NET_ERR_UNREACH, n1)
       | Some u \<Rightarrow> do {
           (e2, n2) \<leftarrow> on_pk (pktbuf_remove_header p iphdr_size) n1;
           cs \<leftarrow> data_get16 p 6 (pk n2);
           (c, st3) \<leftarrow> (if cs \<noteq> 0 then checksum_peso (a_addr dest) (a_addr src) NET_PROTOCOL_UDP p (pktbuf_reset_acc p (pk n2))
                      else Some (0, pk n2));
           let n3 = n2\<lparr>pk := st3\<rparr>;
           if cs \<noteq> 0 \<and> c \<noteq> 0 then Some (NET_ERR_CHECKSUM, n3)
           else do {
             tl \<leftarrow> data_get16 p 4 (pk n3);
             st4 \<leftarrow> data_put p 0 (le_bytes16 sport @ le_bytes16 dport @ le_bytes16 (swap_u16 tl)) (pk n3);
             st5 \<leftarrow> grow_front p (udp_from_size - udp_hdr_size) st4;
             st6 \<leftarrow> data_put p 24 (le_bytes16 sport) st5;
             st7 \<leftarrow> data_put p 4 (a_addr src) st6;
             let n4 = n3\<lparr>pk := st7\<rparr>;
             if length (recv_list (sock_of n4 (Udp u))) < UDP_MAX_RECV
             then Some (NET_ERR_OK, sock_wakeup (Udp u) NET_ERR_OK (upd_sock (Udp u) (\<lambda>k. k\<lparr>recv_list := recv_list k @ [p]\<rparr>) n4))
             else Some (NET_ERR_OK, n4\<lparr>pk := pktbuf_free p (pk n4)\<rparr>)
           }
         }
     }
   }"

definition udp_out :: "ip_addr_t \<Rightarrow> u16 \<Rightarrow> ip_addr_t option \<Rightarrow> u16 \<Rightarrow> pid \<Rightarrow> net \<Rightarrow> (net_err_t \<times> net) option" where
  "udp_out dest dport src sport p n =
     (case (case src of Some s \<Rightarrow> if s = 0 then map_option (\<lambda>e. ip_addr (netif n (re_netif e))) (route_find dest (rt_list n)) else Some s
                      | None \<Rightarrow> map_option (\<lambda>e. ip_addr (netif n (re_netif e))) (route_find dest (rt_list n)))
      of None \<Rightarrow> Some (NET_ERR_UNREACH, n)
      | Some s \<Rightarrow> do {
          (e, n1) \<leftarrow> on_pk (pktbuf_add_header p udp_hdr_size True) n;
          if is_err e then Some (NET_ERR_SIZE, n1)
          else do {
            st1 \<leftarrow> data_put p 0 (le_bytes16 (swap_u16 sport) @ le_bytes16 (swap_u16 dport) @
                     le_bytes16 (swap_u16 (of_nat (total_size (buf (pk n1) p))))) (pk n1);
            (c, st2) \<leftarrow> checksum_peso (a_addr s) (a_addr dest) NET_PROTOCOL_UDP p st1;
            st3 \<leftarrow> data_put p 6 (le_bytes16 c) st2;
            (e2, n2) \<leftarrow> ipv4_out NET_PROTOCOL_UDP dest (Some s) p (n1\<lparr>pk := st3\<rparr>);
            Some (if is_err e2 then e2 else NET_ERR_OK, n2)
          }
        })"

definition is_port_used :: "u16 \<Rightarrow> net \<Rightarrow> bool" where
  "is_port_used port n = (\<exists>u\<in>set (udp_list n). local_port (sock_of n (Udp u)) = port)"

fun first_port :: "nat \<Rightarrow> nat \<Rightarrow> net \<Rightarrow> nat option" where
  "first_port i 0 n = None"
| "first_port i (Suc k) n = (if \<not> is_port_used (of_nat i) n then Some i else first_port (i + 1) k n)"

definition PORT_DYN_START :: nat where "PORT_DYN_START = 1024"
definition PORT_DYN_END :: nat where "PORT_DYN_END = 65535"

definition alloc_port :: "sock_ref \<Rightarrow> net \<Rightarrow> net_err_t \<times> net" where
  "alloc_port s n =
     (case first_port PORT_DYN_START (PORT_DYN_END - PORT_DYN_START) n of None \<Rightarrow> (NET_ERR_NONE, n)
      | Some i \<Rightarrow> (NET_ERR_OK, upd_sock s (\<lambda>k. k\<lparr>local_port := of_nat i\<rparr>) n))"

text \<open>A port is allocated when the socket already has one (\<open>local_port != 0\<close>).\<close>

definition udp_send_to :: "sock_ref \<Rightarrow> u8 list option \<Rightarrow> nat \<Rightarrow> sock_addr_in_t \<Rightarrow> net \<Rightarrow> (net_err_t \<times> nat option \<times> net) option" where
  "udp_send_to s data len dest n =
     (let k = sock_of n s; dport = swap_u16 (sin_port dest)
      in if in_addr dest \<noteq> 0 \<and> (in_addr dest \<noteq> remote_ip k \<or> dport \<noteq> remote_port k) then Some (NET_ERR_CONNECTED, None, n)
         else let (pe, n1) = (if local_port k \<noteq> 0 then let (e, m) = alloc_port s n in (e, upd_sock s (\<lambda>k. k\<lparr>sk_err := e\<rparr>) m) else (NET_ERR_OK, n))
         in if is_err pe then Some (NET_ERR_NONE, None, n1)
         else case pktbuf_alloc len (pk n1) of (np, st) \<Rightarrow>
           (case data of None \<Rightarrow> Some (NET_ERR_MEM, None, n1\<lparr>pk := st\<rparr>)
            | Some d \<Rightarrow> do {
                p \<leftarrow> np;
                (e, st1) \<leftarrow> pktbuf_write p (Some d) len st;
                if is_err e then Some (e, None, n1\<lparr>pk := pktbuf_free p st1\<rparr>)
                else do {
                  (e2, n2) \<leftarrow> udp_out (in_addr dest) dport (Some (local_ip (sock_of n1 s))) (local_port (sock_of n1 s)) p (n1\<lparr>pk := st1\<rparr>);
                  if is_err e2 then Some (e2, None, n2\<lparr>pk := pktbuf_free p (pk n2)\<rparr>)
                  else Some (NET_ERR_OK, Some len, n2)
                }
              }))"

definition udp_receive_from :: "sock_ref \<Rightarrow> nat \<Rightarrow> net \<Rightarrow> (net_err_t \<times> (u8 list \<times> sock_addr_in_t) option \<times> net) option" where
  "udp_receive_from s len n =
     (case recv_list (sock_of n s) of [] \<Rightarrow> Some (NET_ERR_NEED_WAIT, None, n)
      | p # ps \<Rightarrow> do {
          let n1 = upd_sock s (\<lambda>k. k\<lparr>recv_list := ps\<rparr>) n;
          port \<leftarrow> data_get16 p 24 (pk n1);
          a \<leftarrow> data_get p 4 4 (pk n1);
          (e0, st) \<leftarrow> pktbuf_remove_header p udp_from_size (pk n1);
          let sz = (if total_size (buf st p) > len then len else total_size (buf st p));
          (e, bytes, st1) \<leftarrow> pktbuf_read p sz (pktbuf_reset_acc p st);
          let n2 = n1\<lparr>pk := pktbuf_free p st1\<rparr>;
          if is_err e then Some (e, None, n2)
          else Some (NET_ERR_OK, Some (bytes, \<lparr>sin_family = 0, sin_port = swap_u16 port, in_addr = q_addr a\<rparr>), n2)
        })"

definition udp_create :: "bool \<Rightarrow> int \<Rightarrow> int \<Rightarrow> net \<Rightarrow> sock_ref option \<times> net" where
  "udp_create junk fam proto n =
     (case free_udps n of [] \<Rightarrow> (None, n)
      | u # us \<Rightarrow>
        let n1 = upd_sock (Udp u) (\<lambda>k. k\<lparr>recv_list := [], recv_wait := sock_wait_init (recv_wait k)\<rparr>)
                   (sock_init (Udp u) fam proto (n\<lparr>free_udps := us\<rparr>))
        in if junk then (None, n1) else (Some (Udp u), n1\<lparr>udp_list := udp_list n1 @ [u]\<rparr>))"

end
