(* ===== verification/Net_In.thy ===== *)
theory Net_In
  imports Sock
begin

text \<open>
  Receiving: ICMP (\<open>kernel/net/icmp.c\<close>), IPv4 input (\<open>ip.c\<close>), Ethernet input (\<open>ether.c\<close>), the working
  thread (\<open>exmsg.c\<close>) and the socket requests it executes (\<open>sock.c\<close>).  A result \<open>None\<close> inside the pair
  is the value of a function that ends without \<open>return\<close>; a test of such a value has no defined
  outcome and makes the whole call \<open>None\<close>.
\<close>

section \<open>ICMP\<close>

definition ICMP_ECHO_REPLY :: u8 where "ICMP_ECHO_REPLY = 0"
definition ICMP_ECHO_REQUEST :: u8 where "ICMP_ECHO_REQUEST = 8"
definition icmp_hdr_size :: nat where "icmp_hdr_size = 4"

definition icmp_pkt_check :: "nat \<Rightarrow> pid \<Rightarrow> pkt_state \<Rightarrow> (net_err_t \<times> pkt_state) option" where
  "icmp_pkt_check sz p st =
     (if sz \<le> icmp_hdr_size then Some (NET_ERR_SIZE, st)
      else do {
        (c, st1) \<leftarrow> pktbuf_checksum16 p sz 0 True st;
        Some (if c \<noteq> 0 then NET_ERR_CHECKSUM else NET_ERR_OK, st1)
      })"

definition icmp_out :: "ip_addr_t \<Rightarrow> ip_addr_t \<Rightarrow> pid \<Rightarrow> net \<Rightarrow> (net_err_t option \<times> net) option" where
  "icmp_out src dest p n = do {
     (e, st1) \<leftarrow> pktbuf_seek p 0 (pk n);
     (c, st2) \<leftarrow> pktbuf_checksum16 p (total_size (buf st1 p)) 0 True st1;
     st3 \<leftarrow> data_put p 2 (le_bytes16 c) st2;
     (e2, n1) \<leftarrow> ipv4_out NET_PROTOCOL_ICMPv4 dest (Some src) p (n\<lparr>pk := st3\<rparr>);
     Some (None, n1)
   }"

definition icmp_echo_reply :: "ip_addr_t \<Rightarrow> ip_addr_t \<Rightarrow> pid \<Rightarrow> net \<Rightarrow> (net_err_t option \<times> net) option" where
  "icmp_echo_reply src dest p n = do {
     st1 \<leftarrow> data_put p 0 [ICMP_ECHO_REPLY] (pk n);
     st2 \<leftarrow> data_put p 2 (le_bytes16 0) st1;
     icmp_out dest src p (n\<lparr>pk := st2\<rparr>)
   }"

definition icmp_in :: "ip_addr_t \<Rightarrow> ip_addr_t \<Rightarrow> pid \<Rightarrow> net \<Rightarrow> (net_err_t option \<times> net) option" where
  "icmp_in src dest p n = do {
     h \<leftarrow> hdr_get p (pk n);
     let hdr_size = ipv4_hdr_size h;
     (e, n1) \<leftarrow> on_pk (pktbuf_set_cont p (icmp_hdr_size + hdr_size)) n;
     if is_err e then Some (Some e, n1)
     else do {
       (e1, st2) \<leftarrow> pktbuf_seek p (int hdr_size) (pktbuf_reset_acc p (pk n1));
       (e2, st3) \<leftarrow> icmp_pkt_check (total_size (buf st2 p) - hdr_size) p st2;
       let n3 = n1\<lparr>pk := st3\<rparr>;
       if is_err e2 then Some (Some e2, n3)
       else do {
         t \<leftarrow> data_get p hdr_size 1 st3;
         if hd t = ICMP_ECHO_REQUEST
         then do {
           (e4, n4) \<leftarrow> on_pk (pktbuf_remove_header p hdr_size) n3;
           if is_err e4 then Some (Some e4, n4) else icmp_echo_reply src dest p n4
         }
         else do {
           (e5, n5) \<leftarrow> raw_in p n3;
           Some (Some e5, n5)
         }
       }
     }
   }"

section \<open>IPv4\<close>

definition ipv4_normal_in :: "nat \<Rightarrow> ip_addr_t \<Rightarrow> ip_addr_t \<Rightarrow> pid \<Rightarrow> net \<Rightarrow> (net_err_t option \<times> net) option" where
  "ipv4_normal_in i src dest p n = do {
     h \<leftarrow> hdr_get p (pk n);
     if protocol h = NET_PROTOCOL_ICMPv4 then icmp_in src (ip_addr (netif n i)) p n
     else if protocol h = NET_PROTOCOL_UDP then do {
       (e, n1) \<leftarrow> udp_in p src dest n;
       Some (Some e, n1)
     }
     else Some (Some NET_ERR_NOT_SUPPORT, n)
   }"

definition ipv4_frag_in :: "nat \<Rightarrow> ip_addr_t \<Rightarrow> ip_addr_t \<Rightarrow> pid \<Rightarrow> net \<Rightarrow> (net_err_t option \<times> net) option" where
  "ipv4_frag_in i src dest p n = do {
     h \<leftarrow> hdr_get p (pk n);
     let (found, n1) = frag_find src (ip_id h) n;
     (f, n2) \<leftarrow> (case found of Some f \<Rightarrow> Some (f, n1)
       | None \<Rightarrow> let (fresh, m) = frag_alloc n1 in map_option (\<lambda>f. (f, frag_add f src (ip_id h) m)) fresh);
     (e, n3) \<leftarrow> frag_insert f p h n2;
     if is_err e then Some (Some e, n3)
     else do {
       arrived \<leftarrow> frag_all_arrived f n3;
       if \<not> arrived then Some (Some NET_ERR_OK, n3)
       else do {
         (all, n4) \<leftarrow> frag_join f n3;
         case all of None \<Rightarrow> Some (Some NET_ERR_OK, n4)
         | Some a \<Rightarrow> do {
             (r, n5) \<leftarrow> ipv4_normal_in i src dest a n4;
             e5 \<leftarrow> r;
             if is_err e5 then Some (Some e5, n5\<lparr>pk := pktbuf_free a (pk n5)\<rparr>)
             else Some (Some NET_ERR_OK, n5)
           }
       }
     }
   }"

definition ipv4_in :: "nat \<Rightarrow> pid \<Rightarrow> net \<Rightarrow> (net_err_t option \<times> net) option" where
  "ipv4_in i p n = do {
     (e, n1) \<leftarrow> on_pk (pktbuf_set_cont p ipv4_hdr_len) n;
     if is_err e then Some (Some e, n1)
     else do {
       h0 \<leftarrow> hdr_get p (pk n1);
       let h = iphdr_htons h0;
       st2 \<leftarrow> hdr_put p h (pk n1);
       (e2, n2) \<leftarrow> on_pk (pktbuf_resize p (unat (total_len h))) (n1\<lparr>pk := st2\<rparr>);
       if is_err e2 then Some (Some e2, n2)
       else do {
         dest \<leftarrow> ip_addr_from_buf (dest_ip h);
         src \<leftarrow> ip_addr_from_buf (src_ip h);
         if \<not> ipaddr_is_match dest (ip_addr (netif n2 i)) (net_mask (netif n2 i))
         then Some (Some NET_ERR_NOT_MATCH, n2\<lparr>pk := pktbuf_free p (pk n2)\<rparr>)
         else if hdr_more h \<or> hdr_offset h \<noteq> 0 then ipv4_frag_in i src dest p n2
         else ipv4_normal_in i src dest p n2
       }
     }
   }"

section \<open>Ethernet\<close>

text \<open>Learning the sender's address from a datagram; the result is not used.\<close>

definition arp_update_from_ipbuf :: "nat \<Rightarrow> pid \<Rightarrow> net \<Rightarrow> net option" where
  "arp_update_from_ipbuf i p n = do {
     (e, n1) \<leftarrow> on_pk (pktbuf_set_cont p (ipv4_hdr_len + ether_hdr_size)) n;
     if is_err e then Some n1
     else do {
       hb \<leftarrow> data_get p ether_hdr_size ipv4_hdr_len (pk n1);
       esrc \<leftarrow> data_get p 6 ETH_HWA_SIZE (pk n1);
       let h = hdr_of_bytes hb;
       let tsz = unat (swap_u16 (total_len h));
       if hdr_version h \<noteq> 4 then Some n1
       else if tsz < ipv4_hdr_len \<or> total_size (buf (pk n1) p) < tsz then Some n1
       else do {
         dest \<leftarrow> ip_addr_from_buf (dest_ip h);
         if ipaddr_is_match (ip_addr (netif n1 i)) dest (net_mask (netif n1 i))
         then map_option snd (cache_insert i (src_ip h) esrc False n1)
         else Some n1
       }
     }
   }"

definition ether_in :: "nat \<Rightarrow> pid \<Rightarrow> net \<Rightarrow> (net_err_t option \<times> net) option" where
  "ether_in i p n = do {
     (e0, n0) \<leftarrow> on_pk (pktbuf_set_cont p ether_hdr_size) n;
     let err = pkt_buf_check (total_size (buf (pk n0) p));
     if is_err err then Some (Some err, n0)
     else do {
       pr \<leftarrow> data_get16 p 12 (pk n0);
       if swap_u16 pr = NET_PROTOCOL_ARP then do {
         (e, n1) \<leftarrow> on_pk (pktbuf_remove_header p ether_hdr_size) n0;
         if is_err e then Some (Some e, n1)
         else map_option (\<lambda>(e, n). (Some e, n)) (arp_in i p n1)
       }
       else if swap_u16 pr = NET_PROTOCOL_IPv4 then do {
         n1 \<leftarrow> arp_update_from_ipbuf i p n0;
         (e, n2) \<leftarrow> on_pk (pktbuf_remove_header p ether_hdr_size) n1;
         if is_err e then Some (Some NET_ERR_SIZE, n2)
         else do {
           (r, n3) \<leftarrow> ipv4_in i p n2;
           e3 \<leftarrow> r;
           Some (Some (if is_err e3 then e3 else NET_ERR_OK), n3)
         }
       }
       else Some (Some NET_ERR_OK, n0)
     }
   }"

section \<open>The working thread\<close>

partial_function (option) do_netif_in :: "nat \<Rightarrow> net \<Rightarrow> net option" where
  "do_netif_in i n =
     Option.bind (netif_get_in i (-1) n) (\<lambda>(m, n1).
       case m of None \<Rightarrow> Some n1
       | Some p \<Rightarrow>
         Option.bind (if link_layer (netif n1 i) then ether_in i p n1 else ipv4_in i p n1) (\<lambda>(r, n2).
         Option.bind r (\<lambda>e.
           do_netif_in i (if is_err e then n2\<lparr>pk := pktbuf_free p (pk n2)\<rparr> else n2))))"

text \<open>One message; \<open>do_func\<close> runs the request, whose number the message holds.\<close>

definition work_step :: "(nat \<Rightarrow> net \<Rightarrow> net option) \<Rightarrow> net \<Rightarrow> net option" where
  "work_step do_func n = do {
     (m, q) \<leftarrow> fixq_recv 0 (msg_queue n);
     k \<leftarrow> m;
     let n1 = n\<lparr>msg_queue := q\<rparr>;
     n2 \<leftarrow> (case msg_of n1 k of NET_EXMSG_NETIF_IN i \<Rightarrow> do_netif_in i n1 | NET_EXMSG_FUN r \<Rightarrow> do_func r n1);
     Some (n2\<lparr>free_msgs := free_msgs n2 @ [k]\<rparr>)
   }"

section \<open>Socket requests\<close>

text \<open>\<open>sock_tbl\<close> has entries 0 (empty), \<open>SOCK_RAW\<close> 1 and \<open>SOCK_DGRAM\<close> 2; type 0 calls through NULL.\<close>

definition handle_sock_create :: "bool \<Rightarrow> int \<Rightarrow> int \<Rightarrow> int \<Rightarrow> net \<Rightarrow> (net_err_t \<times> nat option \<times> net) option" where
  "handle_sock_create junk fam typ proto n =
     (case socket_alloc n of
        (None, n1) \<Rightarrow> Some (NET_ERR_MEM, None, n1)
      | (Some idx, n1) \<Rightarrow>
        if typ < 0 \<or> typ \<ge> 3 then Some (NET_ERR_PARAM, None, socket_free idx n1)
        else if typ = 0 then None
        else let (s, n2) = (if typ = 1 then raw_create junk fam proto n1
                            else udp_create junk fam (if proto = 0 then 17 else proto) n1)
             in case s of None \<Rightarrow> Some (NET_ERR_MEM, None, socket_free idx n2)
                | Some r \<Rightarrow> Some (NET_ERR_OK, Some idx, n2\<lparr>socket_tbl := (socket_tbl n2)[idx := (socket_tbl n2 ! idx)\<lparr>so_sock := Some r\<rparr>]\<rparr>))"

text \<open>The entry of the socket table keeps its reference and stays used.\<close>

definition handle_sock_close :: "int \<Rightarrow> net \<Rightarrow> net_err_t \<times> net" where
  "handle_sock_close fd n =
     (case get_socket fd n of None \<Rightarrow> (NET_ERR_PARAM, n)
      | Some (Raw r) \<Rightarrow> raw_close r n
      | Some (Udp u) \<Rightarrow> udp_close u n)"

definition handle_sock_bind :: "int \<Rightarrow> sock_addr_in_t \<Rightarrow> net \<Rightarrow> (net_err_t \<times> net) option" where
  "handle_sock_bind fd a n =
     (case get_socket fd n of None \<Rightarrow> Some (NET_ERR_PARAM, n)
      | Some (Raw r) \<Rightarrow> Some (sock_bind (Raw r) a n)
      | Some (Udp u) \<Rightarrow> udp_bind (Udp u) n)"

definition handle_sock_connect :: "int \<Rightarrow> sock_addr_in_t \<Rightarrow> net \<Rightarrow> net_err_t \<times> net" where
  "handle_sock_connect fd a n =
     (case get_socket fd n of None \<Rightarrow> (NET_ERR_PARAM, n) | Some s \<Rightarrow> sock_connect s a n)"

definition sock_send :: "sock_ref \<Rightarrow> u8 list option \<Rightarrow> nat \<Rightarrow> net \<Rightarrow> (net_err_t \<times> nat option \<times> net) option" where
  "sock_send s data len n =
     (if remote_ip (sock_of n s) = 0 then Some (NET_ERR_UNREACH, None, n)
      else let dest = \<lparr>sin_family = of_int (sk_family (sock_of n s)), sin_port = swap_u16 (remote_port (sock_of n s)), in_addr = remote_ip (sock_of n s)\<rparr>
           in case s of Raw r \<Rightarrow> raw_send_to s data len dest n | Udp u \<Rightarrow> udp_send_to s data len dest n)"

definition handle_sock_send :: "int \<Rightarrow> u8 list option \<Rightarrow> nat \<Rightarrow> net \<Rightarrow> (net_err_t \<times> nat option \<times> net) option" where
  "handle_sock_send fd data len n =
     (case get_socket fd n of None \<Rightarrow> Some (NET_ERR_PARAM, None, n)
      | Some s \<Rightarrow> sock_send s data len (upd_sock s (\<lambda>k. k\<lparr>sk_err := NET_ERR_OK\<rparr>) n))"

definition sock_receive :: "sock_ref \<Rightarrow> nat \<Rightarrow> net \<Rightarrow> (net_err_t \<times> (u8 list \<times> sock_addr_in_t) option \<times> net) option" where
  "sock_receive s len n = (case s of Raw r \<Rightarrow> raw_receive_from s len n | Udp u \<Rightarrow> udp_receive_from s len n)"

definition handle_sock_receive :: "int \<Rightarrow> nat \<Rightarrow> net \<Rightarrow> (net_err_t \<times> (u8 list \<times> sock_addr_in_t) option \<times> net) option" where
  "handle_sock_receive fd len n =
     (case get_socket fd n of None \<Rightarrow> Some (NET_ERR_PARAM, None, n)
      | Some s \<Rightarrow> do {
          (e, r, n1) \<leftarrow> sock_receive s len n;
          Some (e, r, if e = NET_ERR_NEED_WAIT then upd_sock s (\<lambda>k. k\<lparr>recv_wait := sock_wait_add (recv_wait k)\<rparr>) n1 else n1)
        })"

end
