(* ===== verification/Ether_Proofs.thy ===== *)
theory Ether_Proofs
  imports Ipv4
begin

text \<open>
  What the network stack puts on the wire: the Ethernet frame of \<open>ether_raw_out\<close> and the datagram
  of \<open>ipv4_out\<close>, as bytes.  Every packet operation used is one of \<open>pktbuf.c\<close>; here its lemmas are put
  together with those of the header fields.
\<close>

section \<open>Header fields in a packet\<close>

lemma same_but_keeps:
  assumes "pkt_ok st p" "same_but p st st'" "buf_ok st' p"
  shows "pkt_ok st' p" "keeps p st st'"
  using assms by (auto simp: pkt_ok_def free_ok_def keeps_def same_but_def own_def buf_ok_def)

lemma data_put_ok:
  assumes ok: "pkt_ok st p" and l: "blk_list (buf st p) = b # bs" and sz: "off + length bytes \<le> blk_size (blk st b)"
  shows "\<exists>st'. data_put p off bytes st = Some st' \<and> same_but p st st' \<and> buf st' = buf st \<and> pkt_ok st' p \<and> keeps p st st' \<and>
    contents st' p = take off (contents st p) @ bytes @ drop (off + length bytes) (contents st p)"
proof -
  let ?k = "blk st b"
  have bo: "blk_ok ?k" "buf_ok st p" "b \<notin> set bs" using ok l by (auto simp: pkt_ok_def buf_ok_def)
  define pl where "pl = take (blk_data ?k + off) (payload ?k) @ bytes @ drop (blk_data ?k + off + length bytes) (payload ?k)"
  define st' where "st' = upd_blk b (\<lambda>k. k\<lparr>payload := pl\<rparr>) st"
  have fit: "blk_data ?k + off + length bytes \<le> length (payload ?k)" using bo(1) sz by (auto simp: blk_ok_def)
  then have e: "data_put p off bytes st = Some st'" by (simp add: data_put_def pktbuf_first_blk_def l copy_in_def pl_def st'_def)
  have lp: "length pl = length (payload ?k)" using fit by (simp add: pl_def)
  have same: "same_but p st st'" "buf st' = buf st" "blk_list (buf st' p) = b # bs" using l by (simp_all add: same_but_def st'_def)
  have bb: "blk_bytes (blk st' b) = take off (blk_bytes ?k) @ bytes @ drop (off + length bytes) (blk_bytes ?k)"
  proof -
    have "blk_bytes (blk st' b) = take (blk_size ?k) (drop (blk_data ?k) pl)" by (simp add: blk_bytes_def st'_def)
    then show ?thesis unfolding pl_def blk_bytes_def
      using window_splice[of "blk_data ?k" "blk_size ?k" "payload ?k" off bytes] bo(1) sz by (simp only: blk_ok_def)
  qed
  have lb: "length (blk_bytes ?k) = blk_size ?k" by (rule length_blk_bytes[OF bo(1)])
  have c: "contents st' p = take off (contents st p) @ bytes @ drop (off + length bytes) (contents st p)"
    using sz lb bb bo(3) by (simp add: contents_def same(2) l) (simp add: st'_def)
  moreover have "buf_ok st' p"
    using bo(2) c same sz lb l lp by (auto simp: buf_ok_def blk_ok_def st'_def contents_def)
  ultimately show ?thesis using e same same_but_keeps[OF ok same(1)] by blast
qed

lemma data_get_ok:
  assumes ok: "buf_ok st p" and l: "blk_list (buf st p) = b # bs" and sz: "off + len \<le> blk_size (blk st b)"
  shows "data_get p off len st = Some (take len (drop off (contents st p)))"
proof -
  have bo: "blk_ok (blk st b)" using ok l by (auto simp: buf_ok_def)
  then have "length (blk_bytes (blk st b)) = blk_size (blk st b)" by (rule length_blk_bytes)
  then have "take len (drop off (contents st p)) = take len (drop off (blk_bytes (blk st b)))"
    using sz by (simp add: contents_def l)
  also have "\<dots> = take len (drop (blk_data (blk st b) + off) (payload (blk st b)))"
    using sz by (simp add: blk_bytes_def drop_take min_def add.commute)
  finally show ?thesis using bo sz by (simp add: data_get_def pktbuf_first_blk_def l copy_out_def blk_ok_def)
qed

section \<open>Padding\<close>

lemma resize_grow:
  assumes ok: "pkt_ok st p" and r: "pktbuf_resize p n st = Some (e, st')" and z: "0 < total_size (buf st p)" "total_size (buf st p) < n"
  shows "e = NET_ERR_OK \<or> is_err e \<and> length (free_blks st) * PKTBUF_BLK_SIZE < n"
    "n \<le> total_size (buf st p) + PKTBUF_BLK_SIZE \<Longrightarrow> length (free_blks st) \<le> Suc (length (free_blks st'))"
proof -
  let ?t = "total_size (buf st p)" and ?b = "last (blk_list (buf st p))"
  let ?inc = "n - ?t" and ?rem = "curr_blk_tail_free (blk st ?b)"
  have l: "blk_list (buf st p) \<noteq> []" using r z by (auto simp: pktbuf_resize_def Let_def)
  have "(e = NET_ERR_OK \<or> is_err e \<and> length (free_blks st) * PKTBUF_BLK_SIZE < n) \<and>
    (n \<le> ?t + PKTBUF_BLK_SIZE \<longrightarrow> length (free_blks st) \<le> Suc (length (free_blks st')))"
  proof (cases "?inc \<le> ?rem")
    case True
    then show ?thesis using r z l by (auto simp: pktbuf_resize_def Let_def)
  next
    case False
    obtain cs st1 where a: "pktblock_alloc_list (?inc - ?rem) False st = (cs, st1)" by fastforce
    show ?thesis
    proof (cases cs)
      case Nil
      have pos: "0 < ?inc - ?rem" using False by simp
      note f = alloc_list_failed[OF ok a[unfolded Nil] pos]
      have "e = NET_ERR_NONE" "st' = st1" using r z l False a Nil by (auto simp: pktbuf_resize_def Let_def)
      moreover have "length (free_blks st) * PKTBUF_BLK_SIZE < n" using f(5) less_imp_diff_less[of "?inc - ?rem" n] by linarith
      moreover have "own st1 p = own st p" using f(4) by (simp add: keeps_def)
      then have "length (free_blks st1) = length (free_blks st)" using f(2)
        by (simp add: own_def) (metis size_mset)
      ultimately show ?thesis by (simp add: is_err_def)
    next
      case (Cons d ds)
      note f = alloc_list_ok[OF ok a[unfolded Cons]]
      have e: "e = NET_ERR_OK" "free_blks st' = free_blks st1" using r z l False a Cons f(4)
        by (auto simp: pktbuf_resize_def Let_def insert_blk_list_eq chain_ok_def)
      have "size (mset (d # ds) + mset (free_blks st1)) = size (mset (free_blks st))" by (simp only: f(6))
      then have "length (free_blks st) = Suc (length ds) + length (free_blks st1)" by simp
      then show ?thesis using e f(9) by auto
    qed
  qed
  then show "e = NET_ERR_OK \<or> is_err e \<and> length (free_blks st) * PKTBUF_BLK_SIZE < n"
    "n \<le> ?t + PKTBUF_BLK_SIZE \<Longrightarrow> length (free_blks st) \<le> Suc (length (free_blks st'))" by auto
qed

definition padded :: "u8 list \<Rightarrow> u8 list" where
  "padded bs = bs @ replicate (ETH_DATA_MIN - length bs) 0"

lemma take_length_split: "length ys = n \<Longrightarrow> take (length xs) ys = xs \<Longrightarrow> \<exists>zs. ys = xs @ zs \<and> length zs = n - length xs"
  by (intro exI[of _ "drop (length xs) ys"]) (metis append_take_drop_id length_drop)

lemma ether_pad_ok:
  assumes ok: "pkt_ok st p" and z: "0 < total_size (buf st p)"
  shows "\<exists>e st'. ether_pad p st = Some (e, st') \<and> pkt_ok st' p \<and> keeps p st st' \<and>
    (e = NET_ERR_OK \<and> contents st' p = padded (contents st p) \<or> is_err e) \<and>
    (1 \<le> length (free_blks st) \<longrightarrow> e = NET_ERR_OK) \<and> length (free_blks st) \<le> Suc (length (free_blks st'))"
proof -
  let ?t = "total_size (buf st p)"
  have t: "?t = length (contents st p)" using ok by (simp add: pkt_ok_def buf_ok_def)
  show ?thesis
  proof (cases "?t < ETH_DATA_MIN")
    case False
    then show ?thesis using ok t by (simp add: ether_pad_def padded_def)
  next
    case True
    obtain e st1 where r: "pktbuf_resize p ETH_DATA_MIN st = Some (e, st1)" "pkt_ok st1 p" "keeps p st st1"
      "e = NET_ERR_OK \<and> length (contents st1 p) = ETH_DATA_MIN \<and> take (length (contents st p)) (contents st1 p) = take ETH_DATA_MIN (contents st p)
       \<or> e \<noteq> NET_ERR_OK \<and> contents st1 p = contents st p \<and> ?t < ETH_DATA_MIN"
      using pktbuf_resize_ok[OF ok, of ETH_DATA_MIN] z by auto
    note g = resize_grow[OF ok r(1) z True]
    have free: "length (free_blks st) \<le> Suc (length (free_blks st1))" using g(2) by (simp add: ETH_DATA_MIN_def PKTBUF_BLK_SIZE_def)
    show ?thesis
    proof (cases "e = NET_ERR_OK")
      case False
      then have "is_err e" "length (free_blks st) * PKTBUF_BLK_SIZE < ETH_DATA_MIN" using g(1) by auto
      then show ?thesis using True r free False by (auto simp: ether_pad_def ETH_DATA_MIN_def PKTBUF_BLK_SIZE_def)
    next
      case ok1: True
      let ?s = "pktbuf_reset_acc p st1"
      have c1: "length (contents st1 p) = ETH_DATA_MIN" "take ?t (contents st1 p) = contents st p"
        using r(4) ok1 True t by auto
      have t1: "total_size (buf st1 p) = ETH_DATA_MIN" using r(2) c1 by (simp add: pkt_ok_def buf_ok_def)
      have s: "buf_ok ?s p" "pos_ok ?s p" "contents ?s p = contents st1 p" "total_size (buf ?s p) = ETH_DATA_MIN" "pkt_ok ?s p"
        using r(2) t1 unfolding reset_acc_ok by (simp_all add: reset_acc_ok pkt_ok_def)
      obtain st2 where k: "pktbuf_seek p (int ?t) ?s = Some (NET_ERR_OK, st2)" "same_but p ?s st2" "blk st2 = blk ?s" "buf_ok st2 p"
        "pos_ok st2 p" "pos (buf st2 p) = ?t" using pktbuf_seek_ok[OF s(1,2), of ?t] s(4) True by auto
      have c2: "contents st2 p = contents st1 p" "total_size (buf st2 p) = ETH_DATA_MIN"
        using same_but_contents[OF k(2,3)] s(3,4) k(2) by (simp_all add: same_but_def)
      let ?n = "ETH_DATA_MIN - ?t"
      obtain st3 where f: "pktbuf_write p (Some (replicate ?n 0)) ?n st2 = Some (NET_ERR_OK, st3)" "same_but p st2 st3" "buf_ok st3 p"
        "contents st3 p = take ?t (contents st2 p) @ take ?n (replicate ?n 0) @ drop (?t + ?n) (contents st2 p)"
        using pktbuf_write_ok[OF k(4,5), of ?n "replicate ?n 0"] True c2(2) k(6) by auto
      have e: "ether_pad p st = Some (NET_ERR_OK, st3)"
        using True r(1) ok1 k(1) f(1) pktbuf_fill_write[OF k(4,5), of 0 ?n] by (simp add: ether_pad_def is_err_def)
      have ct: "contents st3 p = padded (contents st p)" using f(4) c1 c2(1) True t by (simp add: padded_def)
      have sb: "same_but p ?s st3" by (rule same_but_trans[OF k(2) f(2)])
      note kp = same_but_keeps[OF s(5) sb f(3)]
      have "keeps p st1 ?s" by (simp add: keeps_def reset_acc_ok) (simp add: pktbuf_reset_acc_def Let_def)
      then have "keeps p st st3" using keeps_trans r(3) kp(2) by blast
      moreover have "free_blks st3 = free_blks st1" using sb by (simp add: same_but_def pktbuf_reset_acc_def Let_def)
      ultimately show ?thesis using e kp(1) ct free by auto
    qed
  qed
qed

section \<open>The card\<close>

text \<open>
  The frames the card still has to send, of the lengths \<open>ls\<close>, are in descriptors that follow each other from \<open>tx_hw\<close> on, and the
  driver fills the one behind them next.
\<close>

definition ring_tx :: "nat list \<Rightarrow> rtl8139_tx \<Rightarrow> bool" where
  "ring_tx ls t \<longleftrightarrow> length (tx_data t) = R8139DN_TX_DESC_NB \<and> (\<forall>d\<in>set (tx_data t). length d = R8139DN_TX_DESC_SIZE) \<and>
     length ls \<le> R8139DN_TX_DESC_NB \<and> tx_hw t < R8139DN_TX_DESC_NB \<and> tx_curr t = (tx_hw t + length ls) mod R8139DN_TX_DESC_NB \<and>
     rotate (tx_hw t) (tx_own t) = map Some ls @ replicate (R8139DN_TX_DESC_NB - length ls) None"

definition tx_ok :: "rtl8139_tx \<Rightarrow> bool" where
  "tx_ok t \<longleftrightarrow> (\<exists>ls. ring_tx ls t)"

text \<open>What the wire will have carried when the card is done with what it was told to send.\<close>

definition handed :: "rtl8139_tx \<Rightarrow> u8 list list" where
  "handed t = wire (card_drain t)"

text \<open>What \<open>tx_frame\<close> does to the ring.\<close>

definition fill :: "u8 list \<Rightarrow> nat \<Rightarrow> rtl8139_tx \<Rightarrow> rtl8139_tx" where
  "fill new len t = t\<lparr>tx_data := (tx_data t)[tx_curr t := new], tx_own := (tx_own t)[tx_curr t := Some len],
     tx_curr := (if tx_curr t + 1 \<ge> R8139DN_TX_DESC_NB then 0 else tx_curr t + 1)\<rparr>"

lemma mod4_inj: "i < 4 \<Longrightarrow> k < 4 \<Longrightarrow> (h + i) mod 4 = (h + k) mod 4 \<longleftrightarrow> i = (k::nat)"
proof
  assume a: "i < 4" "k < 4" "(h + i) mod 4 = (h + k) mod 4"
  obtain r where r: "(h + i) mod 4 = r" "(h + k) mod 4 = r" using a(3) by simp
  have "4 * ((h + i) div 4) + r = h + i" "4 * ((h + k) div 4) + r = h + k"
    using mult_div_mod_eq[of 4 "h + i"] mult_div_mod_eq[of 4 "h + k"] unfolding r by simp_all
  then have "4 * ((h + i) div 4) + k = 4 * ((h + k) div 4) + i" by linarith
  moreover have "(h + i) div 4 = (h + k) div 4" if "4 * ((h + i) div 4) + k = 4 * ((h + k) div 4) + i"
    using that a(1,2) by linarith
  ultimately show "i = k" by linarith
qed simp

lemma rotate_update:
  assumes "length xs = 4" "k < 4"
  shows "rotate h (xs[(h + k) mod 4 := v]) = (rotate h xs)[k := v]"
proof (rule nth_equalityI)
  fix i assume "i < length (rotate h (xs[(h + k) mod 4 := v]))"
  then have i: "i < 4" using assms by simp
  have "rotate h (xs[(h + k) mod 4 := v]) ! i = xs[(h + k) mod 4 := v] ! ((h + i) mod 4)"
    using i assms nth_rotate[of i "xs[(h + k) mod 4 := v]" h] by simp
  also have "\<dots> = (if i = k then v else xs ! ((h + i) mod 4))"
    using assms(1) by (simp add: nth_list_update mod4_inj[OF assms(2) i])
  also have "\<dots> = (rotate h xs)[k := v] ! i" using i assms nth_rotate[of i xs h] by (simp add: nth_list_update)
  finally show "rotate h (xs[(h + k) mod 4 := v]) ! i = (rotate h xs)[k := v] ! i" .
qed simp

lemma ring_idle:
  assumes "ring_tx ls t"
  shows "tx_idle t = 4 - length ls" "length (tx_own t) = 4" "length ls \<le> 4"
proof -
  have r: "rotate (tx_hw t) (tx_own t) = map Some ls @ replicate (4 - length ls) None" and l: "length ls \<le> 4"
    using assms by (simp_all add: ring_tx_def R8139DN_TX_DESC_NB_def)
  show "length ls \<le> 4" by (rule l)
  show "length (tx_own t) = 4" using arg_cong[OF r, of length] l by simp
  let ?f = "\<lambda>d. d = None" and ?m = "tx_hw t mod length (tx_own t)"
  have "length (filter ?f (rotate (tx_hw t) (tx_own t))) = length (filter ?f (take ?m (tx_own t) @ drop ?m (tx_own t)))"
    unfolding rotate_drop_take filter_append by simp
  then have "tx_idle t = length (filter ?f (map Some ls @ replicate (4 - length ls) None))" by (simp add: tx_idle_def r)
  then show "tx_idle t = 4 - length ls" by (simp add: filter_map comp_def)
qed

lemma card_tx_ring:
  assumes "ring_tx (l # ls) t"
  shows "\<exists>t'. card_tx t = Some t' \<and> ring_tx ls t' \<and> wire t' = wire t @ [take l (hd (rotate (tx_hw t) (tx_data t)))] \<and>
    rotate (tx_hw t') (tx_data t') = rotate1 (rotate (tx_hw t) (tx_data t))"
proof -
  have len: "length (tx_own t) = 4" "length (tx_data t) = 4" "tx_hw t < 4" "length ls < 4"
    using ring_idle[OF assms] assms by (auto simp: ring_tx_def R8139DN_TX_DESC_NB_def)
  have r: "rotate (tx_hw t) (tx_own t) = Some l # map Some ls @ replicate (3 - length ls) None"
    using assms by (simp add: ring_tx_def R8139DN_TX_DESC_NB_def)
  have o: "tx_own t ! tx_hw t = Some l" using nth_rotate[of 0 "tx_own t" "tx_hw t"] len r by simp
  have "tx_data t \<noteq> []" using len(2) by auto
  then have d: "hd (rotate (tx_hw t) (tx_data t)) = tx_data t ! tx_hw t" using len hd_rotate_conv_nth[of "tx_data t" "tx_hw t"] by simp
  define t' where "t' = t\<lparr>wire := wire t @ [take l (tx_data t ! tx_hw t)], tx_own := (tx_own t)[tx_hw t := None], tx_hw := (tx_hw t + 1) mod 4\<rparr>"
  have rm: "rotate (tx_hw t') xs = rotate1 (rotate (tx_hw t) xs)" if "length xs = 4" for xs :: "'a list"
    using rotate_conv_mod[of "Suc (tx_hw t)" xs] that by (simp add: t'_def)
  have "rotate (tx_hw t) ((tx_own t)[tx_hw t := None]) = None # map Some ls @ replicate (3 - length ls) None"
    using rotate_update[OF len(1), of 0 "tx_hw t" None] len(3) r by simp
  then have "rotate (tx_hw t') (tx_own t') = (map Some ls @ replicate (3 - length ls) None) @ [None]"
    using rm[of "tx_own t'"] len(1) by (simp add: t'_def)
  moreover have "\<dots> = map Some ls @ replicate (4 - length ls) None"
    using len(4) by (simp add: Suc_diff_le replicate_append_same flip: replicate_Suc)
  moreover have "tx_curr t' = (tx_hw t' + length ls) mod 4"
    using assms by (simp add: ring_tx_def R8139DN_TX_DESC_NB_def t'_def mod_Suc_eq mod_add_left_eq)
  ultimately have "ring_tx ls t'"
    using assms len(4) by (simp add: ring_tx_def R8139DN_TX_DESC_NB_def) (simp add: t'_def)
  moreover have "card_tx t = Some t'"
    using o len by (simp add: card_tx_def nth_opt_def t'_def R8139DN_TX_DESC_NB_def)
  moreover have "rotate (tx_hw t') (tx_data t') = rotate1 (rotate (tx_hw t) (tx_data t))" using rm[of "tx_data t'"] len(2) by (simp add: t'_def)
  ultimately show ?thesis using d by (simp add: t'_def)
qed

lemma card_run_ring:
  assumes "ring_tx ls t" "length ls \<le> k"
  shows "wire (card_run k t) = wire t @ map2 take ls (rotate (tx_hw t) (tx_data t))"
  using assms
proof (induction ls arbitrary: k t)
  case Nil
  have "tx_own t ! tx_hw t = None" "length (tx_own t) = 4"
    using Nil.prems ring_idle(2)[OF Nil.prems(1)] nth_rotate[of 0 "tx_own t" "tx_hw t"] by (auto simp: ring_tx_def R8139DN_TX_DESC_NB_def)
  then have "card_tx t = None" by (auto simp: card_tx_def nth_opt_def)
  then show ?case by (cases k) simp_all
next
  case (Cons l ls)
  obtain j where k: "k = Suc j" using Cons.prems(2) by (cases k) auto
  obtain t' where t: "card_tx t = Some t'" "ring_tx ls t'" "wire t' = wire t @ [take l (hd (rotate (tx_hw t) (tx_data t)))]"
    "rotate (tx_hw t') (tx_data t') = rotate1 (rotate (tx_hw t) (tx_data t))" using card_tx_ring[OF Cons.prems(1)] by blast
  have "length (rotate (tx_hw t) (tx_data t)) = 4" "length ls < 4"
    using Cons.prems(1) by (simp_all add: ring_tx_def R8139DN_TX_DESC_NB_def)
  then obtain d ds where d: "rotate (tx_hw t) (tx_data t) = d # ds" "length ls \<le> length ds" by (cases "rotate (tx_hw t) (tx_data t)") auto
  have "zip ls (ds @ [d]) = zip ls ds" using d(2) by (simp add: zip_append2)
  then show ?case using Cons.IH[OF t(2), of j] Cons.prems(2) t(1,3,4) d(1) by (simp add: k)
qed

lemma zip_same_take: "zip xs ys = zip xs (take (length xs) ys)"
  by (induction xs arbitrary: ys) (auto simp: zip_Cons1 take_Cons' split: list.splits)

lemma handed_eq: "ring_tx ls t \<Longrightarrow> handed t = wire t @ map2 take ls (rotate (tx_hw t) (tx_data t))"
  unfolding handed_def card_drain_def R8139DN_TX_DESC_NB_def using ring_idle(3) by (intro card_run_ring) auto

lemma fill_ok:
  assumes "tx_ok t" "0 < tx_idle t" "length new = R8139DN_TX_DESC_SIZE"
  shows "tx_ok (fill new len t)" "Suc (tx_idle (fill new len t)) = tx_idle t" "handed (fill new len t) = handed t @ [take len new]"
proof -
  obtain ls where ls: "ring_tx ls t" using assms(1) by (auto simp: tx_ok_def)
  note r = ring_idle[OF ls]
  have k: "length ls < 4" using r assms(2) by simp
  let ?h = "tx_hw t" and ?R = "rotate (tx_hw t) (tx_data t)"
  have t: "length (tx_data t) = 4" "\<forall>d\<in>set (tx_data t). length d = R8139DN_TX_DESC_SIZE" "?h < 4" "tx_curr t = (?h + length ls) mod 4"
    "rotate ?h (tx_own t) = map Some ls @ replicate (4 - length ls) None" using ls by (simp_all add: ring_tx_def R8139DN_TX_DESC_NB_def)
  have "rotate ?h (tx_own (fill new len t)) = (map Some ls @ replicate (4 - length ls) None)[length ls := Some len]"
    using rotate_update[OF r(2) k, of ?h "Some len"] t(4,5) by (simp add: fill_def)
  also have "\<dots> = map Some (ls @ [len]) @ replicate (4 - length (ls @ [len])) None"
    using k by (cases "4 - length ls") (simp_all add: list_update_append)
  finally have own: "rotate ?h (tx_own (fill new len t)) = map Some (ls @ [len]) @ replicate (4 - length (ls @ [len])) None" .
  have dat: "rotate ?h (tx_data (fill new len t)) = ?R[length ls := new]" using rotate_update[OF t(1) k, of ?h new] t(4) by (simp add: fill_def)
  have c: "tx_curr (fill new len t) = (?h + length (ls @ [len])) mod 4"
    using mod_less_divisor[of 4 "?h + length ls"] unfolding fill_def R8139DN_TX_DESC_NB_def t(4) by (auto simp: mod_Suc simp del: mod_less_divisor)
  have sz: "\<forall>d\<in>set (tx_data (fill new len t)). length d = R8139DN_TX_DESC_SIZE"
    using t(2) assms(3) set_update_subset_insert[of "tx_data t" "tx_curr t" new] by (auto simp: fill_def)
  have rt: "ring_tx (ls @ [len]) (fill new len t)"
    unfolding ring_tx_def R8139DN_TX_DESC_NB_def using own c sz t(1,3) k by (simp add: fill_def)
  then show "tx_ok (fill new len t)" by (auto simp: tx_ok_def)
  show "Suc (tx_idle (fill new len t)) = tx_idle t" using ring_idle(1)[OF rt] r k by simp
  have "?R[length ls := new] = take (length ls) ?R @ new # drop (Suc (length ls)) ?R" using k t(1) by (intro upd_conv_take_nth_drop) simp
  moreover have "zip ls ?R = zip ls (take (length ls) ?R)" by (rule zip_same_take)
  ultimately have "zip (ls @ [len]) (?R[length ls := new]) = zip ls ?R @ [(len, new)]" using k t(1) by simp
  then show "handed (fill new len t) = handed t @ [take len new]"
    using handed_eq[OF ls] handed_eq[OF rt] dat by (simp add: fill_def)
qed

text \<open>What sending a packet leaves alone: everything but the packets, the card and the output queue.\<close>

definition sent_only :: "net \<Rightarrow> net \<Rightarrow> bool" where
  "sent_only n n' \<longleftrightarrow> n'\<lparr>pk := pk n, tx := tx n, netif := netif n\<rparr> = n \<and> (\<forall>j. (netif n' j)\<lparr>out_q := out_q (netif n j)\<rparr> = netif n j)"

lemma sent_only_refl [simp]: "sent_only n n"
  by (simp add: sent_only_def)

lemma sent_only_pk [simp]: "sent_only n (n\<lparr>pk := st\<rparr>)"
  by (simp add: sent_only_def)

lemma sent_only_trans:
  assumes "sent_only n n'" "sent_only n' n''" shows "sent_only n n''"
proof -
  have a: "n'\<lparr>pk := pk n, tx := tx n, netif := netif n\<rparr> = n" "n''\<lparr>pk := pk n', tx := tx n', netif := netif n'\<rparr> = n'"
    "\<And>j. (netif n' j)\<lparr>out_q := out_q (netif n j)\<rparr> = netif n j" "\<And>j. (netif n'' j)\<lparr>out_q := out_q (netif n' j)\<rparr> = netif n' j"
    using assms by (simp_all add: sent_only_def)
  have "n''\<lparr>pk := pk n, tx := tx n, netif := netif n\<rparr> =
      (n''\<lparr>pk := pk n', tx := tx n', netif := netif n'\<rparr>)\<lparr>pk := pk n, tx := tx n, netif := netif n\<rparr>" by simp
  also have "\<dots> = n" by (simp only: a)
  finally have e: "n''\<lparr>pk := pk n, tx := tx n, netif := netif n\<rparr> = n" .
  have "(netif n'' j)\<lparr>out_q := out_q (netif n j)\<rparr> = netif n j" for j
  proof -
    have "(netif n'' j)\<lparr>out_q := out_q (netif n j)\<rparr> = ((netif n'' j)\<lparr>out_q := out_q (netif n' j)\<rparr>)\<lparr>out_q := out_q (netif n j)\<rparr>" by simp
    also have "\<dots> = netif n j" by (simp only: a)
    finally show ?thesis .
  qed
  with e show ?thesis by (simp add: sent_only_def)
qed

text \<open>\<open>released st st' p\<close>: the packet \<open>p\<close> has been freed, with its blocks.\<close>

definition released :: "pkt_state \<Rightarrow> pid \<Rightarrow> pkt_state \<Rightarrow> bool" where
  "released st p st' \<longleftrightarrow> free_ok st' \<and> mset (free_blks st') = own st p \<and> free_bufs st' = free_bufs st @ [p] \<and>
     (\<forall>q. q \<noteq> p \<longrightarrow> buf st' q = buf st q) \<and> (\<forall>b. b \<notin># own st p \<longrightarrow> blk st' b = blk st b)"

lemma free_released:
  assumes "pkt_ok st p" "ref (buf st p) = 1"
  shows "released st p (pktbuf_free p st)"
  using assms by (auto simp: released_def pktbuf_free_def Let_def free_list_eq free_ok_def pkt_ok_def buf_ok_def own_def blk_ok_def)

lemma released_keeps:
  assumes "keeps p st st1" "released st1 p st2" shows "released st p st2"
  using assms by (auto simp: released_def keeps_def)

lemma pktbuf_read_all:
  assumes "pkt_ok st p" "pos_ok st p" "pos (buf st p) = 0"
  shows "\<exists>st'. pktbuf_read p (total_size (buf st p)) st = Some (NET_ERR_OK, contents st p, st') \<and> same_but p st st' \<and> buf_ok st' p"
proof -
  have ok: "buf_ok st p" "total_size (buf st p) = length (contents st p)" using assms(1) by (auto simp: pkt_ok_def buf_ok_def)
  show ?thesis using read_loop_ok[OF ok(1) assms(2), of "total_size (buf st p)" "[]"] assms(3) ok
    by (auto simp: pktbuf_read_def total_blk_remain_def)
qed

lemma queue_one:
  assumes "fixq_ok q" "fixq_list q = []"
  shows "\<exists>q1 q2. fixq_send m tmo q = Some (NET_ERR_OK, q1) \<and> fixq_recv 0 q1 = Some (Some m, q2) \<and> fixq_ok q2 \<and> fixq_list q2 = []"
proof -
  have z: "fq_cnt q = 0" "0 < fq_size q" using assms by (auto simp: fixq_list_def ring_def fixq_ok_def)
  obtain q1 where q1: "fixq_store m q = Some q1" "fixq_ok q1" "fixq_list q1 = [m]" "fq_size q1 = fq_size q"
    using fq.put[OF assms(1), of m] assms(2) z(2) by auto
  obtain q2 where q2: "fixq_fetch q1 = Some (m, q2)" "fixq_ok q2" "fixq_list q2 = []"
    using fq.get[OF q1(2,3)] by auto
  have "fq_cnt q1 \<noteq> 0" using arg_cong[OF q1(3), of length] by (simp add: fixq_list_def)
  then show ?thesis using q1(1) q2 z by (auto simp: fixq_send_def fixq_recv_def)
qed

lemma tx_frame_ok:
  assumes ok: "pkt_ok (pk n) p" "pos_ok (pk n) p" "pos (buf (pk n) p) = 0" "ref (buf (pk n) p) = 1" and t: "tx_ok (tx n)" "0 < tx_idle (tx n)"
    and sz: "length (contents (pk n) p) \<le> R8139DN_TX_DESC_SIZE"
  shows "\<exists>n'. tx_frame p n = Some n' \<and> handed (tx n') = handed (tx n) @ [contents (pk n) p] \<and> tx_ok (tx n') \<and>
    Suc (tx_idle (tx n')) = tx_idle (tx n) \<and> released (pk n) p (pk n') \<and> n'\<lparr>pk := pk n, tx := tx n\<rparr> = n"
proof -
  obtain st where r: "pktbuf_read p (total_size (buf (pk n) p)) (pk n) = Some (NET_ERR_OK, contents (pk n) p, st)" "same_but p (pk n) st"
    "buf_ok st p" using pktbuf_read_all[OF ok(1-3)] by blast
  note k = same_but_keeps[OF ok(1) r(2,3)]
  have len: "total_size (buf (pk n) p) = length (contents (pk n) p)" using ok(1) by (simp add: pkt_ok_def buf_ok_def)
  let ?c = "contents (pk n) p" and ?t = "tx n"
  let ?old = "tx_data ?t ! tx_curr ?t"
  let ?new = "?c @ drop (length ?c) ?old"
  have "tx_curr ?t < length (tx_data ?t)" using t(1) by (auto simp: tx_ok_def ring_tx_def R8139DN_TX_DESC_NB_def)
  then have old: "length ?old = R8139DN_TX_DESC_SIZE" "tx_curr ?t < length (tx_data ?t)" using t(1) by (auto simp: tx_ok_def ring_tx_def)
  have "released st p (pktbuf_free p st)" using k(2) ok(4) by (intro free_released[OF k(1)]) (simp add: keeps_def)
  then have rel: "released (pk n) p (pktbuf_free p st)" using released_keeps[OF k(2)] by blast
  define n' where "n' = n\<lparr>pk := pktbuf_free p st, tx := fill ?new (length ?c) ?t\<rparr>"
  have "tx_frame p n = Some n'" using r(1) old(2) sz len unfolding tx_frame_def n'_def fill_def by (simp add: copy_in_def old(1) Let_def)
  moreover have "length ?new = R8139DN_TX_DESC_SIZE" using old(1) sz by simp
  note fill_ok[OF t this, of "length ?c"]
  moreover have "tx n' = fill ?new (length ?c) ?t" "pk n' = pktbuf_free p st" "n'\<lparr>pk := pk n, tx := tx n\<rparr> = n" by (simp_all add: n'_def)
  ultimately show ?thesis using rel by auto
qed

text \<open>The card does not see \<open>free_count\<close>.\<close>

lemma card_run_free: "card_run k (t\<lparr>tx_free := c\<rparr>) = (card_run k t)\<lparr>tx_free := c\<rparr>"
proof (induction k arbitrary: t)
  case (Suc k)
  have "card_tx (t\<lparr>tx_free := c\<rparr>) = map_option (\<lambda>t'. t'\<lparr>tx_free := c\<rparr>) (card_tx t)"
    by (simp add: card_tx_def nth_opt_def split: option.splits Option.bind_splits)
  then show ?case using Suc.IH by (cases "card_tx t") auto
qed simp

lemma tx_free_only: "handed (t\<lparr>tx_free := c\<rparr>) = handed t" "tx_ok (t\<lparr>tx_free := c\<rparr>) = tx_ok t" "tx_idle (t\<lparr>tx_free := c\<rparr>) = tx_idle t"
  by (simp_all add: handed_def card_drain_def card_run_free tx_ok_def ring_tx_def tx_idle_def)

text \<open>A packet put on the empty output queue and transmitted.\<close>

lemma put_out_xmit:
  assumes ok: "pkt_ok (pk n) p" "ref (buf (pk n) p) = 1" and t: "tx_ok (tx n)" "0 < tx_idle (tx n)"
    and sz: "length (contents (pk n) p) \<le> R8139DN_TX_DESC_SIZE" and q: "fixq_ok (out_q (netif n i))" "fixq_list (out_q (netif n i)) = []"
  shows "\<exists>n1 n'. netif_put_out i p (-1) n = Some (NET_ERR_OK, n1) \<and> rtl8139_xmit i n1 = Some (NET_ERR_OK, n') \<and>
    handed (tx n') = handed (tx n) @ [contents (pk n) p] \<and> tx_ok (tx n') \<and> Suc (tx_idle (tx n')) = tx_idle (tx n) \<and> released (pk n) p (pk n') \<and> sent_only n n' \<and>
    fixq_ok (out_q (netif n' i)) \<and> fixq_list (out_q (netif n' i)) = []"
proof -
  obtain q1 q2 where q12: "fixq_send p (-1) (out_q (netif n i)) = Some (NET_ERR_OK, q1)" "fixq_recv 0 q1 = Some (Some p, q2)"
    "fixq_ok q2" "fixq_list q2 = []" using queue_one[OF q] by blast
  define n1 where "n1 = upd_netif i (\<lambda>nif. nif\<lparr>out_q := q1\<rparr>) n"
  define n2 where "n2 = (upd_netif i (\<lambda>nif. nif\<lparr>out_q := q2\<rparr>) n1)\<lparr>pk := pktbuf_reset_acc p (pk n)\<rparr>"
  have s: "pk n2 = pktbuf_reset_acc p (pk n)" "tx n2 = tx n" by (simp_all add: n2_def n1_def upd_netif_def)
  have pre: "pkt_ok (pk n2) p" "pos_ok (pk n2) p" "pos (buf (pk n2) p) = 0" "ref (buf (pk n2) p) = 1"
    "contents (pk n2) p = contents (pk n) p"
    using ok unfolding s by (simp_all add: reset_acc_ok)
  obtain n3 where n3: "tx_frame p n2 = Some n3" "handed (tx n3) = handed (tx n) @ [contents (pk n) p]" "tx_ok (tx n3)" "Suc (tx_idle (tx n3)) = tx_idle (tx n)"
    "released (pk n2) p (pk n3)" "n3\<lparr>pk := pk n2, tx := tx n2\<rparr> = n2"
    using tx_frame_ok[OF pre(1-4)] t sz s pre(5) by auto
  define n' where "n' = n3\<lparr>tx := (tx n3)\<lparr>tx_free := tx_free (tx n3) - 1\<rparr>\<rparr>"
  have "netif n3 = netif (n3\<lparr>pk := pk n2, tx := tx n2\<rparr>)" by simp
  then have nn: "netif n3 = netif n2" by (simp only: n3(6))
  have "keeps p (pk n) (pk n2)" unfolding s(1) by (simp add: keeps_def reset_acc_ok) (simp add: pktbuf_reset_acc_def Let_def)
  then have rel: "released (pk n) p (pk n')" using released_keeps n3(5) by (auto simp: n'_def)
  have "netif_put_out i p (-1) n = Some (NET_ERR_OK, n1)" using q12(1) by (simp add: netif_put_out_def is_err_def n1_def)
  moreover have "rtl8139_xmit i n1 = Some (NET_ERR_OK, n')"
    using q12(2) n3(1) by (simp add: rtl8139_xmit_def netif_get_out_def n1_def n2_def n'_def upd_netif_def)
  moreover have "sent_only n n'"
  proof -
    have "n'\<lparr>pk := pk n, tx := tx n, netif := netif n\<rparr> = (n3\<lparr>pk := pk n2, tx := tx n2\<rparr>)\<lparr>pk := pk n, tx := tx n, netif := netif n\<rparr>"
      by (simp add: n'_def)
    also have "\<dots> = n" unfolding n3(6) by (simp add: n2_def n1_def upd_netif_def)
    finally show ?thesis unfolding sent_only_def by (simp add: n'_def nn n2_def n1_def upd_netif_def)
  qed
  moreover have "out_q (netif n' i) = q2" by (simp add: n'_def nn n2_def upd_netif_def)
  moreover have "handed (tx n') = handed (tx n3)" "tx_ok (tx n') = tx_ok (tx n3)" "tx_idle (tx n') = tx_idle (tx n3)"
    by (simp_all add: n'_def tx_free_only)
  ultimately show ?thesis using n3(2-4) rel q12(3,4) by auto
qed

section \<open>Frames\<close>

definition be16 :: "u16 \<Rightarrow> u8 list" where
  "be16 v = [ucast (drop_bit 8 v), ucast v]"

lemma swap_u16_bit: "bit (swap_u16 v) k \<longleftrightarrow> (if k < 8 then bit v (8 + k) else k < 16 \<and> bit v (k - 8))"
proof -
  have ff: "(0xFF :: u16) = mask 8" by (simp add: mask_eq_exp_minus_1)
  show ?thesis unfolding swap_u16_def ff
    by (auto simp: bit_or_iff bit_push_bit_iff bit_and_iff bit_drop_bit_eq bit_mask_iff dest: bit_imp_le_length)
qed

lemma swap_bytes: "le_bytes16 (swap_u16 v) = be16 v"
proof -
  have "(ucast (swap_u16 v) :: u8) = ucast (drop_bit 8 v)" "(ucast (drop_bit 8 (swap_u16 v)) :: u8) = ucast v"
    by (auto intro!: bit_word_eqI simp: swap_u16_bit bit_ucast_iff bit_drop_bit_eq)
  then show ?thesis by (simp add: le_bytes16_def be16_def)
qed

lemma length_be16 [simp]: "length (be16 v) = 2"
  by (simp add: be16_def)

lemma contents_nonempty: "buf_ok st p \<Longrightarrow> 0 < total_size (buf st p) \<Longrightarrow> \<exists>b bs. blk_list (buf st p) = b # bs"
  by (cases "blk_list (buf st p)") (auto simp: buf_ok_def contents_def)

text \<open>Bytes stored one after the other at the front of the first block.\<close>

lemma data_put_next:
  assumes ok: "pkt_ok st p" and l: "blk_list (buf st p) = b # bs" and c: "contents st p = pre @ old @ rest"
    and sz: "length old = length bytes" "length pre + length bytes \<le> blk_size (blk st b)"
  obtains st' where "data_put p (length pre) bytes st = Some st'" "pkt_ok st' p" "keeps p st st'" "buf st' = buf st"
    "contents st' p = pre @ bytes @ rest" "blk_size (blk st' b) = blk_size (blk st b)" "same_but p st st'"
proof -
  from data_put_ok[OF ok l sz(2)] obtain st' where "data_put p (length pre) bytes st = Some st'" "same_but p st st'" "buf st' = buf st"
    "pkt_ok st' p" "keeps p st st'"
    "contents st' p = take (length pre) (contents st p) @ bytes @ drop (length pre + length bytes) (contents st p)" by blast
  then show thesis using c sz(1) by (intro that[of st']) (auto simp: same_but_def)
qed

lemma ether_raw_out_ok:
  assumes ok: "pkt_ok (pk n) p" "0 < total_size (buf (pk n) p)" "ref (buf (pk n) p) = 1" and t: "tx_ok (tx n)" "0 < tx_idle (tx n)"
    and q: "fixq_ok (out_q (netif n i))" "fixq_list (out_q (netif n i)) = []"
    and a: "length dest = 6" "length (mac (netif n i)) = 6" "mac (netif n i) \<noteq> dest"
    and sz: "total_size (buf (pk n) p) + ether_hdr_size \<le> R8139DN_TX_DESC_SIZE" and f: "2 \<le> length (free_blks (pk n))"
  shows "\<exists>n'. ether_raw_out i pr dest p n = Some (NET_ERR_OK, n') \<and>
    handed (tx n') = handed (tx n) @ [dest @ mac (netif n i) @ be16 pr @ padded (contents (pk n) p)] \<and> tx_ok (tx n') \<and> Suc (tx_idle (tx n')) = tx_idle (tx n) \<and>
    released (pk n) p (pk n') \<and> sent_only n n' \<and> fixq_ok (out_q (netif n' i)) \<and> fixq_list (out_q (netif n' i)) = []"
proof -
  let ?m = "mac (netif n i)" and ?c = "contents (pk n) p"
  obtain st1 where s1: "ether_pad p (pk n) = Some (NET_ERR_OK, st1)" "pkt_ok st1 p" "keeps p (pk n) st1" "contents st1 p = padded ?c"
    "1 \<le> length (free_blks st1)" using ether_pad_ok[OF ok(1,2)] f by (fastforce simp: is_err_def)
  have lc: "length ?c = total_size (buf (pk n) p)" using ok(1) by (simp add: pkt_ok_def buf_ok_def)
  have t1: "0 < total_size (buf st1 p)" using s1(2,4) by (simp add: pkt_ok_def buf_ok_def padded_def ETH_DATA_MIN_def)
  then have l1: "blk_list (buf st1 p) \<noteq> []" using s1(2) contents_nonempty[of st1 p] by (auto simp: pkt_ok_def)
  obtain st2 h where s2: "pktbuf_add_header p ether_hdr_size True st1 = Some (NET_ERR_OK, st2)" "pkt_ok st2 p" "keeps p st1 st2"
    "length h = ether_hdr_size" "contents st2 p = h @ padded ?c" "ether_hdr_size \<le> blk_size (blk st2 (hd (blk_list (buf st2 p))))"
    using pktbuf_add_header_ok[OF s1(2) l1, of ether_hdr_size True] s1(4,5)
    by (auto simp: ether_hdr_size_def PKTBUF_BLK_SIZE_def)
  have "0 < total_size (buf st2 p)" using s2(2,4,5) by (simp add: pkt_ok_def buf_ok_def ether_hdr_size_def)
  then obtain b bs where l2: "blk_list (buf st2 p) = b # bs" using s2(2) contents_nonempty[of st2 p] by (auto simp: pkt_ok_def)
  have b14: "14 \<le> blk_size (blk st2 b)" using s2(6) l2 by (simp add: ether_hdr_size_def)
  have lh: "length h = 14" using s2(4) by (simp add: ether_hdr_size_def)
  define h1 h2 h3 where "h1 = take 6 h" and "h2 = take 6 (drop 6 h)" and "h3 = drop 12 h"
  have h: "h = h1 @ h2 @ h3" "length h1 = 6" "length h2 = 6" "length h3 = 2"
    using lh append_take_drop_id[of 6 h] append_take_drop_id[of 6 "drop 6 h"] by (simp_all add: h1_def h2_def h3_def)
  obtain st3 where s3: "data_put p 0 dest st2 = Some st3" "pkt_ok st3 p" "keeps p st2 st3" "buf st3 = buf st2"
    "contents st3 p = dest @ h2 @ h3 @ padded ?c" "blk_size (blk st3 b) = blk_size (blk st2 b)"
    using data_put_next[OF s2(2) l2, of "[]" h1 "h2 @ h3 @ padded ?c" dest] s2(5) h a(1) b14 by auto
  obtain st4 where s4: "data_put p 6 ?m st3 = Some st4" "pkt_ok st4 p" "keeps p st3 st4" "buf st4 = buf st2"
    "contents st4 p = dest @ ?m @ h3 @ padded ?c" "blk_size (blk st4 b) = blk_size (blk st2 b)"
    using data_put_next[OF s3(2), of b bs dest h2 "h3 @ padded ?c" ?m] s3 l2 h a b14 by auto
  obtain st5 where s5: "data_put p 12 (be16 pr) st4 = Some st5" "pkt_ok st5 p" "keeps p st4 st5"
    "contents st5 p = dest @ ?m @ be16 pr @ padded ?c"
    using data_put_next[OF s4(2), of b bs "dest @ ?m" h3 "padded ?c" "be16 pr"] s4 l2 h a b14 by auto
  have k: "keeps p (pk n) st5" using s1(3) s2(3) s3(3) s4(3) s5(3) by (meson keeps_trans)
  define n5 where "n5 = n\<lparr>pk := st5\<rparr>"
  have n5: "pkt_ok (pk n5) p" "ref (buf (pk n5) p) = 1" "tx n5 = tx n" "netif n5 = netif n" "contents (pk n5) p = dest @ ?m @ be16 pr @ padded ?c"
    using s5 k ok(3) by (simp_all add: n5_def keeps_def)
  have sz5: "length (contents (pk n5) p) \<le> R8139DN_TX_DESC_SIZE"
    unfolding n5(5) using a sz lc by (simp add: padded_def ETH_DATA_MIN_def ether_hdr_size_def R8139DN_TX_DESC_SIZE_def)
  obtain n6 n' where n': "netif_put_out i p (-1) n5 = Some (NET_ERR_OK, n6)" "rtl8139_xmit i n6 = Some (NET_ERR_OK, n')"
    "handed (tx n') = handed (tx n) @ [contents (pk n5) p]" "tx_ok (tx n')" "Suc (tx_idle (tx n')) = tx_idle (tx n)" "released (pk n5) p (pk n')" "sent_only n5 n'"
    "fixq_ok (out_q (netif n' i))" "fixq_list (out_q (netif n' i)) = []"
    using put_out_xmit[OF n5(1,2), of i] t q sz5 n5 by auto
  have "ether_raw_out i pr dest p n = Some (NET_ERR_OK, n')"
    using s1(1) s2(1) s3(1) s4(1) s5(1) n'(1,2) a
    by (simp add: ether_raw_out_def on_pk_def is_err_def ETH_HWA_SIZE_def swap_bytes n5_def)
  moreover have "released (pk n) p (pk n')" using released_keeps[OF k] n'(6) by (simp add: n5_def)
  moreover have "sent_only n n'" using sent_only_trans[OF sent_only_pk n'(7)[unfolded n5_def]] .
  ultimately show ?thesis using n' n5(5) by auto
qed

end
