(* ===== verification/Ipv4_Proofs.thy ===== *)
theory Ipv4_Proofs
  imports Ether_Proofs
begin

text \<open>
  The datagrams of \<open>ipv4_out\<close> as bytes on the wire: the header checksum stored by \<open>put_checked_hdr\<close>
  makes the one's complement sum of the header all ones, and a datagram that fits the MTU is sent as
  one frame to the neighbour the route names.
\<close>

section \<open>The checksum of the header\<close>

lemma at_start:
  assumes ok: "buf_ok st p" "pos_ok st p" "pos (buf st p) = 0" and l: "blk_list (buf st p) = b # bs" and sz: "0 < blk_size (blk st b)"
  shows "curr_blk (buf st p) = Some b" "curr_blk_remain p st = Some (blk_size (blk st b))"
proof -
  have lb: "length (blk_bytes (blk st b)) = blk_size (blk st b)" using ok(1) l by (intro length_blk_bytes) (auto simp: buf_ok_def)
  have "curr_blk (buf st p) \<noteq> None"
  proof
    assume "curr_blk (buf st p) = None"
    then have "length (contents st p) = 0" using ok(2,3) by (simp add: pos_ok_def)
    then show False using lb sz l by (simp add: contents_def)
  qed
  then obtain c where c: "curr_blk (buf st p) = Some c" by blast
  obtain pre post d where s: "blk_list (buf st p) = pre @ c # post" "blk_offset (buf st p) = blk_data (blk st c) + d"
    "pos (buf st p) = length (bytes_of (blk st) pre) + d" "curr_blk_remain p st = Some (blk_size (blk st c) - d)"
    using pos_split[OF ok(1,2) c] by metis
  have "pre = []"
  proof (rule ccontr)
    assume "pre \<noteq> []"
    then have "hd pre = b" "pre = b # tl pre" using s(1) l by (cases pre; simp)+
    then have "length (bytes_of (blk st) pre) \<ge> blk_size (blk st b)" using lb by (metis bytes_of_simps(2) le_add1 length_append)
    then show False using s(3) ok(3) sz by simp
  qed
  then show "curr_blk (buf st p) = Some b" "curr_blk_remain p st = Some (blk_size (blk st b))" using s l c ok(3) by auto
qed

lemma checksum_front:
  assumes ok: "buf_ok st p" "pos_ok st p" "pos (buf st p) = 0" and l: "blk_list (buf st p) = b # bs"
    and sz: "0 < sz" "sz \<le> blk_size (blk st b)"
  shows "\<exists>st'. pktbuf_checksum16 p sz 0 True st = Some (NOT (of_nat (ones_sum (word_sum False (take sz (contents st p))))), st') \<and>
    blk st' = blk st \<and> same_but p st st' \<and> buf_ok st' p"
proof -
  have c: "curr_blk (buf st p) = Some b" "curr_blk_remain p st = Some (blk_size (blk st b))" using at_start[OF ok l] sz by auto
  have b64: "blk_size (blk st b) \<le> 64" using ok(1) l by (auto simp: buf_ok_def blk_ok_def PKTBUF_BLK_SIZE_def)
  have ne: "curr_blk (buf st p) \<noteq> None" using c by simp
  note ba = bytes_at_ok[OF ok(1,2) c(2) sz(2) ne]
  define v where "v = ones_sum (word_sum False (take sz (contents st p)))"
  have v: "v \<le> 65535" unfolding v_def by (rule ones_sum_less)
  have ck: "checksum16 0 (bytes_at p st) (of_nat sz) 0 False = Some (of_nat v)"
    using checksum16_ok[of sz "bytes_at p st" 0 0 False] ba sz b64 ok(3) by (simp add: v_def complemented_def)
  obtain st2 where s2: "move_forward p sz st = Some st2" "blk st2 = blk st" "same_but p st st2" "buf_ok st2 p"
    by (rule move_forward_ok[OF ok(1,2) c(2) sz(2) ne])
  have n: "(if blk_size (blk st b) > sz then sz else blk_size (blk st b)) = sz" using sz by simp
  have "checksum_loop p sz 0 0 st = Some (ucast (of_nat v :: u16), st2)"
    using sz(1) c(2) ck s2(1) n by (subst checksum_loop.simps) (simp add: checksum_loop.simps)
  moreover have "sz \<le> length (contents st p)"
  proof -
    have "length (blk_bytes (blk st b)) = blk_size (blk st b)" using ok(1) l by (intro length_blk_bytes) (auto simp: buf_ok_def)
    then show ?thesis using sz(2) l by (simp add: contents_def)
  qed
  then have "\<not> total_blk_remain (buf st p) < int sz" using ok(1,3) by (simp add: total_blk_remain_def buf_ok_def)
  moreover have "(ucast (NOT (ucast (of_nat v :: u16) :: u32)) :: u16) = NOT (of_nat v)"
    by (rule bit_word_eqI) (auto simp: bit_ucast_iff bit_not_iff)
  ultimately show ?thesis using s2 by (simp add: pktbuf_checksum16_def v_def)
qed

lemma ones_sum_complement: "ones_sum (w + (65535 - ones_sum w)) = 65535"
proof -
  have "ones_sum (w + (65535 - ones_sum w)) = ones_sum (ones_sum w + (65535 - ones_sum w))" by (rule ones_sum_ones_sum[symmetric])
  also have "\<dots> = 65535" using ones_sum_less[of w] by simp
  finally show ?thesis .
qed

lemma unat_not16: "unat (NOT (x :: u16)) = 65535 - unat x"
proof -
  have "NOT x = - 1 - x" by (simp add: not_eq_complement)
  moreover have "x \<le> - 1" by simp
  ultimately show ?thesis using unat_sub[of x "- 1"] by (simp add: unsigned_minus_1_eq_mask mask_eq_exp_minus_1)
qed

lemma word_sum_le16: "word_sum False (le_bytes16 v) = unat v"
proof -
  have "unat v < 65536" using unsigned_less[of v, where ?'a = nat] by simp
  then have "unat (ucast v :: u8) = unat v mod 256" "unat (ucast (drop_bit 8 v) :: u8) = unat v div 256"
    by (simp_all add: unsigned_ucast_eq take_bit_eq_mod unsigned_drop_bit_eq drop_bit_eq_div unat_div_distrib less_mult_imp_div_less)
  then show ?thesis by (simp add: le_bytes16_def)
qed

lemma length_le16 [simp]: "length (le_bytes16 v) = 2"
  by (simp add: le_bytes16_def)

definition addrs_ok :: "ipv4_hdr_t \<Rightarrow> bool" where
  "addrs_ok h \<longleftrightarrow> length (src_ip h) = 4 \<and> length (dest_ip h) = 4"

lemma length_hdr_bytes: "addrs_ok h \<Longrightarrow> length (hdr_bytes h) = ipv4_hdr_len"
  by (simp add: hdr_bytes_def addrs_ok_def ipv4_hdr_len_def)

lemma word_sum_hdr: "word_sum False (hdr_bytes (h\<lparr>hdr_checksum := c\<rparr>)) = word_sum False (hdr_bytes (h\<lparr>hdr_checksum := 0\<rparr>)) + unat c"
  by (simp add: hdr_bytes_def word_sum_append word_sum_le16)

text \<open>A header is stored whole; the one sent has a checksum that makes the sum of its words all ones.\<close>

definition checked :: "ipv4_hdr_t \<Rightarrow> ipv4_hdr_t" where
  "checked h = h\<lparr>hdr_checksum := NOT (of_nat (ones_sum (word_sum False (hdr_bytes (h\<lparr>hdr_checksum := 0\<rparr>)))))\<rparr>"

lemma checked_sum: "ones_sum (word_sum False (hdr_bytes (checked h))) = 65535"
proof -
  let ?w = "word_sum False (hdr_bytes (h\<lparr>hdr_checksum := 0\<rparr>))"
  have "unat (of_nat (ones_sum ?w) :: u16) = ones_sum ?w" using ones_sum_less[of ?w] by (intro unat_of_nat_small) simp
  then have "unat (NOT (of_nat (ones_sum ?w) :: u16)) = 65535 - ones_sum ?w" by (simp only: unat_not16)
  then have "word_sum False (hdr_bytes (checked h)) = ?w + (65535 - ones_sum ?w)"
    using word_sum_hdr[where h = h and c = "NOT (of_nat (ones_sum ?w))"] by (simp only: checked_def)
  then show ?thesis by (simp only: ones_sum_complement)
qed

lemma pos_ok_same:
  assumes "same_but p st st'" "buf st' = buf st" "buf_ok st p" "buf_ok st' p" "pos_ok st p"
  shows "pos_ok st' p"
proof (cases "curr_blk (buf st p)")
  case None
  have "length (contents st' p) = length (contents st p)" using assms(2-4) by (simp add: buf_ok_def)
  then show ?thesis using None assms(2,5) by (simp add: pos_ok_def)
next
  case (Some c)
  obtain pre post where l: "blk_list (buf st p) = pre @ c # post" "blk_data (blk st c) \<le> blk_offset (buf st p)"
    "blk_offset (buf st p) \<le> blk_data (blk st c) + blk_size (blk st c)"
    "pos (buf st p) = length (bytes_of (blk st) pre) + (blk_offset (buf st p) - blk_data (blk st c))"
    using assms(5) Some by (auto simp: pos_ok_def)
  have eq: "blk_size (blk st' x) = blk_size (blk st x)" "blk_data (blk st' x) = blk_data (blk st x)" for x using assms(1) by (simp_all add: same_but_def)
  have bok: "blk_ok (blk st x)" "blk_ok (blk st' x)" if "x \<in> set pre" for x
    using that l(1) assms(2-4) by (auto simp: buf_ok_def)
  have "length (bytes_of (blk st') pre) = sizes (blk st') pre" "length (bytes_of (blk st) pre) = sizes (blk st) pre"
    using bok by (auto intro: length_bytes_of)
  moreover have "sizes (blk st') pre = sizes (blk st) pre" by (simp add: sizes_def eq)
  ultimately have "\<exists>pre post. blk_list (buf st' p) = pre @ c # post \<and> blk_data (blk st' c) \<le> blk_offset (buf st' p) \<and>
      blk_offset (buf st' p) \<le> blk_data (blk st' c) + blk_size (blk st' c) \<and>
      pos (buf st' p) = length (bytes_of (blk st') pre) + (blk_offset (buf st' p) - blk_data (blk st' c))"
    using l assms(2) by - (rule exI[of _ pre], rule exI[of _ post], simp add: eq)
  then show ?thesis using Some assms(2) by (simp add: pos_ok_def)
qed

lemma put_checked_hdr_ok:
  assumes ok: "pkt_ok st p" "pos_ok st p" "pos (buf st p) = 0" and l: "blk_list (buf st p) = b # bs" and sz: "ipv4_hdr_len \<le> blk_size (blk st b)"
    and c: "contents st p = old @ rest" "length old = ipv4_hdr_len" and h: "addrs_ok h" "ipv4_hdr_size h = ipv4_hdr_len" "hdr_checksum h = 0"
  obtains st' where "put_checked_hdr p h st = Some st'" "pkt_ok st' p" "keeps p st st'" "contents st' p = hdr_bytes (checked (iphdr_htons h)) @ rest"
    "same_but p st st'"
proof -
  let ?g = "iphdr_htons h"
  have g: "addrs_ok ?g" "?g\<lparr>hdr_checksum := 0\<rparr> = ?g" "addrs_ok (checked ?g)" using h by (simp_all add: iphdr_htons_def addrs_ok_def checked_def)
  note lg = length_hdr_bytes[OF g(1)] length_hdr_bytes[OF g(3)]
  have len20: "ipv4_hdr_len = 20" by (simp add: ipv4_hdr_len_def)
  obtain st1 where s1: "data_put p 0 (hdr_bytes ?g) st = Some st1" "pkt_ok st1 p" "keeps p st st1" "buf st1 = buf st"
    "contents st1 p = hdr_bytes ?g @ rest" "blk_size (blk st1 b) = blk_size (blk st b)" "same_but p st st1"
  proof -
    from data_put_ok[OF ok(1) l, of 0 "hdr_bytes ?g"] sz lg obtain st1 where d: "data_put p 0 (hdr_bytes ?g) st = Some st1" "same_but p st st1"
      "buf st1 = buf st" "pkt_ok st1 p" "keeps p st st1" "contents st1 p = hdr_bytes ?g @ drop ipv4_hdr_len (contents st p)" by auto
    moreover have "blk_size (blk st1 b) = blk_size (blk st b)" using d(2) by (simp add: same_but_def)
    ultimately show thesis using c by (intro that[of st1]) simp_all
  qed
  have ps: "pos_ok st1 p" "pos (buf st1 p) = 0" "blk_list (buf st1 p) = b # bs"
    using pos_ok_same[OF s1(7,4)] ok s1(2,4) l by (simp_all add: pkt_ok_def)
  have bo: "buf_ok st1 p" using s1(2) by (simp add: pkt_ok_def)
  obtain st2 where s2: "pktbuf_checksum16 p ipv4_hdr_len 0 True st1 = Some (NOT (of_nat (ones_sum (word_sum False (hdr_bytes ?g)))), st2)"
    "blk st2 = blk st1" "same_but p st1 st2" "buf_ok st2 p"
    using checksum_front[OF bo ps(1,2,3), of ipv4_hdr_len] sz s1(5,6) lg(1) len20 by auto
  note k2 = same_but_keeps[OF s1(2) s2(3,4)]
  have c2: "contents st2 p = hdr_bytes ?g @ rest" "blk_list (buf st2 p) = b # bs" "blk_size (blk st2 b) = blk_size (blk st b)"
    using same_but_contents[OF s2(3,2)] s1(5,6) s2(2,3) ps(3) by (simp_all add: same_but_def)
  let ?ck = "?g\<lparr>hdr_checksum := NOT (of_nat (ones_sum (word_sum False (hdr_bytes ?g))))\<rparr>"
  have ck: "?ck = checked ?g" using g(2) by (simp add: checked_def)
  obtain st3 where s3: "data_put p 0 (hdr_bytes (checked ?g)) st2 = Some st3" "pkt_ok st3 p" "keeps p st2 st3"
    "contents st3 p = hdr_bytes (checked ?g) @ rest" "same_but p st2 st3"
    using data_put_next[OF k2(1) c2(2), of "[]" "hdr_bytes ?g" rest "hdr_bytes (checked ?g)"] c2 lg sz by auto
  have "put_checked_hdr p h st = Some st3"
    using s1(1) s2(1) s3(1) h(2) by (simp add: put_checked_hdr_def hdr_put_def ck)
  moreover have "keeps p st st3" using s1(3) k2(2) s3(3) by (meson keeps_trans)
  moreover have "same_but p st st3" using s1(7) s2(3) s3(5) by (meson same_but_trans)
  ultimately show thesis using s3 by (intro that[of st3]) simp_all
qed

section \<open>Datagrams\<close>

text \<open>
  An interface that can send to a neighbour at once: the neighbour is not the interface itself, its hardware address has been resolved
  and is in the cache, no packet is waiting in the output queue and the transmit ring is in order.
\<close>

definition link_ready :: "net \<Rightarrow> nat \<Rightarrow> ip_addr_t \<Rightarrow> u8 list \<Rightarrow> bool" where
  "link_ready n i nh hw \<longleftrightarrow> link_layer (netif n i) \<and> ip_addr (netif n i) \<noteq> nh \<and>
     (\<exists>e. cache_loop (a_addr nh) (arp n) (cache_list n) = Some e \<and> ae_state (arp n e) = NET_ARP_RESOLVED \<and> haddr (arp n e) = hw) \<and>
     length hw = 6 \<and> length (mac (netif n i)) = 6 \<and> mac (netif n i) \<noteq> hw \<and> tx_ok (tx n) \<and>
     fixq_ok (out_q (netif n i)) \<and> fixq_list (out_q (netif n i)) = []"

definition net_sent :: "net \<Rightarrow> net \<Rightarrow> bool" where
  "net_sent n n' \<longleftrightarrow> rt_list n' = rt_list n \<and> packet_id n' = packet_id n \<and> arp n' = arp n \<and>
     (\<forall>j. (netif n' j)\<lparr>out_q := out_q (netif n j)\<rparr> = netif n j)"

lemma net_sent_netif:
  assumes "net_sent n n'"
  shows "mac (netif n' j) = mac (netif n j)" "ip_addr (netif n' j) = ip_addr (netif n j)" "mtu (netif n' j) = mtu (netif n j)"
    "link_layer (netif n' j) = link_layer (netif n j)"
proof -
  have "(netif n' j)\<lparr>out_q := out_q (netif n j)\<rparr> = netif n j" using assms by (simp add: net_sent_def)
  from arg_cong[OF this, of mac] arg_cong[OF this, of ip_addr] arg_cong[OF this, of mtu] arg_cong[OF this, of link_layer]
  show "mac (netif n' j) = mac (netif n j)" "ip_addr (netif n' j) = ip_addr (netif n j)" "mtu (netif n' j) = mtu (netif n j)"
    "link_layer (netif n' j) = link_layer (netif n j)" by simp_all
qed

lemma sent_only_sel:
  assumes "sent_only n n'"
  shows "rt_list n' = rt_list n" "packet_id n' = packet_id n" "arp n' = arp n" "cache_list n' = cache_list n"
proof -
  have "n'\<lparr>pk := pk n, tx := tx n, netif := netif n\<rparr> = n" using assms by (simp add: sent_only_def)
  from arg_cong[OF this, of rt_list] arg_cong[OF this, of packet_id] arg_cong[OF this, of arp] arg_cong[OF this, of cache_list]
  show "rt_list n' = rt_list n" "packet_id n' = packet_id n" "arp n' = arp n" "cache_list n' = cache_list n" by simp_all
qed

lemma cache_loop_mem: "cache_loop ip tbl es = Some e \<Longrightarrow> e \<in> set es \<and> take IPV4_ADDR_SIZE ip = paddr (tbl e)"
  by (induction es) (auto split: if_splits)

lemma netif_out_ok:
  assumes ok: "pkt_ok (pk n) p" "0 < total_size (buf (pk n) p)" "ref (buf (pk n) p) = 1" and r: "link_ready n i nh hw" and i: "0 < tx_idle (tx n)"
    and sz: "total_size (buf (pk n) p) + ether_hdr_size \<le> R8139DN_TX_DESC_SIZE" and f: "2 \<le> length (free_blks (pk n))"
  obtains n' where "netif_out i nh p n = Some (NET_ERR_OK, n')"
    "handed (tx n') = handed (tx n) @ [hw @ mac (netif n i) @ be16 NET_PROTOCOL_IPv4 @ padded (contents (pk n) p)]"
    "released (pk n) p (pk n')" "net_sent n n'" "link_ready n' i nh hw" "Suc (tx_idle (tx n')) = tx_idle (tx n)"
proof -
  obtain e where e: "cache_loop (a_addr nh) (arp n) (cache_list n) = Some e" "haddr (arp n e) = hw" "ae_state (arp n e) = NET_ARP_RESOLVED" using r by (auto simp: link_ready_def)
  define n1 where "n1 = n\<lparr>cache_list := e # remove1 e (cache_list n)\<rparr>"
  have n1: "pk n1 = pk n" "tx n1 = tx n" "netif n1 = netif n" "arp n1 = arp n" "rt_list n1 = rt_list n" "packet_id n1 = packet_id n"
    by (simp_all add: n1_def)
  have af: "arp_find nh n = (Some hw, n1)" using e by (simp add: arp_find_def cache_find_def n1_def)
  obtain n' where n': "ether_raw_out i NET_PROTOCOL_IPv4 hw p n1 = Some (NET_ERR_OK, n')"
    "handed (tx n') = handed (tx n) @ [hw @ mac (netif n i) @ be16 NET_PROTOCOL_IPv4 @ padded (contents (pk n) p)]" "tx_ok (tx n')"
    "released (pk n) p (pk n')" "sent_only n1 n'" "fixq_ok (out_q (netif n' i))" "fixq_list (out_q (netif n' i)) = []"
    "Suc (tx_idle (tx n')) = tx_idle (tx n)"
    using ether_raw_out_ok[of n1 p i hw NET_PROTOCOL_IPv4] ok r i sz f by (auto simp: n1 link_ready_def)
  have out: "netif_out i nh p n = Some (NET_ERR_OK, n')"
    using r af n'(1) by (simp add: netif_out_def ether_out_def link_ready_def is_err_def)
  note sel = sent_only_sel[OF n'(5)]
  have ns: "net_sent n n'" using sel n'(5) by (simp add: net_sent_def n1 sent_only_def)
  have "cache_loop (a_addr nh) (arp n') (cache_list n') = Some e"
    using cache_loop_mem[OF e(1)] by (simp add: sel n1 n1_def)
  then have "link_ready n' i nh hw" using r n' e(2,3) net_sent_netif[OF ns] sel(3) by (auto simp: link_ready_def n1)
  with out n'(2,4) ns show thesis using n'(8) by (rule that)
qed

lemma mk_hdr_ok: "addrs_ok (mk_hdr t d off mf proto s dst)" "ipv4_hdr_size (mk_hdr t d off mf proto s dst) = ipv4_hdr_len"
  "hdr_checksum (mk_hdr t d off mf proto s dst) = 0"
  by (simp_all add: addrs_ok_def mk_hdr_def to_buf_eq a_addr_def ipv4_hdr_size_def hdr_shdr_def ipv4_hdr_len_def)

definition wire_hdr :: "nat \<Rightarrow> u16 \<Rightarrow> nat \<Rightarrow> bool \<Rightarrow> u8 \<Rightarrow> ip_addr_t \<Rightarrow> ip_addr_t \<Rightarrow> u8 list" where
  "wire_hdr t d off mf proto s dst = hdr_bytes (checked (iphdr_htons (mk_hdr t d off mf proto s dst)))"

lemma wire_hdr_sum: "ones_sum (word_sum False (wire_hdr t d off mf proto s dst)) = 65535"
  by (simp add: wire_hdr_def checked_sum)

lemma wire_hdr_length: "length (wire_hdr t d off mf proto s dst) = 20"
  using length_hdr_bytes[of "checked (iphdr_htons (mk_hdr t d off mf proto s dst))"] mk_hdr_ok(1)[of t d off mf proto s dst]
  by (simp add: wire_hdr_def addrs_ok_def checked_def iphdr_htons_def ipv4_hdr_len_def)

lemma add_header_free:
  assumes ok: "pkt_ok st p" and a: "pktbuf_add_header p sz True st = Some (e, st')" and sz: "sz \<le> PKTBUF_BLK_SIZE"
  shows "length (free_blks st) \<le> Suc (length (free_blks st'))"
proof -
  obtain b where b: "pktbuf_first_blk (buf st p) = Some b" using a by (auto simp: pktbuf_add_header_def split: option.splits)
  show ?thesis
  proof (cases "sz \<le> blk_data (blk st b)")
    case True
    then show ?thesis using a b by (auto simp: pktbuf_add_header_def Let_def)
  next
    case False
    obtain cs st1 where al: "pktblock_alloc_list sz True st = (cs, st1)" by fastforce
    show ?thesis
    proof (cases cs)
      case Nil
      have "0 < sz" using False by simp
      note fl = alloc_list_failed[OF ok al[unfolded Nil] this]
      have "length (free_blks st1) = length (free_blks st)" using fl(2,4) by (simp add: keeps_def own_def) (metis size_mset)
      then show ?thesis using a b False sz al Nil by (simp add: pktbuf_add_header_def Let_def)
    next
      case (Cons d ds)
      note fl = alloc_list_ok[OF ok al[unfolded Cons]]
      have e: "free_blks st' = free_blks st1" using a b False sz al Cons fl(4)
        by (auto simp: pktbuf_add_header_def Let_def insert_blk_list_eq chain_ok_def)
      have "size (mset (d # ds) + mset (free_blks st1)) = size (mset (free_blks st))" by (simp only: fl(6))
      then show ?thesis using e fl(9)[OF sz] by simp
    qed
  qed
qed

lemma ipv4_out_ok:
  assumes ok: "pkt_ok (pk n) p" "0 < total_size (buf (pk n) p)" "ref (buf (pk n) p) = 1"
    and rt: "route_find dest (rt_list n) = Some rt" and nh: "nh = (if re_next_hop rt = 0 then dest else re_next_hop rt)"
    and r: "link_ready n (re_netif rt) nh hw" and i: "0 < tx_idle (tx n)" and m: "mtu (netif n (re_netif rt)) = 0 \<or> int (total_size (buf (pk n) p) + ipv4_hdr_len) \<le> mtu (netif n (re_netif rt)) mod 2 ^ 32"
    and sz: "total_size (buf (pk n) p) + ipv4_hdr_len + ether_hdr_size \<le> R8139DN_TX_DESC_SIZE" and f: "3 \<le> length (free_blks (pk n))"
  shows "\<exists>n'. ipv4_out proto dest src p n = Some (NET_ERR_OK, n') \<and>
    handed (tx n') = handed (tx n) @ [hw @ mac (netif n (re_netif rt)) @ be16 NET_PROTOCOL_IPv4 @
      padded (wire_hdr (total_size (buf (pk n) p) + ipv4_hdr_len) (packet_id n) 0 False proto
        (src_or_netif src (ip_addr (netif n (re_netif rt)))) dest @ contents (pk n) p)] \<and>
    packet_id n' = packet_id n + 1 \<and> released (pk n) p (pk n')"
proof -
  let ?i = "re_netif rt" and ?c = "contents (pk n) p" and ?t = "total_size (buf (pk n) p)"
  have tc: "?t = length ?c" using ok(1) by (simp add: pkt_ok_def buf_ok_def)
  have l: "blk_list (buf (pk n) p) \<noteq> []" using ok(1,2) contents_nonempty[of "pk n" p] by (auto simp: pkt_ok_def)
  obtain st1 old where s1: "pktbuf_add_header p ipv4_hdr_len True (pk n) = Some (NET_ERR_OK, st1)" "pkt_ok st1 p" "keeps p (pk n) st1"
    "length old = ipv4_hdr_len" "contents st1 p = old @ ?c" "ipv4_hdr_len \<le> blk_size (blk st1 (hd (blk_list (buf st1 p))))"
    using pktbuf_add_header_ok[OF ok(1) l, of ipv4_hdr_len True] f by (auto simp: ipv4_hdr_len_def PKTBUF_BLK_SIZE_def)
  have t1: "total_size (buf st1 p) = ?t + ipv4_hdr_len" using s1 tc by (simp add: pkt_ok_def buf_ok_def)
  obtain b bs where l1: "blk_list (buf st1 p) = b # bs" using s1(2) t1 ok(2) contents_nonempty[of st1 p] by (auto simp: pkt_ok_def)
  have b20: "ipv4_hdr_len \<le> blk_size (blk st1 b)" using s1(6) l1 by simp
  let ?h = "mk_hdr (?t + ipv4_hdr_len) (packet_id n) 0 False proto (src_or_netif src (ip_addr (netif n ?i))) dest"
  let ?s = "pktbuf_reset_acc p st1"
  have s: "pkt_ok ?s p" "pos_ok ?s p" "pos (buf ?s p) = 0" "contents ?s p = old @ ?c" "blk ?s = blk st1" "blk_list (buf ?s p) = b # bs"
    using s1(2,5) l1 by (simp_all add: reset_acc_ok) (simp add: pktbuf_reset_acc_def Let_def)
  obtain st2 where s2: "put_checked_hdr p ?h ?s = Some st2" "pkt_ok st2 p" "keeps p ?s st2" "contents st2 p = hdr_bytes (checked (iphdr_htons ?h)) @ ?c"
    "same_but p ?s st2"
    using put_checked_hdr_ok[OF s(1-3,6) _ s(4) s1(4) mk_hdr_ok] b20 s(5) by metis
  have kr: "keeps p st1 ?s" by (simp add: keeps_def reset_acc_ok) (simp add: pktbuf_reset_acc_def Let_def)
  have k: "keeps p (pk n) st2" using s1(3) kr s2(3) by (meson keeps_trans)
  define n2 where "n2 = n\<lparr>pk := st2, packet_id := packet_id n + 1\<rparr>"
  have n2: "pk n2 = st2" "tx n2 = tx n" "netif n2 = netif n" "packet_id n2 = packet_id n + 1" by (simp_all add: n2_def)
  have lw: "length (hdr_bytes (checked (iphdr_htons ?h))) = ipv4_hdr_len"
    using length_hdr_bytes[of "checked (iphdr_htons ?h)"] mk_hdr_ok(1) by (simp add: addrs_ok_def checked_def iphdr_htons_def)
  have t2: "total_size (buf st2 p) = ?t + ipv4_hdr_len" using s2(2,4) lw tc by (simp add: pkt_ok_def buf_ok_def)
  have r2: "link_ready n2 ?i nh hw" using r by (simp add: link_ready_def n2_def)
  have "free_blks st2 = free_blks st1" using s2(5) by (simp add: same_but_def pktbuf_reset_acc_def Let_def)
  then have f2: "2 \<le> length (free_blks st2)" using add_header_free[OF ok(1) s1(1)] f by (simp add: ipv4_hdr_len_def PKTBUF_BLK_SIZE_def)
  have pre: "pkt_ok (pk n2) p" "0 < total_size (buf (pk n2) p)" "ref (buf (pk n2) p) = 1"
    "total_size (buf (pk n2) p) + ether_hdr_size \<le> R8139DN_TX_DESC_SIZE" "2 \<le> length (free_blks (pk n2))"
    using s2(2) t2 ok k sz f2 by (simp_all add: n2 keeps_def)
  obtain n' where n': "netif_out ?i nh p n2 = Some (NET_ERR_OK, n')"
    "handed (tx n') = handed (tx n) @ [hw @ mac (netif n ?i) @ be16 NET_PROTOCOL_IPv4 @ padded (contents st2 p)]"
    "released st2 p (pk n')" "net_sent n2 n'"
    using netif_out_ok[OF pre(1-3) r2 i[folded n2(2)] pre(4,5)] unfolding n2 by blast
  have "ipv4_out proto dest src p n = Some (NET_ERR_OK, n')"
    using rt nh m s1(1) s2(1) n'(1) t1 by (auto simp: ipv4_out_def Let_def on_pk_def is_err_def n2_def)
  then show ?thesis using n' s2(4) n2(4) released_keeps[OF k n'(3)] by (auto simp: net_sent_def wire_hdr_def)
qed

end
