(* ===== verification/Frag_Out.thy ===== *)
theory Frag_Out
  imports Ipv4_Proofs
begin

text \<open>
  Sending a datagram larger than the MTU: every round of \<open>ipv4_frag_out\<close> copies the front of the packet
  into a new one, takes it off, and sends the new packet.  The fragments handed to the card are the pieces
  of \<open>frags\<close> in order, with checked headers, and every block and packet used is given back.
\<close>

section \<open>Two packets\<close>

definition apart :: "pkt_state \<Rightarrow> pid \<Rightarrow> pid \<Rightarrow> bool" where
  "apart st p q \<longleftrightarrow> p \<noteq> q \<and> set (blk_list (buf st p)) \<inter> set (blk_list (buf st q)) = {}"

lemma blocks_kept:
  assumes q: "buf_ok st q" and s: "buf st' q = buf st q" and eq: "\<And>x. x \<in> set (blk_list (buf st q)) \<Longrightarrow> blk st' x = blk st x"
    and f: "set (blk_list (buf st q)) \<inter> set (free_blks st') = {}"
  shows "contents st' q = contents st q" "buf_ok st' q" "pos_ok st' q = pos_ok st q"
proof -
  have byts: "bytes_of (blk st') xs = bytes_of (blk st) xs" if "set xs \<subseteq> set (blk_list (buf st q))" for xs
    using that eq by (intro bytes_of_cong) auto
  then show c: "contents st' q = contents st q" by (simp add: contents_def s)
  then show "buf_ok st' q" using q eq f by (simp add: buf_ok_def s)
  show "pos_ok st' q = pos_ok st q"
  proof (cases "curr_blk (buf st q)")
    case None
    then show ?thesis using c by (simp add: pos_ok_def s)
  next
    case (Some x)
    have "(blk_list (buf st q) = pre @ x # post \<and> blk_data (blk st' x) \<le> blk_offset (buf st q) \<and>
        blk_offset (buf st q) \<le> blk_data (blk st' x) + blk_size (blk st' x) \<and>
        pos (buf st q) = length (bytes_of (blk st') pre) + (blk_offset (buf st q) - blk_data (blk st' x))) =
       (blk_list (buf st q) = pre @ x # post \<and> blk_data (blk st x) \<le> blk_offset (buf st q) \<and>
        blk_offset (buf st q) \<le> blk_data (blk st x) + blk_size (blk st x) \<and>
        pos (buf st q) = length (bytes_of (blk st) pre) + (blk_offset (buf st q) - blk_data (blk st x)))" for pre post
    proof (cases "blk_list (buf st q) = pre @ x # post")
      case True
      then have "bytes_of (blk st') pre = bytes_of (blk st) pre" "blk st' x = blk st x" using eq[of x] byts[of pre] by auto
      then show ?thesis by simp
    qed simp
    then show ?thesis using Some by (simp add: pos_ok_def s)
  qed
qed

lemma other_blocks:
  assumes a: "apart st d q" and q: "buf_ok st q" and b: "\<And>b. b \<notin># own st d \<Longrightarrow> blk st' b = blk st b" and s: "buf st' q = buf st q"
    and f: "set (free_blks st') \<subseteq> set_mset (own st d)"
  shows "contents st' q = contents st q" "buf_ok st' q" "pos_ok st' q = pos_ok st q"
proof -
  have "blk st' x = blk st x" if "x \<in> set (blk_list (buf st q))" for x
    using a q that b[of x] by (auto simp: apart_def own_def buf_ok_def)
  moreover have "set (blk_list (buf st q)) \<inter> set (free_blks st') = {}" using f a q by (auto simp: apart_def own_def buf_ok_def)
  ultimately show "contents st' q = contents st q" "buf_ok st' q" "pos_ok st' q = pos_ok st q"
    using blocks_kept[OF q s] by blast+
qed

lemma other_keep:
  assumes k: "keeps d st st'" and a: "apart st d q" and q: "buf_ok st q"
  shows "buf st' q = buf st q" "contents st' q = contents st q" "buf_ok st' q" "pos_ok st' q = pos_ok st q" "apart st' d q"
proof -
  show s: "buf st' q = buf st q" using k a by (auto simp: keeps_def apart_def)
  have o: "set_mset (own st' d) = set_mset (own st d)" using k by (simp add: keeps_def)
  then have f: "set (free_blks st') \<subseteq> set_mset (own st d)" by (auto simp: own_def)
  show "contents st' q = contents st q" "buf_ok st' q" "pos_ok st' q = pos_ok st q"
    using other_blocks[OF a q _ s f] k by (auto simp: keeps_def)
  have "set (blk_list (buf st' d)) \<subseteq> set_mset (own st d)" using o by (auto simp: own_def)
  then show "apart st' d q" using a q s by (auto simp: apart_def own_def buf_ok_def)
qed

lemma apart_sym: "apart st p q \<Longrightarrow> apart st q p"
  by (auto simp: apart_def)

section \<open>A new packet\<close>

lemma alloc_list_first:
  assumes "free_ok st" "pktblock_alloc_list sz False st = (c # cs, st1)" "0 < sz"
  shows "blk_size (blk st1 c) = min sz PKTBUF_BLK_SIZE"
proof -
  obtain b bs where l: "free_blks st = b # bs"
    using assms by (cases "free_blks st") (auto simp: pktblock_alloc_list_def pktblock_alloc_loop.simps[of sz] pktblock_alloc_def)
  define n where "n = (if sz > PKTBUF_BLK_SIZE then PKTBUF_BLK_SIZE else sz)"
  define st2 where "st2 = upd_blk b (\<lambda>k. k\<lparr>blk_size := n, blk_data := 0\<rparr>) (st\<lparr>free_blks := bs\<rparr>)"
  have e: "pktblock_alloc_loop (sz - n) False [b] st2 = (c # cs, st1)"
    using assms(2,3) l unfolding pktblock_alloc_list_def
    by (subst (asm) pktblock_alloc_loop.simps) (simp add: pktblock_alloc_def Let_def n_def st2_def)
  have f2: "free_ok st2" "b \<notin> set bs" using assms(1) l by (auto simp: st2_def free_ok_def)
  from alloc_loop_ok[OF f2(1), of "sz - n" False "[b]"] e have "alloc_done (sz - n) False [b] st2 (c # cs) st1" by (auto simp: alloc_failed_def)
  then obtain new where "c # cs = [b] @ new" "\<forall>x. x \<notin> set new \<longrightarrow> blk st1 x = blk st2 x" "free_blks st2 = new @ free_blks st1"
    by (auto simp: alloc_done_def)
  moreover have "b \<notin> set new" using calculation(3) f2(2) by (auto simp: st2_def)
  ultimately show ?thesis by (simp add: st2_def n_def)
qed

text \<open>\<open>pktbuf_alloc\<close> succeeds when there are packets and blocks enough.\<close>

lemma new_packet:
  assumes f: "free_ok st" and nb: "free_bufs st = d # ds" and sz: "0 < sz" "sz \<le> length (free_blks st) * PKTBUF_BLK_SIZE"
  obtains st' b bs where "pktbuf_alloc sz st = (Some d, st')" "pkt_ok st' d" "pos_ok st' d" "pos (buf st' d) = 0" "total_size (buf st' d) = sz"
    "ref (buf st' d) = 1" "own st' d = mset (free_blks st)" "\<And>q. q \<noteq> d \<Longrightarrow> buf st' q = buf st q"
    "\<And>b. b \<notin> set (free_blks st) \<Longrightarrow> blk st' b = blk st b" "free_bufs st' = ds" "blk_list (buf st' d) = b # bs"
    "blk_size (blk st' b) = min sz PKTBUF_BLK_SIZE" "length (free_blks st) \<le> length (free_blks st') + (sz + 63) div 64"
proof -
  obtain r st' where a: "pktbuf_alloc sz st = (r, st')" by fastforce
  have "r \<noteq> None" using pktbuf_alloc_ok[OF f, of sz] a nb sz(2) by (auto split: option.splits)
  then have r: "r = Some d" using a nb by (auto simp: pktbuf_alloc_def Let_def split: prod.splits list.splits if_splits)
  note p = pktbuf_alloc_ok[OF f, of sz, unfolded a r, simplified]
  define st1 where "st1 = upd_buf d (\<lambda>pb. pb\<lparr>ref := 1, total_size := 0, blk_list := []\<rparr>) (st\<lparr>free_bufs := ds\<rparr>)"
  obtain cs st2 where al: "pktblock_alloc_list sz False st1 = (cs, st2)" by fastforce
  have f1: "free_ok st1" using f by (simp add: free_ok_def st1_def)
  obtain b bs where cs: "cs = b # bs"
    using a r nb sz al by (cases cs) (auto simp: pktbuf_alloc_def st1_def Let_def)
  have st': "st' = pktbuf_reset_acc d (upd_buf d (\<lambda>pb. pb\<lparr>ref := 1\<rparr>) (pktbuf_insert_blk_list d (b # bs) True st2))"
    using a nb sz al cs by (simp add: pktbuf_alloc_def st1_def Let_def)
  from alloc_loop_ok[OF f1, of sz False "[]"] al cs have "alloc_done sz False [] st1 (b # bs) st2"
    by (auto simp: pktblock_alloc_list_def alloc_failed_def)
  then have bufs: "buf st2 = buf st1" "free_bufs st2 = ds" by (auto simp: alloc_done_def st1_def)
  have e: "blk_list (buf st' d) = b # bs" "free_bufs st' = ds" "blk st' = blk st2" "free_blks st' = free_blks st2"
    unfolding st' by (simp_all add: pktbuf_insert_blk_list_def insert_last_eq bufs st1_def pktbuf_reset_acc_def Let_def)
  have "length (free_blks st1) \<le> length (free_blks st2) + (sz + 63) div 64"
    using alloc_loop_count[of st1 sz False "[]"] al by (simp add: pktblock_alloc_list_def)
  then have cnt: "length (free_blks st) \<le> length (free_blks st') + (sz + 63) div 64" by (simp add: st1_def e)
  show thesis
    using that[of st' b bs] a r p e cnt alloc_list_first[OF f1 al[unfolded cs] sz(1)] by auto
qed


lemma remove_header_free: "remove_header_loop p bs sz st = Some st' \<Longrightarrow> length (free_blks st) \<le> length (free_blks st')"
proof (induction bs arbitrary: sz st)
  case (Cons b bs)
  then show ?case by (fastforce simp: Let_def pktblock_free_def split: if_splits)
qed (simp split: if_splits)

section \<open>One fragment\<close>

text \<open>The packet being sent holds what is left of the data, and nothing else uses its blocks.\<close>

definition frag_inv :: "pid \<Rightarrow> nat \<Rightarrow> ip_addr_t \<Rightarrow> u8 list \<Rightarrow> u8 list \<Rightarrow> net \<Rightarrow> bool" where
  "frag_inv p i nh hw c n \<longleftrightarrow> pkt_ok (pk n) p \<and> pos_ok (pk n) p \<and> pos (buf (pk n) p) = 0 \<and> ref (buf (pk n) p) = 1 \<and>
     contents (pk n) p = c \<and> link_ready n i nh hw \<and> free_bufs (pk n) \<noteq> [] \<and> p \<notin> set (free_bufs (pk n))"

text \<open>The new packet with the first \<open>k\<close> bytes of \<open>p\<close> behind room for a header.\<close>

lemma copy_front:
  assumes inv: "frag_inv p i nh hw c n" and k: "0 < k" "k \<le> length c" and hl: "addrs_ok h"
    and bl: "k + ipv4_hdr_len \<le> length (free_blks (pk n)) * PKTBUF_BLK_SIZE"
  obtains d ds st st1 st2 st3 old b bs where "free_bufs (pk n) = d # ds" "pktbuf_alloc (k + ipv4_hdr_len) (pk n) = (Some d, st)"
    "total_size (buf st d) = k + ipv4_hdr_len"
    "hdr_put d h st = Some st1" "pktbuf_seek d (int ipv4_hdr_len) st1 = Some (NET_ERR_OK, st2)"
    "pktbuf_copy d p k st2 = Some (NET_ERR_OK, st3)" "two_ok st3 d p" "free_ok st3" "contents st3 p = c"
    "contents st3 d = old @ take k c" "length old = ipv4_hdr_len" "blk_list (buf st3 d) = b # bs" "ipv4_hdr_len \<le> blk_size (blk st3 b)"
    "ref (buf st3 d) = 1" "ref (buf st3 p) = 1" "own st3 d = mset (free_blks (pk n))" "free_bufs st3 = ds"
    "length (free_blks (pk n)) \<le> length (free_blks st3) + (k + ipv4_hdr_len + 63) div 64" "blk_list (buf st3 p) = blk_list (buf (pk n) p)"
proof -
  let ?st0 = "pk n"
  have i: "pkt_ok ?st0 p" "pos_ok ?st0 p" "pos (buf ?st0 p) = 0" "ref (buf ?st0 p) = 1" "contents ?st0 p = c" "p \<notin> set (free_bufs ?st0)"
    using inv by (auto simp: frag_inv_def)
  obtain d ds where fb: "free_bufs ?st0 = d # ds" using inv by (cases "free_bufs ?st0") (auto simp: frag_inv_def)
  have dp: "d \<noteq> p" using i(6) fb by auto
  have f0: "free_ok ?st0" "buf_ok ?st0 p" using i(1) by (auto simp: pkt_ok_def)
  obtain st b bs where s: "pktbuf_alloc (k + ipv4_hdr_len) ?st0 = (Some d, st)" "pkt_ok st d" "pos_ok st d" "pos (buf st d) = 0"
    "total_size (buf st d) = k + ipv4_hdr_len" "ref (buf st d) = 1" "own st d = mset (free_blks ?st0)" "\<And>q. q \<noteq> d \<Longrightarrow> buf st q = buf ?st0 q"
    "\<And>b. b \<notin> set (free_blks ?st0) \<Longrightarrow> blk st b = blk ?st0 b" "free_bufs st = ds" "blk_list (buf st d) = b # bs"
    "blk_size (blk st b) = min (k + ipv4_hdr_len) PKTBUF_BLK_SIZE" "length (free_blks ?st0) \<le> length (free_blks st) + (k + ipv4_hdr_len + 63) div 64"
    by (rule new_packet[OF f0(1) fb, of "k + ipv4_hdr_len"]) (use k bl in auto)
  have b20: "ipv4_hdr_len \<le> blk_size (blk st b)" using s(12) by (simp add: ipv4_hdr_len_def PKTBUF_BLK_SIZE_def)
  have sp: "buf st p = buf ?st0 p" using s(8) dp by simp
  have own: "set_mset (own st d) = set (free_blks ?st0)" using s(7) by simp
  have ob: "contents st p = c" "buf_ok st p" "pos_ok st p" "apart st d p"
  proof -
    have ap: "set (blk_list (buf ?st0 p)) \<inter> set (free_blks ?st0) = {}" using f0(2) by (simp add: buf_ok_def)
    have eq: "blk st x = blk ?st0 x" if "x \<in> set (blk_list (buf ?st0 p))" for x using that ap s(9)[of x] by auto
    have fs: "set (free_blks st) \<subseteq> set (free_blks ?st0)" "set (blk_list (buf st d)) \<subseteq> set (free_blks ?st0)" using own by (auto simp: own_def)
    have "set (blk_list (buf ?st0 p)) \<inter> set (free_blks st) = {}" using ap fs by auto
    note kept = blocks_kept[OF f0(2) sp eq this]
    show "contents st p = c" "buf_ok st p" "pos_ok st p" using kept i(2,5) by auto
    show "apart st d p" using dp fs ap by (auto simp: apart_def sp)
  qed
  have h20: "length (hdr_bytes h) = ipv4_hdr_len" by (rule length_hdr_bytes[OF hl])
  obtain st1 where s1: "hdr_put d h st = Some st1" "same_but d st st1" "buf st1 = buf st" "pkt_ok st1 d"
    using data_put_ok[OF s(2,11), of 0 "hdr_bytes h"] b20 h20 by (auto simp: hdr_put_def)
  have p1: "pos_ok st1 d" by (rule pos_ok_same[OF s1(2,3)]) (use s(2,3) s1(4) in \<open>auto simp: pkt_ok_def\<close>)
  have t0: "two_ok st d p" using ob s(2,3) by (auto simp: two_ok_def apart_def pkt_ok_def)
  have bo1: "buf_ok st1 d" using s1(4) by (simp add: pkt_ok_def)
  note t1 = two_ok_keep[OF t0 s1(2) bo1 p1]
  obtain st2 where s2: "pktbuf_seek d (int ipv4_hdr_len) st1 = Some (NET_ERR_OK, st2)" "same_but d st1 st2" "blk st2 = blk st1"
    "buf_ok st2 d" "pos_ok st2 d" "pos (buf st2 d) = ipv4_hdr_len"
    using pktbuf_seek_ok[OF bo1 p1, of ipv4_hdr_len] s1(3) s(5) k by auto
  note t2 = two_ok_keep[OF t1(1) s2(2,4,5)]
  have sb: "same_but d st st2" using s1(2) s2(2) by (rule same_but_trans)
  have z: "total_size (buf st2 d) = k + ipv4_hdr_len" "length (contents st2 d) = k + ipv4_hdr_len" "pos (buf st2 p) = 0"
      "contents st2 p = c" "total_size (buf st2 p) = length c"
    using sb s(5) s2(4) t2 t1 sp i(3) ob(1,2) by (auto simp: same_but_def buf_ok_def)
  obtain st3 where s3: "copy_loop d p k st2 = Some st3" "two_ok st3 d p" "contents st3 p = c"
    "contents st3 d = take ipv4_hdr_len (contents st2 d) @ take k c" "pair_but d p st2 st3"
    using copy_loop_ok[OF t2(1), of k] z s2(6) k by auto
  have cp: "pktbuf_copy d p k st2 = Some (NET_ERR_OK, st3)"
    using s3(1) z s2(6) k by (simp add: pktbuf_copy_def total_blk_remain_def)
  have pb: "pair_but d p st st3" using same_but_pair(1)[OF sb] s3(5) by (rule pair_but_trans)
  have e: "free_blks st3 = free_blks st" "free_bufs st3 = ds" "blk_list (buf st3 d) = b # bs" "ref (buf st3 d) = 1" "ref (buf st3 p) = 1"
     "blk_size (blk st3 b) = blk_size (blk st b)" "own st3 d = own st d" "blk_list (buf st3 p) = blk_list (buf ?st0 p)"
    using pb s(6,10,11) sp i(4) by (auto simp: pair_but_def own_def)
  have "free_ok st3"
  proof -
    have "free_ok st" "set (free_blks st) \<inter> (set (blk_list (buf st d)) \<union> set (blk_list (buf st p))) = {}"
      using s(2) ob(2) by (auto simp: pkt_ok_def buf_ok_def)
    then show ?thesis using pb e(1) by (auto simp: free_ok_def pair_but_def)
  qed
  then show thesis
    using that[of d ds st st1 st2 st3 "take ipv4_hdr_len (contents st2 d)" b bs] fb s(1,5,7,13) s1(1) s2(1) cp s3 e b20 z by auto
qed

lemma two_ok_apart: "two_ok st p q \<Longrightarrow> apart st p q"
  by (auto simp: two_ok_def apart_def)

lemma net_sent_trans: "net_sent n n1 \<Longrightarrow> net_sent n1 n2 \<Longrightarrow> net_sent n n2"
proof -
  assume a: "net_sent n n1" "net_sent n1 n2"
  have "(netif n2 j)\<lparr>out_q := out_q (netif n j)\<rparr> = netif n j" for j
  proof -
    have "((netif n2 j)\<lparr>out_q := out_q (netif n1 j)\<rparr>)\<lparr>out_q := out_q (netif n j)\<rparr> = netif n j" using a by (simp add: net_sent_def)
    then show ?thesis by simp
  qed
  then show ?thesis using a by (simp add: net_sent_def)
qed

text \<open>The data is taken off \<open>p\<close>, the header completed and the fragment handed to the interface.\<close>

lemma send_front:
  assumes t: "two_ok st3 d p" "free_ok st3" and c: "contents st3 p = c" "k \<le> length c" "contents st3 d = old @ dat" "length old = ipv4_hdr_len"
    and l: "blk_list (buf st3 d) = b # bs" "ipv4_hdr_len \<le> blk_size (blk st3 b)"
    and h: "addrs_ok h" "ipv4_hdr_size h = ipv4_hdr_len" "hdr_checksum h = 0"
  obtains st4 st5 st6 where "pktbuf_remove_header p k st3 = Some (NET_ERR_OK, st4)"
    "pktbuf_seek d 0 (pktbuf_reset_acc p st4) = Some (NET_ERR_OK, st5)" "put_checked_hdr d h st5 = Some st6"
    "pkt_ok st6 d" "contents st6 d = hdr_bytes (checked (iphdr_htons h)) @ dat" "ref (buf st6 d) = ref (buf st3 d)"
    "apart st6 d p" "buf_ok st6 p" "pos_ok st6 p" "pos (buf st6 p) = 0" "contents st6 p = drop k c" "ref (buf st6 p) = ref (buf st3 p)"
    "length (free_blks st3) \<le> length (free_blks st6)" "free_bufs st6 = free_bufs st3" "blk_list (buf st6 d) = b # bs" "own st6 p = own st3 p"
proof -
  have ok3: "pkt_ok st3 p" "buf_ok st3 d" "pos_ok st3 d" "apart st3 p d" "total_size (buf st3 p) = length c"
    using t c(1) by (auto simp: two_ok_def apart_def pkt_ok_def buf_ok_def)
  obtain st4 where s4: "pktbuf_remove_header p k st3 = Some (NET_ERR_OK, st4)" "contents st4 p = drop k c" "pkt_ok st4 p" "keeps p st3 st4"
    using pktbuf_remove_header_ok[OF ok3(1), of k] c(1,2) ok3(5) by auto
  note o4 = other_keep[OF s4(4) ok3(4,2)]
  have fr: "length (free_blks st3) \<le> length (free_blks st4)"
    using s4(1) by (auto simp: pktbuf_remove_header_def intro: remove_header_free)
  have b4: "blk st4 b = blk st3 b"
    using s4(4) ok3(2,4) l(1) by (auto simp: keeps_def own_def apart_def buf_ok_def)
  define st4' where "st4' = pktbuf_reset_acc p st4"
  have dp: "d \<noteq> p" using t by (simp add: two_ok_def)
  have r4: "pkt_ok st4' d" "pos_ok st4' d" "contents st4' d = old @ dat" "pkt_ok st4' p" "pos_ok st4' p" "pos (buf st4' p) = 0"
    "contents st4' p = drop k c" "ref (buf st4' p) = ref (buf st3 p)" "free_blks st4' = free_blks st4" "free_bufs st4' = free_bufs st3"
    "blk_list (buf st4' d) = b # bs" "blk st4' = blk st4" "apart st4' d p" "ref (buf st4' d) = ref (buf st3 d)"
  proof -
    have bd: "buf st4' d = buf st3 d" using reset_acc_ok(10)[of d p st4] dp o4(1) by (simp add: st4'_def)
    have "pkt_ok st4 d" using s4(3) o4(3) by (simp add: pkt_ok_def)
    then show "pkt_ok st4' d" "contents st4' d = old @ dat" "pkt_ok st4' p" "pos_ok st4' p" "pos (buf st4' p) = 0" "contents st4' p = drop k c"
        "ref (buf st4' p) = ref (buf st3 p)" "blk st4' = blk st4"
      using s4 o4 c(3) by (simp_all add: st4'_def reset_acc_ok keeps_def)
    show fb: "free_blks st4' = free_blks st4" "free_bufs st4' = free_bufs st3"
      using s4(4) by (simp_all add: st4'_def pktbuf_reset_acc_def Let_def keeps_def)
    show "blk_list (buf st4' d) = b # bs" "ref (buf st4' d) = ref (buf st3 d)" using bd l by simp_all
    show "apart st4' d p" using apart_sym[OF o4(5)] bd o4(1) by (simp add: apart_def st4'_def pktbuf_reset_acc_def Let_def)
    have "pos_ok st4' d = pos_ok st4 d"
      by (rule blocks_kept(3)) (use o4 bd fb s4(3) in \<open>auto simp: buf_ok_def st4'_def reset_acc_ok\<close>)
    then show "pos_ok st4' d" using o4(4) ok3(3) by simp
  qed
  have d4: "0 < total_size (buf st4' d)" "buf_ok st4' d" using r4(1,3) c(4) by (auto simp: pkt_ok_def buf_ok_def ipv4_hdr_len_def)
  obtain st5 where s5: "pktbuf_seek d 0 st4' = Some (NET_ERR_OK, st5)" "same_but d st4' st5" "blk st5 = blk st4'" "buf_ok st5 d" "pos_ok st5 d"
    "pos (buf st5 d) = 0" using pktbuf_seek_ok[OF d4(2) r4(2) d4(1)] by auto
  note k5 = same_but_keeps[OF r4(1) s5(2,4)]
  have c5: "contents st5 d = old @ dat" "blk_list (buf st5 d) = b # bs" "ipv4_hdr_len \<le> blk_size (blk st5 b)"
    using same_but_contents[OF s5(2,3)] r4 s5(2,3) b4 l(2) by (auto simp: same_but_def)
  obtain st6 where s6: "put_checked_hdr d h st5 = Some st6" "pkt_ok st6 d" "keeps d st5 st6"
    "contents st6 d = hdr_bytes (checked (iphdr_htons h)) @ dat" "same_but d st5 st6"
    by (rule put_checked_hdr_ok[OF k5(1) s5(5,6) c5(2,3,1) c(4) h])
  have kk: "keeps d st4' st6" using k5(2) s6(3) by (rule keeps_trans)
  have bp: "buf_ok st4' p" using r4(4) by (simp add: pkt_ok_def)
  note o6 = other_keep[OF kk r4(13) bp]
  have f6: "free_blks st6 = free_blks st4" "blk_list (buf st6 d) = b # bs" using s5(2) s6(5) r4(9,11) by (simp_all add: same_but_def)
  have "own st6 p = own st4' p" using f6(1) o6(1) r4(9) by (simp add: own_def)
  also have "\<dots> = own st3 p" using s4(4) by (simp add: st4'_def reset_acc_ok keeps_def)
  finally have "own st6 p = own st3 p" .
  with f6 show thesis
    using that[of st4 st5 st6] s4(1) s5(1) s6(1,2,4) o6 r4 kk fr by (simp add: st4'_def keeps_def)
qed

text \<open>The datagram of one fragment, and of all of them.\<close>

definition frag_bytes :: "u16 \<Rightarrow> u8 \<Rightarrow> ip_addr_t \<Rightarrow> ip_addr_t \<Rightarrow> nat \<Rightarrow> bool \<Rightarrow> u8 list \<Rightarrow> u8 list" where
  "frag_bytes ident proto s dst off mf dat = wire_hdr (length dat + ipv4_hdr_len) ident (off div 8) mf proto s dst @ dat"

lemma frag_step:
  assumes inv: "frag_inv p i nh hw c n" and kd: "k = frag_size (length c) (mtu (netif n i))" and k: "0 < k" "k \<le> length c"
    and sz: "k + ipv4_hdr_len + ether_hdr_size \<le> R8139DN_TX_DESC_SIZE" and fr: "(k + ipv4_hdr_len + 63) div 64 + 2 \<le> length (free_blks (pk n))"
    and idle: "0 < tx_idle (tx n)"
  obtains n' where "frag_out_loop proto dest src p nh i (length c) off n = frag_out_loop proto dest src p nh i (length c - k) (off + k) n'"
    "frag_inv p i nh hw (drop k c) n'" "net_sent n n'" "length (free_blks (pk n)) \<le> length (free_blks (pk n'))"
    "own (pk n') p = own (pk n) p" "mset (free_bufs (pk n')) = mset (free_bufs (pk n))" "Suc (tx_idle (tx n')) = tx_idle (tx n)"
    "handed (tx n') = handed (tx n) @ [hw @ mac (netif n i) @ be16 NET_PROTOCOL_IPv4 @
       padded (frag_bytes (packet_id n) proto (src_or_netif src (ip_addr (netif n i))) dest off (k < length c) (take k c))]"
proof -
  define h where "h = mk_hdr (k + ipv4_hdr_len) (packet_id n) (off div 8) (length c > k) proto (src_or_netif src (ip_addr (netif n i))) dest"
  have h: "addrs_ok h" "ipv4_hdr_size h = ipv4_hdr_len" "hdr_checksum h = 0" unfolding h_def by (rule mk_hdr_ok)+
  have bl: "k + ipv4_hdr_len \<le> length (free_blks (pk n)) * PKTBUF_BLK_SIZE" using fr by (simp add: PKTBUF_BLK_SIZE_def)
  obtain d ds st st1 st2 st3 old b bs where s: "free_bufs (pk n) = d # ds" "pktbuf_alloc (k + ipv4_hdr_len) (pk n) = (Some d, st)"
    "total_size (buf st d) = k + ipv4_hdr_len"
    "hdr_put d h st = Some st1" "pktbuf_seek d (int ipv4_hdr_len) st1 = Some (NET_ERR_OK, st2)"
    "pktbuf_copy d p k st2 = Some (NET_ERR_OK, st3)" "two_ok st3 d p" "free_ok st3" "contents st3 p = c"
    "contents st3 d = old @ take k c" "length old = ipv4_hdr_len" "blk_list (buf st3 d) = b # bs" "ipv4_hdr_len \<le> blk_size (blk st3 b)"
    "ref (buf st3 d) = 1" "ref (buf st3 p) = 1" "own st3 d = mset (free_blks (pk n))" "free_bufs st3 = ds"
    "length (free_blks (pk n)) \<le> length (free_blks st3) + (k + ipv4_hdr_len + 63) div 64" "blk_list (buf st3 p) = blk_list (buf (pk n) p)"
    by (rule copy_front[OF inv k h(1) bl])
  obtain st4 st5 st6 where t: "pktbuf_remove_header p k st3 = Some (NET_ERR_OK, st4)"
    "pktbuf_seek d 0 (pktbuf_reset_acc p st4) = Some (NET_ERR_OK, st5)" "put_checked_hdr d h st5 = Some st6"
    "pkt_ok st6 d" "contents st6 d = hdr_bytes (checked (iphdr_htons h)) @ take k c" "ref (buf st6 d) = ref (buf st3 d)"
    "apart st6 d p" "buf_ok st6 p" "pos_ok st6 p" "pos (buf st6 p) = 0" "contents st6 p = drop k c" "ref (buf st6 p) = ref (buf st3 p)"
    "length (free_blks st3) \<le> length (free_blks st6)" "free_bufs st6 = free_bufs st3" "blk_list (buf st6 d) = b # bs" "own st6 p = own st3 p"
    by (rule send_front[OF s(7-9) k(2) s(10-13) h])
  define n6 where "n6 = n\<lparr>pk := st6\<rparr>"
  have n6: "pk n6 = st6" "tx n6 = tx n" "netif n6 = netif n" "packet_id n6 = packet_id n" by (simp_all add: n6_def)
  have lr: "link_ready n6 i nh hw" using inv by (simp add: frag_inv_def link_ready_def n6_def)
  have lh: "length (hdr_bytes (checked (iphdr_htons h))) = ipv4_hdr_len"
    using h(1) by (intro length_hdr_bytes) (simp add: addrs_ok_def checked_def iphdr_htons_def)
  have tot: "total_size (buf st6 d) = k + ipv4_hdr_len" using t(4,5) lh k(2) by (simp add: pkt_ok_def buf_ok_def)
  have pre: "pkt_ok (pk n6) d" "0 < total_size (buf (pk n6) d)" "ref (buf (pk n6) d) = 1"
    "total_size (buf (pk n6) d) + ether_hdr_size \<le> R8139DN_TX_DESC_SIZE" "2 \<le> length (free_blks (pk n6))"
    using t(4,6,13) tot k sz s(14,18) fr by (simp_all add: n6)
  obtain n' where n': "netif_out i nh d n6 = Some (NET_ERR_OK, n')"
    "handed (tx n') = handed (tx n) @ [hw @ mac (netif n i) @ be16 NET_PROTOCOL_IPv4 @ padded (contents st6 d)]"
    "released st6 d (pk n')" "net_sent n6 n'" "link_ready n' i nh hw" "Suc (tx_idle (tx n')) = tx_idle (tx n)"
    using netif_out_ok[OF pre(1-3) lr idle[folded n6(2)] pre(4,5)] unfolding n6 by blast
  have rel: "free_ok (pk n')" "mset (free_blks (pk n')) = own st6 d" "free_bufs (pk n') = ds @ [d]" "\<And>q. q \<noteq> d \<Longrightarrow> buf (pk n') q = buf st6 q"
    "\<And>b. b \<notin># own st6 d \<Longrightarrow> blk (pk n') b = blk st6 b"
    using n'(3) t(14) s(17) by (auto simp: released_def)
  have dp: "d \<noteq> p" "p \<notin> set ds" using inv s(1) by (auto simp: frag_inv_def)
  have bp: "buf (pk n') p = buf st6 p" using rel(4) dp by simp
  have "set (free_blks (pk n')) \<subseteq> set_mset (own st6 d)" using rel(2) by (metis set_mset_mset subset_refl)
  note ob = other_blocks[OF t(7,8) rel(5) bp this]
  have inv': "frag_inv p i nh hw (drop k c) n'"
    using ob rel(1,3) t(9-12) s(15) bp n'(5) dp by (simp add: frag_inv_def pkt_ok_def)
  have "length (free_blks (pk n')) = length (free_blks st6) + length (blk_list (buf st6 d))"
    using arg_cong[OF rel(2), of size] by (simp add: own_def)
  moreover have "length (free_blks (pk n)) = length (free_blks st3) + length (blk_list (buf st3 d))"
    using arg_cong[OF s(16), of size] by (simp add: own_def)
  ultimately have len: "length (free_blks (pk n)) \<le> length (free_blks (pk n'))" using t(13,15) s(12) by simp
  have own: "own (pk n') p = own (pk n) p"
    using rel(2) s(12,16,19) t(15,16) bp by (simp add: own_def ac_simps)
  have fb: "mset (free_bufs (pk n')) = mset (free_bufs (pk n))" using rel(3) s(1) by simp
  have ns: "net_sent n n'" using n'(4) by (simp add: net_sent_def n6_def)
  have step: "frag_out_loop proto dest src p nh i (length c) off n = frag_out_loop proto dest src p nh i (length c - k) (off + k) n'"
    using k s(2-6) t(1-3) n'(1)
    by (subst frag_out_loop.simps) (auto simp: Let_def kd[symmetric] h_def[symmetric] n6_def is_err_def)
  have "contents st6 d = frag_bytes (packet_id n) proto (src_or_netif src (ip_addr (netif n i))) dest off (k < length c) (take k c)"
    using t(5) k(2) by (simp add: frag_bytes_def wire_hdr_def h_def)
  then show thesis using that[OF step inv' ns len own fb n'(6)] n'(2) by simp
qed

section \<open>All fragments\<close>

text \<open>
  How a datagram is cut: pieces of the largest multiple of 8 that fits, each with its offset and
  whether more follow.
\<close>

fun frags :: "nat \<Rightarrow> nat \<Rightarrow> u8 list \<Rightarrow> (nat \<times> bool \<times> u8 list) list" where
  "frags room off c =
     (if c = [] then []
      else if length c \<le> room \<or> room < 8 then [(off, False, c)]
      else (off, True, take (room div 8 * 8) c) # frags room (off + room div 8 * 8) (drop (room div 8 * 8) c))"

declare frags.simps [simp del]

lemma frag_size_eq:
  assumes "m \<le> 65535" "28 \<le> m" "0 < r"
  shows "frag_size r (int m) = (if r \<le> m - 20 then r else (m - 20) div 8 * 8)"
proof -
  have "nat ((int m - int ipv4_hdr_len) mod 2 ^ 32) = m - 20" using assms by (simp add: ipv4_hdr_len_def nat_diff_distrib)
  moreover have "m - 20 - (m - 20) mod 8 = (m - 20) div 8 * 8" by (metis minus_mod_eq_div_mult)
  ultimately show ?thesis by (simp add: frag_size_def Let_def)
qed

lemma frag_out_loop_ok:
  assumes "frag_inv p i nh hw c n" "mtu (netif n i) = int m" "28 \<le> m" "m + ether_hdr_size \<le> R8139DN_TX_DESC_SIZE"
    "(m + 63) div 64 + 2 \<le> length (free_blks (pk n))" "length c \<le> tx_idle (tx n) * ((m - 20) div 8 * 8)"
  shows "\<exists>n'. frag_out_loop proto dest src p nh i (length c) off n = Some (NET_ERR_OK, n') \<and> frag_inv p i nh hw [] n' \<and> net_sent n n' \<and>
    own (pk n') p = own (pk n) p \<and> mset (free_bufs (pk n')) = mset (free_bufs (pk n)) \<and>
    handed (tx n') = handed (tx n) @ map (\<lambda>(o', mf, dat). hw @ mac (netif n i) @ be16 NET_PROTOCOL_IPv4 @
       padded (frag_bytes (packet_id n) proto (src_or_netif src (ip_addr (netif n i))) dest o' mf dat)) (frags (m - 20) off c)"
  using assms
proof (induction "length c" arbitrary: c off n rule: less_induct)
  case less
  show ?case
  proof (cases "c = []")
    case True
    have "net_sent n n" by (simp add: net_sent_def)
    then show ?thesis using True less.prems(1) by (subst frag_out_loop.simps) (simp add: frags.simps)
  next
    case False
    define k where "k = frag_size (length c) (mtu (netif n i))"
    have ke: "k = (if length c \<le> m - 20 then length c else (m - 20) div 8 * 8)"
      using frag_size_eq[of m "length c"] less.prems(2-4) False by (simp add: k_def R8139DN_TX_DESC_SIZE_def)
    have "1 \<le> (m - 20) div 8" using less.prems(3) div_le_mono[of 8 "m - 20" 8] by simp
    then have "8 \<le> (m - 20) div 8 * 8" by simp
    then have k: "0 < k" "k \<le> length c" "k + ipv4_hdr_len \<le> m" using False less.prems(3) by (auto simp: ke ipv4_hdr_len_def)
    have sz: "k + ipv4_hdr_len + ether_hdr_size \<le> R8139DN_TX_DESC_SIZE" using k(3) less.prems(4) by simp
    have "(k + ipv4_hdr_len + 63) div 64 \<le> (m + 63) div 64" using k(3) by (intro div_le_mono) simp
    then have fr: "(k + ipv4_hdr_len + 63) div 64 + 2 \<le> length (free_blks (pk n))" using less.prems(5) by simp
    have idle: "0 < tx_idle (tx n)" using less.prems(6) False by (cases "tx_idle (tx n)") auto
    obtain n1 where n1: "frag_out_loop proto dest src p nh i (length c) off n = frag_out_loop proto dest src p nh i (length c - k) (off + k) n1"
      "frag_inv p i nh hw (drop k c) n1" "net_sent n n1" "length (free_blks (pk n)) \<le> length (free_blks (pk n1))"
      "own (pk n1) p = own (pk n) p" "mset (free_bufs (pk n1)) = mset (free_bufs (pk n))" "Suc (tx_idle (tx n1)) = tx_idle (tx n)"
      "handed (tx n1) = handed (tx n) @ [hw @ mac (netif n i) @ be16 NET_PROTOCOL_IPv4 @
         padded (frag_bytes (packet_id n) proto (src_or_netif src (ip_addr (netif n i))) dest off (k < length c) (take k c))]"
      by (rule frag_step[OF less.prems(1) k_def k(1,2) sz fr idle])
    note sel = net_sent_netif[OF n1(3), of i]
    have pid: "packet_id n1 = packet_id n" using n1(3) by (simp add: net_sent_def)
    have lt: "length (drop k c) < length c" using k False by simp
    have m1: "mtu (netif n1 i) = int m" using sel less.prems(2) by simp
    have "length c \<le> (m - 20) div 8 * 8 + tx_idle (tx n1) * ((m - 20) div 8 * 8)" using less.prems(6) unfolding n1(7)[symmetric] by simp
    then have i1: "length (drop k c) \<le> tx_idle (tx n1) * ((m - 20) div 8 * 8)" using ke by (auto simp: le_diff_conv add.commute split: if_splits)
    have f1: "(m + 63) div 64 + 2 \<le> length (free_blks (pk n1))" using less.prems(5) n1(4) by simp
    have fs: "frags (m - 20) off c = (off, k < length c, take k c) # frags (m - 20) (off + k) (drop k c)"
    proof (cases "length c \<le> m - 20")
      case True
      then show ?thesis using False ke by (subst frags.simps) (simp add: frags.simps[of _ _ "[]"])
    next
      case larger: False
      then have "k < length c" using ke by (metis div_times_less_eq_dividend le_less_trans not_le)
      then show ?thesis using False ke larger less.prems(3) by (subst frags.simps) simp
    qed
    show ?thesis using less.hyps[OF lt n1(2) m1 less.prems(3,4) f1 i1, of "off + k"] n1 sel pid fs net_sent_trans[OF n1(3)] by auto
  qed
qed

text \<open>The pieces make up the data, each fits and starts at a multiple of 8, and all but the last say that more follow.\<close>

definition pieces_ok :: "nat \<Rightarrow> nat \<Rightarrow> u8 list \<Rightarrow> (nat \<times> bool \<times> u8 list) list \<Rightarrow> bool" where
  "pieces_ok room off c ps \<longleftrightarrow> concat (map (\<lambda>(_, _, dat). dat) ps) = c \<and>
     (\<forall>j < length ps. case ps ! j of (o', mf, dat) \<Rightarrow> o' = off + length (concat (map (\<lambda>(_, _, dat). dat) (take j ps))) \<and>
        8 dvd o' \<and> length dat \<le> room \<and> dat \<noteq> [] \<and> mf = (Suc j < length ps))"

lemma frags_ok: "8 \<le> room \<Longrightarrow> 8 dvd off \<Longrightarrow> pieces_ok room off c (frags room off c)"
proof (induction room off c rule: frags.induct)
  case (1 room off c)
  let ?k = "room div 8 * 8"
  show ?case
  proof (cases "c = [] \<or> length c \<le> room")
    case True
    then show ?thesis using "1.prems" by (auto simp: frags.simps[of room off c] pieces_ok_def)
  next
    case False
    have ih: "pieces_ok room (off + ?k) (drop ?k c) (frags room (off + ?k) (drop ?k c))" using "1.IH" "1.prems" False by simp
    have k: "?k \<le> room" "?k < length c" "0 < ?k" using False "1.prems" by (auto simp: mult.commute div_times_less_eq_dividend intro: le_less_trans[of _ room])
    have ne: "frags room (off + ?k) (drop ?k c) \<noteq> []" using k(2) by (subst frags.simps) simp
    have e: "frags room off c = (off, True, take ?k c) # frags room (off + ?k) (drop ?k c)" using False "1.prems" by (subst frags.simps) simp
    show ?thesis unfolding pieces_ok_def
    proof (intro conjI allI impI)
      show "concat (map (\<lambda>(_, _, dat). dat) (frags room off c)) = c" using ih by (simp add: e pieces_ok_def)
      fix j assume j: "j < length (frags room off c)"
      show "case frags room off c ! j of (o', mf, dat) \<Rightarrow> o' = off + length (concat (map (\<lambda>(_, _, dat). dat) (take j (frags room off c)))) \<and>
        8 dvd o' \<and> length dat \<le> room \<and> dat \<noteq> [] \<and> mf = (Suc j < length (frags room off c))"
      proof (cases j)
        case 0
        then show ?thesis using k ne "1.prems" False by (simp add: e)
      next
        case (Suc l)
        then show ?thesis using ih j k by (auto simp: e pieces_ok_def)
      qed
    qed
  qed
qed

lemma ipv4_frag_out_ok:
  assumes ok: "pkt_ok (pk n) p" "ref (buf (pk n) p) = 1" "free_bufs (pk n) \<noteq> []" "p \<notin> set (free_bufs (pk n))"
    and r: "link_ready n i nh hw" and m: "mtu (netif n i) = int m" "28 \<le> m" "m + ether_hdr_size \<le> R8139DN_TX_DESC_SIZE"
    and f: "(m + 63) div 64 + 2 \<le> length (free_blks (pk n))" "total_size (buf (pk n) p) \<le> tx_idle (tx n) * ((m - 20) div 8 * 8)"
  shows "\<exists>n' ps. ipv4_frag_out proto dest src p nh i n = Some (NET_ERR_OK, n') \<and> pieces_ok (m - 20) 0 (contents (pk n) p) ps \<and>
    handed (tx n') = handed (tx n) @ map (\<lambda>(off, mf, dat). hw @ mac (netif n i) @ be16 NET_PROTOCOL_IPv4 @
       padded (frag_bytes (packet_id n) proto (src_or_netif src (ip_addr (netif n i))) dest off mf dat)) ps \<and>
    packet_id n' = packet_id n + 1 \<and> mset (free_blks (pk n')) = own (pk n) p \<and> mset (free_bufs (pk n')) = add_mset p (mset (free_bufs (pk n)))"
proof -
  define n0 where "n0 = n\<lparr>pk := pktbuf_reset_acc p (pk n)\<rparr>"
  have fb: "free_bufs (pk n0) = free_bufs (pk n)" "free_blks (pk n0) = free_blks (pk n)" by (simp_all add: n0_def pktbuf_reset_acc_def Let_def)
  have n0: "netif n0 = netif n" "tx n0 = tx n" "packet_id n0 = packet_id n" "total_size (buf (pk n0) p) = length (contents (pk n) p)"
    "own (pk n0) p = own (pk n) p"
    using ok(1) by (simp_all add: n0_def reset_acc_ok pkt_ok_def buf_ok_def)
  have "total_size (buf (pk n) p) = length (contents (pk n) p)" using ok(1) by (simp add: pkt_ok_def buf_ok_def)
  then have idle: "length (contents (pk n) p) \<le> tx_idle (tx n0) * ((m - 20) div 8 * 8)" using f(2) n0(2) by simp
  have "frag_inv p i nh hw (contents (pk n) p) n0"
    using ok r fb by (simp add: frag_inv_def n0_def reset_acc_ok link_ready_def)
  from frag_out_loop_ok[OF this, of m proto dest src 0] obtain n1 where n1:
    "frag_out_loop proto dest src p nh i (length (contents (pk n) p)) 0 n0 = Some (NET_ERR_OK, n1)" "frag_inv p i nh hw [] n1" "net_sent n0 n1"
    "own (pk n1) p = own (pk n) p" "mset (free_bufs (pk n1)) = mset (free_bufs (pk n))"
    "handed (tx n1) = handed (tx n) @ map (\<lambda>(o', mf, dat). hw @ mac (netif n i) @ be16 NET_PROTOCOL_IPv4 @
       padded (frag_bytes (packet_id n) proto (src_or_netif src (ip_addr (netif n i))) dest o' mf dat)) (frags (m - 20) 0 (contents (pk n) p))"
    using m f(1) idle n0 fb by auto
  have "released (pk n1) p (pktbuf_free p (pk n1))" using n1(2) by (intro free_released) (auto simp: frag_inv_def)
  moreover have "packet_id n1 = packet_id n" using n1(3) n0(3) by (simp add: net_sent_def)
  moreover have "pieces_ok (m - 20) 0 (contents (pk n) p) (frags (m - 20) 0 (contents (pk n) p))" using m(2) by (intro frags_ok) auto
  moreover have "ipv4_frag_out proto dest src p nh i n =
      Some (NET_ERR_OK, n1\<lparr>packet_id := packet_id n1 + 1, pk := pktbuf_free p (pk n1)\<rparr>)"
    using n1(1) n0(4) by (simp add: ipv4_frag_out_def n0_def is_err_def)
  ultimately show ?thesis using n1(4-6) by (auto simp: released_def)
qed

end
