(* ===== verification/Net_Props.thy ===== *)
theory Net_Props
  imports Frag_Out
begin

text \<open>
  What the sending side of the stack promises, over the frames that the card is told to send and has sent once it is idle again.
\<close>

section \<open>A sample stack\<close>

text \<open>One interface with a neighbour in the ARP cache, a route to everything, and one packet of twelve bytes.\<close>

definition net_sample :: net where
  "net_sample = \<lparr>
     pk = \<lparr>blk = (\<lambda>b. \<lparr>blk_size = 6, blk_data = 4, payload = replicate 64 7\<rparr>), free_blks = [2, 3, 5, 6],
       buf = (\<lambda>p. \<lparr>total_size = 12, blk_list = [0, 1], ref = 1, pos = 0, curr_blk = Some 0, blk_offset = 4\<rparr>), free_bufs = [2]\<rparr>,
     netif = (\<lambda>i. \<lparr>mac = [1, 1, 1, 1, 1, 1], ip_addr = 5, net_mask = 0, gateway = 0, nif_state = NETIF_ACTIVE, nif_type = NETIF_TYPE_ETHER,
       mtu = 28, link_layer = True, in_q = fixq_init [0, 0] 2, out_q = fixq_init [0, 0] 2\<rparr>),
     netif_list = [0], netif_default = Some 0, link_layers = (\<lambda>_. True), rt_list = route_add 0 0 0 0 0 5 [],
     msg_of = (\<lambda>_. NET_EXMSG_FUN 0), free_msgs = [], msg_queue = fixq_init [0] 1,
     arp = (\<lambda>_. \<lparr>paddr = [9, 0, 0, 0], haddr = [2, 2, 2, 2, 2, 2], ae_state = NET_ARP_RESOLVED, ae_tmo = 0, rety = 0, ae_netif = 0, ae_buf_list = []\<rparr>),
     cache_list = [0], free_entries = [], frag = (\<lambda>_. \<lparr>fr_ip = 0, fr_id = 0, fr_tmo = 0, fr_buf_list = []\<rparr>), frag_list = [], free_frags = [],
     packet_id = 1, sock_of = (\<lambda>_. \<lparr>local_ip = 0, local_port = 0, remote_ip = 0, remote_port = 0, sk_family = 0, sk_protocol = 0,
       sk_err = NET_ERR_OK, recv_tmo = 0, send_tmo = 0, recv_list = [], recv_wait = \<lparr>sw_err = NET_ERR_OK, waiting = 0, sw_sem = init_segment 0\<rparr>\<rparr>),
     raw_list = [], free_raws = [], udp_list = [], free_udps = [], socket_tbl = [],
     tx = \<lparr>tx_data = replicate 4 (replicate 1792 0), tx_curr = 0, tx_dirty = 0, tx_free = 4, tx_own = [None, None, None, None], tx_hw = 0, wire = []\<rparr>, low_mem = []\<rparr>"

lemma replicate4: "replicate 4 x = [x, x, x, x]"
  by (simp add: eval_nat_numeral)

lemma net_sample_ok: "pkt_ok (pk net_sample) 0" "tx_ok (tx net_sample)" "fixq_ok (out_q (netif net_sample 0))"
  "fixq_list (out_q (netif net_sample 0)) = []" "link_ready net_sample 0 9 [2, 2, 2, 2, 2, 2]"
  "route_find 9 (rt_list net_sample) = Some (hd (rt_list net_sample))" "re_netif (hd (rt_list net_sample)) = 0" "re_next_hop (hd (rt_list net_sample)) = 0"
proof -
  show "pkt_ok (pk net_sample) 0"
    by (simp add: net_sample_def pkt_ok_def free_ok_def buf_ok_def blk_ok_def contents_def blk_bytes_def PKTBUF_BLK_SIZE_def)
  show t: "tx_ok (tx net_sample)" unfolding tx_ok_def
    by (rule exI[of _ "[]"]) (simp add: ring_tx_def net_sample_def R8139DN_TX_DESC_NB_def R8139DN_TX_DESC_SIZE_def replicate4)
  show q: "fixq_ok (out_q (netif net_sample 0))" "fixq_list (out_q (netif net_sample 0)) = []"
    by (simp_all add: net_sample_def fixq_ok_def fixq_init_def fixq_list_def ring_def)
  show "link_ready net_sample 0 9 [2, 2, 2, 2, 2, 2]"
    using t q by (simp add: link_ready_def) (simp add: net_sample_def a_addr_def IPV4_ADDR_SIZE_def)
  show "route_find 9 (rt_list net_sample) = Some (hd (rt_list net_sample))" "re_netif (hd (rt_list net_sample)) = 0" "re_next_hop (hd (rt_list net_sample)) = 0"
    by (simp_all add: net_sample_def route_add_def route_find_def Let_def ipaddr_get_net_def)
qed

lemma net_sample_sel: "total_size (buf (pk net_sample) 0) = 12" "ref (buf (pk net_sample) 0) = 1" "mac (netif net_sample 0) = [1, 1, 1, 1, 1, 1]"
  "length (free_blks (pk net_sample)) = 4" "mtu (netif net_sample 0) = 28" "free_bufs (pk net_sample) = [2]" "tx_idle (tx net_sample) = 4"
  "ip_addr (netif net_sample 0) = 5" "packet_id net_sample = 1"
  by (simp_all add: net_sample_def tx_idle_def)

section \<open>Frames\<close>

text \<open>
  C29: \<open>ether_raw_out\<close> of a packet of 1 to 1778 bytes to another station than the interface itself, when the interface has no packet queued, two blocks
  are free and the card has an idle descriptor (nothing in the code checks that: on a busy card the frame overwrites one that is still to be sent), hands one frame to
  the card, in the next descriptor: the destination, the interface's own
  address, the protocol with its high byte first, and the data of the packet filled with zeros to 46 bytes.  What the card will have
  sent when it is done is what it would have sent before, followed by this frame.
  The packet and its blocks are free again afterwards and nothing but the queue of the interface,
  the card and the packets has changed.
\<close>

theorem ether_raw_out_correct:
  assumes "pkt_ok (pk n) p" "0 < total_size (buf (pk n) p)" "ref (buf (pk n) p) = 1" "tx_ok (tx n)" "0 < tx_idle (tx n)"
    "fixq_ok (out_q (netif n i))" "fixq_list (out_q (netif n i)) = []"
    "length dest = 6" "length (mac (netif n i)) = 6" "mac (netif n i) \<noteq> dest"
    "total_size (buf (pk n) p) + 14 \<le> 1792" "2 \<le> length (free_blks (pk n))"
  shows "\<exists>n'. ether_raw_out i pr dest p n = Some (NET_ERR_OK, n') \<and>
    wire (card_drain (tx n')) = wire (card_drain (tx n)) @
      [dest @ mac (netif n i) @ be16 pr @ contents (pk n) p @ replicate (46 - length (contents (pk n) p)) 0] \<and>
    tx_ok (tx n') \<and> Suc (tx_idle (tx n')) = tx_idle (tx n) \<and>
    released (pk n) p (pk n') \<and> sent_only n n' \<and> fixq_list (out_q (netif n' i)) = []"
  using ether_raw_out_ok[OF assms(1-10), of pr] assms(11,12)
  by (auto simp: ether_hdr_size_def R8139DN_TX_DESC_SIZE_def padded_def ETH_DATA_MIN_def handed_def)

theorem ether_raw_out_correct_witness:
  "pkt_ok (pk net_sample) 0 \<and> (\<exists>n'. ether_raw_out 0 0x800 [2, 2, 2, 2, 2, 2] 0 net_sample = Some (NET_ERR_OK, n') \<and>
    length (wire (card_drain (tx n'))) = Suc (length (wire (card_drain (tx net_sample)))))"
  using ether_raw_out_correct[of net_sample 0 0 "[2, 2, 2, 2, 2, 2]" "0x800"] net_sample_ok net_sample_sel by auto

section \<open>Datagrams\<close>

text \<open>
  C8: \<open>ipv4_out\<close> of a packet of 1 to 1758 bytes that fits the MTU, over an interface that is ready to send to the neighbour the route names (the
  next hop, or the destination itself), hands one frame for that neighbour to the card, with an IPv4 header in front of the data whose
  one's complement sum is all ones; the datagram number is used up and the packet is freed.  Ready to send means: the neighbour is not the interface's own
  address, its hardware address is in the ARP cache as resolved and differs from the interface's own, no packet waits in the output queue, and
  the card has an idle descriptor.  At least three blocks must be free.
\<close>

theorem ipv4_out_correct:
  assumes "pkt_ok (pk n) p" "0 < total_size (buf (pk n) p)" "ref (buf (pk n) p) = 1"
    "route_find dest (rt_list n) = Some rt" "i = re_netif rt" "nh = (if re_next_hop rt = 0 then dest else re_next_hop rt)"
    "link_ready n i nh hw" "0 < tx_idle (tx n)" "mtu (netif n i) = 0 \<or> int (total_size (buf (pk n) p) + 20) \<le> mtu (netif n i) mod 2 ^ 32"
    "total_size (buf (pk n) p) + 34 \<le> 1792" "3 \<le> length (free_blks (pk n))"
  shows "\<exists>n' hdr. ipv4_out proto dest src p n = Some (NET_ERR_OK, n') \<and>
    hdr = wire_hdr (length (contents (pk n) p) + 20) (packet_id n) 0 False proto (src_or_netif src (ip_addr (netif n i))) dest \<and>
    length hdr = 20 \<and> ones_sum (word_sum False hdr) = 65535 \<and>
    wire (card_drain (tx n')) = wire (card_drain (tx n)) @ [hw @ mac (netif n i) @ [8, 0] @ padded (hdr @ contents (pk n) p)] \<and>
    packet_id n' = packet_id n + 1 \<and> released (pk n) p (pk n')"
proof -
  have len: "total_size (buf (pk n) p) = length (contents (pk n) p)" using assms(1) by (simp add: pkt_ok_def buf_ok_def)
  have be: "be16 NET_PROTOCOL_IPv4 = [8, 0]" by (simp add: be16_def NET_PROTOCOL_IPv4_def)
  show ?thesis
    using ipv4_out_ok[OF assms(1-4) assms(6) assms(7)[unfolded assms(5)] assms(8), of proto src] assms(5,9-11) len
    by (auto simp: ipv4_hdr_len_def ether_hdr_size_def R8139DN_TX_DESC_SIZE_def be wire_hdr_sum wire_hdr_length handed_def)
qed

definition big_sample :: net where
  "big_sample = upd_netif 0 (\<lambda>nif. nif\<lparr>mtu := 1500\<rparr>) net_sample"

lemma big_sample_ok: "link_ready big_sample 0 9 [2, 2, 2, 2, 2, 2]" "pk big_sample = pk net_sample" "rt_list big_sample = rt_list net_sample"
  "mtu (netif big_sample 0) = 1500" "tx big_sample = tx net_sample"
  using net_sample_ok(5) net_sample_sel by (simp_all add: big_sample_def upd_netif_def link_ready_def)

theorem ipv4_out_correct_witness:
  "link_ready big_sample 0 9 [2, 2, 2, 2, 2, 2] \<and> (\<exists>n'. ipv4_out 17 9 None 0 big_sample = Some (NET_ERR_OK, n') \<and>
     length (wire (card_drain (tx n'))) = Suc (length (wire (card_drain (tx big_sample)))))"
  using ipv4_out_correct[of big_sample 0 9 "hd (rt_list net_sample)" 0 9 "[2, 2, 2, 2, 2, 2]" 17 None]
    net_sample_ok(1,6-8) net_sample_sel big_sample_ok by auto

text \<open>
  C3: \<open>ipv4_frag_out\<close> cuts the data of a packet into pieces that fit an MTU of 28 to 1778 bytes: all but the last are marked
  as followed by more and every offset is the number of bytes before the piece, a multiple of 8.  Each piece is handed to the card
  in a frame of its own, in order, behind a header with the number of the datagram; when the card is done, nothing of the data has been lost or sent
  twice.  The blocks and packets used on the way, and those of the packet itself, are all free at the end.  This holds when the interface is ready to send to the
  next hop, as for \<open>ipv4_out\<close> (not its own address, resolved in the ARP cache, no packet queued), a packet and the blocks for one piece and two more are free, and
  the card has as many idle descriptors as there are pieces, so at most four pieces: the code does not wait for
  the card, and a piece for a busy descriptor overwrites the one there.
\<close>

theorem ipv4_frag_out_correct:
  assumes "pkt_ok (pk n) p" "ref (buf (pk n) p) = 1" "free_bufs (pk n) \<noteq> []" "p \<notin> set (free_bufs (pk n))"
    "link_ready n i nh hw" "mtu (netif n i) = int m" "28 \<le> m" "m + 14 \<le> 1792" "(m + 63) div 64 + 2 \<le> length (free_blks (pk n))"
    "total_size (buf (pk n) p) \<le> tx_idle (tx n) * ((m - 20) div 8 * 8)"
  shows "\<exists>n' ps. ipv4_frag_out proto dest src p nh i n = Some (NET_ERR_OK, n') \<and> pieces_ok (m - 20) 0 (contents (pk n) p) ps \<and>
    wire (card_drain (tx n')) = wire (card_drain (tx n)) @ map (\<lambda>(off, mf, dat). hw @ mac (netif n i) @ [8, 0] @
       padded (wire_hdr (length dat + 20) (packet_id n) (off div 8) mf proto (src_or_netif src (ip_addr (netif n i))) dest @ dat)) ps \<and>
    packet_id n' = packet_id n + 1 \<and> mset (free_blks (pk n')) = mset (free_blks (pk n)) + mset (blk_list (buf (pk n) p)) \<and>
    mset (free_bufs (pk n')) = add_mset p (mset (free_bufs (pk n)))"
proof -
  have be: "be16 NET_PROTOCOL_IPv4 = [8, 0]" by (simp add: be16_def NET_PROTOCOL_IPv4_def)
  show ?thesis using ipv4_frag_out_ok[OF assms(1-7), of proto dest src] assms(8-10)
    by (simp add: ether_hdr_size_def R8139DN_TX_DESC_SIZE_def frag_bytes_def own_def ipv4_hdr_len_def be handed_def)
qed

theorem ipv4_frag_out_correct_witness:
  "link_ready net_sample 0 9 [2, 2, 2, 2, 2, 2] \<and> (\<exists>n' ps. ipv4_frag_out 17 9 None 0 9 0 net_sample = Some (NET_ERR_OK, n') \<and>
     pieces_ok 8 0 (contents (pk net_sample) 0) ps \<and>
     length (wire (card_drain (tx n'))) = length (wire (card_drain (tx net_sample))) + length ps)"
proof -
  obtain n' ps where "ipv4_frag_out 17 9 None 0 9 0 net_sample = Some (NET_ERR_OK, n')" "pieces_ok (28 - 20) 0 (contents (pk net_sample) 0) ps"
    "wire (card_drain (tx n')) = wire (card_drain (tx net_sample)) @ map (\<lambda>(off, mf, dat). [2, 2, 2, 2, 2, 2] @ mac (netif net_sample 0) @ [8, 0] @
       padded (wire_hdr (length dat + 20) (packet_id net_sample) (off div 8) mf 17 (src_or_netif None (ip_addr (netif net_sample 0))) 9 @ dat)) ps"
    using ipv4_frag_out_correct[of net_sample 0 0 9 "[2, 2, 2, 2, 2, 2]" 28 17 9 None] net_sample_ok(1,5) net_sample_sel by auto
  then show ?thesis using net_sample_ok(5) by auto
qed

end
