(* ===== verification/Console.thy ===== *)
theory Console
  imports Prelude
begin

text \<open>
  The text consoles (\<open>kernel/device/tty/console.c\<close>): eight consoles that write into the video memory at
  \<open>0xb8000\<close>, with a cursor, scrolling and the escape sequences for colours and clearing.

  The video memory is a function from the byte address of a cell to the cell.  A function that the code
  calls with a \<open>console_t *\<close> works on \<open>scr\<close>, that console with the video memory.  \<open>None\<close> is an access outside
  \<open>esc_params\<close>.
\<close>

section \<open>Data\<close>

datatype console_color = Black | Blue | Green | Cyan | Red | Purple | Brown | Gray
  | Dark_Gray | Light_Blue | Light_Green | Light_Cyan | Light_Red | Light_Purple | Yellow | White

primrec color_code :: "console_color \<Rightarrow> nat" where
  "color_code Black = 0" | "color_code Blue = 1" | "color_code Green = 2" | "color_code Cyan = 3"
| "color_code Red = 4" | "color_code Purple = 5" | "color_code Brown = 6" | "color_code Gray = 7"
| "color_code Dark_Gray = 8" | "color_code Light_Blue = 9" | "color_code Light_Green = 10" | "color_code Light_Cyan = 11"
| "color_code Light_Red = 12" | "color_code Light_Purple = 13" | "color_code Yellow = 14" | "color_code White = 15"

text \<open>The bit fields of a cell: four bits of foreground, three of background and one that is not named.\<close>

record display_char_t =
  dc_ch :: char
  dc_fg :: nat
  dc_bg :: nat
  dc_rest :: bool

datatype write_state_t = WRITE_STATE_NORMAL | WRITE_STATE_ESC | WRITE_STATE_SQUARE

record console_t =
  display_cols :: int
  display_rows :: int
  cursor_col :: int
  cursor_row :: int
  display_fg :: console_color
  display_bg :: console_color
  display_base :: int
  write_state :: write_state_t
  esc_params :: "int list"
  cur_esc_param :: nat

record scr =
  con :: console_t
  vram :: "int \<Rightarrow> display_char_t"

definition CONSOLE_DISPLAY_ADDR :: int where "CONSOLE_DISPLAY_ADDR = 0xb8000"
definition CONSOLE_CNT :: nat where "CONSOLE_CNT = 8"
definition CONSOLE_COL_MAX :: int where "CONSOLE_COL_MAX = 80"
definition CONSOLE_ROW_MAX :: int where "CONSOLE_ROW_MAX = 25"
definition DEFAULT_FG :: console_color where "DEFAULT_FG = Gray"
definition DEFAULT_BG :: console_color where "DEFAULT_BG = Black"
definition ESC_PARAMS_MAX :: nat where "ESC_PARAMS_MAX = 10"

text \<open>The 32-bit value of an \<open>int\<close>.\<close>

definition s32 :: "int \<Rightarrow> int" where
  "s32 x = (x + 2 ^ 31) mod 2 ^ 32 - 2 ^ 31"

definition upd_con :: "(console_t \<Rightarrow> console_t) \<Rightarrow> scr \<Rightarrow> scr" where
  "upd_con f s = s\<lparr>con := f (con s)\<rparr>"

section \<open>Cells\<close>

text \<open>The address of a cell: \<open>display_base + k\<close> for a pointer to cells of two bytes.\<close>

definition cell_addr :: "console_t \<Rightarrow> int \<Rightarrow> int" where
  "cell_addr c k = display_base c + 2 * k"

fun clear_loop :: "int \<Rightarrow> nat \<Rightarrow> (int \<Rightarrow> display_char_t) \<Rightarrow> int \<Rightarrow> display_char_t" where
  "clear_loop a 0 v = v"
| "clear_loop a (Suc n) v = clear_loop (a + 2) n (v(a := (v a)\<lparr>dc_ch := CHR '' ''\<rparr>))"

definition clear :: "int \<Rightarrow> int \<Rightarrow> int \<Rightarrow> int \<Rightarrow> scr \<Rightarrow> scr" where
  "clear row_start row_end col_start col_end s =
     (let c = con s;
          display_start = display_cols c * row_start + col_start;
          display_end = display_cols c * row_end + col_end
      in s\<lparr>vram := clear_loop (cell_addr c display_start) (nat (display_end - display_start)) (vram s)\<rparr>)"

definition clear_row :: "int \<Rightarrow> int \<Rightarrow> scr \<Rightarrow> scr" where
  "clear_row row_start row_end s = clear row_start row_end 0 (display_cols (con s)) s"

text \<open>\<open>memcpy\<close> from the lowest cell up.\<close>

fun move_cells :: "int \<Rightarrow> int \<Rightarrow> nat \<Rightarrow> (int \<Rightarrow> display_char_t) \<Rightarrow> int \<Rightarrow> display_char_t" where
  "move_cells dst src 0 v = v"
| "move_cells dst src (Suc n) v = move_cells (dst + 2) (src + 2) n (v(dst := v src))"

definition scroll_up :: "int \<Rightarrow> scr \<Rightarrow> scr" where
  "scroll_up lines s =
     (let c = con s;
          s1 = s\<lparr>vram := move_cells (cell_addr c 0) (cell_addr c (display_cols c * lines))
             (nat ((display_rows c - lines) * display_cols c)) (vram s)\<rparr>;
          s2 = clear_row (display_rows c - lines) (display_rows c - 1) s1
      in upd_con (\<lambda>c. c\<lparr>cursor_row := cursor_row c - lines\<rparr>) s2)"

text \<open>\<open>hw_pos\<close> is the position the hardware gives in \<open>read_cursor_pos\<close>.\<close>

definition init_console :: "nat \<Rightarrow> u16 \<Rightarrow> scr \<Rightarrow> scr" where
  "init_console idx hw_pos s =
     (let s1 = upd_con (\<lambda>c. c\<lparr>display_cols := CONSOLE_COL_MAX, display_rows := CONSOLE_ROW_MAX, display_fg := DEFAULT_FG,
          display_bg := DEFAULT_BG, display_base := CONSOLE_DISPLAY_ADDR + int idx * (CONSOLE_ROW_MAX * CONSOLE_COL_MAX)\<rparr>) s
      in if idx = 0
         then upd_con (\<lambda>c. c\<lparr>cursor_row := uint hw_pos div display_cols c, cursor_col := uint hw_pos mod display_cols c\<rparr>) s1
         else clear_row 0 CONSOLE_ROW_MAX (upd_con (\<lambda>c. c\<lparr>cursor_row := 0, cursor_col := 0\<rparr>) s1))"

section \<open>The cursor\<close>

text \<open>The values written to the ports \<open>0x3D4\<close> and \<open>0x3D5\<close>, in order.\<close>

definition update_cursor_pos :: "nat \<Rightarrow> console_t \<Rightarrow> (u16 \<times> u8) list" where
  "update_cursor_pos idx c =
     (let pos = word_of_int (int idx * (display_cols c * display_rows c) + (cursor_row c * display_cols c + cursor_col c)) :: u16
      in [(0x3D4, 0x0F), (0x3D5, ucast (pos AND 0xFF)), (0x3D4, 0x0E), (0x3D5, ucast (drop_bit 8 pos AND 0xFF))])"

fun cursor_forward :: "nat \<Rightarrow> scr \<Rightarrow> scr" where
  "cursor_forward 0 s = s"
| "cursor_forward (Suc n) s =
     (let s1 = upd_con (\<lambda>c. c\<lparr>cursor_col := cursor_col c + 1\<rparr>) s
      in cursor_forward n
        (if cursor_col (con s1) \<ge> display_cols (con s1)
         then let s2 = upd_con (\<lambda>c. c\<lparr>cursor_col := 0, cursor_row := cursor_row c + 1\<rparr>) s1
              in if cursor_row (con s2) \<ge> display_rows (con s2) then scroll_up 1 s2 else s2
         else s1))"

fun cursor_backward :: "nat \<Rightarrow> scr \<Rightarrow> scr" where
  "cursor_backward 0 s = s"
| "cursor_backward (Suc n) s =
     cursor_backward n
       (if cursor_col (con s) > 0 then upd_con (\<lambda>c. c\<lparr>cursor_col := cursor_col c - 1\<rparr>) s
        else if cursor_row (con s) > 0
        then upd_con (\<lambda>c. c\<lparr>cursor_row := cursor_row c - 1, cursor_col := display_cols c - 1\<rparr>) s
        else s)"

fun cursor_up :: "nat \<Rightarrow> scr \<Rightarrow> scr" where
  "cursor_up 0 s = s"
| "cursor_up (Suc n) s =
     cursor_up n (if cursor_row (con s) > 0 then upd_con (\<lambda>c. c\<lparr>cursor_row := cursor_row c - 1\<rparr>) s else s)"

fun cursor_down :: "nat \<Rightarrow> scr \<Rightarrow> scr" where
  "cursor_down 0 s = s"
| "cursor_down (Suc n) s =
     (let s1 = (if cursor_row (con s) \<le> display_rows (con s) then upd_con (\<lambda>c. c\<lparr>cursor_row := cursor_row c + 1\<rparr>) s else s)
      in cursor_down n (if cursor_row (con s1) \<ge> display_rows (con s1) then scroll_up 1 s1 else s1))"

definition cursor_line_head :: "scr \<Rightarrow> scr" where
  "cursor_line_head s = upd_con (\<lambda>c. c\<lparr>cursor_col := 0\<rparr>) s"

definition set_color :: "console_color \<Rightarrow> console_color \<Rightarrow> scr \<Rightarrow> scr" where
  "set_color fg bg s = upd_con (\<lambda>c. c\<lparr>display_fg := fg, display_bg := bg\<rparr>) s"

section \<open>Characters\<close>

definition putchar_color :: "char \<Rightarrow> console_color \<Rightarrow> console_color \<Rightarrow> scr \<Rightarrow> scr" where
  "putchar_color ch fg bg s =
     (let c = con s;
          offset = cursor_col c + cursor_row c * display_cols c;
          a = cell_addr c offset
      in cursor_forward 1 (s\<lparr>vram := (vram s)(a := (vram s a)\<lparr>dc_ch := ch, dc_fg := color_code fg mod 16, dc_bg := color_code bg mod 8\<rparr>)\<rparr>))"

definition putchar :: "char \<Rightarrow> scr \<Rightarrow> scr" where
  "putchar ch s = putchar_color ch (display_fg (con s)) (display_bg (con s)) s"

definition esc :: char where "esc = CHR 0x1B"
definition backspace :: char where "backspace = CHR 0x08"
definition tab :: char where "tab = CHR 0x09"
definition enter :: char where "enter = CHR 0x0D"
definition newline :: char where "newline = CHR 0x0A"
definition delete :: char where "delete = CHR 0x7F"

definition putchar_normal :: "char \<Rightarrow> scr \<Rightarrow> scr" where
  "putchar_normal ch s =
     (if ch = newline then cursor_down 1 s
      else if ch = enter then cursor_line_head s
      else if ch = backspace then cursor_backward 1 (putchar (CHR '' '') (cursor_backward 1 s))
      else if ch = delete then cursor_backward 1 (putchar (CHR '' '') s)
      else if ch = tab then cursor_forward 4 s
      else if ch = esc then upd_con (\<lambda>c. c\<lparr>write_state := WRITE_STATE_ESC\<rparr>) s
      else if 32 \<le> (of_char ch :: nat) \<and> (of_char ch :: nat) \<le> 126 then putchar ch s
      else s)"

definition putchar_esc :: "char \<Rightarrow> scr \<Rightarrow> scr" where
  "putchar_esc ch s =
     (if ch = CHR ''[''
      then upd_con (\<lambda>c. c\<lparr>esc_params := replicate ESC_PARAMS_MAX 0, cur_esc_param := 0, write_state := WRITE_STATE_SQUARE\<rparr>) s
      else upd_con (\<lambda>c. c\<lparr>write_state := WRITE_STATE_NORMAL\<rparr>) s)"

definition color_table :: "console_color list" where
  "color_table = [Black, Red, Green, Yellow, Blue, Purple, Cyan, White]"

definition esc_set_color :: "int \<Rightarrow> scr \<Rightarrow> scr" where
  "esc_set_color param s =
     (if 30 \<le> param \<and> param \<le> 37 then set_color (color_table ! nat (param - 30)) (display_bg (con s)) s
      else if param = 39 then set_color DEFAULT_FG (display_bg (con s)) s
      else if 40 \<le> param \<and> param \<le> 47 then set_color (display_fg (con s)) (color_table ! nat (param - 40)) s
      else if param = 49 then set_color (display_fg (con s)) DEFAULT_BG s
      else s)"

text \<open>The loop over the parameters of \<open>m\<close>.\<close>

fun set_colors :: "nat list \<Rightarrow> scr \<Rightarrow> scr option" where
  "set_colors [] s = Some s"
| "set_colors (i # is) s =
     do { param \<leftarrow> nth_opt (esc_params (con s)) i; set_colors is (esc_set_color param s) }"

definition erase :: "int \<Rightarrow> scr \<Rightarrow> scr" where
  "erase param s =
     (let c = con s
      in if param = 0 then clear (cursor_row c) (display_rows c) (cursor_col c) (display_cols c) s
         else if param = 1 then clear 0 (cursor_row c) 0 (cursor_col c) s
         else if param = 2 then upd_con (\<lambda>c. c\<lparr>cursor_row := 0, cursor_col := 0\<rparr>) (clear_row 0 (display_rows c) s)
         else if param = 3 then clear_row 0 (display_rows c) s
         else s)"

definition putchar_esc_square :: "char \<Rightarrow> scr \<Rightarrow> scr option" where
  "putchar_esc_square ch s =
     (if 48 \<le> (of_char ch :: nat) \<and> (of_char ch :: nat) \<le> 57
      then do {
        num \<leftarrow> nth_opt (esc_params (con s)) (cur_esc_param (con s));
        ps \<leftarrow> upd_opt (esc_params (con s)) (cur_esc_param (con s)) (s32 (num * 10 + of_char ch - 48));
        Some (upd_con (\<lambda>c. c\<lparr>esc_params := ps\<rparr>) s)
      }
      else if ch = CHR '';'' \<and> cur_esc_param (con s) < ESC_PARAMS_MAX
      then Some (upd_con (\<lambda>c. c\<lparr>cur_esc_param := cur_esc_param c + 1\<rparr>) s)
      else do {
        let s1 = upd_con (\<lambda>c. c\<lparr>cur_esc_param := cur_esc_param c + 1\<rparr>) s;
        s2 \<leftarrow> (if ch = CHR ''m'' then set_colors [0..<cur_esc_param (con s1)] s1
               else if ch = CHR ''J''
               then do { param \<leftarrow> nth_opt (esc_params (con s1)) (cur_esc_param (con s1) - 1); Some (erase param s1) }
               else Some s1);
        Some (upd_con (\<lambda>c. c\<lparr>write_state := WRITE_STATE_NORMAL\<rparr>) s2)
      })"

section \<open>The consoles\<close>

record consoles =
  console_buf :: "console_t list"
  video :: "int \<Rightarrow> display_char_t"

definition on_console :: "nat \<Rightarrow> (scr \<Rightarrow> scr option) \<Rightarrow> consoles \<Rightarrow> consoles option" where
  "on_console i f st = do {
     c \<leftarrow> nth_opt (console_buf st) i;
     s \<leftarrow> f \<lparr>con = c, vram = video st\<rparr>;
     Some \<lparr>console_buf = (console_buf st)[i := con s], video = vram s\<rparr>
   }"

definition console_char :: "char \<Rightarrow> scr \<Rightarrow> scr option" where
  "console_char ch s =
     (case write_state (con s) of
        WRITE_STATE_NORMAL \<Rightarrow> Some (putchar_normal ch s)
      | WRITE_STATE_ESC \<Rightarrow> Some (putchar_esc ch s)
      | WRITE_STATE_SQUARE \<Rightarrow> putchar_esc_square ch s)"

definition console_putchar :: "int \<Rightarrow> char \<Rightarrow> consoles \<Rightarrow> (nat \<times> consoles) option" where
  "console_putchar idx ch st =
     (if idx < 0 \<or> idx \<ge> int CONSOLE_CNT then Some (0, st)
      else do {
        c \<leftarrow> nth_opt (console_buf st) (nat idx);
        st' \<leftarrow> on_console (nat idx) (console_char ch) st;
        Some (if write_state c = WRITE_STATE_NORMAL then 1 else 0, st')
      })"

definition console_update_cursor_pos :: "int \<Rightarrow> consoles \<Rightarrow> (u16 \<times> u8) list option" where
  "console_update_cursor_pos idx st =
     (if idx < 0 \<or> idx \<ge> int CONSOLE_CNT then Some []
      else map_option (update_cursor_pos (nat idx)) (nth_opt (console_buf st) (nat idx)))"

fun console_putstr :: "int \<Rightarrow> string \<Rightarrow> consoles \<Rightarrow> consoles option" where
  "console_putstr idx [] st = Some st"
| "console_putstr idx (ch # str) st = do { (n, st1) \<leftarrow> console_putchar idx ch st; console_putstr idx str st1 }"

definition console_cursor_forward :: "int \<Rightarrow> nat \<Rightarrow> consoles \<Rightarrow> consoles option" where
  "console_cursor_forward idx n st =
     (if idx < 0 \<or> idx \<ge> int CONSOLE_CNT then Some st else on_console (nat idx) (\<lambda>s. Some (cursor_forward n s)) st)"

definition console_cursor_backward :: "int \<Rightarrow> nat \<Rightarrow> consoles \<Rightarrow> consoles option" where
  "console_cursor_backward idx n st =
     (if idx < 0 \<or> idx \<ge> int CONSOLE_CNT then Some st else on_console (nat idx) (\<lambda>s. Some (cursor_backward n s)) st)"

end
