(* ===== verification/Console_Proofs.thy ===== *)
theory Console_Proofs
  imports Console
begin

text \<open>
  A console is a terminal of 25 lines of 80 cells.  The abstract terminal has the lines as lists; the
  operations of \<open>console.c\<close> refine those on it, keep the cursor on the screen and write nothing outside
  the cells of the console (one line more when the screen is erased).
\<close>

section \<open>The loops over cells\<close>

text \<open>The addresses of \<open>n\<close> cells from cell \<open>i\<close> on.\<close>

definition span :: "int \<Rightarrow> nat \<Rightarrow> nat \<Rightarrow> int \<Rightarrow> bool" where
  "span b i n x \<longleftrightarrow> (\<exists>k. i \<le> k \<and> k < i + n \<and> x = b + 2 * int k)"

lemma span_cell [simp]: "span b i n (b + 2 * int j) \<longleftrightarrow> i \<le> j \<and> j < i + n"
  by (auto simp: span_def)

lemma span_bounds: "span b i n x \<Longrightarrow> b + 2 * int i \<le> x \<and> x < b + 2 * int (i + n)"
  by (auto simp: span_def)

lemma span_Suc: "span b i (Suc n) x \<longleftrightarrow> x = b + 2 * int i \<or> span b (Suc i) n x"
proof
  assume "span b i (Suc n) x"
  then obtain k where k: "i \<le> k" "k < i + Suc n" "x = b + 2 * int k" by (auto simp: span_def)
  then show "x = b + 2 * int i \<or> span b (Suc i) n x" by (cases "k = i") (auto simp: span_def intro!: exI[of _ k])
qed (auto simp: span_def)

lemma clear_loop_eq:
  "clear_loop (b + 2 * int i) n v x = (if span b i n x then (v x)\<lparr>dc_ch := CHR '' ''\<rparr> else v x)"
proof (induction n arbitrary: i v)
  case 0
  then show ?case by (auto simp: span_def)
next
  case (Suc n)
  have e: "b + 2 * int i + 2 = b + 2 * int (Suc i)" by simp
  have "\<not> span b (Suc i) n (b + 2 * int i)" by simp
  then show ?case unfolding clear_loop.simps e Suc.IH span_Suc by auto
qed

lemma move_cells_eq:
  assumes "0 < d"
  shows "move_cells (b + 2 * int i) (b + 2 * int (i + d)) n v x = (if span b i n x then v (x + 2 * int d) else v x)"
proof (induction n arbitrary: i v)
  case 0
  then show ?case by (auto simp: span_def)
next
  case (Suc n)
  have e: "b + 2 * int i + 2 = b + 2 * int (Suc i)" "b + 2 * int (i + d) + 2 = b + 2 * int (Suc i + d)" by simp_all
  have n: "\<not> span b (Suc i) n (b + 2 * int i)" by simp
  have "x + 2 * int d \<noteq> b + 2 * int i" if "span b (Suc i) n x" using that assms span_bounds[OF that] by auto
  then show ?case using n unfolding move_cells.simps e Suc.IH span_Suc by (auto simp del: span_cell simp: add.assoc)
qed

section \<open>The abstract terminal\<close>

record terminal =
  t_lines :: "display_char_t list list"
  t_row :: nat
  t_col :: nat
  t_fg :: console_color
  t_bg :: console_color

definition blank :: "display_char_t \<Rightarrow> display_char_t" where
  "blank d = d\<lparr>dc_ch := CHR '' ''\<rparr>"

definition t_down :: "terminal \<Rightarrow> terminal" where
  "t_down t = (if t_row t + 1 < 25 then t\<lparr>t_row := t_row t + 1\<rparr>
     else t\<lparr>t_lines := tl (t_lines t) @ [map blank (last (t_lines t))]\<rparr>)"

definition t_forward :: "terminal \<Rightarrow> terminal" where
  "t_forward t = (if t_col t + 1 < 80 then t\<lparr>t_col := t_col t + 1\<rparr> else t_down (t\<lparr>t_col := 0\<rparr>))"

definition t_back :: "terminal \<Rightarrow> terminal" where
  "t_back t = (if 0 < t_col t then t\<lparr>t_col := t_col t - 1\<rparr>
     else if 0 < t_row t then t\<lparr>t_row := t_row t - 1, t_col := 79\<rparr> else t)"

definition t_put :: "char \<Rightarrow> terminal \<Rightarrow> terminal" where
  "t_put ch t = t_forward (t\<lparr>t_lines := (t_lines t)[t_row t := (t_lines t ! t_row t)[t_col t :=
     (t_lines t ! t_row t ! t_col t)\<lparr>dc_ch := ch, dc_fg := color_code (t_fg t), dc_bg := color_code (t_bg t) mod 8\<rparr>]]\<rparr>)"

definition t_char :: "char \<Rightarrow> terminal \<Rightarrow> terminal" where
  "t_char ch t =
     (if ch = newline then t_down t
      else if ch = enter then t\<lparr>t_col := 0\<rparr>
      else if ch = backspace then t_back (t_put (CHR '' '') (t_back t))
      else if ch = delete then t_back (t_put (CHR '' '') t)
      else if ch = tab then (t_forward ^^ 4) t
      else if 32 \<le> (of_char ch :: nat) \<and> (of_char ch :: nat) \<le> 126 then t_put ch t
      else t)"

section \<open>The abstraction\<close>

definition con_ok :: "console_t \<Rightarrow> bool" where
  "con_ok c \<longleftrightarrow> display_cols c = 80 \<and> display_rows c = 25 \<and> 0 \<le> cursor_row c \<and> cursor_row c < 25 \<and>
     0 \<le> cursor_col c \<and> cursor_col c < 80 \<and> length (esc_params c) = ESC_PARAMS_MAX"

definition cell :: "scr \<Rightarrow> nat \<Rightarrow> nat \<Rightarrow> display_char_t" where
  "cell s r k = vram s (display_base (con s) + 2 * int (80 * r + k))"

definition line :: "scr \<Rightarrow> nat \<Rightarrow> display_char_t list" where
  "line s r = map (cell s r) [0..<80]"

definition term_of :: "scr \<Rightarrow> terminal" where
  "term_of s = \<lparr>t_lines = map (line s) [0..<25], t_row = nat (cursor_row (con s)), t_col = nat (cursor_col (con s)),
     t_fg = display_fg (con s), t_bg = display_bg (con s)\<rparr>"

text \<open>Only the first \<open>n\<close> cells of the console may differ.\<close>

definition within :: "int \<Rightarrow> scr \<Rightarrow> scr \<Rightarrow> bool" where
  "within n s s' \<longleftrightarrow> display_base (con s') = display_base (con s) \<and>
     (\<forall>x. \<not> (display_base (con s) \<le> x \<and> x < display_base (con s) + 2 * n) \<longrightarrow> vram s' x = vram s x)"

lemma within_refl [simp]: "within n s s"
  by (simp add: within_def)

lemma within_trans: "within n s s1 \<Longrightarrow> within n s1 s2 \<Longrightarrow> within n s s2"
  by (simp add: within_def)

lemma within_mono: "within n s s' \<Longrightarrow> n \<le> m \<Longrightarrow> within m s s'"
  by (auto simp: within_def)

lemma within_upd_con: "(\<And>c. display_base (f c) = display_base c) \<Longrightarrow> within n s (upd_con f s)"
  by (simp add: within_def upd_con_def)

lemma lines_nth: "r < 25 \<Longrightarrow> t_lines (term_of s) ! r = line s r"
  by (simp add: term_of_def)

lemma line_nth: "k < 80 \<Longrightarrow> line s r ! k = cell s r k"
  by (simp add: line_def)

lemma length_lines [simp]: "length (t_lines (term_of s)) = 25" "length (line s r) = 80"
  by (simp_all add: term_of_def line_def)

lemma term_eqI:
  assumes "\<And>r k. r < 25 \<Longrightarrow> k < 80 \<Longrightarrow> cell s r k = t_lines t ! r ! k" "length (t_lines t) = 25" "\<And>r. r < 25 \<Longrightarrow> length (t_lines t ! r) = 80"
    "t_row t = nat (cursor_row (con s))" "t_col t = nat (cursor_col (con s))" "t_fg t = display_fg (con s)" "t_bg t = display_bg (con s)"
  shows "term_of s = (t :: terminal)"
proof -
  have "line s r = t_lines t ! r" if "r < 25" for r
    using assms(1,3) that by (intro nth_equalityI) (auto simp: line_nth)
  then have "map (line s) [0..<25] = t_lines t" using assms(2) by (intro nth_equalityI) auto
  then show ?thesis using assms(4-7) by (simp add: term_of_def)
qed

section \<open>Scrolling\<close>

definition geom :: "console_t \<Rightarrow> bool" where
  "geom c \<longleftrightarrow> display_cols c = 80 \<and> display_rows c = 25"

lemma scroll_vram:
  fixes s :: scr
  defines "b \<equiv> display_base (con s)"
  assumes "geom (con s)"
  shows "vram (scroll_up 1 s) x =
    (if span b 1920 80 x then blank (vram s x) else if span b 0 1920 x then vram s (x + 160) else vram s x)"
proof -
  have m: "move_cells b (b + 160) 1920 v x = (if span b 0 1920 x then v (x + 160) else v x)" for v
    using move_cells_eq[of 80 b 0 1920 v x] by simp
  have c: "clear_loop (b + 3840) 80 v x = (if span b 1920 80 x then blank (v x) else v x)" for v
    using clear_loop_eq[of b 1920 80 v x] by (simp add: blank_def)
  have "\<not> (span b 0 1920 x \<and> span b 1920 80 x)" using span_bounds[of b 0 1920 x] span_bounds[of b 1920 80 x] by auto
  then show ?thesis using assms(2)
    by (simp add: scroll_up_def clear_row_def clear_def Let_def upd_con_def geom_def cell_addr_def b_def[symmetric] m c)
qed

lemma scroll_con: "con (scroll_up 1 s) = (con s)\<lparr>cursor_row := cursor_row (con s) - 1\<rparr>"
  by (simp add: scroll_up_def clear_row_def clear_def Let_def upd_con_def)

lemma scroll_within:
  assumes "geom (con s)" shows "within 2000 s (scroll_up 1 s)"
  using assms span_bounds[of "display_base (con s)" 1920 80] span_bounds[of "display_base (con s)" 0 1920]
  by (force simp: within_def scroll_con scroll_vram)

lemma scroll_cell:
  assumes "geom (con s)" "r < 25" "k < 80"
  shows "cell (scroll_up 1 s) r k = (if r < 24 then cell s (Suc r) k else blank (cell s 24 k))"
proof -
  let ?b = "display_base (con s)"
  have c: "cell (scroll_up 1 s) r k = vram (scroll_up 1 s) (?b + 2 * int (80 * r + k))" by (simp add: cell_def scroll_con)
  show ?thesis
  proof (cases "r < 24")
    case True
    then have "\<not> span ?b 1920 80 (?b + 2 * int (80 * r + k))" "span ?b 0 1920 (?b + 2 * int (80 * r + k))"
      using assms(3) by (simp_all only: span_cell) auto
    then have "cell (scroll_up 1 s) r k = vram s (?b + 2 * int (80 * r + k) + 160)" by (simp only: c scroll_vram[OF assms(1)] if_False if_True)
    moreover have "?b + 2 * int (80 * r + k) + 160 = ?b + 2 * int (80 * Suc r + k)" by simp
    ultimately show ?thesis using True by (simp only: cell_def if_True)
  next
    case False
    then have r: "r = 24" using assms(2) by simp
    then have "span ?b 1920 80 (?b + 2 * int (80 * r + k))" using assms(3) by (simp only: span_cell) auto
    then have "cell (scroll_up 1 s) r k = blank (vram s (?b + 2 * int (80 * r + k)))" by (simp only: c scroll_vram[OF assms(1)] if_True)
    then show ?thesis using r by (simp add: cell_def)
  qed
qed

lemma last_line: "last (t_lines (term_of s)) = line s 24"
  by (simp add: term_of_def last_map last_upt del: upt_rec_numeral)

lemma scroll_term:
  assumes g: "geom (con s)" and row: "cursor_row (con s) = 25"
  shows "term_of (scroll_up 1 s) = (term_of s)\<lparr>t_lines := tl (t_lines (term_of s)) @ [map blank (last (t_lines (term_of s)))], t_row := 24\<rparr>"
proof (rule term_eqI, goal_cases)
  case (1 r k)
  have "last (t_lines (term_of s)) = line s 24" by (rule last_line)
  then show ?case using 1 scroll_cell[OF g 1]
    by (auto simp: nth_append nth_tl lines_nth line_nth less_Suc_eq)
next
  case (3 r)
  have "last (t_lines (term_of s)) = line s 24" by (rule last_line)
  then show ?case using 3 by (auto simp: nth_append nth_tl lines_nth)
qed (use row in \<open>simp_all add: term_of_def scroll_con\<close>)

section \<open>The cursor\<close>

text \<open>What every operation in normal mode promises.\<close>

definition refines :: "(scr \<Rightarrow> scr) \<Rightarrow> (terminal \<Rightarrow> terminal) \<Rightarrow> bool" where
  "refines f g \<longleftrightarrow> (\<forall>s. con_ok (con s) \<longrightarrow> con_ok (con (f s)) \<and> term_of (f s) = g (term_of s) \<and> within 2000 s (f s) \<and>
     write_state (con (f s)) = write_state (con s))"

lemma refinesI:
  assumes "\<And>s :: scr. con_ok (con s) \<Longrightarrow> con_ok (con (f s))" "\<And>s. con_ok (con s) \<Longrightarrow> term_of (f s) = g (term_of s)"
    "\<And>s. con_ok (con s) \<Longrightarrow> within 2000 s (f s)" "\<And>s. con_ok (con s) \<Longrightarrow> write_state (con (f s)) = write_state (con s)"
  shows "refines f g"
  using assms by (simp add: refines_def)

lemma refines_id: "refines (\<lambda>s. s) (\<lambda>t. t)"
  by (rule refinesI) auto

lemma refines_comp:
  assumes "refines f g" "refines f' g'" shows "refines (\<lambda>s. f' (f s)) (\<lambda>t. g' (g t))"
  unfolding refines_def
proof (intro allI impI)
  fix s :: scr assume "con_ok (con s)"
  then have 1: "con_ok (con (f s))" "term_of (f s) = g (term_of s)" "within 2000 s (f s)" "write_state (con (f s)) = write_state (con s)"
    using assms(1) by (auto simp: refines_def)
  then have 2: "con_ok (con (f' (f s)))" "term_of (f' (f s)) = g' (term_of (f s))" "within 2000 (f s) (f' (f s))"
      "write_state (con (f' (f s))) = write_state (con (f s))"
    using assms(2) by (auto simp: refines_def)
  show "con_ok (con (f' (f s))) \<and> term_of (f' (f s)) = g' (g (term_of s)) \<and> within 2000 s (f' (f s)) \<and>
      write_state (con (f' (f s))) = write_state (con s)"
    using 1 2 within_trans by auto
qed

lemma term_upd_con:
  assumes "\<And>c. display_base (f c) = display_base c" "\<And>c. display_fg (f c) = display_fg c" "\<And>c. display_bg (f c) = display_bg c"
  shows "term_of (upd_con f s) = (term_of s)\<lparr>t_row := nat (cursor_row (f (con s))), t_col := nat (cursor_col (f (con s)))\<rparr>"
  using assms by (simp add: term_of_def upd_con_def line_def cell_def cong: map_cong)

lemma refines_down: "refines (cursor_down 1) t_down"
proof (rule refinesI)
  fix s :: scr assume ok: "con_ok (con s)"
  define s1 where "s1 = upd_con (\<lambda>c. c\<lparr>cursor_row := cursor_row c + 1\<rparr>) s"
  have g: "geom (con s1)" "display_base (con s1) = display_base (con s)" "cursor_row (con s1) = cursor_row (con s) + 1"
    using ok by (auto simp: s1_def upd_con_def geom_def con_ok_def)
  have e: "cursor_down 1 s = (if cursor_row (con s1) \<ge> 25 then scroll_up 1 s1 else s1)"
    using ok by (simp add: One_nat_def[symmetric] del: One_nat_def) (simp add: s1_def Let_def con_ok_def upd_con_def)
  have t1: "term_of s1 = (term_of s)\<lparr>t_row := nat (cursor_row (con s) + 1)\<rparr>"
    by (simp add: s1_def term_upd_con) (simp add: term_of_def)
  show "con_ok (con (cursor_down 1 s))" using ok unfolding e by (auto simp: con_ok_def scroll_con s1_def upd_con_def)
  show "write_state (con (cursor_down 1 s)) = write_state (con s)" unfolding e by (auto simp: scroll_con s1_def upd_con_def)
  show "within 2000 s (cursor_down 1 s)"
    using scroll_within[OF g(1)] within_trans[of 2000 s s1] unfolding e by (auto simp: s1_def within_upd_con)
  show "term_of (cursor_down 1 s) = t_down (term_of s)"
  proof (cases "cursor_row (con s) + 1 < 25")
    case True
    then have "t_down (term_of s) = (term_of s)\<lparr>t_row := nat (cursor_row (con s) + 1)\<rparr>"
      using ok by (simp add: t_down_def con_ok_def) (simp add: term_of_def nat_add_distrib)
    then show ?thesis unfolding e using True t1 g(3) by simp
  next
    case False
    then have r: "cursor_row (con s) = 24" "cursor_row (con s1) = 25" using ok g(3) by (auto simp: con_ok_def)
    have "t_row (term_of s) = 24" using r by (simp add: term_of_def)
    then show ?thesis unfolding e using r scroll_term[OF g(1) r(2)] t1 by (simp add: t_down_def)
  qed
qed


lemma refines_forward: "refines (cursor_forward 1) t_forward"
proof (rule refinesI)
  fix s :: scr assume ok: "con_ok (con s)"
  define s1 where "s1 = upd_con (\<lambda>c. c\<lparr>cursor_col := cursor_col c + 1\<rparr>) s"
  define s0 where "s0 = upd_con (\<lambda>c. c\<lparr>cursor_col := 0\<rparr>) s"
  have ok0: "con_ok (con s0)" using ok by (auto simp: s0_def upd_con_def con_ok_def)
  have e: "cursor_forward 1 s = (if cursor_col (con s) + 1 \<ge> 80 then cursor_down 1 s0 else s1)"
    using ok by (simp add: s1_def s0_def Let_def con_ok_def upd_con_def)
  have d: "con_ok (con (cursor_down 1 s0))" "term_of (cursor_down 1 s0) = t_down (term_of s0)" "within 2000 s0 (cursor_down 1 s0)"
      "write_state (con (cursor_down 1 s0)) = write_state (con s0)"
    using refines_down ok0 by (auto simp: refines_def simp del: cursor_down.simps)
  have t: "term_of s1 = (term_of s)\<lparr>t_col := nat (cursor_col (con s) + 1)\<rparr>" "term_of s0 = (term_of s)\<lparr>t_col := 0\<rparr>"
    by (simp_all add: s1_def s0_def term_upd_con) (simp_all add: term_of_def)
  show "con_ok (con (cursor_forward 1 s))" unfolding e using ok d(1) by (auto simp: con_ok_def s1_def upd_con_def)
  show "write_state (con (cursor_forward 1 s)) = write_state (con s)" unfolding e using d(4) by (auto simp: s1_def s0_def upd_con_def)
  show "within 2000 s (cursor_forward 1 s)"
    unfolding e using d(3) within_trans[of 2000 s s0] by (auto simp: s1_def s0_def within_upd_con)
  have "t_col (term_of s) = nat (cursor_col (con s))" by (simp add: term_of_def)
  then show "term_of (cursor_forward 1 s) = t_forward (term_of s)"
    unfolding e using d(2) t ok by (auto simp: t_forward_def con_ok_def nat_add_distrib)
qed

lemma refines_back: "refines (cursor_backward 1) t_back"
proof (rule refinesI)
  fix s :: scr assume ok: "con_ok (con s)"
  have t: "t_col (term_of s) = nat (cursor_col (con s))" "t_row (term_of s) = nat (cursor_row (con s))" by (simp_all add: term_of_def)
  have same: "(term_of s)\<lparr>t_col := nat (cursor_col (con s))\<rparr> = term_of s" "(term_of s)\<lparr>t_row := nat (cursor_row (con s))\<rparr> = term_of s"
    by (simp_all add: term_of_def)
  show "con_ok (con (cursor_backward 1 s))" using ok by (auto simp: con_ok_def upd_con_def)
  show "write_state (con (cursor_backward 1 s)) = write_state (con s)" by (auto simp: upd_con_def)
  show "within 2000 s (cursor_backward 1 s)" by (auto simp: within_upd_con)
  show "term_of (cursor_backward 1 s) = t_back (term_of s)"
    using ok same by (auto simp: term_upd_con t_back_def t con_ok_def nat_diff_distrib)
qed

lemma refines_line_head: "refines cursor_line_head (\<lambda>t. t\<lparr>t_col := 0\<rparr>)"
  unfolding cursor_line_head_def
  by (rule refinesI) (auto simp: con_ok_def upd_con_def within_upd_con[unfolded upd_con_def] term_of_def line_def cell_def)

lemma color_code_less: "color_code c mod 16 = color_code c"
  by (cases c) auto

lemma refines_put: "refines (putchar ch) (t_put ch)"
proof (rule refinesI)
  fix s :: scr assume ok: "con_ok (con s)"
  let ?c = "con s"
  define r k where "r = nat (cursor_row ?c)" and "k = nat (cursor_col ?c)"
  have rk: "r < 25" "k < 80" "cursor_row ?c = int r" "cursor_col ?c = int k" using ok by (auto simp: con_ok_def r_def k_def)
  define a where "a = display_base ?c + 2 * int (80 * r + k)"
  define d where "d = (vram s a)\<lparr>dc_ch := ch, dc_fg := color_code (display_fg ?c), dc_bg := color_code (display_bg ?c) mod 8\<rparr>"
  define s1 where "s1 = s\<lparr>vram := (vram s)(a := d)\<rparr>"
  have e: "putchar ch s = cursor_forward 1 s1"
    using ok rk by (simp add: putchar_def putchar_color_def Let_def cell_addr_def con_ok_def s1_def d_def a_def color_code_less mult.commute add.commute
        del: cursor_forward.simps)
  have ok1: "con_ok (con s1)" using ok by (simp add: s1_def)
  have f: "con_ok (con (cursor_forward 1 s1))" "term_of (cursor_forward 1 s1) = t_forward (term_of s1)" "within 2000 s1 (cursor_forward 1 s1)"
      "write_state (con (cursor_forward 1 s1)) = write_state (con s1)"
    using refines_forward ok1 by (auto simp: refines_def simp del: cursor_forward.simps)
  have w: "within 2000 s s1" using rk by (auto simp: within_def s1_def a_def)
  have cl: "cell s1 r' k' = (if r' = r \<and> k' = k then d else cell s r' k')" if "k' < 80" for r' k'
  proof -
    have "80 * r' + k' = 80 * r + k \<longleftrightarrow> r' = r \<and> k' = k"
    proof
      assume q: "80 * r' + k' = 80 * r + k"
      then have "(80 * r' + k') div 80 = (80 * r + k) div 80" by simp
      then have "r' = r" using that rk(2) by simp
      then show "r' = r \<and> k' = k" using q by simp
    qed simp
    then show ?thesis by (auto simp: cell_def s1_def a_def)
  qed
  have tr: "t_row (term_of s) = r" "t_col (term_of s) = k" "t_fg (term_of s) = display_fg ?c" "t_bg (term_of s) = display_bg ?c"
    by (simp_all add: term_of_def r_def k_def)
  have va: "vram s a = cell s r k" by (simp add: cell_def a_def)
  have "term_of s1 = (term_of s)\<lparr>t_lines := (t_lines (term_of s))[r := (line s r)[k := d]]\<rparr>"
  proof (rule term_eqI, goal_cases)
    case (1 r' k')
    then show ?case using cl[of k' r'] rk by (auto simp: lines_nth line_nth nth_list_update)
  next
    case (3 r')
    then show ?case using rk by (cases "r' = r") (simp_all add: lines_nth)
  qed (simp_all add: s1_def term_of_def)
  then have "term_of (putchar ch s) = t_put ch (term_of s)"
    unfolding e f(2) by (simp add: t_put_def tr lines_nth rk line_nth d_def va)
  then show "term_of (putchar ch s) = t_put ch (term_of s)" .
  show "con_ok (con (putchar ch s))" "write_state (con (putchar ch s)) = write_state (con s)" unfolding e using f by (simp_all add: s1_def)
  show "within 2000 s (putchar ch s)" unfolding e using within_trans[OF w f(3)] .
qed

lemma refines_tab: "refines (cursor_forward 4) (t_forward ^^ 4)"
proof -
  have "cursor_forward (Suc n) s = cursor_forward n (cursor_forward 1 s)" for n s by (simp add: Let_def)
  then have "cursor_forward 4 = (\<lambda>s. cursor_forward 1 (cursor_forward 1 (cursor_forward 1 (cursor_forward 1 s))))"
    by (intro ext) (simp only: numeral_eq_Suc pred_numeral_simps One_nat_def[symmetric] arith_simps)
  moreover have "t_forward ^^ 4 = (\<lambda>t. t_forward (t_forward (t_forward (t_forward t))))"
    by (intro ext) (simp add: eval_nat_numeral)
  ultimately show ?thesis using refines_comp[OF refines_comp[OF refines_comp[OF refines_forward refines_forward] refines_forward] refines_forward]
    by simp
qed

section \<open>Characters in normal mode\<close>

lemma refines_normal:
  assumes "ch \<noteq> esc" shows "refines (putchar_normal ch) (t_char ch)"
proof -
  note parts = refines_down refines_line_head refines_comp[OF refines_comp[OF refines_back refines_put] refines_back]
    refines_comp[OF refines_put refines_back] refines_tab refines_put refines_id
  consider "ch = newline" | "ch = enter" | "ch = backspace" | "ch = delete" | "ch = tab"
    | "ch \<notin> {newline, enter, backspace, delete, tab}" "32 \<le> (of_char ch :: nat) \<and> (of_char ch :: nat) \<le> 126"
    | "ch \<notin> {newline, enter, backspace, delete, tab}" "\<not> (32 \<le> (of_char ch :: nat) \<and> (of_char ch :: nat) \<le> 126)" by auto
  then show ?thesis
  proof cases
    case 1
    then have "putchar_normal ch = cursor_down 1" "t_char ch = t_down" by (intro ext, simp add: putchar_normal_def t_char_def)+
    then show ?thesis using parts(1) by simp
  next
    case 2
    then have "putchar_normal ch = cursor_line_head" "t_char ch = (\<lambda>t. t\<lparr>t_col := 0\<rparr>)"
      by (intro ext, simp add: putchar_normal_def t_char_def newline_def enter_def)+
    then show ?thesis using parts(2) by simp
  next
    case 3
    then have "putchar_normal ch = (\<lambda>s. cursor_backward 1 (putchar (CHR '' '') (cursor_backward 1 s)))"
      "t_char ch = (\<lambda>t. t_back (t_put (CHR '' '') (t_back t)))"
      by (intro ext, simp add: putchar_normal_def t_char_def newline_def enter_def backspace_def)+
    then show ?thesis using parts(3) by simp
  next
    case 4
    then have "putchar_normal ch = (\<lambda>s. cursor_backward 1 (putchar (CHR '' '') s))" "t_char ch = (\<lambda>t. t_back (t_put (CHR '' '') t))"
      by (intro ext, simp add: putchar_normal_def t_char_def newline_def enter_def backspace_def delete_def)+
    then show ?thesis using parts(4) by simp
  next
    case 5
    then have "putchar_normal ch = cursor_forward 4" "t_char ch = t_forward ^^ 4"
      by (intro ext, simp add: putchar_normal_def t_char_def newline_def enter_def backspace_def delete_def tab_def)+
    then show ?thesis using parts(5) by simp
  next
    case 6
    then have "putchar_normal ch = putchar ch" "t_char ch = t_put ch" using assms by (intro ext, simp add: putchar_normal_def t_char_def)+
    then show ?thesis using parts(6) by simp
  next
    case 7
    then have "putchar_normal ch = (\<lambda>s. s)" "t_char ch = (\<lambda>t. t)" using assms
      by (intro ext, auto simp: putchar_normal_def t_char_def)+
    then show ?thesis using parts(7) by simp
  qed
qed

section \<open>Escape sequences\<close>

text \<open>
  \<open>esc_bound n c\<close>: at most \<open>n\<close> parameters have been read in an escape sequence.  As long as there are
  fewer than ten, \<open>esc_params\<close> is read and written inside.
\<close>

definition esc_bound :: "nat \<Rightarrow> console_t \<Rightarrow> bool" where
  "esc_bound n c \<longleftrightarrow> (write_state c = WRITE_STATE_SQUARE \<longrightarrow> cur_esc_param c \<le> n)"

lemma esc_set_color_con: "con_ok (con s) \<Longrightarrow> con_ok (con (esc_set_color param s))" "vram (esc_set_color param s) = vram s"
  "display_base (con (esc_set_color param s)) = display_base (con s)" "esc_params (con (esc_set_color param s)) = esc_params (con s)"
  by (simp_all add: esc_set_color_def set_color_def upd_con_def con_ok_def)

lemma set_colors_ok:
  assumes "con_ok (con s)" "\<forall>i\<in>set is. i < ESC_PARAMS_MAX"
  shows "\<exists>s'. set_colors is s = Some s' \<and> con_ok (con s') \<and> within 2000 s s'"
  using assms
proof (induction "is" arbitrary: s)
  case (Cons i "is")
  let ?s = "esc_set_color (esc_params (con s) ! i) s"
  have "within 2000 s ?s" by (simp add: within_def esc_set_color_con)
  moreover obtain s' where "set_colors is ?s = Some s'" "con_ok (con s')" "within 2000 ?s s'"
    using Cons.IH[of ?s] Cons.prems esc_set_color_con(1) by auto
  ultimately show ?case using Cons.prems within_trans by (fastforce simp: con_ok_def)
qed simp

lemma clear_within:
  assumes "geom (con s)" "0 \<le> r" "0 \<le> k" "80 * r' + k' \<le> n"
  shows "within n s (clear r r' k k' s)"
proof -
  define i where "i = nat (80 * r + k)"
  have "cell_addr (con s) (80 * r + k) = display_base (con s) + 2 * int i" using assms by (simp add: cell_addr_def i_def)
  then have v: "vram (clear r r' k k' s) x = (if span (display_base (con s)) i (nat (80 * r' + k' - (80 * r + k))) x
      then (vram s x)\<lparr>dc_ch := CHR '' ''\<rparr> else vram s x)" for x
    using assms(1) by (simp add: clear_def Let_def geom_def clear_loop_eq)
  have "display_base (con s) \<le> x \<and> x < display_base (con s) + 2 * n" if "span (display_base (con s)) i (nat (80 * r' + k' - (80 * r + k))) x" for x
    using span_bounds[OF that] that assms by (auto simp: i_def span_def)
  then show ?thesis unfolding within_def v by (auto simp: clear_def Let_def)
qed

lemma erase_ok:
  assumes "con_ok (con s)" shows "con_ok (con (erase param s))" "within 2080 s (erase param s)"
proof -
  have g: "geom (con s)" using assms by (simp add: con_ok_def geom_def)
  have c: "con (clear a b c d s) = con s" for a b c d by (simp add: clear_def Let_def)
  show "con_ok (con (erase param s))" using assms by (simp add: erase_def Let_def clear_row_def c upd_con_def con_ok_def)
  have w: "within 2080 s (clear a b c d s)" if "0 \<le> a" "0 \<le> c" "80 * b + d \<le> 2080" for a b c d
    using clear_within[OF g that] .
  have u: "within 2080 (clear a b c d s) (upd_con (\<lambda>c. c\<lparr>cursor_row := 0, cursor_col := 0\<rparr>) (clear a b c d s))" for a b c d
    by (simp add: within_upd_con)
  show "within 2080 s (erase param s)"
    using assms w within_trans[OF w u] by (auto simp: erase_def Let_def clear_row_def con_ok_def)
qed

lemma putchar_esc_square_ok:
  assumes ok: "con_ok (con s)" and p: "cur_esc_param (con s) < ESC_PARAMS_MAX"
  shows "\<exists>s'. putchar_esc_square ch s = Some s' \<and> con_ok (con s') \<and> within 2080 s s' \<and>
    (write_state (con s') = WRITE_STATE_SQUARE \<longrightarrow> cur_esc_param (con s') \<le> cur_esc_param (con s) + (if ch = CHR '';'' then 1 else 0)) \<and>
    (ch \<noteq> CHR ''J'' \<longrightarrow> within 2000 s s')"
proof -
  let ?c = "con s"
  have l: "length (esc_params ?c) = ESC_PARAMS_MAX" using ok by (simp add: con_ok_def)
  define s1 where "s1 = upd_con (\<lambda>c. c\<lparr>cur_esc_param := cur_esc_param c + 1\<rparr>) s"
  have s1: "con_ok (con s1)" "within n s s1" "esc_params (con s1) = esc_params ?c" "cur_esc_param (con s1) = cur_esc_param ?c + 1" for n
    using ok by (simp_all add: s1_def within_upd_con) (simp_all add: upd_con_def con_ok_def)
  have fin: "con_ok (con (upd_con (\<lambda>c. c\<lparr>write_state := WRITE_STATE_NORMAL\<rparr>) t)) = con_ok (con t)"
    "within n t (upd_con (\<lambda>c. c\<lparr>write_state := WRITE_STATE_NORMAL\<rparr>) t)"
    "write_state (con (upd_con (\<lambda>c. c\<lparr>write_state := WRITE_STATE_NORMAL\<rparr>) t)) = WRITE_STATE_NORMAL" for n and t :: scr
    by (simp_all add: within_upd_con) (simp_all add: upd_con_def con_ok_def)
  consider "48 \<le> (of_char ch :: nat) \<and> (of_char ch :: nat) \<le> 57" | "ch = CHR '';''" | "ch = CHR ''m''" | "ch = CHR ''J''"
    | "\<not> (48 \<le> (of_char ch :: nat) \<and> (of_char ch :: nat) \<le> 57)" "ch \<notin> {CHR '';'', CHR ''m'', CHR ''J''}" by auto
  then show ?thesis
  proof cases
    case 1
    then have "ch \<noteq> CHR '';''" by auto
    then show ?thesis using 1 p l ok
      by (simp add: putchar_esc_square_def within_upd_con) (simp add: upd_con_def con_ok_def)
  next
    case 2
    then show ?thesis using p s1 by (simp add: putchar_esc_square_def s1_def)
  next
    case 3
    have "\<forall>i\<in>set [0..<cur_esc_param (con s1)]. i < ESC_PARAMS_MAX" using p s1(4) by auto
    from set_colors_ok[OF s1(1) this] obtain s2 where s2: "set_colors [0..<cur_esc_param (con s1)] s1 = Some s2" "con_ok (con s2)" "within 2000 s1 s2" by blast
    have "putchar_esc_square ch s = Some (upd_con (\<lambda>c. c\<lparr>write_state := WRITE_STATE_NORMAL\<rparr>) s2)"
      using s2(1) 3 unfolding s1_def by (simp add: putchar_esc_square_def)
    moreover have "within 2000 s (upd_con (\<lambda>c. c\<lparr>write_state := WRITE_STATE_NORMAL\<rparr>) s2)"
      using s1(2) s2(3) fin(2) within_trans by blast
    ultimately show ?thesis using s2(2) fin within_mono[of 2000 s _ 2080] by simp
  next
    case 4
    define s2 where "s2 = erase (esc_params ?c ! cur_esc_param ?c) s1"
    have "putchar_esc_square ch s = Some (upd_con (\<lambda>c. c\<lparr>write_state := WRITE_STATE_NORMAL\<rparr>) s2)"
      using p l 4 s1(3,4) unfolding s2_def s1_def by (simp add: putchar_esc_square_def)
    moreover have "within 2080 s (upd_con (\<lambda>c. c\<lparr>write_state := WRITE_STATE_NORMAL\<rparr>) s2)" "con_ok (con s2)"
      using s1(2) erase_ok[OF s1(1)] fin(2) within_trans unfolding s2_def by blast+
    ultimately show ?thesis using fin 4 by simp
  next
    case 5
    have "putchar_esc_square ch s = Some (upd_con (\<lambda>c. c\<lparr>write_state := WRITE_STATE_NORMAL\<rparr>) s1)"
      using 5 unfolding s1_def by (auto simp: putchar_esc_square_def)
    then show ?thesis using s1(1,2) fin within_trans[OF s1(2) fin(2)] by simp
  qed
qed

lemma console_char_ok:
  assumes ok: "con_ok (con s)" and b: "esc_bound n (con s)" "n < ESC_PARAMS_MAX"
  shows "\<exists>s'. console_char ch s = Some s' \<and> con_ok (con s') \<and> within 2080 s s' \<and>
    esc_bound (n + (if ch = CHR '';'' then 1 else 0)) (con s')"
proof (cases "write_state (con s)")
  case WRITE_STATE_NORMAL
  show ?thesis
  proof (cases "ch = esc")
    case True
    then have "putchar_normal ch s = upd_con (\<lambda>c. c\<lparr>write_state := WRITE_STATE_ESC\<rparr>) s"
      by (simp add: putchar_normal_def newline_def enter_def backspace_def delete_def tab_def esc_def)
    then show ?thesis using WRITE_STATE_NORMAL ok
      by (simp add: console_char_def within_upd_con) (simp add: upd_con_def con_ok_def esc_bound_def)
  next
    case False
    then show ?thesis using refines_normal[OF False] ok WRITE_STATE_NORMAL within_mono[of 2000 s _ 2080]
      by (auto simp: refines_def console_char_def esc_bound_def)
  qed
next
  case WRITE_STATE_ESC
  then show ?thesis using ok
    by (simp add: console_char_def putchar_esc_def within_upd_con) (auto simp: upd_con_def con_ok_def esc_bound_def)
next
  case WRITE_STATE_SQUARE
  then have "cur_esc_param (con s) < ESC_PARAMS_MAX" "cur_esc_param (con s) \<le> n" using b by (auto simp: esc_bound_def)
  then show ?thesis using putchar_esc_square_ok[OF ok, of ch] WRITE_STATE_SQUARE by (fastforce simp: console_char_def esc_bound_def)
qed

end
