(* ===== verification/Console_Props.thy ===== *)
theory Console_Props
  imports Console_Proofs
begin

text \<open>What writing a string to one of the eight consoles does.\<close>

definition scr_of :: "nat \<Rightarrow> consoles \<Rightarrow> scr" where
  "scr_of i st = \<lparr>con = console_buf st ! i, vram = video st\<rparr>"

definition put_back :: "nat \<Rightarrow> scr \<Rightarrow> consoles \<Rightarrow> consoles" where
  "put_back i s st = \<lparr>console_buf = (console_buf st)[i := con s], video = vram s\<rparr>"

lemma scr_of_put_back [simp]: "i < length (console_buf st) \<Longrightarrow> scr_of i (put_back i s st) = s"
  by (simp add: scr_of_def put_back_def)

lemma put_back_put_back [simp]: "put_back i s' (put_back i s st) = put_back i s' st"
  by (simp add: put_back_def)

lemma length_put_back [simp]: "length (console_buf (put_back i s st)) = length (console_buf st)"
  by (simp add: put_back_def)

lemma console_putchar_eq:
  assumes "i < CONSOLE_CNT" "length (console_buf st) = CONSOLE_CNT" "console_char ch (scr_of i st) = Some s"
  shows "\<exists>k. console_putchar (int i) ch st = Some (k, put_back i s st)"
  using assms by (simp add: console_putchar_def on_console_def scr_of_def put_back_def)

text \<open>A property of one console that every character keeps holds after a string.\<close>

lemma console_putstr_induct:
  assumes i: "i < CONSOLE_CNT" and len: "length (console_buf st) = CONSOLE_CNT" and P: "P str (scr_of i st)"
    and step: "\<And>ch rest s. P (ch # rest) s \<Longrightarrow> \<exists>s'. console_char ch s = Some s' \<and> P rest s' \<and> within m s s'"
  shows "\<exists>s'. console_putstr (int i) str st = Some (put_back i s' st) \<and> P [] s' \<and> within m (scr_of i st) s'"
  using len P
proof (induction str arbitrary: st)
  case Nil
  have "put_back i (scr_of i st) st = st" by (simp add: put_back_def scr_of_def)
  then show ?case using Nil by (intro exI[of _ "scr_of i st"]) auto
next
  case (Cons ch str)
  obtain s1 where s1: "console_char ch (scr_of i st) = Some s1" "P str s1" "within m (scr_of i st) s1" using step[OF Cons.prems(2)] by blast
  obtain k where k: "console_putchar (int i) ch st = Some (k, put_back i s1 st)" using console_putchar_eq[OF i Cons.prems(1) s1(1)] by blast
  have l: "length (console_buf (put_back i s1 st)) = CONSOLE_CNT" "i < length (console_buf st)" using Cons.prems(1) i by auto
  obtain s' where "console_putstr (int i) str (put_back i s1 st) = Some (put_back i s' st)" "P [] s'" "within m s1 s'"
    using Cons.IH[OF l(1)] s1(2) l(2) by auto
  then show ?case using k s1(3) within_trans by auto
qed

text \<open>
  C7: Writing a string to a console whose cursor is on the screen, with at most nine semicolons counting the parameters that an escape sequence
  begun before already has, never leaves \<open>esc_params\<close>, keeps the cursor on the screen and changes at most the 26 lines from the
  start of the console; the other consoles keep their state.
\<close>

theorem console_putstr_bounds:
  assumes "i < 8" "length (console_buf st) = 8" "con_ok (console_buf st ! i)"
    "(if write_state (console_buf st ! i) = WRITE_STATE_SQUARE then cur_esc_param (console_buf st ! i) else 0) + count_list str (CHR '';'') \<le> 9"
  shows "\<exists>st'. console_putstr (int i) str st = Some st' \<and> con_ok (console_buf st' ! i) \<and>
    (\<forall>j. j \<noteq> i \<longrightarrow> console_buf st' ! j = console_buf st ! j) \<and>
    (\<forall>x. x < display_base (console_buf st ! i) \<or> display_base (console_buf st ! i) + 2 * 26 * 80 \<le> x \<longrightarrow> video st' x = video st x)"
proof -
  define P where "P str s \<longleftrightarrow> con_ok (con s) \<and> (\<exists>n. esc_bound n (con s) \<and> n + count_list str (CHR '';'') \<le> 9)" for str and s :: scr
  have step: "\<exists>s'. console_char ch s = Some s' \<and> P rest s' \<and> within 2080 s s'" if p: "P (ch # rest) s" for ch rest s
  proof -
    obtain n where n: "con_ok (con s)" "esc_bound n (con s)" "n + count_list (ch # rest) (CHR '';'') \<le> 9" using p by (auto simp: P_def)
    then have "n < ESC_PARAMS_MAX" by (simp add: ESC_PARAMS_MAX_def)
    from console_char_ok[OF n(1,2) this, of ch] obtain s' where s': "console_char ch s = Some s'" "con_ok (con s')" "within 2080 s s'"
      "esc_bound (n + (if ch = CHR '';'' then 1 else 0)) (con s')" by blast
    have "n + (if ch = CHR '';'' then 1 else 0) + count_list rest (CHR '';'') \<le> 9" using n(3) by (simp split: if_splits)
    then show ?thesis using s' unfolding P_def by blast
  qed
  let ?n = "if write_state (console_buf st ! i) = WRITE_STATE_SQUARE then cur_esc_param (console_buf st ! i) else 0"
  have "esc_bound ?n (con (scr_of i st))" by (simp add: esc_bound_def scr_of_def)
  then have "P str (scr_of i st)" unfolding P_def using assms(3,4) by (simp add: scr_of_def) blast
  note ind = console_putstr_induct[of i st P str 2080, OF _ _ this step]
  from ind obtain s' where
    s': "console_putstr (int i) str st = Some (put_back i s' st)" "con_ok (con s')" "within 2080 (scr_of i st) s'"
    using assms(1,2) by (auto simp: CONSOLE_CNT_def P_def)
  then show ?thesis using assms(1,2) by (auto simp: put_back_def within_def scr_of_def)
qed

text \<open>
  C6: A console in normal mode is a terminal of 25 lines of 80 cells: a string without escape
  characters is written as the terminal writes it, character by character, with the cursor wrapping to the
  next line and the screen scrolling up under the last one; the console touches none but its own 2000 cells.
\<close>

theorem console_refines_terminal:
  assumes "i < 8" "length (console_buf st) = 8" "con_ok (console_buf st ! i)" "write_state (console_buf st ! i) = WRITE_STATE_NORMAL"
    "esc \<notin> set str"
  shows "\<exists>st'. console_putstr (int i) str st = Some st' \<and> con_ok (console_buf st' ! i) \<and>
    term_of (scr_of i st') = fold t_char str (term_of (scr_of i st)) \<and> within 2000 (scr_of i st) (scr_of i st')"
proof -
  define P where "P rest s \<longleftrightarrow> con_ok (con s) \<and> write_state (con s) = WRITE_STATE_NORMAL \<and> esc \<notin> set rest \<and>
    fold t_char rest (term_of s) = fold t_char str (term_of (scr_of i st))" for rest and s :: scr
  have step: "\<exists>s'. console_char ch s = Some s' \<and> P rest s' \<and> within 2000 s s'" if "P (ch # rest) s" for ch rest s
    using that refines_normal[of ch] by (auto simp: P_def refines_def console_char_def)
  have "P str (scr_of i st)" using assms(3-5) by (simp add: P_def scr_of_def)
  note ind = console_putstr_induct[of i st P str 2000, OF _ _ this step]
  from ind obtain s' where
    "console_putstr (int i) str st = Some (put_back i s' st)" "P [] s'" "within 2000 (scr_of i st) s'"
    using assms(1,2) by (auto simp: CONSOLE_CNT_def)
  moreover have "console_buf (put_back i s' st) ! i = con s'" using assms(1,2) by (simp add: put_back_def)
  ultimately show ?thesis using assms(1,2) by (auto simp: P_def)
qed

section \<open>Witnesses\<close>

definition con_sample :: "nat \<Rightarrow> console_t" where
  "con_sample i = \<lparr>display_cols = 80, display_rows = 25, cursor_col = 79, cursor_row = 24, display_fg = Gray, display_bg = Black,
     display_base = CONSOLE_DISPLAY_ADDR + 2000 * int i, write_state = WRITE_STATE_NORMAL, esc_params = replicate 10 0, cur_esc_param = 0\<rparr>"

definition consoles_sample :: consoles where
  "consoles_sample = \<lparr>console_buf = map con_sample [0..<8], video = (\<lambda>_. \<lparr>dc_ch = CHR '' '', dc_fg = 7, dc_bg = 0, dc_rest = False\<rparr>)\<rparr>"

lemma consoles_sample_ok: "length (console_buf consoles_sample) = 8" "con_ok (console_buf consoles_sample ! 2)"
  "write_state (console_buf consoles_sample ! 2) = WRITE_STATE_NORMAL"
  by (simp_all add: consoles_sample_def con_sample_def con_ok_def ESC_PARAMS_MAX_def)

text \<open>The console in the middle of an escape sequence with three parameters.\<close>

definition consoles_esc :: consoles where
  "consoles_esc = consoles_sample\<lparr>console_buf := (console_buf consoles_sample)[2 := (con_sample 2)\<lparr>write_state := WRITE_STATE_SQUARE, cur_esc_param := 3\<rparr>]\<rparr>"

theorem console_putstr_bounds_witness:
  "(\<exists>st'. console_putstr 2 [esc, CHR ''['', CHR ''1'', CHR '';'', CHR ''2'', CHR ''J''] consoles_sample = Some st' \<and> con_ok (console_buf st' ! 2)) \<and>
   (\<exists>st'. console_putstr 2 '';;1;2m'' consoles_esc = Some st' \<and> con_ok (console_buf st' ! 2))"
proof -
  have e: "length (console_buf consoles_esc) = 8" "console_buf consoles_esc ! 2 = (con_sample 2)\<lparr>write_state := WRITE_STATE_SQUARE, cur_esc_param := 3\<rparr>"
    by (simp_all add: consoles_esc_def consoles_sample_def)
  then have "con_ok (console_buf consoles_esc ! 2)" by (simp add: con_sample_def con_ok_def ESC_PARAMS_MAX_def)
  then show ?thesis
    using console_putstr_bounds[of 2 consoles_sample "[esc, CHR ''['', CHR ''1'', CHR '';'', CHR ''2'', CHR ''J'']"]
      console_putstr_bounds[of 2 consoles_esc "'';;1;2m''"] consoles_sample_ok e by (auto simp: esc_def)
qed

theorem console_refines_terminal_witness:
  "con_ok (console_buf consoles_sample ! 2) \<and> (\<exists>st'. console_putstr 2 ''hi'' consoles_sample = Some st' \<and>
     term_of (scr_of 2 st') = t_char (CHR ''i'') (t_char (CHR ''h'') (term_of (scr_of 2 consoles_sample))))"
  using console_refines_terminal[of 2 consoles_sample "''hi''"] consoles_sample_ok by (auto simp: esc_def)

text \<open>A sequence with ten semicolons and a digit writes behind \<open>esc_params\<close>.\<close>

lemma console_esc_overrun:
  "console_putstr 2 (esc # CHR ''['' # replicate 10 (CHR '';'') @ ''1'') consoles_sample = None"
  by (simp add: console_putchar_def on_console_def console_char_def putchar_normal_def putchar_esc_def putchar_esc_square_def CONSOLE_CNT_def
      consoles_sample_def con_sample_def esc_def newline_def enter_def backspace_def delete_def tab_def upd_con_def ESC_PARAMS_MAX_def eval_nat_numeral)

text \<open>The base addresses are 2000 bytes apart and a console has 4000 bytes, so each shares cells with the next.\<close>

lemma consoles_overlap:
  assumes "idx + 1 < CONSOLE_CNT"
  shows "display_base (con (init_console (idx + 1) p s')) < display_base (con (init_console idx q s)) + 2 * (CONSOLE_ROW_MAX * CONSOLE_COL_MAX)"
  by (simp add: init_console_def Let_def upd_con_def clear_row_def clear_def CONSOLE_ROW_MAX_def CONSOLE_COL_MAX_def)

end
