(* ===== verification/Malloc.thy ===== *)
theory Malloc
  imports Page_Alloc
begin

text \<open>
  The heap of \<open>glibc/memory/malloc/malloc.c\<close>, used by programs (\<open>malloc\<close>, on \<open>mmap\<close>) and by the
  kernel (\<open>vmalloc\<close>).  Blocks of eight sizes are cut from pages; an arena header at the start of a
  page counts its free blocks, and a page whose blocks are all free can go back.

  Addresses are natural numbers below \<open>2 ^ 32\<close>.  The list of free blocks, whose nodes lie in the blocks,
  is the list of their addresses (its operations are those of \<open>list.c\<close>); arena headers are kept in a map
  from the address of the page; \<open>m_mem\<close> is the memory handed out, without the list nodes
  and headers that the code writes into it.  The allocator of pages is an argument, as
  in the code, over a state of its own.  \<open>None\<close> is an access to memory that is not mapped.
\<close>

section \<open>Model\<close>

record mem_block_desc =
  block_size :: nat
  free_blocks :: "nat list"
  blocks_per_arena :: nat

record mem_arena =
  ar_desc :: "nat option"
  free_cnt :: nat
  large :: bool

record 'p mheap =
  m_init :: bool
  m_descs :: "mem_block_desc list"
  m_arena :: "nat \<Rightarrow> mem_arena option"
  m_mem :: "nat \<Rightarrow> u8"
  m_pages :: 'p

definition MEM_BLOCK_CNT :: nat where "MEM_BLOCK_CNT = 8"
definition mem_page_size :: nat where "mem_page_size = 4096"
definition sizeof_mem_arena :: nat where "sizeof_mem_arena = 12"
definition sizeof_malloc_state :: nat where "sizeof_malloc_state = 236"

definition arena2block :: "nat \<Rightarrow> nat \<Rightarrow> nat \<Rightarrow> nat" where
  "arena2block arena block_idx bsize = arena + sizeof_mem_arena + block_idx * bsize"

definition block2arena :: "nat \<Rightarrow> nat" where
  "block2arena block = block - block mod 4096"

fun init_descs_loop :: "nat \<Rightarrow> nat \<Rightarrow> mem_block_desc list" where
  "init_descs_loop bsize 0 = []"
| "init_descs_loop bsize (Suc n) =
     \<lparr>block_size = bsize, free_blocks = [], blocks_per_arena = (mem_page_size - sizeof_mem_arena) div bsize\<rparr> #
     init_descs_loop (bsize * 2) n"

definition init_malloc_desc :: "mem_block_desc list" where
  "init_malloc_desc = init_descs_loop 8 MEM_BLOCK_CNT"

definition init_malloc :: "(nat \<Rightarrow> 'p \<Rightarrow> (nat \<times> 'p) option) \<Rightarrow> 'p mheap \<Rightarrow> 'p mheap option" where
  "init_malloc allocator h =
     (if m_init h then Some h
      else do {
        (a, p) \<leftarrow> allocator sizeof_malloc_state (m_pages h);
        Some (h\<lparr>m_init := True, m_descs := init_malloc_desc, m_pages := p\<rparr>)
      })"

definition mem_set :: "nat \<Rightarrow> nat \<Rightarrow> (nat \<Rightarrow> u8) \<Rightarrow> nat \<Rightarrow> u8" where
  "mem_set a len mem x = (if a \<le> x \<and> x < a + len then 0 else mem x)"

fun find_desc :: "nat \<Rightarrow> nat \<Rightarrow> mem_block_desc list \<Rightarrow> nat" where
  "find_desc idx sz [] = idx"
| "find_desc idx sz (d # ds) = (if sz \<le> block_size d then idx else find_desc (idx + 1) sz ds)"

definition upd_desc :: "nat \<Rightarrow> (mem_block_desc \<Rightarrow> mem_block_desc) \<Rightarrow> 'p mheap \<Rightarrow> 'p mheap" where
  "upd_desc idx f h = h\<lparr>m_descs := (m_descs h)[idx := f (m_descs h ! idx)]\<rparr>"

text \<open>A new arena: all its blocks go to the end of the free list.\<close>

definition new_arena :: "(nat \<Rightarrow> 'p \<Rightarrow> (nat \<times> 'p) option) \<Rightarrow> nat \<Rightarrow> 'p mheap \<Rightarrow> 'p mheap option" where
  "new_arena allocator idx h = do {
     (a, p) \<leftarrow> allocator mem_page_size (m_pages h);
     let d = m_descs h ! idx;
     let h1 = h\<lparr>m_pages := p, m_arena := (m_arena h)(a \<mapsto> \<lparr>ar_desc = Some idx, free_cnt = blocks_per_arena d, large = False\<rparr>)\<rparr>;
     Some (upd_desc idx (\<lambda>d. d\<lparr>free_blocks := free_blocks d @ map (\<lambda>i. arena2block a i (block_size d)) [0..<blocks_per_arena d]\<rparr>) h1)
   }"

definition malloc_large :: "(nat \<Rightarrow> 'p \<Rightarrow> (nat \<times> 'p) option) \<Rightarrow> u32 \<Rightarrow> 'p mheap \<Rightarrow> (nat \<times> 'p mheap) option" where
  "malloc_large allocator sz0 h = do {
     sz \<leftarrow> up2 (sz0 + of_nat sizeof_mem_arena) (of_nat mem_page_size);
     (a, p) \<leftarrow> allocator (unat sz) (m_pages h);
     Some (a + sizeof_mem_arena, h\<lparr>m_pages := p, m_mem := mem_set a (unat sz) (m_mem h),
       m_arena := (m_arena h)(a \<mapsto> \<lparr>ar_desc = None, free_cnt = unat sz div mem_page_size, large = True\<rparr>)\<rparr>)
   }"

definition malloc :: "(nat \<Rightarrow> 'p \<Rightarrow> (nat \<times> 'p) option) \<Rightarrow> u32 \<Rightarrow> 'p mheap \<Rightarrow> (nat \<times> 'p mheap) option" where
  "malloc allocator sz h0 = do {
     h \<leftarrow> init_malloc allocator h0;
     if unat sz > block_size (m_descs h ! (MEM_BLOCK_CNT - 1)) then malloc_large allocator sz h
     else do {
       let idx = find_desc 0 (unat sz) (m_descs h);
       h1 \<leftarrow> (if free_blocks (m_descs h ! idx) = [] then new_arena allocator idx h else Some h);
       case free_blocks (m_descs h1 ! idx) of [] \<Rightarrow> None
       | b # bs \<Rightarrow> do {
           arena \<leftarrow> m_arena h1 (block2arena b);
           let h2 = upd_desc idx (\<lambda>d. d\<lparr>free_blocks := bs\<rparr>) h1;
           Some (b, h2\<lparr>m_mem := mem_set b (block_size (m_descs h1 ! idx)) (m_mem h2),
             m_arena := (m_arena h2)(block2arena b \<mapsto> arena\<lparr>free_cnt := (free_cnt arena + 2 ^ 32 - 1) mod 2 ^ 32\<rparr>)\<rparr>)
         }
     }
   }"

text \<open>
  \<open>_free\<close>: \<open>munmap\<close> is called directly for a large block, \<open>unallocator\<close> for an arena.
\<close>

definition free :: "(nat \<Rightarrow> nat \<Rightarrow> 'p \<Rightarrow> 'p option) \<Rightarrow> (nat \<Rightarrow> nat \<Rightarrow> 'p \<Rightarrow> 'p option) \<Rightarrow> nat \<Rightarrow> 'p mheap \<Rightarrow> 'p mheap option" where
  "free munmap unallocator ptr h =
     (if ptr = 0 then Some h
      else do {
        arena \<leftarrow> m_arena h (block2arena ptr);
        if large arena
        then do {
          p \<leftarrow> munmap (block2arena ptr) (free_cnt arena * mem_page_size) (m_pages h);
          Some (h\<lparr>m_pages := p, m_arena := (m_arena h)(block2arena ptr := None)\<rparr>)
        }
        else do {
          idx \<leftarrow> ar_desc arena;
          let h1 = upd_desc idx (\<lambda>d. d\<lparr>free_blocks := free_blocks d @ [ptr]\<rparr>) h;
          let cnt = (free_cnt arena + 1) mod 2 ^ 32;
          let h2 = h1\<lparr>m_arena := (m_arena h1)(block2arena ptr \<mapsto> arena\<lparr>free_cnt := cnt\<rparr>)\<rparr>;
          let d = m_descs h2 ! idx;
          if length (free_blocks d) \<ge> blocks_per_arena d * 2 \<and> cnt = blocks_per_arena d
          then do {
            let blocks = map (\<lambda>i. arena2block (block2arena ptr) i (block_size d)) [0..<cnt];
            let h3 = upd_desc idx (\<lambda>d. d\<lparr>free_blocks := fold remove1 blocks (free_blocks d)\<rparr>) h2;
            p \<leftarrow> unallocator (block2arena ptr) mem_page_size (m_pages h3);
            Some (h3\<lparr>m_pages := p, m_arena := (m_arena h3)(block2arena ptr := None)\<rparr>)
          }
          else Some h2
        }
      })"

end
