(* ===== verification/Malloc_Proofs.thy ===== *)
theory Malloc_Proofs
  imports Malloc
begin

text \<open>
  The heap never hands out memory twice.  The invariant is stated over the free lists and the arena
  headers: the free blocks of a size are distinct blocks of arenas of that size, and a header counts the
  free blocks of its page.  The pages come from an allocator with the contract \<open>page_source\<close>.
\<close>

section \<open>Blocks in a page\<close>

definition bsz :: "nat \<Rightarrow> nat" where "bsz d = 8 * 2 ^ d"
definition bpa :: "nat \<Rightarrow> nat" where "bpa d = 4084 div bsz d"
definition blk :: "nat \<Rightarrow> nat \<Rightarrow> nat \<Rightarrow> nat" where "blk a d i = arena2block a i (bsz d)"

lemma init_descs_loop_eq:
  "init_descs_loop (bsz k) n = map (\<lambda>d. \<lparr>block_size = bsz d, free_blocks = [], blocks_per_arena = bpa d\<rparr>) [k..<k + n]"
proof (induction n arbitrary: k)
  case (Suc n)
  have "bsz k * 2 = bsz (Suc k)" by (simp add: bsz_def)
  moreover have "[k..<k + Suc n] = k # [Suc k..<Suc k + n]" by (simp add: upt_rec)
  moreover have "mem_page_size - sizeof_mem_arena = 4084" by (simp add: mem_page_size_def sizeof_mem_arena_def)
  ultimately show ?case using Suc[of "Suc k"] by (simp add: bpa_def del: upt_Suc)
qed simp

lemma init_malloc_desc_eq: "init_malloc_desc = map (\<lambda>d. \<lparr>block_size = bsz d, free_blocks = [], blocks_per_arena = bpa d\<rparr>) [0..<8]"
  using init_descs_loop_eq[of 0 8] by (simp add: init_malloc_desc_def MEM_BLOCK_CNT_def) (simp add: bsz_def)

lemma bsz_bounds: "d < 8 \<Longrightarrow> 8 \<le> bsz d \<and> bsz d \<le> 1024"
proof -
  assume "d < 8"
  then have "(2::nat) ^ d \<le> 2 ^ 7" by (intro power_increasing) auto
  then show ?thesis by (simp add: bsz_def)
qed

lemma bpa_bounds: "d < 8 \<Longrightarrow> 3 \<le> bpa d \<and> bpa d \<le> 510 \<and> bpa d * bsz d \<le> 4084"
proof -
  assume d: "d < 8"
  note b = bsz_bounds[OF d]
  have "4084 div 1024 \<le> bpa d" unfolding bpa_def using b by (intro div_le_mono2) auto
  moreover have "bpa d \<le> 4084 div 8" unfolding bpa_def using b by (intro div_le_mono2) auto
  ultimately show ?thesis by (simp add: bpa_def)
qed

lemma blk_page:
  assumes "a mod 4096 = 0" "d < 8" "i < bpa d"
  shows "block2arena (blk a d i) = a" "a < blk a d i" "blk a d i + bsz d \<le> a + 4096"
proof -
  have "Suc i * bsz d \<le> bpa d * bsz d" using assms(3) by (intro mult_le_mono1) simp
  then have b: "12 + i * bsz d + bsz d \<le> 4096" using bpa_bounds[OF assms(2)] by simp
  show "a < blk a d i" "blk a d i + bsz d \<le> a + 4096" using b by (simp_all add: blk_def arena2block_def sizeof_mem_arena_def)
  have lt: "12 + i * bsz d < 4096" using b bsz_bounds[OF assms(2)] by linarith
  have "(a + (12 + i * bsz d)) mod 4096 = 12 + i * bsz d"
    using assms(1) lt by (metis add_0 mod_add_left_eq mod_less)
  then show "block2arena (blk a d i) = a" by (simp add: block2arena_def blk_def arena2block_def sizeof_mem_arena_def add.assoc)
qed

lemma blk_inj:
  assumes "blk a d i = blk a' d i'" "a mod 4096 = 0" "a' mod 4096 = 0" "d < 8" "i < bpa d" "i' < bpa d"
  shows "a = a' \<and> i = i'"
proof -
  have "a = a'" using blk_page(1)[of a d i] blk_page(1)[of a' d i'] assms by metis
  moreover have "bsz d \<noteq> 0" using bsz_bounds[OF assms(4)] by simp
  ultimately show ?thesis using assms(1) by (simp add: blk_def arena2block_def)
qed

section \<open>Free lists and arena headers\<close>

definition arena :: "(nat \<Rightarrow> mem_arena option) \<Rightarrow> nat \<Rightarrow> nat \<Rightarrow> bool" where
  "arena A a d \<longleftrightarrow> (\<exists>ar. A a = Some ar \<and> \<not> large ar \<and> ar_desc ar = Some d)"

definition nfree :: "nat set \<Rightarrow> nat \<Rightarrow> nat \<Rightarrow> nat" where
  "nfree S a d = card {i. i < bpa d \<and> blk a d i \<in> S}"

definition arenas_ok :: "(nat \<Rightarrow> nat list) \<Rightarrow> (nat \<Rightarrow> mem_arena option) \<Rightarrow> bool" where
  "arenas_ok F A \<longleftrightarrow>
     (\<forall>d<8. distinct (F d) \<and> (\<forall>b\<in>set (F d). \<exists>a i. arena A a d \<and> i < bpa d \<and> b = blk a d i)) \<and>
     (\<forall>a ar. A a = Some ar \<longrightarrow> a mod 4096 = 0 \<and> a \<noteq> 0 \<and>
        (\<not> large ar \<longrightarrow> (\<exists>d<8. ar_desc ar = Some d \<and> free_cnt ar = nfree (set (F d)) a d)))"

definition live_in :: "(nat \<Rightarrow> nat list) \<Rightarrow> (nat \<Rightarrow> mem_arena option) \<Rightarrow> (nat \<times> nat) set" where
  "live_in F A = {(blk a d i, bsz d) | a d i. arena A a d \<and> d < 8 \<and> i < bpa d \<and> blk a d i \<notin> set (F d)}"

lemma arena_aligned: "arenas_ok F A \<Longrightarrow> arena A a d \<Longrightarrow> a mod 4096 = 0 \<and> a \<noteq> 0 \<and> d < 8"
  by (fastforce simp: arenas_ok_def arena_def)

lemma arena_free_cnt: "arenas_ok F A \<Longrightarrow> A a = Some ar \<Longrightarrow> \<not> large ar \<Longrightarrow> ar_desc ar = Some d \<Longrightarrow> free_cnt ar = nfree (set (F d)) a d"
  by (fastforce simp: arenas_ok_def)

lemma nfree_insert:
  assumes "a mod 4096 = 0" "d < 8" "i < bpa d" "blk a d i \<notin> S"
  shows "nfree (insert (blk a d i) S) a d = Suc (nfree S a d)"
proof -
  have "{j. j < bpa d \<and> blk a d j \<in> insert (blk a d i) S} = insert i {j. j < bpa d \<and> blk a d j \<in> S}"
    using blk_inj[of a d _ a i] assms by auto
  moreover have "i \<notin> {j. j < bpa d \<and> blk a d j \<in> S}" using assms(4) by simp
  moreover have "finite {j. j < bpa d \<and> blk a d j \<in> S}" by simp
  ultimately show ?thesis using card_insert_disjoint unfolding nfree_def by metis
qed

lemma nfree_other:
  assumes "a mod 4096 = 0" "a' mod 4096 = 0" "a' \<noteq> a" "d < 8" "i < bpa d"
  shows "nfree (insert (blk a d i) S) a' d = nfree S a' d"
proof -
  have "blk a' d j \<noteq> blk a d i" if "j < bpa d" for j using blk_inj[of a' d j a i] assms that by blast
  then have "{j. j < bpa d \<and> blk a' d j \<in> insert (blk a d i) S} = {j. j < bpa d \<and> blk a' d j \<in> S}" by auto
  then show ?thesis by (simp only: nfree_def)
qed

lemma nfree_le: "nfree S a d \<le> bpa d"
proof -
  have "nfree S a d \<le> card {..<bpa d}" unfolding nfree_def by (intro card_mono) auto
  then show ?thesis by simp
qed

text \<open>One block changes hands: the free list of its size and the counter of its arena change together.\<close>

lemma arena_upd: "A a = Some ar \<Longrightarrow> arena (A(a \<mapsto> ar\<lparr>free_cnt := c\<rparr>)) a' d' = arena A a' d'"
  by (auto simp: arena_def)

lemma swap_ok:
  assumes ok: "arenas_ok F A" and ar: "A a = Some ar" "\<not> large ar" "ar_desc ar = Some d" and i: "i < bpa d"
    and fl: "distinct fl" "\<forall>b\<in>set fl. \<exists>a i. arena A a d \<and> i < bpa d \<and> b = blk a d i"
    and c: "c = nfree (set fl) a d" and others: "\<And>a'. a' \<noteq> a \<Longrightarrow> a' mod 4096 = 0 \<Longrightarrow> nfree (set fl) a' d = nfree (set (F d)) a' d"
  shows "arenas_ok (F(d := fl)) (A(a \<mapsto> ar\<lparr>free_cnt := c\<rparr>))"
proof -
  define A' where "A' = A(a \<mapsto> ar\<lparr>free_cnt := c\<rparr>)"
  have A': "arena A' a' d' = arena A a' d'" for a' d' unfolding A'_def by (rule arena_upd) (rule ar(1))
  have 1: "\<forall>d'<8. distinct ((F(d := fl)) d') \<and> (\<forall>b\<in>set ((F(d := fl)) d'). \<exists>a i. arena A' a d' \<and> i < bpa d' \<and> b = blk a d' i)"
    using ok fl by (simp add: arenas_ok_def A')
  have "a' mod 4096 = 0 \<and> a' \<noteq> 0 \<and> (\<not> large r \<longrightarrow> (\<exists>d'<8. ar_desc r = Some d' \<and> free_cnt r = nfree (set ((F(d := fl)) d')) a' d'))"
    if r: "A' a' = Some r" for a' r
  proof (cases "a' = a")
    case True
    then have "r = ar\<lparr>free_cnt := c\<rparr>" using r by (simp add: A'_def)
    moreover have "a mod 4096 = 0 \<and> a \<noteq> 0 \<and> d < 8" using arena_aligned[OF ok, of a d] ar by (auto simp: arena_def)
    ultimately show ?thesis using True ar c by auto
  next
    case False
    then have r': "A a' = Some r" using r by (simp add: A'_def)
    have al: "a' mod 4096 = 0" "a' \<noteq> 0" using ok r' by (auto simp: arenas_ok_def)
    have "\<exists>d'<8. ar_desc r = Some d' \<and> free_cnt r = nfree (set ((F(d := fl)) d')) a' d'" if lr: "\<not> large r"
    proof -
      obtain d' where d': "d' < 8" "ar_desc r = Some d'" "free_cnt r = nfree (set (F d')) a' d'" using ok r' lr unfolding arenas_ok_def by blast
      then have "free_cnt r = nfree (set ((F(d := fl)) d')) a' d'" using others[OF False al(1)] by auto
      then show ?thesis using d' by blast
    qed
    then show ?thesis using al by blast
  qed
  with 1 show ?thesis unfolding A'_def[symmetric] arenas_ok_def by blast
qed

lemma take_ok:
  assumes ok: "arenas_ok F A" and d: "d < 8" and l: "F d = b # fl"
  obtains a i ar where "A a = Some ar" "\<not> large ar" "ar_desc ar = Some d" "i < bpa d" "b = blk a d i" "block2arena b = a"
    "0 < free_cnt ar" "free_cnt ar \<le> 510" "arenas_ok (F(d := fl)) (A(a \<mapsto> ar\<lparr>free_cnt := free_cnt ar - 1\<rparr>))"
    "live_in (F(d := fl)) (A(a \<mapsto> ar\<lparr>free_cnt := free_cnt ar - 1\<rparr>)) = insert (b, bsz d) (live_in F A)" "(b, bsz d) \<notin> live_in F A"
proof -
  have dist: "distinct (b # fl)" "\<forall>x\<in>set (b # fl). \<exists>a i. arena A a d \<and> i < bpa d \<and> x = blk a d i"
    using ok d l by (metis arenas_ok_def)+
  then obtain a i where a: "arena A a d" "i < bpa d" "b = blk a d i" by auto
  then obtain ar where ar: "A a = Some ar" "\<not> large ar" "ar_desc ar = Some d" by (auto simp: arena_def)
  have al: "a mod 4096 = 0" using arena_aligned[OF ok a(1)] by simp
  have fc: "free_cnt ar = Suc (nfree (set fl) a d)"
    using arena_free_cnt[OF ok ar] nfree_insert[OF al d a(2), of "set fl"] dist(1) l a(3) by simp
  have b510: "free_cnt ar \<le> 510" using arena_free_cnt[OF ok ar] nfree_le[of "set (F d)" a d] bpa_bounds[OF d] by simp
  have oth: "nfree (set fl) a' d = nfree (set (F d)) a' d" if "a' \<noteq> a" "a' mod 4096 = 0" for a'
    using nfree_other[OF al that(2,1) d a(2), of "set fl"] l a(3) by simp
  have fl: "distinct fl" "\<forall>x\<in>set fl. \<exists>a i. arena A a d \<and> i < bpa d \<and> x = blk a d i" using dist by auto
  have ok': "arenas_ok (F(d := fl)) (A(a \<mapsto> ar\<lparr>free_cnt := free_cnt ar - 1\<rparr>))"
    by (rule swap_ok[OF ok ar a(2) fl]) (use fc oth in auto)
  have lv: "a' = a \<and> d' = d \<and> i' = i" if "arena A a' d'" "i' < bpa d'" "blk a' d' i' = b" for a' d' i'
  proof -
    have al': "a' mod 4096 = 0" "d' < 8" using arena_aligned[OF ok that(1)] by auto
    have "a' = a" using that(3) blk_page(1)[OF al' that(2)] blk_page(1)[OF al d a(2)] a(3) by simp
    moreover from this have "d' = d" using that(1) a(1) by (auto simp: arena_def)
    ultimately show ?thesis using blk_inj[of a d i' a i] al d a(2,3) that(2,3) by simp
  qed
  define A' where "A' = A(a \<mapsto> ar\<lparr>free_cnt := free_cnt ar - 1\<rparr>)"
  have A': "arena A' a' d' = arena A a' d'" for a' d' unfolding A'_def by (rule arena_upd) (rule ar(1))
  have n: "(b, bsz d) \<notin> live_in F A"
  proof
    assume "(b, bsz d) \<in> live_in F A"
    then obtain a' d' i' where x: "b = blk a' d' i'" "arena A a' d'" "i' < bpa d'" "b \<notin> set (F d')" by (auto simp: live_in_def)
    then show False using lv[OF x(2,3)] l by auto
  qed
  have in1: "(blk a' d' i', bsz d') \<in> insert (b, bsz d) (live_in F A)" if "arena A a' d'" "d' < 8" "i' < bpa d'" "blk a' d' i' \<notin> set ((F(d := fl)) d')" for a' d' i'
  proof (cases "blk a' d' i' = b")
    case True
    then show ?thesis using lv[OF that(1,3)] by simp
  next
    case False
    then have "blk a' d' i' \<notin> set (F d')" using that(4) l by (cases "d' = d") auto
    then show ?thesis using that(1-3) unfolding live_in_def by blast
  qed
  have in2: "blk a' d' i' \<notin> set ((F(d := fl)) d')" if "blk a' d' i' \<notin> set (F d')" for a' d' i'
    using that l by (auto split: if_splits)
  have "live_in (F(d := fl)) A' = insert (b, bsz d) (live_in F A)"
  proof (intro equalityI subsetI)
    fix x assume "x \<in> live_in (F(d := fl)) A'"
    then show "x \<in> insert (b, bsz d) (live_in F A)" using in1 unfolding live_in_def[of "F(d := fl)"] A' by blast
  next
    fix x assume "x \<in> insert (b, bsz d) (live_in F A)"
    moreover have "(b, bsz d) \<in> live_in (F(d := fl)) A'" unfolding live_in_def A' using a d dist(1) by auto
    moreover have "x \<in> live_in (F(d := fl)) A'" if "x \<in> live_in F A" using that in2 unfolding live_in_def A' by blast
    ultimately show "x \<in> live_in (F(d := fl)) A'" by blast
  qed
  then have "live_in (F(d := fl)) (A(a \<mapsto> ar\<lparr>free_cnt := free_cnt ar - 1\<rparr>)) = insert (b, bsz d) (live_in F A)" by (simp only: A'_def)
  then show thesis using that[OF ar a(2,3) _ _ b510 ok'] n fc blk_page(1)[OF al d a(2)] a(3) by simp
qed

text \<open>A live block goes to the end of its free list.\<close>

lemma live_block:
  assumes "arenas_ok F A" "(b, n) \<in> live_in F A"
  obtains a d i ar where "A a = Some ar" "\<not> large ar" "ar_desc ar = Some d" "d < 8" "i < bpa d" "b = blk a d i" "n = bsz d" "b \<notin> set (F d)"
    "a mod 4096 = 0" "a \<noteq> 0" "block2arena b = a"
proof -
  obtain a d i where x: "b = blk a d i" "n = bsz d" "arena A a d" "d < 8" "i < bpa d" "b \<notin> set (F d)" using assms(2) by (auto simp: live_in_def)
  moreover obtain ar where "A a = Some ar" "\<not> large ar" "ar_desc ar = Some d" using x(3) by (auto simp: arena_def)
  moreover have "a mod 4096 = 0" "a \<noteq> 0" using arena_aligned[OF assms(1) x(3)] by auto
  ultimately show thesis using that blk_page(1)[of a d i] by metis
qed

lemma live_disjoint:
  assumes ok: "arenas_ok F A" and l: "(b, n) \<in> live_in F A" "(b', n') \<in> live_in F A" "b \<noteq> b'"
  shows "b + n \<le> b' \<or> b' + n' \<le> b"
proof -
  obtain a d i ar where x: "A a = Some ar" "\<not> large ar" "ar_desc ar = Some d" "d < 8" "i < bpa d" "b = blk a d i" "n = bsz d" "a mod 4096 = 0"
    by (rule live_block[OF ok l(1)])
  obtain a' d' i' ar' where y: "A a' = Some ar'" "\<not> large ar'" "ar_desc ar' = Some d'" "d' < 8" "i' < bpa d'" "b' = blk a' d' i'" "n' = bsz d'"
    "a' mod 4096 = 0" by (rule live_block[OF ok l(2)])
  note px = blk_page[OF x(8,4,5)] and py = blk_page[OF y(8,4,5)]
  show ?thesis
  proof (cases "a = a'")
    case True
    then have "d' = d" using x y by simp
    moreover have "i \<noteq> i'" using l(3) x y True calculation by auto
    then have "Suc i \<le> i' \<or> Suc i' \<le> i" by linarith
    then have "Suc i * bsz d \<le> i' * bsz d \<or> Suc i' * bsz d \<le> i * bsz d" using mult_le_mono1 by blast
    ultimately show ?thesis using x y True by (auto simp: blk_def arena2block_def)
  next
    case False
    then have "a + 4096 \<le> a' \<or> a' + 4096 \<le> a"
    proof -
      have "4096 dvd a" "4096 dvd a'" using x(8) y(8) by auto
      then obtain k k' where k: "a = 4096 * k" "a' = 4096 * k'" by (auto elim!: dvdE)
      then have "k < k' \<or> k' < k" using False by auto
      then show ?thesis using k by auto
    qed
    then show ?thesis using px py x y by auto
  qed
qed

lemma give_ok:
  assumes ok: "arenas_ok F A" and l: "(b, n) \<in> live_in F A" and ar: "A a = Some ar" "block2arena b = a" "ar_desc ar = Some d"
  shows "arenas_ok (F(d := F d @ [b])) (A(a \<mapsto> ar\<lparr>free_cnt := Suc (free_cnt ar)\<rparr>))"
    "live_in (F(d := F d @ [b])) (A(a \<mapsto> ar\<lparr>free_cnt := Suc (free_cnt ar)\<rparr>)) = live_in F A - {(b, n)}" "free_cnt ar < bpa d"
proof -
  obtain a' d' i ar' where x: "A a' = Some ar'" "\<not> large ar'" "ar_desc ar' = Some d'" "d' < 8" "i < bpa d'" "b = blk a' d' i" "n = bsz d'" "b \<notin> set (F d')"
    "a' mod 4096 = 0" "block2arena b = a'" by (rule live_block[OF ok l])
  then have e: "a' = a" "ar' = ar" "d' = d" using ar by auto
  note x = x[unfolded e]
  have fc: "free_cnt ar = nfree (set (F d)) a d" by (rule arena_free_cnt[OF ok x(1-3)])
  have c: "Suc (free_cnt ar) = nfree (set (F d @ [b])) a d" using nfree_insert[OF x(9,4,5), of "set (F d)"] x(6,8) fc by simp
  have fl: "distinct (F d @ [b])" "\<forall>y\<in>set (F d @ [b]). \<exists>a i. arena A a d \<and> i < bpa d \<and> y = blk a d i"
  proof -
    have "arena A a d" using x(1-3) by (auto simp: arena_def)
    then show "distinct (F d @ [b])" "\<forall>y\<in>set (F d @ [b]). \<exists>a i. arena A a d \<and> i < bpa d \<and> y = blk a d i"
      using ok x(4,5,6,8) by (auto simp: arenas_ok_def)
  qed
  show "arenas_ok (F(d := F d @ [b])) (A(a \<mapsto> ar\<lparr>free_cnt := Suc (free_cnt ar)\<rparr>))"
    by (rule swap_ok[OF ok x(1-3,5) fl c]) (use nfree_other[OF x(9) _ _ x(4,5)] x(6) in auto)
  show "free_cnt ar < bpa d" using c nfree_le[of "set (F d @ [b])" a d] by simp
  define A' where "A' = A(a \<mapsto> ar\<lparr>free_cnt := Suc (free_cnt ar)\<rparr>)"
  have A': "arena A' p q = arena A p q" for p q unfolding A'_def by (rule arena_upd) (rule x(1))
  have same: "q = d \<and> bsz q = n" if "arena A p q" "j < bpa q" "blk p q j = b" for p q j
  proof -
    have "p mod 4096 = 0" "q < 8" using arena_aligned[OF ok that(1)] by auto
    then have "p = a" using blk_page(1)[of p q j] that(2,3) x(10) by simp
    then show ?thesis using that(1) x(1-3,7) by (auto simp: arena_def)
  qed
  have mem: "(blk p q j \<notin> set ((F(d := F d @ [b])) q)) \<longleftrightarrow> blk p q j \<notin> set (F q) \<and> blk p q j \<noteq> b" if "arena A p q" "j < bpa q" for p q j
    using same[OF that] by auto
  have "live_in (F(d := F d @ [b])) A' = live_in F A - {(b, n)}"
  proof (intro equalityI subsetI)
    fix y assume "y \<in> live_in (F(d := F d @ [b])) A'"
    then obtain p q j where "y = (blk p q j, bsz q)" "arena A p q" "q < 8" "j < bpa q" "blk p q j \<notin> set ((F(d := F d @ [b])) q)"
      unfolding live_in_def A' by blast
    then show "y \<in> live_in F A - {(b, n)}" using mem by (auto simp: live_in_def)
  next
    fix y assume y: "y \<in> live_in F A - {(b, n)}"
    then obtain p q j where p: "y = (blk p q j, bsz q)" "arena A p q" "q < 8" "j < bpa q" "blk p q j \<notin> set (F q)" by (auto simp: live_in_def)
    then have "blk p q j \<noteq> b" using y same[OF p(2,4)] by auto
    then have "blk p q j \<notin> set ((F(d := F d @ [b])) q)" using mem[OF p(2,4)] p(5) by simp
    then show "y \<in> live_in (F(d := F d @ [b])) A'" using p unfolding live_in_def A' by blast
  qed
  then show "live_in (F(d := F d @ [b])) (A(a \<mapsto> ar\<lparr>free_cnt := Suc (free_cnt ar)\<rparr>)) = live_in F A - {(b, n)}" by (simp only: A'_def)
qed

text \<open>An arena that is free altogether can be taken away with its blocks, and a new one added.\<close>

lemma set_fold_remove1: "distinct xs \<Longrightarrow> distinct (fold remove1 ys xs) \<and> set (fold remove1 ys xs) = set xs - set ys"
  by (induction ys arbitrary: xs) auto

lemma nfree_full: "nfree S a d = bpa d \<Longrightarrow> i < bpa d \<Longrightarrow> blk a d i \<in> S"
proof -
  assume "nfree S a d = bpa d" "i < bpa d"
  then have "{i. i < bpa d \<and> blk a d i \<in> S} = {..<bpa d}"
    by (intro card_subset_eq) (auto simp: nfree_def)
  then show ?thesis using \<open>i < bpa d\<close> by auto
qed

lemma drop_arena_ok:
  assumes ok: "arenas_ok F A" and ar: "A a = Some ar" "\<not> large ar" "ar_desc ar = Some d" "free_cnt ar = bpa d"
  shows "arenas_ok (F(d := fold remove1 (map (blk a d) [0..<bpa d]) (F d))) (A(a := None))"
    "live_in (F(d := fold remove1 (map (blk a d) [0..<bpa d]) (F d))) (A(a := None)) = live_in F A"
proof -
  let ?B = "blk a d ` {..<bpa d}" and ?fl = "fold remove1 (map (blk a d) [0..<bpa d]) (F d)"
  have aa: "arena A a d" using ar by (auto simp: arena_def)
  have al: "a mod 4096 = 0" "d < 8" using arena_aligned[OF ok aa] by auto
  have fd: "distinct (F d)" "\<forall>b\<in>set (F d). \<exists>a i. arena A a d \<and> i < bpa d \<and> b = blk a d i" using ok al(2) unfolding arenas_ok_def by simp_all
  have "set (map (blk a d) [0..<bpa d]) = ?B" by (simp add: lessThan_atLeast0)
  then have fl: "distinct ?fl" "set ?fl = set (F d) - ?B"
    using set_fold_remove1[OF fd(1), of "map (blk a d) [0..<bpa d]"] by auto
  have full: "blk a d i \<in> set (F d)" if "i < bpa d" for i
    using nfree_full[OF _ that, of "set (F d)" a] arena_free_cnt[OF ok ar(1-3)] ar(4) by simp
  have A': "arena (A(a := None)) a' d' \<longleftrightarrow> a' \<noteq> a \<and> arena A a' d'" for a' d' by (auto simp: arena_def)
  have nf: "nfree (set ?fl) a' d = nfree (set (F d)) a' d" if "a' \<noteq> a" "a' mod 4096 = 0" for a'
  proof -
    have "blk a' d i \<notin> ?B" if "i < bpa d" for i using blk_inj[of a' d i a] al that \<open>a' \<noteq> a\<close> \<open>a' mod 4096 = 0\<close> by auto
    then have "{i. i < bpa d \<and> blk a' d i \<in> set ?fl} = {i. i < bpa d \<and> blk a' d i \<in> set (F d)}" unfolding fl(2) by blast
    then show ?thesis by (simp only: nfree_def)
  qed
  have 1: "distinct ((F(d := ?fl)) d') \<and> (\<forall>b\<in>set ((F(d := ?fl)) d'). \<exists>a' i. arena (A(a := None)) a' d' \<and> i < bpa d' \<and> b = blk a' d' i)" if d': "d' < 8" for d'
  proof (cases "d' = d")
    case True
    have "\<exists>a' i. arena (A(a := None)) a' d \<and> i < bpa d \<and> b = blk a' d i" if "b \<in> set ?fl" for b
    proof -
      have b: "b \<in> set (F d)" "b \<notin> ?B" using that fl(2) by auto
      obtain a' i where x: "arena A a' d" "i < bpa d" "b = blk a' d i" using b(1) fd(2) by meson
      then have "a' \<noteq> a" using b(2) by auto
      then show ?thesis using x unfolding A' by blast
    qed
    then show ?thesis using True fl(1) by simp
  next
    case False
    have fd': "distinct (F d')" "\<forall>b\<in>set (F d'). \<exists>a i. arena A a d' \<and> i < bpa d' \<and> b = blk a d' i" using ok d' unfolding arenas_ok_def by simp_all
    have "arena A a' d' \<Longrightarrow> a' \<noteq> a" for a' using False ar(1,3) by (auto simp: arena_def)
    then have "\<exists>a' i. arena (A(a := None)) a' d' \<and> i < bpa d' \<and> b = blk a' d' i" if "b \<in> set (F d')" for b
      using that fd'(2) unfolding A' by blast
    then show ?thesis using False fd'(1) by simp
  qed
  have 2: "a' mod 4096 = 0 \<and> a' \<noteq> 0 \<and> (\<not> large r \<longrightarrow> (\<exists>d'<8. ar_desc r = Some d' \<and> free_cnt r = nfree (set ((F(d := ?fl)) d')) a' d'))"
    if r: "(A(a := None)) a' = Some r" for a' r
  proof -
    have ne: "a' \<noteq> a" "A a' = Some r" using r by (auto split: if_splits)
    then have al': "a' mod 4096 = 0" "a' \<noteq> 0" using ok by (auto simp: arenas_ok_def)
    have "\<exists>d'<8. ar_desc r = Some d' \<and> free_cnt r = nfree (set ((F(d := ?fl)) d')) a' d'" if lr: "\<not> large r"
    proof -
      obtain d' where d': "d' < 8" "ar_desc r = Some d'" "free_cnt r = nfree (set (F d')) a' d'" using ok ne(2) lr unfolding arenas_ok_def by blast
      then have "free_cnt r = nfree (set ((F(d := ?fl)) d')) a' d'" using nf[OF ne(1) al'(1)] by auto
      then show ?thesis using d' by blast
    qed
    then show ?thesis using al' by blast
  qed
  show "arenas_ok (F(d := ?fl)) (A(a := None))" unfolding arenas_ok_def using 1 2 by blast
  have "(a' \<noteq> a \<and> arena A a' d' \<and> blk a' d' i \<notin> set ((F(d := ?fl)) d')) \<longleftrightarrow> (arena A a' d' \<and> blk a' d' i \<notin> set (F d'))" if "i < bpa d'" "d' < 8" for a' d' i
  proof -
    have da: "d' = d" if "a' = a" "arena A a' d'" using that aa by (auto simp: arena_def)
    have "blk a' d i \<notin> ?B" if "a' \<noteq> a" "arena A a' d'" "d' = d"
      using blk_inj[of a' d i a] al that \<open>i < bpa d'\<close> arena_aligned[OF ok that(2)] by auto
    then have "blk a' d' i \<notin> set ((F(d := ?fl)) d') \<longleftrightarrow> blk a' d' i \<notin> set (F d')" if "a' \<noteq> a" "arena A a' d'"
      using that by (cases "d' = d") (simp_all add: fl(2))
    then show ?thesis using full[of i] da \<open>i < bpa d'\<close> by (cases "a' = a") auto
  qed
  then show "live_in (F(d := ?fl)) (A(a := None)) = live_in F A" unfolding live_in_def A' by blast
qed

lemma new_arena_ok:
  assumes ok: "arenas_ok F A" and a: "A a = None" "a mod 4096 = 0" "a \<noteq> 0" and d: "d < 8" "F d = []"
  shows "arenas_ok (F(d := map (blk a d) [0..<bpa d])) (A(a \<mapsto> \<lparr>ar_desc = Some d, free_cnt = bpa d, large = False\<rparr>))"
    "live_in (F(d := map (blk a d) [0..<bpa d])) (A(a \<mapsto> \<lparr>ar_desc = Some d, free_cnt = bpa d, large = False\<rparr>)) = live_in F A"
proof -
  let ?fl = "map (blk a d) [0..<bpa d]"
  define A' where "A' = A(a \<mapsto> \<lparr>ar_desc = Some d, free_cnt = bpa d, large = False\<rparr>)"
  have A': "arena A' a' d' \<longleftrightarrow> (a' = a \<and> d' = d) \<or> (a' \<noteq> a \<and> arena A a' d')" for a' d' by (auto simp: arena_def A'_def)
  have na: "\<not> arena A a d'" for d' using a(1) by (simp add: arena_def)
  have dist: "distinct ?fl" using blk_inj[of a d _ a] a d by (auto simp: distinct_map inj_on_def)
  have nf: "nfree (set ?fl) a' d = (if a' = a then bpa d else 0)" if "a' mod 4096 = 0" for a'
  proof (cases "a' = a")
    case True
    then have "{i. i < bpa d \<and> blk a' d i \<in> set ?fl} = {..<bpa d}" by auto
    then show ?thesis using True by (simp add: nfree_def)
  next
    case False
    then have "{i. i < bpa d \<and> blk a' d i \<in> set ?fl} = {}" using blk_inj[of a' d _ a] a d that by auto
    then show ?thesis using False unfolding nfree_def by simp
  qed
  have z: "nfree (set (F d)) a' d = 0" for a' using d(2) by (simp add: nfree_def)
  have 1: "distinct ((F(d := ?fl)) d') \<and> (\<forall>b\<in>set ((F(d := ?fl)) d'). \<exists>a' i. arena A' a' d' \<and> i < bpa d' \<and> b = blk a' d' i)" if d': "d' < 8" for d'
  proof (cases "d' = d")
    case True
    have "\<exists>a' i. arena A' a' d \<and> i < bpa d \<and> b = blk a' d i" if "b \<in> set ?fl" for b
    proof -
      obtain i where "i < bpa d" "b = blk a d i" using \<open>b \<in> set ?fl\<close> by auto
      then show ?thesis unfolding A' by blast
    qed
    then show ?thesis using dist True by simp
  next
    case False
    have fd': "distinct (F d')" "\<forall>b\<in>set (F d'). \<exists>a i. arena A a d' \<and> i < bpa d' \<and> b = blk a d' i" using ok d' unfolding arenas_ok_def by blast+
    have "arena A a' d' \<Longrightarrow> a' \<noteq> a" for a' using na by blast
    then have "\<exists>a' i. arena A' a' d' \<and> i < bpa d' \<and> b = blk a' d' i" if "b \<in> set (F d')" for b using that fd'(2) unfolding A' by blast
    then show ?thesis using False fd'(1) by simp
  qed
  have 2: "a' mod 4096 = 0 \<and> a' \<noteq> 0 \<and> (\<not> large r \<longrightarrow> (\<exists>d'<8. ar_desc r = Some d' \<and> free_cnt r = nfree (set ((F(d := ?fl)) d')) a' d'))"
    if r: "A' a' = Some r" for a' r
  proof (cases "a' = a")
    case True
    then show ?thesis using r a d nf[OF a(2)] by (auto simp: A'_def)
  next
    case False
    then have ne: "A a' = Some r" using r by (simp add: A'_def)
    then have al': "a' mod 4096 = 0" "a' \<noteq> 0" using ok by (auto simp: arenas_ok_def)
    have "\<exists>d'<8. ar_desc r = Some d' \<and> free_cnt r = nfree (set ((F(d := ?fl)) d')) a' d'" if lr: "\<not> large r"
    proof -
      obtain d' where d': "d' < 8" "ar_desc r = Some d'" "free_cnt r = nfree (set (F d')) a' d'" using ok ne lr unfolding arenas_ok_def by blast
      then have "free_cnt r = nfree (set ((F(d := ?fl)) d')) a' d'" using nf[OF al'(1)] False z[of a'] by auto
      then show ?thesis using d' by blast
    qed
    then show ?thesis using al' by blast
  qed
  show "arenas_ok (F(d := ?fl)) (A(a \<mapsto> \<lparr>ar_desc = Some d, free_cnt = bpa d, large = False\<rparr>))"
    unfolding A'_def[symmetric] arenas_ok_def using 1 2 by blast
  have "(arena A' a' d' \<and> blk a' d' i \<notin> set ((F(d := ?fl)) d')) \<longleftrightarrow> (arena A a' d' \<and> blk a' d' i \<notin> set (F d'))" if "i < bpa d'" "d' < 8" for a' d' i
  proof -
    have "blk a' d i \<notin> set ?fl" if x: "a' \<noteq> a" "arena A a' d'" "d' = d"
    proof
      assume "blk a' d i \<in> set ?fl"
      then obtain j where "j < bpa d" "blk a' d i = blk a d j" by auto
      then show False using blk_inj[of a' d i a j] a(2) d(1) x \<open>i < bpa d'\<close> arena_aligned[OF ok x(2)] by simp
    qed
    then show ?thesis using na d(2) that by (cases "a' = a"; cases "d' = d") (auto simp: A')
  qed
  then show "live_in (F(d := ?fl)) (A(a \<mapsto> \<lparr>ar_desc = Some d, free_cnt = bpa d, large = False\<rparr>)) = live_in F A"
    unfolding A'_def[symmetric] live_in_def by blast
qed

section \<open>The pages of an arena\<close>

text \<open>An arena of small blocks is one page; a large block has \<open>free_cnt\<close> pages and begins behind the header.  No page belongs to two arenas.\<close>

definition run_of :: "nat \<Rightarrow> nat \<Rightarrow> nat set" where
  "run_of a k = (\<lambda>j. a + 4096 * j) ` {..<k}"

definition npages :: "mem_arena \<Rightarrow> nat" where
  "npages ar = (if large ar then free_cnt ar else 1)"

definition areas_ok :: "(nat \<Rightarrow> mem_arena option) \<Rightarrow> nat set \<Rightarrow> bool" where
  "areas_ok A L \<longleftrightarrow> (\<forall>a ar. A a = Some ar \<longrightarrow> 0 < npages ar \<and> run_of a (npages ar) \<subseteq> L) \<and>
     (\<forall>a ar b br. A a = Some ar \<and> A b = Some br \<and> a \<noteq> b \<longrightarrow> run_of a (npages ar) \<inter> run_of b (npages br) = {})"

definition large_live :: "(nat \<Rightarrow> mem_arena option) \<Rightarrow> (nat \<times> nat) set" where
  "large_live A = {(a + sizeof_mem_arena, 4096 * free_cnt ar - sizeof_mem_arena) | a ar. A a = Some ar \<and> large ar}"

lemma run_of_one [simp]: "run_of a 1 = {a}" "run_of a (Suc 0) = {a}"
  by (simp_all add: run_of_def lessThan_Suc)

lemma run_of_start: "0 < k \<Longrightarrow> a \<in> run_of a k"
  by (force simp: run_of_def)

lemma areas_dom: "areas_ok A L \<Longrightarrow> A a = Some ar \<Longrightarrow> a \<in> L"
  using run_of_start[of "npages ar" a] by (auto simp: areas_ok_def)

lemma areas_area: "areas_ok A L \<Longrightarrow> A a = Some ar \<Longrightarrow> 0 < npages ar \<and> run_of a (npages ar) \<subseteq> L"
  unfolding areas_ok_def by blast

lemma areas_apart: "areas_ok A L \<Longrightarrow> A a = Some ar \<Longrightarrow> A b = Some br \<Longrightarrow> a \<noteq> b \<Longrightarrow> run_of a (npages ar) \<inter> run_of b (npages br) = {}"
  unfolding areas_ok_def by blast

lemma areas_upd:
  assumes "areas_ok A L" "A a = Some ar" "npages ar' = npages ar"
  shows "areas_ok (A(a \<mapsto> ar')) L"
proof -
  have "\<exists>r'. A b = Some r' \<and> npages r' = npages r" if "(A(a \<mapsto> ar')) b = Some r" for b r
    using that assms(2,3) by (auto split: if_splits)
  then show ?thesis using assms(1) unfolding areas_ok_def by metis
qed

lemma areas_new:
  assumes "areas_ok A L" "run_of a (npages ar) \<inter> L = {}" "0 < npages ar"
  shows "areas_ok (A(a \<mapsto> ar)) (L \<union> run_of a (npages ar))"
proof -
  have old: "b = a \<and> br = ar \<or> A b = Some br" if "(A(a \<mapsto> ar)) b = Some br" for b br using that by (auto split: if_splits)
  have 1: "0 < npages br \<and> run_of b (npages br) \<subseteq> L \<union> run_of a (npages ar)" if "(A(a \<mapsto> ar)) b = Some br" for b br
    using old[OF that] areas_area[OF assms(1), of b br] assms(3) by blast
  have 2: "run_of b (npages br) \<inter> run_of c (npages cr) = {}" if x: "(A(a \<mapsto> ar)) b = Some br" "(A(a \<mapsto> ar)) c = Some cr" "b \<noteq> c" for b br c cr
    using old[OF x(1)] old[OF x(2)] x(3) areas_area[OF assms(1), of b br] areas_area[OF assms(1), of c cr] areas_apart[OF assms(1), of b br c cr] assms(2) by blast
  show ?thesis unfolding areas_ok_def using 1 2 by blast
qed

lemma areas_drop:
  assumes "areas_ok A L" "A a = Some ar" "\<not> large ar"
  shows "areas_ok (A(a := None)) (L - {a})"
proof -
  have "run_of a (npages ar) = {a}" using assms(3) by (simp add: npages_def)
  then have "a \<notin> run_of b (npages br)" if "A b = Some br" "b \<noteq> a" for b br using assms(1,2) that unfolding areas_ok_def by blast
  moreover have "A b = Some br \<and> b \<noteq> a" if "(A(a := None)) b = Some br" for b br using that by (auto split: if_splits)
  ultimately show ?thesis using assms(1) unfolding areas_ok_def by (metis Diff_empty subset_Diff_insert)
qed

lemma runs_apart:
  assumes "a mod 4096 = 0" "b mod 4096 = 0" "0 < k" "0 < n" "run_of a k \<inter> run_of b n = {}"
  shows "a + 4096 * k \<le> b \<or> b + 4096 * n \<le> a"
proof -
  obtain p q where pq: "a = 4096 * p" "b = 4096 * q" using assms(1,2) by (auto elim!: dvdE simp: mod_eq_0_iff_dvd)
  have "p + k \<le> q \<or> q + n \<le> p"
  proof (rule ccontr)
    assume h: "\<not> ?thesis"
    show False
    proof (cases "p \<le> q")
      case True
      then have "b \<in> run_of a k" using h pq by (auto simp: run_of_def intro!: image_eqI[of _ _ "q - p"])
      then show False using assms(4,5) run_of_start[of n b] by blast
    next
      case False
      then have "a \<in> run_of b n" using h pq by (auto simp: run_of_def intro!: image_eqI[of _ _ "p - q"])
      then show False using assms(3,5) run_of_start[of k a] by blast
    qed
  qed
  then show ?thesis using pq by auto
qed

lemma large_live_iff: "x \<in> large_live A \<longleftrightarrow> (\<exists>a ar. x = (a + sizeof_mem_arena, 4096 * free_cnt ar - sizeof_mem_arena) \<and> A a = Some ar \<and> large ar)"
  by (auto simp: large_live_def)

lemma large_live_cong: "(\<And>a ar. large ar \<Longrightarrow> A a = Some ar \<longleftrightarrow> B a = Some ar) \<Longrightarrow> large_live A = large_live B"
  by (rule set_eqI) (auto simp: large_live_iff)

lemma large_live_upd: "\<not> large ar' \<Longrightarrow> (\<And>ar. A a = Some ar \<Longrightarrow> \<not> large ar) \<Longrightarrow> large_live (A(a \<mapsto> ar')) = large_live A"
  by (rule large_live_cong) auto

lemma large_live_drop: "(\<And>ar. A a = Some ar \<Longrightarrow> \<not> large ar) \<Longrightarrow> large_live (A(a := None)) = large_live A"
  by (rule large_live_cong) auto

lemma large_live_new: "A a = None \<Longrightarrow> large ar \<Longrightarrow>
  large_live (A(a \<mapsto> ar)) = insert (a + sizeof_mem_arena, 4096 * free_cnt ar - sizeof_mem_arena) (large_live A)"
  by (auto simp: large_live_def split: if_splits)

lemma live_in_large:
  assumes "A a = None" "large ar"
  shows "live_in F (A(a \<mapsto> ar)) = live_in F A" "arenas_ok F A \<Longrightarrow> a mod 4096 = 0 \<Longrightarrow> a \<noteq> 0 \<Longrightarrow> arenas_ok F (A(a \<mapsto> ar))"
proof -
  have A: "arena (A(a \<mapsto> ar)) = arena A" using assms by (auto simp: arena_def fun_eq_iff)
  show "live_in F (A(a \<mapsto> ar)) = live_in F A" by (simp add: live_in_def A)
  show "arenas_ok F (A(a \<mapsto> ar))" if "arenas_ok F A" "a mod 4096 = 0" "a \<noteq> 0"
    using that assms unfolding arenas_ok_def A by (auto split: if_splits)
qed

lemma small_or_large:
  assumes "areas_ok A L"
  shows "(b, n) \<in> live_in F A \<Longrightarrow> n \<le> 1024" "(b, n) \<in> large_live A \<Longrightarrow> 4084 \<le> n"
proof -
  show "(b, n) \<in> live_in F A \<Longrightarrow> n \<le> 1024" using bsz_bounds by (auto simp: live_in_def)
  assume "(b, n) \<in> large_live A"
  then obtain a ar where x: "A a = Some ar" "large ar" "n = 4096 * free_cnt ar - sizeof_mem_arena" by (auto simp: large_live_def)
  then have "0 < free_cnt ar" using areas_area[OF assms x(1)] by (simp add: npages_def)
  then show "4084 \<le> n" using x(3) by (simp add: sizeof_mem_arena_def)
qed

text \<open>Where a live block lies.\<close>

lemma live_in_arena:
  assumes "arenas_ok F A" "areas_ok A L" "(b, n) \<in> live_in F A \<union> large_live A"
  obtains a ar where "A a = Some ar" "block2arena b = a" "a mod 4096 = 0" "a \<noteq> 0" "a + 12 \<le> b" "b + n \<le> a + 4096 * npages ar"
    "if large ar then b = a + 12 \<and> n = 4096 * free_cnt ar - 12 else (b, n) \<in> live_in F A"
proof (cases "(b, n) \<in> live_in F A")
  case True
  obtain a d i ar where x: "A a = Some ar" "\<not> large ar" "ar_desc ar = Some d" "d < 8" "i < bpa d" "b = blk a d i" "n = bsz d" "b \<notin> set (F d)"
    "a mod 4096 = 0" "a \<noteq> 0" "block2arena b = a" by (rule live_block[OF assms(1) True])
  then show thesis using that[of a ar] True blk_page(3)[OF x(9,4,5)] by (simp add: npages_def blk_def arena2block_def sizeof_mem_arena_def)
next
  case False
  then obtain a ar where x: "A a = Some ar" "large ar" "b = a + 12" "n = 4096 * free_cnt ar - 12" using assms(3)
    by (auto simp: large_live_def sizeof_mem_arena_def)
  have "a mod 4096 = 0" "a \<noteq> 0" using assms(1) x(1) by (auto simp: arenas_ok_def)
  moreover have "0 < free_cnt ar" using areas_area[OF assms(2) x(1)] x(2) by (simp add: npages_def)
  moreover have "block2arena b = a" using calculation(1) x(3) by (simp add: block2arena_def mod_add_left_eq[symmetric, of a])
  ultimately show thesis using that[of a ar] x by (simp add: npages_def)
qed

lemma blocks_apart:
  assumes "arenas_ok F A" "areas_ok A L" "(b, n) \<in> live_in F A \<union> large_live A" "(b', n') \<in> live_in F A \<union> large_live A" "b \<noteq> b'"
  shows "b + n \<le> b' \<or> b' + n' \<le> b"
proof -
  obtain a ar where x: "A a = Some ar" "a mod 4096 = 0" "a + 12 \<le> b" "b + n \<le> a + 4096 * npages ar"
    "if large ar then b = a + 12 \<and> n = 4096 * free_cnt ar - 12 else (b, n) \<in> live_in F A" using live_in_arena[OF assms(1-3)] by metis
  obtain a' ar' where y: "A a' = Some ar'" "a' mod 4096 = 0" "a' + 12 \<le> b'" "b' + n' \<le> a' + 4096 * npages ar'"
    "if large ar' then b' = a' + 12 \<and> n' = 4096 * free_cnt ar' - 12 else (b', n') \<in> live_in F A" using live_in_arena[OF assms(1,2,4)] by metis
  show ?thesis
  proof (cases "a = a'")
    case True
    then have "ar = ar'" using x(1) y(1) by simp
    then show ?thesis using x(5) y(5) True assms(5) live_disjoint[OF assms(1), of b n b' n'] by (auto split: if_splits)
  next
    case False
    have "0 < npages ar" "0 < npages ar'" using areas_area[OF assms(2)] x(1) y(1) by blast+
    moreover have "run_of a (npages ar) \<inter> run_of a' (npages ar') = {}" by (rule areas_apart[OF assms(2) x(1) y(1) False])
    ultimately have "a + 4096 * npages ar \<le> a' \<or> a' + 4096 * npages ar' \<le> a" by (intro runs_apart x(2) y(2))
    then show ?thesis using x(3,4) y(3,4) by linarith
  qed
qed

lemma block_size_unique:
  assumes "arenas_ok F A" "areas_ok A L" "(b, n) \<in> live_in F A \<union> large_live A" "(b, n') \<in> live_in F A \<union> large_live A"
  shows "n = n'"
proof -
  obtain a ar where x: "A a = Some ar" "block2arena b = a" 
    "if large ar then b = a + 12 \<and> n = 4096 * free_cnt ar - 12 else (b, n) \<in> live_in F A" using live_in_arena[OF assms(1-3)] by metis
  obtain a' ar' where y: "A a' = Some ar'" "block2arena b = a'"
    "if large ar' then b = a' + 12 \<and> n' = 4096 * free_cnt ar' - 12 else (b, n') \<in> live_in F A" using live_in_arena[OF assms(1,2,4)] by metis
  have e: "a' = a" "ar' = ar" using x y by auto
  show ?thesis
  proof (cases "large ar")
    case False
    then have l: "(b, n) \<in> live_in F A" "(b, n') \<in> live_in F A" using x(3) y(3) e by auto
    obtain d where d: "ar_desc ar = Some d" "n = bsz d" by (rule live_block[OF assms(1) l(1)]) (use x in auto)
    obtain d' where "ar_desc ar = Some d'" "n' = bsz d'" by (rule live_block[OF assms(1) l(2)]) (use x in auto)
    then show ?thesis using d by simp
  qed (use x(3) y(3) e in simp)
qed
text \<open>The counter of a page says when none of its blocks is live.\<close>

lemma arena_full_iff:
  assumes ok: "arenas_ok F A" "areas_ok A L" and ar: "A a = Some ar" "\<not> large ar" "ar_desc ar = Some d"
  shows "free_cnt ar = bpa d \<longleftrightarrow> (\<forall>(b, n)\<in>live_in F A \<union> large_live A. block2arena b \<noteq> a)"
proof -
  have aa: "arena A a d" using ar by (auto simp: arena_def)
  have al: "a mod 4096 = 0" "d < 8" using arena_aligned[OF ok(1) aa] by auto
  have fc: "free_cnt ar = nfree (set (F d)) a d" by (rule arena_free_cnt[OF ok(1) ar])
  show ?thesis
  proof
    assume full: "free_cnt ar = bpa d"
    have "False" if "(b, n) \<in> live_in F A \<union> large_live A" "block2arena b = a" for b n
    proof -
      have "(b, n) \<in> live_in F A" by (rule live_in_arena[OF ok that(1)]) (use that(2) ar in auto)
      then show False by (rule live_block[OF ok(1)]) (use that(2) ar nfree_full[of "set (F d)" a d] full fc in auto)
    qed
    then show "\<forall>(b, n)\<in>live_in F A \<union> large_live A. block2arena b \<noteq> a" by blast
  next
    assume none: "\<forall>(b, n)\<in>live_in F A \<union> large_live A. block2arena b \<noteq> a"
    have "blk a d i \<in> set (F d)" if i: "i < bpa d" for i
    proof (rule ccontr)
      assume "blk a d i \<notin> set (F d)"
      then have "(blk a d i, bsz d) \<in> live_in F A" using aa al(2) i unfolding live_in_def by blast
      then show False using none blk_page(1)[OF al i] by blast
    qed
    then have "{i. i < bpa d \<and> blk a d i \<in> set (F d)} = {..<bpa d}" by auto
    then show "free_cnt ar = bpa d" using fc by (simp add: nfree_def)
  qed
qed

end
