(* ===== verification/Malloc_Props.thy ===== *)
theory Malloc_Props
  imports Malloc_Proofs Paging_Proofs
begin

text \<open>
  The heap over a source of pages.  The locale \<open>page_source\<close> is what \<open>malloc.c\<close> needs of its
  allocator; the kernel's allocator (\<open>alloc_kernel_mem\<close>, \<open>paging.c\<close>) is an instance, and the two properties
  are about \<open>vmalloc\<close> and \<open>vfree\<close> over it.
\<close>

section \<open>The heap over a source of pages\<close>

definition descs_ok :: "mem_block_desc list \<Rightarrow> bool" where
  "descs_ok ds \<longleftrightarrow> length ds = 8 \<and> (\<forall>d<8. block_size (ds ! d) = bsz d \<and> blocks_per_arena (ds ! d) = bpa d)"

definition flists :: "'p mheap \<Rightarrow> nat \<Rightarrow> nat list" where
  "flists h d = free_blocks (m_descs h ! d)"

text \<open>The blocks handed out, with their sizes: small ones, which are not in a free list, and large ones.\<close>

definition heap_live :: "'p mheap \<Rightarrow> (nat \<times> nat) set" where
  "heap_live h = (if m_init h then live_in (flists h) (m_arena h) \<union> large_live (m_arena h) else {})"

lemma find_desc_bsz:
  assumes "descs_ok ds" "sz \<le> 1024"
  shows "find_desc 0 sz ds < 8 \<and> sz \<le> bsz (find_desc 0 sz ds)"
proof -
  have g: "find_desc (length ps) sz qs < 8 \<and> sz \<le> bsz (find_desc (length ps) sz qs)" if "ds = ps @ qs" "qs \<noteq> []" for ps qs
    using that
  proof (induction qs arbitrary: ps)
    case (Cons q qs)
    have n: "ds ! length ps = q" "length ps < 8" using Cons.prems assms(1) by (auto simp: descs_ok_def)
    show ?case
    proof (cases "sz \<le> block_size q")
      case True
      then show ?thesis using n assms(1) by (auto simp: descs_ok_def)
    next
      case False
      have "qs \<noteq> []"
      proof
        assume "qs = []"
        then have "length ps = 7" using Cons.prems assms(1) by (auto simp: descs_ok_def)
        then have "block_size q = 1024" using n assms(1) by (auto simp: descs_ok_def bsz_def)
        then show False using False assms(2) by simp
      qed
      then show ?thesis using Cons.IH[of "ps @ [q]"] Cons.prems(1) False by simp
    qed
  qed simp
  have "ds \<noteq> []" using assms(1) by (auto simp: descs_ok_def)
  then show ?thesis using g[of "[]" ds] by simp
qed

lemma flists_upd:
  assumes "descs_ok (m_descs h)" "d < 8"
  shows "flists (upd_desc d (\<lambda>x. x\<lparr>free_blocks := f x\<rparr>) h) = (flists h)(d := f (m_descs h ! d))"
    "descs_ok (m_descs (upd_desc d (\<lambda>x. x\<lparr>free_blocks := f x\<rparr>) h))"
  using assms by (auto simp: flists_def upd_desc_def descs_ok_def nth_list_update fun_eq_iff)

lemma upd_desc_sel:
  "m_arena (upd_desc d f h) = m_arena h" "m_mem (upd_desc d f h) = m_mem h" "m_pages (upd_desc d f h) = m_pages h"
  "m_init (upd_desc d f h) = m_init h"
  by (simp_all add: upd_desc_def)

lemma flists_fields:
  "flists (h\<lparr>m_mem := m\<rparr>) = flists h" "flists (h\<lparr>m_pages := p\<rparr>) = flists h" "flists (h\<lparr>m_mem := m, m_arena := A\<rparr>) = flists h" "flists (h\<lparr>m_arena := A\<rparr>) = flists h"
  "flists (h\<lparr>m_pages := p, m_arena := A\<rparr>) = flists h"
  by (simp_all add: flists_def fun_eq_iff)

locale page_source =
  fixes inv :: "'p \<Rightarrow> bool" and live :: "'p \<Rightarrow> nat set" and avail :: "'p \<Rightarrow> nat"
    and fits :: "nat \<Rightarrow> 'p \<Rightarrow> bool"
    and allocator :: "nat \<Rightarrow> 'p \<Rightarrow> (nat \<times> 'p) option" and unallocator :: "nat \<Rightarrow> nat \<Rightarrow> 'p \<Rightarrow> 'p option"
  assumes page_get: "\<lbrakk>inv p; 0 < avail p; 0 < n; n \<le> 4096\<rbrakk> \<Longrightarrow> \<exists>a p'. allocator n p = Some (a, p') \<and> a mod 4096 = 0 \<and> a \<noteq> 0 \<and>
      a \<notin> live p \<and> live p' = insert a (live p) \<and> inv p' \<and> avail p' = avail p - 1"
    and page_run: "\<lbrakk>inv p; 0 < k; fits k p\<rbrakk> \<Longrightarrow> \<exists>a p'. allocator (4096 * k) p = Some (a, p') \<and> a mod 4096 = 0 \<and> a \<noteq> 0 \<and>
      run_of a k \<inter> live p = {} \<and> live p' = live p \<union> run_of a k \<and> inv p'"
    and page_put: "\<lbrakk>inv p; a \<in> live p\<rbrakk> \<Longrightarrow> \<exists>p'. unallocator a 4096 p = Some p' \<and> live p' = live p - {a} \<and> inv p' \<and> avail p' = avail p + 1"
begin

definition heap_ok :: "'p mheap \<Rightarrow> bool" where
  "heap_ok h \<longleftrightarrow> inv (m_pages h) \<and> areas_ok (m_arena h) (live (m_pages h)) \<and>
     (if m_init h then descs_ok (m_descs h) \<and> arenas_ok (flists h) (m_arena h) else m_arena h = Map.empty)"

lemma init_ok:
  assumes "heap_ok h" "m_init h \<or> 0 < avail (m_pages h)"
  obtains h' where "init_malloc allocator h = Some h'" "heap_ok h'" "m_init h'" "heap_live h' = heap_live h" "m_mem h' = m_mem h"
    "avail (m_pages h') \<ge> (if m_init h then avail (m_pages h) else avail (m_pages h) - 1)"
proof (cases "m_init h")
  case True
  then show ?thesis using assms(1) by (intro that[of h]) (simp_all add: init_malloc_def)
next
  case False
  then have p: "inv (m_pages h)" "m_arena h = Map.empty" "0 < avail (m_pages h)" using assms by (auto simp: heap_ok_def)
  obtain a p' where a: "allocator sizeof_malloc_state (m_pages h) = Some (a, p')" "inv p'" "avail p' = avail (m_pages h) - 1"
    using page_get[OF p(1,3), of sizeof_malloc_state] by (auto simp: sizeof_malloc_state_def)
  define h' where "h' = h\<lparr>m_init := True, m_descs := init_malloc_desc, m_pages := p'\<rparr>"
  have d: "descs_ok init_malloc_desc" by (simp add: init_malloc_desc_eq descs_ok_def)
  have f: "flists h' d = []" if "d < 8" for d using that by (simp add: flists_def h'_def init_malloc_desc_eq)
  have "arenas_ok (flists h') Map.empty" using f by (simp add: arenas_ok_def)
  then have "heap_ok h'" using d a p(2) by (simp add: heap_ok_def h'_def areas_ok_def)
  moreover have "heap_live h' = {}" using p(2) by (auto simp: heap_live_def live_in_def large_live_def arena_def h'_def)
  ultimately show ?thesis
    using False a by (intro that[of h']) (simp_all add: init_malloc_def heap_live_def h'_def)
qed

lemma refill_ok:
  assumes "heap_ok h" "m_init h" "d < 8" "flists h d = []" "0 < avail (m_pages h)"
  obtains h' where "new_arena allocator d h = Some h'" "heap_ok h'" "m_init h'" "heap_live h' = heap_live h" "m_mem h' = m_mem h"
    "flists h' d \<noteq> []" "avail (m_pages h') = avail (m_pages h) - 1"
proof -
  have h: "inv (m_pages h)" "areas_ok (m_arena h) (live (m_pages h))" "descs_ok (m_descs h)" "arenas_ok (flists h) (m_arena h)"
    using assms(1,2) by (auto simp: heap_ok_def)
  obtain a p' where a: "allocator mem_page_size (m_pages h) = Some (a, p')" "a mod 4096 = 0" "a \<noteq> 0" "a \<notin> live (m_pages h)"
    "live p' = insert a (live (m_pages h))" "inv p'" "avail p' = avail (m_pages h) - 1"
    using page_get[OF h(1) assms(5), of mem_page_size] by (auto simp: mem_page_size_def)
  have na: "m_arena h a = None" using a(4) areas_dom[OF h(2), of a] by (cases "m_arena h a") auto
  define A where "A = (m_arena h)(a \<mapsto> \<lparr>ar_desc = Some d, free_cnt = bpa d, large = False\<rparr>)"
  define h1 where "h1 = h\<lparr>m_pages := p', m_arena := A\<rparr>"
  define h2 where "h2 = upd_desc d (\<lambda>x. x\<lparr>free_blocks := free_blocks x @ map (\<lambda>i. arena2block a i (block_size x)) [0..<blocks_per_arena x]\<rparr>) h1"
  have ds: "block_size (m_descs h ! d) = bsz d" "blocks_per_arena (m_descs h ! d) = bpa d" "free_blocks (m_descs h ! d) = []"
    using h(3) assms(3,4) by (auto simp: descs_ok_def flists_def)
  have na2: "new_arena allocator d h = Some h2" using a(1) ds by (simp add: new_arena_def h2_def h1_def A_def)
  have d1: "descs_ok (m_descs h1)" using h(3) by (simp add: h1_def)
  have fl1: "flists h1 = flists h" by (simp add: flists_def h1_def fun_eq_iff)
  have "(\<lambda>i. arena2block a i (bsz d)) = blk a d" by (simp add: blk_def fun_eq_iff)
  then have f2: "flists h2 = (flists h)(d := map (blk a d) [0..<bpa d])" "descs_ok (m_descs h2)"
    using flists_upd[OF d1 assms(3), of "\<lambda>x. free_blocks x @ map (\<lambda>i. arena2block a i (block_size x)) [0..<blocks_per_arena x]"] ds
    unfolding h2_def[symmetric] fl1 by (simp_all add: h1_def)
  note n = new_arena_ok[OF h(4) na a(2,3) assms(3,4), folded A_def f2(1)]
  have m: "m_arena h2 = A" "m_pages h2 = p'" "m_init h2" "m_mem h2 = m_mem h" using assms(2) by (simp_all add: h2_def upd_desc_sel h1_def)
  have "areas_ok A (live p')"
    using areas_new[OF h(2), of a "\<lparr>ar_desc = Some d, free_cnt = bpa d, large = False\<rparr>"] a(4,5) by (simp add: A_def npages_def)
  then have "heap_ok h2" using n(1) a(6) f2(2) m by (simp add: heap_ok_def)
  moreover have "large_live A = large_live (m_arena h)" unfolding A_def using na by (intro large_live_upd) auto
  then have "heap_live h2 = heap_live h" using n(2) m assms(2) by (simp add: heap_live_def)
  moreover have "flists h2 d \<noteq> []" using f2(1) bpa_bounds[OF assms(3)] by simp
  ultimately show thesis using that[of h2] na2 m a(7) by simp
qed

text \<open>Taking the first free block of a size.\<close>

lemma take_block_ok:
  assumes ok: "heap_ok h" "m_init h" and d: "d < 8" and f: "flists h d = b # bs"
  obtains ar where "m_arena h (block2arena b) = Some ar"
    "let h' = (upd_desc d (\<lambda>x. x\<lparr>free_blocks := bs\<rparr>) h)\<lparr>m_mem := M,
        m_arena := (m_arena h)(block2arena b \<mapsto> ar\<lparr>free_cnt := (free_cnt ar + 2 ^ 32 - 1) mod 2 ^ 32\<rparr>)\<rparr>
     in heap_ok h' \<and> heap_live h' = insert (b, bsz d) (heap_live h) \<and> m_init h'"
    "(b, bsz d) \<notin> heap_live h"
proof -
  have h: "inv (m_pages h)" "areas_ok (m_arena h) (live (m_pages h))" "descs_ok (m_descs h)" "arenas_ok (flists h) (m_arena h)"
    using ok by (auto simp: heap_ok_def)
  obtain a i ar where t: "m_arena h a = Some ar" "block2arena b = a" "0 < free_cnt ar" "free_cnt ar \<le> 510"
    "arenas_ok ((flists h)(d := bs)) ((m_arena h)(a \<mapsto> ar\<lparr>free_cnt := free_cnt ar - 1\<rparr>))"
    "live_in ((flists h)(d := bs)) ((m_arena h)(a \<mapsto> ar\<lparr>free_cnt := free_cnt ar - 1\<rparr>)) = insert (b, bsz d) (live_in (flists h) (m_arena h))"
    "(b, bsz d) \<notin> live_in (flists h) (m_arena h)" "\<not> large ar"
    by (rule take_ok[OF h(4) d f]) blast
  have c: "(free_cnt ar + 2 ^ 32 - 1) mod 2 ^ 32 = free_cnt ar - 1"
  proof -
    have "free_cnt ar + 2 ^ 32 - 1 = (free_cnt ar - 1) + 2 ^ 32" using t(3) by simp
    then have "(free_cnt ar + 2 ^ 32 - 1) mod 2 ^ 32 = (free_cnt ar - 1) mod 2 ^ 32" by (simp only: mod_add_self2)
    then show ?thesis using t(4) by simp
  qed
  define A where "A = (m_arena h)(a \<mapsto> ar\<lparr>free_cnt := free_cnt ar - 1\<rparr>)"
  define h' where "h' = (upd_desc d (\<lambda>x. x\<lparr>free_blocks := bs\<rparr>) h)\<lparr>m_mem := M, m_arena := A\<rparr>"
  have f': "flists h' = (flists h)(d := bs)" "descs_ok (m_descs h')"
    using flists_upd[OF h(3) d, of "\<lambda>_. bs"] by (simp_all add: h'_def flists_fields)
  have m: "m_arena h' = A" "m_pages h' = m_pages h" "m_init h'" using ok(2) by (simp_all add: h'_def upd_desc_sel)
  have "areas_ok A (live (m_pages h))" unfolding A_def using t(8) by (intro areas_upd[OF h(2) t(1)]) (simp add: npages_def)
  then have "heap_ok h'" using t(5) h(1) f' m by (simp add: heap_ok_def A_def)
  moreover have ll: "large_live A = large_live (m_arena h)" unfolding A_def using t(1,8) by (intro large_live_upd) auto
  then have "heap_live h' = insert (b, bsz d) (heap_live h)" using t(6) f'(1) m ok(2) by (simp add: heap_live_def A_def)
  moreover have "(b, bsz d) \<notin> heap_live h"
    using t(7) small_or_large(2)[OF h(2), of b "bsz d"] bsz_bounds[OF d] ok(2) by (auto simp: heap_live_def)
  ultimately show thesis using that[of ar] t(1,2) c m ok(2) by (simp add: Let_def h'_def A_def)
qed

lemma live_blocks_disjoint:
  assumes "heap_ok h" "(b, n) \<in> heap_live h" "(b', n') \<in> heap_live h" "b \<noteq> b'"
  shows "b + n \<le> b' \<or> b' + n' \<le> b"
proof -
  have "m_init h" using assms(2) by (auto simp: heap_live_def split: if_splits)
  then show ?thesis using blocks_apart[of "flists h" "m_arena h" "live (m_pages h)" b n b' n'] assms by (simp add: heap_ok_def heap_live_def)
qed

lemma live_block_sizes:
  assumes "heap_ok h" "(b, n) \<in> heap_live h" "(b, n') \<in> heap_live h"
  shows "n = n'"
proof -
  have "m_init h" using assms(2) by (auto simp: heap_live_def split: if_splits)
  then show ?thesis using block_size_unique[of "flists h" "m_arena h" "live (m_pages h)" b n n'] assms by (simp add: heap_ok_def heap_live_def)
qed

lemma live_not_null:
  assumes "heap_ok h" "(b, n) \<in> heap_live h"
  shows "b \<noteq> 0"
proof -
  have "m_init h" using assms(2) by (auto simp: heap_live_def split: if_splits)
  then have "arenas_ok (flists h) (m_arena h)" "areas_ok (m_arena h) (live (m_pages h))" "(b, n) \<in> live_in (flists h) (m_arena h) \<union> large_live (m_arena h)"
    using assms by (simp_all add: heap_ok_def heap_live_def)
  then show ?thesis by (rule live_in_arena) simp
qed

lemma malloc_small_ok:
  assumes ok: "heap_ok h" and sz: "unat sz \<le> 1024" and room: "2 \<le> avail (m_pages h)"
  obtains b n h' where "malloc allocator sz h = Some (b, h')" "heap_ok h'" "m_init h'" "unat sz \<le> n" "8 \<le> n" "n \<le> 1024"
    "heap_live h' = insert (b, n) (heap_live h)" "(b, n) \<notin> heap_live h" "m_mem h' = mem_set b n (m_mem h)"
proof -
  obtain h0 where h0: "init_malloc allocator h = Some h0" "heap_ok h0" "m_init h0" "heap_live h0 = heap_live h" "m_mem h0 = m_mem h"
    "0 < avail (m_pages h0)"
  proof -
    have "m_init h \<or> 0 < avail (m_pages h)" using room by simp
    from init_ok[OF ok this] obtain h0 where "init_malloc allocator h = Some h0" "heap_ok h0" "m_init h0" "heap_live h0 = heap_live h" "m_mem h0 = m_mem h"
      "avail (m_pages h0) \<ge> (if m_init h then avail (m_pages h) else avail (m_pages h) - 1)" .
    then show thesis using that[of h0] room by (auto split: if_splits)
  qed
  define d where "d = find_desc 0 (unat sz) (m_descs h0)"
  have ds: "descs_ok (m_descs h0)" using h0(2,3) by (simp add: heap_ok_def)
  have d: "d < 8" "unat sz \<le> bsz d" using find_desc_bsz[OF ds sz] by (simp_all add: d_def)
  have small: "\<not> unat sz > block_size (m_descs h0 ! (MEM_BLOCK_CNT - 1))" using ds sz by (simp add: descs_ok_def MEM_BLOCK_CNT_def bsz_def)
  obtain h1 where h1: "(if free_blocks (m_descs h0 ! d) = [] then new_arena allocator d h0 else Some h0) = Some h1"
    "heap_ok h1" "m_init h1" "heap_live h1 = heap_live h" "m_mem h1 = m_mem h" "flists h1 d \<noteq> []"
  proof (cases "free_blocks (m_descs h0 ! d) = []")
    case True
    then have "flists h0 d = []" by (simp add: flists_def)
    from refill_ok[OF h0(2,3) d(1) this h0(6)] show ?thesis using that True h0(4,5) by metis
  next
    case False
    then show ?thesis using h0 by (intro that[of h0]) (simp_all add: flists_def)
  qed
  obtain b bs where b: "flists h1 d = b # bs" using h1(6) by (cases "flists h1 d") auto
  have bz: "block_size (m_descs h1 ! d) = bsz d" using h1(2,3) d(1) by (simp add: heap_ok_def descs_ok_def)
  define M where "M = mem_set b (bsz d) (m_mem h1)"
  obtain ar where ar: "m_arena h1 (block2arena b) = Some ar"
    "let h' = (upd_desc d (\<lambda>x. x\<lparr>free_blocks := bs\<rparr>) h1)\<lparr>m_mem := M,
        m_arena := (m_arena h1)(block2arena b \<mapsto> ar\<lparr>free_cnt := (free_cnt ar + 2 ^ 32 - 1) mod 2 ^ 32\<rparr>)\<rparr>
     in heap_ok h' \<and> heap_live h' = insert (b, bsz d) (heap_live h1) \<and> m_init h'"
    "(b, bsz d) \<notin> heap_live h1"
    using take_block_ok[OF h1(2,3) d(1) b, of M] by metis
  define h' where "h' = (upd_desc d (\<lambda>x. x\<lparr>free_blocks := bs\<rparr>) h1)\<lparr>m_mem := M,
        m_arena := (m_arena h1)(block2arena b \<mapsto> ar\<lparr>free_cnt := (free_cnt ar + 2 ^ 32 - 1) mod 2 ^ 32\<rparr>)\<rparr>"
  have "malloc allocator sz h = Some (b, h')"
    unfolding malloc_def h0(1) Option.bind.bind_lunit if_not_P[OF small] Let_def d_def[symmetric] h1(1)
    using b ar(1) bz by (simp add: flists_def h'_def M_def upd_desc_sel)
  then show thesis
    using that[of b h' "bsz d"] ar(2,3) d(2) bsz_bounds[OF d(1)] h1(4,5) by (simp add: Let_def h'_def M_def)
qed

text \<open>A large block: a run of pages of its own.\<close>

lemma large_pages:
  assumes "unat (sz :: u32) + 4107 < 2 ^ 32"
  shows "\<exists>s. up2 (sz + of_nat sizeof_mem_arena) (of_nat mem_page_size) = Some s \<and> unat s = 4096 * ((unat sz + 4107) div 4096)"
proof -
  have u: "unat (sz + 12) = unat sz + 12" using assms by (subst unat_add_small) simp_all
  let ?r = "(sz + 12) mod 4096"
  have r: "unat ?r = (unat sz + 12) mod 4096" by (simp add: unat_mod_distrib u)
  show ?thesis
  proof (cases "?r = 0")
    case True
    then have "4096 dvd unat sz + 12" using r by auto
    then obtain q where q: "unat sz + 12 = 4096 * q" by (auto elim!: dvdE)
    then have "unat sz + 4107 = 4095 + 4096 * q" by simp
    then have "(unat sz + 4107) div 4096 = q" by simp
    then show ?thesis using True u q by (simp add: up2_eq sizeof_mem_arena_def mem_page_size_def)
  next
    case False
    have lt: "unat ?r < 4096" unfolding r by simp
    have lt0: "0 < unat ?r" using False by (simp add: unat_gt_0)
    have le: "unat ?r \<le> unat sz + 12" using r by simp
    have d: "unat (sz + 12 - ?r) = unat sz + 12 - unat ?r" using u le by (subst unat_sub) (simp_all add: word_le_nat_alt)
    let ?q = "(unat sz + 12) div 4096"
    have e: "unat sz + 12 = 4096 * ?q + unat ?r" using r by simp
    have "unat (sz + 12 - ?r + 4096) = 4096 * ?q + 4096" using d e lt lt0 assms by (subst unat_add_small) simp_all
    moreover have "(unat sz + 4107) div 4096 = Suc ?q"
    proof -
      have "unat sz + 4107 = 4096 * Suc ?q + (unat ?r - 1)" using e lt0 by simp
      then show ?thesis using lt by simp
    qed
    ultimately show ?thesis using False by (simp add: up2_eq sizeof_mem_arena_def mem_page_size_def)
  qed
qed

lemma malloc_large_ok:
  assumes ok: "heap_ok h" "m_init h" and sz: "1024 < unat sz" "unat sz + 4107 < 2 ^ 32" and fit: "fits ((unat sz + 4107) div 4096) (m_pages h)"
  obtains b n h' where "malloc allocator sz h = Some (b, h')" "heap_ok h'" "m_init h'" "unat sz \<le> n"
    "heap_live h' = insert (b, n) (heap_live h)" "(b, n) \<notin> heap_live h" "m_mem h' = mem_set (b - 12) (n + 12) (m_mem h)" "12 \<le> b"
proof -
  have h: "inv (m_pages h)" "areas_ok (m_arena h) (live (m_pages h))" "descs_ok (m_descs h)" "arenas_ok (flists h) (m_arena h)"
    using ok by (auto simp: heap_ok_def)
  define k where "k = (unat sz + 4107) div 4096"
  obtain s where s: "up2 (sz + of_nat sizeof_mem_arena) (of_nat mem_page_size) = Some s" "unat s = 4096 * k"
    using large_pages[OF sz(2)] by (auto simp: k_def)
  have kz: "unat sz + 12 \<le> 4096 * k" "0 < k" using sz(1) by (simp_all add: k_def)
  obtain a p' where a: "allocator (4096 * k) (m_pages h) = Some (a, p')" "a mod 4096 = 0" "a \<noteq> 0" "run_of a k \<inter> live (m_pages h) = {}"
    "live p' = live (m_pages h) \<union> run_of a k" "inv p'" using page_run[OF h(1) kz(2)] fit by (auto simp: k_def)
  have na: "m_arena h a = None"
    using a(4) run_of_start[OF kz(2), of a] areas_dom[OF h(2), of a] by (cases "m_arena h a") auto
  define ar where "ar = \<lparr>ar_desc = None, free_cnt = k, large = True\<rparr>"
  define h' where "h' = h\<lparr>m_pages := p', m_mem := mem_set a (4096 * k) (m_mem h), m_arena := (m_arena h)(a \<mapsto> ar)\<rparr>"
  have big: "unat sz > block_size (m_descs h ! (MEM_BLOCK_CNT - 1))" using h(3) sz by (simp add: descs_ok_def MEM_BLOCK_CNT_def bsz_def)
  have "init_malloc allocator h = Some h" using ok(2) by (simp add: init_malloc_def)
  then have m: "malloc allocator sz h = Some (a + 12, h')"
    using big s a(1) by (simp add: malloc_def malloc_large_def h'_def ar_def sizeof_mem_arena_def mem_page_size_def)
  have f: "flists h' = flists h" by (simp add: flists_def h'_def fun_eq_iff)
  have l: "large ar" "npages ar = k" by (simp_all add: ar_def npages_def)
  have ao: "areas_ok (m_arena h') (live p')" using areas_new[OF h(2), of a ar] a(4,5) l(2) kz(2) by (simp add: h'_def)
  have "heap_ok h'" using ao a(6) h(3) live_in_large(2)[of "m_arena h" a, OF na l(1) h(4) a(2,3)] ok(2) f by (simp add: heap_ok_def) (simp add: h'_def)
  moreover have "heap_live h' = insert (a + 12, 4096 * k - 12) (heap_live h)"
    using live_in_large(1)[of "m_arena h" a, OF na l(1)] large_live_new[of "m_arena h" a, OF na l(1)] ok(2) f unfolding heap_live_def by (simp add: h'_def) (simp add: ar_def sizeof_mem_arena_def)
  moreover have b2a: "block2arena (a + 12) = a" using a(2) by (simp add: block2arena_def mod_add_left_eq[symmetric, of a])
  moreover have "(a + 12, 4096 * k - 12) \<notin> heap_live h"
  proof
    assume "(a + 12, 4096 * k - 12) \<in> heap_live h"
    then have "(a + 12, 4096 * k - 12) \<in> live_in (flists h) (m_arena h) \<union> large_live (m_arena h)" using ok(2) by (simp add: heap_live_def)
    then show False by (rule live_in_arena[OF h(4,2)]) (use b2a na in simp)
  qed
  moreover have "m_init h'" "m_mem h' = mem_set a (4096 * k) (m_mem h)" using ok(2) by (simp_all add: h'_def)
  ultimately show thesis using that[OF m, of "4096 * k - 12"] kz by simp
qed

text \<open>
  A small block goes back to the free list of its size; the page goes back when none of its blocks is live any more and
  the free list has the blocks of two pages.
\<close>

lemma give_block_ok:
  assumes ok: "heap_ok h" and l: "(b, n) \<in> heap_live h" "n \<le> 1024"
  obtains h' d where "free munmap unallocator b h = Some h'" "heap_ok h'" "m_init h'" "heap_live h' = heap_live h - {(b, n)}" "m_mem h' = m_mem h"
    "d < 8" "n = bsz d"
    "if (\<forall>(b', n')\<in>heap_live h'. block2arena b' \<noteq> block2arena b) \<and> bpa d * 2 \<le> Suc (length (flists h d))
     then live (m_pages h') = live (m_pages h) - {block2arena b} \<and> avail (m_pages h') = avail (m_pages h) + 1 else m_pages h' = m_pages h"
proof -
  have init: "m_init h" using l by (auto simp: heap_live_def split: if_splits)
  have h: "inv (m_pages h)" "areas_ok (m_arena h) (live (m_pages h))" "descs_ok (m_descs h)" "arenas_ok (flists h) (m_arena h)"
    using ok init by (auto simp: heap_ok_def)
  have l': "(b, n) \<in> live_in (flists h) (m_arena h)"
    using l init small_or_large(2)[OF h(2), of b n] by (auto simp: heap_live_def)
  obtain a d i ar where x: "m_arena h a = Some ar" "\<not> large ar" "ar_desc ar = Some d" "d < 8" "a mod 4096 = 0" "a \<noteq> 0" "block2arena b = a" "n = bsz d"
    using live_block[OF h(4) l'] by metis
  have b0: "b \<noteq> 0" using x(6,7) by (auto simp: block2arena_def)
  note g = give_ok[OF h(4) l' x(1,7,3)]
  have ds: "block_size (m_descs h ! d) = bsz d" "blocks_per_arena (m_descs h ! d) = bpa d" using h(3) x(4) by (auto simp: descs_ok_def)
  define A where "A = (m_arena h)(a \<mapsto> ar\<lparr>free_cnt := Suc (free_cnt ar)\<rparr>)"
  define h2 where "h2 = (upd_desc d (\<lambda>x. x\<lparr>free_blocks := free_blocks x @ [b]\<rparr>) h)\<lparr>m_arena := A\<rparr>"
  have f2: "flists h2 = (flists h)(d := flists h d @ [b])" "descs_ok (m_descs h2)"
    using flists_upd[OF h(3) x(4), of "\<lambda>x. free_blocks x @ [b]"] by (simp_all add: h2_def flists_fields) (simp add: flists_def)
  have m2: "m_arena h2 = A" "m_pages h2 = m_pages h" "m_init h2" "m_mem h2 = m_mem h" using init by (simp_all add: h2_def upd_desc_sel)
  have cnt: "(free_cnt ar + 1) mod 2 ^ 32 = Suc (free_cnt ar)" using g(3) bpa_bounds[OF x(4)] by simp
  have domA: "areas_ok A (live (m_pages h))" unfolding A_def using x(2) by (intro areas_upd[OF h(2) x(1)]) (simp add: npages_def)
  have ok2: "heap_ok h2" using g(1) h(1) f2 m2 domA by (simp add: heap_ok_def A_def)
  have "large_live A = large_live (m_arena h)" unfolding A_def using x(1,2) by (intro large_live_upd) auto
  moreover have "(b, n) \<notin> large_live (m_arena h)" using small_or_large(2)[OF h(2), of b n] l(2) by auto
  ultimately have l2: "heap_live h2 = heap_live h - {(b, n)}" using g(2) f2(1) m2 init by (auto simp: heap_live_def A_def)
  have d2: "m_descs h2 ! d = (m_descs h ! d)\<lparr>free_blocks := free_blocks (m_descs h ! d) @ [b]\<rparr>"
    using h(3) x(4) by (simp add: h2_def upd_desc_def descs_ok_def)
  define rel where "rel \<longleftrightarrow> length (free_blocks (m_descs h2 ! d)) \<ge> blocks_per_arena (m_descs h2 ! d) * 2 \<and> Suc (free_cnt ar) = blocks_per_arena (m_descs h2 ! d)"
  have step: "free munmap unallocator b h = (if rel then do {
        let h3 = upd_desc d (\<lambda>x. x\<lparr>free_blocks := fold remove1 (map (\<lambda>i. arena2block a i (block_size (m_descs h2 ! d))) [0..<Suc (free_cnt ar)]) (free_blocks x)\<rparr>) h2;
        p \<leftarrow> unallocator a mem_page_size (m_pages h3);
        Some (h3\<lparr>m_pages := p, m_arena := (m_arena h3)(a := None)\<rparr>)
      } else Some h2)"
    unfolding free_def Let_def x(7) x(1) Option.bind.bind_lunit if_not_P[OF b0] if_not_P[OF x(2)] x(3) cnt upd_desc_sel rel_def h2_def A_def
    by (rule refl)
  have Aa: "A a = Some (ar\<lparr>free_cnt := Suc (free_cnt ar)\<rparr>)" by (simp add: A_def)
  have ok2': "arenas_ok (flists h2) A" using ok2 m2 by (simp add: heap_ok_def)
  have "(Suc (free_cnt ar) = bpa d) = (\<forall>(b', n')\<in>heap_live h2. block2arena b' \<noteq> a)"
    using arena_full_iff[OF ok2' domA Aa, of d] x(2,3) m2 by (simp add: heap_live_def)
  moreover have "length (free_blocks (m_descs h2 ! d)) = Suc (length (flists h d))" using d2 by (simp add: flists_def)
  ultimately have rel: "rel \<longleftrightarrow> (\<forall>(b', n')\<in>heap_live h2. block2arena b' \<noteq> block2arena b) \<and> bpa d * 2 \<le> Suc (length (flists h d))"
    using ds d2 x(7) by (auto simp: rel_def)
  show thesis
  proof (cases rel)
    case False
    have fr: "free munmap unallocator b h = Some h2" unfolding step using False by (rule if_not_P)
    have "m_pages h2 = m_pages h" by (rule m2(2))
    then show thesis using that[OF fr ok2 m2(3) l2 m2(4) x(4,8)] False unfolding rel by simp
  next
    case True
    then have full: "Suc (free_cnt ar) = bpa d" using ds d2 by (simp add: rel_def)
    obtain p' where p': "unallocator a 4096 (m_pages h) = Some p'" "live p' = live (m_pages h) - {a}" "inv p'" "avail p' = avail (m_pages h) + 1"
      using page_put[OF h(1), of a] areas_dom[OF h(2) x(1)] by blast
    define h3 where "h3 = upd_desc d (\<lambda>x. x\<lparr>free_blocks := fold remove1 (map (blk a d) [0..<bpa d]) (free_blocks x)\<rparr>) h2"
    define h4 where "h4 = h3\<lparr>m_pages := p', m_arena := A(a := None)\<rparr>"
    have "(\<lambda>i. arena2block a i (block_size (m_descs h2 ! d))) = blk a d" using d2 ds by (simp add: blk_def fun_eq_iff)
    then have fr: "free munmap unallocator b h = Some h4"
      unfolding step using True p'(1) full m2 by (simp add: h4_def h3_def[symmetric] upd_desc_sel Let_def mem_page_size_def) (simp add: h3_def upd_desc_sel m2)
    have f4: "flists h4 = (flists h2)(d := fold remove1 (map (blk a d) [0..<bpa d]) (flists h2 d))" "descs_ok (m_descs h4)"
      using flists_upd[OF f2(2) x(4), of "\<lambda>x. fold remove1 (map (blk a d) [0..<bpa d]) (free_blocks x)"]
      unfolding h3_def[symmetric] by (simp_all add: h4_def flists_fields) (simp add: flists_def)
    note dr = drop_arena_ok[OF ok2' Aa, of d]
    have m4: "m_arena h4 = A(a := None)" "m_pages h4 = p'" "m_init h4" "m_mem h4 = m_mem h" using m2 by (simp_all add: h4_def h3_def upd_desc_sel)
    have "areas_ok (A(a := None)) (live p')" using areas_drop[OF domA Aa] x(2) p'(2) by simp
    then have "heap_ok h4" using dr(1) x(2,3) full f4 m4 p'(3) by (simp add: heap_ok_def)
    moreover have "large_live (A(a := None)) = large_live A" using Aa x(2) by (intro large_live_drop) auto
    then have lv: "heap_live h4 = heap_live h2" using dr(2) x(2,3) full f4 m4 m2 by (simp add: heap_live_def)
    moreover have "(\<forall>(b', n')\<in>heap_live h4. block2arena b' \<noteq> block2arena b) \<and> bpa d * 2 \<le> Suc (length (flists h d))"
      using True unfolding rel lv .
    ultimately show thesis using that[of h4 d] fr l2 m4 p'(2,4) x(4,7,8) by simp
  qed
qed

end
section \<open>The kernel heap\<close>

text \<open>
  \<open>vmalloc\<close> and \<open>vfree\<close>: pages come from \<open>alloc_kernel_mem\<close>.  The result \<open>-1\<close> of a failed allocation is
  used as an address by the callers, which fault: \<open>None\<close>.  \<open>munmap\<close>, which \<open>_free\<close> calls for a
  large block, is a system call: a parameter.
\<close>

definition kernel_get :: "nat \<Rightarrow> mem_state \<Rightarrow> (nat \<times> mem_state) option" where
  "kernel_get sz st = do {
     s \<leftarrow> up2 (of_nat sz) (of_nat mem_page_size);
     (a, st') \<leftarrow> alloc_kernel_mem (unat (s div of_nat mem_page_size)) st;
     if a = - 1 then None else Some (unat a, st')
   }"

definition kernel_put :: "nat \<Rightarrow> nat \<Rightarrow> mem_state \<Rightarrow> mem_state option" where
  "kernel_put ptr sz st = do {
     s \<leftarrow> up2 (of_nat sz) (of_nat mem_page_size);
     (r, st') \<leftarrow> unalloc_kernel_mem (of_nat ptr) (unat (s div of_nat mem_page_size)) st;
     Some st'
   }"

definition vmalloc :: "u32 \<Rightarrow> mem_state mheap \<Rightarrow> (nat \<times> mem_state mheap) option" where
  "vmalloc sz h = malloc kernel_get sz h"

definition vfree :: "(nat \<Rightarrow> nat \<Rightarrow> mem_state \<Rightarrow> mem_state option) \<Rightarrow> nat \<Rightarrow> mem_state mheap \<Rightarrow> mem_state mheap option" where
  "vfree munmap ptr h = free munmap kernel_put ptr h"

text \<open>The kernel's pages: mapped to themselves, below the pages of the users, and managed by both allocators.\<close>

definition kpages_ok :: "mem_state \<Rightarrow> bool" where
  "kpages_ok st \<longleftrightarrow> kernel_ok st \<and> all_pages (kernel_vir_addr_alloc st) = all_pages (kernel_phy_addr_alloc st) \<and>
     (\<forall>a\<in>all_pages (kernel_vir_addr_alloc st). vaddr2paddr (kernel_page_dir st) a st = (a, True) \<and> a < aa_start (user_phy_addr_alloc st))"

definition klive :: "mem_state \<Rightarrow> nat set" where
  "klive st = unat ` live_pages (kernel_vir_addr_alloc st)"

definition kavail :: "mem_state \<Rightarrow> nat" where
  "kavail st = pages.avail (kernel_vir_addr_alloc st)"

text \<open>A run of \<open>k\<close> free pages.\<close>

definition kfits :: "nat \<Rightarrow> mem_state \<Rightarrow> bool" where
  "kfits k st \<longleftrightarrow> k \<le> MALLOC_MAX_PAGE \<and> (\<exists>s. s + k \<le> nbits (aa_bitmap (kernel_vir_addr_alloc st)) \<and>
     (\<forall>i\<in>{s..<s + k}. page_addr (kernel_vir_addr_alloc st) i \<notin> live_pages (kernel_vir_addr_alloc st)))"

lemma vaddr2paddr_cong: "ram st' = ram st \<Longrightarrow> vaddr2paddr pd a st' = vaddr2paddr pd a st"
  by (simp add: vaddr2paddr_def get_pte_def get_pde_def Let_def)

lemma kernel_get_page:
  assumes "kpages_ok st" "0 < kavail st" "0 < n" "n \<le> 4096"
  shows "\<exists>a st'. kernel_get n st = Some (a, st') \<and> a mod 4096 = 0 \<and> a \<noteq> 0 \<and> a \<notin> klive st \<and> klive st' = insert a (klive st) \<and>
    kpages_ok st' \<and> kavail st' = kavail st - 1"
proof -
  have k: "kernel_ok st" using assms(1) by (simp add: kpages_ok_def)
  have "live_pages (kernel_vir_addr_alloc st) \<noteq> all_pages (kernel_vir_addr_alloc st)" using assms(2) by (auto simp: kavail_def pages.avail_def)
  from alloc_kernel_mem_one[OF k this] obtain a st' where a: "alloc_kernel_mem 1 st = Some (a, st')"
    "a \<in> all_pages (kernel_vir_addr_alloc st) - live_pages (kernel_vir_addr_alloc st)"
    "live_pages (kernel_vir_addr_alloc st') = insert a (live_pages (kernel_vir_addr_alloc st))"
    "all_pages (kernel_vir_addr_alloc st') = all_pages (kernel_vir_addr_alloc st)"
    "kernel_ok st'" "ram st' = ram st" "kernel_page_dir st' = kernel_page_dir st"
    "all_pages (kernel_phy_addr_alloc st') = all_pages (kernel_phy_addr_alloc st)" "user_phy_addr_alloc st' = user_phy_addr_alloc st" .
  have "unat (of_nat n :: u32) = n" using assms(4) by (intro unat_of_nat_small) simp
  then have "up2 (of_nat n) 4096 = Some (4096 :: u32)"
  proof (cases "n = 4096")
    case False
    then have "(of_nat n :: u32) mod 4096 = of_nat n" using assms(4) \<open>unat (of_nat n :: u32) = n\<close> by (simp add: word_unat_eq_iff unat_mod_distrib)
    moreover have "(of_nat n :: u32) \<noteq> 0" using assms(3) \<open>unat (of_nat n :: u32) = n\<close> by (metis unat_0 less_numeral_extra(3))
    ultimately show ?thesis by (simp add: up2_eq)
  qed (simp add: up2_eq)
  then have g: "kernel_get n st = (if a = - 1 then None else Some (unat a, st'))"
    using a(1) by (simp add: kernel_get_def mem_page_size_def)
  obtain i where "a = page_addr (kernel_vir_addr_alloc st) i" "i < nbits (aa_bitmap (kernel_vir_addr_alloc st))" using a(2) by (auto simp: all_pages_def)
  then have n1: "a \<noteq> - 1" using page_addr_bound(2) k by (simp add: kernel_ok_def)
  have al: "aligned a" "a \<noteq> 0" using pages_aligned[OF k] a(2) by auto
  have "kpages_ok st'" using assms(1) a(4,5,8) unfolding kpages_ok_def vaddr2paddr_cong[OF a(6)] a(7,9) by simp
  moreover have "kavail st' = kavail st - 1" unfolding kavail_def by (rule avail_insert[OF a(4,3,2)])
  moreover have "klive st' = insert (unat a) (klive st)" "unat a \<notin> klive st" using a(2,3) by (auto simp: klive_def word_unat_eq_iff[symmetric])
  ultimately show ?thesis using g n1 al by (intro exI[of _ "unat a"] exI[of _ st']) (simp add: aligned_def unat_gt_0)
qed

lemma kernel_put_page:
  assumes "kpages_ok st" "b \<in> klive st"
  shows "\<exists>st'. kernel_put b 4096 st = Some st' \<and> klive st' = klive st - {b} \<and> kpages_ok st' \<and> kavail st' = kavail st + 1"
proof -
  let ?v = "kernel_vir_addr_alloc st" and ?p = "kernel_phy_addr_alloc st"
  have k: "kernel_ok st" "alloc_ok ?v" "alloc_ok ?p" using assms(1) by (simp_all add: kpages_ok_def kernel_ok_def)
  obtain a where a: "b = unat a" "a \<in> live_pages ?v" using assms(2) by (auto simp: klive_def)
  have av: "a \<in> all_pages ?v" using a(2) pages.live_cap[OF k(2)] by blast
  then have ap: "a \<in> all_pages ?p" "vaddr2paddr (kernel_page_dir st) a st = (a, True)" "a < aa_start (user_phy_addr_alloc st)"
    using assms(1) by (auto simp: kpages_ok_def)
  obtain i where i: "a = page_addr ?p i" "i < nbits (aa_bitmap ?p)" using ap(1) by (auto simp: all_pages_def)
  obtain p' where p': "alloc_mem_use ?p a 1 0 = Some p'" "alloc_ok p'" "all_pages p' = all_pages ?p"
    using alloc_mem_use_one[OF k(3) i(2), of 0] i(1) by metis
  obtain j where j: "a = page_addr ?v j" "j < nbits (aa_bitmap ?v)" using av by (auto simp: all_pages_def)
  obtain v' where v': "alloc_mem_use ?v a 1 0 = Some v'" "alloc_ok v'" "all_pages v' = all_pages ?v" "aa_start v' = aa_start ?v"
    "aa_page_size v' = aa_page_size ?v" "live_pages v' = live_pages ?v - {a}"
    using alloc_mem_use_one[OF k(2) j(2), of 0] j(1) by metis
  define st' where "st' = st\<lparr>kernel_phy_addr_alloc := p', kernel_vir_addr_alloc := v'\<rparr>"
  have "free_phy_mem a 1 st = Some (st\<lparr>kernel_phy_addr_alloc := p'\<rparr>)"
    using p'(1) ap(3) by (simp add: free_phy_mem_def get_phy_addr_alloc_def)
  then have "unalloc_mem (kernel_page_dir st) Kernel_vir a 1 st = Some (0, st')"
    using ap(2) v'(1) by (simp add: unalloc_mem_def free_vir_def free_vir_mem_def st'_def)
  then have "unalloc_kernel_mem a 1 st = Some (Some 0, st')" by (simp add: unalloc_kernel_mem_def unmalloc_mem_def st'_def)
  then have 1: "kernel_put b 4096 st = Some st'"
    using a(1) by (simp add: kernel_put_def mem_page_size_def up2_eq)
  have "inj (unat :: u32 \<Rightarrow> nat)" by (simp add: inj_def word_unat_eq_iff)
  then have 2: "klive st' = klive st - {b}" using v'(6) a(1) image_set_diff[of unat "live_pages ?v" "{a}"] by (simp add: klive_def st'_def)
  have f: "ram st' = ram st" "kernel_page_dir st' = kernel_page_dir st" "user_phy_addr_alloc st' = user_phy_addr_alloc st"
    "kernel_vir_addr_alloc st' = v'" "kernel_phy_addr_alloc st' = p'" by (simp_all add: st'_def)
  have "kernel_ok st'" using k(1) p'(2) v'(2,4,5) by (simp add: kernel_ok_def f)
  then have 3: "kpages_ok st'" using assms(1) p'(3) v'(3) unfolding kpages_ok_def vaddr2paddr_cong[OF f(1)] f(2-5) by simp
  have "give_page a ?v = Some v'" using v'(1) by (simp add: give_page_def)
  then have "kavail st' = kavail st + 1" using pages.give_avail[OF k(2) a(2)] by (simp add: kavail_def st'_def)
  with 1 2 3 show ?thesis by blast
qed

lemma kernel_get_run:
  assumes "kpages_ok st" "0 < k" "kfits k st"
  shows "\<exists>a st'. kernel_get (4096 * k) st = Some (a, st') \<and> a mod 4096 = 0 \<and> a \<noteq> 0 \<and> run_of a k \<inter> klive st = {} \<and>
    klive st' = klive st \<union> run_of a k \<and> kpages_ok st'"
proof -
  let ?v = "kernel_vir_addr_alloc st"
  have k: "kernel_ok st" "alloc_ok ?v" using assms(1) by (simp_all add: kpages_ok_def kernel_ok_def)
  obtain s where s: "k \<le> MALLOC_MAX_PAGE" "s + k \<le> nbits (aa_bitmap ?v)" "\<forall>i\<in>{s..<s + k}. page_addr ?v i \<notin> live_pages ?v"
    using assms(3) by (auto simp: kfits_def)
  obtain r st' where a: "alloc_kernel_mem k st = Some (page_addr ?v r, st')" "r + k \<le> nbits (aa_bitmap ?v)"
    "\<forall>i\<in>{r..<r + k}. page_addr ?v i \<notin> live_pages ?v"
    "live_pages (kernel_vir_addr_alloc st') = live_pages ?v \<union> page_addr ?v ` {r..<r + k}" "all_pages (kernel_vir_addr_alloc st') = all_pages ?v"
    "kernel_ok st'" "ram st' = ram st" "kernel_page_dir st' = kernel_page_dir st"
    "all_pages (kernel_phy_addr_alloc st') = all_pages (kernel_phy_addr_alloc st)" "user_phy_addr_alloc st' = user_phy_addr_alloc st"
    by (rule alloc_kernel_mem_run[OF k(1) assms(2) s])
  have pu: "unat (page_addr ?v i) = unat (aa_start ?v) + i * 4096" if "i < r + k" for i
    using page_addr_bound(1)[OF k(2), of i] that a(2) k(1) by (simp add: kernel_ok_def)
  have rk: "r < r + k" using assms(2) by simp
  have "page_addr ?v r \<in> all_pages ?v" using a(2) rk by (simp add: all_pages_def)
  then have al: "aligned (page_addr ?v r)" "page_addr ?v r \<noteq> 0" using pages_aligned[OF k(1)] by auto
  have ne: "page_addr ?v r \<noteq> - 1" using page_addr_bound(2)[OF k(2)] a(2) rk by simp
  have "(\<lambda>i. unat (page_addr ?v i)) ` {r..<r + k} = (\<lambda>j. unat (page_addr ?v (r + j))) ` {..<k}"
  proof -
    have e: "{r..<r + k} = (+) r ` {..<k}" using image_add_atLeastLessThan[of r 0 k] by (simp add: lessThan_atLeast0 add.commute)
    show ?thesis unfolding e image_image ..
  qed
  also have "\<dots> = run_of (unat (page_addr ?v r)) k" unfolding run_of_def by (intro image_cong) (simp_all add: pu rk algebra_simps)
  finally have "unat ` page_addr ?v ` {r..<r + k} = run_of (unat (page_addr ?v r)) k" by (simp only: image_image)
  then have lv: "klive st' = klive st \<union> run_of (unat (page_addr ?v r)) k" "run_of (unat (page_addr ?v r)) k = unat ` page_addr ?v ` {r..<r + k}"
    using a(4) by (simp_all add: klive_def image_Un)
  have dis: "run_of (unat (page_addr ?v r)) k \<inter> klive st = {}" unfolding lv(2) klive_def using a(3) by (auto simp: word_unat_eq_iff[symmetric])
  have "4096 * k < 2 ^ LENGTH(32)" using s(1) by (simp add: MALLOC_MAX_PAGE_def)
  then have u: "unat (of_nat (4096 * k) :: u32) = 4096 * k" by (rule unat_of_nat_small)
  have "(of_nat (4096 * k) :: u32) mod 4096 = 0" by (simp only: word_unat_eq_iff unat_mod_distrib u) simp
  then have "up2 (of_nat (4096 * k)) 4096 = Some (of_nat (4096 * k) :: u32)" by (simp add: up2_eq)
  moreover have "unat ((of_nat (4096 * k) :: u32) div 4096) = k" by (simp only: unat_div_distrib u) simp
  ultimately have "kernel_get (4096 * k) st = Some (unat (page_addr ?v r), st')"
    using a(1) ne by (simp add: kernel_get_def mem_page_size_def)
  moreover have "kpages_ok st'" using assms(1) a(5,6,9) unfolding kpages_ok_def vaddr2paddr_cong[OF a(7)] a(8,10) by simp
  ultimately show ?thesis using al lv(1) dis by (intro exI[of _ "unat (page_addr ?v r)"] exI[of _ st']) (simp add: aligned_def unat_gt_0)
qed

interpretation kheap: page_source kpages_ok klive kavail kfits kernel_get kernel_put
  by unfold_locales (rule kernel_get_page kernel_get_run kernel_put_page; assumption)+

text \<open>A kernel with eight pages, two of them its page directory and page table.\<close>

definition vm_alloc :: addr_alloc_t where
  "vm_alloc = \<lparr>aa_start = 0x1000, aa_page_size = 4096, aa_bitmap = \<lparr>bytes_len = 1, bits = [3, 0]\<rparr>\<rparr>"

definition vm_mem :: mem_state where
  "vm_mem = \<lparr>kernel_phy_addr_alloc = vm_alloc, kernel_vir_addr_alloc = vm_alloc,
     user_phy_addr_alloc = vm_alloc\<lparr>aa_start := 0x9000\<rparr>, task_vir_addr_alloc = (\<lambda>_. vm_alloc),
     ram = (\<lambda>a. if a = 0x1000 then 0x2001 else if 0x2000 \<le> a \<and> a < 0x3000 then (a - 0x2000) div 4 * 4096 + 1 else 0),
     kernel_page_dir = 0x1000, kernel_all_memory = 0x9000, user_all_memory = 0x8000, cr3 = 0x1000\<rparr>"

definition vm_heap :: "mem_state mheap" where
  "vm_heap = \<lparr>m_init = False, m_descs = [], m_arena = Map.empty, m_mem = (\<lambda>_. 7), m_pages = vm_mem\<rparr>"

lemma upto_8: "{..<8::nat} = {0, 1, 2, 3, 4, 5, 6, 7}"
  by auto

lemma used_bits_set: "used_bits btm = set (filter (bit_at btm) [0..<nbits btm])"
  by (auto simp: used_bits_def)

lemma vm_pages: "all_pages vm_alloc = {0x1000, 0x2000, 0x3000, 0x4000, 0x5000, 0x6000, 0x7000, 0x8000}"
  by (simp add: all_pages_def vm_alloc_def nbits_def upto_8 page_addr_def)

lemma vm_mem_ok: "kpages_ok vm_mem"
proof -
  have "alloc_ok vm_alloc" by (simp add: alloc_ok_def vm_alloc_def bitmap_ok_def nbits_def)
  then have "kernel_ok vm_mem" by (simp add: kernel_ok_def vm_mem_def vm_alloc_def aligned_def)
  moreover have "vaddr2paddr 0x1000 a vm_mem = (a, True) \<and> a < 0x9000" if "a \<in> all_pages vm_alloc" for a
    using that unfolding vm_pages by (elim insertE emptyE; simp only:; code_simp)
  ultimately show ?thesis by (simp add: kpages_ok_def vm_mem_def vm_alloc_def)
qed

lemma vm_avail: "2 \<le> kavail vm_mem"
proof -
  have "live_pages vm_alloc = {0x1000, 0x2000}"
  proof -
    have "used_bits (aa_bitmap vm_alloc) = {0, 1}"
    proof -
      have "filter (bit_at (aa_bitmap vm_alloc)) [0..<nbits (aa_bitmap vm_alloc)] = [0, 1]" by code_simp
      then show ?thesis by (simp add: used_bits_set)
    qed
    then show ?thesis by (simp add: live_pages_def page_addr_def) (simp add: vm_alloc_def)
  qed
  then have "all_pages vm_alloc - live_pages vm_alloc = {0x3000, 0x4000, 0x5000, 0x6000, 0x7000, 0x8000}" by (auto simp: vm_pages)
  then show ?thesis by (simp add: kavail_def pages.avail_def vm_mem_def)
qed

lemma vm_heap_ok: "kheap.heap_ok vm_heap"
  using vm_mem_ok by (simp add: kheap.heap_ok_def vm_heap_def areas_ok_def)

section \<open>Properties\<close>





end
