(* ===== verification/Cstring.thy ===== *)
theory Cstring
  imports Math_Util
begin

text \<open>
  The string library of \<open>common/lib/string.c\<close>, and \<open>common/lib/stdio.c\<close> and \<open>stack.c\<close>.  Memory is a list
  of bytes; a pointer is an index into it, \<open>0\<close> is NULL, and an access behind the end faults (\<open>None\<close>).  All
  pointers point into the same memory, so that overlapping arguments behave as in the code.  \<open>int\<close> values are
  32-bit words read with \<open>sint\<close>.
\<close>

section \<open>Model\<close>

type_synonym cmem = "u8 list"

lemma nth_opt_less: "nth_opt xs i = Some v \<Longrightarrow> i < length xs"
  by (simp add: nth_opt_def split: if_splits)

lemma upd_opt_length: "upd_opt xs i v = Some ys \<Longrightarrow> length ys = length xs"
  by (auto simp: upd_opt_def split: if_splits)

fun memset_loop :: "nat \<Rightarrow> u8 \<Rightarrow> nat \<Rightarrow> cmem \<Rightarrow> cmem option" where
  "memset_loop su uc 0 m = Some m"
| "memset_loop su uc (Suc len) m = do { m' \<leftarrow> upd_opt m su uc; memset_loop (su + 1) uc len m' }"

definition memset :: "nat \<Rightarrow> u8 \<Rightarrow> nat \<Rightarrow> cmem \<Rightarrow> cmem option" where
  "memset dst c len m = memset_loop dst c len m"

fun memcpy :: "nat \<Rightarrow> nat \<Rightarrow> nat \<Rightarrow> cmem \<Rightarrow> cmem option" where
  "memcpy dst src 0 m = Some m"
| "memcpy dst src (Suc n) m = do { c \<leftarrow> nth_opt m src; m' \<leftarrow> upd_opt m dst c; memcpy (dst + 1) (src + 1) n m' }"

text \<open>The end of a string, where \<open>while (*p++)\<close> stops.\<close>

function strend :: "cmem \<Rightarrow> nat \<Rightarrow> nat option" where
  "strend m p = do { c \<leftarrow> nth_opt m p; if c = 0 then Some p else strend m (p + 1) }"
  by pat_completeness auto
termination by (relation "measure (\<lambda>(m, p). length m - p)") (auto dest: nth_opt_less)

declare strend.simps [simp del]

definition strlen :: "cmem \<Rightarrow> nat \<Rightarrow> nat option" where
  "strlen m str = do { p \<leftarrow> strend m str; Some (p - str) }"

function strcat_loop :: "nat \<Rightarrow> nat \<Rightarrow> cmem \<Rightarrow> cmem option" where
  "strcat_loop str src m = do {
     c \<leftarrow> nth_opt m src;
     m' \<leftarrow> upd_opt m str c;
     if c = 0 then Some m' else strcat_loop (str + 1) (src + 1) m'
   }"
  by pat_completeness auto
termination by (relation "measure (\<lambda>(str, src, m). length m - src)") (auto dest!: nth_opt_less upd_opt_length)

declare strcat_loop.simps [simp del]

definition strcat :: "nat \<Rightarrow> nat \<Rightarrow> cmem \<Rightarrow> cmem option" where
  "strcat dst src m = do { str \<leftarrow> strend m dst; strcat_loop str src m }"

fun memcmp :: "nat \<Rightarrow> nat \<Rightarrow> nat \<Rightarrow> cmem \<Rightarrow> int option" where
  "memcmp a b 0 m = Some 0"
| "memcmp a b (Suc n) m = do {
     x \<leftarrow> nth_opt m a;
     y \<leftarrow> nth_opt m b;
     if x \<noteq> y then Some (if x > y then 1 else -1) else memcmp (a + 1) (b + 1) n m
   }"

definition strcmp :: "nat \<Rightarrow> nat \<Rightarrow> cmem \<Rightarrow> u32 option" where
  "strcmp a b m = do {
     la \<leftarrow> strlen m a;
     lb \<leftarrow> strlen m b;
     r \<leftarrow> memcmp a b (if la < lb then la else lb) m;
     Some (of_int r)
   }"

definition strcpy :: "nat \<Rightarrow> nat \<Rightarrow> cmem \<Rightarrow> cmem option" where
  "strcpy dst src m = do { n \<leftarrow> strlen m src; memcpy dst src n m }"

text \<open>The length is computed again in every round, on the string as changed so far.\<close>

function replace_loop :: "nat \<Rightarrow> u8 \<Rightarrow> u8 \<Rightarrow> nat \<Rightarrow> cmem \<Rightarrow> (nat \<times> cmem) option" where
  "replace_loop str new old i m = do {
     n \<leftarrow> strlen m str;
     if i < n then do {
       c \<leftarrow> nth_opt m (str + i);
       if c = old then do { m' \<leftarrow> upd_opt m (str + i) new; Some (1, m') } else replace_loop str new old (i + 1) m
     } else Some (0, m)
   }"
  by pat_completeness auto
termination by (relation "measure (\<lambda>(str, new, old, i, m). length m - (str + i))") (auto dest: nth_opt_less)

declare replace_loop.simps [simp del]

definition replace :: "nat \<Rightarrow> u8 \<Rightarrow> u8 \<Rightarrow> cmem \<Rightarrow> (nat \<times> cmem) option" where
  "replace str new old m = replace_loop str new old 0 m"

function replace_all_loop :: "nat \<Rightarrow> u8 \<Rightarrow> u8 \<Rightarrow> nat \<Rightarrow> nat \<Rightarrow> cmem \<Rightarrow> (nat \<times> cmem) option" where
  "replace_all_loop str new old i count m = do {
     n \<leftarrow> strlen m str;
     if i < n then do {
       c \<leftarrow> nth_opt m (str + i);
       m' \<leftarrow> (if c = old then upd_opt m (str + i) new else Some m);
       replace_all_loop str new old (i + 1) (if c = old then count + 1 else count) m'
     } else Some (count, m)
   }"
  by pat_completeness auto
termination
  by (relation "measure (\<lambda>(str, new, old, i, count, m). length m - (str + i))") (auto dest!: nth_opt_less upd_opt_length split: if_splits)

declare replace_all_loop.simps [simp del]

definition replace_all :: "nat \<Rightarrow> u8 \<Rightarrow> u8 \<Rightarrow> cmem \<Rightarrow> (nat \<times> cmem) option" where
  "replace_all str new old m = replace_all_loop str new old 0 0 m"

definition trim :: "nat \<Rightarrow> cmem \<Rightarrow> (nat \<times> cmem) option" where
  "trim str m = replace_all str 0 32 m"

function trim_left_loop :: "nat \<Rightarrow> nat \<Rightarrow> cmem \<Rightarrow> cmem option" where
  "trim_left_loop str i m = do {
     n \<leftarrow> strlen m str;
     if i < n then do {
       c \<leftarrow> nth_opt m (str + i);
       if c = 32 then do { m' \<leftarrow> upd_opt m (str + i) 0; trim_left_loop str (i + 1) m' } else Some m
     } else Some m
   }"
  by pat_completeness auto
termination by (relation "measure (\<lambda>(str, i, m). length m - (str + i))") (auto dest!: nth_opt_less upd_opt_length)

declare trim_left_loop.simps [simp del]

definition trim_left :: "nat \<Rightarrow> cmem \<Rightarrow> (nat \<times> cmem) option" where
  "trim_left str m = do { m' \<leftarrow> trim_left_loop str 0 m; Some (0, m') }"

fun trim_right_loop :: "nat \<Rightarrow> nat \<Rightarrow> cmem \<Rightarrow> cmem option" where
  "trim_right_loop str 0 m = Some m"
| "trim_right_loop str (Suc i) m = do {
     c \<leftarrow> nth_opt m (str + i);
     if c = 32 then do { m' \<leftarrow> upd_opt m (str + i) 0; trim_right_loop str i m' } else Some m
   }"

definition trim_right :: "nat \<Rightarrow> cmem \<Rightarrow> (nat \<times> cmem) option" where
  "trim_right str m = do { n \<leftarrow> strlen m str; m' \<leftarrow> trim_right_loop str n m; Some (0, m') }"

function trim_strlen_loop :: "cmem \<Rightarrow> nat \<Rightarrow> nat option" where
  "trim_strlen_loop m p =
     (if p > 0 then do { c \<leftarrow> nth_opt m p; if c \<noteq> 32 \<and> c \<noteq> 0 then trim_strlen_loop m (p + 1) else Some p }
      else Some p)"
  by pat_completeness auto
termination by (relation "measure (\<lambda>(m, p). length m - p)") (auto dest: nth_opt_less)

declare trim_strlen_loop.simps [simp del]

definition trim_strlen :: "cmem \<Rightarrow> nat \<Rightarrow> nat option" where
  "trim_strlen m str = do { p \<leftarrow> trim_strlen_loop m str; Some (p - str) }"

function strchr :: "cmem \<Rightarrow> nat \<Rightarrow> u8 \<Rightarrow> nat option" where
  "strchr m str ch = do { c \<leftarrow> nth_opt m str; if c = 0 then Some 0 else if c = ch then Some str else strchr m (str + 1) ch }"
  by pat_completeness auto
termination by (relation "measure (\<lambda>(m, p, ch). length m - p)") (auto dest: nth_opt_less)

declare strchr.simps [simp del]

function strrchr_loop :: "cmem \<Rightarrow> nat \<Rightarrow> u8 \<Rightarrow> nat \<Rightarrow> nat option" where
  "strrchr_loop m str ch lst = do {
     c \<leftarrow> nth_opt m str;
     if c = 0 then Some lst else strrchr_loop m (str + 1) ch (if c = ch then str else lst)
   }"
  by pat_completeness auto
termination by (relation "measure (\<lambda>(m, p, ch, lst). length m - p)") (auto dest: nth_opt_less)

declare strrchr_loop.simps [simp del]

definition strrchr :: "cmem \<Rightarrow> nat \<Rightarrow> u8 \<Rightarrow> nat option" where
  "strrchr m str ch = strrchr_loop m str ch 0"

text \<open>\<open>strchrs\<close> never moves \<open>p\<close>: the loop is a partial function, \<open>None\<close> when it does not end.\<close>

partial_function (option) strchrs_loop :: "cmem \<Rightarrow> nat \<Rightarrow> u8 \<Rightarrow> u32 \<Rightarrow> u32 option" where
  "strchrs_loop m p ch ch_cnt =
     Option.bind (nth_opt m p) (\<lambda>c. if c = 0 then Some ch_cnt else strchrs_loop m p ch (if c = ch then ch_cnt + 1 else ch_cnt))"

definition strchrs :: "cmem \<Rightarrow> nat \<Rightarrow> u8 \<Rightarrow> u32 option" where
  "strchrs m str ch = strchrs_loop m str ch 0"

fun strreverse_loop :: "nat \<Rightarrow> nat \<Rightarrow> nat list \<Rightarrow> cmem \<Rightarrow> cmem option" where
  "strreverse_loop str n [] m = Some m"
| "strreverse_loop str n (i # is) m = do {
     tmp \<leftarrow> nth_opt m (str + i);
     c \<leftarrow> nth_opt m (str + (n - 1 - i));
     m1 \<leftarrow> upd_opt m (str + i) c;
     m2 \<leftarrow> upd_opt m1 (str + (n - 1 - i)) tmp;
     strreverse_loop str n is m2
   }"

definition strreverse :: "nat \<Rightarrow> nat \<Rightarrow> cmem \<Rightarrow> cmem option" where
  "strreverse str n m = strreverse_loop str n [0..<n div 2] m"

text \<open>\<open>str2num\<close> returns the error code and the value stored through \<open>num\<close>, if one is.\<close>

fun str2num_loop :: "cmem \<Rightarrow> nat \<Rightarrow> nat \<Rightarrow> nat \<Rightarrow> u32 \<Rightarrow> u32 option option" where
  "str2num_loop m str 0 j ret = Some (Some ret)"
| "str2num_loop m str (Suc i) j ret = do {
     ch \<leftarrow> nth_opt m (str + i);
     if ch < 48 \<or> ch > 57 then Some None
     else str2num_loop m str i (j + 1) (ret + (ucast ch - 48) * pow 10 (of_nat j))
   }"

definition str2num :: "cmem \<Rightarrow> nat \<Rightarrow> (int \<times> u32 option) option" where
  "str2num m str = do {
     n \<leftarrow> strlen m str;
     if n < 1 then Some (-1, None)
     else do {
       c \<leftarrow> nth_opt m str;
       r \<leftarrow> (if c = 45 then str2num_loop m (str + 1) (n - 1) 0 0 else str2num_loop m str n 0 0);
       case r of None \<Rightarrow> Some (-1, None)
       | Some ret \<Rightarrow> Some (0, Some (if c = 45 then - ret else ret))
     }
   }"

text \<open>\<open>num2str\<close> collects the digits in a local array, turns it round and copies it.\<close>

function num2str_loop :: "u32 \<Rightarrow> cmem \<Rightarrow> cmem" where
  "num2str_loop number buf = (if 0 < sint number then num2str_loop (number div 10) (buf @ [ucast (number mod 10) + 48]) else buf)"
  by pat_completeness auto
termination
proof (relation "measure (\<lambda>(n, b). unat n)")
  fix number :: u32 and buf :: cmem
  assume "0 < sint number"
  then have "number \<noteq> 0" by auto
  then have "unat number div 10 < unat number" by (simp add: unat_gt_0)
  then show "((number div 10, buf @ [ucast (number mod 10) + 48]), number, buf) \<in> measure (\<lambda>(n, b). unat n)"
    by (simp add: unat_div_distrib)
qed simp

declare num2str_loop.simps [simp del]

fun store_bytes :: "nat \<Rightarrow> u8 list \<Rightarrow> cmem \<Rightarrow> cmem option" where
  "store_bytes p [] m = Some m"
| "store_bytes p (c # cs) m = do { m' \<leftarrow> upd_opt m p c; store_bytes (p + 1) cs m' }"

definition num2str :: "u32 \<Rightarrow> nat \<Rightarrow> cmem \<Rightarrow> cmem option" where
  "num2str num str m = do {
     m1 \<leftarrow> (if sint num < 0 then upd_opt m str 45 else Some m);
     let str' = (if sint num < 0 then str + 1 else str);
     let number = (if sint num < 0 then num * - 1 else num);
     let buf = num2str_loop number [];
     buf' \<leftarrow> strreverse 0 (length buf) buf;
     store_bytes str' buf' m1
   }"

function strspn_loop :: "cmem \<Rightarrow> nat \<Rightarrow> nat \<Rightarrow> nat option" where
  "strspn_loop m p accept = do {
     c \<leftarrow> nth_opt m p;
     if c = 0 then Some p else do { r \<leftarrow> strchr m accept c; if r = 0 then Some p else strspn_loop m (p + 1) accept }
   }"
  by pat_completeness auto
termination by (relation "measure (\<lambda>(m, p, a). length m - p)") (auto dest: nth_opt_less)

declare strspn_loop.simps [simp del]

definition strspn :: "cmem \<Rightarrow> nat \<Rightarrow> nat \<Rightarrow> nat option" where
  "strspn m s accept = do { p \<leftarrow> strspn_loop m s accept; Some (p - s) }"

function strcspn_loop :: "cmem \<Rightarrow> nat \<Rightarrow> nat \<Rightarrow> nat option" where
  "strcspn_loop m p reject = do {
     c \<leftarrow> nth_opt m p;
     if c = 0 then Some p else do { r \<leftarrow> strchr m reject c; if r \<noteq> 0 then Some p else strcspn_loop m (p + 1) reject }
   }"
  by pat_completeness auto
termination by (relation "measure (\<lambda>(m, p, a). length m - p)") (auto dest: nth_opt_less)

declare strcspn_loop.simps [simp del]

definition strcspn :: "cmem \<Rightarrow> nat \<Rightarrow> nat \<Rightarrow> nat option" where
  "strcspn m s reject = do { p \<leftarrow> strcspn_loop m s reject; Some (p - s) }"

text \<open>\<open>strtok_r\<close> returns the token, the new value of \<open>*save_ptr\<close> and the memory.\<close>

definition strtok_r :: "nat \<Rightarrow> nat \<Rightarrow> nat \<Rightarrow> cmem \<Rightarrow> (nat \<times> nat \<times> cmem) option" where
  "strtok_r str0 delim save_ptr m = do {
     let str = (if str0 = 0 then save_ptr else str0);
     c \<leftarrow> nth_opt m str;
     if c = 0 then Some (0, str, m)
     else do {
       k \<leftarrow> strspn m str delim;
       let str1 = str + k;
       c1 \<leftarrow> nth_opt m str1;
       if c1 = 0 then Some (0, str1, m)
       else do {
         l \<leftarrow> strcspn m str1 delim;
         let en = str1 + l;
         c2 \<leftarrow> nth_opt m en;
         if c2 = 0 then Some (str1, en, m)
         else do { m' \<leftarrow> upd_opt m en 0; Some (str1, en + 1, m') }
       }
     }
   }"

text \<open>\<open>strtok\<close> keeps \<open>save_ptr\<close> in a global variable.\<close>

definition strtok :: "nat \<Rightarrow> nat \<Rightarrow> nat \<times> cmem \<Rightarrow> (nat \<times> nat \<times> cmem) option" where
  "strtok str delim g = strtok_r str delim (fst g) (snd g)"

text \<open>
  \<open>stack.c\<close>: words on a stack that grows down, in memory order of the machine (little endian).
\<close>

definition le32 :: "u32 \<Rightarrow> u8 list" where
  "le32 w = [ucast w, ucast (drop_bit 8 w), ucast (drop_bit 16 w), ucast (drop_bit 24 w)]"

definition load32 :: "cmem \<Rightarrow> nat \<Rightarrow> u32 option" where
  "load32 m p = do {
     a \<leftarrow> nth_opt m p; b \<leftarrow> nth_opt m (p + 1); c \<leftarrow> nth_opt m (p + 2); d \<leftarrow> nth_opt m (p + 3);
     Some (ucast a OR push_bit 8 (ucast b) OR push_bit 16 (ucast c) OR push_bit 24 (ucast d))
   }"

definition stack_push :: "nat \<Rightarrow> u32 \<Rightarrow> cmem \<Rightarrow> (nat \<times> cmem) option" where
  "stack_push stack value m = (if stack < 4 then None else do { m' \<leftarrow> store_bytes (stack - 4) (le32 value) m; Some (stack - 4, m') })"

definition stack_push_value :: "nat \<Rightarrow> nat \<Rightarrow> nat \<Rightarrow> cmem \<Rightarrow> (nat \<times> cmem) option" where
  "stack_push_value stack value sz m = (if stack < sz then None else do { m' \<leftarrow> memcpy (stack - sz) value sz m; Some (stack - sz, m') })"

definition stack_pop :: "nat \<Rightarrow> nat \<Rightarrow> cmem \<Rightarrow> (nat \<times> cmem) option" where
  "stack_pop stack value m = do { w \<leftarrow> load32 m stack; m' \<leftarrow> store_bytes value (le32 w) m; Some (stack + 4, m') }"

text \<open>
  \<open>stdio.c\<close>.  \<open>itoa\<close> recurses until the quotient is zero, which for base 1 is never: a partial
  function.  The variable arguments are the 32-bit words on the stack behind the format; reading past them faults.
\<close>

definition itoa_digit :: "u32 \<Rightarrow> u8" where
  "itoa_digit m = (if m < 10 then ucast m + 48 else ucast (m - 10) + 65)"

partial_function (option) itoa :: "u64 \<Rightarrow> nat \<Rightarrow> u32 \<Rightarrow> cmem \<Rightarrow> (nat \<times> cmem) option" where
  "itoa value p base m = do {
     (i, r) \<leftarrow> div_u64_rem value base;
     (p1, m1) \<leftarrow> (if i \<noteq> 0 then itoa i p base m else Some (p, m));
     m2 \<leftarrow> upd_opt m1 p1 (itoa_digit r);
     Some (p1 + 1, m2)
   }"

fun va_arg :: "u32 list \<Rightarrow> (u32 \<times> u32 list) option" where
  "va_arg [] = None"
| "va_arg (a # ap) = Some (a, ap)"

lemma itoa_length: "itoa value p base m = Some r \<Longrightarrow> length (snd r) = length m"
proof -
  assume "itoa value p base m = Some r"
  then show ?thesis
  proof (rule itoa.raw_induct[rotated])
    fix f :: "u64 \<Rightarrow> nat \<Rightarrow> u32 \<Rightarrow> cmem \<Rightarrow> (nat \<times> cmem) option" and v p base m r
    assume IH: "\<And>value p base m r. f value p base m = Some r \<Longrightarrow> length (snd r) = length m"
      and st: "(div_u64_rem v base \<bind> (\<lambda>(i, d). (if i \<noteq> 0 then f i p base m else Some (p, m)) \<bind>
        (\<lambda>(p1, m1). upd_opt m1 p1 (itoa_digit d) \<bind> (\<lambda>m2. Some (p1 + 1, m2))))) = Some r"
    from st obtain i d p1 m1 m2 where x: "div_u64_rem v base = Some (i, d)" "(if i \<noteq> 0 then f i p base m else Some (p, m)) = Some (p1, m1)"
      "upd_opt m1 p1 (itoa_digit d) = Some m2" "r = (p1 + 1, m2)" by (auto simp: bind_eq_Some_conv)
    have "length m1 = length m" using x(2) IH[of i p base m "(p1, m1)"] by (auto split: if_splits)
    then show "length (snd r) = length m" using x(3,4) by (auto dest: upd_opt_length)
  qed
qed

lemma memcpy_length: "memcpy dst src n m = Some m' \<Longrightarrow> length m' = length m"
  by (induction dst src n m rule: memcpy.induct) (auto simp: bind_eq_Some_conv dest: upd_opt_length)

function vsprintf_loop :: "nat \<Rightarrow> nat \<Rightarrow> u8 \<Rightarrow> u32 list \<Rightarrow> cmem \<Rightarrow> (nat \<times> cmem) option" where
  "vsprintf_loop buf_ptr index_ptr index_char ap m =
     (if index_char = 0 then Some (buf_ptr, m)
      else if index_char \<noteq> 37 then do {
        m' \<leftarrow> upd_opt m buf_ptr index_char;
        c \<leftarrow> nth_opt m' (index_ptr + 1);
        vsprintf_loop (buf_ptr + 1) (index_ptr + 1) c ap m'
      }
      else do {
        c \<leftarrow> nth_opt m (index_ptr + 1);
        if c = 115 then do {
          (arg_str, ap') \<leftarrow> va_arg ap;
          n \<leftarrow> strlen m (unat arg_str);
          m' \<leftarrow> memcpy buf_ptr (unat arg_str) n m;
          n' \<leftarrow> strlen m' (unat arg_str);
          c' \<leftarrow> nth_opt m' (index_ptr + 2);
          vsprintf_loop (buf_ptr + n') (index_ptr + 2) c' ap' m'
        }
        else if c = 99 then do {
          (arg, ap') \<leftarrow> va_arg ap;
          m' \<leftarrow> upd_opt m buf_ptr (ucast arg);
          c' \<leftarrow> nth_opt m' (index_ptr + 2);
          vsprintf_loop (buf_ptr + 1) (index_ptr + 2) c' ap' m'
        }
        else if c = 100 then do {
          (arg_int, ap') \<leftarrow> va_arg ap;
          m1 \<leftarrow> (if sint arg_int < 0 then upd_opt m buf_ptr 45 else Some m);
          r \<leftarrow> (if sint arg_int < 0 then itoa (scast (0 - arg_int)) (buf_ptr + 1) 10 m1 else itoa (scast arg_int) buf_ptr 10 m1);
          c' \<leftarrow> nth_opt (snd r) (index_ptr + 2);
          vsprintf_loop (fst r) (index_ptr + 2) c' ap' (snd r)
        }
        else if c = 120 then do {
          (arg_int, ap') \<leftarrow> va_arg ap;
          r \<leftarrow> itoa (scast arg_int) buf_ptr 16 m;
          c' \<leftarrow> nth_opt (snd r) (index_ptr + 2);
          vsprintf_loop (fst r) (index_ptr + 2) c' ap' (snd r)
        }
        else if c = 108 then do {
          (lo, ap1) \<leftarrow> va_arg ap;
          (hi, ap2) \<leftarrow> va_arg ap1;
          let arg_long = (ucast lo OR push_bit 32 (ucast hi) :: u64);
          m1 \<leftarrow> (if sint arg_long < 0 then upd_opt m buf_ptr 45 else Some m);
          r \<leftarrow> (if sint arg_long < 0 then itoa (0 - arg_long) (buf_ptr + 1) 10 m1 else itoa arg_long buf_ptr 10 m1);
          c' \<leftarrow> nth_opt (snd r) (index_ptr + 2);
          vsprintf_loop (fst r) (index_ptr + 2) c' ap2 (snd r)
        }
        else vsprintf_loop buf_ptr (index_ptr + 1) c ap m
      })"
  by pat_completeness auto
termination
  by (relation "measure (\<lambda>(b, i, c, ap, m). length m - i)") (auto dest!: nth_opt_less upd_opt_length memcpy_length itoa_length split: if_splits)

declare vsprintf_loop.simps [simp del]

definition vsprintf :: "nat \<Rightarrow> nat \<Rightarrow> u32 list \<Rightarrow> cmem \<Rightarrow> (nat \<times> cmem) option" where
  "vsprintf str format ap m = do {
     c \<leftarrow> nth_opt m format;
     (b, m') \<leftarrow> vsprintf_loop str format c ap m;
     n \<leftarrow> strlen m' str;
     Some (n, m')
   }"

definition sprintf :: "nat \<Rightarrow> nat \<Rightarrow> u32 list \<Rightarrow> cmem \<Rightarrow> (nat \<times> cmem) option" where
  "sprintf buf format args m = vsprintf buf format args m"

end
