(* ===== verification/Cstring_Proofs.thy ===== *)
theory Cstring_Proofs
  imports Cstring
begin

text \<open>
  Strings in memory.  \<open>cstr m p s\<close> says that the bytes \<open>s\<close>, none of them zero, and a final zero are stored
  from \<open>p\<close> on; the functions of the library are described by what they do to \<open>s\<close>.
\<close>

section \<open>Strings in memory\<close>

fun cstr :: "cmem \<Rightarrow> nat \<Rightarrow> u8 list \<Rightarrow> bool" where
  "cstr m p [] \<longleftrightarrow> nth_opt m p = Some 0"
| "cstr m p (c # s) \<longleftrightarrow> c \<noteq> 0 \<and> nth_opt m p = Some c \<and> cstr m (p + 1) s"

lemma cstr_append: "cstr m p (s @ t) \<Longrightarrow> cstr m (p + length s) t"
  by (induction s arbitrary: p) fastforce+

lemma cstr_first: "cstr m p s \<Longrightarrow> nth_opt m p = Some (case s of [] \<Rightarrow> 0 | c # _ \<Rightarrow> c)"
  by (cases s) auto

lemma cstr_nz: "cstr m p s \<Longrightarrow> 0 \<notin> set s"
  by (induction s arbitrary: p) auto

lemma cstr_bound: "cstr m p s \<Longrightarrow> p + length s < length m"
  by (induction s arbitrary: p) (auto dest: nth_opt_less, fastforce)

lemma cstr_cong:
  assumes "cstr m p s" "length m' = length m" "\<And>a. p \<le> a \<Longrightarrow> a \<le> p + length s \<Longrightarrow> m' ! a = m ! a"
  shows "cstr m' p s"
  using assms
proof (induction s arbitrary: p)
  case Nil
  then show ?case by (auto simp: nth_opt_def split: if_splits)
next
  case (Cons c s)
  then have "cstr m' (p + 1) s" by (intro Cons.IH) auto
  then show ?case using Cons.prems by (auto simp: nth_opt_def split: if_splits)
qed

lemma cstr_cut:
  assumes "cstr m p (s @ c # t)"
  shows "cstr (m[p + length s := 0]) p s" "cstr (m[p + length s := 0]) (p + length s + 1) t" "p + length s < length m"
proof -
  show b: "p + length s < length m" using cstr_bound[OF assms] by simp
  show "cstr (m[p + length s := 0]) (p + length s + 1) t"
  proof (rule cstr_cong[of m])
    show "cstr m (p + length s + 1) t" using cstr_append[OF assms] by simp
  qed simp_all
  show "cstr (m[p + length s := 0]) p s"
    using assms b
  proof (induction s arbitrary: p)
    case (Cons d s)
    then have "cstr (m[p + 1 + length s := 0]) (p + 1) s" by (intro Cons.IH) simp_all
    moreover have "nth_opt (m[p + length (d # s) := 0]) p = nth_opt m p" by (simp add: nth_opt_def)
    ultimately show ?case using Cons.prems(1) by simp
  qed (simp add: nth_opt_def)
qed

lemma strend_cstr: "cstr m p s \<Longrightarrow> strend m p = Some (p + length s)"
  by (induction s arbitrary: p) (simp_all add: strend.simps[of m])

lemma strlen_cstr: "cstr m p s \<Longrightarrow> strlen m p = Some (length s)"
  by (simp add: strlen_def strend_cstr)

lemma strchr_cstr: "cstr m p s \<Longrightarrow> 0 < p \<Longrightarrow> c \<noteq> 0 \<Longrightarrow> \<exists>r. strchr m p c = Some r \<and> (r = 0 \<longleftrightarrow> c \<notin> set s)"
proof (induction s arbitrary: p)
  case (Cons d s)
  then obtain r where "strchr m (p + 1) c = Some r" "r = 0 \<longleftrightarrow> c \<notin> set s" by auto
  then show ?case using Cons.prems by (auto simp: strchr.simps[of m p])
qed (simp add: strchr.simps[of m])

lemma strspn_loop_cstr:
  assumes "cstr m d D" "0 < d" "cstr m p s"
  shows "strspn_loop m p d = Some (p + length (takeWhile (\<lambda>c. c \<in> set D) s))"
  using assms(3)
proof (induction s arbitrary: p)
  case (Cons c s)
  then obtain r where "strchr m d c = Some r" "r = 0 \<longleftrightarrow> c \<notin> set D" using strchr_cstr[OF assms(1,2), of c] by auto
  then show ?case using Cons by (simp add: strspn_loop.simps[of m p])
qed (simp add: strspn_loop.simps[of m])

lemma strcspn_loop_cstr:
  assumes "cstr m d D" "0 < d" "cstr m p s"
  shows "strcspn_loop m p d = Some (p + length (takeWhile (\<lambda>c. c \<notin> set D) s))"
  using assms(3)
proof (induction s arbitrary: p)
  case (Cons c s)
  then obtain r where "strchr m d c = Some r" "r = 0 \<longleftrightarrow> c \<notin> set D" using strchr_cstr[OF assms(1,2), of c] by auto
  then show ?case using Cons by (simp add: strcspn_loop.simps[of m p])
qed (simp add: strcspn_loop.simps[of m])

section \<open>Tokens\<close>

function tokens :: "u8 set \<Rightarrow> u8 list \<Rightarrow> u8 list list" where
  "tokens D s = (let t = dropWhile (\<lambda>c. c \<in> D) s
     in if t = [] then [] else takeWhile (\<lambda>c. c \<notin> D) t # tokens D (drop 1 (dropWhile (\<lambda>c. c \<notin> D) t)))"
  by pat_completeness auto
termination
proof (relation "measure (\<lambda>(D, s). length s)")
  fix D :: "u8 set" and s t :: "u8 list"
  assume t: "t = dropWhile (\<lambda>c. c \<in> D) s" "t \<noteq> []"
  have "length (dropWhile (\<lambda>c. c \<notin> D) t) \<le> length t" "length t \<le> length s" by (simp_all add: t(1) length_dropWhile_le)
  moreover have "0 < length t" using t(2) by simp
  ultimately have "length (dropWhile (\<lambda>c. c \<notin> D) t) - 1 < length s" by linarith
  then show "((D, drop 1 (dropWhile (\<lambda>c. c \<notin> D) t)), D, s) \<in> measure (\<lambda>(D, s). length s)" by simp
qed simp

declare tokens.simps [simp del]

text \<open>All calls of a tokenising loop: the first with the string, the others with NULL, until NULL comes back.\<close>

fun strtok_list :: "nat \<Rightarrow> nat \<Rightarrow> nat \<Rightarrow> nat \<Rightarrow> cmem \<Rightarrow> (nat list \<times> cmem) option" where
  "strtok_list 0 str save d m = None"
| "strtok_list (Suc n) str save d m = do {
     (t, sv, m') \<leftarrow> strtok_r str d save m;
     if t = 0 then Some ([], m') else do { (ts, m'') \<leftarrow> strtok_list n 0 sv d m'; Some (t # ts, m'') }
   }"

lemma strtok_r_none:
  assumes d: "cstr m d D" "0 < d" and s: "cstr m p s" and str: "p = (if str = 0 then save else str)"
    and e: "dropWhile (\<lambda>c. c \<in> set D) s = []"
  shows "\<exists>sv. strtok_r str d save m = Some (0, sv, m)"
proof (cases s)
  case Nil
  then show ?thesis using s str by (simp add: strtok_r_def Let_def)
next
  case (Cons c s')
  have all: "takeWhile (\<lambda>c. c \<in> set D) s = s" using e by (metis append_Nil2 takeWhile_dropWhile_id)
  have "nth_opt m (p + length s) = Some 0" using cstr_append[of m p s "[]"] s by simp
  moreover have "strspn m p d = Some (length s)" using strspn_loop_cstr[OF d s] all by (simp add: strspn_def)
  moreover have "nth_opt m p = Some c" "c \<noteq> 0" using s Cons by auto
  ultimately show ?thesis using str[symmetric] by (simp add: strtok_r_def Let_def)
qed

lemma strtok_r_some:
  assumes d: "cstr m d D" "0 < d" and s: "cstr m p s" "0 < p" and str: "p = (if str = 0 then save else str)"
    and t: "dropWhile (\<lambda>c. c \<in> set D) s = t" "t \<noteq> []" and w: "takeWhile (\<lambda>c. c \<notin> set D) t = w" and r: "dropWhile (\<lambda>c. c \<notin> set D) t = r"
  obtains q sv m' where "strtok_r str d save m = Some (q, sv, m')" "p \<le> q" "q \<noteq> 0" "cstr m' q w" "cstr m' sv (drop 1 r)" "0 < sv" "q + length w \<le> sv"
    "r \<noteq> [] \<Longrightarrow> q + length w < sv" "sv + length (drop 1 r) \<le> p + length s" "length m' = length m"
    "\<And>a. a < p \<or> p + length s < a \<Longrightarrow> m' ! a = m ! a"
proof -
  define k where "k = length (takeWhile (\<lambda>c. c \<in> set D) s)"
  have s_eq: "s = takeWhile (\<lambda>c. c \<in> set D) s @ t" using t(1) by (metis takeWhile_dropWhile_id)
  have t_eq: "t = w @ r" using w r by (metis takeWhile_dropWhile_id)
  have ct: "cstr m (p + k) t" using cstr_append[of m p "takeWhile (\<lambda>c. c \<in> set D) s" t] s(1) s_eq k_def by simp
  have len: "length s = k + length w + length r" using s_eq t_eq k_def by (metis length_append add.assoc)
  have c0: "nth_opt m p = Some (hd s)" "hd s \<noteq> 0" using s(1) t by (cases s; auto)+
  have c1: "nth_opt m (p + k) = Some (hd t)" "hd t \<noteq> 0" using ct t(2) by (cases t; auto)+
  have sp: "strspn m p d = Some k" using strspn_loop_cstr[OF d s(1)] by (simp add: strspn_def k_def)
  have sc: "strcspn m (p + k) d = Some (length w)" using strcspn_loop_cstr[OF d ct] w by (simp add: strcspn_def)
  have cr: "cstr m (p + k + length w) r" using cstr_append[of m "p + k" w r] ct t_eq by simp
  note st = strtok_r_def Let_def str[symmetric] c0 c1 sp sc
  show thesis
  proof (cases r)
    case Nil
    have "strtok_r str d save m = Some (p + k, p + k + length w, m)" using cr Nil by (simp add: st)
    then show thesis using that[of "p + k" "p + k + length w" m] ct cr Nil t_eq s(2) len by simp
  next
    case (Cons c r')
    define m' where "m' = m[p + k + length w := 0]"
    have cc: "cstr m (p + k) (w @ c # r')" using ct t_eq Cons by simp
    note cut = cstr_cut[OF cc, folded m'_def]
    have "nth_opt m (p + k + length w) = Some c" "c \<noteq> 0" using cr Cons by auto
    then have "strtok_r str d save m = Some (p + k, p + k + length w + 1, m')" using cut(3) by (simp add: st upd_opt_def m'_def)
    moreover have "m' ! a = m ! a" if "a < p \<or> p + length s < a" for a
      using that len Cons by (auto simp: m'_def)
    moreover have "length m' = length m" by (simp add: m'_def)
    ultimately show thesis
      using that[of "p + k" "p + k + length w + 1" m'] cut(1,2) Cons s(2) len by simp
  qed
qed

lemma strtok_list_ok:
  assumes "cstr m d D" "0 < d" "cstr m p s" "0 < p" "p = (if str = 0 then save else str)" "length s < n"
    "d + length D < p \<or> p + length s < d"
  shows "\<exists>ts m'. strtok_list n str save d m = Some (ts, m') \<and> list_all2 (cstr m') ts (tokens (set D) s) \<and> (\<forall>q\<in>set ts. p \<le> q) \<and>
     length m' = length m \<and> (\<forall>a. a < p \<or> p + length s < a \<longrightarrow> m' ! a = m ! a)"
  using assms
proof (induction n arbitrary: m p s str save)
  case (Suc n)
  note d = Suc.prems(1,2) and s = Suc.prems(3,4) and str = Suc.prems(5) and len = Suc.prems(6) and dis = Suc.prems(7)
  define t where "t = dropWhile (\<lambda>c. c \<in> set D) s"
  show ?case
  proof (cases "t = []")
    case True
    then have "tokens (set D) s = []" by (simp add: tokens.simps[of _ s] t_def)
    moreover obtain sv where "strtok_r str d save m = Some (0, sv, m)" using strtok_r_none[OF d s(1) str] True by (auto simp: t_def)
    ultimately show ?thesis by simp
  next
    case False
    define w where "w = takeWhile (\<lambda>c. c \<notin> set D) t"
    define r where "r = dropWhile (\<lambda>c. c \<notin> set D) t"
    have tk: "tokens (set D) s = w # tokens (set D) (drop 1 r)" using False by (simp add: tokens.simps[of _ s] t_def[symmetric] w_def r_def Let_def)
    obtain q sv m1 where q: "strtok_r str d save m = Some (q, sv, m1)" "p \<le> q" "q \<noteq> 0" "cstr m1 q w" "cstr m1 sv (drop 1 r)" "0 < sv" "q + length w \<le> sv"
      "r \<noteq> [] \<Longrightarrow> q + length w < sv" "sv + length (drop 1 r) \<le> p + length s" "length m1 = length m"
      "\<And>a. a < p \<or> p + length s < a \<Longrightarrow> m1 ! a = m ! a"
      by (rule strtok_r_some[OF d s str t_def[symmetric] False w_def[symmetric] r_def[symmetric]]) (rule that; assumption)
    have cd: "cstr m1 d D"
    proof (rule cstr_cong[OF d(1) q(10)])
      fix a assume "d \<le> a" "a \<le> d + length D"
      then have "a < p \<or> p + length s < a" using dis by linarith
      then show "m1 ! a = m ! a" by (rule q(11))
    qed
    have "w \<noteq> []"
    proof -
      have "hd t \<notin> set D" using False hd_dropWhile[of "\<lambda>c. c \<in> set D" s] t_def by auto
      then show ?thesis using False by (cases t) (auto simp: w_def)
    qed
    then have "1 \<le> length w" by (cases w) auto
    then have l: "length (drop 1 r) < n" using q(2,7,9) len by linarith
    have dis': "d + length D < sv \<or> sv + length (drop 1 r) < d" using dis q(2,7,9) by linarith
    have sv: "sv = (if (0::nat) = 0 then sv else 0)" by simp
    obtain ts m2 where ih: "strtok_list n 0 sv d m1 = Some (ts, m2)" "list_all2 (cstr m2) ts (tokens (set D) (drop 1 r))" "\<forall>x\<in>set ts. sv \<le> x"
      "length m2 = length m1" "\<forall>a. a < sv \<or> sv + length (drop 1 r) < a \<longrightarrow> m2 ! a = m1 ! a"
      using Suc.IH[OF cd d(2) q(5,6) sv l dis'] by blast
    have "cstr m2 q w"
    proof (rule cstr_cong[OF q(4) ih(4)])
      fix a assume a: "q \<le> a" "a \<le> q + length w"
      show "m2 ! a = m1 ! a"
      proof (cases "a < sv")
        case False
        then have "a = sv" using a q(7) by linarith
        moreover have "r = []" using False a q(8) by (cases "r = []") auto
        moreover obtain n' where "n = Suc n'" using l by (cases n) auto
        ultimately show ?thesis using ih(1) q(5) by (simp add: strtok_r_def)
      qed (use ih(5) in blast)
    qed
    then have "list_all2 (cstr m2) (q # ts) (tokens (set D) s)" using ih(2) tk by simp
    moreover have "strtok_list (Suc n) str save d m = Some (q # ts, m2)" using q(1,3) ih(1) by simp
    moreover have "m2 ! a = m ! a" if "a < p \<or> p + length s < a" for a
    proof -
      have "a < sv \<or> sv + length (drop 1 r) < a" using that q(2,7,9) by linarith
      then have "m2 ! a = m1 ! a" using ih(5) by blast
      then show ?thesis using q(11)[OF that] by simp
    qed
    moreover have "\<forall>x\<in>set (q # ts). p \<le> x" using ih(3) q(2,7) by fastforce
    ultimately show ?thesis using ih(4) q(10) by (intro exI[of _ "q # ts"] exI[of _ m2]) simp
  qed
qed simp

section \<open>Numbers\<close>

function digits :: "nat \<Rightarrow> nat \<Rightarrow> nat list" where
  "digits b n = (if b < 2 \<or> n < b then [n] else digits b (n div b) @ [n mod b])"
  by pat_completeness auto
termination by (relation "measure snd") auto

declare digits.simps [simp del]

definition dig :: "nat \<Rightarrow> u8" where
  "dig d = (if d < 10 then of_nat d + 48 else of_nat (d - 10) + 65)"

definition numeral_of :: "nat \<Rightarrow> nat \<Rightarrow> u8 list" where
  "numeral_of b n = map dig (digits b n)"

fun val_of :: "nat list \<Rightarrow> nat" where
  "val_of [] = 0"
| "val_of (d # ds) = d * 10 ^ length ds + val_of ds"

lemma val_snoc: "val_of (ds @ [d]) = val_of ds * 10 + d"
  by (induction ds) (simp_all add: algebra_simps)

lemma digits_val: "val_of (digits 10 n) = n"
proof (induction n rule: less_induct)
  case (less n)
  then show ?case using less.IH[of "n div 10"] by (cases "n < 10") (simp_all add: digits.simps[of _ n] val_snoc)
qed

lemma digits_lt: "2 \<le> b \<Longrightarrow> d \<in> set (digits b n) \<Longrightarrow> d < b"
proof (induction n rule: less_induct)
  case (less n)
  then show ?case using less.IH[of "n div b"] by (cases "n < b") (auto simp: digits.simps[of _ n])
qed

lemma digits_nonempty: "digits b n \<noteq> []"
  by (simp add: digits.simps)

lemma digits_length: "2 \<le> b \<Longrightarrow> n < b ^ k \<Longrightarrow> 0 < k \<Longrightarrow> length (digits b n) \<le> k"
proof (induction k arbitrary: n)
  case (Suc k)
  show ?case
  proof (cases "n < b")
    case False
    then have "0 < k" using Suc.prems by (cases k) auto
    moreover have "n div b < b ^ k" using Suc.prems by (simp add: less_mult_imp_div_less mult.commute)
    ultimately have "length (digits b (n div b)) \<le> k" using Suc by simp
    then show ?thesis using False Suc.prems by (simp add: digits.simps[of _ n])
  qed (simp add: digits.simps[of _ n])
qed simp

lemma dig_digit:
  assumes "d < 10"
  shows "dig d \<noteq> 0" "48 \<le> dig d" "dig d \<le> 57" "ucast (dig d) - 48 = (of_nat d :: u32)" "dig d \<noteq> 45"
proof -
  have "d \<in> {0, 1, 2, 3, 4, 5, 6, 7, 8, 9}" using assms by (cases d) (auto simp: less_Suc_eq numeral_eq_Suc)
  then show "dig d \<noteq> 0" "48 \<le> dig d" "dig d \<le> 57" "ucast (dig d) - 48 = (of_nat d :: u32)" "dig d \<noteq> 45"
    by (auto simp: dig_def)
qed

definition put :: "nat \<Rightarrow> u8 list \<Rightarrow> cmem \<Rightarrow> cmem" where
  "put p bs m = take p m @ bs @ drop (p + length bs) m"

lemma put_Nil [simp]: "put p [] m = m"
  by (simp add: put_def)

lemma length_put [simp]: "p + length bs \<le> length m \<Longrightarrow> length (put p bs m) = length m"
  by (simp add: put_def)

lemma nth_put: "p + length bs \<le> length m \<Longrightarrow> a < p \<or> p + length bs \<le> a \<Longrightarrow> put p bs m ! a = m ! a"
  by (auto simp: put_def nth_append)

lemma put_append: "p + length a + length b \<le> length m \<Longrightarrow> put (p + length a) b (put p a m) = put p (a @ b) m"
  by (simp add: put_def ac_simps)

lemma put_one: "p < length m \<Longrightarrow> put p [c] m = m[p := c]"
  by (simp add: put_def upd_conv_take_nth_drop)

lemma store_bytes_eq: "p + length bs \<le> length m \<Longrightarrow> store_bytes p bs m = Some (put p bs m)"
  unfolding put_def
proof (induction bs arbitrary: p m)
  case (Cons b bs)
  have "take (p + 1) (m[p := b]) = take p m @ [b]" using Cons.prems by (simp add: take_Suc_conv_app_nth)
  moreover have "drop (p + 1 + length bs) (m[p := b]) = drop (p + Suc (length bs)) m" by simp
  ultimately show ?case using Cons.prems Cons.IH[of "p + 1" "m[p := b]"] by (simp add: upd_opt_def)
qed simp

lemma cstr_stored:
  "p + length bs < length m \<Longrightarrow> m ! (p + length bs) = 0 \<Longrightarrow> 0 \<notin> set bs \<Longrightarrow> cstr (put p bs m) p bs"
  unfolding put_def
proof (induction bs arbitrary: p m)
  case (Cons b bs)
  have e: "take (p + 1) (m[p := b]) @ bs @ drop (p + 1 + length bs) (m[p := b]) = take p m @ (b # bs) @ drop (p + length (b # bs)) m"
    using Cons.prems by (simp add: take_Suc_conv_app_nth)
  have "cstr (take (p + 1) (m[p := b]) @ bs @ drop (p + 1 + length bs) (m[p := b])) (p + 1) bs"
    using Cons.prems by (intro Cons.IH) auto
  then show ?case unfolding e using Cons.prems by (simp add: nth_opt_def nth_append)
qed (simp add: nth_opt_def)

text \<open>Turning an array round, pair by pair.\<close>

definition rev_upto :: "nat \<Rightarrow> 'a list \<Rightarrow> 'a list" where
  "rev_upto k xs = map (\<lambda>i. if i < k \<or> length xs - k \<le> i then xs ! (length xs - 1 - i) else xs ! i) [0..<length xs]"

lemma strreverse_loop_ok:
  "k \<le> length b div 2 \<Longrightarrow> strreverse_loop 0 (length b) [k..<length b div 2] (rev_upto k b) = Some (rev_upto (length b div 2) b)"
proof (induction "length b div 2 - k" arbitrary: k)
  case (Suc n)
  then have k: "k < length b div 2" by simp
  then have kl: "k < length b" "length b - 1 - k < length b" "k < length b - k" "k \<noteq> length b - 1 - k" "\<not> length b - k \<le> length b - 1 - k" by linarith+
  let ?m = "rev_upto k b"
  have "?m ! k = b ! k" "?m ! (length b - 1 - k) = b ! (length b - 1 - k)" "length ?m = length b" using kl k by (auto simp: rev_upto_def)
  moreover have "?m[k := b ! (length b - 1 - k), length b - 1 - k := b ! k] = rev_upto (Suc k) b"
  proof (rule nth_equalityI)
    fix i assume "i < length (?m[k := b ! (length b - 1 - k), length b - 1 - k := b ! k])"
    then have i: "i < length b" by (simp add: rev_upto_def)
    consider "i = k" | "i = length b - 1 - k" | "i \<noteq> k" "i \<noteq> length b - 1 - k" by blast
    then show "?m[k := b ! (length b - 1 - k), length b - 1 - k := b ! k] ! i = rev_upto (Suc k) b ! i"
    proof cases
      case 3
      then have "i < Suc k \<or> length b - Suc k \<le> i \<longleftrightarrow> i < k \<or> length b - k \<le> i" using i by linarith
      then show ?thesis using 3 i by (simp add: rev_upto_def)
    qed (use i kl k in \<open>auto simp: rev_upto_def nth_list_update\<close>)
  qed (simp add: rev_upto_def)
  moreover have "[k..<length b div 2] = k # [Suc k..<length b div 2]" using k by (simp add: upt_conv_Cons)
  moreover have "strreverse_loop 0 (length b) [Suc k..<length b div 2] (rev_upto (Suc k) b) = Some (rev_upto (length b div 2) b)"
    using Suc.hyps(2) k by (intro Suc.hyps(1)) linarith+
  ultimately show ?case using k kl by (simp add: nth_opt_def upd_opt_def)
qed simp

lemma strreverse_ok: "strreverse 0 (length b) b = Some (rev b)"
proof -
  have "rev_upto 0 b = b" by (rule nth_equalityI) (auto simp: rev_upto_def)
  moreover have "rev_upto (length b div 2) b = rev b"
  proof (rule nth_equalityI)
    fix i assume "i < length (rev_upto (length b div 2) b)"
    then have i: "i < length b" by (simp add: rev_upto_def)
    have "i = length b - 1 - i" if "\<not> i < length b div 2" "\<not> length b - length b div 2 \<le> i" using that by linarith
    then show "rev_upto (length b div 2) b ! i = rev b ! i" using i by (auto simp: rev_upto_def rev_nth)
  qed (simp add: rev_upto_def)
  ultimately show ?thesis using strreverse_loop_ok[of 0 b] by (simp add: strreverse_def)
qed

lemma sint_of_nat_len:
  assumes "k < 2 ^ LENGTH('a)"
  shows "sint (of_nat k :: 'a::len word) = (if k < 2 ^ (LENGTH('a) - 1) then int k else int k - 2 ^ LENGTH('a))"
proof -
  obtain n where n: "LENGTH('a) = Suc n" by (cases "LENGTH('a)") auto
  have "sint (of_nat k :: 'a word) = (int k + 2 ^ n) mod 2 ^ Suc n - 2 ^ n"
    using n by (simp add: signed_take_bit_eq_take_bit_shift take_bit_eq_mod signed_of_nat mod_simps)
  moreover have "(int k + 2 ^ n) mod 2 ^ Suc n = int k + 2 ^ n" if "k < 2 ^ n"
  proof -
    have "int k < 2 ^ n" using that by (metis of_nat_less_iff of_nat_numeral of_nat_power)
    then show ?thesis by (intro mod_pos_pos_trivial) simp_all
  qed
  moreover have "(int k + 2 ^ n) mod 2 ^ Suc n = int k - 2 ^ n" if "\<not> k < 2 ^ n"
  proof -
    have "int k \<ge> 2 ^ n" using that by (metis not_less of_nat_le_iff of_nat_numeral of_nat_power)
    moreover have "int k < 2 ^ Suc n" using assms n by (metis of_nat_less_iff of_nat_numeral of_nat_power)
    moreover have "int k + 2 ^ n = (int k - 2 ^ n) + 2 ^ Suc n" by simp
    then have "(int k + 2 ^ n) mod 2 ^ Suc n = (int k - 2 ^ n) mod 2 ^ Suc n" by (simp only: mod_add_self2)
    ultimately show ?thesis by (simp add: mod_pos_pos_trivial)
  qed
  ultimately show ?thesis using n by simp
qed

lemma sint_of_nat32:
  "k < 4294967296 \<Longrightarrow> sint (of_nat k :: u32) = (if k < 2147483648 then int k else int k - 4294967296)"
  using sint_of_nat_len[of k, where ?'a = 32] by simp

lemma word32E:
  obtains k where "w = (of_nat k :: u32)" "unat w = k" "k < 4294967296" "sint w = (if k < 2147483648 then int k else int k - 4294967296)"
proof
  have u: "unat w < 4294967296" using unsigned_less[of w] by simp
  show "w = of_nat (unat w)" by simp
  show "sint w = (if unat w < 2147483648 then int (unat w) else int (unat w) - 4294967296)"
    using sint_of_nat32[OF u] by simp
qed (use unsigned_less[of w] in simp_all)

lemma sint_pos: "0 < sint (w :: u32) \<longleftrightarrow> 0 < unat w \<and> unat w < 2147483648"
  by (rule word32E[of w]) auto

lemma num2str_loop_ok:
  assumes "0 < unat n" "unat n < 2 ^ 31"
  shows "num2str_loop n buf = buf @ rev (numeral_of 10 (unat n))"
  using assms
proof (induction "unat n" arbitrary: n buf rule: less_induct)
  case less
  have q: "unat (n div 10) = unat n div 10" "unat (n mod 10) = unat n mod 10" by (simp_all add: unat_div_distrib unat_mod_distrib)
  have "(ucast (n mod 10) :: u8) = of_nat (unat (n mod 10))" by simp
  then have d: "ucast (n mod 10) + 48 = dig (unat n mod 10)" by (simp add: dig_def q(2))
  have step: "num2str_loop n buf = num2str_loop (n div 10) (buf @ [dig (unat n mod 10)])"
    using less.prems d by (subst num2str_loop.simps) (simp add: sint_pos)
  show ?case
  proof (cases "unat n < 10")
    case True
    then have "unat (n div 10) = 0" using q by simp
    then have "num2str_loop (n div 10) b = b" for b by (subst num2str_loop.simps) (simp add: sint_pos)
    then show ?thesis using step True by (simp add: numeral_of_def digits.simps[of _ "unat n"])
  next
    case False
    then have "num2str_loop (n div 10) (buf @ [dig (unat n mod 10)]) = (buf @ [dig (unat n mod 10)]) @ rev (numeral_of 10 (unat (n div 10)))"
      using less.prems q by (intro less.hyps) auto
    then show ?thesis using step False q by (simp add: numeral_of_def digits.simps[of _ "unat n"])
  qed
qed

lemma pow_eq: "j < 2 ^ 32 \<Longrightarrow> pow x (of_nat j) = x ^ j"
  by (simp add: pow_def pow_loop_eq unat_of_nat_small)

lemma str2num_loop_ok:
  assumes "\<And>i. i < length ds \<Longrightarrow> nth_opt m (p + i) = Some (dig (ds ! i))" "\<And>d. d \<in> set ds \<Longrightarrow> d < 10" "j + length ds < 2 ^ 32"
  shows "str2num_loop m p (length ds) j ret = Some (Some (ret + of_nat (10 ^ j * val_of ds)))"
  using assms
proof (induction ds arbitrary: j ret rule: rev_induct)
  case (snoc d ds)
  have d: "d < 10" "nth_opt m (p + length ds) = Some (dig d)" using snoc.prems(1)[of "length ds"] snoc.prems(2) by (auto simp: nth_append)
  note g = dig_digit[OF d(1)]
  have i: "nth_opt m (p + i) = Some (dig (ds ! i))" if "i < length ds" for i using snoc.prems(1)[of i] that by (simp add: nth_append)
  have "\<not> (dig d < 48 \<or> 57 < dig d)" using g by (simp add: not_less)
  moreover have "pow 10 (of_nat j) = (10 :: u32) ^ j" using snoc.prems(3) by (intro pow_eq) simp
  ultimately have "str2num_loop m p (length (ds @ [d])) j ret = str2num_loop m p (length ds) (j + 1) (ret + of_nat d * 10 ^ j)"
    using d(2) g(4) by simp
  also have "\<dots> = Some (Some (ret + of_nat d * 10 ^ j + of_nat (10 ^ (j + 1) * val_of ds)))"
    using snoc.prems(2,3) i by (intro snoc.IH) auto
  finally show ?case by (simp add: val_snoc algebra_simps)
qed simp

definition decimal :: "u32 \<Rightarrow> u8 list" where
  "decimal num = (if sint num < 0 then 45 # numeral_of 10 (nat (- sint num)) else numeral_of 10 (nat (sint num)))"

lemma decimal_cases:
  assumes "sint num \<noteq> - (2 ^ 31)"
  obtains (neg) n where "sint num < 0" "0 < n" "n < 2147483648" "num = - of_nat n" "unat (num * - 1) = n" "decimal num = 45 # numeral_of 10 n"
  | (nonneg) n where "\<not> sint num < 0" "n < 2147483648" "num = of_nat n" "unat num = n" "decimal num = numeral_of 10 n"
proof -
  obtain k where k: "num = (of_nat k :: u32)" "unat num = k" "k < 4294967296" "sint num = (if k < 2147483648 then int k else int k - 4294967296)"
    by (rule word32E)
  show thesis
  proof (cases "k < 2147483648")
    case True
    then show thesis using k by (intro nonneg[of k]) (simp_all add: decimal_def)
  next
    case False
    define n where "n = 4294967296 - k"
    have n: "0 < n" "n < 2147483648" "k = 4294967296 - n" using False k(3,4) assms by (auto simp: n_def)
    then have m: "num = - of_nat n" using k(1) by (simp add: of_nat_diff)
    moreover have "unat (num * - 1) = n" using m n(2) by (simp add: unat_of_nat_small)
    moreover have "sint num = - int n" using k(4) False n by simp
    ultimately show thesis using n by (intro neg[of n]) (simp_all add: decimal_def)
  qed
qed

lemma num2str_ok:
  assumes "num \<noteq> 0" "sint num \<noteq> - (2 ^ 31)" "p + length (decimal num) \<le> length m"
  shows "num2str num p m = Some (put p (decimal num) m)"
  using assms(2)
proof (cases rule: decimal_cases)
  case (neg n)
  define w where "w = num * - 1"
  have w: "unat w = n" "num2str_loop w [] = rev (numeral_of 10 n)" using num2str_loop_ok[of w "[]"] neg(2,3,5) by (simp_all add: w_def)
  have "num2str num p m = store_bytes (p + 1) (numeral_of 10 n) (m[p := 45])"
    unfolding num2str_def w_def[symmetric] using neg(1) assms(3) neg(6) w(2) strreverse_ok[of "rev (numeral_of 10 n)"]
    by (simp add: Let_def upd_opt_def)
  also have "\<dots> = store_bytes p (decimal num) m" using neg(6) assms(3) by (simp add: upd_opt_def)
  finally show ?thesis using store_bytes_eq[OF assms(3)] by simp
next
  case (nonneg n)
  have "0 < unat num" using assms(1) unat_gt_0[of num] by simp
  then have "num2str num p m = store_bytes p (numeral_of 10 n) m"
    using nonneg num2str_loop_ok[of num "[]"] strreverse_ok[of "rev (numeral_of 10 n)"] by (simp add: num2str_def Let_def)
  then show ?thesis using store_bytes_eq[OF assms(3)] nonneg(5) by simp
qed

lemma numeral_digits: "d \<in> set (numeral_of 10 n) \<Longrightarrow> d \<noteq> 0 \<and> d \<noteq> 45"
  using digits_lt[of 10 _ n] dig_digit by (auto simp: numeral_of_def)

lemma str2num_numeral:
  assumes "cstr m p (numeral_of 10 n)" "n < 2 ^ 32"
  shows "str2num_loop m p (length (numeral_of 10 n)) 0 0 = Some (Some (of_nat n))"
proof -
  have c: "nth_opt m (p + i) = Some (s ! i)" if "cstr m p s" "i < length s" for i s
    using that
  proof (induction s arbitrary: p i)
    case (Cons c s)
    then show ?case using Cons.IH[of "p + 1" "i - 1"] by (cases i) auto
  qed simp
  have l: "length (digits 10 n) \<le> 10" using assms(2) by (intro digits_length) auto
  have "str2num_loop m p (length (digits 10 n)) 0 0 = Some (Some (0 + of_nat (10 ^ 0 * val_of (digits 10 n))))"
    by (rule str2num_loop_ok) (use c[OF assms(1)] digits_lt[of 10 _ n] l in \<open>auto simp: numeral_of_def\<close>)
  then show ?thesis by (simp add: digits_val numeral_of_def)
qed

lemma str2num_decimal:
  assumes "cstr m p (decimal num)" "sint num \<noteq> - (2 ^ 31)"
  shows "str2num m p = Some (0, Some num)"
  using assms(2)
proof (cases rule: decimal_cases)
  case (neg n)
  have "cstr m (p + 1) (numeral_of 10 n)" using assms(1) neg(6) by simp
  from str2num_numeral[OF this] show ?thesis
    using assms(1) strlen_cstr[OF assms(1)] neg(3,4,6) by (simp add: str2num_def)
next
  case (nonneg n)
  have c: "cstr m p (numeral_of 10 n)" using assms(1) nonneg(5) by simp
  obtain x xs where x: "numeral_of 10 n = x # xs" using digits_nonempty[of 10 n] by (cases "numeral_of 10 n") (auto simp: numeral_of_def)
  have "x \<noteq> 45" using numeral_digits[of x n] x by simp
  moreover have "nth_opt m p = Some x" using c x by simp
  ultimately show ?thesis
    using str2num_numeral[OF c] strlen_cstr[OF c] x nonneg(2,3) by (simp add: str2num_def)
qed

lemma decimal_shape:
  assumes "sint num \<noteq> - (2 ^ 31)"
  shows "length (decimal num) \<le> 11" "0 \<notin> set (decimal num)"
proof -
  have "length (numeral_of 10 n) \<le> 10" if "n < 2147483648" for n using that digits_length[of 10 n 10] by (simp add: numeral_of_def)
  moreover have "0 \<notin> set (numeral_of 10 n)" for n using numeral_digits by blast
  ultimately show "length (decimal num) \<le> 11" "0 \<notin> set (decimal num)"
    by (cases rule: decimal_cases[OF assms]; fastforce)+
qed

section \<open>Formatted output\<close>

text \<open>
  What \<open>vsprintf\<close> promises to write, as far as it follows the usual meaning of the conversions; \<open>None\<close>
  where it does not: an unknown conversion, a missing argument, the least integers, a hexadecimal number with the
  top bit set.
\<close>

definition long_arg :: "u32 \<Rightarrow> u32 \<Rightarrow> u64" where
  "long_arg lo hi = (ucast lo OR push_bit 32 (ucast hi))"

definition conv :: "(u32 \<Rightarrow> u8 list option) \<Rightarrow> u8 \<Rightarrow> u32 list \<Rightarrow> (u8 list \<times> u32 list) option" where
  "conv S d ap = (case ap of [] \<Rightarrow> None
     | a # as \<Rightarrow>
       if d = 115 then map_option (\<lambda>s. (s, as)) (S a)
       else if d = 99 then Some ([ucast a], as)
       else if d = 100 then (if sint a = - (2 ^ 31) then None else Some (decimal a, as))
       else if d = 120 then (if sint a < 0 then None else Some (numeral_of 16 (unat a), as))
       else if d = 108 then (case as of [] \<Rightarrow> None
         | hi # as' \<Rightarrow> let v = sint (long_arg a hi)
             in if v = - (2 ^ 63) then None
                else Some (if v < 0 then 45 # numeral_of 10 (nat (- v)) else numeral_of 10 (nat v), as'))
       else None)"

fun render :: "(u32 \<Rightarrow> u8 list option) \<Rightarrow> u8 list \<Rightarrow> u32 list \<Rightarrow> u8 list option" where
  "render S [] ap = Some []"
| "render S [c] ap = (if c = 37 then Some [] else Some [c])"
| "render S (c # d # f) ap =
     (if c \<noteq> 37 then do { r \<leftarrow> render S (d # f) ap; Some (c # r) }
      else do { (x, as) \<leftarrow> conv S d ap; r \<leftarrow> render S f as; Some (x @ r) })"

lemma itoa_digit_ok: "unat r < 16 \<Longrightarrow> itoa_digit r = dig (unat r)"
proof -
  assume r: "unat r < 16"
  show ?thesis
  proof (cases "unat r < 10")
    case False
    then have "unat (r - 10) = unat r - 10" by (simp add: unat_sub word_le_nat_alt)
    then have "of_nat (unat r - 10) = (of_nat (unat (r - 10)) :: u8)" by simp
    then show ?thesis using False by (simp add: itoa_digit_def dig_def word_less_nat_alt)
  qed (simp add: itoa_digit_def dig_def word_less_nat_alt)
qed

lemma itoa_ok:
  assumes "2 \<le> unat base" "unat base \<le> 16" "p + length (numeral_of (unat base) (unat v)) \<le> length m"
  shows "itoa v p base m = Some (p + length (numeral_of (unat base) (unat v)), put p (numeral_of (unat base) (unat v)) m)"
  using assms(3)
proof (induction "unat v" arbitrary: v rule: less_induct)
  case less
  have b0: "base \<noteq> 0" using assms(1) by auto
  obtain q r where qr: "div_u64_rem v base = Some (q, r)" "unat q = unat v div unat base" "unat r = unat v mod unat base"
    using div_u64_rem_total[OF b0, of v] by blast
  have "unat r < unat base" using qr(3) assms(1) by simp
  then have dr: "itoa_digit r = dig (unat v mod unat base)" using itoa_digit_ok[of r] assms(2) qr(3) by simp
  show ?case
  proof (cases "unat v < unat base")
    case True
    then have "unat q = 0" using qr(2) by simp
    then have "q = 0" using unat_gt_0[of q] by simp
    moreover have "numeral_of (unat base) (unat v) = [dig (unat v)]" using True by (simp add: numeral_of_def digits.simps)
    ultimately show ?thesis using less.prems qr(1) dr True by (subst itoa.simps) (simp add: upd_opt_def put_one)
  next
    case False
    have nq: "q \<noteq> 0"
    proof
      assume "q = 0"
      then show False using qr(2) False assms(1) by (simp add: div_eq_0_iff)
    qed
    define N where "N = numeral_of (unat base) (unat q)"
    have e: "numeral_of (unat base) (unat v) = N @ [dig (unat v mod unat base)]"
      using False assms(1) by (simp add: numeral_of_def digits.simps[of _ "unat v"] N_def qr(2))
    have lt: "unat q < unat v" using qr(2) False assms(1) by (simp add: div_less_dividend)
    have "itoa q p base m = Some (p + length N, put p N m)" unfolding N_def
      by (rule less.hyps[OF lt]) (use less.prems e in \<open>simp add: N_def\<close>)
    then have "itoa v p base m = Some (p + length N + 1, (put p N m)[p + length N := dig (unat v mod unat base)])"
      using qr(1) nq dr less.prems e by (subst itoa.simps) (simp add: upd_opt_def)
    moreover have "(put p N m)[p + length N := dig (unat v mod unat base)] = put p (N @ [dig (unat v mod unat base)]) m"
      using put_append[of p N "[dig (unat v mod unat base)]" m] put_one[of "p + length N" "put p N m"] less.prems e by simp
    ultimately show ?thesis using e by simp
  qed
qed

lemma memcpy_cstr:
  assumes "cstr m src s" "dst + length s \<le> length m" "src + length s < dst \<or> dst + length s \<le> src"
  shows "memcpy dst src (length s) m = Some (put dst s m)"
  using assms
proof (induction s arbitrary: src dst m)
  case (Cons c s)
  have "cstr (m[dst := c]) (src + 1) s"
  proof (rule cstr_cong[of m])
    fix a assume "src + 1 \<le> a" "a \<le> src + 1 + length s"
    then have "a \<noteq> dst" using Cons.prems(3) by auto
    then show "m[dst := c] ! a = m ! a" by simp
  qed (use Cons.prems in auto)
  then have "memcpy (dst + 1) (src + 1) (length s) (m[dst := c]) = Some (put (dst + 1) s (m[dst := c]))"
    using Cons.prems by (intro Cons.IH) auto
  moreover have "put (dst + 1) s (m[dst := c]) = put dst (c # s) m"
    using put_append[of dst "[c]" s m] put_one[of dst m c] Cons.prems(2) by simp
  ultimately show ?case using Cons.prems by (auto simp: upd_opt_def)
qed simp

definition vs_ok :: "(u32 \<Rightarrow> u8 list option) \<Rightarrow> cmem \<Rightarrow> nat \<Rightarrow> nat \<Rightarrow> nat \<Rightarrow> u8 list \<Rightarrow> bool" where
  "vs_ok S m b n i f \<longleftrightarrow> cstr m i f \<and> b + n \<le> length m \<and> (i + length f < b \<or> b + n \<le> i) \<and>
     (\<forall>a s. S a = Some s \<longrightarrow> cstr m (unat a) s \<and> (unat a + length s < b \<or> b + n \<le> unat a))"

lemma cstr_put:
  assumes "cstr m p s" "b + length x \<le> length m" "p + length s < b \<or> b + length x \<le> p"
  shows "cstr (put b x m) p s"
  by (rule cstr_cong[OF assms(1)]) (use assms nth_put[of b x m] in auto)

lemma vs_ok_step:
  assumes "vs_ok S m b n i (u @ f)" "n = length x + k"
  shows "vs_ok S (put b x m) (b + length x) k (i + length u) f"
proof -
  have l: "b + length x \<le> length m" using assms by (simp add: vs_ok_def)
  have "cstr m (i + length u) f" using assms(1) by (simp add: vs_ok_def cstr_append)
  moreover have "i + length u + length f < b \<or> b + n \<le> i + length u" using assms(1) by (auto simp: vs_ok_def)
  ultimately have "cstr (put b x m) (i + length u) f" using l assms(2) by (intro cstr_put) auto
  moreover have "cstr (put b x m) (unat a) s" "unat a + length s < b + length x \<or> b + length x + k \<le> unat a" if "S a = Some s" for a s
  proof -
    have "cstr m (unat a) s" "unat a + length s < b \<or> b + n \<le> unat a" using assms(1) that by (auto simp: vs_ok_def)
    then show "cstr (put b x m) (unat a) s" "unat a + length s < b + length x \<or> b + length x + k \<le> unat a" using l assms(2) by (auto intro: cstr_put)
  qed
  moreover have "b + length x + k \<le> length (put b x m)" "i + length u + length f < b + length x \<or> b + length x + k \<le> i + length u"
    using assms l by (auto simp: vs_ok_def)
  ultimately show ?thesis unfolding vs_ok_def by blast
qed

abbreviation first :: "u8 list \<Rightarrow> u8" where
  "first f \<equiv> (case f of [] \<Rightarrow> 0 | c # _ \<Rightarrow> c)"

lemma vs_ok_next:
  assumes "vs_ok S m b n i f"
  shows "nth_opt m i = Some (first f)"
  using assms cstr_first by (simp add: vs_ok_def)

lemma scast_of_nat: "n < 2147483648 \<Longrightarrow> scast (of_nat n :: u32) = (of_nat n :: u64)"
  by (simp add: scast_eq sint_of_nat32)

text \<open>A conversion of a number: a sign where there is one, and the digits.\<close>

lemma itoa_num:
  assumes "b + length (numeral_of (unat base) n) \<le> length m" "2 \<le> unat base" "unat base \<le> 16" "n < 2 ^ 64"
  shows "itoa (of_nat n) b base m = Some (b + length (numeral_of (unat base) n), put b (numeral_of (unat base) n) m)"
  using itoa_ok[OF assms(2,3), of b "of_nat n" m] assms(1,4) by (simp add: unat_of_nat_small)

lemma itoa_neg:
  assumes "b + length (45 # numeral_of 10 n) \<le> length m" "n < 2 ^ 64"
  shows "upd_opt m b 45 = Some (put b [45] m)"
    "itoa (of_nat n) (b + 1) 10 (put b [45] m) = Some (b + length (45 # numeral_of 10 n), put b (45 # numeral_of 10 n) m)"
proof -
  show "upd_opt m b 45 = Some (put b [45] m)" using assms by (simp add: upd_opt_def put_one)
  show "itoa (of_nat n) (b + 1) 10 (put b [45] m) = Some (b + length (45 # numeral_of 10 n), put b (45 # numeral_of 10 n) m)"
    using itoa_num[of "b + 1" 10 n "put b [45] m"] put_append[of b "[45]" "numeral_of 10 n" m] assms by simp
qed

lemma long_cases:
  assumes "sint v \<noteq> - (2 ^ 63)"
  obtains (neg) n where "sint (v :: u64) < 0" "n < 2 ^ 64" "0 - v = of_nat n" "nat (- sint v) = n"
  | (nonneg) n where "\<not> sint v < 0" "n < 2 ^ 64" "v = of_nat n" "nat (sint v) = n"
proof -
  define k where "k = unat v"
  have k: "v = of_nat k" "k < 2 ^ 64" using unsigned_less[of v] by (simp_all add: k_def)
  have s: "sint v = (if k < 2 ^ 63 then int k else int k - 2 ^ 64)" using sint_of_nat_len[of k, where ?'a = 64] k by simp
  show thesis
  proof (cases "k < 2 ^ 63")
    case True
    then show thesis using k s by (intro nonneg[of k]) simp_all
  next
    case False
    have "0 - v = of_nat (2 ^ 64 - k)" using k by (simp add: of_nat_diff)
    moreover have "nat (- sint v) = 2 ^ 64 - k" using s False k(2) by simp
    moreover have "0 < k" using False by (cases k) auto
    ultimately show thesis using s False k(2) by (intro neg[of "2 ^ 64 - k"]) simp_all
  qed
qed

text \<open>
  One conversion: it reads what the specification says and writes \<open>x\<close>; the loop goes on behind it.
\<close>

lemma vsprintf_conv:
  assumes "conv S d ap = Some (x, as)" "vs_ok S m b (length x + k) i (37 # d # f)"
  shows "vsprintf_loop b i 37 ap m = vsprintf_loop (b + length x) (i + 2) (first f) as (put b x m)"
proof -
  have i1: "nth_opt m (i + 1) = Some d" using assms(2) by (simp add: vs_ok_def)
  have nx: "nth_opt (put b x m) (i + 2) = Some (first f)"
    using vs_ok_next[OF vs_ok_step[of S m b "length x + k" i "[37, d]" f x k]] assms(2) by simp
  have l: "b + length x \<le> length m" using assms(2) by (simp add: vs_ok_def)
  obtain a ar where ap: "ap = a # ar" using assms(1) by (cases ap) (simp_all add: conv_def)
  consider "d = 115" | "d = 99" | "d = 100" | "d = 120" | "d = 108" using assms(1) by (auto simp: conv_def split: list.splits if_splits)
  then show ?thesis
  proof cases
    case 1
    then have s: "S a = Some x" "as = ar" using assms(1) ap by (auto simp: conv_def)
    then have c: "cstr m (unat a) x" "unat a + length x < b \<or> b + (length x + k) \<le> unat a" using assms(2) unfolding vs_ok_def by blast+
    then have c2: "unat a + length x < b \<or> b + length x \<le> unat a" by linarith
    have "strlen (put b x m) (unat a) = Some (length x)" by (rule strlen_cstr[OF cstr_put[OF c(1) l c2]])
    then show ?thesis
      using 1 ap s(2) i1 nx strlen_cstr[OF c(1)] memcpy_cstr[OF c(1) l c2] by (subst vsprintf_loop.simps) simp
  next
    case 2
    then have "x = [ucast a]" "as = ar" using assms(1) ap by (auto simp: conv_def)
    then show ?thesis using 2 ap i1 nx l by (subst vsprintf_loop.simps) (simp add: upd_opt_def put_one)
  next
    case 3
    then have s: "sint a \<noteq> - (2 ^ 31)" "x = decimal a" "as = ar" using assms(1) ap by (auto simp: conv_def split: if_splits)
    from s(1) show ?thesis
    proof (cases rule: decimal_cases)
      case (neg n)
      have x: "x = 45 # numeral_of 10 n" using s(2) neg(6) by simp
      have "scast (0 - a) = (of_nat n :: u64)" using neg(3,4) scast_of_nat[of n] by simp
      then show ?thesis using 3 ap i1 nx s(3) neg(1,3) itoa_neg[of b n m] l unfolding x by (subst vsprintf_loop.simps) simp
    next
      case (nonneg n)
      have x: "x = numeral_of 10 n" using s(2) nonneg(5) by simp
      have "scast a = (of_nat n :: u64)" using nonneg(2,3) scast_of_nat[of n] by simp
      then show ?thesis using 3 ap i1 nx s(3) nonneg(1,2) itoa_num[of b 10 n m] l unfolding x by (subst vsprintf_loop.simps) simp
    qed
  next
    case 4
    then have s: "\<not> sint a < 0" "x = numeral_of 16 (unat a)" "as = ar" using assms(1) ap by (auto simp: conv_def split: if_splits)
    obtain n where n: "n < 2147483648" "a = of_nat n" "unat a = n" using s(1) by (rule_tac word32E[of a]) (auto split: if_splits)
    have "scast a = (of_nat n :: u64)" using n scast_of_nat[of n] by simp
    then show ?thesis using 4 ap i1 nx s n itoa_num[of b 16 n m] l by (subst vsprintf_loop.simps) simp
  next
    case 5
    then obtain hi where h: "ar = hi # as" "sint (long_arg a hi) \<noteq> - (2 ^ 63)"
      "x = (if sint (long_arg a hi) < 0 then 45 # numeral_of 10 (nat (- sint (long_arg a hi))) else numeral_of 10 (nat (sint (long_arg a hi))))"
      using assms(1) ap by (auto simp: conv_def Let_def split: if_splits list.splits)
    from h(2) show ?thesis
    proof (cases rule: long_cases)
      case (neg n)
      have x: "x = 45 # numeral_of 10 n" using h(3) neg by simp
      then show ?thesis using 5 ap i1 nx h(1) neg(1-3) itoa_neg[of b n m] l unfolding x
        by (subst vsprintf_loop.simps) (simp add: long_arg_def[symmetric])
    next
      case (nonneg n)
      have x: "x = numeral_of 10 n" using h(3) nonneg by simp
      then show ?thesis using 5 ap i1 nx h(1) nonneg(1-3) itoa_num[of b 10 n m] l unfolding x
        by (subst vsprintf_loop.simps) (simp add: long_arg_def[symmetric])
    qed
  qed
qed

lemma vsprintf_loop_ok:
  assumes "render S f ap = Some out" "vs_ok S m b (length out) i f"
  shows "vsprintf_loop b i (first f) ap m = Some (b + length out, put b out m)"
  using assms
proof (induction S f ap arbitrary: out m b i rule: render.induct)
  case (1 S ap)
  then show ?case by (simp add: vsprintf_loop.simps)
next
  case (2 S c ap)
  have z: "nth_opt m (i + 1) = Some 0" "c \<noteq> 0" using 2 by (auto simp: vs_ok_def)
  show ?case
  proof (cases "c = 37")
    case True
    then show ?thesis using 2 z by (simp add: vsprintf_loop.simps[of b i] vsprintf_loop.simps[of b "Suc i"])
  next
    case False
    then have "out = [c]" using 2 by simp
    moreover have "nth_opt (put b [c] m) (i + 1) = Some 0"
      using vs_ok_next[OF vs_ok_step[of S m b 1 i "[c]" "[]" "[c]" 0]] 2 calculation by simp
    ultimately show ?thesis using 2 False z
      by (simp add: vsprintf_loop.simps[of b i] vsprintf_loop.simps[of "Suc b" "Suc i"] vs_ok_def upd_opt_def put_one)
  qed
next
  case (3 S c d f ap)
  show ?case
  proof (cases "c = 37")
    case True
    then obtain x as r where x: "conv S d ap = Some (x, as)" "render S f as = Some r" "out = x @ r"
      using "3.prems"(1) by (auto simp: bind_eq_Some_conv)
    have vs: "vs_ok S m b (length x + length r) i (37 # d # f)" using "3.prems"(2) x(3) True by simp
    have nx: "vs_ok S (put b x m) (b + length x) (length r) (i + 2) f"
      using vs_ok_step[of S m b "length x + length r" i "[37, d]" f x "length r"] vs by simp
    have ih: "vsprintf_loop (b + length x) (i + 2) (first f) as (put b x m) = Some (b + length x + length r, put (b + length x) r (put b x m))"
      using "3.IH"(2)[OF _ _ _ x(2) nx] True x(1) by simp
    have "b + length x + length r \<le> length m" using vs by (simp add: vs_ok_def)
    then show ?thesis using vsprintf_conv[OF x(1) vs] ih put_append[of b x r m] x(3) True by simp
  next
    case False
    then obtain r where r: "render S (d # f) ap = Some r" "out = c # r" using "3.prems"(1) by (auto simp: bind_eq_Some_conv)
    have nx: "vs_ok S (put b [c] m) (b + 1) (length r) (i + 1) (d # f)"
      using vs_ok_step[of S m b "length out" i "[c]" "d # f" "[c]" "length r"] "3.prems"(2) r(2) by simp
    have l: "b + 1 + length r \<le> length m" "c \<noteq> 0" using "3.prems"(2) r(2) by (auto simp: vs_ok_def)
    have "vsprintf_loop (b + 1) (i + 1) d ap (put b [c] m) = Some (b + 1 + length r, put (b + 1) r (put b [c] m))"
      using "3.IH"(1)[OF False r(1) nx] by simp
    moreover have "put (b + 1) r (put b [c] m) = put b out m" using put_append[of b "[c]" r m] l r(2) by simp
    moreover have "nth_opt (put b [c] m) (i + 1) = Some d" using vs_ok_next[OF nx] by simp
    ultimately show ?thesis using False l r(2) by (subst vsprintf_loop.simps) (simp add: upd_opt_def put_one)
  qed
qed

end
