(* ===== verification/Cstring_Props.thy ===== *)
theory Cstring_Props
  imports Cstring_Proofs
begin

text \<open>
  The properties of the string library: splitting a string into tokens, numbers as text and back, formatted output;
  and what some of the functions do that their names do not say.
\<close>

section \<open>Properties\<close>

text \<open>
  C21: A loop over \<open>strtok_r\<close>, as the shell and the file systems use it for commands and paths, ends, and finds
  exactly the tokens of the string: the maximal runs of bytes that are not delimiters, in order, each as a string of its own
  in the memory left behind.  Nothing outside the string changes.
\<close>

theorem strtok_splits:
  assumes "cstr m p s" "0 < p" "cstr m d D" "0 < d" "d + length D < p \<or> p + length s < d"
  shows "\<exists>ts m'. strtok_list (length s + 1) p save d m = Some (ts, m') \<and> list_all2 (cstr m') ts (tokens (set D) s) \<and>
     length m' = length m \<and> (\<forall>a. a < p \<or> p + length s < a \<longrightarrow> m' ! a = m ! a)"
proof -
  have "p = (if p = 0 then save else p)" using assms(2) by simp
  from strtok_list_ok[OF assms(3,4,1,2) this, of "length s + 1"] assms(5) show ?thesis by auto
qed

definition path_mem :: cmem where
  "path_mem = [0, 47, 97, 98, 47, 47, 99, 0, 47, 0]"

theorem strtok_splits_witness:
  "tokens (set [47]) [47, 97, 98, 47, 47, 99] = [[97, 98], [99]] \<and>
   (\<exists>ts m'. strtok_list 7 1 0 8 path_mem = Some (ts, m') \<and> list_all2 (cstr m') ts [[97, 98], [99]])"
proof -
  have t: "tokens (set [47]) [47, 97, 98, 47, 47, 99] = [[97, 98], [99]]" by code_simp
  have c: "cstr path_mem 1 [47, 97, 98, 47, 47, 99]" "cstr path_mem 8 [47]" by code_simp+
  have n: "length [47, 97, 98, 47, 47, 99 :: u8] + 1 = 7" by simp
  have "\<exists>ts m'. strtok_list 7 1 0 8 path_mem = Some (ts, m') \<and> list_all2 (cstr m') ts [[97, 98], [99]] \<and>
     length m' = length path_mem \<and> (\<forall>a. a < 1 \<or> 1 + length [47, 97, 98, 47, 47, 99 :: u8] < a \<longrightarrow> m' ! a = path_mem ! a)"
    by (rule strtok_splits[OF c(1) _ c(2), of 0, unfolded n t]) simp_all
  then show ?thesis using t by blast
qed

text \<open>
  \<open>str2num\<close> reads back what \<open>num2str\<close> wrote into a cleared buffer, for every number but zero and
  the least integer.
\<close>

theorem num2str_str2num:
  assumes "num \<noteq> 0" "sint num \<noteq> - (2 ^ 31)" "\<And>i. i < 12 \<Longrightarrow> nth_opt m (p + i) = Some 0"
  shows "\<exists>m'. num2str num p m = Some m' \<and> str2num m' p = Some (0, Some num)"
proof -
  note s = decimal_shape[OF assms(2)]
  have l: "p + length (decimal num) < length m" "m ! (p + length (decimal num)) = 0"
    using assms(3)[of "length (decimal num)"] s(1) by (auto simp: nth_opt_def split: if_splits)
  then have "num2str num p m = Some (put p (decimal num) m)" by (intro num2str_ok[OF assms(1,2)]) simp
  moreover have "str2num (put p (decimal num) m) p = Some (0, Some num)"
    by (rule str2num_decimal[OF cstr_stored[OF l s(2)] assms(2)])
  ultimately show ?thesis by simp
qed

theorem num2str_str2num_witness:
  "\<exists>m'. num2str (- 2026) 1 (replicate 16 0) = Some m' \<and> str2num m' 1 = Some (0, Some (- 2026))"
  by (rule num2str_str2num) (simp_all add: nth_opt_def)


text \<open>The format \<open>a%d=%s%x\<close> with the arguments \<open>-7\<close>, a string and \<open>255\<close>.\<close>

definition fmt_mem :: cmem where
  "fmt_mem = [0, 97, 37, 100, 61, 37, 115, 37, 120, 0, 98, 99, 0] @ replicate 20 0"

definition fmt_strs :: "u32 \<Rightarrow> u8 list option" where
  "fmt_strs a = (if a = 10 then Some [98, 99] else None)"


section \<open>Behaviour that the names do not tell\<close>

lemma num2str_zero: "num2str 0 p m = Some m"
proof -
  have "num2str_loop 0 [] = []" by (subst num2str_loop.simps) simp
  then show ?thesis by (simp add: num2str_def strreverse_def)
qed

lemma strchrs_diverges:
  assumes "nth_opt m p = Some c" "c \<noteq> 0"
  shows "strchrs m p ch = None"
proof -
  have "nth_opt m p = Some 0" if "strchrs_loop m p ch n = Some r" for n r
    using that
  proof (rule strchrs_loop.raw_induct[rotated])
    fix f :: "cmem \<Rightarrow> nat \<Rightarrow> u8 \<Rightarrow> u32 \<Rightarrow> u32 option" and m p ch n r
    assume IH: "\<And>m p ch n r. f m p ch n = Some r \<Longrightarrow> nth_opt m p = Some 0"
      and st: "Option.bind (nth_opt m p) (\<lambda>c. if c = 0 then Some n else f m p ch (if c = ch then n + 1 else n)) = Some r"
    then show "nth_opt m p = Some 0" by (auto simp: bind_eq_Some_conv split: if_splits)
  qed
  then show ?thesis using assms by (cases "strchrs m p ch") (auto simp: strchrs_def)
qed

lemma memcmp_prefix: "cstr m a s \<Longrightarrow> cstr m b (s @ t) \<Longrightarrow> memcmp a b (length s) m = Some 0"
  by (induction s arbitrary: a b) auto

lemma strcmp_prefix:
  assumes "cstr m a s" "cstr m b (s @ t)"
  shows "strcmp a b m = Some 0"
  using strlen_cstr[OF assms(1)] strlen_cstr[OF assms(2)] memcmp_prefix[OF assms] by (auto simp: strcmp_def)

end
