(* ===== verification/Vfs.thy ===== *)
theory Vfs
  imports Thread Cstring
begin

text \<open>
  Devices (\<open>kernel/device/device.c\<close>), open files (\<open>kernel/fs/file.c\<close>), the file system switch
  (\<open>kernel/fs/fs.c\<close>) and the device file system (\<open>kernel/fs/devfs.c\<close>).

  A driver and a file system are tables of functions, as in the code: records of functions over a state of their own.
  A function that a table leaves NULL is one that always faults.  Paths and names are byte lists without the
  terminating zero.  The lists of free and mounted file systems hold the indices of the entries of
  \<open>fs_table\<close>; pointers to files are indices into \<open>file_table\<close>.
\<close>

section \<open>Devices\<close>

record 'h device_desc_t =
  dd_major :: int
  dd_open :: "int \<Rightarrow> 'h \<Rightarrow> (int \<times> 'h) option"
  dd_write :: "int \<Rightarrow> u32 \<Rightarrow> u8 list \<Rightarrow> nat \<Rightarrow> 'h \<Rightarrow> (int \<times> 'h) option"
  dd_read :: "int \<Rightarrow> u32 \<Rightarrow> nat \<Rightarrow> 'h \<Rightarrow> (int \<times> u8 list \<times> 'h) option"
  dd_control :: "int \<Rightarrow> int \<Rightarrow> int \<Rightarrow> int \<Rightarrow> 'h \<Rightarrow> (int \<times> 'h) option"
  dd_close :: "int \<Rightarrow> 'h \<Rightarrow> 'h option"

text \<open>An open device: the index of its driver in \<open>device_desc_table\<close>, \<open>minor\<close> and the number of users.\<close>

record device_t =
  dv_desc :: "nat option"
  dv_minor :: int
  open_count :: int

record 'h devs =
  devices :: "device_t list"
  hw :: 'h

definition DEVICES_SIZE :: nat where "DEVICES_SIZE = 128"
definition DEV_TTY :: int where "DEV_TTY = 1"
definition DEV_DISK :: int where "DEV_DISK = 2"

definition upd_dev :: "nat \<Rightarrow> (device_t \<Rightarrow> device_t) \<Rightarrow> 'h devs \<Rightarrow> 'h devs" where
  "upd_dev i f s = s\<lparr>devices := (devices s)[i := f (devices s ! i)]\<rparr>"

text \<open>
  The scan of \<open>device_open\<close>: the device that is open already, or the last free slot.  A slot in use without a
  driver is a NULL dereference.
\<close>

fun device_scan :: "'h device_desc_t list \<Rightarrow> int \<Rightarrow> int \<Rightarrow> nat \<Rightarrow> device_t list \<Rightarrow> nat option \<Rightarrow> (nat option \<times> nat option) option" where
  "device_scan tbl major minor i [] free_dev = Some (None, free_dev)"
| "device_scan tbl major minor i (d # ds) free_dev =
     (if open_count d = 0 then device_scan tbl major minor (i + 1) ds (Some i)
      else do {
        k \<leftarrow> dv_desc d;
        desc \<leftarrow> nth_opt tbl k;
        if dd_major desc = major \<and> dv_minor d = minor then Some (Some i, free_dev)
        else device_scan tbl major minor (i + 1) ds free_dev
      })"

fun find_device_desc :: "'h device_desc_t list \<Rightarrow> int \<Rightarrow> nat \<Rightarrow> nat option" where
  "find_device_desc [] major i = None"
| "find_device_desc (d # ds) major i = (if dd_major d = major then Some i else find_device_desc ds major (i + 1))"

definition device_open :: "'h device_desc_t list \<Rightarrow> int \<Rightarrow> int \<Rightarrow> 'h devs \<Rightarrow> (int \<times> 'h devs) option" where
  "device_open tbl major minor s = do {
     (found, free_dev) \<leftarrow> device_scan tbl major minor 0 (devices s) None;
     case found of
       Some i \<Rightarrow> Some (int i, upd_dev i (\<lambda>d. d\<lparr>open_count := open_count d + 1\<rparr>) s)
     | None \<Rightarrow>
         (case (find_device_desc tbl major 0, free_dev) of
            (Some k, Some i) \<Rightarrow> do {
              let s1 = upd_dev i (\<lambda>d. d\<lparr>dv_desc := Some k, dv_minor := minor\<rparr>) s;
              (err, h) \<leftarrow> dd_open (tbl ! k) minor (hw s1);
              let s2 = s1\<lparr>hw := h\<rparr>;
              if err = 0 then Some (int i, upd_dev i (\<lambda>d. d\<lparr>open_count := 1\<rparr>) s2) else Some (-1, s2)
            }
          | _ \<Rightarrow> Some (-1, s))
   }"

definition validate_device :: "int \<Rightarrow> 'h devs \<Rightarrow> bool" where
  "validate_device dev_id s \<longleftrightarrow> \<not> (dev_id < 0 \<or> dev_id \<ge> int DEVICES_SIZE) \<and> dv_desc (devices s ! nat dev_id) \<noteq> None"

definition dev_driver :: "'h device_desc_t list \<Rightarrow> int \<Rightarrow> 'h devs \<Rightarrow> ('h device_desc_t \<times> int) option" where
  "dev_driver tbl dev_id s = do {
     k \<leftarrow> dv_desc (devices s ! nat dev_id);
     d \<leftarrow> nth_opt tbl k;
     Some (d, dv_minor (devices s ! nat dev_id))
   }"

definition device_write :: "'h device_desc_t list \<Rightarrow> int \<Rightarrow> u32 \<Rightarrow> u8 list \<Rightarrow> nat \<Rightarrow> 'h devs \<Rightarrow> (int \<times> 'h devs) option" where
  "device_write tbl dev_id addr buf sz s =
     (if \<not> validate_device dev_id s then Some (-1, s)
      else do { (d, minor) \<leftarrow> dev_driver tbl dev_id s; (r, h) \<leftarrow> dd_write d minor addr buf sz (hw s); Some (r, s\<lparr>hw := h\<rparr>) })"

definition device_read :: "'h device_desc_t list \<Rightarrow> int \<Rightarrow> u32 \<Rightarrow> nat \<Rightarrow> 'h devs \<Rightarrow> (int \<times> u8 list \<times> 'h devs) option" where
  "device_read tbl dev_id addr sz s =
     (if \<not> validate_device dev_id s then Some (-1, [], s)
      else do { (d, minor) \<leftarrow> dev_driver tbl dev_id s; (r, bs, h) \<leftarrow> dd_read d minor addr sz (hw s); Some (r, bs, s\<lparr>hw := h\<rparr>) })"

definition device_control :: "'h device_desc_t list \<Rightarrow> int \<Rightarrow> int \<Rightarrow> int \<Rightarrow> int \<Rightarrow> 'h devs \<Rightarrow> (int \<times> 'h devs) option" where
  "device_control tbl dev_id cmd arg0 arg1 s =
     (if \<not> validate_device dev_id s then Some (-1, s)
      else do { (d, minor) \<leftarrow> dev_driver tbl dev_id s; (r, h) \<leftarrow> dd_control d minor cmd arg0 arg1 (hw s); Some (r, s\<lparr>hw := h\<rparr>) })"

definition device_close :: "'h device_desc_t list \<Rightarrow> int \<Rightarrow> 'h devs \<Rightarrow> 'h devs option" where
  "device_close tbl dev_id s =
     (if \<not> validate_device dev_id s then Some s
      else do {
        let s1 = upd_dev (nat dev_id) (\<lambda>d. d\<lparr>open_count := open_count d - 1\<rparr>) s;
        if open_count (devices s1 ! nat dev_id) = 0 then do {
          (d, minor) \<leftarrow> dev_driver tbl dev_id s1;
          h \<leftarrow> dd_close d minor (hw s1);
          Some (upd_dev (nat dev_id) (\<lambda>_. \<lparr>dv_desc = None, dv_minor = 0, open_count = 0\<rparr>) (s1\<lparr>hw := h\<rparr>))
        }
        else Some s1
      })"

section \<open>Open files\<close>

datatype file_type = FILE_UNKNOWN | FILE_TTY | FILE_FILE | FILE_DIR

record file_t =
  f_desc :: "nat option"
  f_dev_id :: int
  f_name :: "u8 list"
  f_type :: file_type
  f_mode :: u32
  f_ref :: int
  file_idx :: u32
  f_size :: u32
  f_pos :: u32
  block_start :: u32
  block_cur :: u32
  node_sector_idx :: u32
  f_data :: nat

definition FILE_TABLE_SIZE :: nat where "FILE_TABLE_SIZE = 2048"

definition no_file :: file_t where
  "no_file = \<lparr>f_desc = None, f_dev_id = 0, f_name = [], f_type = FILE_UNKNOWN, f_mode = 0, f_ref = 0, file_idx = 0, f_size = 0, f_pos = 0,
     block_start = 0, block_cur = 0, node_sector_idx = 0, f_data = 0\<rparr>"

definition init_file_table :: "file_t list" where
  "init_file_table = replicate FILE_TABLE_SIZE no_file"

fun alloc_file_loop :: "nat \<Rightarrow> file_t list \<Rightarrow> nat option" where
  "alloc_file_loop i [] = None"
| "alloc_file_loop i (f # fs) = (if f_ref f = 0 then Some i else alloc_file_loop (i + 1) fs)"

definition upd_file :: "nat \<Rightarrow> (file_t \<Rightarrow> file_t) \<Rightarrow> file_t list \<Rightarrow> file_t list" where
  "upd_file i f fs = fs[i := f (fs ! i)]"

definition alloc_file :: "file_t list \<Rightarrow> nat option \<times> file_t list" where
  "alloc_file fs = (case alloc_file_loop 0 fs of None \<Rightarrow> (None, fs) | Some i \<Rightarrow> (Some i, upd_file i (\<lambda>f. f\<lparr>f_ref := 1\<rparr>) fs))"

definition ref_file :: "nat \<Rightarrow> file_t list \<Rightarrow> file_t list" where
  "ref_file i fs = upd_file i (\<lambda>f. f\<lparr>f_ref := f_ref f + 1\<rparr>) fs"

definition free_file :: "nat \<Rightarrow> file_t list \<Rightarrow> file_t list" where
  "free_file i fs = upd_file i (\<lambda>f. f\<lparr>f_ref := f_ref f - 1\<rparr>) fs"

definition path_next_child :: "u8 list \<Rightarrow> u8 list" where
  "path_next_child path =
     (let p = (case path of c # cs \<Rightarrow> if c = 47 then cs else path | [] \<Rightarrow> [])
      in drop 1 (dropWhile (\<lambda>c. c \<noteq> 47) p))"

section \<open>The file system switch\<close>

datatype fs_type_t = FS_DEV | FS_FAT16 | FS_EXT2

record fs_desc_t =
  mount_point :: "u8 list"
  fs_type :: fs_type_t
  fs_ops :: fs_type_t
  fs_dev_id :: int
  fs_data :: nat

text \<open>
  \<open>stat\<close> and \<open>readdir\<close> fill a structure of the caller, passed in and out as \<open>'d\<close>.
\<close>

record stat_t =
  st_dev_id :: int
  st_size :: u32
  st_block_size :: u32
  st_block_count :: u32
  st_create_time :: u64
  st_update_time :: u64

record dirent_t =
  de_offset :: int
  de_name :: "u8 list"
  de_type :: file_type
  de_size :: u32
  de_child_count :: u32

record 'w fs_ops_t =
  op_mount :: "fs_desc_t \<Rightarrow> int \<Rightarrow> int \<Rightarrow> 'w \<Rightarrow> (int \<times> fs_desc_t \<times> 'w) option"
  op_open :: "fs_desc_t \<Rightarrow> u8 list \<Rightarrow> file_t \<Rightarrow> 'w \<Rightarrow> (int \<times> file_t \<times> 'w) option"
  op_ioctl :: "fs_desc_t \<Rightarrow> file_t \<Rightarrow> int \<Rightarrow> int \<Rightarrow> int \<Rightarrow> 'w \<Rightarrow> (int \<times> 'w) option"
  op_read :: "fs_desc_t \<Rightarrow> file_t \<Rightarrow> nat \<Rightarrow> 'w \<Rightarrow> (int \<times> u8 list \<times> file_t \<times> 'w) option"
  op_write :: "fs_desc_t \<Rightarrow> file_t \<Rightarrow> u8 list \<Rightarrow> 'w \<Rightarrow> (int \<times> file_t \<times> 'w) option"
  op_close :: "fs_desc_t \<Rightarrow> file_t \<Rightarrow> 'w \<Rightarrow> (file_t \<times> 'w) option"
  op_seek :: "fs_desc_t \<Rightarrow> file_t \<Rightarrow> int \<Rightarrow> int \<Rightarrow> 'w \<Rightarrow> (int \<times> file_t \<times> 'w) option"
  op_stat :: "fs_desc_t \<Rightarrow> file_t \<Rightarrow> stat_t \<Rightarrow> 'w \<Rightarrow> (int \<times> stat_t \<times> file_t \<times> 'w) option"
  op_remove :: "fs_desc_t \<Rightarrow> file_t \<Rightarrow> 'w \<Rightarrow> (int \<times> file_t \<times> 'w) option"
  op_readdir :: "fs_desc_t \<Rightarrow> file_t \<Rightarrow> dirent_t \<Rightarrow> 'w \<Rightarrow> (int \<times> dirent_t \<times> file_t \<times> 'w) option"
  op_mkdir :: "fs_desc_t \<Rightarrow> u8 list \<Rightarrow> file_t \<Rightarrow> 'w \<Rightarrow> (int \<times> file_t \<times> 'w) option"
  op_link :: "fs_desc_t \<Rightarrow> file_t \<Rightarrow> u8 list \<Rightarrow> int \<Rightarrow> 'w \<Rightarrow> (int \<times> file_t \<times> 'w) option"
  op_unlink :: "fs_desc_t \<Rightarrow> file_t \<Rightarrow> 'w \<Rightarrow> (int \<times> file_t \<times> 'w) option"

record 'w vfs =
  vk :: kernel
  files :: "file_t list"
  fs_table :: "fs_desc_t list"
  free_fs :: "nat list"
  mounted_fs :: "nat list"
  world :: 'w

definition FS_TABLE_SIZE :: nat where "FS_TABLE_SIZE = 10"
definition FILENO_UNKNOWN :: int where "FILENO_UNKNOWN = -1"
definition EBADF :: int where "EBADF = -2"
definition O_RDONLY :: u32 where "O_RDONLY = 2"
definition O_APPEND :: u32 where "O_APPEND = 16"

definition init_fs_table :: "fs_desc_t list \<Rightarrow> 'w vfs \<Rightarrow> 'w vfs" where
  "init_fs_table tbl v = v\<lparr>fs_table := tbl, free_fs := [0..<FS_TABLE_SIZE], mounted_fs := []\<rparr>"

text \<open>The first mounted file system whose mount point is a prefix of the path.\<close>

definition mounted_fs_visitor_by_path :: "u8 list \<Rightarrow> fs_desc_t \<Rightarrow> bool" where
  "mounted_fs_visitor_by_path path fs \<longleftrightarrow> take (length (mount_point fs)) path = mount_point fs"

definition find_fs :: "u8 list \<Rightarrow> 'w vfs \<Rightarrow> nat option" where
  "find_fs path v = List.find (\<lambda>i. mounted_fs_visitor_by_path path (fs_table v ! i)) (mounted_fs v)"

text \<open>
  \<open>mount\<close>.  When the path is mounted already or no entry is free, the code tests the variable \<open>fs\<close>,
  which it has not set: \<open>None\<close>.
\<close>

definition mount :: "(fs_type_t \<Rightarrow> 'w fs_ops_t) \<Rightarrow> fs_type_t \<Rightarrow> u8 list \<Rightarrow> int \<Rightarrow> int \<Rightarrow> 'w vfs \<Rightarrow> (nat option \<times> 'w vfs) option" where
  "mount ops type mp dev_major dev_minor v =
     (case find_fs mp v of Some _ \<Rightarrow> None
      | None \<Rightarrow>
          (case free_fs v of [] \<Rightarrow> None
           | i # is \<Rightarrow> do {
               let fs = (fs_table v ! i)\<lparr>mount_point := mp, fs_ops := type\<rparr>;
               (err, fs', w) \<leftarrow> op_mount (ops type) fs dev_major dev_minor (world v);
               let v1 = v\<lparr>free_fs := is, fs_table := (fs_table v)[i := fs'], world := w\<rparr>;
               if err \<noteq> 0 then Some (None, v1\<lparr>free_fs := free_fs v1 @ [i]\<rparr>)
               else Some (Some i, v1\<lparr>mounted_fs := mounted_fs v1 @ [i]\<rparr>)
             }))"

definition fs_of :: "(fs_type_t \<Rightarrow> 'w fs_ops_t) \<Rightarrow> nat \<Rightarrow> 'w vfs \<Rightarrow> (fs_desc_t \<times> 'w fs_ops_t) option" where
  "fs_of ops f v = do {
     i \<leftarrow> f_desc (files v ! f);
     fs \<leftarrow> nth_opt (fs_table v) i;
     Some (fs, ops (fs_ops fs))
   }"

definition set_file :: "nat \<Rightarrow> file_t \<Rightarrow> 'w \<Rightarrow> 'w vfs \<Rightarrow> 'w vfs" where
  "set_file f file w v = v\<lparr>files := (files v)[f := file], world := w\<rparr>"

text \<open>
  \<open>sys_open\<close>.  Without a file system for the path the code tests \<open>file\<close>, which it has not set: \<open>None\<close>.
  When the file system cannot open the file, the file is given back but its descriptor is not.
\<close>

definition sys_open :: "(fs_type_t \<Rightarrow> 'w fs_ops_t) \<Rightarrow> u8 list \<Rightarrow> u32 \<Rightarrow> 'w vfs \<Rightarrow> (int \<times> 'w vfs) option" where
  "sys_open ops name flag v =
     (case find_fs name v of None \<Rightarrow> None
      | Some i \<Rightarrow>
          (case alloc_file (files v) of (None, fl) \<Rightarrow> Some (FILENO_UNKNOWN, v)
           | (Some f, fl) \<Rightarrow>
               (let (fd, k) = task_alloc_fd f (vk v); v1 = v\<lparr>files := fl, vk := k\<rparr>
                in if fd < 0 then Some (FILENO_UNKNOWN, v1\<lparr>files := free_file f fl\<rparr>)
                   else let v2 = v1\<lparr>files := upd_file f (\<lambda>x. x\<lparr>f_mode := flag, f_desc := Some i\<rparr>) (files v1)\<rparr>
                        in do {
                          (fs, op) \<leftarrow> fs_of ops f v2;
                          (err, file, w) \<leftarrow> op_open op fs (path_next_child name) (files v2 ! f) (world v2);
                          let v3 = set_file f file w v2;
                          if err \<noteq> 0 then Some (FILENO_UNKNOWN, v3\<lparr>files := free_file f (files v3)\<rparr>) else Some (fd, v3)
                        })))"

definition sys_dup :: "int \<Rightarrow> 'w vfs \<Rightarrow> int \<times> 'w vfs" where
  "sys_dup fd v =
     (case task_file fd (vk v) of None \<Rightarrow> (EBADF, v)
      | Some f \<Rightarrow>
          (let (new_fd, k) = task_alloc_fd f (vk v)
           in if new_fd \<ge> 0 then (new_fd, v\<lparr>vk := k, files := ref_file f (files v)\<rparr>) else (-1, v\<lparr>vk := k\<rparr>)))"

text \<open>\<open>sys_dup2\<close> gives back a reference to the file it is about to store, not to the one it replaces.\<close>

definition sys_dup2 :: "int \<Rightarrow> int \<Rightarrow> 'w vfs \<Rightarrow> (int \<times> 'w vfs) option" where
  "sys_dup2 dst source v =
     (if dst = source then Some (dst, v)
      else case task_file source (vk v) of None \<Rightarrow> Some (EBADF, v)
      | Some f \<Rightarrow> do {
          let v1 = (if task_file dst (vk v) \<noteq> None then v\<lparr>files := free_file f (files v), vk := task_free_fd dst (vk v)\<rparr> else v);
          (err, k) \<leftarrow> task_set_file dst f True (vk v1);
          if err = 0 then Some (dst, v1\<lparr>vk := k, files := ref_file f (files v1)\<rparr>) else None
        })"

definition sys_write :: "(fs_type_t \<Rightarrow> 'w fs_ops_t) \<Rightarrow> int \<Rightarrow> u8 list \<Rightarrow> 'w vfs \<Rightarrow> (int \<times> 'w vfs) option" where
  "sys_write ops fd buf v =
     (case task_file fd (vk v) of None \<Rightarrow> Some (EBADF, v)
      | Some f \<Rightarrow> do {
          (fs, op) \<leftarrow> fs_of ops f v;
          (r, file, w) \<leftarrow> op_write op fs (files v ! f) buf (world v);
          Some (r, set_file f file w v)
        })"

definition sys_read :: "(fs_type_t \<Rightarrow> 'w fs_ops_t) \<Rightarrow> int \<Rightarrow> nat \<Rightarrow> 'w vfs \<Rightarrow> (int \<times> u8 list \<times> 'w vfs) option" where
  "sys_read ops fd sz v =
     (case task_file fd (vk v) of None \<Rightarrow> Some (EBADF, [], v)
      | Some f \<Rightarrow> do {
          (fs, op) \<leftarrow> fs_of ops f v;
          (r, bs, file, w) \<leftarrow> op_read op fs (files v ! f) sz (world v);
          Some (r, bs, set_file f file w v)
        })"

definition sys_lseek :: "(fs_type_t \<Rightarrow> 'w fs_ops_t) \<Rightarrow> int \<Rightarrow> int \<Rightarrow> int \<Rightarrow> 'w vfs \<Rightarrow> (int \<times> 'w vfs) option" where
  "sys_lseek ops fd offset whence v =
     (case task_file fd (vk v) of None \<Rightarrow> Some (EBADF, v)
      | Some f \<Rightarrow> do {
          (fs, op) \<leftarrow> fs_of ops f v;
          (r, file, w) \<leftarrow> op_seek op fs (files v ! f) offset whence (world v);
          Some (r, set_file f file w v)
        })"

text \<open>
  \<open>sys_close\<close>.  Sockets and files share the descriptor numbers; \<open>get_socket\<close> and \<open>close_socket\<close>
  (\<open>net/sock.c\<close>) are functions on the world.  A failed \<open>ASSERT\<close> stops the system: \<open>None\<close>.
\<close>

definition sys_close ::
  "(int \<Rightarrow> 'w \<Rightarrow> bool) \<Rightarrow> (int \<Rightarrow> 'w \<Rightarrow> (int \<times> 'w) option) \<Rightarrow> (fs_type_t \<Rightarrow> 'w fs_ops_t) \<Rightarrow> int \<Rightarrow> 'w vfs \<Rightarrow> (int \<times> 'w vfs) option" where
  "sys_close get_socket close_socket ops fd v =
     (if get_socket fd (world v) then do { (r, w) \<leftarrow> close_socket fd (world v); Some (r, v\<lparr>world := w\<rparr>) }
      else case task_file fd (vk v) of None \<Rightarrow> Some (EBADF, v)
      | Some f \<Rightarrow>
          if \<not> f_ref (files v ! f) > 0 then None
          else do {
            let v1 = v\<lparr>files := free_file f (files v)\<rparr>;
            v2 \<leftarrow> (if f_ref (files v1 ! f) = 0
                   then do {
                     (fs, op) \<leftarrow> fs_of ops f v1;
                     (file, w) \<leftarrow> op_close op fs (files v1 ! f) (world v1);
                     Some (set_file f file w v1)
                   }
                   else Some v1);
            Some (0, v2\<lparr>vk := task_free_fd fd (vk v2)\<rparr>)
          })"

definition sys_fstat :: "(fs_type_t \<Rightarrow> 'w fs_ops_t) \<Rightarrow> int \<Rightarrow> stat_t \<Rightarrow> 'w vfs \<Rightarrow> (int \<times> stat_t \<times> 'w vfs) option" where
  "sys_fstat ops fd data v =
     (case task_file fd (vk v) of None \<Rightarrow> Some (EBADF, data, v)
      | Some f \<Rightarrow> do {
          (fs, op) \<leftarrow> fs_of ops f v;
          (r, d, file, w) \<leftarrow> op_stat op fs (files v ! f) data (world v);
          Some (r, d, set_file f file w v)
        })"

definition sys_stat ::
  "(int \<Rightarrow> 'w \<Rightarrow> bool) \<Rightarrow> (int \<Rightarrow> 'w \<Rightarrow> (int \<times> 'w) option) \<Rightarrow> (fs_type_t \<Rightarrow> 'w fs_ops_t) \<Rightarrow> u8 list \<Rightarrow> stat_t \<Rightarrow> 'w vfs \<Rightarrow>
   (int \<times> stat_t \<times> 'w vfs) option" where
  "sys_stat get_socket close_socket ops name data v = do {
     (fd, v1) \<leftarrow> sys_open ops name O_RDONLY v;
     (r, d, v2) \<leftarrow> sys_fstat ops fd data v1;
     (c, v3) \<leftarrow> sys_close get_socket close_socket ops fd v2;
     Some (r, d, v3)
   }"

definition sys_readdir :: "(fs_type_t \<Rightarrow> 'w fs_ops_t) \<Rightarrow> int \<Rightarrow> dirent_t option \<Rightarrow> 'w vfs \<Rightarrow> (int \<times> dirent_t option \<times> 'w vfs) option" where
  "sys_readdir ops fd dirent v =
     (case task_file fd (vk v) of None \<Rightarrow> Some (EBADF, dirent, v)
      | Some f \<Rightarrow>
          (case dirent of None \<Rightarrow> Some (-1, None, v)
           | Some d \<Rightarrow> do {
               (fs, op) \<leftarrow> fs_of ops f v;
               (r, d', file, w) \<leftarrow> op_readdir op fs (files v ! f) d (world v);
               Some (r, Some d', set_file f file w v)
             }))"

text \<open>
  \<open>sys_mkdir\<close> returns the descriptor.  Its error path calls \<open>free_file\<close> exactly when there is no file.
\<close>

definition sys_mkdir :: "(fs_type_t \<Rightarrow> 'w fs_ops_t) \<Rightarrow> u8 list \<Rightarrow> 'w vfs \<Rightarrow> (int \<times> 'w vfs) option" where
  "sys_mkdir ops path v =
     (case find_fs path v of None \<Rightarrow> None
      | Some i \<Rightarrow>
          (case alloc_file (files v) of (None, fl) \<Rightarrow> None
           | (Some f, fl) \<Rightarrow>
               (let (fd, k) = task_alloc_fd f (vk v); v1 = v\<lparr>files := fl, vk := k\<rparr>
                in if fd < 0 then Some (FILENO_UNKNOWN, v1)
                   else let v2 = v1\<lparr>files := upd_file f (\<lambda>x. x\<lparr>f_desc := Some i\<rparr>) (files v1)\<rparr>
                        in do {
                          (fs, op) \<leftarrow> fs_of ops f v2;
                          (err, file, w) \<leftarrow> op_mkdir op fs (path_next_child path) (files v2 ! f) (world v2);
                          let v3 = set_file f file w v2;
                          if err \<noteq> 0 then Some (FILENO_UNKNOWN, v3) else Some (fd, v3)
                        })))"

text \<open>Opening a file by its path and running one operation on it; the descriptor stays open.\<close>

definition with_path ::
  "(fs_type_t \<Rightarrow> 'w fs_ops_t) \<Rightarrow> ('w fs_ops_t \<Rightarrow> fs_desc_t \<Rightarrow> file_t \<Rightarrow> 'w \<Rightarrow> (int \<times> file_t \<times> 'w) option) \<Rightarrow> u8 list \<Rightarrow> 'w vfs \<Rightarrow> (int \<times> 'w vfs) option" where
  "with_path ops oper path v = do {
     (fd, v1) \<leftarrow> sys_open ops path 0 v;
     if fd < 0 then Some (fd, v1)
     else case task_file fd (vk v1) of None \<Rightarrow> Some (EBADF, v1)
       | Some f \<Rightarrow> do {
           (fs, op) \<leftarrow> fs_of ops f v1;
           (r, file, w) \<leftarrow> oper op fs (files v1 ! f) (world v1);
           Some (r, set_file f file w v1)
         }
   }"

definition sys_rmdir :: "(fs_type_t \<Rightarrow> 'w fs_ops_t) \<Rightarrow> u8 list \<Rightarrow> 'w vfs \<Rightarrow> (int \<times> 'w vfs) option" where
  "sys_rmdir ops path v = with_path ops op_remove path v"

definition sys_link_type :: "(fs_type_t \<Rightarrow> 'w fs_ops_t) \<Rightarrow> u8 list \<Rightarrow> u8 list \<Rightarrow> int \<Rightarrow> 'w vfs \<Rightarrow> (int \<times> 'w vfs) option" where
  "sys_link_type ops new_path old_path link_type v = with_path ops (\<lambda>op fs f. op_link op fs f new_path link_type) old_path v"

definition sys_link :: "(fs_type_t \<Rightarrow> 'w fs_ops_t) \<Rightarrow> u8 list \<Rightarrow> u8 list \<Rightarrow> 'w vfs \<Rightarrow> (int \<times> 'w vfs) option" where
  "sys_link ops new_path old_path v = sys_link_type ops new_path old_path 0 v"

definition sys_symlink :: "(fs_type_t \<Rightarrow> 'w fs_ops_t) \<Rightarrow> u8 list \<Rightarrow> u8 list \<Rightarrow> 'w vfs \<Rightarrow> (int \<times> 'w vfs) option" where
  "sys_symlink ops new_path old_path v = sys_link_type ops new_path old_path 1 v"

definition sys_unlink :: "(fs_type_t \<Rightarrow> 'w fs_ops_t) \<Rightarrow> u8 list \<Rightarrow> 'w vfs \<Rightarrow> (int \<times> 'w vfs) option" where
  "sys_unlink ops path v = with_path ops op_unlink path v"

section \<open>The device file system\<close>

record devfs_type_t =
  dt_name :: "u8 list"
  dt_file_type :: file_type
  dt_device_type :: int

definition devfs_type_table :: "devfs_type_t list" where
  "devfs_type_table =
     [\<lparr>dt_name = [116, 116, 121], dt_file_type = FILE_TTY, dt_device_type = DEV_TTY\<rparr>,
      \<lparr>dt_name = [100, 105, 115, 107], dt_file_type = FILE_FILE, dt_device_type = DEV_DISK\<rparr>]"

definition devfs_mount :: "fs_desc_t \<Rightarrow> int \<Rightarrow> int \<Rightarrow> 'h devs \<Rightarrow> (int \<times> fs_desc_t \<times> 'h devs) option" where
  "devfs_mount fs major minor s = Some (0, fs\<lparr>fs_type := FS_DEV\<rparr>, s)"

text \<open>The number behind the name, or 0; \<open>str2num\<close> reads the rest of the path in memory.\<close>

definition devfs_minor :: "nat \<Rightarrow> u8 list \<Rightarrow> int option" where
  "devfs_minor len path =
     (if length path \<le> len then Some 0
      else do { (err, num) \<leftarrow> str2num (drop len path @ [0]) 0; Some (case num of Some n \<Rightarrow> if err = 0 then sint n else 0 | None \<Rightarrow> 0) })"

fun devfs_open_loop :: "'h device_desc_t list \<Rightarrow> devfs_type_t list \<Rightarrow> u8 list \<Rightarrow> file_t \<Rightarrow> 'h devs \<Rightarrow> (int \<times> file_t \<times> 'h devs) option" where
  "devfs_open_loop tbl [] path file s = Some (-1, file, s)"
| "devfs_open_loop tbl (ty # tys) path file s =
     (if take (length (dt_name ty)) path \<noteq> dt_name ty then devfs_open_loop tbl tys path file s
      else do {
        minor \<leftarrow> devfs_minor (length (dt_name ty)) path;
        (dev_id, s') \<leftarrow> device_open tbl (dt_device_type ty) minor s;
        if dev_id < 0 then Some (-1, file, s')
        else Some (0, file\<lparr>f_dev_id := dev_id, f_pos := 0, f_type := dt_file_type ty\<rparr>, s')
      })"

definition devfs_open :: "'h device_desc_t list \<Rightarrow> fs_desc_t \<Rightarrow> u8 list \<Rightarrow> file_t \<Rightarrow> 'h devs \<Rightarrow> (int \<times> file_t \<times> 'h devs) option" where
  "devfs_open tbl fs path file s = devfs_open_loop tbl devfs_type_table path file s"

definition devfs_read :: "'h device_desc_t list \<Rightarrow> fs_desc_t \<Rightarrow> file_t \<Rightarrow> nat \<Rightarrow> 'h devs \<Rightarrow> (int \<times> u8 list \<times> file_t \<times> 'h devs) option" where
  "devfs_read tbl fs file sz s = do { (r, bs, s') \<leftarrow> device_read tbl (f_dev_id file) (f_pos file) sz s; Some (r, bs, file, s') }"

definition devfs_write :: "'h device_desc_t list \<Rightarrow> fs_desc_t \<Rightarrow> file_t \<Rightarrow> u8 list \<Rightarrow> 'h devs \<Rightarrow> (int \<times> file_t \<times> 'h devs) option" where
  "devfs_write tbl fs file buf s = do { (r, s') \<leftarrow> device_write tbl (f_dev_id file) (f_pos file) buf (length buf) s; Some (r, file, s') }"

definition devfs_close :: "'h device_desc_t list \<Rightarrow> fs_desc_t \<Rightarrow> file_t \<Rightarrow> 'h devs \<Rightarrow> (file_t \<times> 'h devs) option" where
  "devfs_close tbl fs file s = do { s' \<leftarrow> device_close tbl (f_dev_id file) s; Some (file, s') }"

definition devfs_seek :: "fs_desc_t \<Rightarrow> file_t \<Rightarrow> int \<Rightarrow> int \<Rightarrow> 'h devs \<Rightarrow> (int \<times> file_t \<times> 'h devs) option" where
  "devfs_seek fs file offset whence s = Some (-1, file, s)"

definition devfs_ioctl :: "'h device_desc_t list \<Rightarrow> fs_desc_t \<Rightarrow> file_t \<Rightarrow> int \<Rightarrow> int \<Rightarrow> int \<Rightarrow> 'h devs \<Rightarrow> (int \<times> 'h devs) option" where
  "devfs_ioctl tbl fs file cmd arg0 arg1 s = device_control tbl (f_dev_id file) cmd arg0 arg1 s"

definition devfs_ops :: "'h device_desc_t list \<Rightarrow> 'h devs fs_ops_t" where
  "devfs_ops tbl = \<lparr>op_mount = devfs_mount, op_open = devfs_open tbl, op_ioctl = devfs_ioctl tbl, op_read = devfs_read tbl,
     op_write = devfs_write tbl, op_close = devfs_close tbl, op_seek = devfs_seek, op_stat = (\<lambda>_ _ _ _. None), op_remove = (\<lambda>_ _ _. None),
     op_readdir = (\<lambda>_ _ _ _. None), op_mkdir = (\<lambda>_ _ _ _. None), op_link = (\<lambda>_ _ _ _ _. None), op_unlink = (\<lambda>_ _ _. None)\<rparr>"

end
