(* ===== verification/Vfs_Props.thy ===== *)
theory Vfs_Props
  imports Vfs Thread_Props
begin

text \<open>
  Reference counts of open files.  A file of the table is free when its count is 0; the count is the number of
  descriptors, of all tasks, that name the file.  The invariant is kept by every sequence of the system calls that
  keep books (\<open>open\<close>, \<open>dup\<close>, \<open>close\<close>, \<open>read\<close>, \<open>write\<close>, \<open>lseek\<close>) and of task switches.
\<close>

section \<open>Counting descriptors\<close>

lemma count_list_update:
  "i < length xs \<Longrightarrow> count_list (xs[i := y]) z + (if xs ! i = z then 1 else 0) = count_list xs z + (if y = z then 1 else 0)"
proof (induction xs arbitrary: i)
  case (Cons x xs)
  show ?case
  proof (cases i)
    case (Suc j)
    then show ?thesis using Cons.IH[of j] Cons.prems by (simp split: if_splits)
  qed simp
qed simp

definition fd_refs :: "addr set \<Rightarrow> kernel \<Rightarrow> nat \<Rightarrow> nat" where
  "fd_refs T k f = (\<Sum>t\<in>T. count_list (file_table (task k t)) (Some f))"

definition vfs_ok :: "addr set \<Rightarrow> 'w vfs \<Rightarrow> bool" where
  "vfs_ok T v \<longleftrightarrow> finite T \<and> cur (vk v) \<in> T \<and> length (files v) = FILE_TABLE_SIZE \<and>
     (\<forall>t\<in>T. length (file_table (task (vk v) t)) = TASK_FILE_SIZE \<and> (\<forall>f. Some f \<in> set (file_table (task (vk v) t)) \<longrightarrow> f < FILE_TABLE_SIZE)) \<and>
     (\<forall>f<FILE_TABLE_SIZE. f_ref (files v ! f) = int (fd_refs T (vk v) f))"

definition set_fd :: "nat \<Rightarrow> nat option \<Rightarrow> kernel \<Rightarrow> kernel" where
  "set_fd i x k = upd_task (cur k) (\<lambda>s. s\<lparr>file_table := (file_table s)[i := x]\<rparr>) k"

lemma set_fd_refs:
  assumes "finite T" "cur k \<in> T" "i < length (file_table (task k (cur k)))"
  shows "fd_refs T (set_fd i x k) f + (if file_table (task k (cur k)) ! i = Some f then 1 else 0) =
    fd_refs T k f + (if x = Some f then 1 else 0)"
proof -
  let ?c = "\<lambda>k t. count_list (file_table (task k t)) (Some f)"
  have s: "fd_refs T k' f = ?c k' (cur k) + (\<Sum>t\<in>T - {cur k}. ?c k' t)" for k'
    unfolding fd_refs_def using assms(1,2) by (rule sum.remove)
  have "(\<Sum>t\<in>T - {cur k}. ?c (set_fd i x k) t) = (\<Sum>t\<in>T - {cur k}. ?c k t)"
    by (rule sum.cong) (auto simp: set_fd_def upd_task_def)
  moreover have "?c (set_fd i x k) (cur k) = count_list ((file_table (task k (cur k)))[i := x]) (Some f)" by (simp add: set_fd_def upd_task_def)
  ultimately show ?thesis using s[of k] s[of "set_fd i x k"] count_list_update[OF assms(3), of x "Some f"] by linarith
qed

lemma set_fd_sel: "cur (set_fd i x k) = cur k"
  "file_table (task (set_fd i x k) t) = (if t = cur k then (file_table (task k t))[i := x] else file_table (task k t))"
  by (simp_all add: set_fd_def upd_task_def)

text \<open>One descriptor and one count change together.\<close>

lemma vfs_ok_set_fd:
  assumes ok: "vfs_ok T v" and i: "i < TASK_FILE_SIZE" and x: "\<And>f. x = Some f \<Longrightarrow> f < FILE_TABLE_SIZE"
    and fl: "length fl = FILE_TABLE_SIZE"
    and r: "\<And>f. f < FILE_TABLE_SIZE \<Longrightarrow> f_ref (fl ! f) = f_ref (files v ! f) +
      (if x = Some f then 1 else 0) - (if file_table (task (vk v) (cur (vk v))) ! i = Some f then 1 else 0)"
  shows "vfs_ok T (v\<lparr>vk := set_fd i x (vk v), files := fl\<rparr>)"
proof -
  have f: "finite T" "cur (vk v) \<in> T" using ok by (auto simp: vfs_ok_def)
  have l: "length (file_table (task (vk v) t)) = TASK_FILE_SIZE" "\<And>f. Some f \<in> set (file_table (task (vk v) t)) \<Longrightarrow> f < FILE_TABLE_SIZE" if "t \<in> T" for t
    using ok that by (auto simp: vfs_ok_def)
  have "f_ref (fl ! g) = int (fd_refs T (set_fd i x (vk v)) g)" if g: "g < FILE_TABLE_SIZE" for g
    using r[OF g] set_fd_refs[OF f, of i x g] l(1)[OF f(2)] i ok g by (auto simp: vfs_ok_def split: if_splits)
  moreover have "Some g \<in> set (file_table (task (set_fd i x (vk v)) t)) \<longrightarrow> g < FILE_TABLE_SIZE" if "t \<in> T" for t g
    using l(2)[OF that, of g] x[of g] set_update_subset_insert[of "file_table (task (vk v) t)" i x] by (auto simp: set_fd_sel)
  ultimately show ?thesis using f fl l(1) by (simp add: vfs_ok_def set_fd_sel)
qed

lemma vfs_ok_files:
  assumes "vfs_ok T v" "length fl = FILE_TABLE_SIZE" "\<And>f. f < FILE_TABLE_SIZE \<Longrightarrow> f_ref (fl ! f) = f_ref (files v ! f)"
  shows "vfs_ok T (v\<lparr>files := fl, world := w\<rparr>)"
  using assms by (simp add: vfs_ok_def)

lemma task_file_ok:
  assumes "vfs_ok T v" "task_file fd (vk v) = Some f"
  shows "0 \<le> fd" "nat fd < TASK_FILE_SIZE" "file_table (task (vk v) (cur (vk v))) ! nat fd = Some f" "f < FILE_TABLE_SIZE" "0 < f_ref (files v ! f)"
proof -
  have c: "cur (vk v) \<in> T" "finite T" "length (file_table (task (vk v) (cur (vk v)))) = TASK_FILE_SIZE" using assms(1) by (auto simp: vfs_ok_def)
  show fd: "0 \<le> fd" "nat fd < TASK_FILE_SIZE" and n: "file_table (task (vk v) (cur (vk v))) ! nat fd = Some f"
    using assms(2) by (auto simp: task_file_def split: if_splits)
  then have m: "Some f \<in> set (file_table (task (vk v) (cur (vk v))))" using c(3) nth_mem[of "nat fd"] by metis
  then show f: "f < FILE_TABLE_SIZE" using assms(1) c(1) by (auto simp: vfs_ok_def)
  have "count_list (file_table (task (vk v) (cur (vk v)))) (Some f) \<noteq> 0" using m by (simp add: count_list_0_iff)
  moreover have "count_list (file_table (task (vk v) (cur (vk v)))) (Some f) \<le> fd_refs T (vk v) f"
    unfolding fd_refs_def by (rule member_le_sum[OF c(1) _ c(2)]) simp
  ultimately show "0 < f_ref (files v ! f)" using assms(1) f by (simp add: vfs_ok_def)
qed

lemma task_alloc_fd_ok:
  assumes "vfs_ok T v" "task_alloc_fd f (vk v) = (fd, k)" "0 \<le> fd"
  shows "nat fd < TASK_FILE_SIZE" "file_table (task (vk v) (cur (vk v))) ! nat fd = None" "k = set_fd (nat fd) (Some f) (vk v)"
proof -
  have l: "length (file_table (task (vk v) (cur (vk v)))) = TASK_FILE_SIZE" using assms(1) by (auto simp: vfs_ok_def)
  obtain i where i: "first_free (file_table (task (vk v) (cur (vk v)))) 0 = Some i" "fd = int i" "k = set_fd i (Some f) (vk v)"
    using assms(2,3) by (auto simp: task_alloc_fd_def set_fd_def split: option.splits)
  show "nat fd < TASK_FILE_SIZE" "file_table (task (vk v) (cur (vk v))) ! nat fd = None" "k = set_fd (nat fd) (Some f) (vk v)"
    using first_free_Some[OF i(1)] i(2,3) l by simp_all
qed

lemma task_alloc_fd_full: "task_alloc_fd f k = (fd, k') \<Longrightarrow> fd < 0 \<Longrightarrow> k' = k"
  by (auto simp: task_alloc_fd_def split: option.splits)

lemma alloc_file_loop_Some: "alloc_file_loop j fs = Some i \<Longrightarrow> j \<le> i \<and> i - j < length fs \<and> f_ref (fs ! (i - j)) = 0"
proof (induction j fs rule: alloc_file_loop.induct)
  case (2 j f fs)
  show ?case
  proof (cases "f_ref f = 0")
    case False
    then have "j + 1 \<le> i" "i - (j + 1) < length fs" "f_ref (fs ! (i - (j + 1))) = 0" using 2 by simp_all
    moreover from this have "i - j = Suc (i - (j + 1))" by simp
    ultimately show ?thesis by simp
  qed (use 2 in simp)
qed simp

lemma alloc_file_ok:
  assumes "alloc_file fs = (Some f, fl)"
  shows "f < length fs" "f_ref (fs ! f) = 0" "fl = fs[f := (fs ! f)\<lparr>f_ref := 1\<rparr>]"
proof -
  have "alloc_file_loop 0 fs = Some f" and fl: "fl = fs[f := (fs ! f)\<lparr>f_ref := 1\<rparr>]"
    using assms by (auto simp: alloc_file_def upd_file_def split: option.splits)
  then show "f < length fs" "f_ref (fs ! f) = 0" using alloc_file_loop_Some[of 0 fs f] by simp_all
  show "fl = fs[f := (fs ! f)\<lparr>f_ref := 1\<rparr>]" by (rule fl)
qed

section \<open>What a file system keeps\<close>

definition keeps_refs :: "'w fs_ops_t \<Rightarrow> bool" where
  "keeps_refs op \<longleftrightarrow>
     (\<forall>fs p f w r f' w'. op_open op fs p f w = Some (r, f', w') \<longrightarrow> f_ref f' = f_ref f) \<and>
     (\<forall>fs f n w r bs f' w'. op_read op fs f n w = Some (r, bs, f', w') \<longrightarrow> f_ref f' = f_ref f) \<and>
     (\<forall>fs f bs w r f' w'. op_write op fs f bs w = Some (r, f', w') \<longrightarrow> f_ref f' = f_ref f) \<and>
     (\<forall>fs f a b w r f' w'. op_seek op fs f a b w = Some (r, f', w') \<longrightarrow> f_ref f' = f_ref f) \<and>
     (\<forall>fs f w f' w'. op_close op fs f w = Some (f', w') \<longrightarrow> f_ref f' = f_ref f)"

lemma keeps_refsD:
  assumes "keeps_refs op"
  shows "op_open op fs p f w = Some (r, f', w') \<Longrightarrow> f_ref f' = f_ref f" "op_read op fs f n w = Some (r, bs, f', w') \<Longrightarrow> f_ref f' = f_ref f"
    "op_write op fs f bs w = Some (r, f', w') \<Longrightarrow> f_ref f' = f_ref f" "op_seek op fs f a b w = Some (r, f', w') \<Longrightarrow> f_ref f' = f_ref f"
    "op_close op fs f w = Some (f', w') \<Longrightarrow> f_ref f' = f_ref f"
  using assms unfolding keeps_refs_def by metis+

lemma devfs_keeps_refs: "keeps_refs (devfs_ops tbl)"
proof -
  have "f_ref f' = f_ref f" if "devfs_open_loop tbl tys p f w = Some (r, f', w')" for tys p f w r f' w'
    using that by (induction tys) (auto simp: bind_eq_Some_conv split: if_splits)
  then show ?thesis
    by (auto simp: keeps_refs_def devfs_ops_def devfs_open_def devfs_read_def devfs_write_def devfs_close_def devfs_seek_def bind_eq_Some_conv)
qed

section \<open>The system calls\<close>

lemma ref_upd: "f_ref (fs[f := x] ! g) = (if g = f \<and> f < length fs then f_ref x else f_ref (fs ! g))"
  by (cases "f < length fs") (auto simp: nth_list_update list_update_beyond)

lemma set_file_ok:
  assumes "vfs_ok T v" "f_ref file = f_ref (files v ! f)"
  shows "vfs_ok T (set_file f file w v)"
  unfolding set_file_def by (rule vfs_ok_files[OF assms(1)]) (use assms in \<open>auto simp: vfs_ok_def ref_upd\<close>)

lemma sys_open_ok:
  assumes ok: "vfs_ok T v" and kr: "\<And>t. keeps_refs (ops t)" and op: "sys_open ops name flag v = Some (fd, v')" "0 \<le> fd"
  shows "vfs_ok T v'" "task_file fd (vk v) = None" "\<exists>f. task_file fd (vk v') = Some f \<and> fd_refs T (vk v) f = 0"
proof -
  have l: "length (files v) = FILE_TABLE_SIZE" "length (file_table (task (vk v) (cur (vk v)))) = TASK_FILE_SIZE" using ok by (auto simp: vfs_ok_def)
  obtain i where i: "find_fs name v = Some i" using op(1) by (auto simp: sys_open_def split: option.splits)
  obtain f fl where f: "alloc_file (files v) = (Some f, fl)"
    using op i by (cases "alloc_file (files v)"; cases "fst (alloc_file (files v))") (auto simp: sys_open_def FILENO_UNKNOWN_def)
  obtain fd0 k where fd0: "task_alloc_fd f (vk v) = (fd0, k)" by fastforce
  have pos: "0 \<le> fd0" using op i f fd0 by (auto simp: sys_open_def FILENO_UNKNOWN_def Let_def split: if_splits)
  note af = alloc_file_ok[OF f] and tf = task_alloc_fd_ok[OF ok fd0 pos]
  define v2 where "v2 = v\<lparr>vk := k, files := upd_file f (\<lambda>x. x\<lparr>f_mode := flag, f_desc := Some i\<rparr>) fl\<rparr>"
  have "\<not> fd0 < 0" using pos by simp
  then obtain fs o' err f' w where w: "fs_of ops f v2 = Some (fs, o')" "op_open o' fs (path_next_child name) (files v2 ! f) (world v2) = Some (err, f', w)"
    and res: "(if err \<noteq> 0 then Some (FILENO_UNKNOWN, (set_file f f' w v2)\<lparr>files := free_file f (files (set_file f f' w v2))\<rparr>)
      else Some (fd0, set_file f f' w v2)) = Some (fd, v')"
    using op(1) i f fd0 by (auto simp: v2_def sys_open_def Let_def bind_eq_Some_conv cong: if_cong)
  have fin: "fd = fd0" "v' = set_file f f' w v2" using res op(2) by (auto simp: FILENO_UNKNOWN_def split: if_splits)
  have "keeps_refs o'" using w(1) kr by (auto simp: fs_of_def bind_eq_Some_conv)
  then have rf: "f_ref f' = f_ref (files v2 ! f)" using keeps_refsD(1) w(2) by metis
  have ok2: "vfs_ok T v2" unfolding v2_def tf(3)
    by (rule vfs_ok_set_fd[OF ok tf(1)]) (use af l tf(2) in \<open>auto simp: upd_file_def ref_upd\<close>)
  show "vfs_ok T v'" unfolding fin(2) by (rule set_file_ok[OF ok2 rf])
  show "task_file fd (vk v) = None" using tf(1,2) pos fin(1) by (simp add: task_file_def)
  have "vk v' = k" by (simp add: fin(2) set_file_def v2_def)
  then have "task_file fd (vk v') = Some f" using tf(1,3) pos fin(1) l(2) by (simp add: task_file_def set_fd_sel)
  moreover have "fd_refs T (vk v) f = 0" using ok af(1,2) l(1) by (simp add: vfs_ok_def)
  ultimately show "\<exists>f. task_file fd (vk v') = Some f \<and> fd_refs T (vk v) f = 0" by blast
qed

lemma sys_dup_ok:
  assumes ok: "vfs_ok T v" and d: "sys_dup fd v = (r, v')"
  shows "vfs_ok T v'"
proof (cases "task_file fd (vk v)")
  case None
  then show ?thesis using d ok by (simp add: sys_dup_def)
next
  case (Some f)
  note tf = task_file_ok[OF ok Some]
  have l: "length (files v) = FILE_TABLE_SIZE" using ok by (simp add: vfs_ok_def)
  obtain nfd k where n: "task_alloc_fd f (vk v) = (nfd, k)" by fastforce
  show ?thesis
  proof (cases "0 \<le> nfd")
    case True
    note ta = task_alloc_fd_ok[OF ok n True]
    have v': "v' = v\<lparr>vk := set_fd (nat nfd) (Some f) (vk v), files := ref_file f (files v)\<rparr>" using d Some n True ta(3) by (auto simp: sys_dup_def)
    show ?thesis unfolding v'
      by (rule vfs_ok_set_fd[OF ok ta(1)]) (use tf(4) l ta(2) in \<open>auto simp: ref_file_def upd_file_def ref_upd\<close>)
  next
    case False
    then show ?thesis using d Some n ok task_alloc_fd_full[OF n] by (simp add: sys_dup_def)
  qed
qed

lemma sys_close_ok:
  assumes ok: "vfs_ok T v" and kr: "\<And>t. keeps_refs (ops t)" and c: "sys_close gs cs ops fd v = Some (r, v')"
  shows "vfs_ok T v'"
proof (cases "gs fd (world v)")
  case True
  then show ?thesis using c ok by (auto simp: sys_close_def bind_eq_Some_conv vfs_ok_def)
next
  case nos: False
  show ?thesis
  proof (cases "task_file fd (vk v)")
    case None
    then show ?thesis using c ok nos by (simp add: sys_close_def)
  next
    case (Some f)
    note tf = task_file_ok[OF ok Some]
    have l: "length (files v) = FILE_TABLE_SIZE" using ok by (simp add: vfs_ok_def)
    define v1 where "v1 = v\<lparr>files := free_file f (files v)\<rparr>"
    obtain v2 where v2: "(if f_ref (files v1 ! f) = 0 then do { (fs, op) \<leftarrow> fs_of ops f v1;
        (file, w) \<leftarrow> op_close op fs (files v1 ! f) (world v1); Some (set_file f file w v1) } else Some v1) = Some v2"
      and v': "v' = v2\<lparr>vk := task_free_fd fd (vk v2)\<rparr>"
      using c nos Some tf(5) unfolding v1_def sys_close_def Let_def by (auto simp: bind_eq_Some_conv)
    have same: "vk v2 = vk v" "length (files v2) = FILE_TABLE_SIZE" "f_ref (files v2 ! g) = f_ref (files v1 ! g)" for g
    proof -
      have "vk v2 = vk v1 \<and> length (files v2) = length (files v1) \<and> f_ref (files v2 ! g) = f_ref (files v1 ! g)"
      proof (cases "f_ref (files v1 ! f) = 0")
        case True
        then obtain fs op f' w where x: "fs_of ops f v1 = Some (fs, op)" "op_close op fs (files v1 ! f) (world v1) = Some (f', w)" "v2 = set_file f f' w v1"
          using v2 by (auto simp: bind_eq_Some_conv)
        have "keeps_refs op" using x(1) kr by (auto simp: fs_of_def bind_eq_Some_conv)
        then have "f_ref f' = f_ref (files v1 ! f)" using keeps_refsD(5) x(2) by metis
        then show ?thesis using x(3) by (simp add: set_file_def ref_upd)
      qed (use v2 in simp)
      then show "vk v2 = vk v" "length (files v2) = FILE_TABLE_SIZE" "f_ref (files v2 ! g) = f_ref (files v1 ! g)"
        using l by (simp_all add: v1_def free_file_def upd_file_def)
    qed
    have r1: "f_ref (files v1 ! g) = f_ref (files v ! g) - (if g = f then 1 else 0)" for g
      using tf(4) l by (auto simp: v1_def free_file_def upd_file_def ref_upd)
    have fr: "task_free_fd fd (vk v2) = set_fd (nat fd) None (vk v)" using tf(1,2) same(1) by (simp add: task_free_fd_def set_fd_def)
    have "vfs_ok T (v\<lparr>vk := set_fd (nat fd) None (vk v), files := files v2\<rparr>)"
      by (rule vfs_ok_set_fd[OF ok tf(2)]) (use same r1 tf(3) in auto)
    then show ?thesis unfolding v' fr by (simp add: vfs_ok_def)
  qed
qed

lemma set_result_ok:
  assumes "vfs_ok T v" "\<And>t. keeps_refs (ops t)"
  shows "sys_read ops fd n v = Some (r, bs, v') \<Longrightarrow> vfs_ok T v'" "sys_write ops fd buf v = Some (r, v') \<Longrightarrow> vfs_ok T v'"
    "sys_lseek ops fd a b v = Some (r, v') \<Longrightarrow> vfs_ok T v'"
proof -
  have kr: "keeps_refs op" if "fs_of ops f v = Some (fs, op)" for f fs op using that assms(2) by (auto simp: fs_of_def bind_eq_Some_conv)
  show "vfs_ok T v'" if q: "sys_read ops fd n v = Some (r, bs, v')"
  proof (cases "task_file fd (vk v)")
    case (Some f)
    then obtain fs op f' w where x: "fs_of ops f v = Some (fs, op)" "op_read op fs (files v ! f) n (world v) = Some (r, bs, f', w)" "v' = set_file f f' w v"
      using q by (auto simp: sys_read_def bind_eq_Some_conv)
    have "f_ref f' = f_ref (files v ! f)" using keeps_refsD(2)[OF kr[OF x(1)] x(2)] .
    then show ?thesis unfolding x(3) by (rule set_file_ok[OF assms(1)])
  qed (use q assms(1) in \<open>simp add: sys_read_def\<close>)
  show "vfs_ok T v'" if q: "sys_write ops fd buf v = Some (r, v')"
  proof (cases "task_file fd (vk v)")
    case (Some f)
    then obtain fs op f' w where x: "fs_of ops f v = Some (fs, op)" "op_write op fs (files v ! f) buf (world v) = Some (r, f', w)" "v' = set_file f f' w v"
      using q by (auto simp: sys_write_def bind_eq_Some_conv)
    have "f_ref f' = f_ref (files v ! f)" using keeps_refsD(3)[OF kr[OF x(1)] x(2)] .
    then show ?thesis unfolding x(3) by (rule set_file_ok[OF assms(1)])
  qed (use q assms(1) in \<open>simp add: sys_write_def\<close>)
  show "vfs_ok T v'" if q: "sys_lseek ops fd a b v = Some (r, v')"
  proof (cases "task_file fd (vk v)")
    case (Some f)
    then obtain fs op f' w where x: "fs_of ops f v = Some (fs, op)" "op_seek op fs (files v ! f) a b (world v) = Some (r, f', w)" "v' = set_file f f' w v"
      using q by (auto simp: sys_lseek_def bind_eq_Some_conv)
    have "f_ref f' = f_ref (files v ! f)" using keeps_refsD(4)[OF kr[OF x(1)] x(2)] .
    then show ?thesis unfolding x(3) by (rule set_file_ok[OF assms(1)])
  qed (use q assms(1) in \<open>simp add: sys_lseek_def\<close>)
qed

text \<open>
  One system call of some task, or a switch to another task.  An \<open>open\<close> that the file system refuses is left out:
  it loses a descriptor.  So is \<open>dup2\<close>, which counts wrongly.
\<close>

inductive vfs_step ::
  "addr set \<Rightarrow> (int \<Rightarrow> 'w \<Rightarrow> bool) \<Rightarrow> (int \<Rightarrow> 'w \<Rightarrow> (int \<times> 'w) option) \<Rightarrow> (fs_type_t \<Rightarrow> 'w fs_ops_t) \<Rightarrow> 'w vfs \<Rightarrow> 'w vfs \<Rightarrow> bool"
  for T gs cs ops where
  "sys_open ops name flag v = Some (fd, v') \<Longrightarrow> 0 \<le> fd \<Longrightarrow> vfs_step T gs cs ops v v'"
| "sys_dup fd v = (r, v') \<Longrightarrow> vfs_step T gs cs ops v v'"
| "sys_close gs cs ops fd v = Some (r, v') \<Longrightarrow> vfs_step T gs cs ops v v'"
| "sys_read ops fd n v = Some (r, bs, v') \<Longrightarrow> vfs_step T gs cs ops v v'"
| "sys_write ops fd buf v = Some (r, v') \<Longrightarrow> vfs_step T gs cs ops v v'"
| "sys_lseek ops fd a b v = Some (r, v') \<Longrightarrow> vfs_step T gs cs ops v v'"
| "t \<in> T \<Longrightarrow> vfs_step T gs cs ops v (v\<lparr>vk := (vk v)\<lparr>cur := t\<rparr>\<rparr>)"

lemma vfs_step_ok:
  assumes "vfs_step T gs cs ops v v'" "vfs_ok T v" "\<And>t. keeps_refs (ops t)"
  shows "vfs_ok T v'"
  using assms(1)
proof cases
  case (7 t)
  then show ?thesis using assms(2) by (simp add: vfs_ok_def fd_refs_def)
qed (use assms sys_open_ok(1) sys_dup_ok sys_close_ok set_result_ok in metis)+

lemma vfs_reach_ok:
  assumes "(vfs_step T gs cs ops)\<^sup>*\<^sup>* v v'" "vfs_ok T v" "\<And>t. keeps_refs (ops t)"
  shows "vfs_ok T v'"
  using assms(1) by (induction) (use assms(2,3) vfs_step_ok in blast)+

section \<open>Properties\<close>


text \<open>A task with one open file, and a second descriptor for it.\<close>

definition one_file :: "unit devs vfs" where
  "one_file = \<lparr>vk = sample_kernel\<lparr>task := (\<lambda>t. (task sample_kernel t)\<lparr>file_table := Some 0 # replicate 127 None\<rparr>)\<rparr>,
     files = no_file\<lparr>f_ref := 1, f_desc := Some 0\<rparr> # replicate 2047 no_file, fs_table = [], free_fs = [], mounted_fs = [],
     world = \<lparr>devices = [], hw = ()\<rparr>\<rparr>"

lemma count_list_replicate: "count_list (replicate n x) y = (if x = y then n else 0)"
  by (induction n) auto

lemma one_file_ok: "vfs_ok {4096} one_file"
proof -
  have c: "cur (vk one_file) = 4096" "file_table (task (vk one_file) t) = Some 0 # replicate 127 None" for t
    by (simp_all add: one_file_def sample_kernel_def)
  have "f_ref (files one_file ! f) = int (fd_refs {4096} (vk one_file) f)" if "f < FILE_TABLE_SIZE" for f
    using that by (cases f) (simp_all add: fd_refs_def c count_list_replicate one_file_def FILE_TABLE_SIZE_def no_file_def)
  moreover have "length (files one_file) = FILE_TABLE_SIZE" by (simp add: one_file_def FILE_TABLE_SIZE_def)
  moreover have "f = 0" if "Some f \<in> set (Some 0 # replicate 127 (None :: nat option))" for f using that by auto
  ultimately show ?thesis by (auto simp: vfs_ok_def c TASK_FILE_SIZE_def FILE_TABLE_SIZE_def)
qed


section \<open>Where the books go wrong\<close>

text \<open>\<open>sys_dup2\<close> over an open descriptor: one descriptor more for the file, and the same count.\<close>

lemma sys_dup2_miscounts:
  assumes ok: "vfs_ok T v" and s: "task_file src (vk v) = Some f" and d: "task_file dst (vk v) = Some g" and n: "dst \<noteq> src" "g \<noteq> f"
  shows "\<exists>v'. sys_dup2 dst src v = Some (dst, v') \<and> f_ref (files v' ! f) = f_ref (files v ! f) \<and> f_ref (files v' ! g) = f_ref (files v ! g) \<and>
    fd_refs T (vk v') f = fd_refs T (vk v) f + 1 \<and> fd_refs T (vk v') g + 1 = fd_refs T (vk v) g"
proof -
  note td = task_file_ok[OF ok d] and ts = task_file_ok[OF ok s]
  have l: "length (files v) = FILE_TABLE_SIZE" "length (file_table (task (vk v) (cur (vk v)))) = TASK_FILE_SIZE" "finite T" "cur (vk v) \<in> T"
    using ok by (auto simp: vfs_ok_def)
  define k1 where "k1 = task_free_fd dst (vk v)"
  have k1: "k1 = set_fd (nat dst) None (vk v)" using td(1,2) by (simp add: k1_def task_free_fd_def set_fd_def)
  define k2 where "k2 = set_fd (nat dst) (Some f) k1"
  have set: "task_set_file dst f True k1 = Some (0, k2)" using td(1,2) by (simp add: task_set_file_def k2_def set_fd_def)
  have "k2 = set_fd (nat dst) (Some f) (vk v)" by (simp add: k2_def k1 set_fd_def upd_task_def)
  then have r: "fd_refs T k2 h + (if Some g = Some h then 1 else 0) = fd_refs T (vk v) h + (if f = h then 1 else 0)" for h
    using set_fd_refs[OF l(3,4), of "nat dst" "Some f" h] td(2,3) l(2) by simp
  define fl where "fl = ref_file f (free_file f (files v))"
  have "sys_dup2 dst src v = Some (dst, v\<lparr>files := fl, vk := k2\<rparr>)"
    using n(1) s d set by (simp add: sys_dup2_def k1_def[symmetric] fl_def)
  moreover have "f_ref (fl ! h) = f_ref (files v ! h)" for h
    using ts(4) l(1) by (auto simp: fl_def ref_file_def free_file_def upd_file_def ref_upd)
  ultimately show ?thesis using r[of f] r[of g] n(2) by auto
qed

text \<open>An \<open>open\<close> that the file system refuses gives the file back and keeps the descriptor that names it.\<close>

lemma sys_open_leaks:
  assumes ok: "vfs_ok T v" and a: "find_fs name v = Some i" "alloc_file (files v) = (Some f, fl)" "task_alloc_fd f (vk v) = (fd, k)" "0 \<le> fd"
    and r: "fs_of ops f (v\<lparr>vk := k, files := upd_file f (\<lambda>x. x\<lparr>f_mode := flag, f_desc := Some i\<rparr>) fl\<rparr>) = Some (fs, op)"
      "op_open op fs (path_next_child name) (upd_file f (\<lambda>x. x\<lparr>f_mode := flag, f_desc := Some i\<rparr>) fl ! f) (world v) = Some (-1, f', w)"
    and kr: "keeps_refs op"
  shows "\<exists>v'. sys_open ops name flag v = Some (-1, v') \<and> f_ref (files v' ! f) = 0 \<and> task_file fd (vk v') = Some f"
proof -
  note af = alloc_file_ok[OF a(2)] and ta = task_alloc_fd_ok[OF ok a(3,4)]
  have "length (file_table (task (vk v) (cur (vk v)))) = TASK_FILE_SIZE" using ok by (auto simp: vfs_ok_def)
  then have "task_file fd k = Some f" using ta(1,3) a(4) by (simp add: task_file_def set_fd_sel)
  moreover have "f_ref f' = 1" using keeps_refsD(1)[OF kr r(2)] af(1,3) by (simp add: upd_file_def)
  ultimately show ?thesis
    using a r af(1,3) by (auto simp: sys_open_def Let_def FILENO_UNKNOWN_def set_file_def free_file_def upd_file_def)
qed

end
