(* ===== verification/Disk.thy ===== *)
theory Disk
  imports Vfs
begin

text \<open>
  The disk driver of \<open>kernel/device/disk/disk.c\<close>.  The input and output instructions and the wait for the interrupt
  of the controller (\<open>segment_wait\<close>, ended by \<open>disk_hander\<close>) are functions on the state of the hardware, arguments of the
  driver.  \<open>dev->data\<close>, set by \<open>disk_open\<close> from the minor number, is computed from it here.  Names are byte lists
  without the terminating zero.  \<open>None\<close> is an access outside a buffer or array, or a wait that does not end.
\<close>

section \<open>Little-endian fields\<close>

definition le16_at :: "u8 list \<Rightarrow> nat \<Rightarrow> u16" where
  "le16_at bs i = ucast (bs ! i) OR push_bit 8 (ucast (bs ! (i + 1)))"

definition le32_at :: "u8 list \<Rightarrow> nat \<Rightarrow> u32" where
  "le32_at bs i = ucast (bs ! i) OR push_bit 8 (ucast (bs ! (i + 1))) OR push_bit 16 (ucast (bs ! (i + 2))) OR push_bit 24 (ucast (bs ! (i + 3)))"

definition le16_bytes :: "u16 \<Rightarrow> u8 list" where
  "le16_bytes w = [ucast w, ucast (drop_bit 8 w)]"

section \<open>State\<close>

record 'h ports =
  p_inb :: "u32 \<Rightarrow> 'h \<Rightarrow> u8 \<times> 'h"
  p_inw :: "u32 \<Rightarrow> 'h \<Rightarrow> u16 \<times> 'h"
  p_outb :: "u32 \<Rightarrow> u8 \<Rightarrow> 'h \<Rightarrow> 'h"
  p_outw :: "u32 \<Rightarrow> u16 \<Rightarrow> 'h \<Rightarrow> 'h"
  p_wait :: "'h \<Rightarrow> 'h option"

record part_info_t =
  pt_name :: "u8 list"
  pt_type :: u8
  pt_sector_start :: u32
  pt_sector_count :: u32
  pt_disk :: "nat option"

record disk_t =
  dk_name :: "u8 list"
  port_base :: u32
  drive :: u32
  sector_size :: u32
  sector_count :: u32
  parts :: "part_info_t list"

record 'h disk_w =
  disks :: "disk_t list"
  has_read :: bool
  phw :: 'h

definition SECTOR_SIZE :: u32 where "SECTOR_SIZE = 512"
definition PART_COUNT :: nat where "PART_COUNT = 4"
definition PART_UNVALID :: u8 where "PART_UNVALID = 0"
definition DISK_COUNT :: nat where "DISK_COUNT = 3"
definition PRIMARY_PORT_BASE :: u32 where "PRIMARY_PORT_BASE = 0x1F0"
definition SECONDARY_PORT_BASE :: u32 where "SECONDARY_PORT_BASE = 0x170"
definition PORT_DATA :: u32 where "PORT_DATA = 0"
definition PORT_SECTOR_COUNT :: u32 where "PORT_SECTOR_COUNT = 2"
definition PORT_SECTOR_LOW :: u32 where "PORT_SECTOR_LOW = 3"
definition PORT_SECTOR_MIDDLE :: u32 where "PORT_SECTOR_MIDDLE = 4"
definition PORT_SECTOR_HIGH :: u32 where "PORT_SECTOR_HIGH = 5"
definition PORT_DRIVE :: u32 where "PORT_DRIVE = 6"
definition PORT_STATUS_COMMAND :: u32 where "PORT_STATUS_COMMAND = 7"
definition STATUS_ERR :: nat where "STATUS_ERR = 0"
definition STATUS_DRQ :: nat where "STATUS_DRQ = 3"
definition STATUS_BSY :: nat where "STATUS_BSY = 7"
definition COMMAND_IDENTIFY :: u8 where "COMMAND_IDENTIFY = 0xec"
definition COMMAND_READ :: u8 where "COMMAND_READ = 0x24"
definition COMMAND_WRITE :: u8 where "COMMAND_WRITE = 0x34"

definition disk_port :: "disk_t \<Rightarrow> u32 \<Rightarrow> u32" where
  "disk_port disk port = port_base disk + port"

definition disk_drive :: "disk_t \<Rightarrow> u32" where
  "disk_drive disk = push_bit 4 (drive disk) OR 0xE0"

definition disk_status :: "nat \<Rightarrow> u8" where
  "disk_status k = push_bit k 1"

section \<open>Commands\<close>

definition ata_cmd :: "'h ports \<Rightarrow> disk_t \<Rightarrow> u32 \<Rightarrow> u32 \<Rightarrow> u8 \<Rightarrow> 'h \<Rightarrow> 'h" where
  "ata_cmd P disk start count cmd h =
     (let h1 = p_outb P (disk_port disk PORT_DRIVE) (ucast (disk_drive disk OR (drop_bit 24 start AND 0x0f))) h;
          h2 = p_outb P (disk_port disk PORT_SECTOR_COUNT) (ucast (drop_bit 8 count)) h1;
          h3 = p_outb P (disk_port disk PORT_SECTOR_LOW) (ucast (drop_bit 24 start)) h2;
          h4 = p_outb P (disk_port disk PORT_SECTOR_MIDDLE) 0 h3;
          h5 = p_outb P (disk_port disk PORT_SECTOR_HIGH) 0 h4;
          h6 = p_outb P (disk_port disk PORT_SECTOR_COUNT) (ucast count) h5;
          h7 = p_outb P (disk_port disk PORT_SECTOR_LOW) (ucast start) h6;
          h8 = p_outb P (disk_port disk PORT_SECTOR_MIDDLE) (ucast (drop_bit 8 start)) h7;
          h9 = p_outb P (disk_port disk PORT_SECTOR_HIGH) (ucast (drop_bit 16 start)) h8
      in p_outb P (disk_port disk PORT_STATUS_COMMAND) cmd h9)"

text \<open>
  \<open>==\<close> binds tighter than \<open>&\<close>: the result is \<open>status & (1 == 1)\<close>, the error bit all the same.
\<close>

partial_function (option) ata_wait :: "'h ports \<Rightarrow> disk_t \<Rightarrow> 'h \<Rightarrow> (int \<times> 'h) option" where
  "ata_wait P disk h =
     (case p_inb P (disk_port disk PORT_STATUS_COMMAND) h of (st, h1) \<Rightarrow>
        if st AND (disk_status STATUS_ERR OR disk_status STATUS_DRQ OR disk_status STATUS_BSY) \<noteq> disk_status STATUS_BSY
        then Some (uint (st AND of_bool (disk_status STATUS_ERR = disk_status STATUS_ERR)), h1)
        else ata_wait P disk h1)"

fun ata_read_loop :: "'h ports \<Rightarrow> disk_t \<Rightarrow> nat \<Rightarrow> 'h \<Rightarrow> u8 list \<times> 'h" where
  "ata_read_loop P disk 0 h = ([], h)"
| "ata_read_loop P disk (Suc k) h =
     (case p_inw P (disk_port disk PORT_DATA) h of (v, h1) \<Rightarrow>
        case ata_read_loop P disk k h1 of (bs, h2) \<Rightarrow> (le16_bytes v @ bs, h2))"

definition ata_read :: "'h ports \<Rightarrow> disk_t \<Rightarrow> u32 \<Rightarrow> 'h \<Rightarrow> int \<times> u8 list \<times> 'h" where
  "ata_read P disk sz h = (case ata_read_loop P disk (unat (sz div 2)) h of (bs, h1) \<Rightarrow> (sint sz, bs, h1))"

fun ata_write_loop :: "'h ports \<Rightarrow> disk_t \<Rightarrow> u8 list \<Rightarrow> nat list \<Rightarrow> 'h \<Rightarrow> 'h" where
  "ata_write_loop P disk buf [] h = h"
| "ata_write_loop P disk buf (i # is) h = ata_write_loop P disk buf is (p_outw P (disk_port disk PORT_DATA) (le16_at buf (2 * i)) h)"

definition ata_write :: "'h ports \<Rightarrow> disk_t \<Rightarrow> u8 list \<Rightarrow> u32 \<Rightarrow> 'h \<Rightarrow> (int \<times> 'h) option" where
  "ata_write P disk buf sz h =
     (if length buf < unat (sz div 2) * 2 then None else Some (sint sz, ata_write_loop P disk buf [0..<unat (sz div 2)] h))"

section \<open>Detection\<close>

text \<open>The bytes of an entry of the partition table: the type at 4, the first sector at 8, the number of sectors at 12.\<close>

record part_item_t =
  system_id :: u8
  relative_sector :: u32
  sector_total :: u32

definition part_item_at :: "u8 list \<Rightarrow> nat \<Rightarrow> part_item_t" where
  "part_item_at mbr i = (let p = 446 + 16 * i in \<lparr>system_id = mbr ! (p + 4), relative_sector = le32_at mbr (p + 8), sector_total = le32_at mbr (p + 12)\<rparr>)"

definition part_of_item :: "nat \<Rightarrow> disk_t \<Rightarrow> nat \<Rightarrow> part_item_t \<Rightarrow> part_info_t" where
  "part_of_item di disk i item =
     (if system_id item = PART_UNVALID then \<lparr>pt_name = [], pt_type = system_id item, pt_sector_start = 0, pt_sector_count = 0, pt_disk = None\<rparr>
      else \<lparr>pt_name = dk_name disk @ [48 + of_nat i], pt_type = system_id item, pt_sector_start = relative_sector item,
             pt_sector_count = sector_total item, pt_disk = Some di\<rparr>)"

definition detect_parts :: "'h ports \<Rightarrow> nat \<Rightarrow> disk_t \<Rightarrow> 'h \<Rightarrow> (int \<times> disk_t \<times> 'h) option" where
  "detect_parts P di disk h = do {
     let h1 = ata_cmd P disk 0 1 COMMAND_READ h;
     (err, h2) \<leftarrow> ata_wait P disk h1;
     if err \<noteq> 0 then Some (err, disk, h2)
     else case ata_read P disk 512 h2 of (sz, mbr, h3) \<Rightarrow>
       if sz < 0 then Some (sz, disk, h3)
       else Some (0, disk\<lparr>parts := take 1 (parts disk) @ map (\<lambda>i. part_of_item di disk i (part_item_at mbr i)) [0..<PART_COUNT]\<rparr>, h3)
   }"

definition detect_disk :: "'h ports \<Rightarrow> nat \<Rightarrow> disk_t \<Rightarrow> 'h \<Rightarrow> (int \<times> disk_t \<times> 'h) option" where
  "detect_disk P di disk h = do {
     let h1 = ata_cmd P disk 0 0 COMMAND_IDENTIFY h;
     case p_inb P (disk_port disk PORT_STATUS_COMMAND) h1 of (st, h2) \<Rightarrow>
       if st = 0 then Some (-1, disk, h2)
       else do {
         (err, h3) \<leftarrow> ata_wait P disk h2;
         if err \<noteq> 0 then Some (1, disk, h3)
         else case ata_read P disk 512 h3 of (sz, buf, h4) \<Rightarrow>
           if sz < 0 then Some (sz, disk, h4)
           else do {
             let d1 = disk\<lparr>sector_count := le32_at buf 200, sector_size := SECTOR_SIZE\<rparr>;
             let part0 = (parts d1 ! 0)\<lparr>pt_name := dk_name d1 @ [48], pt_disk := Some di, pt_sector_start := 0, pt_sector_count := sector_count d1\<rparr>;
             (_, d2, h5) \<leftarrow> detect_parts P di (d1\<lparr>parts := (parts d1)[0 := part0]\<rparr>) h4;
             Some (0, d2, h5)
           }
       }
   }"

definition no_part :: part_info_t where
  "no_part = \<lparr>pt_name = [], pt_type = 0, pt_sector_start = 0, pt_sector_count = 0, pt_disk = None\<rparr>"

definition no_disk :: disk_t where
  "no_disk = \<lparr>dk_name = [], port_base = 0, drive = 0, sector_size = 0, sector_count = 0, parts = replicate (PART_COUNT + 1) no_part\<rparr>"

fun init_disk_loop :: "'h ports \<Rightarrow> nat list \<Rightarrow> 'h disk_w \<Rightarrow> 'h disk_w option" where
  "init_disk_loop P [] w = Some w"
| "init_disk_loop P (i # is) w = do {
     let disk = (disks w ! i)\<lparr>dk_name := [115, 100, 97 + of_nat i], port_base := (if i \<ge> 2 then SECONDARY_PORT_BASE else PRIMARY_PORT_BASE),
       drive := of_nat (i mod 2)\<rparr>;
     (_, d', h) \<leftarrow> detect_disk P i disk (phw w);
     init_disk_loop P is (w\<lparr>disks := (disks w)[i := d'], phw := h\<rparr>)
   }"

definition init_disk :: "'h ports \<Rightarrow> 'h disk_w \<Rightarrow> 'h disk_w option" where
  "init_disk P w = init_disk_loop P [0..<DISK_COUNT] w"

section \<open>The driver\<close>

definition minor_part :: "int \<Rightarrow> 'h disk_w \<Rightarrow> (nat \<times> nat \<times> part_info_t) option" where
  "minor_part minor w = do {
     let di = nat (drop_bit 4 minor);
     let pi = nat (minor AND 0xf);
     d \<leftarrow> nth_opt (disks w) di;
     p \<leftarrow> nth_opt (parts d) pi;
     Some (di, pi, p)
   }"

definition disk_open :: "int \<Rightarrow> 'h disk_w \<Rightarrow> (int \<times> 'h disk_w) option" where
  "disk_open minor w =
     (if drop_bit 4 minor \<ge> int DISK_COUNT \<or> minor AND 0xf \<ge> int PART_COUNT then Some (-1, w)
      else if minor < 0 then None
      else do {
        (di, pi, p) \<leftarrow> minor_part minor w;
        if sector_size (disks w ! di) = 0 then Some (-2, w)
        else if pt_sector_count p = 0 then Some (-3, w)
        else Some (0, w)
      })"

text \<open>
  The loops over the sectors.  The step \<open>buf += disk->sector_size * i\<close> follows \<open>i++\<close>: the offsets are 0, 1, 3, 6, ...
  sectors.  The buffer has room for \<open>n\<close> sectors, so the last sector of a request of three or more lies outside it; such
  a read is \<open>None\<close> as soon as it leaves a gap.
\<close>

fun disk_read_loop :: "'h ports \<Rightarrow> disk_t \<Rightarrow> nat \<Rightarrow> nat \<Rightarrow> nat \<Rightarrow> u8 list \<Rightarrow> 'h \<Rightarrow> (int \<times> u8 list \<times> 'h) option" where
  "disk_read_loop P disk i 0 off out h = Some (int i, out, h)"
| "disk_read_loop P disk i (Suc k) off out h = do {
     h1 \<leftarrow> p_wait P h;
     (err, h2) \<leftarrow> ata_wait P disk h1;
     if err \<noteq> 0 then Some (err, out, h2)
     else if off \<noteq> length out then None
     else case ata_read P disk (sector_size disk) h2 of (r, bs, h3) \<Rightarrow>
       if r \<le> 0 then Some (r, out @ bs, h3)
       else disk_read_loop P disk (i + 1) k (off + unat (sector_size disk) * (i + 1)) (out @ bs) h3
   }"

definition disk_read :: "'h ports \<Rightarrow> int \<Rightarrow> u32 \<Rightarrow> nat \<Rightarrow> 'h disk_w \<Rightarrow> (int \<times> u8 list \<times> 'h disk_w) option" where
  "disk_read P minor addr n w = do {
     (di, pi, p) \<leftarrow> minor_part minor w;
     case pt_disk p of None \<Rightarrow> Some (-2, [], w)
     | Some dk \<Rightarrow> do {
         disk \<leftarrow> nth_opt (disks w) dk;
         let h = ata_cmd P disk (addr + pt_sector_start p) (of_nat n) COMMAND_READ (phw w);
         (r, out, h') \<leftarrow> disk_read_loop P disk 0 n 0 [] h;
         Some (r, out, w\<lparr>has_read := True, phw := h'\<rparr>)
       }
   }"

fun disk_write_loop :: "'h ports \<Rightarrow> disk_t \<Rightarrow> nat \<Rightarrow> nat \<Rightarrow> u8 list \<Rightarrow> 'h \<Rightarrow> (int \<times> 'h) option" where
  "disk_write_loop P disk i 0 buf h = Some (int i, h)"
| "disk_write_loop P disk i (Suc k) buf h = do {
     (r, h1) \<leftarrow> ata_write P disk buf (sector_size disk) h;
     if r \<le> 0 then Some (r, h1)
     else do {
       h2 \<leftarrow> p_wait P h1;
       (err, h3) \<leftarrow> ata_wait P disk h2;
       if err \<noteq> 0 then Some (err, h3)
       else disk_write_loop P disk (i + 1) k (drop (unat (sector_size disk) * (i + 1)) buf) h3
     }
   }"

definition disk_write :: "'h ports \<Rightarrow> int \<Rightarrow> u32 \<Rightarrow> u8 list \<Rightarrow> nat \<Rightarrow> 'h disk_w \<Rightarrow> (int \<times> 'h disk_w) option" where
  "disk_write P minor addr buf n w = do {
     (di, pi, p) \<leftarrow> minor_part minor w;
     case pt_disk p of None \<Rightarrow> Some (-2, w)
     | Some dk \<Rightarrow> do {
         disk \<leftarrow> nth_opt (disks w) dk;
         let h = ata_cmd P disk (addr + pt_sector_start p) (of_nat n) COMMAND_WRITE (phw w);
         (r, h') \<leftarrow> disk_write_loop P disk 0 n buf h;
         Some (r, w\<lparr>has_read := True, phw := h'\<rparr>)
       }
   }"

definition disk_control :: "int \<Rightarrow> int \<Rightarrow> int \<Rightarrow> int \<Rightarrow> 'h disk_w \<Rightarrow> (int \<times> 'h disk_w) option" where
  "disk_control minor cmd arg0 arg1 w = Some (0, w)"

definition disk_close :: "int \<Rightarrow> 'h disk_w \<Rightarrow> 'h disk_w option" where
  "disk_close minor w = Some w"

definition dev_disk_desc :: "'h ports \<Rightarrow> 'h disk_w device_desc_t" where
  "dev_disk_desc P = \<lparr>dd_major = DEV_DISK, dd_open = disk_open, dd_write = disk_write P, dd_read = disk_read P, dd_control = disk_control,
     dd_close = disk_close\<rparr>"

end
