(* ===== verification/Ext2.thy ===== *)
theory Ext2
  imports Disk Cstring_Proofs
begin

text \<open>
  The ext2 file system of \<open>kernel/fs/ext2.c\<close>.  The block device below is a record of the functions of
  \<open>device.c\<close>.  Structures on disk are decoded from the bytes of a block; the structures the code keeps on the
  kernel heap (the descriptor of the mounted system, the data of an open file) are entries of a store, named by the
  number that stands for their address.  \<open>kernel_mallocator.malloc\<close> never returns NULL, so the branches for a failed
  allocation cannot be taken and are left out, as are the buffers that live during one call.  Reading or
  writing outside a buffer and using an uninitialised variable is \<open>None\<close>.
\<close>

section \<open>Structures on disk\<close>

record super_block_t =
  inode_total :: u32
  blocks_total :: u32
  blocks_reserved_count :: u32
  sb_unallocated_block_count :: u32
  sb_unallocated_inode_count :: u32
  super_block_id :: u32
  block_size_kb :: u32
  fragment_size_kb :: u32
  blocks_per_group :: u32
  fragments_per_group :: u32
  inodes_per_group :: u32
  last_mount_time :: u32
  last_written_time :: u32
  mounts_since_last_check :: u16
  max_mounts_since_last_check :: u16
  ext2_sig :: u16
  sb_state :: u16
  error_handling_method :: u16
  minor_version :: u16
  last_check_time :: u32
  max_time_in_checks :: u32
  os_id :: u32
  major_version :: u32
  sb_uid :: u16
  sb_gid :: u16

definition sizeof_super_block :: nat where "sizeof_super_block = 84"

definition super_block_at :: "u8 list \<Rightarrow> super_block_t" where
  "super_block_at bs = \<lparr>inode_total = le32_at bs 0, blocks_total = le32_at bs 4, blocks_reserved_count = le32_at bs 8,
     sb_unallocated_block_count = le32_at bs 12, sb_unallocated_inode_count = le32_at bs 16, super_block_id = le32_at bs 20,
     block_size_kb = le32_at bs 24, fragment_size_kb = le32_at bs 28, blocks_per_group = le32_at bs 32, fragments_per_group = le32_at bs 36,
     inodes_per_group = le32_at bs 40, last_mount_time = le32_at bs 44, last_written_time = le32_at bs 48, mounts_since_last_check = le16_at bs 52,
     max_mounts_since_last_check = le16_at bs 54, ext2_sig = le16_at bs 56, sb_state = le16_at bs 58, error_handling_method = le16_at bs 60,
     minor_version = le16_at bs 62, last_check_time = le32_at bs 64, max_time_in_checks = le32_at bs 68, os_id = le32_at bs 72,
     major_version = le32_at bs 76, sb_uid = le16_at bs 80, sb_gid = le16_at bs 82\<rparr>"

text \<open>The fields of \<open>super_block_ext_t\<close> that are used; the others are the bytes behind.\<close>

record super_block_ext_t =
  first_inode :: u32
  inode_size :: u16
  block_group_idx :: u16
  sbe_rest :: "u8 list"

definition super_block_ext_at :: "u8 list \<Rightarrow> super_block_ext_t" where
  "super_block_ext_at bs = \<lparr>first_inode = le32_at bs 0, inode_size = le16_at bs 4, block_group_idx = le16_at bs 6, sbe_rest = drop 8 bs\<rparr>"

record block_group_desc_t =
  block_bitmap :: u32
  inode_bitmap :: u32
  inode_table :: u32
  bg_unallocated_block_count :: u16
  bg_unallocated_inode_count :: u16
  dir_count :: u16

definition sizeof_block_group_desc :: nat where "sizeof_block_group_desc = 32"

definition block_group_at :: "u8 list \<Rightarrow> block_group_desc_t" where
  "block_group_at bs = \<lparr>block_bitmap = le32_at bs 0, inode_bitmap = le32_at bs 4, inode_table = le32_at bs 8,
     bg_unallocated_block_count = le16_at bs 12, bg_unallocated_inode_count = le16_at bs 14, dir_count = le16_at bs 16\<rparr>"

text \<open>
  \<open>blocks\<close> is \<open>direct_blocks[12]\<close> followed by \<open>indirect_blocks[3]\<close>, as they lie in memory: an index
  of \<open>direct_blocks\<close> from 12 to 14 reaches the indirect blocks.
\<close>

record inode_t =
  type_permission :: u16
  i_uid :: u16
  size0_31 :: u32
  last_access_time :: u32
  create_time :: u32
  last_write_time :: u32
  delete_time :: u32
  i_gid :: u16
  hard_link_count :: u16
  disk_sector_count :: u32
  i_flags :: u32
  os_spec1 :: u32
  blocks :: "u32 list"
  generation_num :: u32
  ext_attr_block :: u32
  size32_63 :: u32
  block_addr_in_fragment :: u32
  os_spec2 :: "u8 list"

definition DIRECT_BLOCK_COUNT :: nat where "DIRECT_BLOCK_COUNT = 12"
definition ROOT_INODE :: u32 where "ROOT_INODE = 2"
definition sizeof_inode :: nat where "sizeof_inode = 128"

definition inode_at :: "u8 list \<Rightarrow> inode_t" where
  "inode_at bs = \<lparr>type_permission = le16_at bs 0, i_uid = le16_at bs 2, size0_31 = le32_at bs 4, last_access_time = le32_at bs 8,
     create_time = le32_at bs 12, last_write_time = le32_at bs 16, delete_time = le32_at bs 20, i_gid = le16_at bs 24,
     hard_link_count = le16_at bs 26, disk_sector_count = le32_at bs 28, i_flags = le32_at bs 32, os_spec1 = le32_at bs 36,
     blocks = map (\<lambda>k. le32_at bs (40 + 4 * k)) [0..<15], generation_num = le32_at bs 100, ext_attr_block = le32_at bs 104,
     size32_63 = le32_at bs 108, block_addr_in_fragment = le32_at bs 112, os_spec2 = take 12 (drop 116 bs)\<rparr>"

definition inode_bytes :: "inode_t \<Rightarrow> u8 list" where
  "inode_bytes i = le16_bytes (type_permission i) @ le16_bytes (i_uid i) @ le32 (size0_31 i) @ le32 (last_access_time i) @
     le32 (create_time i) @ le32 (last_write_time i) @ le32 (delete_time i) @ le16_bytes (i_gid i) @ le16_bytes (hard_link_count i) @
     le32 (disk_sector_count i) @ le32 (i_flags i) @ le32 (os_spec1 i) @ concat (map le32 (blocks i)) @ le32 (generation_num i) @
     le32 (ext_attr_block i) @ le32 (size32_63 i) @ le32 (block_addr_in_fragment i) @ os_spec2 i"

record dir_entry_t =
  de_inode :: u32
  de_rec_len :: u16
  name_length :: u8
  de_ftype :: u8

definition sizeof_dir_entry :: nat where "sizeof_dir_entry = 8"

definition dir_entry_at :: "u8 list \<Rightarrow> nat \<Rightarrow> dir_entry_t" where
  "dir_entry_at bs off = \<lparr>de_inode = le32_at bs off, de_rec_len = le16_at bs (off + 4), name_length = bs ! (off + 6), de_ftype = bs ! (off + 7)\<rparr>"

definition dir_entry_name :: "u8 list \<Rightarrow> nat \<Rightarrow> u8 list" where
  "dir_entry_name bs off = take (unat (name_length (dir_entry_at bs off))) (drop (off + sizeof_dir_entry) bs)"

definition get_file_type :: "u8 \<Rightarrow> file_type" where
  "get_file_type t = (if t = 1 then FILE_FILE else if t = 2 then FILE_DIR else FILE_UNKNOWN)"

section \<open>State\<close>

record ext2_desc =
  super_block :: super_block_t
  super_block_ext :: super_block_ext_t
  block_groups :: "block_group_desc_t list"

text \<open>The pointers to blocks of addresses are \<open>None\<close> for NULL.\<close>

record file_data_t =
  fd_inode :: inode_t
  inode_idx :: u32
  first_indirect_blocks :: "u32 list option"
  second_indirect_idx :: "u32 list option"
  second_indirect_blocks :: "nat \<Rightarrow> u32 list option"
  third_indirect_idx1 :: "u32 list option"

record 'w bdev =
  b_open :: "int \<Rightarrow> int \<Rightarrow> 'w \<Rightarrow> (int \<times> 'w) option"
  b_close :: "int \<Rightarrow> 'w \<Rightarrow> 'w option"
  b_read :: "int \<Rightarrow> u32 \<Rightarrow> nat \<Rightarrow> 'w \<Rightarrow> (int \<times> u8 list \<times> 'w) option"
  b_write :: "int \<Rightarrow> u32 \<Rightarrow> u8 list \<Rightarrow> nat \<Rightarrow> 'w \<Rightarrow> (int \<times> 'w) option"

definition device_bdev :: "'h device_desc_t list \<Rightarrow> 'h devs bdev" where
  "device_bdev tbl = \<lparr>b_open = device_open tbl, b_close = device_close tbl, b_read = device_read tbl, b_write = device_write tbl\<rparr>"

record 'w ext2_w =
  dv :: 'w
  e_descs :: "nat \<Rightarrow> ext2_desc option"
  e_files :: "nat \<Rightarrow> file_data_t option"
  e_next :: nat

section \<open>Blocks\<close>

definition EXT2_SIGNATURE :: u16 where "EXT2_SIGNATURE = 0xef53"

definition kb_size :: "u32 \<Rightarrow> u32" where
  "kb_size s = (s + 1) * 1024"

definition ext2_block_size :: "ext2_desc \<Rightarrow> u32" where
  "ext2_block_size desc = kb_size (block_size_kb (super_block desc))"

definition block_read :: "'w bdev \<Rightarrow> int \<Rightarrow> u32 \<Rightarrow> u32 \<Rightarrow> u32 \<Rightarrow> 'w \<Rightarrow> (int \<times> u8 list \<times> 'w) option" where
  "block_read b dev_id bsz start count w =
     b_read b dev_id (start * bsz div SECTOR_SIZE) (unat (count * bsz div SECTOR_SIZE)) w"

definition block_write :: "'w bdev \<Rightarrow> int \<Rightarrow> u32 \<Rightarrow> u8 list \<Rightarrow> u32 \<Rightarrow> u32 \<Rightarrow> 'w \<Rightarrow> (int \<times> 'w) option" where
  "block_write b dev_id bsz buf start count w =
     b_write b dev_id (start * bsz div SECTOR_SIZE) buf (unat (count * bsz div SECTOR_SIZE)) w"

text \<open>What is read goes to the start of a buffer; a buffer from \<open>malloc\<close> holds zeros.\<close>

definition into :: "u8 list \<Rightarrow> u8 list \<Rightarrow> u8 list option" where
  "into buf bs = (if length bs \<le> length buf then Some (bs @ drop (length bs) buf) else None)"

definition read_into :: "'w bdev \<Rightarrow> int \<Rightarrow> u32 \<Rightarrow> u8 list \<Rightarrow> u32 \<Rightarrow> 'w \<Rightarrow> (int \<times> u8 list \<times> 'w) option" where
  "read_into b dev_id bsz buf start w = do {
     (r, bs, w1) \<leftarrow> block_read b dev_id bsz start 1 w;
     buf' \<leftarrow> into buf bs;
     Some (r, buf', w1)
   }"

section \<open>Mounting\<close>

text \<open>
  On failure the code frees what the variables point to; those not set yet are uninitialised, so only a failure to read
  the table of block groups would have a defined result, but for \<open>desc\<close>, which is not set there either: every failure is
  \<open>None\<close>.  The messages written to the log divide by \<open>block size / inode_size\<close>.
\<close>

definition ext2_mount :: "'w bdev \<Rightarrow> fs_desc_t \<Rightarrow> int \<Rightarrow> int \<Rightarrow> 'w ext2_w \<Rightarrow> (int \<times> fs_desc_t \<times> 'w ext2_w) option" where
  "ext2_mount b fs major minor s = do {
     (dev_id, w1) \<leftarrow> b_open b major minor (dv s);
     if dev_id < 0 then None
     else do {
       (r, bs0, w2) \<leftarrow> b_read b dev_id 2 2 w1;
       bs \<leftarrow> into (replicate 1024 0) bs0;
       let sb = super_block_at bs;
       let sbe = super_block_ext_at (drop sizeof_super_block bs);
       let bsz = kb_size (block_size_kb sb);
       if r < 1 \<or> ext2_sig sb \<noteq> EXT2_SIGNATURE then None
       else if inode_size sbe = 0 \<or> bsz div ucast (inode_size sbe) = 0 \<or> inodes_per_group sb = 0 then None
       else do {
         let count = inode_total sb div inodes_per_group sb;
         n \<leftarrow> up2 (count * of_nat sizeof_block_group_desc) bsz;
         (r2, gs0, w3) \<leftarrow> block_read b dev_id bsz 2 (n div bsz) w2;
         gs \<leftarrow> into (replicate (unat n) 0) gs0;
         if r2 < 0 then None
         else do {
           let desc = \<lparr>super_block = sb, super_block_ext = sbe,
             block_groups = map (\<lambda>k. block_group_at (drop (k * sizeof_block_group_desc) gs)) [0..<unat count]\<rparr>;
           Some (0, fs\<lparr>fs_data := e_next s, fs_type := FS_EXT2, fs_dev_id := dev_id\<rparr>,
             s\<lparr>dv := w3, e_descs := (e_descs s)(e_next s \<mapsto> desc), e_next := e_next s + 1\<rparr>)
         }
       }
     }
   }"

definition ext2_unmount :: "'w bdev \<Rightarrow> fs_desc_t \<Rightarrow> 'w ext2_w \<Rightarrow> 'w ext2_w option" where
  "ext2_unmount b fs s =
     (let s1 = s\<lparr>e_descs := (e_descs s)(fs_data fs := None)\<rparr>
      in if fs_dev_id fs \<ge> 0 then do { w \<leftarrow> b_close b (fs_dev_id fs) (dv s1); Some (s1\<lparr>dv := w\<rparr>) } else Some s1)"

section \<open>Inodes and directories\<close>

definition inode_place :: "ext2_desc \<Rightarrow> u32 \<Rightarrow> (u32 \<times> nat) option" where
  "inode_place desc idx =
     (let i = idx - 1; ipg = inodes_per_group (super_block desc); bsz = ext2_block_size desc; isz = ucast (inode_size (super_block_ext desc))
      in if ipg = 0 \<or> bsz = 0 then None
         else do {
           g \<leftarrow> nth_opt (block_groups desc) (unat (i div ipg));
           Some ((i mod ipg) * isz div bsz + inode_table g, unat ((i mod ipg) * isz mod bsz))
         })"

definition rw_inode :: "'w bdev \<Rightarrow> int \<Rightarrow> ext2_desc \<Rightarrow> u32 \<Rightarrow> inode_t \<Rightarrow> bool \<Rightarrow> 'w \<Rightarrow> (int \<times> inode_t \<times> 'w) option" where
  "rw_inode b dev_id desc idx inode write w = do {
     (blk, off) \<leftarrow> inode_place desc idx;
     let bsz = ext2_block_size desc;
     (r, buf, w1) \<leftarrow> read_into b dev_id bsz (replicate (unat (max (ucast (inode_size (super_block_ext desc))) bsz)) 0) blk w;
     if r \<le> 0 then Some (-1, inode, w1)
     else if length buf < off + sizeof_inode then None
     else if write then do {
       let buf' = take off buf @ inode_bytes inode @ drop (off + sizeof_inode) buf;
       (r2, w2) \<leftarrow> block_write b dev_id bsz buf' blk 1 w1;
       Some (if r2 \<le> 0 then -1 else 0, inode, w2)
     }
     else Some (0, inode_at (take sizeof_inode (drop off buf)), w1)
   }"

text \<open>
  The entries of a directory block.  An entry of length 0 makes the loop run forever: a partial function.  (The code
  looks at the inode of the entry before it compares the offset, with the same outcome.)
\<close>

partial_function (option) find_entry :: "u8 list \<Rightarrow> u32 \<Rightarrow> u8 list \<Rightarrow> nat \<Rightarrow> u32 option option" where
  "find_entry buf bsz name off =
     (if \<not> off < unat bsz then Some None
      else if length buf < off + sizeof_dir_entry then None
      else if de_inode (dir_entry_at buf off) = 0 then Some None
      else if length name = unat (name_length (dir_entry_at buf off)) \<and> length buf < off + sizeof_dir_entry + length name then None
      else if length name = unat (name_length (dir_entry_at buf off)) \<and> dir_entry_name buf off = name
        then Some (Some (de_inode (dir_entry_at buf off)))
      else find_entry buf bsz name (off + unat (de_rec_len (dir_entry_at buf off))))"

fun sub_inode_loop :: "'w bdev \<Rightarrow> int \<Rightarrow> ext2_desc \<Rightarrow> u8 list \<Rightarrow> inode_t \<Rightarrow> u8 list \<Rightarrow> u32 list \<Rightarrow> 'w \<Rightarrow> (int \<times> inode_t \<times> 'w) option" where
  "sub_inode_loop b dev_id desc name inode entries [] w = Some (-1, inode, w)"
| "sub_inode_loop b dev_id desc name inode entries (a # as) w =
     (if a = 0 then Some (-1, inode, w)
      else do {
        (r, buf, w1) \<leftarrow> read_into b dev_id (ext2_block_size desc) entries a w;
        if r \<le> 0 then Some (-1, inode, w1)
        else do {
          e \<leftarrow> find_entry buf (ext2_block_size desc) name 0;
          case e of None \<Rightarrow> sub_inode_loop b dev_id desc name inode buf as w1
          | Some ino \<Rightarrow> do {
              (err, i', w2) \<leftarrow> rw_inode b dev_id desc ino inode False w1;
              Some (if err = 0 then sint ino else err, i', w2)
            }
        }
      })"

definition get_sub_inode :: "'w bdev \<Rightarrow> int \<Rightarrow> ext2_desc \<Rightarrow> inode_t \<Rightarrow> u8 list \<Rightarrow> inode_t \<Rightarrow> 'w \<Rightarrow> (int \<times> inode_t \<times> 'w) option" where
  "get_sub_inode b dev_id desc parent name inode w =
     sub_inode_loop b dev_id desc name inode (replicate (unat (ext2_block_size desc)) 0) (take DIRECT_BLOCK_COUNT (blocks parent)) w"

definition extract_file :: "file_t \<Rightarrow> inode_t \<Rightarrow> file_t" where
  "extract_file file inode = file\<lparr>f_type := (if type_permission inode AND 0x4000 \<noteq> 0 then FILE_DIR
       else if type_permission inode AND 0x8000 \<noteq> 0 then FILE_FILE else FILE_UNKNOWN),
     f_size := size0_31 inode, f_pos := 0\<rparr>"

text \<open>\<open>strcmp\<close> of \<open>string.c\<close> compares the common length only.\<close>

definition strcmp_eq :: "u8 list \<Rightarrow> u8 list \<Rightarrow> bool" where
  "strcmp_eq a b \<longleftrightarrow> take (min (length a) (length b)) a = take (min (length a) (length b)) b"

text \<open>\<open>memcpy\<close> of a name without its terminating zero over \<open>file->name\<close>, 64 bytes.\<close>

definition over_name :: "u8 list \<Rightarrow> u8 list \<Rightarrow> u8 list option" where
  "over_name new old = (if length new \<le> 64 then Some (new @ drop (length new) old) else None)"

text \<open>The walk along the path; the loop over \<open>strtok_r\<close> finds the \<open>tokens\<close> of the path.\<close>

fun walk_path :: "'w bdev \<Rightarrow> int \<Rightarrow> ext2_desc \<Rightarrow> u8 list list \<Rightarrow> inode_t \<Rightarrow> int \<Rightarrow> u8 list \<Rightarrow> 'w \<Rightarrow> (int \<times> inode_t \<times> int \<times> u8 list \<times> 'w) option" where
  "walk_path b dev_id desc [] inode idx fname w = Some (0, inode, idx, fname, w)"
| "walk_path b dev_id desc (s # ss) inode idx fname w = do {
     fname' \<leftarrow> over_name s fname;
     (i, tmp, w1) \<leftarrow> get_sub_inode b dev_id desc inode s inode w;
     if i < 0 then Some (i, inode, i, fname', w1)
     else walk_path b dev_id desc ss tmp i fname' w1
   }"

definition no_inode :: inode_t where
  "no_inode = inode_at (replicate 128 0)"

definition is_root_path :: "u8 list \<Rightarrow> bool" where
  "is_root_path path \<longleftrightarrow> length path = 0 \<or> strcmp_eq path [47] \<or> strcmp_eq path [47, 46] \<or> strcmp_eq path [47, 46, 46]"

definition ext2_open :: "'w bdev \<Rightarrow> fs_desc_t \<Rightarrow> u8 list \<Rightarrow> file_t \<Rightarrow> 'w ext2_w \<Rightarrow> (int \<times> file_t \<times> 'w ext2_w) option" where
  "ext2_open b fs path file s =
     (case e_descs s (fs_data fs) of None \<Rightarrow> Some (-1, file, s)
      | Some desc \<Rightarrow>
          if unat (inode_size (super_block_ext desc)) < sizeof_inode then None
          else do {
          (err, root, w1) \<leftarrow> rw_inode b (fs_dev_id fs) desc ROOT_INODE no_inode False (dv s);
          if err \<noteq> 0 then Some (err, file, s\<lparr>dv := w1\<rparr>)
          else do {
            (e, inode, idx, fname, w2) \<leftarrow>
              (if is_root_path path
               then do { fname \<leftarrow> over_name [47] (f_name file); Some (0, root, sint ROOT_INODE, fname, w1) }
               else walk_path b (fs_dev_id fs) desc (tokens {47} path) root (sint ROOT_INODE) (f_name file) w1);
            if e \<noteq> 0 then Some (e, file\<lparr>f_name := fname\<rparr>, s\<lparr>dv := w2\<rparr>)
            else do {
              let f1 = extract_file (file\<lparr>f_name := fname\<rparr>) inode;
              let fd = \<lparr>fd_inode = inode, inode_idx = of_int idx, first_indirect_blocks = None, second_indirect_idx = None,
                 second_indirect_blocks = (\<lambda>_. None), third_indirect_idx1 = None\<rparr>;
              let f2 = f1\<lparr>f_data := e_next s\<rparr>;
              Some (0, if f_mode f2 AND O_APPEND \<noteq> 0 then f2\<lparr>f_pos := f_size f2\<rparr> else f2,
                s\<lparr>dv := w2, e_files := (e_files s)(e_next s \<mapsto> fd), e_next := e_next s + 1\<rparr>)
            }
          }
        })"

section \<open>Reading\<close>

definition addrs_of :: "u8 list \<Rightarrow> u32 list" where
  "addrs_of buf = map (\<lambda>k. le32_at buf (4 * k)) [0..<length buf div 4]"

definition load_addrs :: "'w bdev \<Rightarrow> int \<Rightarrow> u32 \<Rightarrow> u32 \<Rightarrow> 'w \<Rightarrow> (u32 list \<times> 'w) option" where
  "load_addrs b dev_id bsz a w = do {
     (r, buf, w1) \<leftarrow> read_into b dev_id bsz (replicate (unat bsz) 0) a w;
     Some (addrs_of buf, w1)
   }"

text \<open>
  The address of block \<open>i\<close> of a file, one definition per level of indirection; \<open>j\<close> is \<open>indirect_idx\<close> in its course.
  A block of addresses is read once and kept.  \<open>third_indirect_blocks\<close> is set to NULL each time and not kept here.
\<close>

definition first_addr :: "'w bdev \<Rightarrow> int \<Rightarrow> u32 \<Rightarrow> u32 \<Rightarrow> file_data_t \<times> 'w \<times> u32 \<Rightarrow> (file_data_t \<times> 'w \<times> u32) option" where
  "first_addr b dev_id bsz j = (\<lambda>(fd, w, addr).
     let n = bsz div 4; a0 = blocks (fd_inode fd) ! 12
     in if sint j \<ge> 0 \<and> j < n \<and> a0 > 0 then do {
          (fd', w') \<leftarrow> (case first_indirect_blocks fd of Some _ \<Rightarrow> Some (fd, w)
             | None \<Rightarrow> do { (as, w') \<leftarrow> load_addrs b dev_id bsz a0 w; Some (fd\<lparr>first_indirect_blocks := Some as\<rparr>, w') });
          as \<leftarrow> first_indirect_blocks fd';
          addr' \<leftarrow> nth_opt as (unat j);
          Some (fd', w', addr')
        } else Some (fd, w, addr))"

definition second_addr :: "'w bdev \<Rightarrow> int \<Rightarrow> u32 \<Rightarrow> u32 \<Rightarrow> file_data_t \<times> 'w \<times> u32 \<Rightarrow> (file_data_t \<times> 'w \<times> u32) option" where
  "second_addr b dev_id bsz j = (\<lambda>(fd, w, addr).
     let n = bsz div 4; a1 = blocks (fd_inode fd) ! 13
     in if sint j \<ge> 0 \<and> j < n * n \<and> a1 > 0 then do {
          let k = unat (j div n);
          (fd', w') \<leftarrow> (case second_indirect_idx fd of Some _ \<Rightarrow> Some (fd, w)
             | None \<Rightarrow> do { (as, w') \<leftarrow> load_addrs b dev_id bsz a1 w; Some (fd\<lparr>second_indirect_idx := Some as\<rparr>, w') });
          idx \<leftarrow> second_indirect_idx fd';
          ak \<leftarrow> nth_opt idx k;
          (fd'', w'') \<leftarrow> (case second_indirect_blocks fd' k of Some _ \<Rightarrow> Some (fd', w')
             | None \<Rightarrow> do { (as, w'') \<leftarrow> load_addrs b dev_id bsz ak w';
                            Some (fd'\<lparr>second_indirect_blocks := (second_indirect_blocks fd')(k \<mapsto> as)\<rparr>, w'') });
          as \<leftarrow> second_indirect_blocks fd'' k;
          addr' \<leftarrow> nth_opt as (unat (j mod (n * n)));
          Some (fd'', w'', addr')
        } else Some (fd, w, addr))"

definition third_addr :: "'w bdev \<Rightarrow> int \<Rightarrow> u32 \<Rightarrow> u32 \<Rightarrow> file_data_t \<times> 'w \<times> u32 \<Rightarrow> (file_data_t \<times> 'w \<times> u32) option" where
  "third_addr b dev_id bsz j = (\<lambda>(fd, w, addr).
     let n = bsz div 4
     in if sint j \<ge> 0 \<and> j < n * n * n then
          (case third_indirect_idx1 fd of Some _ \<Rightarrow> Some (fd, w, addr)
           | None \<Rightarrow> do { (as, w') \<leftarrow> load_addrs b dev_id bsz (blocks (fd_inode fd) ! 14) w;
                          Some (fd\<lparr>third_indirect_idx1 := Some as\<rparr>, w', addr) })
        else Some (fd, w, addr))"

text \<open>The result \<open>None\<close> for the address is the \<open>return -1\<close> behind the last level.\<close>

definition block_addr_of :: "'w bdev \<Rightarrow> int \<Rightarrow> u32 \<Rightarrow> u32 \<Rightarrow> file_data_t \<Rightarrow> 'w \<Rightarrow> (file_data_t \<times> 'w \<times> u32 option) option" where
  "block_addr_of b dev_id bsz i fd w =
     (let n = bsz div 4; j1 = i - of_nat DIRECT_BLOCK_COUNT; j2 = j1 - n; j3 = j2 - n * n; j4 = j3 - n * n * n
      in if sint i < int DIRECT_BLOCK_COUNT then do { a \<leftarrow> nth_opt (blocks (fd_inode fd)) (unat i); Some (fd, w, Some a) }
         else if n = 0 then None
         else do {
           r1 \<leftarrow> first_addr b dev_id bsz j1 (fd, w, -1);
           r2 \<leftarrow> second_addr b dev_id bsz j2 r1;
           (fd', w', addr) \<leftarrow> third_addr b dev_id bsz j3 r2;
           Some (fd', w', if sint j4 \<ge> 0 then None else Some addr)
         })"

text \<open>
  The loop of \<open>ext2_read\<close>: the bytes delivered so far are \<open>out\<close>.  The test \<open>block_addr < 0\<close> on an unsigned value is never true.
\<close>

partial_function (option) ext2_read_loop ::
  "'w bdev \<Rightarrow> int \<Rightarrow> u32 \<Rightarrow> u32 \<Rightarrow> u32 \<Rightarrow> u32 \<Rightarrow> u8 list \<Rightarrow> u8 list \<Rightarrow> file_data_t \<Rightarrow> 'w \<Rightarrow> (int \<times> u8 list \<times> u32 \<times> file_data_t \<times> 'w) option" where
  "ext2_read_loop b dev_id bsz i pos sz rbuf out fd w =
     (if sz = 0 then Some (sint (of_nat (length out) :: u32), out, pos, fd, w)
      else Option.bind (block_addr_of b dev_id bsz i fd w) (\<lambda>(fd1, w1, ad).
        case ad of None \<Rightarrow> Some (-1, out, pos, fd1, w1)
        | Some a \<Rightarrow>
            if a = 0 then ext2_read_loop b dev_id bsz (i + 1) pos sz rbuf out fd1 w1
            else Option.bind (read_into b dev_id bsz rbuf a w1) (\<lambda>(r, rbuf', w2).
              if r \<le> 0 then Some (r, out, pos, fd1, w2)
              else let off = pos mod bsz; n = min sz (bsz - off)
                   in ext2_read_loop b dev_id bsz (i + 1) (pos + n) (sz - n) rbuf' (out @ take (unat n) (drop (unat off) rbuf')) fd1 w2)))"

definition ext2_read :: "'w bdev \<Rightarrow> fs_desc_t \<Rightarrow> file_t \<Rightarrow> nat \<Rightarrow> 'w ext2_w \<Rightarrow> (int \<times> u8 list \<times> file_t \<times> 'w ext2_w) option" where
  "ext2_read b fs file n s =
     (if f_type file \<noteq> FILE_FILE then Some (-1, [], file, s)
      else case (e_files s (f_data file), e_descs s (fs_data fs)) of
        (Some fd, Some desc) \<Rightarrow>
          let bsz = ext2_block_size desc; sz = min (of_nat n) (f_size file - f_pos file)
          in if sz = 0 then Some (0, [], file, s)
             else if bsz = 0 then None
             else do {
               (r, out, pos, fd', w) \<leftarrow> ext2_read_loop b (fs_dev_id fs) bsz (f_pos file div bsz) (f_pos file) sz (replicate (unat bsz) 0) [] fd (dv s);
               Some (r, out, file\<lparr>f_pos := pos\<rparr>, s\<lparr>dv := w, e_files := (e_files s)(f_data file \<mapsto> fd')\<rparr>)
             }
      | _ \<Rightarrow> Some (-1, [], file, s))"

section \<open>Writing\<close>

fun alloc_block_loop :: "nat \<Rightarrow> nat \<Rightarrow> bool \<Rightarrow> u32 \<Rightarrow> bitmap_t \<Rightarrow> u32 \<Rightarrow> u32 list \<Rightarrow> (u32 \<times> u32 list) option option" where
  "alloc_block_loop i 0 must start btm success bl = Some (Some (success, bl))"
| "alloc_block_loop i (Suc c) must start btm success bl = do {
     idx \<leftarrow> bitmap_scan btm 1;
     if idx \<ge> 0 then do {
       btm' \<leftarrow> bitmap_set btm (nat idx) 1;
       bl' \<leftarrow> upd_opt bl i (of_int idx + start);
       alloc_block_loop (i + 1) c must start btm' (success + 1) bl'
     }
     else if must then Some None
     else alloc_block_loop (i + 1) c must start btm success bl
   }"

definition alloc_block ::
  "'w bdev \<Rightarrow> int \<Rightarrow> ext2_desc \<Rightarrow> u32 \<Rightarrow> u32 list \<Rightarrow> bool \<Rightarrow> 'w \<Rightarrow> (u32 \<times> u32 list \<times> ext2_desc \<times> 'w) option" where
  "alloc_block b dev_id desc count bl must w = do {
     g \<leftarrow> nth_opt (block_groups desc) 0;
     if ucast (bg_unallocated_block_count g) < count then Some (0, bl, desc, w)
     else do {
       let bsz = ext2_block_size desc;
       (r, bm, w1) \<leftarrow> read_into b dev_id bsz (replicate (unat bsz) 0) (block_bitmap g) w;
       let ibpg = inodes_per_group (super_block desc) * ucast (inode_size (super_block_ext desc)) div bsz;
       let start = inode_table g + ibpg + 1;
       res \<leftarrow> alloc_block_loop 0 (unat count) must start \<lparr>bytes_len = unat bsz, bits = bm\<rparr> 0 bl;
       case res of None \<Rightarrow> Some (0, bl, desc, w1)
       | Some (success, bl') \<Rightarrow>
           Some (success, bl',
             desc\<lparr>block_groups := (block_groups desc)[0 := g\<lparr>bg_unallocated_block_count := bg_unallocated_block_count g - ucast success\<rparr>],
               super_block := (super_block desc)\<lparr>sb_unallocated_block_count := sb_unallocated_block_count (super_block desc) - success\<rparr>\<rparr>, w1)
     }
   }"

fun store_blocks :: "nat \<Rightarrow> u32 list \<Rightarrow> u32 list \<Rightarrow> u32 list option" where
  "store_blocks k [] bl = Some bl"
| "store_blocks k (a # as) bl = do { bl' \<leftarrow> upd_opt bl k a; store_blocks (k + 1) as bl' }"

text \<open>The blocks a write needs beyond the end of the file.\<close>

definition grow_file :: "'w bdev \<Rightarrow> int \<Rightarrow> ext2_desc \<Rightarrow> file_t \<Rightarrow> u32 \<Rightarrow> inode_t \<Rightarrow> 'w \<Rightarrow> (inode_t \<times> ext2_desc \<times> 'w) option" where
  "grow_file b dev_id desc file sz inode w = do {
     let bsz = ext2_block_size desc;
     cap \<leftarrow> up2 (f_size file) bsz;
     let need = f_pos file + sz - cap;
     if sint need > 0 then do {
       al \<leftarrow> up2 need bsz;
       let count = al div bsz;
       (got, bl, desc', w1) \<leftarrow> alloc_block b dev_id desc count (replicate (unat count) 0) True w;
       if got = count then do {
         bl' \<leftarrow> store_blocks (unat (cap div bsz + 1)) bl (blocks inode);
         Some (inode\<lparr>blocks := bl'\<rparr>, desc', w1)
       }
       else Some (inode, desc', w1)
     }
     else Some (inode, desc, w)
   }"

text \<open>One round of the writing loop; the results of \<open>block_read\<close> and \<open>block_write\<close> are not looked at.\<close>

definition chunk_size :: "u32 \<Rightarrow> u32 \<Rightarrow> u32 \<Rightarrow> u32" where
  "chunk_size bsz pos sz = min (bsz - pos mod bsz) sz"

definition write_chunk :: "'w bdev \<Rightarrow> int \<Rightarrow> u32 \<Rightarrow> u8 list \<Rightarrow> file_t \<Rightarrow> u8 list \<Rightarrow> u32 \<Rightarrow> inode_t \<Rightarrow> 'w \<Rightarrow> (file_t \<times> u8 list \<times> inode_t \<times> 'w) option" where
  "write_chunk b dev_id bsz buffer file buf sz inode w = do {
     let off = unat (f_pos file mod bsz);
     let n = chunk_size bsz (f_pos file) sz;
     a \<leftarrow> nth_opt (blocks inode) (unat (f_pos file div bsz));
     (r, buffer1, w1) \<leftarrow> read_into b dev_id bsz buffer a w;
     if length buf < unat n then None
     else do {
       let buffer2 = take off buffer1 @ take (unat n) buf @ drop (off + unat n) buffer1;
       (r2, w2) \<leftarrow> block_write b dev_id bsz buffer2 a 1 w1;
       let pos = f_pos file + n;
       let file' = file\<lparr>f_pos := pos, f_size := max (f_size file) pos\<rparr>;
       Some (file', buffer2, inode\<lparr>size0_31 := f_size file'\<rparr>, w2)
     }
   }"

lemma chunk_size_pos: "bsz \<noteq> 0 \<Longrightarrow> sz \<noteq> 0 \<Longrightarrow> 0 < chunk_size bsz pos sz"
proof -
  assume "bsz \<noteq> 0" "sz \<noteq> 0"
  then have "0 < bsz" "0 < sz" by (simp_all add: word_neq_0_conv)
  moreover from \<open>0 < bsz\<close> have "pos mod bsz < bsz" by (simp add: word_less_nat_alt unat_mod)
  then have "bsz - pos mod bsz \<noteq> 0" by auto
  then have "0 < bsz - pos mod bsz" by (simp only: word_neq_0_conv)
  ultimately show ?thesis by (simp add: chunk_size_def min_def)
qed

lemma chunk_size_le: "chunk_size bsz pos sz \<le> sz"
  by (simp add: chunk_size_def)

function write_loop :: "'w bdev \<Rightarrow> int \<Rightarrow> u32 \<Rightarrow> u8 list \<Rightarrow> file_t \<Rightarrow> u8 list \<Rightarrow> u32 \<Rightarrow> inode_t \<Rightarrow> 'w \<Rightarrow> (file_t \<times> inode_t \<times> 'w) option" where
  "write_loop b dev_id bsz buffer file buf sz inode w =
     (if sz = 0 then Some (file, inode, w)
      else if bsz = 0 then None
      else do {
        let n = chunk_size bsz (f_pos file) sz;
        (file', buffer', inode', w') \<leftarrow> write_chunk b dev_id bsz buffer file buf sz inode w;
        write_loop b dev_id bsz buffer' file' (drop (unat n) buf) (sz - n) inode' w'
      })"
  by pat_completeness auto
termination
proof (relation "measure (\<lambda>(b, dev_id, bsz, buffer, file, buf, sz, inode, w). unat sz)", goal_cases)
  case (2 b dev_id bsz buffer fl buf sz inode w n p fl' q buffer' r inode' w')
  then have "unat (chunk_size bsz (f_pos fl) sz) > 0" "unat (chunk_size bsz (f_pos fl) sz) \<le> unat sz"
    using chunk_size_pos[of bsz sz "f_pos fl"] chunk_size_le[of bsz "f_pos fl" sz] by (simp_all add: word_less_nat_alt word_le_nat_alt)
  then show ?case using 2 by (simp add: unat_sub word_le_nat_alt)
qed simp

definition ext2_write :: "'w bdev \<Rightarrow> fs_desc_t \<Rightarrow> file_t \<Rightarrow> u8 list \<Rightarrow> 'w ext2_w \<Rightarrow> (int \<times> file_t \<times> 'w ext2_w) option" where
  "ext2_write b fs file buf s =
     (if f_mode file AND O_RDONLY \<noteq> 0 then Some (-1, file, s)
      else case (e_files s (f_data file), e_descs s (fs_data fs)) of
        (Some fd, Some desc) \<Rightarrow> do {
          let bsz = ext2_block_size desc;
          let sz = of_nat (length buf);
          (inode1, desc', w1) \<leftarrow> grow_file b (fs_dev_id fs) desc file sz (fd_inode fd) (dv s);
          let buffer = replicate (unat bsz) 0;
          (file2, buffer2, buf2, sz2, inode2, w2) \<leftarrow>
            (if f_pos file mod bsz \<noteq> 0
             then do { (f, bf, i, w) \<leftarrow> write_chunk b (fs_dev_id fs) bsz buffer file buf sz inode1 w1;
                       let n = chunk_size bsz (f_pos file) sz;
                       Some (f, bf, drop (unat n) buf, sz - n, i, w) }
             else Some (file, buffer, buf, sz, inode1, w1));
          (file3, inode3, w3) \<leftarrow> write_loop b (fs_dev_id fs) bsz buffer2 file2 buf2 sz2 inode2 w2;
          (err, _, w4) \<leftarrow> rw_inode b (fs_dev_id fs) desc' (inode_idx fd) inode3 True w3;
          Some (if err \<noteq> 0 then err else sint sz, file3,
            s\<lparr>dv := w4, e_files := (e_files s)(f_data file \<mapsto> fd\<lparr>fd_inode := inode3\<rparr>), e_descs := (e_descs s)(fs_data fs \<mapsto> desc')\<rparr>)
        }
      | _ \<Rightarrow> Some (-1, file, s))"

section \<open>Position, status and directories\<close>

definition EINVAL :: int where "EINVAL = -3"
definition EOVERFLOW :: int where "EOVERFLOW = -4"
definition SEEK_SET :: int where "SEEK_SET = 0"
definition SEEK_CUR :: int where "SEEK_CUR = 1"
definition SEEK_END :: int where "SEEK_END = 2"

text \<open>\<open>1 << sizeof(file->pos)\<close> is 16; \<open>SEEK_END\<close> falls through to the default.\<close>

definition ext2_seek :: "fs_desc_t \<Rightarrow> file_t \<Rightarrow> int \<Rightarrow> int \<Rightarrow> 'w ext2_w \<Rightarrow> (int \<times> file_t \<times> 'w ext2_w) option" where
  "ext2_seek fs file offset whence s =
     (if whence = SEEK_SET then
        let p = of_int (max offset 0) in Some (sint (p - f_pos file), file\<lparr>f_pos := p\<rparr>, s)
      else if whence = SEEK_CUR then
        let p = f_pos file + of_int offset
        in if p \<ge> 16 then Some (EOVERFLOW, file, s) else Some (sint (p - f_pos file), file\<lparr>f_pos := p\<rparr>, s)
      else if whence = SEEK_END then Some (EINVAL, file\<lparr>f_pos := f_size file + of_int offset\<rparr>, s)
      else Some (EINVAL, file, s))"

definition ext2_stat :: "fs_desc_t \<Rightarrow> file_t \<Rightarrow> stat_t \<Rightarrow> 'w ext2_w \<Rightarrow> (int \<times> stat_t \<times> file_t \<times> 'w ext2_w) option" where
  "ext2_stat fs file st s =
     (case e_files s (f_data file) of None \<Rightarrow> Some (-1, st, file, s)
      | Some fd \<Rightarrow> do {
          desc \<leftarrow> e_descs s (fs_data fs);
          let inode = fd_inode fd;
          Some (0, \<lparr>st_dev_id = fs_dev_id fs, st_size = f_size file, st_block_size = ext2_block_size desc,
            st_block_count = of_nat (length (filter (\<lambda>a. a > 0) (take DIRECT_BLOCK_COUNT (blocks inode)))),
            st_create_time = ucast (create_time inode), st_update_time = ucast (last_write_time inode)\<rparr>, file, s)
        })"

text \<open>The entry with number \<open>offset\<close> of one block, counted from the start of the block.\<close>

fun skip_entries :: "u8 list \<Rightarrow> u32 \<Rightarrow> nat \<Rightarrow> u32 \<Rightarrow> (nat \<times> u32) option" where
  "skip_entries buf bsz 0 off = Some (0, off)"
| "skip_entries buf bsz (Suc k) off =
     (if length buf < unat off + sizeof_dir_entry then None
      else let l = ucast (de_rec_len (dir_entry_at buf (unat off)))
           in if off + l < bsz then skip_entries buf bsz k (off + l) else Some (Suc k, off))"

fun readdir_loop :: "'w bdev \<Rightarrow> int \<Rightarrow> ext2_desc \<Rightarrow> u8 list \<Rightarrow> u32 list \<Rightarrow> dirent_t \<Rightarrow> 'w \<Rightarrow> (int \<times> dirent_t \<times> 'w) option" where
  "readdir_loop b dev_id desc entries [] d w = Some (-1, d, w)"
| "readdir_loop b dev_id desc entries (a # as) d w =
     (if a = 0 then Some (-1, d, w)
      else do {
        (r, buf, w1) \<leftarrow> read_into b dev_id (ext2_block_size desc) entries a w;
        if r \<le> 0 then Some (-1, d, w1)
        else do {
          (left, off) \<leftarrow> skip_entries buf (ext2_block_size desc) (nat (de_offset d)) 0;
          if left = 0 \<and> de_offset d \<ge> 0 then
            if length buf < unat off + sizeof_dir_entry + min 64 (unat (name_length (dir_entry_at buf (unat off)))) then None
            else do {
              let e = dir_entry_at buf (unat off);
              let nm = take 64 (dir_entry_name buf (unat off));
              (_, child, w2) \<leftarrow> rw_inode b dev_id desc (de_inode e) no_inode False w1;
              Some (0, d\<lparr>de_offset := de_offset d + 1, de_type := get_file_type (de_ftype e),
                de_name := nm @ replicate (64 - length nm) 0, de_size := size0_31 child\<rparr>, w2)
            }
          else readdir_loop b dev_id desc buf as d w1
        }
      })"

definition ext2_readdir :: "'w bdev \<Rightarrow> fs_desc_t \<Rightarrow> file_t \<Rightarrow> dirent_t \<Rightarrow> 'w ext2_w \<Rightarrow> (int \<times> dirent_t \<times> file_t \<times> 'w ext2_w) option" where
  "ext2_readdir b fs dir d s =
     (if f_type dir \<noteq> FILE_DIR then Some (-1, d, dir, s)
      else case (e_files s (f_data dir), e_descs s (fs_data fs)) of
        (Some fd, Some desc) \<Rightarrow> do {
          (r, d', w) \<leftarrow> readdir_loop b (fs_dev_id fs) desc (replicate (unat (ext2_block_size desc)) 0) (take DIRECT_BLOCK_COUNT (blocks (fd_inode fd))) d (dv s);
          Some (r, d', dir, s\<lparr>dv := w\<rparr>)
        }
      | _ \<Rightarrow> Some (-1, d, dir, s))"

definition ext2_close :: "fs_desc_t \<Rightarrow> file_t \<Rightarrow> 'w ext2_w \<Rightarrow> (file_t \<times> 'w ext2_w) option" where
  "ext2_close fs file s = Some (file, s)"

text \<open>
  The functions with an empty body return nothing where an \<open>error\<close> is expected: their result is undefined.
\<close>

definition ext2_ops :: "'w bdev \<Rightarrow> 'w ext2_w fs_ops_t" where
  "ext2_ops b = \<lparr>op_mount = ext2_mount b, op_open = ext2_open b, op_ioctl = (\<lambda>_ _ _ _ _ _. None), op_read = ext2_read b,
     op_write = ext2_write b, op_close = ext2_close, op_seek = ext2_seek, op_stat = ext2_stat, op_remove = (\<lambda>_ _ _. None),
     op_readdir = ext2_readdir b, op_mkdir = (\<lambda>_ _ _ _. None), op_link = (\<lambda>_ _ _ _ _. None), op_unlink = (\<lambda>_ _ _. None)\<rparr>"

end
