(* ===== verification/Disk_Proofs.thy ===== *)
theory Disk_Proofs
  imports Disk
begin

text \<open>
  Correctness of the disk driver.  \<open>ata\<close> is a reference controller in PIO mode after the ATA standard: registers that hold
  the last two values written (48-bit addresses), a busy phase in which the data register does not answer, sectors
  of 256 words.  The locale \<open>ata_hw\<close> states that the ports behave like it; inside, the driver is shown to read and write
  exactly the sectors asked for, one or two at a time.
\<close>

section \<open>The controller\<close>

datatype ata_mode = Ready | Reading nat nat nat | Writing nat nat "u16 list" | Aborted

record ata =
  a_count :: "u8 \<times> u8"
  a_low :: "u8 \<times> u8"
  a_mid :: "u8 \<times> u8"
  a_high :: "u8 \<times> u8"
  a_drive :: nat
  a_mode :: ata_mode
  a_busy :: nat
  a_lat :: nat
  a_wlat :: nat
  a_cap :: "nat \<Rightarrow> nat"
  a_media :: "nat \<Rightarrow> nat \<Rightarrow> u16 list"

definition ata_lba :: "ata \<Rightarrow> nat" where
  "ata_lba a = unat (snd (a_low a)) + 2 ^ 8 * unat (snd (a_mid a)) + 2 ^ 16 * unat (snd (a_high a)) +
     2 ^ 24 * unat (fst (a_low a)) + 2 ^ 32 * unat (fst (a_mid a)) + 2 ^ 40 * unat (fst (a_high a))"

definition ata_cnt :: "ata \<Rightarrow> nat" where
  "ata_cnt a = (let n = unat (snd (a_count a)) + 2 ^ 8 * unat (fst (a_count a)) in if n = 0 then 2 ^ 16 else n)"

definition ata_exec :: "u8 \<Rightarrow> ata \<Rightarrow> ata" where
  "ata_exec c a =
     (if ata_lba a + ata_cnt a \<le> a_cap a (a_drive a) then
        if c = 0x24 then a\<lparr>a_mode := Reading (ata_lba a) (ata_cnt a) 0, a_busy := a_lat a\<rparr>
        else if c = 0x34 then a\<lparr>a_mode := Writing (ata_lba a) (ata_cnt a) [], a_busy := a_wlat a\<rparr>
        else a\<lparr>a_mode := Aborted\<rparr>
      else a\<lparr>a_mode := Aborted\<rparr>)"

definition ata_outb :: "u32 \<Rightarrow> u8 \<Rightarrow> ata \<Rightarrow> ata" where
  "ata_outb r v a =
     (if r = 2 then a\<lparr>a_count := (snd (a_count a), v)\<rparr>
      else if r = 3 then a\<lparr>a_low := (snd (a_low a), v)\<rparr>
      else if r = 4 then a\<lparr>a_mid := (snd (a_mid a), v)\<rparr>
      else if r = 5 then a\<lparr>a_high := (snd (a_high a), v)\<rparr>
      else if r = 6 then a\<lparr>a_drive := (if bit v 4 then 1 else 0)\<rparr>
      else if r = 7 then ata_exec v a
      else a)"

definition ata_inb :: "u32 \<Rightarrow> ata \<Rightarrow> u8 \<times> ata" where
  "ata_inb r a =
     (if r = 7 then
        if a_busy a > 0 then (0x80, a\<lparr>a_busy := a_busy a - 1\<rparr>)
        else ((case a_mode a of Ready \<Rightarrow> 0x50 | Reading _ _ _ \<Rightarrow> 0x58 | Writing _ _ _ \<Rightarrow> 0x58 | Aborted \<Rightarrow> 0x51), a)
      else (0, a))"

definition ata_inw :: "u32 \<Rightarrow> ata \<Rightarrow> u16 \<times> ata" where
  "ata_inw r a =
     (case a_mode a of
        Reading lba left k \<Rightarrow>
          if r = 0 \<and> a_busy a = 0 then
            (a_media a (a_drive a) lba ! k,
             if k + 1 < 256 then a\<lparr>a_mode := Reading lba left (k + 1)\<rparr>
             else if left \<le> 1 then a\<lparr>a_mode := Ready\<rparr>
             else a\<lparr>a_mode := Reading (lba + 1) (left - 1) 0, a_busy := a_lat a\<rparr>)
          else (0, a)
      | _ \<Rightarrow> (0, a))"

definition ata_outw :: "u32 \<Rightarrow> u16 \<Rightarrow> ata \<Rightarrow> ata" where
  "ata_outw r v a =
     (case a_mode a of
        Writing lba left ws \<Rightarrow>
          if r = 0 \<and> a_busy a = 0 then
            if length ws + 1 < 256 then a\<lparr>a_mode := Writing lba left (ws @ [v])\<rparr>
            else a\<lparr>a_media := (a_media a)(a_drive a := (a_media a (a_drive a))(lba := ws @ [v])),
                   a_mode := (if left \<le> 1 then Ready else Writing (lba + 1) (left - 1) []), a_busy := a_lat a\<rparr>
          else a
      | _ \<Rightarrow> a)"

definition ata_ports :: "ata ports" where
  "ata_ports = \<lparr>p_inb = (\<lambda>p. ata_inb (p - PRIMARY_PORT_BASE)), p_inw = (\<lambda>p. ata_inw (p - PRIMARY_PORT_BASE)),
     p_outb = (\<lambda>p. ata_outb (p - PRIMARY_PORT_BASE)), p_outw = (\<lambda>p. ata_outw (p - PRIMARY_PORT_BASE)), p_wait = Some\<rparr>"

section \<open>Bytes\<close>

lemma u8_bit_ge [simp]: "\<not> bit (x :: u8) (8 + n)"
  by (auto dest: bit_imp_le_length)

lemma le16_bytes_at [simp]: "le16_bytes (le16_at bs i) = [bs ! i, bs ! (i + 1)]"
  unfolding le16_bytes_def le16_at_def
  by (auto intro!: bit_word_eqI simp: bit_simps)

lemma length_le16_bytes [simp]: "length (le16_bytes w) = 2"
  by (simp add: le16_bytes_def)

lemma le16_at_bytes: "le16_at (le16_bytes w) 0 = w"
  unfolding le16_bytes_def le16_at_def
  by (rule bit_word_eqI) (auto simp: bit_simps)

definition words_of :: "u8 list \<Rightarrow> nat \<Rightarrow> u16 list" where
  "words_of bs n = map (\<lambda>i. le16_at bs (2 * i)) [0..<n]"

definition bytes_of :: "u16 list \<Rightarrow> u8 list" where
  "bytes_of ws = concat (map le16_bytes ws)"

lemma length_bytes_of_words [simp]: "length (bytes_of ws) = 2 * length ws"
  by (induct ws) (simp_all add: bytes_of_def)

lemma bytes_of_words: "2 * n \<le> length bs \<Longrightarrow> bytes_of (words_of bs n) = take (2 * n) bs"
proof (induct n)
  case (Suc n)
  then have "bytes_of (words_of bs (Suc n)) = take (2 * n) bs @ [bs ! (2 * n), bs ! (2 * n + 1)]"
    by (simp add: words_of_def bytes_of_def)
  also have "\<dots> = take (2 * Suc n) bs"
    using Suc.prems by (simp add: take_Suc_conv_app_nth)
  finally show ?case .
qed (simp add: words_of_def bytes_of_def)

definition sectors :: "(nat \<Rightarrow> u16 list) \<Rightarrow> nat \<Rightarrow> nat \<Rightarrow> u8 list" where
  "sectors M lba n = concat (map (\<lambda>i. bytes_of (M (lba + i))) [0..<n])"

lemma sectors_simps [simp]:
  "sectors M lba 0 = []" "sectors M lba (Suc 0) = bytes_of (M lba)"
  "sectors M lba (Suc n) = bytes_of (M lba) @ sectors M (lba + 1) n"
  by (simp_all add: sectors_def upt_conv_Cons map_Suc_upt[symmetric] comp_def del: upt_Suc)

lemma unat_byte_of: "unat (ucast (drop_bit k (s :: u32)) :: u8) = unat s div 2 ^ k mod 256"
  using unsigned_less[of s, where ?'a = nat]
  by (simp add: unsigned_ucast_eq take_bit_eq_mod unsigned_drop_bit_eq) (simp add: drop_bit_eq_div)

lemma nat_of_bytes: "n < 2 ^ 32 \<Longrightarrow> n mod 256 + 256 * (n div 256 mod 256) + 65536 * (n div 65536 mod 256) + 16777216 * (n div 16777216 mod 256) = (n :: nat)"
proof -
  assume "n < 2 ^ 32"
  then have "n div 16777216 mod 256 = n div 16777216" by (simp add: less_mult_imp_div_less)
  moreover have "n div 65536 mod 256 + 256 * (n div 16777216) = n div 65536" using mod_mult_div_eq[of "n div 65536" 256] by (simp flip: div_mult2_eq)
  moreover have "n div 256 mod 256 + 256 * (n div 65536) = n div 256" using mod_mult_div_eq[of "n div 256" 256] by (simp flip: div_mult2_eq)
  moreover have "n mod 256 + 256 * (n div 256) = n" by simp
  ultimately show ?thesis by linarith
qed

section \<open>The driver on such a controller\<close>

definition clean :: "ata \<Rightarrow> bool" where
  "clean a \<longleftrightarrow> a_mode a = Ready \<and> a_wlat a = 0 \<and> (\<forall>d i. length (a_media a d i) = 256)"

text \<open>A partition that can be used: its disk is on this controller with sectors of 512 bytes, and the controller is idle.\<close>

definition part_ready_of :: "u32 \<Rightarrow> ('h \<Rightarrow> ata) \<Rightarrow> int \<Rightarrow> nat \<Rightarrow> part_info_t \<Rightarrow> 'h disk_w \<Rightarrow> bool" where
  "part_ready_of base ctl minor dr p w \<longleftrightarrow> (\<exists>di pi dk d. minor_part minor w = Some (di, pi, p) \<and> pt_disk p = Some dk \<and> nth_opt (disks w) dk = Some d \<and>
     port_base d = base \<and> drive d = of_nat dr \<and> dr < 2 \<and> sector_size d = 512) \<and> clean (ctl (phw w))"

definition put_sectors :: "(nat \<Rightarrow> u16 list) \<Rightarrow> nat \<Rightarrow> nat \<Rightarrow> u8 list \<Rightarrow> nat \<Rightarrow> u16 list" where
  "put_sectors M lba n buf = (\<lambda>i. if lba \<le> i \<and> i < lba + n then words_of (drop (512 * (i - lba)) buf) 256 else M i)"

definition after_sector :: "ata \<Rightarrow> ata" where
  "after_sector a = (case a_mode a of
      Reading lba left k \<Rightarrow> if left \<le> 1 then a\<lparr>a_mode := Ready\<rparr> else a\<lparr>a_mode := Reading (lba + 1) (left - 1) 0, a_busy := a_lat a\<rparr>
    | _ \<Rightarrow> a)"

locale ata_hw =
  fixes P :: "'h ports" and base :: u32 and ctl :: "'h \<Rightarrow> ata"
  assumes inb_ctl: "apsnd ctl (p_inb P (base + r) h) = ata_inb r (ctl h)"
    and inw_ctl: "apsnd ctl (p_inw P (base + r) h) = ata_inw r (ctl h)"
    and outb_ctl: "ctl (p_outb P (base + r) v h) = ata_outb r v (ctl h)"
    and outw_ctl: "ctl (p_outw P (base + r) u h) = ata_outw r u (ctl h)"
    and wait_ctl: "\<exists>h' n. p_wait P h = Some h' \<and> ctl h' = (ctl h)\<lparr>a_busy := n\<rparr>"
begin

lemma inbE:
  obtains h' where "p_inb P (base + r) h = (fst (ata_inb r (ctl h)), h')" "ctl h' = snd (ata_inb r (ctl h))"
  using inb_ctl[of r h] by (cases "p_inb P (base + r) h") (simp add: prod_eq_iff)

lemma inwE:
  obtains h' where "p_inw P (base + r) h = (fst (ata_inw r (ctl h)), h')" "ctl h' = snd (ata_inw r (ctl h))"
  using inw_ctl[of r h] by (cases "p_inw P (base + r) h") (simp add: prod_eq_iff)

lemma wait_ok:
  assumes "port_base d = base" "a_mode (ctl h) \<noteq> Aborted"
  shows "\<exists>h'. ata_wait P d h = Some (0, h') \<and> ctl h' = (ctl h)\<lparr>a_busy := 0\<rparr>"
  using assms(2)
proof (induct "a_busy (ctl h)" arbitrary: h)
  case 0
  obtain h' where h': "p_inb P (base + 7) h = (fst (ata_inb 7 (ctl h)), h')" "ctl h' = snd (ata_inb 7 (ctl h))" by (rule inbE)
  have s: "fst (ata_inb 7 (ctl h)) = 0x50 \<or> fst (ata_inb 7 (ctl h)) = 0x58" "snd (ata_inb 7 (ctl h)) = ctl h"
    using 0 by (auto simp: ata_inb_def split: ata_mode.splits)
  have "ata_wait P d h = Some (0, h')"
    using s(1) h'(1) assms(1)
    by (subst ata_wait.simps) (auto simp: disk_port_def PORT_STATUS_COMMAND_def disk_status_def STATUS_ERR_def STATUS_DRQ_def STATUS_BSY_def)
  then show ?case using h'(2) s(2) 0 by (auto intro!: exI[of _ h'])
next
  case (Suc n)
  obtain h' where h': "p_inb P (base + 7) h = (fst (ata_inb 7 (ctl h)), h')" "ctl h' = snd (ata_inb 7 (ctl h))" by (rule inbE)
  have s: "ata_inb 7 (ctl h) = (0x80, (ctl h)\<lparr>a_busy := n\<rparr>)"
    using Suc(2) by (simp add: ata_inb_def flip: Suc(2))
  have "ata_wait P d h = ata_wait P d h'"
    using s h'(1) assms(1)
    by (subst ata_wait.simps) (auto simp: disk_port_def PORT_STATUS_COMMAND_def disk_status_def STATUS_ERR_def STATUS_DRQ_def STATUS_BSY_def)
  moreover have "\<exists>h''. ata_wait P d h' = Some (0, h'') \<and> ctl h'' = (ctl h')\<lparr>a_busy := 0\<rparr>"
    using Suc(1)[of h'] h'(2) s Suc(3) by simp
  ultimately show ?case using h'(2) s by auto
qed

lemma turn_ok:
  assumes "port_base d = base" "a_mode (ctl h) \<noteq> Aborted"
  shows "\<exists>h1 h'. p_wait P h = Some h1 \<and> ata_wait P d h1 = Some (0, h') \<and> ctl h' = (ctl h)\<lparr>a_busy := 0\<rparr>"
proof -
  obtain h1 n where h1: "p_wait P h = Some h1" "ctl h1 = (ctl h)\<lparr>a_busy := n\<rparr>" using wait_ctl by blast
  obtain h' where "ata_wait P d h1 = Some (0, h')" "ctl h' = (ctl h1)\<lparr>a_busy := 0\<rparr>"
    using wait_ok[OF assms(1), of h1] assms(2) h1(2) by auto
  then show ?thesis using h1 by auto
qed

text \<open>The registers after a command hold the address and the count.\<close>

lemma cmd_ctl:
  assumes "port_base d = base"
  shows "ctl (ata_cmd P d s c cmd h) = ata_exec cmd ((ctl h)\<lparr>
     a_drive := (if bit (ucast (disk_drive d OR (drop_bit 24 s AND 0x0f)) :: u8) 4 then 1 else 0),
     a_count := (ucast (drop_bit 8 c), ucast c), a_low := (ucast (drop_bit 24 s), ucast s), a_mid := (0, ucast (drop_bit 8 s)),
     a_high := (0, ucast (drop_bit 16 s))\<rparr>)"
  unfolding ata_cmd_def Let_def disk_port_def assms outb_ctl
  by (simp add: ata_outb_def PORT_DRIVE_def PORT_SECTOR_COUNT_def PORT_SECTOR_LOW_def PORT_SECTOR_MIDDLE_def PORT_SECTOR_HIGH_def PORT_STATUS_COMMAND_def)

lemma cmd_exec:
  assumes d: "port_base d = base" "drive d = of_nat dr" "dr < 2" and c: "0 < n" "n < 2 ^ 16"
  obtains a where "ctl (ata_cmd P d s (of_nat n) cmd h) = ata_exec cmd a" "ata_lba a = unat s" "ata_cnt a = n" "a_drive a = dr"
    "a_media a = a_media (ctl h)" "a_cap a = a_cap (ctl h)" "a_lat a = a_lat (ctl h)" "a_wlat a = a_wlat (ctl h)"
proof -
  have dr: "bit (ucast (disk_drive d OR (drop_bit 24 s AND 0x0f)) :: u8) 4 \<longleftrightarrow> dr = 1"
    using d(2,3) by (cases dr) (auto simp: disk_drive_def bit_simps less_Suc_eq numeral_2_eq_2)
  define a where "a = (ctl h)\<lparr>
     a_drive := dr, a_count := (ucast (drop_bit 8 (of_nat n :: u32)), ucast (of_nat n :: u32)), a_low := (ucast (drop_bit 24 s), ucast s), a_mid := (0, ucast (drop_bit 8 s)),
     a_high := (0, ucast (drop_bit 16 s))\<rparr>"
  have lba: "ata_lba a = unat s"
    using nat_of_bytes[of "unat s"] unsigned_less[of s, where ?'a = nat] unat_byte_of[of 0 s]
    by (simp add: ata_lba_def a_def unat_byte_of)
  have n32: "unat (of_nat n :: u32) = n" using c by (simp add: unat_of_nat_small)
  have cnt: "ata_cnt a = n"
  proof -
    have "n mod 256 + 256 * (n div 256 mod 256) = n" using c(2) by (simp add: less_mult_imp_div_less)
    then show ?thesis
      using c unat_byte_of[of 0 "of_nat n"] by (simp add: ata_cnt_def a_def unat_byte_of n32)
  qed
  have "ctl (ata_cmd P d s (of_nat n) cmd h) = ata_exec cmd a"
    using d(3) by (auto simp: cmd_ctl[OF d(1)] dr a_def less_Suc_eq numeral_2_eq_2)
  then show thesis using lba cnt by (rule that) (simp_all add: a_def)
qed

text \<open>One sector through the data register.\<close>

lemma read_words:
  assumes "port_base d = base" "a_busy (ctl h) = 0" "a_mode (ctl h) = Reading lba left k" "k + m < 256"
  shows "\<exists>h'. ata_read_loop P d m h = (bytes_of (map (\<lambda>i. a_media (ctl h) (a_drive (ctl h)) lba ! (k + i)) [0..<m]), h')
    \<and> ctl h' = (ctl h)\<lparr>a_mode := Reading lba left (k + m)\<rparr>"
  using assms(2,3,4)
proof (induct m arbitrary: h k)
  case (Suc m)
  obtain h1 where h1: "p_inw P (base + 0) h = (fst (ata_inw 0 (ctl h)), h1)" "ctl h1 = snd (ata_inw 0 (ctl h))" by (rule inwE)
  have e: "ata_inw 0 (ctl h) = (a_media (ctl h) (a_drive (ctl h)) lba ! k, (ctl h)\<lparr>a_mode := Reading lba left (k + 1)\<rparr>)"
    using Suc.prems by (simp add: ata_inw_def)
  obtain h' where h': "ata_read_loop P d m h1 = (bytes_of (map (\<lambda>i. a_media (ctl h1) (a_drive (ctl h1)) lba ! (k + 1 + i)) [0..<m]), h')"
    "ctl h' = (ctl h1)\<lparr>a_mode := Reading lba left (k + 1 + m)\<rparr>"
    using Suc.hyps[of h1 "k + 1"] Suc.prems h1(2) e by auto
  have "[0..<Suc m] = 0 # map Suc [0..<m]" by (simp add: upt_conv_Cons map_Suc_upt del: upt_Suc)
  then show ?case
    using h1 h' e assms(1) by (simp add: disk_port_def PORT_DATA_def bytes_of_def comp_def del: upt_Suc)
qed (simp add: bytes_of_def)

lemma ata_read_loop_add:
  "ata_read_loop P d (m + n) h = (case ata_read_loop P d m h of (bs, h1) \<Rightarrow> case ata_read_loop P d n h1 of (cs, h2) \<Rightarrow> (bs @ cs, h2))"
  by (induct m arbitrary: h) (simp_all split: prod.split)

lemma read_sector:
  assumes d: "port_base d = base" "a_busy (ctl h) = 0" "a_mode (ctl h) = Reading lba left 0" "length (a_media (ctl h) (a_drive (ctl h)) lba) = 256"
  shows "\<exists>h'. ata_read P d 512 h = (512, bytes_of (a_media (ctl h) (a_drive (ctl h)) lba), h') \<and> ctl h' = after_sector (ctl h)"
proof -
  let ?M = "a_media (ctl h) (a_drive (ctl h)) lba"
  obtain h1 where h1: "ata_read_loop P d 255 h = (bytes_of (map (\<lambda>i. ?M ! i) [0..<255]), h1)" "ctl h1 = (ctl h)\<lparr>a_mode := Reading lba left 255\<rparr>"
    using read_words[OF d(1-3), of 255] by auto
  obtain h2 where h2: "p_inw P (base + 0) h1 = (fst (ata_inw 0 (ctl h1)), h2)" "ctl h2 = snd (ata_inw 0 (ctl h1))" by (rule inwE)
  have e: "ata_inw 0 (ctl h1) = (?M ! 255, after_sector (ctl h))"
    using d h1(2) by (cases "ctl h") (auto simp: ata_inw_def after_sector_def)
  have l: "ata_read_loop P d 1 h1 = (le16_bytes (?M ! 255), h2)"
    using h2 e d(1) by (simp add: disk_port_def PORT_DATA_def)
  have m: "map (\<lambda>i. ?M ! i) [0..<255] @ [?M ! 255] = ?M"
    using map_nth[of ?M] d(4) upt_Suc_append[of 0 255] by (simp del: upt_Suc)
  have "ata_read_loop P d (255 + 1) h = (bytes_of ?M, h2)"
    unfolding ata_read_loop_add h1(1) prod.case l by (subst m[symmetric]) (simp add: bytes_of_def)
  then have "ata_read_loop P d 256 h = (bytes_of ?M, h2)" by (simp only: numeral_eq_Suc) simp
  then show ?thesis using h2(2) e by (simp add: ata_read_def)
qed

lemma read_turn:
  assumes d: "port_base d = base" "sector_size d = 512" and c: "a_mode (ctl h) = Reading lba left 0" "length (a_media (ctl h) (a_drive (ctl h)) lba) = 256"
    and off: "off = length out"
  shows "\<exists>h'. disk_read_loop P d i (Suc k) off out h =
      disk_read_loop P d (i + 1) k (off + 512 * (i + 1)) (out @ bytes_of (a_media (ctl h) (a_drive (ctl h)) lba)) h'
    \<and> ctl h' = after_sector ((ctl h)\<lparr>a_busy := 0\<rparr>)"
proof -
  obtain h1 h2 where t: "p_wait P h = Some h1" "ata_wait P d h1 = Some (0, h2)" "ctl h2 = (ctl h)\<lparr>a_busy := 0\<rparr>"
    using turn_ok[OF d(1), of h] c(1) by auto
  obtain h' where "ata_read P d 512 h2 = (512, bytes_of (a_media (ctl h2) (a_drive (ctl h2)) lba), h')" "ctl h' = after_sector (ctl h2)"
    using read_sector[OF d(1), of h2 lba left] t(3) c by auto
  then show ?thesis using t d(2) off by (auto intro!: exI[of _ h'])
qed

abbreviation part_ready :: "int \<Rightarrow> nat \<Rightarrow> part_info_t \<Rightarrow> 'h disk_w \<Rightarrow> bool" where
  "part_ready \<equiv> part_ready_of base ctl"

lemma part_readyE:
  assumes "part_ready minor dr p w"
  obtains di pi dk d where "minor_part minor w = Some (di, pi, p)" "pt_disk p = Some dk" "nth_opt (disks w) dk = Some d"
    "port_base d = base" "drive d = of_nat dr" "dr < 2" "sector_size d = 512" "clean (ctl (phw w))"
  using assms unfolding part_ready_of_def by blast

lemma part_ready_update: "part_ready minor dr p w \<Longrightarrow> clean (ctl h) \<Longrightarrow> part_ready minor dr p (w\<lparr>has_read := True, phw := h\<rparr>)"
  unfolding part_ready_of_def minor_part_def by simp

theorem disk_read_sectors:
  assumes r: "part_ready minor dr p w" and n: "n = 1 \<or> n = 2" and lba: "lba = unat (addr + pt_sector_start p)"
    and cap: "lba + n \<le> a_cap (ctl (phw w)) dr"
  shows "\<exists>w'. disk_read P minor addr n w = Some (int n, sectors (a_media (ctl (phw w)) dr) lba n, w') \<and> part_ready minor dr p w' \<and>
    a_media (ctl (phw w')) = a_media (ctl (phw w)) \<and> a_cap (ctl (phw w')) = a_cap (ctl (phw w))"
proof -
  obtain di pi dk d where w: "minor_part minor w = Some (di, pi, p)" "pt_disk p = Some dk" "nth_opt (disks w) dk = Some d"
    and d: "port_base d = base" "drive d = of_nat dr" "dr < 2" "sector_size d = 512" and cl: "clean (ctl (phw w))"
    by (rule part_readyE[OF r])
  have n': "0 < n" "n < 2 ^ 16" using n by auto
  define h where "h = ata_cmd P d (addr + pt_sector_start p) (of_nat n) COMMAND_READ (phw w)"
  obtain a where a: "ctl h = ata_exec COMMAND_READ a" "ata_lba a = unat (addr + pt_sector_start p)" "ata_cnt a = n" "a_drive a = dr"
    "a_media a = a_media (ctl (phw w))" "a_cap a = a_cap (ctl (phw w))" "a_lat a = a_lat (ctl (phw w))" "a_wlat a = a_wlat (ctl (phw w))"
    unfolding h_def using cmd_exec[OF d(1-3) n'] by blast
  have c: "ctl h = a\<lparr>a_mode := Reading lba n 0, a_busy := a_lat a\<rparr>"
    using a(1-4,6) cap lba by (simp add: ata_exec_def COMMAND_READ_def)
  have len: "length (a_media (ctl (phw w)) dr i) = 256" for i using cl by (simp add: clean_def)
  have cl': "clean (a\<lparr>a_mode := Ready, a_busy := b\<rparr>)" for b using cl a(5,8) by (simp add: clean_def)
  obtain h1 where h1: "disk_read_loop P d 0 (Suc (n - 1)) 0 [] h = disk_read_loop P d 1 (n - 1) 512 (bytes_of (a_media (ctl (phw w)) dr lba)) h1"
    "ctl h1 = after_sector (a\<lparr>a_mode := Reading lba n 0, a_busy := 0\<rparr>)"
    using read_turn[OF d(1,4), of h lba n 0 "[]" 0 "n - 1"] c len a(4,5) by auto
  have "\<exists>h'. disk_read_loop P d 0 n 0 [] h = Some (int n, sectors (a_media (ctl (phw w)) dr) lba n, h') \<and> ctl h' = a\<lparr>a_mode := Ready, a_busy := 0\<rparr>"
  proof (cases "n = 1")
    case True
    then show ?thesis using h1 by (auto simp: after_sector_def)
  next
    case False
    then have [simp]: "n = 2" using n by simp
    have c1: "ctl h1 = a\<lparr>a_mode := Reading (lba + 1) 1 0, a_busy := a_lat a\<rparr>" using h1(2) by (simp add: after_sector_def)
    obtain h2 where "disk_read_loop P d 1 (Suc 0) 512 (bytes_of (a_media (ctl (phw w)) dr lba)) h1 =
        disk_read_loop P d 2 0 (512 + 512 * 2) (bytes_of (a_media (ctl (phw w)) dr lba) @ bytes_of (a_media (ctl (phw w)) dr (lba + 1))) h2"
      "ctl h2 = after_sector (a\<lparr>a_mode := Reading (lba + 1) 1 0, a_busy := 0\<rparr>)"
      using read_turn[OF d(1,4), of h1 "lba + 1" 1 512 "bytes_of (a_media (ctl (phw w)) dr lba)" 1 0] c1 len a(4,5)
      by (auto simp: numeral_2_eq_2)
    then show ?thesis using h1(1) by (auto simp: after_sector_def numeral_2_eq_2)
  qed
  then obtain h' where h': "disk_read_loop P d 0 n 0 [] h = Some (int n, sectors (a_media (ctl (phw w)) dr) lba n, h')"
    "ctl h' = a\<lparr>a_mode := Ready, a_busy := 0\<rparr>" by blast
  have "disk_read P minor addr n w = Some (int n, sectors (a_media (ctl (phw w)) dr) lba n, w\<lparr>has_read := True, phw := h'\<rparr>)"
    using w h'(1) by (simp add: disk_read_def h_def)
  then show ?thesis using part_ready_update[OF r, of h'] cl'[of 0] h'(2) a(5,6) by simp
qed

text \<open>A third sector would leave a gap behind the second.\<close>

lemma disk_read_many:
  assumes r: "part_ready minor dr p w" and n: "3 \<le> n" "n < 2 ^ 16" and cap: "unat (addr + pt_sector_start p) + n \<le> a_cap (ctl (phw w)) dr"
  shows "disk_read P minor addr n w = None"
proof -
  define lba where "lba = unat (addr + pt_sector_start p)"
  obtain di pi dk d where w: "minor_part minor w = Some (di, pi, p)" "pt_disk p = Some dk" "nth_opt (disks w) dk = Some d"
    and d: "port_base d = base" "drive d = of_nat dr" "dr < 2" "sector_size d = 512" and cl: "clean (ctl (phw w))"
    by (rule part_readyE[OF r])
  have n': "0 < n" using n by auto
  define h where "h = ata_cmd P d (addr + pt_sector_start p) (of_nat n) COMMAND_READ (phw w)"
  obtain a where a: "ctl h = ata_exec COMMAND_READ a" "ata_lba a = lba" "ata_cnt a = n" "a_drive a = dr"
    "a_media a = a_media (ctl (phw w))" "a_cap a = a_cap (ctl (phw w))"
    unfolding h_def lba_def using cmd_exec[OF d(1-3) n' n(2)] by blast
  have c: "ctl h = a\<lparr>a_mode := Reading lba n 0, a_busy := a_lat a\<rparr>"
    using a(1-4,6) cap by (simp add: ata_exec_def COMMAND_READ_def lba_def)
  have len: "length (a_media a dr i) = 256" for i using cl a(5) by (simp add: clean_def)
  let ?s = "\<lambda>i. bytes_of (a_media a dr i)"
  obtain h1 where h1: "disk_read_loop P d 0 (Suc (n - 1)) 0 [] h = disk_read_loop P d 1 (n - 1) 512 (?s lba) h1"
    "ctl h1 = a\<lparr>a_mode := Reading (lba + 1) (n - 1) 0, a_busy := a_lat a\<rparr>"
    using read_turn[OF d(1,4), of h lba n 0 "[]" 0 "n - 1"] c len a(4) n(1) by (auto simp: after_sector_def)
  obtain h2 where h2: "disk_read_loop P d 1 (Suc (n - 2)) 512 (?s lba) h1 = disk_read_loop P d 2 (n - 2) 1536 (?s lba @ ?s (lba + 1)) h2"
    "ctl h2 = a\<lparr>a_mode := Reading (lba + 2) (n - 2) 0, a_busy := a_lat a\<rparr>"
    using read_turn[OF d(1,4), of h1 "lba + 1" "n - 1" 512 "?s lba" 1 "n - 2"] h1(2) len a(4) n(1) by (auto simp: after_sector_def numeral_2_eq_2)
  obtain g h3 where "p_wait P h2 = Some g" "ata_wait P d g = Some (0, h3)" using turn_ok[OF d(1), of h2] h2(2) by auto
  then have "disk_read_loop P d 2 (Suc (n - 3)) 1536 (?s lba @ ?s (lba + 1)) h2 = None" using len by simp
  moreover have "Suc (n - 1) = n" "Suc (n - 2) = n - 1" "Suc (n - 3) = n - 2" using n(1) by auto
  ultimately have "disk_read_loop P d 0 n 0 [] h = None" using h1(1) h2(1) by (simp only:)
  then show ?thesis using w by (simp add: disk_read_def h_def)
qed

text \<open>Writing: the words go to the sector once the last one has come.\<close>

lemma write_words:
  assumes "port_base d = base" "a_busy (ctl h) = 0" "a_mode (ctl h) = Writing lba left ws" "length ws + length is < 256"
  shows "ctl (ata_write_loop P d buf is h) = (ctl h)\<lparr>a_mode := Writing lba left (ws @ map (\<lambda>i. le16_at buf (2 * i)) is)\<rparr>"
  using assms(2,3,4)
proof (induct "is" arbitrary: h ws)
  case (Cons i "is")
  let ?h1 = "p_outw P (base + 0) (le16_at buf (2 * i)) h"
  have "ctl ?h1 = (ctl h)\<lparr>a_mode := Writing lba left (ws @ [le16_at buf (2 * i)])\<rparr>"
    unfolding outw_ctl using Cons.prems by (simp add: ata_outw_def)
  then show ?case
    using Cons.hyps[of ?h1 "ws @ [le16_at buf (2 * i)]"] Cons.prems assms(1) by (simp add: disk_port_def PORT_DATA_def)
qed simp

lemma ata_write_loop_append: "ata_write_loop P d buf (is @ js) h = ata_write_loop P d buf js (ata_write_loop P d buf is h)"
  by (induct "is" arbitrary: h) simp_all

lemma write_sector:
  assumes d: "port_base d = base" "a_busy (ctl h) = 0" "a_mode (ctl h) = Writing lba left []" "512 \<le> length buf"
  shows "\<exists>h'. ata_write P d buf 512 h = Some (512, h') \<and> ctl h' = (ctl h)\<lparr>
      a_media := (a_media (ctl h))(a_drive (ctl h) := (a_media (ctl h) (a_drive (ctl h)))(lba := words_of buf 256)),
      a_mode := (if left \<le> 1 then Ready else Writing (lba + 1) (left - 1) []), a_busy := a_lat (ctl h)\<rparr>"
proof -
  let ?h1 = "ata_write_loop P d buf [0..<255] h"
  let ?h2 = "p_outw P (base + 0) (le16_at buf (2 * 255)) ?h1"
  have h1: "ctl ?h1 = (ctl h)\<lparr>a_mode := Writing lba left (words_of buf 255)\<rparr>"
    using write_words[OF d(1-3), of "[0..<255]" buf] by (simp add: words_of_def)
  have ws: "words_of buf 256 = words_of buf 255 @ [le16_at buf (2 * 255)]" "[0..<256] = [0..<255] @ [255]" "length (words_of buf 255) = 255"
    using upt_Suc_append[of 0 255] by (simp_all add: words_of_def del: upt_Suc)
  have h2: "ctl ?h2 = (ctl h)\<lparr>a_media := (a_media (ctl h))(a_drive (ctl h) := (a_media (ctl h) (a_drive (ctl h)))(lba := words_of buf 256)),
      a_mode := (if left \<le> 1 then Ready else Writing (lba + 1) (left - 1) []), a_busy := a_lat (ctl h)\<rparr>"
    unfolding outw_ctl h1 ws(1) using d(2) ws(3) by (simp add: ata_outw_def)
  have "ata_write P d buf 512 h = Some (512, ?h2)"
    using d(1,4) by (simp add: ata_write_def ws(2) ata_write_loop_append disk_port_def PORT_DATA_def del: upt_Suc)
  then show ?thesis using h2 by blast
qed

lemma write_turn:
  assumes d: "port_base d = base" "sector_size d = 512" and c: "a_busy (ctl h) = 0" "a_mode (ctl h) = Writing lba left []" "512 \<le> length buf"
  shows "\<exists>h'. disk_write_loop P d i (Suc k) buf h = disk_write_loop P d (i + 1) k (drop (512 * (i + 1)) buf) h' \<and> ctl h' = (ctl h)\<lparr>
      a_media := (a_media (ctl h))(a_drive (ctl h) := (a_media (ctl h) (a_drive (ctl h)))(lba := words_of buf 256)),
      a_mode := (if left \<le> 1 then Ready else Writing (lba + 1) (left - 1) []), a_busy := 0\<rparr>"
proof -
  obtain h1 where h1: "ata_write P d buf 512 h = Some (512, h1)" "ctl h1 = (ctl h)\<lparr>
      a_media := (a_media (ctl h))(a_drive (ctl h) := (a_media (ctl h) (a_drive (ctl h)))(lba := words_of buf 256)),
      a_mode := (if left \<le> 1 then Ready else Writing (lba + 1) (left - 1) []), a_busy := a_lat (ctl h)\<rparr>"
    using write_sector[OF d(1) c] by blast
  have "a_mode (ctl h1) \<noteq> Aborted" using h1(2) by simp
  then obtain h2 h3 where "p_wait P h1 = Some h2" "ata_wait P d h2 = Some (0, h3)" "ctl h3 = (ctl h1)\<lparr>a_busy := 0\<rparr>"
    using turn_ok[OF d(1), of h1] by blast
  then show ?thesis using h1 d(2) by (intro exI[of _ h3]) simp
qed

theorem disk_write_sectors:
  assumes r: "part_ready minor dr p w" and n: "n = 1 \<or> n = 2" and lba: "lba = unat (addr + pt_sector_start p)"
    and cap: "lba + n \<le> a_cap (ctl (phw w)) dr" and buf: "512 * n \<le> length buf"
  shows "\<exists>w'. disk_write P minor addr buf n w = Some (int n, w') \<and> part_ready minor dr p w' \<and>
    a_media (ctl (phw w')) = (a_media (ctl (phw w)))(dr := put_sectors (a_media (ctl (phw w)) dr) lba n buf) \<and>
    a_cap (ctl (phw w')) = a_cap (ctl (phw w))"
proof -
  let ?M = "a_media (ctl (phw w))"
  obtain di pi dk d where w: "minor_part minor w = Some (di, pi, p)" "pt_disk p = Some dk" "nth_opt (disks w) dk = Some d"
    and d: "port_base d = base" "drive d = of_nat dr" "dr < 2" "sector_size d = 512" and cl: "clean (ctl (phw w))"
    by (rule part_readyE[OF r])
  have n': "0 < n" "n < 2 ^ 16" using n by auto
  define h where "h = ata_cmd P d (addr + pt_sector_start p) (of_nat n) COMMAND_WRITE (phw w)"
  obtain a where a: "ctl h = ata_exec COMMAND_WRITE a" "ata_lba a = unat (addr + pt_sector_start p)" "ata_cnt a = n" "a_drive a = dr"
    "a_media a = ?M" "a_cap a = a_cap (ctl (phw w))" "a_lat a = a_lat (ctl (phw w))" "a_wlat a = a_wlat (ctl (phw w))"
    unfolding h_def using cmd_exec[OF d(1-3) n'] by blast
  have c: "ctl h = a\<lparr>a_mode := Writing lba n [], a_busy := 0\<rparr>"
    using a(1-4,6,8) cap lba cl by (simp add: ata_exec_def COMMAND_WRITE_def clean_def)
  obtain h1 where h1: "disk_write_loop P d 0 (Suc (n - 1)) buf h = disk_write_loop P d 1 (n - 1) (drop 512 buf) h1"
    "ctl h1 = a\<lparr>a_media := ?M(dr := (?M dr)(lba := words_of buf 256)), a_mode := (if n \<le> 1 then Ready else Writing (lba + 1) (n - 1) []), a_busy := 0\<rparr>"
    using write_turn[OF d(1,4), of h lba n buf 0 "n - 1"] c a(4,5) buf n by auto
  have "\<exists>h'. disk_write_loop P d 0 n buf h = Some (int n, h') \<and> ctl h' = a\<lparr>a_media := ?M(dr := put_sectors (?M dr) lba n buf), a_mode := Ready, a_busy := 0\<rparr>"
  proof (cases "n = 1")
    case True
    have "put_sectors (?M dr) lba 1 buf = (?M dr)(lba := words_of buf 256)" by (auto simp: put_sectors_def)
    then show ?thesis using h1 True by auto
  next
    case False
    then have [simp]: "n = 2" using n by simp
    have b2: "512 \<le> length (drop 512 buf)" using buf by simp
    obtain h2 where h2: "disk_write_loop P d 1 (Suc 0) (drop 512 buf) h1 = disk_write_loop P d 2 0 (drop 1024 (drop 512 buf)) h2"
      "ctl h2 = a\<lparr>a_media := ?M(dr := (?M dr)(lba := words_of buf 256, lba + 1 := words_of (drop 512 buf) 256)), a_mode := Ready, a_busy := 0\<rparr>"
      using write_turn[OF d(1,4), of h1 "lba + 1" 1 "drop 512 buf" 1 0] h1(2) a(4,5) b2 by (auto simp: numeral_2_eq_2)
    have "put_sectors (?M dr) lba 2 buf = (?M dr)(lba := words_of buf 256, lba + 1 := words_of (drop 512 buf) 256)"
    proof
      fix i
      show "put_sectors (?M dr) lba 2 buf i = ((?M dr)(lba := words_of buf 256, lba + 1 := words_of (drop 512 buf) 256)) i"
        by (cases "i = lba"; cases "i = lba + 1") (auto simp: put_sectors_def)
    qed
    then show ?thesis using h1(1) h2 by (auto simp: numeral_2_eq_2)
  qed
  then obtain h' where h': "disk_write_loop P d 0 n buf h = Some (int n, h')"
    "ctl h' = a\<lparr>a_media := ?M(dr := put_sectors (?M dr) lba n buf), a_mode := Ready, a_busy := 0\<rparr>" by blast
  have "clean (ctl h')" using h'(2) cl a(8) by (simp add: clean_def put_sectors_def words_of_def)
  moreover have "disk_write P minor addr buf n w = Some (int n, w\<lparr>has_read := True, phw := h'\<rparr>)"
    using w h'(1) by (simp add: disk_write_def h_def)
  ultimately show ?thesis using part_ready_update[OF r, of h'] h'(2) a(6) by simp
qed

end

interpretation ata0: ata_hw ata_ports PRIMARY_PORT_BASE "\<lambda>a. a"
proof
  show "\<exists>h' n. p_wait ata_ports h = Some h' \<and> h' = h\<lparr>a_busy := n\<rparr>" for h
    by (rule exI[of _ h], rule exI[of _ "a_busy h"]) (simp add: ata_ports_def)
qed (simp_all add: ata_ports_def prod_eq_iff)

end
