(* ===== verification/Ext2_Proofs.thy ===== *)
theory Ext2_Proofs
  imports Ext2 Disk_Proofs
begin

text \<open>
  Correctness of the ext2 driver on a block device.  The locale \<open>block_device\<close> is the contract between the two: reads
  and writes of one or two sectors work on an image of sectors.  The disk driver fulfils it (through \<open>device.c\<close>).
  Two sectors are one block of 1 KB, the only block size the disk driver can serve.
\<close>

section \<open>The contract of a block device\<close>

definition span :: "(nat \<Rightarrow> u8 list) \<Rightarrow> nat \<Rightarrow> nat \<Rightarrow> u8 list" where
  "span I a n = concat (map I [a..<a + n])"

definition put_span :: "(nat \<Rightarrow> u8 list) \<Rightarrow> nat \<Rightarrow> nat \<Rightarrow> u8 list \<Rightarrow> nat \<Rightarrow> u8 list" where
  "put_span I a n buf = (\<lambda>i. if a \<le> i \<and> i < a + n then take 512 (drop (512 * (i - a)) buf) else I i)"

locale block_device =
  fixes b :: "'w bdev" and dev :: int and img :: "'w \<Rightarrow> nat \<Rightarrow> u8 list" and cap :: nat and up :: "'w \<Rightarrow> bool"
  assumes read_law: "up w \<Longrightarrow> n = 1 \<or> n = 2 \<Longrightarrow> unat a + n \<le> cap \<Longrightarrow>
      \<exists>w'. b_read b dev a n w = Some (int n, span (img w) (unat a) n, w') \<and> up w' \<and> img w' = img w"
    and write_law: "up w \<Longrightarrow> n = 1 \<or> n = 2 \<Longrightarrow> unat a + n \<le> cap \<Longrightarrow> 512 * n \<le> length buf \<Longrightarrow>
      \<exists>w'. b_write b dev a buf n w = Some (int n, w') \<and> up w' \<and> img w' = put_span (img w) (unat a) n buf"
    and img_len: "up w \<Longrightarrow> length (img w i) = 512"
    and cap_le: "cap \<le> 2 ^ 23"

text \<open>The sectors of a partition, and that it is open as device \<open>dev\<close>.\<close>

definition part_img_of :: "('h \<Rightarrow> ata) \<Rightarrow> nat \<Rightarrow> part_info_t \<Rightarrow> 'h disk_w devs \<Rightarrow> nat \<Rightarrow> u8 list" where
  "part_img_of ctl dr p s i = bytes_of (a_media (ctl (phw (hw s))) dr (unat (pt_sector_start p) + i))"

definition part_up_of :: "u32 \<Rightarrow> ('h \<Rightarrow> ata) \<Rightarrow> nat \<Rightarrow> int \<Rightarrow> int \<Rightarrow> nat \<Rightarrow> part_info_t \<Rightarrow> nat \<Rightarrow> 'h disk_w devs \<Rightarrow> bool" where
  "part_up_of base ctl k dev minor dr p room s \<longleftrightarrow> 0 \<le> dev \<and> dev < 128 \<and> dv_desc (devices s ! nat dev) = Some k \<and>
     dv_minor (devices s ! nat dev) = minor \<and> part_ready_of base ctl minor dr p (hw s) \<and>
     unat (pt_sector_start p) + room \<le> a_cap (ctl (phw (hw s))) dr \<and> unat (pt_sector_start p) + room < 2 ^ 32"

locale ata_part = ata_hw P base ctl for P :: "'h ports" and base ctl +
  fixes tbl :: "'h disk_w device_desc_t list" and k :: nat and dev minor :: int and dr :: nat and p :: part_info_t and room :: nat
  assumes disk_driver: "nth_opt tbl k = Some (dev_disk_desc P)"
    and room_le: "room \<le> 2 ^ 23"
begin

abbreviation part_img :: "'h disk_w devs \<Rightarrow> nat \<Rightarrow> u8 list" where
  "part_img \<equiv> part_img_of ctl dr p"

abbreviation part_up :: "'h disk_w devs \<Rightarrow> bool" where
  "part_up \<equiv> part_up_of base ctl k dev minor dr p room"

lemma part_upD:
  assumes "part_up s"
  shows "validate_device dev s" "dev_driver tbl dev s = Some (dev_disk_desc P, minor)" "part_ready minor dr p (hw s)"
    "unat (pt_sector_start p) + room \<le> a_cap (ctl (phw (hw s))) dr" "unat (pt_sector_start p) + room < 2 ^ 32"
  using assms disk_driver by (auto simp: part_up_of_def validate_device_def DEVICES_SIZE_def dev_driver_def)

lemma part_up_update:
  assumes "part_up s" "part_ready minor dr p w" "a_cap (ctl (phw w)) = a_cap (ctl (phw (hw s)))"
  shows "part_up (s\<lparr>hw := w\<rparr>)"
  using assms by (simp add: part_up_of_def)

lemma part_lba: "part_up s \<Longrightarrow> unat a + n \<le> room \<Longrightarrow> unat (a + pt_sector_start p) = unat (pt_sector_start p) + unat a"
  using part_upD(5)[of s] by (simp add: unat_add_small)

lemma part_read:
  assumes u: "part_up s" and n: "n = 1 \<or> n = 2" and a: "unat a + n \<le> room"
  shows "\<exists>s'. b_read (device_bdev tbl) dev a n s = Some (int n, span (part_img s) (unat a) n, s') \<and> part_up s' \<and> part_img s' = part_img s"
proof -
  obtain w where w: "disk_read P minor a n (hw s) = Some (int n, sectors (a_media (ctl (phw (hw s))) dr) (unat (pt_sector_start p) + unat a) n, w)"
    "part_ready minor dr p w" "a_media (ctl (phw w)) = a_media (ctl (phw (hw s)))" "a_cap (ctl (phw w)) = a_cap (ctl (phw (hw s)))"
    using disk_read_sectors[OF part_upD(3)[OF u] n part_lba[OF u a, symmetric]] part_upD(4)[OF u] a by auto
  have "sectors (a_media (ctl (phw (hw s))) dr) (unat (pt_sector_start p) + unat a) n = span (part_img s) (unat a) n"
    using n by (auto simp: span_def part_img_of_def numeral_2_eq_2)
  then have "b_read (device_bdev tbl) dev a n s = Some (int n, span (part_img s) (unat a) n, s\<lparr>hw := w\<rparr>)"
    using w(1) part_upD(1,2)[OF u] by (simp add: device_bdev_def device_read_def dev_disk_desc_def)
  then show ?thesis using part_up_update[OF u w(2,4)] w(3) by (auto simp: part_img_of_def fun_eq_iff)
qed

lemma part_write:
  assumes u: "part_up s" and n: "n = 1 \<or> n = 2" and a: "unat a + n \<le> room" and l: "512 * n \<le> length buf"
  shows "\<exists>s'. b_write (device_bdev tbl) dev a buf n s = Some (int n, s') \<and> part_up s' \<and> part_img s' = put_span (part_img s) (unat a) n buf"
proof -
  let ?lba = "unat (pt_sector_start p) + unat a"
  obtain w where w: "disk_write P minor a buf n (hw s) = Some (int n, w)" "part_ready minor dr p w"
    "a_media (ctl (phw w)) = (a_media (ctl (phw (hw s))))(dr := put_sectors (a_media (ctl (phw (hw s))) dr) ?lba n buf)"
    "a_cap (ctl (phw w)) = a_cap (ctl (phw (hw s)))"
    using disk_write_sectors[OF part_upD(3)[OF u] n part_lba[OF u a, symmetric] _ l] part_upD(4)[OF u] a by auto
  have "part_img (s\<lparr>hw := w\<rparr>) i = put_span (part_img s) (unat a) n buf i" for i
    using l n by (auto simp: part_img_of_def w(3) put_sectors_def put_span_def bytes_of_words)
  moreover have "b_write (device_bdev tbl) dev a buf n s = Some (int n, s\<lparr>hw := w\<rparr>)"
    using w(1) part_upD(1,2)[OF u] by (simp add: device_bdev_def device_write_def dev_disk_desc_def)
  ultimately show ?thesis using part_up_update[OF u w(2,4)] by auto
qed

end

sublocale ata_part \<subseteq> disk: block_device "device_bdev tbl" dev part_img room part_up
proof
  fix s i
  assume "part_up s"
  then have "clean (ctl (phw (hw s)))" using part_upD(3)[of s] by (auto elim!: part_readyE)
  then show "length (part_img s i) = 512" by (simp add: clean_def part_img_of_def)
qed (fact part_read part_write room_le)+

section \<open>Blocks of 1 KB\<close>

lemma into_full: "length bs = length buf \<Longrightarrow> into buf bs = Some bs"
  by (simp add: into_def)

definition blk :: "(nat \<Rightarrow> u8 list) \<Rightarrow> u32 \<Rightarrow> u8 list" where
  "blk I a = span I (2 * unat a) 2"

definition on_dev :: "nat \<Rightarrow> u32 \<Rightarrow> bool" where
  "on_dev cap a \<longleftrightarrow> 2 * unat a + 2 \<le> cap"

text \<open>The inode \<open>idx\<close> lies at offset \<open>off\<close> of block \<open>a\<close>.\<close>

definition inode_loc :: "nat \<Rightarrow> ext2_desc \<Rightarrow> u32 \<Rightarrow> u32 \<Rightarrow> nat \<Rightarrow> bool" where
  "inode_loc cap desc idx a off \<longleftrightarrow> ext2_block_size desc = 1024 \<and> unat (inode_size (super_block_ext desc)) \<le> 1024 \<and>
     inode_place desc idx = Some (a, off) \<and> off + 128 \<le> 1024 \<and> on_dev cap a"

section \<open>The bytes of an inode\<close>

definition inode_ok :: "inode_t \<Rightarrow> bool" where
  "inode_ok i \<longleftrightarrow> length (blocks i) = 15 \<and> length (os_spec2 i) = 12"

lemma le32_bits:
  "ucast (ucast w :: u8) OR push_bit 8 (ucast (ucast (drop_bit 8 w) :: u8)) OR push_bit 16 (ucast (ucast (drop_bit 16 w) :: u8)) OR
   push_bit 24 (ucast (ucast (drop_bit 24 w) :: u8)) = (w :: u32)" (is "?l = w")
proof (rule bit_word_eqI)
  fix n assume n: "n < LENGTH(32)"
  consider "n < 8" | "8 \<le> n" "n < 16" | "16 \<le> n" "n < 24" | "24 \<le> n" by linarith
  then show "bit ?l n \<longleftrightarrow> bit w n" by cases (use n in \<open>auto simp: bit_simps\<close>)
qed

lemma le16_bits: "ucast (ucast w :: u8) OR push_bit 8 (ucast (ucast (drop_bit 8 w) :: u8)) = (w :: u16)"
  by (rule bit_word_eqI) (auto simp: bit_simps)

lemma le32_at_append: "le32_at (xs @ le32 w @ ys) (length xs) = w"
  by (simp add: le32_at_def le32_def nth_append le32_bits)

lemma le16_at_append: "le16_at (xs @ le16_bytes w @ ys) (length xs) = w"
  by (simp add: le16_at_def le16_bytes_def nth_append le16_bits)

lemma length_le32 [simp]: "length (le32 w) = 4"
  by (simp add: le32_def)

lemma length_concat_le32: "length (concat (map le32 ws)) = 4 * length ws"
  by (induct ws) simp_all

lemma le32_at_block:
  assumes "k < length ws"
  shows "le32_at (xs @ concat (map le32 ws) @ ys) (length xs + 4 * k) = ws ! k"
proof -
  have "concat (map le32 ws) = concat (map le32 (take k ws)) @ le32 (ws ! k) @ concat (map le32 (drop (Suc k) ws))"
    by (subst id_take_nth_drop[OF assms]) simp
  moreover have "length (concat (map le32 (take k ws))) = 4 * k" using assms by (simp add: length_concat_le32)
  ultimately show ?thesis
    using le32_at_append[of "xs @ concat (map le32 (take k ws))" "ws ! k" "concat (map le32 (drop (Suc k) ws)) @ ys"] by simp
qed

lemma field32: "drop n bs = le32 w @ ys \<Longrightarrow> n \<le> length bs \<Longrightarrow> le32_at bs n = w"
  using le32_at_append[of "take n bs" w ys] by (metis append_take_drop_id length_take min.absorb2)

lemma field16: "drop n bs = le16_bytes w @ ys \<Longrightarrow> n \<le> length bs \<Longrightarrow> le16_at bs n = w"
  using le16_at_append[of "take n bs" w ys] by (metis append_take_drop_id length_take min.absorb2)

lemma length_inode_bytes: "inode_ok i \<Longrightarrow> length (inode_bytes i) = 128"
  by (simp add: inode_bytes_def inode_ok_def length_concat_le32)

lemma inode_at_bytes:
  assumes "inode_ok i"
  shows "inode_at (inode_bytes i) = i"
proof -
  have l: "length (blocks i) = 15" "length (os_spec2 i) = 12" using assms by (simp_all add: inode_ok_def)
  let ?bs = "inode_bytes i"
  have len: "length ?bs = 128" using assms by (rule length_inode_bytes)
  have f16: "le16_at ?bs 0 = type_permission i" "le16_at ?bs 2 = i_uid i" "le16_at ?bs 24 = i_gid i" "le16_at ?bs 26 = hard_link_count i"
    by (rule field16, simp add: inode_bytes_def drop_append, simp add: len)+
  have f32: "le32_at ?bs 4 = size0_31 i" "le32_at ?bs 8 = last_access_time i" "le32_at ?bs 12 = create_time i" "le32_at ?bs 16 = last_write_time i"
     "le32_at ?bs 20 = delete_time i" "le32_at ?bs 28 = disk_sector_count i" "le32_at ?bs 32 = i_flags i" "le32_at ?bs 36 = os_spec1 i"
     "le32_at ?bs 100 = generation_num i" "le32_at ?bs 104 = ext_attr_block i" "le32_at ?bs 108 = size32_63 i" "le32_at ?bs 112 = block_addr_in_fragment i"
    by (rule field32, simp add: inode_bytes_def drop_append length_concat_le32 l, simp add: len)+
  have bl: "map (\<lambda>k. le32_at ?bs (40 + 4 * k)) [0..<15] = blocks i"
  proof (rule nth_equalityI)
    fix k assume "k < length (map (\<lambda>k. le32_at ?bs (40 + 4 * k)) [0..<15])"
    then show "map (\<lambda>k. le32_at ?bs (40 + 4 * k)) [0..<15] ! k = blocks i ! k"
      using le32_at_block[of k "blocks i" "take 40 ?bs" "drop 100 ?bs"] l len
      by (simp add: inode_bytes_def drop_append take_append length_concat_le32)
  qed (simp add: l)
  have os: "take 12 (drop 116 ?bs) = os_spec2 i" by (simp add: inode_bytes_def drop_append length_concat_le32 l)
  show ?thesis unfolding inode_at_def f16 f32 bl os by simp
qed

context block_device
begin

lemma block_sector:
  assumes "on_dev cap a"
  shows "unat (a * 1024 div SECTOR_SIZE) = 2 * unat a"
proof -
  have "unat (a * 1024) = unat a * 1024"
    using assms cap_le by (subst unat_mult_small) (simp_all add: on_dev_def)
  then show ?thesis by (simp add: SECTOR_SIZE_def unat_div_distrib)
qed

lemma block_read_ok:
  assumes "up w" "on_dev cap a"
  shows "\<exists>w'. block_read b dev 1024 a 1 w = Some (2, blk (img w) a, w') \<and> up w' \<and> img w' = img w"
  using read_law[OF assms(1), of 2 "a * 1024 div SECTOR_SIZE"] assms(2) block_sector[OF assms(2)]
  by (simp add: block_read_def blk_def on_dev_def SECTOR_SIZE_def)

lemma length_blk: "up w \<Longrightarrow> length (blk (img w) a) = 1024"
  by (simp add: blk_def span_def img_len numeral_2_eq_2)

lemma read_into_ok:
  assumes "up w" "on_dev cap a" "length buf = 1024"
  shows "\<exists>w'. read_into b dev 1024 buf a w = Some (2, blk (img w) a, w') \<and> up w' \<and> img w' = img w"
  using block_read_ok[OF assms(1,2)] assms(3) length_blk[OF assms(1)] by (auto simp: read_into_def into_full)

lemma block_write_ok:
  assumes "up w" "on_dev cap a" "length buf = 1024"
  shows "\<exists>w'. block_write b dev 1024 buf a 1 w = Some (2, w') \<and> up w' \<and> img w' = put_span (img w) (2 * unat a) 2 buf"
  using write_law[OF assms(1), of 2 "a * 1024 div SECTOR_SIZE" buf] assms(2,3) block_sector[OF assms(2)]
  by (simp add: block_write_def on_dev_def SECTOR_SIZE_def)

lemma blk_put:
  assumes "length buf = 1024"
  shows "blk (put_span I (2 * unat a) 2 buf) c = (if c = a then buf else blk I c)"
proof (cases "c = a")
  case True
  have "take 512 (drop 512 buf) = drop 512 buf" using assms by simp
  then have "take 512 buf @ take 512 (drop 512 buf) = buf" by simp
  moreover have "[2 * unat a..<2 * unat a + 2] = [2 * unat a, 2 * unat a + 1]" by (simp add: numeral_2_eq_2)
  ultimately show ?thesis using True by (simp add: blk_def span_def put_span_def)
next
  case False
  then have "unat c \<noteq> unat a" by (simp add: word_unat_eq_iff)
  then show ?thesis using False by (auto simp: blk_def span_def put_span_def numeral_2_eq_2)
qed

lemma inode_buf: "unat i \<le> 1024 \<Longrightarrow> max (ucast (i :: u16)) (1024 :: u32) = 1024"
  by (simp add: max_def word_le_nat_alt unsigned_ucast_eq take_bit_eq_mod)

lemma rw_inode_read:
  assumes "up w" "inode_loc cap desc idx a off"
  shows "\<exists>w'. rw_inode b dev desc idx i False w = Some (0, inode_at (take 128 (drop off (blk (img w) a))), w') \<and> up w' \<and> img w' = img w"
  using assms(2) read_into_ok[OF assms(1), of a "replicate 1024 0"] length_blk[OF assms(1), of a]
  by (auto simp: rw_inode_def inode_loc_def inode_buf sizeof_inode_def Let_def)

lemma rw_inode_write:
  assumes "up w" "inode_loc cap desc idx a off" "inode_ok i"
  shows "\<exists>w'. rw_inode b dev desc idx i True w = Some (0, i, w') \<and> up w' \<and>
    img w' = put_span (img w) (2 * unat a) 2 (take off (blk (img w) a) @ inode_bytes i @ drop (off + 128) (blk (img w) a))"
proof -
  let ?B = "take off (blk (img w) a) @ inode_bytes i @ drop (off + 128) (blk (img w) a)"
  have a: "on_dev cap a" "off + 128 \<le> 1024" using assms(2) by (simp_all add: inode_loc_def)
  obtain w1 where w1: "read_into b dev 1024 (replicate 1024 0) a w = Some (2, blk (img w) a, w1)" "up w1" "img w1 = img w"
    using read_into_ok[OF assms(1) a(1), of "replicate 1024 0"] by auto
  have l: "length ?B = 1024" using a(2) length_blk[OF assms(1), of a] length_inode_bytes[OF assms(3)] by simp
  obtain w2 where "block_write b dev 1024 ?B a 1 w1 = Some (2, w2)" "up w2" "img w2 = put_span (img w) (2 * unat a) 2 ?B"
    using block_write_ok[OF w1(2) a(1) l] w1(3) by auto
  then show ?thesis
    using assms(2) w1 length_blk[OF assms(1), of a]
    by (auto simp: rw_inode_def inode_loc_def inode_buf sizeof_inode_def Let_def)
qed

text \<open>An inode written is read back; another inode and the blocks of the table elsewhere stay as they are.\<close>

lemma rw_inode_roundtrip:
  assumes u: "up w" and l: "inode_loc cap desc idx a off" and i: "inode_ok i"
    and l': "inode_loc cap desc idx' a' off'" and dis: "a' \<noteq> a \<or> off' + 128 \<le> off \<or> off + 128 \<le> off'"
  shows "\<exists>w1. rw_inode b dev desc idx i True w = Some (0, i, w1) \<and> up w1 \<and>
    (\<exists>w2. rw_inode b dev desc idx j False w1 = Some (0, i, w2)) \<and>
    (\<exists>w2. rw_inode b dev desc idx' j False w1 = Some (0, inode_at (take 128 (drop off' (blk (img w) a'))), w2)) \<and>
    (\<forall>c. c \<noteq> a \<longrightarrow> blk (img w1) c = blk (img w) c)"
proof -
  let ?B = "take off (blk (img w) a) @ inode_bytes i @ drop (off + 128) (blk (img w) a)"
  obtain w1 where w1: "rw_inode b dev desc idx i True w = Some (0, i, w1)" "up w1" "img w1 = put_span (img w) (2 * unat a) 2 ?B"
    using rw_inode_write[OF u l i] by blast
  have o: "off + 128 \<le> 1024" "off' + 128 \<le> 1024" using l l' by (simp_all add: inode_loc_def)
  have lb: "length (blk (img w) a) = 1024" "length (inode_bytes i) = 128" using length_blk[OF u] length_inode_bytes[OF i] by auto
  have lB: "length ?B = 1024" using o lb by simp
  have bk: "blk (img w1) c = (if c = a then ?B else blk (img w) c)" for c unfolding w1(3) by (rule blk_put[OF lB])
  have same: "take 128 (drop off ?B) = inode_bytes i" using o lb by simp
  have other: "take 128 (drop off' (blk (img w1) a')) = take 128 (drop off' (blk (img w) a'))"
  proof (cases "a' = a")
    case True
    with dis consider "off' + 128 \<le> off" | "off + 128 \<le> off'" by blast
    then have "take 128 (drop off' ?B) = take 128 (drop off' (blk (img w) a))"
      by cases (use o lb in \<open>simp_all add: drop_append take_append take_drop min_absorb1 min_absorb2\<close>)
    then show ?thesis using True bk by simp
  qed (simp add: bk)
  obtain w2 where "rw_inode b dev desc idx j False w1 = Some (0, inode_at (inode_bytes i), w2)"
    using rw_inode_read[OF w1(2) l, of j] bk[of a] same by auto
  moreover obtain w3 where "rw_inode b dev desc idx' j False w1 = Some (0, inode_at (take 128 (drop off' (blk (img w) a'))), w3)"
    using rw_inode_read[OF w1(2) l', of j] other by auto
  ultimately show ?thesis using w1 bk inode_at_bytes[OF i] by auto
qed

end

section \<open>The bytes of a file\<close>

text \<open>
  The addresses of the blocks of a file that the direct blocks and the first indirect block give, and the bytes of
  these blocks.  \<open>mapped\<close>: the first \<open>L\<close> bytes of the file lie in such blocks, with no hole.
\<close>

definition file_addrs :: "(nat \<Rightarrow> u8 list) \<Rightarrow> inode_t \<Rightarrow> u32 list" where
  "file_addrs I i = take 12 (blocks i) @ (if blocks i ! 12 = 0 then [] else addrs_of (blk I (blocks i ! 12)))"

definition file_image :: "(nat \<Rightarrow> u8 list) \<Rightarrow> inode_t \<Rightarrow> u8 list" where
  "file_image I i = concat (map (blk I) (file_addrs I i))"

definition mapped :: "nat \<Rightarrow> (nat \<Rightarrow> u8 list) \<Rightarrow> inode_t \<Rightarrow> nat \<Rightarrow> bool" where
  "mapped cap I i L \<longleftrightarrow> length (blocks i) = 15 \<and> (blocks i ! 12 \<noteq> 0 \<longrightarrow> on_dev cap (blocks i ! 12)) \<and>
     (\<forall>k. k * 1024 < L \<longrightarrow> k < length (file_addrs I i) \<and> file_addrs I i ! k \<noteq> 0 \<and> on_dev cap (file_addrs I i ! k))"

definition fd_ok :: "(nat \<Rightarrow> u8 list) \<Rightarrow> inode_t \<Rightarrow> file_data_t \<Rightarrow> bool" where
  "fd_ok I i fd \<longleftrightarrow> fd_inode fd = i \<and> (first_indirect_blocks fd = None \<or> first_indirect_blocks fd = Some (addrs_of (blk I (blocks i ! 12))))"

lemma sint_small: "- (2 ^ 31) \<le> z \<Longrightarrow> z < 2 ^ 31 \<Longrightarrow> sint (of_int z :: u32) = z"
  by (simp add: sint_sbintrunc' signed_take_bit_int_eq_self)

lemma sint_diff_small: "k < 2 ^ 16 \<Longrightarrow> c < 2 ^ 30 \<Longrightarrow> sint (of_nat k - of_int c :: u32) = int k - c" if "0 \<le> c"
  using sint_small[of "int k - c"] that by simp

context block_device
begin

lemma load_addrs_ok:
  assumes "up w" "on_dev cap a"
  shows "\<exists>w'. load_addrs b dev 1024 a w = Some (addrs_of (blk (img w) a), w') \<and> up w' \<and> img w' = img w"
  using read_into_ok[OF assms, of "replicate 1024 0"] by (auto simp: load_addrs_def)

lemma first_addr_ok:
  assumes u: "up w" "img w = I" and fd: "fd_ok I i fd" and a: "blocks i ! 12 \<noteq> 0" "on_dev cap (blocks i ! 12)" and k: "k < 256"
  shows "\<exists>fd' w'. first_addr b dev 1024 (of_nat k) (fd, w, x) = Some (fd', w', addrs_of (blk I (blocks i ! 12)) ! k) \<and>
    fd_ok I i fd' \<and> up w' \<and> img w' = I"
proof -
  let ?as = "addrs_of (blk I (blocks i ! 12))"
  have l: "length ?as = 256" using length_blk[OF u(1)] u(2) by (simp add: addrs_of_def)
  have k': "unat (of_nat k :: u32) = k" "sint (of_nat k :: u32) = int k" "of_nat k < (256 :: u32)"
    using k sint_small[of "int k"] by (simp_all add: unat_of_nat_small word_less_nat_alt)
  have pos: "0 < blocks i ! 12" using a(1) by (simp add: word_neq_0_conv)
  obtain w1 where w1: "load_addrs b dev 1024 (blocks i ! 12) w = Some (?as, w1)" "up w1" "img w1 = I"
    using load_addrs_ok[OF u(1) a(2)] u(2) by auto
  show ?thesis
  proof (cases "first_indirect_blocks fd")
    case None
    then show ?thesis using fd w1 l k k' pos by (simp add: first_addr_def Let_def fd_ok_def nth_opt_def)
  next
    case (Some as)
    then show ?thesis using fd u l k k' pos by (auto simp: first_addr_def Let_def fd_ok_def nth_opt_def)
  qed
qed

lemma block_addr_ok:
  assumes u: "up w" "img w = I" and fd: "fd_ok I i fd" and m: "length (blocks i) = 15" "blocks i ! 12 \<noteq> 0 \<longrightarrow> on_dev cap (blocks i ! 12)"
    and k: "k < length (file_addrs I i)"
  shows "\<exists>fd' w'. block_addr_of b dev 1024 (of_nat k) fd w = Some (fd', w', Some (file_addrs I i ! k)) \<and> fd_ok I i fd' \<and> up w' \<and> img w' = I"
proof (cases "k < 12")
  case True
  then have "unat (of_nat k :: u32) = k" "sint (of_nat k :: u32) = int k"
    using sint_small[of "int k"] by (simp_all add: unat_of_nat_small)
  then show ?thesis
    using True u fd m by (simp add: block_addr_of_def DIRECT_BLOCK_COUNT_def nth_opt_def file_addrs_def fd_ok_def nth_append Let_def)
next
  case False
  have a: "blocks i ! 12 \<noteq> 0" using k False m(1) by (auto simp: file_addrs_def)
  have "length (addrs_of (blk I (blocks i ! 12))) = 256" using length_blk[OF u(1)] u(2) by (simp add: addrs_of_def)
  then have k2: "k < 268" using k a m(1) by (simp add: file_addrs_def)
  then have k3: "k - 12 < 256" using False by linarith
  have j1: "(of_nat k :: u32) - of_nat DIRECT_BLOCK_COUNT = of_nat (k - 12)" using False by (simp add: DIRECT_BLOCK_COUNT_def)
  have s0: "sint (of_nat k :: u32) = int k" using k2 sint_small[of "int k"] by simp
  have s2: "sint (of_nat (k - 12) - 256 :: u32) < 0" using sint_diff_small[of 256 "k - 12"] k2 by simp
  have s3: "sint (of_nat (k - 12) - 256 - 256 * 256 :: u32) < 0" using sint_diff_small[of 65792 "k - 12"] k2 by simp
  have s4: "sint (of_nat (k - 12) - 256 - 256 * 256 - 256 * 256 * 256 :: u32) < 0" using sint_diff_small[of 16843008 "k - 12"] k2 by simp
  obtain fd' w' where r: "first_addr b dev 1024 (of_nat (k - 12)) (fd, w, -1) = Some (fd', w', addrs_of (blk I (blocks i ! 12)) ! (k - 12))"
    "fd_ok I i fd'" "up w'" "img w' = I"
    using first_addr_ok[OF u fd a _ k3, of "-1"] m(2) a by auto
  have "file_addrs I i ! k = addrs_of (blk I (blocks i ! 12)) ! (k - 12)" using False a m(1) by (simp add: file_addrs_def nth_append)
  then show ?thesis
    using r s0 s2 s3 s4 False unfolding block_addr_of_def Let_def j1
    by (simp add: second_addr_def third_addr_def DIRECT_BLOCK_COUNT_def)
qed

lemma file_image_take:
  assumes "\<And>a. length (blk I a) = 1024" "k < length (file_addrs I i)" "off + n \<le> 1024"
  shows "take n (drop (1024 * k + off) (file_image I i)) = take n (drop off (blk I (file_addrs I i ! k)))"
proof -
  let ?as = "file_addrs I i"
  have l: "length (concat (map (blk I) xs)) = 1024 * length xs" for xs by (induct xs) (simp_all add: assms(1))
  have "file_image I i = concat (map (blk I) (take k ?as)) @ blk I (?as ! k) @ concat (map (blk I) (drop (Suc k) ?as))"
    unfolding file_image_def by (subst id_take_nth_drop[OF assms(2)]) simp
  moreover have "length (concat (map (blk I) (take k ?as))) = 1024 * k" using assms(2) by (simp add: l)
  ultimately show ?thesis using assms(1,3) by (simp add: drop_append take_append)
qed

lemma file_read_loop_ok:
  assumes "up w" "img w = I" "fd_ok I i fd" "mapped cap I i L" "unat pos + unat sz \<le> L" "L < 2 ^ 32" "length rbuf = 1024"
  shows "\<exists>fd' w'. ext2_read_loop b dev 1024 (pos div 1024) pos sz rbuf out fd w =
      Some (sint (of_nat (length out + unat sz) :: u32), out @ take (unat sz) (drop (unat pos) (file_image I i)), pos + sz, fd', w') \<and>
    fd_ok I i fd' \<and> up w' \<and> img w' = I"
  using assms(1,2,3,5,7)
proof (induct "unat sz" arbitrary: pos sz rbuf out fd w rule: less_induct)
  case less
  show ?case
  proof (cases "sz = 0")
    case True
    then show ?thesis using less.prems by (subst ext2_read_loop.simps) simp
  next
    case False
    define k off where "k = unat pos div 1024" and "off = unat pos mod 1024"
    have kp: "unat pos = 1024 * k + off" "off < 1024" by (simp_all add: k_def off_def)
    have sz: "0 < unat sz" using False by (simp add: unat_gt_0)
    have m: "length (blocks i) = 15" "blocks i ! 12 \<noteq> 0 \<longrightarrow> on_dev cap (blocks i ! 12)" using assms(4) by (simp_all add: mapped_def)
    have "k * 1024 < L" using less.prems(4) sz kp(1) by linarith
    then have a: "k < length (file_addrs I i)" "file_addrs I i ! k \<noteq> 0" "on_dev cap (file_addrs I i ! k)"
      using assms(4) by (auto simp: mapped_def)
    let ?a = "file_addrs I i ! k"
    have k32: "k + 1 < 2 ^ 32" using less.prems(4) assms(6) kp sz by linarith
    have pd: "pos div 1024 = of_nat k" "unat (pos mod 1024) = off"
      using k32 by (simp_all add: word_unat_eq_iff unat_div_distrib unat_mod_distrib unat_of_nat_small k_def[symmetric] off_def)
    obtain fd1 w1 where b1: "block_addr_of b dev 1024 (of_nat k) fd w = Some (fd1, w1, Some ?a)" "fd_ok I i fd1" "up w1" "img w1 = I"
      using block_addr_ok[OF less.prems(1-3) m a(1)] by auto
    obtain w2 where b2: "read_into b dev 1024 rbuf ?a w1 = Some (2, blk I ?a, w2)" "up w2" "img w2 = I"
      using read_into_ok[OF b1(3) a(3) less.prems(5)] b1(4) by auto
    define n where "n = min sz (1024 - pos mod 1024)"
    have o1: "unat (1024 - pos mod 1024) = 1024 - off" using kp(2) pd(2) by (subst unat_sub) (simp_all add: word_le_nat_alt)
    have un: "unat n = min (unat sz) (1024 - off)" by (simp add: n_def min_def word_le_nat_alt o1)
    have n: "0 < unat n" "unat n \<le> unat sz" "off + unat n \<le> 1024" using un sz kp(2) by auto
    have us: "unat (sz - n) = unat sz - unat n" using n(2) by (subst unat_sub) (simp_all add: word_le_nat_alt)
    have up': "unat (pos + n) = unat pos + unat n" using less.prems(4) assms(6) n(2) by (simp add: unat_add_small)
    have F: "take (unat n) (drop (unat pos) (file_image I i)) = take (unat n) (drop off (blk I ?a))"
      using file_image_take[of I k i off "unat n"] a(1) n(3) length_blk[OF b2(2)] b2(3) kp(1) by simp
    have lo: "length (take (unat n) (drop off (blk I ?a))) = unat n" using n(3) length_blk[OF b2(2)] b2(3) by auto
    have step: "ext2_read_loop b dev 1024 (pos div 1024) pos sz rbuf out fd w =
        ext2_read_loop b dev 1024 (of_nat k + 1) (pos + n) (sz - n) (blk I ?a) (out @ take (unat n) (drop off (blk I ?a))) fd1 w2"
      by (subst ext2_read_loop.simps) (simp add: False pd b1 b2 a(2) Let_def n_def)
    have nxt: "sz - n = 0 \<or> of_nat k + 1 = (pos + n) div 1024"
    proof (cases "unat n = unat sz")
      case True
      then have "n = sz" by (simp only: word_unat_eq_iff)
      then show ?thesis by simp
    next
      case False
      then have "unat n = 1024 - off" using un by simp
      then have "unat (pos + n) = 1024 * (k + 1)" using up' kp by simp
      then have "unat ((pos + n) div 1024) = unat (of_nat (k + 1) :: u32)" using k32 by (simp add: unat_div_distrib unat_of_nat_small del: of_nat_add of_nat_Suc)
      then have "(pos + n) div 1024 = of_nat (k + 1)" by (simp only: word_unat_eq_iff)
      then show ?thesis by simp
    qed
    let ?out = "out @ take (unat n) (drop off (blk I ?a))"
    have "\<exists>fd' w'. ext2_read_loop b dev 1024 (of_nat k + 1) (pos + n) (sz - n) (blk I ?a) ?out fd1 w2 =
      Some (sint (of_nat (length ?out + unat (sz - n)) :: u32), ?out @ take (unat (sz - n)) (drop (unat (pos + n)) (file_image I i)), (pos + n) + (sz - n), fd', w') \<and>
      fd_ok I i fd' \<and> up w' \<and> img w' = I"
    proof (cases "sz - n = 0")
      case True
      then show ?thesis using b2 b1(2) by (subst ext2_read_loop.simps) simp
    next
      case False
      then have e: "of_nat k + 1 = (pos + n) div 1024" using nxt by blast
      show ?thesis unfolding e
        by (rule less.hyps) (use n us up' b1 b2 less.prems(4) length_blk[OF b2(2)] in auto)
    qed
    moreover have "?out @ take (unat (sz - n)) (drop (unat (pos + n)) (file_image I i)) = out @ take (unat sz) (drop (unat pos) (file_image I i))"
      using n(2) take_add[of "unat n" "unat sz - unat n" "drop (unat pos) (file_image I i)"] by (simp add: us up' F) (simp add: add.commute)
    moreover have "length ?out + unat (sz - n) = length out + unat sz" using n(2) us lo by simp
    moreover have "(pos + n) + (sz - n) = pos + sz" by simp
    ultimately show ?thesis unfolding step by (simp only:)
  qed
qed

theorem read_file_ok:
  assumes "up (dv s)" and f: "f_type fl = FILE_FILE" "e_files s (f_data fl) = Some fd" "e_descs s (fs_data fs) = Some desc" "fs_dev_id fs = dev"
    and d: "ext2_block_size desc = 1024" "fd_ok (img (dv s)) i fd" "mapped cap (img (dv s)) i (unat (f_size fl))" "f_pos fl \<le> f_size fl"
    and n: "n < 2 ^ 31"
  shows "\<exists>s' fd'. ext2_read b fs fl n s =
      Some (int (min n (unat (f_size fl) - unat (f_pos fl))), take n (drop (unat (f_pos fl)) (take (unat (f_size fl)) (file_image (img (dv s)) i))),
        fl\<lparr>f_pos := f_pos fl + of_nat (min n (unat (f_size fl) - unat (f_pos fl)))\<rparr>, s') \<and>
    up (dv s') \<and> img (dv s') = img (dv s) \<and> e_descs s' = e_descs s \<and> e_files s' (f_data fl) = Some fd' \<and> fd_ok (img (dv s)) i fd'"
proof -
  define sz where "sz = min (of_nat n) (f_size fl - f_pos fl)"
  let ?N = "min n (unat (f_size fl) - unat (f_pos fl))"
  have le: "unat (f_pos fl) \<le> unat (f_size fl)" using d(4) by (simp add: word_le_nat_alt)
  have "unat (f_size fl - f_pos fl) = unat (f_size fl) - unat (f_pos fl)" using d(4) by (simp add: unat_sub)
  moreover have "unat (of_nat n :: u32) = n" using n by (simp add: unat_of_nat_small)
  ultimately have usz: "unat sz = ?N" by (simp add: sz_def min_def word_le_nat_alt)
  have take: "take n (drop (unat (f_pos fl)) (take (unat (f_size fl)) F)) = take ?N (drop (unat (f_pos fl)) F)" for F :: "u8 list"
    by (simp add: drop_take min.commute)
  have szN: "sz = of_nat ?N" using usz[symmetric] by simp
  show ?thesis
  proof (cases "sz = 0")
    case True
    then have "?N = 0" using usz by simp
    then show ?thesis using f d True assms(1) unfolding take
      by (simp add: ext2_read_def Let_def sz_def[symmetric])
  next
    case False
    have inl: "unat (f_pos fl) + unat sz \<le> unat (f_size fl)" using usz le by linarith
    obtain fd' w' where r: "ext2_read_loop b dev 1024 (f_pos fl div 1024) (f_pos fl) sz (replicate 1024 0) [] fd (dv s) =
        Some (sint (of_nat (unat sz) :: u32), take (unat sz) (drop (unat (f_pos fl)) (file_image (img (dv s)) i)), f_pos fl + sz, fd', w')"
      "fd_ok (img (dv s)) i fd'" "up w'" "img w' = img (dv s)"
      using file_read_loop_ok[OF assms(1) refl d(2,3) inl, of "replicate 1024 0" "[]"] unsigned_less[of "f_size fl", where ?'a = nat] by auto
    have "sint (of_nat (unat sz) :: u32) = int ?N" using n sint_small[of "int ?N"] usz by simp
    then have "ext2_read b fs fl n s = Some (int ?N, take ?N (drop (unat (f_pos fl)) (file_image (img (dv s)) i)), fl\<lparr>f_pos := f_pos fl + of_nat ?N\<rparr>,
        s\<lparr>dv := w', e_files := (e_files s)(f_data fl \<mapsto> fd')\<rparr>)"
      using f d False r(1) usz szN by (simp add: ext2_read_def Let_def sz_def[symmetric])
    then show ?thesis using r(2-4) take by simp
  qed
qed

end

interpretation disk0: ata_part ata_ports PRIMARY_PORT_BASE "\<lambda>a. a" "[dev_disk_desc ata_ports]" 0 dev minor dr p "min room (2 ^ 23)"
  for dev minor dr p room
  by unfold_locales (simp_all add: nth_opt_def)

end
