(* ===== verification/Ext2_Props.thy ===== *)
theory Ext2_Props
  imports Ext2_Proofs
begin

text \<open>
  The properties of the ext2 driver on the disk driver on the reference controller, and the faults of both drivers.
\<close>

section \<open>Reading a file\<close>

abbreviation disk_up :: "int \<Rightarrow> int \<Rightarrow> nat \<Rightarrow> part_info_t \<Rightarrow> nat \<Rightarrow> ata disk_w devs \<Rightarrow> bool" where
  "disk_up dev minor dr p room \<equiv> part_up_of PRIMARY_PORT_BASE (\<lambda>a. a) 0 dev minor dr p (min room (2 ^ 23))"

abbreviation disk_img :: "nat \<Rightarrow> part_info_t \<Rightarrow> ata disk_w devs \<Rightarrow> nat \<Rightarrow> u8 list" where
  "disk_img dr p \<equiv> part_img_of (\<lambda>a. a) dr p"

abbreviation disk_bdev :: "ata disk_w devs bdev" where
  "disk_bdev \<equiv> device_bdev [dev_disk_desc ata_ports]"

text \<open>
  C12: Reading an open ext2 file whose first \<open>f_size\<close> bytes are mapped without holes by the direct blocks and the first
  indirect block, on an open disk partition of at most 4 GB with blocks of 1 KB, returns: the number of bytes asked for or left
  in the file, exactly the bytes of the file's blocks from the position on up to its size, and the position moved on by
  that number; the disk does not change, and the cached block of addresses stays right.
\<close>

theorem ext2_read_file:
  assumes "disk_up dev minor dr p room (dv s)"
    and "f_type fl = FILE_FILE" "e_files s (f_data fl) = Some fd" "e_descs s (fs_data fs) = Some desc" "fs_dev_id fs = dev"
    and "ext2_block_size desc = 1024" "fd_ok (disk_img dr p (dv s)) i fd" "mapped (min room (2 ^ 23)) (disk_img dr p (dv s)) i (unat (f_size fl))"
    and "f_pos fl \<le> f_size fl" "n < 2 ^ 31"
  shows "\<exists>s' fd'. ext2_read disk_bdev fs fl n s =
      Some (int (min n (unat (f_size fl) - unat (f_pos fl))), take n (drop (unat (f_pos fl)) (take (unat (f_size fl)) (file_image (disk_img dr p (dv s)) i))),
        fl\<lparr>f_pos := f_pos fl + of_nat (min n (unat (f_size fl) - unat (f_pos fl)))\<rparr>, s') \<and>
    disk_up dev minor dr p room (dv s') \<and> disk_img dr p (dv s') = disk_img dr p (dv s) \<and> e_descs s' = e_descs s \<and>
    e_files s' (f_data fl) = Some fd' \<and> fd_ok (disk_img dr p (dv s)) i fd'"
  using assms by (rule disk0.disk.read_file_ok)

text \<open>A disk full of the letters AB with one file of 1500 bytes in the blocks 7 and 9.\<close>

definition ex_part :: part_info_t where
  "ex_part = \<lparr>pt_name = [], pt_type = 0x83, pt_sector_start = 4, pt_sector_count = 96, pt_disk = Some 0\<rparr>"

definition ex_ata :: ata where
  "ex_ata = \<lparr>a_count = (0, 0), a_low = (0, 0), a_mid = (0, 0), a_high = (0, 0), a_drive = 0, a_mode = Ready, a_busy = 0, a_lat = 3, a_wlat = 0,
     a_cap = (\<lambda>_. 100), a_media = (\<lambda>_ _. replicate 256 0x4241)\<rparr>"

definition ex_devs :: "ata disk_w devs" where
  "ex_devs = \<lparr>devices = [\<lparr>dv_desc = Some 0, dv_minor = 0, open_count = 1\<rparr>],
     hw = \<lparr>disks = [\<lparr>dk_name = [], port_base = 0x1F0, drive = 0, sector_size = 512, sector_count = 100, parts = [ex_part]\<rparr>], has_read = False, phw = ex_ata\<rparr>\<rparr>"

definition ex_inode :: inode_t where
  "ex_inode = (inode_at (replicate 128 0))\<lparr>size0_31 := 1500, blocks := [7, 9, 0, 0, 0, 0, 0, 0, 0, 0, 0, 0, 0, 0, 0]\<rparr>"

definition ex_sb :: super_block_t where
  "ex_sb = (super_block_at (replicate 84 0))\<lparr>inodes_per_group := 8\<rparr>"

definition ex_desc :: ext2_desc where
  "ex_desc = \<lparr>super_block = ex_sb, super_block_ext = \<lparr>first_inode = 11, inode_size = 128, block_group_idx = 0, sbe_rest = []\<rparr>,
     block_groups = [\<lparr>block_bitmap = 3, inode_bitmap = 4, inode_table = 5, bg_unallocated_block_count = 0, bg_unallocated_inode_count = 0, dir_count = 1\<rparr>]\<rparr>"

definition ex_world :: "ata disk_w devs ext2_w" where
  "ex_world = \<lparr>dv = ex_devs, e_descs = [1 \<mapsto> ex_desc],
     e_files = [2 \<mapsto> \<lparr>fd_inode = ex_inode, inode_idx = 3, first_indirect_blocks = None, second_indirect_idx = None,
       second_indirect_blocks = (\<lambda>_. None), third_indirect_idx1 = None\<rparr>], e_next = 3\<rparr>"

lemma ex_disk_up: "disk_up 0 0 0 ex_part 96 ex_devs"
  unfolding part_up_of_def part_ready_of_def
  by (simp add: ex_devs_def ex_part_def ex_ata_def minor_part_def nth_opt_def clean_def PRIMARY_PORT_BASE_def Let_def)

lemma ex_block_size: "ext2_block_size ex_desc = 1024"
  by (simp add: ext2_block_size_def kb_size_def ex_desc_def ex_sb_def super_block_at_def le32_at_def)

lemma ex_mapped: "mapped 96 I ex_inode 1500"
proof -
  have e: "file_addrs I ex_inode = [7, 9, 0, 0, 0, 0, 0, 0, 0, 0, 0, 0]" by (simp add: file_addrs_def ex_inode_def)
  have "k < 12 \<and> file_addrs I ex_inode ! k \<noteq> 0 \<and> on_dev 96 (file_addrs I ex_inode ! k)" if "k * 1024 < 1500" for k
  proof -
    have "k = 0 \<or> k = 1" using that by auto
    then show ?thesis by (auto simp: e on_dev_def)
  qed
  then show ?thesis by (simp add: mapped_def e) (simp add: ex_inode_def)
qed

theorem ext2_read_file_witness:
  "\<exists>s'. ext2_read disk_bdev \<lparr>mount_point = [], fs_type = FS_EXT2, fs_ops = FS_EXT2, fs_dev_id = 0, fs_data = 1\<rparr>
      (no_file\<lparr>f_type := FILE_FILE, f_data := 2, f_size := 1500, f_pos := 1000\<rparr>) 400 ex_world =
     Some (400, take 400 (drop 1000 (take 1500 (file_image (disk_img 0 ex_part ex_devs) ex_inode))),
       no_file\<lparr>f_type := FILE_FILE, f_data := 2, f_size := 1500, f_pos := 1400\<rparr>, s')"
proof -
  have m: "mapped (min 96 (2 ^ 23)) (disk_img 0 ex_part ex_devs) ex_inode 1500" using ex_mapped by simp
  show ?thesis
    using ext2_read_file[of 0 0 0 ex_part 96 ex_world "no_file\<lparr>f_type := FILE_FILE, f_data := 2, f_size := 1500, f_pos := 1000\<rparr>" _
      "\<lparr>mount_point = [], fs_type = FS_EXT2, fs_ops = FS_EXT2, fs_dev_id = 0, fs_data = 1\<rparr>" ex_desc ex_inode 400] ex_disk_up ex_block_size m
    by (auto simp: ex_world_def fd_ok_def)
qed


lemma ex_inode_loc: "inode_loc 96 ex_desc 3 5 256" "inode_loc 96 ex_desc 4 5 384"
  unfolding inode_loc_def ex_block_size
  by (simp_all add: inode_place_def ex_block_size on_dev_def)
    (simp_all add: ex_desc_def ex_sb_def nth_opt_def Let_def)


section \<open>Faults\<close>

text \<open>Three or more sectors cannot be read at once: the third one lands two sectors behind the second.\<close>

lemma disk_read_three_faults:
  assumes "part_ready_of PRIMARY_PORT_BASE (\<lambda>a. a) minor dr p w" "3 \<le> n" "n < 2 ^ 16"
    and "unat (addr + pt_sector_start p) + n \<le> a_cap (phw w) dr"
  shows "disk_read ata_ports minor addr n w = None"
  using assms by (rule ata0.disk_read_many)

text \<open>\<open>SEEK_END\<close> reports an error, and \<open>SEEK_CUR\<close> an overflow for every position from 16 on.\<close>

lemma ext2_seek_end_einval: "\<exists>fl' s'. ext2_seek fs fl offset SEEK_END s = Some (EINVAL, fl', s')"
  by (simp add: ext2_seek_def SEEK_END_def SEEK_SET_def SEEK_CUR_def)

lemma ext2_seek_cur_overflow: "16 \<le> f_pos fl \<Longrightarrow> ext2_seek fs fl 0 SEEK_CUR s = Some (EOVERFLOW, fl, s)"
  by (simp add: ext2_seek_def SEEK_SET_def SEEK_CUR_def Let_def)

text \<open>Every path that starts with a slash is the root directory.\<close>

lemma absolute_path_is_root: "is_root_path (47 # path)"
  by (simp add: is_root_path_def strcmp_eq_def)

text \<open>The first block of an empty file is never allocated: the blocks are stored from index 1 on.\<close>

lemma store_blocks_below: "store_blocks k as bl = Some bl' \<Longrightarrow> i < k \<Longrightarrow> bl' ! i = bl ! i"
  by (induct as arbitrary: k bl) (auto simp: upd_opt_def split: if_splits)

lemma grow_file_skips_first:
  assumes "grow_file b dev desc fl sz inode w = Some (inode', desc', w')" "f_size fl = 0"
  shows "blocks inode' ! 0 = blocks inode ! 0"
proof -
  obtain cap where cap: "up2 0 (ext2_block_size desc) = Some cap"
    using assms by (auto simp: grow_file_def bind_eq_Some_conv Let_def)
  then have "cap = 0" by (auto simp: up2_def split: if_splits)
  then show ?thesis
    using assms cap store_blocks_below[of 1 _ "blocks inode" _ 0]
    by (auto simp: grow_file_def bind_eq_Some_conv Let_def split: if_splits)
qed

text \<open>A directory entry of length 0 that is not the one looked for is visited forever.\<close>

definition stuck_entry :: "u8 list \<Rightarrow> u32 \<Rightarrow> u8 list \<Rightarrow> nat \<Rightarrow> bool" where
  "stuck_entry buf bsz nm off \<longleftrightarrow> off < unat bsz \<and> off + sizeof_dir_entry \<le> length buf \<and> de_rec_len (dir_entry_at buf off) = 0 \<and>
     length nm \<noteq> unat (name_length (dir_entry_at buf off)) \<and> de_inode (dir_entry_at buf off) \<noteq> 0"

lemma find_entry_diverges:
  assumes "stuck_entry buf bsz nm off"
  shows "find_entry buf bsz nm off = None"
proof -
  have "\<not> stuck_entry buf bsz nm off" if "find_entry buf bsz nm off = Some r" for r
    using that
  proof (rule find_entry.raw_induct[rotated])
    fix f :: "u8 list \<Rightarrow> u32 \<Rightarrow> u8 list \<Rightarrow> nat \<Rightarrow> u32 option option" and buf bsz nm off r
    assume IH: "\<And>buf bsz nm off r. f buf bsz nm off = Some r \<Longrightarrow> \<not> stuck_entry buf bsz nm off"
      and st: "(if \<not> off < unat bsz then Some None
      else if length buf < off + sizeof_dir_entry then None
      else if de_inode (dir_entry_at buf off) = 0 then Some None
      else if length nm = unat (name_length (dir_entry_at buf off)) \<and> length buf < off + sizeof_dir_entry + length nm then None
      else if length nm = unat (name_length (dir_entry_at buf off)) \<and> dir_entry_name buf off = nm
        then Some (Some (de_inode (dir_entry_at buf off)))
      else f buf bsz nm (off + unat (de_rec_len (dir_entry_at buf off)))) = Some r"
    show "\<not> stuck_entry buf bsz nm off"
    proof
      assume s: "stuck_entry buf bsz nm off"
      then have "f buf bsz nm off = Some r" using st by (simp add: stuck_entry_def)
      then show False using IH s by blast
    qed
  qed
  then show ?thesis using assms by (cases "find_entry buf bsz nm off") auto
qed

end
