(* ===== verification/Process.thy ===== *)
theory Process
  imports Thread
begin

text \<open>
  Processes (\<open>kernel/thread/process.c\<close>) and completions (\<open>kernel/thread/schedule/completion.c\<close>), on top of
  the threads.  The state adds to the kernel the interrupt frame at the top of the kernel stack of each task
  and the completions, named by numbers.  The queue of a completion is the list of the tasks whose nodes are in it.

  A function that blocks ends where it calls the scheduler; what it does when the task runs again is a definition of its
  own.  Kernel addresses are their own physical addresses, user addresses go through the page tables.  The addresses of
  the functions a thread starts with are numbers.  \<open>None\<close> is a fault.  The value of a function that ends without
  a return statement is an argument.
\<close>

section \<open>State\<close>

record process_stack =
  ps_intr_no :: u32
  ps_edi :: u32
  ps_esi :: u32
  ps_ebp :: u32
  ps_esp_dummy :: u32
  ps_ebx :: u32
  ps_edx :: u32
  ps_ecx :: u32
  ps_eax :: u32
  ps_gs :: u32
  ps_fs :: u32
  ps_es :: u32
  ps_ds :: u32
  ps_err_code :: u32
  ps_eip :: u32
  ps_cs :: u32
  ps_eflags :: u32
  ps_esp :: u32
  ps_ss :: u32

record completion_t =
  c_done :: u32
  c_wait :: "addr list"

record pstate =
  pk :: kernel
  frames :: "addr \<Rightarrow> process_stack"
  compls :: "nat \<Rightarrow> completion_t"
  cnext :: nat

definition upd_pk :: "(kernel \<Rightarrow> kernel option) \<Rightarrow> pstate \<Rightarrow> pstate option" where
  "upd_pk f s = do { k \<leftarrow> f (pk s); Some (s\<lparr>pk := k\<rparr>) }"

definition INIT_PID :: u32 where "INIT_PID = 1"
definition EFLAGS :: u32 where "EFLAGS = 0 OR push_bit 1 1 OR push_bit 9 1"
definition USER_SELECTOR_CS :: u32 where "USER_SELECTOR_CS = 27"
definition USER_SELECTOR_DS :: u32 where "USER_SELECTOR_DS = 35"
definition fn_start_process :: nat where "fn_start_process = 1"
definition fn_start_init_process :: nat where "fn_start_init_process = 2"
definition fn_start_clone_process :: nat where "fn_start_clone_process = 3"

section \<open>Completions\<close>

definition init_completion :: "nat \<Rightarrow> pstate \<Rightarrow> pstate" where
  "init_completion c s = s\<lparr>compls := (compls s)(c := \<lparr>c_done = 0, c_wait = []\<rparr>)\<rparr>"

definition SCHEDULE_TIMEOUT_MAX :: int where "SCHEDULE_TIMEOUT_MAX = -1"

definition schedule_timeout :: "int \<Rightarrow> int" where
  "schedule_timeout timeout =
     (if timeout = SCHEDULE_TIMEOUT_MAX then (if timeout < 0 then 0 else timeout) else timeout - 100)"

text \<open>
  \<open>do_wait_for_common\<close> in three parts: the test at the start, a round of the loop up to the call of the scheduler, and
  what follows when the task runs again: \<open>None\<close> for another round, otherwise the result.
\<close>

definition take_done :: "nat \<Rightarrow> int \<Rightarrow> pstate \<Rightarrow> int \<times> pstate" where
  "take_done c timeout s =
     (let s1 = (if c_done (compls s c) \<noteq> -1 then s\<lparr>compls := (compls s)(c := (compls s c)\<lparr>c_done := c_done (compls s c) - 1\<rparr>)\<rparr> else s)
      in (if timeout = 0 then 1 else timeout, s1))"

definition wait_round :: "nat \<Rightarrow> task_status \<Rightarrow> pstate \<Rightarrow> pstate option" where
  "wait_round c st s =
     upd_pk (thread_block (cur (pk s)) st) (s\<lparr>compls := (compls s)(c := (compls s c)\<lparr>c_wait := c_wait (compls s c) @ [cur (pk s)]\<rparr>)\<rparr>)"

definition wait_resume :: "nat \<Rightarrow> (int \<Rightarrow> int) \<Rightarrow> int \<Rightarrow> pstate \<Rightarrow> (int option \<times> int) \<times> pstate" where
  "wait_resume c action timeout s =
     (let t = action timeout
      in if c_done (compls s c) = 0 \<and> t \<noteq> 0 then ((None, t), s)
         else if c_done (compls s c) = 0 then ((Some t, t), s)
         else case take_done c t s of (r, s1) \<Rightarrow> ((Some r, t), s1))"

definition do_wait_for_common :: "nat \<Rightarrow> int \<Rightarrow> task_status \<Rightarrow> pstate \<Rightarrow> (int option \<times> pstate) option" where
  "do_wait_for_common c timeout st s =
     (if c_done (compls s c) = 0 then do { s1 \<leftarrow> wait_round c st s; Some (None, s1) }
      else case take_done c timeout s of (r, s1) \<Rightarrow> Some (Some r, s1))"

definition wait_for_completion :: "nat \<Rightarrow> pstate \<Rightarrow> (int option \<times> pstate) option" where
  "wait_for_completion c s = do_wait_for_common c SCHEDULE_TIMEOUT_MAX TASK_WAITING s"

definition complete :: "nat \<Rightarrow> pstate \<Rightarrow> pstate option" where
  "complete c s =
     (let x = compls s c; x1 = (if c_done x \<noteq> -1 then x\<lparr>c_done := c_done x + 1\<rparr> else x)
      in case c_wait x1 of
           [] \<Rightarrow> Some (s\<lparr>compls := (compls s)(c := x1)\<rparr>)
         | t # ts \<Rightarrow> upd_pk (set_thread_status t TASK_READY False) (s\<lparr>compls := (compls s)(c := x1\<lparr>c_wait := ts\<rparr>)\<rparr>))"

fun wake_all :: "addr list \<Rightarrow> kernel \<Rightarrow> kernel option" where
  "wake_all [] k = Some k"
| "wake_all (t # ts) k = do { k1 \<leftarrow> set_thread_status t TASK_READY False k; wake_all ts k1 }"

definition complete_all :: "nat \<Rightarrow> pstate \<Rightarrow> pstate option" where
  "complete_all c s =
     upd_pk (wake_all (c_wait (compls s c))) (s\<lparr>compls := (compls s)(c := \<lparr>c_done = -1, c_wait = []\<rparr>)\<rparr>)"

section \<open>User memory\<close>

definition user_paddr :: "u32 \<Rightarrow> u32 \<Rightarrow> mem_state \<Rightarrow> u32 option" where
  "user_paddr pd a st =
     (let pte = get_pte pd a st
      in if pte = 0 \<or> \<not> pe_present (ram st pte) then None else Some (pe_phy_addr (pe_frame (ram st pte)) + (a AND 0xfff)))"

definition user_load :: "u32 \<Rightarrow> mem_state \<Rightarrow> u32 option" where
  "user_load a st = do { p \<leftarrow> user_paddr (cr3 st) a st; Some (ram st p) }"

definition user_store :: "u32 \<Rightarrow> u32 \<Rightarrow> mem_state \<Rightarrow> mem_state option" where
  "user_store a v st = do { p \<leftarrow> user_paddr (cr3 st) a st; Some (write_ram p v st) }"

text \<open>\<open>memcpy\<close> of \<open>n\<close> words from user memory to a kernel page and back.\<close>

fun copy_in :: "u32 \<Rightarrow> u32 \<Rightarrow> nat list \<Rightarrow> mem_state \<Rightarrow> mem_state option" where
  "copy_in dest vaddr [] st = Some st"
| "copy_in dest vaddr (i # is) st = do {
     v \<leftarrow> user_load (vaddr + 4 * of_nat i) st;
     copy_in dest vaddr is (write_ram (dest + 4 * of_nat i) v st)
   }"

fun copy_out :: "u32 \<Rightarrow> u32 \<Rightarrow> nat list \<Rightarrow> mem_state \<Rightarrow> mem_state option" where
  "copy_out vaddr src [] st = Some st"
| "copy_out vaddr src (i # is) st = do {
     st1 \<leftarrow> user_store (vaddr + 4 * of_nat i) (ram st (src + 4 * of_nat i)) st;
     copy_out vaddr src is st1
   }"

section \<open>Entering user mode\<close>

definition user_mode_stack_addr :: "mem_state \<Rightarrow> u32" where
  "user_mode_stack_addr m = ucast (kernel_all_memory m + user_all_memory m - 4096)"

text \<open>The frame that \<open>intr_exit\<close> pops; \<open>self_kstack\<close> moves by 32 words.\<close>

definition process_kernel2user :: "addr \<Rightarrow> u32 \<Rightarrow> u32 \<Rightarrow> u32 \<Rightarrow> pstate \<Rightarrow> process_stack \<times> pstate" where
  "process_kernel2user t intr_no p_func user_stack s =
     (\<lparr>ps_intr_no = intr_no, ps_edi = 0, ps_esi = 0, ps_ebp = 0, ps_esp_dummy = 0, ps_ebx = 0, ps_edx = 0, ps_ecx = 0, ps_eax = 0,
        ps_gs = USER_SELECTOR_DS, ps_fs = USER_SELECTOR_DS, ps_es = USER_SELECTOR_DS, ps_ds = USER_SELECTOR_DS, ps_err_code = 0,
        ps_eip = p_func, ps_cs = USER_SELECTOR_CS, ps_eflags = EFLAGS, ps_esp = user_stack, ps_ss = USER_SELECTOR_DS\<rparr>,
      s\<lparr>pk := upd_task t (\<lambda>x. x\<lparr>self_kstack := self_kstack x + 4 * 32\<rparr>) (pk s)\<rparr>)"

definition user_push :: "u32 \<Rightarrow> u32 \<Rightarrow> pstate \<Rightarrow> (u32 \<times> pstate) option" where
  "user_push sp v s = do {
     m \<leftarrow> user_store (sp - 4) v (mem (pk s));
     Some (sp - 4, s\<lparr>pk := (pk s)\<lparr>mem := m\<rparr>\<rparr>)
   }"

definition start_process_with :: "u32 \<Rightarrow> u32 \<Rightarrow> int \<Rightarrow> u32 \<Rightarrow> pstate \<Rightarrow> (process_stack \<times> pstate) option" where
  "start_process_with intr_no p_func argc argv s = do {
     let t = cur (pk s);
     let vaddr0 = user_mode_stack_addr (mem (pk s));
     (vaddr, k1) \<leftarrow> (if snd (vaddr2paddr (page_dir (task (pk s) t)) vaddr0 (mem (pk s))) then Some (vaddr0, pk s)
                     else malloc_thread_mem_vaddr vaddr0 1 (pk s));
     let s1 = s\<lparr>pk := k1\<rparr>;
     let sp = vaddr + MEM_PAGE_SIZE;
     (sp', s2) \<leftarrow> (if argc > 0 \<and> argv \<noteq> 0
                   then do { (sp1, t1) \<leftarrow> user_push sp argv s1; user_push sp1 (of_int argc) t1 }
                   else Some (sp, s1));
     Some (process_kernel2user t intr_no p_func sp' s2)
   }"

definition start_process :: "u32 \<Rightarrow> u32 \<Rightarrow> pstate \<Rightarrow> (process_stack \<times> pstate) option" where
  "start_process intr_no p_func s = start_process_with intr_no p_func 0 0 s"

text \<open>\<open>bm\<close> is what the pages for the bitmap hold.\<close>

definition init_process_mem :: "u8 list \<Rightarrow> addr \<Rightarrow> kernel \<Rightarrow> kernel option" where
  "init_process_mem bm t k = do {
     (pd, m) \<leftarrow> create_uvm (mem k);
     m1 \<leftarrow> init_user_vir_addr_alloc t bm m;
     Some (upd_task t (\<lambda>x. x\<lparr>page_dir := pd, vir_addr_alloc := User_vir t\<rparr>) (k\<lparr>mem := m1\<rparr>))
   }"

definition execute_as :: "u8 list \<Rightarrow> nat \<Rightarrow> u32 \<Rightarrow> string \<Rightarrow> kernel \<Rightarrow> kernel option" where
  "execute_as bm fn p_func name k = do {
     let c = cur k;
     (t, k1) \<leftarrow> alloc_task k;
     k2 \<leftarrow> init_thread t name TASK_DEFAULT_PRIORITY k1;
     (p, pa) \<leftarrow> alloc_pid (pid_alloc k2);
     let k3 = upd_task t (\<lambda>x. x\<lparr>pid := p, parent_pid := pid (task k2 c)\<rparr>) (k2\<lparr>pid_alloc := pa\<rparr>);
     k4 \<leftarrow> init_process_mem bm t (thread_create t fn p_func k3);
     k5 \<leftarrow> push_ready t k4;
     push_all_tasks t k5
   }"

definition process_execute :: "u8 list \<Rightarrow> u32 \<Rightarrow> string \<Rightarrow> kernel \<Rightarrow> kernel option" where
  "process_execute bm p_func name k = execute_as bm fn_start_process p_func name k"

definition process_execute_init :: "u8 list \<Rightarrow> kernel \<Rightarrow> kernel option" where
  "process_execute_init bm k = execute_as bm fn_start_init_process 0 ''init'' k"

definition process_get_pid :: "kernel \<Rightarrow> u32" where
  "process_get_pid k = pid (task k (cur k))"

definition process_get_ppid :: "kernel \<Rightarrow> u32" where
  "process_get_ppid k = parent_pid (task k (cur k))"

section \<open>fork\<close>

text \<open>The copy of the page of the parent: the structure, its list nodes and its kernel stack.\<close>

definition copy_page :: "addr \<Rightarrow> addr \<Rightarrow> pstate \<Rightarrow> pstate" where
  "copy_page dest src s =
     (let k = pk s; h = nodes k
      in s\<lparr>pk := k\<lparr>task := (task k)(dest := task k src),
             nodes := h\<lparr>h_pre := (h_pre h)(general_tag dest := h_pre h (general_tag src), dest + 44 := h_pre h (src + 44), all_tag dest := h_pre h (all_tag src)),
               h_next := (h_next h)(general_tag dest := h_next h (general_tag src), dest + 44 := h_next h (src + 44), all_tag dest := h_next h (all_tag src))\<rparr>\<rparr>,
           frames := (frames s)(dest := frames s src)\<rparr>)"

definition copy_user_page :: "u32 \<Rightarrow> addr \<Rightarrow> addr \<Rightarrow> u32 \<Rightarrow> kernel \<Rightarrow> kernel option" where
  "copy_user_page buff dest src vaddr k = do {
     let words = [0..<unat (aa_page_size (get_vir (vir_addr_alloc (task k src)) (mem k))) div 4];
     m1 \<leftarrow> copy_in buff vaddr words (mem k);
     let m2 = m1\<lparr>cr3 := page_dir (task k dest)\<rparr>;
     (v, m3) \<leftarrow> malloc_mem_vaddr (page_dir (task k dest)) (vir_addr_alloc (task k dest)) vaddr 1 m2;
     m4 \<leftarrow> copy_out v buff [0..<unat (aa_page_size (get_vir (vir_addr_alloc (task k dest)) m3)) div 4] m3;
     Some (k\<lparr>mem := m4\<lparr>cr3 := page_dir (task k src)\<rparr>\<rparr>)
   }"

definition vir_of :: "addr \<Rightarrow> kernel \<Rightarrow> addr_alloc_t" where
  "vir_of t k = get_vir (vir_addr_alloc (task k t)) (mem k)"

fun copy_bits :: "u32 \<Rightarrow> addr \<Rightarrow> addr \<Rightarrow> nat list \<Rightarrow> kernel \<Rightarrow> kernel option" where
  "copy_bits buff dest src [] k = Some k"
| "copy_bits buff dest src (i # is) k = do {
     used \<leftarrow> bitmap_scan_test (aa_bitmap (vir_of src k)) i;
     if used then do {
       b \<leftarrow> bitmap_set (aa_bitmap (vir_of dest k)) i 1;
       let k1 = k\<lparr>mem := set_vir (vir_addr_alloc (task k dest)) ((vir_of dest k)\<lparr>aa_bitmap := b\<rparr>) (mem k)\<rparr>;
       k2 \<leftarrow> copy_user_page buff dest src (aa_start (vir_of src k1) + of_nat i * aa_page_size (vir_of src k1)) k1;
       copy_bits buff dest src is k2
     }
     else copy_bits buff dest src is k
   }"

fun copy_bytes :: "u32 \<Rightarrow> addr \<Rightarrow> addr \<Rightarrow> nat list \<Rightarrow> kernel \<Rightarrow> kernel option" where
  "copy_bytes buff dest src [] k = Some k"
| "copy_bytes buff dest src (j # js) k = do {
     b \<leftarrow> nth_opt (bits (aa_bitmap (vir_of src k))) j;
     k1 \<leftarrow> (if b \<noteq> 0 then copy_bits buff dest src [j * 8..<j * 8 + 8] k else Some k);
     copy_bytes buff dest src js k1
   }"

definition copy_process_mem :: "u8 list \<Rightarrow> addr \<Rightarrow> addr \<Rightarrow> pstate \<Rightarrow> pstate option" where
  "copy_process_mem bm dest src s = do {
     s1 \<leftarrow> upd_pk (init_process_mem bm dest) (copy_page dest src s);
     let s2 = s1\<lparr>frames := (frames s1)(dest := (frames s1 dest)\<lparr>ps_eax := 0\<rparr>),
       pk := upd_task dest (\<lambda>x. x\<lparr>kstack := (kstack x)\<lparr>ts_eip := Intr_exit\<rparr>, self_kstack := of_nat dest + MEM_PAGE_SIZE - 76 - 20\<rparr>) (pk s1)\<rparr>;
     (buff, m) \<leftarrow> alloc_kernel_mem 1 (mem (pk s2));
     let k = (pk s2)\<lparr>mem := m\<rparr>;
     k1 \<leftarrow> copy_bytes buff dest src [0..<bytes_len (aa_bitmap (vir_of src k))] k;
     (e, m1) \<leftarrow> unalloc_kernel_mem buff 1 (mem k1);
     Some (s2\<lparr>pk := k1\<lparr>mem := m1\<rparr>\<rparr>)
   }"

text \<open>\<open>err\<close> is what \<open>copy_process_mem\<close>, which returns nothing, leaves as its result.\<close>

definition copy_process :: "u8 list \<Rightarrow> int \<Rightarrow> pstate \<Rightarrow> (addr option \<times> pstate) option" where
  "copy_process bm err s = do {
     let c = cur (pk s);
     (t, k1) \<leftarrow> alloc_task (pk s);
     k2 \<leftarrow> init_thread t (t_name (task k1 c)) (priority (task k1 c)) k1;
     s1 \<leftarrow> copy_process_mem bm t c (s\<lparr>pk := k2\<rparr>);
     if err \<noteq> 0 then Some (None, s1)
     else do {
       (p, pa) \<leftarrow> alloc_pid (pid_alloc (pk s1));
       Some (Some t, s1\<lparr>pk := upd_task t (\<lambda>x. x\<lparr>parent_pid := pid (task (pk s1) c), pid := p\<rparr>) ((pk s1)\<lparr>pid_alloc := pa\<rparr>)\<rparr>)
     }
   }"

text \<open>\<open>sprintf\<close> into a name of 16 bytes: it writes no zero at the end.\<close>

fun dec_string :: "nat \<Rightarrow> string" where
  "dec_string n = (if n < 10 then [char_of (48 + n)] else dec_string (n div 10) @ [char_of (48 + n mod 10)])"

declare dec_string.simps [simp del]

definition set_name :: "string \<Rightarrow> addr \<Rightarrow> kernel \<Rightarrow> kernel option" where
  "set_name name t k =
     (if length name > TASK_NAME_LEN then None
      else Some (upd_task t (\<lambda>x. x\<lparr>t_name := name @ drop (length name) (t_name x)\<rparr>) k))"

definition process_fork :: "u8 list \<Rightarrow> int \<Rightarrow> pstate \<Rightarrow> (u32 \<times> pstate) option" where
  "process_fork bm err s = do {
     (r, s1) \<leftarrow> copy_process bm err s;
     case r of None \<Rightarrow> Some (-1, s1)
     | Some t \<Rightarrow> do {
         k1 \<leftarrow> set_name (''fork_from_'' @ dec_string (unat (parent_pid (task (pk s1) t)))) t (pk s1);
         k2 \<leftarrow> push_ready t k1;
         k3 \<leftarrow> push_all_tasks t k2;
         Some (pid (task k3 t), s1\<lparr>pk := k3\<rparr>)
       }
   }"

section \<open>wait and exit\<close>

datatype wait_result = Reaped u32 int | No_child | Blocked

text \<open>One round of \<open>process_wait\<close>; after \<open>Blocked\<close> the task goes through the next round when it runs again.\<close>

definition process_wait :: "kernel \<Rightarrow> (wait_result \<times> kernel) option" where
  "process_wait k = do {
     child \<leftarrow> thread_child (cur k) TASK_HANGING k;
     if child \<noteq> 0 then do {
       k1 \<leftarrow> thread_exit child False k;
       Some (Reaped (pid (task k1 child)) (exit_code (task k1 child)), k1)
     }
     else do {
       any \<leftarrow> thread_child (cur k) TASK_UNKNOWN k;
       if any = 0 then Some (No_child, k)
       else do { k1 \<leftarrow> thread_block (cur k) TASK_WAITING k; Some (Blocked, k1) }
     }
   }"

fun release_ptes :: "u32 \<Rightarrow> nat \<Rightarrow> nat list \<Rightarrow> kernel \<Rightarrow> kernel option" where
  "release_ptes pde i [] k = Some k"
| "release_ptes pde i (j # js) k = do {
     let pte = entry (pe_phy_addr (pe_frame (ram (mem k) pde))) (of_nat j);
     k1 \<leftarrow> (if pe_present (ram (mem k) pte)
            then do { (e, k1) \<leftarrow> unmalloc_thread_mem (of_nat i * 0x400000 + of_nat j * 0x1000) 1 k; Some k1 }
            else Some k);
     release_ptes pde i js k1
   }"

fun release_pdes :: "addr \<Rightarrow> nat list \<Rightarrow> kernel \<Rightarrow> kernel option" where
  "release_pdes t [] k = Some k"
| "release_pdes t (i # is) k = do {
     let pde = entry (page_dir (task k t)) (of_nat i);
     k1 \<leftarrow> (if pe_present (ram (mem k) pde)
            then do {
              k1 \<leftarrow> release_ptes pde i [0..<1024] k;
              (e, k2) \<leftarrow> unmalloc_thread_mem (pe_phy_addr (pe_frame (ram (mem k1) pde))) 1 k1;
              Some k2
            }
            else Some k);
     release_pdes t is k1
   }"

text \<open>\<open>bits_addr\<close> is the address of the bits of the allocator's bitmap.\<close>

definition release_process_memeory :: "u32 \<Rightarrow> addr \<Rightarrow> kernel \<Rightarrow> kernel option" where
  "release_process_memeory bits_addr t k = do {
     k1 \<leftarrow> release_pdes t [unat (drop_bit 22 (kernel_all_memory (mem k)))..<1024] k;
     n \<leftarrow> up2 (of_nat (bytes_len (aa_bitmap (vir_of t k1)))) MEM_PAGE_SIZE;
     (e, k2) \<leftarrow> unmalloc_thread_mem bits_addr (unat (n div MEM_PAGE_SIZE)) k1;
     Some k2
   }"

definition rechild2init :: "u32 \<Rightarrow> addr \<Rightarrow> kernel \<Rightarrow> bool \<times> kernel" where
  "rechild2init p node k =
     (let t = all_entry node
      in (True, if parent_pid (task k t) = p then upd_task t (\<lambda>x. x\<lparr>parent_pid := INIT_PID\<rparr>) k else k))"

definition process_exit :: "u32 \<Rightarrow> int \<Rightarrow> pstate \<Rightarrow> pstate option" where
  "process_exit bits_addr st s = do {
     let c = cur (pk s);
     let k1 = upd_task c (\<lambda>x. x\<lparr>exit_code := st\<rparr>) (pk s);
     other \<leftarrow> has_other_thread c k1;
     k2 \<leftarrow> (if \<not> other then release_process_memeory bits_addr c k1 else Some k1);
     k3 \<leftarrow> foreach (all_tasks k2) (rechild2init (pid (task k2 c))) k2 (nodes k2);
     parent \<leftarrow> pid2task (parent_pid (task k3 c)) k3;
     if parent = 0 then None
     else do {
       k4 \<leftarrow> (if status (task k3 parent) = TASK_WAITING then set_thread_status parent TASK_READY False k3 else Some k3);
       let s4 = s\<lparr>pk := k4\<rparr>;
       s5 \<leftarrow> (case vfork_done (task k4 c) of None \<Rightarrow> Some s4 | Some d \<Rightarrow> complete d s4);
       upd_pk (set_thread_status c TASK_HANGING True) s5
     }
   }"

section \<open>Memory and information\<close>

definition process_mmap :: "u32 \<Rightarrow> u32 \<Rightarrow> kernel \<Rightarrow> (u32 \<times> kernel) option" where
  "process_mmap addr len k = do {
     n \<leftarrow> up2 len MEM_PAGE_SIZE;
     let page_count = unat (n div MEM_PAGE_SIZE);
     (v, k1) \<leftarrow> (if addr > 0 then malloc_thread_mem_vaddr addr page_count k else malloc_thread_mem PF_USER page_count k);
     Some (if v = -1 then 0 else v, k1)
   }"

record mem_info =
  kernel_total :: u32
  user_total :: u32
  kernel_mem_used :: u32
  user_mem_used :: u32
  kernel_phy_mem_used :: u32
  user_phy_mem_used :: u32
  mem_page_size_i :: u32

record sys_info =
  si_mem :: mem_info
  si_pwd :: string
  si_rdtscp :: u64

definition alloc_total :: "addr_alloc_t \<Rightarrow> u32" where
  "alloc_total a = of_nat (bytes_len (aa_bitmap a)) * 8 * aa_page_size a"

definition process_sysinfo :: "u64 \<Rightarrow> u32 \<Rightarrow> sys_info \<Rightarrow> u32 \<Rightarrow> kernel \<Rightarrow> (int \<times> sys_info) option" where
  "process_sysinfo tsc p info flags k = do {
     t \<leftarrow> pid2task p k;
     if t = 0 then Some (-1, info)
     else do {
       let m = mem k;
       i1 \<leftarrow> (if flags AND 1 \<noteq> 0 then do {
           kv \<leftarrow> count_mem_used (kernel_vir_addr_alloc m);
           uv \<leftarrow> count_mem_used (vir_of t k);
           kp \<leftarrow> count_mem_used (kernel_phy_addr_alloc m);
           up \<leftarrow> count_mem_used (user_phy_addr_alloc m);
           Some (info\<lparr>si_mem := (si_mem info)\<lparr>kernel_total := alloc_total (kernel_vir_addr_alloc m), user_total := alloc_total (user_phy_addr_alloc m),
             kernel_mem_used := of_nat kv * aa_page_size (kernel_vir_addr_alloc m), user_mem_used := of_nat uv * aa_page_size (user_phy_addr_alloc m),
             kernel_phy_mem_used := of_nat kp * aa_page_size (kernel_phy_addr_alloc m),
             user_phy_mem_used := of_nat up * aa_page_size (user_phy_addr_alloc m)\<rparr>\<rparr>)
         } else Some info);
       let i2 = i1\<lparr>si_mem := (si_mem i1)\<lparr>mem_page_size_i := MEM_PAGE_SIZE\<rparr>, si_pwd := pwd (task k t)\<rparr>;
       Some (0, if flags AND 2 \<noteq> 0 then i2\<lparr>si_rdtscp := tsc\<rparr> else i2)
     }
   }"

record ps_info =
  pi_pid :: u32
  pi_ppid :: u32
  pi_name :: string
  pi_status :: task_status

text \<open>The visitor of \<open>process_ps\<close> has no return statement behind the entry it writes: \<open>go\<close> is what it returns then.\<close>

definition ps_info_visitor :: "(nat \<Rightarrow> bool) \<Rightarrow> nat \<Rightarrow> kernel \<Rightarrow> addr \<Rightarrow> ps_info list \<Rightarrow> bool \<times> ps_info list" where
  "ps_info_visitor go count k node ps =
     (if length ps \<ge> count then (False, ps)
      else let t = task k (all_entry node)
           in (go (length ps), ps @ [\<lparr>pi_pid = pid t, pi_ppid = parent_pid t, pi_name = t_name t, pi_status = status t\<rparr>]))"

definition process_ps :: "(nat \<Rightarrow> bool) \<Rightarrow> nat \<Rightarrow> kernel \<Rightarrow> (nat \<times> ps_info list) option" where
  "process_ps go count k = do {
     ps \<leftarrow> foreach (all_tasks k) (ps_info_visitor go count k) [] (nodes k);
     Some (length ps, ps)
   }"

section \<open>clone\<close>

definition CLONE_VM :: u32 where "CLONE_VM = 1"
definition CLONE_PARENT :: u32 where "CLONE_PARENT = 2"
definition CLONE_VFORK :: u32 where "CLONE_VFORK = 4"

text \<open>The arguments of a clone lie in a kernel page: four words.\<close>

definition store_clone_args :: "u32 \<Rightarrow> u32 \<Rightarrow> u32 \<Rightarrow> u32 \<Rightarrow> u32 \<Rightarrow> mem_state \<Rightarrow> mem_state" where
  "store_clone_args a func func_arg child_stack flags m =
     write_ram (a + 12) flags (write_ram (a + 8) child_stack (write_ram (a + 4) func_arg (write_ram a func m)))"

definition start_clone_process :: "u32 \<Rightarrow> u32 \<Rightarrow> u32 \<Rightarrow> pstate \<Rightarrow> (process_stack \<times> pstate) option" where
  "start_clone_process intr_no exit_fn arg s = do {
     let t = cur (pk s);
     let m = mem (pk s);
     let func = ram m arg;
     let func_arg = ram m (arg + 4);
     let child_stack = ram m (arg + 8);
     (e, k1) \<leftarrow> unmalloc_thread_mem arg 1 (pk s);
     (sp, k2) \<leftarrow> (if child_stack = 0
                  then do { (v, k2) \<leftarrow> malloc_thread_mem_vaddr (user_mode_stack_addr (mem k1)) 1 k1; Some (v + MEM_PAGE_SIZE, k2) }
                  else Some (child_stack, k1));
     (sp1, s1) \<leftarrow> user_push sp func_arg (s\<lparr>pk := k2\<rparr>);
     (sp2, s2) \<leftarrow> user_push sp1 func s1;
     (sp3, s3) \<leftarrow> user_push sp2 0 s2;
     Some (process_kernel2user t intr_no exit_fn sp3 s3)
   }"

definition process_clone :: "u8 list \<Rightarrow> u32 \<Rightarrow> u32 \<Rightarrow> u32 \<Rightarrow> u32 \<Rightarrow> pstate \<Rightarrow> (u32 \<times> bool \<times> pstate) option" where
  "process_clone bm func child_stack flags func_arg s = do {
     let c = cur (pk s);
     (t, k1) \<leftarrow> alloc_task (pk s);
     if t = 0 then Some (-1, False, s\<lparr>pk := k1\<rparr>)
     else do {
       k2 \<leftarrow> init_thread t (t_name (task k1 c)) (priority (task k1 c)) k1;
       (p, pa) \<leftarrow> alloc_pid (pid_alloc k2);
       let k3 = upd_task t (\<lambda>x. x\<lparr>parent_pid := (if flags AND CLONE_PARENT \<noteq> 0 then parent_pid (task k2 c) else pid (task k2 c)), pid := p\<rparr>)
                  (k2\<lparr>pid_alloc := pa\<rparr>);
       (a, k4) \<leftarrow> malloc_thread_mem PF_KERNEL 1 k3;
       (sp, k5) \<leftarrow> (if flags AND CLONE_VM \<noteq> 0 then do {
             let k4' = upd_task t (\<lambda>x. x\<lparr>page_dir := page_dir (task k4 c), vir_addr_alloc := vir_addr_alloc (task k4 c)\<rparr>) k4;
             if child_stack = 0 then malloc_thread_mem PF_USER 1 k4' else Some (child_stack, k4')
           }
           else do { k4' \<leftarrow> init_process_mem bm t k4; Some (child_stack, k4') });
       let k6 = k5\<lparr>mem := store_clone_args a func func_arg sp flags (mem k5)\<rparr>;
       k7 \<leftarrow> set_name (''clone_from_'' @ dec_string (unat (pid (task k6 c)))) t k6;
       k8 \<leftarrow> push_ready t (thread_create t fn_start_clone_process a k7);
       k9 \<leftarrow> push_all_tasks t k8;
       let s9 = s\<lparr>pk := k9\<rparr>;
       if flags AND CLONE_VFORK \<noteq> 0 then do {
         let d = cnext s9;
         let s10 = init_completion d (s9\<lparr>cnext := d + 1, pk := upd_task t (\<lambda>x. x\<lparr>vfork_done := Some d\<rparr>) k9\<rparr>);
         (r, s11) \<leftarrow> wait_for_completion d s10;
         Some (p, r = None, s11)
       }
       else Some (p, False, s9)
     }
   }"

end
