(* ===== verification/Process_Props.thy ===== *)
theory Process_Props
  imports Process Thread_Props
begin

text \<open>
  Properties of processes: what \<open>process_exit\<close> does to the family of a process and to the queues, and the
  protocol of completions.
\<close>

section \<open>Walking over all tasks\<close>

lemma foreach_rep:
  assumes "list_rep l h ys" "\<And>p s. fst (visitor p s)"
  shows "foreach l visitor s h = Some (fold (\<lambda>p s. snd (visitor p s)) ys s)"
proof -
  have c: "chain h (l_head l # ys @ [l_tail l])" "l_tail l \<notin> set ys" "0 \<notin> set ys"
    using assms(1) by (auto simp: list_rep_def)
  obtain z zs where z: "ys @ [l_tail l] = z # zs" by (cases "ys @ [l_tail l]") auto
  have "h_next h (l_head l) = Some z" "chain h (ys @ [l_tail l])" using c(1) by (simp_all add: z)
  then show ?thesis
    using foreach_nodes_rep[where visitor = visitor and s = s, OF _ c(2,3) assms(2)] by (simp add: foreach_def z)
qed

lemma foreach_nodes_find:
  assumes "chain h (ys @ [t])" "t \<notin> set ys" "0 \<notin> set ys" "\<And>p s. visitor p s = (if Q p then (False, f p) else (True, s))"
  shows "map_option snd (foreach_nodes visitor t ((ys @ [t]) ! 0) s h) = Some (case List.find Q ys of None \<Rightarrow> s | Some p \<Rightarrow> f p)"
  using assms(1-3)
proof (induction ys)
  case Nil
  then show ?case by (simp add: foreach_nodes.simps)
next
  case (Cons y ys)
  obtain z zs where z: "ys @ [t] = z # zs" by (cases "ys @ [t]") auto
  have nx: "h_next h y = Some z" "chain h (ys @ [t])" using Cons.prems(1) by (simp_all add: z)
  have "map_option snd (foreach_nodes visitor t z s h) = Some (case List.find Q ys of None \<Rightarrow> s | Some p \<Rightarrow> f p)"
    using Cons.IH Cons.prems nx(2) by (simp add: z)
  then show ?case using Cons.prems nx(1) assms(4) by (subst foreach_nodes.simps) simp
qed

lemma foreach_find:
  assumes "list_rep l h ys" "\<And>p s. visitor p s = (if Q p then (False, f p) else (True, s))"
  shows "foreach l visitor s h = Some (case List.find Q ys of None \<Rightarrow> s | Some p \<Rightarrow> f p)"
proof -
  have c: "chain h (l_head l # ys @ [l_tail l])" "l_tail l \<notin> set ys" "0 \<notin> set ys"
    using assms(1) by (auto simp: list_rep_def)
  obtain z zs where z: "ys @ [l_tail l] = z # zs" by (cases "ys @ [l_tail l]") auto
  have "h_next h (l_head l) = Some z" "chain h (ys @ [l_tail l])" using c(1) by (simp_all add: z)
  then show ?thesis
    using foreach_nodes_find[OF _ c(2,3), of h visitor Q f s] assms(2) by (auto simp: foreach_def z)
qed

lemma find_map_tag: "List.find Q (map all_tag A) = map_option all_tag (List.find (\<lambda>t. Q (all_tag t)) A)"
  by (induction A) simp_all

lemma all_entry_tag [simp]: "all_entry (all_tag t) = t"
  by (simp add: all_entry_def all_tag_def)

lemma pid2task_find:
  assumes "list_rep (all_tasks k) (nodes k) (map all_tag A)"
  shows "pid2task p k = Some (case List.find (\<lambda>t. pid (task k t) = p) A of None \<Rightarrow> 0 | Some t \<Rightarrow> t)"
  unfolding pid2task_def
  by (subst foreach_find[OF assms, where Q = "\<lambda>n. pid (task k (all_entry n)) = p" and f = all_entry])
    (simp_all add: pid2task_visitor_def Let_def find_map_tag split: option.splits)

lemma has_other_find:
  assumes "list_rep (all_tasks k) (nodes k) (map all_tag A)"
  shows "\<exists>b. has_other_thread t k = Some b"
  unfolding has_other_thread_def
  by (subst foreach_find[OF assms, where f = all_entry and Q = "\<lambda>n. t \<noteq> all_entry n \<and> status (task k (all_entry n)) \<noteq> TASK_HANGING \<and>
      status (task k (all_entry n)) \<noteq> TASK_DIED \<and> page_dir (task k t) = page_dir (task k (all_entry n))"])
    (simp_all add: pid_find_in_all_tasks_def Let_def)

section \<open>Adoption\<close>

definition adopt :: "u32 \<Rightarrow> addr set \<Rightarrow> kernel \<Rightarrow> kernel" where
  "adopt p X k = k\<lparr>task := (\<lambda>t. if t \<in> X \<and> parent_pid (task k t) = p then (task k t)\<lparr>parent_pid := INIT_PID\<rparr> else task k t)\<rparr>"

lemma adopt_sel [simp]:
  "nodes (adopt p X k) = nodes k" "ready_tasks (adopt p X k) = ready_tasks k" "sleep_tasks (adopt p X k) = sleep_tasks k"
  "all_tasks (adopt p X k) = all_tasks k" "cur (adopt p X k) = cur k" "mem (adopt p X k) = mem k"
  "task (adopt p X k) t = (if t \<in> X \<and> parent_pid (task k t) = p then (task k t)\<lparr>parent_pid := INIT_PID\<rparr> else task k t)"
  by (simp_all add: adopt_def)

lemma fold_adopt:
  assumes "p \<noteq> INIT_PID"
  shows "fold (\<lambda>n k. snd (rechild2init p n k)) (map all_tag A) k = adopt p (set A) k"
proof (induction A arbitrary: k)
  case Nil
  then show ?case by (simp add: adopt_def)
next
  case (Cons a A)
  have "adopt p (set A) (snd (rechild2init p (all_tag a) k)) = adopt p (set (a # A)) k"
    using assms by (auto simp: rechild2init_def Let_def adopt_def upd_task_def fun_eq_iff)
  then show ?case using Cons by simp
qed

lemma adopt_init: "adopt INIT_PID X k = k"
proof -
  have "(\<lambda>t. if t \<in> X \<and> parent_pid (task k t) = INIT_PID then (task k t)\<lparr>parent_pid := INIT_PID\<rparr> else task k t) = task k" by auto
  then show ?thesis by (simp add: adopt_def)
qed

lemma foreach_adopt:
  assumes "list_rep (all_tasks k) (nodes k) (map all_tag A)"
  shows "foreach (all_tasks k) (rechild2init p) k (nodes k) = Some (adopt p (set A) k)"
proof (cases "p = INIT_PID")
  case True
  have "snd (rechild2init p n j) = j" for n j
  proof (cases "parent_pid (task j (all_entry n)) = p")
    case q: True
    then have "(task j (all_entry n))\<lparr>parent_pid := INIT_PID\<rparr> = task j (all_entry n)" using True by simp
    then have "(task j)(all_entry n := (task j (all_entry n))\<lparr>parent_pid := INIT_PID\<rparr>) = task j" by (metis fun_upd_triv)
    then show ?thesis using q by (simp add: rechild2init_def Let_def upd_task_def)
  qed (simp add: rechild2init_def Let_def)
  then have "fold (\<lambda>n k. snd (rechild2init p n k)) ns k = k" for ns by (induction ns) simp_all
  then show ?thesis using foreach_rep[OF assms, of "rechild2init p" k] True by (simp add: rechild2init_def Let_def adopt_init)
next
  case False
  then show ?thesis using foreach_rep[OF assms, of "rechild2init p" k] fold_adopt[OF False] by (simp add: rechild2init_def Let_def)
qed

lemma sched_ok_adopt: "sched_ok T (adopt p X k) R S A = sched_ok T k R S A"
proof -
  have s: "status (task (adopt p X k) t) = status (task k t)" for t by simp
  have q: "qrep T (adopt p X k) R S A = qrep T k R S A" by (simp add: qrep_def sep_def)
  show ?thesis unfolding sched_ok_def q s by simp
qed

section \<open>What leaves the family of a task alone\<close>

definition keeps_task :: "task_struct \<Rightarrow> task_struct \<Rightarrow> bool" where
  "keeps_task x y \<longleftrightarrow> pid y = pid x \<and> parent_pid y = parent_pid x \<and> exit_code y = exit_code x \<and> status y \<in> {status x, TASK_READY, TASK_RUNNING}"

definition keeps :: "kernel \<Rightarrow> kernel \<Rightarrow> bool" where
  "keeps k k' \<longleftrightarrow> (\<forall>t. keeps_task (task k t) (task k' t))"

lemma keeps_task_trans: "keeps_task x y \<Longrightarrow> keeps_task y z \<Longrightarrow> keeps_task x z"
  by (auto simp: keeps_task_def)

lemma stays_refl: "keeps k k"
  by (simp add: keeps_def keeps_task_def)

lemma stays_trans: "keeps k k1 \<Longrightarrow> keeps k1 k2 \<Longrightarrow> keeps k k2"
  unfolding keeps_def by (blast intro: keeps_task_trans)

lemma sleep_scan_keeps:
  assumes "sleep_scan p wake k = Some r"
  shows "keeps k (snd r)"
  using assms
proof (rule sleep_scan.raw_induct[rotated])
  fix f :: "addr \<Rightarrow> addr list \<Rightarrow> kernel \<Rightarrow> (addr list \<times> kernel) option" and p wake k r
  assume IH: "\<And>p wake k r. f p wake k = Some r \<Longrightarrow> keeps k (snd r)"
    and st: "(if p = 0 \<or> p = l_tail (sleep_tasks k) then Some (wake, k)
      else let t = general_entry p;
               k1 = upd_task t (\<lambda>s. s\<lparr>sleep_ticks := sleep_ticks s - 1\<rparr>) k
           in Option.bind (if sleep_ticks (task k1 t) \<le> 0 then (if length wake < 10 then Some (wake @ [p]) else None) else Some wake)
                (\<lambda>wake1. Option.bind (h_next (nodes k1) p) (\<lambda>q. f q wake1 k1))) = Some r"
  let ?k1 = "upd_task (general_entry p) (\<lambda>s. s\<lparr>sleep_ticks := sleep_ticks s - 1\<rparr>) k"
  have k1: "keeps k ?k1" by (simp add: keeps_def keeps_task_def)
  show "keeps k (snd r)"
  proof (cases "p = 0 \<or> p = l_tail (sleep_tasks k)")
    case True
    then show ?thesis using st by (auto simp: stays_refl)
  next
    case False
    then obtain wake1 q where "f q wake1 ?k1 = Some r" using st by (auto simp: Let_def bind_eq_Some_conv split: if_splits)
    from stays_trans[OF k1 IH[OF this]] show ?thesis .
  qed
qed

lemma wake_loop_keeps: "wake_loop ns k = Some k' \<Longrightarrow> keeps k k'"
proof (induction ns arbitrary: k)
  case (Cons n ns)
  then obtain s h r h1 where w: "wake_loop ns (upd_task (general_entry n) (\<lambda>s. s\<lparr>status := TASK_READY\<rparr>) (k\<lparr>sleep_tasks := s, ready_tasks := r, nodes := h1\<rparr>)) = Some k'"
    by (auto simp: bind_eq_Some_conv)
  show ?case by (rule stays_trans[OF _ Cons.IH[OF w]]) (simp add: keeps_def keeps_task_def)
qed (simp add: stays_refl)

lemma push_ready_task: "push_ready t k = Some k' \<Longrightarrow> task k' = task k"
  by (auto simp: push_ready_def bind_eq_Some_conv)

lemma pick_keeps:
  assumes "pick k = Some k'"
  shows "keeps k k'"
  using assms unfolding pick_def Let_def
  by (auto simp: bind_eq_Some_conv keeps_def keeps_task_def switch_to_def process_activate_def dest!: push_ready_task split: if_splits)

lemma schedule_keeps:
  assumes "schedule k = Some k'"
  shows "keeps k k'"
proof -
  obtain first wake k1 k2 where w: "h_next (nodes k) (l_head (sleep_tasks k)) = Some first" "sleep_scan first [] k = Some (wake, k1)" "wake_loop wake k1 = Some k2"
    using assms unfolding schedule_def by (auto simp: bind_eq_Some_conv)
  have "keeps k2 k'" using assms schedule_pick[OF w] by (simp add: pick_keeps)
  with stays_trans[OF sleep_scan_keeps[OF w(2), simplified] wake_loop_keeps[OF w(3)]] show ?thesis by (rule stays_trans)
qed

lemma unmalloc_mem_only: "unmalloc_thread_mem v n k = Some (e, k') \<Longrightarrow> \<exists>m. k' = k\<lparr>mem := m\<rparr>"
  by (auto simp: unmalloc_thread_mem_def bind_eq_Some_conv split: prod.splits)

lemma mem_only_trans: "\<exists>m. k1 = k\<lparr>mem := m\<rparr> \<Longrightarrow> \<exists>m. k2 = k1\<lparr>mem := m\<rparr> \<Longrightarrow> \<exists>m. k2 = k\<lparr>mem := m\<rparr>"
  for k :: kernel
  by auto

lemma mem_only_refl: "\<exists>m. k = k\<lparr>mem := m\<rparr>" for k :: kernel
  by (rule exI[of _ "mem k"]) simp

lemma release_ptes_mem_only: "release_ptes pde i js k = Some k' \<Longrightarrow> \<exists>m. k' = k\<lparr>mem := m\<rparr>"
proof (induction js arbitrary: k)
  case (Cons j js)
  let ?step = "if pe_present (ram (mem k) (entry (pe_phy_addr (pe_frame (ram (mem k) pde))) (of_nat j)))
            then do { (e, k1) \<leftarrow> unmalloc_thread_mem (of_nat i * 0x400000 + of_nat j * 0x1000) 1 k; Some k1 } else Some k"
  obtain k1 where k1: "?step = Some k1" "release_ptes pde i js k1 = Some k'" using Cons.prems by (auto simp: bind_eq_Some_conv Let_def)
  have "\<exists>m. k1 = k\<lparr>mem := m\<rparr>" using k1(1) mem_only_refl[of k] by (auto simp: bind_eq_Some_conv dest: unmalloc_mem_only split: if_splits)
  then show ?case by (rule mem_only_trans) (rule Cons.IH[OF k1(2)])
qed (simp add: mem_only_refl)

lemma release_pdes_mem_only: "release_pdes t is k = Some k' \<Longrightarrow> \<exists>m. k' = k\<lparr>mem := m\<rparr>"
proof (induction "is" arbitrary: k)
  case (Cons i "is")
  let ?pde = "entry (page_dir (task k t)) (of_nat i)"
  let ?step = "if pe_present (ram (mem k) ?pde)
            then do { k1 \<leftarrow> release_ptes ?pde i [0..<1024] k;
              (e, k2) \<leftarrow> unmalloc_thread_mem (pe_phy_addr (pe_frame (ram (mem k1) ?pde))) 1 k1; Some k2 } else Some k"
  obtain k1 where k1: "?step = Some k1" "release_pdes t is k1 = Some k'" using Cons.prems by (auto simp: bind_eq_Some_conv Let_def)
  have "\<exists>m. k1 = k\<lparr>mem := m\<rparr>"
  proof (cases "pe_present (ram (mem k) ?pde)")
    case True
    then obtain k0 e where "release_ptes ?pde i [0..<1024] k = Some k0" "unmalloc_thread_mem (pe_phy_addr (pe_frame (ram (mem k0) ?pde))) 1 k0 = Some (e, k1)"
      using k1(1) by (auto simp: bind_eq_Some_conv)
    then show ?thesis by (blast intro: mem_only_trans release_ptes_mem_only unmalloc_mem_only)
  qed (use k1(1) mem_only_refl[of k] in simp)
  then show ?case by (rule mem_only_trans) (rule Cons.IH[OF k1(2)])
qed (simp add: mem_only_refl)

lemma release_mem_only:
  assumes "release_process_memeory a t k = Some k'"
  shows "\<exists>m. k' = k\<lparr>mem := m\<rparr>"
proof -
  obtain k1 n e where "release_pdes t [unat (drop_bit 22 (kernel_all_memory (mem k)))..<1024] k = Some k1" "unmalloc_thread_mem a n k1 = Some (e, k')"
    using assms by (auto simp: release_process_memeory_def bind_eq_Some_conv)
  then show ?thesis by (blast intro: mem_only_trans release_pdes_mem_only unmalloc_mem_only)
qed

lemma sched_ok_mem [simp]: "sched_ok T (k\<lparr>mem := m\<rparr>) R S A = sched_ok T k R S A"
  by (simp add: sched_ok_def qrep_def sep_def)

section \<open>Exit\<close>

text \<open>The ready queue after a task has been woken.\<close>

definition enq :: "addr \<Rightarrow> addr list \<Rightarrow> addr list" where
  "enq t R = (if t \<in> set R then R else R @ [t])"

lemma wake_ok:
  assumes "sched_ok T k R S A" "t \<in> T" "status (task k t) \<noteq> TASK_SLEEP" "t \<noteq> cur k"
  shows "\<exists>k'. set_thread_status t TASK_READY False k = Some k' \<and> cur k' = cur k \<and> sched_ok T k' (enq t R) S A \<and>
    task k' = (task k)(t := (task k t)\<lparr>status := TASK_READY\<rparr>)"
  using thread_ready_ok[OF assms, of False] by (auto simp: thread_ready_def set_thread_status_def enq_def)

definition waiters_ok :: "addr set \<Rightarrow> pstate \<Rightarrow> bool" where
  "waiters_ok T s \<longleftrightarrow> (\<forall>d. \<forall>t\<in>set (c_wait (compls s d)). t \<in> T \<and> t \<noteq> cur (pk s) \<and> status (task (pk s) t) \<noteq> TASK_SLEEP)"

definition vfork_waiter :: "pstate \<Rightarrow> addr \<Rightarrow> addr option" where
  "vfork_waiter s c = (case vfork_done (task (pk s) c) of None \<Rightarrow> None
     | Some d \<Rightarrow> (case c_wait (compls s d) of [] \<Rightarrow> None | t # ts \<Rightarrow> Some t))"

lemma complete_ok:
  assumes ok: "sched_ok T (pk s) R S A" and w: "waiters_ok T s"
  shows "\<exists>s'. complete d s = Some s' \<and> cur (pk s') = cur (pk s) \<and>
    sched_ok T (pk s') (case c_wait (compls s d) of [] \<Rightarrow> R | t # ts \<Rightarrow> enq t R) S A \<and>
    task (pk s') = (case c_wait (compls s d) of [] \<Rightarrow> task (pk s) | t # ts \<Rightarrow> (task (pk s))(t := (task (pk s) t)\<lparr>status := TASK_READY\<rparr>)) \<and>
    c_done (compls s' d) = (if c_done (compls s d) = -1 then -1 else c_done (compls s d) + 1)"
proof (cases "c_wait (compls s d)")
  case Nil
  then show ?thesis using ok by (auto simp: complete_def Let_def)
next
  case (Cons t ts)
  then have "t \<in> set (c_wait (compls s d))" by simp
  then have t: "t \<in> T" "t \<noteq> cur (pk s)" "status (task (pk s) t) \<noteq> TASK_SLEEP" using w unfolding waiters_ok_def by blast+
  obtain k' where "set_thread_status t TASK_READY False (pk s) = Some k'" "cur k' = cur (pk s)" "sched_ok T k' (enq t R) S A"
    "task k' = (task (pk s))(t := (task (pk s) t)\<lparr>status := TASK_READY\<rparr>)"
    using wake_ok[OF ok t(1,3,2)] by blast
  then show ?thesis using Cons by (auto simp: complete_def Let_def upd_pk_def)
qed

text \<open>The queue of ready tasks when the exiting task has woken its parent and the task that waits for its \<open>vfork\<close>.\<close>

definition exit_queue :: "pstate \<Rightarrow> addr \<Rightarrow> addr list \<Rightarrow> addr list" where
  "exit_queue s parent R =
     (let R1 = (if status (task (pk s) parent) = TASK_WAITING then enq parent R else R)
      in case vfork_waiter s (cur (pk s)) of None \<Rightarrow> R1 | Some t \<Rightarrow> enq t R1)"

text \<open>
  What an exit needs: the task is running, the tasks that wait for completions are other tasks that do not sleep, and
  giving back the memory of the process, when it has no other thread, does not fault.
\<close>

definition exit_ready :: "addr set \<Rightarrow> u32 \<Rightarrow> int \<Rightarrow> pstate \<Rightarrow> bool" where
  "exit_ready T bits_addr st s \<longleftrightarrow>
     (let k1 = upd_task (cur (pk s)) (\<lambda>x. x\<lparr>exit_code := st\<rparr>) (pk s)
      in status (task (pk s) (cur (pk s))) = TASK_RUNNING \<and> waiters_ok T s \<and>
         (has_other_thread (cur (pk s)) k1 = Some True \<or> release_process_memeory bits_addr (cur (pk s)) k1 \<noteq> None))"

lemma exit_family:
  assumes ok: "sched_ok T (pk s) R S A" and e: "exit_ready T bits_addr st s"
  shows "\<exists>k3. (do { other \<leftarrow> has_other_thread (cur (pk s)) (upd_task (cur (pk s)) (\<lambda>x. x\<lparr>exit_code := st\<rparr>) (pk s));
      k2 \<leftarrow> (if \<not> other then release_process_memeory bits_addr (cur (pk s)) (upd_task (cur (pk s)) (\<lambda>x. x\<lparr>exit_code := st\<rparr>) (pk s))
             else Some (upd_task (cur (pk s)) (\<lambda>x. x\<lparr>exit_code := st\<rparr>) (pk s)));
      foreach (all_tasks k2) (rechild2init (pid (task k2 (cur (pk s))))) k2 (nodes k2) }) = Some k3 \<and>
    cur k3 = cur (pk s) \<and> sched_ok T k3 R S A \<and>
    task k3 = task (adopt (pid (task (pk s) (cur (pk s)))) (set A) (upd_task (cur (pk s)) (\<lambda>x. x\<lparr>exit_code := st\<rparr>) (pk s)))"
proof -
  let ?c = "cur (pk s)"
  define k1 where "k1 = upd_task ?c (\<lambda>x. x\<lparr>exit_code := st\<rparr>) (pk s)"
  have ok1: "sched_ok T k1 R S A" using ok by (simp add: k1_def sched_ok_task)
  have l: "list_rep (all_tasks k1) (nodes k1) (map all_tag A)" using qrepD(3)[OF sched_okD(1)[OF ok1]] .
  obtain other where o: "has_other_thread ?c k1 = Some other" using has_other_find[OF l] by blast
  have "\<exists>k2 m. (if \<not> other then release_process_memeory bits_addr ?c k1 else Some k1) = Some k2 \<and> k2 = k1\<lparr>mem := m\<rparr>"
  proof (cases other)
    case True
    then show ?thesis using mem_only_refl[of k1] by auto
  next
    case False
    then obtain k2 where "release_process_memeory bits_addr ?c k1 = Some k2"
      using e o by (auto simp: exit_ready_def k1_def[symmetric] Let_def)
    then show ?thesis using False release_mem_only by force
  qed
  then obtain k2 m where k2: "(if \<not> other then release_process_memeory bits_addr ?c k1 else Some k1) = Some k2" "k2 = k1\<lparr>mem := m\<rparr>" by blast
  have "foreach (all_tasks k2) (rechild2init p) k2 (nodes k2) = Some (adopt p (set A) k2)" for p
    by (rule foreach_adopt) (use l k2(2) in simp)
  moreover have "sched_ok T (adopt p (set A) k2) R S A" for p using ok1 k2(2) by (simp add: sched_ok_adopt)
  moreover have "pid (task k2 ?c) = pid (task (pk s) ?c)" "task (adopt p (set A) k2) = task (adopt p (set A) k1)" for p
    using k2(2) by (auto simp: k1_def fun_eq_iff)
  ultimately show ?thesis
    unfolding k1_def[symmetric] o Option.bind.simps k2(1) using k2(2) by (simp add: k1_def)
qed

lemma hang_current:
  assumes ok: "sched_ok T k R S A" and run: "status (task k (cur k)) = TASK_RUNNING" and few: "length (filter (due k) S) \<le> 10"
    and Q: "Q = rev (filter (due k) S) @ R"
  shows "\<exists>k'. set_thread_status (cur k) TASK_HANGING True k = Some k' \<and> cur k' = (if Q = [] then cur k else hd Q) \<and>
    sched_ok T k' (tl Q) (filter (\<lambda>t. \<not> due k t) S) A \<and>
    (\<forall>t. parent_pid (task k' t) = parent_pid (task k t) \<and> exit_code (task k' t) = exit_code (task k t)) \<and>
    (Q \<noteq> [] \<longrightarrow> status (task k' (cur k)) = TASK_HANGING)"
proof -
  note d = sched_okD[OF ok]
  have sc: "set_thread_status (cur k) TASK_HANGING True k = set_cur_thread_status TASK_HANGING True k" by (simp add: set_cur_thread_status_def)
  obtain k1 where k1: "set_cur_thread_status TASK_HANGING True k = schedule k1" "task k1 = (task k)(cur k := (task k (cur k))\<lparr>status := TASK_HANGING\<rparr>)"
    using set_status_current[OF ok, of TASK_HANGING] run by auto
  obtain k' where k': "set_cur_thread_status TASK_HANGING True k = Some k'" "cur k' = (if Q = [] then cur k else hd Q)"
    "sched_ok T k' (tl Q) (filter (\<lambda>t. \<not> due k t) S) A"
    using block_current_due[OF ok _ _ _ few Q, of TASK_HANGING] run by auto
  have kp: "keeps k1 k'" using k1(1) k'(1) schedule_keeps by simp
  then have f: "\<forall>t. parent_pid (task k' t) = parent_pid (task k t) \<and> exit_code (task k' t) = exit_code (task k t)"
    by (auto simp: keeps_def keeps_task_def k1(2))
  have cS: "cur k \<notin> set S" using d(5)[OF d(2)] run by auto
  have "status (task k' (cur k)) = TASK_HANGING" if "Q \<noteq> []"
  proof -
    have "cur k \<notin> set Q" using d(3) cS by (simp add: Q)
    then have n: "cur k \<noteq> cur k'" "cur k \<notin> set (tl Q)" using that k'(2) by (auto dest: list.set_sel)
    have "status (task k' (cur k)) \<noteq> TASK_READY" "status (task k' (cur k)) \<noteq> TASK_RUNNING"
      using sched_okD(4,6)[OF k'(3) d(2)] n by auto
    then show ?thesis using kp by (auto simp: keeps_def keeps_task_def k1(2) dest: spec[of _ "cur k"])
  qed
  then show ?thesis unfolding sc using k' f by auto
qed

text \<open>The two wakeups.\<close>

definition woken :: "addr \<Rightarrow> kernel \<Rightarrow> kernel \<Rightarrow> bool" where
  "woken c k k' \<longleftrightarrow> (\<forall>t. task k' t = task k t \<or> t \<noteq> c \<and> task k' t = (task k t)\<lparr>status := TASK_READY\<rparr>)"

lemma wokenD:
  assumes "woken c k k'"
  shows "sleep_ticks (task k' t) = sleep_ticks (task k t)" "parent_pid (task k' t) = parent_pid (task k t)" "exit_code (task k' t) = exit_code (task k t)"
    "vfork_done (task k' t) = vfork_done (task k t)" "task k' c = task k c" "status (task k t) \<noteq> TASK_SLEEP \<Longrightarrow> status (task k' t) \<noteq> TASK_SLEEP"
  using assms[unfolded woken_def, THEN spec, of t] assms[unfolded woken_def, THEN spec, of c] by auto

lemma complete_woken:
  assumes ok: "sched_ok T (pk s) R S A" and w: "waiters_ok T s"
  shows "\<exists>s'. (case vfork_done (task (pk s) (cur (pk s))) of None \<Rightarrow> Some s | Some d \<Rightarrow> complete d s) = Some s' \<and> cur (pk s') = cur (pk s) \<and>
    sched_ok T (pk s') (case vfork_waiter s (cur (pk s)) of None \<Rightarrow> R | Some t \<Rightarrow> enq t R) S A \<and> woken (cur (pk s)) (pk s) (pk s')"
proof (cases "vfork_done (task (pk s) (cur (pk s)))")
  case None
  then show ?thesis using ok by (simp add: vfork_waiter_def woken_def)
next
  case (Some d)
  obtain s' where s': "complete d s = Some s'" "cur (pk s') = cur (pk s)"
    "sched_ok T (pk s') (case c_wait (compls s d) of [] \<Rightarrow> R | t # ts \<Rightarrow> enq t R) S A"
    "task (pk s') = (case c_wait (compls s d) of [] \<Rightarrow> task (pk s) | t # ts \<Rightarrow> (task (pk s))(t := (task (pk s) t)\<lparr>status := TASK_READY\<rparr>))"
    using complete_ok[OF ok w, of d] by blast
  have "woken (cur (pk s)) (pk s) (pk s')"
  proof (cases "c_wait (compls s d)")
    case (Cons u us)
    have "u \<in> set (c_wait (compls s d))" using Cons by simp
    then have "u \<noteq> cur (pk s)" using w unfolding waiters_ok_def by blast
    then show ?thesis using s'(4) Cons by (auto simp: woken_def)
  qed (use s'(4) in \<open>simp add: woken_def\<close>)
  then show ?thesis using s' Some by (simp add: vfork_waiter_def split: list.splits)
qed

lemma exit_wakes:
  assumes ok: "sched_ok T k R S A" and p: "parent \<in> T" "parent \<noteq> cur k" and w: "waiters_ok T (s\<lparr>pk := k\<rparr>)"
  shows "\<exists>s'. (do { k4 \<leftarrow> (if status (task k parent) = TASK_WAITING then set_thread_status parent TASK_READY False k else Some k);
      case vfork_done (task k4 (cur k)) of None \<Rightarrow> Some (s\<lparr>pk := k4\<rparr>) | Some d \<Rightarrow> complete d (s\<lparr>pk := k4\<rparr>) }) = Some s' \<and>
    cur (pk s') = cur k \<and> sched_ok T (pk s') (exit_queue (s\<lparr>pk := k\<rparr>) parent R) S A \<and>
    (\<exists>k4. woken (cur k) k k4 \<and> woken (cur k) k4 (pk s'))"
proof -
  define R1 where "R1 = (if status (task k parent) = TASK_WAITING then enq parent R else R)"
  have "\<exists>k4. (if status (task k parent) = TASK_WAITING then set_thread_status parent TASK_READY False k else Some k) = Some k4 \<and>
      cur k4 = cur k \<and> sched_ok T k4 R1 S A \<and> woken (cur k) k k4"
    using wake_ok[OF ok p(1)] p(2) ok by (auto simp: woken_def R1_def)
  then obtain k4 where k4: "(if status (task k parent) = TASK_WAITING then set_thread_status parent TASK_READY False k else Some k) = Some k4"
      "cur k4 = cur k" "sched_ok T k4 R1 S A" "woken (cur k) k k4" by blast
  have w4: "waiters_ok T (s\<lparr>pk := k4\<rparr>)" using w k4(2) wokenD(6)[OF k4(4)] by (auto simp: waiters_ok_def)
  obtain s' where s': "(case vfork_done (task k4 (cur k)) of None \<Rightarrow> Some (s\<lparr>pk := k4\<rparr>) | Some d \<Rightarrow> complete d (s\<lparr>pk := k4\<rparr>)) = Some s'"
    "cur (pk s') = cur k" "sched_ok T (pk s') (case vfork_waiter (s\<lparr>pk := k4\<rparr>) (cur k) of None \<Rightarrow> R1 | Some t \<Rightarrow> enq t R1) S A"
    "woken (cur k) k4 (pk s')"
    using complete_woken[of T "s\<lparr>pk := k4\<rparr>" R1 S A, OF _ w4] k4(2,3) by auto
  have v: "vfork_waiter (s\<lparr>pk := k4\<rparr>) (cur k) = vfork_waiter (s\<lparr>pk := k\<rparr>) (cur k)" by (simp add: vfork_waiter_def wokenD(4)[OF k4(4)] split: option.split list.split)
  have "exit_queue (s\<lparr>pk := k\<rparr>) parent R = (case vfork_waiter (s\<lparr>pk := k\<rparr>) (cur k) of None \<Rightarrow> R1 | Some t \<Rightarrow> enq t R1)"
    by (cases "status (task k parent) = TASK_WAITING") (simp_all add: exit_queue_def R1_def Let_def split: option.split)
  then have "sched_ok T (pk s') (exit_queue (s\<lparr>pk := k\<rparr>) parent R) S A" using s'(3) unfolding v by (simp only:)
  then show ?thesis unfolding k4(1) using s'(1,2,4) k4(4) by auto
qed

lemma process_exit_ok:
  assumes ok: "sched_ok T (pk s) R S A" and e: "exit_ready T bits_addr st s"
    and par: "List.find (\<lambda>t. pid (task (pk s) t) = parent_pid (task (pk s) (cur (pk s)))) A = Some parent"
    and self: "parent_pid (task (pk s) (cur (pk s))) \<noteq> pid (task (pk s) (cur (pk s)))" and few: "length (filter (due (pk s)) S) \<le> 10"
    and Q: "Q = rev (filter (due (pk s)) S) @ exit_queue s parent R"
  shows "\<exists>s'. process_exit bits_addr st s = Some s' \<and> cur (pk s') = (if Q = [] then cur (pk s) else hd Q) \<and>
    sched_ok T (pk s') (tl Q) (filter (\<lambda>t. \<not> due (pk s) t) S) A \<and> exit_code (task (pk s') (cur (pk s))) = st \<and>
    (Q \<noteq> [] \<longrightarrow> status (task (pk s') (cur (pk s))) = TASK_HANGING) \<and>
    (\<forall>t\<in>set A. parent_pid (task (pk s') t) =
       (if parent_pid (task (pk s) t) = pid (task (pk s) (cur (pk s))) then INIT_PID else parent_pid (task (pk s) t)))"
proof -
  let ?c = "cur (pk s)" and ?Q = "exit_queue s parent R"
  define k1 where "k1 = upd_task ?c (\<lambda>x. x\<lparr>exit_code := st\<rparr>) (pk s)"
  note d = sched_okD[OF ok]
  have run: "status (task (pk s) ?c) = TASK_RUNNING" and w: "waiters_ok T s" using e by (simp_all add: exit_ready_def Let_def)
  have pA: "parent \<in> set A" "pid (task (pk s) parent) = parent_pid (task (pk s) ?c)" using par by (auto simp: find_Some_iff)
  have pT: "parent \<in> T" using pA(1) qrepD(10)[OF d(1)] by blast
  have p0: "parent \<noteq> 0" using sepD(7)[OF qrepD(4)[OF d(1)] pT] .
  have pc: "parent \<noteq> ?c" using pA(2) self by auto
  obtain k3 where fam: "(do { other \<leftarrow> has_other_thread ?c k1; k2 \<leftarrow> (if \<not> other then release_process_memeory bits_addr ?c k1 else Some k1);
      foreach (all_tasks k2) (rechild2init (pid (task k2 ?c))) k2 (nodes k2) }) = Some k3"
    and k3: "cur k3 = ?c" "sched_ok T k3 R S A" "task k3 = task (adopt (pid (task (pk s) ?c)) (set A) k1)"
    using exit_family[OF ok e] unfolding k1_def by blast
  have t3: "pid (task k3 t) = pid (task (pk s) t)" "status (task k3 t) = status (task (pk s) t)" "vfork_done (task k3 t) = vfork_done (task (pk s) t)"
    "sleep_ticks (task k3 t) = sleep_ticks (task (pk s) t)" for t by (simp_all add: k3(3) k1_def)
  have c3: "parent_pid (task k3 ?c) = parent_pid (task (pk s) ?c)" using self by (simp add: k3(3) k1_def)
  have p2t: "pid2task (parent_pid (task k3 ?c)) k3 = Some parent"
    using pid2task_find[OF qrepD(3)[OF sched_okD(1)[OF k3(2)]]] par by (simp add: t3 c3)
  have w3: "waiters_ok T (s\<lparr>pk := k3\<rparr>)" using w k3(1) by (simp add: waiters_ok_def t3)
  have "vfork_waiter (s\<lparr>pk := k3\<rparr>) ?c = vfork_waiter s ?c" by (simp add: vfork_waiter_def t3 split: option.split list.split)
  then have q3: "exit_queue (s\<lparr>pk := k3\<rparr>) parent R = ?Q" by (simp add: exit_queue_def t3 k3(1) Let_def)
  obtain s5 k4 where s5: "(do { k4 \<leftarrow> (if status (task k3 parent) = TASK_WAITING then set_thread_status parent TASK_READY False k3 else Some k3);
      case vfork_done (task k4 ?c) of None \<Rightarrow> Some (s\<lparr>pk := k4\<rparr>) | Some d \<Rightarrow> complete d (s\<lparr>pk := k4\<rparr>) }) = Some s5"
    "cur (pk s5) = ?c" "sched_ok T (pk s5) ?Q S A" "woken ?c k3 k4" "woken ?c k4 (pk s5)"
    using exit_wakes[OF k3(2) pT _ w3] pc unfolding q3 k3(1) by blast
  note wk = wokenD[OF s5(5)] wokenD[OF s5(4)]
  have run5: "status (task (pk s5) (cur (pk s5))) = TASK_RUNNING" using run by (simp add: s5(2) wk t3)
  have nd5: "due (pk s5) = due (pk s)" by (rule ext) (simp add: due_def wk t3)
  obtain k6 where k6: "set_thread_status (cur (pk s5)) TASK_HANGING True (pk s5) = Some k6" "cur k6 = (if Q = [] then ?c else hd Q)"
    "sched_ok T k6 (tl Q) (filter (\<lambda>t. \<not> due (pk s) t) S) A"
    "\<And>t. parent_pid (task k6 t) = parent_pid (task (pk s5) t)" "\<And>t. exit_code (task k6 t) = exit_code (task (pk s5) t)"
    "Q \<noteq> [] \<Longrightarrow> status (task k6 ?c) = TASK_HANGING"
    using hang_current[OF s5(3) run5, unfolded nd5, OF few Q] s5(2) by auto
  have "process_exit bits_addr st s = upd_pk (set_thread_status ?c TASK_HANGING True) s5"
    using fam p2t p0 s5(1) unfolding process_exit_def Let_def k1_def[symmetric] by (auto simp: bind_eq_Some_conv)
  then have "process_exit bits_addr st s = Some (s5\<lparr>pk := k6\<rparr>)" using k6(1) s5(2) by (simp add: upd_pk_def)
  moreover have "exit_code (task k6 ?c) = st" by (simp add: k6(5) wk k3(3) k1_def)
  moreover have "\<forall>t\<in>set A. parent_pid (task k6 t) = (if parent_pid (task (pk s) t) = pid (task (pk s) ?c) then INIT_PID else parent_pid (task (pk s) t))"
    by (simp add: k6(4) wk k3(3) k1_def)
  ultimately show ?thesis using k6(2,3,6) by auto
qed

text \<open>
  C10: \<open>process_exit\<close> of a running process that has another process for its parent, which is among the tasks, when giving back its memory
  does not fault and at most ten sleepers are due.  It stores the exit code, gives every child to \<open>init\<close> and leaves the
  parents of all other tasks alone, wakes the parent when it waits and the task that waits for the end of a \<open>vfork\<close>, and
  hands the processor to the first task of the ready queue \<open>Q\<close> that results, with the sleepers that are due in front; it is then
  hanging and in no queue.  With \<open>Q\<close> empty it goes on running and \<open>process_exit\<close> returns.  The lists in memory, the status of every
  task and the queues stay in agreement.
\<close>

theorem process_exit_correct:
  assumes "sched_ok T (pk s) R S A" and "exit_ready T bits_addr st s"
    and "List.find (\<lambda>t. pid (task (pk s) t) = parent_pid (task (pk s) (cur (pk s)))) A = Some parent"
    and "parent_pid (task (pk s) (cur (pk s))) \<noteq> pid (task (pk s) (cur (pk s)))" and "length (filter (due (pk s)) S) \<le> 10"
    and "Q = rev (filter (due (pk s)) S) @ exit_queue s parent R"
  shows "\<exists>s'. process_exit bits_addr st s = Some s' \<and> cur (pk s') = (if Q = [] then cur (pk s) else hd Q) \<and>
    sched_ok T (pk s') (tl Q) (filter (\<lambda>t. \<not> due (pk s) t) S) A \<and> exit_code (task (pk s') (cur (pk s))) = st \<and>
    (Q \<noteq> [] \<longrightarrow> status (task (pk s') (cur (pk s))) = TASK_HANGING) \<and>
    (\<forall>t\<in>set A. parent_pid (task (pk s') t) =
       (if parent_pid (task (pk s) t) = pid (task (pk s) (cur (pk s))) then INIT_PID else parent_pid (task (pk s) t)))"
  using assms by (rule process_exit_ok)

text \<open>
  The first task of the small kernel is the child of a \<open>vfork\<close> by the second, which waits for its end, and has a page directory of
  its own; the third is its child and sleeps.
\<close>

definition exit_kernel :: kernel where
  "exit_kernel = blocked_kernel\<lparr>task := (\<lambda>t. if t = 4096 then (sample_task 1 TASK_RUNNING 0)\<lparr>parent_pid := 2, vfork_done := Some 0\<rparr>
      else if t = 8192 then sample_task 2 TASK_WAITING 0 else (sample_task 3 TASK_SLEEP 5)\<lparr>parent_pid := 1\<rparr>)\<rparr>"

definition exit_state :: pstate where
  "exit_state = \<lparr>pk = exit_kernel, frames = (\<lambda>_. \<lparr>ps_intr_no = 0, ps_edi = 0, ps_esi = 0, ps_ebp = 0, ps_esp_dummy = 0,
     ps_ebx = 0, ps_edx = 0, ps_ecx = 0, ps_eax = 0, ps_gs = 0, ps_fs = 0, ps_es = 0, ps_ds = 0, ps_err_code = 0, ps_eip = 0, ps_cs = 0, ps_eflags = 0, ps_esp = 0, ps_ss = 0\<rparr>),
     compls = (\<lambda>_. \<lparr>c_done = 0, c_wait = [8192]\<rparr>), cnext = 1\<rparr>"

lemma exit_sched_ok: "sched_ok {4096, 8192, 12288} exit_kernel [] [12288] [4096, 8192, 12288]"
  by (simp add: sched_ok_def qrep_def sep_def exit_kernel_def blocked_kernel_def upd_task_def sample_kernel_def list_rep_def list_foot_def general_tag_def
      all_tag_def node_ok_def detached_def sample_task_def)

lemma release_pdes_none:
  assumes "\<And>a. ram (mem k) a = 0"
  shows "release_pdes t is k = Some k"
  by (induction "is") (simp_all add: assms pe_present_def Let_def)

lemma exit_releases: "release_process_memeory 0 4096 (upd_task 4096 (\<lambda>x. x\<lparr>exit_code := 7\<rparr>) exit_kernel) \<noteq> None"
proof -
  let ?k = "upd_task 4096 (\<lambda>x. x\<lparr>exit_code := 7\<rparr>) exit_kernel"
  have "ram (mem ?k) a = 0" for a by (simp add: exit_kernel_def blocked_kernel_def sample_kernel_def)
  note r = release_pdes_none[of ?k, OF this]
  have "bytes_len (aa_bitmap (vir_of 4096 ?k)) = 0" "dir_of_vaddr 0 ?k = (0x1000, Kernel_vir)"
    by (simp_all add: vir_of_def dir_of_vaddr_def Let_def exit_kernel_def blocked_kernel_def sample_kernel_def sample_task_def sample_alloc_def)
  then show ?thesis unfolding release_process_memeory_def r Option.bind.simps
    by (simp add: up2_def unmalloc_thread_mem_def unmalloc_mem_def unalloc_mem_def vaddr2paddr_def get_pte_def find_pte_def MEM_PAGE_SIZE_def Let_def exit_kernel_def blocked_kernel_def sample_kernel_def pe_present_def)
qed

theorem process_exit_correct_witness:
  "\<exists>s'. process_exit 0 7 exit_state = Some s' \<and> cur (pk s') = 8192 \<and> exit_code (task (pk s') 4096) = 7 \<and>
     status (task (pk s') 4096) = TASK_HANGING \<and> parent_pid (task (pk s') 12288) = INIT_PID"
proof -
  have c: "pk exit_state = exit_kernel" "cur exit_kernel = 4096" by (simp_all add: exit_state_def exit_kernel_def blocked_kernel_def sample_kernel_def)
  have e: "exit_ready {4096, 8192, 12288} 0 7 exit_state"
    using exit_releases by (simp add: exit_ready_def c) (simp add: exit_state_def waiters_ok_def exit_kernel_def blocked_kernel_def sample_kernel_def sample_task_def)
  have f: "List.find (\<lambda>t. pid (task exit_kernel t) = parent_pid (task exit_kernel 4096)) [4096, 8192, 12288] = Some 8192"
    by (simp add: exit_kernel_def sample_task_def)
  have q: "exit_queue exit_state 8192 [] = [8192]"
    by (simp add: exit_queue_def exit_state_def vfork_waiter_def exit_kernel_def blocked_kernel_def sample_task_def sample_kernel_def Let_def enq_def)
  have p: "parent_pid (task exit_kernel 4096) \<noteq> pid (task exit_kernel 4096)" "parent_pid (task exit_kernel 12288) = pid (task exit_kernel 4096)"
    "\<not> due exit_kernel 12288" by (simp_all add: exit_kernel_def sample_task_def due_def)
  show ?thesis
    using process_exit_correct[of _ exit_state "[]" "[12288]" "[4096, 8192, 12288]", unfolded c, OF exit_sched_ok e f p(1)] q p(2,3)
    by auto
qed

section \<open>Completions\<close>

text \<open>
  A completion that was completed before is taken without blocking; \<open>wait_for_completion\<close> on one that was not blocks the task.
\<close>

lemma wait_done:
  assumes "c_done (compls s d) \<noteq> 0"
  shows "\<exists>s'. wait_for_completion d s = Some (Some (- 1), s') \<and> pk s' = pk s \<and>
    c_done (compls s' d) = (if c_done (compls s d) = - 1 then - 1 else c_done (compls s d) - 1)"
  using assms by (auto simp: wait_for_completion_def do_wait_for_common_def take_done_def SCHEDULE_TIMEOUT_MAX_def Let_def)

text \<open>
  A task that waits goes on after any wakeup, also when nothing was completed: the time left is 0 after the first round.
\<close>

lemma wait_resume_gives_up:
  assumes "c_done (compls s d) = 0"
  shows "wait_resume d schedule_timeout SCHEDULE_TIMEOUT_MAX s = ((Some 0, 0), s)"
  using assms by (simp add: wait_resume_def schedule_timeout_def SCHEDULE_TIMEOUT_MAX_def Let_def)

text \<open>The child of a \<open>fork\<close> shares the open files of its parent, which are not counted for it.\<close>

lemma copy_page_shares_files: "file_table (task (pk (copy_page dest src s)) dest) = file_table (task (pk s) src)"
  by (simp add: copy_page_def Let_def)

end
