(* ===== verification/Fat16.thy ===== *)
theory Fat16
  imports Ext2 Datetime
begin

text \<open>
  The FAT16 file system of \<open>kernel/fs/fat16fs.c\<close>, over the same block device as \<open>Ext2\<close>.  The page that
  \<open>fat16_mount\<close> allocates holds the first sector of the partition, whose bytes are read as \<open>bpb_t\<close>; behind the fields
  lies the buffer \<open>cache_buf\<close>, the rest of the page.  A pointer to a directory entry points into that buffer
  and is used before the buffer changes, so entries are values here.  The low-level functions work on the pair of
  \<open>bpb_t\<close> and device.  The real-time clock is an argument.

  \<open>None\<close> is an access outside a buffer, a division by zero, a NULL or uninitialised pointer, or a loop that does not end.
\<close>

section \<open>Structures on disk\<close>

text \<open>The fields of \<open>bpb_t\<close> that the code reads.\<close>

record bpb_t =
  bytes_per_sector :: u16
  sectors_per_cluster :: u8
  reserved_sector_count :: u16
  fat_count :: u8
  root_entry_count :: u16
  fat_sector_count :: u16
  media_type :: u8
  sectors_per_fat :: u16
  file_system :: "u8 list"
  cache_sector_start :: u32
  cache_sector_size :: u32
  cache_buf :: "u8 list"

definition FAT_PAGE_SIZE :: nat where "FAT_PAGE_SIZE = 4096"

text \<open>\<open>&(bpb->cache_buf) + sizeof(bpb->cache_buf)\<close> counts in pointers: 4 * 4 bytes behind the field at 70.\<close>

definition cache_offset :: nat where "cache_offset = 70 + 4 * 4"

definition bpb_at :: "u8 list \<Rightarrow> bpb_t" where
  "bpb_at bs = \<lparr>bytes_per_sector = le16_at bs 11, sectors_per_cluster = bs ! 13, reserved_sector_count = le16_at bs 14, fat_count = bs ! 16,
     root_entry_count = le16_at bs 17, fat_sector_count = le16_at bs 19, media_type = bs ! 21, sectors_per_fat = le16_at bs 22,
     file_system = take 8 (drop 54 bs), cache_sector_start = le32_at bs 62, cache_sector_size = le32_at bs 66, cache_buf = drop cache_offset bs\<rparr>"

definition INVALID_CLUSTER :: u16 where "INVALID_CLUSTER = 0xfff8"
definition CLUSTER_START :: u16 where "CLUSTER_START = 2"

definition is_valid_cluster :: "u16 \<Rightarrow> bool" where
  "is_valid_cluster cluster \<longleftrightarrow> cluster \<ge> CLUSTER_START \<and> cluster < INVALID_CLUSTER"

text \<open>A directory entry of 32 bytes: \<open>fe_name\<close> is \<open>name[8]\<close> followed by \<open>ext[3]\<close>.\<close>

record fat_entry_t =
  fe_name :: "u8 list"
  fe_attr :: u8
  fe_reserved :: u8
  fe_create_time_ms :: u8
  fe_create_time :: u16
  fe_create_date :: u16
  fe_access_date :: u16
  cluster_high :: u16
  fe_write_time :: u16
  fe_write_date :: u16
  cluster_low :: u16
  fe_size :: u32

definition sizeof_fat_entry :: nat where "sizeof_fat_entry = 32"

definition fat_entry_at :: "u8 list \<Rightarrow> fat_entry_t" where
  "fat_entry_at bs = \<lparr>fe_name = take 11 bs, fe_attr = bs ! 11, fe_reserved = bs ! 12, fe_create_time_ms = bs ! 13, fe_create_time = le16_at bs 14,
     fe_create_date = le16_at bs 16, fe_access_date = le16_at bs 18, cluster_high = le16_at bs 20, fe_write_time = le16_at bs 22,
     fe_write_date = le16_at bs 24, cluster_low = le16_at bs 26, fe_size = le32_at bs 28\<rparr>"

definition fat_entry_bytes :: "fat_entry_t \<Rightarrow> u8 list" where
  "fat_entry_bytes e = fe_name e @ [fe_attr e, fe_reserved e, fe_create_time_ms e] @ le16_bytes (fe_create_time e) @ le16_bytes (fe_create_date e) @
     le16_bytes (fe_access_date e) @ le16_bytes (cluster_high e) @ le16_bytes (fe_write_time e) @ le16_bytes (fe_write_date e) @
     le16_bytes (cluster_low e) @ le32 (fe_size e)"

record lfn_entry_t =
  lfn_order :: u8
  name0_4 :: "u8 list"
  lfn_attr :: u8
  lfn_type :: u8
  lfn_check_sum :: u8
  name5_10 :: "u8 list"
  lfn_reserved :: u16
  name11_12 :: "u8 list"

definition lfn_entry_at :: "u8 list \<Rightarrow> lfn_entry_t" where
  "lfn_entry_at bs = \<lparr>lfn_order = bs ! 0, name0_4 = take 10 (drop 1 bs), lfn_attr = bs ! 11, lfn_type = bs ! 12, lfn_check_sum = bs ! 13,
     name5_10 = take 12 (drop 14 bs), lfn_reserved = le16_at bs 26, name11_12 = take 4 (drop 28 bs)\<rparr>"

definition lfn_entry_bytes :: "lfn_entry_t \<Rightarrow> u8 list" where
  "lfn_entry_bytes l = [lfn_order l] @ name0_4 l @ [lfn_attr l, lfn_type l, lfn_check_sum l] @ name5_10 l @ le16_bytes (lfn_reserved l) @ name11_12 l"

definition ATTR_HIDDEN :: u8 where "ATTR_HIDDEN = 0x02"
definition ATTR_VOLUME_ID :: u8 where "ATTR_VOLUME_ID = 0x08"
definition ATTR_DIR :: u8 where "ATTR_DIR = 0x10"
definition ATTR_ARCHIVE :: u8 where "ATTR_ARCHIVE = 0x20"
definition ATTR_LFN :: u8 where "ATTR_LFN = 0x01 OR 0x02 OR 0x04 OR 0x08"
definition DIR_END :: u8 where "DIR_END = 0"
definition DIR_FREE :: u8 where "DIR_FREE = 0xE5"

text \<open>The bit fields of \<open>file_time\<close> and \<open>file_date\<close>, from the lowest bit on.\<close>

definition file_time_hour :: "u16 \<Rightarrow> u32" where "file_time_hour v = ucast (v AND 31)"
definition file_time_minu :: "u16 \<Rightarrow> u32" where "file_time_minu v = ucast (drop_bit 5 v AND 63)"
definition file_time_second :: "u16 \<Rightarrow> u32" where "file_time_second v = ucast (drop_bit 11 v AND 31)"
definition file_date_year :: "u16 \<Rightarrow> u32" where "file_date_year v = ucast (v AND 127)"
definition file_date_month :: "u16 \<Rightarrow> u32" where "file_date_month v = ucast (drop_bit 7 v AND 15)"
definition file_date_day :: "u16 \<Rightarrow> u32" where "file_date_day v = ucast (drop_bit 11 v AND 31)"

definition mk_file_time :: "u8 \<Rightarrow> u8 \<Rightarrow> u8 \<Rightarrow> u16" where
  "mk_file_time h m s = (ucast h AND 31) OR push_bit 5 (ucast m AND 63) OR push_bit 11 (ucast s AND 31)"

definition mk_file_date :: "u32 \<Rightarrow> u8 \<Rightarrow> u8 \<Rightarrow> u16" where
  "mk_file_date y m d = (ucast y AND 127) OR push_bit 7 (ucast m AND 15) OR push_bit 11 (ucast d AND 31)"

definition YEAR_OFFSET :: u32 where "YEAR_OFFSET = 1900"

definition datetime2timespec :: "u16 \<Rightarrow> u16 \<Rightarrow> u64" where
  "datetime2timespec date tm = of_int (mktime64 (file_date_year date + YEAR_OFFSET) (file_date_month date) (file_date_day date)
     (file_time_hour tm) (file_time_minu tm) (file_time_second tm))"

text \<open>What \<open>get_rtc_time\<close> returns.\<close>

record rtc_time =
  t_second :: u8
  t_minute :: u8
  t_hour :: u8
  t_day :: u8
  t_month :: u8
  t_year :: u32

section \<open>The mounted file system\<close>

record 'w fat =
  bpb :: bpb_t
  fdv :: 'w

record 'w fat_w =
  fat_dv :: 'w
  fat_bpbs :: "nat \<Rightarrow> bpb_t option"
  fat_next :: nat

definition validate_bpb :: "bpb_t \<Rightarrow> bool" where
  "validate_bpb p \<longleftrightarrow> fat_count p = 2 \<and> take 5 (file_system p) = [70, 65, 84, 49, 54]"

text \<open>
  \<open>page\<close> is what \<open>alloc_kernel_mem\<close> returns, with the bytes the page holds.  When the device cannot be opened, \<open>bpb_buf\<close>
  is tested before it is set.
\<close>

definition fat16_mount :: "'w bdev \<Rightarrow> u8 list option \<Rightarrow> fs_desc_t \<Rightarrow> int \<Rightarrow> int \<Rightarrow> 'w fat_w \<Rightarrow> (int \<times> fs_desc_t \<times> 'w fat_w) option" where
  "fat16_mount b page fs major minor s = do {
     (dev_id, w1) \<leftarrow> b_open b major minor (fat_dv s);
     if dev_id < 0 then None
     else case page of
       None \<Rightarrow> do { w2 \<leftarrow> b_close b dev_id w1; Some (-1, fs, s\<lparr>fat_dv := w2\<rparr>) }
     | Some pg \<Rightarrow> do {
         (r, bs, w2) \<leftarrow> b_read b dev_id 0 1 w1;
         buf \<leftarrow> into pg bs;
         let p = bpb_at buf;
         if r < 1 \<or> \<not> validate_bpb p then do { w3 \<leftarrow> b_close b dev_id w2; Some (-1, fs, s\<lparr>fat_dv := w3\<rparr>) }
         else Some (0, fs\<lparr>fs_type := FS_FAT16, fs_data := fat_next s, fs_dev_id := dev_id\<rparr>,
           s\<lparr>fat_dv := w2, fat_bpbs := (fat_bpbs s)(fat_next s \<mapsto> p), fat_next := fat_next s + 1\<rparr>)
       }
   }"

definition fat16_unmount :: "'w bdev \<Rightarrow> fs_desc_t \<Rightarrow> 'w fat_w \<Rightarrow> 'w fat_w option" where
  "fat16_unmount b fs s = do {
     w \<leftarrow> b_close b (fs_dev_id fs) (fat_dv s);
     Some (s\<lparr>fat_dv := w, fat_bpbs := (fat_bpbs s)(fs_data fs := None)\<rparr>)
   }"

definition fat16_bytes_per_cluster :: "bpb_t \<Rightarrow> u32" where
  "fat16_bytes_per_cluster p = ucast (bytes_per_sector p) * ucast (sectors_per_cluster p)"

definition fat16_tabl1_sector_idx :: "bpb_t \<Rightarrow> u32" where
  "fat16_tabl1_sector_idx p = ucast (reserved_sector_count p)"

definition fat16_root_sector_idx :: "bpb_t \<Rightarrow> u32" where
  "fat16_root_sector_idx p = fat16_tabl1_sector_idx p + ucast (fat_count p) * ucast (sectors_per_fat p)"

definition fat16_data_sector_idx :: "bpb_t \<Rightarrow> u32 option" where
  "fat16_data_sector_idx p =
     (if bytes_per_sector p = 0 then None
      else Some (fat16_root_sector_idx p + ucast (root_entry_count p) * of_nat sizeof_fat_entry div ucast (bytes_per_sector p)))"

text \<open>\<open>cluster_high >> 16\<close> is always 0.\<close>

definition entry_cluster :: "fat_entry_t \<Rightarrow> u32" where
  "entry_cluster e = drop_bit 16 (ucast (cluster_high e)) OR ucast (cluster_low e)"

definition get_sector_start :: "bpb_t \<Rightarrow> fat_entry_t \<Rightarrow> u32 option" where
  "get_sector_start p e = do {
     d \<leftarrow> fat16_data_sector_idx p;
     Some (d + (entry_cluster e - ucast CLUSTER_START) * ucast (sectors_per_cluster p))
   }"

section \<open>The buffered sectors\<close>

definition buf_read :: "'w bdev \<Rightarrow> int \<Rightarrow> u32 \<Rightarrow> u32 \<Rightarrow> 'w fat \<Rightarrow> (int \<times> 'w fat) option" where
  "buf_read b dev_id sector_start sz s =
     (if cache_sector_start (bpb s) = sector_start \<and> cache_sector_size (bpb s) = sz then Some (0, s)
      else do {
        (r, bs, w) \<leftarrow> b_read b dev_id sector_start (unat sz) (fdv s);
        buf \<leftarrow> into (cache_buf (bpb s)) bs;
        let p = (bpb s)\<lparr>cache_buf := buf\<rparr>;
        if r > 0 then Some (0, s\<lparr>bpb := p\<lparr>cache_sector_start := sector_start, cache_sector_size := sz\<rparr>, fdv := w\<rparr>)
        else Some (-1, s\<lparr>bpb := p, fdv := w\<rparr>)
      })"

definition buf_write :: "'w bdev \<Rightarrow> int \<Rightarrow> u32 \<Rightarrow> u32 \<Rightarrow> 'w fat \<Rightarrow> (int \<times> 'w fat) option" where
  "buf_write b dev_id sector_start sz s = do {
     (r, w) \<leftarrow> b_write b dev_id sector_start (cache_buf (bpb s)) (unat sz) (fdv s);
     Some (if r > 0 then 0 else -1, s\<lparr>fdv := w\<rparr>)
   }"

text \<open>Bytes copied into the buffer.\<close>

definition poke :: "nat \<Rightarrow> u8 list \<Rightarrow> 'w fat \<Rightarrow> 'w fat option" where
  "poke off bs s =
     (if off + length bs \<le> length (cache_buf (bpb s))
      then Some (s\<lparr>bpb := (bpb s)\<lparr>cache_buf := take off (cache_buf (bpb s)) @ bs @ drop (off + length bs) (cache_buf (bpb s))\<rparr>\<rparr>)
      else None)"

definition peek :: "nat \<Rightarrow> nat \<Rightarrow> 'w fat \<Rightarrow> u8 list option" where
  "peek off n s = (if off + n \<le> length (cache_buf (bpb s)) then Some (take n (drop off (cache_buf (bpb s)))) else None)"

text \<open>The entry \<open>idx\<close> of a directory that starts at a sector; \<open>None\<close> inside is the NULL of the code.\<close>

definition read_dir_entry :: "'w bdev \<Rightarrow> int \<Rightarrow> u32 \<Rightarrow> int \<Rightarrow> 'w fat \<Rightarrow> (u8 list option \<times> 'w fat) option" where
  "read_dir_entry b dev_id sector_start idx s =
     (if idx < 0 \<or> idx \<ge> int (unat (root_entry_count (bpb s))) then Some (None, s)
      else if bytes_per_sector (bpb s) = 0 then None
      else do {
        let off = of_nat sizeof_fat_entry * of_int idx;
        let bps = ucast (bytes_per_sector (bpb s));
        (err, s1) \<leftarrow> buf_read b dev_id (sector_start + off div bps) 1 s;
        if err \<noteq> 0 then Some (None, s1)
        else do { e \<leftarrow> peek (unat (off mod bps)) sizeof_fat_entry s1; Some (Some e, s1) }
      })"

definition write_dir_entry :: "'w bdev \<Rightarrow> int \<Rightarrow> u8 list \<Rightarrow> u32 \<Rightarrow> int \<Rightarrow> 'w fat \<Rightarrow> (int \<times> 'w fat) option" where
  "write_dir_entry b dev_id ent sector_root idx s =
     (if idx < 0 \<or> idx \<ge> int (unat (root_entry_count (bpb s))) then Some (-1, s)
      else if bytes_per_sector (bpb s) = 0 then None
      else do {
        let off = of_nat sizeof_fat_entry * of_int idx;
        let bps = ucast (bytes_per_sector (bpb s));
        let sector_start = off div bps + sector_root;
        (err, s1) \<leftarrow> buf_read b dev_id sector_start 1 s;
        if err \<noteq> 0 then Some (err, s1)
        else do {
          s2 \<leftarrow> poke (unat (off mod bps)) ent s1;
          buf_write b dev_id sector_start 1 s2
        }
      })"

section \<open>The file allocation table\<close>

fun write_copies :: "'w bdev \<Rightarrow> int \<Rightarrow> u32 \<Rightarrow> nat list \<Rightarrow> 'w fat \<Rightarrow> 'w fat option" where
  "write_copies b dev_id sector_start [] s = Some s"
| "write_copies b dev_id sector_start (i # is) s = do {
     (_, s1) \<leftarrow> buf_write b dev_id (sector_start + of_nat i * ucast (sectors_per_fat (bpb s))) 1 s;
     write_copies b dev_id sector_start is s1
   }"

definition set_cluster :: "'w bdev \<Rightarrow> int \<Rightarrow> u16 \<Rightarrow> u16 \<Rightarrow> 'w fat \<Rightarrow> (int \<times> 'w fat) option" where
  "set_cluster b dev_id cl nxt s =
     (if \<not> is_valid_cluster cl then Some (-1, s)
      else if bytes_per_sector (bpb s) = 0 then None
      else do {
        let off = ucast cl * 2;
        let bps = ucast (bytes_per_sector (bpb s));
        let sector_idx = off div bps;
        if sector_idx \<ge> ucast (sectors_per_fat (bpb s)) then Some (-2, s)
        else do {
          let sector_start = fat16_tabl1_sector_idx (bpb s) + sector_idx;
          (err, s1) \<leftarrow> buf_read b dev_id sector_start 1 s;
          if err \<noteq> 0 then Some (err, s1)
          else do {
            s2 \<leftarrow> poke (unat (off mod bps :: u32)) (le16_bytes nxt) s1;
            s3 \<leftarrow> write_copies b dev_id sector_start [0..<unat (fat_count (bpb s2))] s2;
            Some (0, s3)
          }
        }
      })"

text \<open>The offset is added to the first entry of the sector instead of its address.\<close>

definition get_next_cluster :: "'w bdev \<Rightarrow> int \<Rightarrow> u16 \<Rightarrow> 'w fat \<Rightarrow> (u16 \<times> 'w fat) option" where
  "get_next_cluster b dev_id cl s =
     (if bytes_per_sector (bpb s) = 0 then None
      else do {
        let off = ucast cl * 2;
        let bps = ucast (bytes_per_sector (bpb s));
        let sector_idx = (off div bps :: u32);
        if sector_idx > ucast (sectors_per_fat (bpb s)) then Some (INVALID_CLUSTER, s)
        else do {
          (err, s1) \<leftarrow> buf_read b dev_id (ucast (reserved_sector_count (bpb s)) + sector_idx) 1 s;
          if err \<noteq> 0 then Some (INVALID_CLUSTER, s1)
          else do { e \<leftarrow> peek 0 2 s1; Some (ucast (ucast (le16_at e 0) + off mod bps), s1) }
        }
      })"

partial_function (option) free_cluster_chain :: "'w bdev \<Rightarrow> int \<Rightarrow> u16 \<Rightarrow> 'w fat \<Rightarrow> 'w fat option" where
  "free_cluster_chain b dev_id cluster s =
     (if \<not> is_valid_cluster cluster then Some s
      else Option.bind (get_next_cluster b dev_id cluster s) (\<lambda>(nxt, s1).
        Option.bind (set_cluster b dev_id cluster nxt s1) (\<lambda>(_, s2).
          free_cluster_chain b dev_id nxt s2)))"

text \<open>
  The loop of \<open>malloc_free_cluster\<close> runs \<open>count\<close> times: of its condition \<open>cur < cluster_total_count, count > 0\<close> only the
  second part counts.  \<open>Inl\<close> is the early return.
\<close>

fun malloc_cluster_loop :: "'w bdev \<Rightarrow> int \<Rightarrow> nat \<Rightarrow> u16 \<Rightarrow> u16 \<Rightarrow> u16 \<Rightarrow> 'w fat \<Rightarrow> ('w fat + u16 \<times> u16 \<times> 'w fat) option" where
  "malloc_cluster_loop b dev_id 0 cl start pre s = Some (Inr (start, pre, s))"
| "malloc_cluster_loop b dev_id (Suc k) cl start pre s = do {
     let start' = (if is_valid_cluster start then start else cl);
     (err, s1) \<leftarrow> (if is_valid_cluster pre then set_cluster b dev_id pre cl s else Some (0, s));
     if err \<noteq> 0 then do { s2 \<leftarrow> free_cluster_chain b dev_id start' s1; Some (Inl s2) }
     else malloc_cluster_loop b dev_id k (cl + 1) start' cl s1
   }"

definition malloc_free_cluster :: "'w bdev \<Rightarrow> int \<Rightarrow> int \<Rightarrow> 'w fat \<Rightarrow> (u16 \<times> 'w fat) option" where
  "malloc_free_cluster b dev_id count s = do {
     r \<leftarrow> malloc_cluster_loop b dev_id (nat count) CLUSTER_START INVALID_CLUSTER INVALID_CLUSTER s;
     case r of
       Inl s1 \<Rightarrow> Some (INVALID_CLUSTER, s1)
     | Inr (start, pre, s1) \<Rightarrow> do {
         (err, s2) \<leftarrow> (if count \<ge> 0 then set_cluster b dev_id pre INVALID_CLUSTER s1 else Some (-1, s1));
         if err = 0 then Some (start, s2)
         else do { s3 \<leftarrow> free_cluster_chain b dev_id start s2; Some (INVALID_CLUSTER, s3) }
       }
   }"

section \<open>Reading and writing\<close>

datatype fat16_file_operate_t = fat16_file_operate_read | fat16_file_operate_write

definition step_size :: "u32 \<Rightarrow> u32 \<Rightarrow> u32 \<Rightarrow> u32" where
  "step_size bpc off sz = (if sz + off > bpc then bpc - off else sz)"

lemma step_size_pos: "sz \<noteq> 0 \<Longrightarrow> off < bpc \<Longrightarrow> 0 < step_size bpc off sz"
  by (simp add: step_size_def word_less_nat_alt unat_sub_if_size) (simp add: unat_gt_0)

lemma step_size_le:
  assumes "off < bpc"
  shows "step_size bpc off sz \<le> sz"
proof (cases "sz < bpc - off")
  case True
  then have "unat sz + unat off < unat bpc" using assms by (simp add: word_less_nat_alt unat_sub_if_size split: if_splits)
  then have "sz + off < bpc" using unsigned_less[of bpc, where ?'a = nat] by (simp add: word_less_nat_alt unat_add_small)
  then show ?thesis by (auto simp: step_size_def)
next
  case False
  then show ?thesis by (simp add: step_size_def not_less)
qed

lemma step_progress:
  assumes "sz \<noteq> 0" "bpc \<noteq> 0"
  shows "unat (sz - step_size bpc (pos mod bpc) sz) < unat sz"
proof -
  have "pos mod bpc < bpc" using assms(2) by (simp add: word_mod_less_divisor word_gt_0)
  then have "0 < step_size bpc (pos mod bpc) sz \<and> step_size bpc (pos mod bpc) sz \<le> sz" using step_size_pos[OF assms(1)] step_size_le by blast
  then show ?thesis by (simp add: word_le_nat_alt word_less_nat_alt unat_sub_if_size)
qed

text \<open>
  \<open>tot\<close> bytes are behind.  Reading appends to \<open>out\<close>, which has room for \<open>cap\<close> bytes; writing takes the bytes
  from \<open>buf\<close>.
\<close>

function operate_loop :: "'w bdev \<Rightarrow> int \<Rightarrow> fat16_file_operate_t \<Rightarrow> u8 list \<Rightarrow> nat \<Rightarrow> u32 \<Rightarrow> u8 list \<Rightarrow> u32 \<Rightarrow> file_t \<Rightarrow> 'w fat \<Rightarrow>
    (int \<times> u8 list \<times> file_t \<times> 'w fat) option" where
  "operate_loop b dev_id op buf cap sz out tot fl s =
     (if sz = 0 then Some (sint tot, out, fl, s)
      else let bpc = fat16_bytes_per_cluster (bpb s); off = f_pos fl mod bpc; n = step_size bpc off sz
        in if bpc = 0 then None
        else Option.bind (fat16_data_sector_idx (bpb s)) (\<lambda>d.
          let sector_start = d + (block_cur fl - ucast CLUSTER_START) * ucast (sectors_per_cluster (bpb s));
              spc = ucast (sectors_per_cluster (bpb s))
          in Option.bind (buf_read b dev_id sector_start spc s) (\<lambda>(err, s1).
            if err \<noteq> 0 then Some (sint tot, out, fl, s1)
            else Option.bind (case op of
                fat16_file_operate_read \<Rightarrow>
                  if length out + unat n > cap then None
                  else Option.bind (peek (unat off) (unat n) s1) (\<lambda>bs. Some (0, out @ bs, s1))
              | fat16_file_operate_write \<Rightarrow>
                  if length buf < unat tot + unat n then None
                  else Option.bind (poke (unat off) (take (unat n) (drop (unat tot) buf)) s1)
                    (\<lambda>s2. Option.bind (buf_write b dev_id sector_start spc s2) (\<lambda>(err, s3). Some (err, out, s3)))) (\<lambda>(err, out', s2).
              if err \<noteq> 0 then Some (sint tot, out', fl, s2)
              else Option.bind (if n + off \<ge> bpc then get_next_cluster b dev_id (ucast (block_cur fl)) s2
                  else Some (ucast (block_cur fl), s2)) (\<lambda>(c, s3).
                let fl' = fl\<lparr>f_pos := f_pos fl + n, block_cur := (if n + off \<ge> bpc then ucast c else block_cur fl)\<rparr>
                in operate_loop b dev_id op buf cap (sz - n) out' (tot + n) fl' s3)))))"
  by pat_completeness auto
termination
  by (relation "measure (\<lambda>(b, dev_id, op, buf, cap, sz, out, tot, fl, s). unat sz)") (auto intro: step_progress)

declare operate_loop.simps [simp del]

definition fat16_file_operate ::
  "'w bdev \<Rightarrow> int \<Rightarrow> fat16_file_operate_t \<Rightarrow> u8 list \<Rightarrow> nat \<Rightarrow> u32 \<Rightarrow> file_t \<Rightarrow> 'w fat \<Rightarrow> (int \<times> u8 list \<times> file_t \<times> 'w fat) option" where
  "fat16_file_operate b dev_id op buf cap sz fl s =
     (let sz' = (if op = fat16_file_operate_read \<and> f_pos fl + sz > f_size fl then f_size fl - f_pos fl else sz)
      in operate_loop b dev_id op buf cap sz' [] 0 fl s)"

text \<open>\<open>fat16_read\<close> has a loop of its own.\<close>

function fat16_read_loop :: "'w bdev \<Rightarrow> int \<Rightarrow> nat \<Rightarrow> u32 \<Rightarrow> u8 list \<Rightarrow> u32 \<Rightarrow> file_t \<Rightarrow> 'w fat \<Rightarrow> (int \<times> u8 list \<times> file_t \<times> 'w fat) option" where
  "fat16_read_loop b dev_id cap sz out tot fl s =
     (if sz = 0 then Some (sint tot, out, fl, s)
      else let bpc = fat16_bytes_per_cluster (bpb s); off = f_pos fl mod bpc; n = step_size bpc off sz
        in if bpc = 0 then None
        else Option.bind (fat16_data_sector_idx (bpb s)) (\<lambda>d.
          Option.bind (buf_read b dev_id (d + (block_cur fl - ucast CLUSTER_START) * ucast (sectors_per_cluster (bpb s)))
              (ucast (sectors_per_cluster (bpb s))) s) (\<lambda>(err, s1).
            if err \<noteq> 0 then Some (sint tot, out, fl, s1)
            else if length out + unat n > cap then None
            else Option.bind (peek (unat off) (unat n) s1) (\<lambda>bs.
              Option.bind (if n + off \<ge> bpc then get_next_cluster b dev_id (ucast (block_cur fl)) s1
                  else Some (ucast (block_cur fl), s1)) (\<lambda>(c, s2).
                let fl' = fl\<lparr>f_pos := f_pos fl + n, block_cur := (if n + off \<ge> bpc then ucast c else block_cur fl)\<rparr>
                in fat16_read_loop b dev_id cap (sz - n) (out @ bs) (tot + n) fl' s2)))))"
  by pat_completeness auto
termination
  by (relation "measure (\<lambda>(b, dev_id, cap, sz, out, tot, fl, s). unat sz)") (auto intro: step_progress)

declare fat16_read_loop.simps [simp del]

definition load_fat :: "fs_desc_t \<Rightarrow> 'w fat_w \<Rightarrow> 'w fat option" where
  "load_fat fs s = (case fat_bpbs s (fs_data fs) of None \<Rightarrow> None | Some p \<Rightarrow> Some \<lparr>bpb = p, fdv = fat_dv s\<rparr>)"

definition store_fat :: "fs_desc_t \<Rightarrow> 'w fat \<Rightarrow> 'w fat_w \<Rightarrow> 'w fat_w" where
  "store_fat fs t s = s\<lparr>fat_dv := fdv t, fat_bpbs := (fat_bpbs s)(fs_data fs \<mapsto> bpb t)\<rparr>"

definition fat16_read :: "'w bdev \<Rightarrow> fs_desc_t \<Rightarrow> file_t \<Rightarrow> nat \<Rightarrow> 'w fat_w \<Rightarrow> (int \<times> u8 list \<times> file_t \<times> 'w fat_w) option" where
  "fat16_read b fs fl n s =
     (case load_fat fs s of None \<Rightarrow> Some (-1, [], fl, s)
      | Some t \<Rightarrow> do {
          let sz = (if f_pos fl + of_nat n > f_size fl then f_size fl - f_pos fl else of_nat n);
          (r, out, fl', t') \<leftarrow> fat16_read_loop b (fs_dev_id fs) n sz [] 0 fl t;
          Some (r, out, fl', store_fat fs t' s)
        })"

definition expand_file :: "'w bdev \<Rightarrow> int \<Rightarrow> u32 \<Rightarrow> file_t \<Rightarrow> 'w fat \<Rightarrow> (int \<times> file_t \<times> 'w fat) option" where
  "expand_file b dev_id sz fl s = do {
     let bpc = fat16_bytes_per_cluster (bpb s);
     if f_size fl \<noteq> 0 \<and> bpc = 0 then None
     else do {
       let free = bpc - f_size fl mod bpc;
       if \<not> (f_size fl = 0 \<or> f_size fl mod bpc = 0) \<and> free \<ge> sz then Some (0, fl, s)
       else do {
         n \<leftarrow> up2 (if f_size fl = 0 \<or> f_size fl mod bpc = 0 then sz else sz - free) bpc;
         (start, s1) \<leftarrow> malloc_free_cluster b dev_id (sint (n div bpc)) s;
         if \<not> is_valid_cluster start then Some (-2, fl, s1)
         else if \<not> (ucast CLUSTER_START \<le> block_start fl \<and> block_start fl < ucast INVALID_CLUSTER)
           then Some (0, fl\<lparr>block_start := ucast start, block_cur := ucast start\<rparr>, s1)
         else do { (_, s2) \<leftarrow> set_cluster b dev_id (ucast (block_cur fl)) start s1; Some (0, fl, s2) }
       }
     }
   }"

definition O_CREAT :: u32 where "O_CREAT = 1"
definition O_TRUNC :: u32 where "O_TRUNC = 32"

definition fat16_write :: "'w bdev \<Rightarrow> fs_desc_t \<Rightarrow> file_t \<Rightarrow> u8 list \<Rightarrow> 'w fat_w \<Rightarrow> (int \<times> file_t \<times> 'w fat_w) option" where
  "fat16_write b fs fl buf s =
     (if f_mode fl AND O_RDONLY \<noteq> 0 then Some (-1, fl, s)
      else case load_fat fs s of None \<Rightarrow> Some (-1, fl, s)
      | Some t \<Rightarrow> do {
          let sz = of_nat (length buf);
          let f1 = (if f_mode fl AND O_APPEND \<noteq> 0 then fl\<lparr>f_pos := f_size fl\<rparr> else fl);
          (err, f2, t1) \<leftarrow> (if f_pos f1 + sz > f_size f1 then expand_file b (fs_dev_id fs) sz f1 t else Some (0, f1, t));
          if err \<noteq> 0 then Some (-1, f2, store_fat fs t1 s)
          else do {
            (r, _, f3, t2) \<leftarrow> fat16_file_operate b (fs_dev_id fs) fat16_file_operate_write buf 0 sz (f2\<lparr>f_size := f_pos f2\<rparr>) t1;
            Some (r, if r > 0 then f3\<lparr>f_size := f_size f3 + of_int r\<rparr> else f3, store_fat fs t2 s)
          }
        })"

text \<open>\<open>1 << sizeof(file->pos)\<close> is 16; \<open>SEEK_END\<close> falls through to the default.\<close>

definition fat16_seek :: "fs_desc_t \<Rightarrow> file_t \<Rightarrow> int \<Rightarrow> int \<Rightarrow> 'w fat_w \<Rightarrow> (int \<times> file_t \<times> 'w fat_w) option" where
  "fat16_seek fs fl offset whence s =
     (if whence = SEEK_SET then
        let p = of_int (max offset 0) in Some (sint (p - f_pos fl), fl\<lparr>f_pos := p\<rparr>, s)
      else if whence = SEEK_CUR then
        let p = f_pos fl + of_int offset
        in if p \<ge> 16 then Some (EOVERFLOW, fl, s) else Some (sint (p - f_pos fl), fl\<lparr>f_pos := p\<rparr>, s)
      else if whence = SEEK_END then Some (EINVAL, fl\<lparr>f_pos := f_size fl + of_int offset\<rparr>, s)
      else Some (EINVAL, fl, s))"

partial_function (option) cluster_count_loop :: "'w bdev \<Rightarrow> int \<Rightarrow> u16 \<Rightarrow> u32 \<Rightarrow> 'w fat \<Rightarrow> (u32 \<times> 'w fat) option" where
  "cluster_count_loop b dev_id cl k s =
     (if cl = INVALID_CLUSTER then Some (k, s)
      else Option.bind (get_next_cluster b dev_id cl s) (\<lambda>(nxt, s1). cluster_count_loop b dev_id nxt (k + 1) s1))"

definition get_file_cluster_count :: "'w bdev \<Rightarrow> int \<Rightarrow> file_t \<Rightarrow> 'w fat \<Rightarrow> (u32 \<times> 'w fat) option" where
  "get_file_cluster_count b dev_id fl s = cluster_count_loop b dev_id (ucast (block_start fl)) 0 s"

definition fat16_stat :: "'w bdev \<Rightarrow> fs_desc_t \<Rightarrow> file_t \<Rightarrow> stat_t \<Rightarrow> 'w fat_w \<Rightarrow> (int \<times> stat_t \<times> file_t \<times> 'w fat_w) option" where
  "fat16_stat b fs fl st s =
     (let st1 = st\<lparr>st_dev_id := fs_dev_id fs, st_size := f_size fl\<rparr>
      in case load_fat fs s of None \<Rightarrow> Some (-1, st1, fl, s)
      | Some t \<Rightarrow> do {
          (k, t1) \<leftarrow> get_file_cluster_count b (fs_dev_id fs) fl t;
          let st2 = st1\<lparr>st_block_size := ucast (bytes_per_sector (bpb t)), st_block_count := fat16_bytes_per_cluster (bpb t) * k\<rparr>;
          (e, t2) \<leftarrow> read_dir_entry b (fs_dev_id fs) (node_sector_idx fl) (sint (file_idx fl)) t1;
          case e of None \<Rightarrow> Some (0, st2, fl, store_fat fs t2 s)
          | Some bs \<Rightarrow>
              let en = fat_entry_at bs
              in Some (0, st2\<lparr>st_create_time := datetime2timespec (fe_create_date en) (fe_create_time en),
                   st_update_time := datetime2timespec (fe_write_date en) (fe_write_time en)\<rparr>, fl, store_fat fs t2 s)
        })"

end
