(* ===== verification/Fat16_Dir.thy ===== *)
theory Fat16_Dir
  imports Fat16
begin

text \<open>
  The directories of \<open>kernel/fs/fat16fs.c\<close>: names, the search for an entry, and the operations that need it (open, close,
  readdir).  \<open>real_name\<close> is a buffer passed in and out.  A local buffer the code does not initialise is an argument.
\<close>

section \<open>Names\<close>

definition SFN_LEN :: nat where "SFN_LEN = 11"

definition upcase :: "u8 \<Rightarrow> u8" where
  "upcase c = (if c \<ge> 97 \<and> c \<le> 122 then c - 97 + 65 else c)"

fun to_sfn_loop :: "u8 list \<Rightarrow> nat \<Rightarrow> u8 list \<Rightarrow> u8 list option" where
  "to_sfn_loop [] j buf = Some buf"
| "to_sfn_loop (c # cs) j buf =
     (if c = 46 then to_sfn_loop cs (7 + 1) buf
      else do { buf' \<leftarrow> upd_opt buf j (upcase c); to_sfn_loop cs (j + 1) buf' })"

definition to_sfn :: "u8 list \<Rightarrow> u8 list \<Rightarrow> u8 list option" where
  "to_sfn path buf = to_sfn_loop path 0 (replicate SFN_LEN 32 @ drop SFN_LEN buf)"

text \<open>Of the length of the extension only counts whether it is positive: its first character is looked at.\<close>

definition from_sfn :: "u8 list \<Rightarrow> u8 list \<Rightarrow> u8 list option" where
  "from_sfn dst sfn = do {
     let d1 = take 8 sfn @ drop 8 dst;
     if sfn ! 8 \<noteq> 32 \<and> sfn ! 8 \<noteq> 0 then do {
       n \<leftarrow> trim_strlen (0 # d1) 1;
       d2 \<leftarrow> upd_opt d1 n 46;
       m \<leftarrow> trim_strlen (0 # d2) 1;
       if m + 3 \<le> length d2 then Some (take m d2 @ take 3 (drop 8 sfn) @ drop (m + 3) d2) else None
     }
     else Some d1
   }"

definition match_sfn :: "u8 list \<Rightarrow> u8 list \<Rightarrow> bool option" where
  "match_sfn entry_name path = do {
     sfn \<leftarrow> to_sfn path (replicate SFN_LEN 0);
     Some (take SFN_LEN entry_name = sfn)
   }"

text \<open>The bytes that \<open>from_lfn\<close> stores.  \<open>char\<close> is signed: the comparison with \<open>0xff\<close> is never true.\<close>

fun lfn_chars :: "nat \<Rightarrow> u8 list \<Rightarrow> u8 list option" where
  "lfn_chars 0 bs = Some []"
| "lfn_chars (Suc n) (a # c # bs) = do { r \<leftarrow> lfn_chars (n - 1) bs; Some (a # (if c \<noteq> 0 then [c] else []) @ r) }"
| "lfn_chars (Suc n) _ = None"

definition from_lfn :: "u8 list \<Rightarrow> u8 list \<Rightarrow> nat \<Rightarrow> u8 list option" where
  "from_lfn dst lfn sz = do { cs \<leftarrow> lfn_chars sz lfn; into dst cs }"

definition match_lfn :: "u8 list \<Rightarrow> u8 list \<Rightarrow> nat \<Rightarrow> bool option" where
  "match_lfn name path sz = do {
     buf \<leftarrow> from_lfn (replicate 128 0) name sz;
     let n = min 128 (length path);
     Some (take n buf = take n path)
   }"

fun check_sum_loop :: "u8 list \<Rightarrow> u8 \<Rightarrow> u8" where
  "check_sum_loop [] s = s"
| "check_sum_loop (c # cs) s = check_sum_loop cs (push_bit 7 (s AND 1) + drop_bit 1 s + c)"

definition get_check_sum :: "u8 list \<Rightarrow> u8" where
  "get_check_sum short_name = check_sum_loop (take 11 short_name) 0"

fun lfn_checksum_loop :: "nat \<Rightarrow> u8 list \<Rightarrow> u8 \<Rightarrow> u8" where
  "lfn_checksum_loop 0 p s = s"
| "lfn_checksum_loop (Suc i) p s = lfn_checksum_loop i (tl p) (push_bit 7 (s AND 1) + drop_bit 1 s + hd p)"

definition lfn_checksum :: "u8 list \<Rightarrow> u8" where
  "lfn_checksum p = lfn_checksum_loop 11 p 0"

definition ascii2unicode :: "u8 list \<Rightarrow> u8 list" where
  "ascii2unicode cs = concat (map (\<lambda>c. [c, 0]) cs)"

section \<open>Entries\<close>

fun entry_count_loop :: "'w bdev \<Rightarrow> int \<Rightarrow> u32 \<Rightarrow> nat \<Rightarrow> int \<Rightarrow> 'w fat \<Rightarrow> (u32 \<times> 'w fat) option" where
  "entry_count_loop b dev_id sector 0 i s = Some (of_int i, s)"
| "entry_count_loop b dev_id sector (Suc k) i s = do {
     (e, s1) \<leftarrow> read_dir_entry b dev_id sector i s;
     case e of None \<Rightarrow> Some (of_int i, s1)
     | Some bs \<Rightarrow> if fe_attr (fat_entry_at bs) = 0 then Some (of_int i, s1) else entry_count_loop b dev_id sector k (i + 1) s1
   }"

definition get_dir_entry_count :: "'w bdev \<Rightarrow> int \<Rightarrow> u32 \<Rightarrow> 'w fat \<Rightarrow> (u32 \<times> 'w fat) option" where
  "get_dir_entry_count b dev_id sector s = entry_count_loop b dev_id sector 256 0 s"

definition read_file_info :: "'w bdev \<Rightarrow> int \<Rightarrow> fat_entry_t \<Rightarrow> int \<Rightarrow> u8 list \<Rightarrow> file_t \<Rightarrow> 'w fat \<Rightarrow> (file_t \<times> 'w fat) option" where
  "read_file_info b dev_id en idx path fl s = do {
     let ty = (if fe_attr en AND ATTR_DIR \<noteq> 0 then FILE_DIR else FILE_FILE);
     nm \<leftarrow> over_name path (f_name fl);
     let f1 = fl\<lparr>f_type := ty, file_idx := of_int idx, f_size := fe_size en, f_pos := 0, block_start := entry_cluster en,
       block_cur := entry_cluster en, f_name := nm\<rparr>;
     if ty = FILE_DIR then do {
       (n, s1) \<leftarrow> get_dir_entry_count b dev_id (node_sector_idx f1) s;
       Some (f1\<lparr>f_size := n\<rparr>, s1)
     }
     else Some (f1, s)
   }"

text \<open>
  A name of more than 11 characters runs into the fields behind \<open>ext\<close>, which are all set afterwards.
\<close>

definition init_dir_entry :: "rtc_time \<Rightarrow> u8 list \<Rightarrow> u8 \<Rightarrow> fat_entry_t option" where
  "init_dir_entry now name attr = do {
     nm \<leftarrow> to_sfn name (replicate sizeof_fat_entry 0);
     let ftime = mk_file_time (t_hour now) (t_minute now) (t_second now);
     let date = mk_file_date (t_year now) (t_month now) (t_day now);
     Some \<lparr>fe_name = take 11 nm, fe_attr = attr, fe_reserved = 0, fe_create_time_ms = 0, fe_create_time = ftime, fe_create_date = date,
       fe_access_date = date, cluster_high = 0, fe_write_time = ftime, fe_write_date = date, cluster_low = INVALID_CLUSTER, fe_size = 0\<rparr>
   }"

definition should_handle_dir_entry :: "fat_entry_t \<Rightarrow> int" where
  "should_handle_dir_entry en =
     (if fe_name en ! 0 = DIR_END then -1
      else if fe_name en ! 0 = DIR_FREE then 0
      else if fe_attr en = ATTR_LFN \<or> fe_attr en = ATTR_ARCHIVE \<or> fe_attr en = ATTR_DIR then 1
      else if fe_attr en AND ATTR_HIDDEN \<noteq> 0 \<or> fe_attr en AND ATTR_VOLUME_ID \<noteq> 0 then 0
      else 0)"

definition LFN_COUNT :: nat where "LFN_COUNT = 9"

text \<open>
  The entries of a long name, from index \<open>i\<close> on; \<open>j\<close> of them are done, at most \<open>k\<close> are left.  Of the condition
  \<open>j < lfn_count, i < bpb->root_entry_count\<close> only the second part counts, so \<open>check_sums[j]\<close> can lie outside the array.
  The \<open>memset\<close> of \<open>check_sums\<close> clears 36 bytes of an array of 9; the bytes behind it are those of
  \<open>lfn_buf\<close>, cleared next.
\<close>

fun lfn_loop :: "'w bdev \<Rightarrow> int \<Rightarrow> u32 \<Rightarrow> nat \<Rightarrow> int \<Rightarrow> nat \<Rightarrow> u8 list \<Rightarrow> 'w fat \<Rightarrow> (int \<times> u8 list \<times> 'w fat) option" where
  "lfn_loop b dev_id sector 0 i j lfn_buf s = Some (i, lfn_buf, s)"
| "lfn_loop b dev_id sector (Suc k) i j lfn_buf s = do {
     (e, s1) \<leftarrow> read_dir_entry b dev_id sector i s;
     case e of None \<Rightarrow> Some (i, lfn_buf, s1)
     | Some bs \<Rightarrow>
         if fe_attr (fat_entry_at bs) \<noteq> ATTR_LFN then Some (i, lfn_buf, s1)
         else do {
           let l = lfn_entry_at bs;
           let ord = unat (lfn_order l AND 31);
           if ord = 0 \<or> ord > LFN_COUNT \<or> j \<ge> LFN_COUNT then None
           else do {
             let p = 26 * (ord - 1);
             let buf' = take p lfn_buf @ name0_4 l @ name5_10 l @ name11_12 l @ drop (p + 26) lfn_buf;
             if ord = 1 then Some (i, buf', s1) else lfn_loop b dev_id sector k (i + 1) (j + 1) buf' s1
           }
         }
   }"

text \<open>\<open>path\<close> is \<open>None\<close> for NULL.  The result is the entry, \<open>*handled\<close>, \<open>*idx\<close>, \<open>real_name\<close>.\<close>

definition handle_lfn_entry :: "'w bdev \<Rightarrow> int \<Rightarrow> u32 \<Rightarrow> int \<Rightarrow> u8 list option \<Rightarrow> bool \<Rightarrow> u8 list \<Rightarrow> 'w fat \<Rightarrow>
    (u8 list option \<times> bool \<times> int \<times> u8 list \<times> 'w fat) option" where
  "handle_lfn_entry b dev_id sector idx path handled real_name s = do {
     (i, lfn_buf, s1) \<leftarrow> lfn_loop b dev_id sector (unat (root_entry_count (bpb s)) - nat idx) idx 0 (replicate (LFN_COUNT * 26) 0) s;
     rn \<leftarrow> from_lfn real_name lfn_buf (LFN_COUNT * 26);
     n \<leftarrow> (case path of None \<Rightarrow> Some 0 | Some _ \<Rightarrow> strlen (0 # rn) 1);
     if path = None \<or> path = Some (take n rn) then do {
       (e, s2) \<leftarrow> read_dir_entry b dev_id sector (i + 1) s1;
       Some (e, if e = None then handled else True, i + 1, rn, s2)
     }
     else Some (None, False, i + 1, rn, s1)
   }"

definition handle_dir_entry :: "'w bdev \<Rightarrow> int \<Rightarrow> u32 \<Rightarrow> int \<Rightarrow> u8 list option \<Rightarrow> bool \<Rightarrow> u8 list \<Rightarrow> 'w fat \<Rightarrow>
    (u8 list option \<times> bool \<times> int \<times> u8 list \<times> 'w fat) option" where
  "handle_dir_entry b dev_id sector idx path handled real_name s = do {
     (e, s1) \<leftarrow> read_dir_entry b dev_id sector idx s;
     case e of None \<Rightarrow> Some (None, handled, idx, real_name, s1)
     | Some bs \<Rightarrow>
         let en = fat_entry_at bs
         in if should_handle_dir_entry en < 0 then Some (None, True, idx, real_name, s1)
         else if should_handle_dir_entry en = 0 then Some (None, False, idx, real_name, s1)
         else if fe_attr en = ATTR_LFN \<and> lfn_order (lfn_entry_at bs) AND 0x40 \<noteq> 0
           then handle_lfn_entry b dev_id sector idx path handled real_name s1
         else do {
           rn \<leftarrow> from_sfn real_name bs;
           case path of None \<Rightarrow> Some (Some bs, True, idx, rn, s1)
           | Some p \<Rightarrow> do {
               m \<leftarrow> match_sfn bs p;
               Some (if m then Some bs else None, m, idx, rn, s1)
             }
         }
   }"

section \<open>Opening a file\<close>

text \<open>
  The entries of a long name, written from the last to the first.  \<open>pm\<close> holds the bytes from \<open>name\<close> on; the last entry
  reads behind the end of the name.  The results of \<open>write_dir_entry\<close> are ignored.
\<close>

definition lfn_part :: "u8 list \<Rightarrow> u8 \<Rightarrow> nat \<Rightarrow> nat \<Rightarrow> lfn_entry_t option" where
  "lfn_part pm sm n i =
     (if length pm < i * 13 + 13 then None
      else let cs = take 13 (drop (i * 13) pm)
           in Some \<lparr>lfn_order = (if i = n - 1 then (of_nat i + 1) OR 0x40 else of_nat i + 1), name0_4 = ascii2unicode (take 5 cs), lfn_attr = ATTR_LFN,
                lfn_type = 0, lfn_check_sum = sm, name5_10 = ascii2unicode (take 6 (drop 5 cs)), lfn_reserved = 0,
                name11_12 = ascii2unicode (drop 11 cs)\<rparr>)"

fun create_lfn_loop :: "'w bdev \<Rightarrow> int \<Rightarrow> u32 \<Rightarrow> u8 list \<Rightarrow> u8 \<Rightarrow> nat \<Rightarrow> nat \<Rightarrow> int \<Rightarrow> 'w fat \<Rightarrow> (int \<times> 'w fat) option" where
  "create_lfn_loop b dev_id sector pm sm n 0 idx s = Some (idx, s)"
| "create_lfn_loop b dev_id sector pm sm n (Suc i) idx s = do {
     l \<leftarrow> lfn_part pm sm n i;
     (_, s1) \<leftarrow> write_dir_entry b dev_id (lfn_entry_bytes l) sector idx s;
     create_lfn_loop b dev_id sector pm sm n i (idx + 1) s1
   }"

definition create_lfn :: "'w bdev \<Rightarrow> int \<Rightarrow> u32 \<Rightarrow> fat_entry_t \<Rightarrow> u8 list \<Rightarrow> u8 list \<Rightarrow> int \<Rightarrow> 'w fat \<Rightarrow> (int \<times> fat_entry_t \<times> int \<times> 'w fat) option" where
  "create_lfn b dev_id sector en name pm idx s = do {
     up \<leftarrow> up2 (of_nat (length name)) 13;
     let n = unat (up div 13);
     if n > 9 then Some (-1, en, idx, s)
     else do {
       let en' = en\<lparr>fe_name := (fe_name en)[6 := 126, 7 := of_nat n + 48]\<rparr>;
       (idx', s') \<leftarrow> create_lfn_loop b dev_id sector pm (get_check_sum (fe_name en')) n n idx s;
       Some (0, en', idx', s')
     }
   }"

text \<open>
  The search in one directory.  Every round increases \<open>i\<close>, so 256 rounds are enough to reach its end.
  An index that is never set is \<open>None\<close>.
\<close>

fun open_scan :: "'w bdev \<Rightarrow> int \<Rightarrow> u32 \<Rightarrow> u8 list \<Rightarrow> nat \<Rightarrow> int \<Rightarrow> int option \<Rightarrow> u8 list \<Rightarrow> 'w fat \<Rightarrow>
    (u8 list option \<times> int option \<times> u8 list \<times> 'w fat) option" where
  "open_scan b dev_id sector name 0 i fidx rn s = Some (None, fidx, rn, s)"
| "open_scan b dev_id sector name (Suc k) i fidx rn s =
     (if i \<ge> 256 then Some (None, fidx, rn, s)
      else do {
        (e, handled, i', rn', s1) \<leftarrow> handle_dir_entry b dev_id sector i (Some name) False rn s;
        if handled then Some (e, Some i', rn', s1) else open_scan b dev_id sector name k (i' + 1) fidx rn' s1
      })"

text \<open>
  The components of the path in turn; \<open>k\<close> of them have been cut off by \<open>strtok_r\<close>.  Without a name, or with one that
  starts with a dot, the code writes through the NULL pointer \<open>item\<close> or uses the fields of an entry it has not set.
\<close>

fun open_walk :: "'w bdev \<Rightarrow> int \<Rightarrow> u8 list list \<Rightarrow> u32 \<Rightarrow> nat \<Rightarrow> int option \<Rightarrow> u8 list \<Rightarrow> 'w fat \<Rightarrow>
    (u8 list option \<times> int option \<times> u32 \<times> nat \<times> 'w fat) option" where
  "open_walk b dev_id [] sector k fidx rn s = None"
| "open_walk b dev_id (name # names) sector k fidx rn s =
     (if name ! 0 = 46 then None
      else do {
        (item, fidx', rn', s1) \<leftarrow> open_scan b dev_id sector name 256 0 fidx rn s;
        case item of None \<Rightarrow> Some (None, fidx', sector, k + 1, s1)
        | Some bs \<Rightarrow> do {
            sector' \<leftarrow> get_sector_start (bpb s1) (fat_entry_at bs);
            if names = [] then Some (item, fidx', sector', k + 1, s1)
            else open_walk b dev_id names sector' (k + 1) fidx' rn' s1
          }
      })"

text \<open>The path after \<open>strtok_r\<close> has cut \<open>k\<close> components: the delimiter behind each is 0.\<close>

fun cut_path :: "nat \<Rightarrow> u8 list \<Rightarrow> u8 list" where
  "cut_path 0 p = p"
| "cut_path (Suc k) p =
     (let r = dropWhile (\<lambda>c. c = 47) p
      in case dropWhile (\<lambda>c. c \<noteq> 47) r of [] \<Rightarrow> p
         | _ # q \<Rightarrow> takeWhile (\<lambda>c. c = 47) p @ takeWhile (\<lambda>c. c \<noteq> 47) r @ 0 # cut_path k q)"

text \<open>\<open>behind\<close> holds the bytes behind the terminating zero of the path, \<open>rn\<close> those of \<open>real_name\<close>.\<close>

definition fat16_open ::
  "'w bdev \<Rightarrow> rtc_time \<Rightarrow> u8 list \<Rightarrow> u8 list \<Rightarrow> fs_desc_t \<Rightarrow> u8 list \<Rightarrow> file_t \<Rightarrow> 'w fat_w \<Rightarrow> (int \<times> file_t \<times> 'w fat_w) option" where
  "fat16_open b now rn behind fs path fl s =
     (case load_fat fs s of None \<Rightarrow> Some (-1, fl, s)
      | Some t \<Rightarrow> do {
          (item, fidx, sector, k, t1) \<leftarrow> open_walk b (fs_dev_id fs) (tokens {47} path) (fat16_root_sector_idx (bpb t)) 0 None rn t;
          let pm = cut_path k path @ 0 # behind;
          let name = takeWhile (\<lambda>c. c \<noteq> 0) pm;
          let f1 = fl\<lparr>node_sector_idx := sector\<rparr>;
          case item of
            Some bs \<Rightarrow> do {
              idx \<leftarrow> fidx;
              (f2, t2) \<leftarrow> read_file_info b (fs_dev_id fs) (fat_entry_at bs) idx name f1 t1;
              if f_mode fl AND O_TRUNC \<noteq> 0 then do {
                t3 \<leftarrow> free_cluster_chain b (fs_dev_id fs) (ucast (block_start f2)) t2;
                Some (0, f2\<lparr>block_start := ucast INVALID_CLUSTER, block_cur := ucast INVALID_CLUSTER, f_size := 0\<rparr>, store_fat fs t3 s)
              }
              else Some (0, f2, store_fat fs t2 s)
            }
          | None \<Rightarrow>
              if f_mode fl AND O_CREAT = 0 then Some (-1, f1, store_fat fs t1 s)
              else do {
                idx \<leftarrow> fidx;
                en \<leftarrow> init_dir_entry now name 0;
                (err, en', idx', t2) \<leftarrow> (if length name > 11 then create_lfn b (fs_dev_id fs) sector en name pm idx t1 else Some (0, en, idx, t1));
                if err \<noteq> 0 then Some (err, f1, store_fat fs t2 s)
                else do {
                  (err', t3) \<leftarrow> write_dir_entry b (fs_dev_id fs) (fat_entry_bytes en') sector idx' t2;
                  if err' \<noteq> 0 then Some (err', f1, store_fat fs t3 s)
                  else do {
                    (f2, t4) \<leftarrow> read_file_info b (fs_dev_id fs) en' idx' name f1 t3;
                    Some (0, f2, store_fat fs t4 s)
                  }
                }
              }
        })"

section \<open>Closing a file and listing a directory\<close>

definition fat16_close :: "'w bdev \<Rightarrow> rtc_time \<Rightarrow> fs_desc_t \<Rightarrow> file_t \<Rightarrow> 'w fat_w \<Rightarrow> (file_t \<times> 'w fat_w) option" where
  "fat16_close b now fs fl s =
     (if f_mode fl AND O_RDONLY \<noteq> 0 then Some (fl, s)
      else case load_fat fs s of None \<Rightarrow> Some (fl, s)
      | Some t \<Rightarrow> do {
          (e, t1) \<leftarrow> read_dir_entry b (fs_dev_id fs) (node_sector_idx fl) (sint (file_idx fl)) t;
          case e of None \<Rightarrow> Some (fl, store_fat fs t1 s)
          | Some bs \<Rightarrow> do {
              let date = mk_file_date (t_year now - YEAR_OFFSET) (t_month now) (t_day now);
              let en = (fat_entry_at bs)\<lparr>fe_access_date := date, fe_write_time := mk_file_time (t_hour now) (t_minute now) (t_second now),
                fe_write_date := date, cluster_high := ucast (drop_bit 16 (block_start fl)), cluster_low := ucast (block_start fl),
                fe_size := f_size fl\<rparr>;
              (_, t2) \<leftarrow> write_dir_entry b (fs_dev_id fs) (fat_entry_bytes en) (node_sector_idx fl) (sint (file_idx fl)) t1;
              Some (fl, store_fat fs t2 s)
            }
        })"

partial_function (option) fat_readdir_loop :: "'w bdev \<Rightarrow> int \<Rightarrow> u32 \<Rightarrow> u8 list \<Rightarrow> u32 \<Rightarrow> u32 \<Rightarrow> 'w fat \<Rightarrow> (u8 list option \<times> u32 \<times> u8 list \<times> 'w fat) option" where
  "fat_readdir_loop b dev_id sector rn pos sz s =
     (if \<not> pos < sz then Some (None, pos, rn, s)
      else Option.bind (handle_dir_entry b dev_id sector (sint pos) None False rn s) (\<lambda>(e, handled, i, rn', s1).
        if handled then Some (e, of_int i + 1, rn', s1) else fat_readdir_loop b dev_id sector rn' (of_int i + 1) sz s1))"

definition fat16_readdir :: "'w bdev \<Rightarrow> fs_desc_t \<Rightarrow> file_t \<Rightarrow> dirent_t \<Rightarrow> 'w fat_w \<Rightarrow> (int \<times> dirent_t \<times> file_t \<times> 'w fat_w) option" where
  "fat16_readdir b fs fl d s =
     (if f_type fl \<noteq> FILE_DIR \<or> f_pos fl \<ge> f_size fl then Some (-1, d, fl, s)
      else do {
        t \<leftarrow> load_fat fs s;
        (e, pos, rn, t1) \<leftarrow> fat_readdir_loop b (fs_dev_id fs) (node_sector_idx fl) (replicate 128 0) (f_pos fl) (f_size fl) t;
        let f1 = fl\<lparr>f_pos := pos\<rparr>;
        case e of None \<Rightarrow> Some (-1, d, f1, store_fat fs t1 s)
        | Some bs \<Rightarrow> do {
            let en = fat_entry_at bs;
            n \<leftarrow> strlen (0 # rn) 1;
            nm \<leftarrow> into (replicate 64 0) (take n rn);
            (_, nm') \<leftarrow> trim 1 (0 # nm);
            let d1 = d\<lparr>de_name := tl nm', de_offset := sint (pos - 1), de_type := FILE_FILE, de_size := fe_size en, de_child_count := 1\<rparr>;
            sector \<leftarrow> get_sector_start (bpb t1) en;
            if fe_attr en AND ATTR_DIR \<noteq> 0 then do {
              (k, t2) \<leftarrow> get_dir_entry_count b (fs_dev_id fs) sector t1;
              Some (0, d1\<lparr>de_type := FILE_DIR, de_child_count := k\<rparr>, f1, store_fat fs t2 s)
            }
            else Some (0, d1, f1, store_fat fs t1 s)
          }
      })"

definition fat16_ioctl :: "fs_desc_t \<Rightarrow> file_t \<Rightarrow> int \<Rightarrow> int \<Rightarrow> int \<Rightarrow> 'w fat_w \<Rightarrow> (int \<times> 'w fat_w) option" where
  "fat16_ioctl fs fl cmd arg0 arg1 s = Some (-1, s)"

text \<open>The functions with an empty body return nothing where an \<open>error\<close> is expected: their result is undefined.\<close>

definition fat16_ops :: "'w bdev \<Rightarrow> u8 list option \<Rightarrow> rtc_time \<Rightarrow> u8 list \<Rightarrow> u8 list \<Rightarrow> 'w fat_w fs_ops_t" where
  "fat16_ops b page now rn behind = \<lparr>op_mount = fat16_mount b page, op_open = fat16_open b now rn behind, op_ioctl = fat16_ioctl, op_read = fat16_read b,
     op_write = fat16_write b, op_close = fat16_close b now, op_seek = fat16_seek, op_stat = fat16_stat b, op_remove = (\<lambda>_ _ _. None),
     op_readdir = fat16_readdir b, op_mkdir = (\<lambda>_ _ _ _. None), op_link = (\<lambda>_ _ _ _ _. None), op_unlink = (\<lambda>_ _ _. None)\<rparr>"

end
