(* ===== verification/Fat16_Proofs.thy ===== *)
theory Fat16_Proofs
  imports Fat16_Dir Ext2_Proofs
begin

text \<open>
  Correctness of the FAT16 driver on a block device of 512-byte sectors: the buffer of the driver agrees with the disk,
  \<open>set_cluster\<close> changes one link in both copies of the table, and reading follows the clusters of a file.
\<close>

section \<open>The buffer\<close>

text \<open>The bytes of the file system that do not change.\<close>

definition geo :: "bpb_t \<Rightarrow> bpb_t" where
  "geo p = p\<lparr>cache_sector_start := 0, cache_sector_size := 0, cache_buf := []\<rparr>"

lemma geo_sel:
  assumes "geo p = geo q"
  shows "bytes_per_sector p = bytes_per_sector q" "sectors_per_cluster p = sectors_per_cluster q" "reserved_sector_count p = reserved_sector_count q"
    "fat_count p = fat_count q" "root_entry_count p = root_entry_count q" "sectors_per_fat p = sectors_per_fat q"
  using assms by (simp_all add: geo_def) (cases p; cases q; simp)+

lemma geo_upd [simp]:
  "geo (p\<lparr>cache_sector_start := a\<rparr>) = geo p" "geo (p\<lparr>cache_sector_size := a\<rparr>) = geo p" "geo (p\<lparr>cache_buf := c\<rparr>) = geo p"
  by (simp_all add: geo_def)

text \<open>What the buffer holds, when its tags name one or two sectors of the device.\<close>

definition coherent :: "nat \<Rightarrow> (nat \<Rightarrow> u8 list) \<Rightarrow> bpb_t \<Rightarrow> bool" where
  "coherent cap I p \<longleftrightarrow> (cache_sector_size p = 1 \<or> cache_sector_size p = 2) \<and> unat (cache_sector_start p) + unat (cache_sector_size p) \<le> cap \<longrightarrow>
     take (512 * unat (cache_sector_size p)) (cache_buf p) = span I (unat (cache_sector_start p)) (unat (cache_sector_size p))"

definition bpb_ok :: "nat \<Rightarrow> (nat \<Rightarrow> u8 list) \<Rightarrow> bpb_t \<Rightarrow> bool" where
  "bpb_ok cap I p \<longleftrightarrow> bytes_per_sector p = 512 \<and> length (cache_buf p) = 4010 \<and> coherent cap I p"

text \<open>The link that \<open>get_next_cluster\<close> computes, and the one the table holds (copy \<open>k\<close>).\<close>

definition code_next :: "(nat \<Rightarrow> u8 list) \<Rightarrow> bpb_t \<Rightarrow> u16 \<Rightarrow> u16" where
  "code_next I p c =
     (if unat c * 2 div 512 > unat (sectors_per_fat p) then INVALID_CLUSTER
      else le16_at (I (unat (reserved_sector_count p) + unat c * 2 div 512)) 0 + of_nat (unat c * 2 mod 512))"

definition fat_link :: "(nat \<Rightarrow> u8 list) \<Rightarrow> bpb_t \<Rightarrow> nat \<Rightarrow> u16 \<Rightarrow> u16" where
  "fat_link I p k c = le16_at (I (unat (reserved_sector_count p) + k * unat (sectors_per_fat p) + unat c * 2 div 512)) (unat c * 2 mod 512)"

lemma unat_ucast16 [simp]: "unat (ucast (c :: u16) :: u32) = unat c"
  using unsigned_less[of c, where ?'a = nat] by (simp add: unsigned_ucast_eq take_bit_eq_mod)

lemma unat_ucast8 [simp]: "unat (ucast (c :: u8) :: u32) = unat c"
  using unsigned_less[of c, where ?'a = nat] by (simp add: unsigned_ucast_eq take_bit_eq_mod)

lemma ucast_back16 [simp]: "ucast (ucast (c :: u16) :: u32) = c"
  by (rule bit_word_eqI) (simp add: bit_simps)

lemma fat_offset:
  fixes c :: u16
  shows "unat (ucast c * 2 :: u32) = unat c * 2" "unat (ucast c * 2 div 512 :: u32) = unat c * 2 div 512" "unat (ucast c * 2 mod 512 :: u32) = unat c * 2 mod 512"
proof -
  show e: "unat (ucast c * 2 :: u32) = unat c * 2"
    using unsigned_less[of c, where ?'a = nat] by (subst unat_mult_small) simp_all
  show "unat (ucast c * 2 div 512 :: u32) = unat c * 2 div 512" "unat (ucast c * 2 mod 512 :: u32) = unat c * 2 mod 512"
    using e by (simp_all add: unat_div_distrib unat_mod_distrib)
qed

lemma span_1 [simp]: "span I a (Suc 0) = I a"
  by (simp add: span_def)

context block_device
begin

abbreviation fat_ok :: "'w fat \<Rightarrow> bool" where
  "fat_ok s \<equiv> up (fdv s) \<and> bpb_ok cap (img (fdv s)) (bpb s)"

text \<open>A step that leaves the disk and the layout as they are.\<close>

abbreviation quiet :: "'w fat \<Rightarrow> 'w fat \<Rightarrow> bool" where
  "quiet s s' \<equiv> fat_ok s' \<and> img (fdv s') = img (fdv s) \<and> geo (bpb s') = geo (bpb s)"

lemma length_span: "up w \<Longrightarrow> length (span (img w) a n) = 512 * n"
  by (induct n) (simp_all add: span_def img_len)

lemma buf_read_ok:
  assumes s: "fat_ok s" and n: "n = 1 \<or> n = 2" and a: "unat a + unat n \<le> cap"
  shows "\<exists>s'. buf_read b dev a n s = Some (0, s') \<and> quiet s s' \<and> cache_sector_start (bpb s') = a \<and> cache_sector_size (bpb s') = n \<and>
    take (512 * unat n) (cache_buf (bpb s')) = span (img (fdv s)) (unat a) (unat n)"
proof (cases "cache_sector_start (bpb s) = a \<and> cache_sector_size (bpb s) = n")
  case True
  then show ?thesis using s n a by (auto simp: buf_read_def bpb_ok_def coherent_def)
next
  case False
  have n': "unat n = 1 \<or> unat n = 2" using n by auto
  obtain w where w: "b_read b dev a (unat n) (fdv s) = Some (int (unat n), span (img (fdv s)) (unat a) (unat n), w)" "up w" "img w = img (fdv s)"
    using read_law[of "fdv s" "unat n" a] s n' a by auto
  let ?B = "span (img (fdv s)) (unat a) (unat n)"
  have l: "length ?B = 512 * unat n" "length ?B \<le> length (cache_buf (bpb s))"
    using length_span[of "fdv s" "unat a" "unat n"] s n' by (auto simp: bpb_ok_def)
  have pos: "0 < int (unat n)" using n by auto
  have "buf_read b dev a n s = Some (0, s\<lparr>bpb := (bpb s)\<lparr>cache_buf := ?B @ drop (length ?B) (cache_buf (bpb s)), cache_sector_start := a,
      cache_sector_size := n\<rparr>, fdv := w\<rparr>)"
    using False w(1) l(2) pos by (auto simp: buf_read_def into_def)
  then show ?thesis using w l s by (auto simp: bpb_ok_def coherent_def)
qed

lemma get_next_cluster_ok:
  assumes s: "fat_ok s" and f: "unat (reserved_sector_count (bpb s)) + unat (sectors_per_fat (bpb s)) < cap"
  shows "\<exists>s'. get_next_cluster b dev c s = Some (code_next (img (fdv s)) (bpb s) c, s') \<and> quiet s s'"
proof (cases "unat c * 2 div 512 > unat (sectors_per_fat (bpb s))")
  case True
  then show ?thesis using s by (auto simp: get_next_cluster_def bpb_ok_def code_next_def fat_offset word_less_nat_alt)
next
  case False
  let ?k = "ucast c * 2 div 512 :: u32"
  have u: "unat (ucast (reserved_sector_count (bpb s)) + ?k) = unat (reserved_sector_count (bpb s)) + unat c * 2 div 512"
    using False f cap_le by (subst unat_add_small) (simp_all add: fat_offset)
  obtain s1 where s1: "buf_read b dev (ucast (reserved_sector_count (bpb s)) + ?k) 1 s = Some (0, s1)" "quiet s s1"
    "take 512 (cache_buf (bpb s1)) = img (fdv s) (unat (reserved_sector_count (bpb s)) + unat c * 2 div 512)"
    using buf_read_ok[OF s, of 1 "ucast (reserved_sector_count (bpb s)) + ?k"] False f u by auto
  have l: "length (cache_buf (bpb s1)) = 4010" using s1(2) by (simp add: bpb_ok_def)
  have "take 2 (cache_buf (bpb s1)) = take 2 (img (fdv s) (unat (reserved_sector_count (bpb s)) + unat c * 2 div 512))"
    using s1(3)[symmetric] by simp
  then have e: "le16_at (take 2 (cache_buf (bpb s1))) 0 = le16_at (img (fdv s) (unat (reserved_sector_count (bpb s)) + unat c * 2 div 512)) 0"
    by (simp add: le16_at_def)
  have o: "ucast (ucast x + ucast c * 2 mod 512 :: u32) = x + of_nat (unat c * 2 mod 512)" for x :: u16
  proof -
    have "ucast c * 2 mod 512 = (of_nat (unat c * 2 mod 512) :: u32)" unfolding fat_offset(3)[symmetric] by simp
    then show ?thesis by (simp add: word_unat_eq_iff unat_word_ariths unsigned_ucast_eq take_bit_eq_mod unsigned_of_nat mod_simps mod_mod_cancel)
  qed
  show ?thesis
    using s s1(1,2) False l e by (auto simp: get_next_cluster_def bpb_ok_def code_next_def fat_offset word_less_nat_alt peek_def o)
qed

end

section \<open>The clusters of a file\<close>

definition cluster_size :: "bpb_t \<Rightarrow> nat" where
  "cluster_size p = 512 * unat (sectors_per_cluster p)"

definition cluster_sector :: "bpb_t \<Rightarrow> u32 \<Rightarrow> u32" where
  "cluster_sector p c = fat16_root_sector_idx p + ucast (root_entry_count p) * 32 div 512 + (c - 2) * ucast (sectors_per_cluster p)"

definition cluster_on :: "nat \<Rightarrow> bpb_t \<Rightarrow> u16 \<Rightarrow> bool" where
  "cluster_on cap p c \<longleftrightarrow> unat (cluster_sector p (ucast c)) + unat (sectors_per_cluster p) \<le> cap"

definition cluster_bytes :: "(nat \<Rightarrow> u8 list) \<Rightarrow> bpb_t \<Rightarrow> u16 \<Rightarrow> u8 list" where
  "cluster_bytes I p c = span I (unat (cluster_sector p (ucast c))) (unat (sectors_per_cluster p))"

definition chain_at :: "(nat \<Rightarrow> u8 list) \<Rightarrow> bpb_t \<Rightarrow> u16 \<Rightarrow> nat \<Rightarrow> u16" where
  "chain_at I p c k = (code_next I p ^^ k) c"

definition file_byte :: "(nat \<Rightarrow> u8 list) \<Rightarrow> bpb_t \<Rightarrow> u16 \<Rightarrow> nat \<Rightarrow> u8" where
  "file_byte I p c i = cluster_bytes I p (chain_at I p c (i div cluster_size p)) ! (i mod cluster_size p)"

text \<open>Clusters of one or two sectors, and a table that lies on the device.\<close>

definition layout_ok :: "nat \<Rightarrow> bpb_t \<Rightarrow> bool" where
  "layout_ok cap p \<longleftrightarrow> (sectors_per_cluster p = 1 \<or> sectors_per_cluster p = 2) \<and> unat (reserved_sector_count p) + unat (sectors_per_fat p) < cap"

lemma geo_cong:
  assumes "geo p = geo q"
  shows "cluster_size p = cluster_size q" "cluster_sector p c = cluster_sector q c" "code_next I p x = code_next I q x"
    "fat16_bytes_per_cluster p = fat16_bytes_per_cluster q" "layout_ok n p = layout_ok n q" "fat16_tabl1_sector_idx p = fat16_tabl1_sector_idx q"
  using geo_sel[OF assms]
  by (simp_all add: cluster_size_def cluster_sector_def code_next_def fat16_root_sector_idx_def fat16_tabl1_sector_idx_def fat16_bytes_per_cluster_def layout_ok_def)

lemma chain_at_simps: "chain_at I p c 0 = c" "chain_at I p c (Suc k) = chain_at I p (code_next I p c) k"
  by (simp_all add: chain_at_def funpow_swap1)

lemma file_byte_next:
  assumes "0 < cluster_size p"
  shows "file_byte I p c (cluster_size p + i) = file_byte I p (code_next I p c) i"
proof -
  have "(cluster_size p + i) div cluster_size p = Suc (i div cluster_size p)" using assms by (simp add: div_add_self1)
  then show ?thesis by (simp add: file_byte_def chain_at_simps)
qed

lemma file_byte_here:
  assumes "i < cluster_size p"
  shows "file_byte I p c i = cluster_bytes I p c ! i"
  using assms by (simp add: file_byte_def chain_at_simps)

lemma file_bytes_cluster:
  assumes "length (cluster_bytes I p c) = cluster_size p" "off + n \<le> cluster_size p"
  shows "map (file_byte I p c) [off..<off + n] = take n (drop off (cluster_bytes I p c))"
  using assms by (intro nth_equalityI) (simp_all add: file_byte_here)

lemma file_bytes_next:
  assumes "0 < cluster_size p"
  shows "map (file_byte I p c) [cluster_size p..<cluster_size p + n] = map (file_byte I p (code_next I p c)) [0..<n]"
  using file_byte_next[OF assms, of I c] by (intro nth_equalityI) simp_all

lemma cluster_size_word:
  assumes "layout_ok k p" "bytes_per_sector p = 512"
  shows "unat (fat16_bytes_per_cluster p) = cluster_size p" "cluster_size p = 512 \<or> cluster_size p = 1024"
  using assms by (auto simp: layout_ok_def fat16_bytes_per_cluster_def cluster_size_def)

lemma unat_pos_add:
  assumes "m = 512 \<or> m = (1024 :: nat)"
  shows "unat (x + y :: u32) mod m = (unat x + unat y) mod m"
  using assms by (auto simp: unat_word_ariths mod_mod_cancel)

context block_device
begin

lemma cluster_read_ok:
  assumes s: "fat_ok s" and p: "geo (bpb s) = geo p" and l: "layout_ok cap p" and c: "cluster_on cap p c"
  shows "\<exists>d s'. fat16_data_sector_idx (bpb s) = Some d \<and>
    buf_read b dev (d + (ucast c - ucast CLUSTER_START) * ucast (sectors_per_cluster (bpb s))) (ucast (sectors_per_cluster (bpb s))) s = Some (0, s') \<and>
    quiet s s' \<and> take (cluster_size p) (cache_buf (bpb s')) = cluster_bytes (img (fdv s)) p c"
proof -
  have b: "bytes_per_sector (bpb s) = 512" using s by (simp add: bpb_ok_def)
  have g: "sectors_per_cluster (bpb s) = sectors_per_cluster p" "root_entry_count (bpb s) = root_entry_count p" "fat16_root_sector_idx (bpb s) = fat16_root_sector_idx p"
    using geo_sel[OF p] by (simp_all add: fat16_root_sector_idx_def fat16_tabl1_sector_idx_def)
  let ?d = "fat16_root_sector_idx (bpb s) + ucast (root_entry_count (bpb s)) * 32 div 512"
  have d: "fat16_data_sector_idx (bpb s) = Some ?d" using b by (simp add: fat16_data_sector_idx_def sizeof_fat_entry_def)
  have a: "?d + (ucast c - ucast CLUSTER_START) * ucast (sectors_per_cluster (bpb s)) = cluster_sector p (ucast c)"
    using g by (simp add: cluster_sector_def CLUSTER_START_def)
  have n: "(ucast (sectors_per_cluster p) :: u32) = 1 \<or> (ucast (sectors_per_cluster p) :: u32) = 2" using l by (auto simp: layout_ok_def)
  show ?thesis
    using buf_read_ok[OF s n, of "cluster_sector p (ucast c)"] c d a g by (auto simp: cluster_on_def cluster_size_def cluster_bytes_def)
qed

lemma length_cluster: "up w \<Longrightarrow> length (cluster_bytes (img w) p c) = cluster_size p"
  by (simp add: cluster_bytes_def cluster_size_def length_span)

lemma fat_read_loop_ok:
  assumes "fat_ok s" "img (fdv s) = I" "geo (bpb s) = geo p" "layout_ok cap p" "block_cur fl = ucast c" "off = unat (f_pos fl) mod cluster_size p"
    "unat sz < 2 ^ 31" "\<forall>k. k * cluster_size p < off + unat sz \<longrightarrow> cluster_on cap p (chain_at I p c k)" "length out + unat sz \<le> room"
  shows "\<exists>s'. fat16_read_loop b dev room sz out tot fl s = Some (sint (tot + sz), out @ map (file_byte I p c) [off..<off + unat sz],
      fl\<lparr>f_pos := f_pos fl + sz, block_cur := ucast (chain_at I p c ((off + unat sz) div cluster_size p))\<rparr>, s') \<and> quiet s s'"
  using assms
proof (induct "unat sz" arbitrary: sz out tot fl s c off rule: less_induct)
  case less
  note s = less.prems(1) and I = less.prems(2) and p = less.prems(3) and l = less.prems(4) and c = less.prems(5) and off = less.prems(6)
    and sz = less.prems(7) and on = less.prems(8) and room = less.prems(9)
  have b: "bytes_per_sector p = 512" using s geo_sel(1)[OF p] by (simp add: bpb_ok_def)
  note cs = cluster_size_word[OF l b]
  have ol: "off < cluster_size p" using off cs(2) by auto
  show ?case
  proof (cases "sz = 0")
    case True
    have "fl\<lparr>f_pos := f_pos fl, block_cur := ucast c\<rparr> = fl" using c by simp
    then show ?thesis using True s ol by (simp add: fat16_read_loop.simps chain_at_simps)
  next
    case False
    then have pos: "0 < unat sz" by (simp add: unat_gt_0)
    let ?bpc = "fat16_bytes_per_cluster (bpb s)"
    have bpc: "unat ?bpc = cluster_size p" "?bpc \<noteq> 0" using cs geo_cong(4)[OF p] by auto
    define n where "n = step_size ?bpc (f_pos fl mod ?bpc) sz"
    have uo: "unat (f_pos fl mod ?bpc) = off" using bpc off by (simp add: unat_mod_distrib)
    have uso: "unat (sz + f_pos fl mod ?bpc) = unat sz + off" using sz ol cs(2) uo by (subst unat_add_small) auto
    have un: "unat n = min (unat sz) (cluster_size p - off)"
      using uso uo ol bpc(1) by (auto simp: n_def step_size_def word_less_nat_alt unat_sub_if_size)
    have ge: "n + f_pos fl mod ?bpc \<ge> ?bpc \<longleftrightarrow> cluster_size p - off \<le> unat sz"
    proof -
      have "unat (n + f_pos fl mod ?bpc) = unat n + off" using sz ol cs(2) uo un by (subst unat_add_small) auto
      then show ?thesis using un ol bpc(1) by (auto simp: word_le_nat_alt)
    qed
    obtain d s1 where s1: "fat16_data_sector_idx (bpb s) = Some d"
      "buf_read b dev (d + (ucast c - ucast CLUSTER_START) * ucast (sectors_per_cluster (bpb s))) (ucast (sectors_per_cluster (bpb s))) s = Some (0, s1)"
      "quiet s s1" "take (cluster_size p) (cache_buf (bpb s1)) = cluster_bytes I p c"
      using cluster_read_ok[OF s p l, of c] on[rule_format, of 0] pos ol I by (auto simp: chain_at_simps)
    let ?bs = "map (file_byte I p c) [off..<off + unat n]"
    have lc: "length (cluster_bytes I p c) = cluster_size p" using length_cluster s I by blast
    have nle: "off + unat n \<le> cluster_size p" using un ol by auto
    have pk: "peek off (unat n) s1 = Some ?bs"
    proof -
      have "take (unat n) (drop off (cluster_bytes I p c)) = take (unat n) (drop off (cache_buf (bpb s1)))"
        unfolding s1(4)[symmetric] drop_take using nle by (simp add: take_take min_def)
      moreover have "off + unat n \<le> length (cache_buf (bpb s1))" using s1(3) nle cs(2) by (auto simp: bpb_ok_def)
      ultimately show ?thesis using file_bytes_cluster[OF lc nle] by (simp add: peek_def)
    qed
    have rm: "length out + unat n \<le> room" using room un by auto
    have usz: "unat (sz - n) = unat sz - unat n" using un by (simp add: unat_sub_if_size)
    have split: "[off..<off + unat sz] = [off..<off + unat n] @ [off + unat n..<off + unat sz]"
      using un upt_add_eq_append[of off "off + unat n" "unat sz - unat n"] by simp
    show ?thesis
    proof (cases "cluster_size p - off \<le> unat sz")
      case True
      have un': "unat n = cluster_size p - off" using un True by simp
      have p1: "geo (bpb s1) = geo p" using s1(3) p by simp
      obtain s2 where s2: "get_next_cluster b dev c s1 = Some (code_next I p c, s2)" "quiet s1 s2"
        using get_next_cluster_ok[of s1 c] s1(3) l p1 I geo_cong(3)[OF p1] geo_sel[OF p1] by (auto simp: layout_ok_def)
      let ?fl = "fl\<lparr>f_pos := f_pos fl + n, block_cur := ucast (code_next I p c)\<rparr>"
      have step: "fat16_read_loop b dev room sz out tot fl s = fat16_read_loop b dev room (sz - n) (out @ ?bs) (tot + n) ?fl s2"
        using False True bpc s1(1,2) pk rm ge s2(1) c uo
        by (subst fat16_read_loop.simps) (simp add: n_def[symmetric] Let_def)
      have z: "unat (f_pos fl + n) mod cluster_size p = 0"
        unfolding unat_pos_add[OF cs(2)] un' using off ol by (metis le_add_diff_inverse less_imp_le mod_add_left_eq mod_self)
      have on': "\<forall>k. k * cluster_size p < 0 + unat (sz - n) \<longrightarrow> cluster_on cap p (chain_at I p (code_next I p c) k)"
      proof (intro allI impI)
        fix k assume "k * cluster_size p < 0 + unat (sz - n)"
        then have "Suc k * cluster_size p < off + unat sz" using usz un' ol by simp
        then show "cluster_on cap p (chain_at I p (code_next I p c) k)" using on by (simp only: chain_at_simps(2)[symmetric])
      qed
      have lt: "unat (sz - n) < unat sz" using usz un' ol pos by linarith
      have "\<exists>s'. fat16_read_loop b dev room (sz - n) (out @ ?bs) (tot + n) ?fl s2 = Some (sint (tot + n + (sz - n)),
          (out @ ?bs) @ map (file_byte I p (code_next I p c)) [0..<0 + unat (sz - n)],
          ?fl\<lparr>f_pos := f_pos ?fl + (sz - n), block_cur := ucast (chain_at I p (code_next I p c) ((0 + unat (sz - n)) div cluster_size p))\<rparr>, s') \<and> quiet s2 s'"
        by (rule less.hyps[OF lt]) (use s2 s1 I p l z on' usz un sz room in auto)
      moreover have "map (file_byte I p c) [off + unat n..<off + unat sz] = map (file_byte I p (code_next I p c)) [0..<unat (sz - n)]"
      proof -
        have "off + unat n = cluster_size p" "off + unat sz = cluster_size p + unat (sz - n)" using un' ol usz True by auto
        then show ?thesis using file_bytes_next[of p I c "unat (sz - n)"] ol by simp
      qed
      moreover have "chain_at I p (code_next I p c) (unat (sz - n) div cluster_size p) = chain_at I p c ((off + unat sz) div cluster_size p)"
      proof -
        have "off + unat sz = cluster_size p + unat (sz - n)" using un' ol usz True by auto
        then have "(off + unat sz) div cluster_size p = Suc (unat (sz - n) div cluster_size p)" using ol by (simp add: div_add_self1)
        then show ?thesis by (simp add: chain_at_simps)
      qed
      ultimately show ?thesis unfolding step split using s1(3) s2(2) by auto
    next
      case nofull: False
      then have n: "n = sz" using un by (simp add: word_unat_eq_iff)
      have "fat16_read_loop b dev room sz out tot fl s = Some (sint (tot + sz), out @ ?bs, fl\<lparr>f_pos := f_pos fl + sz\<rparr>, s1)"
        using False nofull bpc s1(1,2) pk rm ge c uo n
        by (subst fat16_read_loop.simps) (simp add: n_def[symmetric] Let_def fat16_read_loop.simps[of _ _ _ 0])
      moreover have "fl\<lparr>f_pos := f_pos fl + sz\<rparr> = fl\<lparr>f_pos := f_pos fl + sz, block_cur := ucast c\<rparr>" using c by simp
      moreover have "(off + unat sz) div cluster_size p = 0" using nofull by simp
      ultimately show ?thesis using n s1(3) by (auto simp: chain_at_simps)
    qed
  qed
qed

end

section \<open>Links in the table\<close>

definition put_link :: "u16 \<Rightarrow> u16 \<Rightarrow> u8 list \<Rightarrow> u8 list" where
  "put_link c n bs = take (unat c * 2 mod 512) bs @ le16_bytes n @ drop (unat c * 2 mod 512 + 2) bs"

text \<open>The two copies of the table are the same.\<close>

definition mirrored :: "(nat \<Rightarrow> u8 list) \<Rightarrow> bpb_t \<Rightarrow> bool" where
  "mirrored I p \<longleftrightarrow> (\<forall>k < unat (sectors_per_fat p).
     I (unat (reserved_sector_count p) + unat (sectors_per_fat p) + k) = I (unat (reserved_sector_count p) + k))"

definition in_table :: "bpb_t \<Rightarrow> u16 \<Rightarrow> bool" where
  "in_table p c \<longleftrightarrow> unat c * 2 div 512 < unat (sectors_per_fat p)"

lemma link_offset_eq: "(k :: nat) * 2 mod 512 = k mod 256 * 2"
  using mult_mod_left[of k 256 2] by simp

lemma link_offset: "unat (c :: u16) * 2 mod 512 + 2 \<le> 512"
  unfolding link_offset_eq using mod_less_divisor[of 256 "unat c"] by linarith

lemma length_put_link: "length bs = 512 \<Longrightarrow> length (put_link c n bs) = 512"
  using link_offset[of c] by (simp add: put_link_def)

lemma take_put_link: "512 \<le> length bs \<Longrightarrow> take 512 (put_link c n bs) = put_link c n (take 512 bs)"
  using link_offset[of c] by (simp add: put_link_def take_append min_def take_drop)

lemma put_link_same: "length bs = 512 \<Longrightarrow> le16_at (put_link c n bs) (unat c * 2 mod 512) = n"
  using link_offset[of c] le16_at_append[of "take (unat c * 2 mod 512) bs" n] by (simp add: put_link_def)

lemma put_link_other:
  fixes x c :: u16
  assumes "length bs = 512" "unat x * 2 mod 512 \<noteq> unat c * 2 mod 512"
  shows "le16_at (put_link c n bs) (unat x * 2 mod 512) = le16_at bs (unat x * 2 mod 512)"
proof -
  note e = link_offset_eq
  define i j where "i = unat x mod 256" and "j = unat c mod 256"
  have ij: "i < 256" "j < 256" "i \<noteq> j" using assms(2) unfolding e by (auto simp: i_def j_def)
  then have "put_link c n bs ! (i * 2) = bs ! (i * 2)" "put_link c n bs ! Suc (i * 2) = bs ! Suc (i * 2)"
    using assms(1) by (cases i; auto simp: put_link_def e j_def[symmetric] nth_append le16_bytes_def nth_Cons' min_def)+
  then show ?thesis by (simp add: le16_at_def e i_def)
qed

lemma same_link: "unat x * 2 div 512 = unat c * 2 div 512 \<Longrightarrow> unat x * 2 mod 512 = unat (c :: u16) * 2 mod 512 \<Longrightarrow> x = c"
  by (metis div_mult_mod_eq mult_right_cancel word_unat_eq_iff zero_neq_numeral)

context block_device
begin

lemma buf_write_ok:
  assumes "up (fdv s)" "length (cache_buf (bpb s)) = 4010" "unat a < cap"
  shows "\<exists>w. buf_write b dev a 1 s = Some (0, s\<lparr>fdv := w\<rparr>) \<and> up w \<and> img w = (img (fdv s))(unat a := take 512 (cache_buf (bpb s)))"
proof -
  obtain w where w: "b_write b dev a (cache_buf (bpb s)) 1 (fdv s) = Some (1, w)" "up w" "img w = put_span (img (fdv s)) (unat a) 1 (cache_buf (bpb s))"
    using write_law[of "fdv s" 1 a "cache_buf (bpb s)"] assms by auto
  have "put_span (img (fdv s)) (unat a) 1 (cache_buf (bpb s)) x = ((img (fdv s))(unat a := take 512 (cache_buf (bpb s)))) x" for x
    by (cases "x = unat a") (auto simp: put_span_def)
  then have "img w = (img (fdv s))(unat a := take 512 (cache_buf (bpb s)))" unfolding w(3) by (rule ext)
  then show ?thesis using w by (auto simp: buf_write_def)
qed

lemma set_cluster_ok:
  assumes s: "fat_ok s" and c: "is_valid_cluster c" "in_table (bpb s) c" and f: "fat_count (bpb s) = 2"
    and l: "unat (reserved_sector_count (bpb s)) + 2 * unat (sectors_per_fat (bpb s)) \<le> cap"
    and a: "a = unat (reserved_sector_count (bpb s)) + unat c * 2 div 512"
  shows "\<exists>s'. set_cluster b dev c n s = Some (0, s') \<and> fat_ok s' \<and> geo (bpb s') = geo (bpb s) \<and>
    img (fdv s') = (img (fdv s))(a := put_link c n (img (fdv s) a), a + unat (sectors_per_fat (bpb s)) := put_link c n (img (fdv s) a))"
proof -
  let ?a = "ucast (reserved_sector_count (bpb s)) + ucast c * 2 div 512 :: u32"
  let ?f = "ucast (sectors_per_fat (bpb s)) :: u32"
  have al: "a + unat (sectors_per_fat (bpb s)) < cap" using c(2) l a by (simp add: in_table_def)
  have ua: "unat ?a = a" using al a cap_le by (subst unat_add_small) (simp_all add: fat_offset)
  have uf: "unat (?a + ?f) = a + unat (sectors_per_fat (bpb s))" using ua al cap_le by (subst unat_add_small) simp_all
  obtain s1 where s1: "buf_read b dev ?a 1 s = Some (0, s1)" "quiet s s1" "cache_sector_start (bpb s1) = ?a" "cache_sector_size (bpb s1) = 1"
    "take 512 (cache_buf (bpb s1)) = img (fdv s) a"
    using buf_read_ok[OF s, of 1 ?a] ua al by auto
  have len: "length (cache_buf (bpb s1)) = 4010" using s1(2) by (simp add: bpb_ok_def)
  define s2 where "s2 = s1\<lparr>bpb := (bpb s1)\<lparr>cache_buf := put_link c n (cache_buf (bpb s1))\<rparr>\<rparr>"
  have off: "unat (ucast c * 2 mod 512 :: u32) = unat c * 2 mod 512" by (rule fat_offset)
  have pk: "poke (unat (ucast c * 2 mod 512 :: u32)) (le16_bytes n) s1 = Some s2"
    unfolding off poke_def s2_def put_link_def using link_offset[of c] len by simp
  have l2: "length (cache_buf (bpb s2)) = 4010" using len link_offset[of c] by (simp add: s2_def put_link_def)
  have t2: "take 512 (cache_buf (bpb s2)) = put_link c n (img (fdv s) a)"
    using take_put_link[of "cache_buf (bpb s1)" c n] len s1(5) by (simp add: s2_def)
  have f2: "fat_count (bpb s2) = 2" "sectors_per_fat (bpb s2) = sectors_per_fat (bpb s)" "geo (bpb s2) = geo (bpb s)"
    using geo_sel[of "bpb s1" "bpb s"] s1(2) f by (simp_all add: s2_def)
  obtain w1 where w1: "buf_write b dev ?a 1 s2 = Some (0, s2\<lparr>fdv := w1\<rparr>)" "up w1" "img w1 = (img (fdv s))(a := put_link c n (img (fdv s) a))"
    using buf_write_ok[of s2 ?a] l2 t2 s1(2) ua al by (auto simp: s2_def)
  obtain w2 where w2: "buf_write b dev (?a + ?f) 1 (s2\<lparr>fdv := w1\<rparr>) = Some (0, s2\<lparr>fdv := w2\<rparr>)" "up w2"
    "img w2 = (img w1)(a + unat (sectors_per_fat (bpb s)) := put_link c n (img (fdv s) a))"
    using buf_write_ok[of "s2\<lparr>fdv := w1\<rparr>" "?a + ?f"] l2 t2 w1(2) uf al by auto
  have wc: "write_copies b dev ?a [0..<unat (fat_count (bpb s2))] s2 = Some (s2\<lparr>fdv := w2\<rparr>)"
  proof -
    have "[0..<unat (fat_count (bpb s2))] = [0, 1]" using f2 by (simp add: upt_rec)
    then show ?thesis using w1(1) w2(1) f2 by simp
  qed
  have lt: "\<not> ucast c * 2 div 512 \<ge> ?f" using c(2) by (simp add: in_table_def word_le_nat_alt fat_offset)
  have "bytes_per_sector (bpb s) = 512" using s by (simp add: bpb_ok_def)
  then have "set_cluster b dev c n s = Some (0, s2\<lparr>fdv := w2\<rparr>)"
    unfolding set_cluster_def Let_def fat16_tabl1_sector_idx_def using c(1) lt s1(1) pk wc by simp
  moreover have "bpb_ok cap (img w2) (bpb s2)"
  proof -
    have tags: "cache_sector_start (bpb s2) = ?a" "cache_sector_size (bpb s2) = 1" using s1(3,4) by (simp_all add: s2_def)
    have bs: "bytes_per_sector (bpb s2) = 512" using s1(2) by (simp add: s2_def bpb_ok_def)
    have "img w2 a = put_link c n (img (fdv s) a)" unfolding w2(3) w1(3) by simp
    then have "coherent cap (img w2) (bpb s2)" unfolding coherent_def tags ua by (simp add: t2)
    then show ?thesis using bs l2 by (simp add: bpb_ok_def)
  qed
  moreover have "img w2 = (img (fdv s))(a := put_link c n (img (fdv s) a), a + unat (sectors_per_fat (bpb s)) := put_link c n (img (fdv s) a))"
    unfolding w2(3) w1(3) by (rule refl)
  ultimately show ?thesis using w2(2) f2(3) by (intro exI[of _ "s2\<lparr>fdv := w2\<rparr>"]) simp
qed

lemma set_cluster_links:
  assumes s: "fat_ok s" and c: "is_valid_cluster c" "in_table (bpb s) c" and f: "fat_count (bpb s) = 2"
    and l: "unat (reserved_sector_count (bpb s)) + 2 * unat (sectors_per_fat (bpb s)) \<le> cap" and m: "mirrored (img (fdv s)) (bpb s)"
  shows "\<exists>s'. set_cluster b dev c n s = Some (0, s') \<and> fat_ok s' \<and> geo (bpb s') = geo (bpb s) \<and> mirrored (img (fdv s')) (bpb s) \<and>
    (\<forall>k x. k < 2 \<longrightarrow> in_table (bpb s) x \<longrightarrow> fat_link (img (fdv s')) (bpb s) k x = (if x = c then n else fat_link (img (fdv s)) (bpb s) k x)) \<and>
    (\<forall>a. a < unat (reserved_sector_count (bpb s)) \<or> unat (reserved_sector_count (bpb s)) + 2 * unat (sectors_per_fat (bpb s)) \<le> a \<longrightarrow>
      img (fdv s') a = img (fdv s) a)"
proof -
  define r f' where "r = unat (reserved_sector_count (bpb s))" and "f' = unat (sectors_per_fat (bpb s))"
  define q where "q = unat c * 2 div 512"
  let ?I = "img (fdv s)"
  obtain s' where s': "set_cluster b dev c n s = Some (0, s')" "fat_ok s'" "geo (bpb s') = geo (bpb s)"
    "img (fdv s') = ?I(r + q := put_link c n (?I (r + q)), r + q + f' := put_link c n (?I (r + q)))"
    using set_cluster_ok[OF s c f l refl, of n] by (auto simp: r_def f'_def q_def)
  have q: "q < f'" using c(2) by (simp add: in_table_def q_def f'_def)
  have mm: "?I (r + f' + k) = ?I (r + k)" if "k < f'" for k using m that by (simp add: mirrored_def r_def f'_def)
  have le: "length (?I a) = 512" for a using img_len s by blast
  have put: "img (fdv s') (r + k * f' + i) = (if i = q then put_link c n (?I (r + k * f' + i)) else ?I (r + k * f' + i))" if "k < 2" "i < f'" for k i
  proof -
    have "k = 0 \<or> k = 1" using that(1) by auto
    then show ?thesis using that(2) q mm[of q] by (auto simp: s'(4) add_ac)
  qed
  have "mirrored (img (fdv s')) (bpb s)"
    unfolding mirrored_def r_def[symmetric] f'_def[symmetric] using put[of 0] put[of 1] mm by simp
  moreover have "fat_link (img (fdv s')) (bpb s) k x = (if x = c then n else fat_link ?I (bpb s) k x)" if "k < 2" "in_table (bpb s) x" for k x
  proof -
    let ?B = "?I (r + k * f' + unat x * 2 div 512)"
    have "fat_link (img (fdv s')) (bpb s) k x = le16_at (if unat x * 2 div 512 = q then put_link c n ?B else ?B) (unat x * 2 mod 512)"
      using put[OF that(1), of "unat x * 2 div 512"] that(2) unfolding fat_link_def in_table_def r_def[symmetric] f'_def[symmetric] by presburger
    also have "\<dots> = (if x = c then n else fat_link ?I (bpb s) k x)"
    proof (cases "x = c")
      case True
      then show ?thesis using put_link_same[OF le] by (simp add: q_def)
    next
      case False
      then have "unat x * 2 div 512 = q \<Longrightarrow> unat x * 2 mod 512 \<noteq> unat c * 2 mod 512" using same_link[of x c] unfolding q_def by blast
      then have "le16_at (if unat x * 2 div 512 = q then put_link c n ?B else ?B) (unat x * 2 mod 512) = le16_at ?B (unat x * 2 mod 512)"
        using put_link_other[OF le, of x c] by presburger
      then show ?thesis using False unfolding fat_link_def r_def[symmetric] f'_def[symmetric] by presburger
    qed
    finally show ?thesis .
  qed
  moreover have "img (fdv s') a = ?I a" if "a < r \<or> r + 2 * f' \<le> a" for a using that q by (auto simp: s'(4))
  ultimately show ?thesis using s'(1-3) by (auto simp: r_def f'_def)
qed

text \<open>Reading a file whose current cluster is the one of its position.\<close>

lemma fat16_read_ok:
  assumes t: "load_fat fs s = Some t" and s: "fat_ok t" and d: "fs_dev_id fs = dev" and l: "layout_ok cap (bpb t)"
    and c: "block_cur fl = ucast (chain_at (img (fdv t)) (bpb t) c (unat (f_pos fl) div cluster_size (bpb t)))" and pos: "f_pos fl \<le> f_size fl"
    and on: "\<forall>k. k * cluster_size (bpb t) < unat (f_size fl) \<longrightarrow> cluster_on cap (bpb t) (chain_at (img (fdv t)) (bpb t) c k)"
    and n: "n < 2 ^ 31" "unat (f_pos fl) + n < 2 ^ 32" and m: "m = min n (unat (f_size fl) - unat (f_pos fl))"
  shows "\<exists>t'. fat16_read b fs fl n s = Some (int m, map (file_byte (img (fdv t)) (bpb t) c) [unat (f_pos fl)..<unat (f_pos fl) + m],
      fl\<lparr>f_pos := f_pos fl + of_nat m,
         block_cur := ucast (chain_at (img (fdv t)) (bpb t) c ((unat (f_pos fl) + m) div cluster_size (bpb t)))\<rparr>, store_fat fs t' s) \<and> quiet t t'"
proof -
  let ?I = "img (fdv t)" and ?p = "bpb t"
  define z where "z = cluster_size ?p"
  define q o' where "q = unat (f_pos fl) div z" and "o' = unat (f_pos fl) mod z"
  have b: "bytes_per_sector ?p = 512" using s by (simp add: bpb_ok_def)
  have z: "z = 512 \<or> z = 1024" using cluster_size_word(2)[OF l b] by (simp add: z_def)
  have po: "unat (f_pos fl) = q * z + o'" by (simp add: q_def o'_def)
  define sz where "sz = (if f_pos fl + of_nat n > f_size fl then f_size fl - f_pos fl else of_nat n)"
  have un: "unat (of_nat n :: u32) = n" using n(1) by (simp add: unat_of_nat_small)
  have "unat (f_pos fl + of_nat n) = unat (f_pos fl) + n" using n(2) un by (subst unat_add_small) simp_all
  moreover have "unat (f_size fl - f_pos fl) = unat (f_size fl) - unat (f_pos fl)" using pos by (simp add: unat_sub)
  ultimately have usz: "unat sz = m" using pos un by (auto simp: sz_def m word_less_nat_alt word_le_nat_alt)
  have szm: "sz = of_nat m" using usz[symmetric] by simp
  have ch: "chain_at ?I ?p (chain_at ?I ?p c q) k = chain_at ?I ?p c (q + k)" for k
    by (simp add: chain_at_def funpow_add add.commute[of q])
  have fb: "file_byte ?I ?p (chain_at ?I ?p c q) i = file_byte ?I ?p c (q * z + i)" for i
    using z by (auto simp: file_byte_def ch z_def[symmetric])
  have ms: "unat (f_pos fl) + m \<le> unat (f_size fl)" using pos m by (auto simp: word_le_nat_alt)
  have on': "\<forall>k. k * z < o' + unat sz \<longrightarrow> cluster_on cap ?p (chain_at ?I ?p (chain_at ?I ?p c q) k)"
  proof (intro allI impI)
    fix k assume "k * z < o' + unat sz"
    then have "(q + k) * z < unat (f_size fl)" using ms po usz by (simp add: add_mult_distrib)
    then show "cluster_on cap ?p (chain_at ?I ?p (chain_at ?I ?p c q) k)" using on by (simp add: ch z_def)
  qed
  obtain t' where t': "fat16_read_loop b dev n sz [] 0 fl t = Some (sint (0 + sz), [] @ map (file_byte ?I ?p (chain_at ?I ?p c q)) [o'..<o' + unat sz],
      fl\<lparr>f_pos := f_pos fl + sz, block_cur := ucast (chain_at ?I ?p (chain_at ?I ?p c q) ((o' + unat sz) div z))\<rparr>, t')" "quiet t t'"
  proof -
    have lt: "unat sz < 2 ^ 31" "length ([] :: u8 list) + unat sz \<le> n" using usz m n(1) by simp_all
    have "block_cur fl = ucast (chain_at ?I ?p c q)" "o' = unat (f_pos fl) mod cluster_size ?p" using c by (simp_all add: q_def o'_def z_def)
    from fat_read_loop_ok[OF s refl refl l this lt(1) on'[unfolded z_def] lt(2)] show ?thesis using that unfolding z_def by blast
  qed
  have "map (file_byte ?I ?p (chain_at ?I ?p c q)) [o'..<o' + m] = map (file_byte ?I ?p c) [unat (f_pos fl)..<unat (f_pos fl) + m]"
    by (rule nth_equalityI) (simp_all add: fb po add.assoc)
  moreover have "chain_at ?I ?p (chain_at ?I ?p c q) ((o' + m) div z) = chain_at ?I ?p c ((unat (f_pos fl) + m) div z)"
    using z by (auto simp: ch po add.assoc)
  moreover have "sint sz = int m" using sint_small[of "int m"] szm m n(1) by simp
  ultimately have "fat16_read b fs fl n s = Some (int m, map (file_byte ?I ?p c) [unat (f_pos fl)..<unat (f_pos fl) + m],
      fl\<lparr>f_pos := f_pos fl + of_nat m, block_cur := ucast (chain_at ?I ?p c ((unat (f_pos fl) + m) div z))\<rparr>, store_fat fs t' s)"
    using t'(1) t d usz szm by (simp add: fat16_read_def Let_def sz_def[symmetric])
  then show ?thesis using t'(2) by (auto simp: z_def)
qed

end

end
