(* ===== verification/Fat16_Layout.thy ===== *)
theory Fat16_Layout
  imports Fat16_Proofs
begin

text \<open>
  On any device, one that fails too, the operations of the FAT16 driver keep the layout of a mounted file system and the
  length of its buffer: nothing is stored behind the page that holds both.
\<close>

section \<open>The functions of the driver\<close>

definition lay :: "'w fat \<Rightarrow> bpb_t \<times> nat" where
  "lay s = (geo (bpb s), length (cache_buf (bpb s)))"

named_theorems lay_rules

lemmas lay_splits = if_splits option.splits sum.splits prod.splits fat16_file_operate_t.splits list.splits

lemma lay_dv [simp]: "lay (s\<lparr>fdv := w\<rparr>) = lay s"
  by (simp add: lay_def)

lemma buf_read_lay [lay_rules]: "buf_read b d a n s = Some (r, s') \<Longrightarrow> lay s' = lay s"
proof (cases "cache_sector_start (bpb s) = a \<and> cache_sector_size (bpb s) = n")
  case False
  assume "buf_read b d a n s = Some (r, s')"
  then obtain q bs w buf where "into (cache_buf (bpb s)) bs = Some buf"
    and e: "s' = s\<lparr>bpb := (bpb s)\<lparr>cache_buf := buf, cache_sector_start := a, cache_sector_size := n\<rparr>, fdv := w\<rparr> \<or>
      s' = s\<lparr>bpb := (bpb s)\<lparr>cache_buf := buf\<rparr>, fdv := w\<rparr>"
    unfolding buf_read_def if_not_P[OF False] Let_def by (auto simp: bind_eq_Some_conv split: if_splits)
  then have "length buf = length (cache_buf (bpb s))" by (auto simp: into_def split: if_splits)
  then show ?thesis using e by (auto simp: lay_def)
qed (simp add: buf_read_def)

lemma buf_write_lay [lay_rules]: "buf_write b d a n s = Some (r, s') \<Longrightarrow> lay s' = lay s"
  by (auto simp: buf_write_def lay_def bind_eq_Some_conv)

lemma poke_lay [lay_rules]: "poke off bs s = Some s' \<Longrightarrow> lay s' = lay s"
  by (auto simp: poke_def lay_def split: if_splits)

lemma read_dir_entry_lay [lay_rules]: "read_dir_entry b d a i s = Some (e, s') \<Longrightarrow> lay s' = lay s"
  by (auto simp: read_dir_entry_def bind_eq_Some_conv Let_def split: if_splits dest!: lay_rules)

lemma write_dir_entry_lay [lay_rules]: "write_dir_entry b d e a i s = Some (r, s') \<Longrightarrow> lay s' = lay s"
  by (auto simp: write_dir_entry_def bind_eq_Some_conv Let_def split: if_splits dest!: lay_rules)

lemma write_copies_lay [lay_rules]: "write_copies b d a is s = Some s' \<Longrightarrow> lay s' = lay s"
  by (induct "is" arbitrary: s) (auto simp: bind_eq_Some_conv dest!: lay_rules)

lemma set_cluster_lay [lay_rules]: "set_cluster b d c n s = Some (r, s') \<Longrightarrow> lay s' = lay s"
  by (auto simp: set_cluster_def bind_eq_Some_conv Let_def split: if_splits dest!: lay_rules)

lemma get_next_cluster_lay [lay_rules]: "get_next_cluster b d c s = Some (r, s') \<Longrightarrow> lay s' = lay s"
  by (auto simp: get_next_cluster_def bind_eq_Some_conv Let_def split: if_splits dest!: lay_rules)

lemma free_cluster_chain_lay [lay_rules]: "free_cluster_chain b d c s = Some s' \<Longrightarrow> lay s' = lay s"
proof -
  assume that: "free_cluster_chain b d c s = Some s'"
  show "lay s' = lay s"
  proof (rule free_cluster_chain.raw_induct[rotated, OF that])
  fix f :: "'a bdev \<Rightarrow> int \<Rightarrow> u16 \<Rightarrow> 'a fat \<Rightarrow> 'a fat option" and b d c s s'
  assume ih: "\<And>b d c s s'. f b d c s = Some s' \<Longrightarrow> lay s' = lay s"
    and e: "(if \<not> is_valid_cluster c then Some s else Option.bind (get_next_cluster b d c s) (\<lambda>(nxt, s1).
      Option.bind (set_cluster b d c nxt s1) (\<lambda>(_, s2). f b d nxt s2))) = Some s'"
  show "lay s' = lay s" using e by (auto simp: bind_eq_Some_conv split: if_splits dest!: lay_rules ih)
qed
qed

lemma malloc_cluster_loop_lay [lay_rules]:
  "malloc_cluster_loop b d k c st pre s = Some r \<Longrightarrow> (case r of Inl s' \<Rightarrow> lay s' = lay s | Inr (_, _, s') \<Rightarrow> lay s' = lay s)"
proof (induct k arbitrary: c st pre s)
  case (Suc k)
  define st' where "st' = (if is_valid_cluster st then st else c)"
  obtain e s1 where e: "(if is_valid_cluster pre then set_cluster b d pre c s else Some (0, s)) = Some (e, s1)"
    and r: "(if e \<noteq> 0 then do { s2 \<leftarrow> free_cluster_chain b d st' s1; Some (Inl s2) } else malloc_cluster_loop b d k (c + 1) st' c s1) = Some r"
    using Suc.prems unfolding malloc_cluster_loop.simps(2) Let_def st'_def[symmetric] by (auto simp: bind_eq_Some_conv)
  have "lay s1 = lay s" using e by (auto split: if_splits dest: set_cluster_lay)
  then show ?case using r Suc.hyps[of "c + 1" st' c s1] by (cases r) (auto simp: bind_eq_Some_conv split: if_splits dest: free_cluster_chain_lay)
qed auto

lemma malloc_free_cluster_lay [lay_rules]: "malloc_free_cluster b d k s = Some (c, s') \<Longrightarrow> lay s' = lay s"
proof -
  assume "malloc_free_cluster b d k s = Some (c, s')"
  then obtain r where r: "malloc_cluster_loop b d (nat k) CLUSTER_START INVALID_CLUSTER INVALID_CLUSTER s = Some r"
    and e: "(case r of Inl s1 \<Rightarrow> Some (INVALID_CLUSTER, s1) | Inr (start, pre, s1) \<Rightarrow> do {
         (err, s2) \<leftarrow> (if k \<ge> 0 then set_cluster b d pre INVALID_CLUSTER s1 else Some (-1, s1));
         if err = 0 then Some (start, s2) else do { s3 \<leftarrow> free_cluster_chain b d start s2; Some (INVALID_CLUSTER, s3) } }) = Some (c, s')"
    by (auto simp: malloc_free_cluster_def bind_eq_Some_conv)
  show "lay s' = lay s"
    using malloc_cluster_loop_lay[OF r] e
    by (cases r) (auto simp: bind_eq_Some_conv split: if_splits prod.splits dest!: set_cluster_lay free_cluster_chain_lay)
qed

lemma operate_loop_lay [lay_rules]: "operate_loop b d op buf cap sz out tot fl s = Some (r, o', fl', s') \<Longrightarrow> lay s' = lay s"
proof (induct "unat sz" arbitrary: sz out tot fl s rule: less_induct)
  case less
  note ih = less.hyps[OF step_progress]
  show ?case
    using less.prems by (subst (asm) operate_loop.simps)
      (auto simp: bind_eq_Some_conv Let_def split: if_splits fat16_file_operate_t.splits dest!: ih lay_rules)
qed

lemma fat16_read_loop_lay [lay_rules]: "fat16_read_loop b d cap sz out tot fl s = Some (r, o', fl', s') \<Longrightarrow> lay s' = lay s"
proof (induct "unat sz" arbitrary: sz out tot fl s rule: less_induct)
  case less
  note ih = less.hyps[OF step_progress]
  show ?case
    using less.prems by (subst (asm) fat16_read_loop.simps) (auto simp: bind_eq_Some_conv Let_def split: if_splits dest!: ih lay_rules)
qed

lemma expand_file_lay [lay_rules]: "expand_file b d sz fl s = Some (r, fl', s') \<Longrightarrow> lay s' = lay s"
  by (auto simp: expand_file_def bind_eq_Some_conv Let_def split: if_splits dest!: lay_rules)

lemma cluster_count_loop_lay [lay_rules]: "cluster_count_loop b d c k s = Some (n, s') \<Longrightarrow> lay s' = lay s"
proof -
  have "case r of (n, s') \<Rightarrow> lay s' = lay s" if "cluster_count_loop b d c k s = Some r" for r
  proof (rule cluster_count_loop.raw_induct[rotated, OF that])
    fix f :: "'a bdev \<Rightarrow> int \<Rightarrow> u16 \<Rightarrow> u32 \<Rightarrow> 'a fat \<Rightarrow> (u32 \<times> 'a fat) option" and b d c k s r
    assume ih: "\<And>b d c k s r. f b d c k s = Some r \<Longrightarrow> (case r of (n, s') \<Rightarrow> lay s' = lay s)"
      and e: "(if c = INVALID_CLUSTER then Some (k, s) else Option.bind (get_next_cluster b d c s) (\<lambda>(nxt, s1). f b d nxt (k + 1) s1)) = Some r"
    show "case r of (n, s') \<Rightarrow> lay s' = lay s" using e by (auto simp: bind_eq_Some_conv split: if_splits dest!: lay_rules ih)
  qed
  then show "cluster_count_loop b d c k s = Some (n, s') \<Longrightarrow> lay s' = lay s" by fastforce
qed

section \<open>Directories\<close>

lemma entry_count_loop_lay [lay_rules]: "entry_count_loop b d a k i s = Some (n, s') \<Longrightarrow> lay s' = lay s"
  by (induct k arbitrary: i s) (auto simp: bind_eq_Some_conv split: if_splits option.splits dest!: lay_rules)

lemma read_file_info_lay [lay_rules]: "read_file_info b d en i p fl s = Some (fl', s') \<Longrightarrow> lay s' = lay s"
  by (auto simp: read_file_info_def get_dir_entry_count_def bind_eq_Some_conv Let_def split: if_splits dest!: lay_rules)

lemma lfn_loop_lay [lay_rules]: "lfn_loop b d a k i j l s = Some (i', l', s') \<Longrightarrow> lay s' = lay s"
  by (induct k arbitrary: i j l s) (auto simp: bind_eq_Some_conv Let_def split: if_splits option.splits dest!: lay_rules)

lemma handle_lfn_entry_lay [lay_rules]: "handle_lfn_entry b d a i p h rn s = Some (e, h', i', rn', s') \<Longrightarrow> lay s' = lay s"
  by (auto simp: handle_lfn_entry_def bind_eq_Some_conv split: if_splits option.splits dest!: lay_rules)

lemma handle_dir_entry_lay [lay_rules]: "handle_dir_entry b d a i p h rn s = Some (e, h', i', rn', s') \<Longrightarrow> lay s' = lay s"
proof -
  assume h: "handle_dir_entry b d a i p h rn s = Some (e, h', i', rn', s')"
  then obtain q s1 where q: "read_dir_entry b d a i s = Some (q, s1)" by (auto simp: handle_dir_entry_def bind_eq_Some_conv)
  have s1: "lay s1 = lay s" using q by (rule read_dir_entry_lay)
  have "s' = s1 \<or> handle_lfn_entry b d a i p h rn s1 = Some (e, h', i', rn', s')"
    using h q by (auto simp: handle_dir_entry_def bind_eq_Some_conv Let_def split: if_splits option.splits)
  then show "lay s' = lay s" using s1 by (auto dest!: handle_lfn_entry_lay)
qed

lemma create_lfn_loop_lay [lay_rules]: "create_lfn_loop b d a m sm n k i s = Some (i', s') \<Longrightarrow> lay s' = lay s"
  by (induct k arbitrary: i s) (auto simp: bind_eq_Some_conv dest!: lay_rules)

lemma create_lfn_lay [lay_rules]: "create_lfn b d a en nm m i s = Some (r, en', i', s') \<Longrightarrow> lay s' = lay s"
  by (auto simp: create_lfn_def bind_eq_Some_conv Let_def split: if_splits dest!: lay_rules)

lemma open_scan_lay [lay_rules]: "open_scan b d a nm k i fi rn s = Some (e, fi', rn', s') \<Longrightarrow> lay s' = lay s"
  by (induct k arbitrary: i fi rn s) (auto simp: bind_eq_Some_conv split: if_splits dest!: lay_rules)

lemma open_walk_lay [lay_rules]: "open_walk b d ns a k fi rn s = Some (e, fi', a', k', s') \<Longrightarrow> lay s' = lay s"
  by (induct ns arbitrary: a k fi rn s) (auto simp: bind_eq_Some_conv split: if_splits option.splits dest!: lay_rules)

lemma fat_readdir_loop_lay [lay_rules]: "fat_readdir_loop b d a rn pos sz s = Some (e, pos', rn', s') \<Longrightarrow> lay s' = lay s"
proof -
  have "case r of (_, _, _, s') \<Rightarrow> lay s' = lay s" if "fat_readdir_loop b d a rn pos sz s = Some r" for r
  proof (rule fat_readdir_loop.raw_induct[rotated, OF that])
    fix f :: "'a bdev \<Rightarrow> int \<Rightarrow> u32 \<Rightarrow> u8 list \<Rightarrow> u32 \<Rightarrow> u32 \<Rightarrow> 'a fat \<Rightarrow> (u8 list option \<times> u32 \<times> u8 list \<times> 'a fat) option" and b d a rn pos sz s r
    assume ih: "\<And>b d a rn pos sz s r. f b d a rn pos sz s = Some r \<Longrightarrow> (case r of (_, _, _, s') \<Rightarrow> lay s' = lay s)"
      and e: "(if \<not> pos < sz then Some (None, pos, rn, s)
        else Option.bind (handle_dir_entry b d a (sint pos) None False rn s) (\<lambda>(e, handled, i, rn', s1).
          if handled then Some (e, of_int i + 1, rn', s1) else f b d a rn' (of_int i + 1) sz s1)) = Some r"
    show "case r of (_, _, _, s') \<Rightarrow> lay s' = lay s" using e by (auto simp: bind_eq_Some_conv split: if_splits dest!: lay_rules ih)
  qed
  then show "fat_readdir_loop b d a rn pos sz s = Some (e, pos', rn', s') \<Longrightarrow> lay s' = lay s" by fastforce
qed

section \<open>The operations\<close>

text \<open>The mounted file systems of a state: the layout and the length of the buffer.\<close>

definition lays :: "'w fat_w \<Rightarrow> nat \<Rightarrow> (bpb_t \<times> nat) option" where
  "lays s i = map_option (\<lambda>p. (geo p, length (cache_buf p))) (fat_bpbs s i)"

lemma load_fat_lay: "load_fat fs s = Some t \<Longrightarrow> lays s (fs_data fs) = Some (lay t)"
  by (auto simp: load_fat_def lays_def lay_def split: option.splits)

lemma store_fat_lays: "lays s (fs_data fs) = Some (lay t') \<Longrightarrow> lays (store_fat fs t' s) = lays s"
  by (auto simp: lays_def store_fat_def lay_def fun_eq_iff)

lemma fat16_read_lays: "fat16_read b fs fl n s = Some (r, out, fl', s') \<Longrightarrow> lays s' = lays s"
  by (auto simp: store_fat_lays fat16_read_def bind_eq_Some_conv Let_def split: option.splits dest!: load_fat_lay fat16_read_loop_lay)

lemma fat16_write_lays: "fat16_write b fs fl buf s = Some (r, fl', s') \<Longrightarrow> lays s' = lays s"
  by (auto simp: store_fat_lays fat16_write_def fat16_file_operate_def bind_eq_Some_conv Let_def split: option.splits if_splits
    dest!: load_fat_lay operate_loop_lay expand_file_lay)

lemma fat16_stat_lays: "fat16_stat b fs fl st s = Some (r, st', fl', s') \<Longrightarrow> lays s' = lays s"
  by (auto simp: store_fat_lays fat16_stat_def get_file_cluster_count_def bind_eq_Some_conv Let_def split: option.splits
    dest!: load_fat_lay cluster_count_loop_lay read_dir_entry_lay)

lemma fat16_close_lays: "fat16_close b now fs fl s = Some (fl', s') \<Longrightarrow> lays s' = lays s"
  by (auto simp: store_fat_lays fat16_close_def bind_eq_Some_conv Let_def split: option.splits if_splits
    dest!: load_fat_lay read_dir_entry_lay write_dir_entry_lay)

lemma fat16_readdir_lays: "fat16_readdir b fs fl d s = Some (r, d', fl', s') \<Longrightarrow> lays s' = lays s"
  by (auto simp: store_fat_lays fat16_readdir_def get_dir_entry_count_def bind_eq_Some_conv Let_def split: option.splits if_splits
    dest!: load_fat_lay fat_readdir_loop_lay entry_count_loop_lay)

lemma fat16_open_lays: "fat16_open b now rn behind fs path fl s = Some (r, fl', s') \<Longrightarrow> lays s' = lays s"
  by (auto simp: store_fat_lays fat16_open_def bind_eq_Some_conv Let_def split: option.splits if_splits
    dest!: load_fat_lay open_walk_lay read_file_info_lay free_cluster_chain_lay create_lfn_lay write_dir_entry_lay)

lemma fat16_seek_lays: "fat16_seek fs fl off wh s = Some (r, fl', s') \<Longrightarrow> s' = s"
  by (auto simp: fat16_seek_def Let_def split: if_splits)

text \<open>The states the operations lead to, with any device, clock and arguments; a page from the allocator has 4096 bytes.\<close>

inductive fat_reach :: "'w bdev \<Rightarrow> 'w fat_w \<Rightarrow> bool" for b where
  do_start: "fat_bpbs s = (\<lambda>_. None) \<Longrightarrow> fat_reach b s"
| do_mount: "fat_reach b s \<Longrightarrow> length page = FAT_PAGE_SIZE \<Longrightarrow> fat16_mount b (Some page) fs major minor s = Some (r, fs', s') \<Longrightarrow> fat_reach b s'"
| do_mount_full: "fat_reach b s \<Longrightarrow> fat16_mount b None fs major minor s = Some (r, fs', s') \<Longrightarrow> fat_reach b s'"
| do_unmount: "fat_reach b s \<Longrightarrow> fat16_unmount b fs s = Some s' \<Longrightarrow> fat_reach b s'"
| do_open: "fat_reach b s \<Longrightarrow> fat16_open b now rn behind fs path fl s = Some (r, fl', s') \<Longrightarrow> fat_reach b s'"
| do_read: "fat_reach b s \<Longrightarrow> fat16_read b fs fl n s = Some (r, out, fl', s') \<Longrightarrow> fat_reach b s'"
| do_write: "fat_reach b s \<Longrightarrow> fat16_write b fs fl buf s = Some (r, fl', s') \<Longrightarrow> fat_reach b s'"
| do_close: "fat_reach b s \<Longrightarrow> fat16_close b now fs fl s = Some (fl', s') \<Longrightarrow> fat_reach b s'"
| do_seek: "fat_reach b s \<Longrightarrow> fat16_seek fs fl off wh s = Some (r, fl', s') \<Longrightarrow> fat_reach b s'"
| do_stat: "fat_reach b s \<Longrightarrow> fat16_stat b fs fl st s = Some (r, st', fl', s') \<Longrightarrow> fat_reach b s'"
| do_readdir: "fat_reach b s \<Longrightarrow> fat16_readdir b fs fl d s = Some (r, d', fl', s') \<Longrightarrow> fat_reach b s'"
| do_ioctl: "fat_reach b s \<Longrightarrow> fat16_ioctl fs fl cmd arg0 arg1 s = Some (r, s') \<Longrightarrow> fat_reach b s'"

definition mounted_ok :: "bpb_t \<Rightarrow> bool" where
  "mounted_ok p \<longleftrightarrow> fat_count p = 2 \<and> take 5 (file_system p) = [70, 65, 84, 49, 54] \<and> length (cache_buf p) = 4010"

definition lay_ok :: "bpb_t \<times> nat \<Rightarrow> bool" where
  "lay_ok l \<longleftrightarrow> fat_count (fst l) = 2 \<and> take 5 (file_system (fst l)) = [70, 65, 84, 49, 54] \<and> snd l = 4010"

lemma mounted_lay: "mounted_ok p \<longleftrightarrow> lay_ok (geo p, length (cache_buf p))"
  by (simp add: mounted_ok_def lay_ok_def geo_def)

lemma fat16_mount_ok:
  assumes "fat16_mount b page fs major minor s = Some (r, fs', s')" "\<And>pg. page = Some pg \<Longrightarrow> length pg = FAT_PAGE_SIZE"
    and "\<And>i p. fat_bpbs s i = Some p \<Longrightarrow> mounted_ok p" "fat_bpbs s' i = Some p"
  shows "mounted_ok p"
proof -
  have "fat_bpbs s' = fat_bpbs s \<or> (\<exists>pg bs buf. page = Some pg \<and> into pg bs = Some buf \<and> validate_bpb (bpb_at buf) \<and>
      fat_bpbs s' = (fat_bpbs s)(fat_next s \<mapsto> bpb_at buf))"
    using assms(1) by (auto simp: fat16_mount_def bind_eq_Some_conv Let_def split: if_splits option.splits) blast+
  moreover have "mounted_ok (bpb_at buf)" if "page = Some pg" "into pg bs = Some buf" "validate_bpb (bpb_at buf)" for pg bs buf
    using that assms(2)[OF that(1)] by (auto simp: mounted_ok_def validate_bpb_def into_def bpb_at_def FAT_PAGE_SIZE_def cache_offset_def split: if_splits)
  ultimately show ?thesis using assms(3,4) by (auto split: if_splits)
qed

lemma lays_mounted:
  assumes "lays s' = lays s" "\<And>i p. fat_bpbs s i = Some p \<Longrightarrow> mounted_ok p" "fat_bpbs s' i = Some p"
  shows "mounted_ok p"
proof -
  have "lays s i = Some (geo p, length (cache_buf p))" unfolding assms(1)[symmetric] using assms(3) by (simp add: lays_def)
  then show ?thesis using assms(2)[of i] by (auto simp: lays_def mounted_lay)
qed

lemma fat_reach_ok: "fat_reach b s \<Longrightarrow> fat_bpbs s i = Some p \<Longrightarrow> mounted_ok p"
proof (induct arbitrary: i p rule: fat_reach.induct)
  case (do_open s now rn behind fs path fl r fl' s')
  then show ?case using lays_mounted[OF fat16_open_lays] by blast
next
  case (do_read s fs fl n r out fl' s')
  then show ?case using lays_mounted[OF fat16_read_lays] by blast
next
  case (do_write s fs fl buf r fl' s')
  then show ?case using lays_mounted[OF fat16_write_lays] by blast
next
  case (do_close s now fs fl fl' s')
  then show ?case using lays_mounted[OF fat16_close_lays] by blast
next
  case (do_stat s fs fl st r st' fl' s')
  then show ?case using lays_mounted[OF fat16_stat_lays] by blast
next
  case (do_readdir s fs fl d r d' fl' s')
  then show ?case using lays_mounted[OF fat16_readdir_lays] by blast
next
  case (do_seek s fs fl off wh r fl' s')
  then show ?case by (auto dest!: fat16_seek_lays)
next
  case (do_mount s page fs major minor r fs' s')
  then show ?case using fat16_mount_ok[of b "Some page" fs major minor s r fs' s'] by blast
next
  case (do_mount_full s fs major minor r fs' s')
  then show ?case using fat16_mount_ok[of b None fs major minor s r fs' s'] by blast
qed (auto simp: fat16_unmount_def fat16_ioctl_def bind_eq_Some_conv split: if_splits)

end
