(* ===== verification/Fat16_Props.thy ===== *)
theory Fat16_Props
  imports Fat16_Layout Ext2_Props
begin

text \<open>
  The properties of the FAT16 driver on the disk driver on the reference controller, and its faults.
\<close>

section \<open>Reading a file\<close>


text \<open>A file of 500 bytes in cluster 5 of the disk of the ext2 example.\<close>

definition ex_bpb :: bpb_t where
  "ex_bpb = \<lparr>bytes_per_sector = 512, sectors_per_cluster = 1, reserved_sector_count = 1, fat_count = 2, root_entry_count = 16, fat_sector_count = 96,
     media_type = 0xf8, sectors_per_fat = 2, file_system = [70, 65, 84, 49, 54, 32, 32, 32], cache_sector_start = 0, cache_sector_size = 0,
     cache_buf = replicate 4010 0\<rparr>"

definition ex_fat :: "ata disk_w devs fat_w" where
  "ex_fat = \<lparr>fat_dv = ex_devs, fat_bpbs = [1 \<mapsto> ex_bpb], fat_next = 2\<rparr>"

abbreviation ex_fs :: fs_desc_t where
  "ex_fs \<equiv> \<lparr>mount_point = [], fs_type = FS_FAT16, fs_ops = FS_FAT16, fs_dev_id = 0, fs_data = 1\<rparr>"

lemma ex_bpb_ok: "bpb_ok n I ex_bpb" "layout_ok 96 ex_bpb"
  by (simp_all add: bpb_ok_def coherent_def layout_ok_def ex_bpb_def)

lemma ex_cluster_on: "cluster_on 96 ex_bpb 5" "cluster_size ex_bpb = 512"
  by (simp_all add: cluster_on_def cluster_sector_def fat16_root_sector_idx_def fat16_tabl1_sector_idx_def ex_bpb_def cluster_size_def)


section \<open>The allocation table\<close>


lemma ex_mirrored: "mirrored (disk_img 0 ex_part ex_devs) ex_bpb"
  by (simp add: mirrored_def part_img_of_def ex_devs_def ex_ata_def)


section \<open>The mounted file systems\<close>


definition boot_sector :: "u8 list" where
  "boot_sector = replicate 16 0 @ [2] @ replicate 37 0 @ [70, 65, 84, 49, 54, 32, 32, 32] @ replicate 450 0"

definition boot_dev :: "unit bdev" where
  "boot_dev = \<lparr>b_open = (\<lambda>_ _ w. Some (0, w)), b_close = (\<lambda>_ w. Some w), b_read = (\<lambda>_ _ n w. Some (int n, boot_sector, w)),
     b_write = (\<lambda>_ _ _ n w. Some (int n, w))\<rparr>"


section \<open>Equivalences\<close>

text \<open>\<open>fat16_read\<close> repeats \<open>fat16_file_operate\<close>, and \<open>get_check_sum\<close> repeats \<open>lfn_checksum\<close>.\<close>

lemma fat16_read_loop_operate: "fat16_read_loop b d cap sz out tot fl s = operate_loop b d fat16_file_operate_read buf cap sz out tot fl s"
proof (induct "unat sz" arbitrary: sz out tot fl s rule: less_induct)
  case less
  note ih = less[OF step_progress]
  show ?case
    by (subst fat16_read_loop.simps, subst operate_loop.simps) (auto simp: Let_def ih intro!: Option.bind_cong split: prod.split)
qed

lemma checksum_loops: "length p = n \<Longrightarrow> lfn_checksum_loop n p s = check_sum_loop p s"
  by (induct p arbitrary: n s) auto

lemma get_check_sum_lfn: "length p = 11 \<Longrightarrow> get_check_sum p = lfn_checksum p"
  by (simp add: get_check_sum_def lfn_checksum_def checksum_loops)

section \<open>Faults\<close>

text \<open>The next cluster is computed from the first link of the sector, not from the link of the cluster.\<close>

lemma next_is_not_the_link: "\<exists>I c. is_valid_cluster c \<and> fat_link I ex_bpb 0 c = 3 \<and> code_next I ex_bpb c = 0xfffc"
  by (rule exI[of _ "\<lambda>_. [0xf8, 0xff, 0xff, 0xff, 3, 0]"], rule exI[of _ 2])
    (simp add: fat_link_def code_next_def ex_bpb_def le16_at_def is_valid_cluster_def CLUSTER_START_def INVALID_CLUSTER_def)

text \<open>With the usual first entry of a table, cluster 8 is its own successor.\<close>

lemma cluster_8_loops:
  assumes "le16_at (I (unat (reserved_sector_count p))) 0 = 0xfff8"
  shows "code_next I p 8 = 8"
  using assms by (simp add: code_next_def)

text \<open>Truncating a file that starts there never ends.\<close>

context block_device
begin

definition stuck :: "'w fat \<Rightarrow> bool" where
  "stuck s \<longleftrightarrow> fat_ok s \<and> fat_count (bpb s) = 2 \<and> 0 < sectors_per_fat (bpb s) \<and>
     unat (reserved_sector_count (bpb s)) + 2 * unat (sectors_per_fat (bpb s)) \<le> cap \<and> le16_at (img (fdv s) (unat (reserved_sector_count (bpb s)))) 0 = 0xfff8"

lemma stuck_step:
  assumes "stuck s"
  shows "\<exists>s1 s2. get_next_cluster b dev 8 s = Some (8, s1) \<and> set_cluster b dev 8 8 s1 = Some (0, s2) \<and> stuck s2"
proof -
  let ?r = "unat (reserved_sector_count (bpb s))" and ?I = "img (fdv s)"
  have ok: "fat_ok s" "fat_count (bpb s) = 2" "?r + 2 * unat (sectors_per_fat (bpb s)) \<le> cap" "le16_at (?I ?r) 0 = 0xfff8"
    and f: "0 < unat (sectors_per_fat (bpb s))" using assms by (simp_all add: stuck_def word_less_nat_alt)
  obtain s1 where s1: "get_next_cluster b dev 8 s = Some (8, s1)" "quiet s s1"
    using get_next_cluster_ok[OF ok(1), of 8] f ok(3) unfolding cluster_8_loops[of ?I "bpb s", OF ok(4)] by auto
  have g: "geo (bpb s1) = geo (bpb s)" "fat_ok s1" "img (fdv s1) = ?I" using s1(2) by blast+
  note gs = geo_sel[OF g(1)]
  have v: "is_valid_cluster 8" "in_table (bpb s1) 8" using f unfolding in_table_def gs by (simp_all add: is_valid_cluster_def CLUSTER_START_def INVALID_CLUSTER_def)
  have s1': "fat_count (bpb s1) = 2" "unat (reserved_sector_count (bpb s1)) + 2 * unat (sectors_per_fat (bpb s1)) \<le> cap"
    "?r = unat (reserved_sector_count (bpb s1)) + unat (8 :: u16) * 2 div 512" using ok gs by simp_all
  obtain s2 where s2: "set_cluster b dev 8 8 s1 = Some (0, s2)" "fat_ok s2" "geo (bpb s2) = geo (bpb s)"
    "img (fdv s2) = ?I(?r := put_link 8 8 (?I ?r), ?r + unat (sectors_per_fat (bpb s)) := put_link 8 8 (?I ?r))"
    using set_cluster_ok[OF g(2) v s1', of 8] unfolding g(1,3) gs(6) by blast
  note gs2 = geo_sel[OF s2(3)]
  have "img (fdv s2) ?r = put_link 8 8 (?I ?r)" using f unfolding s2(4) by simp
  moreover have "le16_at (put_link 8 8 (?I ?r)) (unat (0 :: u16) * 2 mod 512) = le16_at (?I ?r) (unat (0 :: u16) * 2 mod 512)"
    by (rule put_link_other) (use ok(1) img_len in simp_all)
  ultimately have "le16_at (img (fdv s2) ?r) 0 = 0xfff8" using ok(4) by simp
  then have "stuck s2" using s2(2) ok f unfolding stuck_def gs2 by (simp add: word_less_nat_alt)
  then show ?thesis using s1(1) s2(1) by blast
qed

lemma free_chain_diverges: "stuck s \<Longrightarrow> free_cluster_chain b dev 8 s = None"
proof (rule ccontr)
  assume st: "stuck s" and "free_cluster_chain b dev 8 s \<noteq> None"
  then obtain s' where r: "free_cluster_chain b dev 8 s = Some s'" by auto
  have "\<not> (b' = b \<and> d = dev \<and> c = 8 \<and> stuck t)" if "free_cluster_chain b' d c t = Some t'" for b' d c t t'
  proof (rule free_cluster_chain.raw_induct[rotated, OF that])
    fix f :: "'w bdev \<Rightarrow> int \<Rightarrow> u16 \<Rightarrow> 'w fat \<Rightarrow> 'w fat option" and b' d c s s'
    assume ih: "\<And>b' d c s s'. f b' d c s = Some s' \<Longrightarrow> \<not> (b' = b \<and> d = dev \<and> c = 8 \<and> stuck s)"
      and e: "(if \<not> is_valid_cluster c then Some s else Option.bind (get_next_cluster b' d c s) (\<lambda>(nxt, s1).
        Option.bind (set_cluster b' d c nxt s1) (\<lambda>(_, s2). f b' d nxt s2))) = Some s'"
    show "\<not> (b' = b \<and> d = dev \<and> c = 8 \<and> stuck s)"
    proof
      assume a: "b' = b \<and> d = dev \<and> c = 8 \<and> stuck s"
      then obtain s1 s2 where "get_next_cluster b dev 8 s = Some (8, s1)" "set_cluster b dev 8 8 s1 = Some (0, s2)" "stuck s2" using stuck_step by blast
      moreover from this have "f b dev 8 s2 = Some s'" using e a by (simp add: is_valid_cluster_def CLUSTER_START_def INVALID_CLUSTER_def)
      ultimately show False using ih by blast
    qed
  qed
  then show False using st r by blast
qed

end

text \<open>A file created by \<open>fat16_open\<close> has no attribute, and an entry without attribute is never found.\<close>

lemma created_entry_hidden: "init_dir_entry now name 0 = Some en \<Longrightarrow> should_handle_dir_entry en \<le> 0"
  by (auto simp: init_dir_entry_def should_handle_dir_entry_def bind_eq_Some_conv Let_def ATTR_LFN_def ATTR_ARCHIVE_def ATTR_DIR_def)

text \<open>The clusters handed out are always those from 2 on, whatever the table says of them.\<close>

lemma malloc_loop_start:
  "malloc_cluster_loop b d k c st pre s = Some (Inr (st', pre', s')) \<Longrightarrow> is_valid_cluster st \<Longrightarrow> st' = st"
  by (induct k arbitrary: c st pre s) (auto simp: bind_eq_Some_conv Let_def split: if_splits)

lemma malloc_ignores_table:
  assumes "malloc_free_cluster b d k s = Some (c, s')"
  shows "c = 2 \<or> c = INVALID_CLUSTER"
proof -
  have "st = 2 \<or> st = INVALID_CLUSTER" if "malloc_cluster_loop b d (nat k) CLUSTER_START INVALID_CLUSTER INVALID_CLUSTER s = Some (Inr (st, pre, s1))" for st pre s1
  proof (cases "nat k")
    case (Suc j)
    have v: "\<not> is_valid_cluster INVALID_CLUSTER" "is_valid_cluster CLUSTER_START" by (simp_all add: is_valid_cluster_def INVALID_CLUSTER_def CLUSTER_START_def)
    then show ?thesis using that Suc malloc_loop_start[of b d j "CLUSTER_START + 1" CLUSTER_START CLUSTER_START s st pre s1]
      by (simp add: CLUSTER_START_def)
  qed (use that in auto)
  moreover obtain r where "malloc_cluster_loop b d (nat k) CLUSTER_START INVALID_CLUSTER INVALID_CLUSTER s = Some r"
    using assms by (auto simp: malloc_free_cluster_def bind_eq_Some_conv)
  ultimately show ?thesis using assms by (cases r) (auto simp: malloc_free_cluster_def bind_eq_Some_conv split: if_splits)
qed

text \<open>
  The place kept for the directory entry of an open file is the first sector of the file itself: closing it
  writes the entry there.
\<close>

lemma open_keeps_data_sector: "open_walk b d ns a k fi rn s = Some (Some bs, fi', a', k', s') \<Longrightarrow> get_sector_start (bpb s') (fat_entry_at bs) = Some a'"
  by (induct ns arbitrary: a k fi rn s) (auto simp: bind_eq_Some_conv split: if_splits option.splits)

lemma truncate_hangs:
  assumes "disk_up dev minor dr part room (fdv s)" "bpb_ok (min room (2 ^ 23)) (disk_img dr part (fdv s)) (bpb s)" "fat_count (bpb s) = 2"
    and "0 < sectors_per_fat (bpb s)" "unat (reserved_sector_count (bpb s)) + 2 * unat (sectors_per_fat (bpb s)) \<le> min room (2 ^ 23)"
    and "le16_at (disk_img dr part (fdv s) (unat (reserved_sector_count (bpb s)))) 0 = 0xfff8"
  shows "free_cluster_chain disk_bdev dev 8 s = None"
  using disk0.disk.free_chain_diverges[OF disk0.disk.stuck_def[THEN iffD2]] assms by blast

end
