(* ===== verification/Elf.thy ===== *)
theory Elf
  imports Disk
begin

text \<open>
  Loading the kernel: \<open>read_disk\<close> (\<open>common/io/disk.c\<close>), \<open>reload_elf_file\<close> (\<open>common/elf/parse.c\<close>) and
  \<open>load_kernel\<close> (\<open>loader/loader_32.c\<close>), which run before paging is on.  Memory is
  a function from physical addresses to bytes; the file lies in memory from \<open>file_buffer\<close> on and is read where it lies, so a segment that is
  placed over it changes what is read next.  Addresses wrap at \<open>2 ^ 32\<close>.  The counters of the loops are compared with
  unsigned fields and are unsigned here.  Turning paging on and the jump to the kernel are not modelled: the result of
  \<open>load_kernel\<close> is the address it jumps to.
\<close>

section \<open>Model\<close>

type_synonym bytes = "u32 \<Rightarrow> u8"

definition rd16 :: "bytes \<Rightarrow> u32 \<Rightarrow> u16" where
  "rd16 m a = ucast (m a) OR push_bit 8 (ucast (m (a + 1)))"

definition rd32 :: "bytes \<Rightarrow> u32 \<Rightarrow> u32" where
  "rd32 m a = ucast (m a) OR push_bit 8 (ucast (m (a + 1))) OR push_bit 16 (ucast (m (a + 2))) OR push_bit 24 (ucast (m (a + 3)))"

text \<open>The fields of \<open>Elf32_Ehdr\<close> and \<open>Elf32_Phdr\<close> that are used, by their offsets.\<close>

definition e_entry :: "bytes \<Rightarrow> u32 \<Rightarrow> u32" where "e_entry m h = rd32 m (h + 24)"
definition e_phoff :: "bytes \<Rightarrow> u32 \<Rightarrow> u32" where "e_phoff m h = rd32 m (h + 28)"
definition e_phnum :: "bytes \<Rightarrow> u32 \<Rightarrow> u16" where "e_phnum m h = rd16 m (h + 44)"
definition p_type :: "bytes \<Rightarrow> u32 \<Rightarrow> u32" where "p_type m p = rd32 m p"
definition p_offset :: "bytes \<Rightarrow> u32 \<Rightarrow> u32" where "p_offset m p = rd32 m (p + 4)"
definition p_paddr :: "bytes \<Rightarrow> u32 \<Rightarrow> u32" where "p_paddr m p = rd32 m (p + 12)"
definition p_filesz :: "bytes \<Rightarrow> u32 \<Rightarrow> u32" where "p_filesz m p = rd32 m (p + 16)"
definition p_memsz :: "bytes \<Rightarrow> u32 \<Rightarrow> u32" where "p_memsz m p = rd32 m (p + 20)"
definition PT_LOAD :: u32 where "PT_LOAD = 1"
definition ELF_MAGIC :: u8 where "ELF_MAGIC = 0x7F"
definition sizeof_phdr :: u32 where "sizeof_phdr = 32"

lemma inc_progress: "j < (n :: u32) \<Longrightarrow> 2 ^ 32 - unat (j + 1) < 2 ^ 32 - unat j"
proof -
  assume "j < n"
  then have "unat j + 1 < 2 ^ 32" using unsigned_less[of n, where ?'a = nat] by (simp add: word_less_nat_alt)
  then show ?thesis by (simp add: unat_add_small)
qed

function copy_seg :: "u32 \<Rightarrow> u32 \<Rightarrow> u32 \<Rightarrow> u32 \<Rightarrow> bytes \<Rightarrow> bytes" where
  "copy_seg phdr src dest j m = (if j < p_filesz m phdr then copy_seg phdr src dest (j + 1) (m(dest + j := m (src + j))) else m)"
  by pat_completeness auto
termination by (relation "measure (\<lambda>(phdr, src, dest, j, m). 2 ^ 32 - unat j)") (auto dest: inc_progress)

function zero_seg :: "u32 \<Rightarrow> u32 \<Rightarrow> u32 \<Rightarrow> bytes \<Rightarrow> bytes" where
  "zero_seg phdr dest j m = (if j < p_memsz m phdr - p_filesz m phdr then zero_seg phdr dest (j + 1) (m(dest + j := 0)) else m)"
  by pat_completeness auto
termination by (relation "measure (\<lambda>(phdr, dest, j, m). 2 ^ 32 - unat j)") (auto dest: inc_progress)

declare copy_seg.simps [simp del] zero_seg.simps [simp del]

definition load_seg :: "u32 \<Rightarrow> u32 \<Rightarrow> bytes \<Rightarrow> bytes" where
  "load_seg file_buffer phdr m =
     (let m1 = copy_seg phdr (file_buffer + p_offset m phdr) (p_paddr m phdr) 0 m
      in zero_seg phdr (p_paddr m1 phdr + p_filesz m1 phdr) 0 m1)"

function load_segs :: "u32 \<Rightarrow> nat \<Rightarrow> bytes \<Rightarrow> bytes" where
  "load_segs file_buffer i m =
     (if i < unat (e_phnum m file_buffer) then
        let phdr = file_buffer + e_phoff m file_buffer + sizeof_phdr * of_nat i
        in load_segs file_buffer (i + 1) (if p_type m phdr \<noteq> PT_LOAD then m else load_seg file_buffer phdr m)
      else m)"
  by pat_completeness auto
termination
proof (relation "measure (\<lambda>(file_buffer, i, m). 65536 - i)", goal_cases)
  case (2 file_buffer i m x)
  then show ?case using unsigned_less[of "e_phnum m file_buffer", where ?'a = nat] by simp
qed simp

declare load_segs.simps [simp del]

definition is_elf :: "bytes \<Rightarrow> u32 \<Rightarrow> bool" where
  "is_elf m h \<longleftrightarrow> m h = ELF_MAGIC \<and> m (h + 1) = 69 \<and> m (h + 2) = 76 \<and> m (h + 3) = 70"

definition reload_elf_file :: "u32 \<Rightarrow> bytes \<Rightarrow> u32 \<times> bytes" where
  "reload_elf_file file_buffer m =
     (if \<not> is_elf m file_buffer then (0, m)
      else let m' = load_segs file_buffer 0 m in (e_entry m' file_buffer, m'))"

section \<open>Reading from the disk\<close>

definition read_disk_cmd :: "'h ports \<Rightarrow> u32 \<Rightarrow> u32 \<Rightarrow> 'h \<Rightarrow> 'h" where
  "read_disk_cmd P sector count h =
     (let h1 = p_outb P 0x1F6 0xE0 h;
          h2 = p_outb P 0x1F2 (ucast (drop_bit 8 count)) h1;
          h3 = p_outb P 0x1F3 (ucast (drop_bit 24 sector)) h2;
          h4 = p_outb P 0x1F4 0 h3;
          h5 = p_outb P 0x1F5 0 h4;
          h6 = p_outb P 0x1F2 (ucast count) h5;
          h7 = p_outb P 0x1F3 (ucast sector) h6;
          h8 = p_outb P 0x1F4 (ucast (drop_bit 8 sector)) h7;
          h9 = p_outb P 0x1F5 (ucast (drop_bit 16 sector)) h8
      in p_outb P 0x1F7 0x24 h9)"

partial_function (option) read_disk_wait :: "'h ports \<Rightarrow> 'h \<Rightarrow> 'h option" where
  "read_disk_wait P h = (case p_inb P 0x1F7 h of (st, h1) \<Rightarrow> if st AND 0x88 \<noteq> 0x8 then read_disk_wait P h1 else Some h1)"

fun read_disk_words :: "'h ports \<Rightarrow> nat \<Rightarrow> 'h \<Rightarrow> u8 list \<times> 'h" where
  "read_disk_words P 0 h = ([], h)"
| "read_disk_words P (Suc k) h = (case p_inw P 0x1F0 h of (v, h1) \<Rightarrow> case read_disk_words P k h1 of (bs, h2) \<Rightarrow> (le16_bytes v @ bs, h2))"

fun read_disk_loop :: "'h ports \<Rightarrow> nat \<Rightarrow> 'h \<Rightarrow> (u8 list \<times> 'h) option" where
  "read_disk_loop P 0 h = Some ([], h)"
| "read_disk_loop P (Suc k) h = do {
     h1 \<leftarrow> read_disk_wait P h;
     case read_disk_words P (unat (SECTOR_SIZE div 2)) h1 of (bs, h2) \<Rightarrow> do {
       (cs, h3) \<leftarrow> read_disk_loop P k h2;
       Some (bs @ cs, h3)
     }
   }"

text \<open>Bytes stored in memory one after the other.\<close>

fun put_bytes :: "u32 \<Rightarrow> u8 list \<Rightarrow> bytes \<Rightarrow> bytes" where
  "put_bytes a [] m = m"
| "put_bytes a (c # cs) m = put_bytes (a + 1) cs (m(a := c))"

definition read_disk :: "'h ports \<Rightarrow> u32 \<Rightarrow> nat \<Rightarrow> u32 \<Rightarrow> bytes \<Rightarrow> 'h \<Rightarrow> (bytes \<times> 'h) option" where
  "read_disk P sector count buf m h = do {
     (bs, h') \<leftarrow> read_disk_loop P count (read_disk_cmd P sector (of_nat count) h);
     Some (put_bytes buf bs m, h')
   }"

definition SYS_KERNEL_LOAD_ADDR :: u32 where "SYS_KERNEL_LOAD_ADDR = 0x100000"

definition load_kernel :: "'h ports \<Rightarrow> bytes \<Rightarrow> 'h \<Rightarrow> (u32 \<times> bytes \<times> 'h) option" where
  "load_kernel P m h = do {
     (m1, h1) \<leftarrow> read_disk P 100 500 SYS_KERNEL_LOAD_ADDR m h;
     let (kernel_entry, m2) = reload_elf_file SYS_KERNEL_LOAD_ADDR m1;
     Some (kernel_entry, m2, h1)
   }"

end
