(* ===== verification/Elf_Props.thy ===== *)
theory Elf_Props
  imports Elf Disk_Proofs
begin

text \<open>
  The loader brings the kernel from the disk to where its program headers say.
\<close>

section \<open>Fields of the file\<close>

text \<open>The bytes \<open>I\<close> of a file of length \<open>len\<close>, and that they lie in memory from \<open>buf\<close> on.\<close>

definition holds :: "u32 \<Rightarrow> (nat \<Rightarrow> u8) \<Rightarrow> nat \<Rightarrow> bytes \<Rightarrow> bool" where
  "holds buf I len m \<longleftrightarrow> (\<forall>k < len. m (buf + of_nat k) = I k)"

definition at16 :: "(nat \<Rightarrow> u8) \<Rightarrow> nat \<Rightarrow> u16" where
  "at16 I k = ucast (I k) OR push_bit 8 (ucast (I (k + 1)))"

definition at32 :: "(nat \<Rightarrow> u8) \<Rightarrow> nat \<Rightarrow> u32" where
  "at32 I k = ucast (I k) OR push_bit 8 (ucast (I (k + 1))) OR push_bit 16 (ucast (I (k + 2))) OR push_bit 24 (ucast (I (k + 3)))"

lemma holds_at: "holds buf I len m \<Longrightarrow> k < len \<Longrightarrow> m (buf + of_nat k) = I k"
  by (simp add: holds_def)

lemma addr_add: "buf + of_nat k + of_nat i = buf + (of_nat (k + i) :: u32)"
  by simp

lemma holds_rd32: "holds buf I len m \<Longrightarrow> k + 4 \<le> len \<Longrightarrow> rd32 m (buf + of_nat k) = at32 I k"
  using holds_at[of buf I len m k] holds_at[of buf I len m "k + 1"] holds_at[of buf I len m "k + 2"] holds_at[of buf I len m "k + 3"]
  by (simp add: rd32_def at32_def add_ac)

lemma holds_rd16: "holds buf I len m \<Longrightarrow> k + 2 \<le> len \<Longrightarrow> rd16 m (buf + of_nat k) = at16 I k"
  using holds_at[of buf I len m k] holds_at[of buf I len m "k + 1"] by (simp add: rd16_def at16_def add_ac)

section \<open>Segments\<close>

record seg =
  sg_type :: u32
  sg_off :: nat
  sg_addr :: u32
  sg_file :: nat
  sg_mem :: nat

definition phdr_at :: "(nat \<Rightarrow> u8) \<Rightarrow> nat \<Rightarrow> seg" where
  "phdr_at I k = \<lparr>sg_type = at32 I k, sg_off = unat (at32 I (k + 4)), sg_addr = at32 I (k + 12), sg_file = unat (at32 I (k + 16)), sg_mem = unat (at32 I (k + 20))\<rparr>"

definition elf_phoff :: "(nat \<Rightarrow> u8) \<Rightarrow> nat" where "elf_phoff I = unat (at32 I 28)"
definition elf_phnum :: "(nat \<Rightarrow> u8) \<Rightarrow> nat" where "elf_phnum I = unat (at16 I 44)"

definition phdr :: "(nat \<Rightarrow> u8) \<Rightarrow> nat \<Rightarrow> seg" where
  "phdr I i = phdr_at I (elf_phoff I + 32 * i)"

definition load_list :: "(nat \<Rightarrow> u8) \<Rightarrow> nat \<Rightarrow> seg list" where
  "load_list I i = filter (\<lambda>s. sg_type s = PT_LOAD) (map (phdr I) [i..<elf_phnum I])"

text \<open>A segment in memory: the bytes of the file, then zeros.\<close>

definition place :: "(nat \<Rightarrow> u8) \<Rightarrow> seg \<Rightarrow> bytes \<Rightarrow> bytes" where
  "place I s m = (\<lambda>a. let j = unat (a - sg_addr s) in if j < sg_file s then I (sg_off s + j) else if j < sg_mem s then 0 else m a)"

text \<open>The segment lies in the file and is not placed over it.\<close>

definition seg_ok :: "u32 \<Rightarrow> nat \<Rightarrow> seg \<Rightarrow> bool" where
  "seg_ok buf len s \<longleftrightarrow> sg_file s \<le> sg_mem s \<and> sg_off s + sg_file s \<le> len \<and> (\<forall>k < len. sg_mem s \<le> unat (buf + of_nat k - sg_addr s))"

definition elf_ok :: "u32 \<Rightarrow> nat \<Rightarrow> (nat \<Rightarrow> u8) \<Rightarrow> bool" where
  "elf_ok buf len I \<longleftrightarrow> I 0 = 0x7F \<and> I 1 = 69 \<and> I 2 = 76 \<and> I 3 = 70 \<and> 52 \<le> len \<and> elf_phoff I + 32 * elf_phnum I \<le> len \<and> len < 2 ^ 32 \<and>
     (\<forall>s\<in>set (load_list I 0). seg_ok buf len s)"

lemma unat_sub_eq: "unat (a - d) = unat j \<longleftrightarrow> a = d + (j :: u32)"
  by (metis add_diff_cancel_left' diff_add_cancel add.commute word_unat_eq_iff)

lemma copy_seg_eq:
  assumes "holds buf I len m" "k + 32 \<le> len" "at32 I (k + 16) = fs" "off + unat fs \<le> len" "\<forall>i < len. unat fs \<le> unat (buf + of_nat i - dest)" "j \<le> fs"
  shows "copy_seg (buf + of_nat k) (buf + of_nat off) dest j m =
    (\<lambda>a. if unat j \<le> unat (a - dest) \<and> unat (a - dest) < unat fs then I (off + unat (a - dest)) else m a)"
  using assms(1,6)
proof (induct "unat fs - unat j" arbitrary: j m rule: less_induct)
  case less
  have f: "p_filesz m (buf + of_nat k) = fs" using holds_rd32[OF less.prems(1), of "k + 16"] assms(2,3) by (simp add: p_filesz_def add.assoc)
  show ?case
  proof (cases "j < fs")
    case True
    let ?m = "m(dest + j := m (buf + of_nat off + j))"
    have uj: "unat (j + 1) = unat j + 1" using True unsigned_less[of fs, where ?'a = nat] by (simp add: word_less_nat_alt unat_add_small)
    have src: "m (buf + of_nat off + j) = I (off + unat j)"
      using holds_at[OF less.prems(1), of "off + unat j"] True assms(4) by (simp add: word_less_nat_alt add.assoc)
    have hold: "holds buf I len ?m"
      unfolding holds_def
    proof (intro allI impI)
      fix i assume i: "i < len"
      then have "unat j < unat (buf + of_nat i - dest)" using assms(5) True by (auto simp: word_less_nat_alt)
      then have "buf + of_nat i \<noteq> dest + j" by auto
      then show "?m (buf + of_nat i) = I i" using holds_at[OF less.prems(1) i] by simp
    qed
    have "copy_seg (buf + of_nat k) (buf + of_nat off) dest j m = copy_seg (buf + of_nat k) (buf + of_nat off) dest (j + 1) ?m"
      using True f by (subst copy_seg.simps) simp
    also have "\<dots> = (\<lambda>a. if unat (j + 1) \<le> unat (a - dest) \<and> unat (a - dest) < unat fs then I (off + unat (a - dest)) else ?m a)"
      by (rule less.hyps[OF _ hold]) (use True uj in \<open>auto simp: word_less_nat_alt word_le_nat_alt\<close>)
    also have "\<dots> = (\<lambda>a. if unat j \<le> unat (a - dest) \<and> unat (a - dest) < unat fs then I (off + unat (a - dest)) else m a)"
    proof (rule ext)
      fix a
      show "(if unat (j + 1) \<le> unat (a - dest) \<and> unat (a - dest) < unat fs then I (off + unat (a - dest)) else ?m a) =
        (if unat j \<le> unat (a - dest) \<and> unat (a - dest) < unat fs then I (off + unat (a - dest)) else m a)"
        using unat_sub_eq[of a dest j] src True uj by (auto simp: word_less_nat_alt)
    qed
    finally show ?thesis .
  next
    case False
    then have "j = fs" using less.prems(2) by simp
    then show ?thesis using f by (subst copy_seg.simps) (auto simp: fun_eq_iff)
  qed
qed

lemma zero_seg_eq:
  assumes "holds buf I len m" "k + 32 \<le> len" "at32 I (k + 20) - at32 I (k + 16) = n" "\<forall>i < len. unat n \<le> unat (buf + of_nat i - dest)" "j \<le> n"
  shows "zero_seg (buf + of_nat k) dest j m = (\<lambda>a. if unat j \<le> unat (a - dest) \<and> unat (a - dest) < unat n then 0 else m a)"
  using assms(1,5)
proof (induct "unat n - unat j" arbitrary: j m rule: less_induct)
  case less
  have f: "p_memsz m (buf + of_nat k) - p_filesz m (buf + of_nat k) = n"
    using holds_rd32[OF less.prems(1), of "k + 16"] holds_rd32[OF less.prems(1), of "k + 20"] assms(2,3) by (simp add: p_filesz_def p_memsz_def add.assoc)
  show ?case
  proof (cases "j < n")
    case True
    let ?m = "m(dest + j := 0)"
    have uj: "unat (j + 1) = unat j + 1" using True unsigned_less[of n, where ?'a = nat] by (simp add: word_less_nat_alt unat_add_small)
    have hold: "holds buf I len ?m"
      unfolding holds_def
    proof (intro allI impI)
      fix i assume i: "i < len"
      then have "unat j < unat (buf + of_nat i - dest)" using assms(4) True by (auto simp: word_less_nat_alt)
      then have "buf + of_nat i \<noteq> dest + j" by auto
      then show "?m (buf + of_nat i) = I i" using holds_at[OF less.prems(1) i] by simp
    qed
    have "zero_seg (buf + of_nat k) dest j m = zero_seg (buf + of_nat k) dest (j + 1) ?m" using True f by (subst zero_seg.simps) simp
    also have "\<dots> = (\<lambda>a. if unat (j + 1) \<le> unat (a - dest) \<and> unat (a - dest) < unat n then 0 else ?m a)"
      by (rule less.hyps[OF _ hold]) (use True uj in \<open>auto simp: word_less_nat_alt word_le_nat_alt\<close>)
    also have "\<dots> = (\<lambda>a. if unat j \<le> unat (a - dest) \<and> unat (a - dest) < unat n then 0 else m a)"
    proof (rule ext)
      fix a
      show "(if unat (j + 1) \<le> unat (a - dest) \<and> unat (a - dest) < unat n then 0 else ?m a) = (if unat j \<le> unat (a - dest) \<and> unat (a - dest) < unat n then 0 else m a)"
        using unat_sub_eq[of a dest j] True uj by (auto simp: word_less_nat_alt)
    qed
    finally show ?thesis .
  next
    case False
    then have "j = n" using less.prems(2) by simp
    then show ?thesis using f by (subst zero_seg.simps) (auto simp: fun_eq_iff)
  qed
qed

lemma behind_file:
  assumes "unat fs \<le> unat ms"
  shows "unat (a - (pa + fs)) < unat (ms - fs) \<longleftrightarrow> unat fs \<le> unat (a - pa) \<and> unat (a - pa) < unat (ms :: u32)"
proof -
  define x where "x = a - pa"
  have e: "a - (pa + fs) = x - fs" by (simp add: x_def)
  have m: "unat (ms - fs) = unat ms - unat fs" "unat ms < 2 ^ 32" using assms unsigned_less[of ms, where ?'a = nat] by (simp_all add: unat_sub_if_size)
  show ?thesis
  proof (cases "unat fs \<le> unat x")
    case True
    then have "unat (x - fs) = unat x - unat fs" by (simp add: unat_sub_if_size)
    then show ?thesis unfolding e x_def[symmetric] m(1) using True by linarith
  next
    case False
    then have "unat (x - fs) = unat x + 2 ^ 32 - unat fs" by (simp add: unat_sub_if_size word_size)
    then show ?thesis unfolding e x_def[symmetric] m(1) using False m(2) assms by linarith
  qed
qed

lemma load_seg_eq:
  assumes h: "holds buf I len m" and k: "k + 32 \<le> len" and s: "seg_ok buf len (phdr_at I k)"
  shows "load_seg buf (buf + of_nat k) m = place I (phdr_at I k) m \<and> holds buf I len (place I (phdr_at I k) m)"
proof -
  define fs ms pa off where "fs = at32 I (k + 16)" and "ms = at32 I (k + 20)" and "pa = at32 I (k + 12)" and "off = unat (at32 I (k + 4))"
  have seg: "unat fs \<le> unat ms" "off + unat fs \<le> len" "\<And>i. i < len \<Longrightarrow> unat ms \<le> unat (buf + of_nat i - pa)"
    using s by (simp_all add: seg_ok_def phdr_at_def fs_def ms_def pa_def off_def)
  have rd: "rd32 m (buf + of_nat k + of_nat i) = at32 I (k + i)" if "i + 4 \<le> 32" for i
    using holds_rd32[OF h, of "k + i"] k that by (simp add: add.assoc)
  have f: "buf + p_offset m (buf + of_nat k) = buf + of_nat off" "p_paddr m (buf + of_nat k) = pa"
    using rd[of 4] rd[of 12] by (simp_all add: p_offset_def p_paddr_def off_def pa_def)
  let ?m = "\<lambda>a. if unat (0 :: u32) \<le> unat (a - pa) \<and> unat (a - pa) < unat fs then I (off + unat (a - pa)) else m a"
  have c: "copy_seg (buf + of_nat k) (buf + of_nat off) pa 0 m = ?m"
    by (rule copy_seg_eq[OF h k]) (use seg in \<open>auto simp: fs_def intro: order_trans\<close>)
  have ge: "\<not> unat (buf + of_nat i - pa) < unat fs" if "i < len" for i using seg(1) seg(3)[OF that] by linarith
  have h1: "holds buf I len ?m" unfolding holds_def using holds_at[OF h] ge by simp
  have rd1: "rd32 ?m (buf + of_nat k + of_nat i) = at32 I (k + i)" if "i + 4 \<le> 32" for i
    using holds_rd32[OF h1, of "k + i"] k that by (simp add: add.assoc)
  have f1: "p_paddr ?m (buf + of_nat k) = pa" "p_filesz ?m (buf + of_nat k) = fs"
    using rd1[of 12] rd1[of 16] by (simp_all add: p_paddr_def p_filesz_def pa_def fs_def)
  note rest = behind_file[OF seg(1)]
  have z: "zero_seg (buf + of_nat k) (pa + fs) 0 ?m = (\<lambda>a. if unat (0 :: u32) \<le> unat (a - (pa + fs)) \<and> unat (a - (pa + fs)) < unat (ms - fs) then 0 else ?m a)"
  proof (rule zero_seg_eq[OF h1 k])
    show "at32 I (k + 20) - at32 I (k + 16) = ms - fs" by (simp add: ms_def fs_def)
    show "\<forall>i<len. unat (ms - fs) \<le> unat (buf + of_nat i - (pa + fs))" using rest seg(3) by (meson leD not_less)
  qed simp
  have "load_seg buf (buf + of_nat k) m = (\<lambda>a. if unat (0 :: u32) \<le> unat (a - (pa + fs)) \<and> unat (a - (pa + fs)) < unat (ms - fs) then 0 else ?m a)"
    unfolding load_seg_def f c Let_def f1 z ..
  also have "\<dots> = place I (phdr_at I k) m"
  proof (rule ext)
    fix a
    have "place I (phdr_at I k) m a = (if unat (a - pa) < unat fs then I (off + unat (a - pa)) else if unat (a - pa) < unat ms then 0 else m a)"
      by (simp add: place_def phdr_at_def Let_def fs_def ms_def pa_def off_def)
    then show "(if unat (0 :: u32) \<le> unat (a - (pa + fs)) \<and> unat (a - (pa + fs)) < unat (ms - fs) then 0 else ?m a) = place I (phdr_at I k) m a"
      unfolding rest by simp
  qed
  finally have e: "load_seg buf (buf + of_nat k) m = place I (phdr_at I k) m" .
  have "holds buf I len (place I (phdr_at I k) m)"
    unfolding holds_def using holds_at[OF h] s by (auto simp: place_def Let_def seg_ok_def not_less dest: order_trans)
  with e show ?thesis by simp
qed

lemma load_segs_eq:
  assumes "holds buf I len m" "52 \<le> len" "elf_phoff I + 32 * elf_phnum I \<le> len" "\<forall>s\<in>set (load_list I i). seg_ok buf len s"
  shows "load_segs buf i m = fold (place I) (load_list I i) m \<and> holds buf I len (fold (place I) (load_list I i) m)"
  using assms(1,4)
proof (induct "elf_phnum I - i" arbitrary: i m)
  case 0
  have "unat (e_phnum m buf) = elf_phnum I" using holds_rd16[OF 0(2), of 44] assms(2) by (simp add: e_phnum_def elf_phnum_def)
  then show ?case using 0 by (simp add: load_segs.simps load_list_def)
next
  case (Suc n)
  have num: "unat (e_phnum m buf) = elf_phnum I" and off: "e_phoff m buf = of_nat (elf_phoff I)"
    using holds_rd16[OF Suc.prems(1), of 44] holds_rd32[OF Suc.prems(1), of 28] assms(2) by (simp_all add: e_phnum_def elf_phnum_def e_phoff_def elf_phoff_def)
  let ?k = "elf_phoff I + 32 * i"
  have i: "i < elf_phnum I" using Suc(2) by simp
  then have k: "?k + 32 \<le> len" using assms(3) by simp
  have ad: "buf + e_phoff m buf + sizeof_phdr * of_nat i = buf + of_nat ?k" unfolding off by (simp add: sizeof_phdr_def)
  have ty: "p_type m (buf + of_nat ?k) = sg_type (phdr I i)" using holds_rd32[OF Suc.prems(1), of ?k] k by (simp add: p_type_def phdr_def phdr_at_def)
  have ll: "load_list I i = (if sg_type (phdr I i) = PT_LOAD then phdr I i # load_list I (i + 1) else load_list I (i + 1))"
    using i by (simp add: load_list_def upt_conv_Cons)
  let ?m = "if sg_type (phdr I i) \<noteq> PT_LOAD then m else load_seg buf (buf + of_nat ?k) m"
  have step: "load_segs buf i m = load_segs buf (i + 1) ?m" using num i ty by (subst load_segs.simps) (simp add: ad Let_def)
  have m: "?m = (if sg_type (phdr I i) = PT_LOAD then place I (phdr I i) m else m)" "holds buf I len ?m"
    using load_seg_eq[OF Suc.prems(1) k] Suc.prems ll by (auto simp: phdr_def)
  have "load_segs buf (i + 1) ?m = fold (place I) (load_list I (i + 1)) ?m \<and> holds buf I len (fold (place I) (load_list I (i + 1)) ?m)"
    using Suc.hyps(1)[OF _ m(2)] Suc(2) Suc.prems(2) ll by (auto split: if_splits)
  then show ?case unfolding step using m(1) ll by (auto split: if_splits)
qed

text \<open>Loading a file in memory.\<close>

lemma reload_elf_eq:
  assumes "holds buf I len m" "elf_ok buf len I"
  shows "reload_elf_file buf m = (at32 I 24, fold (place I) (load_list I 0) m)"
proof -
  have ok: "52 \<le> len" "elf_phoff I + 32 * elf_phnum I \<le> len" "\<forall>s\<in>set (load_list I 0). seg_ok buf len s"
    and mg: "I 0 = 0x7F" "I 1 = 69" "I 2 = 76" "I 3 = 70" using assms(2) by (simp_all add: elf_ok_def)
  have e: "is_elf m buf" using holds_at[OF assms(1), of 0] holds_at[OF assms(1), of 1] holds_at[OF assms(1), of 2] holds_at[OF assms(1), of 3] ok mg
    by (simp add: is_elf_def ELF_MAGIC_def)
  note l = load_segs_eq[OF assms(1) ok]
  have "e_entry (fold (place I) (load_list I 0) m) buf = at32 I 24"
    using holds_rd32[of buf I len "fold (place I) (load_list I 0) m" 24] l ok(1) by (simp add: e_entry_def)
  then show ?thesis using e l by (simp add: reload_elf_file_def Let_def)
qed

section \<open>Reading the file from the disk\<close>

definition boot_disk :: disk_t where
  "boot_disk = no_disk\<lparr>port_base := 0x1F0\<rparr>"

lemma boot_disk_sel: "port_base boot_disk = 0x1F0" "drive boot_disk = of_nat 0"
  by (simp_all add: boot_disk_def no_disk_def)

lemma read_disk_cmd_eq: "drop_bit 24 s = 0 \<Longrightarrow> read_disk_cmd P s c h = ata_cmd P boot_disk s c COMMAND_READ h"
  by (simp add: read_disk_cmd_def ata_cmd_def disk_port_def disk_drive_def boot_disk_def no_disk_def PORT_DRIVE_def PORT_SECTOR_COUNT_def
    PORT_SECTOR_LOW_def PORT_SECTOR_MIDDLE_def PORT_SECTOR_HIGH_def PORT_STATUS_COMMAND_def COMMAND_READ_def)

lemma read_disk_words_eq: "read_disk_words P k h = ata_read_loop P boot_disk k h"
  by (induct k arbitrary: h) (simp_all add: disk_port_def boot_disk_sel PORT_DATA_def)

context ata_hw
begin

lemma read_disk_wait_ok:
  assumes "base = 0x1F0" "a_mode (ctl h) = Reading lba left k"
  shows "\<exists>h'. read_disk_wait P h = Some h' \<and> ctl h' = (ctl h)\<lparr>a_busy := 0\<rparr>"
  using assms(2)
proof (induct "a_busy (ctl h)" arbitrary: h)
  case 0
  obtain h' where h': "p_inb P (base + 7) h = (fst (ata_inb 7 (ctl h)), h')" "ctl h' = snd (ata_inb 7 (ctl h))" by (rule inbE)
  have s: "ata_inb 7 (ctl h) = (0x58, ctl h)" using 0 by (simp add: ata_inb_def)
  have "read_disk_wait P h = Some h'" using s h'(1) assms(1) by (subst read_disk_wait.simps) simp
  then show ?case using h'(2) s 0 by (auto intro!: exI[of _ h'])
next
  case (Suc n)
  obtain h' where h': "p_inb P (base + 7) h = (fst (ata_inb 7 (ctl h)), h')" "ctl h' = snd (ata_inb 7 (ctl h))" by (rule inbE)
  have s: "ata_inb 7 (ctl h) = (0x80, (ctl h)\<lparr>a_busy := n\<rparr>)" using Suc(2) by (simp add: ata_inb_def flip: Suc(2))
  have "read_disk_wait P h = read_disk_wait P h'" using s h'(1) assms(1) by (subst read_disk_wait.simps) simp
  moreover have "\<exists>h''. read_disk_wait P h' = Some h'' \<and> ctl h'' = (ctl h')\<lparr>a_busy := 0\<rparr>" using Suc(1)[of h'] h'(2) s Suc(3) by simp
  ultimately show ?case using h'(2) s by auto
qed

lemma read_disk_loop_ok:
  assumes b: "base = 0x1F0"
  shows "a_mode (ctl h) = Reading lba (Suc k) 0 \<Longrightarrow> (\<forall>i. length (a_media (ctl h) (a_drive (ctl h)) i) = 256) \<Longrightarrow>
    \<exists>h'. read_disk_loop P (Suc k) h = Some (sectors (a_media (ctl h) (a_drive (ctl h))) lba (Suc k), h') \<and> a_mode (ctl h') = Ready \<and>
      a_media (ctl h') = a_media (ctl h) \<and> a_cap (ctl h') = a_cap (ctl h)"
proof (induct k arbitrary: h lba)
  case (0 h lba)
  obtain h1 where h1: "read_disk_wait P h = Some h1" "ctl h1 = (ctl h)\<lparr>a_busy := 0\<rparr>" using read_disk_wait_ok[OF b 0(1)] by blast
  obtain h2 where h2: "ata_read P boot_disk 512 h1 = (512, bytes_of (a_media (ctl h) (a_drive (ctl h)) lba), h2)" "ctl h2 = after_sector (ctl h1)"
    using read_sector[of boot_disk h1 lba 1] boot_disk_sel b h1(2) 0 by auto
  then have "read_disk_words P (unat (SECTOR_SIZE div 2)) h1 = (bytes_of (a_media (ctl h) (a_drive (ctl h)) lba), h2)"
    by (auto simp: read_disk_words_eq ata_read_def SECTOR_SIZE_def split: prod.splits)
  then show ?case using h1 h2(2) 0(1) by (simp add: after_sector_def)
next
  case (Suc k h lba)
  obtain h1 where h1: "read_disk_wait P h = Some h1" "ctl h1 = (ctl h)\<lparr>a_busy := 0\<rparr>" using read_disk_wait_ok[OF b Suc.prems(1)] by blast
  obtain h2 where h2: "ata_read P boot_disk 512 h1 = (512, bytes_of (a_media (ctl h) (a_drive (ctl h)) lba), h2)" "ctl h2 = after_sector (ctl h1)"
    using read_sector[of boot_disk h1 lba "Suc (Suc k)"] boot_disk_sel b h1(2) Suc.prems by auto
  then have w: "read_disk_words P (unat (SECTOR_SIZE div 2)) h1 = (bytes_of (a_media (ctl h) (a_drive (ctl h)) lba), h2)"
    by (auto simp: read_disk_words_eq ata_read_def SECTOR_SIZE_def split: prod.splits)
  have c: "a_mode (ctl h2) = Reading (lba + 1) (Suc k) 0" "a_media (ctl h2) = a_media (ctl h)" "a_drive (ctl h2) = a_drive (ctl h)" "a_cap (ctl h2) = a_cap (ctl h)"
    using h2(2) h1(2) Suc.prems(1) by (simp_all add: after_sector_def)
  obtain h3 where "read_disk_loop P (Suc k) h2 = Some (sectors (a_media (ctl h) (a_drive (ctl h))) (lba + 1) (Suc k), h3)" "a_mode (ctl h3) = Ready"
    "a_media (ctl h3) = a_media (ctl h)" "a_cap (ctl h3) = a_cap (ctl h)"
    using Suc.hyps[OF c(1)] c(2-4) Suc.prems(2) by auto
  then show ?case using h1 w by (simp del: read_disk_loop.simps add: read_disk_loop.simps(2)[of P "Suc k"])
qed

lemma read_disk_ok:
  assumes b: "base = 0x1F0" and cl: "\<forall>d i. length (a_media (ctl h) d i) = 256" and n: "0 < n" "n < 2 ^ 16" and s: "unat s + n \<le> a_cap (ctl h) 0" "s < 2 ^ 24"
  shows "\<exists>h'. read_disk P s n buf m h = Some (put_bytes buf (sectors (a_media (ctl h) 0) (unat s) n) m, h') \<and> a_mode (ctl h') = Ready \<and>
    a_media (ctl h') = a_media (ctl h) \<and> a_cap (ctl h') = a_cap (ctl h)"
proof -
  have d: "drop_bit 24 s = 0" using s(2) by (simp add: drop_bit_eq_div word_less_nat_alt word_unat_eq_iff unat_div_distrib)
  obtain a where a: "ctl (ata_cmd P boot_disk s (of_nat n) COMMAND_READ h) = ata_exec COMMAND_READ a" "ata_lba a = unat s" "ata_cnt a = n" "a_drive a = 0"
    "a_media a = a_media (ctl h)" "a_cap a = a_cap (ctl h)"
    using cmd_exec[of boot_disk 0 n s COMMAND_READ h] boot_disk_sel b n by auto
  let ?h = "ata_cmd P boot_disk s (of_nat n) COMMAND_READ h"
  have e: "a_mode (ctl ?h) = Reading (unat s) n 0" "a_media (ctl ?h) = a_media (ctl h)" "a_drive (ctl ?h) = 0" "a_cap (ctl ?h) = a_cap (ctl h)"
    using a s(1) by (simp_all add: ata_exec_def COMMAND_READ_def)
  obtain k where k: "n = Suc k" using n(1) by (cases n) auto
  obtain h' where "read_disk_loop P n ?h = Some (sectors (a_media (ctl h) 0) (unat s) n, h')" "a_mode (ctl h') = Ready" "a_media (ctl h') = a_media (ctl h)"
    "a_cap (ctl h') = a_cap (ctl h)"
    using read_disk_loop_ok[OF b, of ?h "unat s" k] e cl unfolding k by metis
  then show ?thesis unfolding read_disk_def read_disk_cmd_eq[OF d] by simp
qed

end

lemma put_bytes_eq: "length bs \<le> 2 ^ 32 \<Longrightarrow> put_bytes a bs m = (\<lambda>x. if unat (x - a) < length bs then bs ! unat (x - a) else m x)"
proof (induct bs arbitrary: a m)
  case (Cons c cs)
  have "put_bytes (a + 1) cs (m(a := c)) x = (if unat (x - a) < length (c # cs) then (c # cs) ! unat (x - a) else m x)" for x
  proof (cases "x = a")
    case True
    have "a - (a + 1) = (- 1 :: u32)" by simp
    then have "unat (a - (a + 1)) = 2 ^ 32 - 1" by (simp only:) (simp add: unsigned_minus_1_eq_mask mask_eq_exp_minus_1)
    then show ?thesis using Cons True by simp
  next
    case False
    define y where "y = x - a"
    have e: "x - (a + 1) = y - 1" by (simp add: y_def)
    have "1 \<le> unat y" using False by (simp add: y_def unat_gt_0 Suc_le_eq)
    then have "unat (x - a) = Suc (unat (x - (a + 1)))" unfolding y_def[symmetric] e by (simp add: unat_sub_if_size)
    then show ?thesis using Cons False by simp
  qed
  then show ?case by auto
qed simp

section \<open>The loader\<close>

text \<open>The file that \<open>load_kernel\<close> reads: 500 sectors from sector 100 on.\<close>

definition kernel_file :: "ata \<Rightarrow> nat \<Rightarrow> u8" where
  "kernel_file a k = sectors (a_media a 0) 100 500 ! k"

lemma length_sectors: "(\<And>i. length (M i) = 256) \<Longrightarrow> length (sectors M lba n) = 512 * n"
  by (induct n arbitrary: lba) simp_all

text \<open>
  C14: On a controller whose first drive holds, from sector 100 on, an ELF file of at most 256000 bytes that is not
  overwritten by its own segments, the loader ends and returns the entry point of the file; memory is the file at 1 MB, overlaid by each
  loadable segment in turn, with the bytes of the file at its physical address followed by zeros up to its size in memory, and is
  unchanged elsewhere; the controller is idle again and the disk unchanged.
\<close>

theorem load_kernel_places_segments:
  assumes "clean a" "600 \<le> a_cap a 0" "elf_ok SYS_KERNEL_LOAD_ADDR 256000 (kernel_file a)"
  shows "\<exists>a'. load_kernel ata_ports m a = Some (at32 (kernel_file a) 24, fold (place (kernel_file a)) (load_list (kernel_file a) 0)
      (\<lambda>x. if unat (x - SYS_KERNEL_LOAD_ADDR) < 256000 then kernel_file a (unat (x - SYS_KERNEL_LOAD_ADDR)) else m x), a') \<and>
    a_mode a' = Ready \<and> a_media a' = a_media a"
proof -
  let ?bs = "sectors (a_media a 0) 100 500" and ?b = SYS_KERNEL_LOAD_ADDR
  have l: "length ?bs = 256000" using assms(1) by (subst length_sectors) (simp_all add: clean_def)
  define m1 where "m1 = (\<lambda>x. if unat (x - ?b) < 256000 then kernel_file a (unat (x - ?b)) else m x)"
  have m1: "put_bytes ?b ?bs m = m1" unfolding m1_def kernel_file_def using l by (subst put_bytes_eq) simp_all
  obtain a' where a': "read_disk ata_ports 100 500 ?b m a = Some (m1, a')" "a_mode a' = Ready" "a_media a' = a_media a"
    using ata0.read_disk_ok[of a 500 100 ?b m] assms(1,2) m1 by (auto simp: PRIMARY_PORT_BASE_def clean_def)
  have "holds ?b (kernel_file a) 256000 m1" by (simp add: holds_def m1_def unat_of_nat_small)
  from reload_elf_eq[OF this assms(3)] a' show ?thesis unfolding load_kernel_def m1_def by simp
qed

text \<open>A disk whose sectors 100 and on hold a file with one segment of 4 bytes and 12 zeros, placed at 64 KB.\<close>

definition ex_elf_bytes :: "u8 list" where
  "ex_elf_bytes = [0x7F, 69, 76, 70] @ replicate 20 0 @ [0, 0, 1, 0] @ [52, 0, 0, 0] @ replicate 12 0 @ [1, 0] @ replicate 6 0 @
     [1, 0, 0, 0] @ [84, 0, 0, 0] @ [0, 0, 1, 0] @ [0, 0, 1, 0] @ [4, 0, 0, 0] @ [16, 0, 0, 0] @ replicate 8 0 @ [1, 2, 3, 4] @ replicate 424 0"

definition ex_boot :: ata where
  "ex_boot = \<lparr>a_count = (0, 0), a_low = (0, 0), a_mid = (0, 0), a_high = (0, 0), a_drive = 0, a_mode = Ready, a_busy = 0, a_lat = 2, a_wlat = 0,
     a_cap = (\<lambda>_. 1000), a_media = (\<lambda>_ _. words_of ex_elf_bytes 256)\<rparr>"

lemma length_ex_elf: "length ex_elf_bytes = 512"
  by (simp add: ex_elf_bytes_def)

lemma ex_kernel_file: "k < 512 \<Longrightarrow> kernel_file ex_boot k = ex_elf_bytes ! k"
proof -
  assume k: "k < 512"
  have "bytes_of (words_of ex_elf_bytes 256) = ex_elf_bytes" using bytes_of_words[of 256 ex_elf_bytes] length_ex_elf by simp
  moreover have "sectors M 100 500 = bytes_of (M 100) @ sectors M 101 499" for M using sectors_simps(3)[of M 100 499] by simp
  ultimately show ?thesis using k by (simp add: kernel_file_def ex_boot_def nth_append length_ex_elf)
qed

lemma ex_at:
  "at32 (kernel_file ex_boot) 24 = 0x10000" "elf_phoff (kernel_file ex_boot) = 52" "elf_phnum (kernel_file ex_boot) = 1"
  "phdr_at (kernel_file ex_boot) 52 = \<lparr>sg_type = 1, sg_off = 84, sg_addr = 0x10000, sg_file = 4, sg_mem = 16\<rparr>"
  by (simp_all add: at32_def at16_def elf_phoff_def elf_phnum_def phdr_at_def ex_kernel_file) (simp_all add: ex_elf_bytes_def nth_append)

lemma ex_load_list: "load_list (kernel_file ex_boot) 0 = [\<lparr>sg_type = 1, sg_off = 84, sg_addr = 0x10000, sg_file = 4, sg_mem = 16\<rparr>]"
  by (simp add: load_list_def ex_at phdr_def PT_LOAD_def)

lemma ex_elf_ok: "elf_ok SYS_KERNEL_LOAD_ADDR 256000 (kernel_file ex_boot)"
proof -
  have "16 \<le> unat (SYS_KERNEL_LOAD_ADDR + of_nat k - 0x10000)" if "k < 256000" for k
  proof -
    have "SYS_KERNEL_LOAD_ADDR + of_nat k - 0x10000 = of_nat (0xF0000 + k)" by (simp add: SYS_KERNEL_LOAD_ADDR_def)
    then show ?thesis using that by (simp only: unat_of_nat_small) (subst unat_of_nat_small; simp)
  qed
  then have s: "seg_ok SYS_KERNEL_LOAD_ADDR 256000 \<lparr>sg_type = 1, sg_off = 84, sg_addr = 0x10000, sg_file = 4, sg_mem = 16\<rparr>" by (simp add: seg_ok_def)
  have "kernel_file ex_boot 0 = 0x7F" "kernel_file ex_boot 1 = 69" "kernel_file ex_boot 2 = 76" "kernel_file ex_boot 3 = 70"
    by (simp_all add: ex_kernel_file) (simp_all add: ex_elf_bytes_def)
  then show ?thesis using s by (simp add: elf_ok_def ex_at ex_load_list)
qed

theorem load_kernel_places_segments_witness:
  "\<exists>m a'. load_kernel ata_ports (\<lambda>_. 0) ex_boot = Some (0x10000, m, a') \<and> m 0x10002 = 3 \<and> m 0x10004 = 0"
proof -
  have c: "clean ex_boot" by (simp add: clean_def ex_boot_def words_of_def)
  have cap: "600 \<le> a_cap ex_boot 0" by (simp add: ex_boot_def)
  have b: "kernel_file ex_boot 86 = 3" using ex_kernel_file[of 86] by (simp add: ex_elf_bytes_def nth_append)
  show ?thesis
    using load_kernel_places_segments[OF c cap ex_elf_ok, of "\<lambda>_. 0"] b by (auto simp: ex_load_list ex_at place_def)
qed

end
