(* ===== verification/Spec2Isabelle.thy ===== *)
theory Spec2Isabelle
  imports Datetime Paging_Proofs Linked_List Fixq Mblock Checksum Thread_Props Net_In Net_Props Console_Props Malloc_Props Cstring_Props Vfs_Props Ext2_Props Process_Props Fat16_Props Elf_Props
begin

text \<open>
  Verification of clean_os, a small 32-bit x86 operating system written in C.

  \<^bold>\<open>The program.\<close>  A loader reads the kernel from the disk and places its segments.  The kernel keeps physical and
  virtual pages in bitmaps and builds two-level page tables; on these stand a heap, the threads with a round-robin
  scheduler, and the processes that fork, wait and exit.  Devices (terminal, disk) are reached through a table of drivers;
  a switch of file systems (devfs, ext2, FAT16) stands on the devices and gives every task its file descriptors.  The
  network stack has a working thread that takes messages from a queue and runs Ethernet, ARP, IPv4 with fragments, ICMP, UDP
  and raw sockets over packets made of chained blocks.

  \<^bold>\<open>Conventions.\<close>  C integers are words of their width (\<open>Prelude\<close>), with wrap-around; sizes that cannot overflow
  are natural numbers, signed values that do not overflow are integers.  \<open>None\<close> of an option is a fault of the program: an
  access outside an array, a NULL pointer, a division by zero, or a loop that does not end.  Error codes are values.
  Loops that need not end (walks along pointers, polling of a status register, chains on a disk) are
  \<^theory_text>\<open>partial_function (option)\<close>, so that a theorem with a result of the form \<open>Some\<close> says that they end; the others have a
  termination proof.  The one bound is in \<open>open_scan\<close> (FAT16), whose 256 rounds are the range of its 8-bit counter.
  Hardware is a record of functions on a state; a reference controller after the ATA standard shows that the
  hypotheses on it can hold.

  \<^bold>\<open>The library.\<close>
  \<^item> \<open>Math_Util\<close> (\<open>common/tool/math.h\<close>), \<open>Datetime\<close> (\<open>common/tool/datetime.h\<close>), \<open>Cstring\<close> (\<open>common/lib/string.c\<close>, \<open>stdio.c\<close>,
    \<open>stack.c\<close>): arithmetic, the calendar, strings, formatted output.  The calendar conversion is compared with a
    day-by-day calendar and is its own inverse; \<open>strtok\<close> ends and cuts a string at its separators; \<open>vsprintf\<close> writes what a renderer
    of the format computes.
  \<^item> \<open>Bitmap\<close> (\<open>common/lib/bitmap.c\<close>), \<open>Pool\<close>, \<open>Page_Alloc\<close>, \<open>Paging\<close>, \<open>Paging_Proofs\<close> (\<open>kernel/memory/paging.c\<close>):
    a scan finds the first run of free bits; pages that are handed out are not in use; mapping and unmapping a range change the
    address translation of that range alone.
  \<^item> \<open>Node_Heap\<close>, \<open>Linked_List\<close> (\<open>common/lib/list.c\<close>), \<open>Net_List\<close> (\<open>kernel/net/nlist.c\<close>): both doubly linked lists in one heap of nodes,
    with the addresses they may touch.
  \<^item> \<open>Ring_Queue\<close> (\<open>common/lib/block_queue.c\<close> and the ring of \<open>fixq.c\<close>), \<open>Fixq\<close> (\<open>kernel/net/fixq.c\<close>, \<open>kernel/thread/schedule/segment.c\<close>):
    bounded FIFO queues; the message queue as a system of concurrent senders and receivers, with the tokens of its two
    semaphores as invariant.
  \<^item> \<open>Thread\<close>, \<open>Thread_Proofs\<close>, \<open>Thread_Props\<close> (\<open>kernel/thread/thread.c\<close>): the queues of the scheduler are lists of \<open>list.c\<close>; \<open>schedule\<close>
    refines an operation on lists of tasks, the running task is never in a queue, every ready task runs after a
    bounded number of ticks, process ids are unique.
  \<^item> \<open>Process\<close>, \<open>Process_Props\<close> (\<open>kernel/thread/process.c\<close>, \<open>schedule/completion.c\<close>): fork, wait, exit; an exit hands the children to
    init, wakes the waiting parent and keeps the queues consistent.
  \<^item> \<open>Malloc\<close>, \<open>Malloc_Proofs\<close>, \<open>Malloc_Props\<close> (\<open>glibc/memory/malloc/malloc.c\<close>): arenas of eight block sizes; blocks do not overlap, a
    freed block is free again and an empty arena goes back to the pages.
  \<^item> \<open>Console\<close>, \<open>Console_Proofs\<close>, \<open>Console_Props\<close> (\<open>kernel/device/tty/console.c\<close>): refinement of a terminal of 25 lines, and the cells a string
    may change.
  \<^item> \<open>Vfs\<close>, \<open>Vfs_Props\<close> (\<open>kernel/device/device.c\<close>, \<open>kernel/fs/fs.c\<close>, \<open>file.c\<close>, \<open>devfs.c\<close>): the reference counts of open files agree with the
    descriptors, over all sequences of system calls.
  \<^item> \<open>Disk\<close>, \<open>Disk_Proofs\<close> (\<open>kernel/device/disk/disk.c\<close>), \<open>Elf\<close>, \<open>Elf_Props\<close> (\<open>common/io/disk.c\<close>, \<open>common/elf/parse.c\<close>, \<open>loader/loader_32.c\<close>):
    reading and writing sectors, and loading the kernel: every loadable segment ends up at its address, its tail cleared.
  \<^item> \<open>Ext2\<close>, \<open>Ext2_Proofs\<close>, \<open>Ext2_Props\<close> (\<open>kernel/fs/ext2.c\<close>), \<open>Fat16\<close>, \<open>Fat16_Dir\<close>, \<open>Fat16_Proofs\<close>, \<open>Fat16_Layout\<close>, \<open>Fat16_Props\<close>
    (\<open>kernel/fs/fat16fs.c\<close>): reading a file gives the bytes of its blocks, inodes written are read back, the copies of a FAT stay equal; a
    mounted FAT16 file system keeps the layout of its page on any device.
  \<^item> \<open>Mblock\<close>, \<open>Pktbuf\<close>, \<open>Pktbuf_Access\<close>, \<open>Pktbuf_Struct\<close>, \<open>Pktbuf_Ops\<close>, \<open>Checksum\<close> (\<open>kernel/net/mblock.c\<close>, \<open>pktbuf.c\<close>, \<open>util.h\<close>): every
    operation on packets is an operation on the byte list they hold; the checksum over chained blocks is the one of the bytes.
  \<^item> \<open>Ip_Addr\<close>, \<open>Netif\<close>, \<open>Arp\<close>, \<open>Ipv4\<close>, \<open>Sock\<close>, \<open>Net_In\<close> (\<open>kernel/net/ip.c\<close>, \<open>netif.c\<close>, \<open>ether.c\<close>, \<open>arp.c\<close>, \<open>sock.c\<close>, \<open>raw.c\<close>, \<open>udp.c\<close>,
    \<open>icmp.c\<close>, \<open>exmsg.c\<close>, \<open>driver/rtl8139.c\<close>) are the stack; \<open>Ether_Proofs\<close>, \<open>Ipv4_Proofs\<close>, \<open>Frag_Out\<close>, \<open>Net_Props\<close> show which
    bytes reach the wire when a datagram is sent, whole or in fragments.

  \<^bold>\<open>Interfaces.\<close>  \<open>pool\<close> is what an allocator of resources promises, interpreted for pages (\<open>pages\<close>), process ids (\<open>pids\<close>) and
  memory blocks (\<open>mb\<close>).  \<open>deque\<close> is what a linked list promises, for \<open>list.c\<close> (\<open>llist\<close>) and \<open>nlist.c\<close> (\<open>nlist\<close>).
  \<open>bounded_queue\<close> is a FIFO queue with a capacity, for \<open>fixq.c\<close> (\<open>fq\<close>) and \<open>block_queue.c\<close> (\<open>bq\<close>).  \<open>page_source\<close> is what the heap needs of
  its pages, for the page allocator of the kernel (\<open>kheap\<close>).  \<open>ata_hw\<close> is a controller seen through its ports, for the reference
  controller (\<open>ata0\<close>); \<open>ata_part\<close> extends it by a partition that is open as a device, is a sublocale of \<open>block_device\<close>, on
  which the file systems rest, and is interpreted as \<open>disk0\<close>.

  \<^bold>\<open>Where the code does not do what it means to.\<close>  Some theorems have hypotheses that the code does not establish: consoles overlap, more
  than ten tasks that wake in one tick overrun an array, a FAT16 chain is followed through the wrong link.  Lemmas next to the
  definitions show such behaviour on concrete states.

  \<^bold>\<open>Not modelled.\<close>  Assembler and what only it can do (boot sector, real mode and BIOS calls, entering interrupts, the jump to
  the kernel or to a program), the descriptor tables and the set-up of timer, interrupt controller and PCI devices, which are sequences of
  port writes; the reception ring of the network card; the dispatch of system calls, which only casts arguments; logging;
  the user programs, which only call the system; the tests; \<open>hash.h\<close> and \<open>hlist.h\<close>, which the kernel does not use.
\<close>

end
